(* ===== verification/Rounding.thy ===== *)
theory Rounding
  imports Complex_Main
begin

text \<open>
  The real-number side of IEEE 754 binary64 arithmetic: the numbers a double can hold
  (without the upper exponent bound), round-to-nearest-even onto them, and the laws that
  every client uses. The laws are stated as the locale \<open>rounding\<close>; its lemmas (bounds and
  signs survive rounding) are what the money code relies on.
\<close>

section \<open>The contract of a rounding\<close>

locale rounding =
  fixes F :: "real set" and rd :: "real \<Rightarrow> real"
  assumes rd_mono: "x \<le> y \<Longrightarrow> rd x \<le> rd y"
    and rd_exact: "x \<in> F \<Longrightarrow> rd x = x"
    and rd_range: "rd x \<in> F"
    and rd_minus: "rd (- x) = - rd x"
begin

lemma rd_zero [simp]: "rd 0 = 0"
  using rd_minus [of 0] by simp

lemma rd_idem [simp]: "rd (rd x) = rd x"
  by (simp add: rd_exact rd_range)

lemma rd_le: "x \<le> b \<Longrightarrow> b \<in> F \<Longrightarrow> rd x \<le> b"
  using rd_mono [of x b] by (simp add: rd_exact)

lemma rd_ge: "a \<le> x \<Longrightarrow> a \<in> F \<Longrightarrow> a \<le> rd x"
  using rd_mono [of a x] by (simp add: rd_exact)

lemma rd_nonneg: "0 \<le> x \<Longrightarrow> 0 \<le> rd x"
  using rd_mono [of 0 x] by simp

lemma rd_nonpos: "x \<le> 0 \<Longrightarrow> rd x \<le> 0"
  using rd_mono [of x 0] by simp

lemma F_minus: "x \<in> F \<Longrightarrow> - x \<in> F"
  using rd_exact [of x] rd_minus [of x] rd_range [of "- x"] by simp

lemma rd_abs_le:
  assumes "\<bar>x\<bar> \<le> b" and "b \<in> F"
  shows "\<bar>rd x\<bar> \<le> b"
proof -
  have "rd x \<le> b" using assms by (intro rd_le) auto
  moreover have "- b \<le> rd x" using assms by (intro rd_ge) (auto simp: F_minus)
  ultimately show ?thesis by simp
qed

lemma rd_add_ge_left: "x \<in> F \<Longrightarrow> 0 \<le> y \<Longrightarrow> x \<le> rd (x + y)"
  by (rule rd_ge) auto

lemma rd_add_le_left: "x \<in> F \<Longrightarrow> y \<le> 0 \<Longrightarrow> rd (x + y) \<le> x"
  by (rule rd_le) auto

end

section \<open>Powers of two and the binary logarithm\<close>

abbreviation p2 :: "int \<Rightarrow> real" where
  "p2 e \<equiv> 2 powi e"

lemma p2_pos [simp]: "0 < p2 e" "0 \<le> p2 e" "p2 e \<noteq> 0"
  by auto

lemma p2_not_neg [simp]: "\<not> p2 e < 0" "\<not> p2 e \<le> 0"
  by (simp_all add: not_less not_le)

lemma of_int_le_pow: "real_of_int k \<le> 2 ^ n \<longleftrightarrow> k \<le> 2 ^ n"
  by (metis of_int_le_iff of_int_numeral of_int_power)

lemma p2_add: "p2 (a + b) = p2 a * p2 b"
  by (simp add: power_int_add)

lemma p2_diff: "p2 (a - b) = p2 a / p2 b"
  by (simp add: power_int_diff)

lemma p2_nat: "0 \<le> e \<Longrightarrow> p2 e = 2 ^ nat e"
  by (simp add: power_int_def)

lemma p2_le_iff [simp]: "p2 a \<le> p2 b \<longleftrightarrow> a \<le> b"
  using power_int_strict_increasing [of a b "2 :: real"]
    power_int_strict_increasing [of b a "2 :: real"]
  by (cases a b rule: linorder_cases) (auto simp: less_imp_le not_le)

lemma p2_less_iff [simp]: "p2 a < p2 b \<longleftrightarrow> a < b"
  by (simp add: not_le [symmetric])

lemma p2_split: "a \<le> b \<Longrightarrow> p2 b = 2 ^ nat (b - a) * p2 a"
  using p2_add [of "b - a" a] by (simp add: p2_nat)

definition flog2 :: "real \<Rightarrow> int" where
  "flog2 x = \<lfloor>log 2 x\<rfloor>"

lemma flog2_iff: "0 < x \<Longrightarrow> flog2 x = k \<longleftrightarrow> p2 k \<le> x \<and> x < p2 (k + 1)"
  unfolding flog2_def
  by (subst floor_log_eq_powr_iff) (auto simp: powr_real_of_int' [symmetric])

lemma flog2_bounds: "0 < x \<Longrightarrow> p2 (flog2 x) \<le> x \<and> x < p2 (flog2 x + 1)"
  using flog2_iff by blast

lemma flog2_mono: "0 < x \<Longrightarrow> x \<le> y \<Longrightarrow> flog2 x \<le> flog2 y"
  unfolding flog2_def by (rule floor_mono) simp

section \<open>Rounding to the nearest integer, ties to even\<close>

definition rne :: "real \<Rightarrow> int" where
  "rne y = (let f = \<lfloor>y\<rfloor>; d = y - of_int f in
     if d < 1 / 2 then f else if 1 / 2 < d then f + 1 else if even f then f else f + 1)"

lemma rne_of_int [simp]: "rne (of_int k) = k"
  by (simp add: rne_def)

lemma rne_half: "\<bar>of_int (rne y) - y\<bar> \<le> 1 / 2"
  unfolding rne_def Let_def by (simp; linarith)

lemma rne_nearest: "\<bar>of_int (rne y) - y\<bar> \<le> \<bar>of_int k - y\<bar>"
proof (cases "k = rne y")
  case False
  then consider "k + 1 \<le> rne y" | "rne y + 1 \<le> k" by linarith
  then have "1 \<le> \<bar>of_int k - of_int (rne y) :: real\<bar>"
    by cases (simp_all flip: of_int_diff of_int_abs)
  with rne_half [of y] show ?thesis by linarith
qed simp

lemma rne_mono:
  assumes "x \<le> y"
  shows "rne x \<le> rne y"
proof (cases "\<lfloor>x\<rfloor> = \<lfloor>y\<rfloor>")
  case True
  with assms show ?thesis unfolding rne_def Let_def by auto
next
  case False
  with floor_mono [OF assms] have "\<lfloor>x\<rfloor> + 1 \<le> \<lfloor>y\<rfloor>" by linarith
  moreover have "rne x \<le> \<lfloor>x\<rfloor> + 1" "\<lfloor>y\<rfloor> \<le> rne y"
    unfolding rne_def Let_def by auto
  ultimately show ?thesis by linarith
qed

lemma rne_nonneg: "0 \<le> y \<Longrightarrow> 0 \<le> rne y"
  using rne_mono [of 0 y] rne_of_int [of 0] by simp

section \<open>Doubles and their rounding\<close>

text \<open>The values of finite doubles, with no upper bound on the exponent.\<close>

definition dbl :: "real set" where
  "dbl = {x. \<exists>m e. x = of_int m * p2 e \<and> \<bar>m\<bar> \<le> 2 ^ 53 \<and> - 1074 \<le> e}"

definition ulpe :: "real \<Rightarrow> int" where
  "ulpe x = max (- 1074) (flog2 x - 52)"

definition rndp :: "real \<Rightarrow> real" where
  "rndp x = of_int (rne (x / p2 (ulpe x))) * p2 (ulpe x)"

definition rnd :: "real \<Rightarrow> real" where
  "rnd x = (if x < 0 then - rndp (- x) else rndp x)"

lemma dblI: "\<bar>m\<bar> \<le> 2 ^ 53 \<Longrightarrow> - 1074 \<le> e \<Longrightarrow> of_int m * p2 e \<in> dbl"
  by (auto simp: dbl_def)

lemma dbl_int: "\<bar>m\<bar> \<le> 2 ^ 53 \<Longrightarrow> of_int m \<in> dbl"
  using dblI [of m 0] by simp

lemma dbl_zero [simp]: "0 \<in> dbl"
  using dbl_int [of 0] by simp

lemma dbl_p2: "- 1074 \<le> e \<Longrightarrow> p2 e \<in> dbl"
  using dblI [of 1 e] by simp

lemma dbl_minus: "x \<in> dbl \<Longrightarrow> - x \<in> dbl"
proof -
  assume "x \<in> dbl"
  then obtain m e where "x = of_int m * p2 e" "\<bar>m\<bar> \<le> 2 ^ 53" "- 1074 \<le> e"
    by (auto simp: dbl_def)
  with dblI [of "- m" e] show ?thesis by simp
qed

lemma scaled_lt: "0 < x \<Longrightarrow> x / p2 (ulpe x) < 2 ^ 53"
proof -
  assume x: "0 < x"
  have "x < p2 (flog2 x + 1)" using flog2_bounds [OF x] by simp
  also have "\<dots> \<le> p2 (53 + ulpe x)" by (simp add: ulpe_def)
  also have "\<dots> = 2 ^ 53 * p2 (ulpe x)" by (subst p2_add) simp
  finally show ?thesis by (simp add: divide_less_eq)
qed

lemma scaled_ge: "0 < x \<Longrightarrow> - 1074 < ulpe x \<Longrightarrow> 2 ^ 52 \<le> x / p2 (ulpe x)"
proof -
  assume x: "0 < x" and "- 1074 < ulpe x"
  then have "flog2 x = 52 + ulpe x" by (simp add: ulpe_def max_def split: if_splits)
  then have "p2 (52 + ulpe x) \<le> x" using flog2_bounds [OF x] by simp
  then have "2 ^ 52 * p2 (ulpe x) \<le> x" by (simp add: p2_add)
  then show ?thesis by (simp add: pos_le_divide_eq)
qed

lemma rne_scaled_le: "0 \<le> x \<Longrightarrow> rne (x / p2 (ulpe x)) \<le> 2 ^ 53"
proof (cases "x = 0")
  case True
  then show ?thesis using rne_of_int [of 0] by simp
next
  case False
  assume "0 \<le> x"
  with False have "x / p2 (ulpe x) \<le> of_int (2 ^ 53)" using scaled_lt [of x] by simp
  from rne_mono [OF this] show ?thesis by (simp only: rne_of_int)
qed

lemma rndp_dbl: "0 \<le> x \<Longrightarrow> rndp x \<in> dbl"
  unfolding rndp_def
  by (intro dblI) (use rne_scaled_le [of x] rne_nonneg [of "x / p2 (ulpe x)"] in
      \<open>auto simp: ulpe_def\<close>)

text \<open>A double is an integer multiple of the unit in the last place of any \<open>x\<close> not above it.\<close>

lemma dbl_multiple:
  assumes z: "z \<in> dbl" and x: "0 < x" and big: "ulpe x = - 1074 \<or> p2 (52 + ulpe x) \<le> z"
  shows "\<exists>k. z = of_int k * p2 (ulpe x)"
proof -
  from z obtain m e where m: "z = of_int m * p2 e" "\<bar>m\<bar> \<le> 2 ^ 53" "- 1074 \<le> e"
    by (auto simp: dbl_def)
  show ?thesis
  proof (cases "ulpe x \<le> e")
    case True
    then have "z = of_int (m * 2 ^ nat (e - ulpe x)) * p2 (ulpe x)"
      using m(1) p2_split [OF True] by simp
    then show ?thesis by blast
  next
    case False
    with m(3) have "ulpe x \<noteq> - 1074" by simp
    with big have lo: "p2 (52 + ulpe x) \<le> z" by simp
    have m2: "real_of_int m \<le> 2 ^ 53"
      using m(2) by (metis abs_le_D1 of_int_le_iff of_int_numeral of_int_power)
    have "p2 (53 + e) \<le> p2 (52 + ulpe x)" using False by (subst p2_le_iff) simp
    also note lo
    finally have "2 ^ 53 * p2 e \<le> of_int m * p2 e" using m(1) by (simp add: p2_add)
    then have "2 ^ 53 \<le> real_of_int m" by (simp only: mult_le_cancel_right_pos p2_pos)
    with m2 have "real_of_int m = 2 ^ 53" by linarith
    then have z53: "z = p2 (53 + e)" using m(1) by (simp add: p2_add)
    have "52 + ulpe x \<le> 53 + e" using lo unfolding z53 by (simp only: p2_le_iff)
    with False have "ulpe x = e + 1" by simp
    then have "z = of_int (2 ^ 52) * p2 (ulpe x)"
      using z53 p2_add [of 52 "ulpe x"] by (simp add: algebra_simps)
    then show ?thesis by blast
  qed
qed

lemma rndp_exact: 
  assumes "x \<in> dbl" and "0 \<le> x"
  shows "rndp x = x"
proof (cases "x = 0")
  case True
  then show ?thesis using rne_of_int [of 0] by (simp add: rndp_def)
next
  case False
  with assms(2) have x: "0 < x" by simp
  have "ulpe x = - 1074 \<or> p2 (52 + ulpe x) \<le> x"
    using flog2_bounds [OF x] by (auto simp: ulpe_def max_def)
  from dbl_multiple [OF assms(1) x this] obtain k where "x = of_int k * p2 (ulpe x)" by blast
  then have "x / p2 (ulpe x) = of_int k" by (metis nonzero_mult_div_cancel_right p2_pos(3))
  with \<open>x = of_int k * p2 (ulpe x)\<close> show ?thesis unfolding rndp_def by (metis rne_of_int)
qed

lemma rndp_mono:
  assumes "0 \<le> x" and "x \<le> y"
  shows "rndp x \<le> rndp y"
proof (cases "x = 0")
  case True
  have "0 \<le> rndp y" using assms rne_nonneg [of "y / p2 (ulpe y)"]
    by (simp add: rndp_def)
  with True show ?thesis using rne_of_int [of 0] by (simp add: rndp_def)
next
  case False
  with assms have x: "0 < x" and y: "0 < y" by auto
  have le: "ulpe x \<le> ulpe y" using flog2_mono [OF x assms(2)] by (auto simp: ulpe_def)
  show ?thesis
  proof (cases "ulpe x = ulpe y")
    case True
    have "rne (x / p2 (ulpe y)) \<le> rne (y / p2 (ulpe y))"
      using assms(2) by (intro rne_mono divide_right_mono) auto
    with True show ?thesis by (simp add: rndp_def)
  next
    case False
    with le have lt: "ulpe x + 1 \<le> ulpe y" by simp
    have "- 1074 < ulpe y" using lt by (simp add: ulpe_def)
    then have "of_int (2 ^ 52) \<le> y / p2 (ulpe y)" using scaled_ge [OF y] by simp
    from rne_mono [OF this] have "2 ^ 52 \<le> rne (y / p2 (ulpe y))" by (simp only: rne_of_int)
    then have hi: "(2 ^ 52) * p2 (ulpe y) \<le> rndp y" unfolding rndp_def
      by (intro mult_right_mono) simp_all
    have "rndp x \<le> 2 ^ 53 * p2 (ulpe x)" unfolding rndp_def
      using rne_scaled_le [OF assms(1)]
      by (intro mult_right_mono) simp_all
    also have "\<dots> = p2 (53 + ulpe x)" by (simp add: p2_add)
    also have "\<dots> \<le> p2 (52 + ulpe y)" using lt by simp
    also have "\<dots> = 2 ^ 52 * p2 (ulpe y)" by (simp add: p2_add)
    finally show ?thesis using hi by simp
  qed
qed

lemma rndp_nonneg: "0 \<le> x \<Longrightarrow> 0 \<le> rndp x"
  using rne_nonneg [of "x / p2 (ulpe x)"] by (simp add: rndp_def)

interpretation rne: rounding dbl rnd
proof
  fix x y :: real
  assume "x \<le> y"
  then show "rnd x \<le> rnd y"
    using rndp_mono [of x y] rndp_mono [of "- y" "- x"] rndp_nonneg [of "- x"] rndp_nonneg [of y]
    by (auto simp: rnd_def)
next
  fix x :: real
  show "x \<in> dbl \<Longrightarrow> rnd x = x"
    using rndp_exact [of x] rndp_exact [of "- x"] dbl_minus [of x] by (auto simp: rnd_def)
  show "rnd x \<in> dbl"
    using rndp_dbl [of x] dbl_minus [OF rndp_dbl [of "- x"]] by (auto simp: rnd_def)
  show "rnd (- x) = - rnd x"
    using rndp_exact [of 0] by (cases "x = 0") (auto simp: rnd_def)
qed


section \<open>Nearest value, error of an addition\<close>

lemma scaled_abs: "\<bar>a * p2 e - x\<bar> = \<bar>a - x / p2 e\<bar> * p2 e"
proof -
  have "a * p2 e - x = (a - x / p2 e) * p2 e" by (simp add: left_diff_distrib)
  then have "\<bar>a * p2 e - x\<bar> = \<bar>a - x / p2 e\<bar> * \<bar>p2 e\<bar>" by (simp only: abs_mult)
  then show ?thesis by simp
qed

lemma rndp_half: "0 < x \<Longrightarrow> \<bar>rndp x - x\<bar> \<le> p2 (ulpe x) / 2"
proof -
  have "\<bar>rndp x - x\<bar> = \<bar>of_int (rne (x / p2 (ulpe x))) - x / p2 (ulpe x)\<bar> * p2 (ulpe x)"
    unfolding rndp_def by (rule scaled_abs)
  also have "\<dots> \<le> 1 / 2 * p2 (ulpe x)" by (intro mult_right_mono rne_half) simp
  finally show ?thesis by simp
qed

lemma rndp_nearest:
  assumes x: "0 < x" and z: "z \<in> dbl"
  shows "\<bar>rndp x - x\<bar> \<le> \<bar>z - x\<bar>"
proof -
  have grid: "\<bar>rndp x - x\<bar> \<le> \<bar>of_int k * p2 (ulpe x) - x\<bar>" for k
    unfolding rndp_def scaled_abs by (intro mult_right_mono rne_nearest) simp
  show ?thesis
  proof (cases "ulpe x = - 1074 \<or> p2 (52 + ulpe x) \<le> z")
    case True
    from dbl_multiple [OF z x this] grid show ?thesis by blast
  next
    case False
    then have "p2 (52 + ulpe x) \<le> x"
      using flog2_bounds [OF x] by (auto simp: ulpe_def max_def split: if_splits)
    moreover have "\<bar>rndp x - x\<bar> \<le> \<bar>p2 (52 + ulpe x) - x\<bar>"
      using grid [of "2 ^ 52"] by (simp add: p2_add)
    ultimately show ?thesis using False by linarith
  qed
qed

lemma rnd_nearest: "z \<in> dbl \<Longrightarrow> \<bar>rnd x - x\<bar> \<le> \<bar>z - x\<bar>"
  using rndp_nearest [of x z] rndp_nearest [of "- x" "- z"] dbl_minus [of z]
    rndp_exact [of 0]
  by (cases x "0 :: real" rule: linorder_cases) (auto simp: rnd_def)

lemma rnd_multiple:
  assumes e: "- 1074 \<le> e" and s: "s = of_int k * p2 e"
  shows "\<exists>j. rnd s = of_int j * p2 e"
proof (cases "\<bar>k\<bar> \<le> 2 ^ 53")
  case True
  then have "rnd s = s" using rne.rd_exact dblI e s by simp
  with s show ?thesis by blast
next
  case False
  have pos: "\<exists>j. rndp t = of_int j * p2 e" if t: "t = of_int i * p2 e" and i: "2 ^ 53 < i" for t i
  proof -
    have t0: "0 < t" using t i by simp
    have "(2 :: real) ^ 53 < of_int i" using i by simp
    then have "2 ^ 53 * p2 e < t" unfolding t by (rule mult_strict_right_mono) simp
    then have "p2 (53 + e) < p2 (flog2 t + 1)" using flog2_bounds [OF t0] by (simp add: p2_add)
    then have "e \<le> ulpe t" by (simp add: ulpe_def)
    from p2_split [OF this]
    have "rndp t = of_int (rne (t / p2 (ulpe t)) * 2 ^ nat (ulpe t - e)) * p2 e"
      by (simp add: rndp_def)
    then show ?thesis by blast
  qed
  show ?thesis
  proof (cases "0 < k")
    case True
    with False pos [OF s] s show ?thesis by (auto simp: rnd_def mult_less_0_iff)
  next
    case neg: False
    with False have k: "2 ^ 53 < - k" by linarith
    from neg False have "s < 0" using s by (auto simp: mult_less_0_iff)
    moreover obtain j where "rndp (- s) = of_int j * p2 e"
      using pos [of "- s" "- k"] k s by auto
    ultimately have "rnd s = of_int (- j) * p2 e" by (simp add: rnd_def)
    then show ?thesis by blast
  qed
qed

text \<open>The rounding error of an addition of two doubles is itself a double.\<close>

lemma add_error_dbl:
  assumes "x \<in> dbl" and "y \<in> dbl"
  shows "rnd (x + y) - (x + y) \<in> dbl"
proof -
  have main: "rnd (v + w) - (v + w) \<in> dbl"
    if v: "v = of_int m * p2 e" and w: "w = of_int n * p2 f" and n: "\<bar>n\<bar> \<le> 2 ^ 53"
      and f: "- 1074 \<le> f" "f \<le> e" and vd: "v \<in> dbl" for v w m e n f
  proof -
    have s: "v + w = of_int (m * 2 ^ nat (e - f) + n) * p2 f"
      using v w p2_split [OF f(2)] by (simp add: algebra_simps)
    from rnd_multiple [OF f(1) s] obtain j where "rnd (v + w) = of_int j * p2 f" by blast
    then obtain i where i: "rnd (v + w) - (v + w) = of_int i * p2 f"
      using s by (metis left_diff_distrib of_int_diff)
    have "\<bar>rnd (v + w) - (v + w)\<bar> \<le> \<bar>w\<bar>" using rnd_nearest [OF vd, of "v + w"] by simp
    then have "\<bar>real_of_int i\<bar> * p2 f \<le> \<bar>real_of_int n\<bar> * p2 f"
      unfolding i unfolding w by (simp add: abs_mult)
    then have "\<bar>i\<bar> \<le> \<bar>n\<bar>" by (simp add: mult_le_cancel_right flip: of_int_abs)
    with n f i show ?thesis by (simp add: dblI)
  qed
  from assms obtain m e n f where
    x: "x = of_int m * p2 e" "\<bar>m\<bar> \<le> 2 ^ 53" "- 1074 \<le> e" and
    y: "y = of_int n * p2 f" "\<bar>n\<bar> \<le> 2 ^ 53" "- 1074 \<le> f"
    by (auto simp: dbl_def)
  show ?thesis
  proof (cases "f \<le> e")
    case True
    from main [OF x(1) y(1,2,3) True assms(1)] show ?thesis .
  next
    case False
    with main [OF y(1) x(1,2,3) _ assms(2)] show ?thesis by (simp add: add.commute)
  qed
qed

lemma dbl_canonical:
  assumes "x \<in> dbl" and "0 < x"
  shows "\<exists>m. x = of_int m * p2 (ulpe x) \<and> \<bar>m\<bar> \<le> 2 ^ 53"
proof -
  have "ulpe x = - 1074 \<or> p2 (52 + ulpe x) \<le> x"
    using flog2_bounds [OF assms(2)] by (auto simp: ulpe_def max_def)
  from dbl_multiple [OF assms this] obtain m where m: "x = of_int m * p2 (ulpe x)" by blast
  have "of_int m < (2 :: real) ^ 53" using scaled_lt [OF assms(2)] m
    by (metis nonzero_mult_div_cancel_right p2_pos(3))
  moreover have "0 < of_int m * p2 (ulpe x)" using assms(2) m by simp
  then have "0 < m" by (simp add: zero_less_mult_iff)
  ultimately have "\<bar>m\<bar> \<le> 2 ^ 53" by simp
  with m show ?thesis by blast
qed

lemma ulpe_le: "- 1074 \<le> ulpe x"
  by (simp add: ulpe_def)

lemma ulpe_mono: "0 < x \<Longrightarrow> x \<le> y \<Longrightarrow> ulpe x \<le> ulpe y"
  using flog2_mono [of x y] by (auto simp: ulpe_def)

lemma ulpe_double: "0 < x \<Longrightarrow> ulpe (2 * x) \<le> ulpe x + 1"
proof -
  assume x: "0 < x"
  have "2 * x < p2 (flog2 x + 1 + 1)" using flog2_bounds [OF x] by (simp add: p2_add)
  then have "p2 (flog2 (2 * x)) < p2 (flog2 x + 1 + 1)"
    using flog2_bounds [of "2 * x"] x by linarith
  then have "flog2 (2 * x) \<le> flog2 x + 1" by simp
  then show ?thesis unfolding ulpe_def by linarith
qed

lemma ulpe_gt: "2 ^ 53 * p2 e < s \<Longrightarrow> e < ulpe s"
proof -
  assume s: "2 ^ 53 * p2 e < s"
  then have s0: "0 < s" using p2_pos(1) [of e] by (smt (verit) mult_pos_pos zero_less_power)
  from s have "p2 (53 + e) < p2 (flog2 s + 1)" using flog2_bounds [OF s0] by (simp add: p2_add)
  then show ?thesis by (simp add: ulpe_def)
qed

text \<open>The classical fact behind the two-sum step: with \<open>\<bar>y\<bar> \<le> \<bar>x\<bar>\<close>, \<open>rnd (x + y) - x\<close> is exact.\<close>

lemma two_sum_bound:
  fixes r u x y :: real
  assumes "\<bar>r - (x + y)\<bar> \<le> u / 2" and "\<bar>y\<bar> < 2 ^ 52 * u" and "0 < u"
  shows "\<bar>r - x\<bar> < (2 ^ 53 + 1) * u"
proof -
  have "\<bar>r - x\<bar> \<le> \<bar>r - (x + y)\<bar> + \<bar>y\<bar>" by linarith
  also have "\<dots> < u / 2 + 2 ^ 52 * u" using assms(1,2) by linarith
  also have "\<dots> \<le> (2 ^ 53 + 1) * u" using assms(3) by simp
  finally show ?thesis .
qed

lemma fast_two_sum_pos:
  assumes x: "x \<in> dbl" "0 < x" and y: "y \<in> dbl" "\<bar>y\<bar> \<le> x" "y \<noteq> 0"
  shows "rnd (x + y) - x \<in> dbl"
proof -
  let ?s = "x + y" and ?ex = "ulpe x" and ?ey = "ulpe \<bar>y\<bar>" and ?es = "ulpe (x + y)"
  have ya: "\<bar>y\<bar> \<in> dbl" "0 < \<bar>y\<bar>" using y dbl_minus [of y] by (auto simp: abs_real_def)
  from dbl_canonical [OF x] obtain mx where mx: "x = of_int mx * p2 ?ex" by blast
  from dbl_canonical [OF ya] obtain ma where ma: "\<bar>y\<bar> = of_int ma * p2 ?ey" by blast
  define my where "my = (if y < 0 then - ma else ma)"
  have my: "y = of_int my * p2 ?ey" using ma by (auto simp: my_def abs_real_def split: if_splits)
  have eyx: "?ey \<le> ?ex" using ya(2) y(2) by (rule ulpe_mono)
  have s: "?s = of_int (mx * 2 ^ nat (?ex - ?ey) + my) * p2 ?ey"
    using mx my p2_split [OF eyx] by (simp add: algebra_simps)
  show ?thesis
  proof (cases "?s \<le> 2 ^ 53 * p2 ?ey")
    case True
    then have "real_of_int (mx * 2 ^ nat (?ex - ?ey) + my) \<le> 2 ^ 53"
      using s by (simp only: mult_le_cancel_right_pos p2_pos)
    then have "mx * 2 ^ nat (?ex - ?ey) + my \<le> 2 ^ 53" by (simp only: of_int_le_pow)
    moreover have "0 \<le> ?s" using y(2) by linarith
    then have "0 \<le> mx * 2 ^ nat (?ex - ?ey) + my"
      using s by (metis mult_less_0_iff not_less of_int_less_0_iff p2_pos(1) p2_pos(2))
    ultimately have "\<bar>mx * 2 ^ nat (?ex - ?ey) + my\<bar> \<le> 2 ^ 53" by linarith
    then have "?s \<in> dbl" unfolding s by (rule dblI) (rule ulpe_le)
    then show ?thesis using y(1) by (simp add: rne.rd_exact)
  next
    case False
    then have big: "2 ^ 53 * p2 ?ey < ?s" by simp
    have s0: "0 < ?s" using big mult_pos_pos [of "2 ^ 53 :: real" "p2 ?ey"] by (smt (verit) p2_pos(1) zero_less_power)
    have eys: "?ey < ?es" using big by (rule ulpe_gt)
    have esx: "?es \<le> ?ex + 1"
      using ulpe_mono [OF s0, of "2 * x"] y(2) ulpe_double [OF x(2)] by linarith
    have half: "\<bar>rnd ?s - ?s\<bar> \<le> p2 ?es / 2" using rndp_half [OF s0] s0 by (simp add: rnd_def)
    define e where "e = min ?es ?ex"
    obtain j where j: "rnd ?s = of_int j * p2 e"
    proof -
      have "rnd ?s = of_int (rne (?s / p2 ?es) * 2 ^ nat (?es - e)) * p2 e"
        using s0 p2_split [of e ?es] by (simp add: rnd_def rndp_def e_def)
      then show ?thesis by (rule that)
    qed
    have "x = of_int (mx * 2 ^ nat (?ex - e)) * p2 e"
      using mx p2_split [of e ?ex] by (simp add: e_def)
    with j obtain k where k: "rnd ?s - x = of_int k * p2 e"
      by (metis left_diff_distrib of_int_diff)
    have "\<bar>rnd ?s - x\<bar> < (2 ^ 53 + 1) * p2 e"
    proof (cases "?es \<le> ?ex")
      case True
      have "\<bar>y\<bar> < 2 ^ 53 * p2 ?ey" using scaled_lt [OF ya(2)] by (simp add: divide_less_eq)
      also have "\<dots> = p2 (53 + ?ey)" by (simp add: p2_add)
      also have "\<dots> \<le> p2 (52 + ?es)" using eys by simp
      finally have "\<bar>y\<bar> < 2 ^ 52 * p2 ?es" by (simp add: p2_add)
      from two_sum_bound [OF half this] True show ?thesis by (simp add: e_def min_absorb1)
    next
      case False
      with esx have es: "?es = ?ex + 1" by simp
      have "x < 2 ^ 53 * p2 ?ex" using scaled_lt [OF x(2)] by (simp add: divide_less_eq)
      moreover have "p2 ?es / 2 = p2 ?ex" unfolding es by (simp add: p2_add)
      ultimately show ?thesis using half y(2) es by (simp add: e_def)
    qed
    then have "\<bar>of_int k\<bar> < (2 :: real) ^ 53 + 1" unfolding k
      by (simp only: abs_mult abs_of_pos p2_pos mult_less_cancel_right_pos)
    then have "\<bar>k\<bar> \<le> 2 ^ 53" by (simp flip: of_int_abs)
    then show ?thesis unfolding k by (rule dblI) (simp add: e_def ulpe_le)
  qed
qed

theorem fast_two_sum:
  assumes x: "x \<in> dbl" and y: "y \<in> dbl" and le: "\<bar>y\<bar> \<le> \<bar>x\<bar>"
  shows "rnd (x + y) - x \<in> dbl"
proof (cases "y = 0 \<or> x = 0")
  case True
  with le x show ?thesis by (auto simp: rne.rd_exact)
next
  case False
  show ?thesis
  proof (cases "0 < x")
    case True
    with False le show ?thesis by (intro fast_two_sum_pos x y) auto
  next
    case neg: False
    have "rnd (- x + - y) - - x \<in> dbl"
      using neg False le by (intro fast_two_sum_pos dbl_minus x y) auto
    then have "- (rnd (x + y) - x) \<in> dbl" using rne.rd_minus [of "x + y"] by simp
    then show ?thesis using dbl_minus by fastforce
  qed
qed

end
