(* ===== verification/Prelude.thy ===== *)
theory Prelude
  imports Main "HOL-Library.Word"
begin

text \<open>
  Shared vocabulary of the development.

  \<^item> \<open>('e, 'a) result\<close>: the outcome of a Rust call. \<open>Ok\<close> and \<open>Err\<close> are the
    constructors of \<open>Result\<close>; \<open>Panic\<close> is the third thing a Rust call can do
    (an index out of range, a missing \<open>HashMap\<close> key under \<open>[]\<close>, an overflow under
    \<open>-C overflow-checks\<close>, \<open>unwrap\<close> of an error). \<open>and_then\<close> is the \<open>?\<close> operator and
    \<open>require\<close> is the guard \<open>if !c { return Err(e) }\<close>.
  \<^item> The checked machine arithmetic of \<open>i32\<close>, \<open>i64\<close>, \<open>usize\<close> (64 bit): machine integers
    are carried as \<open>int\<close> or \<open>nat\<close> and every operation that could leave the range says
    what happens there.
  \<^item> Rust strings: the list of their UTF-8 bytes, so \<open>length\<close> is \<open>str::len\<close>; the
    predicates \<open>char::is_control\<close> and \<open>char::is_whitespace\<close> on the encoded text.
\<close>

named_theorems result_simps \<open>evaluation of result combinators\<close>

section \<open>Results, early return and panics\<close>

datatype ('e, 'a) result = Ok 'a | Err 'e | Panic

fun and_then :: "('e, 'a) result \<Rightarrow> ('a \<Rightarrow> ('e, 'b) result) \<Rightarrow> ('e, 'b) result" where
  "and_then (Ok x) k = k x"
| "and_then (Err e) k = Err e"
| "and_then Panic k = Panic"

definition require :: "bool \<Rightarrow> 'e \<Rightarrow> ('e, 'b) result \<Rightarrow> ('e, 'b) result" where
  "require c e k = (if c then k else Err e)"

text \<open>\<open>for x in xs { body?; }\<close>: the first error (or panic) leaves the loop.\<close>

fun for_each :: "'a list \<Rightarrow> ('a \<Rightarrow> ('e, unit) result) \<Rightarrow> ('e, unit) result" where
  "for_each [] f = Ok ()"
| "for_each (x # xs) f = and_then (f x) (\<lambda>_. for_each xs f)"

text \<open>The same loop with mutable state threaded through the iterations.\<close>

fun fold_res :: "('s \<Rightarrow> 'a \<Rightarrow> ('e, 's) result) \<Rightarrow> 's \<Rightarrow> 'a list \<Rightarrow> ('e, 's) result" where
  "fold_res f s [] = Ok s"
| "fold_res f s (x # xs) = and_then (f s x) (\<lambda>s'. fold_res f s' xs)"

definition map_err :: "('e \<Rightarrow> 'f) \<Rightarrow> ('e, 'a) result \<Rightarrow> ('f, 'a) result" where
  "map_err g r = (case r of Ok x \<Rightarrow> Ok x | Err e \<Rightarrow> Err (g e) | Panic \<Rightarrow> Panic)"

definition ok_or :: "'a option \<Rightarrow> 'e \<Rightarrow> ('e, 'a) result" where
  "ok_or x e = (case x of Some v \<Rightarrow> Ok v | None \<Rightarrow> Err e)"

text \<open>\<open>HashMap\<close> indexing \<open>m[k]\<close> and \<open>Option::unwrap\<close>: a panic on a missing value.\<close>

definition unwrap :: "'a option \<Rightarrow> ('e, 'a) result" where
  "unwrap x = (case x of Some v \<Rightarrow> Ok v | None \<Rightarrow> Panic)"

text \<open>Indexing \<open>xs[i]\<close> of a slice or vector: out of range is a panic.\<close>

definition nth_checked :: "'a list \<Rightarrow> nat \<Rightarrow> ('e, 'a) result" where
  "nth_checked xs i = (if i < length xs then Ok (xs ! i) else Panic)"

text \<open>\<open>a || b\<close> and \<open>iter().any(f)\<close> where an operand may panic: what follows a \<open>true\<close> is not evaluated.\<close>

definition or_res :: "('e, bool) result \<Rightarrow> ('e, bool) result \<Rightarrow> ('e, bool) result" where
  "or_res a b = and_then a (\<lambda>x. if x then Ok True else b)"

fun any_res :: "('a \<Rightarrow> ('e, bool) result) \<Rightarrow> 'a list \<Rightarrow> ('e, bool) result" where
  "any_res f [] = Ok False"
| "any_res f (x # xs) = or_res (f x) (any_res f xs)"

lemma nth_checked_in: "i < length xs \<Longrightarrow> nth_checked xs i = Ok (xs ! i)"
  by (simp add: nth_checked_def)

lemma or_res_Ok [simp]: "or_res (Ok p) b = (if p then Ok True else b)"
  by (simp add: or_res_def)

lemma any_res_Ok: "(\<And>x. x \<in> set xs \<Longrightarrow> f x = Ok (P x)) \<Longrightarrow> any_res f xs = Ok (list_ex P xs)"
  by (induction xs) simp_all

lemma and_then_cong [fundef_cong]:
  "r = r' \<Longrightarrow> (\<And>x. r' = Ok x \<Longrightarrow> k x = k' x) \<Longrightarrow> and_then r k = and_then r' k'"
  by (cases r') auto

lemma require_cong [fundef_cong]:
  "c = c' \<Longrightarrow> e = e' \<Longrightarrow> (c' \<Longrightarrow> r = r') \<Longrightarrow> require c e r = require c' e' r'"
  by (simp add: require_def)

lemma and_then_Ok_iff [simp]:
  "and_then r k = Ok y \<longleftrightarrow> (\<exists>x. r = Ok x \<and> k x = Ok y)"
  by (cases r) auto

lemma Ok_and_then_iff [simp]:
  "Ok y = and_then r k \<longleftrightarrow> (\<exists>x. r = Ok x \<and> k x = Ok y)"
  by (cases r) auto

lemma and_then_Panic_iff [simp]:
  "and_then r k = Panic \<longleftrightarrow> r = Panic \<or> (\<exists>x. r = Ok x \<and> k x = Panic)"
  by (cases r) auto

lemma and_then_Err_iff:
  "and_then r k = Err e \<longleftrightarrow> r = Err e \<or> (\<exists>x. r = Ok x \<and> k x = Err e)"
  by (cases r) auto

lemma require_Ok_iff [simp]: "require c e k = Ok y \<longleftrightarrow> c \<and> k = Ok y"
  by (simp add: require_def)

lemma require_Panic_iff [simp]: "require c e k = Panic \<longleftrightarrow> c \<and> k = Panic"
  by (simp add: require_def)

lemma require_Err_iff: "require c e k = Err e' \<longleftrightarrow> (\<not> c \<and> e' = e) \<or> (c \<and> k = Err e')"
  by (auto simp: require_def)

lemma require_True [result_simps]: "require True e k = k"
  and require_False [result_simps]: "require False e k = Err e"
  by (simp_all add: require_def)

lemma map_err_Ok_iff [simp]: "map_err g r = Ok y \<longleftrightarrow> r = Ok y"
  and map_err_Panic_iff [simp]: "map_err g r = Panic \<longleftrightarrow> r = Panic"
  by (cases r; simp add: map_err_def)+

lemma ok_or_Ok_iff [simp]: "ok_or x e = Ok y \<longleftrightarrow> x = Some y"
  and ok_or_no_Panic [simp]: "ok_or x e \<noteq> Panic"
  by (cases x; simp add: ok_or_def)+

lemma unwrap_Ok_iff [simp]: "unwrap x = Ok y \<longleftrightarrow> x = Some y"
  and unwrap_Panic_iff [simp]: "unwrap x = Panic \<longleftrightarrow> x = None"
  and unwrap_no_Err [simp]: "unwrap x \<noteq> Err e"
  by (cases x; simp add: unwrap_def)+

text \<open>
  Evaluation of closed calls: the weak congruences keep \<open>simp\<close> out of continuations until
  the step before them has returned.
\<close>

lemma and_then_weak_cong: "r = r' \<Longrightarrow> and_then r k = and_then r' k"
  and require_weak_cong: "c = c' \<Longrightarrow> require c e b = require c' e b"
  by simp_all

lemmas eval_cong = and_then_weak_cong require_weak_cong let_weak_cong prod.case_cong_weak
  option.case_cong_weak list.case_cong_weak

lemma for_each_Ok_iff: "for_each xs f = Ok () \<longleftrightarrow> (\<forall>x \<in> set xs. f x = Ok ())"
  by (induction xs) auto

lemma for_each_no_Panic: "(\<And>x. x \<in> set xs \<Longrightarrow> f x \<noteq> Panic) \<Longrightarrow> for_each xs f \<noteq> Panic"
  by (induction xs) auto

lemma fold_res_append [simp]:
  "fold_res f s (xs @ ys) = and_then (fold_res f s xs) (\<lambda>t. fold_res f t ys)"
proof (induction xs arbitrary: s)
  case (Cons x xs)
  show ?case by (cases "f s x") (auto simp: Cons.IH)
qed simp

text \<open>The loop invariant rule every \<open>fold_res\<close> proof uses.\<close>

lemma fold_res_inv:
  assumes "fold_res f s xs = Ok t" and "I s"
    and "\<And>s x s'. x \<in> set xs \<Longrightarrow> I s \<Longrightarrow> f s x = Ok s' \<Longrightarrow> I s'"
  shows "I t"
  using assms
proof (induction xs arbitrary: s)
  case (Cons x xs)
  from Cons.prems(1) obtain s' where s': "f s x = Ok s'" "fold_res f s' xs = Ok t"
    by auto
  have "I s'" using Cons.prems(2,3) s'(1) by (meson list.set_intros(1))
  with s'(2) show ?case using Cons.prems(3) by (intro Cons.IH) auto
qed simp

lemma fold_res_no_Panic:
  assumes "I s"
    and "\<And>s x. x \<in> set xs \<Longrightarrow> I s \<Longrightarrow> f s x \<noteq> Panic"
    and "\<And>s x s'. x \<in> set xs \<Longrightarrow> I s \<Longrightarrow> f s x = Ok s' \<Longrightarrow> I s'"
  shows "fold_res f s xs \<noteq> Panic"
  using assms
proof (induction xs arbitrary: s)
  case (Cons x xs)
  show ?case
  proof (cases "f s x")
    case (Ok s')
    have "I s'" using Cons.prems(1,3) Ok by (meson list.set_intros(1))
    then have "fold_res f s' xs \<noteq> Panic"
      using Cons.prems(2,3) by (intro Cons.IH) (auto, meson)
    with Ok show ?thesis by simp
  qed (use Cons.prems(1,2) in auto)
qed simp

text \<open>Loops over a range of integers and over indices.\<close>

lemma fold_upto_inv:
  assumes "fold_res f s [a..b] = Ok t" "I a s" "a \<le> b + 1"
    and "\<And>d s s'. a \<le> d \<Longrightarrow> d \<le> b \<Longrightarrow> I d s \<Longrightarrow> f s d = Ok s' \<Longrightarrow> I (d + 1) s'"
  shows "I (b + 1) t"
  using assms
proof (induction "nat (b + 1 - a)" arbitrary: a s)
  case 0
  then show ?case by simp
next
  case (Suc n)
  then have ab: "a \<le> b" by linarith
  with Suc.prems(1) obtain u where u: "f s a = Ok u" "fold_res f u [a + 1..b] = Ok t"
    by (auto simp: upto.simps [of a b])
  have "I (a + 1) u" using Suc.prems(2,4) u(1) ab by blast
  moreover have "n = nat (b + 1 - (a + 1))" using Suc.hyps(2) by linarith
  ultimately show ?case using Suc.hyps(1) [of "a + 1" u] u(2) ab Suc.prems(4) by simp
qed

lemma fold_upt_inv:
  assumes "fold_res f s [a..<n] = Ok t" "I a s" "a \<le> n"
    and "\<And>k s s'. a \<le> k \<Longrightarrow> k < n \<Longrightarrow> I k s \<Longrightarrow> f s k = Ok s' \<Longrightarrow> I (Suc k) s'"
  shows "I n t"
  using assms
proof (induction "n - a" arbitrary: a s)
  case (Suc m)
  then have "a < n" by simp
  with Suc.prems(1) obtain s' where s': "f s a = Ok s'" "fold_res f s' [Suc a..<n] = Ok t" by (auto simp: upt_conv_Cons)
  have "I (Suc a) s'" using Suc.prems(2,4) s'(1) \<open>a < n\<close> by blast
  with Suc.hyps(1) [of "Suc a" s'] Suc.hyps(2) Suc.prems(4) s'(2) \<open>a < n\<close> show ?case by simp
qed simp

section \<open>Machine integers\<close>

type_synonym i32 = int
type_synonym i64 = int
type_synonym usize = nat

definition in_i32 :: "int \<Rightarrow> bool" where
  "in_i32 x \<longleftrightarrow> - 2147483648 \<le> x \<and> x \<le> 2147483647"

definition in_u32 :: "int \<Rightarrow> bool" where
  "in_u32 x \<longleftrightarrow> 0 \<le> x \<and> x \<le> 4294967295"

definition in_i64 :: "int \<Rightarrow> bool" where
  "in_i64 x \<longleftrightarrow> - 9223372036854775808 \<le> x \<and> x \<le> 9223372036854775807"

definition usize_max :: nat where
  "usize_max = 18446744073709551615"

text \<open>\<open>i32::checked_add\<close> and \<open>usize::checked_add\<close>, \<open>checked_mul\<close>.\<close>

definition i32_checked_add :: "i32 \<Rightarrow> i32 \<Rightarrow> i32 option" where
  "i32_checked_add a b = (if in_i32 (a + b) then Some (a + b) else None)"

definition usize_checked_add :: "usize \<Rightarrow> usize \<Rightarrow> usize option" where
  "usize_checked_add a b = (if a + b \<le> usize_max then Some (a + b) else None)"

definition usize_checked_mul :: "usize \<Rightarrow> usize \<Rightarrow> usize option" where
  "usize_checked_mul a b = (if a * b \<le> usize_max then Some (a * b) else None)"

text \<open>
  The operators \<open>+\<close> and \<open>-\<close> of \<open>i32\<close>, which panic under overflow checks; \<open>x as i32\<close> of a
  \<open>u32\<close> is the two's complement of the same bits.
\<close>

definition i32_add :: "i32 \<Rightarrow> i32 \<Rightarrow> ('e, i32) result" where
  "i32_add a b = (if in_i32 (a + b) then Ok (a + b) else Panic)"

definition i32_sub :: "i32 \<Rightarrow> i32 \<Rightarrow> ('e, i32) result" where
  "i32_sub a b = (if in_i32 (a - b) then Ok (a - b) else Panic)"

definition i32_of_u32 :: "nat \<Rightarrow> i32" where
  "i32_of_u32 x = (if x < 2147483648 then int x else int x - 4294967296)"

lemma i32_op_simps [simp]:
  "i32_add a b = Ok c \<longleftrightarrow> in_i32 (a + b) \<and> c = a + b" "i32_add a b \<noteq> Err e"
  "i32_sub a b = Ok c \<longleftrightarrow> in_i32 (a - b) \<and> c = a - b" "i32_sub a b \<noteq> Err e"
  "i32_add a b = Panic \<longleftrightarrow> \<not> in_i32 (a + b)" "i32_sub a b = Panic \<longleftrightarrow> \<not> in_i32 (a - b)"
  by (auto simp: i32_add_def i32_sub_def)

text \<open>
  Rust's \<open>/\<close> and \<open>%\<close> on signed integers truncate towards zero; \<open>rem_euclid\<close> by a positive
  divisor is HOL's \<open>mod\<close>.
\<close>

definition rdiv :: "int \<Rightarrow> int \<Rightarrow> int" where
  "rdiv a b = sgn a * sgn b * (\<bar>a\<bar> div \<bar>b\<bar>)"

definition rrem :: "int \<Rightarrow> int \<Rightarrow> int" where
  "rrem a b = a - rdiv a b * b"

lemma rdiv_nonneg [simp]: "0 \<le> a \<Longrightarrow> 0 < b \<Longrightarrow> rdiv a b = a div b"
  by (cases "a = 0") (auto simp: rdiv_def sgn_if)

lemma rrem_nonneg [simp]: "0 \<le> a \<Longrightarrow> 0 < b \<Longrightarrow> rrem a b = a mod b"
  by (simp add: rrem_def minus_div_mult_eq_mod)

lemma rrem_eq_0_iff: "b \<noteq> 0 \<Longrightarrow> rrem a b = 0 \<longleftrightarrow> b dvd a"
proof -
  assume b: "b \<noteq> 0"
  have "a = sgn a * \<bar>a\<bar>" "b = sgn b * \<bar>b\<bar>" by (simp_all add: sgn_mult_abs)
  then have "rdiv a b * b = sgn a * (sgn b * sgn b) * (\<bar>a\<bar> div \<bar>b\<bar> * \<bar>b\<bar>)"
    unfolding rdiv_def by (metis (no_types, opaque_lifting) mult.assoc mult.commute)
  also have "sgn b * sgn b = 1" using b by (simp add: sgn_if)
  finally have "rrem a b = sgn a * (\<bar>a\<bar> mod \<bar>b\<bar>)"
    unfolding rrem_def by (metis abs_sgn minus_div_mult_eq_mod mult.right_neutral
        mult.commute right_diff_distrib' sgn_mult_abs)
  then show ?thesis using b by (auto simp: sgn_if)
qed

section \<open>Text\<close>

text \<open>
  A Rust \<open>String\<close> is its UTF-8 bytes. \<open>char::is_control\<close> is the general category Cc:
  U+0000..U+001F, U+007F and U+0080..U+009F, the last range encoded \<open>C2 80\<close>..\<open>C2 9F\<close>.
\<close>

abbreviation byte :: "char \<Rightarrow> nat" where
  "byte c \<equiv> of_char c"

fun has_control :: "string \<Rightarrow> bool" where
  "has_control [] = False"
| "has_control [c] = (byte c < 32 \<or> byte c = 127)"
| "has_control (c # d # s) =
     (byte c < 32 \<or> byte c = 127 \<or> (byte c = 194 \<and> 128 \<le> byte d \<and> byte d \<le> 159)
      \<or> has_control (d # s))"

text \<open>
  \<open>s.trim().is_empty()\<close>: every character has the White\_Space property
  (U+0009..D, 20, 85, A0, 1680, 2000..200A, 2028, 2029, 202F, 205F, 3000).
\<close>

fun all_white :: "string \<Rightarrow> bool" where
  "all_white [] = True"
| "all_white (a # s) =
     (if (9 \<le> byte a \<and> byte a \<le> 13) \<or> byte a = 32 then all_white s
      else case s of
        [] \<Rightarrow> False
      | b # t \<Rightarrow>
          if byte a = 194 \<and> (byte b = 133 \<or> byte b = 160) then all_white t
          else case t of
            [] \<Rightarrow> False
          | c # u \<Rightarrow>
              ((byte a = 225 \<and> byte b = 154 \<and> byte c = 128)
               \<or> (byte a = 226 \<and> byte b = 128 \<and> 128 \<le> byte c \<and> byte c \<le> 138)
               \<or> (byte a = 226 \<and> byte b = 128 \<and> (byte c = 168 \<or> byte c = 169 \<or> byte c = 175))
               \<or> (byte a = 226 \<and> byte b = 129 \<and> byte c = 159)
               \<or> (byte a = 227 \<and> byte b = 128 \<and> byte c = 128))
              \<and> all_white u)"

definition is_ascii_uppercase :: "char \<Rightarrow> bool" where
  "is_ascii_uppercase c \<longleftrightarrow> 65 \<le> byte c \<and> byte c \<le> 90"

definition is_ascii_hexdigit :: "char \<Rightarrow> bool" where
  "is_ascii_hexdigit c \<longleftrightarrow>
     (48 \<le> byte c \<and> byte c \<le> 57) \<or> (65 \<le> byte c \<and> byte c \<le> 70) \<or> (97 \<le> byte c \<and> byte c \<le> 102)"

text \<open>\<open>Display\<close> of a natural number.\<close>

fun digits :: "nat \<Rightarrow> string" where
  "digits n = (if n < 10 then [char_of (48 + n)] else digits (n div 10) @ [char_of (48 + n mod 10)])"

declare digits.simps [simp del]

section \<open>Association lists and duplicates\<close>

text \<open>
  A \<open>HashMap\<close> built by \<open>collect\<close> or repeated \<open>insert\<close> keeps the last binding of a key.
\<close>

definition last_by :: "('a \<Rightarrow> 'k) \<Rightarrow> 'a list \<Rightarrow> 'k \<Rightarrow> 'a option" where
  "last_by key xs k = find (\<lambda>x. key x = k) (rev xs)"

lemma find_SomeD: "find P xs = Some x \<Longrightarrow> x \<in> set xs \<and> P x"
  by (induction xs) (auto split: if_splits)

lemma last_by_Some: "last_by key xs k = Some x \<Longrightarrow> x \<in> set xs \<and> key x = k"
  unfolding last_by_def by (drule find_SomeD) simp

lemma last_by_None_iff: "last_by key xs k = None \<longleftrightarrow> k \<notin> key ` set xs"
  by (auto simp: last_by_def find_None_iff)

lemma last_by_distinct:
  assumes "distinct (map key xs)" and "x \<in> set xs"
  shows "last_by key xs (key x) = Some x"
proof -
  have "last_by key xs (key x) \<noteq> None"
    using assms(2) by (auto simp: last_by_None_iff)
  then obtain y where y: "last_by key xs (key x) = Some y" by auto
  from last_by_Some [OF y] have "y \<in> set xs" "key y = key x" by auto
  moreover have "inj_on key (set xs)" using assms(1) by (simp add: distinct_map)
  ultimately have "y = x" using assms(2) by (auto dest: inj_onD)
  with y show ?thesis by simp
qed

end
