(* ===== verification/Float64.thy ===== *)
theory Float64
  imports Rounding Prelude
begin

text \<open>
  Rust's \<open>f64\<close>: an executable model of IEEE 754 binary64 with round-to-nearest-even.
  A finite double is \<open>Fin s m e\<close>: sign (\<open>True\<close> is negative), mantissa and exponent, worth
  \<open>m * 2 powi e\<close>; the canonical triples are \<open>f64_ok\<close> (normal numbers have
  \<open>2 ^ 52 \<le> m\<close>, subnormal ones and the two zeros \<open>e = -1074\<close>). All NaNs are one value.
  The operators of the source are the operators of the type: \<open>+ - * /\<close>, unary minus,
  \<open>< \<le>\<close>; \<open>==\<close> is \<open>feq\<close>, \<open>f64::min\<close>, \<open>f64::max\<close>, \<open>f64::abs\<close> are \<open>fmin\<close>, \<open>fmax\<close>,
  \<open>fabs\<close>. Every operation computes on integers; the lemmas say that it returns the real
  result rounded by \<open>rnd\<close>, or an infinity when that is \<open>2 ^ 1024\<close> or more.
\<close>

section \<open>The type\<close>

datatype f64 = NaN | Inf bool | Fin bool int int

definition f64_ok :: "f64 \<Rightarrow> bool" where
  "f64_ok x = (case x of
      Fin s m e \<Rightarrow> 0 \<le> m \<and> m < 2 ^ 53 \<and> - 1074 \<le> e \<and> e \<le> 971 \<and> (m < 2 ^ 52 \<longrightarrow> e = - 1074)
    | _ \<Rightarrow> True)"

fun is_finite :: "f64 \<Rightarrow> bool" where
  "is_finite (Fin s m e) = True"
| "is_finite _ = False"

fun smant :: "f64 \<Rightarrow> int" where
  "smant (Fin s m e) = (if s then - m else m)"
| "smant _ = 0"

fun val :: "f64 \<Rightarrow> real" where
  "val (Fin s m e) = of_int (if s then - m else m) * p2 e"
| "val _ = 0"

section \<open>Rounding a quotient of integers\<close>

text \<open>Bit length of a nonnegative integer.\<close>

function blen :: "int \<Rightarrow> int" where
  "blen n = (if n \<le> 0 then 0 else 1 + blen (n div 2))"
  by pat_completeness auto
termination
  by (relation "measure nat") auto

declare blen.simps [simp del]

lemma blen_bounds: "0 < n \<Longrightarrow> 1 \<le> blen n \<and> 2 ^ nat (blen n - 1) \<le> n \<and> n < 2 ^ nat (blen n)"
proof (induction n rule: blen.induct)
  case (1 n)
  show ?case
  proof (cases "n = 1")
    case True
    then show ?thesis by (simp add: blen.simps)
  next
    case False
    with "1.prems" have "0 < n div 2" by simp
    with "1.IH" "1.prems" have IH: "1 \<le> blen (n div 2)" "2 ^ nat (blen (n div 2) - 1) \<le> n div 2"
        "n div 2 < 2 ^ nat (blen (n div 2))" by auto
    have b: "blen n = 1 + blen (n div 2)" using "1.prems" by (subst blen.simps) simp
    have "2 ^ nat (blen n - 1) = 2 * (2 :: int) ^ nat (blen (n div 2) - 1)"
      using IH(1) b by (simp add: nat_diff_distrib flip: power_Suc)
    moreover have "2 ^ nat (blen n) = 2 * (2 :: int) ^ nat (blen (n div 2))"
      using IH(1) b by (simp add: nat_add_distrib)
    ultimately show ?thesis using IH b by linarith
  qed
qed

text \<open>\<open>shl n e\<close> is \<open>n * 2 ^ e\<close> for a nonnegative exponent, \<open>n\<close> otherwise.\<close>

definition shl :: "int \<Rightarrow> int \<Rightarrow> int" where
  "shl n e = n * 2 ^ nat e"

text \<open>The exponent of the unit in the last place of \<open>n / d\<close>.\<close>

definition qexp :: "int \<Rightarrow> int \<Rightarrow> int" where
  "qexp n d =
     (let k = blen n - blen d;
          f = (if shl d k \<le> shl n (- k) then k else k - 1)
      in max (- 1074) (f - 52))"

definition rne_div :: "int \<Rightarrow> int \<Rightarrow> int" where
  "rne_div n d =
     (let q = n div d; r = n mod d in
      if 2 * r < d then q else if d < 2 * r then q + 1 else if even q then q else q + 1)"

definition pack :: "bool \<Rightarrow> int \<Rightarrow> int \<Rightarrow> f64" where
  "pack s q e =
     (let (m, e) = (if q = 2 ^ 53 then (2 ^ 52, e + 1) else (q, e)) in
      if 971 < e then Inf s else Fin s m e)"

definition round_q :: "bool \<Rightarrow> int \<Rightarrow> int \<Rightarrow> f64" where
  "round_q s n d =
     (if n = 0 then Fin s 0 (- 1074)
      else let e = qexp n d in pack s (rne_div (shl n (- e)) (shl d e)) e)"

lemma shl_real: "real_of_int (shl n e) = of_int n * p2 (max e 0)"
  by (simp add: shl_def p2_nat max_def)

lemma shl_quot: "real_of_int (shl n (- e)) / of_int (shl d e) = of_int n / of_int d / p2 e"
proof -
  have "p2 (max (- e) 0) / p2 (max e 0) = 1 / p2 e"
    by (simp add: max_def power_int_minus field_simps)
  then show ?thesis unfolding shl_real by (simp add: field_simps)
qed

lemma shl_quot': "real_of_int (shl n e) / of_int (shl d (- e)) = of_int n / of_int d * p2 e"
  using shl_quot [of n "- e" d] by (simp add: power_int_minus field_simps)

lemma rne_div: "0 < d \<Longrightarrow> rne_div n d = rne (of_int n / of_int d)"
proof -
  assume d: "0 < d"
  have f: "\<lfloor>real_of_int n / of_int d\<rfloor> = n div d" by (rule floor_divide_of_int_eq)
  have r: "real_of_int n / of_int d - of_int (n div d) = of_int (n mod d) / of_int d"
  proof -
    have "real_of_int n = of_int (n div d) * of_int d + of_int (n mod d)"
      by (metis div_mult_mod_eq of_int_add of_int_mult)
    with d show ?thesis by (simp add: field_simps)
  qed
  have dr: "0 < real_of_int d" using d by simp
  have "real_of_int (n mod d) / of_int d < 1 / 2 \<longleftrightarrow> real_of_int (2 * (n mod d)) < of_int d"
    using dr by (simp add: pos_divide_less_eq mult.commute)
  then have c1: "real_of_int (n mod d) / of_int d < 1 / 2 \<longleftrightarrow> 2 * (n mod d) < d"
    by (simp only: of_int_less_iff)
  have "1 / 2 < real_of_int (n mod d) / of_int d \<longleftrightarrow> of_int d < real_of_int (2 * (n mod d))"
    using dr by (simp add: pos_less_divide_eq mult.commute)
  then have c2: "1 / 2 < real_of_int (n mod d) / of_int d \<longleftrightarrow> d < 2 * (n mod d)"
    by (simp only: of_int_less_iff)
  show ?thesis unfolding rne_def rne_div_def Let_def f r c1 c2 ..
qed

lemma qexp: "0 < n \<Longrightarrow> 0 < d \<Longrightarrow> qexp n d = ulpe (of_int n / of_int d)"
proof -
  assume n: "0 < n" and d: "0 < d"
  let ?x = "real_of_int n / of_int d" and ?k = "blen n - blen d"
  have x: "0 < ?x" using n d by simp
  have real_b: "p2 (blen m - 1) \<le> of_int m \<and> real_of_int m < p2 (blen m)" if m: "0 < m" for m
    using blen_bounds [OF m] by (simp add: p2_nat)
  have "p2 (?k - 1) < ?x"
  proof -
    have "p2 (?k - 1) * of_int d < p2 (?k - 1) * p2 (blen d)" using real_b [OF d] by simp
    also have "\<dots> = p2 (blen n - 1)" by (simp flip: p2_add)
    also have "\<dots> \<le> of_int n" using real_b [OF n] by simp
    finally show ?thesis using d by (simp add: pos_less_divide_eq)
  qed
  moreover have "?x < p2 (?k + 1)"
  proof -
    have "of_int n < p2 (blen n)" using real_b [OF n] by simp
    also have "\<dots> = p2 (?k + 1) * p2 (blen d - 1)" by (simp flip: p2_add)
    also have "\<dots> \<le> p2 (?k + 1) * of_int d" using real_b [OF d] by simp
    finally show ?thesis using d by (simp add: pos_divide_less_eq)
  qed
  moreover have "shl d ?k \<le> shl n (- ?k) \<longleftrightarrow> p2 ?k \<le> ?x"
  proof -
    have "shl d ?k \<le> shl n (- ?k) \<longleftrightarrow> 1 \<le> real_of_int (shl n (- ?k)) / of_int (shl d ?k)"
    proof -
      have "0 < real_of_int (shl d ?k)" using d by (simp add: shl_def)
      then show ?thesis by (simp add: pos_le_divide_eq)
    qed
    also have "\<dots> \<longleftrightarrow> p2 ?k \<le> ?x" unfolding shl_quot by (subst pos_le_divide_eq) simp_all
    finally show ?thesis .
  qed
  ultimately have "flog2 ?x = (if shl d ?k \<le> shl n (- ?k) then ?k else ?k - 1)"
    using flog2_iff [OF x, of ?k] flog2_iff [OF x, of "?k - 1"] by auto
  then show ?thesis by (simp add: qexp_def ulpe_def Let_def)
qed

definition huge :: real where
  "huge = p2 1024"

lemma huge_pos [simp]: "0 < huge"
  unfolding huge_def by (rule p2_pos)

definition sg :: "bool \<Rightarrow> real" where
  "sg s = (if s then - 1 else 1)"

lemma pack_val:
  assumes "0 \<le> q" "q \<le> 2 ^ 53" "- 1074 \<le> e" "2 ^ 52 \<le> q \<or> e = - 1074"
  shows "if of_int q * p2 e < huge
    then is_finite (pack s q e) \<and> val (pack s q e) = sg s * (of_int q * p2 e) \<and> f64_ok (pack s q e)
    else pack s q e = Inf s"
proof (cases "q = 2 ^ 53")
  case True
  have r: "of_int q * p2 e = p2 (53 + e)" using True by (simp add: p2_add)
  have "p2 (e + 1) * 2 ^ 52 = p2 (53 + e)" by (simp add: p2_add)
  with True assms show ?thesis unfolding r huge_def p2_less_iff
    by (auto simp: pack_def f64_ok_def sg_def)
next
  case False
  with assms(2) have q: "q < 2 ^ 53" by simp
  then have qr: "real_of_int q < 2 ^ 53" by simp
  show ?thesis
  proof (cases "971 < e")
    case True
    with assms(4) have "2 ^ 52 \<le> q" by simp
    then have q52: "(2 :: real) ^ 52 \<le> of_int q" by simp
    have "huge \<le> p2 (52 + e)" unfolding huge_def using True by (subst p2_le_iff) simp
    also have "\<dots> = 2 ^ 52 * p2 e" by (simp add: p2_add)
    also have "\<dots> \<le> of_int q * p2 e" using q52 by (intro mult_right_mono) simp_all
    finally show ?thesis using False True by (simp add: pack_def)
  next
    case e: False
    have "of_int q * p2 e < 2 ^ 53 * p2 e" using qr by (intro mult_strict_right_mono) simp_all
    also have "\<dots> = p2 (53 + e)" by (simp add: p2_add)
    also have "\<dots> \<le> huge" unfolding huge_def using e by (subst p2_le_iff) simp
    finally show ?thesis using False e q assms by (auto simp: pack_def f64_ok_def sg_def)
  qed
qed

text \<open>The executable rounding is \<open>rnd\<close>, with overflow to infinity.\<close>

theorem round_q:
  assumes n: "0 \<le> n" and d: "0 < d"
  shows "if rnd (of_int n / of_int d) < huge
    then is_finite (round_q s n d) \<and> val (round_q s n d) = sg s * rnd (of_int n / of_int d)
         \<and> f64_ok (round_q s n d)
    else round_q s n d = Inf s"
proof (cases "n = 0")
  case True
  then show ?thesis by (simp add: round_q_def f64_ok_def)
next
  case False
  with n have n0: "0 < n" by simp
  let ?x = "real_of_int n / of_int d" and ?e = "ulpe (real_of_int n / of_int d)"
  have x: "0 < ?x" using n0 d by simp
  have q: "rne_div (shl n (- ?e)) (shl d ?e) = rne (?x / p2 ?e)"
  proof -
    have "0 < shl d ?e" using d by (simp add: shl_def)
    then show ?thesis by (subst rne_div) (simp_all only: shl_quot)
  qed
  have r: "round_q s n d = pack s (rne (?x / p2 ?e)) ?e"
    using False by (simp add: round_q_def qexp [OF n0 d] q Let_def)
  have lo: "2 ^ 52 \<le> rne (?x / p2 ?e) \<or> ?e = - 1074"
  proof (cases "?e = - 1074")
    case False
    then have "of_int (2 ^ 52) \<le> ?x / p2 ?e" using scaled_ge [OF x] ulpe_le [of ?x] by simp
    from rne_mono [OF this] show ?thesis by (simp only: rne_of_int simp_thms)
  qed simp
  have "rnd ?x = of_int (rne (?x / p2 ?e)) * p2 ?e" using x by (simp add: rnd_def rndp_def)
  moreover have "0 \<le> rne (?x / p2 ?e)" "rne (?x / p2 ?e) \<le> 2 ^ 53"
    by (rule rne_nonneg, rule divide_nonneg_pos, rule less_imp_le [OF x], rule p2_pos,
        rule rne_scaled_le, rule less_imp_le [OF x])
  note pack_val [OF this ulpe_le lo, of s]
  ultimately show ?thesis unfolding r by (simp only:)
qed


section \<open>The operators\<close>

fun fneg :: "f64 \<Rightarrow> f64" where
  "fneg (Fin s m e) = Fin (\<not> s) m e"
| "fneg (Inf s) = Inf (\<not> s)"
| "fneg NaN = NaN"

fun fabs :: "f64 \<Rightarrow> f64" where
  "fabs (Fin s m e) = Fin False m e"
| "fabs (Inf s) = Inf False"
| "fabs NaN = NaN"

text \<open>The common exponent two operands are aligned to; a zero operand does not lower it.\<close>

definition algn :: "int \<Rightarrow> int \<Rightarrow> int \<Rightarrow> int \<Rightarrow> int" where
  "algn m e n f = (if m = 0 then f else if n = 0 then e else min e f)"

definition round_z :: "bool \<Rightarrow> int \<Rightarrow> int \<Rightarrow> f64" where
  "round_z zs z g =
     (if z = 0 then Fin zs 0 (- 1074) else round_q (z < 0) (shl \<bar>z\<bar> g) (shl 1 (- g)))"

fun fadd :: "f64 \<Rightarrow> f64 \<Rightarrow> f64" where
  "fadd (Fin s m e) (Fin t n f) =
     (let g = algn m e n f in
      round_z (s \<and> t) (shl (if s then - m else m) (e - g) + shl (if t then - n else n) (f - g)) g)"
| "fadd (Inf s) (Inf t) = (if s = t then Inf s else NaN)"
| "fadd (Inf s) (Fin t n f) = Inf s"
| "fadd (Fin s m e) (Inf t) = Inf t"
| "fadd NaN y = NaN"
| "fadd x NaN = NaN"

fun fmul :: "f64 \<Rightarrow> f64 \<Rightarrow> f64" where
  "fmul (Fin s m e) (Fin t n f) =
     round_q (s \<noteq> t) (shl (m * n) (e + f)) (shl 1 (- (e + f)))"
| "fmul (Inf s) (Inf t) = Inf (s \<noteq> t)"
| "fmul (Inf s) (Fin t n f) = (if n = 0 then NaN else Inf (s \<noteq> t))"
| "fmul (Fin s m e) (Inf t) = (if m = 0 then NaN else Inf (s \<noteq> t))"
| "fmul NaN y = NaN"
| "fmul x NaN = NaN"

fun fdiv :: "f64 \<Rightarrow> f64 \<Rightarrow> f64" where
  "fdiv (Fin s m e) (Fin t n f) =
     (if n = 0 then (if m = 0 then NaN else Inf (s \<noteq> t))
      else round_q (s \<noteq> t) (shl m (e - f)) (shl n (f - e)))"
| "fdiv (Inf s) (Inf t) = NaN"
| "fdiv (Inf s) (Fin t n f) = Inf (s \<noteq> t)"
| "fdiv (Fin s m e) (Inf t) = Fin (s \<noteq> t) 0 (- 1074)"
| "fdiv NaN y = NaN"
| "fdiv x NaN = NaN"

fun flt :: "f64 \<Rightarrow> f64 \<Rightarrow> bool" where
  "flt (Fin s m e) (Fin t n f) =
     (let g = algn m e n f in shl (if s then - m else m) (e - g) < shl (if t then - n else n) (f - g))"
| "flt (Inf s) (Inf t) = (s \<and> \<not> t)"
| "flt (Inf s) (Fin t n f) = s"
| "flt (Fin s m e) (Inf t) = (\<not> t)"
| "flt _ _ = False"

fun fle :: "f64 \<Rightarrow> f64 \<Rightarrow> bool" where
  "fle (Fin s m e) (Fin t n f) =
     (let g = algn m e n f in shl (if s then - m else m) (e - g) \<le> shl (if t then - n else n) (f - g))"
| "fle (Inf s) (Inf t) = (s \<or> \<not> t)"
| "fle (Inf s) (Fin t n f) = s"
| "fle (Fin s m e) (Inf t) = (\<not> t)"
| "fle _ _ = False"

instantiation f64 :: "{ord, zero, one, plus, minus, uminus, times, inverse}"
begin

definition less_eq_f64 :: "f64 \<Rightarrow> f64 \<Rightarrow> bool" where
  "less_eq_f64 = fle"

definition less_f64 :: "f64 \<Rightarrow> f64 \<Rightarrow> bool" where
  "less_f64 = flt"

definition zero_f64 :: f64 where
  "zero_f64 = Fin False 0 (- 1074)"

definition one_f64 :: f64 where
  "one_f64 = Fin False (2 ^ 52) (- 52)"

definition plus_f64 :: "f64 \<Rightarrow> f64 \<Rightarrow> f64" where
  "plus_f64 = fadd"

definition uminus_f64 :: "f64 \<Rightarrow> f64" where
  "uminus_f64 = fneg"

definition minus_f64 :: "f64 \<Rightarrow> f64 \<Rightarrow> f64" where
  "minus_f64 x y = fadd x (fneg y)"

definition times_f64 :: "f64 \<Rightarrow> f64 \<Rightarrow> f64" where
  "times_f64 = fmul"

definition divide_f64 :: "f64 \<Rightarrow> f64 \<Rightarrow> f64" where
  "divide_f64 = fdiv"

definition inverse_f64 :: "f64 \<Rightarrow> f64" where
  "inverse_f64 x = fdiv (Fin False (2 ^ 52) (- 52)) x"

instance ..

end

text \<open>IEEE equality: \<open>NaN\<close> is unequal to itself and the two zeros are equal.\<close>

definition feq :: "f64 \<Rightarrow> f64 \<Rightarrow> bool" where
  "feq x y \<longleftrightarrow> x \<le> y \<and> y \<le> x"

definition fmin :: "f64 \<Rightarrow> f64 \<Rightarrow> f64" where
  "fmin x y = (if x = NaN then y else if y = NaN then x else if x < y then x else y)"

definition fmax :: "f64 \<Rightarrow> f64 \<Rightarrow> f64" where
  "fmax x y = (if x = NaN then y else if y = NaN then x else if y < x then x else y)"

text \<open>Integer conversion (\<open>n as f64\<close>) and decimal literals (\<open>1e-9\<close> is \<open>f64_lit 1 (10 ^ 9)\<close>).\<close>

definition f64_of_int :: "int \<Rightarrow> f64" where
  "f64_of_int k = round_q (k < 0) \<bar>k\<bar> 1"

definition f64_lit :: "int \<Rightarrow> int \<Rightarrow> f64" where
  "f64_lit n d = round_q (n < 0) \<bar>n\<bar> d"

text \<open>\<open>iter().sum::<f64>()\<close>: the fold starts from \<open>-0.0\<close>.\<close>

definition fsum :: "f64 list \<Rightarrow> f64" where
  "fsum xs = foldl (+) (- 0) xs"

lemmas f64_ops = less_eq_f64_def less_f64_def zero_f64_def one_f64_def plus_f64_def
  uminus_f64_def minus_f64_def times_f64_def divide_f64_def inverse_f64_def

text \<open>Evaluation of closed terms.\<close>

lemma blen_numeral [simp]:
  "blen 0 = 0" "blen 1 = 1" "blen (numeral num.One) = 1"
  "blen (numeral (num.Bit0 w)) = blen (numeral w) + 1"
  "blen (numeral (num.Bit1 w)) = blen (numeral w) + 1"
proof -
  show "blen 0 = 0" by (simp add: blen.simps)
  show "blen 1 = 1" "blen (numeral num.One) = 1" by (subst blen.simps; simp add: blen.simps)+
  have d: "(numeral (num.Bit0 w) :: int) div 2 = numeral w"
    "(numeral (num.Bit1 w) :: int) div 2 = numeral w" by simp_all
  show "blen (numeral (num.Bit0 w)) = blen (numeral w) + 1"
    by (subst blen.simps) (simp only: d, simp)
  show "blen (numeral (num.Bit1 w)) = blen (numeral w) + 1"
    by (subst blen.simps) (simp only: d, simp)
qed

lemmas f64_eval = f64_ops f64_lit_def f64_of_int_def fmin_def fmax_def feq_def fsum_def
  algn_def round_z_def round_q_def qexp_def rne_div_def pack_def shl_def Let_def

lemma f64_examples:
  "f64_lit 1 10 + f64_lit 2 10 = Fin False 5404319552844596 (- 54)"
  "f64_of_int 1 / f64_of_int 3 = Fin False 6004799503160661 (- 54)"
  "f64_lit 1 (10 ^ 9) * f64_lit (10 ^ 9) 1 = 1"
  "(1 :: f64) - 1 = 0" "\<not> NaN \<le> NaN" "feq 0 (- 0)"
  by (simp_all add: f64_eval)


section \<open>The operators compute rounded reals\<close>

lemma shl_align: "k = 0 \<or> g \<le> e \<Longrightarrow> of_int (shl k (e - g)) * p2 g = of_int k * p2 e"
  using p2_split [of g e] by (auto simp: shl_def)

lemma algn_le: "(if s then - m else m) = 0 \<or> algn m e n f \<le> e"
  "(if t then - n else n) = 0 \<or> algn m e n f \<le> f"
  by (auto simp: algn_def)

lemma val_dbl: "f64_ok x \<Longrightarrow> val x \<in> dbl"
  by (cases x) (auto simp: f64_ok_def intro: dblI simp flip: of_int_minus)

text \<open>The result of an operation whose real result is \<open>r\<close>.\<close>

definition rounds_to :: "f64 \<Rightarrow> real \<Rightarrow> bool" where
  "rounds_to x r \<longleftrightarrow>
     (if \<bar>rnd r\<bar> < huge then is_finite x \<and> val x = rnd r \<and> f64_ok x else x = Inf (r < 0))"

lemma rounds_to_finite:
  assumes "rounds_to x r" and "is_finite x"
  shows "val x = rnd r" and "f64_ok x" and "\<bar>rnd r\<bar> < huge"
  using assms by (auto simp: rounds_to_def split: if_splits)

lemma rounds_to_bound:
  assumes "rounds_to x r" and "\<bar>r\<bar> \<le> b" and "b \<in> dbl" and "b < huge"
  shows "is_finite x" and "val x = rnd r" and "f64_ok x" and "\<bar>val x\<bar> \<le> b"
  using assms rne.rd_abs_le [of r b] by (auto simp: rounds_to_def)

lemma rounds_to_ok: "rounds_to x r \<Longrightarrow> f64_ok x"
  by (auto simp: rounds_to_def f64_ok_def split: if_splits)

lemma round_q_rounds:
  assumes "0 \<le> n" and "0 < d"
  shows "rounds_to (round_q s n d) (sg s * (of_int n / of_int d))"
proof -
  have "0 \<le> rnd (of_int n / of_int d)" using assms by (intro rne.rd_nonneg) simp
  moreover have "of_int n / of_int d \<noteq> (0 :: real)" if "\<not> rnd (of_int n / of_int d) < huge"
  proof
    assume "of_int n / of_int d = (0 :: real)"
    then have "rnd (of_int n / of_int d) = 0" by (simp only: rne.rd_zero)
    with that show False by simp
  qed
  moreover have "0 \<le> real_of_int n / of_int d" using assms by simp
  ultimately have *: "0 < real_of_int n / of_int d" if "\<not> rnd (of_int n / of_int d) < huge"
    using that by (smt (verit))
  moreover note \<open>0 \<le> rnd (of_int n / of_int d)\<close> \<open>0 \<le> real_of_int n / of_int d\<close>
  ultimately show ?thesis
    using round_q [OF assms, of s] rne.rd_minus [of "of_int n / of_int d"]
    by (cases s) (auto simp: rounds_to_def sg_def split: if_splits)
qed

lemma round_z_rounds: "rounds_to (round_z zs z g) (of_int z * p2 g)"
proof (cases "z = 0")
  case True
  then show ?thesis by (simp add: rounds_to_def round_z_def f64_ok_def)
next
  case False
  have "0 \<le> shl \<bar>z\<bar> g" "0 < shl 1 (- g)" by (simp_all add: shl_def)
  moreover have "sg (z < 0) * (of_int (shl \<bar>z\<bar> g) / of_int (shl 1 (- g))) = of_int z * p2 g"
    unfolding shl_quot' by (simp add: sg_def)
  ultimately show ?thesis using False round_q_rounds [of "shl \<bar>z\<bar> g" "shl 1 (- g)" "z < 0"]
    by (simp add: round_z_def)
qed

lemma add_rounds: "is_finite x \<Longrightarrow> is_finite y \<Longrightarrow> rounds_to (x + y) (val x + val y)"
proof -
  assume "is_finite x" and "is_finite y"
  then obtain s m e t n f where xy: "x = Fin s m e" "y = Fin t n f"
    by (cases x; cases y) auto
  let ?g = "algn m e n f" and ?a = "if s then - m else m" and ?b = "if t then - n else n"
  have "of_int (shl ?a (e - ?g) + shl ?b (f - ?g)) * p2 ?g = val x + val y"
    using shl_align [OF algn_le(1)] shl_align [OF algn_le(2)]
    by (simp only: xy val.simps distrib_right of_int_add)
  moreover have "rounds_to (x + y) (of_int (shl ?a (e - ?g) + shl ?b (f - ?g)) * p2 ?g)"
    unfolding plus_f64_def xy fadd.simps Let_def by (rule round_z_rounds)
  ultimately show ?thesis by (simp only:)
qed

lemma neg_simps [simp]: "is_finite (- x) = is_finite x" "val (- x) = - val x" "f64_ok (- x) = f64_ok x"
  by (cases x; simp add: uminus_f64_def f64_ok_def)+

lemma minus_is_add: "x - y = x + (- y)" for x y :: f64
  by (simp add: f64_ops)

lemma sub_rounds: "is_finite x \<Longrightarrow> is_finite y \<Longrightarrow> rounds_to (x - y) (val x - val y)"
  using add_rounds [of x "- y"] by (simp add: minus_is_add)

lemma mul_rounds: "is_finite x \<Longrightarrow> is_finite y \<Longrightarrow> f64_ok x \<Longrightarrow> f64_ok y \<Longrightarrow>
    rounds_to (x * y) (val x * val y)"
proof -
  assume "is_finite x" "is_finite y" "f64_ok x" "f64_ok y"
  then obtain s m e t n f where xy: "x = Fin s m e" "y = Fin t n f" and pos: "0 \<le> m" "0 \<le> n"
    by (cases x; cases y) (auto simp: f64_ok_def)
  have "0 \<le> shl (m * n) (e + f)" "0 < shl 1 (- (e + f))" using pos by (simp_all add: shl_def)
  from round_q_rounds [OF this, of "s \<noteq> t"]
  have "rounds_to (x * y) (sg (s \<noteq> t) * (of_int (m * n) * p2 (e + f)))"
    unfolding shl_quot' by (simp add: times_f64_def xy)
  moreover have "sg (s \<noteq> t) * (of_int (m * n) * p2 (e + f)) = val x * val y"
    by (auto simp: xy sg_def p2_add)
  ultimately show ?thesis by simp
qed

lemma div_rounds: "is_finite x \<Longrightarrow> is_finite y \<Longrightarrow> f64_ok x \<Longrightarrow> f64_ok y \<Longrightarrow> val y \<noteq> 0 \<Longrightarrow>
    rounds_to (x / y) (val x / val y)"
proof -
  assume "is_finite x" "is_finite y" "f64_ok x" "f64_ok y" "val y \<noteq> 0"
  then obtain s m e t n f where xy: "x = Fin s m e" "y = Fin t n f" and pos: "0 \<le> m" "0 < n"
    by (cases x; cases y) (auto simp: f64_ok_def less_le split: if_splits)
  have "0 \<le> shl m (e - f)" "0 < shl n (f - e)" using pos by (simp_all add: shl_def)
  have q: "real_of_int (shl m (e - f)) / of_int (shl n (f - e)) = of_int m / of_int n * p2 (e - f)"
    using shl_quot' [of m "e - f" n] by simp
  from round_q_rounds [OF \<open>0 \<le> shl m (e - f)\<close> \<open>0 < shl n (f - e)\<close>, of "s \<noteq> t"]
  have "rounds_to (x / y) (sg (s \<noteq> t) * (of_int m / of_int n * p2 (e - f)))"
    unfolding q using pos by (simp add: divide_f64_def xy)
  moreover have "sg (s \<noteq> t) * (of_int m / of_int n * p2 (e - f)) = val x / val y"
    by (auto simp: xy sg_def p2_diff)
  ultimately show ?thesis by simp
qed

lemma lit_rounds: "0 < d \<Longrightarrow> rounds_to (f64_lit n d) (of_int n / of_int d)"
proof -
  assume d: "0 < d"
  have "sg (n < 0) * (of_int \<bar>n\<bar> / of_int d) = (of_int n / of_int d :: real)"
    by (simp add: sg_def)
  with round_q_rounds [of "\<bar>n\<bar>" d "n < 0"] d show ?thesis by (simp add: f64_lit_def)
qed

lemma int_rounds: "rounds_to (f64_of_int k) (of_int k)"
  using lit_rounds [of 1 k] by (simp add: f64_lit_def f64_of_int_def)

section \<open>Comparison\<close>

lemma cmp_align:
  assumes "a = 0 \<or> g \<le> e" and "b = 0 \<or> g \<le> f"
  shows "shl a (e - g) < shl b (f - g) \<longleftrightarrow> of_int a * p2 e < of_int b * p2 f"
    and "shl a (e - g) \<le> shl b (f - g) \<longleftrightarrow> of_int a * p2 e \<le> of_int b * p2 f"
  unfolding shl_align [OF assms(1), symmetric] shl_align [OF assms(2), symmetric]
  by simp_all

lemma less_val [simp]: "is_finite x \<Longrightarrow> is_finite y \<Longrightarrow> x < y \<longleftrightarrow> val x < val y"
  by (cases x; cases y) (simp_all only: is_finite.simps val.simps less_f64_def flt.simps Let_def
      cmp_align [OF algn_le] simp_thms)

lemma le_val [simp]: "is_finite x \<Longrightarrow> is_finite y \<Longrightarrow> x \<le> y \<longleftrightarrow> val x \<le> val y"
  by (cases x; cases y) (simp_all only: is_finite.simps val.simps less_eq_f64_def fle.simps Let_def
      cmp_align [OF algn_le] simp_thms)

lemma feq_val [simp]: "is_finite x \<Longrightarrow> is_finite y \<Longrightarrow> feq x y \<longleftrightarrow> val x = val y"
  by (auto simp: feq_def)

lemma zero_val [simp]: "is_finite 0" "val 0 = 0" "f64_ok 0"
  by (simp_all add: zero_f64_def f64_ok_def)

lemma one_val [simp]: "is_finite 1" "val 1 = 1" "f64_ok 1"
  by (simp_all add: one_f64_def f64_ok_def power_int_def power_divide)

lemma abs_val [simp]: "is_finite (fabs x) = is_finite x" "f64_ok x \<Longrightarrow> val (fabs x) = \<bar>val x\<bar>"
  "f64_ok x \<Longrightarrow> f64_ok (fabs x)"
  by (cases x; auto simp: f64_ok_def abs_mult)+

lemma fmin_val: "is_finite x \<Longrightarrow> is_finite y \<Longrightarrow>
    is_finite (fmin x y) \<and> val (fmin x y) = min (val x) (val y)"
  by (cases x; cases y) (auto simp: fmin_def)

lemma fmax_val: "is_finite x \<Longrightarrow> is_finite y \<Longrightarrow>
    is_finite (fmax x y) \<and> val (fmax x y) = max (val x) (val y)"
  by (cases x; cases y) (auto simp: fmax_def)

lemma fmin_fmax_ok [simp]: "f64_ok x \<Longrightarrow> f64_ok y \<Longrightarrow> f64_ok (fmin x y)"
  "f64_ok x \<Longrightarrow> f64_ok y \<Longrightarrow> f64_ok (fmax x y)"
  by (simp_all add: fmin_def fmax_def)

lemma nonfinite_cases: "\<not> is_finite x \<Longrightarrow> x = NaN \<or> (\<exists>s. x = Inf s)"
  by (cases x) auto

text \<open>What an operation returns is canonical, whatever its arguments.\<close>

lemma nonfin_ok [simp]: "f64_ok NaN" "f64_ok (Inf s)"
  by (simp_all add: f64_ok_def)

lemma add_ok [simp]: "f64_ok x \<Longrightarrow> f64_ok y \<Longrightarrow> f64_ok (x + y)"
proof (cases "is_finite x \<and> is_finite y")
  case True
  then show ?thesis using rounds_to_ok [OF add_rounds] by blast
qed (cases x; cases y; auto simp: plus_f64_def)

lemma sub_ok [simp]: "f64_ok x \<Longrightarrow> f64_ok y \<Longrightarrow> f64_ok (x - y)"
  by (simp add: minus_is_add)

lemma mul_ok [simp]: "f64_ok x \<Longrightarrow> f64_ok y \<Longrightarrow> f64_ok (x * y)"
proof (cases "is_finite x \<and> is_finite y")
  case True
  moreover assume "f64_ok x" "f64_ok y"
  ultimately show ?thesis using rounds_to_ok [OF mul_rounds] by blast
qed (cases x; cases y; auto simp: times_f64_def)

lemma lit_ok [simp]: "0 < d \<Longrightarrow> f64_ok (f64_lit n d)"
  using rounds_to_ok [OF lit_rounds] by blast

lemma of_int_ok [simp]: "f64_ok (f64_of_int k)"
  using rounds_to_ok [OF int_rounds] by blast

text \<open>An addition whose result is finite had finite arguments.\<close>

lemma add_finiteD: "is_finite (x + y) \<Longrightarrow> is_finite x \<and> is_finite y"
  by (cases x; cases y) (auto simp: plus_f64_def split: if_splits)

lemma sub_finiteD: "is_finite (x - y) \<Longrightarrow> is_finite x \<and> is_finite y"
  using add_finiteD [of x "- y"] by (simp add: minus_is_add)

lemma mul_finiteD: "is_finite (x * y) \<Longrightarrow> is_finite x \<and> is_finite y"
  by (cases x; cases y) (auto simp: times_f64_def split: if_splits)

lemma mul_val: "is_finite (x * y) \<Longrightarrow> f64_ok x \<Longrightarrow> f64_ok y \<Longrightarrow> val (x * y) = rnd (val x * val y)"
  using mul_finiteD [of x y] rounds_to_finite(1) [OF mul_rounds] by blast

lemma div_finiteD: "is_finite (x / y) \<Longrightarrow> is_finite y \<Longrightarrow> is_finite x"
  by (cases x; cases y) (auto simp: divide_f64_def split: if_splits)

lemma div_val: "is_finite (x / y) \<Longrightarrow> is_finite y \<Longrightarrow> f64_ok x \<Longrightarrow> f64_ok y \<Longrightarrow> val y \<noteq> 0
    \<Longrightarrow> val (x / y) = rnd (val x / val y)"
  using div_finiteD [of x y] rounds_to_finite(1) [OF div_rounds] by blast

lemma div_ok [simp]: "f64_ok x \<Longrightarrow> f64_ok y \<Longrightarrow> f64_ok (x / y)"
proof -
  assume ok: "f64_ok x" "f64_ok y"
  show "f64_ok (x / y)"
  proof (cases "is_finite x \<and> is_finite y \<and> val y \<noteq> 0")
    case True
    with ok show ?thesis using rounds_to_ok [OF div_rounds] by blast
  next
    case False
    with ok show ?thesis
      by (cases x; cases y) (auto simp: divide_f64_def f64_ok_def split: if_splits)
  qed
qed

lemma add_val: "is_finite (x + y) \<Longrightarrow> val (x + y) = rnd (val x + val y)"
  using add_finiteD [of x y] rounds_to_finite(1) [OF add_rounds] by blast

lemma sub_val: "is_finite (x - y) \<Longrightarrow> val (x - y) = rnd (val x - val y)"
  using sub_finiteD [of x y] rounds_to_finite(1) [OF sub_rounds] by blast

text \<open>The guard \<open>x.is_finite()\<close> and comparisons: a comparison that holds excludes \<open>NaN\<close>.\<close>

lemma le_not_nan: "x \<le> y \<Longrightarrow> x \<noteq> NaN \<and> y \<noteq> NaN" for x y :: f64
  by (cases x; cases y) (auto simp: less_eq_f64_def)

lemma less_not_nan: "x < y \<Longrightarrow> x \<noteq> NaN \<and> y \<noteq> NaN" for x y :: f64
  by (cases x; cases y) (auto simp: less_f64_def)


section \<open>Range of a finite double, and the exact two-sum step\<close>

lemma ok_lt_huge: "f64_ok x \<Longrightarrow> \<bar>val x\<bar> < huge"
proof (cases x)
  case (Fin s m e)
  assume "f64_ok x"
  with Fin have m: "0 \<le> m" "m < 2 ^ 53" "e \<le> 971" by (auto simp: f64_ok_def)
  then have "real_of_int m < 2 ^ 53" by simp
  then have "of_int m * p2 e < 2 ^ 53 * p2 e" by (rule mult_strict_right_mono) simp
  also have "\<dots> = p2 (53 + e)" by (simp add: p2_add)
  also have "\<dots> \<le> huge" unfolding huge_def using m(3) by (subst p2_le_iff) simp
  finally show ?thesis using Fin m(1) by (auto simp: abs_mult)
qed simp_all

lemma two_sum_exact:
  assumes x: "is_finite x" "f64_ok x" and y: "is_finite y" "f64_ok y"
    and le: "\<bar>val y\<bar> \<le> \<bar>val x\<bar>" and hi: "is_finite (x + y)"
  shows "is_finite (y - ((x + y) - x))" and "f64_ok (y - ((x + y) - x))"
    and "val (x + y) + val (y - ((x + y) - x)) = val x + val y"
proof -
  let ?h = "x + y" and ?s = "val x + val y"
  have h: "val ?h = rnd ?s" "f64_ok ?h"
    using rounds_to_finite [OF add_rounds [OF x(1) y(1)] hi] by auto
  have d: "rnd ?s - val x \<in> dbl" using fast_two_sum [OF val_dbl val_dbl] x y le by blast
  have "0 \<le> val x \<longrightarrow> 0 \<le> rnd ?s" "val x \<le> 0 \<longrightarrow> rnd ?s \<le> 0"
    using le by (auto intro!: rne.rd_nonneg rne.rd_nonpos)
  then have "\<bar>rnd ?s - val x\<bar> \<le> max \<bar>rnd ?s\<bar> \<bar>val x\<bar>" by linarith
  then have "\<bar>rnd ?s - val x\<bar> < huge" using ok_lt_huge [OF h(2)] ok_lt_huge [OF x(2)] h(1) by simp
  with sub_rounds [OF hi x(1)] have t: "is_finite (?h - x)" "val (?h - x) = rnd ?s - val x"
    "f64_ok (?h - x)"
    by (auto simp: rounds_to_def h(1) rne.rd_exact [OF d])
  have e: "val y - (rnd ?s - val x) \<in> dbl"
    using dbl_minus [OF add_error_dbl [OF val_dbl [OF x(2)] val_dbl [OF y(2)]]]
    by (simp add: algebra_simps)
  have "\<bar>rnd ?s - ?s\<bar> \<le> \<bar>val x - ?s\<bar>" by (rule rnd_nearest) (rule val_dbl [OF x(2)])
  then have "\<bar>val y - (rnd ?s - val x)\<bar> < huge" using ok_lt_huge [OF y(2)] by linarith
  with sub_rounds [OF y(1) t(1)] show "is_finite (y - (?h - x))" "f64_ok (y - (?h - x))"
    "val ?h + val (y - (?h - x)) = ?s"
    by (auto simp: rounds_to_def t(2) h(1) rne.rd_exact [OF e])
qed

section \<open>The order of doubles and exact sums\<close>

lemma f64_le_trans: "x \<le> y \<Longrightarrow> y \<le> z \<Longrightarrow> x \<le> z" for x y z :: f64
proof -
  assume "x \<le> y" "y \<le> z"
  moreover from this have "x \<noteq> NaN" "y \<noteq> NaN" "z \<noteq> NaN" using le_not_nan by blast+
  ultimately show ?thesis
  proof (cases "is_finite x \<and> is_finite y \<and> is_finite z")
    case False
    then show ?thesis using \<open>x \<le> y\<close> \<open>y \<le> z\<close>
      by (cases x; cases y; cases z) (auto simp: less_eq_f64_def split: if_splits)
  qed (auto intro: order_trans)
qed

lemma fmax_ge: "x \<noteq> NaN \<Longrightarrow> x \<le> fmax x y"
  "y \<noteq> NaN \<Longrightarrow> y \<le> fmax x y" "x \<noteq> NaN \<Longrightarrow> fmax x y \<noteq> NaN"
proof -
  have le: "x \<le> x" if "x \<noteq> NaN" for x :: f64
    using that by (cases x) (simp_all add: less_eq_f64_def)
  have tot: "x \<le> y" if "\<not> y < x" "x \<noteq> NaN" "y \<noteq> NaN" for x y :: f64
  proof (cases "is_finite x \<and> is_finite y")
    case False
    then show ?thesis using that
      by (cases x; cases y) (auto simp: less_eq_f64_def less_f64_def split: if_splits)
  qed (use that in auto)
  have less: "x \<le> y" if "x < y" for x y :: f64
  proof (cases "is_finite x \<and> is_finite y")
    case False
    then show ?thesis using that
      by (cases x; cases y) (auto simp: less_eq_f64_def less_f64_def split: if_splits)
  qed (use that in auto)
  show "x \<noteq> NaN \<Longrightarrow> x \<le> fmax x y" "y \<noteq> NaN \<Longrightarrow> y \<le> fmax x y" "x \<noteq> NaN \<Longrightarrow> fmax x y \<noteq> NaN"
    using le tot less by (auto simp: fmax_def)
qed

lemma fmin_le: "x \<noteq> NaN \<Longrightarrow> fmin x y \<le> x" "y \<noteq> NaN \<Longrightarrow> fmin x y \<le> y" "x \<noteq> NaN \<Longrightarrow> fmin x y \<noteq> NaN"
proof -
  have le: "x \<le> x" if "x \<noteq> NaN" for x :: f64
    using that by (cases x) (simp_all add: less_eq_f64_def)
  have tot: "y \<le> x" if "\<not> x < y" "x \<noteq> NaN" "y \<noteq> NaN" for x y :: f64
  proof (cases "is_finite x \<and> is_finite y")
    case False
    then show ?thesis using that
      by (cases x; cases y) (auto simp: less_eq_f64_def less_f64_def split: if_splits)
  qed (use that in auto)
  have less: "x \<le> y" if "x < y" for x y :: f64
  proof (cases "is_finite x \<and> is_finite y")
    case False
    then show ?thesis using that
      by (cases x; cases y) (auto simp: less_eq_f64_def less_f64_def split: if_splits)
  qed (use that in auto)
  show "x \<noteq> NaN \<Longrightarrow> fmin x y \<le> x" "y \<noteq> NaN \<Longrightarrow> fmin x y \<le> y" "x \<noteq> NaN \<Longrightarrow> fmin x y \<noteq> NaN"
    using le tot less by (auto simp: fmin_def)
qed

lemma foldl_fmin_le:
  "m \<noteq> NaN \<Longrightarrow> foldl fmin m xs \<noteq> NaN \<and> foldl fmin m xs \<le> m
   \<and> (\<forall>x \<in> set xs. x \<noteq> NaN \<longrightarrow> foldl fmin m xs \<le> x)"
proof (induction xs arbitrary: m)
  case Nil
  then show ?case by (cases m) (simp_all add: less_eq_f64_def)
next
  case (Cons x xs)
  note ih = Cons.IH [OF fmin_le(3) [OF Cons.prems, of x]]
  then have "foldl fmin (fmin m x) xs \<le> m" "x \<noteq> NaN \<longrightarrow> foldl fmin (fmin m x) xs \<le> x"
    using f64_le_trans fmin_le(1,2) Cons.prems by blast+
  with ih show ?case by auto
qed

lemma exact_add:
  assumes "is_finite x" "is_finite y" "val x = of_int a" "val y = of_int b" "\<bar>a + b\<bar> \<le> 2 ^ 53"
  shows "is_finite (x + y)" "val (x + y) = of_int (a + b)"
proof -
  have i: "val x + val y = of_int (a + b)" using assms by simp
  have d: "of_int (a + b) \<in> dbl" by (rule dbl_int) fact
  have "\<bar>real_of_int (a + b)\<bar> \<le> 2 ^ 53" using assms(5) by (metis of_int_abs of_int_le_iff of_int_numeral of_int_power)
  moreover have "(2 :: real) ^ 53 \<in> dbl" "(2 :: real) ^ 53 < huge"
    using dbl_p2 [of 53] by (simp_all add: power_int_def huge_def)
  ultimately show "is_finite (x + y)" "val (x + y) = of_int (a + b)"
    using rounds_to_bound [OF add_rounds [OF assms(1,2)]] i d by (simp_all add: rne.rd_exact)
qed

lemma exact_sum:
  assumes "is_finite x" "val x = of_int S" "\<forall>y \<in> set ys. is_finite y \<and> val y \<in> \<int>"
    and "\<bar>real_of_int S\<bar> + (\<Sum>y\<leftarrow>ys. \<bar>val y\<bar>) \<le> 2 ^ 53"
  shows "is_finite (foldl (+) x ys) \<and> val (foldl (+) x ys) = of_int S + (\<Sum>y\<leftarrow>ys. val y)"
  using assms
proof (induction ys arbitrary: x S)
  case (Cons y ys)
  from Cons.prems(3) obtain D where D: "is_finite y" "val y = of_int D" by (auto elim: Ints_cases)
  have nn: "0 \<le> (\<Sum>y\<leftarrow>ys. \<bar>val y\<bar>)" by (intro sum_list_nonneg) auto
  then have b: "\<bar>real_of_int (S + D)\<bar> \<le> 2 ^ 53" using Cons.prems(4) D by simp
  then have "\<bar>S + D\<bar> \<le> 2 ^ 53" by (metis of_int_abs of_int_le_iff of_int_numeral of_int_power)
  from exact_add [OF Cons.prems(1) D(1) Cons.prems(2) D(2) this] Cons.IH [of "x + y" "S + D"] Cons.prems D
  show ?case by auto
qed simp

end
