(* ===== verification/Journal_Reduction.thy ===== *)
theory Journal_Reduction
  imports Float64
begin

text \<open>
  \<open>portfolio-ledger-native/src/journal/reduction.rs\<close>: the ordered, atomic reduction of
  journal transactions into account balances. \<open>accurate_sum\<close> is the compensated sum the
  balance check uses; \<open>journal_apply\<close> is \<open>apply\<close>, with the caller's \<open>output\<close> slice as
  explicit state, so that what a failed call leaves behind is part of its result. Every
  slice and index of the source that could be out of rng is a \<open>Panic\<close> branch.
\<close>

section \<open>Definitions\<close>

definition INVALID :: int where "INVALID = 1"
definition UNBALANCED :: int where "UNBALANCED = 2"
definition MISMATCH :: int where "MISMATCH = 3"
definition OVERFLOW :: int where "OVERFLOW = 4"
definition MAX_KEYS :: nat where "MAX_KEYS = 2000000"
definition MAX_LINES :: nat where "MAX_LINES = 20000000"

lemmas status_codes = INVALID_def UNBALANCED_def MISMATCH_def OVERFLOW_def

text \<open>
  One iteration of the inner loop of \<open>accurate_sum\<close>: the state is \<open>x\<close>, \<open>kept\<close> and the
  vector \<open>partials\<close>, whose prefix is overwritten in place while its rest is still read.
\<close>

definition absorb_step :: "f64 \<times> nat \<times> f64 list \<Rightarrow> nat \<Rightarrow> (int, f64 \<times> nat \<times> f64 list) result" where
  "absorb_step st j =
     (case st of (x, kept, partials) \<Rightarrow>
       and_then (nth_checked partials j) (\<lambda>y.
       let (x, y) = (if fabs x < fabs y then (y, x) else (x, y));
           hi = x + y
       in require (is_finite hi) OVERFLOW
            (let lo = y - (hi - x)
             in if \<not> feq lo 0
                then if kept < length partials then Ok (hi, kept + 1, partials[kept := lo]) else Panic
                else Ok (hi, kept, partials))))"

definition add_value :: "f64 list \<Rightarrow> f64 \<Rightarrow> (int, f64 list) result" where
  "add_value partials value =
     and_then (fold_res absorb_step (value, 0, partials) [0..<length partials])
       (\<lambda>(x, kept, partials). Ok (take kept partials @ [x]))"

definition accurate_sum :: "f64 list \<Rightarrow> (int, f64) result" where
  "accurate_sum values =
     and_then (fold_res add_value [] values) (\<lambda>partials. Ok (fsum (rev partials)))"

definition windows2 :: "'a list \<Rightarrow> ('a \<times> 'a) list" where
  "windows2 xs = zip xs (tl xs)"

definition malformed ::
    "f64 list \<Rightarrow> i64 list \<Rightarrow> i64 list \<Rightarrow> f64 list \<Rightarrow> f64 list \<Rightarrow> f64 list \<Rightarrow> (int, bool) result" where
  "malformed previous offsets keys values expected out =
     or_res (Ok (length previous > MAX_KEYS
       \<or> length values > MAX_LINES
       \<or> length expected \<noteq> length previous
       \<or> length out \<noteq> length previous
       \<or> length keys \<noteq> length values
       \<or> offsets = []))
    (or_res (and_then (nth_checked offsets 0) (\<lambda>first. Ok (first \<noteq> 0)))
    (Ok ((if offsets = [] then None else Some (last offsets)) \<noteq> Some (int (length values))
       \<or> list_ex (\<lambda>(a, b). a < 0 \<or> b \<le> a) (windows2 offsets)
       \<or> list_ex (\<lambda>k. k < 0 \<or> int (length previous) \<le> k) keys
       \<or> list_ex (\<lambda>x. \<not> is_finite x) (previous @ values @ expected))))"

definition slice :: "'a list \<Rightarrow> nat \<Rightarrow> nat \<Rightarrow> ('e, 'a list) result" where
  "slice xs lo hi = (if lo \<le> hi \<and> hi \<le> length xs then Ok (take (hi - lo) (drop lo xs)) else Panic)"

text \<open>\<open>let balance = &mut staged[keys[j] as usize]; *balance += values[j]; ...\<close>\<close>

definition post_line :: "i64 list \<Rightarrow> f64 list \<Rightarrow> f64 list \<Rightarrow> nat \<Rightarrow> (int, f64 list) result" where
  "post_line keys values staged j =
     and_then (nth_checked keys j) (\<lambda>k.
     and_then (nth_checked staged (nat k)) (\<lambda>balance.
     and_then (nth_checked values j) (\<lambda>v.
       require (is_finite (balance + v)) OVERFLOW (Ok (staged[nat k := balance + v])))))"

definition post_transaction ::
    "i64 list \<Rightarrow> f64 list \<Rightarrow> f64 list \<Rightarrow> i64 \<times> i64 \<Rightarrow> (int, f64 list) result" where
  "post_transaction keys values staged rng =
     (let lo = nat (fst rng); hi = nat (snd rng) in
      and_then (slice values lo hi) (\<lambda>amounts.
        let scale = fsum (map fabs amounts) in
        require (is_finite scale) OVERFLOW
          (and_then (accurate_sum amounts) (\<lambda>total.
             require (\<not> f64_lit 1 (10 ^ 9) * fmax scale 1 < fabs total) UNBALANCED
               (fold_res (post_line keys values) staged [lo..<hi])))))"

definition mismatch :: "f64 \<Rightarrow> f64 \<Rightarrow> bool" where
  "mismatch got want \<longleftrightarrow>
     fmax (f64_lit 1 (10 ^ 8)) (f64_lit 1 (10 ^ 9) * fmax (fabs got) (fabs want)) < fabs (got - want)"

definition journal_apply ::
    "f64 list \<Rightarrow> i64 list \<Rightarrow> i64 list \<Rightarrow> f64 list \<Rightarrow> f64 list \<Rightarrow> f64 list
      \<Rightarrow> (int, unit) result \<times> f64 list" where
  "journal_apply previous offsets keys values expected out =
     (let r = and_then (malformed previous offsets keys values expected out) (\<lambda>bad. require (\<not> bad) INVALID
         (and_then (fold_res (post_transaction keys values) previous (windows2 offsets)) (\<lambda>staged.
            require (list_all (\<lambda>(got, want). \<not> mismatch got want) (zip staged expected)) MISMATCH
              (if length staged = length out then Ok staged else Panic))))
      in case r of Ok staged \<Rightarrow> (Ok (), staged) | Err e \<Rightarrow> (Err e, out) | Panic \<Rightarrow> (Panic, out))"


section \<open>The compensated sum loses nothing\<close>

definition finok :: "f64 \<Rightarrow> bool" where
  "finok x \<longleftrightarrow> is_finite x \<and> f64_ok x"

definition vsum :: "f64 list \<Rightarrow> real" where
  "vsum xs = sum_list (map val xs)"

lemma vsum_simps [simp]: "vsum [] = 0" "vsum (x # xs) = val x + vsum xs"
  "vsum (xs @ ys) = vsum xs + vsum ys"
  by (simp_all add: vsum_def)

lemma absorb_step_spec:
  assumes st: "absorb_step (x, kept, ps) j = Ok (x', kept', ps')"
    and k: "kept \<le> j" "j < length ps" and x: "finok x"
    and good: "\<forall>p \<in> set (take kept ps). finok p" "finok (ps ! j)"
  shows "finok x' \<and> kept' \<le> Suc j \<and> length ps' = length ps \<and> drop (Suc j) ps' = drop (Suc j) ps
    \<and> (\<forall>p \<in> set (take kept' ps'). finok p)
    \<and> val x' + vsum (take kept' ps') = val x + val (ps ! j) + vsum (take kept ps)"
proof -
  define a b where "a = (if fabs x < fabs (ps ! j) then ps ! j else x)"
    and "b = (if fabs x < fabs (ps ! j) then x else ps ! j)"
  have ab: "finok a" "finok b" "val a + val b = val x + val (ps ! j)" "\<bar>val b\<bar> \<le> \<bar>val a\<bar>"
    using x good(2) by (auto simp: a_def b_def finok_def)
  have swap: "(if fabs x < fabs (ps ! j) then (ps ! j, x) else (x, ps ! j)) = (a, b)"
    by (simp add: a_def b_def)
  define lo where "lo = b - (a + b - a)"
  from st have hi: "is_finite (a + b)" and x': "x' = a + b"
    and r: "(kept', ps') = (if \<not> feq lo 0 then (kept + 1, ps[kept := lo]) else (kept, ps))"
    using k by (auto simp: absorb_step_def nth_checked_def swap Let_def lo_def split: if_splits)
  have two: "finok lo" "val (a + b) + val lo = val a + val b"
    using two_sum_exact [of a b] ab hi by (auto simp: finok_def lo_def)
  have fx: "finok x'" using hi ab by (simp add: x' finok_def)
  show ?thesis
  proof (cases "feq lo 0")
    case True
    then have "val lo = 0" using two(1) by (simp add: finok_def)
    with True r two fx ab k good(1) show ?thesis by (auto simp: x')
  next
    case False
    have "take (Suc kept) (ps[kept := lo]) = take kept ps @ [lo]"
      using k by (simp add: take_Suc_conv_app_nth)
    with False r two fx ab k good(1) show ?thesis by (auto simp: x')
  qed
qed

lemma absorb_loop:
  assumes "fold_res absorb_step (x, kept, ps) [j..<length ps] = Ok (x', kept', ps')"
    and "kept \<le> j" "j \<le> length ps" and "finok x"
    and "\<forall>p \<in> set (take kept ps). finok p" "\<forall>p \<in> set (drop j ps). finok p"
  shows "finok x' \<and> (\<forall>p \<in> set (take kept' ps'). finok p)
    \<and> val x' + vsum (take kept' ps') = val x + vsum (drop j ps) + vsum (take kept ps)"
  using assms
proof (induction "length ps - j" arbitrary: x kept ps j)
  case 0
  then show ?case by simp
next
  case (Suc n)
  then have j: "j < length ps" by simp
  then have d: "drop j ps = ps ! j # drop (Suc j) ps" by (simp add: Cons_nth_drop_Suc)
  from Suc.prems(1) obtain y k qs where
    st: "absorb_step (x, kept, ps) j = Ok (y, k, qs)" and
    rest: "fold_res absorb_step (y, k, qs) [Suc j..<length ps] = Ok (x', kept', ps')"
    using j by (auto simp: upt_conv_Cons)
  have spec: "finok y" "k \<le> Suc j" "length qs = length ps" "drop (Suc j) qs = drop (Suc j) ps"
    "\<forall>p \<in> set (take k qs). finok p"
    "val y + vsum (take k qs) = val x + val (ps ! j) + vsum (take kept ps)"
    using absorb_step_spec [OF st Suc.prems(2) j Suc.prems(4,5)] Suc.prems(6) d by auto
  have "finok x' \<and> (\<forall>p \<in> set (take kept' ps'). finok p)
    \<and> val x' + vsum (take kept' ps') = val y + vsum (drop (Suc j) qs) + vsum (take k qs)"
    using Suc.hyps(2) j rest spec Suc.prems(6) d by (intro Suc.hyps(1)) auto
  with spec d show ?case by simp
qed

lemma add_value_spec:
  assumes "add_value ps v = Ok ps'" and "finok v" and "\<forall>p \<in> set ps. finok p"
  shows "(\<forall>p \<in> set ps'. finok p) \<and> vsum ps' = vsum ps + val v"
proof -
  from assms(1) obtain x k qs where
    l: "fold_res absorb_step (v, 0, ps) [0..<length ps] = Ok (x, k, qs)" and "ps' = take k qs @ [x]"
    by (auto simp: add_value_def)
  with absorb_loop [OF l] assms(2,3) show ?thesis by auto
qed

lemma add_values_spec:
  assumes "fold_res add_value ps vs = Ok ps'" and "\<forall>v \<in> set vs. finok v" and "\<forall>p \<in> set ps. finok p"
  shows "(\<forall>p \<in> set ps'. finok p) \<and> vsum ps' = vsum ps + vsum vs"
  using assms
proof (induction vs arbitrary: ps)
  case (Cons v vs)
  from Cons.prems(1) obtain qs where q: "add_value ps v = Ok qs" "fold_res add_value qs vs = Ok ps'"
    by auto
  from add_value_spec [OF q(1)] Cons.prems(2,3)
  have "(\<forall>p \<in> set qs. finok p)" "vsum qs = vsum ps + val v" by auto
  with Cons.IH [OF q(2)] Cons.prems(2) show ?case by simp
qed simp

lemma absorb_step_no_Panic: "kept \<le> j \<Longrightarrow> j < length ps \<Longrightarrow> absorb_step (x, kept, ps) j \<noteq> Panic"
  by (simp add: absorb_step_def nth_checked_def Let_def require_def split: prod.splits)

lemma absorb_step_kept:
  "absorb_step (x, kept, ps) j = Ok (x', kept', ps') \<Longrightarrow> kept' \<le> Suc kept \<and> length ps' = length ps"
  by (auto simp: absorb_step_def nth_checked_def Let_def split: if_splits prod.splits)

lemma absorb_loop_no_Panic:
  "kept \<le> j \<Longrightarrow> j \<le> length ps \<Longrightarrow> fold_res absorb_step (x, kept, ps) [j..<length ps] \<noteq> Panic"
proof (induction "length ps - j" arbitrary: x kept ps j)
  case (Suc n)
  then have j: "j < length ps" by simp
  show ?case
  proof (cases "absorb_step (x, kept, ps) j")
    case (Ok y)
    obtain x' kept' ps' where y: "y = (x', kept', ps')" by (cases y)
    have "kept' \<le> Suc j" "length ps' = length ps" using absorb_step_kept Ok Suc.prems(1) unfolding y by force+
    then have "fold_res absorb_step y [Suc j..<length ps] \<noteq> Panic"
      using Suc.hyps(1) [of ps' "Suc j" kept' x'] Suc.hyps(2) j by (simp add: y)
    with Ok j show ?thesis by (simp add: upt_conv_Cons)
  qed (use absorb_step_no_Panic [OF Suc.prems(1) j] j in \<open>simp_all add: upt_conv_Cons\<close>)
qed simp

lemma add_value_no_Panic: "add_value ps v \<noteq> Panic"
  using absorb_loop_no_Panic [of 0 0 ps v] by (auto simp: add_value_def)

lemma accurate_sum_no_Panic: "accurate_sum vs \<noteq> Panic"
  using fold_res_no_Panic [where I = "\<lambda>_. True" and f = add_value] add_value_no_Panic
  by (auto simp: accurate_sum_def)

text \<open>
  C2. The partials that \<open>accurate_sum\<close> keeps are finite doubles whose exact sum is the
  exact sum of the inputs: no low-order bit of the transaction is lost before the final
  summation of the partials.\<close>

theorem accurate_sum_exact:
  assumes "accurate_sum vs = Ok r" and "\<forall>v \<in> set vs. is_finite v \<and> f64_ok v"
  shows "\<exists>ps. fold_res add_value [] vs = Ok ps \<and> r = fsum (rev ps)
    \<and> (\<forall>p \<in> set ps. is_finite p \<and> f64_ok p) \<and> sum_list (map val ps) = sum_list (map val vs)"
proof -
  from assms(1) obtain ps where ps: "fold_res add_value [] vs = Ok ps" "r = fsum (rev ps)"
    by (auto simp: accurate_sum_def)
  from add_values_spec [OF ps(1)] assms(2) ps show ?thesis
    by (auto simp: finok_def vsum_def)
qed

theorem accurate_sum_exact_witness:
  "accurate_sum [f64_lit (10 ^ 16) 1, 1, - f64_lit (10 ^ 16) 1] = Ok 1 \<and>
   (\<exists>ps. fold_res add_value [] [f64_lit (10 ^ 16) 1, 1, - f64_lit (10 ^ 16) 1] = Ok ps
     \<and> 1 = fsum (rev ps) \<and> (\<forall>p \<in> set ps. is_finite p \<and> f64_ok p)
     \<and> sum_list (map val ps) = sum_list (map val [f64_lit (10 ^ 16) 1, 1, - f64_lit (10 ^ 16) 1]))"
proof -
  have a: "accurate_sum [f64_lit (10 ^ 16) 1, 1, - f64_lit (10 ^ 16) 1] = Ok 1"
    by (simp add: accurate_sum_def add_value_def absorb_step_def nth_checked_def f64_eval require_def del: less_val le_val feq_val cong: eval_cong)
  have "\<forall>v \<in> set [f64_lit (10 ^ 16) 1, 1, - f64_lit (10 ^ 16) 1]. is_finite v \<and> f64_ok v"
    by (simp add: f64_eval f64_ok_def)
  from a accurate_sum_exact [OF a this] show ?thesis by blast
qed


section \<open>Posting\<close>

text \<open>The lines a transaction range covers, in posting order.\<close>

definition lines_of :: "i64 \<times> i64 \<Rightarrow> nat list" where
  "lines_of r = [nat (fst r)..<nat (snd r)]"

text \<open>The balance of account \<open>k\<close> after the lines \<open>js\<close>: the values posted to it, added in order.\<close>

definition account_after :: "i64 list \<Rightarrow> f64 list \<Rightarrow> nat list \<Rightarrow> f64 \<Rightarrow> nat \<Rightarrow> f64" where
  "account_after keys values js b k =
     foldl (+) b (map (\<lambda>j. values ! j) (filter (\<lambda>j. nat (keys ! j) = k) js))"

lemma post_line_Ok:
  "post_line keys values st j = Ok st' \<longleftrightarrow>
     j < length keys \<and> nat (keys ! j) < length st \<and> j < length values \<and>
     is_finite (st ! nat (keys ! j) + values ! j) \<and>
     st' = st[nat (keys ! j) := st ! nat (keys ! j) + values ! j]"
  by (auto simp: post_line_def nth_checked_def)

lemma post_lines_spec:
  assumes "fold_res (post_line keys values) st js = Ok st'"
  shows "length st' = length st \<and>
    (\<forall>k < length st. st' ! k = account_after keys values js (st ! k) k)"
  using assms
proof (induction js arbitrary: st)
  case Nil
  then show ?case by (simp add: account_after_def)
next
  case (Cons j js)
  from Cons.prems obtain t where t: "post_line keys values st j = Ok t"
    "fold_res (post_line keys values) t js = Ok st'" by auto
  from Cons.IH [OF t(2)] t(1) show ?case
    by (auto simp: post_line_Ok account_after_def nth_list_update)
qed

lemma post_transaction_lines:
  "post_transaction keys values st r = Ok st' \<Longrightarrow>
    fold_res (post_line keys values) st (lines_of r) = Ok st'"
  by (auto simp: post_transaction_def Let_def lines_of_def)

lemma post_transactions_lines:
  "fold_res (post_transaction keys values) st rs = Ok st' \<Longrightarrow>
    fold_res (post_line keys values) st (concat (map lines_of rs)) = Ok st'"
proof (induction rs arbitrary: st)
  case (Cons r rs)
  then obtain t where "post_transaction keys values st r = Ok t"
    "fold_res (post_transaction keys values) t rs = Ok st'" by auto
  with Cons.IH [of t] show ?case by (auto dest: post_transaction_lines)
qed simp

text \<open>Strictly increasing offsets cut the lines into consecutive ranges.\<close>

lemma windows2_Cons: "windows2 (a # b # xs) = (a, b) # windows2 (b # xs)"
  by (simp add: windows2_def)

lemma windows_partition:
  fixes os :: "int list"
  assumes "\<forall>(a, b) \<in> set (windows2 os). 0 \<le> a \<and> a < b" and "os \<noteq> []" and "0 \<le> hd os"
  shows "hd os \<le> last os \<and> concat (map lines_of (windows2 os)) = [nat (hd os)..<nat (last os)]"
  using assms
proof (induction os rule: induct_list012)
  case (3 a b xs)
  then have ab: "0 \<le> a" "a < b" by (auto simp: windows2_Cons)
  have IH: "hd (b # xs) \<le> last (b # xs)
    \<and> concat (map lines_of (windows2 (b # xs))) = [nat (hd (b # xs))..<nat (last (b # xs))]"
    using "3.prems" ab by (intro "3.IH"(2)) (auto simp: windows2_Cons)
  then have "nat a \<le> nat b" "nat b \<le> nat (last (b # xs))" using ab by auto
  then have "[nat a..<nat b] @ [nat b..<nat (last (b # xs))] = [nat a..<nat (last (b # xs))]"
    by (metis le_Suc_ex upt_add_eq_append)
  moreover have "lines_of (a, b) = [nat a..<nat b]" by (simp add: lines_of_def)
  ultimately show ?case using IH ab by (simp add: windows2_Cons)
qed (simp_all add: windows2_def)

lemma windows_bounds:
  fixes os :: "int list"
  assumes "\<forall>(a, b) \<in> set (windows2 os). 0 \<le> a \<and> a < b" and "os \<noteq> []" and "(a, b) \<in> set (windows2 os)"
  shows "0 \<le> a \<and> a < b \<and> b \<le> last os"
  using assms
proof (induction os rule: induct_list012)
  case (3 x y xs)
  have le: "y \<le> last (y # xs)"
  proof (cases xs)
    case (Cons z zs)
    then have "0 \<le> y" using "3.prems"(1) by (auto simp: windows2_Cons)
    with windows_partition [of "y # xs"] "3.prems"(1) show ?thesis by (auto simp: windows2_Cons)
  qed simp
  show ?case
  proof (cases "(a, b) = (x, y)")
    case True
    with "3.prems"(1) le show ?thesis by (auto simp: windows2_Cons)
  next
    case False
    with "3.prems" "3.IH"(2) show ?thesis by (auto simp: windows2_Cons)
  qed
qed (simp_all add: windows2_def)

text \<open>The admission as a predicate: no operand of the check panics, since \<open>is_empty\<close> is asked first.\<close>

definition ill_formed :: "f64 list \<Rightarrow> i64 list \<Rightarrow> i64 list \<Rightarrow> f64 list \<Rightarrow> f64 list \<Rightarrow> f64 list \<Rightarrow> bool" where
  "ill_formed previous offsets keys values expected out \<longleftrightarrow>
     length previous > MAX_KEYS \<or> length values > MAX_LINES
     \<or> length expected \<noteq> length previous \<or> length out \<noteq> length previous \<or> length keys \<noteq> length values
     \<or> offsets = [] \<or> hd offsets \<noteq> 0 \<or> last offsets \<noteq> int (length values)
     \<or> list_ex (\<lambda>(a, b). a < 0 \<or> b \<le> a) (windows2 offsets)
     \<or> list_ex (\<lambda>k. k < 0 \<or> int (length previous) \<le> k) keys
     \<or> list_ex (\<lambda>x. \<not> is_finite x) (previous @ values @ expected)"

lemma malformed_iff [simp]: "malformed previous offsets keys values expected out = Ok (ill_formed previous offsets keys values expected out)"
  by (cases offsets) (auto simp: malformed_def ill_formed_def nth_checked_def)

lemma well_formedD:
  assumes "\<not> ill_formed previous offsets keys values expected out"
  shows "length expected = length previous" "length out = length previous"
    "length keys = length values" "offsets \<noteq> []" "hd offsets = 0" "last offsets = int (length values)"
    "\<forall>(a, b) \<in> set (windows2 offsets). 0 \<le> a \<and> a < b"
    "\<forall>k \<in> set keys. 0 \<le> k \<and> k < int (length previous)"
    "\<forall>x \<in> set (previous @ values @ expected). is_finite x"
  using assms by (auto simp: ill_formed_def list_ex_iff not_le)

lemma post_transaction_no_Panic:
  assumes wf: "\<not> ill_formed previous offsets keys values expected out"
    and r: "r \<in> set (windows2 offsets)" and st: "length st = length previous"
  shows "post_transaction keys values st r \<noteq> Panic"
proof -
  obtain a b where ab: "r = (a, b)" by (cases r)
  then have bnd: "0 \<le> a" "a < b" "b \<le> int (length values)"
    using windows_bounds [OF well_formedD(7,4) [OF wf], of a b] r well_formedD(6) [OF wf] by auto
  have line: "post_line keys values s j \<noteq> Panic" if "j < nat b" "length s = length previous" for s j
  proof -
    have "j < length values" "j < length keys" using that bnd well_formedD(3) [OF wf] by auto
    moreover from this have "0 \<le> keys ! j \<and> keys ! j < int (length previous)"
      using well_formedD(8) [OF wf] nth_mem by blast
    then have "nat (keys ! j) < length s" using that(2) by auto
    ultimately show ?thesis by (simp add: post_line_def nth_checked_def)
  qed
  have "fold_res (post_line keys values) st [nat a..<nat b] \<noteq> Panic"
    by (rule fold_res_no_Panic [where I = "\<lambda>s. length s = length previous"])
      (use st line in \<open>auto simp: post_line_Ok\<close>)
  with bnd show ?thesis
    by (auto simp: post_transaction_def ab slice_def Let_def accurate_sum_no_Panic)
qed

lemma post_transaction_length:
  "post_transaction keys values st r = Ok st' \<Longrightarrow> length st' = length st"
  using post_transaction_lines post_lines_spec by blast

lemma post_transactions_length:
  "fold_res (post_transaction keys values) st rs = Ok st' \<Longrightarrow> length st' = length st"
  using post_transactions_lines post_lines_spec by blast

lemma post_transactions_balanced:
  assumes "fold_res (post_transaction keys values) st rs = Ok st'" and "(a, b) \<in> set rs"
  shows "\<exists>total. accurate_sum (take (nat b - nat a) (drop (nat a) values)) = Ok total
    \<and> \<not> f64_lit 1 (10 ^ 9) * fmax (fsum (map fabs (take (nat b - nat a) (drop (nat a) values)))) 1
         < fabs total"
  using assms
proof (induction rs arbitrary: st)
  case (Cons r rs)
  from Cons.prems(1) obtain t where t: "post_transaction keys values st r = Ok t"
    "fold_res (post_transaction keys values) t rs = Ok st'" by auto
  from Cons.prems(2) consider "r = (a, b)" | "(a, b) \<in> set rs" by auto
  then show ?case
  proof cases
    case 1
    with t(1) show ?thesis by (auto simp: post_transaction_def Let_def slice_def split: if_splits)
  next
    case 2
    with Cons.IH [OF t(2)] show ?thesis by blast
  qed
qed simp

section \<open>The contract of \<open>apply\<close>\<close>

lemma journal_apply_cases:
  obtains (ok) staged where "journal_apply previous offsets keys values expected out = (Ok (), staged)"
      "\<not> ill_formed previous offsets keys values expected out"
      "fold_res (post_transaction keys values) previous (windows2 offsets) = Ok staged"
      "\<forall>(got, want) \<in> set (zip staged expected). \<not> mismatch got want"
  | (err) e where "journal_apply previous offsets keys values expected out = (Err e, out)"
proof -
  let ?r = "fold_res (post_transaction keys values) previous (windows2 offsets)"
  have np: "?r \<noteq> Panic" if "\<not> ill_formed previous offsets keys values expected out"
    by (rule fold_res_no_Panic [where I = "\<lambda>s. length s = length previous"])
      (use post_transaction_no_Panic [OF that] post_transaction_length in auto)
  have len: "length staged = length out"
    if "\<not> ill_formed previous offsets keys values expected out" "?r = Ok staged" for staged
    using post_transactions_length [OF that(2)] well_formedD(2) [OF that(1)] by simp
  show ?thesis
  proof (cases "ill_formed previous offsets keys values expected out")
    case True
    then show ?thesis by (intro err [of INVALID]) (simp add: journal_apply_def require_def)
  next
    case False
    show ?thesis
    proof (cases ?r)
      case (Ok staged)
      show ?thesis
      proof (cases "list_all (\<lambda>(got, want). \<not> mismatch got want) (zip staged expected)")
        case True
        with False Ok len [OF False Ok] show ?thesis
          by (intro ok [of staged]) (auto simp: journal_apply_def require_def list_all_iff)
      next
        case no: False
        with False Ok show ?thesis
          by (intro err [of MISMATCH]) (simp add: journal_apply_def require_def)
      qed
    next
      case (Err e)
      with False show ?thesis by (intro err [of e]) (simp add: journal_apply_def require_def)
    qed (use np False in simp)
  qed
qed

text \<open>
  C3. A call that does not succeed leaves the caller's output slice as it was, whichever
  check failed and however many transactions had already been staged; and no call panics, whatever
  offsets, keys and lengths it is given.\<close>

theorem journal_apply_atomic:
  "fst (journal_apply previous offsets keys values expected out) \<noteq> Panic
   \<and> (snd (journal_apply previous offsets keys values expected out) = out
      \<or> fst (journal_apply previous offsets keys values expected out) = Ok ())"
  by (rule journal_apply_cases [of previous offsets keys "values" expected out]) auto

text \<open>
  C1. On success every account holds its previous balance plus the lines posted to it, added
  in line order, every line is posted exactly once, every transaction passed the balance check on
  its exact compensated total, and every account is within tolerance of the expected checkpoint.\<close>

theorem journal_apply_posts:
  assumes "journal_apply previous offsets keys values expected out = (Ok (), staged)"
  shows "length staged = length previous
    \<and> (\<forall>k < length previous.
         staged ! k = account_after keys values [0..<length values] (previous ! k) k
         \<and> \<not> mismatch (staged ! k) (expected ! k))
    \<and> (\<forall>(a, b) \<in> set (windows2 offsets). \<exists>total.
         accurate_sum (take (nat b - nat a) (drop (nat a) values)) = Ok total
         \<and> \<not> f64_lit 1 (10 ^ 9) * fmax (fsum (map fabs (take (nat b - nat a) (drop (nat a) values)))) 1
              < fabs total)"
proof (rule journal_apply_cases [of previous offsets keys "values" expected out])
  fix st
  assume st: "journal_apply previous offsets keys values expected out = (Ok (), st)"
    and wf: "\<not> ill_formed previous offsets keys values expected out"
    and run: "fold_res (post_transaction keys values) previous (windows2 offsets) = Ok st"
    and eq: "\<forall>(got, want) \<in> set (zip st expected). \<not> mismatch got want"
  have "concat (map lines_of (windows2 offsets)) = [0..<length values]"
    using windows_partition [OF well_formedD(7,4) [OF wf]] well_formedD(5,6) [OF wf] by simp
  with post_transactions_lines [OF run]
  have "fold_res (post_line keys values) previous [0..<length values] = Ok st" by simp
  note spec = post_lines_spec [OF this]
  have "\<not> mismatch (st ! k) (expected ! k)" if "k < length previous" for k
    using eq that spec well_formedD(1) [OF wf] by (fastforce simp: set_zip)
  with spec post_transactions_balanced [OF run] st assms show ?thesis by auto
qed (use assms in simp)

theorem journal_apply_posts_witness:
  "journal_apply [0, 0] [0, 4] [0, 0, 0, 1]
      [f64_lit (10 ^ 16) 1, 1, - f64_lit (10 ^ 16) 1, - 1] [0, - 1] [NaN, NaN]
    = (Ok (), [0, - 1])
   \<and> [0, - 1] ! 0 = account_after [0, 0, 0, 1] [f64_lit (10 ^ 16) 1, 1, - f64_lit (10 ^ 16) 1, - 1]
        [0..<length [f64_lit (10 ^ 16) 1, 1, - f64_lit (10 ^ 16) 1, - 1]] ([0, 0] ! 0) 0"
proof -
  have run: "journal_apply [0, 0] [0, 4] [0, 0, 0, 1]
      [f64_lit (10 ^ 16) 1, 1, - f64_lit (10 ^ 16) 1, - 1] [0, - 1] [NaN, NaN] = (Ok (), [0, - 1])"
    by (simp add: journal_apply_def ill_formed_def windows2_def post_transaction_def slice_def
        post_line_def mismatch_def MAX_KEYS_def MAX_LINES_def
        accurate_sum_def add_value_def absorb_step_def nth_checked_def f64_eval require_def upt_rec
        del: less_val le_val feq_val cong: eval_cong)
  have "0 < length ([0, 0] :: f64 list)" by simp
  with run journal_apply_posts [OF run] show ?thesis by blast
qed

end
