(* ===== verification/Gregorian.thy ===== *)
theory Gregorian
  imports Prelude
begin

text \<open>
  The proleptic Gregorian calendar of \<open>portfolio-model-core/src/cashflows/dated.rs\<close>:
  ordinals (0001-01-01 is 1), conversion in both directions, calendar-month arithmetic.
  Ordinals and years are \<open>i32\<close>, months and days \<open>u32\<close>; all are \<open>int\<close> here, and the
  \<open>in_i32\<close> lemmas say that no intermediate value of the conversions leaves \<open>i32\<close>.
  The contract that the calendar, coupon and cashflow code relies on is the locale
  \<open>day_codec\<close>.
\<close>

section \<open>Definitions\<close>

definition MAX_ORDINAL :: i32 where
  "MAX_ORDINAL = 3652059"

definition validate_ordinal :: "i32 \<Rightarrow> (string, unit) result" where
  "validate_ordinal ordinal =
     require (1 \<le> ordinal \<and> ordinal \<le> MAX_ORDINAL) ''date ordinal must be in 1..3652059'' (Ok ())"

definition leap_year :: "i32 \<Rightarrow> bool" where
  "leap_year year \<longleftrightarrow> rrem year 4 = 0 \<and> (rrem year 100 \<noteq> 0 \<or> rrem year 400 = 0)"

definition days_in_month :: "i32 \<Rightarrow> int \<Rightarrow> int" where
  "days_in_month year month =
     (if month = 2 \<and> leap_year year then 29
      else if month = 2 then 28
      else if month = 4 \<or> month = 6 \<or> month = 9 \<or> month = 11 then 30
      else 31)"

definition ordinal_from_ymd :: "i32 \<Rightarrow> int \<Rightarrow> int \<Rightarrow> (string, i32) result" where
  "ordinal_from_ymd year month day =
     require (1 \<le> year \<and> year \<le> 9999 \<and> 1 \<le> month \<and> month \<le> 12 \<and> 1 \<le> day
         \<and> day \<le> days_in_month year month)
       ''invalid Gregorian year/month/day''
       (let prior_year = year - 1;
            ordinal = prior_year * 365 + rdiv prior_year 4 - rdiv prior_year 100 + rdiv prior_year 400;
            ordinal = foldl (\<lambda>ordinal m. ordinal + days_in_month year m) ordinal [1..month - 1]
        in Ok (ordinal + day))"

text \<open>The binary search over years, and the walk over the months of the year found.\<close>

function year_search :: "i32 \<Rightarrow> i32 \<Rightarrow> i32 \<Rightarrow> (string, i32) result" where
  "year_search ordinal low high =
     (if low < high then
        let middle = (low + high + 1) div 2 in
        and_then (ordinal_from_ymd middle 1 1) (\<lambda>first.
          if first \<le> ordinal then year_search ordinal middle high
          else year_search ordinal low (middle - 1))
      else Ok low)"
  by pat_completeness auto
termination
  by (relation "measure (\<lambda>(ordinal, low, high). nat (high - low))") auto

lemma days_in_month_bounds: "28 \<le> days_in_month y m \<and> days_in_month y m \<le> 31"
  by (simp add: days_in_month_def)

function month_walk :: "i32 \<Rightarrow> int \<Rightarrow> i32 \<Rightarrow> int \<times> i32" where
  "month_walk year month remaining =
     (if days_in_month year month < remaining
      then month_walk year (month + 1) (remaining - days_in_month year month)
      else (month, remaining))"
  by pat_completeness auto
termination
proof (relation "measure (\<lambda>(year, month, remaining). nat remaining)", goal_cases)
  case (2 year month remaining)
  then show ?case using days_in_month_bounds [of year month] by auto
qed simp

declare year_search.simps [simp del] month_walk.simps [simp del]

definition ymd_from_ordinal :: "i32 \<Rightarrow> (string, i32 \<times> int \<times> int) result" where
  "ymd_from_ordinal ordinal =
     and_then (validate_ordinal ordinal) (\<lambda>_.
     and_then (year_search ordinal 1 9999) (\<lambda>low.
     and_then (ordinal_from_ymd low 1 1) (\<lambda>first.
       let (month, remaining) = month_walk low 1 (ordinal - first + 1) in
       Ok (low, month, remaining))))"

datatype MonthRoll = ClampDay | PreserveEndOfMonth | RejectInvalidDay

definition add_calendar_months :: "i32 \<Rightarrow> i32 \<Rightarrow> MonthRoll \<Rightarrow> (string, i32) result" where
  "add_calendar_months ordinal months roll =
     and_then (ymd_from_ordinal ordinal) (\<lambda>(year, month, day).
       let target = (year - 1) * 12 + (month - 1) + months in
       require (0 \<le> target \<and> target < 9999 * 12)
         ''calendar month offset exceeds Gregorian date domain''
         (let target_year = rdiv target 12 + 1;
              target_month = rrem target 12 + 1;
              last_day = days_in_month target_year target_month
          in if roll = PreserveEndOfMonth \<and> day = days_in_month year month
             then ordinal_from_ymd target_year target_month last_day
             else if roll = RejectInvalidDay \<and> last_day < day
             then Err ''month roll produces an invalid contractual day''
             else ordinal_from_ymd target_year target_month (min day last_day)))"

section \<open>The contract of a day codec\<close>

locale day_codec =
  fixes enc :: "int \<Rightarrow> int \<Rightarrow> int \<Rightarrow> ('e, int) result"
    and dec :: "int \<Rightarrow> ('e, int \<times> int \<times> int) result"
    and lo hi :: int
  assumes enc_dec: "enc y m d = Ok n \<Longrightarrow> dec n = Ok (y, m, d)"
    and dec_enc: "dec n = Ok (y, m, d) \<Longrightarrow> enc y m d = Ok n"
    and dec_total: "lo \<le> n \<Longrightarrow> n \<le> hi \<Longrightarrow> \<exists>x. dec n = Ok x"
    and dec_range: "dec n = Ok x \<Longrightarrow> lo \<le> n \<and> n \<le> hi"
    and dec_no_Panic: "dec n \<noteq> Panic"
begin

lemma enc_iff: "enc y m d = Ok n \<longleftrightarrow> dec n = Ok (y, m, d)"
  using enc_dec dec_enc by blast

lemma enc_inj: "enc y m d = Ok n \<Longrightarrow> enc y' m' d' = Ok n \<Longrightarrow> y = y' \<and> m = m' \<and> d = d'"
  by (drule enc_dec)+ simp

lemma enc_range: "enc y m d = Ok n \<Longrightarrow> lo \<le> n \<and> n \<le> hi"
  by (blast dest: enc_dec dec_range)

lemma dec_Ok_iff: "(\<exists>x. dec n = Ok x) \<longleftrightarrow> lo \<le> n \<and> n \<le> hi"
  using dec_total dec_range by blast

end

section \<open>Days before a year and before a month\<close>

definition dby :: "int \<Rightarrow> int" where
  "dby y = (y - 1) * 365 + (y - 1) div 4 - (y - 1) div 100 + (y - 1) div 400"

definition dbm :: "int \<Rightarrow> int \<Rightarrow> int" where
  "dbm y m = sum_list (map (days_in_month y) [1..m - 1])"

definition valid_ymd :: "int \<Rightarrow> int \<Rightarrow> int \<Rightarrow> bool" where
  "valid_ymd y m d \<longleftrightarrow> 1 \<le> y \<and> y \<le> 9999 \<and> 1 \<le> m \<and> m \<le> 12 \<and> 1 \<le> d \<and> d \<le> days_in_month y m"

lemma leap_year_iff: "leap_year y \<longleftrightarrow> 4 dvd y \<and> (\<not> 100 dvd y \<or> 400 dvd y)"
  by (simp add: leap_year_def rrem_eq_0_iff)

lemma div_Suc: "0 < k \<Longrightarrow> (n + 1) div k = n div k + (if k dvd n + 1 then 1 else 0)" for n k :: int
proof -
  assume k: "0 < k"
  define q r where "q = n div k" and "r = n mod k"
  have n: "n = k * q + r" "0 \<le> r" "r < k" using k by (simp_all add: q_def r_def)
  show ?thesis
  proof (cases "r = k - 1")
    case True
    then have e: "n + 1 = k * (q + 1)" using n(1) by (simp add: algebra_simps)
    with k show ?thesis unfolding q_def [symmetric] e by simp
  next
    case False
    then have e: "(n + 1) div k = q" "(n + 1) mod k = r + 1"
      using n by (auto intro!: int_div_pos_eq int_mod_pos_eq)
    with n(2) show ?thesis by (simp add: q_def dvd_eq_mod_eq_0)
  qed
qed

lemma leap_count:
  fixes y :: int
  assumes "a = a' + (if p then 1 else 0)" "b = b' + (if q then 1 else 0)"
    "c = c' + (if r then 1 else 0)" "r \<longrightarrow> q" "q \<longrightarrow> p"
  shows "y * 365 + a - b + c
    = (y - 1) * 365 + a' - b' + c' + (if p \<and> (\<not> q \<or> r) then 366 else 365)"
  using assms by (cases p; cases q; cases r) simp_all

lemma dby_Suc: "dby (y + 1) = dby y + (if leap_year y then 366 else 365)"
proof -
  have s: "y div k = (y - 1) div k + (if k dvd y then 1 else 0)" if "0 < k" for k
    using div_Suc [OF that, of "y - 1"] by simp
  have d: "(400 :: int) dvd y \<longrightarrow> 100 dvd y" "(100 :: int) dvd y \<longrightarrow> 4 dvd y"
    using dvd_trans [of 100 400 y] dvd_trans [of 4 100 y] by simp_all
  have "dby (y + 1) = y * 365 + y div 4 - y div 100 + y div 400"
    unfolding dby_def by (simp only: add_diff_cancel_right')
  also have "\<dots> = dby y + (if leap_year y then 366 else 365)"
    unfolding dby_def leap_year_iff by (rule leap_count [OF s s s d]) simp_all
  finally show ?thesis .
qed

lemma dbm_1 [simp]: "dbm y 1 = 0"
  by (simp add: dbm_def)

lemma dbm_Suc: "1 \<le> m \<Longrightarrow> dbm y (m + 1) = dbm y m + days_in_month y m"
  using upto_rec2 [of 1 m] by (simp add: dbm_def)

lemma dbm_13: "dbm y 13 = (if leap_year y then 366 else 365)"
  by (simp add: dbm_def upto.simps days_in_month_def)

lemma dbm_mono: "m \<le> m' \<Longrightarrow> 1 \<le> m \<Longrightarrow> dbm y m \<le> dbm y m'"
proof (induction rule: int_ge_induct)
  case (step i)
  then show ?case using dbm_Suc [of i y] days_in_month_bounds [of y i] by simp
qed simp

lemma dby_mono: "y \<le> y' \<Longrightarrow> dby y \<le> dby y'"
proof (induction rule: int_ge_induct)
  case (step i)
  then show ?case using dby_Suc [of i] by (simp split: if_splits)
qed simp

lemma dby_strict: "y < y' \<Longrightarrow> dby y + 365 \<le> dby y'"
  using dby_mono [of "y + 1" y'] dby_Suc [of y] by (auto split: if_splits)

lemma dby_ends [simp]: "dby 1 = 0" "dby 10000 = 3652059"
  by (simp_all add: dby_def)

lemma foldl_add_upto: "foldl (\<lambda>acc m. acc + f m) (a :: int) ms = a + sum_list (map f ms)"
  by (induction ms arbitrary: a) simp_all

lemma ordinal_from_ymd_eq:
  "ordinal_from_ymd y m d =
    (if valid_ymd y m d then Ok (dby y + dbm y m + d)
     else Err ''invalid Gregorian year/month/day'')"
  by (auto simp: ordinal_from_ymd_def valid_ymd_def require_def Let_def foldl_add_upto dby_def dbm_def)

lemma ordinal_Jan1: "1 \<le> y \<Longrightarrow> y \<le> 9999 \<Longrightarrow> ordinal_from_ymd y 1 1 = Ok (dby y + 1)"
  by (simp add: ordinal_from_ymd_eq valid_ymd_def days_in_month_def)

lemma day_in_year: "valid_ymd y m d \<Longrightarrow> 1 \<le> dbm y m + d \<and> dbm y m + d \<le> dbm y 13"
  using dbm_mono [of 1 m y] dbm_Suc [of m y] dbm_mono [of "m + 1" 13 y] by (auto simp: valid_ymd_def)

section \<open>Decoding\<close>

lemma year_search_Ok:
  assumes "1 \<le> low" "low \<le> high" "high \<le> 9999" "dby low < n" "n \<le> dby (high + 1)"
  shows "\<exists>y. year_search n low high = Ok y \<and> low \<le> y \<and> y \<le> high \<and> dby y < n \<and> n \<le> dby (y + 1)"
  using assms
proof (induction n low high rule: year_search.induct)
  case (1 n low high)
  show ?case
  proof (cases "low < high")
    case False
    with "1.prems" show ?thesis by (subst year_search.simps) auto
  next
    case True
    define mid where "mid = (low + high + 1) div 2"
    have mid: "low < mid" "mid \<le> high" using True by (auto simp: mid_def)
    have first: "ordinal_from_ymd mid 1 1 = Ok (dby mid + 1)"
      using mid "1.prems" by (intro ordinal_Jan1) auto
    have eq: "year_search n low high =
      (if dby mid + 1 \<le> n then year_search n mid high else year_search n low (mid - 1))"
      using True first by (subst year_search.simps) (simp add: mid_def [symmetric])
    show ?thesis
    proof (cases "dby mid + 1 \<le> n")
      case True
      with "1.IH"(1) [OF \<open>low < high\<close> mid_def first] mid "1.prems" eq show ?thesis by fastforce
    next
      case False
      with "1.IH"(2) [OF \<open>low < high\<close> mid_def first] mid "1.prems" eq show ?thesis by fastforce
    qed
  qed
qed

lemma month_walk_spec:
  assumes "1 \<le> m" "m \<le> 12" "1 \<le> r" "dbm y m + r \<le> dbm y 13"
  shows "\<exists>m' r'. month_walk y m r = (m', r') \<and> 1 \<le> m' \<and> m' \<le> 12 \<and> 1 \<le> r'
    \<and> r' \<le> days_in_month y m' \<and> dbm y m' + r' = dbm y m + r"
  using assms
proof (induction y m r rule: month_walk.induct)
  case (1 y m r)
  show ?case
  proof (cases "days_in_month y m < r")
    case True
    with "1.prems" dbm_Suc [of m y] have "m \<noteq> 12" by auto
    with "1.IH" [OF True] True "1.prems" dbm_Suc [of m y] show ?thesis
      by (subst month_walk.simps) auto
  next
    case False
    with "1.prems" show ?thesis by (subst month_walk.simps) auto
  qed
qed

text \<open>Decoding finds a valid date with the given ordinal.\<close>

lemma ymd_from_ordinal_Ok:
  assumes "1 \<le> n" and "n \<le> MAX_ORDINAL"
  shows "\<exists>y m d. ymd_from_ordinal n = Ok (y, m, d) \<and> valid_ymd y m d \<and> dby y + dbm y m + d = n"
proof -
  have "\<exists>y. year_search n 1 9999 = Ok y \<and> 1 \<le> y \<and> y \<le> 9999 \<and> dby y < n \<and> n \<le> dby (y + 1)"
    using assms by (intro year_search_Ok) (simp_all add: MAX_ORDINAL_def)
  then obtain y where y: "year_search n 1 9999 = Ok y" "1 \<le> y" "y \<le> 9999" "dby y < n"
    "n \<le> dby (y + 1)" by blast
  have "\<exists>m r. month_walk y 1 (n - dby y) = (m, r) \<and> 1 \<le> m \<and> m \<le> 12 \<and> 1 \<le> r
    \<and> r \<le> days_in_month y m \<and> dbm y m + r = dbm y 1 + (n - dby y)"
    using y dby_Suc [of y] dbm_13 [of y] by (intro month_walk_spec) auto
  then obtain m r where m: "month_walk y 1 (n - dby y) = (m, r)" "1 \<le> m" "m \<le> 12" "1 \<le> r"
    "r \<le> days_in_month y m" "dbm y m + r = n - dby y" by auto
  have "ymd_from_ordinal n = Ok (y, m, r)"
    using assms y m ordinal_Jan1 [of y]
    by (simp add: ymd_from_ordinal_def validate_ordinal_def require_def)
  with y m show ?thesis by (auto simp: valid_ymd_def)
qed

lemma valid_ymd_unique:
  assumes "valid_ymd y m d" "valid_ymd y' m' d'" "dby y + dbm y m + d = dby y' + dbm y' m' + d'"
  shows "y = y' \<and> m = m' \<and> d = d'"
proof -
  have "y \<le> y'" if "valid_ymd y m d" "valid_ymd y' m' d'" "dby y + dbm y m + d = dby y' + dbm y' m' + d'"
    for y m d y' m' d'
  proof (rule ccontr)
    assume "\<not> y \<le> y'"
    then have "dby (y' + 1) \<le> dby y" by (intro dby_mono) simp
    with that day_in_year [OF that(1)] day_in_year [OF that(2)] dby_Suc [of y'] dbm_13 [of y']
    show False by auto
  qed
  from this [OF assms] this [OF assms(2,1) assms(3) [symmetric]] have y: "y = y'" by simp
  have "m \<le> m'" if "valid_ymd y m d" "valid_ymd y m' d'" "dbm y m + d = dbm y m' + d'" for m d m' d'
  proof (rule ccontr)
    assume "\<not> m \<le> m'"
    then have "dbm y (m' + 1) \<le> dbm y m" using that by (intro dbm_mono) (auto simp: valid_ymd_def)
    with that dbm_Suc [of m' y] show False by (auto simp: valid_ymd_def)
  qed
  from this [of m d m' d'] this [of m' d' m d] assms y show ?thesis by auto
qed

lemma ordinal_range: "valid_ymd y m d \<Longrightarrow> 1 \<le> dby y + dbm y m + d \<and> dby y + dbm y m + d \<le> MAX_ORDINAL"
  using day_in_year [of y m d] dby_mono [of 1 y] dby_mono [of "y + 1" 10000] dby_Suc [of y] dbm_13 [of y]
  by (auto simp: valid_ymd_def MAX_ORDINAL_def)

lemma ymd_out_of_range:
  "\<not> (1 \<le> n \<and> n \<le> MAX_ORDINAL) \<Longrightarrow>
    ymd_from_ordinal n = Err ''date ordinal must be in 1..3652059''"
  by (auto simp: ymd_from_ordinal_def validate_ordinal_def require_def)

interpretation greg: day_codec ordinal_from_ymd ymd_from_ordinal 1 MAX_ORDINAL
proof
  fix y m d n
  show "ymd_from_ordinal n = Ok (y, m, d)" if "ordinal_from_ymd y m d = Ok n"
  proof -
    from that have v: "valid_ymd y m d" "n = dby y + dbm y m + d"
      by (auto simp: ordinal_from_ymd_eq split: if_splits)
    with ordinal_range [OF v(1)] ymd_from_ordinal_Ok [of n] valid_ymd_unique show ?thesis by metis
  qed
  show "ordinal_from_ymd y m d = Ok n" if "ymd_from_ordinal n = Ok (y, m, d)"
  proof (cases "1 \<le> n \<and> n \<le> MAX_ORDINAL")
    case True
    with that ymd_from_ordinal_Ok [of n] show ?thesis by (auto simp: ordinal_from_ymd_eq)
  next
    case False
    with that ymd_out_of_range show ?thesis by simp
  qed
  show "\<exists>x. ymd_from_ordinal n = Ok x" if "1 \<le> n" "n \<le> MAX_ORDINAL"
    using ymd_from_ordinal_Ok that by blast
  show "ymd_from_ordinal n \<noteq> Panic"
    by (cases "1 \<le> n \<and> n \<le> MAX_ORDINAL") (use ymd_from_ordinal_Ok [of n] ymd_out_of_range [of n] in auto)
next
  fix n and x :: "int \<times> int \<times> int"
  show "1 \<le> n \<and> n \<le> MAX_ORDINAL" if "ymd_from_ordinal n = Ok x"
    using that ymd_out_of_range [of n] by auto
qed

section \<open>Properties\<close>

text \<open>No intermediate value of the encoding leaves \<open>i32\<close>, whatever valid date it is given.\<close>

lemma dby_ge: "1 \<le> y \<Longrightarrow> 0 \<le> dby y"
  using dby_mono [of 1 y] by simp

lemma encoding_in_i32:
  assumes "valid_ymd y m d" and "k \<le> m" "1 \<le> k"
  shows "in_i32 ((y - 1) * 365 + (y - 1) div 4) \<and> in_i32 (dby y + dbm y k)"
proof -
  have y: "1 \<le> y" "y \<le> 9999" using assms(1) by (auto simp: valid_ymd_def)
  then have "(y - 1) div 4 \<le> 9998 div 4" by (intro zdiv_mono1) simp_all
  moreover have "0 \<le> (y - 1) div 4" using y by (simp add: pos_imp_zdiv_nonneg_iff)
  moreover have "0 \<le> dbm y k" "dbm y k \<le> dbm y m" using dbm_mono [of 1 k y] dbm_mono [of k m y] assms by simp_all
  moreover have "0 \<le> dby y" using dby_ge y by simp
  moreover have "dby y + dbm y m + d \<le> 3652059" "1 \<le> d"
    using ordinal_range [OF assms(1)] assms(1) by (auto simp: MAX_ORDINAL_def valid_ymd_def)
  ultimately show ?thesis using y by (auto simp: in_i32_def)
qed

text \<open>
  C38. The two conversions are inverse to each other on every argument: a date encodes to the
  ordinal \<open>n\<close> exactly when \<open>n\<close> decodes to that date, decoding succeeds exactly on
  \<open>1..MAX_ORDINAL\<close>, and every valid Gregorian date encodes.
\<close>

theorem ordinal_ymd_inverse:
  "(ordinal_from_ymd y m d = Ok n \<longleftrightarrow> ymd_from_ordinal n = Ok (y, m, d))
   \<and> ((\<exists>x. ymd_from_ordinal n = Ok x) \<longleftrightarrow> 1 \<le> n \<and> n \<le> MAX_ORDINAL)
   \<and> ((\<exists>k. ordinal_from_ymd y m d = Ok k) \<longleftrightarrow> valid_ymd y m d)"
  using greg.enc_iff [of y m d n] greg.dec_Ok_iff [of n] ordinal_from_ymd_eq [of y m d] by simp

lemma decode_iff:
  "ymd_from_ordinal n = Ok (y, m, d) \<longleftrightarrow> valid_ymd y m d \<and> n = dby y + dbm y m + d"
  unfolding greg.enc_iff [symmetric] by (auto simp: ordinal_from_ymd_eq)

text \<open>
  Decoding counts days: the ordinal after that of a date is the next day of the month, the
  first of the next month at the end of a month, and January 1 at the end of a year.
\<close>

theorem ymd_next_day:
  assumes "ymd_from_ordinal n = Ok (y, m, d)" and "n < MAX_ORDINAL"
  shows "ymd_from_ordinal (n + 1) = Ok (if d < days_in_month y m then (y, m, d + 1)
           else if m < 12 then (y, m + 1, 1) else (y + 1, 1, 1))"
proof -
  have v: "valid_ymd y m d" and n: "n = dby y + dbm y m + d"
    using assms(1) by (simp_all add: decode_iff)
  have dom: "1 \<le> days_in_month y (m + 1)" "1 \<le> days_in_month (y + 1) 1"
    using days_in_month_bounds [of y "m + 1"] days_in_month_bounds [of "y + 1" 1] by auto
  have "y \<noteq> 9999" if "\<not> d < days_in_month y m" "\<not> m < 12"
  proof
    assume "y = 9999"
    moreover have "m = 12" "d = days_in_month y m" using that v by (auto simp: valid_ymd_def)
    ultimately have "n = MAX_ORDINAL"
      using n dbm_Suc [of 12 y] dbm_13 [of y] dby_Suc [of y] by (simp add: MAX_ORDINAL_def)
    with assms(2) show False by simp
  qed
  then show ?thesis
    using v n dom dbm_Suc [of m y] dbm_13 [of y] dby_Suc [of y]
    by (cases "m = 12") (auto simp: decode_iff valid_ymd_def)
qed

lemma ymd_next_day_witness:
  "ymd_from_ordinal (730178 + 1) = Ok (2000, 2, 29 + 1 - 1)
   \<and> ymd_from_ordinal (730179 + 1) = Ok (2000, 3, 1)"
proof -
  have a: "ymd_from_ordinal 730178 = Ok (2000, 2, 28)" "ymd_from_ordinal 730179 = Ok (2000, 2, 29)"
    by (simp_all add: decode_iff valid_ymd_def dby_def dbm_def days_in_month_def leap_year_iff upto.simps)
  show ?thesis
    using ymd_next_day [OF a(1)] ymd_next_day [OF a(2)]
    by (simp add: MAX_ORDINAL_def days_in_month_def leap_year_iff)
qed

text \<open>
  The months between two dates: year and month as one count, and what a roll convention makes
  of the day.
\<close>

definition month_index :: "int \<Rightarrow> int \<Rightarrow> int" where
  "month_index y m = (y - 1) * 12 + (m - 1)"

definition rolled_day :: "MonthRoll \<Rightarrow> int \<Rightarrow> int \<Rightarrow> int \<Rightarrow> int" where
  "rolled_day roll len len' d = (if roll = PreserveEndOfMonth \<and> d = len then len' else min d len')"

lemma month_index_target:
  assumes "0 \<le> t" "t < 9999 * 12"
  shows "month_index (t div 12 + 1) (t mod 12 + 1) = t"
    and "1 \<le> t div 12 + 1 \<and> t div 12 + 1 \<le> 9999" and "1 \<le> t mod 12 + 1 \<and> t mod 12 + 1 \<le> 12"
  using assms by (simp_all add: month_index_def) presburger+

text \<open>
  Adding calendar months, on every branch: an ordinal outside the domain and a target month
  outside years 1..9999 are refused; \<open>RejectInvalidDay\<close> refuses a day the target month lacks;
  otherwise the result decodes to the month exactly \<open>months\<close> later, on the day the roll
  convention gives.
\<close>

theorem add_calendar_months_spec:
  fixes k :: int
  assumes "ymd_from_ordinal n = Ok (y, m, d)"
  defines "t \<equiv> month_index y m + k"
  shows "if t < 0 \<or> 9999 * 12 \<le> t
         then add_calendar_months n k roll = Err ''calendar month offset exceeds Gregorian date domain''
         else \<exists>y' m'. 1 \<le> y' \<and> y' \<le> 9999 \<and> 1 \<le> m' \<and> m' \<le> 12 \<and> month_index y' m' = t
           \<and> (if roll = RejectInvalidDay \<and> days_in_month y' m' < d
              then add_calendar_months n k roll = Err ''month roll produces an invalid contractual day''
              else \<exists>n'. add_calendar_months n k roll = Ok n'
                \<and> ymd_from_ordinal n' =
                    Ok (y', m', rolled_day roll (days_in_month y m) (days_in_month y' m') d))"
proof (cases "t < 0 \<or> 9999 * 12 \<le> t")
  case True
  then show ?thesis using assms(1)
    by (auto simp: add_calendar_months_def require_def t_def month_index_def)
next
  case False
  then have t: "0 \<le> t" "t < 9999 * 12" by auto
  define y' m' where "y' = t div 12 + 1" and "m' = t mod 12 + 1"
  have v: "1 \<le> y'" "y' \<le> 9999" "1 \<le> m'" "m' \<le> 12" "month_index y' m' = t"
    using month_index_target [OF t] by (simp_all add: y'_def m'_def)
  have d: "1 \<le> d" "d \<le> days_in_month y m" using assms(1) by (auto simp: decode_iff valid_ymd_def)
  define d' where "d' = rolled_day roll (days_in_month y m) (days_in_month y' m') d"
  have vd: "valid_ymd y' m' d'"
    using v d days_in_month_bounds [of y' m'] by (auto simp: valid_ymd_def d'_def rolled_day_def)
  have ti: "(y - 1) * 12 + (m - 1) + k = t" by (simp add: t_def month_index_def)
  have eq: "add_calendar_months n k roll =
      (if roll = RejectInvalidDay \<and> days_in_month y' m' < d
       then Err ''month roll produces an invalid contractual day'' else ordinal_from_ymd y' m' d')"
    unfolding add_calendar_months_def assms(1) and_then.simps prod.case ti Let_def
      rdiv_nonneg [OF t(1), of 12, simplified] rrem_nonneg [OF t(1), of 12, simplified]
      y'_def [symmetric] m'_def [symmetric]
    using t by (cases roll) (simp_all add: require_def d'_def rolled_day_def)
  show ?thesis unfolding if_not_P [OF False]
    by (rule exI [of _ y'], rule exI [of _ m']) (use v vd eq in \<open>auto simp: decode_iff ordinal_from_ymd_eq d'_def\<close>)
qed

lemma add_calendar_months_spec_witness:
  "\<exists>n'. add_calendar_months 738916 1 ClampDay = Ok n' \<and> ymd_from_ordinal n' = Ok (2024, 2, 29)"
proof -
  have a: "ymd_from_ordinal 738916 = Ok (2024, 1, 31)"
    by (simp add: decode_iff valid_ymd_def dby_def days_in_month_def)
  from add_calendar_months_spec [OF a, of 1 ClampDay] obtain y' m' n' where
    "1 \<le> m'" "m' \<le> 12" "month_index y' m' = 24277" and
    n': "add_calendar_months 738916 1 ClampDay = Ok n'"
      "ymd_from_ordinal n' = Ok (y', m', rolled_day ClampDay 31 (days_in_month y' m') 31)"
    by (auto simp: month_index_def days_in_month_def)
  moreover from this(1-3) have "y' = 2024 \<and> m' = 2" unfolding month_index_def by presburger
  ultimately show ?thesis by (auto simp: rolled_day_def days_in_month_def leap_year_iff)
qed

end
