(* ===== verification/Accrual.thy ===== *)
theory Accrual
  imports Gregorian Float64
begin

text \<open>
  Accrual arithmetic of \<open>portfolio-model-core/src/cashflows/dated.rs\<close> on \<open>f64\<close>: the
  admission limits, the day-count fractions \<open>actual_year_fraction\<close> and the product of
  overnight interest factors \<open>overnight_compounded_factor\<close>.
\<close>

section \<open>Admission limits\<close>

definition MAX_HORIZON_DAYS :: int where
  "MAX_HORIZON_DAYS = 36600"

definition MAX_MONETARY_AMOUNT :: f64 where
  "MAX_MONETARY_AMOUNT = f64_of_int (10 ^ 15)"

definition MAX_DATED_METADATA_BYTES :: usize where
  "MAX_DATED_METADATA_BYTES = 32 * 1024 * 1024"

section \<open>Day-count fractions\<close>

datatype ActualDayCount = Act360 | Act365Fixed | ActActIsda

text \<open>The Julian-year loop of ACT/ACT ISDA: one iteration per calendar year touched.\<close>

definition isda_boundary :: "i32 \<Rightarrow> i32 \<Rightarrow> (string, i32) result" where
  "isda_boundary year finish =
     (if year = 9999 then Ok finish
      else and_then (ordinal_from_ymd (year + 1) 1 1) (\<lambda>next. Ok (min next finish)))"

lemma isda_boundary_gt:
  assumes "ymd_from_ordinal cursor = Ok (y, m, d)" "isda_boundary y finish = Ok b" "cursor < finish"
  shows "cursor < b \<and> b \<le> finish"
proof -
  have v: "valid_ymd y m d" "cursor = dby y + dbm y m + d" using assms(1) by (simp_all add: decode_iff)
  then have "cursor \<le> dby (y + 1)"
    using day_in_year [OF v(1)] dby_Suc [of y] dbm_13 [of y] by auto
  then show ?thesis using assms(2,3) v
    by (auto simp: isda_boundary_def ordinal_Jan1 valid_ymd_def split: if_splits)
qed

function isda_loop :: "i32 \<Rightarrow> i32 \<Rightarrow> f64 \<Rightarrow> (string, f64) result" where
  "isda_loop cursor finish tot =
     (if cursor < finish then
        and_then (ymd_from_ordinal cursor) (\<lambda>(year, m, d).
        and_then (isda_boundary year finish) (\<lambda>boundary.
          isda_loop boundary finish
            (tot + f64_of_int (boundary - cursor) / f64_of_int (if leap_year year then 366 else 365))))
      else Ok tot)"
  by pat_completeness auto
termination
  by (relation "measure (\<lambda>(cursor, finish, tot). nat (finish - cursor))")
    (auto dest!: isda_boundary_gt)

declare isda_loop.simps [simp del]

definition actual_year_fraction :: "i32 \<Rightarrow> i32 \<Rightarrow> ActualDayCount \<Rightarrow> (string, f64) result" where
  "actual_year_fraction start finish convention =
     and_then (validate_ordinal start) (\<lambda>_.
     and_then (validate_ordinal finish) (\<lambda>_.
     require (\<not> finish < start) ''accrual end precedes start''
      (case convention of
         Act360 \<Rightarrow> Ok (f64_of_int (finish - start) / f64_of_int 360)
       | Act365Fixed \<Rightarrow> Ok (f64_of_int (finish - start) / f64_of_int 365)
       | ActActIsda \<Rightarrow> isda_loop start finish 0)))"

section \<open>Overnight compounding\<close>

record OvernightRateInterval =
  start_ordinal :: i32
  end_ordinal :: i32
  rate :: f64

definition overnight_step :: "i32 \<Rightarrow> i32 \<times> f64 \<Rightarrow> OvernightRateInterval \<Rightarrow> (string, i32 \<times> f64) result" where
  "overnight_step finish s interval =
     (let (cursor, factor) = s in
      require (\<not> (start_ordinal interval \<noteq> cursor \<or> end_ordinal interval \<le> cursor
          \<or> finish < end_ordinal interval \<or> \<not> is_finite (rate interval)))
        ''overnight intervals must be finite, contiguous and partition the accrual period''
      (let term = 1 + rate interval * f64_of_int (end_ordinal interval - cursor) / f64_of_int 360 in
       require (\<not> (\<not> is_finite term \<or> term \<le> 0))
         ''overnight interval has nonpositive/nonfinite interest factor''
       (let factor = factor * term in
        require (is_finite factor) ''overnight compounded factor overflow''
          (Ok (end_ordinal interval, factor)))))"

definition overnight_compounded_factor ::
  "i32 \<Rightarrow> i32 \<Rightarrow> OvernightRateInterval list \<Rightarrow> (string, f64) result" where
  "overnight_compounded_factor start finish intervals =
     and_then (validate_ordinal start) (\<lambda>_.
     and_then (validate_ordinal finish) (\<lambda>_.
     require (\<not> (finish < start \<or> MAX_HORIZON_DAYS < finish - start
         \<or> MAX_HORIZON_DAYS < int (length intervals)))
       ''overnight accrual period exceeds bounded date domain''
     (and_then (fold_res (overnight_step finish) (start, 1) intervals) (\<lambda>(cursor, factor).
      require (cursor = finish) ''overnight intervals do not cover accrual period''
        (Ok factor)))))"

section \<open>Bounds of a fraction\<close>

lemma validate_ordinal_Ok [simp]: "validate_ordinal n = Ok () \<longleftrightarrow> 1 \<le> n \<and> n \<le> MAX_ORDINAL"
  by (auto simp: validate_ordinal_def)

lemma validate_ordinal_no_Panic [simp]: "validate_ordinal n \<noteq> Panic"
  by (simp add: validate_ordinal_def)

lemma int_val: "\<bar>k\<bar> \<le> 2 ^ 53 \<Longrightarrow> is_finite (f64_of_int k) \<and> val (f64_of_int k) = of_int k"
proof -
  assume k: "\<bar>k\<bar> \<le> 2 ^ 53"
  then have "\<bar>real_of_int k\<bar> \<le> 2 ^ 53" by (metis of_int_abs of_int_le_iff of_int_numeral of_int_power)
  then have "\<bar>real_of_int k\<bar> < huge" by (simp add: huge_def)
  moreover have "rnd (of_int k) = of_int k" using dbl_int [OF k] by (simp add: rne.rd_exact)
  ultimately show ?thesis using int_rounds [of k] by (auto simp: rounds_to_def)
qed

lemma int_ok: "f64_ok (f64_of_int k)"
  by simp

lemma dbl_of_nat: "n \<le> 2 ^ 53 \<Longrightarrow> real n \<in> dbl"
  using dbl_int [of "int n"] by simp

text \<open>A quotient of small integers: finite, of the right sign, bounded by any double above it.\<close>

lemma quot_bounds:
  assumes "0 \<le> k" "k \<le> 2 ^ 53" "0 < d" "d \<le> 2 ^ 53" and "real_of_int k / of_int d \<le> b" "b \<in> dbl" "b < huge"
  shows "is_finite (f64_of_int k / f64_of_int d)" and "f64_ok (f64_of_int k / f64_of_int d)"
    and "val (f64_of_int k / f64_of_int d) = rnd (of_int k / of_int d)"
    and "0 \<le> val (f64_of_int k / f64_of_int d)" and "val (f64_of_int k / f64_of_int d) \<le> b"
proof -
  have f: "is_finite (f64_of_int k)" "val (f64_of_int k) = of_int k"
    "is_finite (f64_of_int d)" "val (f64_of_int d) = of_int d"
    using int_val [of k] int_val [of d] assms by auto
  have "rounds_to (f64_of_int k / f64_of_int d) (of_int k / of_int d)"
    using div_rounds [OF f(1,3) int_ok int_ok] f assms by auto
  from rounds_to_bound [OF this _ assms(6,7)] assms
  show "is_finite (f64_of_int k / f64_of_int d)" "f64_ok (f64_of_int k / f64_of_int d)"
    "val (f64_of_int k / f64_of_int d) = rnd (of_int k / of_int d)"
    "val (f64_of_int k / f64_of_int d) \<le> b" by (auto simp: abs_of_nonneg)
  then show "0 \<le> val (f64_of_int k / f64_of_int d)"
    using assms by (simp add: rne.rd_nonneg)
qed

lemma quot_pos:
  assumes "0 < k" "k \<le> 2 ^ 53" "0 < d" "d \<le> 512" "real_of_int k / of_int d \<le> b" "b \<in> dbl" "b < huge"
  shows "0 < val (f64_of_int k / f64_of_int d)"
proof -
  have "1 * of_int d \<le> (512 :: real) * of_int k" using assms by linarith
  then have "p2 (- 9) \<le> of_int k / of_int d"
    using assms by (simp add: power_int_def field_simps)
  then have "p2 (- 9) \<le> rnd (of_int k / of_int d)" by (intro rne.rd_ge dbl_p2) simp_all
  moreover have "0 < p2 (- 9)" by simp
  ultimately show ?thesis using quot_bounds(3) [of k d b] assms by simp
qed

lemma add_nonneg:
  assumes "is_finite x" "is_finite y" "f64_ok x" "f64_ok y" "0 \<le> val y"
    and "0 \<le> val x" "val x + val y \<le> b" "b \<in> dbl" "b < huge"
  shows "is_finite (x + y)" and "val x \<le> val (x + y)" and "val y \<le> val (x + y)" and "val (x + y) \<le> b"
proof -
  have "\<bar>val x + val y\<bar> \<le> b" using assms by simp
  from rounds_to_bound [OF add_rounds [OF assms(1,2)] this assms(8,9)]
  show "is_finite (x + y)" and "val (x + y) \<le> b" by auto
  then show "val x \<le> val (x + y)" "val y \<le> val (x + y)"
    using add_val [of x y] rne.rd_add_ge_left [OF val_dbl, of x "val y"]
      rne.rd_add_ge_left [OF val_dbl, of y "val x"] assms by (auto simp: add.commute)
qed

lemma small_nat_dbl: "n \<le> 2 ^ 53 \<Longrightarrow> real n \<in> dbl \<and> real n < huge"
proof -
  assume n: "n \<le> 2 ^ 53"
  then have "real n \<le> real (2 ^ 53)" by (simp only: of_nat_le_iff)
  then have "real n < huge" by (simp add: huge_def)
  with n show ?thesis by (simp add: dbl_of_nat)
qed

definition isda_next :: "int \<Rightarrow> int \<Rightarrow> int" where
  "isda_next y finish = (if y = 9999 then finish else min (dby (y + 1) + 1) finish)"

definition isda_term :: "int \<Rightarrow> int \<Rightarrow> int \<Rightarrow> f64" where
  "isda_term y c b = f64_of_int (b - c) / f64_of_int (if leap_year y then 366 else 365)"

text \<open>One iteration of the loop: the boundary is found, and the term is in \<open>(0, 1]\<close>.\<close>

lemma isda_iteration:
  assumes "ymd_from_ordinal c = Ok (y, m, d)" "c < finish" "finish \<le> MAX_ORDINAL"
    and "b = isda_next y finish" and "q = isda_term y c b"
  shows "isda_boundary y finish = Ok b" and "c < b" "b \<le> finish"
    and "isda_loop c finish t = isda_loop b finish (t + q)"
    and "is_finite q" "f64_ok q" "0 < val q" "val q \<le> 1"
proof -
  have v: "valid_ymd y m d" "c = dby y + dbm y m + d" using assms(1) by (simp_all add: decode_iff)
  show b: "isda_boundary y finish = Ok b"
    using v by (auto simp: isda_boundary_def assms(4) isda_next_def ordinal_Jan1 valid_ymd_def)
  show bc: "c < b" "b \<le> finish" using isda_boundary_gt [OF assms(1) b assms(2)] by auto
  show "isda_loop c finish t = isda_loop b finish (t + q)"
    using assms(1,2) b by (subst isda_loop.simps) (simp add: assms(5) isda_term_def)
  define len :: int where "len = (if leap_year y then 366 else 365)"
  have "b \<le> dby (y + 1) + 1"
    using assms(3) dby_mono [of "y + 1" 10000] v by (auto simp: assms(4) isda_next_def MAX_ORDINAL_def valid_ymd_def)
  moreover have "1 \<le> dbm y m + d" using day_in_year [OF v(1)] by simp
  ultimately have k: "b - c \<le> len" using v(2) dby_Suc [of y] by (auto simp: len_def split: if_splits)
  have len: "0 < len" "len \<le> 512" "len \<le> 2 ^ 53" by (simp_all add: len_def)
  have le1: "real_of_int (b - c) / of_int len \<le> 1" using k len by (simp add: divide_le_eq)
  have h: "(1 :: real) \<in> dbl" "(1 :: real) < huge" using small_nat_dbl [of 1] by simp_all
  have q: "q = f64_of_int (b - c) / f64_of_int len" by (simp add: assms(5) isda_term_def len_def)
  have "0 \<le> b - c" "b - c \<le> 2 ^ 53" using bc k len by auto
  from quot_bounds [OF this len(1,3) le1 h] quot_pos [OF _ this(2) len(1,2) le1 h] bc
  show "is_finite q" "f64_ok q" "0 < val q" "val q \<le> 1" unfolding q by simp_all
qed

lemma isda_loop_bounds:
  assumes "1 \<le> c" "c \<le> finish" "finish \<le> MAX_ORDINAL"
    and "is_finite t" "f64_ok t" "0 \<le> val t" "val t \<le> real n"
    and "c < finish \<Longrightarrow> ymd_from_ordinal c = Ok (y, m, d) \<and> n + nat (10000 - y) \<le> N"
    and "n \<le> N" "N \<le> 2 ^ 53"
  shows "\<exists>r. isda_loop c finish t = Ok r \<and> is_finite r \<and> f64_ok r \<and> val t \<le> val r
    \<and> val r \<le> real N \<and> (c < finish \<longrightarrow> 0 < val r)"
  using assms
proof (induction "nat (finish - c)" arbitrary: c t n y m d rule: less_induct)
  case less
  show ?case
  proof (cases "c < finish")
    case False
    with less.prems show ?thesis by (subst isda_loop.simps) (auto intro: order_trans)
  next
    case True
    with less.prems have y: "ymd_from_ordinal c = Ok (y, m, d)" "n + nat (10000 - y) \<le> N" by auto
    define b where "b = isda_next y finish"
    define q where "q = isda_term y c b"
    note it = isda_iteration [OF y(1) True less.prems(3) b_def q_def]
    have v: "1 \<le> y" "y \<le> 9999" using y(1) by (auto simp: decode_iff valid_ymd_def)
    then have n1: "Suc n \<le> N" using y(2) by auto
    then have h: "real (Suc n) \<in> dbl \<and> real (Suc n) < huge" using less.prems(10) by (intro small_nat_dbl) simp
    have s: "is_finite (t + q)" "val t \<le> val (t + q)" "val q \<le> val (t + q)" "val (t + q) \<le> real (Suc n)"
      using add_nonneg [of t q "real (Suc n)"] less.prems(4-7) it(5-8) h by auto
    have ok: "f64_ok (t + q)" using less.prems it by simp
    have next': "ymd_from_ordinal b = Ok (y + 1, 1, 1) \<and> Suc n + nat (10000 - (y + 1)) \<le> N" if "b < finish"
    proof -
      have "b = dby (y + 1) + 1" "y \<noteq> 9999" using that by (auto simp: b_def isda_next_def split: if_splits)
      with v y(2) show ?thesis by (auto simp: decode_iff valid_ymd_def days_in_month_def)
    qed
    have "\<exists>r. isda_loop b finish (t + q) = Ok r \<and> is_finite r \<and> f64_ok r \<and> val (t + q) \<le> val r
        \<and> val r \<le> real N \<and> (b < finish \<longrightarrow> 0 < val r)"
      using less.prems(1,3,10) it(2,3) True s ok n1 next' less.prems(6)
      by (intro less.hyps [of b "t + q" "Suc n" "y + 1" 1 1]) auto
    then show ?thesis using it(4) [of t] s it(7) by fastforce
  qed
qed

section \<open>Properties\<close>

lemma isda_total:
  assumes "1 \<le> a" "a \<le> b" "b \<le> MAX_ORDINAL"
  shows "\<exists>r. isda_loop a b 0 = Ok r \<and> is_finite r \<and> f64_ok r
    \<and> 0 \<le> val r \<and> val r \<le> 10145 \<and> (0 < val r \<longleftrightarrow> a < b)"
proof (cases "a < b")
  case False
  then show ?thesis by (subst isda_loop.simps) simp
next
  case True
  obtain y m d where y: "ymd_from_ordinal a = Ok (y, m, d)" using assms greg.dec_total [of a] by auto
  then have "1 \<le> y" "y \<le> 9999" by (auto simp: decode_iff valid_ymd_def)
  with isda_loop_bounds [of a b 0 0 y m d 9999] assms True y show ?thesis by fastforce
qed

text \<open>
  A year fraction exists exactly for ordered ordinals of the domain, under every
  convention; the computation never panics, and the fraction is a finite number in
  \<open>0..10145\<close> that is positive exactly for a nonempty period.
\<close>

theorem actual_year_fraction_total:
  "case actual_year_fraction a b conv of
     Ok r \<Rightarrow> 1 \<le> a \<and> a \<le> b \<and> b \<le> MAX_ORDINAL \<and> is_finite r \<and> f64_ok r
       \<and> 0 \<le> val r \<and> val r \<le> 10145 \<and> (0 < val r \<longleftrightarrow> a < b)
   | Err e \<Rightarrow> \<not> (1 \<le> a \<and> a \<le> b \<and> b \<le> MAX_ORDINAL)
   | Panic \<Rightarrow> False"
proof (cases "1 \<le> a \<and> a \<le> b \<and> b \<le> MAX_ORDINAL")
  case False
  then show ?thesis by (auto simp: actual_year_fraction_def require_def validate_ordinal_def)
next
  case True
  have h: "(10145 :: real) \<in> dbl" "(10145 :: real) < huge" using small_nat_dbl [of 10145] by simp_all
  have k: "0 \<le> b - a" "b - a \<le> 2 ^ 53" "b - a \<le> 3652058" using True by (auto simp: MAX_ORDINAL_def)
  have q: "real_of_int (b - a) / of_int D \<le> 10145" if "360 \<le> D" for D
  proof -
    have "b - a \<le> 10145 * D" using k that by linarith
    then have "real_of_int (b - a) \<le> 10145 * of_int D" by linarith
    then show ?thesis using that by (simp add: divide_le_eq)
  qed
  have "\<exists>r. f64_of_int (b - a) / f64_of_int D = r \<and> is_finite r \<and> f64_ok r \<and> 0 \<le> val r
      \<and> val r \<le> 10145 \<and> (0 < val r \<longleftrightarrow> a < b)" if "360 \<le> D" "D \<le> 365" for D
  proof -
    have D: "0 < D" "D \<le> 2 ^ 53" "D \<le> 512" using that by auto
    note qb = quot_bounds [OF k(1,2) D(1,2) q [OF that(1)] h]
    have "0 < val (f64_of_int (b - a) / f64_of_int D)" if "a < b"
      using quot_pos [OF _ k(2) D(1,3) q [OF \<open>360 \<le> D\<close>] h] that by simp
    moreover have "val (f64_of_int (b - a) / f64_of_int D) = 0" if "\<not> a < b"
    proof -
      have "b - a = 0" using that True by simp
      then show ?thesis using qb(3) by (simp only: of_int_0 div_0 rne.rd_zero)
    qed
    ultimately show ?thesis using qb by fastforce
  qed
  from this [of 360] this [of 365] True isda_total [of a b] show ?thesis
    by (cases conv) (auto simp: actual_year_fraction_def require_def validate_ordinal_def)
qed

lemma isda_whole:
  assumes "1 \<le> y" "y + int k \<le> 9999" "is_finite t" "val t = real n" "n + k \<le> 2 ^ 53"
  shows "\<exists>r. isda_loop (dby y + 1) (dby (y + int k) + 1) t = Ok r \<and> is_finite r \<and> val r = real (n + k)"
  using assms
proof (induction k arbitrary: y t n)
  case 0
  then show ?case by (subst isda_loop.simps) simp
next
  case (Suc k)
  define L :: int where "L = (if leap_year y then 366 else 365)"
  define b where "b = isda_next y (dby (y + int (Suc k)) + 1)"
  define q where "q = isda_term y (dby y + 1) b"
  have y: "ymd_from_ordinal (dby y + 1) = Ok (y, 1, 1)"
    using Suc.prems by (simp add: decode_iff valid_ymd_def days_in_month_def)
  have lt: "dby y + 1 < dby (y + int (Suc k)) + 1" using dby_strict [of y "y + int (Suc k)"] by simp
  have le: "dby (y + int (Suc k)) + 1 \<le> MAX_ORDINAL"
    using dby_strict [of "y + int (Suc k)" 10000] Suc.prems by (simp add: MAX_ORDINAL_def)
  have b: "b = dby (y + 1) + 1"
    using Suc.prems dby_mono [of "y + 1" "y + int (Suc k)"] by (simp add: b_def isda_next_def)
  then have bc: "b - (dby y + 1) = L" using dby_Suc [of y] by (simp add: L_def)
  note it = isda_iteration [OF y lt le b_def q_def]
  have "L \<noteq> 0" "\<bar>L\<bar> \<le> 2 ^ 53" by (simp_all add: L_def)
  then have "val q = 1"
    using quot_bounds(3) [of L L 1] small_nat_dbl [of 1] unfolding q_def isda_term_def bc L_def [symmetric]
    by (simp add: L_def rne.rd_exact split: if_splits)
  moreover have h: "real (Suc n) \<in> dbl" "real (Suc n) < huge"
    using small_nat_dbl [of "Suc n"] Suc.prems by simp_all
  ultimately have t: "is_finite (t + q)" "val (t + q) = real (Suc n)"
    using rounds_to_bound(1,2) [OF add_rounds [OF Suc.prems(3) it(5)], of "real (Suc n)"] Suc.prems
    by (simp_all add: add.commute rne.rd_exact)
  have "\<exists>r. isda_loop (dby (y + 1) + 1) (dby (y + 1 + int k) + 1) (t + q) = Ok r \<and> is_finite r
      \<and> val r = real (Suc n + k)"
    using Suc.prems t by (intro Suc.IH) auto
  moreover have "y + 1 + int k = y + int (Suc k)" by simp
  ultimately show ?case using it(4) [of t] unfolding b by (metis add_Suc_shift)
qed

text \<open>
  Under ACT/ACT ISDA the fraction from one January 1 to another is exactly the number of
  calendar years between them, leap years included: no rounding error accumulates.
\<close>

theorem isda_whole_years:
  assumes "ordinal_from_ymd y 1 1 = Ok a" and "ordinal_from_ymd y' 1 1 = Ok b" and "y \<le> y'"
  shows "\<exists>r. actual_year_fraction a b ActActIsda = Ok r \<and> is_finite r \<and> val r = of_int (y' - y)"
proof -
  have v: "1 \<le> y" "y' \<le> 9999" and ab: "a = dby y + 1" "b = dby y' + 1"
    using assms by (auto simp: ordinal_from_ymd_eq valid_ymd_def split: if_splits)
  have r: "1 \<le> a" "a \<le> MAX_ORDINAL" "1 \<le> b" "b \<le> MAX_ORDINAL"
    using greg.enc_range assms by blast+
  define k where "k = nat (y' - y)"
  then have y': "y' = y + int k" using assms(3) by simp
  have "y + int k \<le> 9999" "k \<le> 2 ^ 53" using v y' by auto
  with isda_whole [of y k 0 0] v(1) obtain r where
    "isda_loop a b 0 = Ok r" "is_finite r" "val r = real k" unfolding ab y' by auto
  moreover have "a \<le> b" using dby_mono [OF assms(3)] by (simp add: ab)
  ultimately show ?thesis using r
    by (auto simp: actual_year_fraction_def y' require_def)
qed

lemma isda_whole_years_witness:
  "\<exists>r. actual_year_fraction 730120 738886 ActActIsda = Ok r \<and> val r = 24"
proof -
  have "ordinal_from_ymd 2000 1 1 = Ok 730120" "ordinal_from_ymd 2024 1 1 = Ok 738886"
    by (simp_all add: ordinal_Jan1 dby_def)
  from isda_whole_years [OF this] show ?thesis by auto
qed

section \<open>The overnight factor\<close>

text \<open>A list of intervals that covers \<open>[a, b)\<close> without gap, overlap or empty interval.\<close>

fun covers :: "('i \<Rightarrow> int) \<Rightarrow> ('i \<Rightarrow> int) \<Rightarrow> int \<Rightarrow> int \<Rightarrow> 'i list \<Rightarrow> bool" where
  "covers s e a b [] = (a = b)"
| "covers s e a b (i # is) = (s i = a \<and> a < e i \<and> e i \<le> b \<and> covers s e (e i) b is)"

lemma covers_snoc: "covers s e a c is \<Longrightarrow> s i = c \<Longrightarrow> c < e i \<Longrightarrow> covers s e a (e i) (is @ [i])"
  by (induction "is" arbitrary: a) (auto intro: less_imp_le order_trans)

lemma covers_le: "covers s e a b is \<Longrightarrow> a \<le> b"
  by (induction "is" arbitrary: a) force+

lemma covers_sum: "covers s e a b is \<Longrightarrow> (\<Sum>i\<leftarrow>is. e i - s i) = b - a"
  by (induction "is" arbitrary: a) auto

text \<open>Every day of the period lies in exactly one interval.\<close>

lemma covers_unique:
  assumes "covers s e a b is" "a \<le> x" "x < b"
  shows "\<exists>!i. i < length is \<and> s (is ! i) \<le> x \<and> x < e (is ! i)"
  using assms
proof (induction "is" arbitrary: a)
  case (Cons j js)
  have after: "e j \<le> s (js ! i)" if "i < length js" for i
    using Cons.prems(1) that
  proof (induction js arbitrary: j a i)
    case (Cons k ks)
    then show ?case by (cases i) (auto intro: order_trans less_imp_le)
  qed simp
  show ?case
  proof (cases "x < e j")
    case True
    show ?thesis
    proof (rule ex1I [of _ 0])
      show "0 < length (j # js) \<and> s ((j # js) ! 0) \<le> x \<and> x < e ((j # js) ! 0)"
        using Cons.prems True by simp
      show "i = 0" if "i < length (j # js) \<and> s ((j # js) ! i) \<le> x \<and> x < e ((j # js) ! i)" for i
        using that after True by (cases i) fastforce+
    qed
  next
    case False
    with Cons.IH [of "e j"] Cons.prems
    have "\<exists>!i. i < length js \<and> s (js ! i) \<le> x \<and> x < e (js ! i)" by auto
    then obtain i where i: "i < length js \<and> s (js ! i) \<le> x \<and> x < e (js ! i)"
      "\<And>k. k < length js \<and> s (js ! k) \<le> x \<and> x < e (js ! k) \<Longrightarrow> k = i" by blast
    show ?thesis
    proof (rule ex1I [of _ "Suc i"])
      show "Suc i < length (j # js) \<and> s ((j # js) ! Suc i) \<le> x \<and> x < e ((j # js) ! Suc i)"
        using i(1) by simp
      show "k = Suc i" if "k < length (j # js) \<and> s ((j # js) ! k) \<le> x \<and> x < e ((j # js) ! k)" for k
      proof (cases k)
        case (Suc l)
        with that i(2) [of l] show ?thesis by simp
      qed (use that False in simp)
    qed
  qed
qed simp

definition overnight_term :: "OvernightRateInterval \<Rightarrow> f64" where
  "overnight_term i =
     1 + rate i * f64_of_int (end_ordinal i - start_ordinal i) / f64_of_int 360"

lemma overnight_step_Ok:
  "overnight_step finish (c, f) i = Ok s' \<longleftrightarrow>
     start_ordinal i = c \<and> c < end_ordinal i \<and> end_ordinal i \<le> finish \<and> is_finite (rate i)
     \<and> is_finite (overnight_term i) \<and> 0 < val (overnight_term i)
     \<and> is_finite (f * overnight_term i) \<and> s' = (end_ordinal i, f * overnight_term i)"
proof (cases "start_ordinal i = c \<and> is_finite (overnight_term i)")
  case True
  then have "(overnight_term i \<le> 0) = (val (overnight_term i) \<le> 0)" by simp
  with True show ?thesis
    unfolding overnight_step_def overnight_term_def by (auto simp: Let_def simp del: le_val less_val)
next
  case False
  then show ?thesis
    unfolding overnight_step_def overnight_term_def by (auto simp: Let_def simp del: le_val less_val)
qed

lemma overnight_fold:
  assumes "fold_res (overnight_step finish) (c, f) is = Ok (c', f')"
    and "is_finite f" "f64_ok f" "0 \<le> val f" "\<forall>i \<in> set is. f64_ok (rate i)"
  shows "covers start_ordinal end_ordinal c c' is \<and> is_finite f' \<and> f64_ok f' \<and> 0 \<le> val f'
    \<and> (1 \<le> val f \<and> (\<forall>i \<in> set is. 0 \<le> val (rate i)) \<longrightarrow> 1 \<le> val f')"
  using assms
proof (induction "is" arbitrary: c f)
  case (Cons i rest)
  define k where "k = end_ordinal i - start_ordinal i"
  define u where "u = rate i * f64_of_int k / f64_of_int 360"
  have tm: "overnight_term i = 1 + u" by (simp add: overnight_term_def u_def k_def)
  from Cons.prems(1) have st: "start_ordinal i = c" "c < end_ordinal i" "is_finite (rate i)"
    "is_finite (1 + u)" "0 < val (1 + u)" "is_finite (f * (1 + u))"
    and rest: "fold_res (overnight_step finish) (end_ordinal i, f * (1 + u)) rest = Ok (c', f')"
    unfolding fold_res.simps and_then_Ok_iff overnight_step_Ok tm by auto
  have ok: "f64_ok u" "f64_ok (rate i)" "f64_ok (f64_of_int k)" using Cons.prems(5) by (auto simp: u_def)
  have fin: "is_finite u" using add_finiteD [OF st(4)] by simp
  have v: "val (f * (1 + u)) = rnd (val f * val (1 + u))"
    using mul_rounds [OF Cons.prems(2) st(4) Cons.prems(3)] ok st(6) by (auto dest: rounds_to_finite(1))
  have f1: "0 \<le> val (f * (1 + u))" using v st(5) Cons.prems(4) by (simp add: rne.rd_nonneg)
  have ge1: "1 \<le> val (f * (1 + u))" if "1 \<le> val f" "0 \<le> val (rate i)"
  proof -
    have "0 \<le> val u"
    proof -
      have "is_finite (rate i * f64_of_int k)" using div_finiteD [OF fin [unfolded u_def]] int_val [of 360] by simp
      moreover have "0 \<le> val (f64_of_int k)"
        using mul_finiteD [OF calculation] int_rounds [of k] st(1,2)
        by (auto simp: k_def rne.rd_nonneg dest!: rounds_to_finite(1))
      ultimately have "0 \<le> val (rate i * f64_of_int k)" "is_finite (rate i * f64_of_int k)"
        using mul_val [of "rate i" "f64_of_int k"] that ok by (simp_all add: rne.rd_nonneg)
      with div_val [OF fin [unfolded u_def]] int_val [of 360] ok show ?thesis
        by (simp add: u_def rne.rd_nonneg)
    qed
    then have "1 \<le> val (1 + u)" using add_val [OF st(4)] rne.rd_ge [of 1] small_nat_dbl [of 1] by simp
    then have "1 \<le> val f * val (1 + u)" using that mult_mono [of 1 "val f" 1] by simp
    then show ?thesis unfolding v using small_nat_dbl [of 1] by (intro rne.rd_ge) simp_all
  qed
  from Cons.IH [OF rest st(6) _ f1] Cons.prems(3,5) ok st(1,2) ge1 show ?case
    by (auto dest: covers_le)
qed simp

text \<open>
  A returned overnight factor accounts for every day of the period exactly once: the
  intervals cover \<open>[start, end)\<close> without gap or overlap, each has a positive interest factor,
  the product is a finite nonnegative number, and it is at least 1 when no rate is negative.
\<close>

theorem overnight_factor_partitions:
  assumes "overnight_compounded_factor a b is = Ok f" and "\<forall>i \<in> set is. f64_ok (rate i)"
  shows "covers start_ordinal end_ordinal a b is
    \<and> (\<forall>x. a \<le> x \<and> x < b \<longrightarrow>
         (\<exists>!k. k < length is \<and> start_ordinal (is ! k) \<le> x \<and> x < end_ordinal (is ! k)))
    \<and> is_finite f \<and> 0 \<le> val f \<and> ((\<forall>i \<in> set is. 0 \<le> val (rate i)) \<longrightarrow> 1 \<le> val f)"
proof -
  have "fold_res (overnight_step b) (a, 1) is = Ok (b, f)"
    using assms(1) by (auto simp: overnight_compounded_factor_def)
  from overnight_fold [OF this] assms(2)
  have c: "covers start_ordinal end_ordinal a b is"
    and f: "is_finite f \<and> 0 \<le> val f \<and> ((\<forall>i \<in> set is. 0 \<le> val (rate i)) \<longrightarrow> 1 \<le> val f)" by simp_all
  from c covers_unique [OF c] f show ?thesis by blast
qed

lemma overnight_factor_partitions_witness:
  "\<exists>f. overnight_compounded_factor 738886 738890
      [\<lparr>start_ordinal = 738886, end_ordinal = 738887, rate = f64_lit 5 100\<rparr>,
       \<lparr>start_ordinal = 738887, end_ordinal = 738890, rate = f64_lit 6 100\<rparr>] = Ok f \<and> 1 \<le> val f"
proof -
  let ?is = "[\<lparr>start_ordinal = 738886, end_ordinal = 738887, rate = f64_lit 5 100\<rparr>,
       \<lparr>start_ordinal = 738887, end_ordinal = 738890, rate = f64_lit 6 100\<rparr>]"
  have "\<exists>f. overnight_compounded_factor 738886 738890 ?is = Ok f"
    by (simp add: overnight_compounded_factor_def validate_ordinal_def MAX_ORDINAL_def MAX_HORIZON_DAYS_def
        overnight_step_def f64_eval require_def del: less_val le_val feq_val cong: eval_cong)
  then obtain f where f: "overnight_compounded_factor 738886 738890 ?is = Ok f" by blast
  have "0 \<le> val (f64_lit 5 100)" "0 \<le> val (f64_lit 6 100)" by (simp_all add: f64_eval)
  with overnight_factor_partitions [OF f] f show ?thesis by auto
qed

end
