(* ===== verification/Dated_Cashflow.thy ===== *)
theory Dated_Cashflow
  imports Accrual
begin

text \<open>
  The dated cashflow contract of \<open>portfolio-model-core/src/cashflows/dated.rs\<close>: events and
  schedules as the structs of the source, \<open>DatedSchedule::validate\<close> as a fold over the events
  with the loop's mutable state as a record, \<open>for_scenario\<close> and
  \<open>DatedCashflowEvent::proportionally_adjust\<close>. \<open>HashSet\<close> is a set, the identity map of
  \<open>validate\<close> a total function whose default is the \<open>or_default\<close> of the source.
\<close>

section \<open>Data\<close>

definition DATED_CASHFLOW_SCHEMA :: string where
  "DATED_CASHFLOW_SCHEMA = ''dated-cashflow-1''"

definition MAX_EVENTS :: usize where "MAX_EVENTS = 250000"
definition MAX_POSITIONS :: usize where "MAX_POSITIONS = 62000"
definition MAX_SCENARIOS :: usize where "MAX_SCENARIOS = 256"

datatype ScenarioSelector = AllScenarios | Named string

datatype CashflowMeasure = Contractual | Pricing | Physical

datatype EventProvenance =
    is_contractual: ContractualSource string string
  | Modeled string string string
  | Assumed string string

record CashflowComponents =
  principal :: f64
  cash_interest :: f64
  accrued_interest :: f64
  book_amortization :: f64
  fees :: f64

record AccrualPeriod =
  period_start :: i32
  period_end :: i32

datatype CashflowAdjustment = Unadjusted | ProportionalSurvivingPrincipal f64 string

record DatedCashflowEvent =
  position_id :: string
  event_id :: string
  scenario :: ScenarioSelector
  payment_ordinal :: i32
  day_offset :: int
  accrual_period :: "AccrualPeriod option"
  currency :: string
  components :: CashflowComponents
  measure :: CashflowMeasure
  provenance :: EventProvenance
  adjustment :: CashflowAdjustment

record DatedSchedule =
  schema :: string
  as_of_ordinal :: i32
  horizon_days :: int
  scenarios :: "string list"
  events :: "DatedCashflowEvent list"

section \<open>Components\<close>

definition monetary :: "f64 \<Rightarrow> bool" where
  "monetary v \<longleftrightarrow> \<not> (\<not> is_finite v \<or> MAX_MONETARY_AMOUNT < fabs v)"

definition components_validate :: "CashflowComponents \<Rightarrow> (string, unit) result" where
  "components_validate c =
     require (\<not> (\<exists>v \<in> set [principal c, cash_interest c, accrued_interest c, book_amortization c, fees c].
         \<not> is_finite v \<or> MAX_MONETARY_AMOUNT < fabs v))
       ''cashflow components exceed finite monetary admission''
     (let tot = principal c + cash_interest c + fees c in
      require (\<not> (\<not> is_finite tot \<or> MAX_MONETARY_AMOUNT < fabs tot))
        ''cash component sum exceeds monetary admission'' (Ok ()))"

definition cash_total :: "CashflowComponents \<Rightarrow> (string, f64) result" where
  "cash_total c =
     and_then (components_validate c) (\<lambda>_.
       let v = principal c + cash_interest c + fees c in
       require (\<not> (\<not> is_finite v \<or> MAX_MONETARY_AMOUNT < fabs v))
         ''cash component sum exceeds monetary admission'' (Ok v))"

definition scaled :: "CashflowComponents \<Rightarrow> f64 \<Rightarrow> CashflowComponents" where
  "scaled c factor =
     \<lparr> principal = principal c * factor,
       cash_interest = cash_interest c * factor,
       accrued_interest = accrued_interest c * factor,
       book_amortization = book_amortization c * factor,
       fees = fees c * factor \<rparr>"

section \<open>Text, provenance and metadata\<close>

definition text_field :: "string \<Rightarrow> string \<Rightarrow> usize \<Rightarrow> (string, unit) result" where
  "text_field v name max_bytes =
     require (\<not> (all_white v \<or> max_bytes < length v \<or> has_control v))
       (name @ '' must be nonempty, bounded text without control characters'') (Ok ())"

definition admit_metadata :: "usize \<Rightarrow> usize \<Rightarrow> (string, usize) result" where
  "admit_metadata tot bytes =
     and_then (ok_or (usize_checked_add tot bytes) ''dated metadata byte count overflow'') (\<lambda>tot.
     require (\<not> MAX_DATED_METADATA_BYTES < tot) ''dated schedule metadata exceeds 32 MiB admission''
       (Ok tot))"

definition event_metadata_bytes :: "DatedCashflowEvent \<Rightarrow> usize" where
  "event_metadata_bytes event =
     (let scenario_bytes = (case scenario event of AllScenarios \<Rightarrow> 0 | Named scenario_id \<Rightarrow> length scenario_id);
          provenance_bytes = (case provenance event of
              ContractualSource source_id source_revision \<Rightarrow> length source_id + length source_revision
            | Modeled model_id model_version input_revision \<Rightarrow>
                length model_id + length model_version + length input_revision
            | Assumed assumption_id rationale \<Rightarrow> length assumption_id + length rationale);
          adjustment_bytes = (case adjustment event of
              Unadjusted \<Rightarrow> 0 | ProportionalSurvivingPrincipal _ rationale \<Rightarrow> length rationale)
      in length (position_id event) + length (event_id event) + length (currency event)
         + scenario_bytes + provenance_bytes + adjustment_bytes)"

definition validate_provenance :: "EventProvenance \<Rightarrow> (string, unit) result" where
  "validate_provenance v = (case v of
      ContractualSource source_id source_revision \<Rightarrow>
        and_then (text_field source_id ''source_id'' 256) (\<lambda>_.
          text_field source_revision ''source_revision'' 256)
    | Modeled model_id model_version input_revision \<Rightarrow>
        and_then (text_field model_id ''model_id'' 256) (\<lambda>_.
        and_then (text_field model_version ''model_version'' 128) (\<lambda>_.
          text_field input_revision ''input_revision'' 256))
    | Assumed assumption_id rationale \<Rightarrow>
        and_then (text_field assumption_id ''assumption_id'' 256) (\<lambda>_.
          text_field rationale ''assumption rationale'' 1024))"

definition validate_adjustment :: "CashflowAdjustment \<Rightarrow> (string, unit) result" where
  "validate_adjustment v = (case v of
      Unadjusted \<Rightarrow> Ok ()
    | ProportionalSurvivingPrincipal surviving_fraction rationale \<Rightarrow>
        require (\<not> (\<not> is_finite surviving_fraction
            \<or> \<not> (0 \<le> surviving_fraction \<and> surviving_fraction < 1)))
          ''proportional approximation fraction must be finite and in [0,1)''
          (text_field rationale ''adjustment rationale'' 1024))"

section \<open>The proportional overlay\<close>

definition proportionally_adjust ::
  "DatedCashflowEvent \<Rightarrow> f64 \<Rightarrow> string \<Rightarrow> (string, DatedCashflowEvent) result" where
  "proportionally_adjust event surviving_fraction rationale =
     and_then (components_validate (components event)) (\<lambda>_.
     and_then (validate_adjustment (adjustment event)) (\<lambda>_.
     require (\<not> (\<not> is_finite surviving_fraction
         \<or> \<not> (0 \<le> surviving_fraction \<and> surviving_fraction \<le> 1)))
       ''surviving_fraction must be finite and between zero and one''
     (if feq surviving_fraction 1 then Ok event
      else and_then (text_field rationale ''adjustment rationale'' 1024) (\<lambda>_.
        require (adjustment event = Unadjusted)
          ''an already adjusted event requires product regeneration, not another overlay''
        (Ok (event \<lparr> components := scaled (components event) surviving_fraction,
                     adjustment := ProportionalSurvivingPrincipal surviving_fraction rationale \<rparr>))))))"

section \<open>Schedules\<close>

text \<open>The loop over the declared scenarios: the set seen so far and the metadata bytes.\<close>

definition admit_scenario :: "string set \<times> usize \<Rightarrow> string \<Rightarrow> (string, string set \<times> usize) result" where
  "admit_scenario acc s =
     (let (seen, metadata_bytes) = acc in
      and_then (text_field s ''scenario_id'' 128) (\<lambda>_.
      and_then (admit_metadata metadata_bytes (length s)) (\<lambda>metadata_bytes.
      require (s \<notin> seen) ''duplicate scenario_id'' (Ok (insert s seen, metadata_bytes)))))"

record schedule_state =
  positions :: "string set"
  identities :: "string \<times> string \<Rightarrow> bool \<times> string set"
  last_offset :: int
  metadata_bytes :: usize

text \<open>The scenario part of the loop body: the identity table of \<open>validate\<close>.\<close>

definition claim_identity ::
  "string set \<Rightarrow> schedule_state \<Rightarrow> DatedCashflowEvent \<Rightarrow> (string, schedule_state) result" where
  "claim_identity declared st event =
     (let key = (position_id event, event_id event);
          (all, named) = identities st key
      in case scenario event of
           AllScenarios \<Rightarrow>
             require (\<not> (all \<or> named \<noteq> {}))
               ''duplicate event identity or all/specific scenario overlap''
               (Ok (st \<lparr> identities := (identities st) (key := (True, named)) \<rparr>))
         | Named scenario_id \<Rightarrow>
             require (scenario_id \<in> declared) ''event references undeclared scenario''
             (require (\<not> (all \<or> scenario_id \<in> named))
               ''duplicate event identity or all/specific scenario overlap''
               (Ok (st \<lparr> identities := (identities st) (key := (all, insert scenario_id named)) \<rparr>))))"

definition validate_event ::
  "DatedSchedule \<Rightarrow> string set \<Rightarrow> schedule_state \<Rightarrow> DatedCashflowEvent \<Rightarrow> (string, schedule_state) result" where
  "validate_event sched declared st event =
     and_then (text_field (position_id event) ''position_id'' 256) (\<lambda>_.
     and_then (text_field (event_id event) ''event_id'' 256) (\<lambda>_.
     let positions' = insert (position_id event) (positions st) in
     require (\<not> MAX_POSITIONS < card positions') ''dated schedule position limit exceeded''
     (and_then (validate_ordinal (payment_ordinal event)) (\<lambda>_.
     require (\<not> (horizon_days sched < day_offset event \<or> day_offset event < last_offset st))
       ''events must be chronological and inside the horizon''
     (require (payment_ordinal event = as_of_ordinal sched + day_offset event)
       ''payment ordinal and day offset disagree''
     (require (\<not> (length (currency event) \<noteq> 3 \<or> \<not> list_all is_ascii_uppercase (currency event)))
       ''currency must be a three-letter uppercase code''
     (and_then (components_validate (components event)) (\<lambda>_.
     and_then (case accrual_period event of None \<Rightarrow> Ok () | Some period \<Rightarrow>
         and_then (validate_ordinal (period_start period)) (\<lambda>_.
         and_then (validate_ordinal (period_end period)) (\<lambda>_.
         require (\<not> (period_end period < period_start period
             \<or> as_of_ordinal sched + horizon_days sched < period_end period))
           ''accrual period must be ordered and end inside the schedule horizon'' (Ok ())))) (\<lambda>_.
     and_then (validate_provenance (provenance event)) (\<lambda>_.
     and_then (validate_adjustment (adjustment event)) (\<lambda>_.
     and_then (admit_metadata (metadata_bytes st) (event_metadata_bytes event)) (\<lambda>bytes.
     require (\<not> (is_contractual (provenance event) \<and> measure event \<noteq> Contractual))
       ''exact contractual source events must use contractual measure''
     (claim_identity declared
       (st \<lparr> positions := positions', last_offset := day_offset event, metadata_bytes := bytes \<rparr>)
       event)))))))))))))"

definition schedule_validate :: "DatedSchedule \<Rightarrow> (string, unit) result" where
  "schedule_validate sched =
     require (schema sched = DATED_CASHFLOW_SCHEMA) ''unsupported dated cashflow schema''
     (and_then (validate_ordinal (as_of_ordinal sched)) (\<lambda>_.
     require (\<not> MAX_HORIZON_DAYS < horizon_days sched) ''dated schedule horizon exceeds admission limit''
     (require (\<not> MAX_ORDINAL < as_of_ordinal sched + horizon_days sched)
       ''dated horizon exceeds Gregorian date domain''
     (require (\<not> (scenarios sched = [] \<or> MAX_SCENARIOS < length (scenarios sched)))
       ''dated schedule must declare 1..256 scenarios''
     (and_then (fold_res admit_scenario ({}, length (schema sched)) (scenarios sched))
        (\<lambda>(declared, bytes).
     require (\<not> MAX_EVENTS < length (events sched)) ''dated schedule event limit exceeded''
     (and_then (fold_res (validate_event sched declared)
          \<lparr> positions = {}, identities = (\<lambda>_. (False, {})), last_offset = 0, metadata_bytes = bytes \<rparr>
          (events sched)) (\<lambda>_. Ok ()))))))))"

definition in_scenario :: "string \<Rightarrow> DatedCashflowEvent \<Rightarrow> bool" where
  "in_scenario scenario_id event =
     (case scenario event of AllScenarios \<Rightarrow> True | Named i \<Rightarrow> i = scenario_id)"

definition for_scenario :: "DatedSchedule \<Rightarrow> string \<Rightarrow> (string, DatedCashflowEvent list) result" where
  "for_scenario sched scenario_id =
     and_then (schedule_validate sched) (\<lambda>_.
     require (\<exists>s \<in> set (scenarios sched). s = scenario_id) ''unknown dated scenario''
       (Ok (filter (in_scenario scenario_id) (events sched))))"

section \<open>Lemmas on validation\<close>

definition event_key :: "DatedCashflowEvent \<Rightarrow> string \<times> string" where
  "event_key e = (position_id e, event_id e)"

lemma text_field_no_Panic [simp]: "text_field v n k \<noteq> Panic"
  by (simp add: text_field_def)

lemma components_no_Panic [simp]: "components_validate c \<noteq> Panic"
  by (simp add: components_validate_def Let_def)

lemma provenance_no_Panic [simp]: "validate_provenance p \<noteq> Panic"
  by (cases p) (simp_all add: validate_provenance_def)

lemma adjustment_no_Panic [simp]: "validate_adjustment a \<noteq> Panic"
  by (cases a) (simp_all add: validate_adjustment_def)

lemma metadata_no_Panic [simp]: "admit_metadata t b \<noteq> Panic"
  by (simp add: admit_metadata_def)

lemma claim_identity_no_Panic [simp]: "claim_identity D st e \<noteq> Panic"
  by (simp add: claim_identity_def Let_def split: prod.split ScenarioSelector.split)

lemma validate_event_no_Panic [simp]: "validate_event sched D st e \<noteq> Panic"
  by (simp add: validate_event_def Let_def split: option.split)

lemma admit_scenario_no_Panic [simp]: "admit_scenario acc s \<noteq> Panic"
  by (simp add: admit_scenario_def split: prod.split)

lemma schedule_validate_no_Panic: "schedule_validate sched \<noteq> Panic"
proof -
  have "fold_res admit_scenario s xs \<noteq> Panic" for s xs
    by (rule fold_res_no_Panic [where I = "\<lambda>_. True"]) simp_all
  moreover have "fold_res (validate_event sched D) s xs \<noteq> Panic" for D s xs
    by (rule fold_res_no_Panic [where I = "\<lambda>_. True"]) simp_all
  ultimately show ?thesis by (auto simp: schedule_validate_def split: prod.splits)
qed

lemma components_Ok_iff:
  "components_validate c = Ok () \<longleftrightarrow>
     monetary (principal c) \<and> monetary (cash_interest c) \<and> monetary (accrued_interest c)
     \<and> monetary (book_amortization c) \<and> monetary (fees c)
     \<and> monetary (principal c + cash_interest c + fees c)"
  by (auto simp: components_validate_def Let_def monetary_def)

lemma admit_scenarios:
  "fold_res admit_scenario ({}, b) ss = Ok (D, b') \<Longrightarrow> D = set ss \<and> distinct ss"
proof (induction ss arbitrary: D b' rule: rev_induct)
  case (snoc s ss)
  then obtain D0 b0 where "fold_res admit_scenario ({}, b) ss = Ok (D0, b0)"
    and "admit_scenario (D0, b0) s = Ok (D, b')" by auto
  moreover from this(2) have "s \<notin> D0 \<and> D = insert s D0" by (auto simp: admit_scenario_def)
  ultimately show ?case using snoc.IH by auto
qed simp

text \<open>What an accepted event leaves behind.\<close>

lemma validate_event_Ok:
  assumes "validate_event sched D st e = Ok st'"
  shows "last_offset st \<le> day_offset e" "day_offset e \<le> horizon_days sched"
    "payment_ordinal e = as_of_ordinal sched + day_offset e"
    "1 \<le> payment_ordinal e" "payment_ordinal e \<le> MAX_ORDINAL"
    "last_offset st' = day_offset e" "components_validate (components e) = Ok ()"
    "\<forall>key. key \<noteq> event_key e \<longrightarrow> identities st' key = identities st key"
    "identities st (event_key e) = (False, {}) \<and> scenario e = AllScenarios
       \<and> identities st' (event_key e) = (True, {})
     \<or> (\<exists>s N. scenario e = Named s \<and> s \<in> D \<and> s \<notin> N \<and> identities st (event_key e) = (False, N)
       \<and> identities st' (event_key e) = (False, insert s N))"
proof -
  obtain st1 where c: "claim_identity D st1 e = Ok st'"
    and st1: "identities st1 = identities st" "last_offset st1 = day_offset e"
    and rest: "last_offset st \<le> day_offset e" "day_offset e \<le> horizon_days sched"
      "payment_ordinal e = as_of_ordinal sched + day_offset e"
      "1 \<le> payment_ordinal e" "payment_ordinal e \<le> MAX_ORDINAL" "components_validate (components e) = Ok ()"
    using assms by (fastforce simp: validate_event_def Let_def)
  then show "last_offset st \<le> day_offset e" "day_offset e \<le> horizon_days sched"
    "payment_ordinal e = as_of_ordinal sched + day_offset e" "1 \<le> payment_ordinal e"
    "payment_ordinal e \<le> MAX_ORDINAL" "components_validate (components e) = Ok ()" by simp_all
  obtain a N where aN: "identities st (event_key e) = (a, N)" by (cases "identities st (event_key e)")
  show "last_offset st' = day_offset e" "\<forall>key. key \<noteq> event_key e \<longrightarrow> identities st' key = identities st key"
    "identities st (event_key e) = (False, {}) \<and> scenario e = AllScenarios
       \<and> identities st' (event_key e) = (True, {})
     \<or> (\<exists>s N. scenario e = Named s \<and> s \<in> D \<and> s \<notin> N \<and> identities st (event_key e) = (False, N)
       \<and> identities st' (event_key e) = (False, insert s N))"
    using c st1 aN
    by (auto simp: claim_identity_def Let_def event_key_def split: ScenarioSelector.splits)
qed

definition event_ok :: "DatedSchedule \<Rightarrow> string set \<Rightarrow> DatedCashflowEvent \<Rightarrow> bool" where
  "event_ok sched D e \<longleftrightarrow> 0 \<le> day_offset e \<and> day_offset e \<le> horizon_days sched
     \<and> payment_ordinal e = as_of_ordinal sched + day_offset e \<and> payment_ordinal e \<le> MAX_ORDINAL
     \<and> components_validate (components e) = Ok ()
     \<and> (case scenario e of AllScenarios \<Rightarrow> True | Named s \<Rightarrow> s \<in> D)"

lemma validate_events:
  assumes "fold_res (validate_event sched D) st0 es = Ok st"
    and "identities st0 = (\<lambda>_. (False, {}))" "last_offset st0 = 0"
  shows "(\<forall>key. identities st key =
        (\<exists>e \<in> set es. event_key e = key \<and> scenario e = AllScenarios,
         {s. \<exists>e \<in> set es. event_key e = key \<and> scenario e = Named s}))
    \<and> last_offset st = (if es = [] then 0 else day_offset (last es)) \<and> 0 \<le> last_offset st
    \<and> sorted (map day_offset es) \<and> (\<forall>e \<in> set es. event_ok sched D e \<and> day_offset e \<le> last_offset st)
    \<and> (\<forall>s. distinct (map event_key (filter (in_scenario s) es)))"
  using assms(1)
proof (induction es arbitrary: st rule: rev_induct)
  case Nil
  then show ?case using assms by auto
next
  case (snoc e es)
  then obtain st1 where st1: "fold_res (validate_event sched D) st0 es = Ok st1"
    and e: "validate_event sched D st1 e = Ok st" by auto
  note IH = snoc.IH [OF st1]
  note v = validate_event_Ok [OF e]
  have off: "0 \<le> day_offset e" "\<forall>x \<in> set es. day_offset x \<le> day_offset e" using IH v(1) by force+
  have s: "sorted (map day_offset (es @ [e]))" using IH off(2) by (auto simp: sorted_append)
  have ok: "event_ok sched D e" using off(1) v by (auto simp: event_ok_def)
  have none: "event_key x \<noteq> event_key e" if "x \<in> set es" "in_scenario s x" "in_scenario s e" for s x
  proof
    assume k: "event_key x = event_key e"
    from IH have id: "identities st1 (event_key e) =
        (\<exists>y \<in> set es. event_key y = event_key e \<and> scenario y = AllScenarios,
         {s. \<exists>y \<in> set es. event_key y = event_key e \<and> scenario y = Named s})" by blast
    show False
      using v(9) that k unfolding id in_scenario_def
      by (cases "scenario x") (auto split: ScenarioSelector.splits)
  qed
  then have dis: "\<forall>s. distinct (map event_key (filter (in_scenario s) (es @ [e])))"
  proof (intro allI)
    fix s
    have "distinct (map event_key (filter (in_scenario s) es))" using IH by blast
    moreover have "event_key e \<notin> event_key ` set (filter (in_scenario s) es)" if "in_scenario s e"
      using none that by fastforce
    ultimately show "distinct (map event_key (filter (in_scenario s) (es @ [e])))" by auto
  qed
  have id: "identities st key =
      (\<exists>x \<in> set (es @ [e]). event_key x = key \<and> scenario x = AllScenarios,
       {s. \<exists>x \<in> set (es @ [e]). event_key x = key \<and> scenario x = Named s})" for key
  proof (cases "key = event_key e")
    case False
    have "identities st key = identities st1 key" using v(8) False by blast
    also have "\<dots> = (\<exists>e \<in> set es. event_key e = key \<and> scenario e = AllScenarios,
         {s. \<exists>e \<in> set es. event_key e = key \<and> scenario e = Named s})" using IH by blast
    finally show ?thesis using False by auto
  next
    case True
    have i1: "identities st1 key = (\<exists>e \<in> set es. event_key e = key \<and> scenario e = AllScenarios,
         {s. \<exists>e \<in> set es. event_key e = key \<and> scenario e = Named s})" using IH by blast
    show ?thesis using v(9) i1 True by (elim disjE exE conjE) auto
  qed
  show ?case using id s ok dis off v(6) IH by auto
qed

lemma schedule_validate_Ok:
  assumes "schedule_validate sched = Ok ()"
  shows "distinct (scenarios sched)" "scenarios sched \<noteq> []" "sorted (map day_offset (events sched))"
    "\<forall>e \<in> set (events sched). event_ok sched (set (scenarios sched)) e"
    "\<forall>s. distinct (map event_key (filter (in_scenario s) (events sched)))"
proof -
  from assms obtain D b st where D: "fold_res admit_scenario ({}, length (schema sched)) (scenarios sched) = Ok (D, b)"
    and f: "fold_res (validate_event sched D)
          \<lparr> positions = {}, identities = (\<lambda>_. (False, {})), last_offset = 0, metadata_bytes = b \<rparr>
          (events sched) = Ok st" and ne: "scenarios sched \<noteq> []"
    by (auto simp: schedule_validate_def)
  from admit_scenarios [OF D] validate_events [OF f] ne
  show "distinct (scenarios sched)" "scenarios sched \<noteq> []" "sorted (map day_offset (events sched))"
    "\<forall>e \<in> set (events sched). event_ok sched (set (scenarios sched)) e"
    "\<forall>s. distinct (map event_key (filter (in_scenario s) (events sched)))" by auto
qed

section \<open>Properties\<close>

text \<open>
  Resolving a scenario of an admitted schedule gives every economic event at most once
  (no two resolved events share position and event id), in chronological order, each inside
  the horizon with its payment ordinal the day offset after the as-of date; and no event is
  lost: each one is resolved under some declared scenario.
\<close>

theorem for_scenario_resolves:
  assumes "for_scenario sched s = Ok es"
  shows "distinct (map event_key es) \<and> sorted (map day_offset es)
    \<and> set es = {e \<in> set (events sched). in_scenario s e}
    \<and> (\<forall>e \<in> set es. 0 \<le> day_offset e \<and> day_offset e \<le> horizon_days sched
         \<and> payment_ordinal e = as_of_ordinal sched + day_offset e
         \<and> (\<exists>ymd. ymd_from_ordinal (payment_ordinal e) = Ok ymd))
    \<and> (\<forall>e \<in> set (events sched). \<exists>t \<in> set (scenarios sched). in_scenario t e)"
proof -
  from assms have v: "schedule_validate sched = Ok ()" and es: "es = filter (in_scenario s) (events sched)"
    by (auto simp: for_scenario_def)
  have a: "1 \<le> as_of_ordinal sched" using v by (auto simp: schedule_validate_def)
  note ok = schedule_validate_Ok [OF v]
  have dated: "\<exists>ymd. ymd_from_ordinal (payment_ordinal e) = Ok ymd" if "e \<in> set (events sched)" for e
    using ok(4) that a by (intro greg.dec_total) (auto simp: event_ok_def)
  have lost: "\<exists>t \<in> set (scenarios sched). in_scenario t e" if "e \<in> set (events sched)" for e
  proof (cases "scenario e")
    case AllScenarios
    moreover obtain t where "t \<in> set (scenarios sched)" using ok(2) by (cases "scenarios sched") auto
    ultimately show ?thesis by (auto simp: in_scenario_def)
  next
    case (Named t)
    with ok(4) that have "t \<in> set (scenarios sched)" by (force simp: event_ok_def)
    with Named show ?thesis by (auto simp: in_scenario_def)
  qed
  have "sorted (map day_offset es)" unfolding es using ok(3) by (rule sorted_filter)
  moreover have "distinct (map event_key es)" using ok(5) es by blast
  moreover have "\<forall>e \<in> set (events sched). 0 \<le> day_offset e \<and> day_offset e \<le> horizon_days sched
      \<and> payment_ordinal e = as_of_ordinal sched + day_offset e" using ok(4) by (auto simp: event_ok_def)
  ultimately show ?thesis using dated lost by (auto simp: es)
qed

definition sample_event :: "string \<Rightarrow> ScenarioSelector \<Rightarrow> DatedCashflowEvent" where
  "sample_event i s =
     \<lparr> position_id = ''p'', event_id = i, scenario = s, payment_ordinal = 738897, day_offset = 11,
       accrual_period = None, currency = ''USD'',
       components = \<lparr> principal = 1, cash_interest = 0, accrued_interest = 0, book_amortization = 0, fees = 0 \<rparr>,
       measure = Contractual, provenance = ContractualSource ''s'' ''r'', adjustment = Unadjusted \<rparr>"

definition sample_schedule :: DatedSchedule where
  "sample_schedule =
     \<lparr> schema = ''dated-cashflow-1'', as_of_ordinal = 738886, horizon_days = 30,
       scenarios = [''base'', ''up''],
       events = [sample_event ''a'' AllScenarios, sample_event ''b'' (Named ''up'')] \<rparr>"

lemmas dated_eval = schedule_validate_def DATED_CASHFLOW_SCHEMA_def validate_ordinal_def MAX_ORDINAL_def
  MAX_HORIZON_DAYS_def MAX_SCENARIOS_def MAX_EVENTS_def MAX_POSITIONS_def MAX_DATED_METADATA_BYTES_def
  MAX_MONETARY_AMOUNT_def admit_scenario_def admit_metadata_def ok_or_def usize_checked_add_def
  usize_max_def text_field_def validate_event_def claim_identity_def components_validate_def
  event_metadata_bytes_def validate_provenance_def validate_adjustment_def is_ascii_uppercase_def
  in_scenario_def for_scenario_def sample_event_def sample_schedule_def require_def

lemma for_scenario_resolves_witness:
  "for_scenario sample_schedule ''base'' = Ok [sample_event ''a'' AllScenarios]
   \<and> distinct (map event_key [sample_event ''a'' AllScenarios])"
proof -
  have e: "for_scenario sample_schedule ''base'' = Ok [sample_event ''a'' AllScenarios]"
    by (simp add: dated_eval f64_eval del: less_val le_val feq_val cong: eval_cong)
  with for_scenario_resolves [OF e] show ?thesis by blast
qed

definition shrinks :: "f64 \<Rightarrow> f64 \<Rightarrow> bool" where
  "shrinks x y \<longleftrightarrow> is_finite y \<and> \<bar>val y\<bar> \<le> \<bar>val x\<bar> \<and> 0 \<le> val x * val y"

lemma mul_fraction_shrinks:
  assumes "monetary x" "f64_ok x" "is_finite f" "f64_ok f" "0 \<le> val f" "val f \<le> 1"
  shows "shrinks x (x * f)"
proof -
  have x: "is_finite x" using assms(1) by (simp add: monetary_def)
  have "\<bar>val x * val f\<bar> \<le> \<bar>val x\<bar> * 1" unfolding abs_mult using assms by (intro mult_left_mono) auto
  moreover have "\<bar>val x\<bar> \<in> dbl" using val_dbl [OF assms(2)] dbl_minus [OF val_dbl [OF assms(2)]]
    by (simp add: abs_if)
  ultimately have b: "is_finite (x * f)" "val (x * f) = rnd (val x * val f)" "\<bar>val (x * f)\<bar> \<le> \<bar>val x\<bar>"
    using rounds_to_bound [OF mul_rounds [OF x assms(3,2,4)], of "\<bar>val x\<bar>"] ok_lt_huge [OF assms(2)]
    by auto
  moreover have "0 \<le> val x * rnd (val x * val f)"
  proof (cases "0 \<le> val x")
    case True
    with assms(5) show ?thesis by (simp add: rne.rd_nonneg)
  next
    case False
    with assms(5) have "val x * val f \<le> 0" by (intro mult_nonpos_nonneg) auto
    then have "rnd (val x * val f) \<le> 0" by (rule rne.rd_nonpos)
    with False show ?thesis by (simp add: mult_nonpos_nonpos)
  qed
  ultimately show ?thesis by (simp add: shrinks_def)
qed

definition components_f64 :: "CashflowComponents \<Rightarrow> bool" where
  "components_f64 c \<longleftrightarrow> f64_ok (principal c) \<and> f64_ok (cash_interest c) \<and> f64_ok (accrued_interest c)
     \<and> f64_ok (book_amortization c) \<and> f64_ok (fees c)"

text \<open>
  The proportional overlay either returns the very same event (factor one), or it applies
  to an event not adjusted before, records factor and rationale, changes nothing but the
  components, and makes no component larger in magnitude or of the opposite sign. An overlay
  never stacks on another: on the adjusted event only factor one succeeds, and it is the identity.
\<close>

theorem proportional_overlay:
  assumes "proportionally_adjust e f r = Ok e'" and "components_f64 (components e)" and "f64_ok f"
  shows "(feq f 1 \<and> e' = e)
    \<or> (0 \<le> val f \<and> val f < 1 \<and> adjustment e = Unadjusted
       \<and> e' = e \<lparr> components := components e', adjustment := ProportionalSurvivingPrincipal f r \<rparr>
       \<and> shrinks (principal (components e)) (principal (components e'))
       \<and> shrinks (cash_interest (components e)) (cash_interest (components e'))
       \<and> shrinks (accrued_interest (components e)) (accrued_interest (components e'))
       \<and> shrinks (book_amortization (components e)) (book_amortization (components e'))
       \<and> shrinks (fees (components e)) (fees (components e'))
       \<and> (\<forall>g q e''. proportionally_adjust e' g q = Ok e'' \<longrightarrow> feq g 1 \<and> e'' = e'))"
proof (cases "feq f 1")
  case True
  with assms(1) show ?thesis by (auto simp: proportionally_adjust_def simp del: feq_val)
next
  case False
  from assms(1) have c: "components_validate (components e) = Ok ()" and f: "is_finite f" "0 \<le> f" "f \<le> 1"
    by (auto simp: proportionally_adjust_def simp del: feq_val le_val)
  have v: "0 \<le> val f" "val f < 1" using f False by auto
  have e': "adjustment e = Unadjusted" "e' = e \<lparr> components := scaled (components e) f,
      adjustment := ProportionalSurvivingPrincipal f r \<rparr>"
    using assms(1) False by (auto simp: proportionally_adjust_def simp del: feq_val le_val)
  have again: "feq g 1 \<and> e'' = e'" if "proportionally_adjust e' g q = Ok e''" for g q e''
    using that by (auto simp: proportionally_adjust_def e'(2) simp del: feq_val le_val split: if_splits)
  have "shrinks x (x * f)" if "monetary x" "f64_ok x" for x
    using that f(1) assms(3) v by (intro mul_fraction_shrinks) auto
  with c assms(2) have "shrinks (principal (components e)) (principal (scaled (components e) f))"
    "shrinks (cash_interest (components e)) (cash_interest (scaled (components e) f))"
    "shrinks (accrued_interest (components e)) (accrued_interest (scaled (components e) f))"
    "shrinks (book_amortization (components e)) (book_amortization (scaled (components e) f))"
    "shrinks (fees (components e)) (fees (scaled (components e) f))"
    by (simp_all add: components_Ok_iff components_f64_def scaled_def)
  moreover have "components e' = scaled (components e) f" by (simp add: e'(2))
  ultimately show ?thesis using v e' again by simp
qed

lemma proportional_overlay_witness:
  "\<exists>e'. proportionally_adjust (sample_event ''a'' AllScenarios) (f64_lit 1 2) ''r'' = Ok e'
     \<and> shrinks 1 (principal (components e'))"
proof -
  let ?e = "sample_event ''a'' AllScenarios"
  have "\<exists>e'. proportionally_adjust ?e (f64_lit 1 2) ''r'' = Ok e'"
    by (simp add: proportionally_adjust_def dated_eval f64_eval del: less_val le_val feq_val cong: eval_cong)
  then obtain e' where e': "proportionally_adjust ?e (f64_lit 1 2) ''r'' = Ok e'" by blast
  have "components_f64 (components ?e)" "\<not> feq (f64_lit 1 2) 1"
    by (simp_all add: components_f64_def sample_event_def f64_ok_def f64_eval del: less_val le_val feq_val)
  with proportional_overlay [OF e'] e' show ?thesis by (auto simp: sample_event_def simp del: feq_val)
qed

end
