(* ===== verification/Calendars.thy ===== *)
theory Calendars
  imports Accrual
begin

text \<open>
  Market calendars and coupon schedules: \<open>portfolio-risk-native/src/conventions/mod.rs\<close>.
  A \<open>Date\<close> is its private ordinal; \<open>date_ok\<close> is what every constructor of the source
  validates. \<open>Calendar\<close> is a record with its cache of holiday sets, passed and returned by
  every operation that may fill it. The walk to a business day is \<open>walk_days\<close>; it ends because
  \<open>add_days\<close> refuses to leave the date domain.
\<close>

section \<open>Dates\<close>

type_synonym Date = i32

definition date_ordinal :: "i32 \<Rightarrow> (string, Date) result" where
  "date_ordinal v = require (1 \<le> v \<and> v \<le> 3652059) ''date outside years 1..9999'' (Ok v)"

definition date_new :: "i32 \<Rightarrow> i32 \<Rightarrow> i32 \<Rightarrow> (string, Date) result" where
  "date_new y m d =
     require (0 \<le> m) ''invalid Gregorian month''
     (require (0 \<le> d) ''invalid Gregorian day''
     (and_then (ordinal_from_ymd y m d) date_ordinal))"

definition ymd :: "Date \<Rightarrow> (string, i32 \<times> i32 \<times> i32) result" where
  "ymd date = (case ymd_from_ordinal date of Ok x \<Rightarrow> Ok x | _ \<Rightarrow> Panic)"

definition weekday :: "Date \<Rightarrow> i32" where
  "weekday date = rrem (date - 1) 7"

definition add_days :: "Date \<Rightarrow> i32 \<Rightarrow> (string, Date) result" where
  "add_days date n = and_then (ok_or (i32_checked_add date n) ''date overflow'') date_ordinal"

definition add_months :: "Date \<Rightarrow> i32 \<Rightarrow> (string, Date) result" where
  "add_months date n = and_then (add_calendar_months date n ClampDay) date_ordinal"

definition before_year :: "i32 \<Rightarrow> i32" where
  "before_year y = (let n = y - 1 in 365 * n + rdiv n 4 - rdiv n 100 + rdiv n 400)"

section \<open>Day counts\<close>

datatype DayCount = Thirty360 | ActOver360 | Act365 | ActAct
datatype Bdc = Following | ModifiedFollowing | Preceding | NoAdjustment

definition year_fraction :: "Date \<Rightarrow> Date \<Rightarrow> DayCount \<Rightarrow> (string, f64) result" where
  "year_fraction start finish basis =
     and_then (ymd start) (\<lambda>(y1, m1, d1).
     and_then (ymd finish) (\<lambda>(y2, m2, d2).
     let days = f64_of_int (finish - start) in
     Ok (case basis of
        Thirty360 \<Rightarrow>
          let dd1 = min d1 30;
              dd2 = (if d2 = 31 \<and> dd1 = 30 then 30 else d2)
          in f64_of_int ((y2 - y1) * 360 + (m2 - m1) * 30 + dd2 - dd1) / f64_of_int 360
      | ActOver360 \<Rightarrow> days / f64_of_int 360
      | Act365 \<Rightarrow> days / f64_of_int 365
      | ActAct \<Rightarrow>
          let denom = (\<lambda>y. f64_of_int (if leap_year y then 366 else 365)) in
          if y1 = y2 then days / denom y1
          else f64_of_int (before_year (y1 + 1) + 1 - start) / denom y1
               + f64_of_int (finish - before_year y2 - 1) / denom y2
               + f64_of_int (y2 - y1 - 1))))"

section \<open>United States holidays\<close>

definition nth_weekday :: "i32 \<Rightarrow> i32 \<Rightarrow> i32 \<Rightarrow> i32 \<Rightarrow> (string, Date) result" where
  "nth_weekday y m w n =
     and_then (date_new y m 1) (\<lambda>d. add_days d ((w - weekday d) mod 7 + 7 * (n - 1)))"

definition observed :: "Date \<Rightarrow> (string, Date) result" where
  "observed d = add_days d (if weekday d = 5 then - 1 else if weekday d = 6 then 1 else 0)"

definition easter_date :: "i32 \<Rightarrow> (string, Date) result" where
  "easter_date y =
     (let a = rrem y 19; b = rdiv y 100; c = rrem y 100;
          d = rdiv b 4; e = rrem b 4;
          g = rdiv (8 * b + 13) 25;
          h = rrem (19 * a + b - d - g + 15) 30;
          i = rdiv c 4; k = rrem c 4;
          l = rrem (32 + 2 * e + 2 * i - h - k) 7;
          m = rdiv (a + 11 * h + 22 * l) 451
      in date_new y (rdiv (h + l - 7 * m + 114) 31) (rrem (h + l - 7 * m + 114) 31 + 1))"

definition observed_on :: "i32 \<Rightarrow> i32 \<Rightarrow> i32 \<Rightarrow> (string, Date) result" where
  "observed_on y m d = and_then (date_new y m d) observed"

definition holidays :: "i32 \<Rightarrow> (string, i32 list) result" where
  "holidays y =
     and_then (easter_date y) (\<lambda>easter.
     and_then (date_new y 5 31) (\<lambda>may.
     and_then (observed_on y 1 1) (\<lambda>new_year.
     and_then (nth_weekday y 1 0 3) (\<lambda>mlk.
     and_then (nth_weekday y 2 0 3) (\<lambda>presidents.
     and_then (add_days easter (- 2)) (\<lambda>good_friday.
     and_then (add_days may (- weekday may)) (\<lambda>memorial.
     and_then (observed_on y 6 19) (\<lambda>juneteenth.
     and_then (observed_on y 7 4) (\<lambda>independence.
     and_then (nth_weekday y 9 0 1) (\<lambda>labor.
     and_then (nth_weekday y 10 0 2) (\<lambda>columbus.
     and_then (observed_on y 11 11) (\<lambda>veterans.
     and_then (nth_weekday y 11 3 4) (\<lambda>thanksgiving.
     and_then (observed_on y 12 25) (\<lambda>christmas.
       Ok [new_year, mlk, presidents, good_friday, memorial, juneteenth, independence, labor,
           columbus, veterans, thanksgiving, christmas]))))))))))))))"

section \<open>Calendars\<close>

record CalendarSpec =
  calendar_name :: string
  extra_holidays :: "i32 list"

record Calendar =
  us :: bool
  extras :: "i32 list"
  years :: "i32 \<rightharpoonup> i32 list"

definition calendar_new :: "CalendarSpec \<Rightarrow> (string, Calendar) result" where
  "calendar_new spec =
     and_then (for_each (extra_holidays spec) (\<lambda>d. and_then (date_ordinal d) (\<lambda>_. Ok ()))) (\<lambda>_.
       Ok \<lparr> us = (calendar_name spec = ''US''), extras = extra_holidays spec, years = (\<lambda>_. None) \<rparr>)"

definition business_day :: "Calendar \<Rightarrow> Date \<Rightarrow> Calendar \<times> (string, bool) result" where
  "business_day cal d =
     (if 5 \<le> weekday d \<or> d \<in> set (extras cal) then (cal, Ok False)
      else if \<not> us cal then (cal, Ok True)
      else case ymd d of
          Ok (y, m, dd) \<Rightarrow>
            (case years cal y of
               Some hs \<Rightarrow> (cal, Ok (d \<notin> set hs))
             | None \<Rightarrow>
                 (case holidays y of
                    Ok hs \<Rightarrow> (cal \<lparr> years := (years cal) (y \<mapsto> hs) \<rparr>, Ok (d \<notin> set hs))
                  | Err e \<Rightarrow> (cal, Err e)
                  | Panic \<Rightarrow> (cal, Panic)))
        | Err e \<Rightarrow> (cal, Err e)
        | Panic \<Rightarrow> (cal, Panic))"

lemma add_days_Ok: "add_days d n = Ok d' \<Longrightarrow> d' = d + n \<and> 1 \<le> d' \<and> d' \<le> 3652059"
  by (auto simp: add_days_def date_ordinal_def i32_checked_add_def split: if_splits)

text \<open>\<open>while !self.business_day(out)? { out = out.add_days(step)?; }\<close>\<close>

function walk_days :: "bool \<Rightarrow> Calendar \<Rightarrow> Date \<Rightarrow> Calendar \<times> (string, Date) result" where
  "walk_days bwd cal out =
     (case business_day cal out of
        (cal, Ok good) \<Rightarrow>
          (if good then (cal, Ok out)
           else case add_days out (if bwd then - 1 else 1) of
               Ok out \<Rightarrow> walk_days bwd cal out
             | Err e \<Rightarrow> (cal, Err e)
             | Panic \<Rightarrow> (cal, Panic))
      | (cal, Err e) \<Rightarrow> (cal, Err e)
      | (cal, Panic) \<Rightarrow> (cal, Panic))"
  by pat_completeness auto
termination
  by (relation "measure (\<lambda>(bwd, cal, out). if bwd then nat out else nat (3652060 - out))")
    (auto dest!: add_days_Ok)

declare walk_days.simps [simp del]

definition adjust :: "Calendar \<Rightarrow> Date \<Rightarrow> Bdc \<Rightarrow> Calendar \<times> (string, Date) result" where
  "adjust cal d bdc =
     (if bdc = NoAdjustment then (cal, Ok d)
      else case walk_days (bdc = Preceding) cal d of
          (cal, Ok out) \<Rightarrow>
            (if bdc = ModifiedFollowing then
               case (ymd out, ymd d) of
                 (Ok (_, m, _), Ok (_, m', _)) \<Rightarrow>
                   (if m \<noteq> m' then walk_days True cal d else (cal, Ok out))
               | _ \<Rightarrow> (cal, Panic)
             else (cal, Ok out))
        | (cal, r) \<Rightarrow> (cal, r))"

section \<open>Coupon schedules\<close>

text \<open>
  The backward loop over coupon dates: \<open>ends\<close> is built newest last, \<open>n\<close> is
  \<open>ends.len()\<close> before the push.
\<close>

function coupon_ends :: "Date \<Rightarrow> Date \<Rightarrow> i32 \<Rightarrow> Date \<Rightarrow> Date list \<Rightarrow> (string, Date list) result" where
  "coupon_ends effective maturity freq date ends =
     (if effective < date then
        require (\<not> 4096 \<le> length ends) ''coupon schedule exceeds 4096 periods''
        (let ends = ends @ [date]; months = freq * int (length ends) in
         and_then (ymd maturity) (\<lambda>(y, m, d).
           if y * 12 + m - 1 - 12 < months then Ok ends
           else and_then (add_months maturity (- months)) (\<lambda>date.
             coupon_ends effective maturity freq date ends)))
      else Ok ends)"
  by pat_completeness auto
termination
  by (relation "measure (\<lambda>(effective, maturity, freq, date, ends). 4096 - length ends)") auto

declare coupon_ends.simps [simp del]

fun coupon_periods ::
  "DayCount \<Rightarrow> Bdc \<Rightarrow> Calendar \<Rightarrow> Date \<Rightarrow> Date list
     \<Rightarrow> Calendar \<times> (string, (Date \<times> Date \<times> f64) list) result" where
  "coupon_periods basis bdc cal prev [] = (cal, Ok [])"
| "coupon_periods basis bdc cal prev (finish # ends) =
     (case adjust cal finish bdc of
        (cal, Ok pay) \<Rightarrow>
          (case year_fraction prev pay basis of
             Ok yf \<Rightarrow>
               (case coupon_periods basis bdc cal pay ends of
                  (cal, Ok out) \<Rightarrow> (cal, Ok ((prev, pay, yf) # out))
                | (cal, r) \<Rightarrow> (cal, r))
           | Err e \<Rightarrow> (cal, Err e)
           | Panic \<Rightarrow> (cal, Panic))
      | (cal, Err e) \<Rightarrow> (cal, Err e)
      | (cal, Panic) \<Rightarrow> (cal, Panic))"

definition schedule :: "Calendar \<Rightarrow> Date \<Rightarrow> Date \<Rightarrow> i32 \<Rightarrow> DayCount \<Rightarrow> Bdc
    \<Rightarrow> Calendar \<times> (string, (Date \<times> Date \<times> f64) list) result" where
  "schedule cal effective maturity freq basis bdc =
     (if maturity \<le> effective \<or> \<not> (1 \<le> freq \<and> freq \<le> 1200)
      then (cal, Err ''future maturity and positive coupon frequency required'')
      else case coupon_ends effective maturity freq maturity [] of
          Ok ends \<Rightarrow>
            (case adjust cal effective bdc of
               (cal, Ok prev) \<Rightarrow> coupon_periods basis bdc cal prev (rev ends)
             | (cal, Err e) \<Rightarrow> (cal, Err e)
             | (cal, Panic) \<Rightarrow> (cal, Panic))
        | Err e \<Rightarrow> (cal, Err e)
        | Panic \<Rightarrow> (cal, Panic))"

section \<open>Dates that a constructor accepted\<close>

definition date_ok :: "Date \<Rightarrow> bool" where
  "date_ok d \<longleftrightarrow> 1 \<le> d \<and> d \<le> MAX_ORDINAL"

lemma ymd_decode: "date_ok d \<Longrightarrow> \<exists>y m dd. ymd d = Ok (y, m, dd) \<and> ymd_from_ordinal d = Ok (y, m, dd)"
  using greg.dec_total [of d] by (fastforce simp: ymd_def date_ok_def)

lemma ymd_iff: "ymd d = Ok (y, m, dd) \<longleftrightarrow> ymd_from_ordinal d = Ok (y, m, dd)"
  by (simp add: ymd_def split: result.splits)

lemma date_new_eq:
  "valid_ymd y m d \<Longrightarrow> date_new y m d = Ok (dby y + dbm y m + d)"
  using ordinal_range [of y m d]
  by (auto simp: date_new_def require_def ordinal_from_ymd_eq date_ordinal_def valid_ymd_def MAX_ORDINAL_def)

lemma date_new_iff: "date_new y m d = Ok n \<longleftrightarrow> valid_ymd y m d \<and> n = dby y + dbm y m + d"
  using date_new_eq [of y m d] by (auto simp: date_new_def ordinal_from_ymd_eq date_ordinal_def split: if_splits)

lemma add_days_iff: "in_i32 d \<Longrightarrow> in_i32 n \<Longrightarrow> add_days d n = Ok d' \<longleftrightarrow> d' = d + n \<and> date_ok d'"
  by (auto simp: add_days_def date_ordinal_def i32_checked_add_def date_ok_def MAX_ORDINAL_def
      in_i32_def)

lemma add_days_small:
  "date_ok d \<Longrightarrow> \<bar>n\<bar> \<le> 1000 \<Longrightarrow> add_days d n = Ok d' \<longleftrightarrow> d' = d + n \<and> date_ok d'"
  by (rule add_days_iff) (auto simp: in_i32_def date_ok_def MAX_ORDINAL_def)

lemma date_ok_valid: "valid_ymd y m d \<Longrightarrow> date_ok (dby y + dbm y m + d)"
  using ordinal_range by (simp add: date_ok_def)

lemma weekday_mod: "date_ok d \<Longrightarrow> weekday d = (d - 1) mod 7"
  by (simp add: weekday_def date_ok_def)

lemma nth_weekday_Ok:
  assumes "1 \<le> y" "y \<le> 9999" "1 \<le> m" "m \<le> 12" "1 \<le> n" "n \<le> 4" "0 \<le> w" "w < 7"
  shows "\<exists>d. nth_weekday y m w n = Ok (dby y + dbm y m + d)
    \<and> weekday (dby y + dbm y m + d) = w \<and> 7 * (n - 1) < d \<and> d \<le> 7 * n"
proof -
  have dim: "28 \<le> days_in_month y m" using days_in_month_bounds by simp
  have v: "valid_ymd y m d" if "1 \<le> d" "d \<le> 28" for d using assms that dim by (auto simp: valid_ymd_def)
  define f where "f = dby y + dbm y m + 1"
  have f: "date_new y m 1 = Ok f" using date_new_eq [OF v [of 1]] by (simp add: f_def)
  define j where "j = (w - weekday f) mod 7"
  define d where "d = j + 7 * (n - 1) + 1"
  have okf: "date_ok f" using date_ok_valid [OF v [of 1]] by (simp add: f_def)
  have j: "0 \<le> j" "j < 7" by (simp_all add: j_def)
  have okd: "date_ok (dby y + dbm y m + d)" using j assms by (intro date_ok_valid v) (auto simp: d_def)
  have "nth_weekday y m w n = Ok (dby y + dbm y m + d)"
    using okd j assms by (simp add: nth_weekday_def f j_def [symmetric] add_days_small [OF okf])
      (simp add: d_def f_def)
  moreover have "weekday (dby y + dbm y m + d) = w"
  proof -
    have "dby y + dbm y m + d - 1 = (f - 1) + j + 7 * (n - 1)" by (simp add: d_def f_def)
    then have "weekday (dby y + dbm y m + d) = ((f - 1) + j) mod 7"
      unfolding weekday_mod [OF okd] by (simp only: mod_mult_self2)
    also have "\<dots> = (weekday f + (w - weekday f)) mod 7"
      unfolding j_def weekday_mod [OF okf] by (simp add: mod_simps)
    finally show ?thesis using assms by simp
  qed
  ultimately show ?thesis using j by (auto simp: d_def)
qed

lemma observed_Ok:
  assumes "date_ok d" "1 < d" "d < MAX_ORDINAL"
  shows "\<exists>x. observed d = Ok x \<and> date_ok x \<and> weekday x < 5 \<and> \<bar>x - d\<bar> \<le> 1"
proof -
  define n where "n = (if weekday d = 5 then - 1 else if weekday d = 6 then 1 else (0 :: int))"
  have ok: "date_ok (d + n)" using assms by (auto simp: n_def date_ok_def)
  then have "observed d = Ok (d + n)"
    using assms add_days_small [of d n "d + n"] by (simp add: observed_def n_def split: if_splits)
  moreover have "weekday (d + n) < 5"
  proof -
    have w: "weekday d = (d - 1) mod 7" "weekday (d + n) = (d + n - 1) mod 7"
      using weekday_mod assms ok by auto
    have "(d + (if (d - 1) mod 7 = 5 then - 1 else if (d - 1) mod 7 = 6 then 1 else 0) - 1) mod 7 < 5"
      by presburger
    then show ?thesis using w(2) unfolding n_def w(1) by simp
  qed
  ultimately show ?thesis using ok by (auto simp: n_def)
qed

text \<open>
  The computus: the date of Easter is in March or April, and the quantities \<open>h\<close> and \<open>l\<close> make
  it a Sunday, because its ordinal is a multiple of seven.
\<close>

lemma march_start:
  assumes "0 \<le> d" "0 \<le> e" "e \<le> 3" "0 \<le> i" "i \<le> 24" "0 \<le> k" "k \<le> 3" "1 \<le> y"
    and y: "y = 400 * d + 100 * e + 4 * i + k"
  shows "dby y + dbm y 3 = 7 * (20871 * d + 5217 * e + 208 * i + 52 * k - 44) + (5 * e + 5 * i + k + 2)"
proof -
  have "dbm y 3 = 59 + (if leap_year y then 1 else 0)"
    by (simp add: dbm_def upto.simps days_in_month_def)
  then have "dby y + dbm y 3 = dby (y + 1) - 306" using dby_Suc [of y] by simp
  moreover have "dby (y + 1) = 365 * y + y div 4 - y div 100 + y div 400" by (simp add: dby_def)
  moreover have "y div 4 = 100 * d + 25 * e + i" "y div 100 = 4 * d + e" "y div 400 = d"
    using assms by simp_all
  ultimately show ?thesis using y by simp
qed

lemma computus_sevens:
  fixes t :: int
  assumes "t = 7 * A + (5 * e + 5 * i + k + 24) + h + l" "l = 32 + 2 * e + 2 * i - h - k - 7 * q"
  shows "(t - 1) mod 7 = 6"
proof -
  have "t - 1 = 6 + 7 * (A + e + i + 7 - q)" unfolding assms(1) assms(2) by simp
  then show ?thesis by (simp only: mod_mult_self2) simp
qed

lemma easter_date_sunday:
  assumes "1 \<le> y" "y \<le> 9999"
  shows "\<exists>t. easter_date y = Ok t \<and> date_ok t \<and> weekday t = 6 \<and> dby y + 60 < t"
proof -
  define a b c where "a = y mod 19" and "b = y div 100" and "c = y mod 100"
  define d e g where "d = b div 4" and "e = b mod 4" and "g = (8 * b + 13) div 25"
  define h i k where "h = (19 * a + b - d - g + 15) mod 30" and "i = c div 4" and "k = c mod 4"
  define l where "l = (32 + 2 * e + 2 * i - h - k) mod 7"
  define m where "m = (a + 11 * h + 22 * l) div 451"
  define v where "v = h + l - 7 * m + 114"
  have r: "0 \<le> a" "a \<le> 18" "0 \<le> b" "b \<le> 99" "0 \<le> c" "c \<le> 99" "0 \<le> d" "0 \<le> e" "e \<le> 3"
    "0 \<le> g" "0 \<le> i" "i \<le> 24" "0 \<le> k" "k \<le> 3" "0 \<le> h" "h \<le> 29" "0 \<le> l" "l < 7"
    using assms by (simp_all add: a_def b_def c_def d_def e_def g_def h_def i_def k_def l_def pos_imp_zdiv_nonneg_iff)
  have n: "0 \<le> 19 * a + b - d - g + 15" using r unfolding d_def g_def by linarith
  have n': "0 \<le> 32 + 2 * e + 2 * i - h - k" using r by linarith
  have m: "0 \<le> m" "m \<le> 1" using r by (auto simp: m_def)
  have n'': "0 \<le> 8 * b + 13" "0 \<le> a + 11 * h + 22 * l" "0 \<le> y" using r assms by auto
  have "rrem y 19 = a" "rrem y 100 = c" "rdiv y 100 = b"
    using n''(3) by (simp_all only: a_def c_def b_def rrem_nonneg rdiv_nonneg zero_less_numeral)
  moreover have "rdiv b 4 = d" "rrem b 4 = e" "rdiv c 4 = i" "rrem c 4 = k"
    using r(3,5) by (simp_all only: d_def e_def i_def k_def rrem_nonneg rdiv_nonneg zero_less_numeral)
  moreover have "rdiv (8 * b + 13) 25 = g" "rrem (19 * a + b - d - g + 15) 30 = h"
    using n''(1) n by (simp_all only: g_def h_def rrem_nonneg rdiv_nonneg zero_less_numeral)
  moreover have "rrem (32 + 2 * e + 2 * i - h - k) 7 = l" "rdiv (a + 11 * h + 22 * l) 451 = m"
    using n''(2) n' by (simp_all only: l_def m_def rrem_nonneg rdiv_nonneg zero_less_numeral)
  ultimately have "easter_date y = date_new y (rdiv v 31) (rrem v 31 + 1)"
    unfolding easter_date_def Let_def by (simp only: v_def)
  moreover have v: "107 \<le> v" "v \<le> 149" using r m by (auto simp: v_def)
  ultimately have ed: "easter_date y = date_new y (v div 31) (v mod 31 + 1)" by simp
  define t where "t = dby y + dbm y 3 + (v - 92)"
  have "valid_ymd y (v div 31) (v mod 31 + 1) \<and> dby y + dbm y (v div 31) + (v mod 31 + 1) = t"
  proof (cases "v < 124")
    case True
    then have "v div 31 = 3" "v mod 31 = v - 93" using v by presburger+
    with True v assms show ?thesis by (simp add: valid_ymd_def days_in_month_def t_def)
  next
    case False
    then have "v div 31 = 4" "v mod 31 = v - 124" using v by presburger+
    with False v assms dbm_Suc [of 3 y] show ?thesis by (simp add: valid_ymd_def days_in_month_def t_def)
  qed
  then have t: "easter_date y = Ok t" "date_ok t" using ed date_new_eq date_ok_valid by fastforce+
  have "y = 400 * d + 100 * e + 4 * i + k"
    unfolding d_def e_def i_def k_def b_def c_def by presburger
  from march_start [OF r(7-9) r(11-14) assms(1) this]
  have "t = 7 * (20871 * d + 5217 * e + 208 * i + 52 * k - 44 - m) + (5 * e + 5 * i + k + 24) + h + l"
    by (simp add: t_def v_def)
  moreover obtain q where "l = 32 + 2 * e + 2 * i - h - k - 7 * q"
    using minus_mult_div_eq_mod [of "32 + 2 * e + 2 * i - h - k" 7] unfolding l_def by metis
  ultimately have "(t - 1) mod 7 = 6" by (rule computus_sevens)
  then have "weekday t = 6" unfolding weekday_mod [OF t(2)] .
  moreover have "59 \<le> dbm y 3" by (simp add: dbm_def upto.simps days_in_month_def)
  ultimately show ?thesis using t v by (auto simp: t_def)
qed

text \<open>A year of the Gregorian domain has its twelve holidays, all of them on weekdays.\<close>

lemma observed_on_Ok:
  assumes "valid_ymd y m d" "y \<noteq> 1 \<or> m \<noteq> 1 \<or> d \<noteq> 1" "y \<noteq> 9999 \<or> m \<noteq> 12 \<or> d \<noteq> 31"
  shows "\<exists>x. observed_on y m d = Ok x \<and> date_ok x \<and> weekday x < 5"
proof -
  let ?n = "dby y + dbm y m + d"
  have dec: "ymd_from_ordinal ?n = Ok (y, m, d)" using assms(1) by (simp add: decode_iff)
  have "?n \<noteq> 1" "?n \<noteq> MAX_ORDINAL"
  proof -
    have "ymd_from_ordinal 1 = Ok (1, 1, 1)" "ymd_from_ordinal MAX_ORDINAL = Ok (9999, 12, 31)"
      by (simp_all add: decode_iff valid_ymd_def days_in_month_def dby_def dbm_def upto.simps
          leap_year_iff MAX_ORDINAL_def)
    with dec assms(2,3) show "?n \<noteq> 1" "?n \<noteq> MAX_ORDINAL" by auto
  qed
  with date_ok_valid [OF assms(1)] observed_Ok [of ?n] show ?thesis
    by (auto simp: observed_on_def date_new_eq [OF assms(1)] date_ok_def)
qed

lemma new_year_observed:
  assumes "1 \<le> y" "y \<le> 9999"
  shows "\<exists>x. observed_on y 1 1 = Ok x \<and> date_ok x \<and> weekday x < 5"
proof (cases "y = 1")
  case True
  have "valid_ymd 1 1 1" by (simp add: valid_ymd_def days_in_month_def)
  then show ?thesis unfolding True
    by (auto simp: observed_on_def date_new_eq observed_def add_days_small weekday_def date_ok_def MAX_ORDINAL_def
        add_days_def i32_checked_add_def in_i32_def date_ordinal_def)
next
  case False
  with assms show ?thesis by (intro observed_on_Ok) (auto simp: valid_ymd_def days_in_month_def)
qed

lemma holidays_Ok:
  assumes y: "1 \<le> y" "y \<le> 9999"
  shows "\<exists>hs. holidays y = Ok hs \<and> length hs = 12 \<and> (\<forall>d \<in> set hs. date_ok d \<and> weekday d < 5)"
proof -
  have v: "valid_ymd y m d" if "1 \<le> m" "m \<le> 12" "1 \<le> d" "d \<le> 28" for m d
    using y that days_in_month_bounds [of y m] by (auto simp: valid_ymd_def)
  have ob: "\<exists>x. observed_on y m d = Ok x \<and> date_ok x \<and> weekday x < 5"
    if "2 \<le> m" "m \<le> 12" "1 \<le> d" "d \<le> 28" for m d
    using that v by (intro observed_on_Ok) auto
  have nw: "\<exists>x. nth_weekday y m w n = Ok x \<and> date_ok x \<and> weekday x < 5"
    if "1 \<le> m" "m \<le> 12" "1 \<le> n" "n \<le> 4" "0 \<le> w" "w < 5" for m n w
    using nth_weekday_Ok [OF y that(1-5)] that date_ok_valid [OF v [of m]] by fastforce
  obtain t where t: "easter_date y = Ok t" "date_ok t" "weekday t = 6" "dby y + 60 < t"
    using easter_date_sunday [OF y] by blast
  have gf: "\<exists>x. add_days t (- 2) = Ok x \<and> date_ok x \<and> weekday x < 5"
  proof -
    have ok: "date_ok (t - 2)" using t dby_ge [OF y(1)] by (auto simp: date_ok_def)
    have "weekday (t - 2) < 5" using t(3) unfolding weekday_mod [OF ok] weekday_mod [OF t(2)] by presburger
    with ok show ?thesis by (simp add: add_days_small [OF t(2)])
  qed
  have vm: "valid_ymd y 5 31" using y by (simp add: valid_ymd_def days_in_month_def)
  define may where "may = dby y + dbm y 5 + 31"
  have may: "date_new y 5 31 = Ok may" "date_ok may"
    using date_new_eq [OF vm] date_ok_valid [OF vm] by (simp_all add: may_def)
  have md: "\<exists>x. add_days may (- weekday may) = Ok x \<and> date_ok x \<and> weekday x < 5"
  proof -
    have w: "weekday may = (may - 1) mod 7" by (rule weekday_mod [OF may(2)])
    have b: "0 \<le> weekday may" "weekday may < 7" unfolding w by simp_all
    have "0 \<le> dbm y 5" using dbm_mono [of 1 5 y] by simp
    then have ok: "date_ok (may - weekday may)"
      using b may(2) dby_ge [OF y(1)] by (auto simp: date_ok_def may_def)
    have "weekday (may - weekday may) < 5" unfolding weekday_mod [OF ok] unfolding w by presburger
    with ok b show ?thesis by (simp add: add_days_small [OF may(2)])
  qed
  from new_year_observed [OF y] nw [of 1 3 0] nw [of 2 3 0] gf md ob [of 6 19] ob [of 7 4] nw [of 9 1 0]
    nw [of 10 2 0] ob [of 11 11] nw [of 11 4 3] ob [of 12 25]
  show ?thesis by (elim exE conjE; simp add: holidays_def t(1) may(1))+
qed

section \<open>The contract of a memoised query\<close>

text \<open>
  An operation that answers a question about its state and may fill a cache while doing so:
  the answer is a function of the market data only, and the cache stays consistent with it.
\<close>

locale memo_query =
  fixes query :: "'c \<Rightarrow> int \<Rightarrow> 'c \<times> (string, bool) result"
    and consistent :: "'c \<Rightarrow> bool" and dom_ok :: "int \<Rightarrow> bool"
    and answer :: "'c \<Rightarrow> int \<Rightarrow> bool"
  assumes query_answers: "consistent c \<Longrightarrow> dom_ok d \<Longrightarrow> snd (query c d) = Ok (answer c d)"
    and query_consistent: "consistent c \<Longrightarrow> dom_ok d \<Longrightarrow> consistent (fst (query c d))"
    and query_transparent: "consistent c \<Longrightarrow> dom_ok d \<Longrightarrow> answer (fst (query c d)) = answer c"
begin

lemma query_eq:
  "consistent c \<Longrightarrow> dom_ok d \<Longrightarrow>
    \<exists>c'. query c d = (c', Ok (answer c d)) \<and> consistent c' \<and> answer c' = answer c"
  using query_answers [of c d] query_consistent [of c d] query_transparent [of c d]
  by (cases "query c d") auto

lemma query_twice:
  "consistent c \<Longrightarrow> dom_ok d \<Longrightarrow> dom_ok e \<Longrightarrow>
    snd (query (fst (query c e)) d) = snd (query c d)"
  using query_answers [of "fst (query c e)" d] query_answers [of c d]
    query_consistent [of c e] query_transparent [of c e] by simp

end

definition is_holiday :: "Date \<Rightarrow> bool" where
  "is_holiday d = (case ymd_from_ordinal d of
      Ok (y, m, dd) \<Rightarrow> (case holidays y of Ok hs \<Rightarrow> d \<in> set hs | _ \<Rightarrow> False)
    | _ \<Rightarrow> False)"

definition is_business :: "Calendar \<Rightarrow> Date \<Rightarrow> bool" where
  "is_business cal d \<longleftrightarrow> weekday d < 5 \<and> d \<notin> set (extras cal) \<and> (us cal \<longrightarrow> \<not> is_holiday d)"

definition cache_ok :: "Calendar \<Rightarrow> bool" where
  "cache_ok cal \<longleftrightarrow> (\<forall>y hs. years cal y = Some hs \<longrightarrow> holidays y = Ok hs)"

lemma business_day_spec:
  assumes "cache_ok cal" "date_ok d"
  shows "\<exists>cal'. business_day cal d = (cal', Ok (is_business cal d)) \<and> cache_ok cal'
    \<and> us cal' = us cal \<and> extras cal' = extras cal"
proof -
  obtain y m dd where y: "ymd d = Ok (y, m, dd)" "ymd_from_ordinal d = Ok (y, m, dd)"
    using ymd_decode [OF assms(2)] by blast
  then have "1 \<le> y" "y \<le> 9999" by (auto simp: decode_iff valid_ymd_def)
  then obtain hs where hs: "holidays y = Ok hs" using holidays_Ok by blast
  then have h: "is_holiday d = (d \<in> set hs)" by (simp add: is_holiday_def y(2))
  show ?thesis
  proof (cases "years cal y")
    case None
    then show ?thesis using assms hs h y(1)
      by (auto simp: business_day_def is_business_def cache_ok_def)
  next
    case (Some k)
    with assms(1) hs have "k = hs" by (auto simp: cache_ok_def)
    with Some show ?thesis using assms(1) h y(1)
      by (auto simp: business_day_def is_business_def)
  qed
qed

interpretation cal: memo_query business_day cache_ok date_ok is_business
proof
  fix c d
  assume "cache_ok c" "date_ok d"
  from business_day_spec [OF this] obtain c' where
    c': "business_day c d = (c', Ok (is_business c d))" "cache_ok c'" "us c' = us c" "extras c' = extras c"
    by blast
  then show "snd (business_day c d) = Ok (is_business c d)" "cache_ok (fst (business_day c d))"
    "is_business (fst (business_day c d)) = is_business c"
    by (auto simp: is_business_def fun_eq_iff)
qed

section \<open>Walking to a business day\<close>

text \<open>\<open>x\<close> is the first day for which \<open>b\<close> holds, going forward or back from \<open>d\<close>.\<close>

definition first_from :: "bool \<Rightarrow> (Date \<Rightarrow> bool) \<Rightarrow> Date \<Rightarrow> Date \<Rightarrow> bool" where
  "first_from bwd b d x \<longleftrightarrow> date_ok x \<and> b x
     \<and> (if bwd then x \<le> d \<and> (\<forall>z. x < z \<and> z \<le> d \<longrightarrow> \<not> b z) else d \<le> x \<and> (\<forall>z. d \<le> z \<and> z < x \<longrightarrow> \<not> b z))"

definition none_from :: "bool \<Rightarrow> (Date \<Rightarrow> bool) \<Rightarrow> Date \<Rightarrow> bool" where
  "none_from bwd b d \<longleftrightarrow> (\<forall>z. date_ok z \<and> (if bwd then z \<le> d else d \<le> z) \<longrightarrow> \<not> b z)"

definition walk_result :: "bool \<Rightarrow> (Date \<Rightarrow> bool) \<Rightarrow> Date \<Rightarrow> (string, Date) result \<Rightarrow> bool" where
  "walk_result bwd b d r = (case r of
      Ok x \<Rightarrow> first_from bwd b d x
    | Err e \<Rightarrow> e = ''date outside years 1..9999'' \<and> none_from bwd b d
    | Panic \<Rightarrow> False)"

lemma add_days_step:
  assumes "date_ok d"
  shows "add_days d (if bwd then - 1 else 1) =
    (if date_ok (if bwd then d - 1 else d + 1) then Ok (if bwd then d - 1 else d + 1)
     else Err ''date outside years 1..9999'')"
  using assms by (simp add: add_days_def ok_or_def i32_checked_add_def in_i32_def date_ordinal_def
      require_def date_ok_def MAX_ORDINAL_def)

lemma walk_result_step:
  assumes "walk_result bwd b (if bwd then d - 1 else d + 1) r" "\<not> b d"
  shows "walk_result bwd b d r"
proof -
  have bw: "z \<le> d - 1 \<or> z = d" if "z \<le> d" for z using that by auto
  have fwd: "d + 1 \<le> z \<or> z = d" if "d \<le> z" for z using that by auto
  show ?thesis
  proof (cases bwd)
    case True
    with assms bw show ?thesis
      by (auto simp: walk_result_def first_from_def none_from_def split: result.splits)
  next
    case False
    with assms fwd show ?thesis
      by (auto simp: walk_result_def first_from_def none_from_def split: result.splits)
  qed
qed

lemma walk_days_spec:
  assumes "cache_ok cal" "date_ok d"
  shows "\<exists>cal' r. walk_days bwd cal d = (cal', r) \<and> cache_ok cal' \<and> is_business cal' = is_business cal
    \<and> walk_result bwd (is_business cal) d r"
  using assms
proof (induction bwd cal d rule: walk_days.induct)
  case (1 bwd cal d)
  obtain c' where q: "business_day cal d = (c', Ok (is_business cal d))"
    and c': "cache_ok c'" "is_business c' = is_business cal"
    using cal.query_eq [OF "1.prems"] by blast
  show ?case
  proof (cases "is_business cal d")
    case True
    with q have "walk_days bwd cal d = (c', Ok d)" by (subst walk_days.simps) simp
    then show ?thesis using c' True "1.prems"
      by (auto simp: walk_result_def first_from_def)
  next
    case False
    let ?d = "if bwd then d - 1 else d + 1"
    show ?thesis
    proof (cases "date_ok ?d")
      case False
      then have "walk_days bwd cal d = (c', Err ''date outside years 1..9999'')"
        using q \<open>\<not> is_business cal d\<close> add_days_step [OF "1.prems"(2), of bwd]
        by (subst walk_days.simps) simp
      moreover have "none_from bwd (is_business cal) d"
      proof -
        have "z = d" if "date_ok z" "if bwd then z \<le> d else d \<le> z" for z
          using that False "1.prems"(2) by (cases bwd) (auto simp: date_ok_def)
        with \<open>\<not> is_business cal d\<close> show ?thesis unfolding none_from_def by blast
      qed
      ultimately show ?thesis using c' by (auto simp: walk_result_def)
    next
      case True
      have step: "add_days d (if bwd then - 1 else 1) = Ok ?d"
        using True add_days_step [OF "1.prems"(2), of bwd] by simp
      have w: "walk_days bwd cal d = walk_days bwd c' ?d"
        using q False step by (subst walk_days.simps) simp
      have "\<exists>cal' r. walk_days bwd c' ?d = (cal', r) \<and> cache_ok cal' \<and> is_business cal' = is_business c'
          \<and> walk_result bwd (is_business c') ?d r"
        using "1.IH" [of c' "Ok (is_business cal d)" "is_business cal d" ?d] q False step c'(1) True by simp
      then obtain cal' r where r: "walk_days bwd c' ?d = (cal', r)" "cache_ok cal'"
        "is_business cal' = is_business cal" "walk_result bwd (is_business cal) ?d r"
        using c'(2) by auto
      have "walk_result bwd (is_business cal) d r"
        using r(4) False by (rule walk_result_step)
      then show ?thesis using w r by auto
    qed
  qed
qed

section \<open>Adjustment\<close>

definition month_of :: "Date \<Rightarrow> i32" where
  "month_of d = (case ymd_from_ordinal d of Ok (y, m, dd) \<Rightarrow> m | _ \<Rightarrow> 0)"

text \<open>What each convention promises of the adjusted date \<open>x\<close>.\<close>

definition adjusted :: "(Date \<Rightarrow> bool) \<Rightarrow> Bdc \<Rightarrow> Date \<Rightarrow> Date \<Rightarrow> bool" where
  "adjusted b bdc d x = (case bdc of
      NoAdjustment \<Rightarrow> x = d
    | Following \<Rightarrow> first_from False b d x
    | Preceding \<Rightarrow> first_from True b d x
    | ModifiedFollowing \<Rightarrow>
        (\<exists>n. first_from False b d n
           \<and> (if month_of n = month_of d then x = n else first_from True b d x)))"

definition not_adjustable :: "(Date \<Rightarrow> bool) \<Rightarrow> Bdc \<Rightarrow> Date \<Rightarrow> bool" where
  "not_adjustable b bdc d = (case bdc of
      NoAdjustment \<Rightarrow> False
    | Following \<Rightarrow> none_from False b d
    | Preceding \<Rightarrow> none_from True b d
    | ModifiedFollowing \<Rightarrow> none_from False b d \<or> none_from True b d)"

lemma month_of_ymd: "date_ok d \<Longrightarrow> \<exists>y dd. ymd d = Ok (y, month_of d, dd)"
  using ymd_decode [of d] by (auto simp: month_of_def)

lemma first_from_ok: "first_from bwd b d x \<Longrightarrow> date_ok x \<and> b x"
  by (simp add: first_from_def)

lemma adjust_spec:
  assumes "cache_ok cal" "date_ok d"
  shows "\<exists>cal' r. adjust cal d bdc = (cal', r) \<and> cache_ok cal' \<and> is_business cal' = is_business cal
    \<and> (case r of Ok x \<Rightarrow> adjusted (is_business cal) bdc d x \<and> date_ok x
       | Err e \<Rightarrow> not_adjustable (is_business cal) bdc d | Panic \<Rightarrow> False)"
proof (cases "bdc = NoAdjustment")
  case True
  then show ?thesis using assms by (simp add: adjust_def adjusted_def)
next
  case False
  obtain c r where w: "walk_days (bdc = Preceding) cal d = (c, r)" "cache_ok c"
    "is_business c = is_business cal" "walk_result (bdc = Preceding) (is_business cal) d r"
    using walk_days_spec [OF assms, of "bdc = Preceding"] by blast
  show ?thesis
  proof (cases "\<exists>x. r = Ok x \<and> bdc = ModifiedFollowing")
    case False
    then have "adjust cal d bdc = (c, r)"
      using \<open>bdc \<noteq> NoAdjustment\<close> w(1) by (cases r) (auto simp: adjust_def)
    then show ?thesis using w False \<open>bdc \<noteq> NoAdjustment\<close>
      by (cases bdc; cases r) (auto simp: walk_result_def adjusted_def not_adjustable_def first_from_def)
  next
    case True
    then obtain x where x: "r = Ok x" "bdc = ModifiedFollowing" by blast
    have fx: "first_from False (is_business cal) d x" using w(4) x by (simp add: walk_result_def)
    obtain y dd y' dd' where m: "ymd x = Ok (y, month_of x, dd)" "ymd d = Ok (y', month_of d, dd')"
      using month_of_ymd assms(2) first_from_ok [OF fx] by meson
    show ?thesis
    proof (cases "month_of x = month_of d")
      case True
      then have "adjust cal d bdc = (c, Ok x)" using w(1) x m by (simp add: adjust_def)
      then show ?thesis using w fx x True first_from_ok [OF fx] by (auto simp: adjusted_def)
    next
      case False
      obtain c2 r2 where w2: "walk_days True c d = (c2, r2)" "cache_ok c2"
        "is_business c2 = is_business cal" "walk_result True (is_business cal) d r2"
        using walk_days_spec [OF w(2) assms(2), of True] unfolding w(3) by blast
      have "adjust cal d bdc = (c2, r2)" using w(1) w2(1) x m False by (simp add: adjust_def)
      then show ?thesis using w2 fx x False
        by (cases r2) (auto simp: walk_result_def adjusted_def not_adjustable_def first_from_def)
    qed
  qed
qed

lemma adjusted_unique: "adjusted b bdc d x \<Longrightarrow> adjusted b bdc d x' \<Longrightarrow> x = x'"
proof -
  have u: "x = x'" if "first_from w b d x" "first_from w b d x'" for w x x'
    using that by (cases x x' rule: linorder_cases; cases w) (auto simp: first_from_def)
  assume "adjusted b bdc d x" "adjusted b bdc d x'"
  then show ?thesis using u by (cases bdc) (auto simp: adjusted_def split: if_splits)
qed

lemma adjusted_mono:
  assumes "adjusted b bdc d x" "adjusted b bdc d' x'" "d \<le> d'" "bdc \<noteq> ModifiedFollowing"
  shows "x \<le> x'"
  using assms
  by (cases bdc) (auto simp: adjusted_def first_from_def not_less [symmetric])

text \<open>
  C39. Adjusting a valid date never panics and the calendar's holiday cache never changes an
  answer: whatever years have been cached, the result is the date the convention defines on
  the calendar's holidays, and an error says that no such business day exists in the domain.
\<close>

theorem adjust_finds_business_day:
  assumes "cache_ok cal" and "date_ok d"
  shows "cache_ok (fst (adjust cal d bdc)) \<and> is_business (fst (adjust cal d bdc)) = is_business cal
    \<and> (case snd (adjust cal d bdc) of
         Ok x \<Rightarrow> \<forall>z. adjusted (is_business cal) bdc d z \<longleftrightarrow> z = x
       | Err e \<Rightarrow> not_adjustable (is_business cal) bdc d
       | Panic \<Rightarrow> False)"
proof -
  obtain cal' r where "adjust cal d bdc = (cal', r)" "cache_ok cal'" "is_business cal' = is_business cal"
    "case r of Ok x \<Rightarrow> adjusted (is_business cal) bdc d x \<and> date_ok x
       | Err e \<Rightarrow> not_adjustable (is_business cal) bdc d | Panic \<Rightarrow> False"
    using adjust_spec [OF assms, of bdc] by blast
  then show ?thesis by (auto split: result.splits dest: adjusted_unique)
qed

lemma adjust_finds_business_day_witness:
  "\<forall>z. adjusted (is_business \<lparr> us = False, extras = [738886], years = Map.empty \<rparr>) Following 738884 z
      \<longleftrightarrow> z = 738887"
proof -
  let ?c = "\<lparr> us = False, extras = [738886], years = Map.empty \<rparr>"
  have "snd (adjust ?c 738884 Following) = Ok 738887"
    by (simp add: adjust_def walk_days.simps business_day_def weekday_def add_days_step date_ok_def
        MAX_ORDINAL_def add_days_def ok_or_def i32_checked_add_def in_i32_def date_ordinal_def require_def)
  moreover have "cache_ok ?c" "date_ok 738884" by (simp_all add: cache_ok_def date_ok_def MAX_ORDINAL_def)
  ultimately show ?thesis using adjust_finds_business_day [of ?c 738884 Following] by simp
qed

text \<open>
  For every year of the Gregorian domain the holiday table is computed without an error,
  has its twelve entries, and lists weekdays only; the computus puts Easter on a Sunday, so
  that Good Friday is a Friday.
\<close>

theorem holidays_on_weekdays:
  assumes "1 \<le> y" and "y \<le> 9999"
  shows "(\<exists>hs. holidays y = Ok hs \<and> length hs = 12 \<and> (\<forall>d \<in> set hs. date_ok d \<and> weekday d < 5))
    \<and> (\<exists>t. easter_date y = Ok t \<and> weekday t = 6 \<and> weekday (t - 2) = 4)"
proof -
  obtain t where t: "easter_date y = Ok t" "date_ok t" "weekday t = 6" "dby y + 60 < t"
    using easter_date_sunday [OF assms] by blast
  then have ok: "date_ok (t - 2)" using dby_ge [OF assms(1)] by (auto simp: date_ok_def)
  have "weekday (t - 2) = 4" using t(3) unfolding weekday_mod [OF ok] weekday_mod [OF t(2)] by presburger
  with holidays_Ok [OF assms] t show ?thesis by blast
qed

lemma holidays_on_weekdays_witness:
  "\<exists>t. easter_date 2024 = Ok t \<and> weekday t = 6 \<and> weekday (t - 2) = 4"
  using holidays_on_weekdays [of 2024] by simp

section \<open>Coupon dates\<close>

lemma month_index_mono:
  assumes "valid_ymd y m d" "valid_ymd y' m' d'" "month_index y m < month_index y' m'"
  shows "dby y + dbm y m + d < dby y' + dbm y' m' + d'"
proof (cases "y = y'")
  case True
  then have "m + 1 \<le> m'" using assms(3) by (simp add: month_index_def)
  then have "dbm y (m + 1) \<le> dbm y m'" using assms(1) by (intro dbm_mono) (auto simp: valid_ymd_def)
  then show ?thesis using True assms(1,2) dbm_Suc [of m y] by (auto simp: valid_ymd_def)
next
  case False
  then have "y + 1 \<le> y'" using assms by (auto simp: month_index_def valid_ymd_def)
  then have "dby (y + 1) \<le> dby y'" by (rule dby_mono)
  with day_in_year [OF assms(1)] day_in_year [OF assms(2)] dby_Suc [of y] dbm_13 [of y]
  show ?thesis by auto
qed

text \<open>The coupon date \<open>k\<close> months before maturity.\<close>

lemma months_back:
  assumes "ymd_from_ordinal n = Ok (y, m, d)" "0 \<le> k" "k \<le> month_index y m"
  shows "\<exists>n' y' m' d'. add_months n (- k) = Ok n' \<and> ymd_from_ordinal n' = Ok (y', m', d')
    \<and> month_index y' m' = month_index y m - k \<and> date_ok n'"
proof -
  have v: "valid_ymd y m d" using assms(1) by (simp add: decode_iff)
  then have "month_index y m < 9999 * 12" by (auto simp: month_index_def valid_ymd_def)
  then have "\<not> (month_index y m - k < 0 \<or> 9999 * 12 \<le> month_index y m - k)" using assms(2,3) by simp
  then obtain y' m' n' where "month_index y' m' = month_index y m - k"
    "add_calendar_months n (- k) ClampDay = Ok n'"
    "ymd_from_ordinal n' = Ok (y', m', rolled_day ClampDay (days_in_month y m) (days_in_month y' m') d)"
    using add_calendar_months_spec [OF assms(1), of "- k" ClampDay] by auto
  moreover from greg.dec_range [OF this(3)] have "date_ok n'" by (simp add: date_ok_def)
  ultimately show ?thesis
    by (auto simp: add_months_def date_ordinal_def date_ok_def MAX_ORDINAL_def require_def)
qed

definition coupon_date :: "Date \<Rightarrow> i32 \<Rightarrow> nat \<Rightarrow> Date \<Rightarrow> bool" where
  "coupon_date maturity freq k d \<longleftrightarrow> add_months maturity (- (freq * int k)) = Ok d"

lemma add_months_0: "date_ok n \<Longrightarrow> add_months n 0 = Ok n"
proof -
  assume n: "date_ok n"
  then obtain y m d where y: "ymd_from_ordinal n = Ok (y, m, d)" using ymd_decode by blast
  then have v: "valid_ymd y m d" by (simp add: decode_iff)
  have t: "(y - 1) * 12 + (m - 1) + 0 = (m - 1) + 12 * (y - 1)" by simp
  have m: "1 \<le> y" "y \<le> 9999" "1 \<le> m" "m \<le> 12" using v by (simp_all add: valid_ymd_def)
  then have "0 \<le> (m - 1) + 12 * (y - 1)" "(m - 1) + 12 * (y - 1) < 9999 * 12" by simp_all
  moreover from m have "((m - 1) + 12 * (y - 1)) div 12 = y - 1" "((m - 1) + 12 * (y - 1)) mod 12 = m - 1"
    by presburger+
  ultimately have q: "rdiv ((m - 1) + 12 * (y - 1)) 12 = y - 1" "rrem ((m - 1) + 12 * (y - 1)) 12 = m - 1"
    "0 \<le> (m - 1) + 12 * (y - 1)" "(m - 1) + 12 * (y - 1) < 9999 * 12" by simp_all
  have "add_calendar_months n 0 ClampDay = ordinal_from_ymd y m d"
    unfolding add_calendar_months_def y and_then.simps prod.case Let_def t
    using v q by (simp add: require_def valid_ymd_def)
  with y n show ?thesis using greg.enc_iff [of y m d n]
    by (simp add: add_months_def date_ordinal_def date_ok_def MAX_ORDINAL_def require_def)
qed

lemma coupon_dates_decrease:
  assumes "date_ok maturity" "1 \<le> freq" "coupon_date maturity freq i a" "coupon_date maturity freq j b" "i < j"
  shows "b < a"
proof -
  obtain y m d where y: "ymd_from_ordinal maturity = Ok (y, m, d)" using ymd_decode assms(1) by blast
  have cd: "\<exists>y' m' d'. ymd_from_ordinal x = Ok (y', m', d') \<and> month_index y' m' = month_index y m - freq * int k"
    if "coupon_date maturity freq k x" for k x
  proof -
    have "freq * int k \<le> month_index y m"
      using that y by (auto simp: coupon_date_def add_months_def add_calendar_months_def month_index_def
          date_ordinal_def Let_def)
    then show ?thesis
      using months_back [OF y, of "freq * int k"] that assms(2) by (auto simp: coupon_date_def)
  qed
  from cd [OF assms(3)] cd [OF assms(4)] obtain y1 m1 d1 y2 m2 d2 where
    1: "ymd_from_ordinal a = Ok (y1, m1, d1)" "month_index y1 m1 = month_index y m - freq * int i"
    and 2: "ymd_from_ordinal b = Ok (y2, m2, d2)" "month_index y2 m2 = month_index y m - freq * int j" by blast
  have "freq * int i < freq * int j" using assms(2,5) by simp
  with 1 2 month_index_mono [of y2 m2 d2 y1 m1 d1] show ?thesis by (simp add: decode_iff)
qed

definition coupons_ok :: "Date \<Rightarrow> Date \<Rightarrow> i32 \<Rightarrow> Date list \<Rightarrow> bool" where
  "coupons_ok effective maturity freq ends \<longleftrightarrow>
     (\<forall>k < length ends. coupon_date maturity freq k (ends ! k) \<and> effective < ends ! k)"

lemma coupon_ends_spec:
  assumes "ymd_from_ordinal maturity = Ok (y, m, d)" "1 \<le> freq"
    and "coupons_ok effective maturity freq ends"
    and "coupon_date maturity freq (length ends) date" "length ends \<le> 4096"
  shows "case coupon_ends effective maturity freq date ends of
      Ok r \<Rightarrow> coupons_ok effective maturity freq r \<and> length ends \<le> length r \<and> length r \<le> 4096
        \<and> (effective < date \<longrightarrow> length ends < length r)
        \<and> (month_index y m < freq * int (length r)
            \<or> (\<exists>x. coupon_date maturity freq (length r) x \<and> x \<le> effective))
    | Err e \<Rightarrow> \<exists>x. coupon_date maturity freq 4096 x \<and> effective < x
    | Panic \<Rightarrow> False"
  using assms
proof (induction effective maturity freq date ends rule: coupon_ends.induct)
  case (1 effective maturity freq date ends)
  have ym: "ymd maturity = Ok (y, m, d)" using "1.prems"(1) by (simp add: ymd_iff)
  show ?case
  proof (cases "effective < date")
    case False
    with "1.prems" show ?thesis by (subst coupon_ends.simps) auto
  next
    case lt: True
    show ?thesis
    proof (cases "4096 \<le> length ends")
      case True
      with "1.prems" lt have "length ends = 4096" by simp
      with "1.prems" lt show ?thesis by (subst coupon_ends.simps) (auto simp: require_def)
    next
      case short: False
      define ends' where "ends' = ends @ [date]"
      define months where "months = freq * int (length ends')"
      have ok': "coupons_ok effective maturity freq ends'"
        using "1.prems" lt by (auto simp: coupons_ok_def ends'_def nth_append less_Suc_eq)
      have idx: "y * 12 + m - 1 - 12 = month_index y m" by (simp add: month_index_def)
      show ?thesis
      proof (cases "month_index y m < months")
        case True
        then have "coupon_ends effective maturity freq date ends = Ok ends'"
          using lt short ym idx by (subst coupon_ends.simps) (simp add: require_def ends'_def months_def Let_def)
        then show ?thesis using ok' True short by (auto simp: months_def ends'_def)
      next
        case False
        have "0 \<le> months" using "1.prems"(2) by (simp add: months_def)
        with False obtain x where x: "add_months maturity (- months) = Ok x"
          using months_back [OF "1.prems"(1), of months] by auto
        have eq: "coupon_ends effective maturity freq date ends = coupon_ends effective maturity freq x ends'"
          using lt short ym idx x False
          by (subst coupon_ends.simps) (simp add: require_def ends'_def months_def Let_def)
        have cx: "coupon_date maturity freq (length ends') x" using x by (simp add: coupon_date_def months_def)
        have "\<not> 4096 \<le> length ends" "\<not> y * 12 + m - 1 - 12 < months" using short False idx by simp_all
        note IH = "1.IH" [OF lt this(1) ends'_def months_def ym refl refl this(2) x "1.prems"(1,2) ok' cx]
        show ?thesis unfolding eq using IH short
          by (auto simp: ends'_def split: result.splits)
      qed
    qed
  qed
qed

section \<open>Schedules\<close>

definition pays :: "(Date \<times> Date \<times> f64) list \<Rightarrow> Date list" where
  "pays out = map (\<lambda>(a, b, f). b) out"

definition starts :: "(Date \<times> Date \<times> f64) list \<Rightarrow> Date list" where
  "starts out = map (\<lambda>(a, b, f). a) out"

lemma year_fraction_Ok: "date_ok a \<Longrightarrow> date_ok b \<Longrightarrow> \<exists>f. year_fraction a b basis = Ok f"
  using ymd_decode [of a] ymd_decode [of b] by (auto simp: year_fraction_def Let_def)

lemma coupon_periods_spec:
  assumes "cache_ok cal" "date_ok prev" "\<forall>x \<in> set ends. date_ok x"
  shows "\<exists>cal' r. coupon_periods basis bdc cal prev ends = (cal', r) \<and> cache_ok cal'
    \<and> is_business cal' = is_business cal
    \<and> (case r of
         Ok out \<Rightarrow> list_all2 (adjusted (is_business cal) bdc) ends (pays out)
           \<and> (out \<noteq> [] \<longrightarrow> starts out = prev # butlast (pays out))
           \<and> (\<forall>(a, b, f) \<in> set out. year_fraction a b basis = Ok f)
       | Err e \<Rightarrow> \<exists>x \<in> set ends. not_adjustable (is_business cal) bdc x
       | Panic \<Rightarrow> False)"
  using assms
proof (induction ends arbitrary: cal prev)
  case Nil
  then show ?case by (simp add: pays_def)
next
  case (Cons x ends)
  obtain c r where c: "adjust cal x bdc = (c, r)" "cache_ok c" "is_business c = is_business cal"
    and r: "case r of Ok p \<Rightarrow> adjusted (is_business cal) bdc x p \<and> date_ok p
       | Err e \<Rightarrow> not_adjustable (is_business cal) bdc x | Panic \<Rightarrow> False"
    using adjust_spec [of cal x bdc] Cons.prems by (auto simp del: fun_eq_iff)
  show ?case
  proof (cases r)
    case (Ok p)
    with r have p: "adjusted (is_business cal) bdc x p" "date_ok p" by auto
    obtain f where f: "year_fraction prev p basis = Ok f" using year_fraction_Ok Cons.prems(2) p(2) by blast
    from Cons.IH [OF c(2) p(2)] Cons.prems(3) obtain c2 q where
      q: "coupon_periods basis bdc c p ends = (c2, q)" "cache_ok c2" "is_business c2 = is_business cal"
      "case q of
         Ok out \<Rightarrow> list_all2 (adjusted (is_business cal) bdc) ends (pays out)
           \<and> (out \<noteq> [] \<longrightarrow> starts out = p # butlast (pays out))
           \<and> (\<forall>(a, b, f) \<in> set out. year_fraction a b basis = Ok f)
       | Err e \<Rightarrow> \<exists>x \<in> set ends. not_adjustable (is_business cal) bdc x
       | Panic \<Rightarrow> False"
      unfolding c(3) by auto
    show ?thesis
    proof (cases q)
      case (Ok out)
      then have "coupon_periods basis bdc cal prev (x # ends) = (c2, Ok ((prev, p, f) # out))"
        using c(1) \<open>r = Ok p\<close> f q(1) by simp
      then show ?thesis using q Ok p f by (auto simp: pays_def starts_def)
    next
      case (Err e)
      then have "coupon_periods basis bdc cal prev (x # ends) = (c2, Err e)"
        using c(1) \<open>r = Ok p\<close> f q(1) by simp
      then show ?thesis using q Err by auto
    next
      case Panic
      then show ?thesis using q by simp
    qed
  next
    case (Err e)
    with c r show ?thesis by auto
  next
    case Panic
    with r show ?thesis by simp
  qed
qed

lemma coupons_start:
  assumes "date_ok maturity" "1 \<le> freq"
  shows "case coupon_ends effective maturity freq maturity [] of
      Ok r \<Rightarrow> coupons_ok effective maturity freq r \<and> length r \<le> 4096 \<and> (effective < maturity \<longrightarrow> r \<noteq> [])
        \<and> (\<forall>x. coupon_date maturity freq (length r) x \<longrightarrow> x \<le> effective)
    | Err e \<Rightarrow> \<exists>x. coupon_date maturity freq 4096 x \<and> effective < x
    | Panic \<Rightarrow> False"
proof -
  obtain y m d where y: "ymd_from_ordinal maturity = Ok (y, m, d)" using ymd_decode assms(1) by blast
  have cd: "coupon_date maturity freq 0 maturity" using add_months_0 [OF assms(1)] by (simp add: coupon_date_def)
  have no: "\<not> coupon_date maturity freq k x" if "month_index y m < freq * int k" for k x
    using that y by (auto simp: coupon_date_def add_months_def add_calendar_months_def month_index_def Let_def)
  have uniq: "x = x'" if "coupon_date maturity freq k x" "coupon_date maturity freq k x'" for k x x'
    using that by (simp add: coupon_date_def)
  from coupon_ends_spec [OF y assms(2), of effective "[]" maturity] cd
  show ?thesis by (auto simp: coupons_ok_def split: result.splits dest: no uniq)
qed

lemma coupon_date_ok: "coupon_date maturity freq k x \<Longrightarrow> date_ok x"
  by (auto simp: coupon_date_def add_months_def date_ordinal_def date_ok_def MAX_ORDINAL_def)

lemma list_all2_sorted:
  assumes "list_all2 P xs ys" "sorted xs" "\<And>x y x' y'. P x y \<Longrightarrow> P x' y' \<Longrightarrow> x \<le> x' \<Longrightarrow> y \<le> y'"
  shows "sorted ys"
  using assms(1,2) list_all2_nthD [OF assms(1)] list_all2_lengthD [OF assms(1)]
  unfolding sorted_iff_nth_mono by (metis assms(3) order.strict_trans1)

lemma coupons_sorted:
  assumes "date_ok maturity" "1 \<le> freq" "coupons_ok effective maturity freq ends"
  shows "sorted (rev ends)"
  unfolding sorted_rev_iff_nth_mono
proof (intro allI impI)
  fix i j
  assume ij: "i \<le> j" "j < length ends"
  show "ends ! j \<le> ends ! i"
  proof (cases "i = j")
    case False
    with ij assms(3) coupon_dates_decrease [OF assms(1,2), of i "ends ! i" j "ends ! j"]
    show ?thesis by (simp add: coupons_ok_def)
  qed simp
qed

text \<open>
  A schedule that is returned is the contract's: its unadjusted ends are the dates
  \<open>k * freq\<close> months before maturity, exactly those after the effective date; the periods are
  consecutive, from the adjusted effective date to the adjusted maturity, each end adjusted by
  the convention and each fraction that of its period; and, month-preserving rolls apart, no
  period runs backwards. The computation never panics.
\<close>

theorem schedule_chain:
  assumes "cache_ok cal" "date_ok effective" "date_ok maturity"
  defines "b \<equiv> is_business cal"
  shows "case snd (schedule cal effective maturity freq basis bdc) of
      Ok out \<Rightarrow> \<exists>ends start. coupons_ok effective maturity freq ends \<and> ends \<noteq> [] \<and> length ends \<le> 4096
        \<and> (\<forall>x. coupon_date maturity freq (length ends) x \<longrightarrow> x \<le> effective)
        \<and> adjusted b bdc effective start \<and> list_all2 (adjusted b bdc) (rev ends) (pays out)
        \<and> starts out = start # butlast (pays out)
        \<and> (\<forall>(s, e, f) \<in> set out. year_fraction s e basis = Ok f)
        \<and> (bdc \<noteq> ModifiedFollowing \<longrightarrow> sorted (start # pays out))
    | Err e \<Rightarrow> True
    | Panic \<Rightarrow> False"
proof (cases "maturity \<le> effective \<or> \<not> (1 \<le> freq \<and> freq \<le> 1200)")
  case True
  then show ?thesis by (simp add: schedule_def)
next
  case False
  then have freq: "1 \<le> freq" and lt: "effective < maturity" by auto
  note cs = coupons_start [OF assms(3) freq, of effective]
  show ?thesis
  proof (cases "coupon_ends effective maturity freq maturity []")
    case (Ok ends)
    with cs lt have e: "coupons_ok effective maturity freq ends" "ends \<noteq> []" "length ends \<le> 4096"
      "\<forall>x. coupon_date maturity freq (length ends) x \<longrightarrow> x \<le> effective" by auto
    obtain c r where c: "adjust cal effective bdc = (c, r)" "cache_ok c" "is_business c = b"
      and r: "case r of Ok p \<Rightarrow> adjusted b bdc effective p \<and> date_ok p
         | Err e \<Rightarrow> not_adjustable b bdc effective | Panic \<Rightarrow> False"
      using adjust_spec [OF assms(1,2), of bdc] unfolding b_def by blast
    have dates: "\<forall>x \<in> set (rev ends). date_ok x"
      using e(1) unfolding coupons_ok_def by (metis coupon_date_ok in_set_conv_nth set_rev)
    show ?thesis
    proof (cases r)
      case r': (Ok start)
      with r have st: "adjusted b bdc effective start" "date_ok start" by auto
      obtain c2 q where q: "coupon_periods basis bdc c start (rev ends) = (c2, q)" and
        q': "case q of Ok out \<Rightarrow> list_all2 (adjusted b bdc) (rev ends) (pays out)
           \<and> (out \<noteq> [] \<longrightarrow> starts out = start # butlast (pays out))
           \<and> (\<forall>(a, b, f) \<in> set out. year_fraction a b basis = Ok f)
         | Err e \<Rightarrow> \<exists>x \<in> set (rev ends). not_adjustable b bdc x
         | Panic \<Rightarrow> False"
        using coupon_periods_spec [OF c(2) st(2) dates, of basis bdc] unfolding c(3) by blast
      have s: "schedule cal effective maturity freq basis bdc = (c2, q)"
        using False Ok c(1) r' q by (auto simp: schedule_def)
      show ?thesis
      proof (cases q)
        case q'': (Ok out)
        with q' have o: "list_all2 (adjusted b bdc) (rev ends) (pays out)" by simp
        with e(2) have ne: "out \<noteq> []" by (auto simp: pays_def)
        have "sorted (start # pays out)" if "bdc \<noteq> ModifiedFollowing"
        proof (rule list_all2_sorted)
          show "list_all2 (adjusted b bdc) (effective # rev ends) (start # pays out)" using st o by simp
          have "\<forall>x \<in> set (rev ends). effective \<le> x"
            using e(1) unfolding coupons_ok_def by (metis in_set_conv_nth set_rev less_imp_le)
          with coupons_sorted [OF assms(3) freq e(1)]
          show "sorted (effective # rev ends)" by simp
          show "y \<le> y'" if "adjusted b bdc x y" "adjusted b bdc x' y'" "x \<le> x'" for x y x' y'
            using adjusted_mono [OF that] \<open>bdc \<noteq> ModifiedFollowing\<close> by simp
        qed
        then show ?thesis using e st q' q'' ne s by auto
      qed (use s q' in auto)
    qed (use False Ok c(1) r in \<open>auto simp: schedule_def\<close>)
  qed (use False cs in \<open>auto simp: schedule_def\<close>)
qed

lemma schedule_chain_witness:
  "\<exists>out. snd (schedule \<lparr> us = False, extras = [], years = Map.empty \<rparr> 738886 738917 1 Act365 Following) = Ok out
     \<and> sorted (pays out)"
proof -
  let ?c = "\<lparr> us = False, extras = [], years = Map.empty \<rparr>"
  have "\<exists>out. snd (schedule ?c 738886 738917 1 Act365 Following) = Ok out"
  proof -
    have y: "ymd_from_ordinal 738917 = Ok (2024, 2, 1)" "ymd_from_ordinal 738886 = Ok (2024, 1, 1)"
      by (simp_all add: decode_iff valid_ymd_def dby_def dbm_Suc [of 1, simplified] days_in_month_def)
    have b: "walk_days False ?c d = (?c, Ok d)" if "weekday d < 5" for d
      using that by (simp add: walk_days.simps business_day_def)
    have "ordinal_from_ymd 2024 1 1 = Ok 738886" using greg.enc_iff y(2) by blast
    then have "add_months 738917 (- 1) = Ok 738886"
      by (simp add: add_months_def add_calendar_months_def y require_def date_ordinal_def days_in_month_def)
    then have "coupon_ends 738886 738917 1 738917 [] = Ok [738917]"
      by (simp add: coupon_ends.simps ymd_def y require_def)
    then show ?thesis
      by (simp add: schedule_def adjust_def b weekday_def year_fraction_def ymd_def y)
  qed
  moreover have "cache_ok ?c" "date_ok 738886" "date_ok 738917"
    by (simp_all add: cache_ok_def date_ok_def MAX_ORDINAL_def)
  ultimately show ?thesis
    using schedule_chain [of ?c 738886 738917 1 Following Act365] by auto
qed

section \<open>Year fractions\<close>

lemma small_quot:
  assumes "0 \<le> n" "n \<le> 10 ^ 7" "360 \<le> D" "D \<le> 366"
  shows "is_finite (f64_of_int n / f64_of_int D)" "f64_ok (f64_of_int n / f64_of_int D)"
    "0 \<le> val (f64_of_int n / f64_of_int D)" "val (f64_of_int n / f64_of_int D) \<le> 27778"
proof -
  have "n \<le> 27778 * D" using assms by simp
  then have "real_of_int n \<le> 27778 * of_int D" by linarith
  then have q: "real_of_int n / of_int D \<le> 27778" using assms by (simp add: divide_le_eq)
  have b: "(27778 :: real) \<in> dbl" "(27778 :: real) < huge" using small_nat_dbl [of 27778] by simp_all
  have s: "n \<le> 2 ^ 53" "0 < D" "D \<le> 2 ^ 53" using assms by simp_all
  show "is_finite (f64_of_int n / f64_of_int D)" "f64_ok (f64_of_int n / f64_of_int D)"
    "0 \<le> val (f64_of_int n / f64_of_int D)" "val (f64_of_int n / f64_of_int D) \<le> 27778"
    using quot_bounds [OF assms(1) s q b] by blast+
qed

lemma before_year_dby: "1 \<le> y \<Longrightarrow> before_year y = dby y"
  by (simp add: before_year_def dby_def Let_def)

lemma thirty_nonneg:
  assumes "valid_ymd y1 m1 d1" "valid_ymd y2 m2 d2" "dby y1 + dbm y1 m1 + d1 \<le> dby y2 + dbm y2 m2 + d2"
  shows "0 \<le> (y2 - y1) * 360 + (m2 - m1) * 30
    + (if d2 = 31 \<and> min d1 30 = 30 then 30 else d2) - min d1 30"
proof -
  have "month_index y1 m1 \<le> month_index y2 m2"
    using month_index_mono [OF assms(2,1)] assms(3) by linarith
  then consider "month_index y1 m1 + 1 \<le> month_index y2 m2" | "month_index y1 m1 = month_index y2 m2" by linarith
  then show ?thesis
  proof cases
    case 1
    then have "30 \<le> (y2 - y1) * 360 + (m2 - m1) * 30" by (simp add: month_index_def)
    then show ?thesis using assms(1,2) by (auto simp: valid_ymd_def)
  next
    case 2
    have "y1 * 12 + m1 = y2 * 12 + m2" using 2 by (simp add: month_index_def)
    moreover have "1 \<le> m1" "m1 \<le> 12" "1 \<le> m2" "m2 \<le> 12" using assms by (auto simp: valid_ymd_def)
    ultimately have "y1 = y2 \<and> m1 = m2" by presburger
    then show ?thesis using assms(3) by auto
  qed
qed

text \<open>
  Between two valid dates in order, every day count gives a finite nonnegative fraction and
  no call panics, the clamped 30/360 end-of-month rule and the split year of ACT/ACT included.
\<close>

lemma year_fraction_nonneg:
  assumes "date_ok a" "date_ok b" "a \<le> b"
  shows "\<exists>f. year_fraction a b basis = Ok f \<and> is_finite f \<and> 0 \<le> val f"
proof -
  obtain y1 m1 d1 where 1: "ymd a = Ok (y1, m1, d1)" "valid_ymd y1 m1 d1" "a = dby y1 + dbm y1 m1 + d1"
    using ymd_decode [OF assms(1)] by (auto simp: decode_iff)
  obtain y2 m2 d2 where 2: "ymd b = Ok (y2, m2, d2)" "valid_ymd y2 m2 d2" "b = dby y2 + dbm y2 m2 + d2"
    using ymd_decode [OF assms(2)] by (auto simp: decode_iff)
  have r: "1 \<le> y1" "y1 \<le> 9999" "1 \<le> y2" "y2 \<le> 9999" "1 \<le> m1" "m1 \<le> 12" "1 \<le> m2" "m2 \<le> 12"
    "1 \<le> d1" "1 \<le> d2" "d1 \<le> 31" "d2 \<le> 31"
    using 1(2) 2(2) days_in_month_bounds [of y1 m1] days_in_month_bounds [of y2 m2] by (auto simp: valid_ymd_def)
  have days: "0 \<le> b - a" "b - a \<le> 10 ^ 7" using assms by (auto simp: date_ok_def MAX_ORDINAL_def)
  show ?thesis
  proof (cases basis)
    case Thirty360
    define dd2 where "dd2 = (if d2 = 31 \<and> min d1 30 = 30 then 30 else d2)"
    define n where "n = (y2 - y1) * 360 + (m2 - m1) * 30 + dd2 - min d1 30"
    have "0 \<le> n" unfolding n_def dd2_def using thirty_nonneg [OF 1(2) 2(2)] 1(3) 2(3) assms(3) by simp
    moreover have "n \<le> 10 ^ 7" using r by (auto simp: n_def dd2_def)
    moreover have "year_fraction a b basis = Ok (f64_of_int n / f64_of_int 360)"
      using Thirty360 1(1) 2(1) by (simp add: year_fraction_def Let_def n_def dd2_def)
    ultimately show ?thesis using small_quot [of n 360] by simp
  next
    case ActOver360
    then show ?thesis using small_quot [OF days, of 360] 1(1) 2(1) by (simp add: year_fraction_def Let_def)
  next
    case Act365
    then show ?thesis using small_quot [OF days, of 365] 1(1) 2(1) by (simp add: year_fraction_def Let_def)
  next
    case ActAct
    define D where "D = (\<lambda>y :: int. if leap_year y then 366 else 365 :: int)"
    have D: "360 \<le> D y" "D y \<le> 366" for y by (simp_all add: D_def)
    show ?thesis
    proof (cases "y1 = y2")
      case True
      then show ?thesis using ActAct small_quot [OF days D, of y1] 1(1) 2(1)
        by (simp add: year_fraction_def Let_def D_def)
    next
      case False
      define p q where "p = before_year (y1 + 1) + 1 - a" and "q = b - before_year y2 - 1"
      have "y1 < y2"
      proof (rule ccontr)
        assume "\<not> y1 < y2"
        with False have "month_index y2 m2 < month_index y1 m1" using r by (auto simp: month_index_def)
        from month_index_mono [OF 2(2) 1(2) this] assms(3) 1(3) 2(3) show False by simp
      qed
      have p: "0 \<le> p" "p \<le> 10 ^ 7" and q: "0 \<le> q" "q \<le> 10 ^ 7"
        using r before_year_dby [of "y1 + 1"] before_year_dby [of y2] 1(3) 2(3) day_in_year [OF 1(2)] day_in_year [OF 2(2)]
          dby_Suc [of y1] dby_Suc [of y2] dbm_13 [of y1] dbm_13 [of y2]
        by (auto simp: p_def q_def split: if_splits)
      have n: "\<bar>y2 - y1 - 1\<bar> \<le> 2 ^ 53" using r by simp
      define u v w where "u = f64_of_int p / f64_of_int (D y1)" and "v = f64_of_int q / f64_of_int (D y2)"
        and "w = f64_of_int (y2 - y1 - 1)"
      have "real_of_int (y2 - y1 - 1) \<le> of_int 9999" "0 \<le> real_of_int (y2 - y1 - 1)"
        using r \<open>y1 < y2\<close> by simp_all
      then have w: "is_finite w" "f64_ok w" "0 \<le> val w" "val w \<le> 9999" using int_val [OF n] by (simp_all add: w_def)
      note u = small_quot [OF p D, of y1, folded u_def] and v = small_quot [OF q D, of y2, folded v_def]
      have b: "(55556 :: real) \<in> dbl" "(55556 :: real) < huge" "(65555 :: real) \<in> dbl" "(65555 :: real) < huge"
        using small_nat_dbl [of 55556] small_nat_dbl [of 65555] by simp_all
      have uv: "is_finite (u + v)" "0 \<le> val (u + v)" "val (u + v) \<le> 55556" "f64_ok (u + v)"
        using add_nonneg [OF u(1) v(1) u(2) v(2) v(3) u(3) _ b(1,2)] u v by auto
      have "is_finite (u + v + w)" "0 \<le> val (u + v + w)"
        using add_nonneg [OF uv(1) w(1) uv(4) w(2,3) uv(2) _ b(3,4)] uv w by auto
      moreover have "year_fraction a b basis = Ok (u + v + w)"
        using ActAct False 1(1) 2(1)
        by (simp add: year_fraction_def Let_def u_def v_def w_def p_def q_def D_def)
      ultimately show ?thesis by blast
    qed
  qed
qed

lemma year_fraction_nonneg_witness:
  "\<exists>f. year_fraction 738886 738917 Thirty360 = Ok f \<and> 0 \<le> val f"
  using year_fraction_nonneg [of 738886 738917 Thirty360] by (auto simp: date_ok_def MAX_ORDINAL_def)

end
