(* ===== verification/Floating_Rate.thy ===== *)
theory Floating_Rate
  imports Accrual
begin

text \<open>
  Supplied-fixing coupon arithmetic: \<open>portfolio-model-core/src/conventions/floating_rate.rs\<close>.
  \<open>evaluate\<close> is split where the source changes phase: header and fixings, the structural
  check of every period, the coupon of a period, the result. \<open>f64::ln_1p\<close> and
  \<open>f64::exp_m1\<close>, whose results the Rust library leaves unspecified, are the parameters
  \<open>ln_1p\<close> and \<open>exp_m1\<close>. The loop over principal intervals would not end on intervals that do
  not cover the observation, so it is a \<open>partial_function\<close>: \<open>None\<close> is a call that never
  returns.
\<close>

section \<open>Data\<close>

definition MAX_PERIODS :: usize where "MAX_PERIODS = 4096"
definition MAX_INTERVALS :: usize where "MAX_INTERVALS = 250000"
definition MAX_FIXINGS :: usize where "MAX_FIXINGS = 250000"
definition MAX_PUBLICATION_TIMESTAMP :: i64 where "MAX_PUBLICATION_TIMESTAMP = 253402300799"

datatype Calculation = TermSimple | DailySimple | DailyCompounded | BalanceCompounded
datatype MarginTreatment = Simple | Compounded
datatype Direction = Receipt | Payment
datatype IndexKind = Term | Overnight | PublishedAverage

record IndexDescriptor =
  index_name :: string
  kind :: IndexKind
  tenor_months :: "int option"
  average_calendar_days :: "int option"

record RevisionIdentity =
  identity_id :: string
  identity_revision :: string

record SuppliedFixing =
  fixing_id :: string
  fixing_revision :: string
  fixing_index_id :: string
  value_ordinal :: i32
  publication_unix_seconds :: i64
  fixing_rate :: f64

record RateBounds =
  floor_rate :: "f64 option"
  cap_rate :: "f64 option"

record PrincipalInterval =
  principal_start :: i32
  principal_end :: i32
  amount :: f64

record ObservationInterval =
  interest_start :: i32
  interest_end :: i32
  observation_start :: i32
  observation_end :: i32
  fixing_ref :: string

record FloatingPeriod =
  period_id :: string
  period_start :: i32
  period_end :: i32
  payment_ordinal :: i32
  reset_cutoff_unix_seconds :: "i64 option"
  calculation :: Calculation
  margin_treatment :: MarginTreatment
  day_count :: ActualDayCount
  margin :: f64
  index_bounds :: RateBounds
  all_in_bounds :: RateBounds
  lookback_business_days :: int
  observation_shift :: bool
  principal :: "PrincipalInterval list"
  observations :: "ObservationInterval list"

record FloatingRateRequest =
  schema :: string
  position_id :: string
  currency :: string
  monetary_unit :: string
  direction :: Direction
  index :: IndexDescriptor
  reference_calendar :: RevisionIdentity
  fixing_snapshot :: RevisionIdentity
  publication_cutoff_unix_seconds :: i64
  complete_observation_coverage :: bool
  fixings :: "SuppliedFixing list"
  periods :: "FloatingPeriod list"

record PeriodCoupon =
  coupon_period_id :: string
  coupon_start :: i32
  coupon_end :: i32
  coupon_payment :: i32
  interest_amount :: f64
  effective_annual_rate :: "f64 option"
  fixing_references :: "RevisionIdentity list"

record FloatingRateResult =
  result_schema :: string
  result_position_id :: string
  result_currency :: string
  result_monetary_unit :: string
  result_direction :: Direction
  result_index :: IndexDescriptor
  result_calendar :: RevisionIdentity
  result_snapshot :: RevisionIdentity
  result_cutoff :: i64
  result_periods :: "PeriodCoupon list"
  calendar_mapping_verified :: bool

section \<open>Helpers\<close>

definition bounds_validate :: "RateBounds \<Rightarrow> (string, unit) result" where
  "bounds_validate b =
     require (\<not> ((case floor_rate b of Some lo \<Rightarrow> \<not> is_finite lo | None \<Rightarrow> False)
         \<or> (case cap_rate b of Some hi \<Rightarrow> \<not> is_finite hi | None \<Rightarrow> False)
         \<or> (case (floor_rate b, cap_rate b) of (Some lo, Some hi) \<Rightarrow> hi < lo | _ \<Rightarrow> False)))
       ''rate bounds must be finite and floor must not exceed cap'' (Ok ())"

definition bounds_apply :: "RateBounds \<Rightarrow> f64 \<Rightarrow> f64" where
  "bounds_apply b r =
     fmin (fmax r (case floor_rate b of Some lo \<Rightarrow> lo | None \<Rightarrow> Inf True))
          (case cap_rate b of Some hi \<Rightarrow> hi | None \<Rightarrow> Inf False)"

definition text_admit :: "string \<Rightarrow> usize \<Rightarrow> (string, usize) result" where
  "text_admit v bytes =
     require (\<not> (all_white v \<or> 1024 < length v \<or> has_control v))
       ''floating metadata must be nonempty, control-free and at most 1024 bytes''
     (and_then (ok_or (usize_checked_add bytes (length v)) ''floating metadata overflow'') (\<lambda>bytes.
      require (\<not> MAX_DATED_METADATA_BYTES < bytes) ''floating metadata exceeds 32 MiB admission''
        (Ok bytes)))"

definition interval :: "i32 \<Rightarrow> i32 \<Rightarrow> (string, unit) result" where
  "interval start finish =
     and_then (validate_ordinal start) (\<lambda>_.
     and_then (validate_ordinal finish) (\<lambda>_.
     require (\<not> (finish \<le> start \<or> MAX_HORIZON_DAYS < finish - start))
       ''floating intervals must be positive and at most 36600 days'' (Ok ())))"

definition admit_amount :: "f64 \<Rightarrow> (string, f64) result" where
  "admit_amount a =
     require (\<not> (\<not> is_finite a \<or> MAX_MONETARY_AMOUNT < fabs a))
       ''floating interest exceeds finite monetary admission'' (Ok a)"

section \<open>Admission of the header and the fixings\<close>

definition valid_index :: "IndexDescriptor \<Rightarrow> bool" where
  "valid_index i = (case kind i of
      Term \<Rightarrow> (case tenor_months i of Some t \<Rightarrow> 1 \<le> t \<and> t \<le> 1200 | None \<Rightarrow> False)
        \<and> average_calendar_days i = None
    | Overnight \<Rightarrow> tenor_months i = None \<and> average_calendar_days i = None
    | PublishedAverage \<Rightarrow>
        (case average_calendar_days i of Some t \<Rightarrow> 1 \<le> t \<and> t \<le> 36600 | None \<Rightarrow> False)
        \<and> tenor_months i = None)"

definition header_check :: "FloatingRateRequest \<Rightarrow> (string, usize) result" where
  "header_check req =
     require (\<not> (schema req \<noteq> ''floating-rate-1''
         \<or> \<not> complete_observation_coverage req
         \<or> monetary_unit req \<noteq> ''currency_units''
         \<or> length (currency req) \<noteq> 3
         \<or> \<not> list_all is_ascii_uppercase (currency req)
         \<or> periods req = []
         \<or> MAX_PERIODS < length (periods req)
         \<or> fixings req = []
         \<or> MAX_FIXINGS < length (fixings req)
         \<or> \<not> (0 \<le> publication_cutoff_unix_seconds req
               \<and> publication_cutoff_unix_seconds req \<le> MAX_PUBLICATION_TIMESTAMP)))
       ''invalid floating schema, unit, coverage, cutoff or admission''
     (and_then (fold_res (\<lambda>bytes v. text_admit v bytes) 0
          [position_id req, index_name (index req),
           identity_id (reference_calendar req), identity_revision (reference_calendar req),
           identity_id (fixing_snapshot req), identity_revision (fixing_snapshot req)]) (\<lambda>bytes.
      require (valid_index (index req))
        ''index kind requires an explicit compatible tenor or averaging window'' (Ok bytes)))"

definition cutoff_ordinal :: "FloatingRateRequest \<Rightarrow> i32" where
  "cutoff_ordinal req = 719163 + rdiv (publication_cutoff_unix_seconds req) 86400"

text \<open>One supplied fixing: the state is the metadata bytes and the \<open>HashMap\<close> of fixings.\<close>

definition admit_fixing ::
  "FloatingRateRequest \<Rightarrow> usize \<times> (string \<rightharpoonup> SuppliedFixing) \<Rightarrow> SuppliedFixing
     \<Rightarrow> (string, usize \<times> (string \<rightharpoonup> SuppliedFixing)) result" where
  "admit_fixing req st fixing =
     (let (bytes, known) = st in
      and_then (fold_res (\<lambda>bytes v. text_admit v bytes) bytes
          [fixing_id fixing, fixing_revision fixing, fixing_index_id fixing]) (\<lambda>bytes.
      and_then (validate_ordinal (value_ordinal fixing)) (\<lambda>_.
      require (\<not> (\<not> is_finite (fixing_rate fixing)
          \<or> fixing_index_id fixing \<noteq> index_name (index req)
          \<or> \<not> (0 \<le> publication_unix_seconds fixing
               \<and> publication_unix_seconds fixing \<le> publication_cutoff_unix_seconds req)
          \<or> cutoff_ordinal req < value_ordinal fixing
          \<or> 719163 + rdiv (publication_unix_seconds fixing) 86400 < value_ordinal fixing
          \<or> known (fixing_id fixing) \<noteq> None))
        ''invalid, unavailable or duplicate supplied fixing; no inferred fallback''
      (Ok (bytes, known (fixing_id fixing \<mapsto> fixing))))))"

section \<open>Admission of the periods\<close>

record admission =
  bytes :: usize
  interval_count :: usize
  ids :: "string set"
  prior_end :: "i32 option"

text \<open>The flags of a period and the calculation it asks for.\<close>

definition calculation_check :: "FloatingRateRequest \<Rightarrow> FloatingPeriod \<Rightarrow> (string, unit) result" where
  "calculation_check req period =
     (if calculation period = TermSimple then
        require (\<not> (kind (index req) = Overnight \<or> length (observations period) \<noteq> 1
            \<or> observation_shift period))
          ''term_simple requires one in-advance term/average fixing without shift''
        (and_then (ok_or (reset_cutoff_unix_seconds period) ''term_simple requires an exact reset cutoff'')
          (\<lambda>reset.
           require (\<not> (\<not> (0 \<le> reset \<and> reset \<le> publication_cutoff_unix_seconds req)
               \<or> period_start period < 719163 + rdiv reset 86400))
             ''term reset cutoff must precede period start and valuation cutoff'' (Ok ())))
      else if kind (index req) \<noteq> Overnight then
        Err ''daily calculations require an explicit overnight index''
      else if reset_cutoff_unix_seconds period \<noteq> None then
        Err ''overnight observations use publication availability, not a term reset cutoff''
      else Ok ())"

definition admit_principal :: "FloatingPeriod \<Rightarrow> i32 \<Rightarrow> PrincipalInterval \<Rightarrow> (string, i32) result" where
  "admit_principal period cursor p =
     and_then (interval (principal_start p) (principal_end p)) (\<lambda>_.
     require (\<not> (principal_start p \<noteq> cursor
         \<or> period_end period < principal_end p
         \<or> \<not> is_finite (amount p)
         \<or> \<not> (0 \<le> amount p \<and> amount p \<le> MAX_MONETARY_AMOUNT)))
       ''principal intervals must partition the period in finite currency units''
     (Ok (principal_end p)))"

definition admit_observation ::
  "(string \<rightharpoonup> SuppliedFixing) \<Rightarrow> FloatingPeriod \<Rightarrow> usize \<times> i32 \<times> i32 option \<Rightarrow> ObservationInterval
     \<Rightarrow> (string, usize \<times> i32 \<times> i32 option) result" where
  "admit_observation known period st obs =
     (let (bytes, cursor, observed_end) = st in
      and_then (text_admit (fixing_ref obs) bytes) (\<lambda>bytes.
      and_then (interval (interest_start obs) (interest_end obs)) (\<lambda>_.
      and_then (interval (observation_start obs) (observation_end obs)) (\<lambda>_.
      and_then (ok_or (known (fixing_ref obs)) ''missing supplied fixing'') (\<lambda>fixing.
      let msg = ''observation intervals must partition interest dates with compatible supplied fixing dates'' in
      require (\<not> (interest_start obs \<noteq> cursor
          \<or> period_end period < interest_end obs
          \<or> interest_start obs < observation_start obs
          \<or> interest_start obs < value_ordinal fixing)) msg
      (and_then (if calculation period = TermSimple
          then and_then (unwrap (reset_cutoff_unix_seconds period)) (\<lambda>reset.
            Ok (reset < publication_unix_seconds fixing))
          else Ok (value_ordinal fixing \<noteq> observation_start obs)) (\<lambda>incompatible.
       require (\<not> (incompatible
           \<or> (observation_shift period
              \<and> (case observed_end of Some e \<Rightarrow> e \<noteq> observation_start obs | None \<Rightarrow> False)))) msg
         (Ok (bytes, interest_end obs, Some (observation_end obs))))))))))"

definition admit_period ::
  "FloatingRateRequest \<Rightarrow> (string \<rightharpoonup> SuppliedFixing) \<Rightarrow> admission \<Rightarrow> FloatingPeriod
     \<Rightarrow> (string, admission) result" where
  "admit_period req known st period =
     and_then (text_admit (period_id period) (bytes st)) (\<lambda>bytes'.
     and_then (interval (period_start period) (period_end period)) (\<lambda>_.
     and_then (validate_ordinal (payment_ordinal period)) (\<lambda>_.
     require (\<not> (period_id period \<in> ids st
         \<or> (case prior_end st of Some e \<Rightarrow> period_start period < e | None \<Rightarrow> False)
         \<or> MAX_HORIZON_DAYS < \<bar>payment_ordinal period - period_start period\<bar>
         \<or> \<not> is_finite (margin period)
         \<or> 366 < lookback_business_days period
         \<or> principal period = []
         \<or> observations period = []
         \<or> calculation period = BalanceCompounded
         \<or> (calculation period \<noteq> DailyCompounded \<and> margin_treatment period \<noteq> Simple)))
       ''invalid floating period or unsupported compounding convention''
     (and_then (ok_or
        (case usize_checked_add (interval_count st) (length (principal period)) of
           Some n \<Rightarrow> usize_checked_add n (length (observations period)) | None \<Rightarrow> None)
        ''floating interval work overflow'') (\<lambda>count.
     require (\<not> MAX_INTERVALS < count) ''floating intervals exceed 250000 work admission''
     (and_then (bounds_validate (index_bounds period)) (\<lambda>_.
     and_then (bounds_validate (all_in_bounds period)) (\<lambda>_.
     let constant = list_all (\<lambda>p. feq (amount p) (amount (hd (principal period)))) (principal period) in
     require (\<not> (\<not> constant \<and> (calculation period = DailyCompounded \<or> observation_shift period)))
       ''rate compounding or observation shift requires constant period principal''
     (and_then (calculation_check req period) (\<lambda>_.
     and_then (fold_res (admit_principal period) (period_start period) (principal period)) (\<lambda>cursor.
     require (cursor = period_end period) ''principal intervals do not cover the interest period''
     (and_then (fold_res (admit_observation known period) (bytes', period_start period, None)
         (observations period)) (\<lambda>(bytes'', cursor, _).
     require (cursor = period_end period) ''observation intervals do not cover the interest period''
     (Ok \<lparr> bytes = bytes'', interval_count = count, ids = insert (period_id period) (ids st),
           prior_end = Some (period_end period) \<rparr>))))))))))))))"

section \<open>The coupon of a period\<close>

text \<open>A call that may not return: \<open>None\<close> is divergence, and it is contagious.\<close>

type_synonym 'a run = "(string, 'a) result option"

definition bind_run :: "'a run \<Rightarrow> ('a \<Rightarrow> 'b run) \<Rightarrow> 'b run" where
  "bind_run m k = (case m of
      None \<Rightarrow> None
    | Some (Ok x) \<Rightarrow> k x
    | Some (Err e) \<Rightarrow> Some (Err e)
    | Some Panic \<Rightarrow> Some Panic)"

fun fold_run :: "('s \<Rightarrow> 'a \<Rightarrow> 's run) \<Rightarrow> 's \<Rightarrow> 'a list \<Rightarrow> 's run" where
  "fold_run f s [] = Some (Ok s)"
| "fold_run f s (x # xs) = bind_run (f s x) (\<lambda>s'. fold_run f s' xs)"

text \<open>One pass of the loop over principal intervals, and the loop.\<close>

definition principal_pass ::
  "FloatingPeriod \<Rightarrow> f64 \<Rightarrow> i32 \<Rightarrow> i32 \<Rightarrow> nat \<Rightarrow> f64 \<Rightarrow> (string, i32 \<times> nat \<times> f64) result" where
  "principal_pass period all_in finish cursor i tot =
     (if i < length (principal period) then
        let p = principal period ! i; e = min (principal_end p) finish in
        and_then (actual_year_fraction cursor e (day_count period)) (\<lambda>elapsed.
        and_then (admit_amount (tot + amount p * all_in * elapsed)) (\<lambda>tot.
          Ok (e, if e = principal_end p \<and> i + 1 < length (principal period) then i + 1 else i, tot)))
      else Panic)"

partial_function (option) principal_loop ::
  "FloatingPeriod \<Rightarrow> f64 \<Rightarrow> i32 \<Rightarrow> i32 \<Rightarrow> nat \<Rightarrow> f64 \<Rightarrow> (nat \<times> f64) run" where
  "principal_loop period all_in finish cursor i tot =
     (if cursor < finish then
        case principal_pass period all_in finish cursor i tot of
          Ok (cursor', i', tot') \<Rightarrow> principal_loop period all_in finish cursor' i' tot'
        | Err e \<Rightarrow> Some (Err e)
        | Panic \<Rightarrow> Some Panic
      else Some (Ok (i, tot)))"

record accrual =
  interest :: f64
  log_factor :: f64
  simple_margin_tau :: f64
  principal_index :: nat
  references :: "RevisionIdentity list"

definition all_in_rate :: "FloatingPeriod \<Rightarrow> SuppliedFixing \<Rightarrow> (string, f64) result" where
  "all_in_rate period fixing =
     (let index_rate = bounds_apply (index_bounds period) (fixing_rate fixing);
          raw_all_in = index_rate + margin period
      in require (is_finite raw_all_in) ''floating annual rate overflow''
           (Ok (bounds_apply (all_in_bounds period) raw_all_in)))"

text \<open>The three ways an observation contributes to the coupon.\<close>

definition compound_step ::
  "(f64 \<Rightarrow> f64) \<Rightarrow> FloatingPeriod \<Rightarrow> ObservationInterval \<Rightarrow> f64 \<Rightarrow> f64 \<Rightarrow> accrual
     \<Rightarrow> (string, accrual) result" where
  "compound_step ln_1p period obs all_in tau st =
     (let compound_rate = (if margin_treatment period = Compounded then all_in else all_in - margin period);
          increment = compound_rate * tau
      in require (\<not> (\<not> is_finite increment \<or> increment \<le> - 1))
           ''floating compound interval requires a positive finite factor''
         (let st = st \<lparr> log_factor := log_factor st + ln_1p increment \<rparr> in
          if margin_treatment period = Simple then
            and_then (actual_year_fraction (interest_start obs) (interest_end obs) (day_count period))
              (\<lambda>t. Ok (st \<lparr> simple_margin_tau := simple_margin_tau st + t \<rparr>))
          else Ok st))"

text \<open>\<open>period.principal[0].amount\<close>\<close>

definition first_amount :: "FloatingPeriod \<Rightarrow> (string, f64) result" where
  "first_amount period = (case principal period of [] \<Rightarrow> Panic | p # _ \<Rightarrow> Ok (amount p))"

definition shifted_step ::
  "FloatingPeriod \<Rightarrow> ObservationInterval \<Rightarrow> f64 \<Rightarrow> f64 \<Rightarrow> accrual \<Rightarrow> (string, accrual) result" where
  "shifted_step period obs all_in tau st =
     and_then (actual_year_fraction (interest_start obs) (interest_end obs) (day_count period)) (\<lambda>interest_tau.
     and_then (first_amount period) (\<lambda>first.
     and_then (admit_amount (interest st
        + first * ((all_in - margin period) * tau + margin period * interest_tau)))
       (\<lambda>a. Ok (st \<lparr> interest := a \<rparr>))))"

definition observe ::
  "(f64 \<Rightarrow> f64) \<Rightarrow> (string \<rightharpoonup> SuppliedFixing) \<Rightarrow> FloatingPeriod \<Rightarrow> accrual \<Rightarrow> ObservationInterval
     \<Rightarrow> accrual run" where
  "observe ln_1p known period st obs =
     bind_run (Some (unwrap (known (fixing_ref obs)))) (\<lambda>fixing.
     let st = st \<lparr> references := references st
            @ [\<lparr> identity_id = fixing_id fixing, identity_revision = fixing_revision fixing \<rparr>] \<rparr> in
     bind_run (Some (all_in_rate period fixing)) (\<lambda>all_in.
     let (weight_start, weight_end) =
           (if observation_shift period then (observation_start obs, observation_end obs)
            else (interest_start obs, interest_end obs)) in
     bind_run (Some (actual_year_fraction weight_start weight_end (day_count period))) (\<lambda>tau.
     if calculation period = DailyCompounded then Some (compound_step ln_1p period obs all_in tau st)
     else if observation_shift period then Some (shifted_step period obs all_in tau st)
     else bind_run (principal_loop period all_in (interest_end obs) (interest_start obs)
              (principal_index st) (interest st))
            (\<lambda>(i, tot). Some (Ok (st \<lparr> principal_index := i, interest := tot \<rparr>))))))"

definition weigh_principal :: "FloatingPeriod \<Rightarrow> f64 \<Rightarrow> PrincipalInterval \<Rightarrow> (string, f64) result" where
  "weigh_principal period acc p =
     and_then (actual_year_fraction (principal_start p) (principal_end p) (day_count period)) (\<lambda>t.
       Ok (acc + amount p * t))"

definition finish_period ::
  "(f64 \<Rightarrow> f64) \<Rightarrow> Direction \<Rightarrow> FloatingPeriod \<Rightarrow> accrual \<Rightarrow> (string, PeriodCoupon) result" where
  "finish_period exp_m1 dir period st =
     and_then (if calculation period = DailyCompounded
       then and_then (first_amount period) (\<lambda>first.
         admit_amount (first * (exp_m1 (log_factor st) + margin period * simple_margin_tau st)))
       else Ok (interest st)) (\<lambda>tot.
     and_then (fold_res (weigh_principal period) 0 (principal period)) (\<lambda>weighted.
     and_then (if 0 < weighted then
          let v = tot / weighted in
          require (is_finite v) ''floating effective annual rate overflow'' (Ok (Some v))
        else Ok None) (\<lambda>effective.
       Ok \<lparr> coupon_period_id = period_id period, coupon_start = period_start period,
            coupon_end = period_end period, coupon_payment = payment_ordinal period,
            interest_amount = (if dir = Payment then - tot else tot),
            effective_annual_rate = effective, fixing_references = references st \<rparr>)))"

definition period_coupon ::
  "(f64 \<Rightarrow> f64) \<Rightarrow> (f64 \<Rightarrow> f64) \<Rightarrow> Direction \<Rightarrow> (string \<rightharpoonup> SuppliedFixing) \<Rightarrow> FloatingPeriod
     \<Rightarrow> PeriodCoupon run" where
  "period_coupon ln_1p exp_m1 dir known period =
     bind_run (fold_run (observe ln_1p known period)
        \<lparr> interest = 0, log_factor = 0, simple_margin_tau = 0, principal_index = 0, references = [] \<rparr>
        (observations period)) (\<lambda>st. Some (finish_period exp_m1 dir period st))"

definition admit_request :: "FloatingRateRequest \<Rightarrow> (string, string \<rightharpoonup> SuppliedFixing) result" where
  "admit_request req =
     and_then (header_check req) (\<lambda>bytes.
     and_then (fold_res (admit_fixing req) (bytes, Map.empty) (fixings req)) (\<lambda>(bytes, known).
     and_then (fold_res (admit_period req known)
         \<lparr> bytes = bytes, interval_count = 0, ids = {}, prior_end = None \<rparr> (periods req)) (\<lambda>_.
       Ok known)))"

definition evaluate ::
  "(f64 \<Rightarrow> f64) \<Rightarrow> (f64 \<Rightarrow> f64) \<Rightarrow> FloatingRateRequest \<Rightarrow> FloatingRateResult run" where
  "evaluate ln_1p exp_m1 req =
     bind_run (Some (admit_request req)) (\<lambda>known.
     bind_run (fold_run (\<lambda>out period.
         bind_run (period_coupon ln_1p exp_m1 (direction req) known period) (\<lambda>c. Some (Ok (out @ [c]))))
       [] (periods req)) (\<lambda>out.
     Some (Ok \<lparr> result_schema = ''floating-rate-1'', result_position_id = position_id req,
       result_currency = currency req, result_monetary_unit = monetary_unit req,
       result_direction = direction req, result_index = index req,
       result_calendar = reference_calendar req, result_snapshot = fixing_snapshot req,
       result_cutoff = publication_cutoff_unix_seconds req, result_periods = out,
       calendar_mapping_verified = False \<rparr>)))"

section \<open>What admission establishes\<close>

lemma text_admit_no_Panic [simp]: "text_admit v b \<noteq> Panic"
  by (simp add: text_admit_def)

lemma interval_Ok [simp]:
  "interval a b = Ok () \<longleftrightarrow> 1 \<le> a \<and> a < b \<and> b \<le> MAX_ORDINAL \<and> b - a \<le> MAX_HORIZON_DAYS"
  by (auto simp: interval_def)

lemma interval_no_Panic [simp]: "interval a b \<noteq> Panic"
  by (simp add: interval_def)

lemma bounds_validate_no_Panic [simp]: "bounds_validate b \<noteq> Panic"
  by (simp add: bounds_validate_def)

lemma admit_amount_no_Panic [simp]: "admit_amount a \<noteq> Panic"
  by (simp add: admit_amount_def)

lemma header_check_no_Panic [simp]: "header_check req \<noteq> Panic"
  by (simp add: header_check_def)

lemma admit_fixing_no_Panic [simp]: "admit_fixing req st f \<noteq> Panic"
  by (simp add: admit_fixing_def split: prod.split)

lemma calculation_check_no_Panic [simp]: "calculation_check req p \<noteq> Panic"
  by (simp add: calculation_check_def)

lemma admit_principal_no_Panic [simp]: "admit_principal p c x \<noteq> Panic"
  by (simp add: admit_principal_def)

lemma calculation_check_reset:
  "calculation_check req p = Ok () \<Longrightarrow> calculation p = TermSimple \<Longrightarrow> reset_cutoff_unix_seconds p \<noteq> None"
  by (auto simp: calculation_check_def)

lemma admit_observation_no_Panic:
  "(calculation p = TermSimple \<longrightarrow> reset_cutoff_unix_seconds p \<noteq> None) \<Longrightarrow>
    admit_observation known p st obs \<noteq> Panic"
  by (auto simp: admit_observation_def Let_def split: prod.split)

lemma admit_period_no_Panic [simp]: "admit_period req known st p \<noteq> Panic"
proof -
  have "fold_res (admit_principal p) c xs \<noteq> Panic" for c xs
    by (rule fold_res_no_Panic [where I = "\<lambda>_. True"]) simp_all
  moreover have "fold_res (admit_observation known p) s xs \<noteq> Panic" if "calculation_check req p = Ok ()" for s xs
    by (rule fold_res_no_Panic [where I = "\<lambda>_. True"])
      (use admit_observation_no_Panic calculation_check_reset [OF that] in simp_all)
  ultimately show ?thesis by (auto simp: admit_period_def Let_def split: prod.splits)
qed

lemma admit_request_no_Panic: "admit_request req \<noteq> Panic"
proof -
  have "fold_res (admit_fixing req) s xs \<noteq> Panic" for s xs
    by (rule fold_res_no_Panic [where I = "\<lambda>_. True"]) simp_all
  moreover have "fold_res (admit_period req known) s xs \<noteq> Panic" for s xs known
    by (rule fold_res_no_Panic [where I = "\<lambda>_. True"]) simp_all
  ultimately show ?thesis by (auto simp: admit_request_def split: prod.splits)
qed

definition principal_ok :: "FloatingPeriod \<Rightarrow> bool" where
  "principal_ok p \<longleftrightarrow> covers principal_start principal_end (period_start p) (period_end p) (principal p)
     \<and> (\<forall>x \<in> set (principal p). is_finite (amount x) \<and> 0 \<le> amount x \<and> amount x \<le> MAX_MONETARY_AMOUNT)"

definition observations_ok :: "(string \<rightharpoonup> SuppliedFixing) \<Rightarrow> FloatingPeriod \<Rightarrow> bool" where
  "observations_ok known p \<longleftrightarrow>
     covers interest_start interest_end (period_start p) (period_end p) (observations p)
     \<and> (\<forall>x \<in> set (observations p). \<exists>f. known (fixing_ref x) = Some f \<and> value_ordinal f \<le> interest_start x
          \<and> 1 \<le> observation_start x \<and> observation_start x < observation_end x
          \<and> observation_end x \<le> MAX_ORDINAL
          \<and> (calculation p = TermSimple \<longrightarrow>
               (\<exists>r. reset_cutoff_unix_seconds p = Some r \<and> publication_unix_seconds f \<le> r))
          \<and> (calculation p \<noteq> TermSimple \<longrightarrow> value_ordinal f = observation_start x))"

lemma covers_bound: "covers s e a c is \<Longrightarrow> x \<in> set is \<Longrightarrow> a \<le> s x \<and> s x < e x \<and> e x \<le> c"
proof (induction "is" arbitrary: a)
  case (Cons i rest)
  then have i: "s i = a" "a < e i" "e i \<le> c" "covers s e (e i) c rest" by auto
  show ?case
  proof (cases "x = i")
    case False
    with Cons.prems(2) have "x \<in> set rest" by simp
    from Cons.IH [OF i(4) this] i(2) show ?thesis by simp
  qed (use i in simp)
qed simp

lemma admit_principals:
  "fold_res (admit_principal p) c xs = Ok c' \<Longrightarrow>
    covers principal_start principal_end c c' xs
    \<and> (\<forall>x \<in> set xs. is_finite (amount x) \<and> 0 \<le> amount x \<and> amount x \<le> MAX_MONETARY_AMOUNT)"
proof (induction xs arbitrary: c)
  case (Cons x xs)
  from Cons.prems obtain c1 where c1: "admit_principal p c x = Ok c1"
    and rest: "fold_res (admit_principal p) c1 xs = Ok c'" by auto
  from c1 have x: "principal_start x = c" "c < principal_end x" "is_finite (amount x)" "0 \<le> amount x"
    "amount x \<le> MAX_MONETARY_AMOUNT" "c1 = principal_end x"
    by (auto simp: admit_principal_def simp del: le_val)
  from Cons.IH [OF rest] x show ?case by (auto dest: covers_le simp del: le_val)
qed simp

lemma admit_observations:
  assumes "calculation p = TermSimple \<longrightarrow> reset_cutoff_unix_seconds p \<noteq> None"
  shows "fold_res (admit_observation known p) (b, c, o') xs = Ok (b', c', o'') \<Longrightarrow>
    covers interest_start interest_end c c' xs
     \<and> (\<forall>x \<in> set xs. \<exists>f. known (fixing_ref x) = Some f \<and> value_ordinal f \<le> interest_start x
          \<and> 1 \<le> observation_start x \<and> observation_start x < observation_end x
          \<and> observation_end x \<le> MAX_ORDINAL
          \<and> (calculation p = TermSimple \<longrightarrow>
               (\<exists>r. reset_cutoff_unix_seconds p = Some r \<and> publication_unix_seconds f \<le> r))
          \<and> (calculation p \<noteq> TermSimple \<longrightarrow> value_ordinal f = observation_start x))"
proof (induction xs arbitrary: b c o')
  case (Cons x xs)
  from Cons.prems obtain s where s: "admit_observation known p (b, c, o') x = Ok s"
    and rest: "fold_res (admit_observation known p) s xs = Ok (b', c', o'')" by auto
  from s obtain f b1 where f: "known (fixing_ref x) = Some f" "interest_start x = c" "c < interest_end x"
    "value_ordinal f \<le> interest_start x" "1 \<le> observation_start x" "observation_start x < observation_end x"
    "observation_end x \<le> MAX_ORDINAL" "s = (b1, interest_end x, Some (observation_end x))"
    and g: "if calculation p = TermSimple
       then \<exists>r. reset_cutoff_unix_seconds p = Some r \<and> publication_unix_seconds f \<le> r
       else value_ordinal f = observation_start x"
    by (auto simp: admit_observation_def Let_def split: if_splits)
  from Cons.IH [OF rest [unfolded f(8)]] f g show ?case by (auto dest: covers_le)
qed simp

lemma admit_period_Ok:
  assumes "admit_period req known st p = Ok st'"
  shows "principal_ok p" "observations_ok known p" "period_id p \<notin> ids st"
    "ids st' = insert (period_id p) (ids st)" "prior_end st' = Some (period_end p)"
    "\<forall>e. prior_end st = Some e \<longrightarrow> e \<le> period_start p" "period_start p < period_end p"
    "1 \<le> period_start p" "period_end p \<le> MAX_ORDINAL" "principal p \<noteq> []"
    "bounds_validate (index_bounds p) = Ok ()" "bounds_validate (all_in_bounds p) = Ok ()"
proof -
  from assms obtain b1 b2 c o' where cc: "calculation_check req p = Ok ()"
    and pr: "fold_res (admit_principal p) (period_start p) (principal p) = Ok (period_end p)"
    and ob: "fold_res (admit_observation known p) (b1, period_start p, None) (observations p)
        = Ok (b2, period_end p, o')"
    and st': "st' = \<lparr> bytes = b2, interval_count = c, ids = insert (period_id p) (ids st),
           prior_end = Some (period_end p) \<rparr>"
    and rest: "period_id p \<notin> ids st" "\<forall>e. prior_end st = Some e \<longrightarrow> e \<le> period_start p"
      "period_start p < period_end p" "1 \<le> period_start p" "period_end p \<le> MAX_ORDINAL" "principal p \<noteq> []"
      "bounds_validate (index_bounds p) = Ok ()" "bounds_validate (all_in_bounds p) = Ok ()"
    by (auto simp: admit_period_def Let_def split: option.splits)
  show "principal_ok p" using admit_principals [OF pr] unfolding principal_ok_def .
  show "observations_ok known p"
    using admit_observations [OF _ ob] calculation_check_reset [OF cc] by (simp add: observations_ok_def)
  show "period_id p \<notin> ids st" "ids st' = insert (period_id p) (ids st)" "prior_end st' = Some (period_end p)"
    "\<forall>e. prior_end st = Some e \<longrightarrow> e \<le> period_start p" "period_start p < period_end p"
    "1 \<le> period_start p" "period_end p \<le> MAX_ORDINAL" "principal p \<noteq> []"
    "bounds_validate (index_bounds p) = Ok ()" "bounds_validate (all_in_bounds p) = Ok ()"
    using rest st' by simp_all
qed

definition period_admitted :: "(string \<rightharpoonup> SuppliedFixing) \<Rightarrow> FloatingPeriod \<Rightarrow> bool" where
  "period_admitted known p \<longleftrightarrow> principal_ok p \<and> observations_ok known p \<and> principal p \<noteq> []
     \<and> 1 \<le> period_start p \<and> period_start p < period_end p \<and> period_end p \<le> MAX_ORDINAL
     \<and> bounds_validate (index_bounds p) = Ok () \<and> bounds_validate (all_in_bounds p) = Ok ()"

lemma admit_periods:
  assumes "fold_res (admit_period req known) st ps = Ok st'"
  shows "(\<forall>p \<in> set ps. period_admitted known p) \<and> distinct (map period_id ps)
    \<and> ids st \<inter> period_id ` set ps = {}
    \<and> (\<forall>e p. prior_end st = Some e \<longrightarrow> p \<in> set ps \<longrightarrow> e \<le> period_start p)
    \<and> sorted_wrt (\<lambda>p q. period_end p \<le> period_start q) ps"
  using assms
proof (induction ps arbitrary: st)
  case (Cons p ps)
  from Cons.prems obtain st1 where a: "admit_period req known st p = Ok st1"
    and rest: "fold_res (admit_period req known) st1 ps = Ok st'" by auto
  note ok = admit_period_Ok [OF a]
  note IH = Cons.IH [OF rest]
  have "period_admitted known p" using ok by (simp add: period_admitted_def)
  moreover have "period_end p \<le> period_start q" if "q \<in> set ps" for q using IH ok(5) that by blast
  moreover have "e \<le> period_start q" if "prior_end st = Some e" "q \<in> set ps" for e q
    using calculation(2) [OF that(2)] ok(6,7) that(1) by fastforce
  moreover have "period_id p \<notin> period_id ` set ps" "ids st \<inter> period_id ` set ps = {}"
    using IH ok(4) by auto
  ultimately show ?case using IH ok(3,6) by auto
qed simp

lemma admit_request_Ok:
  assumes "admit_request req = Ok known"
  shows "\<forall>p \<in> set (periods req). period_admitted known p" "distinct (map period_id (periods req))"
    "sorted_wrt (\<lambda>p q. period_end p \<le> period_start q) (periods req)"
proof -
  from assms obtain b st' where "fold_res (admit_period req known)
         \<lparr> bytes = b, interval_count = 0, ids = {}, prior_end = None \<rparr> (periods req) = Ok st'"
    by (auto simp: admit_request_def)
  from admit_periods [OF this]
  show "\<forall>p \<in> set (periods req). period_admitted known p" "distinct (map period_id (periods req))"
    "sorted_wrt (\<lambda>p q. period_end p \<le> period_start q) (periods req)" by simp_all
qed

section \<open>Every admitted call returns\<close>

text \<open>A call that returns, without a panic, and with \<open>P\<close> of its result when it succeeds.\<close>

definition returns :: "'a run \<Rightarrow> ('a \<Rightarrow> bool) \<Rightarrow> bool" where
  "returns m P \<longleftrightarrow> (\<exists>r. m = Some r \<and> r \<noteq> Panic \<and> (\<forall>x. r = Ok x \<longrightarrow> P x))"

lemma bind_run_simps [simp]:
  "bind_run (Some (Ok x)) k = k x" "bind_run (Some (Err e)) k = Some (Err e)"
  "bind_run (Some Panic) k = Some Panic" "bind_run None k = None"
  by (simp_all add: bind_run_def)

lemma returns_bind:
  "returns m P \<Longrightarrow> (\<And>x. P x \<Longrightarrow> returns (k x) Q) \<Longrightarrow> returns (bind_run m k) Q"
  by (auto simp: returns_def bind_run_def split: result.splits)

lemma returns_Some: "r \<noteq> Panic \<Longrightarrow> (\<And>x. r = Ok x \<Longrightarrow> P x) \<Longrightarrow> returns (Some r) P"
  by (simp add: returns_def)

lemma returns_mono: "returns m P \<Longrightarrow> (\<And>x. P x \<Longrightarrow> Q x) \<Longrightarrow> returns m Q"
  by (auto simp: returns_def)

lemma returns_fold:
  assumes "I s" "\<And>s x. x \<in> set xs \<Longrightarrow> I s \<Longrightarrow> returns (f s x) I"
  shows "returns (fold_run f s xs) I"
  using assms
proof (induction xs arbitrary: s)
  case Nil
  then show ?case by (simp add: returns_def)
next
  case (Cons x xs)
  have "returns (f s x) I" using Cons.prems by simp
  then show ?case using Cons.prems(2) by (auto intro!: returns_bind [where P = I] Cons.IH)
qed

lemma fraction_total: "1 \<le> a \<Longrightarrow> a \<le> b \<Longrightarrow> b \<le> MAX_ORDINAL \<Longrightarrow> \<exists>r. actual_year_fraction a b dc = Ok r"
  using isda_total [of a b] by (cases dc) (auto simp: actual_year_fraction_def require_def validate_ordinal_def)

definition admitted :: "f64 \<Rightarrow> bool" where
  "admitted a \<longleftrightarrow> is_finite a \<and> \<not> MAX_MONETARY_AMOUNT < fabs a"

lemma admit_amount_Ok [simp]: "admit_amount a = Ok b \<longleftrightarrow> b = a \<and> admitted a"
  by (auto simp: admit_amount_def admitted_def)

text \<open>The principal interval \<open>i\<close> is the one that holds \<open>c\<close>, or the last one at its end.\<close>

definition at_principal :: "FloatingPeriod \<Rightarrow> nat \<Rightarrow> i32 \<Rightarrow> bool" where
  "at_principal p i c \<longleftrightarrow> i < length (principal p) \<and> principal_start (principal p ! i) \<le> c
     \<and> (c < principal_end (principal p ! i) \<or> (i + 1 = length (principal p) \<and> c = period_end p))"

lemma covers_nth:
  "covers s e a b is \<Longrightarrow> i < length is \<Longrightarrow> s (is ! i) < e (is ! i)
    \<and> (if i + 1 < length is then s (is ! (i + 1)) = e (is ! i) else e (is ! i) = b)"
proof (induction "is" arbitrary: a i)
  case (Cons j js)
  show ?case
  proof (cases i)
    case 0
    with Cons.prems show ?thesis by (cases js) auto
  next
    case (Suc k)
    with Cons.prems Cons.IH [of "e j" k] show ?thesis by auto
  qed
qed simp

lemma principal_pass_step:
  assumes "period_admitted known p" "at_principal p i c" "c < finish" "finish \<le> period_end p"
  shows "principal_pass p all_in finish c i t \<noteq> Panic"
    and "principal_pass p all_in finish c i t = Ok (c', i', t') \<Longrightarrow>
      c < c' \<and> c' \<le> finish \<and> at_principal p i' c' \<and> admitted t'"
proof -
  have cov: "covers principal_start principal_end (period_start p) (period_end p) (principal p)"
    and r: "1 \<le> period_start p" "period_end p \<le> MAX_ORDINAL"
    using assms(1) by (auto simp: period_admitted_def principal_ok_def)
  let ?x = "principal p ! i"
  have i: "i < length (principal p)" "principal_start ?x \<le> c" "c < principal_end ?x"
    using assms(2,3,4) by (auto simp: at_principal_def)
  have mem: "?x \<in> set (principal p)" using i(1) by simp
  have b: "period_start p \<le> principal_start ?x" "principal_end ?x \<le> period_end p"
    using covers_bound [OF cov mem] by simp_all
  note n = covers_nth [OF cov i(1)]
  have le: "min (principal_end ?x) finish \<le> MAX_ORDINAL"
    using b(2) r(2) by (meson min.cobounded1 order_trans)
  obtain e where e: "actual_year_fraction c (min (principal_end ?x) finish) (day_count p) = Ok e"
    using fraction_total [of c "min (principal_end ?x) finish" "day_count p"] i b r assms(3) le by auto
  show "principal_pass p all_in finish c i t \<noteq> Panic" using i(1) e by (auto simp: principal_pass_def Let_def)
  assume "principal_pass p all_in finish c i t = Ok (c', i', t')"
  then have c': "c' = min (principal_end ?x) finish" "admitted t'"
    "i' = (if c' = principal_end ?x \<and> i + 1 < length (principal p) then i + 1 else i)"
    using i(1) e by (auto simp: principal_pass_def Let_def)
  have "at_principal p i' c'"
  proof (cases "c' = principal_end ?x \<and> i + 1 < length (principal p)")
    case True
    with c'(3) have i': "i' = i + 1" by simp
    from True n have "principal_start (principal p ! i') = c'" unfolding i' by simp
    moreover have "principal_start (principal p ! i') < principal_end (principal p ! i')"
      using covers_nth [OF cov, of i'] True i' by simp
    ultimately show ?thesis using True i' by (simp add: at_principal_def)
  next
    case False
    then have i': "i' = i" using c'(3) by (metis (no_types))
    show ?thesis
    proof (cases "principal_end ?x \<le> finish")
      case True
      then have "c' = principal_end ?x" using c'(1) by simp
      moreover from this have "i + 1 = length (principal p)" using False i(1) by simp
      ultimately show ?thesis using n i i' by (simp add: at_principal_def)
    next
      case False
      then have "c' = finish" using c'(1) by simp
      then show ?thesis using False i i' assms(3) by (simp add: at_principal_def)
    qed
  qed
  with c' i assms(3) show "c < c' \<and> c' \<le> finish \<and> at_principal p i' c' \<and> admitted t'" by auto
qed

lemma principal_loop_returns:
  assumes "period_admitted known p" "at_principal p i c" "c \<le> finish" "finish \<le> period_end p" "admitted t"
  shows "returns (principal_loop p all_in finish c i t) (\<lambda>(i', t'). at_principal p i' finish \<and> admitted t')"
  using assms
proof (induction "nat (finish - c)" arbitrary: c i t rule: less_induct)
  case less
  show ?case
  proof (cases "c < finish")
    case False
    with less.prems show ?thesis by (subst principal_loop.simps) (simp add: returns_def)
  next
    case True
    note st = principal_pass_step [OF less.prems(1,2) True less.prems(4), of all_in t]
    show ?thesis
    proof (cases "principal_pass p all_in finish c i t")
      case (Ok x)
      obtain c' i' t' where x: "x = (c', i', t')" by (cases x)
      have "returns (principal_loop p all_in finish c' i' t')
          (\<lambda>(i', t'). at_principal p i' finish \<and> admitted t')"
        using st(2) [OF Ok [unfolded x]] less.prems True by (intro less.hyps) auto
      then show ?thesis using True Ok x by (subst principal_loop.simps) simp
    next
      case (Err e)
      then show ?thesis using True by (subst principal_loop.simps) (simp add: returns_def)
    next
      case Panic
      with st(1) show ?thesis by simp
    qed
  qed
qed

definition refer :: "(string \<rightharpoonup> SuppliedFixing) \<Rightarrow> ObservationInterval \<Rightarrow> RevisionIdentity" where
  "refer known obs = (case known (fixing_ref obs) of
      Some f \<Rightarrow> \<lparr> identity_id = fixing_id f, identity_revision = fixing_revision f \<rparr>
    | None \<Rightarrow> \<lparr> identity_id = [], identity_revision = [] \<rparr>)"

definition in_step :: "FloatingPeriod \<Rightarrow> accrual \<Rightarrow> i32 \<Rightarrow> bool" where
  "in_step p st c \<longleftrightarrow> admitted (interest st)
     \<and> (calculation p = DailyCompounded \<or> observation_shift p \<or> at_principal p (principal_index st) c)"

lemma all_in_rate_no_Panic [simp]: "all_in_rate p f \<noteq> Panic"
  by (simp add: all_in_rate_def Let_def)

lemma observe_returns:
  assumes "period_admitted known p" "obs \<in> set (observations p)" "in_step p st (interest_start obs)"
  shows "returns (observe ln_1p known p st obs) (\<lambda>st'. in_step p st' (interest_end obs)
    \<and> references st' = references st @ [refer known obs])"
proof -
  have cov: "covers interest_start interest_end (period_start p) (period_end p) (observations p)"
    and r: "1 \<le> period_start p" "period_end p \<le> MAX_ORDINAL" and ne: "principal p \<noteq> []"
    using assms(1) by (auto simp: period_admitted_def observations_ok_def)
  from assms(1,2) obtain f where f: "known (fixing_ref obs) = Some f"
    "1 \<le> observation_start obs" "observation_start obs < observation_end obs" "observation_end obs \<le> MAX_ORDINAL"
    by (auto simp: period_admitted_def observations_ok_def)
  have ib: "period_start p \<le> interest_start obs" "interest_start obs < interest_end obs"
    "interest_end obs \<le> period_end p"
    using covers_bound [OF cov assms(2)] by simp_all
  have it: "\<exists>t. actual_year_fraction (interest_start obs) (interest_end obs) (day_count p) = Ok t"
    using ib r by (intro fraction_total) auto
  have ot: "\<exists>t. actual_year_fraction (observation_start obs) (observation_end obs) (day_count p) = Ok t"
    using f by (intro fraction_total) auto
  define st0 where "st0 = st \<lparr> references := references st @ [refer known obs] \<rparr>"
  let ?P = "\<lambda>st'. in_step p st' (interest_end obs) \<and> references st' = references st @ [refer known obs]"
  have refs: "references st0 = references st @ [refer known obs]" "in_step p st0 (interest_start obs)"
    "principal_index st0 = principal_index st" "interest st0 = interest st"
    using assms(3) by (simp_all add: st0_def in_step_def)
  have comp: "returns (Some (compound_step ln_1p p obs all_in tau st0)) ?P"
    if "calculation p = DailyCompounded" for all_in tau
    using that it refs by (intro returns_Some)
      (auto simp: compound_step_def Let_def in_step_def split: if_splits)
  have shift: "returns (Some (shifted_step p obs all_in tau st0)) ?P" if "observation_shift p" for all_in tau
    using that it refs ne by (intro returns_Some)
      (auto simp: shifted_step_def first_amount_def in_step_def split: list.splits)
  have loop: "returns (bind_run (principal_loop p all_in (interest_end obs) (interest_start obs)
        (principal_index st0) (interest st0))
      (\<lambda>(i, tot). Some (Ok (st0 \<lparr> principal_index := i, interest := tot \<rparr>)))) ?P"
    if "calculation p \<noteq> DailyCompounded" "\<not> observation_shift p" for all_in
  proof (rule returns_bind [OF principal_loop_returns [OF assms(1)]])
    show "at_principal p (principal_index st0) (interest_start obs)" "admitted (interest st0)"
      using refs that by (simp_all add: in_step_def)
    show "interest_start obs \<le> interest_end obs" "interest_end obs \<le> period_end p" using ib by simp_all
    show "returns (case x of (i, tot) \<Rightarrow> Some (Ok (st0 \<lparr> principal_index := i, interest := tot \<rparr>))) ?P"
      if "case x of (i', t') \<Rightarrow> at_principal p i' (interest_end obs) \<and> admitted t'" for x
      using that refs by (cases x) (simp add: returns_def in_step_def)
  qed
  obtain tau where tau: "actual_year_fraction
      (fst (if observation_shift p then (observation_start obs, observation_end obs) else (interest_start obs, interest_end obs)))
      (snd (if observation_shift p then (observation_start obs, observation_end obs) else (interest_start obs, interest_end obs)))
      (day_count p) = Ok tau" using it ot by (cases "observation_shift p") auto
  have "observe ln_1p known p st obs = bind_run (Some (all_in_rate p f)) (\<lambda>all_in.
     if calculation p = DailyCompounded then Some (compound_step ln_1p p obs all_in tau st0)
     else if observation_shift p then Some (shifted_step p obs all_in tau st0)
     else bind_run (principal_loop p all_in (interest_end obs) (interest_start obs)
              (principal_index st0) (interest st0))
            (\<lambda>(i, total). Some (Ok (st0 \<lparr> principal_index := i, interest := total \<rparr>))))"
  proof -
    have eq: "st \<lparr> references := references st
        @ [\<lparr> identity_id = fixing_id f, identity_revision = fixing_revision f \<rparr>] \<rparr> = st0"
      by (simp add: st0_def refer_def f(1))
    show ?thesis
      using tau by (cases "observation_shift p"; cases "calculation p = DailyCompounded")
        (simp_all add: observe_def unwrap_def f(1) Let_def eq refs(3,4))
  qed
  moreover have "returns (Some (all_in_rate p f)) (\<lambda>_. True)" by (rule returns_Some) simp_all
  ultimately show ?thesis using comp shift loop by (auto intro!: returns_bind)
qed

lemma observations_return:
  assumes "period_admitted known p" "covers interest_start interest_end c (period_end p) os"
    "set os \<subseteq> set (observations p)" "in_step p st c"
  shows "returns (fold_run (observe ln_1p known p) st os) (\<lambda>st'. admitted (interest st')
    \<and> references st' = references st @ map (refer known) os)"
  using assms(2-4)
proof (induction os arbitrary: st c)
  case Nil
  then show ?case by (simp add: returns_def in_step_def)
next
  case (Cons x xs)
  then have "returns (observe ln_1p known p st x) (\<lambda>st'. in_step p st' (interest_end x)
      \<and> references st' = references st @ [refer known x])"
    by (intro observe_returns [OF assms(1)]) auto
  moreover have "returns (fold_run (observe ln_1p known p) st' xs) (\<lambda>st''. admitted (interest st'')
      \<and> references st'' = references st @ map (refer known) (x # xs))"
    if "in_step p st' (interest_end x) \<and> references st' = references st @ [refer known x]" for st'
    using Cons.IH [of "interest_end x" st'] Cons.prems that by (auto elim!: returns_mono)
  ultimately show ?case by (auto intro: returns_bind)
qed

definition coupon_of :: "(string \<rightharpoonup> SuppliedFixing) \<Rightarrow> FloatingPeriod \<Rightarrow> PeriodCoupon \<Rightarrow> bool" where
  "coupon_of known p c \<longleftrightarrow> coupon_period_id c = period_id p \<and> coupon_start c = period_start p
     \<and> coupon_end c = period_end p \<and> coupon_payment c = payment_ordinal p
     \<and> admitted (interest_amount c) \<and> fixing_references c = map (refer known) (observations p)
     \<and> (\<forall>v. effective_annual_rate c = Some v \<longrightarrow> is_finite v)"

lemma admitted_neg: "admitted a \<Longrightarrow> admitted (- a)"
proof -
  have "fabs (- a) = fabs a" by (cases a) (simp_all add: uminus_f64_def)
  then show "admitted a \<Longrightarrow> admitted (- a)" by (simp add: admitted_def)
qed

lemma admitted_0: "admitted 0"
  by (simp add: admitted_def MAX_MONETARY_AMOUNT_def f64_eval del: less_val)

lemma finish_period_returns:
  assumes "period_admitted known p" "admitted (interest st)"
    and "references st = map (refer known) (observations p)"
  shows "returns (Some (finish_period exp_m1 dir p st)) (coupon_of known p)"
proof -
  have cov: "covers principal_start principal_end (period_start p) (period_end p) (principal p)"
    and r: "1 \<le> period_start p" "period_end p \<le> MAX_ORDINAL" and ne: "principal p \<noteq> []"
    using assms(1) by (auto simp: period_admitted_def principal_ok_def)
  have w: "weigh_principal p a x \<noteq> Panic" if "x \<in> set (principal p)" for a x
    using fraction_total [of "principal_start x" "principal_end x" "day_count p"] covers_bound [OF cov that] r
    by (auto simp: weigh_principal_def)
  have fw: "fold_res (weigh_principal p) 0 (principal p) \<noteq> Panic"
    by (rule fold_res_no_Panic [where I = "\<lambda>_. True"]) (use w in simp_all)
  obtain x xs where pr: "principal p = x # xs" using ne by (cases "principal p") auto
  show ?thesis
  proof (rule returns_Some)
    show "finish_period exp_m1 dir p st \<noteq> Panic"
      using fw by (auto simp: finish_period_def first_amount_def pr Let_def)
    show "coupon_of known p c" if "finish_period exp_m1 dir p st = Ok c" for c
    proof -
      from that obtain t w e where
        1: "(if calculation p = DailyCompounded
           then and_then (first_amount p) (\<lambda>first.
             admit_amount (first * (exp_m1 (log_factor st) + margin p * simple_margin_tau st)))
           else Ok (interest st)) = Ok t" and
        2: "(if 0 < w then let v = t / w in
           require (is_finite v) ''floating effective annual rate overflow'' (Ok (Some v)) else Ok None) = Ok e" and
        3: "c = \<lparr> coupon_period_id = period_id p, coupon_start = period_start p,
            coupon_end = period_end p, coupon_payment = payment_ordinal p,
            interest_amount = (if dir = Payment then - t else t),
            effective_annual_rate = e, fixing_references = references st \<rparr>"
        unfolding finish_period_def and_then_Ok_iff by auto
      have "admitted t" using 1 assms(2) by (simp split: if_splits) auto
      then have "admitted (if dir = Payment then - t else t)" by (simp add: admitted_neg)
      moreover have "\<forall>v. e = Some v \<longrightarrow> is_finite v" using 2 by (auto simp: Let_def split: if_splits)
      ultimately show ?thesis using 3 assms(3) by (simp add: coupon_of_def)
    qed
  qed
qed

lemma period_coupon_returns:
  assumes "period_admitted known p"
  shows "returns (period_coupon ln_1p exp_m1 dir known p) (coupon_of known p)"
proof -
  let ?st = "\<lparr> interest = 0, log_factor = 0, simple_margin_tau = 0, principal_index = 0, references = [] \<rparr>"
  have cov: "covers principal_start principal_end (period_start p) (period_end p) (principal p)"
    "covers interest_start interest_end (period_start p) (period_end p) (observations p)" "principal p \<noteq> []"
    using assms by (auto simp: period_admitted_def principal_ok_def observations_ok_def)
  obtain x xs where pr: "principal p = x # xs" using cov(3) by (cases "principal p") auto
  have "at_principal p 0 (period_start p)" using cov(1) by (simp add: at_principal_def pr)
  then have "in_step p ?st (period_start p)" by (simp add: in_step_def admitted_0)
  from observations_return [OF assms cov(2) _ this, of ln_1p]
  show ?thesis unfolding period_coupon_def
    by (auto intro!: returns_bind finish_period_returns [OF assms])
qed

lemma evaluate_returns:
  "returns (evaluate ln_1p exp_m1 req) (\<lambda>res. \<exists>known. admit_request req = Ok known
    \<and> list_all2 (coupon_of known) (periods req) (result_periods res) \<and> result_direction res = direction req)"
proof (cases "admit_request req")
  case (Ok known)
  note adm = admit_request_Ok [OF Ok]
  have f: "returns (fold_run (\<lambda>out p.
         bind_run (period_coupon ln_1p exp_m1 (direction req) known p) (\<lambda>c. Some (Ok (out @ [c])))) out ps)
      (\<lambda>out'. list_all2 (coupon_of known) (qs @ ps) out')"
    if "\<forall>p \<in> set ps. period_admitted known p" "list_all2 (coupon_of known) qs out" for qs ps out
    using that
  proof (induction ps arbitrary: qs out)
    case Nil
    then show ?case by (simp add: returns_def)
  next
    case (Cons p ps)
    have "returns (bind_run (period_coupon ln_1p exp_m1 (direction req) known p) (\<lambda>c. Some (Ok (out @ [c]))))
        (list_all2 (coupon_of known) (qs @ [p]))"
      using Cons.prems
      by (intro returns_bind [OF period_coupon_returns]) (auto simp: returns_def intro: list_all2_appendI)
    moreover have "returns (fold_run (\<lambda>out p.
         bind_run (period_coupon ln_1p exp_m1 (direction req) known p) (\<lambda>c. Some (Ok (out @ [c])))) out' ps)
      (list_all2 (coupon_of known) (qs @ p # ps))" if "list_all2 (coupon_of known) (qs @ [p]) out'" for out'
      using Cons.IH [of "qs @ [p]" out'] Cons.prems that by simp
    ultimately show ?case by (auto intro: returns_bind)
  qed
  from f [OF adm(1), of "[]" "[]"] Ok show ?thesis
    by (simp add: evaluate_def) (rule returns_bind, assumption, simp add: returns_def)
next
  case (Err e)
  then show ?thesis by (simp add: evaluate_def returns_def)
next
  case Panic
  with admit_request_no_Panic show ?thesis by simp
qed

section \<open>Properties\<close>

text \<open>
  C40. Evaluating a request always returns and never panics, whatever the request holds and
  whatever \<open>ln_1p\<close> and \<open>exp_m1\<close> compute: admission rejects everything that would make the
  loop over principal intervals run on, index past the intervals or miss a fixing. A result
  has one coupon per period, in order, with the period's dates, an interest amount inside the
  monetary admission limit, a finite effective rate, and exactly the revisions of the fixings
  its observations name, in their order.
\<close>

theorem evaluate_total:
  "case evaluate ln_1p exp_m1 req of
     None \<Rightarrow> False
   | Some Panic \<Rightarrow> False
   | Some (Err e) \<Rightarrow> True
   | Some (Ok res) \<Rightarrow> \<exists>known. admit_request req = Ok known
       \<and> list_all2 (coupon_of known) (periods req) (result_periods res) \<and> result_direction res = direction req"
  using evaluate_returns [of ln_1p exp_m1 req] by (auto simp: returns_def split: result.split)

text \<open>
  What an admitted request looks like: period ids are distinct, periods do not overlap,
  and in each period both the principal intervals and the observation intervals cover every
  interest day exactly once; every observation names a supplied fixing that is not dated after
  the interest it fixes, published before the reset cutoff for a term rate and dated at the
  observation start for a daily one.
\<close>

theorem admitted_request_partitions:
  assumes "admit_request req = Ok known"
  shows "distinct (map period_id (periods req))
    \<and> sorted_wrt (\<lambda>p q. period_end p \<le> period_start q) (periods req)
    \<and> (\<forall>p \<in> set (periods req). \<forall>x. period_start p \<le> x \<and> x < period_end p \<longrightarrow>
         (\<exists>!i. i < length (principal p) \<and> principal_start (principal p ! i) \<le> x \<and> x < principal_end (principal p ! i))
       \<and> (\<exists>!i. i < length (observations p) \<and> interest_start (observations p ! i) \<le> x
            \<and> x < interest_end (observations p ! i)))
    \<and> (\<forall>p \<in> set (periods req). \<forall>ob \<in> set (observations p). \<exists>f. known (fixing_ref ob) = Some f
         \<and> value_ordinal f \<le> interest_start ob
         \<and> (if calculation p = TermSimple
            then \<exists>r. reset_cutoff_unix_seconds p = Some r \<and> publication_unix_seconds f \<le> r
            else value_ordinal f = observation_start ob))"
proof -
  note adm = admit_request_Ok [OF assms]
  have c: "covers principal_start principal_end (period_start p) (period_end p) (principal p)"
    "covers interest_start interest_end (period_start p) (period_end p) (observations p)"
    if "p \<in> set (periods req)" for p
    using adm(1) that by (auto simp: period_admitted_def principal_ok_def observations_ok_def)
  have ob: "\<exists>f. known (fixing_ref ob) = Some f \<and> value_ordinal f \<le> interest_start ob
         \<and> (if calculation p = TermSimple
            then \<exists>r. reset_cutoff_unix_seconds p = Some r \<and> publication_unix_seconds f \<le> r
            else value_ordinal f = observation_start ob)"
    if "p \<in> set (periods req)" "ob \<in> set (observations p)" for p ob
    using adm(1) that unfolding period_admitted_def observations_ok_def by fastforce
  show ?thesis using adm(2,3) c [THEN covers_unique] ob by blast
qed

definition sample_request :: FloatingRateRequest where
  "sample_request =
     \<lparr> schema = ''floating-rate-1'', position_id = ''p'', currency = ''USD'', monetary_unit = ''currency_units'',
       direction = Receipt,
       index = \<lparr> index_name = ''SOFR'', kind = Overnight, tenor_months = None, average_calendar_days = None \<rparr>,
       reference_calendar = \<lparr> identity_id = ''c'', identity_revision = ''1'' \<rparr>,
       fixing_snapshot = \<lparr> identity_id = ''s'', identity_revision = ''1'' \<rparr>,
       publication_cutoff_unix_seconds = 1704240000, complete_observation_coverage = True,
       fixings = [\<lparr> fixing_id = ''f'', fixing_revision = ''1'', fixing_index_id = ''SOFR'',
         value_ordinal = 738887, publication_unix_seconds = 1704240000, fixing_rate = f64_lit 5 100 \<rparr>],
       periods = [\<lparr> period_id = ''d'', period_start = 738887, period_end = 738888, payment_ordinal = 738888,
         reset_cutoff_unix_seconds = None, calculation = DailySimple, margin_treatment = Simple,
         day_count = Act360, margin = 0,
         index_bounds = \<lparr> floor_rate = None, cap_rate = None \<rparr>,
         all_in_bounds = \<lparr> floor_rate = None, cap_rate = None \<rparr>,
         lookback_business_days = 0, observation_shift = False,
         principal = [\<lparr> principal_start = 738887, principal_end = 738888, amount = 1 \<rparr>],
         observations = [\<lparr> interest_start = 738887, interest_end = 738888, observation_start = 738887,
           observation_end = 738888, fixing_ref = ''f'' \<rparr>] \<rparr>] \<rparr>"

lemmas floating_eval = admit_request_def header_check_def sample_request_def is_ascii_uppercase_def
  MAX_PERIODS_def MAX_FIXINGS_def MAX_PUBLICATION_TIMESTAMP_def MAX_INTERVALS_def text_admit_def ok_or_def
  usize_checked_add_def usize_max_def MAX_DATED_METADATA_BYTES_def valid_index_def admit_fixing_def
  validate_ordinal_def MAX_ORDINAL_def cutoff_ordinal_def admit_period_def interval_def MAX_HORIZON_DAYS_def
  bounds_validate_def calculation_check_def admit_principal_def MAX_MONETARY_AMOUNT_def admit_observation_def
  unwrap_def require_def

lemma admitted_request_partitions_witness:
  "\<exists>known. admit_request sample_request = Ok known
     \<and> (\<exists>f. known ''f'' = Some f \<and> value_ordinal f = 738887)"
proof -
  have "\<exists>known. admit_request sample_request = Ok known"
    by (simp add: floating_eval f64_eval del: less_val le_val feq_val interval_Ok cong: eval_cong)
  then obtain known where k: "admit_request sample_request = Ok known" by blast
  from admitted_request_partitions [OF k] k show ?thesis by (auto simp: sample_request_def)
qed

text \<open>
  Admitted rate bounds do bound: on a finite rate the result is finite, not below the floor,
  not above the cap, and it is the rate itself or one of the two bounds.
\<close>

theorem bounds_apply_within:
  assumes "bounds_validate b = Ok ()" and "is_finite r"
  shows "is_finite (bounds_apply b r)
    \<and> (\<forall>lo. floor_rate b = Some lo \<longrightarrow> lo \<le> bounds_apply b r)
    \<and> (\<forall>hi. cap_rate b = Some hi \<longrightarrow> bounds_apply b r \<le> hi)
    \<and> bounds_apply b r \<in> {r} \<union> set_option (floor_rate b) \<union> set_option (cap_rate b)"
proof -
  have mx: "is_finite (fmax r x) \<and> x \<le> fmax r x \<and> fmax r x \<in> {r, x}" if "is_finite x" for x
    using that assms(2) by (cases r; cases x) (auto simp: fmax_def)
  have mn: "is_finite (fmin y x) \<and> fmin y x \<le> x \<and> fmin y x \<in> {y, x}" if "is_finite x" "is_finite y" for x y
    using that by (cases y; cases x) (auto simp: fmin_def)
  have keep: "z \<le> fmin y x" if "is_finite x" "is_finite y" "is_finite z" "z \<le> y" "z \<le> x" for x y z
    using that by (auto simp: fmin_def)
  have inf: "fmax x (Inf True) = x" "fmin x (Inf False) = x" if "is_finite x" for x
    using that by (cases x; simp add: fmax_def fmin_def less_f64_def)+
  obtain lo hi where b: "floor_rate b = lo" "cap_rate b = hi" by blast
  have fin: "\<forall>x. lo = Some x \<longrightarrow> is_finite x" "\<forall>x. hi = Some x \<longrightarrow> is_finite x"
    "\<forall>x y. lo = Some x \<longrightarrow> hi = Some y \<longrightarrow> \<not> y < x"
    using assms(1) by (auto simp: bounds_validate_def b require_def simp del: less_val split: if_splits option.splits)
  show ?thesis
  proof (cases lo)
    case None
    then have e: "bounds_apply b r = fmin r (case hi of Some x \<Rightarrow> x | None \<Rightarrow> Inf False)"
      using inf assms(2) by (simp add: bounds_apply_def b)
    show ?thesis
    proof (cases hi)
      case hn: None
      then show ?thesis using e None inf assms(2) b by simp
    next
      case (Some x)
      then show ?thesis using e None mn [of x r] fin(2) assms(2) b by auto
    qed
  next
    case lo: (Some l)
    then have l: "is_finite l" using fin by simp
    note m = mx [OF l]
    have e: "bounds_apply b r = fmin (fmax r l) (case hi of Some x \<Rightarrow> x | None \<Rightarrow> Inf False)"
      by (simp add: bounds_apply_def b lo)
    show ?thesis
    proof (cases hi)
      case None
      then show ?thesis using e m lo inf b by auto
    next
      case (Some x)
      then have x: "is_finite x" "\<not> x < l" using fin lo by auto
      then have "l \<le> x" using l by simp
      with keep [OF x(1) _ l, of "fmax r l"] mn [OF x(1), of "fmax r l"] m
      show ?thesis using e Some lo b by (auto simp del: le_val)
    qed
  qed
qed

lemma bounds_apply_within_witness:
  "bounds_apply \<lparr> floor_rate = Some 0, cap_rate = Some 1 \<rparr> (- 1) \<in> {- 1} \<union> {0} \<union> {1}
   \<and> 0 \<le> bounds_apply \<lparr> floor_rate = Some 0, cap_rate = Some 1 \<rparr> (- 1)"
proof -
  let ?b = "\<lparr> floor_rate = Some 0, cap_rate = Some 1 \<rparr>"
  have "bounds_validate ?b = Ok ()" "is_finite (- 1)" by (simp_all add: bounds_validate_def)
  from bounds_apply_within [OF this] show ?thesis by simp
qed

end
