(* ===== verification/Dependency_Graph.thy ===== *)
theory Dependency_Graph
  imports Prelude
begin

text \<open>
  The dependency check of \<open>portfolio-model-core/src/lifecycle/admission.rs\<close>, \<open>acyclic\<close>: a
  depth-first search with an explicit stack. A \<open>BTreeMap\<close> is the association list of its
  entries in key order; the state map is a function whose default 0 is \<open>unwrap_or(0)\<close>
  (0 unseen, 1 on the stack, 2 finished). It is called \<open>acyclic_check\<close> here because
  \<open>acyclic\<close> is HOL's predicate on relations, which the main theorem relates it to.
\<close>

section \<open>Definitions\<close>

definition succs :: "('a \<times> 'a list) list \<Rightarrow> 'a \<Rightarrow> 'a list" where
  "succs edges node = (case map_of edges node of Some v \<Rightarrow> v | None \<Rightarrow> [])"

definition graph_nodes :: "('a \<times> 'a list) list \<Rightarrow> 'a set" where
  "graph_nodes edges = fst ` set edges \<union> (\<Union>v \<in> snd ` set edges. set v)"

lemma succs_nodes: "v \<in> set (succs edges u) \<Longrightarrow> v \<in> graph_nodes edges \<and> u \<in> fst ` set edges"
proof -
  assume v: "v \<in> set (succs edges u)"
  obtain vs where "map_of edges u = Some vs" "v \<in> set vs"
    using v by (cases "map_of edges u") (auto simp: succs_def)
  then have "(u, vs) \<in> set edges" "v \<in> set vs" by (auto dest: map_of_SomeD)
  then show ?thesis by (force simp: graph_nodes_def)
qed

lemma finite_nodes [simp]: "finite (graph_nodes edges)"
  by (simp add: graph_nodes_def)

definition unseen :: "('a \<times> 'a list) list \<Rightarrow> ('a \<Rightarrow> nat) \<Rightarrow> nat" where
  "unseen edges state = card {v \<in> graph_nodes edges. state v = 0}"

definition todo :: "('a \<times> 'a list) list \<Rightarrow> ('a \<times> nat) list \<Rightarrow> nat" where
  "todo edges stack = (\<Sum>(node, i)\<leftarrow>stack. Suc (length (succs edges node) - i))"

text \<open>\<open>while let Some((node, i)) = stack.pop()\<close>; the head of the list is the top of the stack.\<close>

function dfs :: "('a \<times> 'a list) list \<Rightarrow> ('a \<Rightarrow> nat) \<Rightarrow> ('a \<times> nat) list \<Rightarrow> ('a, 'a \<Rightarrow> nat) result" where
  "dfs edges state [] = Ok state"
| "dfs edges state ((node, i) # stack) =
     (let children = succs edges node in
      if i < length children then
        let stack = (node, i + 1) # stack; child = children ! i in
        if state child = 1 then Err child
        else if state child = 0 then dfs edges (state(child := 1)) ((child, 0) # stack)
        else dfs edges state stack
      else dfs edges (state(node := 2)) stack)"
  by pat_completeness auto
termination
proof (relation "measures [\<lambda>(edges, state, stack). unseen edges state, \<lambda>(edges, state, stack). todo edges stack]",
    goal_cases)
  case (2 edges state node i stack children stack' child)
  then have "child \<in> graph_nodes edges" using succs_nodes [of child edges node] by simp
  then have "{v \<in> graph_nodes edges. (state(child := 1)) v = 0} \<subset> {v \<in> graph_nodes edges. state v = 0}"
    using 2 by auto
  then have "unseen edges (state(child := 1)) < unseen edges state"
    unfolding unseen_def by (intro psubset_card_mono) auto
  then show ?case by simp
next
  case (3 edges state node i stack children stack' child)
  then show ?case by (simp add: todo_def)
next
  case (4 edges state node i stack children)
  have "{v \<in> graph_nodes edges. (state(node := 2)) v = 0} \<subseteq> {v \<in> graph_nodes edges. state v = 0}" by auto
  then have "unseen edges (state(node := 2)) \<le> unseen edges state"
    unfolding unseen_def by (intro card_mono) auto
  then show ?case by (auto simp: todo_def)
qed simp

declare dfs.simps [simp del]

lemma dfs_step:
  "i < length (succs edges node) \<Longrightarrow> state (succs edges node ! i) = 1 \<Longrightarrow>
     dfs edges state ((node, i) # stack) = Err (succs edges node ! i)"
  "i < length (succs edges node) \<Longrightarrow> state (succs edges node ! i) = 0 \<Longrightarrow>
     dfs edges state ((node, i) # stack)
     = dfs edges (state(succs edges node ! i := 1)) ((succs edges node ! i, 0) # (node, i + 1) # stack)"
  "i < length (succs edges node) \<Longrightarrow> 1 < state (succs edges node ! i) \<Longrightarrow>
     dfs edges state ((node, i) # stack) = dfs edges state ((node, i + 1) # stack)"
  "\<not> i < length (succs edges node) \<Longrightarrow>
     dfs edges state ((node, i) # stack) = dfs edges (state(node := 2)) stack"
  by (subst dfs.simps(2), simp add: Let_def)+

definition visit_root :: "('a \<times> 'a list) list \<Rightarrow> ('a \<Rightarrow> nat) \<Rightarrow> 'a \<Rightarrow> ('a, 'a \<Rightarrow> nat) result" where
  "visit_root edges state start =
     (if state start = 2 then Ok state else dfs edges (state(start := 1)) [(start, 0)])"

definition acyclic_check :: "('a \<times> 'a list) list \<Rightarrow> ('a, unit) result" where
  "acyclic_check edges =
     and_then (fold_res (visit_root edges) (\<lambda>_. 0) (map fst edges)) (\<lambda>_. Ok ())"

section \<open>Graphs given by a successor function\<close>

locale successor_graph =
  fixes next_of :: "'a \<Rightarrow> 'a list" and sources :: "'a set"
  assumes source: "v \<in> set (next_of u) \<Longrightarrow> u \<in> sources"
begin

definition edge_rel :: "('a \<times> 'a) set" where
  "edge_rel = {(u, v). v \<in> set (next_of u)}"

definition closed :: "'a set \<Rightarrow> bool" where
  "closed B \<longleftrightarrow> (\<forall>u \<in> B. set (next_of u) \<subseteq> B)"

lemma edge_iff: "(u, v) \<in> edge_rel \<longleftrightarrow> v \<in> set (next_of u)"
  by (simp add: edge_rel_def)

lemma closed_trancl: "(u, v) \<in> edge_rel\<^sup>+ \<Longrightarrow> closed B \<Longrightarrow> u \<in> B \<Longrightarrow> v \<in> B"
  by (induction rule: trancl_induct) (auto simp: edge_iff closed_def)

text \<open>A finished node cannot reach itself: its successors were finished before it.\<close>

lemma finished_acyclic:
  assumes "closed B" "set (next_of n) \<subseteq> B" "n \<notin> B"
  shows "(n, n) \<notin> edge_rel\<^sup>+"
proof
  assume "(n, n) \<in> edge_rel\<^sup>+"
  then obtain v where "(n, v) \<in> edge_rel" "v = n \<or> (v, n) \<in> edge_rel\<^sup>+"
    by (meson tranclD rtranclD)
  with assms show False by (auto simp: edge_iff dest: closed_trancl)
qed

lemma acyclicI:
  assumes "\<And>u. u \<in> sources \<Longrightarrow> (u, u) \<notin> edge_rel\<^sup>+"
  shows "acyclic edge_rel"
  unfolding acyclic_def
proof (intro allI notI)
  fix u
  assume c: "(u, u) \<in> edge_rel\<^sup>+"
  then obtain v where "(u, v) \<in> edge_rel" by (meson tranclD)
  then have "u \<in> sources" by (auto simp: edge_iff dest: source)
  with c assms show False by blast
qed

lemma path_cycle:
  assumes "(c, u) \<in> edge_rel\<^sup>*" "c \<in> set (next_of u)"
  shows "(c, c) \<in> edge_rel\<^sup>+"
  using assms by (meson edge_iff rtrancl_into_trancl1)

end

interpretation dep: successor_graph "succs edges" "fst ` set edges" for edges
  by unfold_locales (simp add: succs_nodes)

definition dependency_rel :: "('a \<times> 'a list) list \<Rightarrow> ('a \<times> 'a) set" where
  "dependency_rel edges = {(u, v). v \<in> set (succs edges u)}"

lemma dependency_rel: "dep.edge_rel edges = dependency_rel edges"
  by (auto simp: dep.edge_rel_def dependency_rel_def)

section \<open>The invariant of the search\<close>

text \<open>
  Each frame's visited successors are finished, but for the one whose frame is on top of it
  (\<open>up\<close>), and that one is a successor of the frame's node.
\<close>

fun chained :: "('a \<times> 'a list) list \<Rightarrow> 'a option \<Rightarrow> ('a \<Rightarrow> nat) \<Rightarrow> ('a \<times> nat) list \<Rightarrow> bool" where
  "chained edges up state [] = True"
| "chained edges up state ((node, i) # stack) =
     ((\<forall>j < i. j < length (succs edges node) \<longrightarrow>
          state (succs edges node ! j) = 2 \<or> up = Some (succs edges node ! j))
      \<and> (\<forall>c. up = Some c \<longrightarrow> c \<in> set (succs edges node))
      \<and> chained edges (Some node) state stack)"

definition search_inv :: "('a \<times> 'a list) list \<Rightarrow> ('a \<Rightarrow> nat) \<Rightarrow> ('a \<times> nat) list \<Rightarrow> bool" where
  "search_inv edges state stack \<longleftrightarrow>
     (\<forall>v. state v \<le> 2) \<and> {v. state v = 1} = fst ` set stack \<and> distinct (map fst stack)
     \<and> chained edges None state stack
     \<and> dep.closed edges {v. state v = 2}
     \<and> (\<forall>v. state v = 2 \<longrightarrow> (v, v) \<notin> (dependency_rel edges)\<^sup>+)"

lemma chained_keep:
  assumes "chained edges a state stack" "\<And>v. state v = 2 \<Longrightarrow> state' v = 2"
  shows "chained edges a state' stack"
  using assms by (induction edges a state stack rule: chained.induct) auto

lemma chained_pop:
  assumes "chained edges (Some c) state stack" "\<And>v. state v = 2 \<Longrightarrow> state' v = 2" "state' c = 2"
  shows "chained edges None state' stack"
proof (cases stack)
  case (Cons x rest)
  obtain node i where x: "x = (node, i)" by (cases x)
  have "chained edges (Some node) state' rest"
    using assms(1,2) Cons x by (auto intro: chained_keep)
  then show ?thesis using assms Cons x by auto
qed simp

lemma stack_path:
  assumes "chained edges up state stack" "c \<in> fst ` set stack"
  shows "stack \<noteq> [] \<and> (c, fst (hd stack)) \<in> (dependency_rel edges)\<^sup>*"
  using assms
proof (induction stack arbitrary: up)
  case (Cons x stack)
  obtain node i where x: "x = (node, i)" by (cases x)
  show ?case
  proof (cases "c = node")
    case False
    have tail: "chained edges (Some node) state stack" using Cons.prems(1) x by simp
    have c: "c \<in> fst ` set stack" using Cons.prems(2) x False by auto
    from Cons.IH [OF tail c] have "stack \<noteq> []" "(c, fst (hd stack)) \<in> (dependency_rel edges)\<^sup>*"
      by auto
    moreover from tail this(1) have "node \<in> set (succs edges (fst (hd stack)))"
      by (cases stack) auto
    ultimately show ?thesis using x by (auto simp: dependency_rel_def intro: rtrancl_into_rtrancl)
  qed (simp add: x)
qed simp

section \<open>Every turn of the search keeps the invariant\<close>

lemma search_cycle:
  assumes "search_inv edges state ((node, i) # stack)" "i < length (succs edges node)"
    and "state (succs edges node ! i) = 1"
  shows "(succs edges node ! i, succs edges node ! i) \<in> (dependency_rel edges)\<^sup>+"
proof -
  let ?c = "succs edges node ! i"
  have "?c \<in> fst ` set ((node, i) # stack)" "chained edges None state ((node, i) # stack)"
    using assms by (auto simp: search_inv_def)
  from stack_path [OF this(2,1)] have "(?c, node) \<in> (dependency_rel edges)\<^sup>*" by simp
  then show ?thesis using dep.path_cycle [of ?c node edges] assms(2) by (simp add: dependency_rel)
qed

lemma search_push:
  assumes inv: "search_inv edges state ((node, i) # stack)" and i: "i < length (succs edges node)"
    and child: "child = succs edges node ! i" "state child = 0"
  shows "search_inv edges (state(child := 1)) ((child, 0) # (node, Suc i) # stack)"
proof -
  let ?s = "state(child := 1)"
  have ch: "chained edges None state ((node, i) # stack)" using inv by (simp add: search_inv_def)
  have keep: "state v = 2 \<Longrightarrow> ?s v = 2" for v using child by auto
  have "chained edges (Some node) ?s stack"
    using ch keep by (auto intro: chained_keep)
  moreover have "?s (succs edges node ! j) = 2 \<or> Some child = Some (succs edges node ! j)"
    if "j < Suc i" "j < length (succs edges node)" for j
    using ch child that by (cases "j = i") auto
  ultimately have "chained edges None ?s ((child, 0) # (node, Suc i) # stack)"
    using i child(1) unfolding chained.simps(2) by (intro conjI allI impI) (auto simp del: fun_upd_apply)
  moreover have "{v. ?s v = 1} = insert child {v. state v = 1}" "{v. ?s v = 2} = {v. state v = 2}"
    using child by auto
  moreover have "child \<notin> fst ` set ((node, i) # stack)"
  proof
    assume "child \<in> fst ` set ((node, i) # stack)"
    moreover have "{v. state v = 1} = fst ` set ((node, i) # stack)"
      using inv by (simp add: search_inv_def)
    ultimately have "state child = 1" by blast
    with child show False by simp
  qed
  moreover have "?s v = 2 \<longleftrightarrow> state v = 2" "?s v \<le> 2 \<longleftrightarrow> state v \<le> 2" for v
    using child by auto
  ultimately show ?thesis
    using inv unfolding search_inv_def by (simp del: fun_upd_apply)
qed

lemma search_skip:
  assumes "search_inv edges state ((node, i) # stack)" "i < length (succs edges node)"
    and "state (succs edges node ! i) = 2"
  shows "search_inv edges state ((node, Suc i) # stack)"
  using assms by (auto simp: search_inv_def less_Suc_eq)

lemma search_finish:
  assumes inv: "search_inv edges state ((node, i) # stack)" and i: "length (succs edges node) \<le> i"
  shows "search_inv edges (state(node := 2)) stack"
proof -
  let ?s = "state(node := 2)" and ?B = "{v. state v = 2}"
  have node: "state node = 1" "node \<notin> fst ` set stack" using inv by (auto simp: search_inv_def)
  have finished: "set (succs edges node) \<subseteq> ?B"
    using inv i by (auto simp: search_inv_def in_set_conv_nth)
  have B: "{v. ?s v = 2} = insert node ?B" by auto
  have "chained edges None ?s stack"
    by (rule chained_pop [of edges node state]) (use inv in \<open>auto simp: search_inv_def\<close>)
  moreover have "dep.closed edges (insert node ?B)"
    using inv finished by (auto simp: search_inv_def dep.closed_def)
  moreover have "(node, node) \<notin> (dependency_rel edges)\<^sup>+"
    using dep.finished_acyclic [of edges ?B node] inv finished node
    by (simp add: search_inv_def dependency_rel)
  moreover have "{v. ?s v = 1} = {v. state v = 1} - {node}" by auto
  ultimately show ?thesis
    using inv node B by (auto simp: search_inv_def)
qed

lemma dfs_spec:
  "search_inv edges state stack \<Longrightarrow>
   (case dfs edges state stack of
      Ok s \<Rightarrow> search_inv edges s [] \<and> (\<forall>v. state v \<noteq> 0 \<longrightarrow> s v = 2)
    | Err c \<Rightarrow> (c, c) \<in> (dependency_rel edges)\<^sup>+
    | Panic \<Rightarrow> False)"
proof (induction edges state stack rule: dfs.induct)
  case (1 edges state)
  have "state v = 2" if "state v \<noteq> 0" for v
  proof -
    have "state v \<le> 2" "state v \<noteq> 1" using 1 by (auto simp: search_inv_def)
    with that show ?thesis by simp
  qed
  with 1 show ?case by (simp add: dfs.simps)
next
  case (2 edges state node i stack)
  let ?cs = "succs edges node" and ?c = "succs edges node ! i"
  show ?case
  proof (cases "i < length ?cs")
    case True
    consider "state ?c = 1" | "state ?c = 0" | "state ?c = 2"
      using 2(4) by (auto simp: search_inv_def) (metis One_nat_def le_SucE le_zero_eq numeral_2_eq_2)
    then show ?thesis
    proof cases
      case 1
      with True search_cycle [OF 2(4)] show ?thesis by (simp add: dfs_step(1))
    next
      case c: 2
      have "search_inv edges (state(?c := 1)) ((?c, 0) # (node, i + 1) # stack)"
        using search_push [OF 2(4) True refl c] by simp
      moreover have "state ?c \<noteq> 1" using c by simp
      ultimately have IH: "case dfs edges (state(?c := 1)) ((?c, 0) # (node, i + 1) # stack) of
          Ok s \<Rightarrow> search_inv edges s [] \<and> (\<forall>v. (state(?c := 1)) v \<noteq> 0 \<longrightarrow> s v = 2)
        | Err c \<Rightarrow> (c, c) \<in> (dependency_rel edges)\<^sup>+
        | Panic \<Rightarrow> False"
        using 2(1) [OF refl True refl refl _ c] by blast
      have "(state(?c := 1)) v \<noteq> 0" if "state v \<noteq> 0" for v using that by simp
      with IH show ?thesis unfolding dfs_step(2) [where state = state, OF True c]
        by (simp del: fun_upd_apply split: result.splits)
    next
      case c: 3
      have "search_inv edges state ((node, i + 1) # stack)"
        using search_skip [OF 2(4) True c] by simp
      from 2(2) [OF refl True refl refl _ _ this]
      show ?thesis using dfs_step(3) [where state = state, OF True] c by (auto split: result.splits)
    qed
  next
    case False
    have "search_inv edges (state(node := 2)) stack"
      using search_finish [OF 2(4)] False by simp
    from 2(3) [OF refl False this]
    have IH: "case dfs edges (state(node := 2)) stack of
        Ok s \<Rightarrow> search_inv edges s [] \<and> (\<forall>v. (state(node := 2)) v \<noteq> 0 \<longrightarrow> s v = 2)
      | Err c \<Rightarrow> (c, c) \<in> (dependency_rel edges)\<^sup>+
      | Panic \<Rightarrow> False" .
    have "(state(node := 2)) v \<noteq> 0" if "state v \<noteq> 0" for v using that by simp
    with IH show ?thesis unfolding dfs_step(4) [where state = state, OF False]
      by (simp del: fun_upd_apply split: result.splits)
  qed
qed

definition between :: "('a \<times> 'a list) list \<Rightarrow> 'a set \<Rightarrow> ('a \<Rightarrow> nat) \<Rightarrow> bool" where
  "between edges seen state \<longleftrightarrow> search_inv edges state [] \<and> (\<forall>v \<in> seen. state v = 2)"

lemma visit_root_spec:
  assumes "between edges seen state"
  shows "case visit_root edges state start of
      Ok s \<Rightarrow> between edges (insert start seen) s
    | Err c \<Rightarrow> (c, c) \<in> (dependency_rel edges)\<^sup>+
    | Panic \<Rightarrow> False"
proof (cases "state start = 2")
  case False
  then have "state start = 0"
    using assms by (auto simp: between_def search_inv_def)
      (metis One_nat_def le_SucE le_zero_eq numeral_2_eq_2)
  moreover from this have "{v. (state(start := 1)) v = 2} = {v. state v = 2}" by auto
  ultimately have "search_inv edges (state(start := 1)) [(start, 0)]"
    using assms unfolding between_def search_inv_def by (simp only:) auto
  from dfs_spec [OF this] assms False show ?thesis
    by (auto simp: visit_root_def between_def split: result.splits)
qed (use assms in \<open>auto simp: visit_root_def between_def\<close>)

lemma roots_spec:
  "between edges seen state \<Longrightarrow>
   (case fold_res (visit_root edges) state keys of
      Ok s \<Rightarrow> between edges (seen \<union> set keys) s
    | Err c \<Rightarrow> (c, c) \<in> (dependency_rel edges)\<^sup>+
    | Panic \<Rightarrow> False)"
proof (induction keys arbitrary: seen state)
  case (Cons k keys)
  show ?case
  proof (cases "visit_root edges state k")
    case (Ok s)
    then have "between edges (insert k seen) s" using visit_root_spec [OF Cons.prems, of k] by simp
    from Cons.IH [OF this] Ok show ?thesis by (simp split: result.splits)
  qed (use visit_root_spec [OF Cons.prems, of k] in auto)
qed simp

lemma acyclic_check_spec:
  "(acyclic_check edges = Ok () \<longleftrightarrow> acyclic (dependency_rel edges))
   \<and> (case acyclic_check edges of
        Ok _ \<Rightarrow> True | Err c \<Rightarrow> (c, c) \<in> (dependency_rel edges)\<^sup>+ | Panic \<Rightarrow> False)"
proof -
  have "between edges {} (\<lambda>_. 0)" by (simp add: between_def search_inv_def dep.closed_def)
  note spec = roots_spec [OF this, of "map fst edges"]
  show ?thesis
  proof (cases "fold_res (visit_root edges) (\<lambda>_. 0) (map fst edges)")
    case (Ok s)
    with spec have s: "search_inv edges s []" "\<forall>v \<in> fst ` set edges. s v = 2"
      by (auto simp: between_def)
    then have "acyclic (dep.edge_rel edges)"
      by (intro dep.acyclicI) (auto simp: search_inv_def dependency_rel)
    with Ok show ?thesis by (simp add: acyclic_check_def dependency_rel)
  next
    case (Err c)
    with spec have "(c, c) \<in> (dependency_rel edges)\<^sup>+" by simp
    with Err show ?thesis by (auto simp: acyclic_check_def acyclic_def)
  qed (use spec in simp)
qed

text \<open>
  C15. The dependency check is exact and total: it accepts a plan's step graph exactly when the
  dependency relation is acyclic, the node it refuses with lies on a cycle, and the explicit
  stack machine ends without an index out of range on every edge map.
\<close>

theorem acyclic_check_exact:
  "(acyclic_check edges = Ok () \<longleftrightarrow> acyclic (dependency_rel edges))
   \<and> (case acyclic_check edges of
        Ok _ \<Rightarrow> True | Err c \<Rightarrow> (c, c) \<in> (dependency_rel edges)\<^sup>+ | Panic \<Rightarrow> False)"
  by (rule acyclic_check_spec)

end
