(* ===== verification/Lifecycle_Types.thy ===== *)
theory Lifecycle_Types
  imports Accrual
begin

text \<open>
  The records of \<open>portfolio-model-core/src/lifecycle/types.rs\<close> (the
  \<open>liquidity-lifecycle-1\<close> plan), its refusals, and the journal kinds of \<open>lifecycle/journal.rs\<close>.
  Fields keep the source's order; a field name several structs share carries the record's name
  as a prefix (\<open>quantity\<close> is \<open>lot_quantity\<close>, \<open>pledge_quantity\<close>, ...), and an enum variant two
  enums share, or that HOL owns, carries a suffix. \<open>u32\<close> and \<open>usize\<close> are \<open>nat\<close>, \<open>i32\<close> is \<open>int\<close>.
\<close>

section \<open>Constants and refusals\<close>

definition SCHEMA :: string where "SCHEMA = ''liquidity-lifecycle-1''"
definition MAX_RAW_BYTES :: usize where "MAX_RAW_BYTES = 8 * 1024 * 1024"
definition MAX_RECORDS :: usize where "MAX_RECORDS = 16384"
definition MAX_DEPENDENCIES :: usize where "MAX_DEPENDENCIES = 64"
definition RESEARCH_IM_METHOD :: string where "RESEARCH_IM_METHOD = ''research-sensitivity-im-1''"
definition MAX_MARGIN_BUCKETS :: usize where "MAX_MARGIN_BUCKETS = 16"

text \<open>
  \<open>detail\<close> is the text \<open>format!\<close> builds, kept as its pieces: literal and interpolated strings,
  and the floats and integers whose \<open>Display\<close> text is not modelled.
\<close>

datatype frag = Txt string | Flt f64 | Itg int

record Refusal =
  code :: string
  detail :: "frag list"

definition refusal_new :: "string \<Rightarrow> frag list \<Rightarrow> Refusal" where
  "refusal_new c d = \<lparr> code = c, detail = d \<rparr>"

definition MALFORMED_INPUT :: string where "MALFORMED_INPUT = ''MALFORMED_INPUT''"
definition BOUND_EXCEEDED :: string where "BOUND_EXCEEDED = ''BOUND_EXCEEDED''"
definition DUPLICATE_IDENTITY :: string where "DUPLICATE_IDENTITY = ''DUPLICATE_IDENTITY''"
definition LIFECYCLE_MAPPING_REQUIRED :: string where
  "LIFECYCLE_MAPPING_REQUIRED = ''LIFECYCLE_MAPPING_REQUIRED''"
definition OVERALLOCATION :: string where "OVERALLOCATION = ''OVERALLOCATION''"
definition UNSUPPORTED_POLICY :: string where "UNSUPPORTED_POLICY = ''UNSUPPORTED_POLICY''"
definition FORMAL_OWNER_REQUIRED :: string where "FORMAL_OWNER_REQUIRED = ''FORMAL_OWNER_REQUIRED''"
definition SETTLEMENT_DEPENDENCY_CYCLE :: string where
  "SETTLEMENT_DEPENDENCY_CYCLE = ''SETTLEMENT_DEPENDENCY_CYCLE''"
definition SETTLEMENT_ORDER :: string where "SETTLEMENT_ORDER = ''SETTLEMENT_ORDER''"
definition INSUFFICIENT_SETTLEMENT_LIQUIDITY :: string where
  "INSUFFICIENT_SETTLEMENT_LIQUIDITY = ''INSUFFICIENT_SETTLEMENT_LIQUIDITY''"
definition INVENTORY_UNAVAILABLE :: string where "INVENTORY_UNAVAILABLE = ''INVENTORY_UNAVAILABLE''"
definition DUPLICATE_COLLATERAL_CREDIT :: string where
  "DUPLICATE_COLLATERAL_CREDIT = ''DUPLICATE_COLLATERAL_CREDIT''"

section \<open>Sources, accounts and lots\<close>

record Revision =
  rev_id :: string
  revision_text :: string

datatype Measure = Physical | Pricing

record SourceRef =
  source_id :: string
  source_revision :: string
  sha256 :: string
  measure :: Measure

record OpeningAccount =
  account_id :: string
  account_cash :: f64
  equity :: f64

datatype LotKind = Security | Loan | Derivative | Funding

datatype AccountingCategory =
  AmortizedCost | AvailableForSale | HeldToMaturity | Trading | DerivativeCategory | FundingLiability

record PositionLot =
  lot_id :: string
  position_id :: string
  lot_source_id :: string
  lot_account_id :: string
  lot_kind :: LotKind
  accounting_category :: AccountingCategory
  lot_quantity :: f64
  acquisition_ordinal :: i32
  original_cost :: f64
  original_effective_yield :: f64
  original_oas :: f64
  outside_encumbrance :: f64

section \<open>Allocations, pledges, margin agreements and facilities\<close>

datatype UnwindTreatment = Terminate | Retain | OffsetTreatment | RebalanceTreatment

datatype RiskBasis = InterestRate

record HedgeAllocation =
  hedge_allocation_id :: string
  exposure_lot_id :: string
  hedge_lot_id :: string
  hedge_amount :: f64
  risk_basis :: RiskBasis
  hedge_start_ordinal :: i32
  hedge_end_ordinal :: "i32 option"
  hedge_review :: Revision
  unwind_treatment :: UnwindTreatment
  formal_relationship_id :: "string option"

datatype FundingInstruction = Repay | RetainFunding | Replace

record FundingAllocation =
  funding_allocation_id :: string
  funding_lot_id :: string
  attributed_lot_id :: string
  funding_amount :: f64
  funding_start_ordinal :: i32
  funding_end_ordinal :: "i32 option"
  instruction :: FundingInstruction

record Pledge =
  pledge_id :: string
  pledge_lot_id :: string
  pledge_agreement_id :: string
  holder :: string
  pledge_quantity :: f64
  eligibility :: Revision
  haircut :: f64

datatype InitialMarginMode = NoInitialMargin | SuppliedRequirements | ResearchSensitivity

record MarginMethod =
  method_name :: string
  method_revision :: string
  bucket_upper_days :: "i32 list"
  risk_weights :: "f64 list"
  correlations :: "f64 list list"
  two_way :: bool
  method_review :: Revision

datatype Segregation = Segregated | Reusable

datatype VmAtTermination = ReturnSeparately | ApplyAgainstConsideration

record OpeningCollateral =
  opening_posted_vm :: f64
  opening_received_vm :: f64
  opening_posted_im :: f64
  opening_received_im_custody :: f64

record MarginAgreement =
  agreement_id :: string
  counterparty :: string
  legal_review :: Revision
  settlement_lag_days :: nat
  initial_margin :: InitialMarginMode
  segregation :: Segregation
  vm_at_termination :: VmAtTermination
  agreement_calendar :: Revision
  agreement_lot_ids :: "string list"
  opening_collateral :: "OpeningCollateral option"
  margin_method :: "MarginMethod option"

record Facility =
  facility_id :: string
  provider :: string
  commitment :: f64
  drawn :: f64
  access_policy :: Revision
  expiry_ordinal :: i32

record FormalRelationship =
  relationship_id :: string
  relationship_revision :: string
  accounting_source :: SourceRef
  adoption_policy :: Revision
  hedging_lot_ids :: "string list"
  hedged_lot_ids :: "string list"
  forecast_exposure_id :: "string option"

section \<open>Actions and settlement obligations\<close>

datatype ActionKind = Acquisition | Unwind | Offset | Rebalance | Refinance

datatype AccountingTreatment = Economic | Formal

record ActionLot =
  action_lot_id :: string
  action_quantity :: f64

record LifecycleAction =
  action_id :: string
  action_kind :: ActionKind
  trade_ordinal :: i32
  effective_ordinal :: i32
  settlement_ordinal :: i32
  action_lots :: "ActionLot list"
  action_policy :: Revision
  accounting_treatment :: AccountingTreatment
  action_depends_on :: "string list"

datatype ObligationKind = FinancingDraw | FinancingRepayment | CollateralRelease | SecurityDelivery
  | SecurityReceipt | CashPayment | CashReceipt | TerminationPayment | TerminationReceipt
  | CollateralReturnReceived | CollateralReturnPaid

datatype CollateralKind = VariationMargin | InitialMargin

datatype ObligationState = PendingState | SettledState | FailedState

record SettlementObligation =
  obligation_id :: string
  source_event :: string
  obligation_account_id :: string
  obligation_kind :: ObligationKind
  obligation_cash :: f64
  obligation_lot_id :: "string option"
  obligation_quantity :: f64
  obligation_pledge_id :: "string option"
  obligation_facility_id :: "string option"
  obligation_action_id :: "string option"
  obligation_agreement_id :: "string option"
  collateral :: "CollateralKind option"
  due_ordinal :: i32
  phase :: nat
  sequence :: nat
  depends_on :: "string list"
  obligation_state :: ObligationState

record LifecycleRequest =
  schema :: string
  model_version :: string
  workspace_revision :: Revision
  saved_book_revision :: Revision
  entity :: string
  currency :: string
  monetary_unit :: string
  as_of_ordinal :: i32
  settlement_policy :: Revision
  sources :: "SourceRef list"
  accounts :: "OpeningAccount list"
  lots :: "PositionLot list"
  hedge_allocations :: "HedgeAllocation list"
  funding_allocations :: "FundingAllocation list"
  pledges :: "Pledge list"
  margin_agreements :: "MarginAgreement list"
  facilities :: "Facility list"
  formal_relationships :: "FormalRelationship list"
  actions :: "LifecycleAction list"
  obligations :: "SettlementObligation list"

section \<open>Journal kinds\<close>

text \<open>
  \<open>journal.rs\<close>: \<open>enum Kind\<close> with its derived \<open>Ord\<close> (declaration order) and the predicates that
  decide which ledger account a line goes to.
\<close>

datatype Kind = Cash | OpeningEquity | AssetPrincipal | BookAdjustment | InterestReceivable
  | FundingPrincipal | DerivativeAsset | DerivativeLiability | PostedVm | ReceivedVm | PostedIm
  | UnpaidReceivable | UnpaidPayable | FeeExpense | RealizedGainLoss | InterestExpense
  | CustodyAsset | CustodyObligation

fun kind_index :: "Kind \<Rightarrow> nat" where
  "kind_index Cash = 0" | "kind_index OpeningEquity = 1" | "kind_index AssetPrincipal = 2"
| "kind_index BookAdjustment = 3" | "kind_index InterestReceivable = 4"
| "kind_index FundingPrincipal = 5" | "kind_index DerivativeAsset = 6"
| "kind_index DerivativeLiability = 7" | "kind_index PostedVm = 8" | "kind_index ReceivedVm = 9"
| "kind_index PostedIm = 10" | "kind_index UnpaidReceivable = 11" | "kind_index UnpaidPayable = 12"
| "kind_index FeeExpense = 13" | "kind_index RealizedGainLoss = 14"
| "kind_index InterestExpense = 15" | "kind_index CustodyAsset = 16"
| "kind_index CustodyObligation = 17"

lemma kind_index_eq: "kind_index a = kind_index b \<longleftrightarrow> a = b"
  by (cases a; cases b) simp_all

instantiation Kind :: linorder
begin

definition less_eq_Kind :: "Kind \<Rightarrow> Kind \<Rightarrow> bool" where
  "less_eq_Kind a b \<longleftrightarrow> kind_index a \<le> kind_index b"

definition less_Kind :: "Kind \<Rightarrow> Kind \<Rightarrow> bool" where
  "less_Kind a b \<longleftrightarrow> kind_index a < kind_index b"

instance
  by standard (auto simp: less_eq_Kind_def less_Kind_def kind_index_eq)

end

fun gl :: "Kind \<Rightarrow> string" where
  "gl Cash = ''cash''"
| "gl OpeningEquity = ''opening_equity''"
| "gl AssetPrincipal = ''asset_principal''"
| "gl BookAdjustment = ''book_adjustment''"
| "gl InterestReceivable = ''dated_interest_receivable''"
| "gl FundingPrincipal = ''funding_principal''"
| "gl DerivativeAsset = ''derivative_asset''"
| "gl DerivativeLiability = ''derivative_liability''"
| "gl PostedVm = ''derivative_posted_vm_asset''"
| "gl ReceivedVm = ''derivative_received_vm_liability''"
| "gl PostedIm = ''derivative_posted_im_asset''"
| "gl UnpaidReceivable = ''derivative_unpaid_receivable''"
| "gl UnpaidPayable = ''derivative_unpaid_payable''"
| "gl FeeExpense = ''pnl:lifecycle_fees''"
| "gl RealizedGainLoss = ''pnl:lifecycle_realized''"
| "gl InterestExpense = ''pnl:lifecycle_interest''"
| "gl CustodyAsset = ''memo:derivative_custodian_asset''"
| "gl CustodyObligation = ''memo:derivative_custodian_obligation''"

definition memo :: "Kind \<Rightarrow> bool" where
  "memo k \<longleftrightarrow> k \<in> {CustodyAsset, CustodyObligation}"

definition pnl :: "Kind \<Rightarrow> bool" where
  "pnl k \<longleftrightarrow> k \<in> {FeeExpense, RealizedGainLoss, InterestExpense}"

definition stock :: "Kind \<Rightarrow> bool" where
  "stock k \<longleftrightarrow> \<not> memo k \<and> \<not> pnl k \<and> k \<notin> {Cash, OpeningEquity}"

definition signed :: "Kind \<Rightarrow> bool" where
  "signed k \<longleftrightarrow> k = BookAdjustment"

definition liability :: "Kind \<Rightarrow> bool" where
  "liability k \<longleftrightarrow> k \<in> {FundingPrincipal, DerivativeLiability, ReceivedVm, UnpaidPayable}"

record Line =
  line_kind :: Kind
  instrument :: string
  debit :: f64

record Intent =
  intent_event_id :: string
  intent_ordinal :: i32
  intent_phase :: nat
  intent_sequence :: nat
  intent_memo :: bool
  intent_lines :: "Line list"

record Inventory =
  inventory_lot_id :: string
  owned :: f64
  inventory_pledged :: f64
  inventory_outside_encumbrance :: f64
  available :: f64

record Closing =
  closing_ordinal :: i32
  financial :: "(Kind \<times> f64) list"
  custody :: "(Kind \<times> f64) list"
  closing_total_cash :: f64
  usable_cash :: f64
  inventory :: "Inventory list"

text \<open>
  The general-ledger account names are pairwise distinct, and the account's prefix says which
  class it is in: \<open>memo:\<close> custody, \<open>pnl:\<close> earnings, no prefix otherwise; every kind is exactly
  one of cash, opening equity, custody, earnings or a balance-sheet stock.
\<close>

lemma gl_inj: "gl a = gl b \<longleftrightarrow> a = b"
  by (cases a; cases b) simp_all

lemma chart_of_accounts:
  "inj gl \<and> (memo k \<longleftrightarrow> take 5 (gl k) = ''memo:'') \<and> (pnl k \<longleftrightarrow> take 4 (gl k) = ''pnl:'')
   \<and> length (filter id [memo k, pnl k, stock k, k = Cash, k = OpeningEquity]) = 1
   \<and> Collect liability \<union> Collect signed \<subseteq> Collect stock"
  by (auto simp: inj_def gl_inj liability_def signed_def stock_def memo_def pnl_def) (cases k; simp add: memo_def pnl_def stock_def liability_def signed_def)+

end
