(* ===== verification/Lifecycle_Admission.thy ===== *)
theory Lifecycle_Admission
  imports Lifecycle_Types Dependency_Graph "HOL-Library.List_Lexorder" "HOL-Library.Char_ord"
    "HOL-Library.Product_Lexorder"
begin

text \<open>
  The admission of a lifecycle plan, \<open>portfolio-model-core/src/lifecycle/admission.rs\<close>: one
  definition per section of \<open>validate\<close>, in its order. A \<open>HashMap\<close> collected from a vector
  is \<open>last_by\<close>; a \<open>HashSet\<close> a set; a \<open>BTreeMap\<close> the association list sorted by key.
  Where \<open>validate\<close> iterates a \<open>HashMap\<close>, the unspecified order is that of a rank
  \<open>hash i\<close> of the keys (one rank per map iterated), a parameter: any order of distinct keys is
  the order of some rank, and every theorem holds for all of them. The order only decides which
  of several offending identities a refusal names.
\<close>

section \<open>Sequences of checks\<close>

definition guard :: "bool \<Rightarrow> 'e \<Rightarrow> ('e, unit) result" where
  "guard c e = (if c then Ok () else Err e)"

definition ignore :: "('e, 'a) result \<Rightarrow> ('e, unit) result" where
  "ignore r = and_then r (\<lambda>_. Ok ())"

fun checks :: "('e, unit) result list \<Rightarrow> ('e, unit) result" where
  "checks [] = Ok ()"
| "checks (r # rs) = and_then r (\<lambda>_. checks rs)"

lemma guard_simps [simp]: "guard c e = Ok u \<longleftrightarrow> c" "guard c e \<noteq> Panic"
  by (simp_all add: guard_def)

lemma ignore_simps [simp]: "ignore r = Ok () \<longleftrightarrow> (\<exists>x. r = Ok x)" "ignore r = Panic \<longleftrightarrow> r = Panic"
  by (cases r; simp add: ignore_def)+

section \<open>Field checks\<close>

definition malformed :: "string \<Rightarrow> Refusal" where
  "malformed d = refusal_new MALFORMED_INPUT [Txt d]"

definition missing :: "string \<Rightarrow> Refusal" where
  "missing d = refusal_new LIFECYCLE_MAPPING_REQUIRED [Txt d]"

definition money :: "f64 \<Rightarrow> string \<Rightarrow> (Refusal, f64) result" where
  "money x what = (if is_finite x \<and> fabs x \<le> MAX_MONETARY_AMOUNT then Ok x
     else Err (malformed (what @ '' must be finite and within the monetary domain'')))"

definition positive :: "f64 \<Rightarrow> string \<Rightarrow> (Refusal, f64) result" where
  "positive x what = and_then (money x what) (\<lambda>v.
     if 0 < v then Ok x else Err (malformed (what @ '' must be positive'')))"

text \<open>\<open>fn text\<close>.\<close>

definition bounded_text :: "string \<Rightarrow> string \<Rightarrow> (Refusal, unit) result" where
  "bounded_text x what = guard (\<not> (x = [] \<or> 256 < length x \<or> has_control x))
     (malformed (what @ '' must be nonempty bounded text''))"

definition bounded :: "'a list \<Rightarrow> string \<Rightarrow> (Refusal, unit) result" where
  "bounded items what = guard (\<not> MAX_RECORDS < length items)
     (refusal_new BOUND_EXCEEDED [Txt (what @ '' exceed 16384 records'')])"

definition unique :: "string list \<Rightarrow> string \<Rightarrow> (Refusal, string set) result" where
  "unique ids what = fold_res (\<lambda>seen ident.
     and_then (bounded_text ident what) (\<lambda>_.
     require (ident \<notin> seen)
       (refusal_new DUPLICATE_IDENTITY [Txt (''duplicate '' @ what @ '' `'' @ ident @ ''`'')])
       (Ok (insert ident seen)))) {} ids"

definition revision :: "Revision \<Rightarrow> string \<Rightarrow> (Refusal, unit) result" where
  "revision r what = checks [bounded_text (rev_id r) what, bounded_text (revision_text r) what]"

definition within_limit :: "f64 \<Rightarrow> f64 \<Rightarrow> bool" where
  "within_limit used capacity \<longleftrightarrow> used \<le> capacity + f64_lit 1 1000000000 * fmax (fabs capacity) 1"

section \<open>Peak concurrent allocation\<close>

type_synonym interval = "string \<times> i32 \<times> i32 option \<times> f64"

text \<open>The events of one key in the order the loop pushes them; ends carry the tag 0.\<close>

fun interval_events :: "string \<Rightarrow> interval \<Rightarrow> (i32 \<times> nat \<times> f64) list" where
  "interval_events k (key, start, stop, a) =
     (if key = k then (start, 1, a) # (case stop of Some e \<Rightarrow> [(e, 0, - a)] | None \<Rightarrow> []) else [])"

definition key_events :: "interval list \<Rightarrow> string \<Rightarrow> (i32 \<times> nat \<times> f64) list" where
  "key_events intervals k =
     sort_key (\<lambda>(ordinal, tag, _). (ordinal, tag)) (concat (map (interval_events k) intervals))"

definition peak_level :: "(i32 \<times> nat \<times> f64) list \<Rightarrow> f64" where
  "peak_level events = snd (foldl (\<lambda>(level, mx) (_, _, delta).
     let level = level + delta in (level, fmax mx level)) (0, 0) events)"

text \<open>The result map, as its entries in the iteration order of the rank \<open>h\<close>.\<close>

definition peak :: "(string \<Rightarrow> nat) \<Rightarrow> interval list \<Rightarrow> (string \<times> f64) list" where
  "peak h intervals = map (\<lambda>k. (k, peak_level (key_events intervals k)))
     (sort_key h (remdups (map fst intervals)))"

section \<open>Header, sources and accounts\<close>

definition validate_header :: "LifecycleRequest \<Rightarrow> (Refusal, unit) result" where
  "validate_header r = checks [
     guard (schema r = SCHEMA \<and> model_version r = SCHEMA)
       (refusal_new UNSUPPORTED_POLICY [Txt ''explicit liquidity-lifecycle-1 selection required'']),
     guard (monetary_unit r = ''currency_units'')
       (refusal_new UNSUPPORTED_POLICY [Txt ''monetary unit must be currency_units'']),
     bounded_text (entity r) ''entity'',
     guard (length (currency r) = 3 \<and> list_all is_ascii_uppercase (currency r))
       (malformed ''currency must be three uppercase letters''),
     revision (workspace_revision r) ''workspace revision'',
     revision (saved_book_revision r) ''saved book revision'',
     revision (settlement_policy r) ''settlement policy'',
     bounded (sources r) ''sources'',
     bounded (accounts r) ''accounts'',
     bounded (lots r) ''lots'',
     bounded (hedge_allocations r) ''hedge allocations'',
     bounded (funding_allocations r) ''funding allocations'',
     bounded (pledges r) ''pledges'',
     bounded (margin_agreements r) ''margin agreements'',
     bounded (facilities r) ''facilities'',
     bounded (formal_relationships r) ''formal relationships'',
     bounded (actions r) ''actions'',
     bounded (obligations r) ''obligations'']"

definition validate_sources :: "LifecycleRequest \<Rightarrow> (Refusal, unit) result" where
  "validate_sources r = checks [
     ignore (unique (map source_id (sources r)) ''source''),
     for_each (sources r) (\<lambda>s. checks [
       bounded_text (source_revision s) ''source revision'',
       guard (length (sha256 s) = 64
              \<and> list_all (\<lambda>c. is_ascii_hexdigit c \<and> \<not> is_ascii_uppercase c) (sha256 s))
         (malformed (''source `'' @ source_id s @ ''` sha256 must be 64 lowercase hex digits''))])]"

definition validate_accounts :: "LifecycleRequest \<Rightarrow> (Refusal, unit) result" where
  "validate_accounts r = checks [
     ignore (unique (map account_id (accounts r)) ''account''),
     for_each (accounts r) (\<lambda>a. checks [
       ignore (money (account_cash a) ''opening cash''),
       ignore (money (equity a) ''opening equity'')])]"

section \<open>Lots\<close>

abbreviation lot_map :: "LifecycleRequest \<Rightarrow> string \<Rightarrow> PositionLot option" where
  "lot_map r \<equiv> last_by lot_id (lots r)"

text \<open>The closure \<open>lot\<close> of \<open>validate\<close>.\<close>

definition find_lot :: "LifecycleRequest \<Rightarrow> string \<Rightarrow> string \<Rightarrow> (Refusal, PositionLot) result" where
  "find_lot r ident what =
     ok_or (lot_map r ident) (missing (what @ '' names unknown lot `'' @ ident @ ''`''))"

definition lot_consistent :: "PositionLot \<Rightarrow> bool" where
  "lot_consistent l = (case lot_kind l of
     Derivative \<Rightarrow> accounting_category l = DerivativeCategory
   | Funding \<Rightarrow> accounting_category l = FundingLiability
   | Security \<Rightarrow> accounting_category l \<notin> {DerivativeCategory, FundingLiability}
   | Loan \<Rightarrow> accounting_category l \<notin> {DerivativeCategory, FundingLiability})"

definition validate_lot :: "LifecycleRequest \<Rightarrow> PositionLot \<Rightarrow> (Refusal, unit) result" where
  "validate_lot r l = checks [
     bounded_text (position_id l) ''position'',
     (case last_by source_id (sources r) (lot_source_id l) of
        None \<Rightarrow> Err (missing (''lot `'' @ lot_id l @ ''` names unknown source `'' @ lot_source_id l @ ''`''))
      | Some s \<Rightarrow> guard (measure s = Physical)
          (refusal_new UNSUPPORTED_POLICY [Txt (''lot `'' @ lot_id l @ ''` needs a Physical source'')])),
     guard (lot_account_id l \<in> account_id ` set (accounts r))
       (missing (''lot `'' @ lot_id l @ ''` names unknown account `'' @ lot_account_id l @ ''`'')),
     ignore (positive (lot_quantity l) ''lot quantity''),
     ignore (money (original_cost l) ''original cost''),
     ignore (money (original_effective_yield l) ''original effective yield''),
     ignore (money (original_oas l) ''original OAS''),
     and_then (money (outside_encumbrance l) ''outside encumbrance'') (\<lambda>v.
       guard (\<not> (v < 0 \<or> \<not> within_limit (outside_encumbrance l) (lot_quantity l)))
         (malformed (''lot `'' @ lot_id l @ ''` outside encumbrance must lie in [0, quantity]''))),
     guard (lot_consistent l)
       (refusal_new UNSUPPORTED_POLICY
          [Txt (''lot `'' @ lot_id l @ ''` kind and accounting category differ'')])]"

definition validate_lots :: "LifecycleRequest \<Rightarrow> (Refusal, unit) result" where
  "validate_lots r = checks [
     ignore (unique (map lot_id (lots r)) ''lot''),
     for_each (lots r) (validate_lot r)]"

section \<open>Formal relationships and allocations\<close>

definition validate_formal :: "LifecycleRequest \<Rightarrow> FormalRelationship \<Rightarrow> (Refusal, unit) result" where
  "validate_formal r f = checks [
     bounded_text (relationship_revision f) ''formal relationship revision'',
     revision (adoption_policy f) ''adoption policy'',
     guard (\<not> (last_by source_id (sources r) (source_id (accounting_source f)) \<noteq> Some (accounting_source f)
                \<or> measure (accounting_source f) \<noteq> Physical))
       (missing (''formal relationship `'' @ relationship_id f
          @ ''` accounting source must be a listed immutable source'')),
     guard (\<not> (hedging_lot_ids f = []
                \<or> (hedged_lot_ids f = []) = (forecast_exposure_id f = None)))
       (malformed (''formal relationship `'' @ relationship_id f
          @ ''` needs hedging lots and exactly one of hedged lots or a forecast exposure'')),
     for_each (hedging_lot_ids f) (\<lambda>ident.
       and_then (find_lot r ident ''formal relationship'') (\<lambda>l.
       guard (lot_kind l = Derivative)
         (refusal_new UNSUPPORTED_POLICY [Txt ''formal hedging instruments must be derivative lots'']))),
     for_each (hedged_lot_ids f) (\<lambda>ident. ignore (find_lot r ident ''formal relationship''))]"

definition validate_formals :: "LifecycleRequest \<Rightarrow> (Refusal, unit) result" where
  "validate_formals r = checks [
     ignore (unique (map relationship_id (formal_relationships r)) ''formal relationship''),
     for_each (formal_relationships r) (validate_formal r)]"

definition validate_hedge :: "LifecycleRequest \<Rightarrow> HedgeAllocation \<Rightarrow> (Refusal, unit) result" where
  "validate_hedge r a = checks [
     revision (hedge_review a) ''hedge allocation review'',
     ignore (positive (hedge_amount a) ''hedge allocation amount''),
     and_then (find_lot r (exposure_lot_id a) ''hedge allocation'') (\<lambda>exposure.
     and_then (find_lot r (hedge_lot_id a) ''hedge allocation'') (\<lambda>hedge.
       guard (\<not> (lot_kind hedge \<noteq> Derivative \<or> lot_kind exposure = Derivative))
         (refusal_new UNSUPPORTED_POLICY [Txt (''hedge allocation `'' @ hedge_allocation_id a
            @ ''` must link a derivative lot to a non-derivative exposure'')]))),
     guard (case hedge_end_ordinal a of None \<Rightarrow> True | Some e \<Rightarrow> \<not> e \<le> hedge_start_ordinal a)
       (malformed (''hedge allocation `'' @ hedge_allocation_id a @ ''` interval is empty'')),
     (case formal_relationship_id a of None \<Rightarrow> Ok () | Some ident \<Rightarrow>
        and_then (ok_or (last_by relationship_id (formal_relationships r) ident)
          (missing (''hedge allocation `'' @ hedge_allocation_id a
             @ ''` names unknown formal relationship `'' @ ident @ ''`''))) (\<lambda>f.
        guard (\<not> (hedge_lot_id a \<notin> set (hedging_lot_ids f)
                   \<or> (forecast_exposure_id f = None \<and> exposure_lot_id a \<notin> set (hedged_lot_ids f))))
          (missing (''hedge allocation `'' @ hedge_allocation_id a
             @ ''` lots are not part of formal relationship `'' @ ident @ ''`''))))]"

definition exposure_use :: "HedgeAllocation \<Rightarrow> interval" where
  "exposure_use a = (exposure_lot_id a, hedge_start_ordinal a, hedge_end_ordinal a, hedge_amount a)"

definition hedge_use :: "HedgeAllocation \<Rightarrow> interval" where
  "hedge_use a = (hedge_lot_id a, hedge_start_ordinal a, hedge_end_ordinal a, hedge_amount a)"

definition validate_hedges :: "LifecycleRequest \<Rightarrow> (Refusal, unit) result" where
  "validate_hedges r = checks [
     ignore (unique (map hedge_allocation_id (hedge_allocations r)) ''hedge allocation''),
     for_each (hedge_allocations r) (validate_hedge r)]"

definition validate_funding :: "LifecycleRequest \<Rightarrow> FundingAllocation \<Rightarrow> (Refusal, unit) result" where
  "validate_funding r a = checks [
     ignore (positive (funding_amount a) ''funding allocation amount''),
     and_then (find_lot r (funding_lot_id a) ''funding allocation'') (\<lambda>funding.
     and_then (find_lot r (attributed_lot_id a) ''funding allocation'') (\<lambda>attributed.
       guard (\<not> (lot_kind funding \<noteq> Funding \<or> lot_kind attributed \<in> {Funding, Derivative}))
         (refusal_new UNSUPPORTED_POLICY [Txt (''funding allocation `'' @ funding_allocation_id a
            @ ''` must attribute a funding lot to an asset lot'')]))),
     guard (case funding_end_ordinal a of None \<Rightarrow> True | Some e \<Rightarrow> \<not> e \<le> funding_start_ordinal a)
       (malformed (''funding allocation `'' @ funding_allocation_id a @ ''` interval is empty''))]"

definition funding_use :: "FundingAllocation \<Rightarrow> interval" where
  "funding_use a = (funding_lot_id a, funding_start_ordinal a, funding_end_ordinal a, funding_amount a)"

definition attributed_use :: "FundingAllocation \<Rightarrow> interval" where
  "attributed_use a =
     (attributed_lot_id a, funding_start_ordinal a, funding_end_ordinal a, funding_amount a)"

definition validate_fundings :: "LifecycleRequest \<Rightarrow> (Refusal, unit) result" where
  "validate_fundings r = checks [
     ignore (unique (map funding_allocation_id (funding_allocations r)) ''funding allocation''),
     for_each (funding_allocations r) (validate_funding r)]"

text \<open>\<open>lots[id.as_str()]\<close> panics on an unknown lot.\<close>

definition within_lots ::
    "LifecycleRequest \<Rightarrow> (string \<Rightarrow> nat) \<Rightarrow> interval list \<Rightarrow> string \<Rightarrow> (Refusal, unit) result" where
  "within_lots r h uses what = for_each (peak h uses) (\<lambda>(ident, used).
     and_then (unwrap (lot_map r ident)) (\<lambda>l.
     guard (within_limit used (lot_quantity l))
       (refusal_new OVERALLOCATION [Txt (what @ '' `'' @ ident @ ''` exceed its quantity'')])))"

definition validate_allocations ::
    "(nat \<Rightarrow> string \<Rightarrow> nat) \<Rightarrow> LifecycleRequest \<Rightarrow> (Refusal, unit) result" where
  "validate_allocations hash r = checks [
     within_lots r (hash 0) (map exposure_use (hedge_allocations r))
       ''hedge allocations on exposure lot'',
     within_lots r (hash 1) (map hedge_use (hedge_allocations r))
       ''hedge allocations on hedging lot'',
     within_lots r (hash 2) (map funding_use (funding_allocations r))
       ''funding allocations on funding lot'',
     within_lots r (hash 3) (map attributed_use (funding_allocations r))
       ''funding allocations on attributed lot'']"

section \<open>Margin agreements\<close>

text \<open>The reads \<open>m.correlations[i][j]\<close> and \<open>m.bucket_upper_days[0]\<close> panic out of range.\<close>

definition cell :: "f64 list list \<Rightarrow> nat \<Rightarrow> nat \<Rightarrow> ('e, f64) result" where
  "cell c i j = and_then (nth_checked c i) (\<lambda>row. nth_checked row j)"

definition bad_cell :: "f64 list list \<Rightarrow> nat \<Rightarrow> nat \<Rightarrow> ('e, bool) result" where
  "bad_cell c i j = and_then (cell c i j) (\<lambda>v. or_res (Ok (\<not> is_finite v \<or> 1 < fabs v))
     (and_then (cell c j i) (\<lambda>w. Ok (\<not> feq v w))))"

definition bad_matrix :: "nat \<Rightarrow> f64 list list \<Rightarrow> ('e, bool) result" where
  "bad_matrix n c =
     or_res (Ok (length c \<noteq> n \<or> list_ex (\<lambda>row. length row \<noteq> n) c))
    (or_res (any_res (\<lambda>i. and_then (cell c i i) (\<lambda>v. Ok (\<not> feq v 1))) [0..<n])
       (any_res (\<lambda>i. any_res (bad_cell c i) [0..<n]) [0..<n]))"

definition bad_bounds :: "i32 list \<Rightarrow> ('e, bool) result" where
  "bad_bounds days = or_res (Ok (list_ex (\<lambda>(a, b). b \<le> a) (zip days (tl days))))
     (and_then (nth_checked days 0) (\<lambda>first. Ok (first \<le> 0)))"

definition validate_method :: "MarginMethod \<Rightarrow> (Refusal, unit) result" where
  "validate_method m = (let n = length (bucket_upper_days m) in checks [
     guard (method_name m = RESEARCH_IM_METHOD)
       (refusal_new UNSUPPORTED_POLICY [Txt (''IM method `'' @ method_name m
          @ ''` is not implemented; only research-sensitivity-im-1'')]),
     bounded_text (method_revision m) ''IM method revision'',
     revision (method_review m) ''IM method review'',
     guard (\<not> (n = 0 \<or> MAX_MARGIN_BUCKETS < n)) (malformed ''an IM method has 1 to 16 buckets''),
     and_then (bad_bounds (bucket_upper_days m)) (\<lambda>bad. guard (\<not> bad)
       (malformed ''IM bucket bounds must be positive and increasing'')),
     guard (\<not> (length (risk_weights m) \<noteq> n \<or> list_ex (\<lambda>w. \<not> is_finite w \<or> w < 0) (risk_weights m)))
       (malformed ''one finite nonnegative risk weight per IM bucket''),
     and_then (bad_matrix n (correlations m)) (\<lambda>bad. guard (\<not> bad)
       (malformed ''IM correlations are a symmetric bucket matrix with unit diagonal and entries in [-1, 1]''))])"

definition validate_mode :: "MarginAgreement \<Rightarrow> (Refusal, unit) result" where
  "validate_mode a = (case margin_method a of
     Some m \<Rightarrow>
       if initial_margin a = ResearchSensitivity then validate_method m
       else Err (malformed ''an IM method is selected only with the research sensitivity mode'')
   | None \<Rightarrow>
       guard (initial_margin a \<noteq> ResearchSensitivity)
         (malformed ''the research sensitivity IM mode needs its reviewed method''))"

definition opening_amount :: "f64 \<Rightarrow> string \<Rightarrow> (Refusal, unit) result" where
  "opening_amount v what = and_then (money v what) (\<lambda>x.
     guard (\<not> x < 0) (malformed (''opening '' @ what @ '' must be nonnegative'')))"

definition scope_lot ::
    "LifecycleRequest \<Rightarrow> string set \<Rightarrow> string \<Rightarrow> (Refusal, string set) result" where
  "scope_lot r scoped ident = and_then (find_lot r ident ''margin agreement'') (\<lambda>l.
     require (lot_kind l = Derivative)
       (refusal_new UNSUPPORTED_POLICY [Txt ''margin agreements scope derivative lots''])
     (require (ident \<notin> scoped)
       (refusal_new DUPLICATE_IDENTITY [Txt (''lot `'' @ ident @ ''` is in two legal margin scopes'')])
     (Ok (insert ident scoped))))"

definition validate_agreement ::
    "LifecycleRequest \<Rightarrow> string set \<Rightarrow> MarginAgreement \<Rightarrow> (Refusal, string set) result" where
  "validate_agreement r scoped a = and_then (checks [
     bounded_text (counterparty a) ''counterparty'',
     revision (legal_review a) ''legal review'',
     revision (agreement_calendar a) ''calendar'',
     validate_mode a,
     (case opening_collateral a of None \<Rightarrow> Ok () | Some c \<Rightarrow> checks [
        opening_amount (opening_posted_vm c) ''posted VM'',
        opening_amount (opening_received_vm c) ''received VM'',
        opening_amount (opening_posted_im c) ''posted IM'',
        opening_amount (opening_received_im_custody c) ''received IM''])])
     (\<lambda>_. fold_res (scope_lot r) scoped (agreement_lot_ids a))"

definition validate_agreements :: "LifecycleRequest \<Rightarrow> (Refusal, unit) result" where
  "validate_agreements r = checks [
     ignore (unique (map agreement_id (margin_agreements r)) ''margin agreement''),
     ignore (fold_res (validate_agreement r) {} (margin_agreements r))]"

section \<open>Pledges and facilities\<close>

text \<open>\<open>*m.entry(k).or_default() += x\<close> on a \<open>HashMap<&str, f64>\<close>.\<close>

definition entry_add :: "(string \<Rightarrow> f64 option) \<Rightarrow> string \<Rightarrow> f64 \<Rightarrow> (string \<Rightarrow> f64 option)" where
  "entry_add m k x = m(k \<mapsto> (case m k of Some v \<Rightarrow> v | None \<Rightarrow> 0) + x)"

definition validate_pledge ::
    "LifecycleRequest \<Rightarrow> (string \<Rightarrow> f64 option) \<Rightarrow> Pledge \<Rightarrow> (Refusal, string \<Rightarrow> f64 option) result" where
  "validate_pledge r pledged p = and_then (checks [
     bounded_text (holder p) ''pledge holder'',
     revision (eligibility p) ''pledge eligibility'',
     ignore (positive (pledge_quantity p) ''pledge quantity''),
     and_then (money (haircut p) ''haircut'') (\<lambda>v.
       guard (\<not> (v < 0 \<or> 1 \<le> haircut p)) (malformed ''haircut must lie in [0, 1)'')),
     and_then (find_lot r (pledge_lot_id p) ''pledge'') (\<lambda>l.
       guard (lot_kind l = Security)
         (refusal_new UNSUPPORTED_POLICY [Txt ''only security lots are pledged''])),
     guard (last_by agreement_id (margin_agreements r) (pledge_agreement_id p) \<noteq> None
            \<or> (case lot_map r (pledge_agreement_id p) of None \<Rightarrow> False | Some l \<Rightarrow> lot_kind l = Funding))
       (missing (''pledge `'' @ pledge_id p @ ''` names unknown agreement `''
          @ pledge_agreement_id p @ ''`''))])
     (\<lambda>_. Ok (entry_add pledged (pledge_lot_id p) (pledge_quantity p)))"

definition pledged_lot ::
    "LifecycleRequest \<Rightarrow> (string \<Rightarrow> f64 option) \<Rightarrow> string \<Rightarrow> (Refusal, unit) result" where
  "pledged_lot r pledged ident =
     and_then (unwrap (pledged ident)) (\<lambda>used.
     and_then (unwrap (lot_map r ident)) (\<lambda>l.
     guard (within_limit (used + outside_encumbrance l) (lot_quantity l))
       (refusal_new OVERALLOCATION
          [Txt (''pledges and outside encumbrance on lot `'' @ ident @ ''` exceed its quantity'')])))"

definition validate_pledges ::
    "(nat \<Rightarrow> string \<Rightarrow> nat) \<Rightarrow> LifecycleRequest \<Rightarrow> (Refusal, unit) result" where
  "validate_pledges hash r = checks [
     ignore (unique (map pledge_id (pledges r)) ''pledge''),
     and_then (fold_res (validate_pledge r) (\<lambda>_. None) (pledges r)) (\<lambda>pledged.
       for_each (sort_key (hash 4) (remdups (map pledge_lot_id (pledges r)))) (pledged_lot r pledged))]"

definition validate_facility :: "Facility \<Rightarrow> (Refusal, unit) result" where
  "validate_facility f = checks [
     bounded_text (provider f) ''facility provider'',
     revision (access_policy f) ''facility access policy'',
     ignore (positive (commitment f) ''facility commitment''),
     and_then (money (drawn f) ''facility drawn'') (\<lambda>v.
       guard (\<not> (v < 0 \<or> \<not> within_limit (drawn f) (commitment f)))
         (refusal_new OVERALLOCATION
            [Txt (''facility `'' @ facility_id f @ ''` is drawn beyond its commitment'')]))]"

definition validate_facilities :: "LifecycleRequest \<Rightarrow> (Refusal, unit) result" where
  "validate_facilities r = checks [
     ignore (unique (map facility_id (facilities r)) ''facility''),
     for_each (facilities r) validate_facility]"

section \<open>Actions\<close>

text \<open>One lot of an action; the state is the action's \<open>seen\<close> set and the plan's \<open>sold\<close> map.\<close>

definition sell_lot :: "LifecycleAction \<Rightarrow> PositionLot \<Rightarrow> (string \<Rightarrow> f64 option) \<Rightarrow> ActionLot
    \<Rightarrow> (Refusal, string \<Rightarrow> f64 option) result" where
  "sell_lot a l sold x =
     (if action_kind a = Unwind then
        let sold = entry_add sold (action_lot_id x) (action_quantity x) in
        require (case sold (action_lot_id x) of None \<Rightarrow> False | Some tot \<Rightarrow> within_limit tot (lot_quantity l))
          (refusal_new OVERALLOCATION
             [Txt (''unwinds of lot `'' @ action_lot_id x @ ''` exceed its quantity'')])
          (Ok sold)
      else Ok sold)"

definition formal_owned :: "LifecycleRequest \<Rightarrow> LifecycleAction \<Rightarrow> ActionLot \<Rightarrow> (Refusal, unit) result" where
  "formal_owned r a x =
     (if accounting_treatment a = Formal then
        for_each (filter (\<lambda>h. exposure_lot_id h = action_lot_id x \<or> hedge_lot_id h = action_lot_id x)
            (hedge_allocations r)) (\<lambda>h.
          guard (formal_relationship_id h \<noteq> None)
            (refusal_new FORMAL_OWNER_REQUIRED [Txt (''formal treatment of action `'' @ action_id a
               @ ''` needs a formal relationship for allocation `'' @ hedge_allocation_id h @ ''`'')]))
      else Ok ())"

definition action_lot :: "LifecycleRequest \<Rightarrow> LifecycleAction \<Rightarrow> string set \<times> (string \<Rightarrow> f64 option)
    \<Rightarrow> ActionLot \<Rightarrow> (Refusal, string set \<times> (string \<Rightarrow> f64 option)) result" where
  "action_lot r a = (\<lambda>(seen, sold) x.
     and_then (find_lot r (action_lot_id x) ''action'') (\<lambda>l.
     and_then (positive (action_quantity x) ''action quantity'') (\<lambda>_.
     require (\<not> (action_lot_id x \<in> seen \<or> \<not> within_limit (action_quantity x) (lot_quantity l)))
       (malformed (''action `'' @ action_id a @ ''` lot `'' @ action_lot_id x
          @ ''` repeats or exceeds its quantity''))
     (and_then (sell_lot a l sold x) (\<lambda>sold.
      and_then (formal_owned r a x) (\<lambda>_. Ok (insert (action_lot_id x) seen, sold)))))))"

definition validate_action :: "LifecycleRequest \<Rightarrow> (string \<Rightarrow> f64 option) \<times> (string \<times> string list) list
    \<Rightarrow> LifecycleAction \<Rightarrow> (Refusal, (string \<Rightarrow> f64 option) \<times> (string \<times> string list) list) result" where
  "validate_action r = (\<lambda>(sold, edges) a.
     and_then (checks [
       revision (action_policy a) ''action policy'',
       guard (as_of_ordinal r \<le> trade_ordinal a \<and> trade_ordinal a \<le> effective_ordinal a
              \<and> effective_ordinal a \<le> settlement_ordinal a)
         (malformed (''action `'' @ action_id a
            @ ''` needs as-of <= trade <= effective <= settlement'')),
       guard (\<not> (action_lots a = [] \<or> MAX_DEPENDENCIES < length (action_depends_on a)))
         (malformed (''action `'' @ action_id a @ ''` needs lots and bounded dependencies''))]) (\<lambda>_.
     and_then (fold_res (action_lot r a) ({}, sold) (action_lots a)) (\<lambda>(seen, sold).
     and_then (for_each (action_depends_on a) (\<lambda>d.
       guard (d \<in> action_id ` set (actions r))
         (missing (''action `'' @ action_id a @ ''` depends on unknown action `'' @ d @ ''`'')))) (\<lambda>_.
     Ok (sold, edges @ [(action_id a, action_depends_on a)])))))"

text \<open>
  The edges are a \<open>BTreeMap\<close>: the entries in key order (the identities are unique by the check
  before the loop, so no \<open>insert\<close> replaces an entry).
\<close>

definition validate_actions :: "LifecycleRequest \<Rightarrow> (Refusal, unit) result" where
  "validate_actions r = checks [
     ignore (unique (map action_id (actions r)) ''action''),
     and_then (fold_res (validate_action r) (\<lambda>_. None, []) (actions r)) (\<lambda>(_, edges).
       map_err (\<lambda>n. refusal_new SETTLEMENT_DEPENDENCY_CYCLE
           [Txt (''action dependency cycle through `'' @ n @ ''`'')])
         (acyclic_check (sort_key fst edges)))]"

section \<open>Obligations\<close>

definition shape :: "LifecycleRequest \<Rightarrow> SettlementObligation \<Rightarrow> bool" where
  "shape r ob = (let cash = obligation_cash ob; quantity = obligation_quantity ob;
      delivers = (feq cash 0 \<and> 0 < quantity
        \<and> (case obligation_lot_id ob of None \<Rightarrow> False
           | Some l \<Rightarrow> (case lot_map r l of None \<Rightarrow> False | Some l \<Rightarrow> lot_kind l = Security)));
      receipt = 0 < 1 * cash; payment = 0 < - 1 * cash in
     case obligation_kind ob of
       SecurityDelivery \<Rightarrow> delivers
     | SecurityReceipt \<Rightarrow> delivers
     | CollateralRelease \<Rightarrow> feq cash 0 \<and> 0 < quantity
         \<and> (case obligation_pledge_id ob of None \<Rightarrow> False
            | Some p \<Rightarrow> (case last_by pledge_id (pledges r) p of None \<Rightarrow> False
                | Some p \<Rightarrow> within_limit quantity (pledge_quantity p)))
     | FinancingDraw \<Rightarrow> receipt
         \<and> (case obligation_facility_id ob of None \<Rightarrow> False | Some f \<Rightarrow> f \<in> facility_id ` set (facilities r))
     | FinancingRepayment \<Rightarrow> payment
         \<and> (case obligation_facility_id ob of None \<Rightarrow> True | Some f \<Rightarrow> f \<in> facility_id ` set (facilities r))
     | CashReceipt \<Rightarrow> receipt | TerminationReceipt \<Rightarrow> receipt | CollateralReturnReceived \<Rightarrow> receipt
     | CashPayment \<Rightarrow> payment | TerminationPayment \<Rightarrow> payment | CollateralReturnPaid \<Rightarrow> payment)"

definition obligation_agreement ::
    "LifecycleRequest \<Rightarrow> SettlementObligation \<Rightarrow> (Refusal, unit) result" where
  "obligation_agreement r ob = (let ident = obligation_id ob in
     if obligation_kind ob \<in>
          {TerminationPayment, TerminationReceipt, CollateralReturnReceived, CollateralReturnPaid} then
       and_then (ok_or (Option.bind (obligation_agreement_id ob) (last_by agreement_id (margin_agreements r)))
         (missing (''obligation `'' @ ident @ ''` needs its margin agreement''))) (\<lambda>agreement.
       let returns = obligation_kind ob \<in> {CollateralReturnReceived, CollateralReturnPaid} in
       checks [
         guard (\<not> returns \<noteq> (collateral ob \<noteq> None))
           (malformed (''obligation `'' @ ident @ ''` collateral kind applies to collateral returns only'')),
         guard (\<not> (returns \<and> collateral ob = Some VariationMargin
             \<and> vm_at_termination agreement = ApplyAgainstConsideration
             \<and> list_ex (\<lambda>x. obligation_agreement_id x = obligation_agreement_id ob
                   \<and> obligation_kind x \<in> {TerminationPayment, TerminationReceipt}) (obligations r)))
           (refusal_new DUPLICATE_COLLATERAL_CREDIT
             [Txt (''VM applied against termination consideration cannot also be returned (`'' @ ident @ ''`)'')])])
     else guard (\<not> (obligation_agreement_id ob \<noteq> None \<or> collateral ob \<noteq> None))
       (malformed (''obligation `'' @ ident @ ''` names a margin agreement it does not settle'')))"

definition coordinate :: "SettlementObligation \<Rightarrow> i32 \<times> nat \<times> nat" where
  "coordinate ob = (due_ordinal ob, phase ob, sequence ob)"

type_synonym coordinates = "(string \<times> i32 \<times> nat \<times> nat) set"

definition obligation_dependency ::
    "LifecycleRequest \<Rightarrow> SettlementObligation \<Rightarrow> string \<Rightarrow> (Refusal, unit) result" where
  "obligation_dependency r ob d = (let ident = obligation_id ob in
     and_then (ok_or (last_by obligation_id (obligations r) d)
       (missing (''obligation `'' @ ident @ ''` depends on unknown `'' @ d @ ''`''))) (\<lambda>p.
     guard (\<not> (coordinate ob \<le> coordinate p \<and> obligation_account_id p = obligation_account_id ob))
       (refusal_new SETTLEMENT_ORDER
         [Txt (''obligation `'' @ ident @ ''` depends on `'' @ d @ ''`, which is not earlier'')])))"

definition validate_obligation ::
    "LifecycleRequest \<Rightarrow> coordinates \<times> (string \<times> string list) list \<Rightarrow> SettlementObligation
     \<Rightarrow> (Refusal, coordinates \<times> (string \<times> string list) list) result" where
  "validate_obligation r = (\<lambda>(seen, edges) ob. let ident = obligation_id ob in
     and_then (checks [
       guard (obligation_account_id ob \<in> account_id ` set (accounts r))
         (missing (''obligation `'' @ ident @ ''` names unknown account'')),
       ignore (money (obligation_cash ob) ''obligation cash''),
       ignore (money (obligation_quantity ob) ''obligation quantity''),
       guard (\<not> (due_ordinal ob < as_of_ordinal r \<or> MAX_DEPENDENCIES < length (depends_on ob)))
         (malformed (''obligation `'' @ ident
            @ ''` is before the as-of date or has too many dependencies'')),
       guard ((obligation_account_id ob, coordinate ob) \<notin> seen)
         (refusal_new SETTLEMENT_ORDER [Txt (''obligation `'' @ ident @ ''` repeats an event coordinate'')]),
       (case obligation_action_id ob of None \<Rightarrow> Ok () | Some a \<Rightarrow>
          guard (a \<in> action_id ` set (actions r))
            (missing (''obligation `'' @ ident @ ''` names unknown action `'' @ a @ ''`''))),
       guard (shape r ob) (malformed (''obligation `'' @ ident @ ''` fields do not match its kind'')),
       obligation_agreement r ob,
       for_each (depends_on ob) (obligation_dependency r ob)]) (\<lambda>_.
     Ok (insert (obligation_account_id ob, coordinate ob) seen, edges @ [(ident, depends_on ob)])))"

definition exclusive_owner :: "Refusal \<Rightarrow> Refusal" where
  "exclusive_owner e = refusal_new DUPLICATE_IDENTITY
     (Txt ''every source event has one exclusive owner: '' # detail e)"

definition validate_obligations :: "LifecycleRequest \<Rightarrow> (Refusal, unit) result" where
  "validate_obligations r = checks [
     ignore (unique (map obligation_id (obligations r)) ''obligation''),
     map_err exclusive_owner
       (ignore (unique (map source_event (obligations r)) ''obligation source event'')),
     and_then (fold_res (validate_obligation r) ({}, []) (obligations r)) (\<lambda>(_, edges).
       map_err (\<lambda>n. refusal_new SETTLEMENT_DEPENDENCY_CYCLE
           [Txt (''settlement dependency cycle through `'' @ n @ ''`'')])
         (acyclic_check (sort_key fst edges)))]"

section \<open>The whole admission\<close>

text \<open>\<open>fn validate\<close>; \<open>admission.rs\<close> runs the sections in this order.\<close>

definition validate_plan :: "(nat \<Rightarrow> string \<Rightarrow> nat) \<Rightarrow> LifecycleRequest \<Rightarrow> (Refusal, unit) result" where
  "validate_plan hash r = checks [validate_header r, validate_sources r, validate_accounts r,
     validate_lots r, validate_formals r, validate_hedges r, validate_fundings r,
     validate_allocations hash r, validate_agreements r, validate_pledges hash r,
     validate_facilities r, validate_actions r, validate_obligations r]"

section \<open>Facts about the checks\<close>

named_theorems no_panic \<open>calls that never panic\<close>

lemma Ok_unit_split: "(\<exists>x. r = Ok x \<and> P) \<longleftrightarrow> (\<exists>x. r = Ok x) \<and> P"
  by blast

lemma unit_result: "(\<exists>x :: unit. r = Ok x \<and> P x) \<longleftrightarrow> r = Ok () \<and> P ()"
  by (metis (full_types) unit.exhaust)

lemma checks_Ok_iff: "checks rs = Ok () \<longleftrightarrow> (\<forall>x \<in> set rs. x = Ok ())"
  by (induction rs) (auto simp: unit_result)

lemma checks_Panic [simp]: "checks (r # rs) = Panic \<longleftrightarrow> r = Panic \<or> (r = Ok () \<and> checks rs = Panic)"
  by (auto simp: unit_result)

lemma money_Ok_iff [simp]: "money x what = Ok v \<longleftrightarrow> v = x \<and> is_finite x \<and> fabs x \<le> MAX_MONETARY_AMOUNT"
  and money_no_Panic [simp, no_panic]: "money x what \<noteq> Panic"
  by (auto simp: money_def)

lemma positive_Ok_iff [simp]:
  "positive x what = Ok v \<longleftrightarrow> v = x \<and> is_finite x \<and> fabs x \<le> MAX_MONETARY_AMOUNT \<and> 0 < x"
  and positive_no_Panic [simp, no_panic]: "positive x what \<noteq> Panic"
  by (auto simp: positive_def)

lemma bounded_text_no_Panic [simp, no_panic]: "bounded_text x what \<noteq> Panic"
  by (simp add: bounded_text_def)

lemma bounded_no_Panic [simp, no_panic]: "bounded xs what \<noteq> Panic"
  by (simp add: bounded_def)

lemma revision_no_Panic [simp, no_panic]: "revision x what \<noteq> Panic"
  by (simp add: revision_def)

lemma find_lot_no_Panic [simp, no_panic]: "find_lot r x what \<noteq> Panic"
  by (simp add: find_lot_def)

lemma find_lot_Ok_iff [simp]: "find_lot r x what = Ok l \<longleftrightarrow> lot_map r x = Some l"
  by (simp add: find_lot_def)

lemma unique_no_Panic [simp, no_panic]: "unique ids what \<noteq> Panic"
  unfolding unique_def by (rule fold_res_no_Panic [where I = "\<lambda>_. True"]) auto

lemma unique_fold:
  "fold_res (\<lambda>seen ident. and_then (bounded_text ident what) (\<lambda>_.
      require (ident \<notin> seen) (e ident) (Ok (insert ident seen)))) s ids = Ok t
   \<Longrightarrow> distinct ids \<and> set ids \<inter> s = {} \<and> t = s \<union> set ids"
proof (induction ids arbitrary: s)
  case (Cons x ids)
  from Cons.prems have "x \<notin> s" by simp
  moreover from Cons.prems have "distinct ids \<and> set ids \<inter> insert x s = {} \<and> t = insert x s \<union> set ids"
    by (intro Cons.IH) simp
  ultimately show ?case by auto
qed simp

lemma unique_Ok: "unique ids what = Ok s \<Longrightarrow> distinct ids \<and> s = set ids"
  unfolding unique_def by (drule unique_fold) simp

section \<open>Admission never panics\<close>

lemma for_each_PanicD: "for_each xs f = Panic \<Longrightarrow> \<exists>x \<in> set xs. f x = Panic"
  by (induction xs) auto

lemma fold_res_PanicD: "fold_res f s xs = Panic \<Longrightarrow> \<exists>s x. x \<in> set xs \<and> f s x = Panic"
  by (induction xs arbitrary: s) (auto, blast+)

lemma map_err_Panic: "map_err f r = Panic \<longleftrightarrow> r = Panic"
  by simp

text \<open>What the matrix check decides; it reads no entry outside the dimensions it has checked.\<close>

definition symmetric_unit :: "nat \<Rightarrow> f64 list list \<Rightarrow> bool" where
  "symmetric_unit n c \<longleftrightarrow> length c = n \<and> (\<forall>row \<in> set c. length row = n)
     \<and> (\<forall>i < n. feq (c ! i ! i) 1)
     \<and> (\<forall>i < n. \<forall>j < n. is_finite (c ! i ! j) \<and> \<not> 1 < fabs (c ! i ! j) \<and> feq (c ! i ! j) (c ! j ! i))"

lemma bad_matrix_exact: "(bad_matrix n c :: ('e, bool) result) = Ok (\<not> symmetric_unit n c)"
proof (cases "length c \<noteq> n \<or> list_ex (\<lambda>row. length row \<noteq> n) c")
  case True
  then show ?thesis by (auto simp: bad_matrix_def symmetric_unit_def list_ex_iff)
next
  case False
  then have "length (c ! i) = n" if "i < n" for i using that by (auto simp: list_ex_iff)
  then have cell: "(cell c i j :: ('e, f64) result) = Ok (c ! i ! j)" if "i < n" "j < n" for i j
    using that False by (simp add: cell_def nth_checked_in)
  have "(any_res (\<lambda>i. and_then (cell c i i) (\<lambda>v. Ok (\<not> feq v 1))) [0..<n] :: ('e, bool) result) = Ok (list_ex (\<lambda>i. \<not> feq (c ! i ! i) 1) [0..<n])"
    by (rule any_res_Ok) (simp add: cell)
  moreover have "(any_res (\<lambda>i. any_res (bad_cell c i) [0..<n]) [0..<n] :: ('e, bool) result) = Ok (list_ex (\<lambda>i. list_ex (\<lambda>j.
      \<not> is_finite (c ! i ! j) \<or> 1 < fabs (c ! i ! j) \<or> \<not> feq (c ! i ! j) (c ! j ! i)) [0..<n]) [0..<n])"
    by (intro any_res_Ok) (simp add: bad_cell_def cell)
  ultimately have "(bad_matrix n c :: ('e, bool) result) = Ok (list_ex (\<lambda>i. \<not> feq (c ! i ! i) 1) [0..<n] \<or>
      list_ex (\<lambda>i. list_ex (\<lambda>j. \<not> is_finite (c ! i ! j) \<or> 1 < fabs (c ! i ! j) \<or> \<not> feq (c ! i ! j) (c ! j ! i)) [0..<n]) [0..<n])"
    using False by (simp only: bad_matrix_def or_res_Ok if_False) simp
  also have "\<dots> = Ok (\<not> symmetric_unit n c)"
    using False unfolding symmetric_unit_def list_ex_iff set_upt atLeast0LessThan Bex_def lessThan_iff result.inject by blast
  finally show ?thesis .
qed

lemma bad_bounds_total: "days \<noteq> [] \<Longrightarrow> \<exists>bad. bad_bounds days = (Ok bad :: ('e, bool) result)"
  by (auto simp: bad_bounds_def nth_checked_def)

lemma validate_method_no_Panic [no_panic]: "validate_method m \<noteq> Panic"
proof (cases "bucket_upper_days m = []")
  case True
  then show ?thesis by (simp add: validate_method_def Let_def)
next
  case False
  then obtain bad where "bad_bounds (bucket_upper_days m) = (Ok bad :: (Refusal, bool) result)"
    using bad_bounds_total [OF False] by blast
  then show ?thesis by (simp add: validate_method_def bad_matrix_exact Let_def)
qed

lemma leaf_no_Panic [no_panic]:
  "validate_header r \<noteq> Panic" "validate_sources r \<noteq> Panic" "validate_accounts r \<noteq> Panic"
  "opening_amount v w \<noteq> Panic" "validate_facility fc \<noteq> Panic"
  "scope_lot r sc i \<noteq> Panic" "validate_formal r f \<noteq> Panic" "validate_hedge r h \<noteq> Panic"
  "validate_funding r fa \<noteq> Panic" "formal_owned r a x \<noteq> Panic" "sell_lot a l sold x \<noteq> Panic"
  "validate_pledge r pl p \<noteq> Panic" "obligation_agreement r ob \<noteq> Panic"
  "obligation_dependency r ob d \<noteq> Panic" "validate_lot r l \<noteq> Panic"
  by (auto simp: validate_header_def validate_sources_def validate_accounts_def Let_def
      opening_amount_def validate_facility_def scope_lot_def validate_formal_def validate_hedge_def
      validate_funding_def formal_owned_def sell_lot_def validate_pledge_def obligation_agreement_def
      obligation_dependency_def validate_lot_def
      dest!: for_each_PanicD split: option.splits if_splits)

lemma loop_no_Panic [no_panic]:
  "validate_lots r \<noteq> Panic" "validate_formals r \<noteq> Panic" "validate_hedges r \<noteq> Panic"
  "validate_fundings r \<noteq> Panic" "validate_mode ag \<noteq> Panic" "validate_facilities r \<noteq> Panic"
  by (auto simp: validate_lots_def validate_formals_def validate_hedges_def validate_fundings_def
      validate_mode_def validate_facilities_def no_panic dest!: for_each_PanicD split: option.splits)

lemma agreements_no_Panic [no_panic]: "validate_agreements r \<noteq> Panic"
  by (auto simp: validate_agreements_def validate_agreement_def no_panic
      dest!: fold_res_PanicD split: option.splits)

lemma action_lot_no_Panic [no_panic]: "action_lot r a s x \<noteq> Panic"
  by (cases s) (auto simp: action_lot_def no_panic)

lemma acyclic_check_no_Panic [no_panic]: "acyclic_check edges \<noteq> Panic"
  using acyclic_check_spec [of edges] by (auto split: result.splits)

lemma actions_no_Panic [no_panic]: "validate_actions r \<noteq> Panic"
  by (auto simp: validate_actions_def validate_action_def no_panic
      dest!: fold_res_PanicD for_each_PanicD)

lemma obligations_no_Panic [no_panic]: "validate_obligations r \<noteq> Panic"
  by (auto simp: validate_obligations_def validate_obligation_def Let_def no_panic
      dest!: fold_res_PanicD for_each_PanicD split: option.splits)

lemma within_lots_Ok_iff: "within_lots r h uses what = Ok () \<longleftrightarrow>
    (\<forall>k \<in> fst ` set uses. \<exists>l. lot_map r k = Some l
       \<and> within_limit (peak_level (key_events uses k)) (lot_quantity l))"
  by (auto simp: within_lots_def for_each_Ok_iff peak_def)

lemma within_lots_no_Panic:
  assumes "\<forall>k \<in> fst ` set uses. lot_map r k \<noteq> None"
  shows "within_lots r h uses what \<noteq> Panic"
proof
  assume "within_lots r h uses what = Panic"
  then obtain k where "k \<in> fst ` set uses" "lot_map r k = None"
    by (force simp: within_lots_def peak_def dest!: for_each_PanicD)
  with assms show False by blast
qed

lemma hedge_lots_known:
  assumes "validate_hedges r = Ok ()" "a \<in> set (hedge_allocations r)"
  shows "\<exists>e h. lot_map r (exposure_lot_id a) = Some e \<and> lot_map r (hedge_lot_id a) = Some h"
proof -
  have "validate_hedge r a = Ok ()"
    using assms by (simp add: validate_hedges_def unit_result for_each_Ok_iff)
  then show ?thesis by (auto simp: validate_hedge_def)
qed

lemma funding_lots_known:
  assumes "validate_fundings r = Ok ()" "a \<in> set (funding_allocations r)"
  shows "\<exists>f l. lot_map r (funding_lot_id a) = Some f \<and> lot_map r (attributed_lot_id a) = Some l"
proof -
  have "validate_funding r a = Ok ()"
    using assms by (simp add: validate_fundings_def unit_result for_each_Ok_iff)
  then show ?thesis by (auto simp: validate_funding_def)
qed

lemma allocations_no_Panic:
  assumes "validate_hedges r = Ok ()" "validate_fundings r = Ok ()"
  shows "validate_allocations hash r \<noteq> Panic"
proof -
  let ?hs = "hedge_allocations r" and ?fs = "funding_allocations r"
  have "\<forall>k \<in> fst ` set (map exposure_use ?hs). lot_map r k \<noteq> None"
    "\<forall>k \<in> fst ` set (map hedge_use ?hs). lot_map r k \<noteq> None"
    using hedge_lots_known [OF assms(1)] by (fastforce simp: exposure_use_def hedge_use_def)+
  moreover have "\<forall>k \<in> fst ` set (map funding_use ?fs). lot_map r k \<noteq> None"
    "\<forall>k \<in> fst ` set (map attributed_use ?fs). lot_map r k \<noteq> None"
    using funding_lots_known [OF assms(2)] by (fastforce simp: funding_use_def attributed_use_def)+
  ultimately show ?thesis by (simp add: validate_allocations_def within_lots_no_Panic)
qed

lemma entry_add_dom [simp]: "dom (entry_add m k x) = insert k (dom m)"
  by (simp add: entry_add_def)

lemma pledges_fold:
  "fold_res (validate_pledge r) m ps = Ok m' \<Longrightarrow>
   m' = foldl (\<lambda>m p. entry_add m (pledge_lot_id p) (pledge_quantity p)) m ps
   \<and> dom m' = dom m \<union> pledge_lot_id ` set ps
   \<and> (\<forall>p \<in> set ps. \<exists>m m'. validate_pledge r m p = Ok m')"
proof (induction ps arbitrary: m)
  case (Cons p ps)
  from Cons.prems obtain m1 where m1: "validate_pledge r m p = Ok m1"
    and rest: "fold_res (validate_pledge r) m1 ps = Ok m'" by auto
  then have "m1 = entry_add m (pledge_lot_id p) (pledge_quantity p)"
    by (auto simp: validate_pledge_def)
  with Cons.IH [OF rest] m1 show ?case by auto
qed simp

lemma pledge_facts:
  assumes "validate_pledge r m p = Ok m'"
  shows "(\<exists>l. lot_map r (pledge_lot_id p) = Some l \<and> lot_kind l = Security)
    \<and> is_finite (pledge_quantity p) \<and> fabs (pledge_quantity p) \<le> MAX_MONETARY_AMOUNT
    \<and> 0 < pledge_quantity p
    \<and> \<not> haircut p < 0 \<and> \<not> 1 \<le> haircut p \<and> is_finite (haircut p)"
  using assms by (auto simp: validate_pledge_def unit_result)

lemma pledges_Ok_iff: "validate_pledges hash r = Ok () \<longleftrightarrow>
    (\<exists>s. unique (map pledge_id (pledges r)) ''pledge'' = Ok s)
    \<and> (\<exists>m. fold_res (validate_pledge r) (\<lambda>_. None) (pledges r) = Ok m
        \<and> (\<forall>k \<in> pledge_lot_id ` set (pledges r). pledged_lot r m k = Ok ()))"
  by (auto simp: validate_pledges_def for_each_Ok_iff)

lemma pledges_no_Panic [no_panic]: "validate_pledges hash r \<noteq> Panic"
proof
  assume "validate_pledges hash r = Panic"
  then obtain m where m: "fold_res (validate_pledge r) (\<lambda>_. None) (pledges r) = Ok m"
    and "\<exists>k \<in> pledge_lot_id ` set (pledges r). pledged_lot r m k = Panic"
    by (fastforce simp: validate_pledges_def no_panic dest!: fold_res_PanicD for_each_PanicD)
  then obtain p where p: "p \<in> set (pledges r)" "pledged_lot r m (pledge_lot_id p) = Panic" by auto
  from pledges_fold [OF m] p(1) obtain m1 m2 where "validate_pledge r m1 p = Ok m2" by blast
  from pledge_facts [OF this] have "lot_map r (pledge_lot_id p) \<noteq> None" by auto
  moreover have "m (pledge_lot_id p) \<noteq> None" using pledges_fold [OF m] p(1) by blast
  ultimately show False using p(2) by (auto simp: pledged_lot_def)
qed

lemma plan_order_free:
  "validate_allocations hash r = Ok () \<longleftrightarrow> validate_allocations hash' r = Ok ()"
  "validate_pledges hash r = Ok () \<longleftrightarrow> validate_pledges hash' r = Ok ()"
  by (auto simp: validate_allocations_def unit_result within_lots_Ok_iff pledges_Ok_iff)

text \<open>
  C12. Admission decides every lifecycle plan: no request makes it panic (every indexed lot was
  looked up before; the first bucket bound and every entry of the correlation matrix are read inside
  the dimensions checked before, and an empty list or a ragged matrix is refused instead), and
  although it iterates hash maps, whether it accepts does not depend on their order.
\<close>

theorem validate_plan_total:
  "validate_plan hash r \<noteq> Panic \<and> (validate_plan hash r = Ok () \<longleftrightarrow> validate_plan hash' r = Ok ())"
proof
  show "validate_plan hash r \<noteq> Panic"
    using allocations_no_Panic [of r hash] by (auto simp: validate_plan_def no_panic unit_result)
  show "validate_plan hash r = Ok () \<longleftrightarrow> validate_plan hash' r = Ok ()"
    using plan_order_free [of hash r hash'] by (simp add: validate_plan_def unit_result)
qed

end
