(* ===== verification/Lifecycle_Limits.thy ===== *)
theory Lifecycle_Limits
  imports Lifecycle_Admission "HOL-Library.Multiset"
begin

text \<open>
  What the tolerance and the peak computation of the admission mean in real numbers: the slack
  \<open>within\<close> allows is below a hundred-millionth of the capacity, and for whole-unit amounts the
  peak of the float fold bounds the exact sum of the allocations live at any date.
\<close>

section \<open>The relative tolerance\<close>

lemma monetary_bound:
  assumes "is_finite x" "f64_ok x" "fabs x \<le> MAX_MONETARY_AMOUNT"
  shows "\<bar>val x\<bar> \<le> 10 ^ 15"
proof -
  have "is_finite MAX_MONETARY_AMOUNT" "val MAX_MONETARY_AMOUNT = 10 ^ 15"
    using int_val [of "10 ^ 15"] by (simp_all add: MAX_MONETARY_AMOUNT_def)
  with assms show ?thesis by simp
qed

definition slack :: "f64 \<Rightarrow> f64" where
  "slack c = f64_lit 1 1000000000 * fmax (fabs c) 1"

lemma within_limit_slack: "within_limit used c \<longleftrightarrow> used \<le> c + slack c"
  by (simp add: within_limit_def slack_def)

lemma p2_small: "p2 (- 28) = 1 / 268435456" "p2 (- 29) = 1 / 536870912"
  by (simp_all add: power_int_def power_divide)

lemma lit_nano:
  "is_finite (f64_lit 1 1000000000)" "0 \<le> val (f64_lit 1 1000000000)"
  "val (f64_lit 1 1000000000) \<le> p2 (- 29)"
proof -
  have r: "rounds_to (f64_lit 1 1000000000) (1 / 1000000000)"
    using lit_rounds [of 1000000000 1] by simp
  have b: "\<bar>1 / 1000000000 :: real\<bar> \<le> p2 (- 29)" "p2 (- 29) < huge"
    by (simp add: p2_small) (simp only: huge_def p2_less_iff)
  note f = rounds_to_bound [OF r b(1) dbl_p2 b(2)]
  show "is_finite (f64_lit 1 1000000000)" using f by simp
  show "0 \<le> val (f64_lit 1 1000000000)" using f(2) rne.rd_nonneg [of "1 / 1000000000"] by simp
  show "val (f64_lit 1 1000000000) \<le> p2 (- 29)" using f(4) by simp
qed

lemma slack_bounds:
  assumes c: "is_finite c" "f64_ok c" "\<bar>val c\<bar> \<le> 10 ^ 15"
  shows "is_finite (slack c)" "f64_ok (slack c)" "0 \<le> val (slack c)"
    "val (slack c) \<le> max \<bar>val c\<bar> 1 * p2 (- 28)"
proof -
  let ?l = "val (f64_lit 1 1000000000)" and ?m = "max \<bar>val c\<bar> 1"
  have m: "is_finite (fmax (fabs c) 1)" "val (fmax (fabs c) 1) = ?m" "f64_ok (fmax (fabs c) 1)"
    using c fmax_val [of "fabs c" 1] by simp_all
  have le: "?l * ?m \<le> p2 (- 29) * ?m" "0 \<le> ?l * ?m"
    using mult_right_mono [OF lit_nano(3), of ?m] lit_nano(2) by auto
  have "?m \<le> p2 50" using c(3) by (simp add: power_int_def)
  then have "p2 (- 29) * ?m \<le> p2 (- 29) * p2 50" by (intro mult_left_mono) auto
  then have "p2 (- 29) * ?m \<le> p2 21" by (simp flip: p2_add)
  with le have "\<bar>?l * ?m\<bar> \<le> p2 21" by simp
  moreover have "p2 21 < huge" by (simp add: huge_def)
  ultimately have r: "is_finite (slack c)" "val (slack c) = rnd (?l * ?m)" "f64_ok (slack c)"
    using rounds_to_bound [OF mul_rounds [OF lit_nano(1) m(1) _ m(3)] _ dbl_p2, of 21] m(2)
    by (simp_all add: slack_def)
  then show "is_finite (slack c)" "f64_ok (slack c)" by simp_all
  show "0 \<le> val (slack c)" using r(2) le(2) rne.rd_nonneg by simp
  have "\<bar>rnd (?l * ?m) - ?l * ?m\<bar> \<le> ?l * ?m"
    using rnd_nearest [of 0 "?l * ?m"] le(2) by simp
  then have "rnd (?l * ?m) \<le> 2 * (p2 (- 29) * ?m)" using le(1) by linarith
  also have "\<dots> = ?m * p2 (- 28)" using p2_add [of 1 "- 29"] by simp
  finally show "val (slack c) \<le> ?m * p2 (- 28)" using r(2) by simp
qed

lemma limit_bounds:
  assumes c: "is_finite c" "f64_ok c" "\<bar>val c\<bar> \<le> 10 ^ 15"
  shows "is_finite (c + slack c)" "val c \<le> val (c + slack c)"
    "val (c + slack c) \<le> val c + max \<bar>val c\<bar> 1 / 10 ^ 8" "val (c + slack c) \<le> 2 ^ 50"
proof -
  note s = slack_bounds [OF c]
  have "max \<bar>val c\<bar> 1 * p2 (- 28) \<le> 10 ^ 15 * p2 (- 28)"
    using c(3) by (intro mult_right_mono) auto
  also have "\<dots> = 10 ^ 15 / 268435456" by (simp add: p2_small)
  finally have "\<bar>val c + val (slack c)\<bar> \<le> 2 ^ 50" using s(3,4) c(3) by simp
  moreover have "(2 :: real) ^ 50 \<in> dbl" "(2 :: real) ^ 50 < huge"
    using dbl_p2 [of 50] by (simp_all add: power_int_def huge_def)
  ultimately have r: "is_finite (c + slack c)" "val (c + slack c) = rnd (val c + val (slack c))"
    "\<bar>val (c + slack c)\<bar> \<le> 2 ^ 50"
    using rounds_to_bound [OF add_rounds [OF c(1) s(1)]] by auto
  then show "is_finite (c + slack c)" "val (c + slack c) \<le> 2 ^ 50" by auto
  show "val c \<le> val (c + slack c)"
    using r(2) rne.rd_add_ge_left [OF val_dbl [OF c(2)] s(3)] by simp
  have "\<bar>rnd (val c + val (slack c)) - (val c + val (slack c))\<bar> \<le> val (slack c)"
    using rnd_nearest [OF val_dbl [OF c(2)], of "val c + val (slack c)"] s(3) by simp
  then have "val (c + slack c) \<le> val c + 2 * (max \<bar>val c\<bar> 1 * p2 (- 28))"
    using r(2) s(4) by linarith
  also have "2 * (max \<bar>val c\<bar> 1 * p2 (- 28)) \<le> max \<bar>val c\<bar> 1 / 10 ^ 8"
    by (simp add: p2_small)
  finally show "val (c + slack c) \<le> val c + max \<bar>val c\<bar> 1 / 10 ^ 8" by simp
qed

lemma within_limitI:
  "is_finite x \<Longrightarrow> is_finite c \<Longrightarrow> f64_ok c \<Longrightarrow> \<bar>val c\<bar> \<le> 10 ^ 15 \<Longrightarrow> val x \<le> val c \<Longrightarrow> within_limit x c"
  using limit_bounds(1,2) [of c] by (auto simp: within_limit_slack)

lemma within_limitD:
  "within_limit x c \<Longrightarrow> is_finite x \<Longrightarrow> is_finite c \<Longrightarrow> f64_ok c \<Longrightarrow> \<bar>val c\<bar> \<le> 10 ^ 15
   \<Longrightarrow> val x \<le> val c + max \<bar>val c\<bar> 1 / 10 ^ 8"
  using limit_bounds(1,3) [of c] by (auto simp: within_limit_slack)

section \<open>The float fold never loses a whole-unit level\<close>

lemma peak_mono:
  assumes "M \<noteq> NaN"
  shows "M \<le> snd (foldl (\<lambda>(level, mx) (_, _, delta). let level = level + delta in (level, fmax mx level)) (L, M)
     (qs :: (i32 \<times> nat \<times> f64) list))"
  using assms
proof (induction qs arbitrary: L M)
  case Nil
  then show ?case by (cases M) (simp_all add: less_eq_f64_def)
next
  case (Cons q qs)
  obtain a b d where q: "q = (a, b, d)" by (cases q)
  from f64_le_trans [OF fmax_ge(1) [OF Cons.prems] Cons.IH [OF fmax_ge(3) [OF Cons.prems]]]
  show ?case by (simp add: q Let_def)
qed

abbreviation delta_of :: "i32 \<times> nat \<times> f64 \<Rightarrow> real" where
  "delta_of q \<equiv> val (snd (snd q))"

lemma peak_bounds:
  assumes "snd (foldl (\<lambda>(level, mx) (_, _, delta). let level = level + delta in (level, fmax mx level)) (L, M) qs) \<le> B"
    and "is_finite B" "val B \<le> 2 ^ 50" "is_finite L" "M \<noteq> NaN" "val L = of_int S" "0 \<le> S" "S \<le> 2 ^ 50"
    and "\<And>q. q \<in> set qs \<Longrightarrow> is_finite (snd (snd q)) \<and> delta_of q \<in> \<int> \<and> \<bar>delta_of q\<bar> \<le> 10 ^ 15"
    and "\<And>ps rs. qs = ps @ rs \<Longrightarrow> 0 \<le> of_int S + (\<Sum>q\<leftarrow>ps. delta_of q)"
    and "val L \<le> val B"
  shows "qs = ps @ rs \<Longrightarrow> of_int S + (\<Sum>q\<leftarrow>ps. delta_of q) \<le> val B"
  using assms
proof (induction qs arbitrary: L M S ps)
  case Nil
  then show ?case by simp
next
  case (Cons q qs)
  obtain a b d where q: "q = (a, b, d)" by (cases q)
  have dq: "is_finite d" "val d \<in> \<int>" "\<bar>val d\<bar> \<le> 10 ^ 15" using Cons.prems(10) [of q] q by auto
  then obtain D where D: "val d = of_int D" by (auto elim: Ints_cases)
  have D_le: "\<bar>D\<bar> \<le> 10 ^ 15" using dq(3) D by (metis of_int_abs of_int_le_iff of_int_numeral of_int_power)
  have step: "is_finite (L + d)" "val (L + d) = of_int (S + D)"
    using exact_add [OF Cons.prems(5) dq(1) Cons.prems(7) D] D_le Cons.prems(8,9) by auto
  have nn: "0 \<le> S + D" using Cons.prems(11) [of "[q]" qs] q D by simp
  have f: "snd (foldl (\<lambda>(level, mx) (_, _, delta). let level = level + delta in (level, fmax mx level))
      (L + d, fmax M (L + d)) qs) \<le> B"
    using Cons.prems(2) by (simp add: q Let_def)
  have nan: "L + d \<noteq> NaN" "fmax M (L + d) \<noteq> NaN" using step Cons.prems(6) fmax_ge(3) by auto
  have "L + d \<le> B"
    using f64_le_trans [OF fmax_ge(2) [OF nan(1), of M] f64_le_trans [OF peak_mono [OF nan(2)] f]] .
  then have LB: "val (L + d) \<le> val B" using step Cons.prems(3) by simp
  have "real_of_int (S + D) \<le> of_int (2 ^ 50)" using LB step(2) Cons.prems(4) by simp
  then have SD: "S + D \<le> 2 ^ 50" by (simp only: of_int_le_iff)
  show ?case
  proof (cases ps)
    case Nil
    then show ?thesis using Cons.prems(7,12) by simp
  next
    case p: (Cons q' ps')
    then have p': "qs = ps' @ rs" "q' = q" using Cons.prems(1) by auto
    have "0 \<le> real_of_int (S + D) + (\<Sum>q\<leftarrow>ps. delta_of q)" if "qs = ps @ rs" for ps rs
      using Cons.prems(11) [of "q # ps" rs] that q D by (simp add: add.assoc)
    from Cons.IH [OF p'(1) f Cons.prems(3,4) step(1) nan(2) step(2) nn SD _ this LB] Cons.prems(10)
    show ?thesis by (simp add: p p'(2) q D add.assoc)
  qed
qed
section \<open>Live allocations at a date\<close>

definition whole_use :: "interval \<Rightarrow> bool" where
  "whole_use = (\<lambda>(_, start, stop, a). is_finite a \<and> val a \<in> \<int> \<and> 0 < val a \<and> val a \<le> 10 ^ 15
     \<and> (case stop of None \<Rightarrow> True | Some e \<Rightarrow> start < e))"

definition live :: "string \<Rightarrow> i32 \<Rightarrow> interval \<Rightarrow> real" where
  "live k t = (\<lambda>(key, start, stop, a).
     if key = k \<and> start \<le> t \<and> (case stop of None \<Rightarrow> True | Some e \<Rightarrow> t < e) then val a else 0)"

abbreviation event_key :: "i32 \<times> nat \<times> f64 \<Rightarrow> i32 \<times> nat" where
  "event_key q \<equiv> (fst q, fst (snd q))"

abbreviation events_of :: "interval list \<Rightarrow> string \<Rightarrow> (i32 \<times> nat \<times> f64) list" where
  "events_of uses k \<equiv> concat (map (interval_events k) uses)"

definition part :: "string \<Rightarrow> (i32 \<times> nat \<Rightarrow> bool) \<Rightarrow> interval \<Rightarrow> real" where
  "part k D = (\<lambda>(key, start, stop, a). if key = k then (if D (start, 1) then val a else 0)
     - (case stop of None \<Rightarrow> 0 | Some e \<Rightarrow> if D (e, 0) then val a else 0) else 0)"

lemma events_part:
  "(\<Sum>q\<leftarrow>filter (\<lambda>q. D (event_key q)) (events_of uses k). delta_of q) = (\<Sum>u\<leftarrow>uses. part k D u)"
proof (induction uses)
  case (Cons u uses)
  obtain key start stop a where u: "u = (key, start, stop, a)" by (cases u)
  have "(\<Sum>q\<leftarrow>filter (\<lambda>q. D (event_key q)) (interval_events k u). delta_of q) = part k D u"
    by (auto simp: u part_def split: option.splits)
  with Cons.IH show ?case by simp
qed simp

lemma part_nonneg:
  assumes "whole_use u" "\<And>a b. a \<le> b \<Longrightarrow> D b \<Longrightarrow> D a"
  shows "0 \<le> part k D u"
proof -
  obtain key start stop a where u: "u = (key, start, stop, a)" by (cases u)
  have "D (start, 1)" if "stop = Some e" "D (e, 0)" for e
  proof -
    have "(start, 1 :: nat) \<le> (e, 0)" using assms(1) that(1) by (simp add: whole_use_def u)
    from assms(2) [OF this that(2)] show ?thesis .
  qed
  then show ?thesis using assms(1) by (auto simp: u part_def whole_use_def split: option.splits)
qed

lemma key_events_set: "set (key_events uses k) = set (events_of uses k)"
  by (simp add: key_events_def)

lemma sum_perm: "mset xs = mset ys \<Longrightarrow> (\<Sum>x\<leftarrow>xs. f x) = (\<Sum>x\<leftarrow>ys. f x)" for f :: "'a \<Rightarrow> real"
  by (metis mset_map sum_mset_sum_list)

lemma key_events_part:
  "(\<Sum>q\<leftarrow>filter (\<lambda>q. D (event_key q)) (key_events uses k). delta_of q) = (\<Sum>u\<leftarrow>uses. part k D u)"
  unfolding events_part [symmetric] key_events_def
  by (rule sum_perm) simp

lemma event_shape:
  assumes "\<forall>u \<in> set uses. whole_use u" "q \<in> set (key_events uses k)"
  shows "is_finite (snd (snd q)) \<and> delta_of q \<in> \<int> \<and> \<bar>delta_of q\<bar> \<le> 10 ^ 15
    \<and> (fst (snd q) = 0 \<longrightarrow> delta_of q \<le> 0) \<and> (fst (snd q) \<noteq> 0 \<longrightarrow> fst (snd q) = 1 \<and> 0 \<le> delta_of q)"
proof -
  from assms(2) obtain u where u: "u \<in> set uses" "q \<in> set (interval_events k u)"
    by (auto simp: key_events_set)
  obtain key start stop a where [simp]: "u = (key, start, stop, a)" by (cases u)
  show ?thesis using assms(1) u by (fastforce simp: whole_use_def split: if_splits option.splits)
qed

lemma key_events_sorted: "sorted (map event_key (key_events uses k))"
proof -
  have "event_key = (\<lambda>(ordinal, tag, _). (ordinal, tag))" by (auto simp: fun_eq_iff)
  then show ?thesis by (simp add: key_events_def)
qed

lemma prefix_nonneg:
  assumes w: "\<forall>u \<in> set uses. whole_use u" and e: "key_events uses k = ps @ qs"
  shows "0 \<le> (\<Sum>q\<leftarrow>ps. delta_of q)"
proof (cases ps rule: rev_cases)
  case (snoc ps' x)
  let ?le = "\<lambda>q. event_key q \<le> event_key x" and ?lt = "\<lambda>q. event_key q < event_key x"
  have s: "sorted (map event_key (ps @ qs))" using key_events_sorted [of uses k] e by simp
  have below: "event_key q \<le> event_key x" if "q \<in> set ps" for q
    using s that by (auto simp: snoc sorted_append)
  have above_x: "event_key x \<le> event_key q" if "q \<in> set qs" for q
    using s that by (auto simp: snoc sorted_append)
  have shape: "(fst (snd q) = 0 \<longrightarrow> delta_of q \<le> 0) \<and> (fst (snd q) \<noteq> 0 \<longrightarrow> fst (snd q) = 1 \<and> 0 \<le> delta_of q)"
    if "q \<in> set (ps @ qs)" for q
    using event_shape [OF w, of q k] that e by auto
  have nonneg: "0 \<le> (\<Sum>q\<leftarrow>filter (\<lambda>q. D (event_key q)) (ps @ qs). delta_of q)"
    if "\<And>a b. a \<le> b \<Longrightarrow> D b \<Longrightarrow> D a" for D
    unfolding e [symmetric] key_events_part
  proof (rule sum_list_nonneg)
    fix y assume "y \<in> set (map (part k D) uses)"
    then obtain u where "u \<in> set uses" "y = part k D u" by auto
    moreover have "0 \<le> part k D u" by (rule part_nonneg [OF _ that]) (use w \<open>u \<in> set uses\<close> in auto)
    ultimately show "0 \<le> y" by simp
  qed
  show ?thesis
  proof (cases "fst (snd x) = 0")
    case True
    have "filter ?le (ps @ qs) = ps @ filter ?le qs" using below by simp
    moreover have "(\<Sum>q\<leftarrow>filter ?le qs. delta_of q) \<le> 0"
    proof (rule sum_list_nonpos, clarsimp simp del: less_prod_simp less_eq_prod_simp)
      fix a b d assume "(a, b, d) \<in> set qs" "(a, b) \<le> event_key x"
      moreover from this above_x [of "(a, b, d)"] have "(a, b) = event_key x"
        by (auto simp del: less_eq_prod_simp)
      ultimately have "b = 0" using True by simp
      with shape [of "(a, b, d)"] \<open>(a, b, d) \<in> set qs\<close> show "val d \<le> 0" by simp
    qed
    moreover have "0 \<le> (\<Sum>q\<leftarrow>filter ?le (ps @ qs). delta_of q)"
      using nonneg [of "\<lambda>a. a \<le> event_key x"] by simp
    ultimately show ?thesis by simp
  next
    case False
    then have one: "fst (snd x) = 1" using shape [of x] by (simp add: snoc)
    have "\<not> ?lt q" if "q \<in> set qs" for q using above_x [OF that] by (simp only: not_less)
    then have "filter ?lt qs = []" unfolding filter_empty_conv by blast
    then have "filter ?lt (ps @ qs) = filter ?lt ps" by (simp only: filter_append append_Nil2)
    moreover have "(\<Sum>q\<leftarrow>ps. delta_of q)
        = (\<Sum>q\<leftarrow>filter ?lt ps. delta_of q) + (\<Sum>q\<leftarrow>filter (\<lambda>q. \<not> ?lt q) ps. delta_of q)"
      by (induction ps) simp_all
    moreover have "0 \<le> (\<Sum>q\<leftarrow>filter (\<lambda>q. \<not> ?lt q) ps. delta_of q)"
    proof (rule sum_list_nonneg, clarsimp simp del: less_prod_simp less_eq_prod_simp)
      fix a b d assume m: "(a, b, d) \<in> set ps" "\<not> (a, b) < event_key x"
      then have "(a, b) = event_key x" using below [OF m(1)] by (simp del: less_prod_simp less_eq_prod_simp)
      then have "b = 1" using one by simp
      with shape [of "(a, b, d)"] m(1) show "0 \<le> val d" by simp
    qed
    moreover have "0 \<le> (\<Sum>q\<leftarrow>filter ?lt (ps @ qs). delta_of q)"
      using nonneg [of "\<lambda>a. a < event_key x"] by (meson le_less_trans)
    ultimately show ?thesis by simp
  qed
qed simp

lemma live_is_part:
  assumes "whole_use u"
  shows "live k t u = part k (\<lambda>e. e \<le> (t, 1)) u"
proof -
  obtain key start stop a where u: "u = (key, start, stop, a)" by (cases u)
  show ?thesis using assms by (auto simp: u live_def part_def whole_use_def split: option.splits)
qed

lemma sorted_takeWhile: "sorted (map f xs) \<Longrightarrow> takeWhile (\<lambda>x. f x \<le> t) xs = filter (\<lambda>x. f x \<le> t) xs"
  for f :: "'a \<Rightarrow> 'b :: linorder"
proof (induction xs)
  case (Cons x xs)
  then have "filter (\<lambda>x. f x \<le> t) xs = []" if "\<not> f x \<le> t"
    using that by (auto simp: filter_empty_conv dest!: bspec intro: order_trans)
  with Cons show ?case by simp
qed simp

lemma live_prefix:
  assumes "\<forall>u \<in> set uses. whole_use u"
  shows "\<exists>ps qs. key_events uses k = ps @ qs \<and> (\<Sum>q\<leftarrow>ps. delta_of q) = (\<Sum>u\<leftarrow>uses. live k t u)"
proof (intro exI conjI)
  let ?D = "\<lambda>q. event_key q \<le> (t, 1)"
  show "key_events uses k = takeWhile ?D (key_events uses k) @ dropWhile ?D (key_events uses k)"
    by (simp only: takeWhile_dropWhile_id)
  have "(\<Sum>q\<leftarrow>takeWhile ?D (key_events uses k). delta_of q) = (\<Sum>u\<leftarrow>uses. part k (\<lambda>e. e \<le> (t, 1)) u)"
    using key_events_part [of "\<lambda>e. e \<le> (t, 1)" uses k]
    by (simp only: sorted_takeWhile [OF key_events_sorted])
  also have "\<dots> = (\<Sum>u\<leftarrow>uses. live k t u)"
    using assms by (intro arg_cong [where f = sum_list] map_cong) (simp_all add: live_is_part)
  finally show "(\<Sum>q\<leftarrow>takeWhile ?D (key_events uses k). delta_of q) = (\<Sum>u\<leftarrow>uses. live k t u)" .
qed

lemma live_within:
  assumes w: "\<forall>u \<in> set uses. whole_use u"
    and l: "within_limit (peak_level (key_events uses k)) c"
    and c: "is_finite c" "f64_ok c" "0 \<le> val c" "val c \<le> 10 ^ 15"
  shows "(\<Sum>u\<leftarrow>uses. live k t u) \<le> val c + max (val c) 1 / 10 ^ 8"
proof -
  obtain ps qs where e: "key_events uses k = ps @ qs"
    and s: "(\<Sum>q\<leftarrow>ps. delta_of q) = (\<Sum>u\<leftarrow>uses. live k t u)"
    using live_prefix [OF w] by blast
  have cabs: "\<bar>val c\<bar> = val c" "\<bar>val c\<bar> \<le> 10 ^ 15" using c by auto
  note lb = limit_bounds [OF c(1,2) cabs(2)]
  have "of_int 0 + (\<Sum>q\<leftarrow>ps. delta_of q) \<le> val (c + slack c)"
  proof (rule peak_bounds)
    show "key_events uses k = ps @ qs" by fact
    show "snd (foldl (\<lambda>(level, mx) (_, _, delta). let level = level + delta in (level, fmax mx level)) (0, 0)
       (key_events uses k)) \<le> c + slack c"
      using l by (simp add: within_limit_slack peak_level_def)
    show "is_finite (c + slack c)" "val (c + slack c) \<le> 2 ^ 50" using lb by auto
    show "is_finite (0 :: f64)" "(0 :: f64) \<noteq> NaN" "val 0 = of_int 0" by (auto simp: zero_f64_def)
    show "0 \<le> of_int 0 + (\<Sum>q\<leftarrow>xs. delta_of q)" if "key_events uses k = xs @ ys" for xs ys
      using prefix_nonneg [OF w that] by simp
    show "val 0 \<le> val (c + slack c)" using lb(2) c(3) by simp
  qed (use event_shape [OF w] in auto)
  with s lb(3) cabs(1) show ?thesis by simp
qed
end
