(* ===== verification/Lifecycle_Admitted.thy ===== *)
theory Lifecycle_Admitted
  imports Lifecycle_Limits
begin

text \<open>
  What it means that \<open>validate\<close> of \<open>lifecycle/admission.rs\<close> accepted a plan: identities are
  unique, every reference resolves to a record of the right kind, steps are acyclic and ordered,
  and no lot, facility or hedge is used beyond its quantity; with a sample plan that is admitted.
\<close>

section \<open>What an admitted plan is\<close>

lemma validate_plan_parts:
  assumes "validate_plan hash r = Ok ()"
  shows "validate_header r = Ok ()" "validate_sources r = Ok ()" "validate_accounts r = Ok ()"
    "validate_lots r = Ok ()" "validate_formals r = Ok ()" "validate_hedges r = Ok ()"
    "validate_fundings r = Ok ()" "validate_allocations hash r = Ok ()" "validate_agreements r = Ok ()"
    "validate_pledges hash r = Ok ()" "validate_facilities r = Ok ()" "validate_actions r = Ok ()"
    "validate_obligations r = Ok ()"
  using assms by (simp_all add: validate_plan_def unit_result)

definition identities_distinct :: "LifecycleRequest \<Rightarrow> bool" where
  "identities_distinct r \<longleftrightarrow> distinct (map source_id (sources r)) \<and> distinct (map account_id (accounts r))
     \<and> distinct (map lot_id (lots r)) \<and> distinct (map relationship_id (formal_relationships r))
     \<and> distinct (map hedge_allocation_id (hedge_allocations r))
     \<and> distinct (map funding_allocation_id (funding_allocations r))
     \<and> distinct (map agreement_id (margin_agreements r)) \<and> distinct (map pledge_id (pledges r))
     \<and> distinct (map facility_id (facilities r)) \<and> distinct (map action_id (actions r))
     \<and> distinct (map obligation_id (obligations r)) \<and> distinct (map source_event (obligations r))"

lemma identities:
  assumes "validate_plan hash r = Ok ()"
  shows "identities_distinct r"
  using validate_plan_parts [OF assms]
  by (auto simp: identities_distinct_def validate_sources_def validate_accounts_def validate_lots_def
      validate_formals_def validate_hedges_def validate_fundings_def validate_agreements_def
      validate_pledges_def validate_facilities_def validate_actions_def validate_obligations_def
      dest!: unique_Ok)

definition lot_of_kind :: "LifecycleRequest \<Rightarrow> LotKind set \<Rightarrow> string \<Rightarrow> bool" where
  "lot_of_kind r kinds k \<longleftrightarrow> (\<exists>l \<in> set (lots r). lot_id l = k \<and> lot_kind l \<in> kinds)"

definition positive_amount :: "f64 \<Rightarrow> bool" where
  "positive_amount x \<longleftrightarrow> is_finite x \<and> 0 < val x \<and> fabs x \<le> MAX_MONETARY_AMOUNT"

definition lot_ok :: "LifecycleRequest \<Rightarrow> PositionLot \<Rightarrow> bool" where
  "lot_ok r l \<longleftrightarrow> (\<exists>s \<in> set (sources r). source_id s = lot_source_id l \<and> measure s = Physical)
     \<and> lot_account_id l \<in> account_id ` set (accounts r) \<and> positive_amount (lot_quantity l)
     \<and> is_finite (outside_encumbrance l) \<and> 0 \<le> val (outside_encumbrance l)
     \<and> within_limit (outside_encumbrance l) (lot_quantity l) \<and> lot_consistent l"

definition hedge_ok :: "LifecycleRequest \<Rightarrow> HedgeAllocation \<Rightarrow> bool" where
  "hedge_ok r a \<longleftrightarrow> lot_of_kind r {Derivative} (hedge_lot_id a)
     \<and> lot_of_kind r {Security, Loan, Funding} (exposure_lot_id a) \<and> positive_amount (hedge_amount a)
     \<and> (case hedge_end_ordinal a of None \<Rightarrow> True | Some e \<Rightarrow> hedge_start_ordinal a < e)
     \<and> (case formal_relationship_id a of None \<Rightarrow> True | Some k \<Rightarrow>
          (\<exists>f \<in> set (formal_relationships r). relationship_id f = k \<and> hedge_lot_id a \<in> set (hedging_lot_ids f)))"

definition funding_ok :: "LifecycleRequest \<Rightarrow> FundingAllocation \<Rightarrow> bool" where
  "funding_ok r a \<longleftrightarrow> lot_of_kind r {Funding} (funding_lot_id a)
     \<and> lot_of_kind r {Security, Loan} (attributed_lot_id a) \<and> positive_amount (funding_amount a)
     \<and> (case funding_end_ordinal a of None \<Rightarrow> True | Some e \<Rightarrow> funding_start_ordinal a < e)"

definition pledge_ok :: "LifecycleRequest \<Rightarrow> Pledge \<Rightarrow> bool" where
  "pledge_ok r p \<longleftrightarrow> lot_of_kind r {Security} (pledge_lot_id p) \<and> positive_amount (pledge_quantity p)
     \<and> is_finite (haircut p) \<and> 0 \<le> val (haircut p) \<and> val (haircut p) < 1
     \<and> (pledge_agreement_id p \<in> agreement_id ` set (margin_agreements r)
        \<or> lot_of_kind r {Funding} (pledge_agreement_id p))"

lemma lot_of_kind: "lot_map r k = Some l \<Longrightarrow> lot_kind l \<in> kinds \<Longrightarrow> lot_of_kind r kinds k"
  using last_by_Some [of lot_id "lots r" k l] by (auto simp: lot_of_kind_def)

lemma LotKind_cases: "k \<noteq> Derivative \<Longrightarrow> k \<in> {Security, Loan, Funding}"
  "k \<noteq> Derivative \<Longrightarrow> k \<noteq> Funding \<Longrightarrow> k \<in> {Security, Loan}"
  by (cases k; simp)+

lemma not_less_val: "is_finite x \<Longrightarrow> \<not> x < 0 \<Longrightarrow> 0 \<le> val x"
  by simp

lemma positive_amount: "is_finite x \<Longrightarrow> fabs x \<le> MAX_MONETARY_AMOUNT \<Longrightarrow> 0 < x \<Longrightarrow> positive_amount x"
  by (simp add: positive_amount_def)

lemma lots_ok:
  assumes "validate_lots r = Ok ()" "l \<in> set (lots r)"
  shows "lot_ok r l"
proof -
  have "validate_lot r l = Ok ()"
    using assms by (simp add: validate_lots_def unit_result for_each_Ok_iff)
  then show ?thesis
    by (auto simp: validate_lot_def lot_ok_def unit_result positive_amount simp del: less_val
        intro!: not_less_val dest!: last_by_Some split: option.splits)
qed

lemma hedges_ok:
  assumes "validate_hedges r = Ok ()" "a \<in> set (hedge_allocations r)"
  shows "hedge_ok r a"
proof -
  have v: "validate_hedge r a = Ok ()"
    using assms by (simp add: validate_hedges_def unit_result for_each_Ok_iff)
  show ?thesis unfolding hedge_ok_def
  proof (intro conjI)
    show "lot_of_kind r {Derivative} (hedge_lot_id a)"
      "lot_of_kind r {Security, Loan, Funding} (exposure_lot_id a)"
      using v by (auto simp: validate_hedge_def intro!: lot_of_kind LotKind_cases)
    show "positive_amount (hedge_amount a)"
      using v by (auto simp: validate_hedge_def positive_amount)
    show "case hedge_end_ordinal a of None \<Rightarrow> True | Some e \<Rightarrow> hedge_start_ordinal a < e"
      using v by (auto simp: validate_hedge_def split: option.splits)
    show "case formal_relationship_id a of None \<Rightarrow> True | Some k \<Rightarrow>
          (\<exists>f \<in> set (formal_relationships r). relationship_id f = k \<and> hedge_lot_id a \<in> set (hedging_lot_ids f))"
      using v by (auto simp: validate_hedge_def dest!: last_by_Some split: option.splits)
  qed
qed

lemma fundings_ok:
  assumes "validate_fundings r = Ok ()" "a \<in> set (funding_allocations r)"
  shows "funding_ok r a"
proof -
  have v: "validate_funding r a = Ok ()"
    using assms by (simp add: validate_fundings_def unit_result for_each_Ok_iff)
  then obtain f l where "lot_map r (funding_lot_id a) = Some f" "lot_kind f = Funding"
    "lot_map r (attributed_lot_id a) = Some l" "lot_kind l \<noteq> Derivative" "lot_kind l \<noteq> Funding"
    "positive_amount (funding_amount a)"
    by (auto simp: validate_funding_def positive_amount)
  moreover from this have "lot_kind l \<in> {Security, Loan}" by (intro LotKind_cases)
  moreover have "case funding_end_ordinal a of None \<Rightarrow> True | Some e \<Rightarrow> funding_start_ordinal a < e"
    using v by (auto simp: validate_funding_def split: option.splits)
  ultimately show ?thesis
    unfolding funding_ok_def by (blast intro: lot_of_kind)
qed

lemma pledges_ok:
  assumes "validate_pledges hash r = Ok ()" "p \<in> set (pledges r)"
  shows "pledge_ok r p"
proof -
  from assms(1) obtain m where "fold_res (validate_pledge r) (\<lambda>_. None) (pledges r) = Ok m"
    by (auto simp: pledges_Ok_iff)
  from pledges_fold [OF this] assms(2) obtain m1 m2 where v: "validate_pledge r m1 p = Ok m2" by blast
  then have "pledge_agreement_id p \<in> agreement_id ` set (margin_agreements r)
      \<or> lot_of_kind r {Funding} (pledge_agreement_id p)"
    by (auto simp: validate_pledge_def unit_result last_by_None_iff intro: lot_of_kind
        split: option.splits dest: last_by_Some)
  with pledge_facts [OF v] show ?thesis
    by (auto simp: pledge_ok_def positive_amount intro: lot_of_kind)
qed

text \<open>Actions: the loop keeps the sold totals and collects the dependency edges.\<close>

definition action_ok :: "LifecycleRequest \<Rightarrow> LifecycleAction \<Rightarrow> bool" where
  "action_ok r a \<longleftrightarrow> as_of_ordinal r \<le> trade_ordinal a \<and> trade_ordinal a \<le> effective_ordinal a
     \<and> effective_ordinal a \<le> settlement_ordinal a \<and> action_lots a \<noteq> []
     \<and> set (action_depends_on a) \<subseteq> action_id ` set (actions r)
     \<and> distinct (map action_lot_id (action_lots a))
     \<and> (\<forall>x \<in> set (action_lots a). positive_amount (action_quantity x)
          \<and> (\<exists>l \<in> set (lots r). lot_id l = action_lot_id x \<and> within_limit (action_quantity x) (lot_quantity l))
          \<and> (accounting_treatment a = Formal \<longrightarrow> (\<forall>h \<in> set (hedge_allocations r).
               exposure_lot_id h = action_lot_id x \<or> hedge_lot_id h = action_lot_id x
               \<longrightarrow> formal_relationship_id h \<noteq> None)))"

definition sell :: "LifecycleAction \<Rightarrow> (string \<Rightarrow> f64 option) \<Rightarrow> ActionLot \<Rightarrow> (string \<Rightarrow> f64 option)" where
  "sell a sold x = (if action_kind a = Unwind then entry_add sold (action_lot_id x) (action_quantity x)
     else sold)"

definition sold_within :: "LifecycleRequest \<Rightarrow> (string \<Rightarrow> f64 option) \<Rightarrow> bool" where
  "sold_within r sold \<longleftrightarrow> (\<forall>k tot. sold k = Some tot \<longrightarrow>
     (\<exists>l. lot_map r k = Some l \<and> within_limit tot (lot_quantity l)))"

lemma action_lot_Ok:
  assumes "action_lot r a (seen, sold) x = Ok (seen', sold')"
  shows "action_lot_id x \<notin> seen" "seen' = insert (action_lot_id x) seen" "sold' = sell a sold x"
    "sold_within r sold \<Longrightarrow> sold_within r sold'"
    "positive_amount (action_quantity x)"
    "\<exists>l \<in> set (lots r). lot_id l = action_lot_id x \<and> within_limit (action_quantity x) (lot_quantity l)"
    "accounting_treatment a = Formal \<Longrightarrow> h \<in> set (hedge_allocations r) \<Longrightarrow>
     exposure_lot_id h = action_lot_id x \<or> hedge_lot_id h = action_lot_id x
     \<Longrightarrow> formal_relationship_id h \<noteq> None"
proof -
  from assms obtain l where l: "lot_map r (action_lot_id x) = Some l"
    and q: "is_finite (action_quantity x)" "fabs (action_quantity x) \<le> MAX_MONETARY_AMOUNT"
      "0 < action_quantity x"
    and g: "action_lot_id x \<notin> seen" "within_limit (action_quantity x) (lot_quantity l)"
    and s: "sell_lot a l sold x = Ok sold'" and f: "formal_owned r a x = Ok ()"
    and seen': "seen' = insert (action_lot_id x) seen"
    by (auto simp: action_lot_def unit_result simp del: less_val)
  show "action_lot_id x \<notin> seen" "seen' = insert (action_lot_id x) seen" using g seen' by auto
  show "positive_amount (action_quantity x)" using q by (rule positive_amount)
  show "\<exists>l \<in> set (lots r). lot_id l = action_lot_id x \<and> within_limit (action_quantity x) (lot_quantity l)"
    using last_by_Some [OF l] g(2) by auto
  show sold': "sold' = sell a sold x"
    using s by (auto simp: sell_lot_def sell_def Let_def split: if_splits)
  show "sold_within r sold'" if "sold_within r sold"
    using that s l by (auto simp: sold_within_def sell_lot_def Let_def entry_add_def split: if_splits)
  show "formal_relationship_id h \<noteq> None" if "accounting_treatment a = Formal"
    "h \<in> set (hedge_allocations r)" "exposure_lot_id h = action_lot_id x \<or> hedge_lot_id h = action_lot_id x"
    using f that by (fastforce simp: formal_owned_def for_each_Ok_iff)
qed

lemma action_lots_fold:
  "fold_res (action_lot r a) (seen, sold) xs = Ok (seen', sold') \<Longrightarrow>
   distinct (map action_lot_id xs) \<and> action_lot_id ` set xs \<inter> seen = {}
   \<and> sold' = foldl (sell a) sold xs \<and> (sold_within r sold \<longrightarrow> sold_within r sold')
   \<and> (\<forall>x \<in> set xs. \<exists>s t. action_lot r a s x = Ok t)"
proof (induction xs arbitrary: seen sold)
  case (Cons x xs)
  from Cons.prems obtain seen1 sold1 where x: "action_lot r a (seen, sold) x = Ok (seen1, sold1)"
    and rest: "fold_res (action_lot r a) (seen1, sold1) xs = Ok (seen', sold')"
    by (auto simp: fold_res.simps)
  note facts = action_lot_Ok(1-4) [OF x]
  from Cons.IH [OF rest] facts show ?case using x by auto
qed simp

lemma validate_action_Ok:
  assumes "validate_action r (sold, edges) a = Ok (sold', edges')"
  shows "edges' = edges @ [(action_id a, action_depends_on a)]"
    "sold' = foldl (sell a) sold (action_lots a)"
    "sold_within r sold \<Longrightarrow> sold_within r sold'" "action_ok r a"
proof -
  from assms obtain seen where lots: "fold_res (action_lot r a) ({}, sold) (action_lots a) = Ok (seen, sold')"
    and c: "as_of_ordinal r \<le> trade_ordinal a" "trade_ordinal a \<le> effective_ordinal a"
      "effective_ordinal a \<le> settlement_ordinal a" "action_lots a \<noteq> []"
    and d: "\<forall>d \<in> set (action_depends_on a). d \<in> action_id ` set (actions r)"
    and e: "edges' = edges @ [(action_id a, action_depends_on a)]"
    by (auto simp: validate_action_def unit_result for_each_Ok_iff)
  note fold = action_lots_fold [OF lots]
  show "edges' = edges @ [(action_id a, action_depends_on a)]" by fact
  show "sold' = foldl (sell a) sold (action_lots a)" using fold by blast
  show "sold_within r sold'" if "sold_within r sold" using fold that by blast
  have "positive_amount (action_quantity x)
      \<and> (\<exists>l \<in> set (lots r). lot_id l = action_lot_id x \<and> within_limit (action_quantity x) (lot_quantity l))
      \<and> (accounting_treatment a = Formal \<longrightarrow> (\<forall>h \<in> set (hedge_allocations r).
           exposure_lot_id h = action_lot_id x \<or> hedge_lot_id h = action_lot_id x
           \<longrightarrow> formal_relationship_id h \<noteq> None))" if "x \<in> set (action_lots a)" for x
  proof -
    from fold that obtain s1 s2 t1 t2 where "action_lot r a (s1, s2) x = Ok (t1, t2)" by fastforce
    from action_lot_Ok(5-7) [OF this] show ?thesis by blast
  qed
  then show "action_ok r a" using c d fold unfolding action_ok_def by blast
qed

lemma actions_fold:
  "fold_res (validate_action r) (sold, edges) as = Ok (sold', edges') \<Longrightarrow>
   edges' = edges @ map (\<lambda>a. (action_id a, action_depends_on a)) as
   \<and> sold' = foldl (\<lambda>s a. foldl (sell a) s (action_lots a)) sold as
   \<and> (sold_within r sold \<longrightarrow> sold_within r sold') \<and> (\<forall>a \<in> set as. action_ok r a)"
proof (induction as arbitrary: sold edges)
  case (Cons a as)
  from Cons.prems obtain sold1 edges1 where a: "validate_action r (sold, edges) a = Ok (sold1, edges1)"
    and rest: "fold_res (validate_action r) (sold1, edges1) as = Ok (sold', edges')"
    by (auto simp: fold_res.simps)
  from Cons.IH [OF rest] validate_action_Ok [OF a] show ?case by auto
qed simp

text \<open>Margin agreements and obligations.\<close>

lemma scope_lots_fold:
  "fold_res (scope_lot r) scoped ids = Ok scoped' \<Longrightarrow>
   distinct ids \<and> set ids \<inter> scoped = {} \<and> scoped' = scoped \<union> set ids
   \<and> (\<forall>i \<in> set ids. lot_of_kind r {Derivative} i)"
proof (induction ids arbitrary: scoped)
  case (Cons i ids)
  have step: "scope_lot r scoped i = Ok t \<longleftrightarrow>
      (\<exists>l. lot_map r i = Some l \<and> lot_kind l = Derivative) \<and> i \<notin> scoped \<and> t = insert i scoped" for t
    by (auto simp: scope_lot_def)
  from Cons.prems have i: "i \<notin> scoped" "lot_of_kind r {Derivative} i"
    and rest: "fold_res (scope_lot r) (insert i scoped) ids = Ok scoped'"
    by (auto simp: step intro: lot_of_kind)
  from Cons.IH [OF rest] i show ?case by auto
qed simp

definition agreement_ok :: "LifecycleRequest \<Rightarrow> MarginAgreement \<Rightarrow> bool" where
  "agreement_ok r a \<longleftrightarrow> (\<forall>i \<in> set (agreement_lot_ids a). lot_of_kind r {Derivative} i)
     \<and> (initial_margin a = ResearchSensitivity) = (margin_method a \<noteq> None)
     \<and> (\<forall>m. margin_method a = Some m \<longrightarrow>
          bucket_upper_days m \<noteq> [] \<and> length (bucket_upper_days m) \<le> MAX_MARGIN_BUCKETS
          \<and> length (risk_weights m) = length (bucket_upper_days m)
          \<and> symmetric_unit (length (bucket_upper_days m)) (correlations m))"

lemma agreements_fold:
  "fold_res (validate_agreement r) scoped as = Ok scoped' \<Longrightarrow>
   distinct (concat (map agreement_lot_ids as)) \<and> set (concat (map agreement_lot_ids as)) \<inter> scoped = {}
   \<and> (\<forall>a \<in> set as. agreement_ok r a)"
proof (induction as arbitrary: scoped)
  case (Cons a as)
  from Cons.prems obtain scoped1 where a: "validate_agreement r scoped a = Ok scoped1"
    and rest: "fold_res (validate_agreement r) scoped1 as = Ok scoped'" by auto
  from a have f: "fold_res (scope_lot r) scoped (agreement_lot_ids a) = Ok scoped1"
    and m: "validate_mode a = Ok ()"
    by (auto simp: validate_agreement_def unit_result)
  note s = scope_lots_fold [OF f]
  have "agreement_ok r a"
    using s m by (auto simp: agreement_ok_def validate_mode_def validate_method_def bad_matrix_exact Let_def unit_result
        split: option.splits if_splits)
  with Cons.IH [OF rest] s show ?case by auto
qed simp

definition obligation_ok :: "LifecycleRequest \<Rightarrow> SettlementObligation \<Rightarrow> bool" where
  "obligation_ok r ob \<longleftrightarrow> obligation_account_id ob \<in> account_id ` set (accounts r)
     \<and> as_of_ordinal r \<le> due_ordinal ob \<and> is_finite (obligation_cash ob) \<and> is_finite (obligation_quantity ob)
     \<and> shape r ob \<and> obligation_agreement r ob = Ok ()
     \<and> (\<forall>d \<in> set (depends_on ob). \<exists>p \<in> set (obligations r). obligation_id p = d
          \<and> (obligation_account_id p = obligation_account_id ob \<longrightarrow> coordinate p < coordinate ob))"

lemma obligation_Ok:
  assumes "validate_obligation r (seen, edges) ob = Ok (seen', edges')"
  shows "edges' = edges @ [(obligation_id ob, depends_on ob)]"
    "seen' = insert (obligation_account_id ob, coordinate ob) seen"
    "(obligation_account_id ob, coordinate ob) \<notin> seen" "obligation_ok r ob"
proof -
  from assms have c: "obligation_account_id ob \<in> account_id ` set (accounts r)"
      "as_of_ordinal r \<le> due_ordinal ob" "is_finite (obligation_cash ob)" "is_finite (obligation_quantity ob)"
      "shape r ob" "obligation_agreement r ob = Ok ()" "(obligation_account_id ob, coordinate ob) \<notin> seen"
    and d: "\<forall>d \<in> set (depends_on ob). obligation_dependency r ob d = Ok ()"
    and e: "edges' = edges @ [(obligation_id ob, depends_on ob)]"
      "seen' = insert (obligation_account_id ob, coordinate ob) seen"
    by (auto simp: validate_obligation_def Let_def unit_result for_each_Ok_iff)
  from c e show "edges' = edges @ [(obligation_id ob, depends_on ob)]"
    "seen' = insert (obligation_account_id ob, coordinate ob) seen"
    "(obligation_account_id ob, coordinate ob) \<notin> seen" by blast+
  have "\<exists>p \<in> set (obligations r). obligation_id p = k
      \<and> (obligation_account_id p = obligation_account_id ob \<longrightarrow> coordinate p < coordinate ob)"
    if "k \<in> set (depends_on ob)" for k
  proof -
    from d that have "obligation_dependency r ob k = Ok ()" by blast
    then obtain p where "last_by obligation_id (obligations r) k = Some p"
      "\<not> (coordinate ob \<le> coordinate p \<and> obligation_account_id p = obligation_account_id ob)"
      by (auto simp: obligation_dependency_def Let_def)
    with last_by_Some show ?thesis by (metis linorder_not_le)
  qed
  with c show "obligation_ok r ob" unfolding obligation_ok_def by blast
qed

lemma obligations_fold:
  "fold_res (validate_obligation r) (seen, edges) obs = Ok (seen', edges') \<Longrightarrow>
   edges' = edges @ map (\<lambda>ob. (obligation_id ob, depends_on ob)) obs
   \<and> distinct (map (\<lambda>ob. (obligation_account_id ob, coordinate ob)) obs)
   \<and> (\<lambda>ob. (obligation_account_id ob, coordinate ob)) ` set obs \<inter> seen = {}
   \<and> (\<forall>ob \<in> set obs. obligation_ok r ob)"
proof (induction obs arbitrary: seen edges)
  case (Cons ob obs)
  from Cons.prems obtain seen1 edges1 where a: "validate_obligation r (seen, edges) ob = Ok (seen1, edges1)"
    and rest: "fold_res (validate_obligation r) (seen1, edges1) obs = Ok (seen', edges')"
    by (auto simp: fold_res.simps)
  from Cons.IH [OF rest] obligation_Ok [OF a] show ?case by auto
qed simp

text \<open>The edge map of a list of steps with distinct identities.\<close>

definition step_edges :: "('s \<Rightarrow> string) \<Rightarrow> ('s \<Rightarrow> string list) \<Rightarrow> 's list \<Rightarrow> (string \<times> string) set" where
  "step_edges key needs xs = {(key x, d) | x d. x \<in> set xs \<and> d \<in> set (needs x)}"

lemma dependency_rel_sorted:
  assumes "distinct (map key xs)"
  shows "dependency_rel (sort_key fst (map (\<lambda>x. (key x, needs x)) xs)) = step_edges key needs xs"
proof -
  let ?es = "map (\<lambda>x. (key x, needs x)) xs"
  have fst_es: "map fst ?es = map key xs" by (induction xs) auto
  have "distinct (map fst ?es)" using assms fst_es by (simp only:)
  then have "distinct (map fst (sort_key fst ?es))"
    by (simp only: distinct_map distinct_sort set_sort)
  then have m: "map_of (sort_key fst ?es) k = Some v \<longleftrightarrow> (k, v) \<in> set ?es" for k v
    using map_of_eq_Some_iff [of "sort_key fst ?es" k v] by (simp only: set_sort)
  have "v \<in> set (succs es u) \<longleftrightarrow> (\<exists>vs. map_of es u = Some vs \<and> v \<in> set vs)"
    for es :: "(string \<times> string list) list" and u v
    by (cases "map_of es u") (simp_all add: succs_def)
  then have "v \<in> set (succs (sort_key fst ?es) u) \<longleftrightarrow> (\<exists>x \<in> set xs. u = key x \<and> v \<in> set (needs x))" for u v
    by (simp only: m) auto
  then have "dependency_rel (sort_key fst ?es) = {(u, v). \<exists>x \<in> set xs. u = key x \<and> v \<in> set (needs x)}"
    by (simp only: dependency_rel_def)
  then show ?thesis by (auto simp only: step_edges_def)
qed

lemma accepted_graph:
  assumes "distinct (map key xs)"
    and "map_err f (acyclic_check (sort_key fst (map (\<lambda>x. (key x, needs x)) xs))) = Ok ()"
  shows "acyclic (step_edges key needs xs)"
  using assms acyclic_check_spec [of "sort_key fst (map (\<lambda>x. (key x, needs x)) xs)"]
  by (simp add: dependency_rel_sorted)

lemma actions_accepted:
  assumes "validate_actions r = Ok ()"
  shows "(\<forall>a \<in> set (actions r). action_ok r a)
    \<and> acyclic (step_edges action_id action_depends_on (actions r))
    \<and> sold_within r (foldl (\<lambda>s a. foldl (sell a) s (action_lots a)) (\<lambda>_. None) (actions r))"
proof -
  from assms obtain s sold edges where u: "unique (map action_id (actions r)) ''action'' = Ok s"
    and f: "fold_res (validate_action r) (\<lambda>_. None, []) (actions r) = Ok (sold, edges)"
    and g: "map_err (\<lambda>n. refusal_new SETTLEMENT_DEPENDENCY_CYCLE
        [Txt (''action dependency cycle through `'' @ n @ ''`'')]) (acyclic_check (sort_key fst edges)) = Ok ()"
    by (auto simp: validate_actions_def)
  note fold = actions_fold [OF f]
  have "distinct (map action_id (actions r))" using unique_Ok [OF u] by blast
  from accepted_graph [OF this] g fold show ?thesis by (auto simp: sold_within_def)
qed

lemma obligations_accepted:
  assumes "validate_obligations r = Ok ()"
  shows "(\<forall>ob \<in> set (obligations r). obligation_ok r ob)
    \<and> distinct (map (\<lambda>ob. (obligation_account_id ob, coordinate ob)) (obligations r))
    \<and> acyclic (step_edges obligation_id depends_on (obligations r))"
proof -
  from assms obtain s seen edges where u: "unique (map obligation_id (obligations r)) ''obligation'' = Ok s"
    and f: "fold_res (validate_obligation r) ({}, []) (obligations r) = Ok (seen, edges)"
    and g: "map_err (\<lambda>n. refusal_new SETTLEMENT_DEPENDENCY_CYCLE
        [Txt (''settlement dependency cycle through `'' @ n @ ''`'')]) (acyclic_check (sort_key fst edges)) = Ok ()"
    by (auto simp: validate_obligations_def)
  note fold = obligations_fold [OF f]
  have "distinct (map obligation_id (obligations r))" using unique_Ok [OF u] by blast
  from accepted_graph [OF this] g fold show ?thesis by auto
qed

section \<open>Running totals\<close>

definition total_of :: "('x \<Rightarrow> string) \<Rightarrow> ('x \<Rightarrow> f64) \<Rightarrow> 'x list \<Rightarrow> string \<Rightarrow> f64" where
  "total_of key qty xs k = foldl (+) 0 (map qty (filter (\<lambda>x. key x = k) xs))"

lemma entry_fold:
  "foldl (\<lambda>m x. entry_add m (key x) (qty x)) m xs k =
     (if k \<in> key ` set xs
      then Some (foldl (+) (case m k of Some v \<Rightarrow> v | None \<Rightarrow> 0) (map qty (filter (\<lambda>x. key x = k) xs)))
      else m k)"
proof (induction xs arbitrary: m)
  case (Cons x xs)
  have "filter (\<lambda>y. key y = key x) xs = []" if "key x \<notin> key ` set xs"
    using that by (auto simp: filter_empty_conv) (metis image_eqI)
  then show ?case unfolding foldl_Cons Cons.IH
    by (auto simp: entry_add_def split: option.splits)
qed simp

lemma entry_fold_empty:
  "k \<in> key ` set xs \<Longrightarrow>
   foldl (\<lambda>m x. entry_add m (key x) (qty x)) (\<lambda>_. None) xs k = Some (total_of key qty xs k)"
  by (simp add: entry_fold total_of_def)

definition pledged_total :: "LifecycleRequest \<Rightarrow> string \<Rightarrow> f64" where
  "pledged_total r = total_of pledge_lot_id pledge_quantity (pledges r)"

definition unwound :: "LifecycleRequest \<Rightarrow> ActionLot list" where
  "unwound r = concat (map action_lots (filter (\<lambda>a. action_kind a = Unwind) (actions r)))"

lemma sell_fold: "foldl (\<lambda>s a. foldl (sell a) s (action_lots a)) m as
   = foldl (\<lambda>m x. entry_add m (action_lot_id x) (action_quantity x)) m
       (concat (map action_lots (filter (\<lambda>a. action_kind a = Unwind) as)))"
proof (induction as arbitrary: m)
  case (Cons a as)
  have "foldl (sell a) m xs = m" if "action_kind a \<noteq> Unwind" for m xs
    using that by (induction xs arbitrary: m) (simp_all add: sell_def)
  moreover have "sell a = (\<lambda>m x. entry_add m (action_lot_id x) (action_quantity x))"
    if "action_kind a = Unwind" using that by (simp add: sell_def fun_eq_iff)
  ultimately show ?case using Cons.IH by simp
qed simp

section \<open>The properties of an admitted plan\<close>

text \<open>
  C13. An admitted plan is well formed: every identity is unique, every lot has a listed Physical
  source, a listed account and consistent category, every allocation, pledge, agreement, action
  and obligation refers to existing records of the kind it needs, amounts are positive and
  bounded, and no lot is in two legal margin scopes.
\<close>

theorem admitted_plan_well_formed:
  assumes "validate_plan hash r = Ok ()"
  shows "identities_distinct r \<and> (\<forall>l \<in> set (lots r). lot_ok r l)
    \<and> (\<forall>a \<in> set (hedge_allocations r). hedge_ok r a)
    \<and> (\<forall>a \<in> set (funding_allocations r). funding_ok r a)
    \<and> (\<forall>p \<in> set (pledges r). pledge_ok r p)
    \<and> (\<forall>a \<in> set (margin_agreements r). agreement_ok r a)
    \<and> distinct (concat (map agreement_lot_ids (margin_agreements r)))
    \<and> (\<forall>a \<in> set (actions r). action_ok r a)
    \<and> (\<forall>ob \<in> set (obligations r). obligation_ok r ob)"
proof -
  note v = validate_plan_parts [OF assms]
  obtain s where "fold_res (validate_agreement r) {} (margin_agreements r) = Ok s"
    using v(9) by (auto simp: validate_agreements_def)
  from agreements_fold [OF this]
  have "(\<forall>a \<in> set (margin_agreements r). agreement_ok r a)
      \<and> distinct (concat (map agreement_lot_ids (margin_agreements r)))" by blast
  with identities [OF assms] lots_ok [OF v(4)] hedges_ok [OF v(6)] fundings_ok [OF v(7)]
    pledges_ok [OF v(10)] actions_accepted [OF v(12)] obligations_accepted [OF v(13)]
  show ?thesis by blast
qed

text \<open>
  C14. The steps of an admitted plan can be executed in order: the dependency relations of its
  actions and of its obligations are acyclic, no two obligations of an account share an event
  coordinate, and every dependency inside an account is strictly earlier than its dependent.
\<close>

theorem admitted_steps_ordered:
  assumes "validate_plan hash r = Ok ()"
  shows "acyclic (step_edges action_id action_depends_on (actions r))
    \<and> acyclic (step_edges obligation_id depends_on (obligations r))
    \<and> distinct (map (\<lambda>ob. (obligation_account_id ob, coordinate ob)) (obligations r))
    \<and> (\<forall>ob \<in> set (obligations r). \<forall>d \<in> set (depends_on ob). \<exists>p \<in> set (obligations r).
         obligation_id p = d \<and> (obligation_account_id p = obligation_account_id ob
           \<longrightarrow> coordinate p < coordinate ob))"
  using actions_accepted [OF validate_plan_parts(12) [OF assms]]
    obligations_accepted [OF validate_plan_parts(13) [OF assms]]
  unfolding obligation_ok_def by blast

text \<open>
  No inventory of an admitted plan is used twice: the pledges of a lot with its outside
  encumbrance, the quantities its unwinds sell and the drawn balance of a facility, each added up
  in plan order, stay within the lot's quantity or the commitment.
\<close>

theorem admitted_inventory_bounds:
  assumes "validate_plan hash r = Ok ()"
  shows "(\<forall>p \<in> set (pledges r). \<exists>l \<in> set (lots r). lot_id l = pledge_lot_id p
       \<and> within_limit (pledged_total r (lot_id l) + outside_encumbrance l) (lot_quantity l))
    \<and> (\<forall>x \<in> set (unwound r). \<exists>l \<in> set (lots r). lot_id l = action_lot_id x
       \<and> within_limit (total_of action_lot_id action_quantity (unwound r) (lot_id l)) (lot_quantity l))
    \<and> (\<forall>f \<in> set (facilities r). 0 \<le> val (drawn f) \<and> within_limit (drawn f) (commitment f))"
proof (intro conjI ballI)
  note v = validate_plan_parts [OF assms]
  fix p assume p: "p \<in> set (pledges r)"
  from v(10) obtain m where m: "fold_res (validate_pledge r) (\<lambda>_. None) (pledges r) = Ok m"
    and "pledged_lot r m (pledge_lot_id p) = Ok ()" using p by (auto simp: pledges_Ok_iff)
  moreover have "m (pledge_lot_id p) = Some (pledged_total r (pledge_lot_id p))"
    using pledges_fold [OF m] p by (simp add: pledged_total_def entry_fold_empty)
  ultimately obtain l where "lot_map r (pledge_lot_id p) = Some l"
    "within_limit (pledged_total r (pledge_lot_id p) + outside_encumbrance l) (lot_quantity l)"
    by (auto simp: pledged_lot_def)
  with last_by_Some [of lot_id "lots r"] show "\<exists>l \<in> set (lots r). lot_id l = pledge_lot_id p
      \<and> within_limit (pledged_total r (lot_id l) + outside_encumbrance l) (lot_quantity l)" by force
next
  fix x assume x: "x \<in> set (unwound r)"
  let ?m = "foldl (\<lambda>m x. entry_add m (action_lot_id x) (action_quantity x)) (\<lambda>_. None) (unwound r)"
  have "sold_within r ?m"
    using actions_accepted [OF validate_plan_parts(12) [OF assms]]
    by (simp add: sell_fold flip: unwound_def)
  moreover have "?m (action_lot_id x) = Some (total_of action_lot_id action_quantity (unwound r) (action_lot_id x))"
    using x by (intro entry_fold_empty) simp
  ultimately obtain l where "lot_map r (action_lot_id x) = Some l"
    "within_limit (total_of action_lot_id action_quantity (unwound r) (action_lot_id x)) (lot_quantity l)"
    by (auto simp: sold_within_def)
  with last_by_Some [of lot_id "lots r"] show "\<exists>l \<in> set (lots r). lot_id l = action_lot_id x
      \<and> within_limit (total_of action_lot_id action_quantity (unwound r) (lot_id l)) (lot_quantity l)" by force
next
  fix f assume "f \<in> set (facilities r)"
  then have "validate_facility f = Ok ()"
    using validate_plan_parts(11) [OF assms] by (simp add: validate_facilities_def unit_result for_each_Ok_iff)
  then show "0 \<le> val (drawn f)" "within_limit (drawn f) (commitment f)"
    by (auto simp: validate_facility_def simp del: less_val intro!: not_less_val)
qed

definition whole_amount :: "f64 \<Rightarrow> bool" where
  "whole_amount x \<longleftrightarrow> f64_ok x \<and> val x \<in> \<int>"

definition whole_plan :: "LifecycleRequest \<Rightarrow> bool" where
  "whole_plan r \<longleftrightarrow> (\<forall>a \<in> set (hedge_allocations r). whole_amount (hedge_amount a))
     \<and> (\<forall>a \<in> set (funding_allocations r). whole_amount (funding_amount a))
     \<and> (\<forall>l \<in> set (lots r). f64_ok (lot_quantity l))"

lemma positive_bounds: "positive_amount x \<Longrightarrow> f64_ok x \<Longrightarrow> is_finite x \<and> 0 < val x \<and> val x \<le> 10 ^ 15"
  using monetary_bound [of x] by (auto simp: positive_amount_def)

lemma uses_within:
  assumes w: "within_lots r h uses what = Ok ()" and u: "\<forall>u \<in> set uses. whole_use u"
    and l: "l \<in> set (lots r)" "distinct (map lot_id (lots r))" "lot_ok r l" "f64_ok (lot_quantity l)"
  shows "(\<Sum>u\<leftarrow>uses. live (lot_id l) t u) \<le> val (lot_quantity l) + max (val (lot_quantity l)) 1 / 10 ^ 8"
proof (cases "lot_id l \<in> fst ` set uses")
  case True
  with w obtain l' where "lot_map r (lot_id l) = Some l'"
    "within_limit (peak_level (key_events uses (lot_id l))) (lot_quantity l')"
    by (auto simp: within_lots_Ok_iff)
  moreover have "lot_map r (lot_id l) = Some l" using l(1,2) by (rule last_by_distinct [rotated])
  ultimately have "within_limit (peak_level (key_events uses (lot_id l))) (lot_quantity l)" by simp
  with positive_bounds [of "lot_quantity l"] l(3,4) show ?thesis
    by (intro live_within [OF u]) (auto simp: lot_ok_def)
next
  case False
  then have "live (lot_id l) t u = 0" if "u \<in> set uses" for u
    using that by (force simp: live_def split: prod.splits)
  then have "(\<Sum>u\<leftarrow>uses. live (lot_id l) t u) = 0" by (induction uses) simp_all
  then show ?thesis using positive_bounds [of "lot_quantity l"] l(3,4) by (simp add: lot_ok_def)
qed

text \<open>
  C11. In an admitted plan whose amounts are whole currency units, a lot is never hedged, hedging,
  funding or funded beyond its quantity: at every date the exact sum of the allocations then in
  force on the lot is at most the quantity, up to a hundred-millionth of it.
\<close>

theorem allocations_within_lots:
  assumes "validate_plan hash r = Ok ()" "whole_plan r" "l \<in> set (lots r)"
  shows "\<forall>uses \<in> {map exposure_use (hedge_allocations r), map hedge_use (hedge_allocations r),
                 map funding_use (funding_allocations r), map attributed_use (funding_allocations r)}.
     (\<Sum>u\<leftarrow>uses. live (lot_id l) t u) \<le> val (lot_quantity l) + max (val (lot_quantity l)) 1 / 10 ^ 8"
proof -
  note v = validate_plan_parts [OF assms(1)]
  have l: "distinct (map lot_id (lots r))" "lot_ok r l" "f64_ok (lot_quantity l)"
    using identities [OF assms(1)] lots_ok [OF v(4)] assms(2,3)
    by (auto simp: identities_distinct_def whole_plan_def)
  have "whole_use (exposure_use a)" "whole_use (hedge_use a)" if "a \<in> set (hedge_allocations r)" for a
    using hedges_ok [OF v(6) that] positive_bounds [of "hedge_amount a"] assms(2) that
    by (auto simp: whole_use_def exposure_use_def hedge_use_def hedge_ok_def whole_plan_def whole_amount_def)
  moreover have "whole_use (funding_use a)" "whole_use (attributed_use a)"
    if "a \<in> set (funding_allocations r)" for a
    using fundings_ok [OF v(7) that] positive_bounds [of "funding_amount a"] assms(2) that
    by (auto simp: whole_use_def funding_use_def attributed_use_def funding_ok_def whole_plan_def whole_amount_def)
  ultimately have whole: "\<forall>u \<in> set (map exposure_use (hedge_allocations r)). whole_use u"
    "\<forall>u \<in> set (map hedge_use (hedge_allocations r)). whole_use u"
    "\<forall>u \<in> set (map funding_use (funding_allocations r)). whole_use u"
    "\<forall>u \<in> set (map attributed_use (funding_allocations r)). whole_use u" by simp_all
  from v(8) obtain w0 w1 w2 w3 where w:
    "within_lots r (hash 0) (map exposure_use (hedge_allocations r)) w0 = Ok ()"
    "within_lots r (hash 1) (map hedge_use (hedge_allocations r)) w1 = Ok ()"
    "within_lots r (hash 2) (map funding_use (funding_allocations r)) w2 = Ok ()"
    "within_lots r (hash 3) (map attributed_use (funding_allocations r)) w3 = Ok ()"
    unfolding validate_allocations_def by (auto simp: unit_result)
  show ?thesis
    using uses_within [OF w(1) whole(1) assms(3) l] uses_within [OF w(2) whole(2) assms(3) l]
      uses_within [OF w(3) whole(3) assms(3) l] uses_within [OF w(4) whole(4) assms(3) l]
    by (simp del: map_map set_map)
qed

section \<open>A sample plan\<close>

definition sample_revision :: Revision where
  "sample_revision = \<lparr> rev_id = ''r'', revision_text = ''1'' \<rparr>"

definition sample_lot :: "string \<Rightarrow> LotKind \<Rightarrow> AccountingCategory \<Rightarrow> PositionLot" where
  "sample_lot k kind cat = \<lparr> lot_id = k, position_id = ''p'', lot_source_id = ''s'', lot_account_id = ''a'',
     lot_kind = kind, accounting_category = cat, lot_quantity = f64_of_int 100, acquisition_ordinal = 1,
     original_cost = 0, original_effective_yield = 0, original_oas = 0, outside_encumbrance = 0 \<rparr>"

definition sample_obligation :: "string \<Rightarrow> ObligationKind \<Rightarrow> int \<Rightarrow> i32 \<Rightarrow> string list \<Rightarrow> SettlementObligation" where
  "sample_obligation k kind cash due deps = \<lparr> obligation_id = k, source_event = k,
     obligation_account_id = ''a'', obligation_kind = kind, obligation_cash = f64_of_int cash,
     obligation_lot_id = None, obligation_quantity = 0, obligation_pledge_id = None,
     obligation_facility_id = None, obligation_action_id = None, obligation_agreement_id = None,
     collateral = None, due_ordinal = due, phase = 0, sequence = 0, depends_on = deps,
     obligation_state = PendingState \<rparr>"

definition sample_plan :: LifecycleRequest where
  "sample_plan = \<lparr> schema = SCHEMA, model_version = SCHEMA, workspace_revision = sample_revision,
     saved_book_revision = sample_revision, entity = ''e'', currency = ''USD'',
     monetary_unit = ''currency_units'', as_of_ordinal = 1, settlement_policy = sample_revision,
     sources = [\<lparr> source_id = ''s'', source_revision = ''1'', sha256 = replicate 64 (CHR ''0''),
       measure = Physical \<rparr>],
     accounts = [\<lparr> account_id = ''a'', account_cash = f64_of_int 10, equity = f64_of_int 10 \<rparr>,
       \<lparr> account_id = ''s'', account_cash = f64_of_int 10, equity = f64_of_int 10 \<rparr>],
     lots = [sample_lot ''x'' Security Trading, sample_lot ''d'' Derivative DerivativeCategory],
     hedge_allocations = [\<lparr> hedge_allocation_id = ''h'', exposure_lot_id = ''x'', hedge_lot_id = ''d'',
       hedge_amount = f64_of_int 60, risk_basis = InterestRate, hedge_start_ordinal = 1,
       hedge_end_ordinal = Some 5, hedge_review = sample_revision, unwind_treatment = Retain,
       formal_relationship_id = None \<rparr>],
     funding_allocations = [], pledges = [], margin_agreements = [], facilities = [],
     formal_relationships = [],
     actions = [\<lparr> action_id = ''u'', action_kind = Unwind, trade_ordinal = 1, effective_ordinal = 1,
       settlement_ordinal = 2, action_lots = [\<lparr> action_lot_id = ''x'', action_quantity = f64_of_int 40 \<rparr>],
       action_policy = sample_revision, accounting_treatment = Economic, action_depends_on = [] \<rparr>],
     obligations = [sample_obligation ''in'' CashReceipt 5 2 [], sample_obligation ''out'' CashPayment (- 12) 3 [''in''],
       sample_obligation ''u'' CashReceipt 5 2 [''in''] \<lparr> obligation_account_id := ''s'' \<rparr>] \<rparr>"

lemmas sample_defs = sample_plan_def sample_lot_def sample_obligation_def sample_revision_def

lemma sample_text [simp]: "bounded_text ''r'' w = Ok ()" "bounded_text ''1'' w = Ok ()"
  "bounded_text ''e'' w = Ok ()" "bounded_text ''p'' w = Ok ()" "bounded_text ''s'' w = Ok ()"
  "bounded_text ''a'' w = Ok ()" "bounded_text ''x'' w = Ok ()" "bounded_text ''d'' w = Ok ()"
  "bounded_text ''h'' w = Ok ()" "bounded_text ''u'' w = Ok ()" "bounded_text ''in'' w = Ok ()"
  "bounded_text ''out'' w = Ok ()"
  by (simp_all add: bounded_text_def guard_def)

lemma sample_revision_Ok [simp]: "revision sample_revision w = Ok ()"
  by (simp add: revision_def sample_revision_def)

lemma sample_ints [simp]:
  "is_finite (f64_of_int k)" "val (f64_of_int k) = of_int k"
  "fabs (f64_of_int k) \<le> MAX_MONETARY_AMOUNT" if "k \<in> {5, 10, 40, 60, 100, - 12}"
proof -
  have "\<bar>k\<bar> \<le> 2 ^ 53" using that by auto
  from int_val [OF this] show k: "is_finite (f64_of_int k)" "val (f64_of_int k) = of_int k" by auto
  have "is_finite MAX_MONETARY_AMOUNT" "val MAX_MONETARY_AMOUNT = 10 ^ 15"
    using int_val [of "10 ^ 15"] by (simp_all add: MAX_MONETARY_AMOUNT_def)
  with k that show "fabs (f64_of_int k) \<le> MAX_MONETARY_AMOUNT" by auto
qed

lemma sample_zero [simp]: "fabs 0 \<le> MAX_MONETARY_AMOUNT"
  using sample_ints(3) [of 5] int_val [of "10 ^ 15"] by (simp add: MAX_MONETARY_AMOUNT_def)

lemma sample_sums:
  "is_finite (0 + f64_of_int 40)" "val (0 + f64_of_int 40) = 40"
  "is_finite (0 + f64_of_int 60)" "val (0 + f64_of_int 60) = 60"
  "is_finite (0 + f64_of_int 60 + - f64_of_int 60)" "val (0 + f64_of_int 60 + - f64_of_int 60) = 0"
proof -
  show "is_finite (0 + f64_of_int 40)" "val (0 + f64_of_int 40) = 40"
    using exact_add [of 0 "f64_of_int 40" 0 40] by simp_all
  show s: "is_finite (0 + f64_of_int 60)" "val (0 + f64_of_int 60) = 60"
    using exact_add [of 0 "f64_of_int 60" 0 60] by simp_all
  show "is_finite (0 + f64_of_int 60 + - f64_of_int 60)" "val (0 + f64_of_int 60 + - f64_of_int 60) = 0"
    using exact_add [of "0 + f64_of_int 60" "- f64_of_int 60" 60 "- 60"] s by simp_all
qed

lemma sample_limits [simp]:
  "within_limit 0 (f64_of_int 100)" "within_limit (f64_of_int 40) (f64_of_int 100)"
  "within_limit (0 + f64_of_int 40) (f64_of_int 100)"
  "within_limit (fmax (fmax 0 (0 + f64_of_int 60)) (0 + f64_of_int 60 + - f64_of_int 60)) (f64_of_int 100)"
  using fmax_val [of 0 "0 + f64_of_int 60"]
    fmax_val [of "fmax 0 (0 + f64_of_int 60)" "0 + f64_of_int 60 + - f64_of_int 60"] sample_sums
  by (auto intro!: within_limitI)

lemma sample_signs [simp]: "0 < 1 * f64_of_int 5" "0 < - 1 * f64_of_int (- 12)"
proof -
  have five: "f64_of_int 5 = Fin False 5629499534213120 (- 50)"
    and twelve: "f64_of_int (- 12) = Fin True 6755399441055744 (- 49)"
    by (simp_all add: f64_eval)
  have "1 * f64_of_int 5 = f64_of_int 5" unfolding five one_f64_def times_f64_def
    by (simp add: round_q_def qexp_def rne_div_def pack_def shl_def Let_def)
  then show "0 < 1 * f64_of_int 5" by simp
  have "- 1 * f64_of_int (- 12) = Fin False 6755399441055744 (- 49)"
    unfolding twelve one_f64_def times_f64_def uminus_f64_def
    by (simp add: round_q_def qexp_def rne_div_def pack_def shl_def Let_def)
  then show "0 < - 1 * f64_of_int (- 12)" by simp
qed

lemmas sample_eval = guard_def unique_def require_def unit_result last_by_def Let_def

lemma sample_admitted: "validate_plan hash sample_plan = Ok ()"
proof -
  have "validate_header sample_plan = Ok ()"
    by (simp add: validate_header_def sample_plan_def bounded_def MAX_RECORDS_def
        is_ascii_uppercase_def sample_eval)
  moreover have "validate_sources sample_plan = Ok ()"
    by (simp add: validate_sources_def sample_plan_def is_ascii_uppercase_def is_ascii_hexdigit_def
        list.pred_set sample_eval)
  moreover have "validate_accounts sample_plan = Ok ()"
    by (simp add: validate_accounts_def sample_plan_def sample_eval)
  moreover have "validate_lots sample_plan = Ok ()"
    by (simp add: validate_lots_def validate_lot_def lot_consistent_def sample_plan_def
        sample_lot_def sample_eval)
  moreover have "validate_formals sample_plan = Ok ()"
    by (simp add: validate_formals_def sample_plan_def sample_eval)
  moreover have "validate_hedges sample_plan = Ok ()"
    by (simp add: validate_hedges_def validate_hedge_def sample_plan_def sample_lot_def sample_eval)
  moreover have "validate_fundings sample_plan = Ok ()"
    by (simp add: validate_fundings_def sample_plan_def sample_eval)
  moreover have "validate_allocations hash sample_plan = Ok ()"
    by (simp add: validate_allocations_def within_lots_Ok_iff key_events_def peak_level_def
        exposure_use_def hedge_use_def sample_plan_def sample_lot_def sample_eval)
  moreover have "validate_agreements sample_plan = Ok ()"
    by (simp add: validate_agreements_def sample_plan_def sample_eval)
  moreover have "validate_pledges hash sample_plan = Ok ()"
    by (simp add: validate_pledges_def sample_plan_def sample_eval)
  moreover have "validate_facilities sample_plan = Ok ()"
    by (simp add: validate_facilities_def sample_plan_def sample_eval)
  moreover have "validate_actions sample_plan = Ok ()"
    by (simp add: validate_actions_def validate_action_def action_lot_def sell_lot_def formal_owned_def
        sample_plan_def sample_lot_def MAX_DEPENDENCIES_def entry_add_def acyclic_check_def
        visit_root_def dfs.simps succs_def sample_eval)
  moreover have "validate_obligations sample_plan = Ok ()"
    by (simp add: validate_obligations_def validate_obligation_def shape_def obligation_agreement_def
        obligation_dependency_def coordinate_def sample_plan_def sample_obligation_def
        MAX_DEPENDENCIES_def acyclic_check_def visit_root_def dfs.simps succs_def sample_eval)
  ultimately show ?thesis by (simp add: validate_plan_def)
qed

section \<open>Witnesses\<close>

lemma admitted_plan_well_formed_witness:
  "identities_distinct sample_plan \<and> lot_ok sample_plan (sample_lot ''x'' Security Trading)"
  using admitted_plan_well_formed [OF sample_admitted] by (simp add: sample_plan_def)

lemma admitted_steps_ordered_witness:
  "acyclic (step_edges obligation_id depends_on (obligations sample_plan))"
  using admitted_steps_ordered [OF sample_admitted] by blast

lemma admitted_inventory_bounds_witness:
  "within_limit (total_of action_lot_id action_quantity (unwound sample_plan) ''x'') (f64_of_int 100)"
  using admitted_inventory_bounds [OF sample_admitted]
  by (simp add: sample_plan_def sample_lot_def unwound_def)

lemma allocations_within_lots_witness:
  "(\<Sum>u\<leftarrow>map hedge_use (hedge_allocations sample_plan). live ''d'' 3 u) \<le> 100 + 100 / 10 ^ 8"
proof -
  have "whole_plan sample_plan"
    by (simp add: whole_plan_def whole_amount_def sample_plan_def sample_lot_def)
  from allocations_within_lots [OF sample_admitted this, of "sample_lot ''d'' Derivative DerivativeCategory" 3]
  show ?thesis by (simp add: sample_plan_def sample_lot_def del: map_map set_map)
qed

end
