(* ===== verification/Lifecycle_Settlement.thy ===== *)
theory Lifecycle_Settlement
  imports Lifecycle_Admitted
begin

text \<open>
  The declared settlement walk of an admitted plan, \<open>portfolio-model-core/src/lifecycle/settlement.rs\<close>:
  the obligations of one account in coordinate order against mutable maps of pledges, deliveries
  and facility balances. The \<open>HashMap\<close>s are functions to \<open>option\<close>; indexing one at a missing key
  is \<open>Panic\<close>, and \<open>get_mut(k).unwrap_or(&mut 0.)\<close> writes to a temporary when the key is missing.
\<close>

section \<open>Definitions\<close>

datatype StepStatus = Settled | Failed | Blocked

record Step =
  step_obligation_id :: string
  status :: StepStatus
  cash_after :: f64

record Walk =
  walk_account_id :: string
  walk_steps :: "Step list"
  closing_cash :: f64
  minimum_cash :: f64

type_synonym amounts = "string \<Rightarrow> f64 option"

record WalkState =
  pledged_on :: amounts
  pledge_left :: amounts
  delivered :: amounts
  drawn_on :: amounts
  cash_now :: f64
  minimum_now :: f64
  settled :: "string set"
  steps :: "Step list"

definition tolerance :: f64 where
  "tolerance = f64_lit 1 1000000000"

definition get_mut_add :: "amounts \<Rightarrow> string \<Rightarrow> f64 \<Rightarrow> amounts" where
  "get_mut_add m k x = (case m k of Some v \<Rightarrow> m(k \<mapsto> v + x) | None \<Rightarrow> m)"

definition get_mut_sub :: "amounts \<Rightarrow> string \<Rightarrow> f64 \<Rightarrow> amounts" where
  "get_mut_sub m k x = (case m k of Some v \<Rightarrow> m(k \<mapsto> v - x) | None \<Rightarrow> m)"

definition or_default :: "string option \<Rightarrow> string" where
  "or_default x = (case x of Some s \<Rightarrow> s | None \<Rightarrow> [])"

definition walk_start :: "LifecycleRequest \<Rightarrow> OpeningAccount \<Rightarrow> WalkState" where
  "walk_start r account =
     \<lparr> pledged_on = foldl (\<lambda>m p. entry_add m (pledge_lot_id p) (pledge_quantity p)) (\<lambda>_. None) (pledges r),
       pledge_left = (\<lambda>k. map_option pledge_quantity (last_by pledge_id (pledges r) k)),
       delivered = (\<lambda>_. None),
       drawn_on = (\<lambda>k. map_option drawn (last_by facility_id (facilities r) k)),
       cash_now = account_cash account, minimum_now = account_cash account,
       settled = {}, steps = [] \<rparr>"

definition walk_order :: "LifecycleRequest \<Rightarrow> string \<Rightarrow> SettlementObligation list" where
  "walk_order r account =
     sort_key coordinate (filter (\<lambda>ob. obligation_account_id ob = account) (obligations r))"

definition financing_draw ::
    "LifecycleRequest \<Rightarrow> WalkState \<Rightarrow> SettlementObligation \<Rightarrow> (Refusal, WalkState) result" where
  "financing_draw r st ob = (let f = or_default (obligation_facility_id ob) in
     and_then (unwrap (map_option commitment (last_by facility_id (facilities r) f))) (\<lambda>c.
     and_then (unwrap (drawn_on st f)) (\<lambda>d. let headroom = c - d in
     require (\<not> headroom + tolerance * fmax (fabs headroom) 1 < obligation_cash ob)
       (refusal_new INSUFFICIENT_SETTLEMENT_LIQUIDITY
         [Txt (''draw `'' @ obligation_id ob @ ''` exceeds facility `'' @ f @ ''` headroom ''), Flt headroom])
       (Ok (st \<lparr> drawn_on := get_mut_add (drawn_on st) f (obligation_cash ob) \<rparr>)))))"

definition financing_repayment ::
    "WalkState \<Rightarrow> SettlementObligation \<Rightarrow> (Refusal, WalkState) result" where
  "financing_repayment st ob = (case obligation_facility_id ob of None \<Rightarrow> Ok st | Some f \<Rightarrow>
     and_then (ok_or (drawn_on st f) (refusal_new LIFECYCLE_MAPPING_REQUIRED [Txt ''unknown facility'']))
       (\<lambda>d. let d = d + obligation_cash ob in
     require (\<not> d < - tolerance)
       (refusal_new OVERALLOCATION
         [Txt (''repayment `'' @ obligation_id ob @ ''` exceeds drawn facility `'' @ f @ ''`'')])
       (Ok (st \<lparr> drawn_on := (drawn_on st)(f \<mapsto> d) \<rparr>))))"

definition collateral_release ::
    "LifecycleRequest \<Rightarrow> WalkState \<Rightarrow> SettlementObligation \<Rightarrow> (Refusal, WalkState) result" where
  "collateral_release r st ob = (let p = or_default (obligation_pledge_id ob) in
     and_then (ok_or (pledge_left st p) (refusal_new LIFECYCLE_MAPPING_REQUIRED [Txt ''unknown pledge'']))
       (\<lambda>left.
     require (\<not> left + tolerance < obligation_quantity ob)
       (refusal_new INVENTORY_UNAVAILABLE
         [Txt (''release `'' @ obligation_id ob @ ''` exceeds pledge `'' @ p @ ''`'')])
     (and_then (unwrap (map_option pledge_lot_id (last_by pledge_id (pledges r) p))) (\<lambda>lot.
      Ok (st \<lparr> pledge_left := (pledge_left st)(p \<mapsto> left - obligation_quantity ob),
               pledged_on := get_mut_sub (pledged_on st) lot (obligation_quantity ob) \<rparr>)))))"

definition security_delivery ::
    "LifecycleRequest \<Rightarrow> WalkState \<Rightarrow> SettlementObligation \<Rightarrow> (Refusal, WalkState) result" where
  "security_delivery r st ob = (let lot = or_default (obligation_lot_id ob) in
     and_then (unwrap (lot_map r lot)) (\<lambda>l.
     let gone = (case delivered st lot of Some v \<Rightarrow> v | None \<Rightarrow> 0);
         available = lot_quantity l - outside_encumbrance l
           - (case pledged_on st lot of Some v \<Rightarrow> v | None \<Rightarrow> 0) - gone in
     require (\<not> available + tolerance * fmax (lot_quantity l) 1 < obligation_quantity ob)
       (refusal_new INVENTORY_UNAVAILABLE
         [Txt (''delivery `'' @ obligation_id ob @ ''` of lot `'' @ lot
            @ ''` exceeds its unencumbered available quantity ''), Flt available])
       (Ok (st \<lparr> delivered := (delivered st)(lot \<mapsto> gone + obligation_quantity ob) \<rparr>))))"

definition settle_kind ::
    "LifecycleRequest \<Rightarrow> WalkState \<Rightarrow> SettlementObligation \<Rightarrow> (Refusal, WalkState) result" where
  "settle_kind r st ob = (case obligation_kind ob of
     FinancingDraw \<Rightarrow> financing_draw r st ob
   | FinancingRepayment \<Rightarrow> financing_repayment st ob
   | CollateralRelease \<Rightarrow> collateral_release r st ob
   | SecurityDelivery \<Rightarrow> security_delivery r st ob
   | _ \<Rightarrow> Ok st)"

definition settle_cash ::
    "OpeningAccount \<Rightarrow> WalkState \<Rightarrow> SettlementObligation \<Rightarrow> (Refusal, WalkState) result" where
  "settle_cash account st ob = (let cash = cash_now st + obligation_cash ob in
     require (\<not> cash < - tolerance * fmax (fabs (account_cash account)) 1)
       (refusal_new INSUFFICIENT_SETTLEMENT_LIQUIDITY
         [Txt (''obligation `'' @ obligation_id ob @ ''` leaves account `''
            @ account_id account @ ''` cash at ''), Flt cash])
       (Ok (st \<lparr> cash_now := cash, minimum_now := fmin (minimum_now st) cash,
                 settled := insert (obligation_id ob) (settled st) \<rparr>)))"

definition push_step :: "WalkState \<Rightarrow> SettlementObligation \<Rightarrow> StepStatus \<Rightarrow> WalkState" where
  "push_step st ob s = st \<lparr> steps := steps st @
     [\<lparr> step_obligation_id = obligation_id ob, status = s, cash_after = cash_now st \<rparr>] \<rparr>"

definition walk_step :: "LifecycleRequest \<Rightarrow> OpeningAccount \<Rightarrow> WalkState \<Rightarrow> SettlementObligation
    \<Rightarrow> (Refusal, WalkState) result" where
  "walk_step r account st ob =
     (if obligation_state ob = FailedState then Ok (push_step st ob Failed)
      else if \<not> (\<forall>d \<in> set (depends_on ob). d \<in> settled st) then Ok (push_step st ob Blocked)
      else and_then (settle_kind r st ob) (\<lambda>st.
           and_then (settle_cash account st ob) (\<lambda>st. Ok (push_step st ob Settled))))"

definition walk :: "LifecycleRequest \<Rightarrow> string \<Rightarrow> (Refusal, Walk) result" where
  "walk r account =
     and_then (ok_or (find (\<lambda>a. account_id a = account) (accounts r))
       (refusal_new LIFECYCLE_MAPPING_REQUIRED [Txt (''unknown account `'' @ account @ ''`'')])) (\<lambda>a.
     and_then (fold_res (walk_step r a) (walk_start r a) (walk_order r account)) (\<lambda>st.
     Ok \<lparr> walk_account_id = account, walk_steps = steps st,
          closing_cash = cash_now st, minimum_cash = minimum_now st \<rparr>))"

section \<open>Every lookup of the walk succeeds on an admitted plan\<close>

definition walk_inv :: "LifecycleRequest \<Rightarrow> WalkState \<Rightarrow> bool" where
  "walk_inv r st \<longleftrightarrow> (\<forall>f \<in> set (facilities r). drawn_on st (facility_id f) \<noteq> None)
     \<and> (\<forall>p \<in> set (pledges r). pledge_left st (pledge_id p) \<noteq> None)"

definition refusal_codes :: "string set" where
  "refusal_codes = {INSUFFICIENT_SETTLEMENT_LIQUIDITY, OVERALLOCATION, INVENTORY_UNAVAILABLE}"

text \<open>What a call of the walk may return: a state that keeps the invariant or one of the three refusals.\<close>

definition settles_well :: "LifecycleRequest \<Rightarrow> (Refusal, WalkState) result \<Rightarrow> bool" where
  "settles_well r x = (case x of Ok st \<Rightarrow> walk_inv r st | Err e \<Rightarrow> code e \<in> refusal_codes | Panic \<Rightarrow> False)"

lemma settles_well_simps [simp]:
  "settles_well r (Ok st) = walk_inv r st" "settles_well r (Err e) \<longleftrightarrow> code e \<in> refusal_codes"
  "\<not> settles_well r Panic"
  by (simp_all add: settles_well_def)

lemma settles_well_require:
  "code e \<in> refusal_codes \<Longrightarrow> settles_well r x \<Longrightarrow> settles_well r (require c e x)"
  by (simp add: require_def)

lemma settles_well_bind:
  "settles_well r x \<Longrightarrow> (\<And>st. x = Ok st \<Longrightarrow> walk_inv r st \<Longrightarrow> settles_well r (k st)) \<Longrightarrow> settles_well r (and_then x k)"
  by (cases x) auto

lemma codes [simp]: "code (refusal_new c d) = c"
  by (simp add: refusal_new_def)

lemma last_by_known: "k \<in> key ` set xs \<Longrightarrow> \<exists>x. last_by key xs k = Some x"
  using last_by_None_iff [of key xs k] by (cases "last_by key xs k") auto

lemma walk_start_inv: "walk_inv r (walk_start r a)"
  by (auto simp: walk_inv_def walk_start_def last_by_None_iff)

lemma financing_draw_well:
  assumes "walk_inv r st" "obligation_kind ob = FinancingDraw" "shape r ob"
  shows "settles_well r (financing_draw r st ob)"
proof -
  obtain f where f: "obligation_facility_id ob = Some f" "f \<in> facility_id ` set (facilities r)"
    using assms(2,3) by (auto simp: shape_def Let_def split: option.splits)
  obtain x where "last_by facility_id (facilities r) f = Some x" using last_by_known [OF f(2)] by blast
  moreover obtain d where "drawn_on st f = Some d" using assms(1) f(2) by (auto simp: walk_inv_def)
  ultimately show ?thesis using assms(1) f(1)
    by (auto simp: financing_draw_def or_default_def Let_def walk_inv_def get_mut_add_def unwrap_def
        refusal_codes_def intro!: settles_well_require)
qed

lemma financing_repayment_well:
  assumes "walk_inv r st" "obligation_kind ob = FinancingRepayment" "shape r ob"
  shows "settles_well r (financing_repayment st ob)"
proof (cases "obligation_facility_id ob")
  case (Some f)
  then have "f \<in> facility_id ` set (facilities r)"
    using assms(2,3) by (auto simp: shape_def Let_def)
  then obtain d where "drawn_on st f = Some d" using assms(1) by (auto simp: walk_inv_def)
  then show ?thesis using assms(1) Some
    by (auto simp: financing_repayment_def Let_def walk_inv_def ok_or_def refusal_codes_def
        intro!: settles_well_require)
qed (use assms(1) in \<open>simp add: financing_repayment_def\<close>)

lemma collateral_release_well:
  assumes "walk_inv r st" "obligation_kind ob = CollateralRelease" "shape r ob"
  shows "settles_well r (collateral_release r st ob)"
proof -
  obtain p x where p: "obligation_pledge_id ob = Some p" "last_by pledge_id (pledges r) p = Some x"
    using assms(2,3) by (auto simp: shape_def Let_def split: option.splits)
  then have "p \<in> pledge_id ` set (pledges r)" using last_by_Some by fastforce
  then obtain q where "pledge_left st p = Some q" using assms(1) by (auto simp: walk_inv_def)
  then show ?thesis using assms(1) p
    by (auto simp: collateral_release_def or_default_def Let_def walk_inv_def ok_or_def unwrap_def
        refusal_codes_def intro!: settles_well_require)
qed

lemma security_delivery_well:
  assumes "walk_inv r st" "obligation_kind ob = SecurityDelivery" "shape r ob"
  shows "settles_well r (security_delivery r st ob)"
proof -
  obtain k l where "obligation_lot_id ob = Some k" "lot_map r k = Some l"
    using assms(2,3) by (auto simp: shape_def Let_def split: option.splits)
  then show ?thesis using assms(1)
    by (auto simp: security_delivery_def or_default_def Let_def walk_inv_def unwrap_def
        refusal_codes_def intro!: settles_well_require)
qed

lemma settle_kind_well:
  "walk_inv r st \<Longrightarrow> shape r ob \<Longrightarrow> settles_well r (settle_kind r st ob)"
  using financing_draw_well financing_repayment_well collateral_release_well security_delivery_well
  by (cases "obligation_kind ob") (simp_all add: settle_kind_def)

lemma walk_step_well:
  assumes "walk_inv r st" "shape r ob"
  shows "settles_well r (walk_step r a st ob)"
proof -
  have "settles_well r (settle_cash a s ob)" if "walk_inv r s" for s
    using that by (auto simp: settle_cash_def Let_def walk_inv_def refusal_codes_def intro!: settles_well_require)
  then show ?thesis
    using assms settle_kind_well [OF assms]
    by (auto simp: walk_step_def push_step_def walk_inv_def intro!: settles_well_bind)
qed

lemma walk_loop_well:
  "walk_inv r st \<Longrightarrow> \<forall>ob \<in> set obs. shape r ob \<Longrightarrow> settles_well r (fold_res (walk_step r a) st obs)"
  by (induction obs arbitrary: st) (auto intro!: settles_well_bind walk_step_well)

text \<open>
  C17. On an admitted plan the settlement walk always returns: every facility, pledge and lot it
  indexes exists, so it never panics, and the only refusals for a known account are the three
  economic ones (insufficient liquidity, overallocation, unavailable inventory).
\<close>

theorem walk_total:
  assumes "validate_plan hash r = Ok ()" "account \<in> account_id ` set (accounts r)"
  shows "case walk r account of
      Ok w \<Rightarrow> walk_account_id w = account
    | Err e \<Rightarrow> code e \<in> {INSUFFICIENT_SETTLEMENT_LIQUIDITY, OVERALLOCATION, INVENTORY_UNAVAILABLE}
    | Panic \<Rightarrow> False"
proof -
  obtain a where a: "find (\<lambda>a. account_id a = account) (accounts r) = Some a"
    using assms(2) find_None_iff [of "\<lambda>a. account_id a = account" "accounts r"]
    by (cases "find (\<lambda>a. account_id a = account) (accounts r)") auto
  have "\<forall>ob \<in> set (walk_order r account). shape r ob"
    using obligations_accepted [OF validate_plan_parts(13) [OF assms(1)]]
    by (auto simp: walk_order_def obligation_ok_def)
  from walk_loop_well [OF walk_start_inv this, of a a] a show ?thesis
    by (cases "fold_res (walk_step r a) (walk_start r a) (walk_order r account)")
      (auto simp: walk_def ok_or_def refusal_codes_def)
qed

section \<open>What a step does\<close>

lemma settle_kind_frame:
  assumes "settle_kind r st ob = Ok st'"
  shows "cash_now st' = cash_now st \<and> minimum_now st' = minimum_now st \<and> settled st' = settled st
    \<and> steps st' = steps st"
  using assms
  by (auto simp: settle_kind_def financing_draw_def financing_repayment_def collateral_release_def
      security_delivery_def Let_def split: ObligationKind.splits option.splits)

definition floor_cash :: "OpeningAccount \<Rightarrow> f64" where
  "floor_cash a = - tolerance * fmax (fabs (account_cash a)) 1"

lemma settle_cash_Ok:
  assumes "settle_cash a st ob = Ok st'"
  shows "cash_now st' = cash_now st + obligation_cash ob \<and> minimum_now st' = fmin (minimum_now st) (cash_now st')
    \<and> settled st' = insert (obligation_id ob) (settled st) \<and> steps st' = steps st
    \<and> \<not> cash_now st' < floor_cash a"
  using assms by (auto simp: settle_cash_def floor_cash_def Let_def)

lemma walk_step_cases:
  assumes "walk_step r a st ob = Ok st'"
  obtains (Failed) "obligation_state ob = FailedState" "st' = push_step st ob Failed"
  | (Blocked) "obligation_state ob \<noteq> FailedState" "\<not> set (depends_on ob) \<subseteq> settled st"
      "st' = push_step st ob Blocked"
  | (Settled) "obligation_state ob \<noteq> FailedState" "set (depends_on ob) \<subseteq> settled st"
      "cash_now st' = cash_now st + obligation_cash ob" "minimum_now st' = fmin (minimum_now st) (cash_now st')"
      "settled st' = insert (obligation_id ob) (settled st)" "\<not> cash_now st' < floor_cash a"
      "steps st' = steps st @
         [\<lparr> step_obligation_id = obligation_id ob, status = Settled, cash_after = cash_now st' \<rparr>]"
proof (cases "obligation_state ob = FailedState")
  case True
  with assms that(1) show ?thesis by (simp add: walk_step_def)
next
  case active: False
  show ?thesis
  proof (cases "\<forall>d \<in> set (depends_on ob). d \<in> settled st")
    case False
    with assms active that(2) show ?thesis by (auto simp: walk_step_def)
  next
    case True
    with assms active obtain st1 st2 where k: "settle_kind r st ob = Ok st1"
      and c: "settle_cash a st1 ob = Ok st2" and p: "st' = push_step st2 ob Settled"
      by (auto simp: walk_step_def)
    show ?thesis
      using settle_kind_frame [OF k] settle_cash_Ok [OF c] p active True
      by (intro that(3)) (auto simp: push_step_def)
  qed
qed

lemma push_step_simps [simp]:
  "cash_now (push_step st ob s) = cash_now st" "minimum_now (push_step st ob s) = minimum_now st"
  "settled (push_step st ob s) = settled st"
  "steps (push_step st ob s) = steps st @
     [\<lparr> step_obligation_id = obligation_id ob, status = s, cash_after = cash_now st \<rparr>]"
  by (simp_all add: push_step_def)

section \<open>Cash\<close>

abbreviation settled_steps :: "SettlementObligation list \<Rightarrow> Step list \<Rightarrow> (SettlementObligation \<times> Step) list" where
  "settled_steps obs ss \<equiv> filter (\<lambda>(_, s). status s = Settled) (zip obs ss)"

lemma walk_loop_cash:
  "fold_res (walk_step r a) st obs = Ok st' \<Longrightarrow>
   \<exists>ss. steps st' = steps st @ ss \<and> map step_obligation_id ss = map obligation_id obs
     \<and> cash_now st' = foldl (+) (cash_now st) (map (obligation_cash \<circ> fst) (settled_steps obs ss))
     \<and> minimum_now st' = foldl fmin (minimum_now st) (map (cash_after \<circ> snd) (settled_steps obs ss))
     \<and> (\<forall>s \<in> set ss. status s = Settled \<longrightarrow> \<not> cash_after s < floor_cash a)"
proof (induction obs arbitrary: st)
  case (Cons ob obs)
  from Cons.prems obtain st1 where step: "walk_step r a st ob = Ok st1"
    and rest: "fold_res (walk_step r a) st1 obs = Ok st'" by auto
  from Cons.IH [OF rest] obtain ss where ss: "steps st' = steps st1 @ ss"
    "map step_obligation_id ss = map obligation_id obs"
    "cash_now st' = foldl (+) (cash_now st1) (map (obligation_cash \<circ> fst) (settled_steps obs ss))"
    "minimum_now st' = foldl fmin (minimum_now st1) (map (cash_after \<circ> snd) (settled_steps obs ss))"
    "\<forall>s \<in> set ss. status s = Settled \<longrightarrow> \<not> cash_after s < floor_cash a" by blast
  from step show ?case
  proof (cases rule: walk_step_cases)
    case Failed
    with ss show ?thesis
      by (intro exI [of _ "\<lparr> step_obligation_id = obligation_id ob, status = Failed, cash_after = cash_now st \<rparr> # ss"])
        (simp add: comp_def)
  next
    case Blocked
    with ss show ?thesis
      by (intro exI [of _ "\<lparr> step_obligation_id = obligation_id ob, status = Blocked, cash_after = cash_now st \<rparr> # ss"])
        (simp add: comp_def)
  next
    case Settled
    with ss show ?thesis
      by (intro exI [of _ "\<lparr> step_obligation_id = obligation_id ob, status = Settled, cash_after = cash_now st1 \<rparr> # ss"])
        (simp add: comp_def)
  qed
qed simp

lemma walk_Ok:
  assumes "walk r account = Ok w"
  obtains a st where "a \<in> set (accounts r)" "account_id a = account"
    "fold_res (walk_step r a) (walk_start r a) (walk_order r account) = Ok st"
    "walk_steps w = steps st" "closing_cash w = cash_now st" "minimum_cash w = minimum_now st"
proof -
  from assms obtain a st where f: "find (\<lambda>a. account_id a = account) (accounts r) = Some a"
    and st: "fold_res (walk_step r a) (walk_start r a) (walk_order r account) = Ok st"
    and w: "walk_steps w = steps st" "closing_cash w = cash_now st" "minimum_cash w = minimum_now st"
    by (auto simp: walk_def)
  from find_SomeD [OF f] st w that show ?thesis by blast
qed

text \<open>
  C16. A finished walk reports every obligation of the account once, in coordinate order; its
  closing cash is the opening cash with the settled obligations' movements and nothing else, its
  minimum is the minimum over the settled steps, and no settled step leaves the account's cash
  below zero by more than the tolerance.
\<close>

theorem walk_conserves_cash:
  assumes "walk r account = Ok w"
  shows "\<exists>a \<in> set (accounts r). account_id a = account
    \<and> map step_obligation_id (walk_steps w) = map obligation_id (walk_order r account)
    \<and> closing_cash w = foldl (+) (account_cash a)
        (map (obligation_cash \<circ> fst) (settled_steps (walk_order r account) (walk_steps w)))
    \<and> minimum_cash w = foldl fmin (account_cash a)
        (map (cash_after \<circ> snd) (settled_steps (walk_order r account) (walk_steps w)))
    \<and> (\<forall>s \<in> set (walk_steps w). status s = Settled \<longrightarrow> \<not> cash_after s < floor_cash a)"
  using assms
proof (rule walk_Ok)
  fix a st
  assume a: "a \<in> set (accounts r)" "account_id a = account"
    and st: "fold_res (walk_step r a) (walk_start r a) (walk_order r account) = Ok st"
    and w: "walk_steps w = steps st" "closing_cash w = cash_now st" "minimum_cash w = minimum_now st"
  from walk_loop_cash [OF st] w a show ?thesis by (auto simp: walk_start_def)
qed

section \<open>Settlement as a least fixpoint\<close>

text \<open>
  The abstract specification: an obligation settles when it has not failed and everything it
  depends on settles, in the account it belongs to.
\<close>

inductive settles :: "LifecycleRequest \<Rightarrow> string \<Rightarrow> string \<Rightarrow> bool" for r account where
  settles: "ob \<in> set (obligations r) \<Longrightarrow> obligation_account_id ob = account
    \<Longrightarrow> obligation_state ob \<noteq> FailedState \<Longrightarrow> (\<And>d. d \<in> set (depends_on ob) \<Longrightarrow> settles r account d)
    \<Longrightarrow> settles r account (obligation_id ob)"

inductive_cases settlesE: "settles r account k"

definition spec_status :: "LifecycleRequest \<Rightarrow> string \<Rightarrow> SettlementObligation \<Rightarrow> StepStatus" where
  "spec_status r account ob = (if obligation_state ob = FailedState then Failed
     else if settles r account (obligation_id ob) then Settled else Blocked)"

lemma settles_deps:
  assumes "settles r account (obligation_id ob)" "ob \<in> set (obligations r)"
    and "distinct (map obligation_id (obligations r))"
  shows "obligation_account_id ob = account \<and> obligation_state ob \<noteq> FailedState
    \<and> (\<forall>d \<in> set (depends_on ob). settles r account d)"
proof -
  from assms(1) obtain ob' where ob': "ob' \<in> set (obligations r)" "obligation_id ob' = obligation_id ob"
    "obligation_account_id ob' = account" "obligation_state ob' \<noteq> FailedState"
    "\<forall>d \<in> set (depends_on ob'). settles r account d"
    by (auto elim: settlesE)
  then have "ob' = ob" using assms(2,3) by (auto simp: distinct_map dest: inj_onD)
  with ob' show ?thesis by blast
qed

lemma walk_order_prefix:
  assumes "walk_order r account = ds @ ob # rest" "p \<in> set (obligations r)"
    and "obligation_account_id p = account" "coordinate p < coordinate ob"
  shows "p \<in> set ds"
proof -
  have "sorted (map coordinate (ds @ ob # rest))"
    unfolding assms(1) [symmetric] by (simp add: walk_order_def)
  then have "coordinate ob \<le> coordinate q" if "q \<in> set (ob # rest)" for q
    using that by (auto simp: sorted_append simp del: less_eq_prod_simp)
  then have "p \<notin> set (ob # rest)" using assms(4) by (metis linorder_not_le)
  moreover have "p \<in> set (ds @ ob # rest)"
    unfolding assms(1) [symmetric] using assms(2,3) by (simp add: walk_order_def)
  ultimately show ?thesis by auto
qed

lemma walk_loop_status:
  assumes "distinct (map obligation_id (obligations r))" "\<forall>ob \<in> set (obligations r). obligation_ok r ob"
  shows "fold_res (walk_step r a) st obs = Ok st' \<Longrightarrow> walk_order r account = ds @ obs
    \<Longrightarrow> settled st = {obligation_id ob |ob. ob \<in> set ds \<and> settles r account (obligation_id ob)}
    \<Longrightarrow> \<exists>ss. steps st' = steps st @ ss \<and> map status ss = map (spec_status r account) obs"
proof (induction obs arbitrary: st ds)
  case (Cons ob obs)
  from Cons.prems(1) obtain st1 where step: "walk_step r a st ob = Ok st1"
    and rest: "fold_res (walk_step r a) st1 obs = Ok st'" by auto
  have "ob \<in> set (walk_order r account)" using Cons.prems(2) by simp
  then have ob: "ob \<in> set (obligations r)" "obligation_account_id ob = account"
    by (auto simp: walk_order_def)
  have ready: "set (depends_on ob) \<subseteq> settled st \<longleftrightarrow> (\<forall>d \<in> set (depends_on ob). settles r account d)"
  proof
    assume l: "\<forall>d \<in> set (depends_on ob). settles r account d"
    show "set (depends_on ob) \<subseteq> settled st"
    proof
      fix d assume d: "d \<in> set (depends_on ob)"
      with assms(2) ob obtain p where p: "p \<in> set (obligations r)" "obligation_id p = d"
        "obligation_account_id p = obligation_account_id ob \<longrightarrow> coordinate p < coordinate ob"
        unfolding obligation_ok_def by blast
      with l d settles_deps [OF _ p(1) assms(1)] have "obligation_account_id p = account" by blast
      with p ob walk_order_prefix [OF Cons.prems(2) p(1)] have "p \<in> set ds" by simp
      with p(2) l d Cons.prems(3) show "d \<in> settled st" by blast
    qed
  qed (use Cons.prems(3) in auto)
  have spec: "settles r account (obligation_id ob) \<longleftrightarrow>
      obligation_state ob \<noteq> FailedState \<and> set (depends_on ob) \<subseteq> settled st"
    using ready settles_deps [OF _ ob(1) assms(1)] settles.settles [OF ob] by blast
  have next_st: "steps st1 = steps st @ [\<lparr> step_obligation_id = obligation_id ob,
        status = spec_status r account ob, cash_after = cash_now st1 \<rparr>]
      \<and> settled st1 = {obligation_id o' |o'. o' \<in> set (ds @ [ob]) \<and> settles r account (obligation_id o')}"
    using step spec Cons.prems(3)
    by (cases rule: walk_step_cases) (auto simp: spec_status_def)
  then obtain ss where "steps st' = steps st1 @ ss" "map status ss = map (spec_status r account) obs"
    using Cons.IH [OF rest, of "ds @ [ob]"] Cons.prems(2) by auto
  with next_st show ?case by auto
qed simp

lemma walk_spec_status:
  assumes "validate_plan hash r = Ok ()" "walk r account = Ok w"
  shows "map status (walk_steps w) = map (spec_status r account) (walk_order r account)"
    and "distinct (map obligation_id (obligations r))"
proof -
  have d: "distinct (map obligation_id (obligations r))" "\<forall>ob \<in> set (obligations r). obligation_ok r ob"
    using identities [OF assms(1)] obligations_accepted [OF validate_plan_parts(13) [OF assms(1)]]
    by (auto simp: identities_distinct_def)
  then show "distinct (map obligation_id (obligations r))" by blast
  from assms(2) obtain a st where "fold_res (walk_step r a) (walk_start r a) (walk_order r account) = Ok st"
    and "walk_steps w = steps st" by (rule walk_Ok)
  with walk_loop_status [OF d, of a "walk_start r a" "walk_order r account" st account "[]"]
  show "map status (walk_steps w) = map (spec_status r account) (walk_order r account)"
    by (auto simp: walk_start_def)
qed

text \<open>
  C4. The walk implements the specification: on an admitted plan, the one pass in coordinate order
  gives every obligation of the account the status the dependency structure demands, \<open>Settled\<close>
  exactly for the least set closed under settled dependencies.
\<close>

theorem walk_refines_settlement:
  assumes "validate_plan hash r = Ok ()" "walk r account = Ok w"
  shows "map status (walk_steps w) = map (spec_status r account) (walk_order r account)"
  by (rule walk_spec_status(1) [OF assms])

text \<open>
  C18. Nothing waits for ever: when no obligation of the account has failed and every dependency is
  on an obligation of the same account, a finished walk of an admitted plan has settled every
  obligation.
\<close>

theorem walk_settles_everything:
  assumes "validate_plan hash r = Ok ()" "walk r account = Ok w"
    and "\<forall>ob \<in> set (walk_order r account). obligation_state ob \<noteq> FailedState
      \<and> set (depends_on ob) \<subseteq> obligation_id ` set (walk_order r account)"
  shows "length (walk_steps w) = length (walk_order r account) \<and> (\<forall>s \<in> set (walk_steps w). status s = Settled)"
proof
  note st = walk_spec_status [OF assms(1,2)]
  then show "length (walk_steps w) = length (walk_order r account)" by (metis length_map)
  have prefix: "walk_order r account = ds @ rest \<Longrightarrow> \<forall>ob \<in> set ds. settles r account (obligation_id ob)" for ds rest
  proof (induction ds arbitrary: rest rule: rev_induct)
    case (snoc ob ds)
    then have o: "walk_order r account = ds @ ob # rest" by simp
    with snoc.IH have ds: "\<forall>ob \<in> set ds. settles r account (obligation_id ob)" by blast
    have mem: "ob \<in> set (walk_order r account)" using o by simp
    then have ob: "ob \<in> set (obligations r)" "obligation_account_id ob = account"
      by (auto simp: walk_order_def)
    have "settles r account d" if d: "d \<in> set (depends_on ob)" for d
    proof -
      from assms(3) mem d obtain q where "q \<in> set (walk_order r account)" "d = obligation_id q" by blast
      then have q: "q \<in> set (obligations r)" "obligation_account_id q = account" "obligation_id q = d"
        by (auto simp: walk_order_def)
      have "obligation_ok r ob"
        using obligations_accepted [OF validate_plan_parts(13) [OF assms(1)]] ob(1) by blast
      with d obtain p where p: "p \<in> set (obligations r)" "obligation_id p = d"
        "obligation_account_id p = obligation_account_id ob \<longrightarrow> coordinate p < coordinate ob"
        unfolding obligation_ok_def by blast
      have "p = q" using st(2) p(1,2) q(1,3) by (auto simp: distinct_map dest: inj_onD)
      with p q ob walk_order_prefix [OF o p(1)] have "p \<in> set ds" by simp
      with ds p(2) show ?thesis by blast
    qed
    then have "settles r account (obligation_id ob)"
      using settles.settles [OF ob] assms(3) mem by blast
    with ds show ?case by simp
  qed simp
  have "spec_status r account ob = Settled" if "ob \<in> set (walk_order r account)" for ob
    using prefix [of "walk_order r account" "[]"] that assms(3) by (auto simp: spec_status_def)
  then have "set (map status (walk_steps w)) \<subseteq> {Settled}" unfolding st(1) by auto
  then show "\<forall>s \<in> set (walk_steps w). status s = Settled" by auto
qed

text \<open>
  C19. Admission allows an obligation to depend on one of another account, but the walk of an
  account only ever knows its own: such an obligation is never settled, whatever happens to the
  dependency in its own account's walk.
\<close>

theorem cross_account_dependency_blocks:
  assumes "validate_plan hash r = Ok ()" "walk r account = Ok w"
    and "(ob, s) \<in> set (zip (walk_order r account) (walk_steps w))"
    and "p \<in> set (obligations r)" "obligation_id p \<in> set (depends_on ob)"
    and "obligation_account_id p \<noteq> account"
  shows "status s \<in> {Failed, Blocked}"
proof (rule ccontr)
  assume "status s \<notin> {Failed, Blocked}"
  moreover note st = walk_spec_status [OF assms(1,2)]
  have "length (walk_steps w) = length (walk_order r account)" using st(1) by (metis length_map)
  with assms(3) st(1) have "status s = spec_status r account ob"
    by (auto simp: in_set_zip) (metis nth_map)
  ultimately have "settles r account (obligation_id ob)" by (auto simp: spec_status_def split: if_splits)
  moreover have "ob \<in> set (obligations r)" using assms(3) by (auto simp: walk_order_def dest: set_zip_leftD)
  ultimately have "settles r account (obligation_id p)" using settles_deps st(2) assms(5) by blast
  with settles_deps [OF _ assms(4) st(2)] assms(6) show False by blast
qed

section \<open>Witnesses\<close>

lemma sample_find:
  "find (\<lambda>a. account_id a = ''a'') (accounts sample_plan)
     = Some \<lparr> account_id = ''a'', account_cash = f64_of_int 10, equity = f64_of_int 10 \<rparr>"
  "find (\<lambda>a. account_id a = ''s'') (accounts sample_plan)
     = Some \<lparr> account_id = ''s'', account_cash = f64_of_int 10, equity = f64_of_int 10 \<rparr>"
  by (simp_all add: sample_plan_def)

lemma sample_order:
  "walk_order sample_plan ''a'' = [sample_obligation ''in'' CashReceipt 5 2 [],
     sample_obligation ''out'' CashPayment (- 12) 3 [''in'']]"
  "walk_order sample_plan ''s'' =
     [sample_obligation ''u'' CashReceipt 5 2 [''in''] \<lparr> obligation_account_id := ''s'' \<rparr>]"
  by (simp_all add: walk_order_def sample_plan_def sample_obligation_def coordinate_def)

lemma sample_cash:
  "\<not> f64_of_int 10 + f64_of_int 5 < - tolerance * fmax (fabs (f64_of_int 10)) 1"
  "\<not> f64_of_int 10 + f64_of_int 5 + f64_of_int (- 12) < - tolerance * fmax (fabs (f64_of_int 10)) 1"
proof -
  have t: "- tolerance * fmax (fabs (f64_of_int 10)) 1 \<le> 0"
  proof -
    have ten: "f64_of_int 10 = Fin False 5629499534213120 (- 49)" by (simp add: f64_eval)
    have nano: "tolerance = Fin False 4835703278458517 (- 82)" by (simp add: tolerance_def f64_eval)
    have "fabs (f64_of_int 10) = f64_of_int 10" by (simp add: ten)
    moreover have "1 < f64_of_int 10" "f64_of_int 10 \<noteq> NaN" "(1 :: f64) \<noteq> NaN"
      by (simp, simp add: ten, simp add: one_f64_def)
    ultimately have "fmax (fabs (f64_of_int 10)) 1 = f64_of_int 10" by (simp add: fmax_def del: less_val)
    moreover have "- tolerance * f64_of_int 10 = Fin True 6044629098073146 (- 79)"
      unfolding ten nano times_f64_def uminus_f64_def
      by (simp add: round_q_def qexp_def rne_div_def pack_def shl_def Let_def)
    ultimately show ?thesis by simp
  qed
  have s: "is_finite (f64_of_int 10 + f64_of_int 5)" "val (f64_of_int 10 + f64_of_int 5) = 15"
    using exact_add [of "f64_of_int 10" "f64_of_int 5" 10 5] by simp_all
  then have s': "is_finite (f64_of_int 10 + f64_of_int 5 + f64_of_int (- 12))"
    "val (f64_of_int 10 + f64_of_int 5 + f64_of_int (- 12)) = 3"
    using exact_add [of "f64_of_int 10 + f64_of_int 5" "f64_of_int (- 12)" 15 "- 12"] by simp_all
  have "\<not> x < y" if "is_finite x" "0 \<le> val x" "y \<le> 0" for x y :: f64
  proof (cases "is_finite y")
    case False
    with that(3) have "y = Inf True" by (cases y) (auto simp: less_eq_f64_def zero_f64_def)
    with that(1) show ?thesis by (cases x) (auto simp: less_f64_def)
  qed (use that in auto)
  from this [OF s(1) _ t] this [OF s'(1) _ t] s(2) s'(2)
  show "\<not> f64_of_int 10 + f64_of_int 5 < - tolerance * fmax (fabs (f64_of_int 10)) 1"
    "\<not> f64_of_int 10 + f64_of_int 5 + f64_of_int (- 12) < - tolerance * fmax (fabs (f64_of_int 10)) 1"
    by simp_all
qed

lemma sample_walk:
  "\<exists>w. walk sample_plan ''a'' = Ok w \<and> map status (walk_steps w) = [Settled, Settled]"
  "\<exists>w s. walk sample_plan ''s'' = Ok w \<and> walk_steps w = [s] \<and> status s = Blocked"
  by (simp_all add: walk_def sample_find sample_order ok_or_def walk_step_def settle_kind_def
      settle_cash_def walk_start_def sample_obligation_def sample_cash push_step_def require_def Let_def)

lemma walk_total_witness:
  "case walk sample_plan ''a'' of
     Ok w \<Rightarrow> walk_account_id w = ''a''
   | Err e \<Rightarrow> code e \<in> {INSUFFICIENT_SETTLEMENT_LIQUIDITY, OVERALLOCATION, INVENTORY_UNAVAILABLE}
   | Panic \<Rightarrow> False"
  by (rule walk_total [OF sample_admitted]) (simp add: sample_plan_def)

lemma walk_conserves_cash_witness:
  "\<exists>w. walk sample_plan ''a'' = Ok w \<and> map step_obligation_id (walk_steps w) = [''in'', ''out'']"
proof -
  obtain w where w: "walk sample_plan ''a'' = Ok w" using sample_walk(1) by blast
  from walk_conserves_cash [OF this] w show ?thesis
    by (auto simp: sample_order sample_obligation_def)
qed

lemma walk_refines_settlement_witness:
  "map (spec_status sample_plan ''a'') (walk_order sample_plan ''a'') = [Settled, Settled]"
  using sample_walk(1) walk_refines_settlement [OF sample_admitted] by fastforce

lemma walk_settles_everything_witness:
  "\<exists>w. walk sample_plan ''a'' = Ok w \<and> length (walk_steps w) = 2 \<and> (\<forall>s \<in> set (walk_steps w). status s = Settled)"
proof -
  obtain w where w: "walk sample_plan ''a'' = Ok w" using sample_walk(1) by blast
  from walk_settles_everything [OF sample_admitted w] w show ?thesis
    by (simp add: sample_order) (simp add: sample_obligation_def)
qed

lemma cross_account_dependency_blocks_witness:
  "\<exists>w s. walk sample_plan ''s'' = Ok w \<and> walk_steps w = [s] \<and> status s \<in> {Failed, Blocked}"
proof -
  obtain w s where w: "walk sample_plan ''s'' = Ok w" "walk_steps w = [s]" using sample_walk(2) by blast
  let ?ob = "sample_obligation ''u'' CashReceipt 5 2 [''in''] \<lparr> obligation_account_id := ''s'' \<rparr>"
    and ?p = "sample_obligation ''in'' CashReceipt 5 2 []"
  have "(?ob, s) \<in> set (zip (walk_order sample_plan ''s'') (walk_steps w))"
    using w(2) by (simp add: sample_order)
  moreover have "?p \<in> set (obligations sample_plan)" by (simp add: sample_plan_def)
  moreover have "obligation_id ?p \<in> set (depends_on ?ob)" "obligation_account_id ?p \<noteq> ''s''"
    by (simp_all add: sample_obligation_def)
  ultimately have "status s \<in> {Failed, Blocked}"
    using cross_account_dependency_blocks [OF sample_admitted w(1)] by blast
  with w show ?thesis by blast
qed

end
