(* ===== verification/Lifecycle_Policy.thy ===== *)
theory Lifecycle_Policy
  imports Lifecycle_Types Gregorian Accrual
begin

text \<open>
  The business-plan policy and the monthly reports,
  \<open>portfolio-model-core/src/lifecycle/policy.rs\<close>, with the liquidity step of
  \<open>lifecycle/acquisition.rs\<close> that the reports aggregate. The report is a record updated field
  by field in the order of the source's loop; \<open>usize\<close> counters are \<open>nat\<close> (they count the
  elements of a vector and cannot wrap).
\<close>

section \<open>The plan and its admission\<close>

definition MAX_POLICY_FACILITIES :: usize where "MAX_POLICY_FACILITIES = 16"
definition MAX_GENERATIONS :: nat where "MAX_GENERATIONS = 24"
definition MAX_RENEWAL_TENOR_DAYS :: i32 where "MAX_RENEWAL_TENOR_DAYS = 366"
definition MAX_WINDOWS :: usize where "MAX_WINDOWS = 64"

datatype PlanMode = Runoff | Schedule | Policy

record Window =
  from_ordinal :: i32
  to_ordinal :: i32

definition window_contains :: "Window \<Rightarrow> i32 \<Rightarrow> bool" where
  "window_contains w ordinal \<longleftrightarrow> from_ordinal w \<le> ordinal \<and> ordinal \<le> to_ordinal w"

record Renewal =
  max_generations :: nat
  tenor_days :: i32
  renewal_windows :: "Window list"

record PolicyFacility =
  policy_facility_id :: string
  access :: "Window list"
  renewal :: "Renewal option"

record FundingPolicy =
  policy_revision :: Revision
  minimum_usable_cash :: f64
  policy_facilities :: "PolicyFacility list"
  repay_surplus :: bool

record BusinessPlan =
  mode :: PlanMode
  funding_policy :: "FundingPolicy option"

record PolicyDecision =
  decision_id :: string
  decision_ordinal :: i32
  decision_kind :: string
  decision_facility_id :: string
  generation :: nat
  decision_amount :: f64
  trigger :: string
  usable_cash_before :: f64
  usable_cash_afterwards :: f64
  need :: f64

abbreviation refuse :: "string \<Rightarrow> string \<Rightarrow> Refusal" where
  "refuse c d \<equiv> refusal_new c [Txt d]"

definition window_bad :: "i32 \<Rightarrow> i32 \<Rightarrow> Window \<Rightarrow> bool" where
  "window_bad asof fin w \<longleftrightarrow>
     to_ordinal w < from_ordinal w \<or> to_ordinal w < asof \<or> fin < from_ordinal w"

definition admit_facility :: "string list \<Rightarrow> string set \<Rightarrow> i32 \<Rightarrow> i32 \<Rightarrow> string set \<Rightarrow> PolicyFacility
    \<Rightarrow> (Refusal, string set) result" where
  "admit_facility known scheduled asof fin seen f = (let ident = policy_facility_id f in
     require (ident \<in> set known)
       (refuse MALFORMED_INPUT (''the funding policy names unknown facility `'' @ ident @ ''`''))
    (require (ident \<notin> seen)
       (refuse MALFORMED_INPUT (''facility `'' @ ident @ ''` appears twice in the funding policy''))
    (require (ident \<notin> scheduled)
       (refuse UNSUPPORTED_POLICY (''facility `'' @ ident
          @ ''` is managed by the funding policy; scheduled draws and repayments of it are not combined''))
    (let windows = access f @ (case renewal f of Some r \<Rightarrow> renewal_windows r | None \<Rightarrow> []) in
     require (\<not> MAX_WINDOWS < length (access f)
                 + (case renewal f of None \<Rightarrow> 0 | Some r \<Rightarrow> length (renewal_windows r)))
       (refuse MALFORMED_INPUT ''too many access or renewal windows'')
    (require (\<not> list_ex (window_bad asof fin) windows)
       (refuse MALFORMED_INPUT (''facility `'' @ ident @ ''` has an empty or out-of-horizon window''))
    (require (case renewal f of None \<Rightarrow> True | Some r \<Rightarrow>
         \<not> (\<not> (1 \<le> max_generations r \<and> max_generations r \<le> MAX_GENERATIONS)
            \<or> \<not> (1 \<le> tenor_days r \<and> tenor_days r \<le> MAX_RENEWAL_TENOR_DAYS)))
       (refuse MALFORMED_INPUT (''renewal of `'' @ ident
          @ ''` needs 1 to 24 generations and a tenor of 1 to 366 days''))
    (Ok (insert ident seen))))))))"

definition validate_policy :: "BusinessPlan \<Rightarrow> string list \<Rightarrow> usize \<Rightarrow> string set \<Rightarrow> i32 \<Rightarrow> i32
    \<Rightarrow> (Refusal, unit) result" where
  "validate_policy plan known scheduled_instructions scheduled asof fin =
     (case (mode plan, funding_policy plan) of
        (Runoff, None) \<Rightarrow>
          if scheduled_instructions = 0 then Ok ()
          else Err (refuse MALFORMED_INPUT
            ''runoff executes no actions; remove the instructions or select schedule'')
      | (Schedule, None) \<Rightarrow> Ok ()
      | (Runoff, Some _) \<Rightarrow> Err (refuse MALFORMED_INPUT
            ''a funding policy is selected only with the policy mode'')
      | (Schedule, Some _) \<Rightarrow> Err (refuse MALFORMED_INPUT
            ''a funding policy is selected only with the policy mode'')
      | (Policy, None) \<Rightarrow> Err (refuse MALFORMED_INPUT
            ''the policy mode needs a reviewed funding policy'')
      | (Policy, Some p) \<Rightarrow>
          require (\<not> (\<not> is_finite (minimum_usable_cash p) \<or> minimum_usable_cash p < 0))
            (refuse MALFORMED_INPUT ''the minimum usable cash must be finite and non-negative'')
         (require (\<not> (policy_facilities p = [] \<or> MAX_POLICY_FACILITIES < length (policy_facilities p)))
            (refuse MALFORMED_INPUT ''a funding policy names 1 to 16 facilities'')
         (and_then (fold_res (admit_facility known scheduled asof fin) {} (policy_facilities p))
            (\<lambda>_. Ok ()))))"

section \<open>Decimal text\<close>

text \<open>\<open>{n:0w}\<close>.\<close>

definition zero_pad :: "nat \<Rightarrow> nat \<Rightarrow> string" where
  "zero_pad w n = replicate (w - length (digits n)) (CHR ''0'') @ digits n"

definition generation_instrument :: "string \<Rightarrow> nat \<Rightarrow> string" where
  "generation_instrument ident gen = (if gen \<le> 1 then ident else ident @ ''~g'' @ digits gen)"

section \<open>Monthly reports\<close>

datatype EventStatus = EventSettled | EventFailed | EventBlocked

record LiquidityStep =
  step_event_id :: string
  step_ordinal :: i32
  step_phase :: nat
  step_status :: EventStatus
  step_depends_on :: "string list"
  cash_movement :: f64
  step_cash_after :: f64
  restricted_cash_after :: f64
  usable_cash_after :: f64
  facility_drawn_after :: f64
  facility_undrawn_after :: f64
  pledged_quantity_after :: f64
  security_quantity_after :: f64
  posted_vm_after :: f64
  received_vm_after :: f64
  posted_im_after :: f64
  received_im_custody_after :: f64
  pending_receivable_after :: f64
  pending_payable_after :: f64
  derivative_assets_after :: f64
  derivative_liabilities_after :: f64

record MonthlyReport =
  month_label :: string
  first_ordinal :: i32
  last_ordinal :: i32
  events :: usize
  failed_events :: usize
  blocked_events :: usize
  policy_decisions :: usize
  month_opening_cash :: f64
  cash_in :: f64
  cash_out :: f64
  net_cash :: f64
  month_closing_cash :: f64
  month_minimum_usable_cash :: f64
  closing_usable_cash :: f64
  closing_facility_drawn :: f64
  interest_expense :: f64
  fees :: f64
  realized :: f64
  margin_posted :: f64
  margin_returned :: f64
  closing_posted_margin :: f64
  closing_pledged_quantity :: f64
  closing_security_quantity :: f64

record Opening =
  opening_cash :: f64
  opening_usable_cash :: f64
  opening_facility_drawn :: f64
  opening_posted_margin :: f64
  opening_pledged_quantity :: f64
  opening_security_quantity :: f64

definition month_key :: "i32 \<Rightarrow> (Refusal, i32 \<times> int) result" where
  "month_key ordinal =
     map_err (refuse MALFORMED_INPUT) (and_then (ymd_from_ordinal ordinal) (\<lambda>(y, m, _). Ok (y, m)))"

type_synonym month_span = "(i32 \<times> int) \<times> i32 \<times> i32"

text \<open>
  The vectors \<open>months\<close> and \<open>bounds\<close> grow together; they are one list of \<open>(month, bounds)\<close>,
  newest first while the loop runs.
\<close>

definition extend_months :: "month_span list \<Rightarrow> i32 \<Rightarrow> (Refusal, month_span list) result" where
  "extend_months months ordinal = and_then (month_key ordinal) (\<lambda>key.
     Ok (case months of
           (k, first, final) # rest \<Rightarrow>
             if k \<noteq> key then (key, ordinal, ordinal) # months else (k, first, ordinal) # rest
         | [] \<Rightarrow> [(key, ordinal, ordinal)]))"

definition month_spans :: "i32 \<Rightarrow> i32 \<Rightarrow> (Refusal, month_span list) result" where
  "month_spans asof fin =
     and_then (fold_res extend_months [] [asof..fin]) (\<lambda>ms. Ok (rev ms))"

text \<open>The state the month loop carries.\<close>

record Carried =
  cash_c :: f64
  usable_c :: f64
  drawn_c :: f64
  posted_c :: f64
  pledged_c :: f64
  securities_c :: f64

definition month_report :: "Carried \<Rightarrow> month_span \<Rightarrow> MonthlyReport" where
  "month_report c = (\<lambda>((y, m), first, final).
     \<lparr> month_label = zero_pad 4 (nat y) @ ''-'' @ zero_pad 2 (nat m),
       first_ordinal = first, last_ordinal = final,
       events = 0, failed_events = 0, blocked_events = 0, policy_decisions = 0,
       month_opening_cash = cash_c c, cash_in = 0, cash_out = 0, net_cash = 0,
       month_closing_cash = cash_c c, month_minimum_usable_cash = usable_c c,
       closing_usable_cash = usable_c c, closing_facility_drawn = drawn_c c,
       interest_expense = 0, fees = 0, realized = 0, margin_posted = 0, margin_returned = 0,
       closing_posted_margin = posted_c c, closing_pledged_quantity = pledged_c c,
       closing_security_quantity = securities_c c \<rparr>)"

definition report_line :: "MonthlyReport \<Rightarrow> Line \<Rightarrow> MonthlyReport" where
  "report_line r l = (let r = (case line_kind l of
       Cash \<Rightarrow> if 0 < debit l then r \<lparr> cash_in := cash_in r + debit l \<rparr>
               else r \<lparr> cash_out := cash_out r - debit l \<rparr>
     | InterestExpense \<Rightarrow> r \<lparr> interest_expense := interest_expense r + debit l \<rparr>
     | FeeExpense \<Rightarrow> r \<lparr> fees := fees r + debit l \<rparr>
     | RealizedGainLoss \<Rightarrow> r \<lparr> realized := realized r - debit l \<rparr>
     | PostedVm \<Rightarrow> if 0 < debit l then r \<lparr> margin_posted := margin_posted r + debit l \<rparr>
                   else r \<lparr> margin_returned := margin_returned r - debit l \<rparr>
     | PostedIm \<Rightarrow> if 0 < debit l then r \<lparr> margin_posted := margin_posted r + debit l \<rparr>
                   else r \<lparr> margin_returned := margin_returned r - debit l \<rparr>
     | _ \<Rightarrow> r) in
     if line_kind l = Cash then r \<lparr> net_cash := net_cash r + debit l \<rparr> else r)"

definition report_step :: "MonthlyReport \<times> Carried \<Rightarrow> LiquidityStep \<Rightarrow> MonthlyReport \<times> Carried" where
  "report_step = (\<lambda>(r, c) s. let
     r = r \<lparr> events := events r + 1 \<rparr>;
     r = (case step_status s of
            EventFailed \<Rightarrow> r \<lparr> failed_events := failed_events r + 1 \<rparr>
          | EventBlocked \<Rightarrow> r \<lparr> blocked_events := blocked_events r + 1 \<rparr>
          | EventSettled \<Rightarrow> r);
     r = (if take 7 (step_event_id s) = ''policy_''
          then r \<lparr> policy_decisions := policy_decisions r + 1 \<rparr> else r);
     r = r \<lparr> month_minimum_usable_cash := fmin (month_minimum_usable_cash r) (usable_cash_after s) \<rparr>
     in (r, c \<lparr> usable_c := usable_cash_after s, drawn_c := facility_drawn_after s,
                posted_c := posted_vm_after s + posted_im_after s,
                pledged_c := pledged_quantity_after s, securities_c := security_quantity_after s \<rparr>))"

definition in_month :: "month_span \<Rightarrow> i32 \<Rightarrow> bool" where
  "in_month = (\<lambda>(_, first, final) ordinal. first \<le> ordinal \<and> ordinal \<le> final)"

definition month_intents :: "Intent list \<Rightarrow> month_span \<Rightarrow> Line list" where
  "month_intents intents mon = concat (map intent_lines
     (filter (\<lambda>x. in_month mon (intent_ordinal x) \<and> \<not> intent_memo x) intents))"

definition report_month :: "Intent list \<Rightarrow> LiquidityStep list \<Rightarrow> Carried \<Rightarrow> month_span
    \<Rightarrow> MonthlyReport \<times> Carried" where
  "report_month intents liquidity c mon = (let
     r = foldl report_line (month_report c mon) (month_intents intents mon);
     (r, c) = foldl report_step (r, c) (filter (\<lambda>s. in_month mon (step_ordinal s)) liquidity);
     c = c \<lparr> cash_c := cash_c c + net_cash r \<rparr>
     in (r \<lparr> month_closing_cash := cash_c c, closing_usable_cash := usable_c c,
              closing_facility_drawn := drawn_c c, closing_posted_margin := posted_c c,
              closing_pledged_quantity := pledged_c c, closing_security_quantity := securities_c c \<rparr>, c))"

fun report_months :: "Intent list \<Rightarrow> LiquidityStep list \<Rightarrow> Carried \<Rightarrow> month_span list
    \<Rightarrow> MonthlyReport list" where
  "report_months intents liquidity c [] = []"
| "report_months intents liquidity c (mon # mons) =
     (let (r, c) = report_month intents liquidity c mon in
      r # report_months intents liquidity c mons)"

definition carried_opening :: "Opening \<Rightarrow> Carried" where
  "carried_opening p = \<lparr> cash_c = opening_cash p, usable_c = opening_usable_cash p,
     drawn_c = opening_facility_drawn p, posted_c = opening_posted_margin p,
     pledged_c = opening_pledged_quantity p, securities_c = opening_security_quantity p \<rparr>"

definition monthly :: "Intent list \<Rightarrow> LiquidityStep list \<Rightarrow> Opening \<Rightarrow> i32 \<Rightarrow> i32
    \<Rightarrow> (Refusal, MonthlyReport list) result" where
  "monthly intents liquidity opening asof fin =
     and_then (month_spans asof fin) (\<lambda>mons.
     Ok (report_months intents liquidity (carried_opening opening) mons))"

section \<open>The months of the horizon\<close>

definition month_no :: "i32 \<times> int \<Rightarrow> int" where
  "month_no = (\<lambda>(y, m). y * 12 + m)"

lemma month_key_Ok:
  "month_key n = Ok (y, m) \<longleftrightarrow> (\<exists>d. ymd_from_ordinal n = Ok (y, m, d))"
  by (auto simp: month_key_def)

lemma month_key_mono:
  assumes "month_key n = Ok k" "month_key n' = Ok k'" "n \<le> n'"
  shows "month_no k \<le> month_no k' \<and> (month_no k = month_no k' \<longrightarrow> k = k')"
proof -
  obtain y m where k: "k = (y, m)" by (cases k)
  obtain y' m' where k': "k' = (y', m')" by (cases k')
  from assms k k' obtain d d' where v: "valid_ymd y m d" "n = dby y + dbm y m + d"
    and v': "valid_ymd y' m' d'" "n' = dby y' + dbm y' m' + d'"
    by (auto simp: month_key_Ok decode_iff)
  have r: "1 \<le> m" "m \<le> 12" "1 \<le> d" "d \<le> days_in_month y m" using v(1) by (auto simp: valid_ymd_def)
  have r': "1 \<le> m'" "m' \<le> 12" "1 \<le> d'" "d' \<le> days_in_month y' m'" using v'(1) by (auto simp: valid_ymd_def)
  have "y \<le> y'"
  proof (rule ccontr)
    assume "\<not> y \<le> y'"
    then have "dby (y' + 1) \<le> dby y" by (intro dby_mono) simp
    moreover have "dbm y' m' + d' \<le> dbm y' 13" using day_in_year [OF v'(1)] by simp
    moreover have "1 \<le> dbm y m + d" using day_in_year [OF v(1)] by simp
    ultimately show False using v v' assms(3) dby_Suc [of y'] dbm_13 [of y'] by simp
  qed
  moreover have "m \<le> m'" if "y = y'"
  proof (rule ccontr)
    assume "\<not> m \<le> m'"
    then have "dbm y (m' + 1) \<le> dbm y m" using r' by (intro dbm_mono) auto
    then show False using v v' that r r' assms(3) dbm_Suc [of m' y'] by simp
  qed
  ultimately consider "y = y'" "m \<le> m'" | "y + 1 \<le> y'" by linarith
  then show ?thesis
  proof cases
    case 2
    then have "y * 12 + 12 \<le> y' * 12" by linarith
    with r r' show ?thesis by (simp add: k k' month_no_def)
  qed (simp add: k k' month_no_def)
qed

lemma covers_snoc_iff:
  "covers s e a b (xs @ [x]) \<longleftrightarrow> covers s e a (s x) xs \<and> s x < e x \<and> e x = b"
proof (induction xs arbitrary: a)
  case (Cons i xs)
  then show ?case using covers_le by fastforce
qed auto

abbreviation span_start :: "month_span \<Rightarrow> int" where
  "span_start m \<equiv> fst (snd m)"

abbreviation span_end :: "month_span \<Rightarrow> int" where
  "span_end m \<equiv> snd (snd m) + 1"

definition spans_inv :: "i32 \<Rightarrow> i32 \<Rightarrow> month_span list \<Rightarrow> bool" where
  "spans_inv asof k ms \<longleftrightarrow> covers span_start span_end asof k (rev ms)
     \<and> (\<forall>m \<in> set ms. \<forall>d. span_start m \<le> d \<and> d < span_end m \<longrightarrow> month_key d = Ok (fst m))
     \<and> sorted_wrt (\<lambda>a b. month_no (fst b) < month_no (fst a)) ms"

lemma spans_inv_step:
  assumes inv: "spans_inv asof k ms" and key: "month_key k = Ok key"
  shows "\<exists>ms'. extend_months ms k = Ok ms' \<and> spans_inv asof (k + 1) ms'"
proof (cases ms)
  case Nil
  with assms show ?thesis by (auto simp: extend_months_def spans_inv_def)
next
  case (Cons m rest)
  obtain k0 f l where m: "m = (k0, f, l)" by (cases m)
  have c: "covers span_start span_end asof f (rev rest)" "f < l + 1" "l + 1 = k"
    using inv by (simp_all add: spans_inv_def Cons m covers_snoc_iff)
  have days: "\<forall>d. f \<le> d \<and> d < l + 1 \<longrightarrow> month_key d = Ok k0" using inv by (simp add: spans_inv_def Cons m)
  then have l: "month_key l = Ok k0" using c by simp
  have idx: "month_no k0 \<le> month_no key" "month_no k0 = month_no key \<longrightarrow> k0 = key"
    using month_key_mono [OF l key] c by auto
  have srt: "sorted_wrt (\<lambda>a b. month_no (fst b) < month_no (fst a)) (m # rest)"
    using inv by (simp add: spans_inv_def Cons)
  show ?thesis
  proof (cases "k0 = key")
    case True
    have "month_key d = Ok key" if "f \<le> d" "d < k + 1" for d
      using that days True key c by (cases "d = k") auto
    then have "spans_inv asof (k + 1) ((k0, f, k) # rest)"
      using inv c srt True by (auto simp: spans_inv_def Cons m covers_snoc_iff)
    then show ?thesis using key True by (simp add: extend_months_def Cons m)
  next
    case False
    then have lt: "month_no k0 < month_no key" using idx by auto
    have "month_no (fst x) < month_no key" if "x \<in> set (m # rest)" for x
      using srt lt that by (force simp: m)
    moreover have "covers span_start span_end asof (k + 1) (rev ((key, k, k) # ms))"
      using inv by (simp add: spans_inv_def covers_snoc_iff)
    moreover have "\<forall>x \<in> set ((key, k, k) # ms). \<forall>d. span_start x \<le> d \<and> d < span_end x \<longrightarrow> month_key d = Ok (fst x)"
    proof -
      have "month_key d = Ok key" if "k \<le> d" "d \<le> k" for d
        using that key by (cases "d = k") auto
      with inv show ?thesis unfolding spans_inv_def by auto
    qed
    ultimately have "spans_inv asof (k + 1) ((key, k, k) # ms)"
      using srt unfolding spans_inv_def Cons by simp
    then show ?thesis using key False by (simp add: extend_months_def Cons m)
  qed
qed

lemma extend_months_fold:
  assumes "1 \<le> asof" "asof + int n \<le> MAX_ORDINAL + 1"
  shows "\<exists>ms. fold_res extend_months [] [asof..asof + int n - 1] = Ok ms \<and> spans_inv asof (asof + int n) ms"
  using assms
proof (induction n)
  case 0
  then show ?case by (simp add: spans_inv_def)
next
  case (Suc n)
  then obtain ms where ms: "fold_res extend_months [] [asof..asof + int n - 1] = Ok ms"
    "spans_inv asof (asof + int n) ms" by auto
  have "[asof..asof + int (Suc n) - 1] = [asof..asof + int n - 1] @ [asof + int n]"
    using upto_rec2 [of asof "asof + int n"] by simp
  moreover obtain y m d where "ymd_from_ordinal (asof + int n) = Ok (y, m, d)"
    using ymd_from_ordinal_Ok [of "asof + int n"] Suc.prems by auto
  then have "month_key (asof + int n) = Ok (y, m)" by (simp add: month_key_Ok)
  ultimately show ?case using spans_inv_step [OF ms(2)] ms(1) by (auto simp: algebra_simps)
qed

lemma month_spans_Ok:
  assumes "1 \<le> asof" "asof \<le> fin + 1" "fin \<le> MAX_ORDINAL"
  obtains ms where "month_spans asof fin = Ok ms" "spans_inv asof (fin + 1) (rev ms)"
proof -
  obtain ms where "fold_res extend_months [] [asof..fin] = Ok ms" "spans_inv asof (fin + 1) ms"
    using extend_months_fold [of asof "nat (fin + 1 - asof)"] assms by auto
  with that [of "rev ms"] show ?thesis by (simp add: month_spans_def)
qed

section \<open>One month's report\<close>

text \<open>What the two inner loops leave alone, and what they count.\<close>

definition cash_debits :: "Line list \<Rightarrow> f64 list" where
  "cash_debits ls = map debit (filter (\<lambda>l. line_kind l = Cash) ls)"

abbreviation frame :: "MonthlyReport \<Rightarrow> i32 \<times> i32 \<times> string \<times> f64 \<times> f64" where
  "frame r \<equiv> (first_ordinal r, last_ordinal r, month_label r, month_opening_cash r, month_closing_cash r)"

lemma report_line_frame:
  "frame (report_line r l) = frame r" "events (report_line r l) = events r"
  "month_minimum_usable_cash (report_line r l) = month_minimum_usable_cash r"
  "failed_events (report_line r l) = failed_events r" "blocked_events (report_line r l) = blocked_events r"
  "net_cash (report_line r l) = (if line_kind l = Cash then net_cash r + debit l else net_cash r)"
  by (cases "line_kind l"; simp add: report_line_def Let_def)+

lemma report_lines:
  "frame (foldl report_line r ls) = frame r \<and> events (foldl report_line r ls) = events r
   \<and> month_minimum_usable_cash (foldl report_line r ls) = month_minimum_usable_cash r
   \<and> net_cash (foldl report_line r ls) = foldl (+) (net_cash r) (cash_debits ls)"
  by (induction ls arbitrary: r) (simp_all add: report_line_frame cash_debits_def del: prod.inject)

lemma report_step_frame:
  assumes "report_step (r, c) s = (r', c')"
  shows "frame r' = frame r \<and> net_cash r' = net_cash r \<and> events r' = events r + 1
    \<and> month_minimum_usable_cash r' = fmin (month_minimum_usable_cash r) (usable_cash_after s)
    \<and> cash_c c' = cash_c c \<and> usable_c c' = usable_cash_after s"
  using assms by (cases "step_status s") (auto simp: report_step_def Let_def)

lemma report_steps:
  "foldl report_step (r, c) ss = (r', c') \<Longrightarrow>
   frame r' = frame r \<and> net_cash r' = net_cash r \<and> events r' = events r + length ss
   \<and> month_minimum_usable_cash r' = foldl fmin (month_minimum_usable_cash r) (map usable_cash_after ss)
   \<and> cash_c c' = cash_c c
   \<and> usable_c c' = (if ss = [] then usable_c c else usable_cash_after (last ss))"
proof (induction ss arbitrary: r c)
  case (Cons s ss)
  obtain r1 c1 where s: "report_step (r, c) s = (r1, c1)" by fastforce
  with Cons.prems have "foldl report_step (r1, c1) ss = (r', c')" by simp
  from Cons.IH [OF this] report_step_frame [OF s] show ?case by auto
qed simp

definition month_label_of :: "i32 \<times> int \<Rightarrow> string" where
  "month_label_of = (\<lambda>(y, m). zero_pad 4 (nat y) @ ''-'' @ zero_pad 2 (nat m))"

abbreviation month_steps :: "LiquidityStep list \<Rightarrow> i32 \<Rightarrow> i32 \<Rightarrow> LiquidityStep list" where
  "month_steps liquidity a b \<equiv> filter (\<lambda>s. a \<le> step_ordinal s \<and> step_ordinal s \<le> b) liquidity"

abbreviation month_lines :: "Intent list \<Rightarrow> i32 \<Rightarrow> i32 \<Rightarrow> Line list" where
  "month_lines intents a b \<equiv> concat (map intent_lines
     (filter (\<lambda>x. (a \<le> intent_ordinal x \<and> intent_ordinal x \<le> b) \<and> \<not> intent_memo x) intents))"

definition report_ok :: "Intent list \<Rightarrow> LiquidityStep list \<Rightarrow> f64 \<Rightarrow> f64 \<Rightarrow> MonthlyReport \<Rightarrow> bool" where
  "report_ok intents liquidity cash usable r \<longleftrightarrow> month_opening_cash r = cash
     \<and> net_cash r = foldl (+) 0 (cash_debits (month_lines intents (first_ordinal r) (last_ordinal r)))
     \<and> month_closing_cash r = cash + net_cash r
     \<and> (let ss = month_steps liquidity (first_ordinal r) (last_ordinal r) in
          events r = length ss
          \<and> month_minimum_usable_cash r = foldl fmin usable (map usable_cash_after ss)
          \<and> closing_usable_cash r = (if ss = [] then usable else usable_cash_after (last ss)))"

lemma report_month:
  assumes "report_month intents liquidity c ((y, m), f, l) = (r, c')"
  shows "report_ok intents liquidity (cash_c c) (usable_c c) r \<and> first_ordinal r = f \<and> last_ordinal r = l
    \<and> month_label r = month_label_of (y, m) \<and> cash_c c' = month_closing_cash r
    \<and> usable_c c' = closing_usable_cash r"
proof -
  let ?r0 = "month_report c ((y, m), f, l)"
  let ?r1 = "foldl report_line ?r0 (month_intents intents ((y, m), f, l))"
  obtain r2 c2 where s: "foldl report_step (?r1, c) (filter (\<lambda>s. in_month ((y, m), f, l) (step_ordinal s)) liquidity) = (r2, c2)"
    by fastforce
  note steps = report_steps [OF s] and lns = report_lines [of ?r0 "month_intents intents ((y, m), f, l)"]
  have r: "r = r2 \<lparr> month_closing_cash := cash_c c2 + net_cash r2, closing_usable_cash := usable_c c2,
      closing_facility_drawn := drawn_c c2, closing_posted_margin := posted_c c2,
      closing_pledged_quantity := pledged_c c2, closing_security_quantity := securities_c c2 \<rparr>"
    "c' = c2 \<lparr> cash_c := cash_c c2 + net_cash r2 \<rparr>"
    using assms s by (auto simp: report_month_def Let_def)
  show ?thesis using steps lns
    by (auto simp: r report_ok_def month_report_def month_intents_def in_month_def month_label_of_def Let_def)
qed

section \<open>The reports of the horizon\<close>

fun reports_ok :: "Intent list \<Rightarrow> LiquidityStep list \<Rightarrow> f64 \<Rightarrow> f64 \<Rightarrow> MonthlyReport list \<Rightarrow> bool" where
  "reports_ok intents liquidity cash usable [] = True"
| "reports_ok intents liquidity cash usable (r # rs) =
     (report_ok intents liquidity cash usable r
      \<and> reports_ok intents liquidity (month_closing_cash r) (closing_usable_cash r) rs)"

abbreviation label_matches :: "MonthlyReport \<Rightarrow> i32 \<times> int \<Rightarrow> bool" where
  "label_matches r k \<equiv> month_label r = month_label_of k"

lemma report_months_spec:
  "reports_ok intents liquidity (cash_c c) (usable_c c) (report_months intents liquidity c mons)
   \<and> list_all2 (\<lambda>r m. first_ordinal r = span_start m \<and> last_ordinal r + 1 = span_end m \<and> label_matches r (fst m))
       (report_months intents liquidity c mons) mons"
proof (induction mons arbitrary: c)
  case (Cons m mons)
  obtain y mm f l where m: "m = ((y, mm), f, l)" by (metis prod.collapse)
  obtain r c' where r: "report_month intents liquidity c m = (r, c')" by fastforce
  from report_month [OF r [unfolded m]] Cons.IH [of c'] r show ?case by (simp add: m)
qed simp

lemma covers_transfer:
  "list_all2 (\<lambda>x y. s x = s' y \<and> e x = e' y) xs ys \<Longrightarrow> covers s e a b xs \<longleftrightarrow> covers s' e' a b ys"
  by (induction xs ys arbitrary: a rule: list_all2_induct) auto

lemma extend_months_keys:
  "fold_res extend_months ms ds = Ok ms' \<Longrightarrow> \<forall>d \<in> set ds. \<exists>k. month_key d = Ok k"
  by (induction ds arbitrary: ms) (auto simp: extend_months_def)

lemma month_key_range: "(\<exists>k. month_key n = Ok k) \<longleftrightarrow> 1 \<le> n \<and> n \<le> MAX_ORDINAL"
proof -
  have "(\<exists>k. month_key n = Ok k) \<longleftrightarrow> (\<exists>x. ymd_from_ordinal n = Ok x)"
    by (auto simp: month_key_def)
  then show ?thesis by (simp only: greg.dec_Ok_iff)
qed

lemma monthly_Ok_range:
  assumes "monthly intents liquidity opening asof fin = Ok rs" "asof \<le> fin"
  shows "1 \<le> asof \<and> fin \<le> MAX_ORDINAL"
proof -
  from assms(1) obtain ms where "fold_res extend_months [] [asof..fin] = Ok ms"
    by (auto simp: monthly_def month_spans_def)
  from extend_months_keys [OF this] assms(2) have "\<exists>k. month_key asof = Ok k" "\<exists>k. month_key fin = Ok k" by auto
  then show ?thesis unfolding month_key_range by blast
qed

lemma monthly_spans:
  assumes "monthly intents liquidity opening asof fin = Ok rs" "asof \<le> fin"
  obtains ms where "spans_inv asof (fin + 1) (rev ms)"
    "rs = report_months intents liquidity (carried_opening opening) ms"
proof -
  have r: "1 \<le> asof" "fin \<le> MAX_ORDINAL" using monthly_Ok_range [OF assms] by auto
  obtain ms where "month_spans asof fin = Ok ms" "spans_inv asof (fin + 1) (rev ms)"
    using r assms(2) by (rule_tac month_spans_Ok [of asof fin]) auto
  with assms(1) that show ?thesis by (auto simp: monthly_def)
qed

lemma month_steps_split:
  "a \<le> c \<Longrightarrow> c \<le> b \<Longrightarrow> length (filter (\<lambda>x. a \<le> f x \<and> f x < b) xs)
     = length (filter (\<lambda>x. a \<le> f x \<and> f x < c) xs) + length (filter (\<lambda>x. c \<le> f x \<and> f x < b) xs)"
  for f :: "'a \<Rightarrow> int"
  by (induction xs) auto

lemma events_total:
  "reports_ok intents liquidity cash usable rs \<Longrightarrow> covers first_ordinal (\<lambda>r. last_ordinal r + 1) a b rs
   \<Longrightarrow> (\<Sum>r\<leftarrow>rs. events r) = length (filter (\<lambda>s. a \<le> step_ordinal s \<and> step_ordinal s < b) liquidity)"
proof (induction rs arbitrary: a cash usable)
  case Nil
  have "filter (\<lambda>s. a \<le> step_ordinal s \<and> step_ordinal s < a) liquidity = []" by (auto simp: filter_empty_conv)
  with Nil show ?case by simp
next
  case (Cons r rs)
  have c: "first_ordinal r = a" "a < last_ordinal r + 1" "last_ordinal r + 1 \<le> b"
    "covers first_ordinal (\<lambda>r. last_ordinal r + 1) (last_ordinal r + 1) b rs"
    using Cons.prems(2) by auto
  have "events r = length (filter (\<lambda>s. a \<le> step_ordinal s \<and> step_ordinal s < last_ordinal r + 1) liquidity)"
    using Cons.prems(1) c(1) by (simp add: report_ok_def Let_def)
  moreover have "(\<Sum>r\<leftarrow>rs. events r)
      = length (filter (\<lambda>s. last_ordinal r + 1 \<le> step_ordinal s \<and> step_ordinal s < b) liquidity)"
    using Cons.prems(1) by (intro Cons.IH [OF _ c(4)]) auto
  ultimately show ?case
    using month_steps_split [of a "last_ordinal r + 1" b step_ordinal liquidity] c by simp
qed

text \<open>
  Monthly reporting covers the horizon: there is one report for every calendar month of
  \<open>asof..=end\<close> in order, their day ranges cover each day of the horizon exactly once and lie in
  the month their label names, and every liquidity step of the horizon is counted in exactly one.
\<close>

theorem monthly_partitions:
  assumes "monthly intents liquidity opening asof fin = Ok rs" "asof \<le> fin"
  shows "covers first_ordinal (\<lambda>r. last_ordinal r + 1) asof (fin + 1) rs
    \<and> (\<exists>ks. sorted_wrt (\<lambda>a b. month_no a < month_no b) ks
         \<and> list_all2 (\<lambda>r k. label_matches r k
             \<and> (\<forall>d \<in> {first_ordinal r..last_ordinal r}. \<exists>day. ymd_from_ordinal d = Ok (fst k, snd k, day))) rs ks)
    \<and> (\<Sum>r\<leftarrow>rs. events r) = length (month_steps liquidity asof fin)"
proof -
  obtain ms where inv: "spans_inv asof (fin + 1) (rev ms)"
    and rs: "rs = report_months intents liquidity (carried_opening opening) ms"
    using monthly_spans [OF assms] .
  note spec = report_months_spec [of intents liquidity "carried_opening opening" ms, folded rs]
  have l2: "list_all2 (\<lambda>r m. first_ordinal r = span_start m \<and> last_ordinal r + 1 = span_end m \<and> label_matches r (fst m)) rs ms"
    using spec by blast
  have cov: "covers first_ordinal (\<lambda>r. last_ordinal r + 1) asof (fin + 1) rs"
  proof -
    have "list_all2 (\<lambda>r m. first_ordinal r = span_start m \<and> last_ordinal r + 1 = span_end m) rs ms"
      using l2 by (rule list_all2_mono) blast
    then have "covers first_ordinal (\<lambda>r. last_ordinal r + 1) asof (fin + 1) rs
        \<longleftrightarrow> covers span_start span_end asof (fin + 1) ms"
      by (rule covers_transfer)
    with inv show ?thesis by (simp add: spans_inv_def)
  qed
  have "sorted_wrt (\<lambda>a b. month_no a < month_no b) (map fst ms)"
    using inv by (simp add: spans_inv_def sorted_wrt_rev sorted_wrt_map)
  moreover have "list_all2 (\<lambda>r k. label_matches r k
      \<and> (\<forall>d \<in> {first_ordinal r..last_ordinal r}. \<exists>day. ymd_from_ordinal d = Ok (fst k, snd k, day))) rs (map fst ms)"
    unfolding list_all2_conv_all_nth
  proof (intro conjI allI impI)
    show "length rs = length (map fst ms)" using l2 by (simp add: list_all2_lengthD)
    fix i assume i: "i < length rs"
    then have m: "first_ordinal (rs ! i) = span_start (ms ! i)" "last_ordinal (rs ! i) + 1 = span_end (ms ! i)"
      "label_matches (rs ! i) (fst (ms ! i))" "ms ! i \<in> set ms"
      using l2 by (auto simp: list_all2_conv_all_nth)
    then have day: "month_key d = Ok (fst (ms ! i))"
      if "first_ordinal (rs ! i) \<le> d" "d \<le> last_ordinal (rs ! i)" for d
      using inv that by (auto simp: spans_inv_def)
    have "\<exists>day. ymd_from_ordinal d = Ok (fst (fst (ms ! i)), snd (fst (ms ! i)), day)"
      if "first_ordinal (rs ! i) \<le> d" "d \<le> last_ordinal (rs ! i)" for d
      using day [OF that] by (metis month_key_Ok prod.collapse)
    with m i l2 show "label_matches (rs ! i) (map fst ms ! i)"
      "\<forall>d \<in> {first_ordinal (rs ! i)..last_ordinal (rs ! i)}.
         \<exists>day. ymd_from_ordinal d = Ok (fst (map fst ms ! i), snd (map fst ms ! i), day)"
      by (auto dest: list_all2_lengthD)
  qed
  ultimately show ?thesis using cov events_total [OF _ cov] spec by auto
qed

lemma reports_minimum:
  "reports_ok intents liquidity cash usable rs \<Longrightarrow> usable \<noteq> NaN
   \<Longrightarrow> \<forall>s \<in> set liquidity. usable_cash_after s \<noteq> NaN
   \<Longrightarrow> \<forall>r \<in> set rs. month_minimum_usable_cash r \<le> closing_usable_cash r
      \<and> (\<forall>s \<in> set (month_steps liquidity (first_ordinal r) (last_ordinal r)).
           month_minimum_usable_cash r \<le> usable_cash_after s)"
proof (induction rs arbitrary: cash usable)
  case (Cons r rs)
  let ?ss = "month_steps liquidity (first_ordinal r) (last_ordinal r)"
  have r: "month_minimum_usable_cash r = foldl fmin usable (map usable_cash_after ?ss)"
    "closing_usable_cash r = (if ?ss = [] then usable else usable_cash_after (last ?ss))"
    using Cons.prems(1) by (simp_all add: report_ok_def Let_def)
  note le = foldl_fmin_le [OF Cons.prems(2), of "map usable_cash_after ?ss"]
  have min_le: "\<forall>s \<in> set ?ss. month_minimum_usable_cash r \<le> usable_cash_after s"
    using le Cons.prems(3) r(1) by auto
  have "last ?ss \<in> set ?ss" if "?ss \<noteq> []" using that by (rule last_in_set)
  then have cl: "month_minimum_usable_cash r \<le> closing_usable_cash r" "closing_usable_cash r \<noteq> NaN"
    using r le min_le Cons.prems(2,3) by (auto split: if_splits)
  have "reports_ok intents liquidity (month_closing_cash r) (closing_usable_cash r) rs"
    using Cons.prems(1) by simp
  note rest = Cons.IH [OF this cl(2) Cons.prems(3)]
  show ?case
  proof
    fix q assume "q \<in> set (r # rs)"
    then consider "q = r" | "q \<in> set rs" by auto
    then show "month_minimum_usable_cash q \<le> closing_usable_cash q
      \<and> (\<forall>s \<in> set (month_steps liquidity (first_ordinal q) (last_ordinal q)).
           month_minimum_usable_cash q \<le> usable_cash_after s)"
      by cases (use cl(1) min_le rest in auto)
  qed
qed simp

text \<open>
  The reports chain and hide nothing: each month opens with the cash and usable cash the month
  before closed with, closes with the opening cash plus its net cash movement, and reports a
  minimum usable cash no larger than the usable cash after any of its steps.
\<close>

theorem monthly_chains:
  assumes "monthly intents liquidity opening asof fin = Ok rs"
    and "opening_usable_cash opening \<noteq> NaN" "\<forall>s \<in> set liquidity. usable_cash_after s \<noteq> NaN"
  shows "reports_ok intents liquidity (opening_cash opening) (opening_usable_cash opening) rs
    \<and> (\<forall>r \<in> set rs. month_minimum_usable_cash r \<le> closing_usable_cash r
         \<and> (\<forall>s \<in> set (month_steps liquidity (first_ordinal r) (last_ordinal r)).
              month_minimum_usable_cash r \<le> usable_cash_after s))"
proof -
  from assms(1) obtain ms where "rs = report_months intents liquidity (carried_opening opening) ms"
    by (auto simp: monthly_def)
  then have "reports_ok intents liquidity (opening_cash opening) (opening_usable_cash opening) rs"
    using report_months_spec [of intents liquidity "carried_opening opening" ms]
    by (simp add: carried_opening_def)
  with reports_minimum [OF this assms(2,3)] show ?thesis by blast
qed

section \<open>Exact reconciliation in whole units\<close>

definition intent_cash :: "i32 \<Rightarrow> i32 \<Rightarrow> (f64 \<Rightarrow> real) \<Rightarrow> Intent list \<Rightarrow> real" where
  "intent_cash a b f intents = (\<Sum>d\<leftarrow>cash_debits (month_lines intents a b). f d)"

lemma intent_cash_Cons: "intent_cash a b f (x # intents) =
    (if a \<le> intent_ordinal x \<and> intent_ordinal x \<le> b \<and> \<not> intent_memo x
     then (\<Sum>d\<leftarrow>cash_debits (intent_lines x). f d) else 0) + intent_cash a b f intents"
  by (simp add: intent_cash_def cash_debits_def)

lemma intent_cash_split:
  "a \<le> c + 1 \<Longrightarrow> c \<le> b \<Longrightarrow> intent_cash a b f intents = intent_cash a c f intents + intent_cash (c + 1) b f intents"
proof (induction intents)
  case (Cons x intents)
  then show ?case by (auto simp: intent_cash_Cons)
qed (simp add: intent_cash_def cash_debits_def)

lemma intent_cash_nonneg: "(\<And>d. 0 \<le> f d) \<Longrightarrow> 0 \<le> intent_cash a b f intents"
  by (auto simp: intent_cash_def intro!: sum_list_nonneg)

definition whole_cash :: "Intent list \<Rightarrow> bool" where
  "whole_cash intents \<longleftrightarrow> (\<forall>x \<in> set intents. \<forall>d \<in> set (cash_debits (intent_lines x)). is_finite d \<and> val d \<in> \<int>)"

lemma whole_cash_lines:
  "whole_cash intents \<Longrightarrow> d \<in> set (cash_debits (month_lines intents a b)) \<Longrightarrow> is_finite d \<and> val d \<in> \<int>"
  by (fastforce simp: whole_cash_def cash_debits_def)

lemma cash_exact:
  "reports_ok intents liquidity cash usable rs \<Longrightarrow> covers first_ordinal (\<lambda>r. last_ordinal r + 1) a (b + 1) rs
   \<Longrightarrow> whole_cash intents \<Longrightarrow> is_finite cash \<Longrightarrow> val cash = of_int C
   \<Longrightarrow> \<bar>val cash\<bar> + intent_cash a b (\<lambda>d. \<bar>val d\<bar>) intents \<le> 2 ^ 53
   \<Longrightarrow> rs \<noteq> [] \<Longrightarrow> is_finite (month_closing_cash (last rs))
     \<and> val (month_closing_cash (last rs)) = val cash + intent_cash a b val intents"
proof (induction rs arbitrary: a cash usable C)
  case (Cons r rs)
  have c: "first_ordinal r = a" "a \<le> last_ordinal r" "last_ordinal r \<le> b"
    "covers first_ordinal (\<lambda>r. last_ordinal r + 1) (last_ordinal r + 1) (b + 1) rs"
    using Cons.prems(2) by auto
  let ?l = "last_ordinal r"
  let ?ds = "cash_debits (month_lines intents a ?l)"
  have net: "net_cash r = foldl (+) 0 ?ds" and cl: "month_closing_cash r = cash + net_cash r"
    using Cons.prems(1) c(1) by (simp_all add: report_ok_def)
  have split_f: "intent_cash a b f intents = intent_cash a ?l f intents + intent_cash (?l + 1) b f intents" for f
    using c by (intro intent_cash_split) auto
  have nn: "0 \<le> intent_cash x y (\<lambda>d. \<bar>val d\<bar>) intents" for x y by (rule intent_cash_nonneg) simp
  have whole: "\<forall>d \<in> set ?ds. is_finite d \<and> val d \<in> \<int>" using whole_cash_lines [OF Cons.prems(3)] by blast
  have "\<bar>real_of_int 0\<bar> + (\<Sum>d\<leftarrow>?ds. \<bar>val d\<bar>) \<le> 2 ^ 53"
    using Cons.prems(6) split_f nn [of "?l + 1" b] by (simp add: intent_cash_def)
  from exact_sum [OF _ _ whole this] have n: "is_finite (net_cash r)" "val (net_cash r) = intent_cash a ?l val intents"
    by (simp_all add: net intent_cash_def)
  have "(\<Sum>d\<leftarrow>ds. val d) \<in> \<int>" if "\<forall>d \<in> set ds. is_finite d \<and> val d \<in> \<int>" for ds
    using that by (induction ds) auto
  from this [OF whole] obtain N where N: "val (net_cash r) = of_int N"
    unfolding n(2) intent_cash_def by (rule Ints_cases)
  have abs_le: "\<bar>\<Sum>d\<leftarrow>ds. val d\<bar> \<le> (\<Sum>d\<leftarrow>ds. \<bar>val d\<bar>)" for ds by (induction ds) auto
  have N_le: "\<bar>real_of_int N\<bar> \<le> intent_cash a ?l (\<lambda>d. \<bar>val d\<bar>) intents"
    using abs_le [of ?ds] n(2) N by (simp add: intent_cash_def)
  then have "\<bar>real_of_int (C + N)\<bar> \<le> 2 ^ 53" 
    using Cons.prems(5,6) split_f nn [of "?l + 1" b] by simp
  then have "\<bar>C + N\<bar> \<le> 2 ^ 53" by (metis of_int_abs of_int_le_iff of_int_numeral of_int_power)
  from exact_add [OF Cons.prems(4) n(1) Cons.prems(5) N this]
  have close: "is_finite (month_closing_cash r)" "val (month_closing_cash r) = of_int (C + N)"
    by (simp_all add: cl)
  show ?case
  proof (cases "rs = []")
    case True
    then have "?l = b" using c(4) by simp
    with True close n(2) N Cons.prems(5) show ?thesis by simp
  next
    case False
    have "\<bar>val (month_closing_cash r)\<bar> + intent_cash (?l + 1) b (\<lambda>d. \<bar>val d\<bar>) intents \<le> 2 ^ 53"
      using Cons.prems(5,6) split_f [of "\<lambda>d. \<bar>val d\<bar>"] N_le close(2) by simp
    moreover have "reports_ok intents liquidity (month_closing_cash r) (closing_usable_cash r) rs"
      using Cons.prems(1) by simp
    ultimately show ?thesis
      using Cons.IH [OF _ c(4) Cons.prems(3) close _ False] False close(2) split_f [of val] n(2) N Cons.prems(5)
      by simp
  qed
qed simp

text \<open>
  C20. The reports reconcile exactly to the dated cash movements: when the cash lines are whole
  units within the exact range of a double, the closing cash of the last month is the opening cash
  plus every cash line of every non-memo intent of the horizon, each once, with no rounding.
\<close>

theorem monthly_cash_exact:
  assumes "monthly intents liquidity opening asof fin = Ok rs" "asof \<le> fin" "whole_cash intents"
    and "is_finite (opening_cash opening)" "val (opening_cash opening) \<in> \<int>"
    and "\<bar>val (opening_cash opening)\<bar> + intent_cash asof fin (\<lambda>d. \<bar>val d\<bar>) intents \<le> 2 ^ 53"
  shows "rs \<noteq> [] \<and> is_finite (month_closing_cash (last rs))
    \<and> val (month_closing_cash (last rs)) = val (opening_cash opening) + intent_cash asof fin val intents"
proof -
  obtain ms where inv: "spans_inv asof (fin + 1) (rev ms)"
    and rs: "rs = report_months intents liquidity (carried_opening opening) ms"
    using monthly_spans [OF assms(1,2)] .
  note spec = report_months_spec [of intents liquidity "carried_opening opening" ms, folded rs]
  have "list_all2 (\<lambda>r m. first_ordinal r = span_start m \<and> last_ordinal r + 1 = span_end m) rs ms"
    using spec by (blast intro: list_all2_mono)
  then have "covers first_ordinal (\<lambda>r. last_ordinal r + 1) asof (fin + 1) rs
      \<longleftrightarrow> covers span_start span_end asof (fin + 1) ms"
    by (rule covers_transfer)
  with inv have cov: "covers first_ordinal (\<lambda>r. last_ordinal r + 1) asof (fin + 1) rs"
    by (simp add: spans_inv_def)
  then have ne: "rs \<noteq> []" using assms(2) by auto
  have "reports_ok intents liquidity (opening_cash opening) (opening_usable_cash opening) rs"
    using spec by (simp add: carried_opening_def)
  moreover obtain C where "val (opening_cash opening) = of_int C" using assms(5) by (auto elim: Ints_cases)
  ultimately show ?thesis using cash_exact [OF _ cov assms(3,4) _ assms(6) ne] ne by blast
qed

section \<open>Admission of the policy\<close>

definition facility_admissible :: "string list \<Rightarrow> string set \<Rightarrow> i32 \<Rightarrow> i32 \<Rightarrow> PolicyFacility \<Rightarrow> bool" where
  "facility_admissible known scheduled asof fin f \<longleftrightarrow>
     policy_facility_id f \<in> set known \<and> policy_facility_id f \<notin> scheduled
     \<and> (let windows = access f @ (case renewal f of Some r \<Rightarrow> renewal_windows r | None \<Rightarrow> []) in
          length windows \<le> MAX_WINDOWS
          \<and> (\<forall>w \<in> set windows. from_ordinal w \<le> to_ordinal w \<and> asof \<le> to_ordinal w \<and> from_ordinal w \<le> fin))
     \<and> (\<forall>r \<in> set_option (renewal f). 1 \<le> max_generations r \<and> max_generations r \<le> MAX_GENERATIONS
          \<and> 1 \<le> tenor_days r \<and> tenor_days r \<le> MAX_RENEWAL_TENOR_DAYS)"

lemma admit_facility_Ok:
  "admit_facility known scheduled asof fin seen f = Ok seen' \<longleftrightarrow>
     facility_admissible known scheduled asof fin f \<and> policy_facility_id f \<notin> seen
     \<and> seen' = insert (policy_facility_id f) seen"
  by (cases "renewal f")
    (auto simp: admit_facility_def facility_admissible_def Let_def list_ex_iff window_bad_def not_less)

lemma admit_facilities:
  "fold_res (admit_facility known scheduled asof fin) seen fs = Ok seen' \<longleftrightarrow>
     (\<forall>f \<in> set fs. facility_admissible known scheduled asof fin f)
     \<and> distinct (map policy_facility_id fs) \<and> policy_facility_id ` set fs \<inter> seen = {}
     \<and> seen' = policy_facility_id ` set fs \<union> seen"
  by (induction fs arbitrary: seen) (auto simp: admit_facility_Ok)

lemma policy_no_Panic: "validate_policy plan known n scheduled asof fin \<noteq> Panic"
proof -
  have "fold_res (admit_facility known scheduled asof fin) seen fs \<noteq> Panic" for seen fs
    by (rule fold_res_no_Panic [where I = "\<lambda>_. True"]) (auto simp: admit_facility_def Let_def)
  then show ?thesis
    by (cases "mode plan"; cases "funding_policy plan") (auto simp: validate_policy_def)
qed

lemma policy_facilities_admissible:
  "validate_policy plan known n scheduled asof fin = Ok () \<Longrightarrow> funding_policy plan = Some p
   \<Longrightarrow> f \<in> set (policy_facilities p) \<Longrightarrow> facility_admissible known scheduled asof fin f"
  by (cases "mode plan") (auto simp: validate_policy_def admit_facilities)

text \<open>
  The plan modes are exclusive and the policy is admitted exactly when it can be followed:
  runoff has no instructions, schedule has no policy, and the policy mode needs a funding policy
  with a finite nonnegative cash floor over 1 to 16 distinct known facilities that no instruction
  also manages, whose at most 64 windows are nonempty and meet the horizon, and whose renewals are
  bounded; nothing else is accepted and nothing panics.
\<close>

theorem policy_admission_exact:
  "(validate_policy plan known n scheduled asof fin = Ok () \<longleftrightarrow>
     (case mode plan of
        Runoff \<Rightarrow> funding_policy plan = None \<and> n = 0
      | Schedule \<Rightarrow> funding_policy plan = None
      | Policy \<Rightarrow> (\<exists>p. funding_policy plan = Some p
          \<and> is_finite (minimum_usable_cash p) \<and> 0 \<le> val (minimum_usable_cash p)
          \<and> 1 \<le> length (policy_facilities p) \<and> length (policy_facilities p) \<le> MAX_POLICY_FACILITIES
          \<and> distinct (map policy_facility_id (policy_facilities p))
          \<and> list_all (facility_admissible known scheduled asof fin) (policy_facilities p))))
   \<and> validate_policy plan known n scheduled asof fin \<noteq> Panic"
proof
  have "1 \<le> length (policy_facilities p) \<longleftrightarrow> policy_facilities p \<noteq> []" for p
    by (cases "policy_facilities p") auto
  then show "validate_policy plan known n scheduled asof fin = Ok () \<longleftrightarrow>
     (case mode plan of
        Runoff \<Rightarrow> funding_policy plan = None \<and> n = 0
      | Schedule \<Rightarrow> funding_policy plan = None
      | Policy \<Rightarrow> (\<exists>p. funding_policy plan = Some p
          \<and> is_finite (minimum_usable_cash p) \<and> 0 \<le> val (minimum_usable_cash p)
          \<and> 1 \<le> length (policy_facilities p) \<and> length (policy_facilities p) \<le> MAX_POLICY_FACILITIES
          \<and> distinct (map policy_facility_id (policy_facilities p))
          \<and> list_all (facility_admissible known scheduled asof fin) (policy_facilities p)))"
    by (cases "mode plan"; cases "funding_policy plan")
      (auto simp: validate_policy_def admit_facilities not_less list.pred_set)
  show "validate_policy plan known n scheduled asof fin \<noteq> Panic" by (rule policy_no_Panic)
qed

section \<open>Witnesses\<close>

definition sample_intents :: "Intent list" where
  "sample_intents = [\<lparr> intent_event_id = ''e'', intent_ordinal = 32, intent_phase = 0, intent_sequence = 0,
     intent_memo = False, intent_lines = [\<lparr> line_kind = Cash, instrument = ''i'', debit = f64_of_int 5 \<rparr>,
       \<lparr> line_kind = FeeExpense, instrument = ''i'', debit = f64_of_int (- 5) \<rparr>] \<rparr>]"

definition sample_step :: LiquidityStep where
  "sample_step = \<lparr> step_event_id = ''policy_draw'', step_ordinal = 32, step_phase = 0,
     step_status = EventSettled, step_depends_on = [], cash_movement = f64_of_int 5, step_cash_after = f64_of_int 15,
     restricted_cash_after = 0, usable_cash_after = f64_of_int 15, facility_drawn_after = 0,
     facility_undrawn_after = 0, pledged_quantity_after = 0, security_quantity_after = 0, posted_vm_after = 0,
     received_vm_after = 0, posted_im_after = 0, received_im_custody_after = 0, pending_receivable_after = 0,
     pending_payable_after = 0, derivative_assets_after = 0, derivative_liabilities_after = 0 \<rparr>"

definition sample_opening :: Opening where
  "sample_opening = \<lparr> opening_cash = f64_of_int 10, opening_usable_cash = f64_of_int 10,
     opening_facility_drawn = 0, opening_posted_margin = 0, opening_pledged_quantity = 0,
     opening_security_quantity = 0 \<rparr>"

lemma sample_monthly: "\<exists>rs. monthly sample_intents [sample_step] sample_opening 31 33 = Ok rs"
proof -
  obtain ms where "month_spans 31 33 = Ok ms"
    by (rule month_spans_Ok [of 31 33]) (auto simp: MAX_ORDINAL_def)
  then show ?thesis by (simp add: monthly_def)
qed

lemma small_int: "k \<in> {5, 10, 15} \<Longrightarrow> is_finite (f64_of_int k) \<and> val (f64_of_int k) = of_int k"
  using int_val [of k] by auto

lemma monthly_partitions_witness:
  "\<exists>rs. monthly sample_intents [sample_step] sample_opening 31 33 = Ok rs \<and> (\<Sum>r\<leftarrow>rs. events r) = 1"
  using sample_monthly monthly_partitions [of sample_intents "[sample_step]" sample_opening 31 33]
  by (auto simp: sample_step_def)

lemma monthly_chains_witness:
  "\<exists>rs. monthly sample_intents [sample_step] sample_opening 31 33 = Ok rs
     \<and> reports_ok sample_intents [sample_step] (f64_of_int 10) (f64_of_int 10) rs"
proof -
  have "opening_usable_cash sample_opening \<noteq> NaN" "\<forall>s \<in> set [sample_step]. usable_cash_after s \<noteq> NaN"
    using small_int [of 10] small_int [of 15] by (auto simp: sample_opening_def sample_step_def)
  from monthly_chains [OF _ this] sample_monthly show ?thesis
    by (auto simp: sample_opening_def)
qed

lemma monthly_cash_exact_witness:
  "\<exists>rs. monthly sample_intents [sample_step] sample_opening 31 33 = Ok rs
     \<and> val (month_closing_cash (last rs)) = 15"
proof -
  have i: "intent_cash 31 33 f sample_intents = f (f64_of_int 5)" for f
    by (simp add: intent_cash_def cash_debits_def sample_intents_def)
  obtain rs where "monthly sample_intents [sample_step] sample_opening 31 33 = Ok rs"
    using sample_monthly by blast
  moreover have "whole_cash sample_intents"
    using small_int [of 5] by (auto simp: whole_cash_def cash_debits_def sample_intents_def)
  with monthly_cash_exact [OF calculation] have "val (month_closing_cash (last rs)) = 15"
    using small_int [of 5] small_int [of 10] by (simp add: i sample_opening_def)
  ultimately show ?thesis by blast
qed

end
