(* ===== verification/Compute_Control.thy ===== *)
theory Compute_Control
  imports Prelude
begin

text \<open>
  Cooperative cancellation, \<open>portfolio-compute-control/src/lib.rs\<close>. An \<open>Arc<AtomicBool>\<close> is the
  address of a flag in a store, so that clones share it; \<open>Instant\<close> is a number of nanoseconds.
  What the platform decides is a parameter: \<open>clock n\<close> is the instant the \<open>n\<close>-th call of
  \<open>Instant::now\<close> returns and \<open>latest\<close> the largest instant \<open>checked_add\<close> can represent. \<open>work\<close> is
  any function of the world: it may read the clock, set flags (as another thread may), allocate
  controls and call \<open>scope\<close> itself; a panic of it unwinds through the guard.
\<close>

section \<open>Definitions\<close>

record Control =
  cancelled :: nat
  deadline :: nat

record World =
  flags :: "nat \<Rightarrow> bool"
  next_flag :: nat
  readings :: nat
  active_slot :: "Control option"

type_synonym ('a) call = "World \<Rightarrow> (string, 'a) result \<times> World"

definition range_error :: string where
  "range_error = ''timeout_ms must be in [1, 3600000]''"

definition timeout_ok :: "nat \<Rightarrow> bool" where
  "timeout_ok ms \<longleftrightarrow> 1 \<le> ms \<and> ms \<le> 3600000"

definition millis :: "nat \<Rightarrow> nat" where
  "millis ms = ms * 1000000"

text \<open>\<open>Arc::new(AtomicBool::new(false))\<close>.\<close>

definition new_flag :: "World \<Rightarrow> nat \<times> World" where
  "new_flag w = (next_flag w, w \<lparr> flags := (flags w)(next_flag w := False), next_flag := Suc (next_flag w) \<rparr>)"

definition now :: "(nat \<Rightarrow> nat) \<Rightarrow> World \<Rightarrow> nat \<times> World" where
  "now clock w = (clock (readings w), w \<lparr> readings := Suc (readings w) \<rparr>)"

definition from_started :: "nat \<Rightarrow> nat \<Rightarrow> nat \<Rightarrow> Control call" where
  "from_started latest ms started w =
     (if \<not> timeout_ok ms then (Err range_error, w)
      else if latest < started + millis ms then (Err ''request deadline overflow'', w)
      else let (f, w) = new_flag w in
        (Ok \<lparr> cancelled = f, deadline = started + millis ms \<rparr>, w))"

text \<open>\<open>let x = m()?; k(x)\<close>.\<close>

definition call_then :: "'a call \<Rightarrow> ('a \<Rightarrow> 'b call) \<Rightarrow> 'b call" where
  "call_then m k w = (case m w of
     (Ok x, w) \<Rightarrow> k x w | (Err e, w) \<Rightarrow> (Err e, w) | (Panic, w) \<Rightarrow> (Panic, w))"

definition child_started :: "nat \<Rightarrow> Control \<Rightarrow> nat \<Rightarrow> nat \<Rightarrow> Control call" where
  "child_started latest c ms started = call_then (from_started latest ms started) (\<lambda>requested w.
     (Ok \<lparr> cancelled = cancelled c, deadline = min (deadline c) (deadline requested) \<rparr>, w))"

text \<open>\<open>Instant + Duration\<close> panics where \<open>checked_add\<close> would return nothing.\<close>

definition with_cancel_flag :: "(nat \<Rightarrow> nat) \<Rightarrow> nat \<Rightarrow> nat \<Rightarrow> nat \<Rightarrow> Control call" where
  "with_cancel_flag clock latest ms f w =
     (if \<not> timeout_ok ms then (Err range_error, w)
      else let (t, w) = now clock w in
        if latest < t + millis ms then (Panic, w)
        else (Ok \<lparr> cancelled = f, deadline = t + millis ms \<rparr>, w))"

definition control_new :: "(nat \<Rightarrow> nat) \<Rightarrow> nat \<Rightarrow> nat \<Rightarrow> Control call" where
  "control_new clock latest ms w =
     (if \<not> timeout_ok ms then (Err range_error, w)
      else let (f, w) = new_flag w; (t, w) = now clock w in
        if latest < t + millis ms then (Panic, w)
        else (Ok \<lparr> cancelled = f, deadline = t + millis ms \<rparr>, w))"

definition cancel :: "Control \<Rightarrow> World \<Rightarrow> World" where
  "cancel c w = w \<lparr> flags := (flags w)(cancelled c := True) \<rparr>"

definition check :: "(nat \<Rightarrow> nat) \<Rightarrow> Control \<Rightarrow> unit call" where
  "check clock c w =
     (if flags w (cancelled c) then (Err ''COMPUTE_CANCELLED'', w)
      else let (t, w) = now clock w in
        if deadline c \<le> t then (Err ''COMPUTE_DEADLINE_EXCEEDED'', w) else (Ok (), w))"

definition active :: "World \<Rightarrow> Control option" where
  "active w = active_slot w"

definition checkpoint :: "(nat \<Rightarrow> nat) \<Rightarrow> unit call" where
  "checkpoint clock w = (case active_slot w of None \<Rightarrow> (Ok (), w) | Some c \<Rightarrow> check clock c w)"

text \<open>
  \<open>Restore\<close> holds what the slot held before; its \<open>drop\<close> runs on every way out of \<open>scope\<close>.
\<close>

definition restore :: "Control option \<Rightarrow> World \<Rightarrow> World" where
  "restore old w = w \<lparr> active_slot := old \<rparr>"

definition scope :: "(nat \<Rightarrow> nat) \<Rightarrow> Control option \<Rightarrow> 'a call \<Rightarrow> 'a call" where
  "scope clock control work w = (let
     old = active_slot w;
     (r, w) = call_then (checkpoint clock) (\<lambda>_.
                call_then work (\<lambda>result.
                call_then (checkpoint clock) (\<lambda>_ w. (Ok result, w))))
                (w \<lparr> active_slot := control \<rparr>)
     in (r, restore old w))"

lemma call_then_Ok [simp]:
  "call_then m k w = (Ok y, w') \<longleftrightarrow> (\<exists>x w1. m w = (Ok x, w1) \<and> k x w1 = (Ok y, w'))"
  by (auto simp: call_then_def split: prod.splits result.splits)

section \<open>Cancellation and deadlines are final\<close>

text \<open>A stretch of execution in which no flag is lowered (the crate has no call that lowers one).\<close>

definition later :: "World \<Rightarrow> World \<Rightarrow> bool" where
  "later w w' \<longleftrightarrow> (\<forall>f. flags w f \<longrightarrow> flags w' f) \<and> readings w \<le> readings w'"

definition monotone :: "(nat \<Rightarrow> nat) \<Rightarrow> bool" where
  "monotone clock \<longleftrightarrow> (\<forall>m n. m \<le> n \<longrightarrow> clock m \<le> clock n)"

lemma now_simps [simp]:
  "now clock w = (clock (readings w), w \<lparr> readings := Suc (readings w) \<rparr>)"
  by (simp add: now_def)

lemma check_Ok_iff: "fst (check clock c w) = Ok () \<longleftrightarrow> \<not> flags w (cancelled c) \<and> clock (readings w) < deadline c"
  by (auto simp: check_def Let_def)

lemma check_no_Panic: "fst (check clock c w) \<noteq> Panic"
  by (auto simp: check_def Let_def)

lemma check_frame: "snd (check clock c w) = w \<or> snd (check clock c w) = w \<lparr> readings := Suc (readings w) \<rparr>"
  by (auto simp: check_def Let_def)

text \<open>
  A stop is final: once a control's check has refused, because it was cancelled or because
  its deadline passed, every later check of that control, and of any child made from it, refuses.
\<close>

theorem check_stops_for_ever:
  assumes "monotone clock" "fst (check clock c w) = Err e" "later (snd (check clock c w)) w'"
    and "cancelled d = cancelled c" "deadline d \<le> deadline c"
  shows "\<exists>e'. fst (check clock d w') = Err e'"
proof -
  have "flags w (cancelled c) \<or> deadline c \<le> clock (readings w)"
    using assms(2) check_Ok_iff [of clock c w] by (auto simp: not_less)
  then have "flags w' (cancelled d) \<or> deadline d \<le> clock (readings w')"
  proof
    assume "flags w (cancelled c)"
    moreover have "flags (snd (check clock c w)) (cancelled c) = flags w (cancelled c)"
      using check_frame [of clock c w] by auto
    ultimately show ?thesis using assms(3,4) by (simp add: later_def)
  next
    assume d: "deadline c \<le> clock (readings w)"
    have "readings w \<le> readings w'"
      using assms(3) check_frame [of clock c w] by (auto simp: later_def)
    then have "clock (readings w) \<le> clock (readings w')" using assms(1) by (simp add: monotone_def)
    with d assms(5) show ?thesis by simp
  qed
  then have "fst (check clock d w') \<noteq> Ok ()" by (auto simp: check_Ok_iff)
  with check_no_Panic [of clock d w'] show ?thesis by (cases "fst (check clock d w')") auto
qed

text \<open>
  A child control can only tighten: it shares its parent's cancellation flag, its deadline is
  at most the parent's and at most the requested one, and making it changes no existing flag.
\<close>

lemma child_tightens:
  "case child_started latest c ms started w of
     (Ok d, w') \<Rightarrow> cancelled d = cancelled c \<and> deadline d \<le> deadline c
        \<and> deadline d \<le> started + millis ms \<and> timeout_ok ms \<and> w' = snd (new_flag w)
   | (Err e, w') \<Rightarrow> w' = w \<and> (\<not> timeout_ok ms \<or> latest < started + millis ms)
   | (Panic, w') \<Rightarrow> False"
proof (cases "timeout_ok ms \<and> \<not> latest < started + millis ms")
  case True
  then have "from_started latest ms started w
      = (Ok \<lparr> cancelled = next_flag w, deadline = started + millis ms \<rparr>, snd (new_flag w))"
    by (simp add: from_started_def new_flag_def)
  with True show ?thesis by (simp add: child_started_def call_then_def)
next
  case False
  then obtain e where "from_started latest ms started w = (Err e, w)"
    by (cases "timeout_ok ms") (auto simp: from_started_def)
  with False show ?thesis by (simp add: child_started_def call_then_def)
qed

section \<open>Scopes\<close>

lemma checkpoint_frame:
  "checkpoint clock w = (r, w') \<Longrightarrow> r \<noteq> Panic \<and> active_slot w' = active_slot w \<and> flags w' = flags w"
proof (cases "active_slot w")
  case (Some c)
  assume "checkpoint clock w = (r, w')"
  then have c: "fst (check clock c w) = r" "snd (check clock c w) = w'"
    by (simp_all add: checkpoint_def Some)
  from check_frame [of clock c w] have "active_slot w' = active_slot w \<and> flags w' = flags w"
    unfolding c(2) by (elim disjE) simp_all
  with check_no_Panic [of clock c w] c(1) show ?thesis by simp
qed (auto simp: checkpoint_def)

text \<open>
  C22. A scope never leaks: whatever the work does, and however it ends, error and panic included,
  the thread's active control is after the scope what it was before; and a scope returns a value
  only if the work returned it with the new control in force and neither checkpoint refused.
\<close>

theorem scope_restores:
  "case scope clock control work w of (r, w') \<Rightarrow>
     active w' = active w
     \<and> (case r of
          Ok x \<Rightarrow> (\<exists>w1 w2 w3. checkpoint clock (w \<lparr> active_slot := control \<rparr>) = (Ok (), w1)
              \<and> active w1 = control \<and> work w1 = (Ok x, w2) \<and> checkpoint clock w2 = (Ok (), w3)
              \<and> w' = restore (active w) w3)
        | _ \<Rightarrow> True)"
proof -
  obtain r w' where s: "call_then (checkpoint clock) (\<lambda>_. call_then work (\<lambda>result.
      call_then (checkpoint clock) (\<lambda>_ w. (Ok result, w)))) (w \<lparr> active_slot := control \<rparr>) = (r, w')"
    by fastforce
  have run: "scope clock control work w = (r, restore (active_slot w) w')"
    by (simp add: scope_def s)
  show ?thesis
  proof (cases r)
    case (Ok x)
    from s obtain w1 w2 where c: "checkpoint clock (w \<lparr> active_slot := control \<rparr>) = (Ok (), w1)"
      and "work w1 = (Ok x, w2)" "checkpoint clock w2 = (Ok (), w')"
      by (auto simp: Ok)
    moreover have "active w1 = control" using checkpoint_frame [OF c] by (simp add: active_def)
    ultimately show ?thesis by (auto simp: run Ok active_def restore_def)
  qed (simp_all add: run active_def restore_def)
qed

text \<open>
  A scope over a cancelled or expired control runs nothing: it reports the stop, the work is
  not called, and nothing but the clock reading changes.
\<close>

theorem stopped_scope_runs_nothing:
  assumes "flags w (cancelled c) \<or> deadline c \<le> clock (readings w)"
  shows "\<exists>e. \<forall>work :: 'a call. fst (scope clock (Some c) work w) = Err e
    \<and> flags (snd (scope clock (Some c) work w)) = flags w"
proof -
  let ?w = "w \<lparr> active_slot := Some c \<rparr>"
  obtain e w' where "checkpoint clock ?w = (Err e, w')" "flags w' = flags w"
    using assms by (cases "flags w (cancelled c)") (auto simp: checkpoint_def check_def)
  then show ?thesis by (auto simp: scope_def call_then_def restore_def)
qed

section \<open>Witnesses\<close>

definition sample_world :: World where
  "sample_world = \<lparr> flags = (\<lambda>_. False), next_flag = 1, readings = 0, active_slot = None \<rparr>"

definition sample_control :: Control where
  "sample_control = \<lparr> cancelled = 0, deadline = 2000000 \<rparr>"

lemma check_stops_for_ever_witness:
  "\<exists>e. fst (check (\<lambda>n. 3 * 10 ^ 6 + n) \<lparr> cancelled = 0, deadline = 1 \<rparr>
     (cancel sample_control sample_world)) = Err e"
proof -
  have "monotone (\<lambda>n. 3 * 10 ^ 6 + n)" by (simp add: monotone_def)
  moreover have "fst (check (\<lambda>n. 3 * 10 ^ 6 + n) sample_control sample_world) = Err ''COMPUTE_DEADLINE_EXCEEDED''"
    by (simp add: check_def sample_control_def sample_world_def)
  moreover have "later (snd (check (\<lambda>n. 3 * 10 ^ 6 + n) sample_control sample_world))
      (cancel sample_control sample_world \<lparr> readings := 1 \<rparr>)"
    by (simp add: later_def check_def sample_control_def sample_world_def cancel_def)
  ultimately have "\<exists>e. fst (check (\<lambda>n. 3 * 10 ^ 6 + n) \<lparr> cancelled = 0, deadline = 1 \<rparr>
      (cancel sample_control sample_world \<lparr> readings := 1 \<rparr>)) = Err e"
    by (rule check_stops_for_ever) (simp_all add: sample_control_def)
  then show ?thesis by (simp add: check_def cancel_def sample_control_def)
qed

lemma stopped_scope_runs_nothing_witness:
  "\<exists>e. \<forall>work :: unit call. fst (scope (\<lambda>n. n) (Some sample_control) work (cancel sample_control sample_world)) = Err e
    \<and> flags (snd (scope (\<lambda>n. n) (Some sample_control) work (cancel sample_control sample_world)))
        = flags (cancel sample_control sample_world)"
  by (rule stopped_scope_runs_nothing) (simp add: cancel_def)

end
