(* ===== verification/Graph_Cache.thy ===== *)
theory Graph_Cache
  imports Prelude "HOL-Library.Multiset"
begin

text \<open>
  The dependency-node cache, \<open>portfolio-risk-native/src/graph/cache.rs\<close>. \<open>Key\<close>'s equality
  compares stage, data and parents but not \<open>bytes\<close>, so the maps are keyed by the content, an
  \<open>Ident\<close> (the \<open>hash\<close> field is a function of the content and decides nothing). A \<open>HashMap\<close> is
  an association list with distinct keys (never iterated), a \<open>BTreeMap\<close> by tick the list of its
  entries in tick order. Stored values are of any type \<open>'v\<close>; \<open>downcast\<close> is a function to an
  option. Memory already accounted for in \<open>bytes\<close> is a natural number; the subtraction of
  accounted bytes and the sum with the caller's size panic where \<open>usize\<close> would leave its range.
\<close>

section \<open>Keys\<close>

datatype Ident = Ident (ident_stage: string) (ident_data: string) (ident_parents: "Ident list")

datatype Key = Key (key_stage: string) (key_data: string) (key_parents: "Key list") (key_bytes: nat)

primrec kid :: "Key \<Rightarrow> Ident" where
  "kid (Key stage data parents b) = Ident stage data (map kid parents)"

text \<open>
  \<open>Key::new\<close> after serialisation: the capacities of the two vectors are the allocator's.
\<close>

definition key_new :: "string \<Rightarrow> string \<Rightarrow> Key list \<Rightarrow> usize \<Rightarrow> usize \<Rightarrow> Key" where
  "key_new stage data parents data_capacity parents_capacity =
     Key stage data parents (data_capacity + length stage + 192 + parents_capacity * 8)"

section \<open>The maps\<close>

definition m_remove :: "'k \<Rightarrow> ('k \<times> 'a) list \<Rightarrow> ('k \<times> 'a) list" where
  "m_remove k m = filter (\<lambda>(k', _). k' \<noteq> k) m"

definition m_insert :: "'k \<Rightarrow> 'a \<Rightarrow> ('k \<times> 'a) list \<Rightarrow> ('k \<times> 'a) list" where
  "m_insert k v m = (k, v) # m_remove k m"

definition b_insert :: "nat \<Rightarrow> 'a \<Rightarrow> (nat \<times> 'a) list \<Rightarrow> (nat \<times> 'a) list" where
  "b_insert t v m = takeWhile (\<lambda>x. fst x < t) (m_remove t m) @ (t, v) # dropWhile (\<lambda>x. fst x < t) (m_remove t m)"

record 'v Entry =
  stored :: 'v
  entry_bytes :: usize
  entry_tick :: nat
  protected :: bool

record 'v Cache =
  entries :: "(Ident \<times> 'v Entry) list"
  order :: "(nat \<times> Ident) list"
  protected_order :: "(nat \<times> Ident) list"
  identities :: "(Ident \<times> nat \<times> nat) list"
  tick :: nat
  bytes :: nat
  max_bytes :: usize
  max_entries :: usize

record Counts =
  reused :: usize
  computed :: usize
  batches :: usize

definition cache_new :: "usize \<Rightarrow> usize \<Rightarrow> (string, 'v Cache) result" where
  "cache_new mb me =
     (if 2 * 1024 * 1024 * 1024 < mb \<or> 2000000 < me then Err ''native graph cache exceeds admission limit''
      else Ok \<lparr> entries = [], order = [], protected_order = [], identities = [], tick = 0, bytes = 0,
                max_bytes = mb, max_entries = me \<rparr>)"

definition clear :: "'v Cache \<Rightarrow> 'v Cache" where
  "clear c = c \<lparr> entries := [], order := [], protected_order := [], identities := [], bytes := 0 \<rparr>"

definition u64_max :: nat where
  "u64_max = 18446744073709551615"

definition touch :: "'v Cache \<Rightarrow> nat \<times> 'v Cache" where
  "touch c = (let c = (if tick c = u64_max then clear c \<lparr> tick := 0 \<rparr> else c) in
     (tick c + 1, c \<lparr> tick := tick c + 1 \<rparr>))"

section \<open>Identities: sharing by reference counts\<close>

type_synonym store = "(Ident \<times> nat \<times> nat) list \<times> nat"

fun additional :: "(Ident \<times> nat \<times> nat) list \<Rightarrow> Key \<Rightarrow> nat" where
  "additional ids (Key stage data parents b) =
     (if map_of ids (kid (Key stage data parents b)) \<noteq> None then 0
      else b + sum_list (map (additional ids) parents))"

fun retain :: "store \<Rightarrow> Key \<Rightarrow> store" and retain_all :: "store \<Rightarrow> Key list \<Rightarrow> store" where
  "retain (ids, total_bytes) (Key stage data parents b) =
     (let k = kid (Key stage data parents b) in
      case map_of ids k of
        Some (b', n) \<Rightarrow> (m_insert k (b', n + 1) ids, total_bytes)
      | None \<Rightarrow> let (ids, total_bytes) = retain_all (ids, total_bytes) parents in
          (m_insert k (b, 1) ids, total_bytes + b))"
| "retain_all s [] = s"
| "retain_all s (p # ps) = retain_all (retain s p) ps"

definition sub_bytes :: "nat \<Rightarrow> nat \<Rightarrow> ('e, nat) result" where
  "sub_bytes a b = (if b \<le> a then Ok (a - b) else Panic)"

fun release :: "store \<Rightarrow> Ident \<Rightarrow> (string, store) result"
  and release_all :: "store \<Rightarrow> Ident list \<Rightarrow> (string, store) result" where
  "release (ids, total_bytes) (Ident stage data parents) =
     (let k = Ident stage data parents in
      case map_of ids k of
        None \<Rightarrow> Panic
      | Some (b, n) \<Rightarrow>
          if n = 0 then Panic
          else if n - 1 = 0 then
            and_then (sub_bytes total_bytes b) (\<lambda>total_bytes.
              release_all (m_remove k ids, total_bytes) parents)
          else Ok (m_insert k (b, n - 1) ids, total_bytes))"
| "release_all s [] = Ok s"
| "release_all s (p # ps) = and_then (release s p) (\<lambda>s. release_all s ps)"

definition set_store :: "store \<Rightarrow> 'v Cache \<Rightarrow> 'v Cache" where
  "set_store s c = c \<lparr> identities := fst s, bytes := snd s \<rparr>"

definition c_release :: "'v Cache \<Rightarrow> Ident \<Rightarrow> (string, 'v Cache) result" where
  "c_release c k = and_then (release (identities c, bytes c) k) (\<lambda>s. Ok (set_store s c))"

section \<open>Lookup and insertion\<close>

definition cache_get :: "('v \<Rightarrow> 't option) \<Rightarrow> 'v Cache \<Rightarrow> Key \<Rightarrow> 't option \<times> 'v Cache" where
  "cache_get downcast c key = (let (t, c) = touch c; k = kid key in
     case map_of (entries c) k of
       None \<Rightarrow> (None, c)
     | Some e \<Rightarrow> (case downcast (stored e) of
         None \<Rightarrow> (None, c)
       | Some v \<Rightarrow>
           let c = (if protected e
                    then c \<lparr> protected_order := b_insert t k (m_remove (entry_tick e) (protected_order c)) \<rparr>
                    else c \<lparr> order := b_insert t k (m_remove (entry_tick e) (order c)) \<rparr>) in
           (Some v, c \<lparr> entries := m_insert k (e \<lparr> entry_tick := t \<rparr>) (entries c) \<rparr>)))"

definition drop_entry :: "'v Cache \<Rightarrow> Ident \<Rightarrow> (string, 'v Cache) result" where
  "drop_entry c k = (case map_of (entries c) k of
     None \<Rightarrow> Panic
   | Some e \<Rightarrow> and_then (sub_bytes (bytes c) (entry_bytes e)) (\<lambda>b.
       c_release (c \<lparr> entries := m_remove k (entries c), bytes := b \<rparr>) k))"

definition replace_old :: "'v Cache \<Rightarrow> Ident \<Rightarrow> (string, 'v Cache) result" where
  "replace_old c k = (case map_of (entries c) k of
     None \<Rightarrow> Ok c
   | Some old \<Rightarrow> and_then (sub_bytes (bytes c) (entry_bytes old)) (\<lambda>b.
       let c = c \<lparr> entries := m_remove k (entries c), bytes := b \<rparr>;
           c = (if protected old then c \<lparr> protected_order := m_remove (entry_tick old) (protected_order c) \<rparr>
                else c \<lparr> order := m_remove (entry_tick old) (order c) \<rparr>)
       in c_release c k))"

definition over :: "'v Cache \<Rightarrow> Key \<Rightarrow> usize \<Rightarrow> bool" where
  "over c key sz \<longleftrightarrow> max_bytes c < bytes c + sz + additional (identities c) key
     \<or> max_entries c \<le> length (entries c)"

text \<open>
  The eviction loop: \<open>Refused\<close> is the \<open>return\<close> inside it, with the cache as it was then.
\<close>

datatype 'v eviction = Room "'v Cache" | Refused "'v Cache"

lemma drop_entry_orders:
  "drop_entry c k = Ok c' \<Longrightarrow> order c' = order c \<and> protected_order c' = protected_order c"
  by (auto simp: drop_entry_def c_release_def set_store_def split: option.splits)

function evict :: "bool \<Rightarrow> Key \<Rightarrow> usize \<Rightarrow> 'v Cache \<Rightarrow> (string, 'v eviction) result" where
  "evict prot key sz c =
     (if \<not> over c key sz then Ok (Room c)
      else case order c of
        (t, k) # rest \<Rightarrow> and_then (drop_entry (c \<lparr> order := rest \<rparr>) k) (evict prot key sz)
      | [] \<Rightarrow>
          if prot then (case protected_order c of
            (t, k) # rest \<Rightarrow> and_then (drop_entry (c \<lparr> protected_order := rest \<rparr>) k) (evict prot key sz)
          | [] \<Rightarrow> Ok (Refused c))
          else Ok (Refused c))"
  by pat_completeness auto
termination
  by (relation "measure (\<lambda>(_, _, _, c). length (order c) + length (protected_order c))")
    (auto dest!: drop_entry_orders)

declare evict.simps [simp del]

definition admit_entry :: "bool \<Rightarrow> Key \<Rightarrow> 'v \<Rightarrow> usize \<Rightarrow> 'v Cache \<Rightarrow> 'v Cache" where
  "admit_entry prot key v sz c = (let
     (t, c) = touch c; k = kid key;
     c = set_store (retain (identities c, bytes c) key) c;
     c = (if prot then c \<lparr> protected_order := b_insert t k (protected_order c) \<rparr>
          else c \<lparr> order := b_insert t k (order c) \<rparr>)
     in c \<lparr> entries := m_insert k \<lparr> stored = v, entry_bytes = sz, entry_tick = t, protected = prot \<rparr> (entries c),
            bytes := bytes c + sz \<rparr>)"

definition cache_put :: "'v Cache \<Rightarrow> Key \<Rightarrow> 'v \<Rightarrow> usize \<Rightarrow> (string, 'v Cache) result" where
  "cache_put c key v sz =
     (if usize_max < sz + 256 then Ok c
      else let sz = sz + 256 in
        if max_entries c = 0 then Ok c
        else if usize_max < sz + additional (identities c) key then Panic
        else if max_bytes c < sz + additional (identities c) key then Ok c
        else and_then (replace_old c (kid key)) (\<lambda>c.
          let prot = (key_stage key = ''result'') in
          and_then (evict prot key sz c) (\<lambda>x. case x of
            Refused c \<Rightarrow> Ok c
          | Room c \<Rightarrow> Ok (admit_entry prot key v sz c))))"

section \<open>Batches\<close>

text \<open>
  \<open>any\<close> is the coercion of \<open>Arc<T>\<close> to \<open>Arc<dyn Any>\<close>, \<open>build\<close> the caller's computation and
  \<open>sizes\<close> its size function; statistics are a map from stage to counts.
\<close>

fun get_all :: "('v \<Rightarrow> 't option) \<Rightarrow> 'v Cache \<Rightarrow> Key list \<Rightarrow> 't option list \<times> 'v Cache" where
  "get_all downcast c [] = ([], c)"
| "get_all downcast c (k # ks) =
     (let (v, c) = cache_get downcast c k; (vs, c) = get_all downcast c ks in (v # vs, c))"

definition missing_of :: "'t option list \<Rightarrow> nat list" where
  "missing_of out = filter (\<lambda>i. out ! i = None) [0..<length out]"

definition put_built :: "('t \<Rightarrow> 'v) \<Rightarrow> ('t \<Rightarrow> usize) \<Rightarrow> Key list \<Rightarrow> 't option list \<times> 'v Cache \<Rightarrow> nat \<times> 't
    \<Rightarrow> (string, 't option list \<times> 'v Cache) result" where
  "put_built any sizes keys = (\<lambda>(out, c) (i, v).
     and_then (cache_put c (keys ! i) (any v) (sizes v)) (\<lambda>c. Ok (out[i := Some v], c)))"

definition zero_counts :: Counts where
  "zero_counts = \<lparr> reused = 0, computed = 0, batches = 0 \<rparr>"

definition cache_batch :: "('v \<Rightarrow> 't option) \<Rightarrow> ('t \<Rightarrow> 'v) \<Rightarrow> ('t \<Rightarrow> usize) \<Rightarrow> (nat list \<Rightarrow> (string, 't list) result)
    \<Rightarrow> string \<Rightarrow> Key list \<Rightarrow> (string \<Rightarrow> Counts option) \<Rightarrow> 'v Cache
    \<Rightarrow> (string, 't list) result \<times> (string \<Rightarrow> Counts option) \<times> 'v Cache" where
  "cache_batch downcast any sizes build stage keys stats c = (let
     counts = (case stats stage of Some n \<Rightarrow> n | None \<Rightarrow> zero_counts);
     (out, c) = get_all downcast c keys;
     missing = missing_of out;
     counts = counts \<lparr> reused := reused counts + (length keys - length missing) \<rparr>;
     stats = stats(stage \<mapsto> counts) in
     if missing = [] then (Ok (map the out), stats, c)
     else case build missing of
       Err e \<Rightarrow> (Err e, stats, c)
     | Panic \<Rightarrow> (Panic, stats, c)
     | Ok vs \<Rightarrow>
         if length vs \<noteq> length missing then (Err ''native graph batch result shape mismatch'', stats, c)
         else let stats = stats(stage \<mapsto> counts \<lparr> computed := computed counts + length vs,
                                                 batches := batches counts + 1 \<rparr>) in
           case fold_res (put_built any sizes keys) (out, c) (zip missing vs) of
             Ok (out, c) \<Rightarrow> (if None \<in> set out then Panic else Ok (map the out), stats, c)
           | Err e \<Rightarrow> (Err e, stats, c)
           | Panic \<Rightarrow> (Panic, stats, c))"

section \<open>Sums over the maps\<close>

definition m_sum :: "('a \<Rightarrow> nat) \<Rightarrow> ('k \<times> 'a) list \<Rightarrow> nat" where
  "m_sum f m = (\<Sum>(k, v)\<leftarrow>m. f v)"

abbreviation keyed :: "('k \<times> 'a) list \<Rightarrow> bool" where
  "keyed m \<equiv> distinct (map fst m)"

lemma m_remove_lookup [simp]: "map_of (m_remove k m) j = (if j = k then None else map_of m j)"
  by (induction m) (auto simp: m_remove_def)

lemma m_insert_lookup [simp]: "map_of (m_insert k v m) j = (if j = k then Some v else map_of m j)"
  by (simp add: m_insert_def)

lemma m_remove_keys: "fst ` set (m_remove k m) = fst ` set m - {k}"
  by (force simp: m_remove_def)

lemma m_remove_keyed [simp]: "keyed m \<Longrightarrow> keyed (m_remove k m)"
  unfolding m_remove_def by (induction m) auto

lemma m_insert_keyed [simp]: "keyed m \<Longrightarrow> keyed (m_insert k v m)"
  using m_remove_keys [of k m] by (simp add: m_insert_def)

lemma m_remove_absent: "map_of m k = None \<Longrightarrow> m_remove k m = m"
  by (force simp: m_remove_def filter_id_conv map_of_eq_None_iff)

lemma m_sum_simps [simp]:
  "m_sum f [] = 0" "m_sum f ((k, v) # m) = f v + m_sum f m"
  by (simp_all add: m_sum_def)

lemma m_remove_simps [simp]:
  "m_remove k [] = []"
  "m_remove k ((k', v) # m) = (if k' = k then m_remove k m else (k', v) # m_remove k m)"
  by (simp_all add: m_remove_def)

lemma keyed_head: "keyed ((k, v) # m) \<Longrightarrow> m_remove k m = m"
  by (rule m_remove_absent) (auto simp: map_of_eq_None_iff)

lemma m_sum_remove:
  "keyed m \<Longrightarrow> map_of m k = Some v \<Longrightarrow> m_sum f m = f v + m_sum f (m_remove k m)"
  by (induction m) (auto simp: keyed_head split: if_splits)

lemma m_sum_insert [simp]: "m_sum f (m_insert k v m) = f v + m_sum f (m_remove k m)"
  by (simp add: m_insert_def)

lemma m_keys_remove:
  "keyed m \<Longrightarrow> map_of m k = Some v \<Longrightarrow> mset (map fst m) = add_mset k (mset (map fst (m_remove k m)))"
  by (induction m) (auto simp: keyed_head split: if_splits)

lemma m_length_remove: "keyed m \<Longrightarrow> map_of m k = Some v \<Longrightarrow> length m = Suc (length (m_remove k m))"
  by (induction m) (auto simp: keyed_head split: if_splits)

lemma m_remove_length: "length (m_remove k m) \<le> length m"
  by (simp add: m_remove_def)

section \<open>Reference counts\<close>

definition refs :: "(Ident \<times> nat \<times> nat) list \<Rightarrow> Ident \<Rightarrow> nat" where
  "refs ids k = (case map_of ids k of Some (b, n) \<Rightarrow> n | None \<Rightarrow> 0)"

definition parent_count :: "(Ident \<times> nat \<times> nat) list \<Rightarrow> Ident \<Rightarrow> nat" where
  "parent_count ids k = (\<Sum>(i, _)\<leftarrow>ids. count (mset (ident_parents i)) k)"

text \<open>
  Every identity is referenced once by each occurrence among the parents of a stored identity and
  once by each reference held outside (\<open>P\<close>: the cache's entries and the running operation).
\<close>

definition counted :: "(Ident \<times> nat \<times> nat) list \<Rightarrow> Ident multiset \<Rightarrow> bool" where
  "counted ids P \<longleftrightarrow> keyed ids \<and> (\<forall>k v. map_of ids k = Some v \<longrightarrow> 0 < snd v)
     \<and> (\<forall>k. refs ids k = parent_count ids k + count P k)"

abbreviation ident_bytes :: "(Ident \<times> nat \<times> nat) list \<Rightarrow> nat" where
  "ident_bytes ids \<equiv> m_sum fst ids"

lemma parent_count_simps [simp]:
  "parent_count [] j = 0"
  "parent_count ((i, v) # ids) j = count (mset (ident_parents i)) j + parent_count ids j"
  by (simp_all add: parent_count_def)

lemma parent_count_remove:
  "keyed ids \<Longrightarrow> map_of ids k = Some v \<Longrightarrow>
   parent_count ids j = count (mset (ident_parents k)) j + parent_count (m_remove k ids) j"
  by (induction ids) (auto simp: keyed_head split: if_splits)

lemma parent_count_insert:
  "parent_count (m_insert k v ids) j = count (mset (ident_parents k)) j + parent_count (m_remove k ids) j"
  by (simp add: m_insert_def)

lemma parent_count_update:
  "keyed ids \<Longrightarrow> map_of ids k = Some v \<Longrightarrow> parent_count (m_insert k w ids) j = parent_count ids j"
  by (simp add: parent_count_insert parent_count_remove)

lemma refs_simps:
  "refs (m_insert k (b, n) ids) j = (if j = k then n else refs ids j)"
  "refs (m_remove k ids) j = (if j = k then 0 else refs ids j)"
  by (simp_all add: refs_def)

lemma counted_update:
  assumes "counted ids P" "map_of ids k = Some (b, n)" "0 < n'"
    and "n' + count P k = n + count P' k" "\<And>j. j \<noteq> k \<Longrightarrow> count P' j = count P j"
  shows "counted (m_insert k (b, n') ids) P'"
proof -
  have n: "refs ids k = n" using assms(2) by (simp add: refs_def)
  have "n' = parent_count ids k + count P' k" using assms(1,4) n unfolding counted_def by (metis add.commute add.left_commute add_left_cancel)
  with assms show ?thesis by (auto simp: counted_def parent_count_update refs_simps)
qed

lemma counted_drop:
  assumes "counted ids (add_mset k P)" "map_of ids k = Some (b, 1)"
  shows "counted (m_remove k ids) (P + mset (ident_parents k))"
proof -
  have one: "refs ids k = 1" using assms(2) by (simp add: refs_def)
  have pc: "parent_count ids j = count (mset (ident_parents k)) j + parent_count (m_remove k ids) j" for j
    using assms by (intro parent_count_remove) (auto simp: counted_def)
  have all: "refs ids j = parent_count ids j + count (add_mset k P) j" for j
    using assms(1) by (simp add: counted_def)
  from all [of k] one have zero: "parent_count ids k = 0" "count P k = 0" by simp_all
  have "refs (m_remove k ids) j = parent_count (m_remove k ids) j + count (P + mset (ident_parents k)) j" for j
    using all [of j] pc [of j] zero by (cases "j = k") (auto simp: refs_simps)
  with assms(1) show ?thesis by (auto simp: counted_def)
qed

lemma counted_add:
  assumes "counted ids (P + mset (ident_parents k))" "map_of ids k = None"
  shows "counted (m_insert k (b, 1) ids) (add_mset k P)"
proof -
  have all: "refs ids j = parent_count ids j + count P j + count (mset (ident_parents k)) j" for j
    using assms(1) by (simp add: counted_def)
  from assms(2) have "refs ids k = 0" by (simp add: refs_def)
  with all [of k] have zero: "parent_count ids k = 0" "count P k = 0" "count (mset (ident_parents k)) k = 0"
    by simp_all
  have "refs (m_insert k (b, 1) ids) j = parent_count (m_insert k (b, 1) ids) j + count (add_mset k P) j" for j
    using all [of j] zero assms(2) by (cases "j = k") (auto simp: refs_simps parent_count_insert m_remove_absent)
  with assms(1) show ?thesis by (auto simp: counted_def)
qed

subsection \<open>Releasing and retaining\<close>

definition released :: "nat \<Rightarrow> (Ident \<times> nat \<times> nat) list \<Rightarrow> Ident multiset \<Rightarrow> (string, store) result \<Rightarrow> bool" where
  "released x ids P r \<longleftrightarrow> (\<exists>ids'. r = Ok (ids', x + ident_bytes ids') \<and> counted ids' P
     \<and> ident_bytes ids' \<le> ident_bytes ids)"

lemma release_all_counted:
  assumes "\<And>p ids P. p \<in> set ps \<Longrightarrow> counted ids (add_mset p P) \<Longrightarrow>
      released x ids P (release (ids, x + ident_bytes ids) p)"
    and "counted ids (P + mset ps)"
  shows "released x ids P (release_all (ids, x + ident_bytes ids) ps)"
  using assms
proof (induction ps arbitrary: ids)
  case Nil
  then show ?case by (simp add: released_def)
next
  case (Cons p ps)
  from Cons.prems(1) [of p ids "P + mset ps"] Cons.prems(2)
  obtain ids1 where 1: "release (ids, x + ident_bytes ids) p = Ok (ids1, x + ident_bytes ids1)"
    "counted ids1 (P + mset ps)" "ident_bytes ids1 \<le> ident_bytes ids"
    by (auto simp: released_def)
  have "released x ids1 P (release_all (ids1, x + ident_bytes ids1) ps)"
    by (rule Cons.IH [OF Cons.prems(1) 1(2)]) auto
  with 1 show ?case by (auto simp: released_def)
qed

lemma release_counted:
  "counted ids (add_mset k P) \<Longrightarrow> released x ids P (release (ids, x + ident_bytes ids) k)"
proof (induction k arbitrary: ids P)
  case (Ident st d ps)
  let ?k = "Ident st d ps"
  have "0 < refs ids ?k" using Ident.prems by (simp add: counted_def)
  then obtain b n where k: "map_of ids ?k = Some (b, n)" and n: "0 < n"
    by (auto simp: refs_def split: option.splits)
  have ib: "ident_bytes ids = b + ident_bytes (m_remove ?k ids)"
    using Ident.prems k m_sum_remove [of ids ?k "(b, n)" fst] by (simp add: counted_def)
  show ?case
  proof (cases "n = 1")
    case True
    from counted_drop [OF Ident.prems] k True
    have "counted (m_remove ?k ids) (P + mset ps)" by simp
    from release_all_counted [OF Ident.IH this]
    have "released x (m_remove ?k ids) P (release_all (m_remove ?k ids, x + ident_bytes (m_remove ?k ids)) ps)" .
    with k True ib show ?thesis by (auto simp: released_def Let_def sub_bytes_def)
  next
    case False
    have "counted (m_insert ?k (b, n - 1) ids) P"
      by (rule counted_update [OF Ident.prems k]) (use n False in auto)
    with k n False ib show ?thesis by (simp add: released_def Let_def)
  qed
qed

lemma additional_antitone:
  "dom (map_of ids) \<subseteq> dom (map_of ids') \<Longrightarrow> additional ids' p \<le> additional ids p"
proof (induction p)
  case (Key st d ps b)
  have "sum_list (map (additional ids') ps) \<le> sum_list (map (additional ids) ps)"
    using Key by (intro sum_list_mono) auto
  with Key.prems show ?case by (auto simp: domIff subset_iff)
qed

definition retained :: "nat \<Rightarrow> (Ident \<times> nat \<times> nat) list \<Rightarrow> nat \<Rightarrow> nat \<Rightarrow> Ident multiset \<Rightarrow> store \<Rightarrow> bool" where
  "retained x ids sz extra P r \<longleftrightarrow> (\<exists>ids'. r = (ids', x + ident_bytes ids') \<and> counted ids' P
     \<and> dom (map_of ids) \<subseteq> dom (map_of ids') \<and> ident_bytes ids' \<le> ident_bytes ids + extra
     \<and> (\<forall>j. map_of ids' j \<noteq> None \<longrightarrow> map_of ids j \<noteq> None \<or> size j \<le> sz))"

lemma retain_all_counted:
  assumes "\<And>p ids P. p \<in> set ps \<Longrightarrow> counted ids P \<Longrightarrow>
      retained x ids (size (kid p)) (additional ids p) (add_mset (kid p) P) (retain (ids, x + ident_bytes ids) p)"
    and "counted ids P"
  shows "retained x ids (size_list size (map kid ps)) (sum_list (map (additional ids) ps)) (P + mset (map kid ps))
    (retain_all (ids, x + ident_bytes ids) ps)"
  using assms
proof (induction ps arbitrary: ids P)
  case Nil
  then show ?case by (simp add: retained_def)
next
  case (Cons p ps)
  from Cons.prems(1) [of p ids P] Cons.prems(2)
  obtain ids1 where 1: "retain (ids, x + ident_bytes ids) p = (ids1, x + ident_bytes ids1)"
    "counted ids1 (add_mset (kid p) P)" "dom (map_of ids) \<subseteq> dom (map_of ids1)"
    "ident_bytes ids1 \<le> ident_bytes ids + additional ids p"
    "\<And>j. map_of ids1 j \<noteq> None \<Longrightarrow> map_of ids j \<noteq> None \<or> size j \<le> size (kid p)"
    by (auto simp: retained_def)
  from Cons.IH [OF Cons.prems(1) 1(2)]
  obtain ids2 where 2: "retain_all (ids1, x + ident_bytes ids1) ps = (ids2, x + ident_bytes ids2)"
    "counted ids2 (add_mset (kid p) P + mset (map kid ps))" "dom (map_of ids1) \<subseteq> dom (map_of ids2)"
    "ident_bytes ids2 \<le> ident_bytes ids1 + sum_list (map (additional ids1) ps)"
    "\<And>j. map_of ids2 j \<noteq> None \<Longrightarrow> map_of ids1 j \<noteq> None \<or> size j \<le> size_list size (map kid ps)"
    by (auto simp: retained_def)
  have "sum_list (map (additional ids1) ps) \<le> sum_list (map (additional ids) ps)"
    by (intro sum_list_mono additional_antitone 1(3))
  then have "ident_bytes ids2 \<le> ident_bytes ids + (additional ids p + sum_list (map (additional ids) ps))"
    using 1(4) 2(4) by simp
  moreover have "map_of ids j \<noteq> None \<or> size j \<le> size_list size (map kid (p # ps))" if "map_of ids2 j \<noteq> None" for j
    using 1(5) [of j] 2(5) [of j] that by fastforce
  moreover have "dom (map_of ids) \<subseteq> dom (map_of ids2)" using 1(3) 2(3) by blast
  ultimately show ?case using 1(1) 2(1,2) unfolding retained_def by simp
qed

lemma retain_counted:
  "counted ids P \<Longrightarrow>
   retained x ids (size (kid p)) (additional ids p) (add_mset (kid p) P) (retain (ids, x + ident_bytes ids) p)"
proof (induction p arbitrary: ids P)
  case (Key st d ps b)
  let ?k = "Ident st d (map kid ps)"
  have keyed: "keyed ids" using Key.prems by (simp add: counted_def)
  show ?case
  proof (cases "map_of ids ?k")
    case (Some v)
    obtain b' n where v: "v = (b', n)" by (cases v)
    have "counted (m_insert ?k (b', n + 1) ids) (add_mset ?k P)"
      by (rule counted_update [OF Key.prems]) (use Some v in auto)
    moreover have "ident_bytes (m_insert ?k (b', n + 1) ids) = ident_bytes ids"
      using m_sum_remove [OF keyed Some, of fst] v by simp
    ultimately show ?thesis using Some v unfolding retained_def by (auto simp: Let_def split: if_splits)
  next
    case None
    have "retained x ids (size_list size (map kid ps)) (sum_list (map (additional ids) ps)) (P + mset (map kid ps))
        (retain_all (ids, x + ident_bytes ids) ps)"
      by (rule retain_all_counted [OF Key.IH Key.prems])
    then obtain ids1 where 1: "retain_all (ids, x + ident_bytes ids) ps = (ids1, x + ident_bytes ids1)"
      "counted ids1 (P + mset (map kid ps))" "dom (map_of ids) \<subseteq> dom (map_of ids1)"
      "ident_bytes ids1 \<le> ident_bytes ids + sum_list (map (additional ids) ps)"
      "\<And>j. map_of ids1 j \<noteq> None \<Longrightarrow> map_of ids j \<noteq> None \<or> size j \<le> size_list size (map kid ps)"
      by (auto simp: retained_def)
    have "map_of ids1 ?k = None" using 1(5) [of ?k] None
      by (cases "map_of ids1 ?k = None") simp_all
    then have "counted (m_insert ?k (b, 1) ids1) (add_mset ?k P)"
      using counted_add [of ids1 P ?k b] 1(2) by simp
    moreover have "ident_bytes (m_insert ?k (b, 1) ids1) = b + ident_bytes ids1"
      using \<open>map_of ids1 ?k = None\<close> by (simp add: m_remove_absent)
    moreover have "map_of ids j \<noteq> None \<or> size j \<le> size ?k" if "map_of (m_insert ?k (b, 1) ids1) j \<noteq> None" for j
      using 1(5) [of j] that by (fastforce split: if_splits)
    ultimately show ?thesis using None 1 unfolding retained_def
      by (auto simp: Let_def algebra_simps split: if_splits)
  qed
qed

section \<open>The invariant\<close>

definition queue :: "bool \<Rightarrow> 'v Cache \<Rightarrow> (nat \<times> Ident) list" where
  "queue prot c = (if prot then protected_order c else order c)"

text \<open>
  The recency queues hold exactly the entries of their class under the tick of their last use,
  oldest first.
\<close>

definition linked :: "'v Cache \<Rightarrow> bool" where
  "linked c \<longleftrightarrow> (\<forall>prot. sorted (map fst (queue prot c)) \<and> keyed (queue prot c)
     \<and> (\<forall>t k. (t, k) \<in> set (queue prot c)
          \<longleftrightarrow> (\<exists>e. map_of (entries c) k = Some e \<and> entry_tick e = t \<and> protected e = prot))
     \<and> (\<forall>x \<in> set (queue prot c). fst x \<le> tick c))"

definition booked :: "'v Cache \<Rightarrow> bool" where
  "booked c \<longleftrightarrow> keyed (entries c) \<and> counted (identities c) (mset (map fst (entries c)))
     \<and> bytes c = m_sum entry_bytes (entries c) + ident_bytes (identities c)"

definition cache_ok :: "'v Cache \<Rightarrow> bool" where
  "cache_ok c \<longleftrightarrow> linked c \<and> booked c \<and> length (entries c) \<le> max_entries c"

lemma release_booked:
  assumes "counted (identities c) (add_mset k (mset (map fst (entries c))))" "keyed (entries c)"
    "bytes c = m_sum entry_bytes (entries c) + ident_bytes (identities c)"
  shows "\<exists>s. release (identities c, bytes c) k = Ok s \<and> booked (set_store s c) \<and> snd s \<le> bytes c"
proof -
  from release_counted [OF assms(1), of "m_sum entry_bytes (entries c)"]
  obtain ids' where 1: "release (identities c, bytes c) k = Ok (ids', m_sum entry_bytes (entries c) + ident_bytes ids')"
    "counted ids' (mset (map fst (entries c)))" "ident_bytes ids' \<le> ident_bytes (identities c)"
    by (auto simp: released_def assms(3))
  show ?thesis
    by (rule exI [of _ "(ids', m_sum entry_bytes (entries c) + ident_bytes ids')"])
      (use 1 assms in \<open>simp add: set_store_def booked_def\<close>)
qed

lemma drop_booked:
  assumes "booked c" "map_of (entries c) k = Some e"
  defines "d \<equiv> c \<lparr> entries := m_remove k (entries c), bytes := bytes c - entry_bytes e \<rparr>"
  shows "entry_bytes e \<le> bytes c"
    and "\<exists>s. release (identities d, bytes d) k = Ok s \<and> booked (set_store s d) \<and> snd s \<le> bytes c"
proof -
  have sum: "m_sum entry_bytes (entries c) = entry_bytes e + m_sum entry_bytes (m_remove k (entries c))"
    using assms(1,2) by (intro m_sum_remove) (auto simp: booked_def)
  then show "entry_bytes e \<le> bytes c" using assms(1) by (simp add: booked_def)
  have "mset (map fst (entries c)) = add_mset k (mset (map fst (m_remove k (entries c))))"
    using assms(1,2) by (intro m_keys_remove) (auto simp: booked_def)
  then have "\<exists>s. release (identities d, bytes d) k = Ok s \<and> booked (set_store s d) \<and> snd s \<le> bytes d"
    by (intro release_booked) (use assms(1) sum in \<open>simp_all add: booked_def d_def\<close>)
  moreover have "bytes d \<le> bytes c" by (simp add: d_def)
  ultimately show "\<exists>s. release (identities d, bytes d) k = Ok s \<and> booked (set_store s d) \<and> snd s \<le> bytes c"
    using le_trans by blast
qed

text \<open>\<open>pruned c k c'\<close>: the entry of \<open>k\<close> is gone and nothing else of the bookkeeping changed.\<close>

definition pruned :: "'v Cache \<Rightarrow> Ident \<Rightarrow> 'v Cache \<Rightarrow> bool" where
  "pruned c k c' \<longleftrightarrow> cache_ok c' \<and> entries c' = m_remove k (entries c) \<and> bytes c' \<le> bytes c
     \<and> tick c' = tick c \<and> max_bytes c' = max_bytes c \<and> max_entries c' = max_entries c"

lemma linked_prune:
  assumes "linked c" "map_of (entries c) k = Some e" "entries c' = m_remove k (entries c)" "tick c' = tick c"
    "\<And>prot. queue prot c' = (if prot = protected e then m_remove (entry_tick e) (queue prot c) else queue prot c)"
  shows "linked c'"
  unfolding linked_def
proof (intro allI conjI iffI ballI)
  fix prot
  have L: "sorted (map fst (queue prot c))" "keyed (queue prot c)"
    "\<And>t k. (t, k) \<in> set (queue prot c) \<longleftrightarrow> (\<exists>e. map_of (entries c) k = Some e \<and> entry_tick e = t \<and> protected e = prot)"
    "\<And>x. x \<in> set (queue prot c) \<Longrightarrow> fst x \<le> tick c"
    using assms(1) unfolding linked_def by blast+
  show "sorted (map fst (queue prot c'))"
    using L(1) assms(5) [of prot] by (cases "prot = protected e") (auto simp: m_remove_def intro: sorted_filter)
  show "keyed (queue prot c')" using L(2) assms(5) [of prot] by (cases "prot = protected e") auto
  have inq: "(t, j) \<in> set (queue prot c') \<longleftrightarrow> (t, j) \<in> set (queue prot c) \<and> (prot = protected e \<longrightarrow> t \<noteq> entry_tick e)" for t j
    using assms(5) by (auto simp: m_remove_def)
  have same: "j = k" if "(entry_tick e, j) \<in> set (queue (protected e) c)" "prot = protected e" for j
  proof -
    have "(entry_tick e, k) \<in> set (queue prot c)" using L(3) assms(2) that(2) by blast
    moreover have "(entry_tick e, j) \<in> set (queue prot c)" using that by simp
    ultimately show ?thesis using eq_key_imp_eq_value [OF L(2)] by blast
  qed
  { fix t j assume "(t, j) \<in> set (queue prot c')"
    with inq L(3) obtain f where "map_of (entries c) j = Some f" "entry_tick f = t" "protected f = prot"
      "prot = protected e \<longrightarrow> t \<noteq> entry_tick e" by blast
    moreover from this assms(2) have "j \<noteq> k" by auto
    ultimately show "\<exists>f. map_of (entries c') j = Some f \<and> entry_tick f = t \<and> protected f = prot"
      using assms(3) by auto }
  { fix t j assume "\<exists>f. map_of (entries c') j = Some f \<and> entry_tick f = t \<and> protected f = prot"
    then obtain f where f: "map_of (entries c) j = Some f" "entry_tick f = t" "protected f = prot" "j \<noteq> k"
      using assms(3) by (auto split: if_splits)
    then have "(t, j) \<in> set (queue prot c)" using L(3) by blast
    moreover have "t \<noteq> entry_tick e" if "prot = protected e"
      using same [of j] that f(4) \<open>(t, j) \<in> set (queue prot c)\<close> by auto
    ultimately show "(t, j) \<in> set (queue prot c')" using inq by blast }
  fix x assume "x \<in> set (queue prot c')"
  moreover have "set (queue prot c') \<subseteq> set (queue prot c)" by (rule subrelI) (use inq in blast)
  ultimately have "x \<in> set (queue prot c)" by blast
  then show "fst x \<le> tick c'" using L(4) assms(4) by simp
qed

lemma replace_old_ok:
  assumes "cache_ok c"
  shows "\<exists>c'. replace_old c k = Ok c' \<and> pruned c k c'"
proof (cases "map_of (entries c) k")
  case None
  then show ?thesis using assms by (simp add: replace_old_def pruned_def m_remove_absent)
next
  case (Some e)
  let ?d = "c \<lparr> entries := m_remove k (entries c), bytes := bytes c - entry_bytes e \<rparr>"
  let ?q = "if protected e then ?d \<lparr> protected_order := m_remove (entry_tick e) (protected_order ?d) \<rparr>
    else ?d \<lparr> order := m_remove (entry_tick e) (order ?d) \<rparr>"
  have ok: "linked c" "booked c" "length (entries c) \<le> max_entries c" using assms by (auto simp: cache_ok_def)
  from drop_booked [OF ok(2) Some] obtain s where s: "entry_bytes e \<le> bytes c"
    "release (identities ?d, bytes ?d) k = Ok s" "booked (set_store s ?d)" "snd s \<le> bytes c" by blast
  have "c_release ?q k = Ok (set_store s ?q)"
    using s(2) by (cases s) (auto simp: c_release_def)
  moreover have "linked (set_store s ?q)"
    by (rule linked_prune [OF ok(1) Some]) (auto simp: set_store_def queue_def)
  moreover have "booked (set_store s ?q)" using s(3) by (simp add: booked_def set_store_def)
  moreover have "length (m_remove k (entries c)) \<le> max_entries c"
    using ok(3) m_remove_length [of k "entries c"] by simp
  ultimately show ?thesis using Some s
    by (intro exI [of _ "set_store s ?q"])
      (simp add: replace_old_def sub_bytes_def Let_def pruned_def cache_ok_def set_store_def)
qed

lemma drop_oldest_ok:
  assumes "cache_ok c" "queue prot c = (t, k) # rest"
  shows "\<exists>c'. drop_entry (if prot then c \<lparr> protected_order := rest \<rparr> else c \<lparr> order := rest \<rparr>) k = Ok c' \<and> pruned c k c'"
proof -
  have ok: "linked c" "booked c" "length (entries c) \<le> max_entries c" using assms by (auto simp: cache_ok_def)
  have keyed: "keyed (queue prot c)" using ok(1) unfolding linked_def by blast
  have "(t, k) \<in> set (queue prot c)" using assms(2) by simp
  with ok(1) obtain e where e: "map_of (entries c) k = Some e" "entry_tick e = t" "protected e = prot"
    unfolding linked_def by blast
  have rest: "rest = m_remove t (queue prot c)" using keyed assms(2) keyed_head [of t k rest] by simp
  let ?p = "if prot then c \<lparr> protected_order := rest \<rparr> else c \<lparr> order := rest \<rparr>"
  let ?d = "c \<lparr> entries := m_remove k (entries c), bytes := bytes c - entry_bytes e \<rparr>"
  let ?q = "?p \<lparr> entries := m_remove k (entries c), bytes := bytes c - entry_bytes e \<rparr>"
  from drop_booked [OF ok(2) e(1)] obtain s where s: "entry_bytes e \<le> bytes c"
    "release (identities ?d, bytes ?d) k = Ok s" "booked (set_store s ?d)" "snd s \<le> bytes c" by blast
  have "c_release ?q k = Ok (set_store s ?q)" using s(2) by (cases s) (auto simp: c_release_def)
  moreover have "linked (set_store s ?q)"
    by (rule linked_prune [OF ok(1) e(1)]) (use e rest in \<open>auto simp: set_store_def queue_def\<close>)
  moreover have "booked (set_store s ?q)" using s(3) by (simp add: booked_def set_store_def)
  moreover have "length (m_remove k (entries c)) \<le> max_entries c"
    using ok(3) m_remove_length [of k "entries c"] by simp
  ultimately show ?thesis using e s
    by (intro exI [of _ "set_store s ?q"], cases prot)
      (simp_all add: drop_entry_def sub_bytes_def pruned_def cache_ok_def set_store_def)
qed

definition shrunk :: "'v Cache \<Rightarrow> 'v Cache \<Rightarrow> bool" where
  "shrunk c c' \<longleftrightarrow> cache_ok c' \<and> map_of (entries c') \<subseteq>\<^sub>m map_of (entries c) \<and> bytes c' \<le> bytes c
     \<and> tick c' = tick c \<and> max_bytes c' = max_bytes c \<and> max_entries c' = max_entries c"

lemma pruned_shrunk: "pruned c k c' \<Longrightarrow> shrunk c c'"
  by (auto simp: pruned_def shrunk_def map_le_def)

lemma shrunk_trans: "shrunk c c' \<Longrightarrow> shrunk c' c'' \<Longrightarrow> shrunk c c''"
  unfolding shrunk_def by (auto intro: map_le_trans)

lemma shrunk_refl: "cache_ok c \<Longrightarrow> shrunk c c"
  by (simp add: shrunk_def)

definition evicted :: "Key \<Rightarrow> usize \<Rightarrow> 'v Cache \<Rightarrow> (string, 'v eviction) result \<Rightarrow> bool" where
  "evicted key sz c r \<longleftrightarrow> (\<exists>c'. shrunk c c' \<and> (r = Ok (Refused c') \<or> r = Ok (Room c') \<and> \<not> over c' key sz))"

lemma evicted_step:
  assumes "shrunk c c1" "evicted key sz c1 r"
  shows "evicted key sz c r"
  using assms shrunk_trans unfolding evicted_def by metis

lemma evict_ok: "cache_ok c \<Longrightarrow> evicted key sz c (evict prot key sz c)"
proof (induction "length (order c) + length (protected_order c)" arbitrary: c rule: less_induct)
  case less
  have step: "evicted key sz c (and_then (drop_entry d k) (evict prot key sz))"
    if d: "d = (if q then c \<lparr> protected_order := rest \<rparr> else c \<lparr> order := rest \<rparr>)"
      and q: "queue q c = (t, k) # rest" for d q t k rest
  proof -
    from drop_oldest_ok [OF less.prems q] obtain c' where c': "drop_entry d k = Ok c'" "pruned c k c'" using d by auto
    then have sh: "shrunk c c'" by (simp add: pruned_shrunk)
    have "length (order c') + length (protected_order c') < length (order c) + length (protected_order c)"
      using drop_entry_orders [OF c'(1)] d q by (cases q) (auto simp: queue_def)
    from less.hyps [OF this] sh have "evicted key sz c' (evict prot key sz c')" by (simp add: shrunk_def)
    with c'(1) evicted_step [OF sh] show ?thesis by simp
  qed
  show ?case
  proof (cases "over c key sz")
    case False
    then show ?thesis using less.prems by (subst evict.simps) (auto simp: evicted_def shrunk_refl)
  next
    case True
    consider t k rest where "order c = (t, k) # rest"
      | t k rest where "order c = []" "prot" "protected_order c = (t, k) # rest"
      | "order c = []" "\<not> prot \<or> protected_order c = []"
      by (metis neq_Nil_conv surj_pair)
    then show ?thesis
    proof cases
      case 1
      then show ?thesis using True step [of "c \<lparr> order := rest \<rparr>" False rest t k]
        by (subst evict.simps) (simp add: queue_def)
    next
      case 2
      then show ?thesis using True step [of "c \<lparr> protected_order := rest \<rparr>" True rest t k]
        by (subst evict.simps) (simp add: queue_def)
    next
      case 3
      then show ?thesis using True less.prems
        by (subst evict.simps) (auto simp: evicted_def shrunk_refl)
    qed
  qed
qed

subsection \<open>Recency\<close>

lemma b_insert_newest: "\<forall>x \<in> set m. fst x < t \<Longrightarrow> b_insert t v m = m @ [(t, v)]"
proof -
  assume less: "\<forall>x \<in> set m. fst x < t"
  then have "m_remove t m = m" by (intro m_remove_absent) (auto simp: map_of_eq_None_iff)
  moreover have "takeWhile (\<lambda>x. fst x < t) m = m" "dropWhile (\<lambda>x. fst x < t) m = []"
    using less by (simp_all add: takeWhile_eq_all_conv dropWhile_eq_Nil_conv)
  ultimately show ?thesis by (simp add: b_insert_def)
qed

definition touched :: "'v Cache \<Rightarrow> 'v Cache" where
  "touched c = (if tick c = u64_max then clear c \<lparr> tick := 0 \<rparr> else c)"

lemma touch_touched: "touch c = (Suc (tick (touched c)), touched c \<lparr> tick := Suc (tick (touched c)) \<rparr>)"
  by (simp add: touch_def touched_def Let_def)

lemma cleared_ok: "cache_ok (clear c \<lparr> tick := 0 \<rparr>)"
  by (simp add: cache_ok_def clear_def linked_def queue_def booked_def counted_def refs_def)

lemma touched_ok: "cache_ok c \<Longrightarrow> cache_ok (touched c)"
  by (simp add: touched_def cleared_ok)

lemma linked_newest:
  assumes "linked c" "map_of (entries c) k = None" "entry_tick e = Suc (tick c)"
    "entries c' = m_insert k e (entries c)" "tick c' = Suc (tick c)"
    "\<And>prot. queue prot c' = (if prot = protected e then queue prot c @ [(Suc (tick c), k)] else queue prot c)"
  shows "linked c'"
  unfolding linked_def
proof (intro allI conjI iffI ballI)
  fix prot
  have L: "sorted (map fst (queue prot c))" "keyed (queue prot c)"
    "\<And>t k. (t, k) \<in> set (queue prot c) \<longleftrightarrow> (\<exists>e. map_of (entries c) k = Some e \<and> entry_tick e = t \<and> protected e = prot)"
    "\<And>x. x \<in> set (queue prot c) \<Longrightarrow> fst x \<le> tick c"
    using assms(1) unfolding linked_def by blast+
  have fresh: "Suc (tick c) \<notin> fst ` set (queue prot c)" using L(4) by fastforce
  show "sorted (map fst (queue prot c'))"
    using L(1,4) assms(6) [of prot] by (cases "prot = protected e") (auto simp: sorted_append le_SucI)
  show "keyed (queue prot c')"
    using L(2) fresh assms(6) [of prot] by (cases "prot = protected e") auto
  have inq: "(t, j) \<in> set (queue prot c') \<longleftrightarrow>
      (t, j) \<in> set (queue prot c) \<or> (prot = protected e \<and> t = Suc (tick c) \<and> j = k)" for t j
    using assms(6) [of prot] by (cases "prot = protected e") auto
  { fix t j assume "(t, j) \<in> set (queue prot c')"
    then consider "(t, j) \<in> set (queue prot c)" | "prot = protected e" "t = Suc (tick c)" "j = k" using inq by blast
    then show "\<exists>f. map_of (entries c') j = Some f \<and> entry_tick f = t \<and> protected f = prot"
    proof cases
      case 1
      with L(3) obtain f where f: "map_of (entries c) j = Some f" "entry_tick f = t" "protected f = prot" by blast
      with assms(2) have "j \<noteq> k" by auto
      with f assms(4) show ?thesis by auto
    next
      case 2
      with assms(3,4) show ?thesis by auto
    qed }
  { fix t j assume "\<exists>f. map_of (entries c') j = Some f \<and> entry_tick f = t \<and> protected f = prot"
    then show "(t, j) \<in> set (queue prot c')"
      using inq L(3) assms(3,4) by (cases "j = k") auto }
  fix x assume "x \<in> set (queue prot c')"
  then have "x \<in> set (queue prot c) \<or> fst x = Suc (tick c)" using inq [of "fst x" "snd x"] by auto
  then show "fst x \<le> tick c'" using L(4) [of x] assms(5) by auto
qed

lemma admit_entry_ok:
  fixes c :: "'v Cache" and key prot v sz
  assumes "cache_ok c" "map_of (entries c) (kid key) = None" "length (entries c) < max_entries c"
  defines "c' \<equiv> admit_entry prot key v sz c"
  shows "cache_ok c'"
    and "tick c \<noteq> u64_max \<Longrightarrow> bytes c' \<le> bytes c + sz + additional (identities c) key"
proof -
  define d where "d = touched c"
  have d: "cache_ok d" "map_of (entries d) (kid key) = None" "length (entries d) < max_entries d"
    using touched_ok [OF assms(1)] assms(2,3) by (auto simp: d_def touched_def clear_def)
  then have db: "linked d" "booked d" by (auto simp: cache_ok_def)
  from retain_counted [of "identities d" "mset (map fst (entries d))" "m_sum entry_bytes (entries d)" key] db
  obtain ids where r: "retain (identities d, bytes d) key = (ids, m_sum entry_bytes (entries d) + ident_bytes ids)"
    "counted ids (add_mset (kid key) (mset (map fst (entries d))))"
    "ident_bytes ids \<le> ident_bytes (identities d) + additional (identities d) key"
    by (auto simp: retained_def booked_def)
  have newest: "b_insert (Suc (tick d)) k (queue p d) = queue p d @ [(Suc (tick d), k)]" for k p
    using db(1) unfolding linked_def by (intro b_insert_newest) (metis le_imp_less_Suc)
  have c': "entries c' = m_insert (kid key) \<lparr> stored = v, entry_bytes = sz, entry_tick = Suc (tick d), protected = prot \<rparr> (entries d)"
    "identities c' = ids" "bytes c' = m_sum entry_bytes (entries d) + ident_bytes ids + sz"
    "tick c' = Suc (tick d)" "max_entries c' = max_entries d"
    "queue p c' = (if p = prot then queue p d @ [(Suc (tick d), kid key)] else queue p d)" for p
    unfolding c'_def admit_entry_def touch_touched d_def [symmetric]
    using r(1) newest [of _ True] newest [of _ False] by (auto simp: Let_def set_store_def queue_def)
  have "linked c'" by (rule linked_newest [OF db(1) d(2)]) (use c' in auto)
  moreover have "booked c'"
    using db(2) r c' d(2) by (simp add: booked_def m_insert_def m_remove_absent map_of_eq_None_iff)
  moreover have "length (entries c') \<le> max_entries c'"
    using c' d(2,3) by (simp add: m_insert_def m_remove_absent)
  ultimately show "cache_ok c'" by (simp add: cache_ok_def)
  show "bytes c' \<le> bytes c + sz + additional (identities c) key" if "tick c \<noteq> u64_max"
  proof -
    have "d = c" using that by (simp add: d_def touched_def)
    with c' r(3) db(2) show ?thesis by (simp add: booked_def)
  qed
qed

lemma cache_get_ok:
  assumes "cache_ok c"
  shows "cache_ok (snd (cache_get downcast c key))"
proof -
  define d where "d = touched c"
  define c1 where "c1 = d \<lparr> tick := Suc (tick d) \<rparr>"
  have d: "linked d" "booked d" "length (entries d) \<le> max_entries d"
    using touched_ok [OF assms] by (auto simp: d_def cache_ok_def)
  have "queue p c1 = queue p d" for p by (simp add: c1_def queue_def)
  moreover have "entries c1 = entries d" "tick c1 = Suc (tick d)" by (simp_all add: c1_def)
  ultimately have "linked c1" using d(1) unfolding linked_def by (simp add: le_SucI)
  then have old: "cache_ok c1" using d(2,3) by (simp add: cache_ok_def c1_def booked_def)
  have touch: "touch c = (Suc (tick d), c1)" by (simp add: touch_touched d_def c1_def)
  show ?thesis
  proof (cases "\<exists>e v. map_of (entries d) (kid key) = Some e \<and> downcast (stored e) = Some v")
    case False
    then have "snd (cache_get downcast c key) = c1"
      unfolding cache_get_def touch by (auto simp: Let_def c1_def split: option.splits)
    with old show ?thesis by simp
  next
    case True
    then obtain e v where e: "map_of (entries d) (kid key) = Some e" "downcast (stored e) = Some v" by blast
    let ?k = "kid key" and ?t = "Suc (tick d)" and ?p = "protected e"
    let ?e = "e \<lparr> entry_tick := Suc (tick d) \<rparr>"
    define m where "m = (if ?p then d \<lparr> entries := m_remove ?k (entries d), protected_order := m_remove (entry_tick e) (protected_order d) \<rparr>
       else d \<lparr> entries := m_remove ?k (entries d), order := m_remove (entry_tick e) (order d) \<rparr>)"
    have m: "queue p m = (if p = ?p then m_remove (entry_tick e) (queue p d) else queue p d)"
      "entries m = m_remove ?k (entries d)" "tick m = tick d" for p
      by (auto simp: m_def queue_def)
    have mo: "order m = (if ?p then order d else m_remove (entry_tick e) (order d))"
      "protected_order m = (if ?p then m_remove (entry_tick e) (protected_order d) else protected_order d)"
      by (simp_all add: m_def)
    have lm: "linked m" by (rule linked_prune [OF d(1) e(1)]) (use m in auto)
    have newest: "b_insert ?t ?k (queue p m) = queue p m @ [(?t, ?k)]" for p
      using lm m(3) unfolding linked_def by (intro b_insert_newest) (metis le_imp_less_Suc)
    define c' where "c' = snd (cache_get downcast c key)"
    have c': "entries c' = m_insert ?k ?e (entries d)" "identities c' = identities d" "bytes c' = bytes d"
      "tick c' = ?t" "max_entries c' = max_entries d"
      "queue p c' = (if p = ?p then queue p m @ [(?t, ?k)] else queue p m)" for p
      unfolding c'_def cache_get_def touch
      using e newest [of ?p] by (auto simp: Let_def c1_def m mo queue_def)
    have "linked c'"
      by (rule linked_newest [OF lm, of ?k ?e]) (use c' m in \<open>auto simp: m_insert_def m_remove_absent\<close>)
    moreover have "m_sum entry_bytes (entries d) = entry_bytes e + m_sum entry_bytes (m_remove ?k (entries d))"
      "mset (map fst (entries d)) = add_mset ?k (mset (map fst (m_remove ?k (entries d))))"
      "length (entries d) = Suc (length (m_remove ?k (entries d)))"
      using d(2) e(1) unfolding booked_def by (intro m_sum_remove m_keys_remove m_length_remove; simp)+
    ultimately have "cache_ok c'"
      using c' d(2,3) by (simp add: cache_ok_def booked_def m_insert_keyed) (simp add: m_insert_def)
    then show ?thesis by (simp add: c'_def)
  qed
qed

section \<open>Properties\<close>

definition sound :: "('v \<Rightarrow> 't option) \<Rightarrow> (Ident \<Rightarrow> 't) \<Rightarrow> 'v Cache \<Rightarrow> bool" where
  "sound downcast F c \<longleftrightarrow> (\<forall>k e v. map_of (entries c) k = Some e \<and> downcast (stored e) = Some v \<longrightarrow> v = F k)"

text \<open>The size of a value and of the whole identity of its key is a machine integer.\<close>

definition fits :: "Key \<Rightarrow> usize \<Rightarrow> bool" where
  "fits key sz \<longleftrightarrow> sz + 256 + additional [] key \<le> usize_max"

text \<open>What an insertion promises, from the state before and after it.\<close>

definition put_promise :: "'v Cache \<Rightarrow> Key \<Rightarrow> 'v \<Rightarrow> 'v Cache \<Rightarrow> bool" where
  "put_promise c key v c' \<longleftrightarrow> cache_ok c'
     \<and> (\<forall>k e. map_of (entries c') k = Some e \<longrightarrow> map_of (entries c) k = Some e \<or> k = kid key \<and> stored e = v)
     \<and> (tick c < u64_max \<and> bytes c \<le> max_bytes c \<longrightarrow> bytes c' \<le> max_bytes c')
     \<and> max_bytes c' = max_bytes c \<and> max_entries c' = max_entries c"

lemma shrunk_promise: "shrunk c c' \<Longrightarrow> put_promise c key v c'"
  by (auto simp: put_promise_def shrunk_def map_le_def dom_def)

lemma cache_put_promise:
  assumes "cache_ok c" "fits key sz"
  shows "\<exists>c'. cache_put c key v sz = Ok c' \<and> put_promise c key v c'"
proof -
  have "additional (identities c) key \<le> additional [] key" by (rule additional_antitone) simp
  then have room: "sz + 256 \<le> usize_max" "sz + 256 + additional (identities c) key \<le> usize_max"
    using assms(2) by (auto simp: fits_def)
  have self: "put_promise c key v c" using shrunk_promise [OF shrunk_refl [OF assms(1)]] .
  show ?thesis
  proof (cases "max_entries c = 0 \<or> max_bytes c < sz + 256 + additional (identities c) key")
    case True
    with room self show ?thesis by (auto simp: cache_put_def Let_def)
  next
    case False
    from replace_old_ok [OF assms(1)] obtain c1 where c1: "replace_old c (kid key) = Ok c1" "pruned c (kid key) c1"
      by blast
    then have sh1: "shrunk c c1" by (simp add: pruned_shrunk)
    let ?p = "key_stage key = ''result''"
    from sh1 have "evicted key (sz + 256) c1 (evict ?p key (sz + 256) c1)" by (simp add: evict_ok shrunk_def)
    then obtain c2 where sh2: "shrunk c1 c2"
      and ev: "evict ?p key (sz + 256) c1 = Ok (Refused c2) \<or>
               evict ?p key (sz + 256) c1 = Ok (Room c2) \<and> \<not> over c2 key (sz + 256)"
      unfolding evicted_def by blast
    have sh: "shrunk c c2" by (rule shrunk_trans [OF sh1 sh2])
    have put: "cache_put c key v sz = and_then (evict ?p key (sz + 256) c1) (\<lambda>x. case x of
        Refused c \<Rightarrow> Ok c | Room c \<Rightarrow> Ok (admit_entry ?p key v (sz + 256) c))"
      using False room c1(1) by (simp add: cache_put_def Let_def)
    from ev show ?thesis
    proof (elim disjE conjE)
      assume "evict ?p key (sz + 256) c1 = Ok (Refused c2)"
      with put shrunk_promise [OF sh] show ?thesis by simp
    next
      assume room2: "evict ?p key (sz + 256) c1 = Ok (Room c2)" and "\<not> over c2 key (sz + 256)"
      then have o: "bytes c2 + (sz + 256) + additional (identities c2) key \<le> max_bytes c2"
        "length (entries c2) < max_entries c2" by (auto simp: over_def)
      let ?c' = "admit_entry ?p key v (sz + 256) c2"
      have "map_of (entries c1) (kid key) = None" using c1(2) by (simp add: pruned_def)
      then have none: "map_of (entries c2) (kid key) = None"
        using sh2 by (auto simp: shrunk_def map_le_def dom_def)
      have ok2: "cache_ok c2" using sh by (simp add: shrunk_def)
      note ok = admit_entry_ok [OF ok2 none o(2)]
      have "max_bytes ?c' = max_bytes c2" "max_entries ?c' = max_entries c2"
        by (auto simp: admit_entry_def touch_touched touched_def clear_def set_store_def Let_def)
      moreover have "map_of (entries c2) k = Some e \<or> k = kid key \<and> stored e = v"
        if "map_of (entries ?c') k = Some e" for k e
        using that by (auto simp: admit_entry_def touch_touched touched_def clear_def set_store_def Let_def split: if_splits)
      moreover have "bytes ?c' \<le> max_bytes c" if "tick c < u64_max"
        using ok(2) [of ?p v "sz + 256"] o(1) sh that by (auto simp: shrunk_def)
      moreover have "map_of (entries c) k = Some e" if "map_of (entries c2) k = Some e" for k e
        using sh that by (auto simp: shrunk_def map_le_def dom_def)
      ultimately have "put_promise c key v ?c'"
        using ok(1) sh unfolding put_promise_def by (auto simp: shrunk_def)
      with put room2 show ?thesis by simp
    qed
  qed
qed

text \<open>
  Inserting into a well-formed cache never panics (no expectation of the code fails, no
  accounted byte is subtracted twice) and leaves it well formed: every entry is in the queue of its
  class under the tick of its last use, every identity is counted once by its entry and once per
  occurrence among the parents of a stored identity, the byte total is the sum of the entries and
  the shared identities, and the number of entries is within the limit. Only the new key may gain
  a value, and the byte total stays within its limit as long as the tick does not wrap.
\<close>

theorem cache_put_keeps:
  assumes "cache_ok c" "fits key sz"
  shows "case cache_put c key v sz of Ok c' \<Rightarrow> put_promise c key v c' | _ \<Rightarrow> False"
  using cache_put_promise [OF assms, of v] by auto

definition parent_key :: Key where
  "parent_key = Key ''market'' ''0'' [] 10"

definition child_key :: Key where
  "child_key = Key ''result'' ''1'' [parent_key] 5"

definition empty_cache :: "nat Cache" where
  "empty_cache = \<lparr> entries = [], order = [], protected_order = [], identities = [], tick = 0, bytes = 0,
     max_bytes = 600, max_entries = 2 \<rparr>"

lemma empty_cache_ok: "cache_ok empty_cache"
  by (simp add: cache_ok_def empty_cache_def linked_def queue_def booked_def counted_def refs_def)

lemma sample_fits: "fits child_key 8" "fits parent_key 8"
  by (simp_all add: fits_def child_key_def parent_key_def usize_max_def)

theorem cache_put_keeps_witness:
  "case cache_put empty_cache child_key 7 8 of Ok c' \<Rightarrow> put_promise empty_cache child_key 7 c' | _ \<Rightarrow> False"
  by (rule cache_put_keeps [OF empty_cache_ok sample_fits(1)])

subsection \<open>Batches\<close>

lemma get_sound:
  assumes "sound downcast F c"
  shows "sound downcast F (snd (cache_get downcast c key))"
    and "case fst (cache_get downcast c key) of None \<Rightarrow> True | Some v \<Rightarrow> v = F (kid key)"
proof -
  have t: "sound downcast F (touched c)"
    using assms by (cases "tick c = u64_max") (simp_all add: sound_def touched_def clear_def)
  show "sound downcast F (snd (cache_get downcast c key))"
    using t unfolding cache_get_def touch_touched sound_def
    by (auto simp: Let_def split: option.splits if_splits)
  show "case fst (cache_get downcast c key) of None \<Rightarrow> True | Some v \<Rightarrow> v = F (kid key)"
    using t unfolding cache_get_def touch_touched sound_def
    by (auto simp: Let_def split: option.splits)
qed

lemma get_all_sound:
  assumes "cache_ok c" "sound downcast F c" "get_all downcast c keys = (out, c')"
  shows "cache_ok c'" "sound downcast F c'" "length out = length keys"
    "\<And>i. i < length keys \<Longrightarrow> out ! i = None \<or> out ! i = Some (F (kid (keys ! i)))"
proof -
  have "cache_ok c' \<and> sound downcast F c'
      \<and> list_all2 (\<lambda>v k. v = None \<or> v = Some (F (kid k))) out keys"
    using assms
  proof (induction keys arbitrary: c out c')
    case (Cons k ks)
    obtain v d where g: "cache_get downcast c k = (v, d)" by (rule prod.exhaust)
    obtain vs d' where r: "get_all downcast d ks = (vs, d')" by (rule prod.exhaust)
    have "cache_ok d" "sound downcast F d" "v = None \<or> v = Some (F (kid k))"
      using cache_get_ok [OF Cons.prems(1), of downcast k] get_sound [OF Cons.prems(2), of k] g
      by (auto split: option.splits)
    moreover have "cache_ok d'" "sound downcast F d'" "list_all2 (\<lambda>v k. v = None \<or> v = Some (F (kid k))) vs ks"
      using Cons.IH [OF calculation(1,2) r] by auto
    ultimately show ?case using Cons.prems(3) g r by auto
  qed auto
  then show "cache_ok c'" "sound downcast F c'" "length out = length keys"
    "\<And>i. i < length keys \<Longrightarrow> out ! i = None \<or> out ! i = Some (F (kid (keys ! i)))"
    by (auto simp: list_all2_conv_all_nth)
qed

lemma promise_sound:
  assumes "put_promise c key v c'" "sound downcast F c" "downcast v = Some (F (kid key))"
  shows "sound downcast F c'"
  using assms unfolding put_promise_def sound_def by (metis option.inject)

lemma put_built_all:
  assumes any: "\<And>x. downcast (any x) = Some x"
    and fit: "\<And>k. k \<in> set keys \<Longrightarrow> fits k (sizes (F (kid k)))"
  shows "set is \<subseteq> {..<length keys} \<Longrightarrow> length out = length keys
    \<Longrightarrow> (\<And>i. i < length keys \<Longrightarrow> out ! i = Some (F (kid (keys ! i))) \<or> i \<in> set is)
    \<Longrightarrow> cache_ok c \<Longrightarrow> sound downcast F c
    \<Longrightarrow> \<exists>c'. fold_res (put_built any sizes keys) (out, c) (zip is (map (\<lambda>i. F (kid (keys ! i))) is))
           = Ok (map (\<lambda>k. Some (F (kid k))) keys, c') \<and> cache_ok c' \<and> sound downcast F c'"
proof (induction "is" arbitrary: out c)
  case Nil
  then have "out = map (\<lambda>k. Some (F (kid k))) keys" by (auto simp: list_eq_iff_nth_eq)
  with Nil show ?case by simp
next
  case (Cons i js)
  let ?v = "F (kid (keys ! i))"
  have i: "i < length keys" using Cons.prems(1) by simp
  from cache_put_promise [OF Cons.prems(4) fit] i
  obtain d where d: "cache_put c (keys ! i) (any ?v) (sizes ?v) = Ok d" "put_promise c (keys ! i) (any ?v) d"
    by (metis nth_mem)
  have "sound downcast F d" by (rule promise_sound [OF d(2) Cons.prems(5)]) (simp add: any)
  moreover have "cache_ok d" using d(2) by (simp add: put_promise_def)
  moreover have "out[i := Some ?v] ! j = Some (F (kid (keys ! j))) \<or> j \<in> set js" if "j < length keys" for j
    using Cons.prems(2) Cons.prems(3) [OF that] that by (cases "j = i") auto
  ultimately obtain c' where "fold_res (put_built any sizes keys) (out[i := Some ?v], d)
      (zip js (map (\<lambda>i. F (kid (keys ! i))) js)) = Ok (map (\<lambda>k. Some (F (kid k))) keys, c')"
    "cache_ok c'" "sound downcast F c'"
    using Cons.IH [of "out[i := Some ?v]" d] Cons.prems(1,2) by auto
  with d(1) show ?case by (simp add: put_built_def)
qed

text \<open>
  C21. The cache is transparent: when the values it holds are the node function's, a batch whose
  builder computes the node function of the missing keys returns the node function of every key
  asked for, in order, whatever was cached, evicted or refused on the way, and leaves the cache
  well formed and its values the node function's.
\<close>

theorem cache_batch_transparent:
  assumes "cache_ok c" "sound downcast F c"
    and "\<forall>x. downcast (any x) = Some x"
    and "\<forall>is. build is = Ok (map (\<lambda>i. F (kid (keys ! i))) is)"
    and "\<forall>k \<in> set keys. fits k (sizes (F (kid k)))"
  shows "case cache_batch downcast any sizes build stage keys stats c of (r, stats', c') \<Rightarrow>
     r = Ok (map (\<lambda>k. F (kid k)) keys) \<and> cache_ok c' \<and> sound downcast F c'"
proof -
  obtain out d where g: "get_all downcast c keys = (out, d)" by (rule prod.exhaust)
  note G = get_all_sound [OF assms(1,2) g]
  have miss: "set (missing_of out) = {i. i < length keys \<and> out ! i = None}"
    using G(3) by (auto simp: missing_of_def)
  have hit: "out ! i = Some (F (kid (keys ! i))) \<or> i \<in> set (missing_of out)" if "i < length keys" for i
    using G(4) [OF that] that unfolding miss by blast
  show ?thesis
  proof (cases "missing_of out = []")
    case True
    then have "set (missing_of out) = {}" by simp
    then have "out ! i = Some (F (kid (keys ! i)))" if "i < length keys" for i using hit [OF that] by simp
    then have "out = map (\<lambda>k. Some (F (kid k))) keys"
      by (intro nth_equalityI) (simp_all add: G(3))
    with True G(1,2) show ?thesis by (simp add: cache_batch_def g Let_def comp_def)
  next
    case False
    have "set (missing_of out) \<subseteq> {..<length keys}" using miss by auto
    then obtain c' where c': "fold_res (put_built any sizes keys) (out, d)
        (zip (missing_of out) (map (\<lambda>i. F (kid (keys ! i))) (missing_of out)))
        = Ok (map (\<lambda>k. Some (F (kid k))) keys, c')" "cache_ok c'" "sound downcast F c'"
      using put_built_all [of downcast any keys sizes F, OF spec [OF assms(3)] bspec [OF assms(5)] _ G(3) hit G(1,2)]
      by blast
    have "None \<notin> set (map (\<lambda>k. Some (F (kid k))) keys)" by auto
    with False c' assms(4) show ?thesis
      by (simp add: cache_batch_def g Let_def comp_def image_iff)
  qed
qed

theorem cache_batch_transparent_witness:
  "case cache_batch Some (\<lambda>x. x) (\<lambda>_. 8) (\<lambda>is. Ok (map (\<lambda>i. length (ident_parents (kid ([parent_key, child_key] ! i)))) is))
     ''s'' [parent_key, child_key] (\<lambda>_. None) empty_cache of (r, stats', c') \<Rightarrow>
     r = Ok (map (\<lambda>k. length (ident_parents (kid k))) [parent_key, child_key])
     \<and> cache_ok c' \<and> sound Some (\<lambda>k. length (ident_parents k)) c'"
  by (rule cache_batch_transparent [OF empty_cache_ok])
    (use sample_fits in \<open>simp_all add: sound_def empty_cache_def\<close>)

end
