(* ===== verification/Consumer_Contracts.thy ===== *)
theory Consumer_Contracts
  imports Dated_Cashflow
begin

text \<open>
  The contracts shared by the consumer products,
  \<open>portfolio-model-core/src/products/consumer/contracts.rs\<close>: identities, states, cash and
  recognition events, and the checks on amounts, fractions, rates, labels and dates. Errors are
  the texts the code returns.
\<close>

definition MAX_CONSUMER_EVENTS :: usize where
  "MAX_CONSUMER_EVENTS = 4096"

definition MAX_CONSUMER_DAYS :: nat where
  "MAX_CONSUMER_DAYS = 36600"

record ConsumerIdentity =
  position_ident :: string
  original_loan_id :: string
  cohort_id :: string
  identity_currency :: string
  source_revision :: string
  model_version :: string
  assumption_id :: string
  run_id :: string
  identity_measure :: CashflowMeasure

datatype ConsumerState = Performing | Delinquent | Nonaccrual | Default | PaidOff

record ConsumerCashEvent =
  cash_event_id :: string
  cash_ordinal :: i32
  cash_kind :: string
  cash_principal :: f64
  cash_interest_part :: f64
  cash_fees :: f64

record ConsumerRecognition =
  origin_id :: string
  recognition_start :: i32
  recognition_end :: i32
  recognition_interest :: f64

record ConsumerDefault =
  default_ordinal :: i32
  default_principal :: f64
  default_accrued_interest :: f64
  recognized_accrued_interest :: f64
  unrecognized_contract_interest :: f64
  default_fees :: f64
  gross_recovery :: f64
  recovery_cost :: f64
  net_recovery :: f64
  principal_loss :: f64
  recovery_ordinal :: i32

text \<open>\<open>(0.0..=MAX).contains(&v)\<close> is false for \<open>NaN\<close>.\<close>

definition amount_ok :: "f64 \<Rightarrow> bool" where
  "amount_ok v \<longleftrightarrow> \<not> (\<not> is_finite v \<or> \<not> (0 \<le> v \<and> v \<le> MAX_MONETARY_AMOUNT))"

definition amount :: "f64 \<Rightarrow> string \<Rightarrow> (string, unit) result" where
  "amount v name = require (amount_ok v) (name @ '' must be finite in monetary bounds'') (Ok ())"

definition fraction :: "f64 \<Rightarrow> string \<Rightarrow> (string, unit) result" where
  "fraction v name = require (\<not> (\<not> is_finite v \<or> \<not> (0 \<le> v \<and> v \<le> 1))) (name @ '' must be in [0,1]'') (Ok ())"

definition consumer_rate :: "f64 \<Rightarrow> (string, unit) result" where
  "consumer_rate v = require (\<not> (\<not> is_finite v \<or> \<not> (0 \<le> v \<and> v \<le> f64_of_int 2)))
     ''consumer rate must be finite in [0,2]'' (Ok ())"

definition label :: "string \<Rightarrow> (string, unit) result" where
  "label v = require (\<not> (all_white v \<or> 256 < length v \<or> has_control v))
     ''consumer identity must be nonblank, bounded and free of control characters'' (Ok ())"

definition consumer_identity :: "ConsumerIdentity \<Rightarrow> string \<Rightarrow> (string, unit) result" where
  "consumer_identity v version =
     and_then (for_each [position_ident v, original_loan_id v, cohort_id v, identity_currency v,
        source_revision v, model_version v, assumption_id v, run_id v] label) (\<lambda>_.
     require (\<not> model_version v \<noteq> version) ''consumer model version mismatch''
    (require (identity_measure v \<noteq> Contractual)
       ''consumer path requires explicit physical or pricing measure'' (Ok ())))"

definition horizon :: "i32 \<Rightarrow> nat \<Rightarrow> (string, i32) result" where
  "horizon as_of days =
     and_then (validate_ordinal as_of) (\<lambda>_.
     require (\<not> MAX_CONSUMER_DAYS < days) ''consumer horizon exceeds 36600 days''
    (and_then (ok_or (i32_checked_add as_of (i32_of_u32 days)) ''consumer date overflow'') (\<lambda>end_day.
     and_then (validate_ordinal end_day) (\<lambda>_. Ok end_day))))"

definition consumer_day_count :: "ActualDayCount \<Rightarrow> (string, unit) result" where
  "consumer_day_count v = require (v = Act360 \<or> v = Act365Fixed)
     ''consumer simple interest supports explicit ACT360 or ACT365F only'' (Ok ())"

section \<open>What the checks establish\<close>

lemma contract_checks_Ok [simp]:
  "amount v name = Ok () \<longleftrightarrow> amount_ok v"
  "fraction v name = Ok () \<longleftrightarrow> is_finite v \<and> 0 \<le> v \<and> v \<le> 1"
  "consumer_rate v = Ok () \<longleftrightarrow> is_finite v \<and> 0 \<le> v \<and> v \<le> f64_of_int 2"
  by (auto simp: amount_def fraction_def consumer_rate_def)

lemma contract_checks_no_Panic [simp]:
  "amount v name \<noteq> Panic" "fraction v name \<noteq> Panic" "consumer_rate v \<noteq> Panic"
  "label s \<noteq> Panic" "consumer_day_count c \<noteq> Panic" "consumer_identity i version \<noteq> Panic"
  by (auto simp: amount_def fraction_def consumer_rate_def label_def consumer_day_count_def consumer_identity_def)

lemma horizon_no_Panic [simp]: "horizon as_of days \<noteq> Panic"
  by (auto simp: horizon_def)

lemma horizon_Ok: "horizon as_of days = Ok e \<Longrightarrow>
    1 \<le> as_of \<and> as_of \<le> MAX_ORDINAL \<and> e = as_of + int days \<and> days \<le> MAX_CONSUMER_DAYS \<and> e \<le> MAX_ORDINAL"
  by (auto simp: horizon_def i32_of_u32_def MAX_CONSUMER_DAYS_def i32_checked_add_def split: if_splits)

text \<open>A monetary amount, in real numbers.\<close>

lemma cap_val: "is_finite MAX_MONETARY_AMOUNT" "val MAX_MONETARY_AMOUNT = 10 ^ 15"
  using int_val [of "10 ^ 15"] by (simp_all add: MAX_MONETARY_AMOUNT_def)

lemma amount_ok_val: "amount_ok v \<longleftrightarrow> is_finite v \<and> 0 \<le> val v \<and> val v \<le> 10 ^ 15"
  using cap_val by (auto simp: amount_ok_def)

end
