(* ===== verification/Consumer_Amounts.thy ===== *)
theory Consumer_Amounts
  imports Consumer_Contracts
begin

text \<open>
  Lemmas the consumer products share: decimal identities are injective, amounts up to two to the 53
  survive the operations of a payment waterfall, and whole amounts survive them exactly.
\<close>

section \<open>Decimal identities\<close>

fun undigits :: "nat \<Rightarrow> string \<Rightarrow> nat" where
  "undigits n [] = n"
| "undigits n (c # s) = undigits (10 * n + (of_char c - 48)) s"

lemma undigits_append: "undigits n (s @ t) = undigits (undigits n s) t"
  by (induction s arbitrary: n) auto

lemma undigits_digits: "undigits 0 (digits n) = n"
proof (induction n rule: digits.induct)
  case (1 n)
  have d: "of_char (char_of (48 + k) :: char) = 48 + k" if "k < 10" for k :: nat
    using that by simp
  show ?case
  proof (cases "n < 10")
    case True
    then show ?thesis by (subst digits.simps) (simp add: d)
  next
    case False
    then show ?thesis using 1 by (subst digits.simps) (simp add: undigits_append d)
  qed
qed

lemma digits_inj: "digits m = digits n \<longleftrightarrow> m = n"
  using undigits_digits by metis

section \<open>Amounts of a waterfall\<close>

definition small :: "f64 \<Rightarrow> bool" where
  "small x \<longleftrightarrow> is_finite x \<and> 0 \<le> val x \<and> val x \<le> 2 ^ 53"

lemma amount_small: "amount_ok x \<Longrightarrow> small x"
  by (simp add: amount_ok_val small_def)

lemma zero_small: "small 0"
  by (simp add: small_def)

lemma small_bound: "(2 :: real) ^ 53 \<in> dbl" "(2 :: real) ^ 53 < huge"
  using dbl_p2 [of 53] by (simp_all add: power_int_def huge_def)

lemma small_sub:
  assumes "small x" "small y" "val y \<le> val x"
  shows "small (x - y)" and "val (x - y) = rnd (val x - val y)"
proof -
  have "\<bar>val x - val y\<bar> \<le> 2 ^ 53" using assms by (simp add: small_def)
  from rounds_to_bound [OF sub_rounds this small_bound] assms
  have r: "is_finite (x - y)" "val (x - y) = rnd (val x - val y)" "\<bar>val (x - y)\<bar> \<le> 2 ^ 53"
    by (auto simp: small_def)
  then show "val (x - y) = rnd (val x - val y)" by simp
  have "0 \<le> rnd (val x - val y)" using assms(3) by (intro rne.rd_nonneg) simp
  with r show "small (x - y)" by (simp add: small_def)
qed

lemma small_min: "small x \<Longrightarrow> small y \<Longrightarrow> small (fmin x y) \<and> val (fmin x y) = min (val x) (val y)"
  using fmin_val [of x y] by (auto simp: small_def)

lemma small_max0: "small x \<Longrightarrow> small (fmax x 0) \<and> val (fmax x 0) = val x"
  using fmax_val [of x 0] by (auto simp: small_def)

text \<open>One level of the waterfall: what is paid on a debt of \<open>owed\<close> and what is left to pay with.\<close>

definition left_over :: "f64 \<Rightarrow> f64 \<Rightarrow> f64" where
  "left_over rest owed = fmax (rest - fmin rest owed) 0"

lemma level:
  assumes "small rest" "small owed"
  shows "small (fmin rest owed)" "val (fmin rest owed) = min (val rest) (val owed)"
    and "small (owed - fmin rest owed)" "small (left_over rest owed)"
    and "val (left_over rest owed) = rnd (val rest - min (val rest) (val owed))"
    and "val (owed - fmin rest owed) = rnd (val owed - min (val rest) (val owed))"
    and "0 < val (left_over rest owed) \<Longrightarrow> val (owed - fmin rest owed) = 0"
proof -
  note m = small_min [OF assms]
  show "small (fmin rest owed)" and v: "val (fmin rest owed) = min (val rest) (val owed)" using m by auto
  have le: "val (fmin rest owed) \<le> val rest" "val (fmin rest owed) \<le> val owed" using v by auto
  note a = small_sub [OF assms(1) conjunct1 [OF m] le(1)] and b = small_sub [OF assms(2) conjunct1 [OF m] le(2)]
  show "small (owed - fmin rest owed)" by (rule b(1))
  show "small (left_over rest owed)" using small_max0 [OF a(1)] by (simp add: left_over_def)
  show l: "val (left_over rest owed) = rnd (val rest - min (val rest) (val owed))"
    using small_max0 [OF a(1)] a(2) v by (simp add: left_over_def)
  show o: "val (owed - fmin rest owed) = rnd (val owed - min (val rest) (val owed))"
    using b(2) v by simp
  show "0 < val (left_over rest owed) \<Longrightarrow> val (owed - fmin rest owed) = 0"
    using l o by (auto simp: min_def split: if_splits)
qed

lemma small_of_int: "0 \<le> k \<Longrightarrow> k \<le> 2 ^ 53 \<Longrightarrow> small (f64_of_int k)"
  using int_val [of k] of_int_le_iff [of k "2 ^ 53", where ?'a = real] by (simp add: small_def)

text \<open>Adding the tolerance \<open>1e-9\<close> never makes an amount smaller.\<close>

lemma nano_slack:
  assumes "small x" "f64_ok x"
  shows "is_finite (x + f64_lit 1 (10 ^ 9))" "val x \<le> val (x + f64_lit 1 (10 ^ 9))"
proof -
  let ?n = "f64_lit 1 (10 ^ 9)"
  have "rounds_to ?n (1 / 10 ^ 9)" using lit_rounds [of "10 ^ 9" 1] by simp
  moreover have "\<bar>(1 :: real) / 10 ^ 9\<bar> \<le> 2 ^ 53" by simp
  ultimately have o: "is_finite ?n" "0 \<le> val ?n" "val ?n \<le> 2 ^ 53"
    using rounds_to_bound [OF _ _ small_bound] rne.rd_nonneg [of "1 / 10 ^ 9"] by fastforce+
  then have "\<bar>val x + val ?n\<bar> \<le> 2 ^ 54" using assms(1) by (simp add: small_def)
  moreover have "(2 :: real) ^ 54 \<in> dbl" "(2 :: real) ^ 54 < huge"
    using dbl_p2 [of 54] by (simp_all add: power_int_def huge_def)
  ultimately have "is_finite (x + ?n)" "val (x + ?n) = rnd (val x + val ?n)"
    using rounds_to_bound [OF add_rounds [of x ?n]] o(1) assms(1) by (simp_all add: small_def)
  moreover have "val x \<le> rnd (val x + val ?n)"
    using val_dbl [OF assms(2)] o(2) by (intro rne.rd_ge) simp_all
  ultimately show "is_finite (x + ?n)" "val x \<le> val (x + ?n)" by simp_all
qed

section \<open>Whole amounts\<close>

text \<open>The amount of a whole number of units.\<close>

definition whole :: "f64 \<Rightarrow> int \<Rightarrow> bool" where
  "whole x k \<longleftrightarrow> is_finite x \<and> val x = of_int k \<and> 0 \<le> k \<and> k \<le> 10 ^ 15"

lemma rnd_int: "\<bar>k\<bar> \<le> 2 ^ 53 \<Longrightarrow> rnd (of_int k) = of_int k"
  using dbl_int [of k] by (simp add: rne.rd_exact)

lemma whole_small: "whole x k \<Longrightarrow> small x"
  using of_int_le_iff [of k "10 ^ 15", where ?'a = real] by (simp add: whole_def small_def)

lemma whole_add: "whole x a \<Longrightarrow> whole y b \<Longrightarrow> a + b \<le> 10 ^ 15 \<Longrightarrow> whole (x + y) (a + b)"
  using exact_add [of x y a b] by (simp add: whole_def)

lemma whole_sub: "whole x a \<Longrightarrow> whole y b \<Longrightarrow> b \<le> a \<Longrightarrow> whole (x - y) (a - b)"
  using small_sub [of x y] rnd_int [of "a - b"] whole_small [of x a] whole_small [of y b]
  by (simp add: whole_def small_def)

lemma whole_level:
  assumes "whole rest m" "whole owed k" "k \<le> m"
  shows "whole (left_over rest owed) (m - k)" "whole (owed - fmin rest owed) 0"
proof -
  note l = level [OF whole_small [OF assms(1)] whole_small [OF assms(2)]]
  have "min (val rest) (val owed) = of_int k" using assms by (simp add: whole_def min_def)
  moreover have "rnd (of_int (m - k)) = of_int (m - k)" using assms by (intro rnd_int) (simp add: whole_def)
  ultimately show "whole (left_over rest owed) (m - k)" "whole (owed - fmin rest owed) 0"
    using l(3-6) assms by (auto simp: whole_def small_def)
qed

lemma whole_of_integer: "0 \<le> k \<Longrightarrow> k \<le> 10 ^ 15 \<Longrightarrow> whole (f64_of_int k) k"
  using int_val [of k] by (simp add: whole_def)

end
