(* ===== verification/Installment_State.thy ===== *)
theory Installment_State
  imports Consumer_Amounts
begin

text \<open>
  Fixed-rate instalment loans, \<open>portfolio-model-core/src/products/installment/state.rs\<close>: the
  projection of one loan over its payment dates, explicit actions and horizon. The local variables
  of \<open>project\<close> are the record \<open>Loan\<close>, the body of its day loop \<open>day_step\<close>, split where the source
  changes phase. \<open>f64::powf\<close>, whose result the Rust library leaves unspecified, is the parameter
  \<open>powf\<close>. The \<open>BTreeSet\<close> of days is the sorted list of its elements, the \<open>BTreeMap\<close> of actions the
  last action of a day.
\<close>

section \<open>Requests and results\<close>

definition INSTALLMENT_SCHEMA :: string where
  "INSTALLMENT_SCHEMA = ''consumer-installment-1''"

record AutoTerms =
  new_vehicle :: bool
  auto_vintage_ordinal :: i32
  original_ltv :: f64
  auto_channel :: string
  collateral_value_as_of :: f64
  annual_depreciation :: f64
  sale_haircut :: f64
  repossession_cost :: f64
  auto_recovery_delay_days :: nat

record PersonalTerms =
  personal_vintage_ordinal :: i32
  dti :: f64
  dti_definition :: string
  personal_channel :: string
  collection_fraction :: f64
  collection_cost :: f64
  personal_recovery_delay_days :: nat

datatype InstallmentProduct = Auto AutoTerms | Personal PersonalTerms

datatype InstallmentAction =
    Payment f64
  | Payoff
  | SetState ConsumerState
  | DefaultAction
  | ChangePayment f64
  | Fee f64

record InstallmentStep =
  step_ordinal :: i32
  step_action :: InstallmentAction

record InstallmentRequest =
  request_schema :: string
  request_identity :: ConsumerIdentity
  product :: InstallmentProduct
  request_as_of :: i32
  request_horizon_days :: nat
  original_principal :: f64
  opening_principal :: f64
  opening_accrued_interest :: f64
  opening_unrecognized_interest :: f64
  opening_fees :: f64
  initial_state :: ConsumerState
  note_rate :: f64
  disclosed_apr :: f64
  request_day_count :: ActualDayCount
  original_payment :: f64
  payment_dates :: "i32 list"
  prepayment_penalty_fraction :: f64
  accrue_contract_interest_in_nonaccrual :: bool
  request_steps :: "InstallmentStep list"

record InstallmentPoint =
  point_ordinal :: i32
  point_state :: ConsumerState
  point_principal :: f64
  point_accrued_interest :: f64
  point_unrecognized_interest :: f64
  point_fees :: f64
  point_scheduled_payment :: f64

record InstallmentResult =
  result_schema :: string
  result_identity :: ConsumerIdentity
  result_original_principal :: f64
  result_original_payment :: f64
  result_disclosed_apr :: f64
  result_payment_dates :: "i32 list"
  cashflows :: "ConsumerCashEvent list"
  recognition :: "ConsumerRecognition list"
  points :: "InstallmentPoint list"
  result_default :: "ConsumerDefault option"
  principal_collected :: f64
  closing_principal :: f64
  closing_accrued_interest :: f64
  closing_unrecognized_interest :: f64
  closing_fees :: f64

section \<open>Admission\<close>

definition vintage :: "i32 \<Rightarrow> i32 \<Rightarrow> (string, unit) result" where
  "vintage v as_of = and_then (validate_ordinal v) (\<lambda>_.
     require (\<not> as_of < v) ''vintage follows valuation'' (Ok ()))"

definition ten :: f64 where
  "ten = f64_of_int 10"

definition validate_auto :: "InstallmentRequest \<Rightarrow> AutoTerms \<Rightarrow> (string, unit) result" where
  "validate_auto r a =
     and_then (vintage (auto_vintage_ordinal a) (request_as_of r)) (\<lambda>_.
     and_then (label (auto_channel a)) (\<lambda>_.
     require (\<not> (\<not> is_finite (original_ltv a) \<or> \<not> (0 \<le> original_ltv a \<and> original_ltv a \<le> ten)
               \<or> feq (original_ltv a) 0)) ''original auto LTV must be supplied in (0,10]''
    (and_then (amount (collateral_value_as_of a) ''collateral'') (\<lambda>_.
     and_then (amount (repossession_cost a) ''repossession cost'') (\<lambda>_.
     and_then (fraction (annual_depreciation a) ''depreciation'') (\<lambda>_.
     and_then (fraction (sale_haircut a) ''sale haircut'') (\<lambda>_.
     require (\<not> MAX_CONSUMER_DAYS < auto_recovery_delay_days a) ''recovery delay exceeds admission''
       (Ok ()))))))))"

definition validate_personal :: "InstallmentRequest \<Rightarrow> PersonalTerms \<Rightarrow> (string, unit) result" where
  "validate_personal r p =
     and_then (vintage (personal_vintage_ordinal p) (request_as_of r)) (\<lambda>_.
     and_then (label (personal_channel p)) (\<lambda>_.
     and_then (label (dti_definition p)) (\<lambda>_.
     require (\<not> (\<not> is_finite (dti p) \<or> \<not> (0 \<le> dti p \<and> dti p \<le> ten)))
       ''personal DTI must be supplied in [0,10]''
    (and_then (fraction (collection_fraction p) ''collection fraction'') (\<lambda>_.
     and_then (amount (collection_cost p) ''collection cost'') (\<lambda>_.
     require (\<not> MAX_CONSUMER_DAYS < personal_recovery_delay_days p) ''recovery delay exceeds admission''
       (Ok ())))))))"

definition admit_date :: "i32 \<Rightarrow> i32 \<Rightarrow> i32 \<Rightarrow> (string, i32) result" where
  "admit_date fin prev d = and_then (validate_ordinal d) (\<lambda>_.
     require (\<not> (d \<le> prev \<or> fin < d))
       ''payment dates must be strictly ordered after valuation and within full horizon'' (Ok d))"

definition admit_action :: "InstallmentAction \<Rightarrow> (string, unit) result" where
  "admit_action a = (case a of
     Payment v \<Rightarrow> amount v ''action amount''
   | ChangePayment v \<Rightarrow> amount v ''action amount''
   | Fee v \<Rightarrow> amount v ''action amount''
   | SetState s \<Rightarrow> require (s \<noteq> Default \<and> s \<noteq> PaidOff)
       ''terminal states require economic default/payoff action'' (Ok ())
   | _ \<Rightarrow> Ok ())"

definition admit_step :: "i32 \<Rightarrow> i32 \<Rightarrow> i32 set \<Rightarrow> InstallmentStep \<Rightarrow> (string, i32 set) result" where
  "admit_step as_of fin seen s = and_then (validate_ordinal (step_ordinal s)) (\<lambda>_.
     require (\<not> (step_ordinal s < as_of \<or> fin < step_ordinal s \<or> step_ordinal s \<in> seen))
       ''actions require unique dates within full horizon''
      (and_then (admit_action (step_action s)) (\<lambda>_. Ok (insert (step_ordinal s) seen))))"

definition terminal :: "ConsumerState \<Rightarrow> bool" where
  "terminal s \<longleftrightarrow> s = Default \<or> s = PaidOff"

definition validate_amounts :: "InstallmentRequest \<Rightarrow> (string, unit) result" where
  "validate_amounts r = for_each
     [(original_principal r, ''original principal''), (opening_principal r, ''opening principal''),
      (opening_accrued_interest r, ''opening interest''),
      (opening_unrecognized_interest r, ''opening unrecognized interest''),
      (opening_fees r, ''opening fees''), (original_payment r, ''original payment'')]
     (\<lambda>(v, name). amount v name)"

definition validate :: "InstallmentRequest \<Rightarrow> (string, unit) result" where
  "validate r =
     require (\<not> request_schema r \<noteq> INSTALLMENT_SCHEMA) ''installment schema mismatch''
    (and_then (consumer_identity (request_identity r) INSTALLMENT_SCHEMA) (\<lambda>_.
     and_then (horizon (request_as_of r) (request_horizon_days r)) (\<lambda>fin.
     and_then (consumer_day_count (request_day_count r)) (\<lambda>_.
     and_then (consumer_rate (note_rate r)) (\<lambda>_.
     and_then (consumer_rate (disclosed_apr r)) (\<lambda>_.
     and_then (validate_amounts r) (\<lambda>_.
     require (\<not> (original_principal r < opening_principal r \<or> feq (original_principal r) 0
               \<or> feq (original_payment r) 0)) ''installment principal/payment lineage invalid''
    (and_then (amount (opening_principal r + opening_accrued_interest r
                 + opening_unrecognized_interest r + opening_fees r) ''opening installment obligation'') (\<lambda>_.
     require (\<not> terminal (initial_state r)) ''initial installment state must be live''
    (and_then (fraction (prepayment_penalty_fraction r) ''prepayment penalty'') (\<lambda>_.
     require (\<not> (payment_dates r = [] \<or> MAX_CONSUMER_EVENTS < length (payment_dates r)
               \<or> MAX_CONSUMER_EVENTS < length (request_steps r)
               \<or> MAX_CONSUMER_EVENTS < length (payment_dates r) + length (request_steps r)))
       ''installment event admission exceeded''
    (and_then (fold_res (admit_date fin) (request_as_of r) (payment_dates r)) (\<lambda>_.
     and_then (fold_res (admit_step (request_as_of r) fin) {} (request_steps r)) (\<lambda>_.
     case product r of Auto a \<Rightarrow> validate_auto r a | Personal p \<Rightarrow> validate_personal r p))))))))))))))"

section \<open>The projection\<close>

record Loan =
  balance :: f64
  interest :: f64
  unrecognized :: f64
  fees_due :: f64
  loan_state :: ConsumerState
  payment_now :: f64
  previous :: i32
  collected :: f64
  cash_events :: "ConsumerCashEvent list"
  recognised :: "ConsumerRecognition list"
  loan_points :: "InstallmentPoint list"
  defaulted :: "ConsumerDefault option"

definition opening_loan :: "InstallmentRequest \<Rightarrow> Loan" where
  "opening_loan r = \<lparr> balance = opening_principal r, interest = opening_accrued_interest r,
     unrecognized = opening_unrecognized_interest r, fees_due = opening_fees r,
     loan_state = initial_state r, payment_now = original_payment r, previous = request_as_of r,
     collected = 0, cash_events = [], recognised = [], loan_points = [], defaulted = None \<rparr>"

definition debt :: "Loan \<Rightarrow> f64" where
  "debt p = balance p + interest p + unrecognized p + fees_due p"

definition accrue :: "InstallmentRequest \<Rightarrow> Loan \<Rightarrow> i32 \<Rightarrow> (string, Loan) result" where
  "accrue r p day =
     (if previous p < day \<and> 0 < balance p \<and> \<not> terminal (loan_state p) then
        and_then (actual_year_fraction (previous p) day (request_day_count r)) (\<lambda>years.
        let earned = balance p * note_rate r * years in
        and_then (amount earned ''interval interest'') (\<lambda>_.
        Ok (if loan_state p = Nonaccrual then
              if accrue_contract_interest_in_nonaccrual r
              then p \<lparr> unrecognized := unrecognized p + earned \<rparr> else p
            else let p = p \<lparr> interest := interest p + earned \<rparr> in
              if \<not> feq earned 0
              then p \<lparr> recognised := recognised p @ [\<lparr> origin_id = ''interest-'' @ digits (length (recognised p)),
                     recognition_start = previous p, recognition_end = day,
                     recognition_interest = earned \<rparr>] \<rparr>
              else p)))
      else Ok p)"

definition recovery :: "(f64 \<Rightarrow> f64 \<Rightarrow> f64) \<Rightarrow> InstallmentRequest \<Rightarrow> i32 \<Rightarrow> f64
    \<Rightarrow> (string, f64 \<times> f64 \<times> nat) result" where
  "recovery powf r day bal =
     and_then (case product r of
       Auto a \<Rightarrow>
         and_then (ok_or (i32_checked_add day (i32_of_u32 (auto_recovery_delay_days a))) ''recovery date overflow'') (\<lambda>sale_day.
         and_then (i32_sub sale_day (request_as_of r)) (\<lambda>d.
         let years = f64_of_int d / f64_of_int 365 in
         Ok (collateral_value_as_of a * powf (1 - annual_depreciation a) years * (1 - sale_haircut a),
             repossession_cost a, auto_recovery_delay_days a)))
     | Personal p \<Rightarrow> Ok (bal * collection_fraction p, collection_cost p, personal_recovery_delay_days p))
     (\<lambda>out. and_then (amount (fst out) ''gross recovery'') (\<lambda>_. Ok out))"

definition write_off :: "(f64 \<Rightarrow> f64 \<Rightarrow> f64) \<Rightarrow> InstallmentRequest \<Rightarrow> i32 \<Rightarrow> i32 \<Rightarrow> Loan \<Rightarrow> (string, Loan) result" where
  "write_off powf r fin day p =
     and_then (recovery powf r day (balance p)) (\<lambda>(gross, cost, delay).
     let net = fmin (fmax (gross - cost) 0) (balance p) in
     and_then (ok_or (i32_checked_add day (i32_of_u32 delay)) ''recovery date overflow'') (\<lambda>recovery_date.
     require (\<not> fin < recovery_date) ''full installment horizon must retain recovery tail''
      (let unreimbursed_cost = fmax (cost - gross) 0;
           p = p \<lparr> defaulted := Some \<lparr> default_ordinal = day, default_principal = balance p,
                 default_accrued_interest = interest p + unrecognized p,
                 recognized_accrued_interest = interest p,
                 unrecognized_contract_interest = unrecognized p, default_fees = fees_due p,
                 gross_recovery = gross, recovery_cost = cost, net_recovery = net,
                 principal_loss = balance p - net, recovery_ordinal = recovery_date \<rparr> \<rparr>;
           p = (if \<not> feq net 0 \<or> \<not> feq unreimbursed_cost 0
                then p \<lparr> cash_events := cash_events p @ [\<lparr> cash_event_id = ''recovery-0'', cash_ordinal = recovery_date,
                       cash_kind = ''recovery'', cash_principal = net, cash_interest_part = 0,
                       cash_fees = - unreimbursed_cost \<rparr>] \<rparr>
                else p)
       in Ok (p \<lparr> balance := 0, interest := 0, unrecognized := 0, fees_due := 0, loan_state := Default \<rparr>))))"

text \<open>The action of the day: the new state, the cash to apply and whether it is a payoff.\<close>

definition act :: "(f64 \<Rightarrow> f64 \<Rightarrow> f64) \<Rightarrow> InstallmentRequest \<Rightarrow> i32 \<Rightarrow> i32 \<Rightarrow> Loan \<Rightarrow> InstallmentAction option
    \<Rightarrow> (string, Loan \<times> f64 option \<times> bool) result" where
  "act powf r fin day p action = (case action of
     None \<Rightarrow> Ok (p, None, False)
   | Some a \<Rightarrow> (case a of
       DefaultAction \<Rightarrow> and_then (write_off powf r fin day p) (\<lambda>p. Ok (p, None, False))
     | Payoff \<Rightarrow> Ok (p, Some (debt p), True)
     | Payment v \<Rightarrow> Ok (p, Some v, False)
     | SetState s \<Rightarrow> Ok (p \<lparr> loan_state := s \<rparr>, None, False)
     | ChangePayment v \<Rightarrow> Ok (p \<lparr> payment_now := v \<rparr>, None, False)
     | Fee v \<Rightarrow> Ok (p \<lparr> fees_due := fees_due p + v \<rparr>, None, False)))"

definition scheduled :: "InstallmentRequest \<Rightarrow> i32 \<Rightarrow> Loan \<Rightarrow> f64 option \<Rightarrow> f64 option" where
  "scheduled r day p cash_payment =
     (if cash_payment = None \<and> day \<in> set (payment_dates r) \<and> loan_state p = Performing
      then Some (if payment_dates r \<noteq> [] \<and> last (payment_dates r) = day then debt p
                 else fmin (payment_now p) (debt p))
      else cash_payment)"

text \<open>\<open>1e-9\<close>.\<close>

definition overpay :: f64 where
  "overpay = f64_lit 1 (10 ^ 9)"

text \<open>
  The waterfall: fees, recognised interest, unrecognised interest, principal. The amounts paid are
  returned in this order.
\<close>

definition waterfall :: "i32 \<Rightarrow> Loan \<Rightarrow> f64 \<Rightarrow> Loan \<times> f64 \<times> f64 \<times> f64 \<times> f64" where
  "waterfall day p cash = (let
     paid_fees = fmin cash (fees_due p);
     rest = fmax (cash - paid_fees) 0;
     paid_interest = fmin rest (interest p);
     rest = fmax (rest - paid_interest) 0;
     paid_unrecognized = fmin rest (unrecognized p);
     principal_part = fmin (fmax (rest - paid_unrecognized) 0) (balance p)
     in (p \<lparr> fees_due := fees_due p - paid_fees, interest := interest p - paid_interest,
             unrecognized := unrecognized p - paid_unrecognized,
             recognised := recognised p @ (if \<not> feq paid_unrecognized 0
                then [\<lparr> origin_id = ''cash-basis-'' @ digits (length (recognised p)),
                        recognition_start = day, recognition_end = day,
                        recognition_interest = paid_unrecognized \<rparr>] else []),
             balance := balance p - principal_part, collected := collected p + principal_part \<rparr>,
         paid_fees, paid_interest, paid_unrecognized, principal_part))"

definition pay :: "InstallmentRequest \<Rightarrow> i32 \<Rightarrow> bool \<Rightarrow> Loan \<Rightarrow> f64 \<Rightarrow> (string, Loan) result" where
  "pay r day payoff p cash =
     require (\<not> (debt p + overpay < cash \<or> (feq (debt p) 0 \<and> \<not> feq cash 0)))
       ''payment exceeds outstanding payoff; credit balance unsupported''
      (case waterfall day p cash of (p, paid_fees, paid_interest, paid_unrecognized, principal_part) \<Rightarrow>
       let penalty = (if payoff then principal_part * prepayment_penalty_fraction r else 0) in
       and_then (amount penalty ''payoff penalty'') (\<lambda>_.
       and_then (amount (cash + penalty) ''cash payment plus penalty'') (\<lambda>_.
       let p = (if 0 < cash + penalty
                then p \<lparr> cash_events := cash_events p @ [\<lparr> cash_event_id = ''payment-'' @ digits (length (cash_events p)),
                       cash_ordinal = day, cash_kind = (if payoff then ''prepayment'' else ''payment''),
                       cash_principal = principal_part,
                       cash_interest_part = paid_interest + paid_unrecognized,
                       cash_fees = paid_fees + penalty \<rparr>] \<rparr>
                else p)
       in Ok (if feq (balance p) 0 \<and> feq (interest p + unrecognized p + fees_due p) 0
              then p \<lparr> loan_state := PaidOff \<rparr> else p))))"

definition close_day :: "i32 \<Rightarrow> Loan \<Rightarrow> (string, Loan) result" where
  "close_day day p =
     and_then (for_each [(balance p, ''balance''), (interest p, ''accrued interest''),
         (unrecognized p, ''unrecognized interest''), (fees_due p, ''fees'')] (\<lambda>(v, name). amount v name)) (\<lambda>_.
     and_then (amount (debt p) ''closing installment obligation'') (\<lambda>_.
     and_then (amount (collected p) ''cumulative installment principal payments'') (\<lambda>_.
     Ok (p \<lparr> loan_points := loan_points p @ [\<lparr> point_ordinal = day, point_state = loan_state p,
             point_principal = balance p, point_accrued_interest = interest p,
             point_unrecognized_interest = unrecognized p, point_fees = fees_due p,
             point_scheduled_payment = payment_now p \<rparr>] \<rparr>))))"

definition action_on :: "InstallmentRequest \<Rightarrow> i32 \<Rightarrow> InstallmentAction option" where
  "action_on r day = map_option step_action (last_by step_ordinal (request_steps r) day)"

definition day_step :: "(f64 \<Rightarrow> f64 \<Rightarrow> f64) \<Rightarrow> InstallmentRequest \<Rightarrow> i32 \<Rightarrow> Loan \<Rightarrow> i32 \<Rightarrow> (string, Loan) result" where
  "day_step powf r fin p day =
     and_then (accrue r p day) (\<lambda>p.
     let p = p \<lparr> previous := day \<rparr> in
     and_then (amount (debt p) ''total installment obligation'') (\<lambda>_.
     let action = action_on r day in
     require (\<not> (terminal (loan_state p) \<and> action \<noteq> None)) ''action after terminal consumer exit''
    (and_then (act powf r fin day p action) (\<lambda>(p, cash_payment, payoff).
     and_then (case scheduled r day p cash_payment of None \<Rightarrow> Ok p | Some cash \<Rightarrow> pay r day payoff p cash)
       (close_day day)))))"

definition days :: "InstallmentRequest \<Rightarrow> i32 \<Rightarrow> i32 list" where
  "days r fin = sort (remdups (payment_dates r @ map step_ordinal (request_steps r) @ [fin]))"

text \<open>\<open>1e-8_f64.max(opening * 1e-12)\<close>.\<close>

definition conserved :: "InstallmentRequest \<Rightarrow> Loan \<Rightarrow> bool" where
  "conserved r p \<longleftrightarrow> \<not> fmax (f64_lit 1 (10 ^ 8)) (opening_principal r * f64_lit 1 (10 ^ 12))
     < fabs (opening_principal r - collected p - balance p
         - (case defaulted p of None \<Rightarrow> 0 | Some d \<Rightarrow> default_principal d))"

definition project :: "(f64 \<Rightarrow> f64 \<Rightarrow> f64) \<Rightarrow> InstallmentRequest \<Rightarrow> (string, InstallmentResult) result" where
  "project powf r =
     and_then (validate r) (\<lambda>_.
     and_then (horizon (request_as_of r) (request_horizon_days r)) (\<lambda>fin.
     and_then (fold_res (day_step powf r fin) (opening_loan r) (days r fin)) (\<lambda>p.
     require (conserved r p) ''installment principal conservation failed''
      (Ok \<lparr> result_schema = INSTALLMENT_SCHEMA, result_identity = request_identity r,
            result_original_principal = original_principal r,
            result_original_payment = original_payment r, result_disclosed_apr = disclosed_apr r,
            result_payment_dates = payment_dates r,
            cashflows = sort_key cash_ordinal (cash_events p), recognition = recognised p,
            points = loan_points p, result_default = defaulted p,
            principal_collected = collected p, closing_principal = balance p,
            closing_accrued_interest = interest p, closing_unrecognized_interest = unrecognized p,
            closing_fees = fees_due p \<rparr>))))"

section \<open>What admission establishes\<close>

definition action_admitted :: "InstallmentAction \<Rightarrow> bool" where
  "action_admitted a = (case a of Payment v \<Rightarrow> amount_ok v | ChangePayment v \<Rightarrow> amount_ok v | Fee v \<Rightarrow> amount_ok v
     | SetState s \<Rightarrow> \<not> terminal s | _ \<Rightarrow> True)"

definition recovery_delay :: "InstallmentProduct \<Rightarrow> nat" where
  "recovery_delay q = (case q of Auto a \<Rightarrow> auto_recovery_delay_days a | Personal p \<Rightarrow> personal_recovery_delay_days p)"

lemma admit_date_Ok: "admit_date fin prev d = Ok e \<Longrightarrow> e = d \<and> prev < d \<and> d \<le> fin"
  by (auto simp: admit_date_def)

lemma admit_dates:
  assumes "fold_res (admit_date fin) prev ds = Ok out"
  shows "sorted_wrt (<) ds \<and> (\<forall>d \<in> set ds. prev < d \<and> d \<le> fin)"
  using assms
proof (induction ds arbitrary: prev)
  case (Cons d ds)
  then obtain e where "admit_date fin prev d = Ok e" "fold_res (admit_date fin) e ds = Ok out" by auto
  with Cons.IH admit_date_Ok show ?case by fastforce
qed simp

lemma admit_action_Ok: "admit_action a = Ok () \<longleftrightarrow> action_admitted a"
  by (cases a) (auto simp: admit_action_def action_admitted_def terminal_def)

lemma admit_step_Ok: "admit_step as_of fin seen s = Ok t \<Longrightarrow>
    as_of \<le> step_ordinal s \<and> step_ordinal s \<le> fin \<and> action_admitted (step_action s)"
  by (auto simp: admit_step_def admit_action_Ok)

lemma admit_steps:
  assumes "fold_res (admit_step as_of fin) seen ss = Ok out"
  shows "\<forall>s \<in> set ss. as_of \<le> step_ordinal s \<and> step_ordinal s \<le> fin \<and> action_admitted (step_action s)"
  using assms
proof (induction ss arbitrary: seen)
  case (Cons s ss)
  then obtain t where s: "admit_step as_of fin seen s = Ok t" "fold_res (admit_step as_of fin) t ss = Ok out" by auto
  with Cons.IH [OF s(2)] admit_step_Ok [OF s(1)] show ?case by simp
qed simp

definition admitted :: "InstallmentRequest \<Rightarrow> i32 \<Rightarrow> bool" where
  "admitted r fin \<longleftrightarrow> 1 \<le> request_as_of r \<and> request_as_of r \<le> fin \<and> fin \<le> MAX_ORDINAL
     \<and> (request_day_count r = Act360 \<or> request_day_count r = Act365Fixed)
     \<and> \<not> terminal (initial_state r)
     \<and> sorted_wrt (<) (payment_dates r) \<and> (\<forall>d \<in> set (payment_dates r). request_as_of r < d \<and> d \<le> fin)
     \<and> (\<forall>s \<in> set (request_steps r). request_as_of r \<le> step_ordinal s \<and> step_ordinal s \<le> fin
          \<and> action_admitted (step_action s))
     \<and> recovery_delay (product r) \<le> MAX_CONSUMER_DAYS"

lemma validate_admitted:
  assumes "validate r = Ok ()" "horizon (request_as_of r) (request_horizon_days r) = Ok fin"
  shows "admitted r fin"
proof -
  from assms obtain out seen where d: "fold_res (admit_date fin) (request_as_of r) (payment_dates r) = Ok out"
    and s: "fold_res (admit_step (request_as_of r) fin) {} (request_steps r) = Ok seen"
    by (auto simp: validate_def)
  have "recovery_delay (product r) \<le> MAX_CONSUMER_DAYS"
    using assms by (auto simp: validate_def validate_auto_def validate_personal_def recovery_delay_def
        split: InstallmentProduct.splits)
  moreover have "request_day_count r = Act360 \<or> request_day_count r = Act365Fixed" "\<not> terminal (initial_state r)"
    using assms by (auto simp: validate_def consumer_day_count_def)
  ultimately show ?thesis
    using horizon_Ok [OF assms(2)] admit_dates [OF d] admit_steps [OF s] by (simp add: admitted_def)
qed

lemma validate_no_Panic: "validate r \<noteq> Panic"
proof -
  have "fold_res (admit_date fin) x ds \<noteq> Panic" for fin x ds
    by (rule fold_res_no_Panic [of "\<lambda>_. True"]) (auto simp: admit_date_def)
  moreover have "fold_res (admit_step x fin) y ss \<noteq> Panic" for fin x y ss
    by (rule fold_res_no_Panic [of "\<lambda>_. True"])
      (auto simp: admit_step_def admit_action_def split: InstallmentAction.splits)
  moreover have "validate_amounts r \<noteq> Panic" by (auto simp: validate_amounts_def)
  ultimately show ?thesis
    by (auto simp: validate_def validate_auto_def validate_personal_def vintage_def split: InstallmentProduct.splits)
qed

lemma admitted_days:
  assumes "admitted r fin" "d \<in> set (days r fin)"
  shows "request_as_of r \<le> d" "d \<le> fin" "1 \<le> d" "d \<le> MAX_ORDINAL"
  using assms by (fastforce simp: admitted_def days_def)+

section \<open>Event identities\<close>

definition payment_ids :: "nat \<Rightarrow> string list" where
  "payment_ids n = map (\<lambda>i. ''payment-'' @ digits i) [0..<n]"

lemma payment_ids_distinct: "distinct (payment_ids n)"
  by (auto simp: payment_ids_def distinct_map inj_on_def digits_inj)

lemma payment_ids_Suc: "payment_ids (Suc n) = payment_ids n @ [''payment-'' @ digits n]"
  by (simp add: payment_ids_def)

lemma recovery_not_payment: "''recovery-0'' \<notin> set (payment_ids n)"
  by (auto simp: payment_ids_def)

section \<open>One day\<close>

definition cleared :: "Loan \<Rightarrow> bool" where
  "cleared p \<longleftrightarrow> feq (balance p) 0 \<and> feq (interest p + unrecognized p + fees_due p) 0"

definition events_ok :: "InstallmentRequest \<Rightarrow> i32 \<Rightarrow> Loan \<Rightarrow> bool" where
  "events_ok r fin p \<longleftrightarrow> (\<forall>e \<in> set (cash_events p). request_as_of r \<le> cash_ordinal e \<and> cash_ordinal e \<le> fin)
     \<and> (map cash_event_id (cash_events p) = payment_ids (length (cash_events p))
        \<or> terminal (loan_state p) \<and> (\<exists>n. map cash_event_id (cash_events p) = payment_ids n @ [''recovery-0'']))"

lemma accrue_frame:
  assumes "accrue r p day = Ok q"
  shows "loan_state q = loan_state p" "cash_events q = cash_events p" "loan_points q = loan_points p"
    and "terminal (loan_state p) \<Longrightarrow> q = p"
  using assms by (auto simp: accrue_def Let_def split: if_splits)

lemma write_off_frame:
  assumes "write_off powf r fin day p = Ok q" "recovery_delay (product r) \<le> MAX_CONSUMER_DAYS"
  shows "loan_state q = Default" "cleared q" "loan_points q = loan_points p"
    and "cash_events q = cash_events p
       \<or> (\<exists>e. cash_events q = cash_events p @ [e] \<and> cash_event_id e = ''recovery-0''
            \<and> day \<le> cash_ordinal e \<and> cash_ordinal e \<le> fin)"
proof -
  have delay: "day \<le> d" if "recovery powf r day b = Ok (g, c, n)" "i32_checked_add day (i32_of_u32 n) = Some d" for b g c n d
    using that assms(2) by (auto simp: recovery_def recovery_delay_def i32_checked_add_def i32_of_u32_def
        MAX_CONSUMER_DAYS_def split: InstallmentProduct.splits if_splits)
  show "loan_state q = Default" "loan_points q = loan_points p"
    using assms(1) by (auto simp: write_off_def Let_def)
  have "(0 :: f64) + 0 + 0 = 0" by (simp add: f64_eval)
  moreover have "balance q = 0" "interest q = 0" "unrecognized q = 0" "fees_due q = 0"
    using assms(1) by (auto simp: write_off_def Let_def)
  ultimately show "cleared q" by (simp add: cleared_def)
  show "cash_events q = cash_events p
       \<or> (\<exists>e. cash_events q = cash_events p @ [e] \<and> cash_event_id e = ''recovery-0''
            \<and> day \<le> cash_ordinal e \<and> cash_ordinal e \<le> fin)"
    using assms(1) delay by (fastforce simp: write_off_def Let_def not_less split: if_splits)
qed

lemma waterfall_frame:
  assumes "waterfall day p cash = (q, a, b, c, d)"
  shows "loan_state q = loan_state p" "cash_events q = cash_events p" "loan_points q = loan_points p"
  using assms by (simp_all add: waterfall_def Let_def) auto

lemma pay_frame:
  assumes "pay r day payoff p cash = Ok q"
  shows "loan_points q = loan_points p"
    and "loan_state q = PaidOff \<and> cleared q \<or> loan_state q = loan_state p"
    and "cash_events q = cash_events p
       \<or> (\<exists>e. cash_events q = cash_events p @ [e] \<and> cash_ordinal e = day
            \<and> cash_event_id e = ''payment-'' @ digits (length (cash_events p)))"
proof -
  obtain w a b c d where w: "waterfall day p cash = (w, a, b, c, d)" by (metis prod_cases5)
  note f = waterfall_frame [OF w]
  show "loan_points q = loan_points p"
    and "loan_state q = PaidOff \<and> cleared q \<or> loan_state q = loan_state p"
    and "cash_events q = cash_events p
       \<or> (\<exists>e. cash_events q = cash_events p @ [e] \<and> cash_ordinal e = day
            \<and> cash_event_id e = ''payment-'' @ digits (length (cash_events p)))"
    using assms f by (auto simp: pay_def w Let_def cleared_def split: if_splits)
qed

lemma act_frame:
  assumes "act powf r fin day p action = Ok (q, cash, payoff)" "admitted r fin"
    and "\<And>a. action = Some a \<Longrightarrow> action_admitted a" "terminal (loan_state p) \<Longrightarrow> action = None"
  shows "loan_points q = loan_points p"
    and "terminal (loan_state p) \<Longrightarrow> q = p \<and> cash = None"
    and "\<not> terminal (loan_state p) \<Longrightarrow> terminal (loan_state q) \<Longrightarrow> loan_state q = Default \<and> cleared q \<and> cash = None
       \<and> (cash_events q = cash_events p
          \<or> (\<exists>e. cash_events q = cash_events p @ [e] \<and> cash_event_id e = ''recovery-0''
            \<and> day \<le> cash_ordinal e \<and> cash_ordinal e \<le> fin))"
    and "\<not> terminal (loan_state q) \<Longrightarrow> cash_events q = cash_events p"
proof -
  have w: "write_off powf r fin day p = Ok q \<Longrightarrow> loan_state q = Default \<and> cleared q \<and> loan_points q = loan_points p
     \<and> (cash_events q = cash_events p
          \<or> (\<exists>e. cash_events q = cash_events p @ [e] \<and> cash_event_id e = ''recovery-0''
            \<and> day \<le> cash_ordinal e \<and> cash_ordinal e \<le> fin))"
    using write_off_frame [of powf r fin day p q] assms(2) by (simp add: admitted_def)
  show "loan_points q = loan_points p"
    and "terminal (loan_state p) \<Longrightarrow> q = p \<and> cash = None"
    and "\<not> terminal (loan_state p) \<Longrightarrow> terminal (loan_state q) \<Longrightarrow> loan_state q = Default \<and> cleared q \<and> cash = None
       \<and> (cash_events q = cash_events p
          \<or> (\<exists>e. cash_events q = cash_events p @ [e] \<and> cash_event_id e = ''recovery-0''
            \<and> day \<le> cash_ordinal e \<and> cash_ordinal e \<le> fin))"
    and "\<not> terminal (loan_state q) \<Longrightarrow> cash_events q = cash_events p"
    using assms(1,3,4) w
    by (auto simp: act_def action_admitted_def terminal_def split: option.splits InstallmentAction.splits)
qed

definition matches :: "InstallmentPoint \<Rightarrow> Loan \<Rightarrow> bool" where
  "matches pt p \<longleftrightarrow> point_state pt = loan_state p \<and> point_principal pt = balance p
     \<and> point_accrued_interest pt = interest p \<and> point_unrecognized_interest pt = unrecognized p
     \<and> point_fees pt = fees_due p"

text \<open>
  What every reported day satisfies: amounts are finite, nonnegative and below the monetary limit,
  and a closed loan owes nothing.
\<close>

definition point_ok :: "InstallmentPoint \<Rightarrow> bool" where
  "point_ok pt \<longleftrightarrow> amount_ok (point_principal pt) \<and> amount_ok (point_accrued_interest pt)
     \<and> amount_ok (point_unrecognized_interest pt) \<and> amount_ok (point_fees pt)
     \<and> (terminal (point_state pt) \<longrightarrow> feq (point_principal pt) 0
          \<and> feq (point_accrued_interest pt + point_unrecognized_interest pt + point_fees pt) 0)"

lemma close_day_frame:
  assumes "close_day day p = Ok q" "terminal (loan_state p) \<Longrightarrow> cleared p"
  shows "\<exists>pt. loan_points q = loan_points p @ [pt] \<and> matches pt q \<and> point_ok pt \<and> point_ordinal pt = day"
    and "loan_state q = loan_state p" "cash_events q = cash_events p" "cleared q = cleared p"
  using assms by (auto simp: close_day_def matches_def point_ok_def cleared_def)

definition loan_inv :: "InstallmentRequest \<Rightarrow> i32 \<Rightarrow> Loan \<Rightarrow> bool" where
  "loan_inv r fin p \<longleftrightarrow> events_ok r fin p \<and> (terminal (loan_state p) \<longrightarrow> cleared p)
     \<and> list_all point_ok (loan_points p)
     \<and> successively (\<lambda>x y. terminal (point_state x) \<longrightarrow> point_state y = point_state x) (loan_points p)
     \<and> (loan_points p \<noteq> [] \<longrightarrow> matches (last (loan_points p)) p)"

lemma action_on_admitted: "admitted r fin \<Longrightarrow> action_on r day = Some a \<Longrightarrow> action_admitted a"
  using last_by_Some [of step_ordinal "request_steps r" day] by (auto simp: action_on_def admitted_def)

lemma events_ok_more:
  assumes "events_ok r fin p" "\<not> terminal (loan_state p)" "cash_events q = cash_events p @ [e]"
    "request_as_of r \<le> cash_ordinal e" "cash_ordinal e \<le> fin"
    "cash_event_id e = ''payment-'' @ digits (length (cash_events p)) \<or> cash_event_id e = ''recovery-0'' \<and> terminal (loan_state q)"
  shows "events_ok r fin q"
  using assms unfolding events_ok_def by (auto simp: payment_ids_Suc)

lemma events_ok_same:
  assumes "events_ok r fin p" "cash_events q = cash_events p" "terminal (loan_state p) \<Longrightarrow> terminal (loan_state q)"
  shows "events_ok r fin q"
  using assms unfolding events_ok_def by auto

lemma day_step_inv:
  assumes "day_step powf r fin p day = Ok q" "admitted r fin" "day \<in> set (days r fin)" "loan_inv r fin p"
  shows "loan_inv r fin q" and "map point_ordinal (loan_points q) = map point_ordinal (loan_points p) @ [day]"
proof -
  from assms(1) obtain a where a: "accrue r p day = Ok a" by (auto simp: day_step_def)
  define b where "b = a \<lparr> previous := day \<rparr>"
  from assms(1) a obtain x d where t': "terminal (loan_state a) \<longrightarrow> action_on r day = None"
    and x: "act powf r fin day b (action_on r day) = Ok x"
    and y: "(case x of (c, cash, payoff) \<Rightarrow> case scheduled r day c cash of None \<Rightarrow> Ok c | Some v \<Rightarrow> pay r day payoff c v) = Ok d"
    and q: "close_day day d = Ok q"
    by (auto simp: day_step_def Let_def b_def [symmetric] case_prod_beta)
  obtain c cash payoff where xc: "x = (c, cash, payoff)" by (rule prod_cases3)
  note c = x [unfolded xc] and b = b_def
  have t: "terminal (loan_state b) \<Longrightarrow> action_on r day = None" using t' b by simp
  have d: "(case scheduled r day c cash of None \<Rightarrow> Ok c | Some v \<Rightarrow> pay r day payoff c v) = Ok d"
    using y by (simp add: xc)
  have I: "events_ok r fin p" "terminal (loan_state p) \<longrightarrow> cleared p" "list_all point_ok (loan_points p)"
    "successively (\<lambda>x y. terminal (point_state x) \<longrightarrow> point_state y = point_state x) (loan_points p)"
    "loan_points p \<noteq> [] \<longrightarrow> matches (last (loan_points p)) p"
    using assms(4) by (auto simp: loan_inv_def)
  have bf: "loan_state b = loan_state p" "cash_events b = cash_events p" "loan_points b = loan_points p"
    using accrue_frame [OF a] b by auto
  have bc: "cleared b" if "terminal (loan_state p)"
    using accrue_frame(4) [OF a that] I(2) that b by (simp add: cleared_def)
  have adm: "action_admitted x" if "action_on r day = Some x" for x
    using that action_on_admitted [OF assms(2)] by blast
  have cf: "loan_points c = loan_points p" "terminal (loan_state p) \<Longrightarrow> c = b \<and> cash = None"
    "\<not> terminal (loan_state p) \<Longrightarrow> terminal (loan_state c) \<Longrightarrow> loan_state c = Default \<and> cleared c \<and> cash = None
       \<and> (cash_events c = cash_events p
          \<or> (\<exists>e. cash_events c = cash_events p @ [e] \<and> cash_event_id e = ''recovery-0''
            \<and> day \<le> cash_ordinal e \<and> cash_ordinal e \<le> fin))"
    "\<not> terminal (loan_state c) \<Longrightarrow> cash_events c = cash_events p"
    using act_frame [OF c assms(2) adm t] unfolding bf by blast+
  have day: "request_as_of r \<le> day" "day \<le> fin" using admitted_days [OF assms(2,3)] by auto
  have ce: "events_ok r fin c" and ct: "terminal (loan_state c) \<Longrightarrow> cleared c \<and> scheduled r day c cash = None"
    and cp: "terminal (loan_state p) \<Longrightarrow> loan_state c = loan_state p"
  proof -
    show "terminal (loan_state p) \<Longrightarrow> loan_state c = loan_state p" using cf(2) bf by auto
    show "events_ok r fin c"
    proof (cases "terminal (loan_state p)")
      case True
      then show ?thesis using cf(2) bf events_ok_same [OF I(1)] by auto
    next
      case False
      note nt = this
      show ?thesis
      proof (cases "terminal (loan_state c)")
        case True
        from cf(3) [OF nt this] show ?thesis
          using events_ok_same [OF I(1), of c] events_ok_more [OF I(1) nt, of c] True day by fastforce
      next
        case False
        then show ?thesis using cf(4) nt events_ok_same [OF I(1)] by auto
      qed
    qed
    show "terminal (loan_state c) \<Longrightarrow> cleared c \<and> scheduled r day c cash = None"
      using cf(2,3) bc by (cases "terminal (loan_state p)") (auto simp: scheduled_def terminal_def)
  qed
  have dd: "events_ok r fin d \<and> (terminal (loan_state d) \<longrightarrow> cleared d) \<and> loan_points d = loan_points p
      \<and> (terminal (loan_state p) \<longrightarrow> loan_state d = loan_state p)"
  proof (cases "scheduled r day c cash")
    case None
    then show ?thesis using d ce ct cf(1) cp by auto
  next
    case (Some x)
    then have nt: "\<not> terminal (loan_state c)" using ct by auto
    from Some d have "pay r day payoff c x = Ok d" by simp
    note pf = pay_frame [OF this]
    have "events_ok r fin d"
      using pf(3) events_ok_same [OF ce, of d] events_ok_more [OF ce nt, of d] nt day by fastforce
    then show ?thesis using pf(1,2) cf(1) nt cp by auto
  qed
  then have "terminal (loan_state d) \<Longrightarrow> cleared d" by blast
  note qf = close_day_frame [OF q this]
  then obtain pt where pt: "loan_points q = loan_points p @ [pt]" "matches pt q" "point_ok pt" "point_ordinal pt = day"
    using dd by auto
  then show "map point_ordinal (loan_points q) = map point_ordinal (loan_points p) @ [day]" by simp
  have "terminal (point_state (last (loan_points p))) \<longrightarrow> point_state pt = point_state (last (loan_points p))"
    if "loan_points p \<noteq> []"
    using I(5) that pt(2) qf(2) dd by (auto simp: matches_def)
  then show "loan_inv r fin q"
    using I(3,4) pt dd qf(2-4) events_ok_same [of r fin d q]
    by (auto simp: loan_inv_def successively_append_iff)
qed

lemma days_inv:
  assumes "fold_res (day_step powf r fin) p ds = Ok q" "admitted r fin" "set ds \<subseteq> set (days r fin)" "loan_inv r fin p"
  shows "loan_inv r fin q \<and> map point_ordinal (loan_points q) = map point_ordinal (loan_points p) @ ds"
  using assms(1,3,4)
proof (induction ds arbitrary: p)
  case (Cons d ds)
  from Cons.prems(1) obtain p' where p': "day_step powf r fin p d = Ok p'" "fold_res (day_step powf r fin) p' ds = Ok q"
    by auto
  have d: "d \<in> set (days r fin)" using Cons.prems(2) by simp
  note st = day_step_inv [OF p'(1) assms(2) d Cons.prems(3)]
  from Cons.IH [OF p'(2) _ st(1)] Cons.prems(2) st(2) show ?case by simp
qed simp

lemma opening_inv: "admitted r fin \<Longrightarrow> loan_inv r fin (opening_loan r)"
  by (simp add: loan_inv_def opening_loan_def events_ok_def admitted_def payment_ids_def)

section \<open>No panic\<close>

lemma recovery_no_Panic:
  assumes "admitted r fin" "day \<in> set (days r fin)"
  shows "recovery powf r day bal \<noteq> Panic"
proof (cases "product r")
  case (Auto a)
  have "i32_sub d (request_as_of r) \<noteq> (Panic :: (string, i32) result)"
    if "i32_checked_add day (i32_of_u32 (auto_recovery_delay_days a)) = Some d" for d
    using that assms(1) admitted_days [OF assms] Auto
    by (auto simp: i32_checked_add_def i32_sub_def in_i32_def i32_of_u32_def admitted_def
        recovery_delay_def MAX_CONSUMER_DAYS_def split: if_splits)
  then show ?thesis using Auto by (auto simp: recovery_def Let_def)
qed (auto simp: recovery_def)

lemma day_step_no_Panic:
  assumes "admitted r fin" "day \<in> set (days r fin)"
  shows "day_step powf r fin p day \<noteq> Panic"
proof -
  have "accrue r p day \<noteq> Panic"
    using assms(1) by (auto simp: accrue_def actual_year_fraction_def admitted_def Let_def split: if_splits)
  moreover have "act powf r fin day q x \<noteq> Panic" for q x
    using recovery_no_Panic [OF assms]
    by (auto simp: act_def write_off_def Let_def split: option.splits InstallmentAction.splits)
  moreover have "pay r day b q x \<noteq> Panic" for b q x
    by (cases "waterfall day q x") (auto simp: pay_def Let_def)
  moreover have "close_day day q \<noteq> Panic" for q
    by (auto simp: close_day_def)
  ultimately show ?thesis
    by (auto simp: day_step_def Let_def split: option.splits)
qed

lemma days_no_Panic:
  "admitted r fin \<Longrightarrow> set ds \<subseteq> set (days r fin) \<Longrightarrow> fold_res (day_step powf r fin) p ds \<noteq> Panic"
  by (rule fold_res_no_Panic [of "\<lambda>_. True"]) (auto dest: day_step_no_Panic)

lemma days_set: "set (days r fin) = set (payment_dates r) \<union> step_ordinal ` set (request_steps r) \<union> {fin}"
  by (auto simp: days_def)

lemma days_sorted: "sorted_wrt (<) (days r fin)"
  by (simp add: days_def strict_sorted_iff)

section \<open>Properties\<close>

text \<open>What a projection promises.\<close>

definition projection_ok :: "InstallmentRequest \<Rightarrow> i32 \<Rightarrow> InstallmentResult \<Rightarrow> bool" where
  "projection_ok r fin res \<longleftrightarrow>
     map point_ordinal (points res) = days r fin \<and> sorted_wrt (<) (days r fin)
     \<and> list_all point_ok (points res)
     \<and> successively (\<lambda>x y. terminal (point_state x) \<longrightarrow> point_state y = point_state x) (points res)
     \<and> (let pt = last (points res) in point_principal pt = closing_principal res
          \<and> point_accrued_interest pt = closing_accrued_interest res
          \<and> point_unrecognized_interest pt = closing_unrecognized_interest res \<and> point_fees pt = closing_fees res)
     \<and> sorted (map cash_ordinal (cashflows res)) \<and> distinct (map cash_event_id (cashflows res))
     \<and> list_all (\<lambda>e. request_as_of r \<le> cash_ordinal e \<and> cash_ordinal e \<le> fin) (cashflows res)"

lemma events_distinct: "events_ok r fin p \<Longrightarrow> distinct (map cash_event_id (cash_events p))"
  unfolding events_ok_def using payment_ids_distinct recovery_not_payment by fastforce

lemma distinct_map_sort: "distinct (map f (sort_key k xs)) = distinct (map f xs)"
  by (simp add: distinct_map distinct_sort set_sort)

text \<open>
  C35. A projection never panics, and when it returns, it reports exactly one point per payment date,
  action date and horizon end, in order; at every point the amounts owed are finite,
  nonnegative and within the monetary limit; a loan that has defaulted or is paid off owes nothing
  and stays so to the end; the closing balances are those of the last point; the cash events
  are in date order within the horizon, and no two have the same identity.
\<close>

theorem project_sound:
  "case project powf r of
     Panic \<Rightarrow> False
   | Err _ \<Rightarrow> True
   | Ok res \<Rightarrow> projection_ok r (request_as_of r + int (request_horizon_days r)) res"
proof (cases "project powf r")
  case Panic
  then show ?thesis
    using validate_no_Panic [of r] horizon_no_Panic days_no_Panic [OF validate_admitted subset_refl]
    by (auto simp: project_def)
next
  case (Ok res)
  then obtain fin p where v: "validate r = Ok ()" "horizon (request_as_of r) (request_horizon_days r) = Ok fin"
    and p: "fold_res (day_step powf r fin) (opening_loan r) (days r fin) = Ok p"
    and res: "points res = loan_points p" "closing_principal res = balance p" "closing_accrued_interest res = interest p"
      "closing_unrecognized_interest res = unrecognized p" "closing_fees res = fees_due p"
      "cashflows res = sort_key cash_ordinal (cash_events p)"
    by (auto simp: project_def)
  have adm: "admitted r fin" by (rule validate_admitted [OF v])
  from days_inv [OF p adm subset_refl opening_inv [OF adm]]
  have inv: "loan_inv r fin p" and pts: "map point_ordinal (loan_points p) = days r fin"
    by (auto simp: opening_loan_def)
  have "fin \<in> set (days r fin)" by (simp add: days_set)
  then have "loan_points p \<noteq> []" using pts by auto
  moreover have ev: "events_ok r fin p" using inv by (simp add: loan_inv_def)
  moreover have "list_all (\<lambda>e. request_as_of r \<le> cash_ordinal e \<and> cash_ordinal e \<le> fin) (cash_events p)"
    using ev by (simp add: events_ok_def list_all_iff)
  ultimately have "projection_ok r fin res"
    using inv pts days_sorted [of r fin] events_distinct [OF ev] res
    by (simp add: projection_ok_def loan_inv_def matches_def Let_def distinct_map_sort list_all_iff)
  with Ok horizon_Ok [OF v(2)] show ?thesis by simp
qed simp

section \<open>The waterfall in real numbers\<close>

lemma waterfall_levels:
  "waterfall day p cash = (q, a, b, c, d) \<Longrightarrow>
   a = fmin cash (fees_due p) \<and> fees_due q = fees_due p - a
   \<and> b = fmin (left_over cash (fees_due p)) (interest p) \<and> interest q = interest p - b
   \<and> c = fmin (left_over (left_over cash (fees_due p)) (interest p)) (unrecognized p)
   \<and> unrecognized q = unrecognized p - c
   \<and> d = fmin (left_over (left_over (left_over cash (fees_due p)) (interest p)) (unrecognized p)) (balance p)
   \<and> balance q = balance p - d \<and> collected q = collected p + d"
  by (simp add: waterfall_def left_over_def Let_def) auto

text \<open>
  C36. The waterfall respects seniority exactly, rounding included: whatever the cash, nothing paid is
  negative or more than is owed, nothing owed becomes negative, recognised interest is paid only
  after the fees are paid to zero, unrecognised interest only after the recognised interest is,
  and principal only after all three are.
\<close>

theorem waterfall_seniority:
  assumes "small cash" "small (fees_due p)" "small (interest p)" "small (unrecognized p)" "small (balance p)"
    and "waterfall day p cash = (q, paid_fees, paid_interest, paid_unrecognized, paid_principal)"
  shows "small (fees_due q) \<and> small (interest q) \<and> small (unrecognized q) \<and> small (balance q)
    \<and> 0 \<le> val paid_fees \<and> val paid_fees \<le> val (fees_due p)
    \<and> 0 \<le> val paid_interest \<and> val paid_interest \<le> val (interest p)
    \<and> 0 \<le> val paid_unrecognized \<and> val paid_unrecognized \<le> val (unrecognized p)
    \<and> 0 \<le> val paid_principal \<and> val paid_principal \<le> val (balance p)
    \<and> (val paid_interest = 0 \<or> val (fees_due q) = 0)
    \<and> (val paid_unrecognized = 0 \<or> val (fees_due q) = 0 \<and> val (interest q) = 0)
    \<and> (val paid_principal = 0 \<or> val (fees_due q) = 0 \<and> val (interest q) = 0 \<and> val (unrecognized q) = 0)"
proof -
  let ?r1 = "left_over cash (fees_due p)"
  let ?r2 = "left_over ?r1 (interest p)"
  let ?r3 = "left_over ?r2 (unrecognized p)"
  note w = waterfall_levels [OF assms(6)]
  note l1 = level [OF assms(1,2)]
  note l2 = level [OF l1(4) assms(3)]
  note l3 = level [OF l2(4) assms(4)]
  note l4 = level [OF l3(4) assms(5)]
  have r: "0 \<le> val ?r1" "0 \<le> val ?r2" "0 \<le> val ?r3" "val ?r1 = 0 \<Longrightarrow> val ?r2 = 0" "val ?r2 = 0 \<Longrightarrow> val ?r3 = 0"
    using l1(4) l2(4) l3(4) l2(5) l3(5) assms(3,4) by (auto simp: small_def min_def)
  have p: "0 < val paid_interest \<Longrightarrow> 0 < val ?r1" "0 < val paid_unrecognized \<Longrightarrow> 0 < val ?r2"
    "0 < val paid_principal \<Longrightarrow> 0 < val ?r3"
    using w l2(2) l3(2) l4(2) by auto
  have nn: "0 \<le> val paid_fees" "0 \<le> val paid_interest" "0 \<le> val paid_unrecognized" "0 \<le> val paid_principal"
    using w l1(1) l2(1) l3(1) l4(1) by (auto simp: small_def)
  have z1: "val (fees_due q) = 0" if "0 < val ?r1" using w l1(7) that by simp
  have z2: "val (interest q) = 0" if "0 < val ?r2" using w l2(7) that by simp
  have z3: "val (unrecognized q) = 0" if "0 < val ?r3" using w l3(7) that by simp
  have up: "0 < val ?r1" if "0 < val ?r2" using that r(1,4) by (cases "val ?r1 = 0") auto
  have up': "0 < val ?r2" if "0 < val ?r3" using that r(2,5) by (cases "val ?r2 = 0") auto
  have "val paid_interest = 0 \<or> val (fees_due q) = 0" using p(1) nn(2) z1 by linarith
  moreover have "val paid_unrecognized = 0 \<or> val (fees_due q) = 0 \<and> val (interest q) = 0"
    using p(2) nn(3) z1 z2 up by linarith
  moreover have "val paid_principal = 0 \<or> val (fees_due q) = 0 \<and> val (interest q) = 0 \<and> val (unrecognized q) = 0"
    using p(3) nn(4) z1 z2 z3 up up' by linarith
  ultimately show ?thesis using w l1(2,3) l2(2,3) l3(2,3) l4(2,3) nn by simp
qed

definition sample_loan :: Loan where
  "sample_loan = \<lparr> balance = f64_of_int 100, interest = f64_of_int 3, unrecognized = f64_of_int 2, fees_due = f64_of_int 5,
     loan_state = Delinquent, payment_now = 0, previous = 1, collected = 0, cash_events = [],
     recognised = [], loan_points = [], defaulted = None \<rparr>"

theorem waterfall_seniority_witness:
  "small (fees_due (fst (waterfall 7 sample_loan (f64_of_int 9))))"
proof -
  obtain q a b c d where w: "waterfall 7 sample_loan (f64_of_int 9) = (q, a, b, c, d)" by (metis prod_cases5)
  have "small (fees_due q) \<and> small (interest q) \<and> small (unrecognized q) \<and> small (balance q)
    \<and> 0 \<le> val a \<and> val a \<le> val (fees_due sample_loan)
    \<and> 0 \<le> val b \<and> val b \<le> val (interest sample_loan)
    \<and> 0 \<le> val c \<and> val c \<le> val (unrecognized sample_loan)
    \<and> 0 \<le> val d \<and> val d \<le> val (balance sample_loan)
    \<and> (val b = 0 \<or> val (fees_due q) = 0)
    \<and> (val c = 0 \<or> val (fees_due q) = 0 \<and> val (interest q) = 0)
    \<and> (val d = 0 \<or> val (fees_due q) = 0 \<and> val (interest q) = 0 \<and> val (unrecognized q) = 0)"
    by (rule waterfall_seniority [OF _ _ _ _ _ w]) (simp_all add: sample_loan_def small_of_int)
  then show ?thesis by (simp add: w)
qed

text \<open>
  C37. A payoff of a loan that owes whole units closes it: every balance is exactly zero and the
  state is paid off.
\<close>

theorem payoff_settles:
  assumes "whole (balance p) b" "whole (interest p) i" "whole (unrecognized p) u" "whole (fees_due p) f"
    and "b + i + u + f \<le> 10 ^ 15" and "pay r day True p (debt p) = Ok q"
  shows "loan_state q = PaidOff \<and> val (balance q) = 0 \<and> val (interest q) = 0
    \<and> val (unrecognized q) = 0 \<and> val (fees_due q) = 0"
proof -
  have nn: "0 \<le> b" "0 \<le> i" "0 \<le> u" "0 \<le> f" using assms(1-4) by (auto simp: whole_def)
  have d: "whole (debt p) (b + i + u + f)"
    unfolding debt_def by (intro whole_add assms(1-4)) (use assms(5) nn in auto)
  let ?r1 = "left_over (debt p) (fees_due p)"
  let ?r2 = "left_over ?r1 (interest p)"
  let ?r3 = "left_over ?r2 (unrecognized p)"
  have l1: "whole ?r1 (b + u + i)" "whole (fees_due p - fmin (debt p) (fees_due p)) 0"
    using whole_level [OF d assms(4)] nn by (simp_all add: algebra_simps)
  have l2: "whole ?r2 (b + u)" "whole (interest p - fmin ?r1 (interest p)) 0"
    using whole_level [OF l1(1) assms(2)] nn by simp_all
  have l3: "whole ?r3 b" "whole (unrecognized p - fmin ?r2 (unrecognized p)) 0"
    using whole_level [OF l2(1) assms(3)] nn by simp_all
  have l4: "whole (balance p - fmin ?r3 (balance p)) 0" by (rule whole_level(2) [OF l3(1) assms(1) order_refl])
  obtain w pf pi pu pp where w: "waterfall day p (debt p) = (w, pf, pi, pu, pp)" by (metis prod_cases5)
  have z: "whole (balance w) 0" "whole (interest w) 0" "whole (unrecognized w) 0" "whole (fees_due w) 0"
    using waterfall_levels [OF w] l1(2) l2(2) l3(2) l4 by simp_all
  have "whole (interest w + unrecognized w + fees_due w) (0 + 0 + 0)"
    by (intro whole_add z) auto
  then have "cleared w" using z(1) by (simp add: cleared_def whole_def)
  then have "loan_state q = PaidOff \<and> balance q = balance w \<and> interest q = interest w
      \<and> unrecognized q = unrecognized w \<and> fees_due q = fees_due w"
    using assms(6) by (auto simp: pay_def w Let_def cleared_def split: if_splits)
  then show ?thesis using z by (simp add: whole_def)
qed

text \<open>The tolerance never makes a payment of exactly the debt too large.\<close>

lemma overpay_slack: "small x \<Longrightarrow> f64_ok x \<Longrightarrow> \<not> x + overpay < x"
  using nano_slack [of x] by (simp add: overpay_def small_def)

lemma payoff_accepted:
  assumes "amount_ok (debt p)" "f64_ok (debt p)" "f64_ok (interest p)" "f64_ok (unrecognized p)"
    "f64_ok (fees_due p)" "f64_ok (balance p)" "prepayment_penalty_fraction r = 0"
    and "small (interest p)" "small (unrecognized p)" "small (fees_due p)" "small (balance p)"
  shows "\<exists>q. pay r day True p (debt p) = Ok q"
proof -
  obtain w a b c d where w: "waterfall day p (debt p) = (w, a, b, c, d)" by (metis prod_cases5)
  note lv = waterfall_levels [OF w]
  have s: "small (debt p)" by (rule amount_small [OF assms(1)])
  note l1 = level [OF s assms(10)]
  note l2 = level [OF l1(4) assms(8)]
  note l3 = level [OF l2(4) assms(9)]
  note l4 = level [OF l3(4) assms(11)]
  have d: "is_finite d" "f64_ok d" using lv l4(1) assms(2-6) by (auto simp: small_def left_over_def)
  have "rounds_to (d * 0) 0" using mul_rounds [of d 0] d by simp
  then have pen: "is_finite (d * 0)" "val (d * 0) = 0" by (simp_all add: rounds_to_def)
  have "rounds_to (debt p + d * 0) (val (debt p))"
    using add_rounds [of "debt p" "d * 0"] pen assms(1) by (simp add: amount_ok_val)
  moreover have "\<bar>val (debt p)\<bar> \<le> 2 ^ 53" using s by (simp add: small_def)
  ultimately have "is_finite (debt p + d * 0)" "val (debt p + d * 0) = val (debt p)"
    using rounds_to_bound [OF _ _ small_bound] val_dbl [OF assms(2)] by (auto simp: rne.rd_exact)
  then have "amount_ok (debt p + d * 0)" "amount_ok (d * 0)" using assms(1) pen by (simp_all add: amount_ok_val)
  then show ?thesis
    using overpay_slack [OF s assms(2)] assms(7) by (simp add: pay_def w amount_def require_def Let_def)
qed

definition sample_request :: InstallmentRequest where
  "sample_request = \<lparr> request_schema = INSTALLMENT_SCHEMA,
     request_identity = \<lparr> position_ident = ''p'', original_loan_id = ''l'', cohort_id = ''c'', identity_currency = ''USD'',
       source_revision = ''r'', model_version = INSTALLMENT_SCHEMA, assumption_id = ''a'', run_id = ''n'',
       identity_measure = Physical \<rparr>,
     product = Personal \<lparr> personal_vintage_ordinal = 1, dti = 0, dti_definition = ''d'', personal_channel = ''c'',
       collection_fraction = 0, collection_cost = 0, personal_recovery_delay_days = 0 \<rparr>,
     request_as_of = 1, request_horizon_days = 30, original_principal = f64_of_int 100,
     opening_principal = f64_of_int 100, opening_accrued_interest = 0, opening_unrecognized_interest = 0,
     opening_fees = 0, initial_state = Performing, note_rate = 0, disclosed_apr = 0,
     request_day_count = Act360, original_payment = f64_of_int 10, payment_dates = [20],
     prepayment_penalty_fraction = 0, accrue_contract_interest_in_nonaccrual = False, request_steps = [] \<rparr>"

theorem payoff_settles_witness:
  "\<exists>q. pay sample_request 7 True sample_loan (debt sample_loan) = Ok q \<and> loan_state q = PaidOff
     \<and> val (balance q) = 0 \<and> val (interest q) = 0 \<and> val (unrecognized q) = 0 \<and> val (fees_due q) = 0"
proof -
  have w: "whole (f64_of_int k) k" if "0 \<le> k" "k \<le> 10 ^ 15" for k
    using int_val [of k] that by (simp add: whole_def)
  have p: "whole (balance sample_loan) 100" "whole (interest sample_loan) 3"
    "whole (unrecognized sample_loan) 2" "whole (fees_due sample_loan) 5"
    by (simp_all add: sample_loan_def w)
  have "whole (debt sample_loan) (100 + 3 + 2 + 5)"
    unfolding debt_def by (intro whole_add p) simp_all
  then have "amount_ok (debt sample_loan)" by (simp add: whole_def amount_ok_val)
  then obtain q where q: "pay sample_request 7 True sample_loan (debt sample_loan) = Ok q"
    using payoff_accepted [of sample_loan sample_request 7] p [THEN whole_small]
    by (auto simp: debt_def sample_loan_def sample_request_def)
  from payoff_settles [OF p _ q] q show ?thesis by simp
qed

section \<open>A payoff that leaves dust\<close>

definition dusty :: Loan where
  "dusty = \<lparr> balance = 1, interest = Fin False 4503599627370496 (- 105), unrecognized = 0, fees_due = 0,
     loan_state = Delinquent, payment_now = 0, previous = 1, collected = 0, cash_events = [],
     recognised = [], loan_points = [], defaulted = None \<rparr>"

lemma dusty_rounding:
  "fadd (Fin False 4503599627370496 (- 52)) (Fin False 4503599627370496 (- 105)) = Fin False 4503599627370496 (- 52)"
  "fadd (Fin False 4503599627370496 (- 52)) (Fin True 4503599627370496 (- 105)) = Fin False 9007199254740991 (- 53)"
  "fadd (Fin False 4503599627370496 (- 105)) (Fin True 4503599627370496 (- 105)) = Fin False 0 (- 1074)"
  "fadd (Fin False 4503599627370496 (- 52)) (Fin True 9007199254740991 (- 53)) = Fin False 4503599627370496 (- 105)"
  "fadd (Fin False 0 (- 1074)) (Fin True 0 (- 1074)) = Fin False 0 (- 1074)"
  by (simp_all add: f64_eval)

lemma dusty_zero:
  "fadd (Fin False 4503599627370496 (- 52)) (Fin s 0 (- 1074)) = Fin False 4503599627370496 (- 52)"
  "fadd (Fin False 9007199254740991 (- 53)) (Fin s 0 (- 1074)) = Fin False 9007199254740991 (- 53)"
  by (simp add: algn_def, simp add: shl_def, simp add: round_z_def shl_def,
      simp add: round_q_def qexp_def shl_def, simp add: rne_div_def pack_def shl_def Let_def)+

lemmas dusty_eval = dusty_rounding dusty_zero one_f64_def zero_f64_def plus_f64_def minus_f64_def uminus_f64_def
  fmin_def fmax_def less_f64_def feq_def less_eq_f64_def algn_def shl_def

lemma dusty_debt: "debt dusty = 1"
  by (simp add: dusty_def debt_def dusty_eval del: fadd.simps)

lemma dusty_waterfall: "case waterfall day dusty 1 of (w, a, b, c, d) \<Rightarrow>
   balance w = Fin False 4503599627370496 (- 105) \<and> d = Fin False 9007199254740991 (- 53)"
  by (simp add: waterfall_def dusty_def dusty_eval Let_def del: fadd.simps)

text \<open>
  The other side of the coin: when the debt is not a whole amount, the sum of the balances may round
  below it. One unit and an accrued interest of two to the minus 53 sum to one unit; the payoff
  pays the interest first and leaves a positive principal, and the loan stays delinquent.
\<close>

theorem payoff_leaves_dust:
  "case pay (r \<lparr> prepayment_penalty_fraction := 0 \<rparr>) day True dusty (debt dusty) of
     Ok q \<Rightarrow> loan_state q = Delinquent \<and> 0 < val (balance q)
   | _ \<Rightarrow> False"
proof -
  obtain w a b c d where w: "waterfall day dusty 1 = (w, a, b, c, d)" by (metis prod_cases5)
  have d: "balance w = Fin False 4503599627370496 (- 105)" "d = Fin False 9007199254740991 (- 53)"
    using dusty_waterfall [of day] by (simp_all add: w)
  have pen: "d * 0 = 0" by (simp add: d f64_eval)
  have "(1 :: f64) + 0 = 1" by (simp add: dusty_eval del: fadd.simps)
  moreover have "amount_ok 0" "amount_ok 1" "small 1" by (simp_all add: amount_ok_val small_def)
  moreover have "\<not> feq (balance w) 0" "0 < val (balance w)" by (simp_all add: d p2_pos)
  moreover have "loan_state w = Delinquent" using waterfall_frame(1) [OF w] by (simp add: dusty_def)
  ultimately show ?thesis
    by (simp add: pay_def dusty_debt w pen overpay_slack [of 1] amount_def require_def)
qed

end
