(* ===== verification/Revolving_State.thy ===== *)
theory Revolving_State
  imports Consumer_Amounts
begin

text \<open>
  Credit cards, \<open>portfolio-model-core/src/products/revolving/state.rs\<close>: the day by day replay of a
  revolving line from explicit draws, payments, fees and credit actions. A \<open>Lot\<close> is one draw or
  fee (the first three are the opening balances of the classes). The local variables of \<open>simulate\<close>
  are the record \<open>Card\<close>; the body of its day loop is split where the source changes phase:
  \<open>card_accrue\<close>, \<open>card_act\<close>, \<open>card_due\<close>, \<open>card_statement\<close>, \<open>close_card_day\<close>. An array \<open>[f64; 3]\<close>
  is a triple, its index \<open>ix\<close> a balance class. Indexing a lot out of range panics.
\<close>

section \<open>Requests and results\<close>

definition CARD_SCHEMA :: string where
  "CARD_SCHEMA = ''consumer-card-1''"

definition MAX_CARD_WORK :: usize where
  "MAX_CARD_WORK = 250000"

datatype BalanceClass = Purchase | CashAdvance | Promotional

record CardRates =
  purchase_rate :: f64
  cash_advance_rate :: f64
  promotional_rate :: f64
  promotional_expiry :: i32
  post_promotion_rate :: f64

definition rate_at :: "CardRates \<Rightarrow> BalanceClass \<Rightarrow> i32 \<Rightarrow> f64" where
  "rate_at rs c d = (case c of
     Purchase \<Rightarrow> purchase_rate rs
   | CashAdvance \<Rightarrow> cash_advance_rate rs
   | Promotional \<Rightarrow> if d < promotional_expiry rs then promotional_rate rs else post_promotion_rate rs)"

record MinimumPayment =
  minimum_floor :: f64
  principal_fraction :: f64
  include_billed_interest :: bool
  include_fees :: bool
  allocation_order :: "BalanceClass list"

record StatementCycle =
  cycle_statement :: i32
  cycle_due :: i32

datatype CardAction =
    Draw BalanceClass f64
  | CardPayment f64
  | CardFee BalanceClass f64
  | SetLimit f64
  | SetRates CardRates
  | SetCardState ConsumerState
  | CardDefault

record CardStep =
  card_step_ordinal :: i32
  card_step_action :: CardAction

type_synonym by_class = "f64 \<times> f64 \<times> f64"

fun class_list :: "by_class \<Rightarrow> f64 list" where
  "class_list (a, b, c) = [a, b, c]"

fun at_class :: "by_class \<Rightarrow> BalanceClass \<Rightarrow> f64" where
  "at_class (a, b, c) Purchase = a"
| "at_class (a, b, c) CashAdvance = b"
| "at_class (a, b, c) Promotional = c"

definition classes :: "BalanceClass list" where
  "classes = [Purchase, CashAdvance, Promotional]"

record CardRequest =
  card_schema :: string
  card_identity :: ConsumerIdentity
  card_as_of :: i32
  card_horizon_days :: nat
  opening_card_principal :: by_class
  opening_billed_interest :: by_class
  opening_unbilled_interest :: by_class
  opening_unrecognized_billed :: by_class
  opening_card_fees :: by_class
  opening_contingent_purchase :: f64
  opening_statement_remaining :: by_class
  opening_minimum_remaining :: f64
  opening_due :: "i32 option"
  initial_limit :: f64
  initial_card_state :: ConsumerState
  initial_rates :: CardRates
  card_day_count :: ActualDayCount
  initial_purchase_grace :: bool
  regain_grace :: bool
  compound_billed_interest :: bool
  minimum_terms :: MinimumPayment
  card_cycles :: "StatementCycle list"
  card_steps :: "CardStep list"
  card_collection_fraction :: f64
  card_collection_cost :: f64
  recovery_delay_days :: nat

record CardStatement =
  statement_ordinal :: i32
  statement_due :: i32
  statement_principal :: by_class
  statement_interest :: by_class
  statement_fees :: by_class
  minimum_payment :: f64
  statement_total :: f64

record CardPoint =
  card_point_ordinal :: i32
  card_point_state :: ConsumerState
  card_point_principal :: by_class
  card_point_billed :: by_class
  card_point_unbilled :: by_class
  card_point_fees :: by_class
  card_point_limit :: f64
  card_point_utilization :: "f64 option"
  card_point_undrawn :: f64
  card_point_grace :: bool

record CardResult =
  card_result_schema :: string
  card_result_identity :: ConsumerIdentity
  card_result_statements :: "CardStatement list"
  card_result_cashflows :: "ConsumerCashEvent list"
  card_result_recognition :: "ConsumerRecognition list"
  card_result_points :: "CardPoint list"
  card_result_default :: "ConsumerDefault option"
  card_result_opening :: f64
  card_result_drawn :: f64
  card_result_collected :: f64
  card_closing_principal :: f64
  card_closing_interest :: f64
  card_closing_unbilled :: f64
  card_closing_unrecognized :: f64
  card_closing_fees :: f64
  card_closing_contingent :: f64

record Lot =
  lot_class :: BalanceClass
  lot_principal :: f64
  lot_interest :: f64
  lot_unbilled :: f64
  lot_unrecognized :: f64
  lot_fees :: f64
  lot_shadow :: f64
  lot_grace :: bool
  lot_statement :: f64

definition lot_total :: "Lot \<Rightarrow> f64" where
  "lot_total l = lot_principal l + lot_interest l + lot_fees l"

definition class_sum :: "(Lot \<Rightarrow> f64) \<Rightarrow> Lot list \<Rightarrow> BalanceClass \<Rightarrow> f64" where
  "class_sum f lots c = foldl (\<lambda>a l. if lot_class l = c then a + f l else a) 0 lots"

definition class_sums :: "(Lot \<Rightarrow> f64) \<Rightarrow> Lot list \<Rightarrow> by_class" where
  "class_sums f lots = (class_sum f lots Purchase, class_sum f lots CashAdvance, class_sum f lots Promotional)"

definition lot_totals :: "Lot list \<Rightarrow> by_class \<times> by_class \<times> by_class" where
  "lot_totals lots = (class_sums lot_principal lots, class_sums lot_interest lots, class_sums lot_fees lots)"

section \<open>Admission\<close>

definition card_rates :: "CardRates \<Rightarrow> (string, unit) result" where
  "card_rates v = and_then (for_each [purchase_rate v, cash_advance_rate v, promotional_rate v,
       post_promotion_rate v] consumer_rate) (\<lambda>_. validate_ordinal (promotional_expiry v))"

definition opening_amounts :: "CardRequest \<Rightarrow> f64 list" where
  "opening_amounts r = class_list (opening_card_principal r) @ class_list (opening_billed_interest r)
     @ class_list (opening_unbilled_interest r) @ class_list (opening_card_fees r)"

definition admit_statement_remaining :: "CardRequest \<Rightarrow> (string, unit) result" where
  "admit_statement_remaining r = for_each classes (\<lambda>c.
     let v = at_class (opening_statement_remaining r) c in
     and_then (amount v ''opening statement remaining'') (\<lambda>_.
     require (\<not> at_class (opening_card_principal r) c + at_class (opening_billed_interest r) c
                + at_class (opening_card_fees r) c < v)
       ''opening statement rights exceed opening billed debt'' (Ok ())))"

definition admit_unrecognized :: "CardRequest \<Rightarrow> (string, unit) result" where
  "admit_unrecognized r = for_each classes (\<lambda>c.
     let v = at_class (opening_unrecognized_billed r) c in
     and_then (amount v ''opening unrecognized billed interest'') (\<lambda>_.
     require (\<not> at_class (opening_billed_interest r) c < v)
       ''unrecognized billed interest exceeds billed interest'' (Ok ())))"

definition opening_due_ordinal :: "CardRequest \<Rightarrow> i32 \<Rightarrow> (string, i32) result" where
  "opening_due_ordinal r fin = (let opening_statement = fsum (class_list (opening_statement_remaining r)) in
     require (\<not> opening_statement < opening_minimum_remaining r) ''opening minimum exceeds remaining statement''
      (case opening_due r of
         Some d \<Rightarrow> and_then (validate_ordinal d) (\<lambda>_.
           require (\<not> (d < card_as_of r \<or> fin < d)) ''opening due date must be within full horizon'' (Ok d))
       | None \<Rightarrow> require (\<not> (\<not> feq opening_statement 0 \<or> \<not> feq (opening_minimum_remaining r) 0))
           ''opening statement requires explicit due date'' (i32_sub (card_as_of r) 1)))"

definition admit_cycle :: "CardRequest \<Rightarrow> i32 \<Rightarrow> i32 \<Rightarrow> StatementCycle \<Rightarrow> (string, i32) result" where
  "admit_cycle r fin previous_due c =
     and_then (validate_ordinal (cycle_statement c)) (\<lambda>_.
     and_then (validate_ordinal (cycle_due c)) (\<lambda>_.
     require (\<not> (cycle_statement c \<le> previous_due \<or> cycle_due c \<le> cycle_statement c
                \<or> fin < cycle_due c \<or> cycle_statement c < card_as_of r))
       ''card cycles must be ordered nonoverlapping statement/due intervals within full horizon''
       (Ok (cycle_due c))))"

definition admit_card_action :: "CardAction \<Rightarrow> (string, unit) result" where
  "admit_card_action a = (case a of
     Draw _ v \<Rightarrow> amount v ''card action''
   | CardPayment v \<Rightarrow> amount v ''card action''
   | CardFee _ v \<Rightarrow> amount v ''card action''
   | SetLimit v \<Rightarrow> amount v ''card action''
   | SetRates v \<Rightarrow> card_rates v
   | SetCardState s \<Rightarrow> require (s \<noteq> Default \<and> s \<noteq> PaidOff)
       ''card terminal credit state requires default action; zero balance remains an open line'' (Ok ())
   | CardDefault \<Rightarrow> Ok ())"

definition admit_card_step :: "i32 \<Rightarrow> i32 \<Rightarrow> CardStep \<Rightarrow> (string, i32) result" where
  "admit_card_step fin prev s =
     and_then (validate_ordinal (card_step_ordinal s)) (\<lambda>_.
     require (\<not> (card_step_ordinal s < prev \<or> fin < card_step_ordinal s))
       ''card actions must be ordered within horizon; equal dates preserve order''
    (and_then (admit_card_action (card_step_action s)) (\<lambda>_. Ok (card_step_ordinal s))))"

fun adds_lot :: "CardAction \<Rightarrow> bool" where
  "adds_lot (Draw _ _) = True"
| "adds_lot (CardFee _ _) = True"
| "adds_lot _ = False"

definition admit_work :: "CardRequest \<Rightarrow> (string, unit) result" where
  "admit_work r = (let lot_count = 3 + length (filter (\<lambda>s. adds_lot (card_step_action s)) (card_steps r)) in
     require (case usize_checked_mul (card_horizon_days r + 1) (lot_count + length (card_cycles r)) of
         None \<Rightarrow> False | Some work \<Rightarrow> \<not> MAX_CARD_WORK < work)
       ''card daily work admission exceeded'' (Ok ()))"

definition card_terms :: "CardRequest \<Rightarrow> (string, unit) result" where
  "card_terms r =
     and_then (consumer_day_count (card_day_count r)) (\<lambda>_.
     and_then (card_rates (initial_rates r)) (\<lambda>_.
     and_then (fraction (card_collection_fraction r) ''card collections'') (\<lambda>_.
     and_then (amount (card_collection_cost r) ''collection cost'') (\<lambda>_.
     and_then (amount (initial_limit r) ''card limit'') (\<lambda>_.
     and_then (amount (minimum_floor (minimum_terms r)) ''minimum floor'') (\<lambda>_.
     fraction (principal_fraction (minimum_terms r)) ''minimum principal fraction''))))))"

definition card_opening :: "CardRequest \<Rightarrow> (string, unit) result" where
  "card_opening r =
     and_then (for_each (opening_amounts r) (\<lambda>v. amount v ''opening card amount'')) (\<lambda>_.
     let opening = fsum (opening_amounts r) in
     and_then (amount opening ''opening card total'') (\<lambda>_.
     and_then (amount (opening_contingent_purchase r) ''opening contingent interest'') (\<lambda>_.
     and_then (amount (opening + opening_contingent_purchase r) ''all opening card rights'') (\<lambda>_.
     require (\<not> (\<not> initial_purchase_grace r \<and> \<not> feq (opening_contingent_purchase r) 0))
       ''opening contingent interest requires purchase grace''
    (and_then (amount (opening_minimum_remaining r) ''opening minimum remaining'') (\<lambda>_.
     and_then (admit_statement_remaining r) (\<lambda>_. admit_unrecognized r)))))))"

definition card_validate :: "CardRequest \<Rightarrow> (string, unit) result" where
  "card_validate r =
     require (\<not> card_schema r \<noteq> CARD_SCHEMA) ''card schema mismatch''
    (and_then (consumer_identity (card_identity r) CARD_SCHEMA) (\<lambda>_.
     and_then (horizon (card_as_of r) (card_horizon_days r)) (\<lambda>fin.
     and_then (card_terms r) (\<lambda>_.
     and_then (card_opening r) (\<lambda>_.
     and_then (opening_due_ordinal r fin) (\<lambda>opening_due_day.
     require (\<not> (initial_card_state r = Default \<or> initial_card_state r = PaidOff))
       ''card initial state must be live''
    (require (\<not> (length (allocation_order (minimum_terms r)) \<noteq> 3
                \<or> card (set (allocation_order (minimum_terms r))) \<noteq> 3))
       ''minimum allocation order must name all three balance classes once''
    (require (\<not> (MAX_CONSUMER_EVENTS < length (card_steps r) + length (card_cycles r)
                \<or> MAX_CONSUMER_DAYS < recovery_delay_days r))
       ''card event/tail admission exceeded''
    (and_then (admit_work r) (\<lambda>_.
     and_then (fold_res (admit_cycle r fin) opening_due_day (card_cycles r)) (\<lambda>_.
     and_then (fold_res (admit_card_step fin) (card_as_of r) (card_steps r)) (\<lambda>_. Ok ()))))))))))))"

section \<open>Payments\<close>

record Paid =
  paid_principal :: f64
  paid_interest :: f64
  paid_fees :: f64
  paid_unrecognized :: f64

definition nothing_paid :: Paid where
  "nothing_paid = \<lparr> paid_principal = 0, paid_interest = 0, paid_fees = 0, paid_unrecognized = 0 \<rparr>"

text \<open>
  The body of the loop of \<open>allocate\<close>: fees, posted interest, then principal of one lot. The result
  is the lot, what is left of the payment, and what has been paid.
\<close>

definition pay_lot :: "Lot \<Rightarrow> f64 \<Rightarrow> Paid \<Rightarrow> Lot \<times> f64 \<times> Paid" where
  "pay_lot l cash paid = (let
     f = fmin cash (lot_fees l);
     rest = cash - f;
     i = fmin rest (lot_interest l);
     unrec = fmax (i - (lot_interest l - lot_unrecognized l)) 0;
     rest' = rest - i;
     p = fmin rest' (lot_principal l);
     before = lot_principal l;
     now = before - p
     in (l \<lparr> lot_fees := lot_fees l - f,
             lot_unrecognized := lot_unrecognized l - unrec,
             lot_interest := lot_interest l - i,
             lot_principal := now,
             lot_shadow := (if 0 < before then lot_shadow l * (now / before) else lot_shadow l),
             lot_statement := fmax (lot_statement l - f - i - p) 0 \<rparr>,
         rest' - p,
         \<lparr> paid_principal = paid_principal paid + p, paid_interest = paid_interest paid + i,
           paid_fees = paid_fees paid + f, paid_unrecognized = paid_unrecognized paid + unrec \<rparr>))"

fun allocate :: "Lot list \<Rightarrow> nat list \<Rightarrow> f64 \<Rightarrow> Paid \<Rightarrow> (string, Lot list \<times> Paid) result" where
  "allocate lots [] cash paid = Ok (lots, paid)"
| "allocate lots (j # order) cash paid =
     (if cash \<le> 0 then Ok (lots, paid)
      else if length lots \<le> j then Panic
      else case pay_lot (lots ! j) cash paid of
        (l, rest, paid') \<Rightarrow> allocate (lots[j := l]) order rest paid')"

definition minimum_order :: "CardRequest \<Rightarrow> Lot list \<Rightarrow> nat list" where
  "minimum_order r lots = concat (map (\<lambda>c. filter (\<lambda>j. lot_class (lots ! j) = c) [0..<length lots])
     (allocation_order (minimum_terms r)))"

text \<open>
  \<open>f64::total_cmp\<close> compares the bits of its arguments as sign and magnitude; of the canonical
  triple the magnitude is the integer below.
\<close>

fun magnitude :: "f64 \<Rightarrow> int" where
  "magnitude (Fin s m e) = (e + 1074) * 2 ^ 52 + m"
| "magnitude (Inf s) = 2047 * 2 ^ 52"
| "magnitude NaN = 2047 * 2 ^ 52 + 2 ^ 51"

fun total_key :: "f64 \<Rightarrow> int" where
  "total_key (Fin True m e) = - magnitude (Fin True m e) - 1"
| "total_key (Inf True) = - magnitude (Inf True) - 1"
| "total_key x = magnitude x"

text \<open>Descending rate, then ascending index: the stable sort of the indices.\<close>

definition excess_order :: "CardRates \<Rightarrow> i32 \<Rightarrow> Lot list \<Rightarrow> nat list" where
  "excess_order rs day lots = sort_key (\<lambda>j. - total_key (rate_at rs (lot_class (lots ! j)) day)) [0..<length lots]"

section \<open>The replay\<close>

record Card =
  lots :: "Lot list"
  limit :: f64
  card_state :: ConsumerState
  rates_now :: CardRates
  purchase_grace :: bool
  minimum_remaining :: f64
  drawn :: f64
  collected_principal :: f64
  card_cash :: "ConsumerCashEvent list"
  card_recognition :: "ConsumerRecognition list"
  card_points :: "CardPoint list"
  statements :: "CardStatement list"
  card_defaulted :: "ConsumerDefault option"

definition opening_lot :: "CardRequest \<Rightarrow> BalanceClass \<Rightarrow> Lot" where
  "opening_lot r c = \<lparr> lot_class = c, lot_principal = at_class (opening_card_principal r) c,
     lot_interest = at_class (opening_billed_interest r) c,
     lot_unbilled = at_class (opening_unbilled_interest r) c,
     lot_unrecognized = at_class (opening_unrecognized_billed r) c,
     lot_fees = at_class (opening_card_fees r) c,
     lot_shadow = (if c = Purchase then opening_contingent_purchase r else 0),
     lot_grace = (c = Purchase \<and> initial_purchase_grace r),
     lot_statement = at_class (opening_statement_remaining r) c \<rparr>"

definition opening_card :: "CardRequest \<Rightarrow> Card" where
  "opening_card r = \<lparr> lots = map (opening_lot r) classes, limit = initial_limit r,
     card_state = initial_card_state r, rates_now = initial_rates r,
     purchase_grace = initial_purchase_grace r, minimum_remaining = opening_minimum_remaining r,
     drawn = 0, collected_principal = 0, card_cash = [], card_recognition = [], card_points = [],
     statements = [], card_defaulted = None \<rparr>"

definition recognise :: "string \<Rightarrow> i32 \<Rightarrow> i32 \<Rightarrow> f64 \<Rightarrow> Card \<Rightarrow> Card" where
  "recognise origin start finish v c = c \<lparr> card_recognition := card_recognition c @
     [\<lparr> origin_id = origin, recognition_start = start, recognition_end = finish, recognition_interest = v \<rparr>] \<rparr>"

text \<open>The prior day's interest on the lot at an index.\<close>

definition accrue_lot :: "CardRequest \<Rightarrow> i32 \<Rightarrow> f64 \<Rightarrow> Card \<Rightarrow> nat \<Rightarrow> (string, Card) result" where
  "accrue_lot r day tau c j = (let
     l = lots c ! j;
     base = lot_principal l + (if compound_billed_interest r then lot_interest l else 0);
     earned = base * rate_at (rates_now c) (lot_class l) (day - 1) * tau
     in and_then (amount earned ''card daily interest'') (\<lambda>_.
     Ok (if lot_grace l
         then c \<lparr> lots := (lots c)[j := l \<lparr> lot_shadow := lot_shadow l + earned \<rparr>] \<rparr>
         else let c' = c \<lparr> lots := (lots c)[j := l \<lparr> lot_unbilled := lot_unbilled l + earned \<rparr>] \<rparr> in
           if \<not> feq earned 0 then recognise (''lot-'' @ digits j) (day - 1) day earned c' else c')))"

definition card_accrue :: "CardRequest \<Rightarrow> i32 \<Rightarrow> Card \<Rightarrow> (string, Card) result" where
  "card_accrue r day c =
     (if card_as_of r < day \<and> \<not> (card_state c = Default \<or> card_state c = Nonaccrual) then
        and_then (i32_sub day 1) (\<lambda>yesterday.
        and_then (actual_year_fraction yesterday day (card_day_count r)) (\<lambda>tau.
        fold_res (accrue_lot r day tau) c [0..<length (lots c)]))
      else Ok c)"

definition owed :: "Card \<Rightarrow> f64" where
  "owed c = fsum (map lot_total (lots c))"

definition card_draw :: "i32 \<Rightarrow> Card \<Rightarrow> BalanceClass \<Rightarrow> f64 \<Rightarrow> (string, Card) result" where
  "card_draw day c cl a =
     require (card_state c = Performing) ''card draws require performing state''
    (require (\<not> limit c < owed c + a) ''card draw exceeds available line including billed charges''
      (Ok (c \<lparr> lots := lots c @ [\<lparr> lot_class = cl, lot_principal = a, lot_interest = 0, lot_unbilled = 0,
                 lot_unrecognized = 0, lot_fees = 0, lot_shadow = 0,
                 lot_grace = (cl = Purchase \<and> purchase_grace c), lot_statement = 0 \<rparr>],
              drawn := drawn c + a,
              card_cash := card_cash c @ [\<lparr> cash_event_id = ''draw-'' @ digits (length (card_cash c)),
                 cash_ordinal = day, cash_kind = ''draw'', cash_principal = - a, cash_interest_part = 0,
                 cash_fees = 0 \<rparr>] \<rparr>)))"

definition card_fee :: "Card \<Rightarrow> BalanceClass \<Rightarrow> f64 \<Rightarrow> Card" where
  "card_fee c cl a = c \<lparr> lots := lots c @ [\<lparr> lot_class = cl, lot_principal = 0, lot_interest = 0,
     lot_unbilled = 0, lot_unrecognized = 0, lot_fees = a, lot_shadow = 0, lot_grace = False,
     lot_statement = 0 \<rparr>] \<rparr>"

text \<open>\<open>1e-9\<close>.\<close>

definition card_slack :: f64 where
  "card_slack = f64_lit 1 (10 ^ 9)"

definition settle :: "CardRequest \<Rightarrow> i32 \<Rightarrow> Card \<Rightarrow> f64 \<Rightarrow> (string, Lot list \<times> Paid) result" where
  "settle r day c a = (let minimum = fmin a (minimum_remaining c) in
     and_then (allocate (lots c) (minimum_order r (lots c)) minimum nothing_paid) (\<lambda>(ls, paid).
     allocate ls (excess_order (rates_now c) day ls) (a - minimum) paid))"

definition card_pay :: "CardRequest \<Rightarrow> i32 \<Rightarrow> Card \<Rightarrow> f64 \<Rightarrow> (string, Card) result" where
  "card_pay r day c a =
     require (\<not> owed c + card_slack < a) ''card payment exceeds debt; refund/credit balance unsupported''
    (and_then (settle r day c a) (\<lambda>(ls, paid).
     let c' = c \<lparr> lots := ls, minimum_remaining := minimum_remaining c - fmin a (minimum_remaining c) \<rparr>;
         c' = (if \<not> feq (paid_unrecognized paid) 0
               then recognise ''nonaccrual-cash-basis'' day day (paid_unrecognized paid) c' else c')
     in Ok (c' \<lparr> collected_principal := collected_principal c' + paid_principal paid,
                 card_cash := card_cash c' @ [\<lparr> cash_event_id = ''payment-'' @ digits (length (card_cash c')),
                    cash_ordinal = day, cash_kind = ''payment'', cash_principal = paid_principal paid,
                    cash_interest_part = paid_interest paid, cash_fees = paid_fees paid \<rparr>] \<rparr>)))"

definition default_terms :: "CardRequest \<Rightarrow> i32 \<Rightarrow> i32 \<Rightarrow> Lot list \<Rightarrow> ConsumerDefault" where
  "default_terms r day recovery_day ls = (case lot_totals ls of (p, i, f) \<Rightarrow> let
     pr = fsum (class_list p);
     gross = pr * card_collection_fraction r;
     net = fmax (gross - card_collection_cost r) 0
     in \<lparr> default_ordinal = day, default_principal = pr,
          default_accrued_interest = fsum (class_list i) + fsum (map lot_unbilled ls),
          recognized_accrued_interest = fsum (class_list i)
            + fsum (map (\<lambda>l. lot_unbilled l - lot_unrecognized l) ls),
          unrecognized_contract_interest = fsum (map lot_unrecognized ls),
          default_fees = fsum (class_list f), gross_recovery = gross,
          recovery_cost = card_collection_cost r, net_recovery = net,
          principal_loss = pr - net, recovery_ordinal = recovery_day \<rparr>)"

definition card_default :: "CardRequest \<Rightarrow> i32 \<Rightarrow> i32 \<Rightarrow> Card \<Rightarrow> (string, Card) result" where
  "card_default r fin day c =
     and_then (ok_or (i32_checked_add day (i32_of_u32 (recovery_delay_days r))) ''card recovery date overflow'') (\<lambda>recovery_day.
     require (\<not> fin < recovery_day) ''full card horizon must retain recovery tail''
      (let d = default_terms r day recovery_day (lots c);
           net = net_recovery d;
           uncovered_cost = fmax (card_collection_cost r - gross_recovery d) 0;
           c' = c \<lparr> card_defaulted := Some d \<rparr>;
           c' = (if \<not> feq net 0 \<or> \<not> feq uncovered_cost 0
                 then c' \<lparr> card_cash := card_cash c' @ [\<lparr> cash_event_id = ''recovery-0'', cash_ordinal = recovery_day,
                        cash_kind = ''recovery'', cash_principal = net, cash_interest_part = 0,
                        cash_fees = - uncovered_cost \<rparr>] \<rparr>
                 else c')
       in Ok (c' \<lparr> lots := [], card_state := Default, limit := 0, purchase_grace := False, minimum_remaining := 0 \<rparr>)))"

definition card_act :: "CardRequest \<Rightarrow> i32 \<Rightarrow> i32 \<Rightarrow> Card \<Rightarrow> CardAction \<Rightarrow> (string, Card) result" where
  "card_act r fin day c action =
     require (card_state c \<noteq> Default) ''card action after default''
      (case action of
         Draw cl a \<Rightarrow> card_draw day c cl a
       | CardFee cl a \<Rightarrow> Ok (card_fee c cl a)
       | CardPayment a \<Rightarrow> card_pay r day c a
       | SetLimit a \<Rightarrow> Ok (c \<lparr> limit := a \<rparr>)
       | SetRates v \<Rightarrow> Ok (c \<lparr> rates_now := v \<rparr>)
       | SetCardState s \<Rightarrow> Ok (c \<lparr> card_state := s \<rparr>)
       | CardDefault \<Rightarrow> card_default r fin day c)"

definition day_actions :: "CardRequest \<Rightarrow> i32 \<Rightarrow> CardAction list" where
  "day_actions r day = map card_step_action (filter (\<lambda>s. card_step_ordinal s = day) (card_steps r))"

text \<open>The loss of grace of the lot at an index, on a due date that leaves a statement unpaid.\<close>

definition lose_grace :: "i32 \<Rightarrow> Card \<Rightarrow> nat \<Rightarrow> Card" where
  "lose_grace day c j = (let l = lots c ! j in
     if lot_grace l then
       let charged = \<not> feq (lot_shadow l) 0;
           l1 = (if charged then l \<lparr> lot_interest := lot_interest l + lot_shadow l,
                   lot_unrecognized := (if card_state c = Nonaccrual then lot_unrecognized l + lot_shadow l
                                        else lot_unrecognized l) \<rparr>
                 else l);
           c' = c \<lparr> lots := (lots c)[j := l1 \<lparr> lot_shadow := 0, lot_grace := False \<rparr>] \<rparr>
       in if charged \<and> card_state c \<noteq> Nonaccrual
          then recognise (''grace-loss-lot-'' @ digits j) day day (lot_shadow l) c' else c'
     else c)"

definition due_on :: "CardRequest \<Rightarrow> i32 \<Rightarrow> bool" where
  "due_on r day \<longleftrightarrow> opening_due r = Some day \<or> (\<exists>y \<in> set (card_cycles r). cycle_due y = day)"

definition card_due :: "CardRequest \<Rightarrow> i32 \<Rightarrow> Card \<Rightarrow> Card" where
  "card_due r day c =
     (if due_on r day then let
        unpaid = fsum (map lot_statement (lots c));
        c' = (if card_slack < unpaid
              then foldl (lose_grace day) (c \<lparr> purchase_grace := False \<rparr>) [0..<length (lots c)]
              else if regain_grace r then c \<lparr> purchase_grace := True \<rparr> else c)
        in c' \<lparr> lots := map (\<lambda>l. l \<lparr> lot_statement := 0 \<rparr>) (lots c') \<rparr>
      else c)"

definition minimum_due :: "MinimumPayment \<Rightarrow> f64 \<Rightarrow> f64 \<Rightarrow> f64 \<Rightarrow> f64" where
  "minimum_due m pr billed fe = fmin (fmax (minimum_floor m)
     (pr * principal_fraction m + (if include_billed_interest m then billed else 0)
        + (if include_fees m then fe else 0))) (pr + billed + fe)"

definition bill_lot :: "Lot \<Rightarrow> Lot" where
  "bill_lot l = l \<lparr> lot_interest := lot_interest l + lot_unbilled l, lot_unbilled := 0 \<rparr>"

definition card_statement :: "CardRequest \<Rightarrow> i32 \<Rightarrow> Card \<Rightarrow> Card" where
  "card_statement r day c = (case find (\<lambda>y. cycle_statement y = day) (card_cycles r) of
     None \<Rightarrow> c
   | Some y \<Rightarrow> let ls = map bill_lot (lots c) in
       case lot_totals ls of (p, i, f) \<Rightarrow> let
         pr = fsum (class_list p);
         billed = fsum (class_list i);
         fe = fsum (class_list f);
         m = minimum_due (minimum_terms r) pr billed fe
         in c \<lparr> lots := map (\<lambda>l. l \<lparr> lot_statement := lot_total l \<rparr>) ls, minimum_remaining := m,
                statements := statements c @ [\<lparr> statement_ordinal = day, statement_due = cycle_due y,
                  statement_principal = p, statement_interest = i, statement_fees = f,
                  minimum_payment = m, statement_total = pr + billed + fe \<rparr>] \<rparr>)"

definition close_card_day :: "i32 \<Rightarrow> Card \<Rightarrow> (string, Card) result" where
  "close_card_day day c = (case lot_totals (lots c) of (p, i, f) \<Rightarrow> let
     pr = fsum (class_list p);
     debt = pr + fsum (class_list i) + fsum (class_list f);
     unbilled = class_sums lot_unbilled (lots c)
     in and_then (for_each [(debt, ''card debt''), (drawn c, ''card cumulative draws''),
          (collected_principal c, ''card cumulative principal payments'')] (\<lambda>(v, name). amount v name)) (\<lambda>_.
        and_then (for_each (lots c) (\<lambda>l. amount (lot_shadow l) ''contingent grace interest'')) (\<lambda>_.
        and_then (amount (debt + fsum (class_list unbilled) + fsum (map lot_shadow (lots c))) ''total card rights'') (\<lambda>_.
        Ok (c \<lparr> card_points := card_points c @ [\<lparr> card_point_ordinal = day, card_point_state = card_state c,
              card_point_principal = p, card_point_billed = i, card_point_unbilled = unbilled,
              card_point_fees = f, card_point_limit = limit c,
              card_point_utilization = (if 0 < limit c then Some (debt / limit c) else None),
              card_point_undrawn = fmax (limit c - debt) 0, card_point_grace = purchase_grace c \<rparr>] \<rparr>)))))"

definition card_day :: "CardRequest \<Rightarrow> i32 \<Rightarrow> Card \<Rightarrow> i32 \<Rightarrow> (string, Card) result" where
  "card_day r fin c day =
     and_then (card_accrue r day c) (\<lambda>c.
     and_then (fold_res (card_act r fin day) c (day_actions r day)) (\<lambda>c.
     close_card_day day (if card_state c \<noteq> Default then card_statement r day (card_due r day c) else c)))"

text \<open>\<open>1e-8_f64.max((opening + drawn) * 1e-12)\<close>.\<close>

definition card_conserved :: "f64 \<Rightarrow> Card \<Rightarrow> f64 \<Rightarrow> bool" where
  "card_conserved opening c closing \<longleftrightarrow>
     \<not> fmax (f64_lit 1 (10 ^ 8)) ((opening + drawn c) * f64_lit 1 (10 ^ 12))
       < fabs (opening + drawn c - collected_principal c
           - (case card_defaulted c of None \<Rightarrow> 0 | Some d \<Rightarrow> default_principal d) - closing)"

definition card_report :: "CardRequest \<Rightarrow> Card \<Rightarrow> (string, CardResult) result" where
  "card_report r c = (case lot_totals (lots c) of (p, i, f) \<Rightarrow> let
     closing = fsum (class_list p);
     opening = fsum (class_list (opening_card_principal r))
     in require (card_conserved opening c closing) ''card principal conservation failed''
      (Ok \<lparr> card_result_schema = CARD_SCHEMA, card_result_identity = card_identity r,
            card_result_statements = statements c,
            card_result_cashflows = sort_key cash_ordinal (card_cash c),
            card_result_recognition = card_recognition c, card_result_points = card_points c,
            card_result_default = card_defaulted c, card_result_opening = opening,
            card_result_drawn = drawn c, card_result_collected = collected_principal c,
            card_closing_principal = closing, card_closing_interest = fsum (class_list i),
            card_closing_unbilled = fsum (map lot_unbilled (lots c)),
            card_closing_unrecognized = fsum (map lot_unrecognized (lots c)),
            card_closing_fees = fsum (class_list f),
            card_closing_contingent = fsum (map lot_shadow (lots c)) \<rparr>))"

definition simulate :: "CardRequest \<Rightarrow> (string, CardResult) result" where
  "simulate r =
     and_then (card_validate r) (\<lambda>_.
     and_then (horizon (card_as_of r) (card_horizon_days r)) (\<lambda>fin.
     and_then (fold_res (card_day r fin) (opening_card r) [card_as_of r..fin]) (card_report r)))"

end
