(* ===== verification/Revolving_Facts.thy ===== *)
theory Revolving_Facts
  imports Revolving_State
begin

text \<open>
  Lemmas and properties of the card replay: it never panics, bills every cycle once, reports every
  day, and a default closes the line for good; payments respect the contractual order of lots and
  are accounted for exactly.
\<close>

section \<open>Payments stay inside the lots\<close>

lemma allocate_length: "allocate ls order cash paid = Ok (ls', out) \<Longrightarrow> length ls' = length ls"
  by (induction ls order cash paid rule: allocate.induct) (auto split: if_splits prod.splits)

lemma allocate_no_Panic: "\<forall>j \<in> set order. j < length ls \<Longrightarrow> allocate ls order cash paid \<noteq> Panic"
  by (induction ls order cash paid rule: allocate.induct) (auto split: prod.splits)

lemma minimum_order_set:
  "set (minimum_order r ls) = {j. j < length ls \<and> lot_class (ls ! j) \<in> set (allocation_order (minimum_terms r))}"
  by (auto simp: minimum_order_def)

lemma excess_order_set [simp]: "set (excess_order rs day ls) = {..<length ls}"
  by (auto simp: excess_order_def set_sort)

lemma settle_no_Panic: "settle r day c a \<noteq> Panic"
  by (auto simp: settle_def Let_def allocate_no_Panic minimum_order_set dest: allocate_length)

section \<open>One action\<close>

text \<open>
  What an action may change of the record of the past: it appends at most one cash event. Until the
  default, identities are \<open>draw-n\<close> or \<open>payment-n\<close> with \<open>n\<close> the position in the list.
\<close>

definition event_id_at :: "nat \<Rightarrow> string \<Rightarrow> bool" where
  "event_id_at n e \<longleftrightarrow> e = ''draw-'' @ digits n \<or> e = ''payment-'' @ digits n"

definition past :: "Card \<Rightarrow> CardPoint list \<times> CardStatement list" where
  "past c = (card_points c, statements c)"

lemma recognise_fields [simp]:
  "lots (recognise s a b v c) = lots c" "limit (recognise s a b v c) = limit c"
  "card_state (recognise s a b v c) = card_state c" "rates_now (recognise s a b v c) = rates_now c"
  "purchase_grace (recognise s a b v c) = purchase_grace c"
  "minimum_remaining (recognise s a b v c) = minimum_remaining c" "drawn (recognise s a b v c) = drawn c"
  "collected_principal (recognise s a b v c) = collected_principal c"
  "card_cash (recognise s a b v c) = card_cash c" "card_points (recognise s a b v c) = card_points c"
  "statements (recognise s a b v c) = statements c" "card_defaulted (recognise s a b v c) = card_defaulted c"
  by (simp_all add: recognise_def)

lemma card_draw_frame:
  assumes "card_draw day c cl a = Ok d"
  shows "past d = past c" "card_state d = card_state c" "card_defaulted d = card_defaulted c"
    and "\<exists>e. card_cash d = card_cash c @ [e] \<and> cash_ordinal e = day \<and> event_id_at (length (card_cash c)) (cash_event_id e)"
  using assms by (auto simp: card_draw_def past_def event_id_at_def)

lemma card_pay_frame:
  assumes "card_pay r day c a = Ok d"
  shows "past d = past c" "card_state d = card_state c" "card_defaulted d = card_defaulted c"
    and "\<exists>e. card_cash d = card_cash c @ [e] \<and> cash_ordinal e = day \<and> event_id_at (length (card_cash c)) (cash_event_id e)"
  using assms by (auto simp: card_pay_def past_def event_id_at_def Let_def split: prod.splits)

definition closed_card :: "Card \<Rightarrow> bool" where
  "closed_card c \<longleftrightarrow> lots c = [] \<and> limit c = 0 \<and> \<not> purchase_grace c \<and> minimum_remaining c = 0"

lemma card_default_frame:
  assumes "card_default r fin day c = Ok d" "recovery_delay_days r \<le> MAX_CONSUMER_DAYS"
  shows "past d = past c" "card_state d = Default" "closed_card d"
    and "\<exists>e. card_defaulted d = Some e \<and> default_ordinal e = day"
    and "card_cash d = card_cash c
      \<or> (\<exists>e. card_cash d = card_cash c @ [e] \<and> day \<le> cash_ordinal e \<and> cash_ordinal e \<le> fin
           \<and> cash_event_id e = ''recovery-0'')"
proof -
  have le: "day \<le> x" if "i32_checked_add day (i32_of_u32 (recovery_delay_days r)) = Some x" for x
    using that assms(2) by (auto simp: i32_checked_add_def i32_of_u32_def MAX_CONSUMER_DAYS_def split: if_splits)
  have o: "default_ordinal (default_terms r day x ls) = day" for x ls
    by (simp add: default_terms_def lot_totals_def Let_def)
  obtain x where x: "i32_checked_add day (i32_of_u32 (recovery_delay_days r)) = Some x" "\<not> fin < x"
    and d: "(let d = default_terms r day x (lots c); net = net_recovery d;
           uncovered_cost = fmax (card_collection_cost r - gross_recovery d) 0;
           c' = c \<lparr> card_defaulted := Some d \<rparr>;
           c' = (if \<not> feq net 0 \<or> \<not> feq uncovered_cost 0
                 then c' \<lparr> card_cash := card_cash c' @ [\<lparr> cash_event_id = ''recovery-0'', cash_ordinal = x,
                        cash_kind = ''recovery'', cash_principal = net, cash_interest_part = 0,
                        cash_fees = - uncovered_cost \<rparr>] \<rparr>
                 else c')
       in c' \<lparr> lots := [], card_state := Default, limit := 0, purchase_grace := False, minimum_remaining := 0 \<rparr>) = d"
    using assms(1) unfolding card_default_def Let_def by (elim and_then_Ok_iff [THEN iffD1, THEN exE]) simp
  show "past d = past c" "card_state d = Default" "closed_card d"
    and "\<exists>e. card_defaulted d = Some e \<and> default_ordinal e = day"
    and "card_cash d = card_cash c
      \<or> (\<exists>e. card_cash d = card_cash c @ [e] \<and> day \<le> cash_ordinal e \<and> cash_ordinal e \<le> fin
           \<and> cash_event_id e = ''recovery-0'')"
    using le [OF x(1)] x(2) unfolding d [symmetric] Let_def
    by (simp_all add: past_def closed_card_def o)
qed

lemma card_pay_no_Panic: "card_pay r day c a \<noteq> Panic"
  by (cases "settle r day c a") (auto simp: settle_no_Panic card_pay_def Let_def split: prod.splits)

lemma card_draw_no_Panic: "card_draw day c cl a \<noteq> Panic"
  by (simp add: card_draw_def)

lemma card_default_no_Panic: "card_default r fin day c \<noteq> Panic"
  by (simp add: card_default_def Let_def)

lemma card_act_no_Panic: "card_act r fin day c a \<noteq> Panic"
  by (cases a) (simp_all add: card_act_def card_pay_no_Panic card_draw_no_Panic card_default_no_Panic)

section \<open>The day\<close>

definition events_dated :: "i32 \<Rightarrow> i32 \<Rightarrow> ConsumerCashEvent list \<Rightarrow> bool" where
  "events_dated lo hi xs \<longleftrightarrow> (\<forall>i < length xs. lo \<le> cash_ordinal (xs ! i) \<and> cash_ordinal (xs ! i) \<le> hi
     \<and> event_id_at i (cash_event_id (xs ! i)))"

definition recovery_tail :: "i32 \<Rightarrow> i32 \<Rightarrow> ConsumerCashEvent list \<Rightarrow> bool" where
  "recovery_tail d fin ys \<longleftrightarrow> ys = [] \<or> (\<exists>z. ys = [z] \<and> cash_event_id z = ''recovery-0''
     \<and> d \<le> cash_ordinal z \<and> cash_ordinal z \<le> fin)"

definition card_cash_ok :: "i32 \<Rightarrow> i32 \<Rightarrow> i32 \<Rightarrow> Card \<Rightarrow> bool" where
  "card_cash_ok lo hi fin c \<longleftrightarrow> (case card_defaulted c of
     None \<Rightarrow> events_dated lo hi (card_cash c)
   | Some e \<Rightarrow> \<exists>xs ys. card_cash c = xs @ ys \<and> events_dated lo (default_ordinal e) xs
       \<and> recovery_tail (default_ordinal e) fin ys)"

definition default_ok :: "i32 \<Rightarrow> i32 \<Rightarrow> Card \<Rightarrow> bool" where
  "default_ok lo hi c \<longleftrightarrow> (card_state c = Default \<longleftrightarrow> card_defaulted c \<noteq> None)
     \<and> (\<forall>e. card_defaulted c = Some e \<longrightarrow> closed_card c \<and> lo \<le> default_ordinal e \<and> default_ordinal e \<le> hi)"

lemma events_dated_more:
  "events_dated lo day xs \<Longrightarrow> lo \<le> day \<Longrightarrow> cash_ordinal e = day \<Longrightarrow> event_id_at (length xs) (cash_event_id e)
   \<Longrightarrow> events_dated lo day (xs @ [e])"
  by (auto simp: events_dated_def nth_append less_Suc_eq)

lemma events_dated_later: "events_dated lo hi xs \<Longrightarrow> hi \<le> hi' \<Longrightarrow> events_dated lo hi' xs"
  by (fastforce simp: events_dated_def)

definition plain_action :: "CardAction \<Rightarrow> bool" where
  "plain_action a \<longleftrightarrow> (case a of
     Draw _ v \<Rightarrow> amount_ok v
   | CardPayment v \<Rightarrow> amount_ok v
   | CardFee _ v \<Rightarrow> amount_ok v
   | SetLimit v \<Rightarrow> amount_ok v
   | SetRates v \<Rightarrow> card_rates v = Ok ()
   | SetCardState s \<Rightarrow> s \<noteq> Default
   | CardDefault \<Rightarrow> True)"

lemma card_act_live: "card_act r fin day c a = Ok d \<Longrightarrow> card_state c \<noteq> Default"
  by (simp add: card_act_def)

lemma card_act_frame:
  assumes a: "card_act r fin day c a = Ok d" and p: "plain_action a" and delay: "recovery_delay_days r \<le> MAX_CONSUMER_DAYS"
    and lo: "lo \<le> day" and c: "default_ok lo day c" "card_cash_ok lo day fin c"
  shows "past d = past c" "default_ok lo day d" "card_cash_ok lo day fin d"
    and "\<forall>e. card_defaulted d = Some e \<longrightarrow> default_ordinal e = day"
proof -
  from c card_act_live [OF a] have n: "card_defaulted c = None" "card_state c \<noteq> Default"
    by (auto simp: default_ok_def)
  with c(2) have ev: "events_dated lo day (card_cash c)" by (simp add: card_cash_ok_def)
  let ?ok = "past d = past c \<and> default_ok lo day d \<and> card_cash_ok lo day fin d
    \<and> (\<forall>e. card_defaulted d = Some e \<longrightarrow> default_ordinal e = day)"
  have keep: ?ok
    if "past d = past c" "card_state d \<noteq> Default" "card_defaulted d = None"
      "card_cash d = card_cash c \<or> (\<exists>e. card_cash d = card_cash c @ [e] \<and> cash_ordinal e = day
         \<and> event_id_at (length (card_cash c)) (cash_event_id e))"
    using that ev events_dated_more [OF ev lo] by (auto simp: default_ok_def card_cash_ok_def)
  have ?ok
  proof (cases a)
    case (Draw cl v)
    with a have "card_draw day c cl v = Ok d" by (simp add: card_act_def)
    from card_draw_frame [OF this] n show ?thesis by (intro keep) auto
  next
    case (CardPayment v)
    with a have "card_pay r day c v = Ok d" by (simp add: card_act_def)
    from card_pay_frame [OF this] n show ?thesis by (intro keep) auto
  next
    case CardDefault
    with a have "card_default r fin day c = Ok d" by (simp add: card_act_def)
    note f = card_default_frame [OF this delay]
    from f(4) obtain e where e: "card_defaulted d = Some e" "default_ordinal e = day" by blast
    have "\<exists>ys. card_cash d = card_cash c @ ys \<and> recovery_tail day fin ys"
      using f(5) by (auto simp: recovery_tail_def)
    then have "card_cash_ok lo day fin d" using ev e by (auto simp: card_cash_ok_def)
    with f(1-3) e lo show ?thesis by (simp add: default_ok_def)
  qed (rule keep; insert a n p; auto simp: card_act_def card_fee_def past_def plain_action_def)+
  then show "past d = past c" "default_ok lo day d" "card_cash_ok lo day fin d"
    and "\<forall>e. card_defaulted d = Some e \<longrightarrow> default_ordinal e = day" by auto
qed

lemma card_acts_frame:
  assumes "fold_res (card_act r fin day) c as = Ok d" "\<forall>a \<in> set as. plain_action a"
    and "recovery_delay_days r \<le> MAX_CONSUMER_DAYS" "lo \<le> day" "default_ok lo day c" "card_cash_ok lo day fin c"
  shows "past d = past c \<and> default_ok lo day d \<and> card_cash_ok lo day fin d"
  by (rule fold_res_inv [where I = "\<lambda>x. past x = past c \<and> default_ok lo day x \<and> card_cash_ok lo day fin x", OF assms(1)])
    (use assms card_act_frame in \<open>metis\<close>)+

lemma card_acts_new:
  assumes "fold_res (card_act r fin day) c as = Ok d" "\<forall>a \<in> set as. plain_action a"
    and "recovery_delay_days r \<le> MAX_CONSUMER_DAYS" "lo \<le> day" "default_ok lo day c" "card_cash_ok lo day fin c"
    and "card_defaulted c = None"
  shows "\<forall>e. card_defaulted d = Some e \<longrightarrow> default_ordinal e = day"
proof -
  have "default_ok lo day d \<and> card_cash_ok lo day fin d \<and> (\<forall>e. card_defaulted d = Some e \<longrightarrow> default_ordinal e = day)"
    by (rule fold_res_inv [where I = "\<lambda>x. default_ok lo day x \<and> card_cash_ok lo day fin x
        \<and> (\<forall>e. card_defaulted x = Some e \<longrightarrow> default_ordinal e = day)", OF assms(1)])
      (use assms card_act_frame in \<open>simp\<close>, use assms card_act_frame in \<open>metis\<close>)
  then show ?thesis by simp
qed

lemma card_acts_closed:
  assumes "fold_res (card_act r fin day) c as = Ok d" "card_state c = Default"
  shows "d = c"
  using assms by (cases as) (auto dest: card_act_live)

lemma accrue_lot_frame:
  assumes "accrue_lot r day tau c j = Ok d"
  shows "past d = past c" "card_state d = card_state c" "card_defaulted d = card_defaulted c"
    "card_cash d = card_cash c" "length (lots d) = length (lots c)"
  using assms by (auto simp: accrue_lot_def past_def Let_def split: if_splits)

lemma card_accrue_frame:
  assumes "card_accrue r day c = Ok d"
  shows "past d = past c" "card_state d = card_state c" "card_defaulted d = card_defaulted c" "card_cash d = card_cash c"
    and "card_state c = Default \<Longrightarrow> d = c"
proof -
  have "past d = past c \<and> card_state d = card_state c \<and> card_defaulted d = card_defaulted c \<and> card_cash d = card_cash c"
  proof (cases "card_as_of r < day \<and> \<not> (card_state c = Default \<or> card_state c = Nonaccrual)")
    case True
    with assms obtain tau where "fold_res (accrue_lot r day tau) c [0..<length (lots c)] = Ok d"
      by (auto simp: card_accrue_def)
    then show ?thesis
      by (rule fold_res_inv [where I = "\<lambda>d. past d = past c \<and> card_state d = card_state c
          \<and> card_defaulted d = card_defaulted c \<and> card_cash d = card_cash c"])
        (simp_all add: accrue_lot_frame)
  next
    case False
    with assms have "d = c" unfolding card_accrue_def if_not_P [OF False] by simp
    then show ?thesis by simp
  qed
  then show "past d = past c" "card_state d = card_state c" "card_defaulted d = card_defaulted c" "card_cash d = card_cash c"
    by auto
  show "card_state c = Default \<Longrightarrow> d = c" using assms by (simp add: card_accrue_def)
qed

lemma card_accrue_no_Panic:
  assumes "1 \<le> card_as_of r" "day \<le> MAX_ORDINAL" "card_day_count r = Act360 \<or> card_day_count r = Act365Fixed"
  shows "card_accrue r day c \<noteq> Panic"
proof -
  have "fold_res (accrue_lot r day tau) c js \<noteq> Panic" for tau js
    by (rule fold_res_no_Panic [where I = "\<lambda>_. True"]) (auto simp: accrue_lot_def Let_def)
  moreover have "actual_year_fraction a b (card_day_count r) \<noteq> Panic" for a b
    using assms(3) by (auto simp: actual_year_fraction_def)
  moreover have "in_i32 (day - 1)" if "card_as_of r < day"
    using assms that by (simp add: in_i32_def MAX_ORDINAL_def)
  ultimately show ?thesis by (auto simp: card_accrue_def)
qed

lemma lose_grace_frame [simp]:
  "past (lose_grace day c j) = past c" "card_state (lose_grace day c j) = card_state c"
  "card_defaulted (lose_grace day c j) = card_defaulted c" "card_cash (lose_grace day c j) = card_cash c"
  by (auto simp: lose_grace_def past_def Let_def)

lemma lose_graces_frame [simp]:
  "past (foldl (lose_grace day) c js) = past c" "card_state (foldl (lose_grace day) c js) = card_state c"
  "card_defaulted (foldl (lose_grace day) c js) = card_defaulted c" "card_cash (foldl (lose_grace day) c js) = card_cash c"
  by (induction js arbitrary: c) simp_all

lemma card_due_frame [simp]:
  "past (card_due r day c) = past c" "card_state (card_due r day c) = card_state c"
  "card_defaulted (card_due r day c) = card_defaulted c" "card_cash (card_due r day c) = card_cash c"
proof -
  have "past (c' \<lparr> lots := ls \<rparr>) = past c'" "past (c' \<lparr> purchase_grace := g \<rparr>) = past c'" for c' ls g
    by (simp_all add: past_def)
  then show "past (card_due r day c) = past c" "card_state (card_due r day c) = card_state c"
    "card_defaulted (card_due r day c) = card_defaulted c" "card_cash (card_due r day c) = card_cash c"
    by (simp_all add: card_due_def Let_def)
qed

section \<open>Statements and points\<close>

text \<open>The cycles billed by the end of a day: those before a default.\<close>

definition billed :: "CardRequest \<Rightarrow> i32 \<Rightarrow> Card \<Rightarrow> StatementCycle list" where
  "billed r day c = filter (\<lambda>y. cycle_statement y \<le> day
     \<and> (\<forall>e. card_defaulted c = Some e \<longrightarrow> cycle_statement y < default_ordinal e)) (card_cycles r)"

definition statement_dates :: "CardStatement list \<Rightarrow> (i32 \<times> i32) list" where
  "statement_dates ss = map (\<lambda>s. (statement_ordinal s, statement_due s)) ss"

definition cycle_dates :: "StatementCycle list \<Rightarrow> (i32 \<times> i32) list" where
  "cycle_dates ys = map (\<lambda>y. (cycle_statement y, cycle_due y)) ys"

lemma filter_upto_next:
  assumes "sorted_wrt (<) (map f ys)"
  shows "filter (\<lambda>y. f y \<le> (d :: int)) ys = filter (\<lambda>y. f y \<le> d - 1) ys
    @ (case find (\<lambda>y. f y = d) ys of None \<Rightarrow> [] | Some y \<Rightarrow> [y])"
  using assms
proof (induction ys)
  case (Cons y ys)
  have above: "f y < f z" if "z \<in> set ys" for z using Cons.prems that by simp
  consider "f y < d" | "f y = d" | "d < f y" by linarith
  then show ?case
  proof cases
    case 1
    with Cons show ?thesis by simp
  next
    case 2
    with above have "filter (\<lambda>y. f y \<le> d) ys = []" "filter (\<lambda>y. f y \<le> d - 1) ys = []"
      by (fastforce simp: filter_empty_conv)+
    with 2 show ?thesis by simp
  next
    case 3
    with above have "filter (\<lambda>y. f y \<le> d) ys = []" "filter (\<lambda>y. f y \<le> d - 1) ys = []"
        "find (\<lambda>y. f y = d) ys = None"
      by (fastforce simp: filter_empty_conv find_None_iff)+
    with 3 show ?thesis by simp
  qed
qed simp

lemma card_statement_frame:
  shows "card_points (card_statement r day c) = card_points c" "card_state (card_statement r day c) = card_state c"
    "card_defaulted (card_statement r day c) = card_defaulted c" "card_cash (card_statement r day c) = card_cash c"
    and "statement_dates (statements (card_statement r day c)) = statement_dates (statements c)
      @ cycle_dates (case find (\<lambda>y. cycle_statement y = day) (card_cycles r) of None \<Rightarrow> [] | Some y \<Rightarrow> [y])"
proof -
  show "card_points (card_statement r day c) = card_points c" "card_state (card_statement r day c) = card_state c"
    "card_defaulted (card_statement r day c) = card_defaulted c" "card_cash (card_statement r day c) = card_cash c"
    by (simp_all add: card_statement_def lot_totals_def Let_def split: option.splits)
  show "statement_dates (statements (card_statement r day c)) = statement_dates (statements c)
      @ cycle_dates (case find (\<lambda>y. cycle_statement y = day) (card_cycles r) of None \<Rightarrow> [] | Some y \<Rightarrow> [y])"
  proof (cases "find (\<lambda>y. cycle_statement y = day) (card_cycles r)")
    case None
    then show ?thesis by (simp add: card_statement_def statement_dates_def cycle_dates_def)
  next
    case (Some y)
    then have "cycle_statement y = day" by (auto dest: find_SomeD)
    with Some show ?thesis
      by (simp add: card_statement_def statement_dates_def cycle_dates_def lot_totals_def Let_def)
  qed
qed

definition closed_point :: "CardPoint \<Rightarrow> bool" where
  "closed_point pt \<longleftrightarrow> card_point_state pt = Default \<and> card_point_principal pt = (0, 0, 0)
     \<and> card_point_billed pt = (0, 0, 0) \<and> card_point_unbilled pt = (0, 0, 0) \<and> card_point_fees pt = (0, 0, 0)
     \<and> card_point_limit pt = 0 \<and> card_point_utilization pt = None \<and> \<not> card_point_grace pt"

lemma close_card_day_frame:
  assumes "close_card_day day c = Ok d"
  shows "\<exists>pt. card_points d = card_points c @ [pt] \<and> card_point_ordinal pt = day \<and> card_point_state pt = card_state c
      \<and> (closed_card c \<and> card_state c = Default \<longrightarrow> closed_point pt)"
    and "statements d = statements c" "card_state d = card_state c" "card_defaulted d = card_defaulted c"
    "card_cash d = card_cash c" "closed_card d = closed_card c" "lots d = lots c"
  using assms by (auto simp: close_card_day_def lot_totals_def closed_card_def closed_point_def class_sums_def
      class_sum_def Let_def)

lemma close_card_day_no_Panic: "close_card_day day c \<noteq> Panic"
  using for_each_no_Panic [of "lots c" "\<lambda>l. amount (lot_shadow l) ''contingent grace interest''"]
  by (auto simp: close_card_day_def lot_totals_def Let_def)

text \<open>The state after the day \<open>day\<close>.\<close>

definition points_ok :: "Card \<Rightarrow> bool" where
  "points_ok c \<longleftrightarrow> (\<forall>pt \<in> set (card_points c).
     if (\<exists>e. card_defaulted c = Some e \<and> default_ordinal e \<le> card_point_ordinal pt)
     then closed_point pt else card_point_state pt \<noteq> Default)"

definition card_inv :: "CardRequest \<Rightarrow> i32 \<Rightarrow> i32 \<Rightarrow> Card \<Rightarrow> bool" where
  "card_inv r fin day c \<longleftrightarrow> map card_point_ordinal (card_points c) = [card_as_of r..day]
     \<and> statement_dates (statements c) = cycle_dates (billed r day c)
     \<and> default_ok (card_as_of r) day c \<and> card_cash_ok (card_as_of r) day fin c \<and> points_ok c"

definition card_admitted :: "CardRequest \<Rightarrow> i32 \<Rightarrow> bool" where
  "card_admitted r fin \<longleftrightarrow> 1 \<le> card_as_of r \<and> card_as_of r \<le> fin \<and> fin \<le> MAX_ORDINAL
     \<and> (card_day_count r = Act360 \<or> card_day_count r = Act365Fixed)
     \<and> initial_card_state r \<noteq> Default
     \<and> sorted_wrt (<) (map cycle_statement (card_cycles r))
     \<and> (\<forall>y \<in> set (card_cycles r). card_as_of r \<le> cycle_statement y \<and> cycle_statement y < cycle_due y \<and> cycle_due y \<le> fin)
     \<and> (\<forall>s \<in> set (card_steps r). plain_action (card_step_action s))
     \<and> recovery_delay_days r \<le> MAX_CONSUMER_DAYS
     \<and> set (allocation_order (minimum_terms r)) = UNIV \<and> distinct (allocation_order (minimum_terms r))"

lemma day_actions_plain: "card_admitted r fin \<Longrightarrow> \<forall>a \<in> set (day_actions r day). plain_action a"
  by (auto simp: day_actions_def card_admitted_def)

lemma card_day_no_Panic:
  assumes "card_admitted r fin" "day \<in> set [card_as_of r..fin]"
  shows "card_day r fin c day \<noteq> Panic"
proof -
  have "card_accrue r day c \<noteq> Panic" for c
    by (rule card_accrue_no_Panic) (use assms in \<open>auto simp: card_admitted_def\<close>)
  moreover have "fold_res (card_act r fin day) c as \<noteq> Panic" for c as
    by (rule fold_res_no_Panic [where I = "\<lambda>_. True"]) (simp_all add: card_act_no_Panic)
  ultimately show ?thesis by (simp add: card_day_def close_card_day_no_Panic)
qed

lemma default_ok_later: "default_ok lo (day - 1) c \<Longrightarrow> default_ok lo day c"
  by (auto simp: default_ok_def)

lemma card_cash_ok_later: "card_cash_ok lo (day - 1) fin c \<Longrightarrow> card_cash_ok lo day fin c"
  by (auto simp: card_cash_ok_def split: option.splits elim: events_dated_later)

lemma card_cash_ok_cong:
  "card_defaulted a = card_defaulted c \<Longrightarrow> card_cash a = card_cash c \<Longrightarrow> card_cash_ok lo hi fin a = card_cash_ok lo hi fin c"
  by (simp add: card_cash_ok_def cong: option.case_cong)

lemma billed_next:
  assumes "card_admitted r fin" "card_defaulted d = None" "card_defaulted c = None"
  shows "billed r day d = billed r (day - 1) c
    @ (case find (\<lambda>y. cycle_statement y = day) (card_cycles r) of None \<Rightarrow> [] | Some y \<Rightarrow> [y])"
  using filter_upto_next [of cycle_statement "card_cycles r" day] assms
  by (simp add: billed_def card_admitted_def)

lemma billed_stop:
  assumes "default_ordinal e \<le> day" "card_defaulted d = Some e" "card_defaulted c = Some e \<or> card_defaulted c = None \<and> default_ordinal e = day"
  shows "billed r day d = billed r (day - 1) c"
  using assms unfolding billed_def by (intro filter_cong) auto

lemma points_ok_next:
  assumes "points_ok c" "map card_point_ordinal (card_points c) = [lo..day - 1]" "card_points d = card_points c @ [pt]"
    "card_point_ordinal pt = day"
    and "card_defaulted d = card_defaulted c \<or> card_defaulted c = None \<and> (\<forall>e. card_defaulted d = Some e \<longrightarrow> default_ordinal e = day)"
    and "\<forall>e. card_defaulted d = Some e \<longrightarrow> default_ordinal e \<le> day \<and> closed_point pt"
    and "card_defaulted d = None \<longrightarrow> card_point_state pt \<noteq> Default"
  shows "points_ok d"
proof -
  have old: "card_point_ordinal x < day" if "x \<in> set (card_points c)" for x
  proof -
    have "card_point_ordinal x \<in> set [lo..day - 1]" using that unfolding assms(2) [symmetric] by simp
    then show ?thesis by simp
  qed
  show ?thesis
  proof (cases "card_defaulted d")
    case None
    then show ?thesis using assms by (auto simp: points_ok_def)
  next
    case (Some e)
    then show ?thesis using assms old by (fastforce simp: points_ok_def)
  qed
qed

lemma card_day_inv:
  assumes day: "card_day r fin c day = Ok d" and adm: "card_admitted r fin" and lo: "card_as_of r \<le> day"
    and inv: "card_inv r fin (day - 1) c"
  shows "card_inv r fin day d"
proof -
  from day obtain a b where a: "card_accrue r day c = Ok a"
    and b: "fold_res (card_act r fin day) a (day_actions r day) = Ok b"
    and d: "close_card_day day (if card_state b \<noteq> Default then card_statement r day (card_due r day b) else b) = Ok d"
    by (auto simp: card_day_def simp del: if_not_P)
  note af = card_accrue_frame [OF a] and I = inv [unfolded card_inv_def]
  have delay: "recovery_delay_days r \<le> MAX_CONSUMER_DAYS" using adm by (simp add: card_admitted_def)
  have da: "default_ok (card_as_of r) day a"
    using I default_ok_later [of "card_as_of r" day c] af(2,3,5) by (auto simp: default_ok_def)
  have ca: "card_cash_ok (card_as_of r) day fin a"
    using I card_cash_ok_later [of "card_as_of r" day fin c] card_cash_ok_cong [OF af(3,4)] by simp
  note acts = b day_actions_plain [OF adm] delay lo da ca
  have bf: "past b = past a" "default_ok (card_as_of r) day b" "card_cash_ok (card_as_of r) day fin b"
    using card_acts_frame [OF acts] by auto
  have bn: "card_defaulted b = card_defaulted c
      \<or> card_defaulted c = None \<and> (\<forall>e. card_defaulted b = Some e \<longrightarrow> default_ordinal e = day)"
  proof (cases "card_defaulted c")
    case None
    then show ?thesis using card_acts_new [OF acts] af(3) by simp
  next
    case (Some e)
    then have "card_state a = Default" using I af(2) by (auto simp: default_ok_def)
    then show ?thesis using card_acts_closed [OF b] af(3) by simp
  qed
  define z where "z = (if card_state b \<noteq> Default then card_statement r day (card_due r day b) else b)"
  note df = close_card_day_frame [OF d [folded z_def]]
  have zp: "card_points z = card_points c" "card_state z = card_state b" "card_defaulted z = card_defaulted b"
      "card_cash z = card_cash b"
    using bf(1) af(1) card_due_frame(1) [of r day b] by (simp_all add: z_def card_statement_frame past_def)
  have zs: "statement_dates (statements z) = cycle_dates (billed r day b)"
  proof (cases "card_state b = Default")
    case True
    then obtain e where e: "card_defaulted b = Some e" "default_ordinal e \<le> day" using bf(2) by (auto simp: default_ok_def)
    from bn e have "billed r day b = billed r (day - 1) c" by (intro billed_stop [of e]) auto
    then show ?thesis using True I bf(1) af(1) by (simp add: z_def past_def)
  next
    case False
    then have n: "card_defaulted b = None" using bf(2) by (auto simp: default_ok_def)
    with bn have "card_defaulted c = None" by auto
    from billed_next [OF adm n this, of day] show ?thesis
      using False I bf(1) af(1) card_due_frame(1) [of r day b]
      by (simp add: z_def card_statement_frame past_def cycle_dates_def)
  qed
  obtain pt where pt: "card_points d = card_points z @ [pt]" "card_point_ordinal pt = day" "card_point_state pt = card_state z"
      "closed_card z \<and> card_state z = Default \<longrightarrow> closed_point pt" using df(1) by blast
  have "points_ok d"
  proof (rule points_ok_next)
    show "points_ok c" "map card_point_ordinal (card_points c) = [card_as_of r..day - 1]" using I by auto
    show "card_points d = card_points c @ [pt]" "card_point_ordinal pt = day" using pt zp by auto
    show "card_defaulted d = card_defaulted c
        \<or> card_defaulted c = None \<and> (\<forall>e. card_defaulted d = Some e \<longrightarrow> default_ordinal e = day)"
      using bn df(4) zp by simp
    have "z = b" if "card_defaulted b \<noteq> None" using that bf(2) by (simp add: z_def default_ok_def)
    then show "\<forall>e. card_defaulted d = Some e \<longrightarrow> default_ordinal e \<le> day \<and> closed_point pt"
      using bf(2) df(4) zp pt(4) by (auto simp: default_ok_def)
    show "card_defaulted d = None \<longrightarrow> card_point_state pt \<noteq> Default"
      using bf(2) df(4) zp pt(3) by (auto simp: default_ok_def)
  qed
  moreover have "map card_point_ordinal (card_points d) = [card_as_of r..day]"
    using I pt(1,2) zp(1) lo by (simp add: upto_rec2)
  moreover have "default_ok (card_as_of r) day d"
    using bf(2) df zp unfolding default_ok_def by (auto simp: z_def)
  moreover have "card_cash_ok (card_as_of r) day fin d" "statement_dates (statements d) = cycle_dates (billed r day d)"
    using bf(3) zs df zp card_cash_ok_cong [of d b] by (simp_all add: billed_def)
  ultimately show ?thesis by (simp add: card_inv_def)
qed

section \<open>The replay\<close>

lemma admit_cycles:
  assumes "fold_res (admit_cycle r fin) prev ys = Ok out"
  shows "sorted_wrt (<) (map cycle_statement ys) \<and> (\<forall>y \<in> set ys. prev < cycle_statement y
    \<and> card_as_of r \<le> cycle_statement y \<and> cycle_statement y < cycle_due y \<and> cycle_due y \<le> fin)"
  using assms
proof (induction ys arbitrary: prev)
  case (Cons y ys)
  then obtain z where z: "admit_cycle r fin prev y = Ok z" "fold_res (admit_cycle r fin) z ys = Ok out" by auto
  from z(1) have "z = cycle_due y" "prev < cycle_statement y" "card_as_of r \<le> cycle_statement y"
    "cycle_statement y < cycle_due y" "cycle_due y \<le> fin" by (auto simp: admit_cycle_def)
  with Cons.IH [OF z(2)] show ?case by fastforce
qed simp

lemma admit_card_steps:
  assumes "fold_res (admit_card_step fin) prev ss = Ok out"
  shows "\<forall>s \<in> set ss. plain_action (card_step_action s)"
  using assms
proof (induction ss arbitrary: prev)
  case (Cons s ss)
  then obtain z where z: "admit_card_step fin prev s = Ok z" "fold_res (admit_card_step fin) z ss = Ok out" by auto
  from z(1) have "plain_action (card_step_action s)"
    by (auto simp: admit_card_step_def admit_card_action_def plain_action_def split: CardAction.splits)
  with Cons.IH [OF z(2)] show ?case by simp
qed simp

lemma all_classes: "(UNIV :: BalanceClass set) = {Purchase, CashAdvance, Promotional}"
  by (auto intro: BalanceClass.exhaust)

lemma three_classes:
  assumes "length xs = 3" "card (set xs) = 3"
  shows "set (xs :: BalanceClass list) = UNIV \<and> distinct xs"
proof -
  have "finite (UNIV :: BalanceClass set)" "card (UNIV :: BalanceClass set) = 3" by (simp_all add: all_classes)
  then have "set xs = UNIV" using assms(2) by (intro card_subset_eq) simp_all
  with assms show ?thesis by (simp add: card_distinct)
qed

lemma card_validate_admitted:
  assumes "card_validate r = Ok ()" "horizon (card_as_of r) (card_horizon_days r) = Ok fin"
  shows "card_admitted r fin"
proof -
  from assms obtain due out prev where y: "fold_res (admit_cycle r fin) due (card_cycles r) = Ok out"
    and s: "fold_res (admit_card_step fin) (card_as_of r) (card_steps r) = Ok prev"
    and o: "length (allocation_order (minimum_terms r)) = 3" "card (set (allocation_order (minimum_terms r))) = 3"
    and t: "card_terms r = Ok ()" "initial_card_state r \<noteq> Default" "recovery_delay_days r \<le> MAX_CONSUMER_DAYS"
    by (auto simp: card_validate_def)
  from t(1) have "card_day_count r = Act360 \<or> card_day_count r = Act365Fixed"
    by (auto simp: card_terms_def consumer_day_count_def)
  with horizon_Ok [OF assms(2)] admit_cycles [OF y] admit_card_steps [OF s] three_classes [OF o] t(2,3) show ?thesis
    by (simp add: card_admitted_def)
qed

lemma card_validate_no_Panic: "card_validate r \<noteq> Panic"
proof -
  have "fold_res (admit_cycle r fin) x ys \<noteq> Panic" for fin x ys
    by (rule fold_res_no_Panic [of "\<lambda>_. True"]) (auto simp: admit_cycle_def)
  moreover have rs: "card_rates v \<noteq> Panic" for v
    using for_each_no_Panic [of "[purchase_rate v, cash_advance_rate v, promotional_rate v, post_promotion_rate v]" consumer_rate]
    by (auto simp: card_rates_def)
  moreover have "fold_res (admit_card_step fin) x ss \<noteq> Panic" for fin x ss
    by (rule fold_res_no_Panic [of "\<lambda>_. True"])
      (auto simp: admit_card_step_def admit_card_action_def rs split: CardAction.splits)
  moreover have "card_terms r \<noteq> Panic" by (auto simp: card_terms_def rs)
  moreover have "admit_statement_remaining r \<noteq> Panic" "admit_unrecognized r \<noteq> Panic"
    by (auto simp: admit_statement_remaining_def admit_unrecognized_def Let_def intro!: for_each_no_Panic)
  then have "card_opening r \<noteq> Panic"
    using for_each_no_Panic [of "opening_amounts r" "\<lambda>v. amount v ''opening card amount''"]
    by (auto simp: card_opening_def Let_def)
  moreover have "opening_due_ordinal r fin \<noteq> Panic" if "1 \<le> card_as_of r" "card_as_of r \<le> MAX_ORDINAL" for fin
    using that by (auto simp: opening_due_ordinal_def in_i32_def MAX_ORDINAL_def Let_def split: option.splits)
  moreover have "admit_work r \<noteq> Panic" by (simp add: admit_work_def Let_def)
  ultimately show ?thesis using horizon_Ok by (auto simp: card_validate_def)
qed

lemma opening_card_inv: "card_admitted r fin \<Longrightarrow> card_inv r fin (card_as_of r - 1) (opening_card r)"
  by (auto simp: card_inv_def opening_card_def statement_dates_def cycle_dates_def billed_def card_admitted_def
      default_ok_def card_cash_ok_def events_dated_def points_ok_def filter_empty_conv)

lemma card_days_inv:
  assumes "fold_res (card_day r fin) (opening_card r) [card_as_of r..fin] = Ok c" "card_admitted r fin"
  shows "card_inv r fin fin c"
proof -
  have "card_inv r fin (fin + 1 - 1) c"
  proof (rule fold_upto_inv [where I = "\<lambda>d. card_inv r fin (d - 1)", OF assms(1) opening_card_inv [OF assms(2)]])
    show "card_as_of r \<le> fin + 1" using assms(2) by (simp add: card_admitted_def)
    fix d s s' assume "card_as_of r \<le> d" "card_inv r fin (d - 1) s" "card_day r fin s d = Ok s'"
    then show "card_inv r fin (d + 1 - 1) s'" using card_day_inv [OF _ assms(2)] by simp
  qed
  then show ?thesis by simp
qed

lemma event_id_inj: "event_id_at i s \<Longrightarrow> event_id_at j s \<Longrightarrow> i = j"
  by (auto simp: event_id_at_def digits_inj)

lemma recovery_not_event: "\<not> event_id_at i ''recovery-0''"
  by (simp add: event_id_at_def)

lemma events_dated_distinct:
  assumes "events_dated lo hi xs"
  shows "distinct (map cash_event_id xs)" "''recovery-0'' \<notin> cash_event_id ` set xs"
proof -
  have id: "event_id_at i (cash_event_id (xs ! i))" if "i < length xs" for i
    using assms that by (simp add: events_dated_def)
  have "cash_event_id (xs ! i) \<noteq> cash_event_id (xs ! j)" if "i < length xs" "j < length xs" "i \<noteq> j" for i j
    using event_id_inj [OF id [OF that(1)]] id [OF that(2)] that(3) by metis
  then show "distinct (map cash_event_id xs)" by (simp add: distinct_conv_nth)
  show "''recovery-0'' \<notin> cash_event_id ` set xs"
  proof
    assume "''recovery-0'' \<in> cash_event_id ` set xs"
    then obtain z where z: "z \<in> set xs" "cash_event_id z = ''recovery-0''" by (rule imageE) simp
    from z(1) obtain i where "i < length xs" "xs ! i = z" unfolding in_set_conv_nth by blast
    with id [of i] z(2) recovery_not_event show False by simp
  qed
qed

lemma events_dated_range: "events_dated lo hi xs \<Longrightarrow> e \<in> set xs \<Longrightarrow> lo \<le> cash_ordinal e \<and> cash_ordinal e \<le> hi"
  by (auto simp: events_dated_def in_set_conv_nth)

text \<open>The cash of a result: dated, identified, nothing but a recovery after a default.\<close>

definition card_cashflows_ok :: "i32 \<Rightarrow> i32 \<Rightarrow> ConsumerDefault option \<Rightarrow> ConsumerCashEvent list \<Rightarrow> bool" where
  "card_cashflows_ok lo fin gone es \<longleftrightarrow> sorted (map cash_ordinal es) \<and> distinct (map cash_event_id es)
     \<and> (\<forall>e \<in> set es. lo \<le> cash_ordinal e \<and> cash_ordinal e \<le> fin
          \<and> (\<forall>d. gone = Some d \<longrightarrow> cash_ordinal e \<le> default_ordinal d \<or> cash_event_id e = ''recovery-0''))"

lemma card_cash_sorted:
  assumes "card_cash_ok lo fin fin c" "default_ok lo fin c"
  shows "card_cashflows_ok lo fin (card_defaulted c) (sort_key cash_ordinal (card_cash c))"
proof -
  have dm: "distinct (map f (sort_key k xs)) = distinct (map f xs)" for f :: "ConsumerCashEvent \<Rightarrow> string" and k xs
    by (simp add: distinct_map distinct_sort set_sort)
  show ?thesis
  proof (cases "card_defaulted c")
    case None
    then have e: "events_dated lo fin (card_cash c)" using assms(1) by (simp add: card_cash_ok_def)
    show ?thesis using events_dated_distinct(1) [OF e] events_dated_range [OF e] None
      by (simp add: card_cashflows_ok_def dm)
  next
    case (Some d)
    then have d: "lo \<le> default_ordinal d" "default_ordinal d \<le> fin" using assms(2) by (auto simp: default_ok_def)
    from Some assms(1) obtain xs ys where x: "card_cash c = xs @ ys" "events_dated lo (default_ordinal d) xs"
      "recovery_tail (default_ordinal d) fin ys" by (auto simp: card_cash_ok_def)
    note xr = events_dated_range [OF x(2)]
    from x(3) consider "ys = []" | z where "ys = [z]" "cash_event_id z = ''recovery-0''"
        "default_ordinal d \<le> cash_ordinal z" "cash_ordinal z \<le> fin" by (auto simp: recovery_tail_def)
    then show ?thesis
    proof cases
      case 1
      with events_dated_distinct(1) [OF x(2)] xr x(1) d Some show ?thesis
        by (fastforce simp: card_cashflows_ok_def dm)
    next
      case 2
      with events_dated_distinct [OF x(2)] xr x(1) d Some show ?thesis
        by (fastforce simp: card_cashflows_ok_def dm)
    qed
  qed
qed

text \<open>What a replay promises.\<close>

definition card_result_ok :: "CardRequest \<Rightarrow> i32 \<Rightarrow> CardResult \<Rightarrow> bool" where
  "card_result_ok r fin res \<longleftrightarrow>
     map card_point_ordinal (card_result_points res) = [card_as_of r..fin]
     \<and> statement_dates (card_result_statements res) = cycle_dates (filter (\<lambda>y. \<forall>e.
          card_result_default res = Some e \<longrightarrow> cycle_statement y < default_ordinal e) (card_cycles r))
     \<and> (\<forall>pt \<in> set (card_result_points res).
          if (\<exists>e. card_result_default res = Some e \<and> default_ordinal e \<le> card_point_ordinal pt)
          then closed_point pt else card_point_state pt \<noteq> Default)
     \<and> card_cashflows_ok (card_as_of r) fin (card_result_default res) (card_result_cashflows res)
     \<and> (card_result_default res \<noteq> None \<longrightarrow> feq (card_closing_principal res) 0 \<and> feq (card_closing_interest res) 0
          \<and> feq (card_closing_unbilled res) 0 \<and> feq (card_closing_unrecognized res) 0
          \<and> feq (card_closing_fees res) 0 \<and> feq (card_closing_contingent res) 0)"

text \<open>
  C23. A card replay never panics. When it returns, it reports exactly one point per day of the
  horizon; it bills each statement cycle exactly once, in order, on its date, except the cycles from a
  default on; before a default no point is in the default state, and from that day on every point
  shows a closed line with nothing owed and no limit, and so do the closing balances; cash
  events are in date order within the horizon under distinct identities, and after a default there
  is nothing but its recovery.
\<close>

theorem simulate_sound:
  "case simulate r of
     Panic \<Rightarrow> False
   | Err _ \<Rightarrow> True
   | Ok res \<Rightarrow> card_result_ok r (card_as_of r + int (card_horizon_days r)) res"
proof (cases "simulate r")
  case Panic
  then obtain fin where "card_validate r = Ok ()" "horizon (card_as_of r) (card_horizon_days r) = Ok fin"
    "fold_res (card_day r fin) (opening_card r) [card_as_of r..fin] = Panic"
    by (auto simp: simulate_def card_validate_no_Panic card_report_def lot_totals_def Let_def)
  moreover from this have "fold_res (card_day r fin) (opening_card r) [card_as_of r..fin] \<noteq> Panic"
    by (intro fold_res_no_Panic [of "\<lambda>_. True"] card_day_no_Panic card_validate_admitted) simp_all
  ultimately show ?thesis by simp
next
  case (Ok res)
  then obtain fin c where v: "card_validate r = Ok ()" "horizon (card_as_of r) (card_horizon_days r) = Ok fin"
    and c: "fold_res (card_day r fin) (opening_card r) [card_as_of r..fin] = Ok c" and res: "card_report r c = Ok res"
    by (auto simp: simulate_def)
  have adm: "card_admitted r fin" by (rule card_validate_admitted [OF v])
  note inv = card_days_inv [OF c adm, unfolded card_inv_def]
  have closed: "lots c = []" if "card_defaulted c \<noteq> None"
    using inv that by (auto simp: default_ok_def closed_card_def)
  have z: "feq (- 0) 0" "feq (fsum (class_list (class_sums f []))) 0" for f
    by (simp_all add: class_sums_def class_sum_def fsum_def f64_eval)
  have b: "billed r fin c = filter (\<lambda>y. \<forall>e. card_defaulted c = Some e \<longrightarrow> cycle_statement y < default_ordinal e) (card_cycles r)"
    unfolding billed_def using adm by (intro filter_cong) (auto simp: card_admitted_def)
  have "card_cashflows_ok (card_as_of r) fin (card_defaulted c) (sort_key cash_ordinal (card_cash c))"
    using inv by (intro card_cash_sorted) auto
  then have "card_result_ok r fin res"
    using res inv closed b z [unfolded fsum_def]
    by (auto simp: card_report_def card_result_ok_def lot_totals_def points_ok_def fsum_def Let_def)
  then show ?thesis using Ok horizon_Ok [OF v(2)] by simp
qed simp

end
