(* ===== verification/Revolving_Payments.thy ===== *)
theory Revolving_Payments
  imports Revolving_Facts
begin

text \<open>
  What a card payment does to the lots: the minimum portion follows the contractual order of the
  balance classes, the excess goes to the highest rate first, ties first in, first out, each lot being
  paid in full before the next one is touched, rounding included; and in whole currency units every unit of the payment
  is found again in what was paid and in what is no longer owed.
\<close>

section \<open>The order of doubles by their bits\<close>

lemma magnitude_mono:
  assumes "f64_ok (Fin s m e)" "f64_ok (Fin t n g)" "of_int m * p2 e < of_int n * p2 g"
  shows "magnitude (Fin s m e) < magnitude (Fin t n g)"
proof -
  have b: "0 \<le> m" "m < 2 ^ 53" "- 1074 \<le> e" "m < 2 ^ 52 \<longrightarrow> e = - 1074"
    "0 \<le> n" "n < 2 ^ 53" "- 1074 \<le> g" "n < 2 ^ 52 \<longrightarrow> g = - 1074"
    using assms(1,2) by (auto simp: f64_ok_def)
  consider "e < g" | "e = g" | "g < e" by linarith
  then show ?thesis
  proof cases
    case 1
    then have "2 ^ 52 \<le> n" using b by linarith
    moreover have "(e + 1075) * 2 ^ 52 \<le> (g + 1074) * 2 ^ 52" using 1 by simp
    ultimately show ?thesis using b(2) by (simp add: algebra_simps)
  next
    case 2
    then show ?thesis using assms(3) by simp
  next
    case 3
    then have "2 ^ 52 \<le> m" using b by linarith
    then have m: "2 ^ 52 \<le> real_of_int m" by simp
    have n: "real_of_int n < 2 ^ 53" using b(6) by simp
    have "of_int n * p2 g < 2 ^ 53 * p2 g" using n by (rule mult_strict_right_mono) simp
    also have "\<dots> = p2 (53 + g)" by (simp add: p2_add)
    also have "\<dots> \<le> p2 (52 + e)" using 3 by (subst p2_le_iff) simp
    also have "\<dots> = 2 ^ 52 * p2 e" by (simp add: p2_add)
    also have "\<dots> \<le> of_int m * p2 e" using m by (intro mult_right_mono) simp_all
    finally show ?thesis using assms(3) by simp
  qed
qed

lemma total_key_less:
  assumes "is_finite x" "is_finite y" "f64_ok x" "f64_ok y" "0 \<le> val x" "val x < val y"
  shows "total_key x < total_key y"
proof -
  obtain s m e t n g where xy: "x = Fin s m e" "y = Fin t n g" using assms(1,2) by (metis is_finite.elims(2))
  have mn: "0 \<le> m" "0 \<le> n" "- 1074 \<le> g" using assms(3,4) xy by (auto simp: f64_ok_def)
  have y: "\<not> t"
  proof
    assume t
    then have "val y \<le> 0" using xy(2) mn(2) by simp
    then show False using assms(5,6) by linarith
  qed
  have ny: "0 \<le> magnitude y" using xy mn by simp
  show ?thesis
  proof (cases s)
    case True
    have "0 \<le> magnitude x" using xy(1) mn(1) assms(3) by (simp add: f64_ok_def)
    then show ?thesis using True xy y ny by simp
  next
    case False
    then have "of_int m * p2 e < of_int n * p2 g" using xy y assms(6) by simp
    from magnitude_mono [OF _ _ this] show ?thesis using False y xy assms(3,4) by simp
  qed
qed

section \<open>Positions in an order\<close>

definition ahead :: "'a list \<Rightarrow> 'a \<Rightarrow> 'a \<Rightarrow> bool" where
  "ahead xs a b \<longleftrightarrow> (\<exists>i k. i < k \<and> k < length xs \<and> xs ! i = a \<and> xs ! k = b)"

lemma ahead_split: "ahead xs a b \<longleftrightarrow> (\<exists>us vs. xs = us @ vs \<and> a \<in> set us \<and> b \<in> set vs)"
proof
  assume "ahead xs a b"
  then obtain i k where ik: "i < k" "k < length xs" "xs ! i = a" "xs ! k = b" by (auto simp: ahead_def)
  have "a \<in> set (take (Suc i) xs)" using ik by (auto simp: in_set_conv_nth intro!: exI [of _ i])
  moreover have "b \<in> set (drop (Suc i) xs)" using ik by (auto simp: in_set_conv_nth intro!: exI [of _ "k - Suc i"])
  ultimately show "\<exists>us vs. xs = us @ vs \<and> a \<in> set us \<and> b \<in> set vs" by (metis append_take_drop_id)
next
  assume "\<exists>us vs. xs = us @ vs \<and> a \<in> set us \<and> b \<in> set vs"
  then obtain us vs i k where s: "xs = us @ vs" "i < length us" "us ! i = a" "k < length vs" "vs ! k = b"
    by (auto simp: in_set_conv_nth)
  then show "ahead xs a b" unfolding ahead_def
    by (intro exI [of _ i] exI [of _ "length us + k"]) (auto simp: nth_append)
qed

lemma ahead_concat:
  assumes "ahead cs x y" "a \<in> set (g x)" "b \<in> set (g y)"
  shows "ahead (concat (map g cs)) a b"
proof -
  obtain us vs where s: "cs = us @ vs" "x \<in> set us" "y \<in> set vs" using assms(1) by (auto simp: ahead_split)
  have "a \<in> set (concat (map g us))" "b \<in> set (concat (map g vs))" using s assms(2,3) by auto
  with s(1) show ?thesis unfolding ahead_split
    by (intro exI [of _ "concat (map g us)"] exI [of _ "concat (map g vs)"]) simp
qed

lemma ahead_sort_key:
  assumes "a \<in> set xs" "b \<in> set xs" "f a < f b"
  shows "ahead (sort_key f xs) a b"
proof -
  obtain i k where ik: "i < length (sort_key f xs)" "sort_key f xs ! i = a" "k < length (sort_key f xs)" "sort_key f xs ! k = b"
    using assms(1,2) by (metis in_set_conv_nth set_sort)
  have "\<not> k \<le> i"
  proof
    assume "k \<le> i"
    from sorted_nth_mono [OF sorted_sort_key this, of f xs] ik have "f b \<le> f a" by simp
    then show False using assms(3) by simp
  qed
  then show ?thesis using ik unfolding ahead_def by (intro exI [of _ i] exI [of _ k]) simp
qed

lemma ahead_upt: "j < k \<Longrightarrow> k < n \<Longrightarrow> ahead [0..<n] j k"
  unfolding ahead_def by (intro exI [of _ j] exI [of _ k]) simp

lemma filter_split: "filter P xs = us @ vs \<Longrightarrow> \<exists>ps qs. xs = ps @ qs \<and> filter P ps = us \<and> filter P qs = vs"
proof (induction us arbitrary: xs)
  case Nil
  then show ?case by (intro exI [of _ "[]"] exI [of _ xs]) simp
next
  case (Cons u us)
  then obtain ys zs where xs: "xs = ys @ u # zs" "\<forall>y \<in> set ys. \<not> P y" "P u" "us @ vs = filter P zs"
    by (auto simp: filter_eq_Cons_iff)
  obtain ps qs where "zs = ps @ qs" "filter P ps = us" "filter P qs = vs" using Cons.IH [OF xs(4) [symmetric]] by blast
  then show ?case using xs by (intro exI [of _ "ys @ u # ps"] exI [of _ qs]) simp
qed

lemma ahead_filter:
  assumes "P a" "P b"
  shows "ahead (filter P xs) a b \<longleftrightarrow> ahead xs a b"
proof
  assume "ahead (filter P xs) a b"
  then obtain us vs where s: "filter P xs = us @ vs" "a \<in> set us" "b \<in> set vs" by (auto simp: ahead_split)
  obtain ps qs where "xs = ps @ qs" "filter P ps = us" "filter P qs = vs" using filter_split [OF s(1)] by blast
  moreover from this s(2,3) have "a \<in> set ps" "b \<in> set qs" by auto
  ultimately show "ahead xs a b" by (auto simp: ahead_split)
next
  assume "ahead xs a b"
  then obtain us vs where s: "xs = us @ vs" "a \<in> set us" "b \<in> set vs" by (auto simp: ahead_split)
  with assms show "ahead (filter P xs) a b" unfolding ahead_split
    by (intro exI [of _ "filter P us"] exI [of _ "filter P vs"]) simp
qed

lemma ahead_concat_same:
  assumes "x \<in> set cs" "ahead (g x) a b"
  shows "ahead (concat (map g cs)) a b"
proof -
  obtain us vs where s: "g x = us @ vs" "a \<in> set us" "b \<in> set vs" using assms(2) by (auto simp: ahead_split)
  obtain ps qs where "cs = ps @ x # qs" using split_list [OF assms(1)] by blast
  with s show ?thesis unfolding ahead_split
    by (intro exI [of _ "concat (map g ps) @ us"] exI [of _ "vs @ concat (map g qs)"]) simp
qed

text \<open>The sort is stable: what has the same key stays in its order.\<close>

lemma ahead_sort_key_tie:
  assumes "ahead xs a b" "f a = f b"
  shows "ahead (sort_key f xs) a b"
  using assms ahead_filter [of "\<lambda>y. f y = f b" a b xs] ahead_filter [of "\<lambda>y. f y = f b" a b "sort_key f xs"]
  by (simp add: sort_key_stable)

section \<open>One lot\<close>

definition lot_small :: "Lot \<Rightarrow> bool" where
  "lot_small l \<longleftrightarrow> small (lot_fees l) \<and> small (lot_interest l) \<and> small (lot_principal l)"

definition lot_cleared :: "Lot \<Rightarrow> bool" where
  "lot_cleared l \<longleftrightarrow> val (lot_fees l) = 0 \<and> val (lot_interest l) = 0 \<and> val (lot_principal l) = 0"

lemma pay_level:
  assumes "small rest" "small due"
  shows "small (fmin rest due)" "small (due - fmin rest due)" "small (rest - fmin rest due)"
    and "0 < val (rest - fmin rest due) \<Longrightarrow> val (due - fmin rest due) = 0 \<and> 0 < val rest"
proof -
  note m = small_min [OF assms]
  then have le: "val (fmin rest due) \<le> val rest" "val (fmin rest due) \<le> val due" by auto
  note a = small_sub [OF assms(1) conjunct1 [OF m] le(1)] and b = small_sub [OF assms(2) conjunct1 [OF m] le(2)]
  show "small (fmin rest due)" "small (due - fmin rest due)" "small (rest - fmin rest due)" using m a b by auto
  show "0 < val (rest - fmin rest due) \<Longrightarrow> val (due - fmin rest due) = 0 \<and> 0 < val rest"
    using a(2) b(2) m assms by (auto simp: min_def small_def split: if_splits)
qed

lemma pay_lot_fields:
  assumes "pay_lot l cash paid = (l', rest, paid')"
  defines "f \<equiv> fmin cash (lot_fees l)"
  defines "i \<equiv> fmin (cash - f) (lot_interest l)"
  defines "p \<equiv> fmin (cash - f - i) (lot_principal l)"
  shows "lot_class l' = lot_class l" "lot_fees l' = lot_fees l - f" "lot_interest l' = lot_interest l - i"
    "lot_principal l' = lot_principal l - p" "rest = cash - f - i - p"
    "paid_fees paid' = paid_fees paid + f" "paid_interest paid' = paid_interest paid + i"
    "paid_principal paid' = paid_principal paid + p"
  using assms(1) by (auto simp: pay_lot_def f_def i_def p_def Let_def)

lemma pay_lot_small:
  assumes "pay_lot l cash paid = (l', rest, paid')" "lot_small l" "small cash"
  shows "lot_small l'" "small rest" "0 < val rest \<Longrightarrow> lot_cleared l'"
proof -
  note f = pay_lot_fields [OF assms(1)]
  have s: "small (lot_fees l)" "small (lot_interest l)" "small (lot_principal l)" using assms(2) by (simp_all add: lot_small_def)
  note l1 = pay_level [OF assms(3) s(1)]
  note l2 = pay_level [OF l1(3) s(2)]
  note l3 = pay_level [OF l2(3) s(3)]
  show "lot_small l'" using l1(2) l2(2) l3(2) f by (simp add: lot_small_def)
  show "small rest" using l3(3) f(5) by simp
  show "0 < val rest \<Longrightarrow> lot_cleared l'" using l1(4) l2(4) l3(4) f by (simp add: lot_cleared_def)
qed

section \<open>Strict priority\<close>

text \<open>
  A lot changes only when every lot before it in the order is cleared; nothing outside the order
  changes.
\<close>

lemma allocate_priority:
  assumes "allocate ls order cash paid = Ok (ls', out)" "distinct order" "\<forall>l \<in> set ls. lot_small l" "small cash"
  shows "(\<forall>l \<in> set ls'. lot_small l) \<and> map lot_class ls' = map lot_class ls
    \<and> (\<forall>j. j \<notin> set order \<longrightarrow> ls' ! j = ls ! j)
    \<and> (\<forall>a b. ahead order a b \<longrightarrow> ls' ! b \<noteq> ls ! b \<longrightarrow> lot_cleared (ls' ! a))"
  using assms
proof (induction ls order cash paid rule: allocate.induct)
  case (1 ls cash paid)
  then show ?case by (simp add: ahead_def)
next
  case (2 ls j order cash paid)
  show ?case
  proof (cases "cash \<le> 0")
    case True
    with "2.prems" show ?thesis by auto
  next
    case False
    obtain l rest paid' where p: "pay_lot (ls ! j) cash paid = (l, rest, paid')" by (metis prod_cases3)
    have j: "j < length ls" using "2.prems"(1) False by (auto simp: not_le split: if_splits)
    have a: "allocate (ls[j := l]) order rest paid' = Ok (ls', out)" using "2.prems"(1) False j p by simp
    have sj: "lot_small (ls ! j)" using "2.prems"(3) j by simp
    note ps = pay_lot_small [OF p sj "2.prems"(4)]
    have "\<forall>l \<in> set (ls[j := l]). lot_small l" using "2.prems"(3) ps(1) by (metis insert_iff set_update_subset_insert subsetD)
    note ih = "2.IH" [OF False _ p [symmetric] refl a _ this ps(2)]
    have ih: "(\<forall>l \<in> set ls'. lot_small l)" "map lot_class ls' = map lot_class (ls[j := l])"
        "\<forall>k. k \<notin> set order \<longrightarrow> ls' ! k = ls[j := l] ! k"
        "\<forall>a b. ahead order a b \<longrightarrow> ls' ! b \<noteq> ls[j := l] ! b \<longrightarrow> lot_cleared (ls' ! a)"
      using ih "2.prems"(2) j by auto
    have jo: "j \<notin> set order" using "2.prems"(2) by simp
    have lj: "ls' ! j = l" using ih(3) jo j by simp
    have "map lot_class (ls[j := l]) = map lot_class ls"
      using pay_lot_fields(1) [OF p] j by (simp add: map_update list_update_same_conv)
    moreover have "lot_cleared (ls' ! a)" if ab: "ahead (j # order) a b" "ls' ! b \<noteq> ls ! b" for a b
    proof -
      from ab(1) obtain i k where ik: "i < k" "k < length (j # order)" "(j # order) ! i = a" "(j # order) ! k = b"
        by (auto simp: ahead_def)
      then have b: "b \<in> set order" by (cases k) auto
      then have bj: "b \<noteq> j" using jo by auto
      then have chg: "ls' ! b \<noteq> ls[j := l] ! b" using ab(2) by simp
      show ?thesis
      proof (cases i)
        case 0
        have "0 < val rest"
        proof (rule ccontr)
          assume "\<not> 0 < val rest"
          then have "rest \<le> 0" using ps(2) by (auto simp: small_def)
          then have "ls' = ls[j := l]" using a b by (cases order) auto
          then show False using chg by simp
        qed
        then show ?thesis using ps(3) lj 0 ik(3) by simp
      next
        case (Suc i')
        then have "ahead order a b" using ik unfolding ahead_def by (intro exI [of _ i'] exI [of _ "k - 1"]) (cases k; auto)
        then show ?thesis using ih(4) chg by blast
      qed
    qed
    ultimately show ?thesis using ih(1-3) by auto
  qed
qed

text \<open>Rates as admission leaves them.\<close>

definition card_rates_ok :: "CardRates \<Rightarrow> bool" where
  "card_rates_ok rs \<longleftrightarrow> list_all (\<lambda>v. is_finite v \<and> f64_ok v \<and> 0 \<le> val v)
     [purchase_rate rs, cash_advance_rate rs, promotional_rate rs, post_promotion_rate rs]"

lemma card_rates_admitted:
  assumes "card_rates rs = Ok ()"
    and "list_all f64_ok [purchase_rate rs, cash_advance_rate rs, promotional_rate rs, post_promotion_rate rs]"
  shows "card_rates_ok rs"
  using assms by (auto simp: card_rates_ok_def card_rates_def for_each_Ok_iff)

lemma rate_at_ok: "card_rates_ok rs \<Longrightarrow> is_finite (rate_at rs c d) \<and> f64_ok (rate_at rs c d) \<and> 0 \<le> val (rate_at rs c d)"
  by (cases c) (auto simp: card_rates_ok_def rate_at_def)

text \<open>Lot \<open>j\<close> goes before lot \<open>k\<close>: in the minimum pass and in the excess pass.\<close>

definition minimum_before :: "CardRequest \<Rightarrow> Lot list \<Rightarrow> nat \<Rightarrow> nat \<Rightarrow> bool" where
  "minimum_before r ls j k \<longleftrightarrow> ahead (allocation_order (minimum_terms r)) (lot_class (ls ! j)) (lot_class (ls ! k))
     \<or> (lot_class (ls ! j) = lot_class (ls ! k) \<and> j < k)"

definition excess_before :: "CardRates \<Rightarrow> i32 \<Rightarrow> Lot list \<Rightarrow> nat \<Rightarrow> nat \<Rightarrow> bool" where
  "excess_before rs day ls j k \<longleftrightarrow> rate_at rs (lot_class (ls ! k)) day < rate_at rs (lot_class (ls ! j)) day
     \<or> (rate_at rs (lot_class (ls ! k)) day = rate_at rs (lot_class (ls ! j)) day \<and> j < k)"

lemma excess_ahead:
  assumes "card_rates_ok rs" "j < length ls" "k < length ls" "excess_before rs day ls j k"
  shows "ahead (excess_order rs day ls) j k"
proof (cases "rate_at rs (lot_class (ls ! k)) day = rate_at rs (lot_class (ls ! j)) day \<and> j < k")
  case True
  then show ?thesis unfolding excess_order_def using ahead_upt assms(3) by (intro ahead_sort_key_tie) simp_all
next
  case False
  note a = rate_at_ok [OF assms(1), of "lot_class (ls ! k)" day] and b = rate_at_ok [OF assms(1), of "lot_class (ls ! j)" day]
  have "rate_at rs (lot_class (ls ! k)) day < rate_at rs (lot_class (ls ! j)) day"
    using False assms(4) by (simp only: excess_before_def simp_thms)
  then have "total_key (rate_at rs (lot_class (ls ! k)) day) < total_key (rate_at rs (lot_class (ls ! j)) day)"
    using a b by (intro total_key_less) auto
  then show ?thesis unfolding excess_order_def using assms(2,3) by (intro ahead_sort_key) simp_all
qed

lemma minimum_ahead:
  assumes "minimum_before r ls j k" "j < length ls" "k < length ls" "k \<in> set (minimum_order r ls)"
  shows "ahead (minimum_order r ls) j k"
proof (cases "lot_class (ls ! j) = lot_class (ls ! k) \<and> j < k")
  case True
  let ?g = "\<lambda>c. filter (\<lambda>j. lot_class (ls ! j) = c) [0..<length ls]"
  have "ahead (?g (lot_class (ls ! k))) j k" using True assms(3) by (simp add: ahead_filter ahead_upt)
  moreover have "lot_class (ls ! k) \<in> set (allocation_order (minimum_terms r))" using assms(4) by (auto simp: minimum_order_def)
  ultimately show ?thesis unfolding minimum_order_def by (intro ahead_concat_same)
next
  case False
  then have "ahead (allocation_order (minimum_terms r)) (lot_class (ls ! j)) (lot_class (ls ! k))"
    using assms(1) by (auto simp: minimum_before_def)
  then show ?thesis unfolding minimum_order_def by (rule ahead_concat) (use assms(2,3) in auto)
qed

lemma excess_distinct: "distinct (excess_order rs day ls)"
  by (simp add: excess_order_def)

lemma minimum_distinct: "distinct cs \<Longrightarrow> distinct (concat (map (\<lambda>c. filter (\<lambda>j. f j = c) [0..<n]) cs))"
  by (induction cs) auto

text \<open>
  C24. A card payment is applied in two strict passes, each lot being cleared before the next one is
  touched. The minimum portion goes through the balance classes in the order of the contract and
  through the lots of one class first in, first out: a lot changes only when every lot of an earlier
  class, and every older lot of its own class, has no fees, interest or principal left. The excess
  then goes to the dearest lots, equal rates first in, first out: a lot changes only when every lot with
  a higher rate that day, and every older lot with the same rate, is cleared. Both hold exactly,
  rounding included, and no balance becomes negative. Supposed are what admission and the replay
  provide: balances and payment finite, not negative and at most 2 to the 53, finite nonnegative rates
  and no class twice in the order of the contract.
\<close>

theorem payment_order:
  assumes "settle r day c a = Ok (ls, paid)" "\<forall>l \<in> set (lots c). lot_small l" "small a" "small (minimum_remaining c)"
    and "distinct (allocation_order (minimum_terms r))" "card_rates_ok (rates_now c)"
  shows "\<exists>mid paid'. allocate (lots c) (minimum_order r (lots c)) (fmin a (minimum_remaining c)) nothing_paid = Ok (mid, paid')
    \<and> (\<forall>l \<in> set ls. lot_small l) \<and> map lot_class ls = map lot_class (lots c)
    \<and> (\<forall>j < length ls. \<forall>k < length ls. minimum_before r (lots c) j k
           \<longrightarrow> mid ! k \<noteq> lots c ! k \<longrightarrow> lot_cleared (mid ! j))
    \<and> (\<forall>j < length ls. \<forall>k < length ls. excess_before (rates_now c) day (lots c) j k
           \<longrightarrow> ls ! k \<noteq> mid ! k \<longrightarrow> lot_cleared (ls ! j))"
proof -
  let ?m = "fmin a (minimum_remaining c)"
  from assms(1) obtain mid paid' where m: "allocate (lots c) (minimum_order r (lots c)) ?m nothing_paid = Ok (mid, paid')"
    and e: "allocate mid (excess_order (rates_now c) day mid) (a - ?m) paid' = Ok (ls, paid)"
    by (auto simp: settle_def Let_def)
  note sm = small_min [OF assms(3,4)]
  have "small (a - ?m)" using sm by (intro small_sub assms(3)) auto
  have "distinct (minimum_order r (lots c))" unfolding minimum_order_def by (rule minimum_distinct [OF assms(5)])
  note A = allocate_priority [OF m this assms(2) conjunct1 [OF sm]]
  then have "\<forall>l \<in> set mid. lot_small l" by blast
  note B = allocate_priority [OF e excess_distinct this \<open>small (a - ?m)\<close>]
  have cl: "map lot_class mid = map lot_class (lots c)" "map lot_class ls = map lot_class mid" using A B by blast+
  have len: "length mid = length (lots c)" "length ls = length mid" using cl by (metis length_map)+
  have same: "lot_class (mid ! j) = lot_class (lots c ! j)" if "j < length ls" for j
    using cl len that by (metis nth_map)
  have "lot_cleared (mid ! j)" if "j < length ls" "k < length ls" "minimum_before r (lots c) j k" "mid ! k \<noteq> lots c ! k" for j k
  proof -
    have "k \<in> set (minimum_order r (lots c))" using A that(4) by blast
    with minimum_ahead [OF that(3)] that(1,2) len have "ahead (minimum_order r (lots c)) j k" by simp
    then show ?thesis using A that(4) by blast
  qed
  moreover have "lot_cleared (ls ! j)" if "j < length ls" "k < length ls"
      "excess_before (rates_now c) day (lots c) j k" "ls ! k \<noteq> mid ! k" for j k
  proof -
    have "excess_before (rates_now c) day mid j k" using that(3) unfolding excess_before_def same [OF that(1)] same [OF that(2)] .
    with excess_ahead [OF assms(6)] that(1,2) len have "ahead (excess_order (rates_now c) day mid) j k" by simp
    then show ?thesis using B that(4) by blast
  qed
  ultimately show ?thesis using m A B cl by auto
qed

section \<open>Whole amounts\<close>

definition unit_count :: "f64 \<Rightarrow> int" where
  "unit_count x = \<lfloor>val x\<rfloor>"

definition is_whole :: "f64 \<Rightarrow> bool" where
  "is_whole x \<longleftrightarrow> whole x (unit_count x)"

lemma whole_unit_count: "whole x k \<Longrightarrow> unit_count x = k \<and> is_whole x"
  by (simp add: whole_def unit_count_def is_whole_def)

definition lot_whole :: "Lot \<Rightarrow> bool" where
  "lot_whole l \<longleftrightarrow> is_whole (lot_fees l) \<and> is_whole (lot_interest l) \<and> is_whole (lot_principal l)"

definition lot_units :: "Lot \<Rightarrow> int" where
  "lot_units l = unit_count (lot_fees l) + unit_count (lot_interest l) + unit_count (lot_principal l)"

definition paid_whole :: "Paid \<Rightarrow> bool" where
  "paid_whole q \<longleftrightarrow> is_whole (paid_fees q) \<and> is_whole (paid_interest q) \<and> is_whole (paid_principal q)"

definition paid_units :: "Paid \<Rightarrow> int" where
  "paid_units q = unit_count (paid_fees q) + unit_count (paid_interest q) + unit_count (paid_principal q)"

lemma unit_count_nonneg: "is_whole x \<Longrightarrow> 0 \<le> unit_count x"
  by (simp add: is_whole_def whole_def)

lemma lot_units_nonneg: "lot_whole l \<Longrightarrow> 0 \<le> lot_units l"
  by (simp add: lot_whole_def lot_units_def unit_count_nonneg)

lemma whole_min: "whole x a \<Longrightarrow> whole y b \<Longrightarrow> whole (fmin x y) (min a b)"
  using fmin_val [of x y] by (auto simp: whole_def min_def)

lemma whole_level_exact:
  assumes "whole rest k" "whole due d"
  shows "whole (fmin rest due) (min k d)" "whole (due - fmin rest due) (d - min k d)" "whole (rest - fmin rest due) (k - min k d)"
proof -
  show m: "whole (fmin rest due) (min k d)" by (rule whole_min [OF assms])
  show "whole (due - fmin rest due) (d - min k d)" "whole (rest - fmin rest due) (k - min k d)"
    by (rule whole_sub [OF assms(2) m], simp, rule whole_sub [OF assms(1) m], simp)
qed

lemma pay_lot_whole:
  assumes "pay_lot l cash paid = (l', rest, paid')" "lot_whole l" "whole cash k" "paid_whole paid" "paid_units paid + k \<le> 10 ^ 15"
  shows "lot_whole l'" "whole rest (k - min k (lot_units l))" "lot_units l' = lot_units l - min k (lot_units l)"
    "paid_whole paid'" "paid_units paid' = paid_units paid + min k (lot_units l)"
    "unit_count (lot_principal l') + unit_count (paid_principal paid') = unit_count (lot_principal l) + unit_count (paid_principal paid)"
proof -
  note f = pay_lot_fields [OF assms(1)]
  obtain a b c where l: "whole (lot_fees l) a" "whole (lot_interest l) b" "whole (lot_principal l) c"
    using assms(2) by (auto simp: lot_whole_def is_whole_def)
  obtain x y z where q: "whole (paid_fees paid) x" "whole (paid_interest paid) y" "whole (paid_principal paid) z"
    using assms(4) by (auto simp: paid_whole_def is_whole_def)
  have nn: "0 \<le> a" "0 \<le> b" "0 \<le> c" "0 \<le> x" "0 \<le> y" "0 \<le> z" "0 \<le> k" using l q assms(3) by (auto simp: whole_def)
  have b15: "x + y + z + k \<le> 10 ^ 15" using assms(5) q [THEN whole_unit_count] by (simp add: paid_units_def)
  note l1 = whole_level_exact [OF assms(3) l(1)]
  note l2 = whole_level_exact [OF l1(3) l(2)]
  note l3 = whole_level_exact [OF l2(3) l(3)]
  have w: "whole (lot_fees l') (a - min k a)" "whole (lot_interest l') (b - min (k - min k a) b)"
      "whole (lot_principal l') (c - min (k - min k a - min (k - min k a) b) c)"
    using l1(2) l2(2) l3(2) f by simp_all
  have v: "whole (paid_fees paid') (x + min k a)" "whole (paid_interest paid') (y + min (k - min k a) b)"
      "whole (paid_principal paid') (z + min (k - min k a - min (k - min k a) b) c)"
    unfolding f by (rule whole_add [OF q(1) l1(1)], use b15 nn in linarith,
        rule whole_add [OF q(2) l2(1)], use b15 nn in linarith, rule whole_add [OF q(3) l3(1)], use b15 nn in linarith)
  have u: "lot_units l = a + b + c" "paid_units paid = x + y + z" using l q whole_unit_count by (simp_all add: lot_units_def paid_units_def)
  have m: "min k (a + b + c) = min k a + min (k - min k a) b + min (k - min k a - min (k - min k a) b) c"
    using nn by (simp add: min_def)
  show "lot_whole l'" "paid_whole paid'" using w v whole_unit_count by (auto simp: lot_whole_def paid_whole_def)
  show "lot_units l' = lot_units l - min k (lot_units l)" using w u m whole_unit_count by (simp add: lot_units_def)
  show "paid_units paid' = paid_units paid + min k (lot_units l)" using v u m whole_unit_count by (simp add: paid_units_def)
  show "whole rest (k - min k (lot_units l))" using l3(3) f(5) u m by (simp add: algebra_simps)
  show "unit_count (lot_principal l') + unit_count (paid_principal paid') = unit_count (lot_principal l) + unit_count (paid_principal paid)"
    using w(3) v(3) l(3) q(3) whole_unit_count by simp
qed

definition lots_units :: "Lot list \<Rightarrow> int" where
  "lots_units ls = (\<Sum>l\<leftarrow>ls. lot_units l)"

definition principal_units :: "Lot list \<Rightarrow> int" where
  "principal_units ls = (\<Sum>l\<leftarrow>ls. unit_count (lot_principal l))"

definition order_units :: "Lot list \<Rightarrow> nat list \<Rightarrow> int" where
  "order_units ls order = (\<Sum>j\<leftarrow>order. lot_units (ls ! j))"

lemma sum_update: "j < length xs \<Longrightarrow> (\<Sum>x\<leftarrow>xs[j := y]. f x) = (\<Sum>x\<leftarrow>xs. f x) - f (xs ! j) + (f y :: int)"
  by (induction xs arbitrary: j) (auto split: nat.splits)

lemma order_units_other: "j \<notin> set order \<Longrightarrow> order_units (ls[j := l]) order = order_units ls order"
  by (induction order) (auto simp: order_units_def)

lemma order_units_nonneg:
  "\<forall>l \<in> set ls. lot_whole l \<Longrightarrow> \<forall>j \<in> set order. j < length ls \<Longrightarrow> 0 \<le> order_units ls order"
  unfolding order_units_def by (intro sum_list_nonneg) (auto simp: lot_units_nonneg)

lemma order_units_all:
  assumes "distinct order" "set order = {..<length ls}"
  shows "order_units ls order = lots_units ls"
proof -
  have "order_units ls order = (\<Sum>j\<in>{..<length ls}. lot_units (ls ! j))"
    using assms by (simp add: order_units_def sum_list_distinct_conv_sum_set)
  also have "\<dots> = lots_units ls"
    by (simp add: lots_units_def sum_list_sum_nth atLeast0LessThan)
  finally show ?thesis .
qed

lemma allocate_whole:
  assumes "allocate ls order cash paid = Ok (ls', out)" "distinct order" "\<forall>j \<in> set order. j < length ls"
    "\<forall>l \<in> set ls. lot_whole l" "whole cash k" "paid_whole paid" "paid_units paid + k \<le> 10 ^ 15"
  shows "(\<forall>l \<in> set ls'. lot_whole l) \<and> paid_whole out
    \<and> lots_units ls' = lots_units ls - min k (order_units ls order)
    \<and> paid_units out = paid_units paid + min k (order_units ls order)
    \<and> principal_units ls' + unit_count (paid_principal out) = principal_units ls + unit_count (paid_principal paid)"
  using assms
proof (induction ls order cash paid arbitrary: k rule: allocate.induct)
  case (1 ls cash paid)
  then show ?case by (auto simp: order_units_def whole_def)
next
  case (2 ls j order cash paid)
  have ou: "0 \<le> order_units ls (j # order)" by (rule order_units_nonneg) (use "2.prems"(3,4) in auto)
  show ?case
  proof (cases "cash \<le> 0")
    case True
    then have "k = 0" using "2.prems"(5) by (auto simp: whole_def)
    then show ?thesis using True "2.prems" ou by auto
  next
    case False
    obtain l rest paid' where p: "pay_lot (ls ! j) cash paid = (l, rest, paid')" by (metis prod_cases3)
    have j: "j < length ls" "j \<notin> set order" using "2.prems"(2,3) by auto
    have a: "allocate (ls[j := l]) order rest paid' = Ok (ls', out)" using "2.prems"(1) False j p by simp
    have lj: "lot_whole (ls ! j)" using "2.prems"(4) j by simp
    note w = pay_lot_whole [OF p lj "2.prems"(5-7)]
    let ?d = "min k (lot_units (ls ! j))"
    have "\<forall>l \<in> set (ls[j := l]). lot_whole l" using "2.prems"(4) w(1) by (metis insert_iff set_update_subset_insert subsetD)
    moreover have "paid_units paid' + (k - ?d) \<le> 10 ^ 15" using w(5) "2.prems"(7) by simp
    moreover have "\<not> length ls \<le> j" "distinct order" "\<forall>i \<in> set order. i < length (ls[j := l])" using j "2.prems"(2,3) by auto
    ultimately have ih: "(\<forall>l \<in> set ls'. lot_whole l) \<and> paid_whole out
        \<and> lots_units ls' = lots_units (ls[j := l]) - min (k - ?d) (order_units (ls[j := l]) order)
        \<and> paid_units out = paid_units paid' + min (k - ?d) (order_units (ls[j := l]) order)
        \<and> principal_units ls' + unit_count (paid_principal out) = principal_units (ls[j := l]) + unit_count (paid_principal paid')"
      using "2.IH" [OF False _ p [symmetric] refl a _ _ _ w(2,4)] by blast
    have o: "order_units (ls[j := l]) order = order_units ls order" by (rule order_units_other [OF j(2)])
    have on: "0 \<le> order_units ls order" by (rule order_units_nonneg) (use "2.prems"(3,4) in auto)
    have oc: "order_units ls (j # order) = lot_units (ls ! j) + order_units ls order" by (simp add: order_units_def)
    have u: "lots_units (ls[j := l]) = lots_units ls - ?d"
      using w(3) by (simp add: lots_units_def sum_update [OF j(1)])
    have pu: "principal_units (ls[j := l]) + unit_count (paid_principal paid') = principal_units ls + unit_count (paid_principal paid)"
      using w(6) by (simp add: principal_units_def sum_update [OF j(1)])
    have "?d + min (k - ?d) (order_units ls order) = min k (order_units ls (j # order))"
      using on oc lot_units_nonneg [OF lj] by (simp add: min_def)
    then show ?thesis using ih u pu w(5) o by simp
  qed
qed

lemma minimum_order_perm:
  assumes "set (allocation_order (minimum_terms r)) = UNIV" "distinct (allocation_order (minimum_terms r))"
  shows "distinct (minimum_order r ls)" "set (minimum_order r ls) = {..<length ls}"
  using minimum_distinct [OF assms(2)] assms(1) by (auto simp: minimum_order_set) (simp add: minimum_order_def)

lemma settle_whole:
  assumes "settle r day c a = Ok (ls, paid)" "\<forall>l \<in> set (lots c). lot_whole l"
    and "whole a k" "whole (minimum_remaining c) m" "k \<le> lots_units (lots c)"
    and "set (allocation_order (minimum_terms r)) = UNIV" "distinct (allocation_order (minimum_terms r))"
  shows "(\<forall>l \<in> set ls. lot_whole l) \<and> paid_whole paid \<and> lots_units ls = lots_units (lots c) - k \<and> paid_units paid = k
    \<and> principal_units ls + unit_count (paid_principal paid) = principal_units (lots c)"
proof -
  let ?m = "fmin a (minimum_remaining c)"
  from assms(1) obtain mid paid' where m: "allocate (lots c) (minimum_order r (lots c)) ?m nothing_paid = Ok (mid, paid')"
    and e: "allocate mid (excess_order (rates_now c) day mid) (a - ?m) paid' = Ok (ls, paid)"
    by (auto simp: settle_def Let_def)
  have k: "0 \<le> k" "k \<le> 10 ^ 15" "0 \<le> m" using assms(3,4) by (auto simp: whole_def)
  have z: "whole 0 0" by (simp add: whole_def)
  note zu = whole_unit_count [OF z]
  have n: "paid_whole nothing_paid" "paid_units nothing_paid = 0" "unit_count (paid_principal nothing_paid) = 0"
    using zu by (simp_all add: nothing_paid_def paid_whole_def paid_units_def)
  have wm: "whole ?m (min k m)" by (rule whole_min [OF assms(3,4)])
  have we: "whole (a - ?m) (k - min k m)" by (rule whole_sub [OF assms(3) wm]) simp
  note mo = minimum_order_perm [OF assms(6,7), of "lots c"]
  have r1: "\<forall>j \<in> set (minimum_order r (lots c)). j < length (lots c)" using mo(2) by auto
  have c1: "paid_units nothing_paid + min k m \<le> 10 ^ 15" using n(2) k by simp
  note A = allocate_whole [OF m mo(1) r1 assms(2) wm n(1) c1, unfolded order_units_all [OF mo]]
  have m1: "min (min k m) (lots_units (lots c)) = min k m" using assms(5) by simp
  have wmid: "\<forall>l \<in> set mid. lot_whole l" and pw: "paid_whole paid'" and pu: "paid_units paid' = min k m"
    and lu: "lots_units mid = lots_units (lots c) - min k m"
    and pr: "principal_units mid + unit_count (paid_principal paid') = principal_units (lots c)"
    using A m1 n by auto
  have r2: "\<forall>j \<in> set (excess_order (rates_now c) day mid). j < length mid" by simp
  have c2: "paid_units paid' + (k - min k m) \<le> 10 ^ 15" using pu k by simp
  note B = allocate_whole [OF e excess_distinct r2 wmid we pw c2, unfolded order_units_all [OF excess_distinct excess_order_set]]
  have "min (k - min k m) (lots_units mid) = k - min k m" using lu assms(5) by simp
  with B pu lu pr show ?thesis by simp
qed

text \<open>
  C25. In whole currency units a payment is accounted for exactly: the amount paid is what the cash event
  reports as principal, interest and fees, the debt of the lots falls by exactly that amount and
  their principal by exactly the principal reported, and no balance loses its whole units.
\<close>

theorem payment_conserves:
  assumes "card_pay r day c a = Ok d" "\<forall>l \<in> set (lots c). lot_whole l"
    and "whole a k" "whole (minimum_remaining c) m" "k \<le> lots_units (lots c)"
    and "set (allocation_order (minimum_terms r)) = UNIV" "distinct (allocation_order (minimum_terms r))"
  shows "\<exists>e. card_cash d = card_cash c @ [e] \<and> cash_ordinal e = day
    \<and> val (cash_principal e) + val (cash_interest_part e) + val (cash_fees e) = val a
    \<and> (\<forall>l \<in> set (lots d). lot_whole l) \<and> lots_units (lots d) = lots_units (lots c) - k
    \<and> of_int (principal_units (lots d)) = of_int (principal_units (lots c)) - val (cash_principal e)
    \<and> whole (minimum_remaining d) (m - min k m)"
proof -
  from assms(1) obtain ls paid where st: "settle r day c a = Ok (ls, paid)" by (auto simp: card_pay_def)
  note w = settle_whole [OF st assms(2-7)]
  have v: "val (paid_fees paid) = of_int (unit_count (paid_fees paid))"
      "val (paid_interest paid) = of_int (unit_count (paid_interest paid))"
      "val (paid_principal paid) = of_int (unit_count (paid_principal paid))" "val a = of_int k"
    using w assms(3) by (simp_all add: paid_whole_def is_whole_def whole_def)
  have "val (paid_principal paid) + val (paid_interest paid) + val (paid_fees paid) = of_int (paid_units paid)"
    unfolding v by (simp add: paid_units_def)
  then have s: "val (paid_principal paid) + val (paid_interest paid) + val (paid_fees paid) = val a" using w v by simp
  have p: "of_int (principal_units ls) = of_int (principal_units (lots c)) - val (paid_principal paid)"
    using w v by (simp flip: of_int_add)
  have m: "whole (minimum_remaining c - fmin a (minimum_remaining c)) (m - min k m)"
    by (rule whole_sub [OF assms(4) whole_min [OF assms(3,4)]]) simp
  from st assms(1) have "lots d = ls" "minimum_remaining d = minimum_remaining c - fmin a (minimum_remaining c)"
    and "\<exists>e. card_cash d = card_cash c @ [e] \<and> cash_ordinal e = day \<and> cash_principal e = paid_principal paid
      \<and> cash_interest_part e = paid_interest paid \<and> cash_fees e = paid_fees paid"
    by (auto simp: card_pay_def Let_def)
  then show ?thesis using w s p m by auto
qed

section \<open>An example\<close>

definition sample_card_rates :: CardRates where
  "sample_card_rates = \<lparr> purchase_rate = 1, cash_advance_rate = f64_of_int 2, promotional_rate = 0,
     promotional_expiry = 100, post_promotion_rate = 1 \<rparr>"

definition sample_lot :: "BalanceClass \<Rightarrow> int \<Rightarrow> int \<Rightarrow> int \<Rightarrow> Lot" where
  "sample_lot cl f i p = \<lparr> lot_class = cl, lot_principal = f64_of_int p, lot_interest = f64_of_int i, lot_unbilled = 0,
     lot_unrecognized = 0, lot_fees = f64_of_int f, lot_shadow = 0, lot_grace = False, lot_statement = 0 \<rparr>"

definition sample_card :: Card where
  "sample_card = \<lparr> lots = [sample_lot Purchase 2 3 100, sample_lot CashAdvance 0 5 50], limit = f64_of_int 500,
     card_state = Performing, rates_now = sample_card_rates, purchase_grace = False,
     minimum_remaining = f64_of_int 10, drawn = 0, collected_principal = 0, card_cash = [],
     card_recognition = [], card_points = [], statements = [], card_defaulted = None \<rparr>"

definition sample_card_request :: CardRequest where
  "sample_card_request = \<lparr> card_schema = CARD_SCHEMA,
     card_identity = \<lparr> position_ident = ''p'', original_loan_id = ''l'', cohort_id = ''c'', identity_currency = ''USD'',
       source_revision = ''r'', model_version = CARD_SCHEMA, assumption_id = ''a'', run_id = ''n'',
       identity_measure = Physical \<rparr>,
     card_as_of = 1, card_horizon_days = 30,
     opening_card_principal = (f64_of_int 100, f64_of_int 50, 0), opening_billed_interest = (0, 0, 0),
     opening_unbilled_interest = (0, 0, 0), opening_unrecognized_billed = (0, 0, 0), opening_card_fees = (0, 0, 0),
     opening_contingent_purchase = 0, opening_statement_remaining = (0, 0, 0), opening_minimum_remaining = 0,
     opening_due = None, initial_limit = f64_of_int 500, initial_card_state = Performing,
     initial_rates = sample_card_rates, card_day_count = Act360, initial_purchase_grace = False,
     regain_grace = True, compound_billed_interest = False,
     minimum_terms = \<lparr> minimum_floor = f64_of_int 10, principal_fraction = 0, include_billed_interest = True,
       include_fees = True, allocation_order = [Purchase, CashAdvance, Promotional] \<rparr>,
     card_cycles = [\<lparr> cycle_statement = 10, cycle_due = 20 \<rparr>], card_steps = [],
     card_collection_fraction = 0, card_collection_cost = 0, recovery_delay_days = 0 \<rparr>"

lemma sample_lot_whole:
  assumes "0 \<le> f" "f \<le> 10 ^ 15" "0 \<le> i" "i \<le> 10 ^ 15" "0 \<le> p" "p \<le> 10 ^ 15"
  shows "lot_whole (sample_lot cl f i p)" "lot_units (sample_lot cl f i p) = f + i + p" "lot_small (sample_lot cl f i p)"
  using whole_of_integer [of f] whole_of_integer [of i] whole_of_integer [of p] assms
  by (auto simp: lot_whole_def lot_units_def lot_small_def sample_lot_def whole_unit_count whole_small)

lemma allocate_Ok: "\<forall>j \<in> set order. j < length ls \<Longrightarrow> \<exists>out. allocate ls order cash paid = Ok out"
  by (induction ls order cash paid rule: allocate.induct) (auto split: prod.splits)

lemma settle_Ok: "\<exists>out. settle r day c a = Ok out"
proof -
  obtain mid paid' where m: "allocate (lots c) (minimum_order r (lots c)) (fmin a (minimum_remaining c)) nothing_paid = Ok (mid, paid')"
    using allocate_Ok [of "minimum_order r (lots c)" "lots c" "fmin a (minimum_remaining c)" nothing_paid]
    by (auto simp: minimum_order_set)
  then show ?thesis
    using allocate_Ok [of "excess_order (rates_now c) day mid" mid] by (auto simp: settle_def Let_def)
qed

lemma sample_lots: "\<forall>l \<in> set (lots sample_card). lot_whole l \<and> lot_small l" "lots_units (lots sample_card) = 160"
  by (simp_all add: sample_card_def lots_units_def sample_lot_whole)

lemma sample_rates_ok: "card_rates_ok sample_card_rates"
  using int_val [of 2] by (simp add: card_rates_ok_def sample_card_rates_def)

theorem payment_order_witness:
  "\<exists>ls paid. settle sample_card_request 10 sample_card (f64_of_int 30) = Ok (ls, paid) \<and> (\<forall>l \<in> set ls. lot_small l)"
proof -
  obtain ls paid where s: "settle sample_card_request 10 sample_card (f64_of_int 30) = Ok (ls, paid)"
    using settle_Ok [of sample_card_request 10 sample_card "f64_of_int 30"] by auto
  have "small (minimum_remaining sample_card)" "card_rates_ok (rates_now sample_card)"
    "distinct (allocation_order (minimum_terms sample_card_request))"
    by (simp_all add: sample_card_def small_of_int sample_rates_ok sample_card_request_def)
  with payment_order [OF s] s show ?thesis using sample_lots(1) by (simp add: small_of_int) blast
qed

lemma sample_owed: "whole (owed sample_card) 160"
proof -
  have w: "whole (f64_of_int k) k" if "0 \<le> k" "k \<le> 1000" for k using that by (intro whole_of_integer) simp_all
  have m: "whole (- 0 + x) k" if "whole x k" for x k
    using exact_add [of "- 0" x 0 k] that by (simp add: whole_def)
  have "whole (f64_of_int 100 + f64_of_int 3 + f64_of_int 2) (100 + 3 + 2)"
    "whole (f64_of_int 50 + f64_of_int 5 + f64_of_int 0) (50 + 5 + 0)"
    by (intro whole_add w; simp)+
  from whole_add [OF m [OF this(1)] this(2)] show ?thesis
    by (simp add: owed_def fsum_def sample_card_def lot_total_def sample_lot_def)
qed

theorem payment_conserves_witness:
  "\<exists>d. card_pay sample_card_request 10 sample_card (f64_of_int 30) = Ok d \<and> lots_units (lots d) = 130"
proof -
  have "val (owed sample_card) = 160" "is_finite (owed sample_card)" using sample_owed by (simp_all add: whole_def)
  moreover have "f64_ok (owed sample_card)" by (simp add: owed_def fsum_def sample_card_def lot_total_def sample_lot_def)
  ultimately have "\<not> owed sample_card + card_slack < f64_of_int 30"
    using nano_slack [OF whole_small [OF sample_owed]] int_val [of 30] by (simp add: card_slack_def)
  moreover obtain ls paid where "settle sample_card_request 10 sample_card (f64_of_int 30) = Ok (ls, paid)"
    using settle_Ok [of sample_card_request 10 sample_card "f64_of_int 30"] by auto
  ultimately obtain d where d: "card_pay sample_card_request 10 sample_card (f64_of_int 30) = Ok d"
    by (simp add: card_pay_def require_def Let_def)
  have m: "whole (minimum_remaining sample_card) 10" by (simp add: sample_card_def whole_of_integer)
  have "set (allocation_order (minimum_terms sample_card_request)) = UNIV" "distinct (allocation_order (minimum_terms sample_card_request))"
    by (simp_all add: sample_card_request_def all_classes)
  from payment_conserves [OF d _ whole_of_integer m _ this] sample_lots d show ?thesis by auto
qed

end
