(* ===== verification/Revolving_Amounts.thy ===== *)
theory Revolving_Amounts
  imports Revolving_Payments
begin

text \<open>
  The amounts of a card replay: every balance of every lot stays finite, nonnegative and below a
  bound that grows inside the day by what the day can add, and falls back under the monetary limit
  at its close, because the sums that are checked there dominate each of their terms.
\<close>

section \<open>Bounded amounts\<close>

definition nn :: "f64 \<Rightarrow> int \<Rightarrow> bool" where
  "nn x b \<longleftrightarrow> is_finite x \<and> f64_ok x \<and> 0 \<le> val x \<and> val x \<le> of_int b"

lemma nn_zero [simp]: "0 \<le> b \<Longrightarrow> nn 0 b"
  by (simp add: nn_def)

lemma nn_mono: "nn x a \<Longrightarrow> a \<le> b \<Longrightarrow> nn x b"
  unfolding nn_def using of_int_le_iff [of a b, where ?'a = real] by linarith

lemma nn_amount: "amount_ok x \<Longrightarrow> f64_ok x \<Longrightarrow> nn x (10 ^ 15)"
  by (simp add: nn_def amount_ok_val)

lemma amount_nn: "nn x (10 ^ 15) \<Longrightarrow> amount_ok x"
  by (simp add: nn_def amount_ok_val)

lemma nn_small: "nn x b \<Longrightarrow> b \<le> 2 ^ 53 \<Longrightarrow> small x"
  unfolding nn_def small_def using of_int_le_iff [of b "2 ^ 53", where ?'a = real] by auto

lemma int_bound: "\<bar>b\<bar> \<le> 2 ^ 53 \<Longrightarrow> real_of_int b \<in> dbl \<and> real_of_int b < huge"
proof -
  assume b: "\<bar>b\<bar> \<le> 2 ^ 53"
  then have "real_of_int b \<le> 2 ^ 53" using of_int_le_iff [of b "2 ^ 53", where ?'a = real] by auto
  then show ?thesis using dbl_int [OF b] small_bound(2) by auto
qed

lemma nn_rounds:
  assumes "rounds_to x r" "0 \<le> r" "r \<le> of_int b" "b \<le> 2 ^ 53"
  shows "nn x b"
proof -
  have "real_of_int b \<ge> 0" using assms(2,3) by linarith
  then have b: "real_of_int b \<in> dbl \<and> real_of_int b < huge" using assms(4) by (intro int_bound) simp
  have "is_finite x" "val x = rnd r" "\<bar>val x\<bar> \<le> of_int b"
    using rounds_to_bound [OF assms(1) _ conjunct1 [OF b] conjunct2 [OF b]] assms(2,3) by auto
  then show ?thesis using rne.rd_nonneg [OF assms(2)] rounds_to_ok [OF assms(1)] by (simp add: nn_def)
qed

lemma nn_add: "nn x a \<Longrightarrow> nn y b \<Longrightarrow> a + b \<le> 2 ^ 53 \<Longrightarrow> nn (x + y) (a + b)"
  by (rule nn_rounds [OF add_rounds]) (auto simp: nn_def)

lemma nn_sub: "nn x a \<Longrightarrow> is_finite y \<Longrightarrow> 0 \<le> val y \<Longrightarrow> val y \<le> val x \<Longrightarrow> a \<le> 2 ^ 53 \<Longrightarrow> nn (x - y) a"
  by (rule nn_rounds [OF sub_rounds]) (auto simp: nn_def)

lemma nn_min: "nn x a \<Longrightarrow> nn y b \<Longrightarrow> nn (fmin x y) a \<and> nn (fmin x y) b \<and> val (fmin x y) \<le> val x \<and> val (fmin x y) \<le> val y"
  using fmin_val [of x y] by (auto simp: nn_def min_def)

lemma nn_scale:
  assumes "nn s b" "nn q 1" "b \<le> 2 ^ 53"
  shows "nn (s * q) b"
proof (rule nn_rounds)
  show "rounds_to (s * q) (val s * val q)" using assms by (intro mul_rounds) (auto simp: nn_def)
  show "0 \<le> val s * val q" "val s * val q \<le> of_int b"
    using assms mult_left_le [of "val q" "val s"] by (auto simp: nn_def)
qed (rule assms(3))

lemma nn_share:
  assumes "nn s b" "nn n a" "nn d a" "val n \<le> val d" "0 < val d" "b \<le> 2 ^ 53"
  shows "nn (s * (n / d)) b"
proof (rule nn_scale [OF assms(1) _ assms(6)])
  have "rounds_to (n / d) (val n / val d)"
    using assms(2,3,5) by (intro div_rounds) (auto simp: nn_def)
  moreover have "0 \<le> val n / val d" "val n / val d \<le> of_int 1" using assms by (auto simp: nn_def)
  ultimately show "nn (n / d) 1" by (rule nn_rounds) simp
qed

text \<open>A sum that is finite dominates its terms.\<close>

lemma add_dominates:
  assumes "is_finite (x + y)" "f64_ok x" "f64_ok y" "0 \<le> val x" "0 \<le> val y"
  shows "is_finite x \<and> is_finite y \<and> val x \<le> val (x + y) \<and> val y \<le> val (x + y) \<and> 0 \<le> val (x + y)"
proof -
  have f: "is_finite x" "is_finite y" using add_finiteD [OF assms(1)] by auto
  have v: "val (x + y) = rnd (val x + val y)" by (rule add_val [OF assms(1)])
  have "val x \<le> rnd (val x + val y)" "val y \<le> rnd (val x + val y)"
    using assms(4,5) val_dbl [OF assms(2)] val_dbl [OF assms(3)] by (auto intro!: rne.rd_ge)
  then show ?thesis using f v assms(4) by simp
qed

lemma foldl_dominates:
  assumes "is_finite (foldl (+) a xs)" "f64_ok a" "0 \<le> val a" "\<forall>x \<in> set xs. f64_ok x \<and> 0 \<le> val x"
  shows "is_finite a \<and> val a \<le> val (foldl (+) a xs) \<and> (\<forall>x \<in> set xs. val x \<le> val (foldl (+) a xs))"
  using assms
proof (induction xs arbitrary: a)
  case (Cons x xs)
  have x: "f64_ok x" "0 \<le> val x" using Cons.prems(4) by auto
  have nn: "0 \<le> val (a + x)"
  proof (cases "is_finite (a + x)")
    case True
    then show ?thesis using add_dominates [of a x] Cons.prems(2,3) x by simp
  qed (cases "a + x"; simp)
  have ih: "is_finite (a + x) \<and> val (a + x) \<le> val (foldl (+) (a + x) xs)
      \<and> (\<forall>y \<in> set xs. val y \<le> val (foldl (+) (a + x) xs))"
    using Cons.IH [of "a + x"] Cons.prems x nn by simp
  with add_dominates [of a x] Cons.prems(2,3) x show ?case by auto
qed simp

lemma fsum_dominates:
  assumes "is_finite (fsum xs)" "\<forall>x \<in> set xs. f64_ok x \<and> 0 \<le> val x"
  shows "\<forall>x \<in> set xs. val x \<le> val (fsum xs)" "0 \<le> val (fsum xs)"
  using foldl_dominates [of "- 0" xs] assms by (auto simp: fsum_def)

lemma class_sum_as_foldl: "class_sum f ls c = foldl (+) 0 (map f (filter (\<lambda>l. lot_class l = c) ls))"
proof -
  have "foldl (\<lambda>a l. if lot_class l = c then a + f l else a) x ls = foldl (+) x (map f (filter (\<lambda>l. lot_class l = c) ls))" for x
    by (induction ls arbitrary: x) auto
  then show ?thesis by (simp add: class_sum_def)
qed

lemma foldl_add_ok: "f64_ok a \<Longrightarrow> \<forall>x \<in> set xs. f64_ok x \<Longrightarrow> f64_ok (foldl (+) a xs)"
  by (induction xs arbitrary: a) simp_all

lemma fsum_ok: "\<forall>x \<in> set xs. f64_ok x \<Longrightarrow> f64_ok (fsum xs)"
  by (simp add: fsum_def foldl_add_ok)

lemma class_sum_ok: "\<forall>l \<in> set ls. f64_ok (f l) \<Longrightarrow> f64_ok (class_sum f ls c)"
  unfolding class_sum_as_foldl by (intro foldl_add_ok) auto

lemma foldl_add_nonneg:
  assumes "f64_ok a" "0 \<le> val a" "\<forall>x \<in> set xs. f64_ok x \<and> 0 \<le> val x"
  shows "0 \<le> val (foldl (+) a xs)"
proof (cases "is_finite (foldl (+) a xs)")
  case True
  then show ?thesis using foldl_dominates [of a xs] assms by auto
next
  case False
  then show ?thesis by (cases "foldl (+) a xs") simp_all
qed

lemma class_sum_nonneg: "\<forall>l \<in> set ls. f64_ok (f l) \<and> 0 \<le> val (f l) \<Longrightarrow> 0 \<le> val (class_sum f ls c)"
  unfolding class_sum_as_foldl by (intro foldl_add_nonneg) auto

lemma all_three: "(\<forall>c. P c) \<longleftrightarrow> P Purchase \<and> P CashAdvance \<and> P Promotional"
  by (metis BalanceClass.exhaust)

text \<open>A class total under the limit bounds the classes and every lot.\<close>

lemma class_total_bounds:
  assumes fin: "is_finite (fsum (class_list (class_sums f ls)))" and le: "val (fsum (class_list (class_sums f ls))) \<le> of_int b"
    and ok: "\<forall>l \<in> set ls. f64_ok (f l) \<and> is_finite (f l) \<and> 0 \<le> val (f l)"
  shows "\<forall>x \<in> set (class_list (class_sums f ls)). nn x b" "\<forall>l \<in> set ls. nn (f l) b"
proof -
  let ?s = "fsum (class_list (class_sums f ls))"
  have okc: "f64_ok (class_sum f ls c)" "0 \<le> val (class_sum f ls c)" for c
    using ok by (auto intro: class_sum_ok class_sum_nonneg)
  have finc: "is_finite (class_sum f ls c)" for c
  proof -
    have "\<forall>c. is_finite (class_sum f ls c)" unfolding all_three
      using fin by (auto simp: class_sums_def fsum_def dest!: add_finiteD)
    then show ?thesis by simp
  qed
  have "\<forall>c. val (class_sum f ls c) \<le> val ?s" unfolding all_three
    using fsum_dominates(1) [OF fin] okc by (simp add: class_sums_def)
  then have c: "nn (class_sum f ls c) b" for c using okc finc le by (auto simp: nn_def intro: order_trans)
  then show "\<forall>x \<in> set (class_list (class_sums f ls)). nn x b" by (simp add: class_sums_def)
  show "\<forall>l \<in> set ls. nn (f l) b"
  proof
    fix l assume l: "l \<in> set ls"
    have "val (f l) \<le> val (class_sum f ls (lot_class l))"
      using foldl_dominates [of 0 "map f (filter (\<lambda>x. lot_class x = lot_class l) ls)"] finc [of "lot_class l"] ok l
      by (auto simp: class_sum_as_foldl)
    then show "nn (f l) b" using c [of "lot_class l"] ok l by (auto simp: nn_def)
  qed
qed

section \<open>The day in bounds\<close>

abbreviation cap :: int where
  "cap \<equiv> 10 ^ 15"

definition lot_within :: "int \<Rightarrow> int \<Rightarrow> Lot \<Rightarrow> bool" where
  "lot_within i u l \<longleftrightarrow> nn (lot_principal l) cap \<and> nn (lot_fees l) cap \<and> nn (lot_interest l) i
     \<and> nn (lot_unbilled l) u \<and> nn (lot_shadow l) u"

definition canonical_rates :: "CardRates \<Rightarrow> bool" where
  "canonical_rates rs \<longleftrightarrow> f64_ok (purchase_rate rs) \<and> f64_ok (cash_advance_rate rs) \<and> f64_ok (promotional_rate rs)
     \<and> f64_ok (post_promotion_rate rs)"

definition canonical_action :: "CardAction \<Rightarrow> bool" where
  "canonical_action a \<longleftrightarrow> (case a of Draw _ v \<Rightarrow> f64_ok v | CardPayment v \<Rightarrow> f64_ok v | CardFee _ v \<Rightarrow> f64_ok v
     | SetLimit v \<Rightarrow> f64_ok v | SetRates rs \<Rightarrow> canonical_rates rs | _ \<Rightarrow> True)"

definition card_within :: "int \<Rightarrow> int \<Rightarrow> Card \<Rightarrow> bool" where
  "card_within i u c \<longleftrightarrow> (\<forall>l \<in> set (lots c). lot_within i u l) \<and> nn (limit c) cap
     \<and> nn (minimum_remaining c) (2 ^ 53) \<and> canonical_rates (rates_now c)"

lemma lot_within_mono: "lot_within i u l \<Longrightarrow> i \<le> i' \<Longrightarrow> u \<le> u' \<Longrightarrow> lot_within i' u' l"
  by (auto simp: lot_within_def elim: nn_mono)

lemma canonical_rate_at: "canonical_rates rs \<Longrightarrow> f64_ok (rate_at rs c d)"
  by (cases c) (auto simp: canonical_rates_def rate_at_def)

lemma pay_lot_shadow:
  "pay_lot l cash paid = (l', rest, paid') \<Longrightarrow> lot_unbilled l' = lot_unbilled l
    \<and> lot_shadow l' = (if 0 < lot_principal l then lot_shadow l * (lot_principal l' / lot_principal l) else lot_shadow l)"
  by (auto simp: pay_lot_def Let_def)

lemma pay_lot_within:
  assumes "pay_lot l cash paid = (l', rest, paid')" "lot_within i u l" "nn cash b" "b \<le> 2 ^ 53" "i \<le> 2 ^ 53" "u \<le> 2 ^ 53"
  shows "lot_within i u l'" "nn rest b"
proof -
  note f = pay_lot_fields [OF assms(1)]
  have s: "nn (lot_fees l) cap" "nn (lot_interest l) i" "nn (lot_principal l) cap" "nn (lot_shadow l) u" "nn (lot_unbilled l) u"
    using assms(2) by (simp_all add: lot_within_def)
  have step: "nn (due - fmin x due) d \<and> nn (x - fmin x due) b \<and> val (due - fmin x due) \<le> val due"
    if "nn x b" "nn due d" "d \<le> 2 ^ 53" for x due d
  proof -
    note m = nn_min [OF that(1,2)]
    have a: "nn (due - fmin x due) d" using m that by (intro nn_sub) (auto simp: nn_def)
    have "val (due - fmin x due) = rnd (val due - val (fmin x due))" using a by (intro sub_val) (simp add: nn_def)
    also have "\<dots> \<le> val due" using m that(2) val_dbl [of due] by (intro rne.rd_le) (auto simp: nn_def)
    finally have le: "val (due - fmin x due) \<le> val due" .
    have "nn (x - fmin x due) b" using m that(1) assms(4) by (intro nn_sub) (auto simp: nn_def)
    with a le show ?thesis by blast
  qed
  note l1 = step [OF assms(3) s(1)]
  note l2 = step [OF conjunct1 [OF conjunct2 [OF l1]] s(2) assms(5)]
  note l3 = step [OF conjunct1 [OF conjunct2 [OF l2]] s(3)]
  have p: "nn (lot_principal l') cap" "val (lot_principal l') \<le> val (lot_principal l)" using l3 f by simp_all
  have "nn (lot_shadow l') u"
  proof (cases "0 < lot_principal l")
    case True
    then have "0 < val (lot_principal l)" using s(3) by (simp add: nn_def)
    from nn_share [OF s(4) p(1) s(3) p(2) this assms(6)] True pay_lot_shadow [OF assms(1)] show ?thesis by simp
  qed (use s(4) pay_lot_shadow [OF assms(1)] in simp)
  then show "lot_within i u l'" using l1 l2 l3 f p(1) s(5) pay_lot_shadow [OF assms(1)] by (simp add: lot_within_def)
  show "nn rest b" using l3 f by simp
qed

lemma allocate_within:
  assumes "allocate ls order cash paid = Ok (ls', out)" "\<forall>l \<in> set ls. lot_within i u l" "nn cash b" "b \<le> 2 ^ 53"
    "i \<le> 2 ^ 53" "u \<le> 2 ^ 53"
  shows "\<forall>l \<in> set ls'. lot_within i u l"
  using assms
proof (induction ls order cash paid rule: allocate.induct)
  case (2 ls j order cash paid)
  show ?case
  proof (cases "cash \<le> 0")
    case False
    obtain l rest paid' where p: "pay_lot (ls ! j) cash paid = (l, rest, paid')" by (metis prod_cases3)
    have j: "j < length ls" using "2.prems"(1) False by (auto simp: not_le split: if_splits)
    have a: "allocate (ls[j := l]) order rest paid' = Ok (ls', out)" using "2.prems"(1) False j p by simp
    have "lot_within i u (ls ! j)" using "2.prems"(2) j by simp
    note w = pay_lot_within [OF p this "2.prems"(3-6)]
    have "\<forall>l \<in> set (ls[j := l]). lot_within i u l" using "2.prems"(2) w(1) by (metis insert_iff set_update_subset_insert subsetD)
    from "2.IH" [OF False _ p [symmetric] refl a this w(2) "2.prems"(4-6)] j show ?thesis by simp
  qed (use "2.prems" in simp)
qed simp

text \<open>
  A pass over the lots by index: the lots before the index satisfy the bound after the step, the
  others the bound before it.
\<close>

definition part_way :: "(Lot \<Rightarrow> bool) \<Rightarrow> (Lot \<Rightarrow> bool) \<Rightarrow> Card \<Rightarrow> nat \<Rightarrow> Card \<Rightarrow> bool" where
  "part_way P Q c0 k c \<longleftrightarrow> length (lots c) = length (lots c0) \<and> limit c = limit c0
     \<and> minimum_remaining c = minimum_remaining c0 \<and> rates_now c = rates_now c0
     \<and> (\<forall>j < length (lots c0). if j < k then Q (lots c ! j) else P (lots c ! j))"

lemma part_way_start: "\<forall>l \<in> set (lots c). P l \<Longrightarrow> part_way P Q c 0 c"
  by (simp add: part_way_def)

lemma part_way_end: "part_way P Q c0 (length (lots c0)) c \<Longrightarrow> (\<forall>l \<in> set (lots c). Q l) \<and> limit c = limit c0
    \<and> minimum_remaining c = minimum_remaining c0 \<and> rates_now c = rates_now c0"
  by (auto simp: part_way_def in_set_conv_nth)

lemma part_way_step:
  assumes "part_way P Q c0 k c" "k < length (lots c0)" "lots d = (lots c)[k := l]" "Q l" "limit d = limit c"
    "minimum_remaining d = minimum_remaining c" "rates_now d = rates_now c"
  shows "part_way P Q c0 (Suc k) d"
  using assms by (auto simp: part_way_def nth_list_update less_Suc_eq)

lemma year_fraction_ok: "actual_year_fraction a b conv = Ok t \<Longrightarrow> conv = Act360 \<or> conv = Act365Fixed \<Longrightarrow> f64_ok t"
  by (auto simp: actual_year_fraction_def)

lemma accrue_lot_within:
  assumes "accrue_lot r day tau c k = Ok d" "lot_within cap cap (lots c ! k)" "canonical_rates (rates_now c)" "f64_ok tau"
  shows "\<exists>l. lots d = (lots c)[k := l] \<and> lot_within cap (2 * cap) l \<and> limit d = limit c
    \<and> minimum_remaining d = minimum_remaining c \<and> rates_now d = rates_now c"
proof -
  let ?l = "lots c ! k"
  define earned where "earned = (lot_principal ?l + (if compound_billed_interest r then lot_interest ?l else 0))
    * rate_at (rates_now c) (lot_class ?l) (day - 1) * tau"
  have e: "amount_ok earned" using assms(1) by (auto simp: accrue_lot_def Let_def earned_def)
  have "f64_ok earned" unfolding earned_def
    using assms(2-4) by (auto simp: lot_within_def nn_def canonical_rate_at)
  then have n: "nn earned cap" using nn_amount [OF e] by simp
  have o: "nn (lot_shadow ?l) cap" "nn (lot_unbilled ?l) cap" using assms(2) by (simp_all add: lot_within_def)
  have w: "nn (lot_shadow ?l + earned) (2 * cap)" "nn (lot_unbilled ?l + earned) (2 * cap)"
    using nn_add [OF o(1) n] nn_add [OF o(2) n] by simp_all
  have "lot_within cap (2 * cap) ?l" using assms(2) by (rule lot_within_mono) simp_all
  then have "lot_within cap (2 * cap) (?l \<lparr> lot_shadow := lot_shadow ?l + earned \<rparr>)"
    "lot_within cap (2 * cap) (?l \<lparr> lot_unbilled := lot_unbilled ?l + earned \<rparr>)"
    using w by (simp_all add: lot_within_def)
  then show ?thesis using assms(1) by (auto simp: accrue_lot_def Let_def earned_def [symmetric] split: if_splits)
qed

lemma card_accrue_within:
  assumes "card_accrue r day c = Ok d" "card_within cap cap c" "card_day_count r = Act360 \<or> card_day_count r = Act365Fixed"
  shows "card_within cap (2 * cap) d"
proof (cases "card_as_of r < day \<and> \<not> (card_state c = Default \<or> card_state c = Nonaccrual)")
  case True
  with assms(1) obtain tau where t: "actual_year_fraction (day - 1) day (card_day_count r) = Ok tau"
    and f: "fold_res (accrue_lot r day tau) c [0..<length (lots c)] = Ok d" by (auto simp: card_accrue_def)
  have ok: "f64_ok tau" by (rule year_fraction_ok [OF t assms(3)])
  have "part_way (lot_within cap cap) (lot_within cap (2 * cap)) c (length (lots c)) d"
  proof (rule fold_upt_inv [where I = "part_way (lot_within cap cap) (lot_within cap (2 * cap)) c", OF f])
    show "part_way (lot_within cap cap) (lot_within cap (2 * cap)) c 0 c"
      using assms(2) by (intro part_way_start) (simp add: card_within_def)
    fix k x y assume k: "k < length (lots c)" "part_way (lot_within cap cap) (lot_within cap (2 * cap)) c k x"
      "accrue_lot r day tau x k = Ok y"
    then have "lot_within cap cap (lots x ! k)" "canonical_rates (rates_now x)"
      using assms(2) by (auto simp: part_way_def card_within_def)
    from accrue_lot_within [OF k(3) this ok] show "part_way (lot_within cap cap) (lot_within cap (2 * cap)) c (Suc k) y"
      using part_way_step [OF k(2,1)] by blast
  qed simp
  from part_way_end [OF this] assms(2) show ?thesis by (simp add: card_within_def)
next
  case False
  with assms(1) have "d = c" unfolding card_accrue_def if_not_P [OF False] by simp
  then show ?thesis using assms(2) lot_within_mono [of cap cap _ cap "2 * cap"] by (auto simp: card_within_def)
qed

lemma settle_within:
  assumes "settle r day c a = Ok (ls, paid)" "card_within cap (2 * cap) c" "nn a cap"
  shows "\<forall>l \<in> set ls. lot_within cap (2 * cap) l" "nn (minimum_remaining c - fmin a (minimum_remaining c)) (2 ^ 53)"
proof -
  let ?m = "fmin a (minimum_remaining c)"
  from assms(1) obtain mid paid' where m: "allocate (lots c) (minimum_order r (lots c)) ?m nothing_paid = Ok (mid, paid')"
    and e: "allocate mid (excess_order (rates_now c) day mid) (a - ?m) paid' = Ok (ls, paid)"
    by (auto simp: settle_def Let_def)
  have r: "nn (minimum_remaining c) (2 ^ 53)" "\<forall>l \<in> set (lots c). lot_within cap (2 * cap) l"
    using assms(2) by (simp_all add: card_within_def)
  note mm = nn_min [OF assms(3) r(1)]
  have "nn ?m cap" using mm by simp
  from allocate_within [OF m r(2) this] have "\<forall>l \<in> set mid. lot_within cap (2 * cap) l" by simp
  moreover have "nn (a - ?m) cap" using mm assms(3) by (intro nn_sub) (auto simp: nn_def)
  ultimately show "\<forall>l \<in> set ls. lot_within cap (2 * cap) l" using allocate_within [OF e] by simp
  show "nn (minimum_remaining c - ?m) (2 ^ 53)" using mm r(1) by (intro nn_sub) (auto simp: nn_def)
qed

lemma card_act_within:
  assumes "card_act r fin day c a = Ok d" "card_within cap (2 * cap) c" "plain_action a" "canonical_action a"
  shows "card_within cap (2 * cap) d"
proof (cases a)
  case (Draw cl v)
  then have "nn v cap" using assms(3,4) by (intro nn_amount) (simp_all add: plain_action_def canonical_action_def)
  then show ?thesis using assms(1,2) Draw
    by (auto simp: card_act_def card_draw_def card_within_def lot_within_def)
next
  case (CardPayment v)
  then have v: "nn v cap" using assms(3,4) by (intro nn_amount) (simp_all add: plain_action_def canonical_action_def)
  from CardPayment assms(1) have pay: "card_pay r day c v = Ok d" by (simp add: card_act_def)
  then obtain ls paid where st: "settle r day c v = Ok (ls, paid)" by (auto simp: card_pay_def)
  from st pay have "lots d = ls" "limit d = limit c" "rates_now d = rates_now c"
      "minimum_remaining d = minimum_remaining c - fmin v (minimum_remaining c)"
    by (auto simp: card_pay_def Let_def)
  with settle_within [OF st assms(2) v] assms(2) show ?thesis by (simp add: card_within_def)
next
  case (CardFee cl v)
  then have "nn v cap" using assms(3,4) by (intro nn_amount) (simp_all add: plain_action_def canonical_action_def)
  then show ?thesis using assms(1,2) CardFee
    by (auto simp: card_act_def card_fee_def card_within_def lot_within_def)
next
  case (SetLimit v)
  then have "nn v cap" using assms(3,4) by (intro nn_amount) (simp_all add: plain_action_def canonical_action_def)
  then show ?thesis using assms(1,2) SetLimit by (auto simp: card_act_def card_within_def)
next
  case CardDefault
  with assms(1) have "card_default r fin day c = Ok d" by (simp add: card_act_def)
  then have "lots d = [] \<and> limit d = 0 \<and> minimum_remaining d = 0 \<and> rates_now d = rates_now c"
    by (auto simp: card_default_def Let_def)
  then show ?thesis using assms(2) by (simp add: card_within_def)
qed (use assms in \<open>auto simp: card_act_def card_within_def canonical_action_def\<close>)

lemma foldl_as_fold_res: "fold_res (\<lambda>s k. Ok (g s k)) s xs = Ok (foldl g s xs)"
  by (induction xs arbitrary: s) simp_all

lemma lose_grace_within:
  assumes "k < length (lots c)" "lot_within cap (2 * cap) (lots c ! k)"
  shows "\<exists>l. lots (lose_grace day c k) = (lots c)[k := l] \<and> lot_within (3 * cap) (2 * cap) l
    \<and> limit (lose_grace day c k) = limit c \<and> minimum_remaining (lose_grace day c k) = minimum_remaining c
    \<and> rates_now (lose_grace day c k) = rates_now c"
proof -
  let ?l = "lots c ! k"
  have o: "nn (lot_interest ?l) cap" "nn (lot_shadow ?l) (2 * cap)" using assms(2) by (simp_all add: lot_within_def)
  have w: "nn (lot_interest ?l + lot_shadow ?l) (3 * cap)" using nn_add [OF o] by simp
  have l: "lot_within (3 * cap) (2 * cap) ?l" using assms(2) by (rule lot_within_mono) simp_all
  show ?thesis
  proof (cases "lot_grace ?l")
    case True
    then show ?thesis using w l by (auto simp: lose_grace_def Let_def lot_within_def)
  next
    case False
    then show ?thesis using l by (intro exI [of _ ?l]) (simp add: lose_grace_def)
  qed
qed

lemma lose_graces_within:
  assumes "card_within cap (2 * cap) c"
  shows "card_within (3 * cap) (2 * cap) (foldl (lose_grace day) c [0..<length (lots c)])"
proof -
  let ?I = "part_way (lot_within cap (2 * cap)) (lot_within (3 * cap) (2 * cap)) c"
  have "?I (length (lots c)) (foldl (lose_grace day) c [0..<length (lots c)])"
  proof (rule fold_upt_inv [where I = ?I, OF foldl_as_fold_res])
    show "?I 0 c" using assms by (intro part_way_start) (simp add: card_within_def)
    fix k x y assume k: "k < length (lots c)" "?I k x" "(Ok (lose_grace day x k) :: (string, Card) result) = Ok y"
    then have "k < length (lots x)" "lot_within cap (2 * cap) (lots x ! k)" by (auto simp: part_way_def)
    from lose_grace_within [OF this, of day] k(3) show "?I (Suc k) y" using part_way_step [OF k(2,1), of y] by auto
  qed simp
  from part_way_end [OF this] assms show ?thesis by (simp add: card_within_def)
qed

lemma card_within_lots:
  assumes "card_within i u c" "\<forall>l \<in> set ls. lot_within i' u' l"
  shows "card_within i' u' (c \<lparr> lots := ls \<rparr>)"
  using assms by (simp add: card_within_def)

lemma card_due_within:
  assumes "card_within cap (2 * cap) c"
  shows "card_within (3 * cap) (2 * cap) (card_due r day c)"
proof -
  have g: "card_within cap (2 * cap) (c \<lparr> purchase_grace := b \<rparr>)" for b using assms by (simp add: card_within_def)
  have up: "card_within (3 * cap) (2 * cap) x" if "card_within cap (2 * cap) x" for x
    using that lot_within_mono [of cap "2 * cap" _ "3 * cap" "2 * cap"] by (auto simp: card_within_def)
  have z: "card_within i u (x \<lparr> lots := map (\<lambda>l. l \<lparr> lot_statement := 0 \<rparr>) ls \<rparr>)"
    if "card_within i u x" "ls = lots x" for i u x ls
    using that by (auto simp: card_within_def lot_within_def)
  show ?thesis
    using lose_graces_within [OF g [of False], of day] up [OF g [of True]] up [OF assms]
    by (auto simp: card_due_def Let_def intro!: z)
qed

section \<open>The close of the day\<close>

definition card_point_ok :: "CardPoint \<Rightarrow> bool" where
  "card_point_ok pt \<longleftrightarrow> list_all amount_ok (class_list (card_point_principal pt) @ class_list (card_point_billed pt)
     @ class_list (card_point_unbilled pt) @ class_list (card_point_fees pt) @ [card_point_limit pt, card_point_undrawn pt])
     \<and> val (card_point_undrawn pt) \<le> val (card_point_limit pt)"

definition card_statement_ok :: "CardStatement \<Rightarrow> bool" where
  "card_statement_ok s \<longleftrightarrow> list_all amount_ok (class_list (statement_principal s) @ class_list (statement_interest s)
     @ class_list (statement_fees s) @ [minimum_payment s, statement_total s])
     \<and> val (minimum_payment s) \<le> val (statement_total s)"

lemma class_sums_map:
  "(\<And>l. lot_class (g l) = lot_class l) \<Longrightarrow> (\<And>l. f (g l) = f l) \<Longrightarrow> class_sums f (map g ls) = class_sums f ls"
  by (simp add: class_sums_def class_sum_as_foldl filter_map comp_def)

text \<open>The totals a close checks.\<close>

definition principal_total :: "Lot list \<Rightarrow> f64" where
  "principal_total ls = fsum (class_list (class_sums lot_principal ls))"

definition interest_total :: "Lot list \<Rightarrow> f64" where
  "interest_total ls = fsum (class_list (class_sums lot_interest ls))"

definition fees_total :: "Lot list \<Rightarrow> f64" where
  "fees_total ls = fsum (class_list (class_sums lot_fees ls))"

definition debt_total :: "Lot list \<Rightarrow> f64" where
  "debt_total ls = principal_total ls + interest_total ls + fees_total ls"

lemma class_fsum_ok:
  assumes "\<forall>l \<in> set ls. f64_ok (f l) \<and> 0 \<le> val (f l)"
  shows "f64_ok (fsum (class_list (class_sums f ls)))" "0 \<le> val (fsum (class_list (class_sums f ls)))"
proof -
  have c: "f64_ok (class_sum f ls x)" "0 \<le> val (class_sum f ls x)" for x
    using assms by (auto intro: class_sum_ok class_sum_nonneg)
  then show "f64_ok (fsum (class_list (class_sums f ls)))" by (intro fsum_ok) (auto simp: class_sums_def)
  show "0 \<le> val (fsum (class_list (class_sums f ls)))" unfolding fsum_def
    using c by (intro foldl_add_nonneg) (auto simp: class_sums_def)
qed

lemma debt_bounds:
  assumes "amount_ok (debt_total ls)" "\<forall>l \<in> set ls. lot_within i u l"
  shows "nn (principal_total ls) cap" "nn (interest_total ls) cap" "nn (fees_total ls) cap" "nn (debt_total ls) cap"
    and "\<forall>x \<in> set (class_list (class_sums lot_principal ls)). nn x cap"
    and "\<forall>x \<in> set (class_list (class_sums lot_interest ls)). nn x cap"
    and "\<forall>x \<in> set (class_list (class_sums lot_fees ls)). nn x cap"
    and "\<forall>l \<in> set ls. nn (lot_interest l) cap"
proof -
  have l: "\<forall>l \<in> set ls. f64_ok (lot_principal l) \<and> is_finite (lot_principal l) \<and> 0 \<le> val (lot_principal l)"
    "\<forall>l \<in> set ls. f64_ok (lot_interest l) \<and> is_finite (lot_interest l) \<and> 0 \<le> val (lot_interest l)"
    "\<forall>l \<in> set ls. f64_ok (lot_fees l) \<and> is_finite (lot_fees l) \<and> 0 \<le> val (lot_fees l)"
    using assms(2) by (auto simp: lot_within_def nn_def)
  have o: "f64_ok (principal_total ls)" "0 \<le> val (principal_total ls)" "f64_ok (interest_total ls)" "0 \<le> val (interest_total ls)"
      "f64_ok (fees_total ls)" "0 \<le> val (fees_total ls)"
    using class_fsum_ok [of ls lot_principal] class_fsum_ok [of ls lot_interest] class_fsum_ok [of ls lot_fees] l
    by (auto simp: principal_total_def interest_total_def fees_total_def)
  have d: "is_finite (principal_total ls + interest_total ls + fees_total ls)"
      "val (principal_total ls + interest_total ls + fees_total ls) \<le> 10 ^ 15"
    using assms(1) by (auto simp: amount_ok_val debt_total_def)
  have pi: "is_finite (principal_total ls + interest_total ls)" using add_finiteD [OF d(1)] by simp
  note a = add_dominates [OF pi o(1,3,2,4)]
  have "f64_ok (principal_total ls + interest_total ls)" using o by simp
  note b = add_dominates [OF d(1) this o(5) _ o(6)]
  have fin: "is_finite (principal_total ls)" "is_finite (interest_total ls)" "is_finite (fees_total ls)"
    and le: "val (principal_total ls) \<le> 10 ^ 15" "val (interest_total ls) \<le> 10 ^ 15" "val (fees_total ls) \<le> 10 ^ 15"
    using a b d(2) by auto
  show "nn (principal_total ls) cap" "nn (interest_total ls) cap" "nn (fees_total ls) cap"
    using fin le o by (simp_all add: nn_def)
  show "nn (debt_total ls) cap" using assms(1) o by (intro nn_amount) (simp_all add: debt_total_def)
  have le': "val (principal_total ls) \<le> of_int cap" "val (interest_total ls) \<le> of_int cap" "val (fees_total ls) \<le> of_int cap"
    using le by simp_all
  show "\<forall>x \<in> set (class_list (class_sums lot_principal ls)). nn x cap"
    by (rule class_total_bounds(1) [OF fin(1) [unfolded principal_total_def] le'(1) [unfolded principal_total_def] l(1)])
  show "\<forall>x \<in> set (class_list (class_sums lot_interest ls)). nn x cap" "\<forall>l \<in> set ls. nn (lot_interest l) cap"
    by (rule class_total_bounds [OF fin(2) [unfolded interest_total_def] le'(2) [unfolded interest_total_def] l(2)])+
  show "\<forall>x \<in> set (class_list (class_sums lot_fees ls)). nn x cap"
    by (rule class_total_bounds(1) [OF fin(3) [unfolded fees_total_def] le'(3) [unfolded fees_total_def] l(3)])
qed

lemma close_card_day_checks:
  assumes "close_card_day day c = Ok d"
  shows "amount_ok (debt_total (lots c))" "\<forall>l \<in> set (lots c). amount_ok (lot_shadow l)"
    "amount_ok (debt_total (lots c) + fsum (class_list (class_sums lot_unbilled (lots c))) + fsum (map lot_shadow (lots c)))"
    "amount_ok (drawn c)" "amount_ok (collected_principal c)"
    "card_points d = card_points c @ [\<lparr> card_point_ordinal = day, card_point_state = card_state c,
       card_point_principal = class_sums lot_principal (lots c), card_point_billed = class_sums lot_interest (lots c),
       card_point_unbilled = class_sums lot_unbilled (lots c), card_point_fees = class_sums lot_fees (lots c),
       card_point_limit = limit c,
       card_point_utilization = (if 0 < limit c then Some (debt_total (lots c) / limit c) else None),
       card_point_undrawn = fmax (limit c - debt_total (lots c)) 0, card_point_grace = purchase_grace c \<rparr>]"
    "lots d = lots c" "limit d = limit c" "minimum_remaining d = minimum_remaining c" "rates_now d = rates_now c"
    "statements d = statements c"
  using assms unfolding close_card_day_def lot_totals_def Let_def debt_total_def principal_total_def interest_total_def fees_total_def
  by (auto simp: for_each_Ok_iff)

lemma fmax_zero_within:
  assumes "nn x a" "nn y b" "a \<le> 2 ^ 53" "b \<le> 2 ^ 53"
  shows "nn (fmax (x - y) 0) a" "val (fmax (x - y) 0) \<le> val x"
proof -
  have b: "(2 :: real) ^ 53 \<in> dbl" "(2 :: real) ^ 53 < huge" by (rule small_bound)+
  have s: "small x" "small y" using assms by (auto intro: nn_small)
  then have "\<bar>val x - val y\<bar> \<le> 2 ^ 53" by (auto simp: small_def)
  from rounds_to_bound [OF sub_rounds this b] s have f: "is_finite (x - y)" "val (x - y) = rnd (val x - val y)"
    by (auto simp: small_def)
  have "val (x - y) \<le> val x" unfolding f(2)
    using assms(1,2) val_dbl [of x] by (intro rne.rd_le) (auto simp: nn_def)
  then show "nn (fmax (x - y) 0) a" "val (fmax (x - y) 0) \<le> val x"
    using fmax_val [of "x - y" 0] f(1) assms(1,2) by (auto simp: nn_def max_def)
qed

lemma list_all_amounts: "\<forall>x \<in> set xs. nn x cap \<Longrightarrow> list_all amount_ok xs"
  by (auto simp: list_all_iff intro: amount_nn)

lemma close_within:
  assumes "close_card_day day c = Ok d" "card_within i u c"
  shows "card_within cap cap d" "\<exists>pt. card_points d = card_points c @ [pt] \<and> card_point_ok pt"
proof -
  note ch = close_card_day_checks [OF assms(1)]
  let ?ls = "lots c"
  have w: "\<forall>l \<in> set ?ls. lot_within i u l" "nn (limit c) cap" "nn (minimum_remaining c) (2 ^ 53)"
    using assms(2) by (simp_all add: card_within_def)
  note d = debt_bounds [OF ch(1) w(1)]
  have ub: "\<forall>l \<in> set ?ls. f64_ok (lot_unbilled l) \<and> is_finite (lot_unbilled l) \<and> 0 \<le> val (lot_unbilled l)"
    using w(1) by (auto simp: lot_within_def nn_def)
  let ?u = "fsum (class_list (class_sums lot_unbilled ?ls))"
  have uo: "f64_ok ?u" "0 \<le> val ?u" using class_fsum_ok [of ?ls lot_unbilled] ub by auto
  have r: "is_finite (debt_total ?ls + ?u + fsum (map lot_shadow ?ls))"
      "val (debt_total ?ls + ?u + fsum (map lot_shadow ?ls)) \<le> 10 ^ 15"
    using ch(3) by (auto simp: amount_ok_val)
  have so: "f64_ok (fsum (map lot_shadow ?ls))" "0 \<le> val (fsum (map lot_shadow ?ls))"
    unfolding fsum_def using w(1) by (auto simp: lot_within_def nn_def intro!: foldl_add_ok foldl_add_nonneg)
  have dd: "f64_ok (debt_total ?ls)" "0 \<le> val (debt_total ?ls)" using d(4) by (auto simp: nn_def)
  have du: "is_finite (debt_total ?ls + ?u)" using add_finiteD [OF r(1)] by simp
  note a = add_dominates [OF du dd(1) uo(1) dd(2) uo(2)]
  have duo: "f64_ok (debt_total ?ls + ?u)" using dd uo by simp
  note b = add_dominates [OF r(1) duo so(1) _ so(2)]
  have uf: "is_finite ?u" "val ?u \<le> of_int cap" using a b r(2) by auto
  note ut = class_total_bounds [OF uf ub]
  have "lot_within cap cap l" if "l \<in> set ?ls" for l
  proof -
    have "nn (lot_shadow l) cap" using ch(2) w(1) that by (intro nn_amount) (auto simp: lot_within_def nn_def)
    then show ?thesis using w(1) d(8) ut(2) that by (simp add: lot_within_def)
  qed
  then show "card_within cap cap d" using assms(2) ch by (simp add: card_within_def)
  note un = fmax_zero_within [OF w(2) d(4)]
  have "list_all amount_ok (class_list (class_sums lot_principal ?ls))" "list_all amount_ok (class_list (class_sums lot_interest ?ls))"
    "list_all amount_ok (class_list (class_sums lot_unbilled ?ls))" "list_all amount_ok (class_list (class_sums lot_fees ?ls))"
    by (rule list_all_amounts [OF d(5)], rule list_all_amounts [OF d(6)], rule list_all_amounts [OF ut(1)], rule list_all_amounts [OF d(7)])
  moreover have "amount_ok (limit c)" "amount_ok (fmax (limit c - debt_total ?ls) 0)"
    using amount_nn [OF w(2)] amount_nn [OF un(1)] by simp_all
  ultimately show "\<exists>pt. card_points d = card_points c @ [pt] \<and> card_point_ok pt"
    using ch(6) un(2) by (simp add: card_point_ok_def)
qed

section \<open>Statements\<close>

definition terms_ok :: "MinimumPayment \<Rightarrow> bool" where
  "terms_ok m \<longleftrightarrow> nn (minimum_floor m) cap \<and> nn (principal_fraction m) 1"

lemma nn_max: "nn x a \<Longrightarrow> nn y b \<Longrightarrow> nn (fmax x y) (max a b)"
  using fmax_val [of x y] nn_mono [of x a "max a b"] nn_mono [of y b "max a b"] by (auto simp: nn_def max_def)

lemma minimum_due_within:
  assumes "terms_ok m" "nn pr cap" "nn bl cap" "nn fe cap" "nn (pr + bl + fe) cap"
  shows "nn (minimum_due m pr bl fe) cap \<and> val (minimum_due m pr bl fe) \<le> val (pr + bl + fe)"
proof -
  let ?b = "if include_billed_interest m then bl else 0" and ?f = "if include_fees m then fe else 0"
  have p: "nn (pr * principal_fraction m) cap" using assms(1,2) by (intro nn_scale) (simp_all add: terms_ok_def)
  have b: "nn ?b cap" "nn ?f cap" using assms(3,4) by auto
  have "nn (pr * principal_fraction m + ?b) (cap + cap)" by (rule nn_add [OF p b(1)]) simp
  then have "nn (pr * principal_fraction m + ?b + ?f) (cap + cap + cap)" by (rule nn_add [OF _ b(2)]) simp
  then have "nn (fmax (minimum_floor m) (pr * principal_fraction m + ?b + ?f)) (max cap (cap + cap + cap))"
    using assms(1) by (intro nn_max) (simp_all add: terms_ok_def)
  from nn_min [OF this assms(5)] show ?thesis by (simp add: minimum_due_def)
qed

lemma bill_lot_within: "lot_within (3 * cap) (2 * cap) l \<Longrightarrow> lot_within (5 * cap) (2 * cap) (bill_lot l)"
  using nn_add [of "lot_interest l" "3 * cap" "lot_unbilled l" "2 * cap"] by (simp add: bill_lot_def lot_within_def)

lemma statement_close_within:
  assumes "close_card_day day (card_statement r day c) = Ok d" "card_within (3 * cap) (2 * cap) c" "terms_ok (minimum_terms r)"
  shows "card_within cap cap d" "\<exists>pt. card_points d = card_points c @ [pt] \<and> card_point_ok pt"
    "\<forall>s \<in> set (statements d). s \<in> set (statements c) \<or> card_statement_ok s"
proof -
  let ?z = "card_statement r day c"
  have "card_within (5 * cap) (2 * cap) ?z \<and> card_points ?z = card_points c
    \<and> (\<forall>s \<in> set (statements ?z). s \<in> set (statements c) \<or> card_statement_ok s)"
  proof (cases "find (\<lambda>y. cycle_statement y = day) (card_cycles r)")
    case None
    then have "?z = c" by (simp add: card_statement_def)
    then show ?thesis using assms(2) lot_within_mono [of "3 * cap" "2 * cap" _ "5 * cap" "2 * cap"]
      by (auto simp: card_within_def)
  next
    case (Some y)
    let ?ls = "map bill_lot (lots c)"
    let ?m = "minimum_due (minimum_terms r) (principal_total ?ls) (interest_total ?ls) (fees_total ?ls)"
    have z: "lots ?z = map (\<lambda>l. l \<lparr> lot_statement := lot_total l \<rparr>) ?ls" "limit ?z = limit c" "rates_now ?z = rates_now c"
        "minimum_remaining ?z = ?m" "card_points ?z = card_points c"
        "statements ?z = statements c @ [\<lparr> statement_ordinal = day, statement_due = cycle_due y,
            statement_principal = class_sums lot_principal ?ls, statement_interest = class_sums lot_interest ?ls,
            statement_fees = class_sums lot_fees ?ls, minimum_payment = ?m, statement_total = debt_total ?ls \<rparr>]"
      using Some unfolding card_statement_def lot_totals_def Let_def debt_total_def principal_total_def
        interest_total_def fees_total_def by simp_all
    have w: "\<forall>l \<in> set ?ls. lot_within (5 * cap) (2 * cap) l"
      using assms(2) bill_lot_within by (auto simp: card_within_def)
    have same: "class_sums lot_principal (lots ?z) = class_sums lot_principal ?ls"
        "class_sums lot_interest (lots ?z) = class_sums lot_interest ?ls" "class_sums lot_fees (lots ?z) = class_sums lot_fees ?ls"
      unfolding z(1) by (rule class_sums_map; simp)+
    have "debt_total (lots ?z) = debt_total ?ls"
      unfolding debt_total_def principal_total_def interest_total_def fees_total_def same ..
    with close_card_day_checks(1) [OF assms(1)] have "amount_ok (debt_total ?ls)" by simp
    note d = debt_bounds [OF this w]
    note m = minimum_due_within [OF assms(3) d(1-3) d(4) [unfolded debt_total_def], folded debt_total_def]
    have "list_all amount_ok (class_list (class_sums lot_principal ?ls))" "list_all amount_ok (class_list (class_sums lot_interest ?ls))"
      "list_all amount_ok (class_list (class_sums lot_fees ?ls))"
      by (rule list_all_amounts [OF d(5)], rule list_all_amounts [OF d(6)], rule list_all_amounts [OF d(7)])
    then have "\<forall>s \<in> set (statements ?z). s \<in> set (statements c) \<or> card_statement_ok s"
      using amount_nn [OF d(4)] amount_nn [OF conjunct1 [OF m]] m unfolding z(6) by (simp add: card_statement_ok_def)
    moreover have "\<forall>l \<in> set (lots ?z). lot_within (5 * cap) (2 * cap) l" using w unfolding z(1) by (auto simp: lot_within_def)
    moreover have "nn ?m (2 ^ 53)" using m nn_mono by fastforce
    ultimately show ?thesis using assms(2) z(2-5) by (simp add: card_within_def)
  qed
  then show "card_within cap cap d" "\<exists>pt. card_points d = card_points c @ [pt] \<and> card_point_ok pt"
    "\<forall>s \<in> set (statements d). s \<in> set (statements c) \<or> card_statement_ok s"
    using close_within [OF assms(1)] close_card_day_checks(11) [OF assms(1)] by auto
qed

section \<open>The replay in bounds\<close>

definition figures_ok :: "Card \<Rightarrow> bool" where
  "figures_ok c \<longleftrightarrow> list_all card_point_ok (card_points c) \<and> list_all card_statement_ok (statements c)"

lemma card_day_within:
  assumes "card_day r fin c day = Ok d" "card_within cap cap c" "figures_ok c" "card_admitted r fin"
    "\<forall>s \<in> set (card_steps r). canonical_action (card_step_action s)" "terms_ok (minimum_terms r)"
  shows "card_within cap cap d \<and> figures_ok d"
proof -
  from assms(1) obtain a b where a: "card_accrue r day c = Ok a"
    and b: "fold_res (card_act r fin day) a (day_actions r day) = Ok b"
    and d: "close_card_day day (if card_state b \<noteq> Default then card_statement r day (card_due r day b) else b) = Ok d"
    by (auto simp: card_day_def simp del: if_not_P)
  have dc: "card_day_count r = Act360 \<or> card_day_count r = Act365Fixed" using assms(4) by (simp add: card_admitted_def)
  have wa: "card_within cap (2 * cap) a" by (rule card_accrue_within [OF a assms(2) dc])
  have acts: "plain_action x \<and> canonical_action x" if "x \<in> set (day_actions r day)" for x
    using that day_actions_plain [OF assms(4), of day] assms(5) by (auto simp: day_actions_def)
  have pf: "past y = past x" if "card_act r fin day x s = Ok y" "plain_action s" for x y s
  proof (cases s)
    case (Draw cl v)
    with that(1) have "card_draw day x cl v = Ok y" by (simp add: card_act_def)
    then show ?thesis by (rule card_draw_frame(1))
  next
    case (CardPayment v)
    with that(1) have "card_pay r day x v = Ok y" by (simp add: card_act_def)
    then show ?thesis by (rule card_pay_frame(1))
  next
    case CardDefault
    with that(1) have "card_default r fin day x = Ok y" by (simp add: card_act_def)
    then show ?thesis by (rule card_default_frame(1)) (use assms(4) in \<open>simp add: card_admitted_def\<close>)
  qed (use that in \<open>auto simp: card_act_def past_def card_fee_def\<close>)
  have "card_within cap (2 * cap) b \<and> past b = past a"
    by (rule fold_res_inv [where I = "\<lambda>x. card_within cap (2 * cap) x \<and> past x = past a", OF b])
      (use wa acts pf card_act_within in \<open>auto\<close>)
  then have wb: "card_within cap (2 * cap) b" and pb: "past b = past c" using card_accrue_frame(1) [OF a] by auto
  have f: "figures_ok b" using assms(3) pb by (simp add: figures_ok_def past_def)
  show ?thesis
  proof (cases "card_state b = Default")
    case True
    with d have cl: "close_card_day day b = Ok d" by simp
    from close_within [OF this wb] close_card_day_checks(11) [OF this] f show ?thesis by (auto simp: figures_ok_def)
  next
    case False
    with d have cl: "close_card_day day (card_statement r day (card_due r day b)) = Ok d" by simp
    have "card_points (card_due r day b) = card_points b" "statements (card_due r day b) = statements b"
      using card_due_frame(1) [of r day b] by (simp_all add: past_def)
    with statement_close_within [OF cl card_due_within [OF wb] assms(6)] f show ?thesis
      by (auto simp: figures_ok_def list_all_iff)
  qed
qed

text \<open>Every number of a request is a double.\<close>

definition card_canonical :: "CardRequest \<Rightarrow> bool" where
  "card_canonical r \<longleftrightarrow> list_all f64_ok (opening_amounts r @ [opening_contingent_purchase r, opening_minimum_remaining r,
       initial_limit r, minimum_floor (minimum_terms r), principal_fraction (minimum_terms r)])
     \<and> canonical_rates (initial_rates r) \<and> list_all (\<lambda>s. canonical_action (card_step_action s)) (card_steps r)"

lemma at_class_mem: "at_class v c \<in> set (class_list v)"
  by (cases v; cases c) auto

lemma opening_within:
  assumes "card_validate r = Ok ()" "card_canonical r"
  shows "card_within cap cap (opening_card r)" "terms_ok (minimum_terms r)"
proof -
  from assms(1) have t: "card_terms r = Ok ()" "card_opening r = Ok ()" by (auto simp: card_validate_def)
  from t(1) have lim: "amount_ok (initial_limit r)" "amount_ok (minimum_floor (minimum_terms r))"
    and fr: "is_finite (principal_fraction (minimum_terms r))" "0 \<le> principal_fraction (minimum_terms r)"
      "principal_fraction (minimum_terms r) \<le> 1"
    by (auto simp: card_terms_def)
  from t(2) have op: "\<forall>v \<in> set (opening_amounts r). amount_ok v" "amount_ok (opening_contingent_purchase r)"
      "amount_ok (opening_minimum_remaining r)"
    by (auto simp: card_opening_def Let_def for_each_Ok_iff)
  have can: "\<forall>v \<in> set (opening_amounts r). f64_ok v" "f64_ok (opening_contingent_purchase r)" "f64_ok (opening_minimum_remaining r)"
      "f64_ok (initial_limit r)" "f64_ok (minimum_floor (minimum_terms r))" "f64_ok (principal_fraction (minimum_terms r))"
      "canonical_rates (initial_rates r)"
    using assms(2) by (auto simp: card_canonical_def list_all_iff)
  show "terms_ok (minimum_terms r)" using nn_amount [OF lim(2) can(5)] fr can(6) by (auto simp: terms_ok_def nn_def)
  have n: "nn v cap" if "v \<in> set (opening_amounts r)" for v using op(1) can(1) that by (intro nn_amount) auto
  have "nn (at_class (opening_card_principal r) c) cap" "nn (at_class (opening_billed_interest r) c) cap"
    "nn (at_class (opening_unbilled_interest r) c) cap" "nn (at_class (opening_card_fees r) c) cap" for c
    using at_class_mem [of "opening_card_principal r" c] at_class_mem [of "opening_billed_interest r" c]
      at_class_mem [of "opening_unbilled_interest r" c] at_class_mem [of "opening_card_fees r" c]
    by (intro n; simp add: opening_amounts_def)+
  then have "lot_within cap cap (opening_lot r c)" for c
    using nn_amount [OF op(2) can(2)] by (simp add: opening_lot_def lot_within_def)
  moreover have "nn (opening_minimum_remaining r) (2 ^ 53)" using nn_mono [OF nn_amount [OF op(3) can(3)]] by simp
  ultimately show "card_within cap cap (opening_card r)"
    using nn_amount [OF lim(1) can(4)] can(7) by (auto simp: card_within_def opening_card_def)
qed

text \<open>
  C26. Every amount a card replay reports is sound: at every point the principal, billed interest,
  unbilled interest and fees of each class, the limit and the undrawn line are finite,
  nonnegative and within the monetary limit, and the undrawn line is at most the limit; on every
  statement so are the balances, the total and the minimum payment, which never exceeds the total.
\<close>

theorem card_amounts_sound:
  assumes "simulate r = Ok res" "card_canonical r"
  shows "list_all card_point_ok (card_result_points res) \<and> list_all card_statement_ok (card_result_statements res)"
proof -
  from assms(1) obtain fin c where v: "card_validate r = Ok ()" "horizon (card_as_of r) (card_horizon_days r) = Ok fin"
    and c: "fold_res (card_day r fin) (opening_card r) [card_as_of r..fin] = Ok c" and res: "card_report r c = Ok res"
    by (auto simp: simulate_def)
  note adm = card_validate_admitted [OF v] and op = opening_within [OF v(1) assms(2)]
  have steps: "\<forall>s \<in> set (card_steps r). canonical_action (card_step_action s)"
    using assms(2) by (auto simp: card_canonical_def list_all_iff)
  have "card_within cap cap c \<and> figures_ok c"
  proof (rule fold_res_inv [where I = "\<lambda>x. card_within cap cap x \<and> figures_ok x", OF c])
    show "card_within cap cap (opening_card r) \<and> figures_ok (opening_card r)"
      using op(1) by (simp add: figures_ok_def opening_card_def)
  qed (use card_day_within [OF _ _ _ adm steps op(2)] in blast)
  then show ?thesis using res by (auto simp: figures_ok_def card_report_def lot_totals_def Let_def)
qed

section \<open>An example\<close>

definition drawing_request :: CardRequest where
  "drawing_request = sample_card_request \<lparr> card_horizon_days := 0,
     opening_card_principal := (f64_of_int 100, 0, 0), card_cycles := [],
     card_steps := [\<lparr> card_step_ordinal = 1, card_step_action = Draw CashAdvance (f64_of_int 40) \<rparr>] \<rparr>"

lemma whole_running_sum:
  "list_all2 whole xs ks \<Longrightarrow> whole a k \<Longrightarrow> k + sum_list ks \<le> cap \<Longrightarrow> whole (foldl (+) a xs) (k + sum_list ks)"
proof (induction xs ks arbitrary: a k rule: list_all2_induct)
  case (Cons x xs k' ks)
  have "0 \<le> sum_list ks" using Cons.hyps(2)
    by (intro sum_list_nonneg) (auto simp: list_all2_conv_all_nth whole_def in_set_conv_nth)
  then have "whole (a + x) (k + k')" using Cons by (intro whole_add) simp_all
  with Cons.IH [of "a + x" "k + k'"] Cons.prems show ?case by (simp add: add.assoc)
qed simp

lemma whole_zeros [simp]: "whole 0 0" "whole (- 0) 0"
  by (simp_all add: whole_def)

lemma whole_list_sum: "list_all2 whole xs ks \<Longrightarrow> sum_list ks \<le> cap \<Longrightarrow> whole (fsum xs) (sum_list ks)"
  using whole_running_sum [of xs ks "- 0" 0] by (simp add: fsum_def)

lemma whole_amount: "whole x k \<Longrightarrow> amount_ok x"
  using of_int_le_iff [of k cap, where ?'a = real] by (simp add: whole_def amount_ok_val)

lemma whole_numerals [simp]:
  "whole (f64_of_int 100) 100" "whole (f64_of_int 40) 40" "whole (f64_of_int 500) 500" "whole (f64_of_int 10) 10"
  by (simp_all add: whole_of_integer)

lemmas drawing_simps = drawing_request_def sample_card_request_def

lemma drawing_admitted: "card_validate drawing_request = Ok ()" "horizon (card_as_of drawing_request) (card_horizon_days drawing_request) = Ok 1"
proof -
  show h: "horizon (card_as_of drawing_request) (card_horizon_days drawing_request) = Ok 1"
    by (simp add: drawing_simps horizon_def validate_ordinal_def MAX_ORDINAL_def MAX_CONSUMER_DAYS_def
        i32_checked_add_def in_i32_def i32_of_u32_def)
  have id: "consumer_identity (card_identity drawing_request) CARD_SCHEMA = Ok ()"
    by (simp add: drawing_simps consumer_identity_def label_def CARD_SCHEMA_def)
  have two: "is_finite (f64_of_int 2)" "val (f64_of_int 2) = 2" using int_val [of 2] by simp_all
  have t: "card_terms drawing_request = Ok ()"
    using whole_amount [of "f64_of_int 500" 500] whole_amount [of "f64_of_int 10" 10] two
    by (simp add: drawing_simps card_terms_def consumer_day_count_def card_rates_def sample_card_rates_def
        validate_ordinal_def MAX_ORDINAL_def whole_amount [OF whole_zeros(1)])
  have f: "whole (fsum (opening_amounts drawing_request)) (sum_list [100, 0, 0, 0, 0, 0, 0, 0, 0, 0, 0, 0])"
    by (rule whole_list_sum) (simp_all add: drawing_simps opening_amounts_def)
  have a: "\<forall>v \<in> set (opening_amounts drawing_request). amount_ok v"
    using whole_amount [of "f64_of_int 100" 100] whole_amount [OF whole_zeros(1)]
    by (simp add: drawing_simps opening_amounts_def)
  have z: "whole (fsum [0, 0, 0]) (sum_list [0, 0, 0])" by (rule whole_list_sum) simp_all
  have f0: "whole (fsum (opening_amounts drawing_request) + 0) (100 + 0)" using f by (intro whole_add) simp_all
  have "whole (f64_of_int 100 + 0 + 0) (100 + 0 + 0)" "whole (0 + 0 + 0) (0 + 0 + 0)" by (intro whole_add; simp)+
  then have nl: "\<not> f64_of_int 100 + 0 + 0 < 0" "\<not> 0 + 0 + 0 < (0 :: f64)" by (simp_all add: whole_def)
  have z0: "amount_ok 0" "\<not> (0 :: f64) < 0" "feq 0 0" using whole_amount [OF whole_zeros(1)] by simp_all
  have "admit_statement_remaining drawing_request = Ok ()" "admit_unrecognized drawing_request = Ok ()"
    using nl z0 by (simp_all add: drawing_simps admit_statement_remaining_def admit_unrecognized_def classes_def)
  moreover have "opening_contingent_purchase drawing_request = 0" "opening_minimum_remaining drawing_request = 0"
    by (simp_all add: drawing_simps)
  moreover have "for_each (opening_amounts drawing_request) (\<lambda>v. amount v ''opening card amount'') = Ok ()"
    using a by (simp add: for_each_Ok_iff)
  ultimately have o: "card_opening drawing_request = Ok ()"
    using whole_amount [OF f] whole_amount [OF f0] z0 by (simp add: card_opening_def Let_def)
  have d: "opening_due_ordinal drawing_request 1 = Ok 0"
    using z by (simp add: drawing_simps opening_due_ordinal_def whole_def in_i32_def Let_def)
  have w: "admit_work drawing_request = Ok ()"
    by (simp add: drawing_simps admit_work_def usize_checked_mul_def usize_max_def MAX_CARD_WORK_def)
  have s: "fold_res (admit_card_step 1) 1 (card_steps drawing_request) = Ok 1"
    using whole_amount [of "f64_of_int 40" 40]
    by (simp add: drawing_simps admit_card_step_def validate_ordinal_def MAX_ORDINAL_def admit_card_action_def)
  have r: "card_schema drawing_request = CARD_SCHEMA" "initial_card_state drawing_request = Performing"
    "allocation_order (minimum_terms drawing_request) = [Purchase, CashAdvance, Promotional]"
    "recovery_delay_days drawing_request = 0" "card_cycles drawing_request = []" "length (card_steps drawing_request) = 1"
    "card_as_of drawing_request = 1"
    by (simp_all add: drawing_simps)
  show "card_validate drawing_request = Ok ()"
    using s h unfolding card_validate_def by (simp add: id t o d w r MAX_CONSUMER_EVENTS_def require_def)
qed

definition drawn_card :: Card where
  "drawn_card = (opening_card drawing_request) \<lparr> lots := map (opening_lot drawing_request) classes @
     [\<lparr> lot_class = CashAdvance, lot_principal = f64_of_int 40, lot_interest = 0, lot_unbilled = 0, lot_unrecognized = 0,
        lot_fees = 0, lot_shadow = 0, lot_grace = False, lot_statement = 0 \<rparr>],
     drawn := 0 + f64_of_int 40,
     card_cash := [\<lparr> cash_event_id = ''draw-'' @ digits 0, cash_ordinal = 1, cash_kind = ''draw'', cash_principal = - f64_of_int 40,
       cash_interest_part = 0, cash_fees = 0 \<rparr>] \<rparr>"

lemma drawing_act: "card_act drawing_request 1 1 (opening_card drawing_request) (Draw CashAdvance (f64_of_int 40)) = Ok drawn_card"
proof -
  have "whole (f64_of_int 100 + 0 + 0) (100 + 0 + 0)" "whole (0 + 0 + 0) (0 + 0 + 0)" by (intro whole_add; simp)+
  then have "whole (owed (opening_card drawing_request)) (sum_list [100, 0, 0])" unfolding owed_def
    by (intro whole_list_sum) (simp_all add: opening_card_def classes_def opening_lot_def lot_total_def drawing_simps)
  then have "whole (owed (opening_card drawing_request) + f64_of_int 40) (100 + 40)" by (intro whole_add) simp_all
  moreover have "whole (f64_of_int 500) 500" by simp
  moreover have c: "limit (opening_card drawing_request) = f64_of_int 500" "card_state (opening_card drawing_request) = Performing"
      "lots (opening_card drawing_request) = map (opening_lot drawing_request) classes" "drawn (opening_card drawing_request) = 0"
      "card_cash (opening_card drawing_request) = []"
    by (simp_all add: opening_card_def) (simp_all add: drawing_simps)
  ultimately have "\<not> limit (opening_card drawing_request) < owed (opening_card drawing_request) + f64_of_int 40"
    by (simp add: whole_def)
  then show ?thesis by (simp add: card_act_def card_draw_def drawn_card_def require_def c)
qed

lemma drawn_totals:
  "whole (principal_total (lots drawn_card)) 140" "whole (interest_total (lots drawn_card)) 0"
  "whole (fees_total (lots drawn_card)) 0" "whole (fsum (class_list (class_sums lot_unbilled (lots drawn_card)))) 0"
  "whole (fsum (map lot_shadow (lots drawn_card))) 0"
proof -
  note ls = drawn_card_def opening_card_def classes_def opening_lot_def drawing_simps class_sums_def class_sum_as_foldl
  have "whole (0 + f64_of_int 100) (0 + 100)" "whole (0 + 0 + f64_of_int 40) (0 + 0 + 40)" by (intro whole_add; simp)+
  moreover have "whole (0 + 0) (0 + 0)" "whole (0 + 0 + 0) (0 + 0 + 0)" by (intro whole_add; simp)+
  ultimately have w: "whole (0 + f64_of_int 100) 100" "whole (0 + 0 + f64_of_int 40) 40" "whole (0 + 0) 0" "whole (0 + 0 + 0) 0"
    by simp_all
  have "whole (principal_total (lots drawn_card)) (sum_list [100, 40, 0])" unfolding principal_total_def
    by (rule whole_list_sum) (use w in \<open>simp_all add: ls\<close>)
  then show "whole (principal_total (lots drawn_card)) 140" by simp
  have "whole (interest_total (lots drawn_card)) (sum_list [0, 0, 0])" unfolding interest_total_def
    by (rule whole_list_sum) (use w in \<open>simp_all add: ls\<close>)
  then show "whole (interest_total (lots drawn_card)) 0" by simp
  have "whole (fees_total (lots drawn_card)) (sum_list [0, 0, 0])" unfolding fees_total_def
    by (rule whole_list_sum) (use w in \<open>simp_all add: ls\<close>)
  then show "whole (fees_total (lots drawn_card)) 0" by simp
  have "whole (fsum (class_list (class_sums lot_unbilled (lots drawn_card)))) (sum_list [0, 0, 0])"
    by (rule whole_list_sum) (use w in \<open>simp_all add: ls\<close>)
  then show "whole (fsum (class_list (class_sums lot_unbilled (lots drawn_card)))) 0" by simp
  have "whole (fsum (map lot_shadow (lots drawn_card))) (sum_list [0, 0, 0, 0])"
    by (rule whole_list_sum) (simp_all add: ls)
  then show "whole (fsum (map lot_shadow (lots drawn_card))) 0" by simp
qed

lemma drawn_debt: "whole (debt_total (lots drawn_card)) 140"
  using whole_add [OF whole_add [OF drawn_totals(1,2)] drawn_totals(3)] by (simp add: debt_total_def)

lemma drawn_closes: "\<exists>d. close_card_day 1 drawn_card = Ok d \<and> lots d = lots drawn_card \<and> drawn d = 0 + f64_of_int 40
    \<and> collected_principal d = 0 \<and> card_defaulted d = None \<and> length (card_points d) = 1"
proof -
  have d: "amount_ok (debt_total (lots drawn_card))" by (rule whole_amount [OF drawn_debt])
  have "whole (0 + f64_of_int 40) (0 + 40)" by (rule whole_add) simp_all
  then have m: "amount_ok (drawn drawn_card)" "amount_ok (collected_principal drawn_card)"
    using whole_amount whole_amount [OF whole_zeros(1)] by (auto simp: drawn_card_def opening_card_def)
  have s: "for_each (lots drawn_card) (\<lambda>l. amount (lot_shadow l) ''contingent grace interest'') = Ok ()"
    using whole_amount [OF whole_zeros(1)]
    by (simp add: for_each_Ok_iff drawn_card_def opening_card_def classes_def opening_lot_def drawing_simps)
  have "whole (debt_total (lots drawn_card) + fsum (class_list (class_sums lot_unbilled (lots drawn_card)))
      + fsum (map lot_shadow (lots drawn_card))) (140 + 0 + 0)"
    by (intro whole_add drawn_debt drawn_totals) simp_all
  note t = whole_amount [OF this]
  have z: "card_points drawn_card = []" "drawn drawn_card = 0 + f64_of_int 40" "collected_principal drawn_card = 0"
    "card_defaulted drawn_card = None" by (simp_all add: drawn_card_def opening_card_def)
  show ?thesis
    using d m s t z unfolding close_card_day_def lot_totals_def Let_def debt_total_def principal_total_def
      interest_total_def fees_total_def by simp
qed

lemma drawing_replay: "\<exists>res. simulate drawing_request = Ok res \<and> length (card_result_points res) = 1"
proof -
  obtain d where d: "close_card_day 1 drawn_card = Ok d" "lots d = lots drawn_card" "drawn d = 0 + f64_of_int 40"
    "collected_principal d = 0" "card_defaulted d = None" "length (card_points d) = 1" using drawn_closes by blast
  have c: "card_as_of drawing_request = 1" "day_actions drawing_request 1 = [Draw CashAdvance (f64_of_int 40)]"
    by (simp_all add: drawing_simps day_actions_def)
  have "card_accrue drawing_request 1 (opening_card drawing_request) = Ok (opening_card drawing_request)"
    by (simp add: card_accrue_def c)
  moreover have "card_due drawing_request 1 drawn_card = drawn_card" "card_statement drawing_request 1 drawn_card = drawn_card"
    by (simp_all add: card_due_def due_on_def card_statement_def drawing_simps)
  ultimately have "card_day drawing_request 1 (opening_card drawing_request) 1 = Ok d"
    by (simp add: card_day_def c drawing_act d(1))
  then have f: "fold_res (card_day drawing_request 1) (opening_card drawing_request) [card_as_of drawing_request..1] = Ok d"
    by (simp add: c)
  have o: "whole (fsum (class_list (opening_card_principal drawing_request))) (sum_list [100, 0, 0])"
    by (rule whole_list_sum) (simp_all add: drawing_simps)
  have w: "whole (0 + f64_of_int 40) (0 + 40)" by (rule whole_add) simp_all
  let ?o = "fsum (class_list (opening_card_principal drawing_request))"
  have "whole (?o + (0 + f64_of_int 40) - 0 - 0 - principal_total (lots drawn_card)) (100 + 40 - 0 - 0 - 140)"
    using whole_add [OF o w] by (intro whole_sub drawn_totals) simp_all
  then have x: "is_finite (?o + (0 + f64_of_int 40) - 0 - 0 - principal_total (lots drawn_card))"
      "val (?o + (0 + f64_of_int 40) - 0 - 0 - principal_total (lots drawn_card)) = 0" by (simp_all add: whole_def)
  have e: "nn (f64_lit 1 (10 ^ n)) 1" for n
  proof (rule nn_rounds)
    show "rounds_to (f64_lit 1 (10 ^ n)) (of_int 1 / of_int (10 ^ n))" by (rule lit_rounds) simp
  qed simp_all
  let ?b = "(?o + (0 + f64_of_int 40)) * f64_lit 1 (10 ^ 12)"
  have "f64_ok (?o + (0 + f64_of_int 40))" by (simp add: fsum_def drawing_simps)
  then have "nn (?o + (0 + f64_of_int 40)) cap" using whole_add [OF o w] by (simp add: nn_def whole_def)
  from nn_scale [OF this e [of 12]] have b: "nn ?b cap" by simp
  then have m: "is_finite (fmax (f64_lit 1 (10 ^ 8)) ?b)" "0 \<le> val (fmax (f64_lit 1 (10 ^ 8)) ?b)"
    using nn_max [OF e [of 8] b] by (auto simp: nn_def)
  have "is_finite (fabs y) \<and> val (fabs y) = 0" if "is_finite y" "val y = 0" for y using that by (cases y) (auto split: if_splits)
  then have "card_conserved ?o d (principal_total (lots d))"
    using d x m by (simp add: card_conserved_def)
  then have "\<exists>res. card_report drawing_request d = Ok res \<and> card_result_points res = card_points d"
    unfolding card_report_def lot_totals_def Let_def principal_total_def by simp
  then show ?thesis using f d(6) drawing_admitted by (auto simp: simulate_def)
qed

theorem card_amounts_sound_witness:
  "\<exists>res. simulate drawing_request = Ok res \<and> length (card_result_points res) = 1 \<and> list_all card_point_ok (card_result_points res)"
proof -
  obtain res where r: "simulate drawing_request = Ok res" "length (card_result_points res) = 1" using drawing_replay by blast
  have "card_canonical drawing_request"
    by (simp add: card_canonical_def drawing_simps opening_amounts_def canonical_rates_def sample_card_rates_def canonical_action_def)
  from card_amounts_sound [OF r(1) this] r show ?thesis by blast
qed

end
