(* ===== verification/Ordered_Map.thy ===== *)
theory Ordered_Map
  imports Float64
begin

text \<open>
  \<open>BTreeMap\<close> of the standard library: the association list sorted by key, so that iteration
  and the order of float sums are the source's. \<open>om_put\<close> is \<open>insert\<close>, \<open>om_add\<close> is
  \<open>*m.entry(k).or_default() += d\<close>, \<open>om_or\<close> is \<open>m.get(k).copied().unwrap_or(0.)\<close>.

  A ledger is anything with a balance per key that one posting changes at one key; what a
  sequence of postings does to a balance is proved once, in the locale \<open>ledger\<close>.
\<close>

section \<open>Sorted association lists\<close>

fun om_put :: "'k :: linorder \<Rightarrow> 'v \<Rightarrow> ('k \<times> 'v) list \<Rightarrow> ('k \<times> 'v) list" where
  "om_put k v [] = [(k, v)]"
| "om_put k v ((k', v') # m) =
     (if k < k' then (k, v) # (k', v') # m
      else if k = k' then (k, v) # m
      else (k', v') # om_put k v m)"

definition om_of :: "('k :: linorder \<times> 'v) list \<Rightarrow> ('k \<times> 'v) list" where
  "om_of xs = foldl (\<lambda>m (k, v). om_put k v m) [] xs"

definition om_or :: "('k \<times> f64) list \<Rightarrow> 'k \<Rightarrow> f64" where
  "om_or m k = (case map_of m k of Some v \<Rightarrow> v | None \<Rightarrow> 0)"

definition om_add :: "'k :: linorder \<Rightarrow> f64 \<Rightarrow> ('k \<times> f64) list \<Rightarrow> ('k \<times> f64) list" where
  "om_add k d m = om_put k (om_or m k + d) m"

text \<open>\<open>remove\<close>.\<close>

definition om_del :: "'k \<Rightarrow> ('k \<times> 'v) list \<Rightarrow> ('k \<times> 'v) list" where
  "om_del k m = filter (\<lambda>e. fst e \<noteq> k) m"

abbreviation om_sorted :: "('k :: linorder \<times> 'v) list \<Rightarrow> bool" where
  "om_sorted m \<equiv> sorted_wrt (<) (map fst m)"

lemma om_put_get [simp]: "map_of (om_put k v m) = (map_of m)(k \<mapsto> v)"
  by (induction m) auto

lemma om_put_keys [simp]: "fst ` set (om_put k v m) = insert k (fst ` set m)"
  by (simp flip: dom_map_of_conv_image_fst)

lemma om_put_sorted [simp]: "om_sorted m \<Longrightarrow> om_sorted (om_put k v m)"
proof (induction m)
  case (Cons e m)
  obtain k' v' where e: "e = (k', v')" by (cases e)
  have "set (map fst (om_put k v m)) = insert k (set (map fst m))" by simp
  with Cons show ?case by (auto simp: e simp del: set_map)
qed simp

lemma om_or_put [simp]: "om_or (om_put k v m) k' = (if k' = k then v else om_or m k')"
  by (simp add: om_or_def)

lemma om_add_get: "map_of (om_add k d m) = (map_of m)(k \<mapsto> om_or m k + d)"
  by (simp add: om_add_def)

lemma om_add_keys [simp]: "fst ` set (om_add k d m) = insert k (fst ` set m)"
  by (simp add: om_add_def)

lemma om_add_sorted [simp]: "om_sorted m \<Longrightarrow> om_sorted (om_add k d m)"
  by (simp add: om_add_def)

lemma om_del_get [simp]: "map_of (om_del k m) = (map_of m)(k := None)"
  unfolding om_del_def by (induction m) auto

lemma om_of_snoc: "om_of (xs @ [(k, v)]) = om_put k v (om_of xs)"
  by (simp add: om_of_def)

lemma om_of_sorted [simp]: "om_sorted (om_of xs)"
  by (induction xs rule: rev_induct) (auto simp: om_of_snoc, simp add: om_of_def)

lemma om_of_get: "map_of (om_of xs) k = map_option snd (last_by fst xs k)"
proof (induction xs rule: rev_induct)
  case Nil
  then show ?case by (simp add: om_of_def last_by_def)
next
  case (snoc x xs)
  then show ?case by (cases x) (auto simp: om_of_snoc last_by_def)
qed

section \<open>Ledgers\<close>

locale ledger =
  fixes bal :: "'b \<Rightarrow> 'k \<Rightarrow> f64"
    and add :: "'k \<Rightarrow> f64 \<Rightarrow> 'b \<Rightarrow> 'b"
  assumes bal_add: "bal (add k d b) k' = (if k' = k then bal b k + d else bal b k')"
begin

definition post_all :: "('k \<times> f64) list \<Rightarrow> 'b \<Rightarrow> 'b" where
  "post_all es b = foldl (\<lambda>b (k, d). add k d b) b es"

lemma post_all_simps [simp]:
  "post_all [] b = b" "post_all ((k, d) # es) b = post_all es (add k d b)"
  "post_all (es @ fs) b = post_all fs (post_all es b)"
  by (simp_all add: post_all_def)

text \<open>A balance is the float sum of the postings to its key, in posting order.\<close>

lemma bal_post_all: "bal (post_all es b) k = foldl (+) (bal b k) (map snd (filter (\<lambda>e. fst e = k) es))"
proof (induction es arbitrary: b)
  case (Cons e es)
  obtain k' d where e: "e = (k', d)" by (cases e)
  show ?case by (cases "k' = k") (simp_all add: e Cons.IH bal_add)
qed simp

lemma bal_untouched: "k \<notin> fst ` set es \<Longrightarrow> bal (post_all es b) k = bal b k"
proof -
  assume "k \<notin> fst ` set es"
  then have "filter (\<lambda>e. fst e = k) es = []" by (auto simp: filter_empty_conv)
  then show ?thesis by (simp add: bal_post_all)
qed

end

interpretation om: ledger om_or om_add
  by unfold_locales (simp add: om_add_def)

end
