(* ===== verification/Acquisition_Types.thy ===== *)
theory Acquisition_Types
  imports Lifecycle_Admission Lifecycle_Policy Ordered_Map
begin

text \<open>
  The records of the execution engine, \<open>portfolio-model-core/src/lifecycle/acquisition.rs\<close>: the
  instructions of one scenario, the native valuations it is given, its events, receipts and
  journal. As in the plan's records a field several structs share carries the record's name as
  a prefix; \<open>u32\<close> is \<open>nat\<close>, \<open>i32\<close> is \<open>int\<close> and \<open>&'static str\<close> is \<open>string\<close>.
\<close>

section \<open>Instructions\<close>

definition MAX_EXECUTION_DAYS :: i32 where "MAX_EXECUTION_DAYS = 366"
definition MAX_INSTRUCTIONS :: usize where "MAX_INSTRUCTIONS = 4096"
definition MARGIN_REFRESH_REQUIRED :: string where
  "MARGIN_REFRESH_REQUIRED = ''MARGIN_REFRESH_REQUIRED''"

datatype SettlementMechanism = DeliveryVersusPayment

datatype InstructionState = InstructionPending | InstructionFailed

record SecurityPurchase =
  purchase_lot_id :: string
  purchase_quote :: Revision
  purchase_trade_ordinal :: i32
  purchase_settlement_ordinal :: i32
  purchase_clean_price_per_100 :: f64
  purchase_accrued_interest :: f64
  purchase_fees :: f64
  purchase_mechanism :: SettlementMechanism
  purchase_instruction_id :: "string option"
  purchase_depends_on :: "string list"
  purchase_state :: InstructionState

record SecuritySale =
  sale_lot_id :: string
  sale_quantity :: f64
  sale_quote :: Revision
  sale_trade_ordinal :: i32
  sale_settlement_ordinal :: i32
  sale_clean_price_per_100 :: f64
  sale_accrued_interest :: f64
  sale_fees :: f64
  sale_mechanism :: SettlementMechanism
  sale_instruction_id :: "string option"
  sale_depends_on :: "string list"
  sale_state :: InstructionState

record FinancingAdvance =
  advance_lot_id :: string
  advance_ordinal :: i32
  advance_principal :: f64
  advance_pledge_id :: string
  advance_instruction_id :: "string option"
  advance_depends_on :: "string list"
  advance_state :: InstructionState

record PledgeRelease =
  release_pledge_id :: string
  release_quantity :: f64

record FundingRepayment =
  repay_lot_id :: string
  repayment_ordinal :: i32
  repay_principal :: f64
  repay_accrued_interest :: f64
  break_cost :: f64
  repay_consent :: Revision
  pledge_releases :: "PledgeRelease list"
  repay_instruction_id :: "string option"
  repay_depends_on :: "string list"
  repay_state :: InstructionState

record VariationMarginTerms =
  receive_threshold :: f64
  post_threshold :: f64
  minimum_transfer :: f64

record HedgeEntry =
  entry_lot_id :: string
  entry_agreement_id :: string
  entry_ordinal :: i32
  upfront_consideration :: f64
  variation_margin :: VariationMarginTerms
  offsets_lot_id :: "string option"
  entry_instruction_id :: "string option"
  entry_depends_on :: "string list"
  entry_state :: InstructionState

datatype ConsiderationSource = ModelCleanValue | ExecutionQuote f64 Revision

record DerivativeTermination =
  term_lot_id :: string
  term_agreement_id :: string
  term_effective_ordinal :: i32
  term_settlement_ordinal :: i32
  term_consideration :: ConsiderationSource
  term_fees :: f64
  term_consent :: Revision
  term_instruction_id :: "string option"
  term_depends_on :: "string list"
  term_state :: InstructionState

record FacilityDraw =
  draw_facility_id :: string
  draw_ordinal :: i32
  draw_amount :: f64
  draw_instruction_id :: "string option"
  draw_depends_on :: "string list"
  draw_state :: InstructionState

record FacilityRepayment =
  frepay_facility_id :: string
  frepay_ordinal :: i32
  frepay_amount :: f64
  frepay_instruction_id :: "string option"
  frepay_depends_on :: "string list"
  frepay_state :: InstructionState

record SuppliedInitialMargin =
  im_agreement_id :: string
  portfolio_lot_ids :: "string list"
  im_scenario_id :: string
  im_ordinal :: i32
  posted_requirement :: f64
  received_requirement :: f64
  im_review :: Revision

record DynamicMargin =
  dynamic_agreement_id :: string
  dynamic_ordinal :: i32

record AcquisitionRequest =
  acq_scenario_id :: string
  horizon_end_ordinal :: i32
  purchases :: "SecurityPurchase list"
  sales :: "SecuritySale list"
  financings :: "FinancingAdvance list"
  repayments :: "FundingRepayment list"
  hedge_entries :: "HedgeEntry list"
  terminations :: "DerivativeTermination list"
  facility_draws :: "FacilityDraw list"
  facility_repayments :: "FacilityRepayment list"
  supplied_margin :: "SuppliedInitialMargin list"
  business_plan :: "BusinessPlan option"
  dynamic_margin :: "DynamicMargin list"

section \<open>Native valuations\<close>

record Sensitivity =
  sensitivity_lot_id :: string
  sensitivity_ordinal :: i32
  buckets :: "f64 list"

record ResolvedHedge =
  resolved_lot_id :: string
  resolved_ordinal :: i32
  clean_value :: f64
  due_cash :: f64
  pricing_source :: Revision

section \<open>Receipts and journal\<close>

record MarginCall =
  call_event_id :: string
  call_agreement_id :: string
  call_ordinal :: i32
  live_lot_ids :: "string list"
  call_sensitivities :: "f64 list"
  requirement :: f64
  posted_change :: f64
  received_change :: f64

record EventReceipt =
  receipt_event_id :: string
  receipt_ordinal :: i32
  receipt_phase :: nat
  receipt_status :: EventStatus

record AccountingFact =
  fact_kind :: string
  fact_lot_id :: string
  fact_quantity :: f64
  retained_quantity :: f64
  fact_effective_ordinal :: i32
  fact_settlement_ordinal :: i32
  consideration :: f64
  removed_carrying :: f64
  fact_realized :: f64
  economic_allocation_ids :: "string list"
  formal_relationship_ids :: "string list"

record Receipt =
  receipt_opening_cash :: f64
  receipt_closing_cash :: f64
  settled_cash_movements :: f64
  gross_derivative_assets :: f64
  gross_derivative_liabilities :: f64
  receipt_posted_vm :: f64
  receipt_received_vm :: f64
  receipt_posted_im :: f64
  receipt_received_im_custody :: f64
  fees_expensed :: f64
  receipt_realized :: f64
  cash_bridge_reconciled :: bool
  inventory_conserved :: bool
  collateral_conserved :: bool
  open_claims :: bool
  receipt_events :: "EventReceipt list"
  receipt_steps :: "LiquidityStep list"
  accounting_facts :: "AccountingFact list"
  formal_hedge_accounting :: bool
  business_plan_mode :: "PlanMode option"
  receipt_policy_decisions :: "PolicyDecision list"
  receipt_monthly :: "MonthlyReport list option"
  receipt_margin_calls :: "MarginCall list"

record AcquisitionJournal =
  journal_account_id :: string
  journal_scenario_id :: string
  journal_as_of_ordinal :: i32
  tail_ordinal :: i32
  journal_opening_cash :: f64
  journal_opening_equity :: f64
  opening_stocks :: "f64 \<times> f64"
  opening_lines :: "Line list"
  intents :: "Intent list"
  daily :: "Closing list"
  receipt :: Receipt

section \<open>Events\<close>

datatype Body =
    Advance FinancingAdvance PositionLot
  | Purchase SecurityPurchase PositionLot f64 f64
  | Sale SecuritySale PositionLot f64 f64
  | Repayment FundingRepayment PositionLot
  | Release Pledge f64
  | PledgeDelivery Pledge
  | Entry HedgeEntry PositionLot f64
  | TerminationEffective DerivativeTermination PositionLot f64 f64
  | TerminationSettle DerivativeTermination MarginAgreement
  | VmSettle MarginAgreement f64
  | VmReturn MarginAgreement
  | ImReturn MarginAgreement
  | Draw FacilityDraw Facility
  | FacilityRepay FacilityRepayment Facility
  | Im SuppliedInitialMargin MarginAgreement
  | DynamicIm MarginAgreement

record Event =
  event_id :: string
  event_ordinal :: i32
  event_phase :: nat
  event_depends_on :: "string list"
  event_state :: InstructionState
  event_body :: Body

definition PHASE_ADVANCE :: nat where "PHASE_ADVANCE = 1"
definition PHASE_REPAYMENT :: nat where "PHASE_REPAYMENT = 2"
definition PHASE_RELEASE :: nat where "PHASE_RELEASE = 3"
definition PHASE_DVP :: nat where "PHASE_DVP = 4"
definition PHASE_PLEDGE :: nat where "PHASE_PLEDGE = 5"
definition PHASE_DERIVATIVE :: nat where "PHASE_DERIVATIVE = 6"
definition PHASE_FACILITY_REPAY :: nat where "PHASE_FACILITY_REPAY = 7"
definition PHASE_VM :: nat where "PHASE_VM = 8"
definition PHASE_IM :: nat where "PHASE_IM = 9"

section \<open>Amounts and text\<close>

text \<open>\<open>unsigned\<close>: an exactly zero stock is reported as \<open>+0.0\<close>.\<close>

definition unsigned :: "f64 \<Rightarrow> f64" where
  "unsigned x = x + 0"

definition near :: "f64 \<Rightarrow> f64 \<Rightarrow> bool" where
  "near a b \<longleftrightarrow>
     fabs (a - b) \<le> fmax (f64_lit 1 (10 ^ 9)) (f64_lit 1 (10 ^ 12) * fmax (fabs a) (fabs b))"

definition unsupported :: "frag list \<Rightarrow> Refusal" where
  "unsupported d = refusal_new UNSUPPORTED_POLICY d"

definition mapping :: "string \<Rightarrow> Refusal" where
  "mapping d = refusal_new LIFECYCLE_MAPPING_REQUIRED [Txt d]"

text \<open>\<open>Display\<close> of an \<open>i32\<close>.\<close>

definition int_text :: "int \<Rightarrow> string" where
  "int_text i = (if i < 0 then CHR ''-'' # digits (nat (- i)) else digits (nat i))"

text \<open>The functions \<open>event\<close> and \<open>push\<close>; the state of \<open>push\<close> is the pair \<open>(ids, events)\<close>.\<close>

definition event :: "string \<Rightarrow> i32 \<Rightarrow> nat \<Rightarrow> string list \<Rightarrow> InstructionState \<Rightarrow> Body \<Rightarrow> Event" where
  "event ident ordinal ph deps st body = \<lparr> event_id = ident, event_ordinal = ordinal,
     event_phase = ph, event_depends_on = deps, event_state = st, event_body = body \<rparr>"

type_synonym queue = "string set \<times> Event list"

definition push :: "Event \<Rightarrow> queue \<Rightarrow> (Refusal, queue) result" where
  "push e = (\<lambda>(ids, events).
     require (event_id e \<notin> ids)
       (refusal_new DUPLICATE_IDENTITY [Txt (''instruction `'' @ event_id e @ ''` is declared twice'')])
       (Ok (insert (event_id e) ids, events @ [e])))"

end
