(* ===== verification/Acquisition_Book.thy ===== *)
theory Acquisition_Book
  imports Acquisition_Types
begin

text \<open>
  The book of one execution, \<open>struct Book\<close> of \<open>lifecycle/acquisition.rs\<close>, and its methods. Every
  method that changes the book takes it last and returns the changed book or a refusal. The
  \<open>BTreeMap\<close>s are the sorted lists of \<open>Ordered_Map\<close>; \<open>expect\<close> on a missing facility or policy is
  \<open>Panic\<close>. \<open>act\<close> matches on its action name; the four actions are four definitions around the
  common \<open>act_frame\<close>, since \<open>fund\<close> only draws and only \<open>act_maturity\<close> posts through \<open>fund\<close> again.
\<close>

section \<open>State\<close>

record FacilityState =
  fs_id :: string
  fs_commitment :: f64
  fs_drawn :: f64
  fs_expiry :: i32
  fs_generation :: nat

record PolicyRun =
  cash_floor :: f64
  facility_order :: "string list"
  run_access :: "(string \<times> Window list) list"
  run_renewal :: "(string \<times> Renewal) list"
  run_repay_surplus :: bool
  run_count :: nat

type_synonym accounts = "((Kind \<times> string) \<times> f64) list"
type_synonym posting = "Kind \<times> string \<times> f64"

record Book =
  book_financial :: accounts
  book_custody :: accounts
  book_cash :: f64
  book_restricted :: f64
  book_settled :: f64
  book_owned :: "(string \<times> f64) list"
  book_pledged :: "(string \<times> f64) list"
  book_pledge_left :: "(string \<times> f64) list"
  book_intents :: "Intent list"
  book_facilities :: "FacilityState list"
  security_lots :: "string list"
  segregated_agreements :: "string list"
  book_policy :: "PolicyRun option"
  policy_log :: "(EventReceipt \<times> LiquidityStep) list"
  book_decisions :: "PolicyDecision list"
  replacements :: "AccountingFact list"
  pre :: "f64 \<times> f64 \<times> f64"

definition nano :: f64 where "nano = f64_lit 1 (10 ^ 9)"
definition pico :: f64 where "pico = f64_lit 1 (10 ^ 12)"

section \<open>Reading the book\<close>

definition book_of :: "Book \<Rightarrow> Kind \<Rightarrow> accounts" where
  "book_of b k = (if memo k then book_custody b else book_financial b)"

definition balance :: "Book \<Rightarrow> Kind \<Rightarrow> string \<Rightarrow> f64" where
  "balance b k ident = om_or (book_of b k) (k, ident)"

definition kind_total :: "accounts \<Rightarrow> Kind \<Rightarrow> f64" where
  "kind_total m k = fsum (map snd (filter (\<lambda>e. fst (fst e) = k) m))"

definition book_stock :: "Book \<Rightarrow> Kind \<Rightarrow> f64" where
  "book_stock b k = kind_total (book_of b k) k"

definition security_total :: "Book \<Rightarrow> f64" where
  "security_total b = fsum (map (om_or (book_owned b)) (security_lots b))"

definition pledged_total :: "Book \<Rightarrow> f64" where
  "pledged_total b = fsum (map snd (book_pledged b))"

definition inventory_now :: "Book \<Rightarrow> f64 \<times> f64 \<times> f64" where
  "inventory_now b = (pledged_total b, security_total b, book_stock b CustodyAsset)"

definition restricted_now :: "Book \<Rightarrow> f64" where
  "restricted_now b = fsum (map (\<lambda>a. - balance b ReceivedVm a) (segregated_agreements b))"

definition book_available :: "Book \<Rightarrow> PositionLot \<Rightarrow> f64" where
  "book_available b l =
     om_or (book_owned b) (lot_id l) - om_or (book_pledged b) (lot_id l) - outside_encumbrance l"

definition facility :: "Book \<Rightarrow> string \<Rightarrow> (Refusal, FacilityState) result" where
  "facility b ident = unwrap (find (\<lambda>f. fs_id f = ident) (book_facilities b))"

fun update_first :: "('a \<Rightarrow> bool) \<Rightarrow> ('a \<Rightarrow> 'a) \<Rightarrow> 'a list \<Rightarrow> 'a list" where
  "update_first P g [] = []"
| "update_first P g (x # xs) = (if P x then g x # xs else x # update_first P g xs)"

definition facility_mut :: "string \<Rightarrow> (FacilityState \<Rightarrow> FacilityState) \<Rightarrow> Book \<Rightarrow> (Refusal, Book) result" where
  "facility_mut ident g b = and_then (facility b ident) (\<lambda>_.
     Ok (b \<lparr> book_facilities := update_first (\<lambda>f. fs_id f = ident) g (book_facilities b) \<rparr>))"

text \<open>\<open>fn step\<close>.\<close>

definition liquidity_step :: "Book \<Rightarrow> string \<Rightarrow> i32 \<Rightarrow> nat \<Rightarrow> EventStatus \<Rightarrow> string list \<Rightarrow> f64
    \<Rightarrow> LiquidityStep" where
  "liquidity_step b ident ordinal ph status deps cash_before =
     \<lparr> step_event_id = ident, step_ordinal = ordinal, step_phase = ph, step_status = status,
       step_depends_on = deps,
       cash_movement = unsigned (book_cash b - cash_before),
       step_cash_after = unsigned (book_cash b),
       restricted_cash_after = unsigned (restricted_now b),
       usable_cash_after = unsigned (book_cash b - restricted_now b),
       facility_drawn_after = unsigned (fsum (map fs_drawn (book_facilities b))),
       facility_undrawn_after = unsigned (fsum (map (\<lambda>f. fs_commitment f - fs_drawn f)
         (filter (\<lambda>f. ordinal < fs_expiry f) (book_facilities b)))),
       pledged_quantity_after = unsigned (pledged_total b),
       security_quantity_after = unsigned (security_total b),
       posted_vm_after = unsigned (book_stock b PostedVm),
       received_vm_after = unsigned (- book_stock b ReceivedVm),
       posted_im_after = unsigned (book_stock b PostedIm),
       received_im_custody_after = unsigned (book_stock b CustodyAsset),
       pending_receivable_after = unsigned (book_stock b UnpaidReceivable),
       pending_payable_after = unsigned (- book_stock b UnpaidPayable),
       derivative_assets_after = unsigned (book_stock b DerivativeAsset),
       derivative_liabilities_after = unsigned (- book_stock b DerivativeLiability) \<rparr>"

section \<open>Posting\<close>

text \<open>One line of \<open>apply\<close>.\<close>

definition post_line :: "bool \<Rightarrow> Book \<Rightarrow> Line \<Rightarrow> Book" where
  "post_line m b l = (let
     b = (if m then b \<lparr> book_custody := om_add (line_kind l, instrument l) (debit l) (book_custody b) \<rparr>
          else b \<lparr> book_financial := om_add (line_kind l, instrument l) (debit l) (book_financial b) \<rparr>) in
     if line_kind l = Cash
     then b \<lparr> book_cash := book_cash b + debit l, book_settled := book_settled b + debit l \<rparr>
     else b)"

definition book_lines :: "posting list \<Rightarrow> Line list" where
  "book_lines ps = map (\<lambda>(k, i, d). \<lparr> line_kind = k, instrument = i, debit = d \<rparr>)
     (filter (\<lambda>(k, i, d). \<not> feq d 0) ps)"

text \<open>\<open>fn apply\<close>.\<close>

definition book_apply :: "string \<Rightarrow> i32 \<Rightarrow> nat \<Rightarrow> nat \<Rightarrow> posting list \<Rightarrow> Book \<Rightarrow> (Refusal, Book) result" where
  "book_apply ident ordinal ph sq ps b = (let m = list_all (\<lambda>p. memo (fst p)) ps in
     require (\<not> (\<not> m \<and> list_ex (\<lambda>p. memo (fst p)) ps))
       (unsupported [Txt (''`'' @ ident @ ''` mixes custody memo and financial lines'')])
    (require (near (fsum (map (\<lambda>p. snd (snd p)) ps)) 0)
       (unsupported [Txt (''`'' @ ident @ ''` does not balance'')])
    (let ls = book_lines ps in
     if ls = [] then Ok b
     else let b' = foldl (post_line m) b ls in
       require (\<not> book_cash b' < - nano)
         (refusal_new INSUFFICIENT_SETTLEMENT_LIQUIDITY
            [Txt (''`'' @ ident @ ''` leaves cash at ''), Flt (book_cash b'),
             Txt ''; no cash plug or emergency facility is invented''])
         (Ok (b' \<lparr> book_intents := book_intents b' @
            [\<lparr> intent_event_id = ident, intent_ordinal = ordinal, intent_phase = ph,
               intent_sequence = sq, intent_memo = m, intent_lines = ls \<rparr>] \<rparr>)))))"

section \<open>Policy actions\<close>

text \<open>
  What every \<open>act\<close> does before and after the effect of its action: the effect gets the action's
  identity, the funding instrument of the current generation and that generation.
\<close>

type_synonym effect = "string \<Rightarrow> string \<Rightarrow> nat \<Rightarrow> Book \<Rightarrow> (Refusal, Book) result"

definition act_record :: "string \<Rightarrow> string \<Rightarrow> f64 \<Rightarrow> string \<Rightarrow> i32 \<Rightarrow> nat \<Rightarrow> f64 \<Rightarrow> string \<Rightarrow> f64 \<Rightarrow> f64
    \<Rightarrow> nat \<Rightarrow> Book \<Rightarrow> Book" where
  "act_record kind fid amount trig ordinal ph nd ident cash_before usable_before gen b = (let
     decision = \<lparr> decision_id = ident, decision_ordinal = ordinal, decision_kind = kind,
       decision_facility_id = fid, generation = gen, decision_amount = unsigned amount,
       trigger = trig, usable_cash_before = unsigned usable_before,
       usable_cash_afterwards = unsigned (book_cash b - restricted_now b), need = unsigned nd \<rparr>;
     step = (liquidity_step b ident ordinal ph EventSettled [] cash_before)
       \<lparr> pledged_quantity_after := unsigned (fst (pre b)),
         security_quantity_after := unsigned (fst (snd (pre b))),
         received_im_custody_after := unsigned (snd (snd (pre b))) \<rparr>;
     entry = \<lparr> receipt_event_id = ident, receipt_ordinal = ordinal, receipt_phase = ph,
       receipt_status = EventSettled \<rparr> in
     b \<lparr> book_decisions := book_decisions b @ [decision], policy_log := policy_log b @ [(entry, step)] \<rparr>)"

definition action_id_text :: "string \<Rightarrow> string \<Rightarrow> i32 \<Rightarrow> nat \<Rightarrow> string" where
  "action_id_text kind fid ordinal n =
     ''policy_'' @ kind @ '':'' @ fid @ '':'' @ int_text ordinal @ '':'' @ digits n"

definition act_frame :: "string \<Rightarrow> effect \<Rightarrow> string \<Rightarrow> f64 \<Rightarrow> string \<Rightarrow> i32 \<Rightarrow> nat \<Rightarrow> f64 \<Rightarrow> Book
    \<Rightarrow> (Refusal, Book) result" where
  "act_frame kind eff fid amount trig ordinal ph nd b =
     and_then (unwrap (book_policy b)) (\<lambda>p. let
       n = run_count p + 1;
       b = b \<lparr> book_policy := Some (p \<lparr> run_count := n \<rparr>) \<rparr>;
       ident = action_id_text kind fid ordinal n;
       cash_before = book_cash b;
       usable_before = book_cash b - restricted_now b in
     and_then (facility b fid) (\<lambda>f.
     and_then (eff ident (generation_instrument fid (fs_generation f)) (fs_generation f) b) (\<lambda>b.
     and_then (facility b fid) (\<lambda>f.
     Ok (act_record kind fid amount trig ordinal ph nd ident cash_before usable_before (fs_generation f) b)))))"

definition draw_effect :: "string \<Rightarrow> f64 \<Rightarrow> i32 \<Rightarrow> nat \<Rightarrow> nat \<Rightarrow> effect" where
  "draw_effect fid amount ordinal ph sq ident current gen b =
     and_then (facility_mut fid (\<lambda>f. f \<lparr> fs_drawn := fs_drawn f + amount \<rparr>) b)
       (book_apply ident ordinal ph sq [(Cash, [], amount), (FundingPrincipal, current, - amount)])"

definition act_draw :: "string \<Rightarrow> f64 \<Rightarrow> string \<Rightarrow> i32 \<Rightarrow> nat \<Rightarrow> nat \<Rightarrow> f64 \<Rightarrow> Book \<Rightarrow> (Refusal, Book) result" where
  "act_draw fid amount trig ordinal ph sq nd =
     act_frame ''draw'' (draw_effect fid amount ordinal ph sq) fid amount trig ordinal ph nd"

definition surplus_effect :: "string \<Rightarrow> f64 \<Rightarrow> i32 \<Rightarrow> nat \<Rightarrow> nat \<Rightarrow> effect" where
  "surplus_effect fid amount ordinal ph sq ident current gen b =
     and_then (facility_mut fid (\<lambda>f. f \<lparr> fs_drawn := fs_drawn f - amount \<rparr>) b)
       (book_apply ident ordinal ph sq [(FundingPrincipal, current, amount), (Cash, [], - amount)])"

definition act_surplus :: "string \<Rightarrow> f64 \<Rightarrow> string \<Rightarrow> i32 \<Rightarrow> nat \<Rightarrow> nat \<Rightarrow> f64 \<Rightarrow> Book \<Rightarrow> (Refusal, Book) result" where
  "act_surplus fid amount trig ordinal ph sq nd =
     act_frame ''surplus_repayment'' (surplus_effect fid amount ordinal ph sq) fid amount trig ordinal ph nd"

section \<open>Funding a payment\<close>

text \<open>
  One facility of \<open>fund\<close>'s loop; the state is \<open>(remaining, book)\<close>. The loop's \<open>break\<close> is an
  iteration that changes nothing: \<open>remaining\<close> stays, so every later iteration breaks too.
\<close>

definition run_accessible :: "Book \<Rightarrow> string \<Rightarrow> i32 \<Rightarrow> bool" where
  "run_accessible b ident ordinal = (case book_policy b of None \<Rightarrow> False | Some p \<Rightarrow>
     (case map_of (run_access p) ident of None \<Rightarrow> False
      | Some ws \<Rightarrow> list_ex (\<lambda>w. window_contains w ordinal) ws))"

definition fund_step :: "string \<Rightarrow> i32 \<Rightarrow> nat \<Rightarrow> nat \<Rightarrow> f64 \<Rightarrow> f64 \<times> Book \<Rightarrow> string
    \<Rightarrow> (Refusal, f64 \<times> Book) result" where
  "fund_step trig ordinal ph sq nd = (\<lambda>(remaining, b) ident.
     if remaining \<le> pico then Ok (remaining, b)
     else and_then (facility b ident) (\<lambda>f.
       if \<not> run_accessible b ident ordinal \<or> fs_expiry f \<le> ordinal then Ok (remaining, b)
       else let x = fmin remaining (fs_commitment f - fs_drawn f) in
         if x \<le> pico then Ok (remaining, b)
         else and_then (act_draw ident x trig ordinal ph sq nd b) (\<lambda>b. Ok (remaining - x, b))))"

definition fund :: "string \<Rightarrow> i32 \<Rightarrow> nat \<Rightarrow> nat \<Rightarrow> f64 \<Rightarrow> Book \<Rightarrow> (Refusal, Book) result" where
  "fund trig ordinal ph sq delta b = (case book_policy b of None \<Rightarrow> Ok b | Some p \<Rightarrow> (let
     usable = book_cash b - restricted_now b;
     nd = cash_floor p - (usable + delta) in
     if nd \<le> nano * fmax (fabs (cash_floor p)) 1 then Ok b
     else and_then (fold_res (fund_step trig ordinal ph sq nd) (nd, b) (facility_order p))
       (\<lambda>(_, b). Ok b)))"

definition cash_delta :: "posting list \<Rightarrow> f64" where
  "cash_delta ps = fsum (map (\<lambda>p. snd (snd p)) (filter (\<lambda>p. fst p = Cash) ps))"

definition post :: "string \<Rightarrow> i32 \<Rightarrow> nat \<Rightarrow> nat \<Rightarrow> posting list \<Rightarrow> Book \<Rightarrow> (Refusal, Book) result" where
  "post ident ordinal ph sq ps b =
     and_then (if cash_delta ps < 0 \<and> book_policy b \<noteq> None
               then fund ident ordinal ph sq (cash_delta ps) b else Ok b)
       (book_apply ident ordinal ph sq ps)"

section \<open>Maturity and renewal\<close>

definition maturity_effect :: "string \<Rightarrow> f64 \<Rightarrow> i32 \<Rightarrow> nat \<Rightarrow> nat \<Rightarrow> effect" where
  "maturity_effect fid amount ordinal ph sq ident current gen b =
     and_then (facility_mut fid (\<lambda>f. f \<lparr> fs_drawn := fs_drawn f - amount \<rparr>) b)
       (post ident ordinal ph sq [(FundingPrincipal, current, amount), (Cash, [], - amount)])"

definition act_maturity :: "string \<Rightarrow> f64 \<Rightarrow> string \<Rightarrow> i32 \<Rightarrow> nat \<Rightarrow> nat \<Rightarrow> f64 \<Rightarrow> Book \<Rightarrow> (Refusal, Book) result" where
  "act_maturity fid amount trig ordinal ph sq nd =
     act_frame ''maturity_repayment'' (maturity_effect fid amount ordinal ph sq) fid amount trig ordinal ph nd"

definition run_renewal_of :: "Book \<Rightarrow> string \<Rightarrow> Renewal option" where
  "run_renewal_of b ident = Option.bind (book_policy b) (\<lambda>p. map_of (run_renewal p) ident)"

definition replacement_fact :: "string \<Rightarrow> f64 \<Rightarrow> i32 \<Rightarrow> AccountingFact" where
  "replacement_fact lot amount ordinal = \<lparr> fact_kind = ''funding_replacement'', fact_lot_id = lot,
     fact_quantity = amount, retained_quantity = amount, fact_effective_ordinal = ordinal,
     fact_settlement_ordinal = ordinal, consideration = 0, removed_carrying = 0, fact_realized = 0,
     economic_allocation_ids = [], formal_relationship_ids = [] \<rparr>"

definition renewal_effect :: "string \<Rightarrow> f64 \<Rightarrow> i32 \<Rightarrow> nat \<Rightarrow> nat \<Rightarrow> effect" where
  "renewal_effect fid amount ordinal ph sq ident current gen b = (let
     tenor = (case run_renewal_of b fid of None \<Rightarrow> 0 | Some r \<Rightarrow> tenor_days r);
     new = generation_instrument fid (gen + 1) in
     and_then (facility b fid) (\<lambda>f.
     and_then (i32_add (fs_expiry f) tenor) (\<lambda>expiry.
     and_then (facility_mut fid (\<lambda>f. f \<lparr> fs_generation := fs_generation f + 1, fs_expiry := expiry \<rparr>) b) (\<lambda>b.
     and_then (book_apply ident ordinal ph sq
         [(FundingPrincipal, current, amount), (FundingPrincipal, new, - amount)] b) (\<lambda>b.
     Ok (b \<lparr> replacements := replacements b @ [replacement_fact new amount ordinal] \<rparr>))))))"

definition act_renewal :: "string \<Rightarrow> f64 \<Rightarrow> string \<Rightarrow> i32 \<Rightarrow> nat \<Rightarrow> nat \<Rightarrow> f64 \<Rightarrow> Book \<Rightarrow> (Refusal, Book) result" where
  "act_renewal fid amount trig ordinal ph sq nd =
     act_frame ''renewal'' (renewal_effect fid amount ordinal ph sq) fid amount trig ordinal ph nd"

section \<open>Daily closing\<close>

definition kind_sums :: "accounts \<Rightarrow> (Kind \<times> f64) list" where
  "kind_sums m = foldl (\<lambda>out ((k, _), v). om_add k v out) [] m"

definition lot_inventory :: "Book \<Rightarrow> PositionLot \<Rightarrow> Inventory" where
  "lot_inventory b l = (let own = om_or (book_owned b) (lot_id l); pl = om_or (book_pledged b) (lot_id l) in
     \<lparr> inventory_lot_id = lot_id l, owned = own, inventory_pledged = pl,
       inventory_outside_encumbrance = outside_encumbrance l,
       available = own - pl - outside_encumbrance l \<rparr>)"

definition book_closing :: "Book \<Rightarrow> i32 \<Rightarrow> PositionLot list \<Rightarrow> Closing" where
  "book_closing b ordinal ls = \<lparr> closing_ordinal = ordinal,
     financial = kind_sums (book_financial b), custody = kind_sums (book_custody b),
     closing_total_cash = book_cash b, usable_cash = book_cash b - book_restricted b,
     inventory = map (lot_inventory b) (filter (\<lambda>l. lot_kind l = Security) ls) \<rparr>"

end
