(* ===== verification/Acquisition_Events.thy ===== *)
theory Acquisition_Events
  imports Acquisition_Book
begin

text \<open>
  The first half of \<open>replay_with_margin\<close>, \<open>lifecycle/acquisition.rs\<close>: the admission of an
  execution and its events in settlement order. The closures of the function take the inputs
  they capture as an \<open>Execution\<close>. One definition per loop over a kind of instruction; the state
  of each loop is the pair \<open>(ids, events)\<close> that \<open>push\<close> extends. A \<open>HashMap\<close> collected from a
  vector is \<open>last_by\<close>, a \<open>BTreeSet\<close> that is only tested or compared is a set, one that is
  iterated the sorted list of its elements.
\<close>

section \<open>Inputs and lookups\<close>

record Execution =
  exec_plan :: LifecycleRequest
  exec_request :: AcquisitionRequest
  exec_hedges :: "ResolvedHedge list"
  exec_sensitivities :: "Sensitivity list"
  exec_account :: string

definition asof :: "Execution \<Rightarrow> i32" where
  "asof x = as_of_ordinal (exec_plan x)"

definition horizon_end :: "Execution \<Rightarrow> i32" where
  "horizon_end x = horizon_end_ordinal (exec_request x)"

definition exec_lot :: "Execution \<Rightarrow> string \<Rightarrow> string \<Rightarrow> (Refusal, PositionLot) result" where
  "exec_lot x ident what =
     and_then (ok_or (last_by lot_id (lots (exec_plan x)) ident)
       (mapping (what @ '' names unknown lot `'' @ ident @ ''`''))) (\<lambda>l.
     require (lot_account_id l = exec_account x)
       (mapping (what @ '' lot `'' @ ident @ ''` belongs to another account''))
       (Ok l))"

definition exec_agreement :: "Execution \<Rightarrow> string \<Rightarrow> string \<Rightarrow> (Refusal, MarginAgreement) result" where
  "exec_agreement x ident what =
     ok_or (last_by agreement_id (margin_agreements (exec_plan x)) ident)
       (mapping (what @ '' names unknown agreement `'' @ ident @ ''`''))"

definition exec_facility :: "Execution \<Rightarrow> string \<Rightarrow> string \<Rightarrow> (Refusal, Facility) result" where
  "exec_facility x ident what =
     ok_or (last_by facility_id (facilities (exec_plan x)) ident)
       (mapping (what @ '' names unknown facility `'' @ ident @ ''`''))"

definition exec_pledge :: "Execution \<Rightarrow> string \<Rightarrow> Refusal \<Rightarrow> (Refusal, Pledge) result" where
  "exec_pledge x ident e = ok_or (last_by pledge_id (pledges (exec_plan x)) ident) e"

definition exec_within :: "Execution \<Rightarrow> i32 \<Rightarrow> string \<Rightarrow> (Refusal, unit) result" where
  "exec_within x ordinal what = guard (\<not> (ordinal \<le> asof x \<or> horizon_end x < ordinal))
     (malformed (what @ '' must settle after the as-of date and within the horizon''))"

definition resolved :: "Execution \<Rightarrow> string \<Rightarrow> i32 \<Rightarrow> string \<Rightarrow> (Refusal, ResolvedHedge) result" where
  "resolved x ident ordinal what =
     ok_or (last_by (\<lambda>h. (resolved_lot_id h, resolved_ordinal h)) (exec_hedges x) (ident, ordinal))
       (mapping what)"

definition name :: "string option \<Rightarrow> string \<Rightarrow> string" where
  "name explicit dflt = (case explicit of Some s \<Rightarrow> s | None \<Rightarrow> dflt)"

text \<open>\<open>money(v, what)? < 0.\<close> as a refusal.\<close>

definition nonnegative :: "f64 \<Rightarrow> string \<Rightarrow> Refusal \<Rightarrow> (Refusal, unit) result" where
  "nonnegative v what e = and_then (money v what) (\<lambda>v. guard (\<not> v < 0) e)"

section \<open>Admission of the execution\<close>

definition instruction_count :: "AcquisitionRequest \<Rightarrow> nat" where
  "instruction_count q = length (purchases q) + length (sales q) + length (financings q)
     + length (repayments q) + length (hedge_entries q) + length (terminations q)
     + length (facility_draws q) + length (facility_repayments q) + length (supplied_margin q)"

definition touched :: "AcquisitionRequest \<Rightarrow> string set" where
  "touched q = set (map purchase_lot_id (purchases q) @ map sale_lot_id (sales q)
     @ map advance_lot_id (financings q) @ map repay_lot_id (repayments q)
     @ map entry_lot_id (hedge_entries q) @ map term_lot_id (terminations q))"

definition execution_bounds :: "Execution \<Rightarrow> (Refusal, unit) result" where
  "execution_bounds x = checks [
     and_then (if horizon_end x < asof x then Ok True
               else and_then (i32_sub (horizon_end x) (asof x)) (\<lambda>d. Ok (MAX_EXECUTION_DAYS < d)))
       (\<lambda>bad. guard (\<not> bad) (refusal_new BOUND_EXCEEDED
          [Txt ''execution horizon must lie within 366 days of the as-of date''])),
     guard (\<not> MAX_INSTRUCTIONS < instruction_count (exec_request x))
       (refusal_new BOUND_EXCEEDED [Txt ''execution block exceeds its instruction bound''])]"

definition formal_untouched :: "Execution \<Rightarrow> (Refusal, unit) result" where
  "formal_untouched x = for_each (actions (exec_plan x)) (\<lambda>a.
     guard (\<not> (accounting_treatment a = Formal
         \<and> list_ex (\<lambda>l. action_lot_id l \<in> touched (exec_request x)) (action_lots a)))
       (refusal_new FORMAL_OWNER_REQUIRED [Txt (''action `'' @ action_id a
          @ ''` selects formal hedge accounting for a lot this execution touches; no hedge-accounting-1 intents are bound and there is no fallback to undesignated treatment'')]))"

section \<open>Securities\<close>

definition queue_purchase :: "Execution \<Rightarrow> queue \<Rightarrow> SecurityPurchase \<Rightarrow> (Refusal, queue) result" where
  "queue_purchase x q p = (let ident = purchase_lot_id p; settle = purchase_settlement_ordinal p in
     and_then (exec_lot x ident ''purchase'') (\<lambda>l.
     require (\<not> (lot_kind l \<noteq> Security \<or> acquisition_ordinal l \<noteq> settle \<or> settle \<le> asof x))
       (unsupported [Txt (''purchase `'' @ ident
          @ ''` must acquire a new security lot on its settlement date after the as-of date'')])
    (and_then (exec_within x settle ''purchase'') (\<lambda>_.
     require (\<not> (purchase_trade_ordinal p < asof x \<or> settle < purchase_trade_ordinal p))
       (malformed (''purchase `'' @ ident @ ''` trade date is out of order''))
    (and_then (money (purchase_clean_price_per_100 p) ''clean price'') (\<lambda>price.
     and_then (money (purchase_accrued_interest p) ''accrued interest'') (\<lambda>accrued.
     and_then (money (purchase_fees p) ''fees'') (\<lambda>fee.
     require (\<not> (price \<le> 0 \<or> accrued < 0 \<or> fee < 0))
       (malformed (''purchase `'' @ ident @ ''` needs a positive price and nonnegative accrued/fees''))
    (let cost = price / f64_of_int 100 * lot_quantity l in
     require (near (original_cost l) (cost + fee))
       (unsupported [Txt (''purchase `'' @ ident @ ''` original cost ''), Flt (original_cost l),
          Txt '' must equal clean cost '', Flt cost, Txt '' plus fees '', Flt fee,
          Txt '': no purchase-price gain is manufactured''])
       (push (event (name (purchase_instruction_id p) (''purchase:'' @ ident)) settle PHASE_DVP
          (purchase_depends_on p) (purchase_state p) (Purchase p l cost accrued)) q))))))))))"

definition queue_sale :: "Execution \<Rightarrow> queue \<Rightarrow> SecuritySale \<Rightarrow> (Refusal, queue) result" where
  "queue_sale x q s = (let ident = sale_lot_id s; settle = sale_settlement_ordinal s in
     and_then (exec_lot x ident ''sale'') (\<lambda>l.
     require (\<not> lot_kind l \<noteq> Security)
       (unsupported [Txt (''sale `'' @ ident @ ''` must sell a security lot'')])
    (and_then (exec_within x settle ''sale'') (\<lambda>_.
     require (\<not> (sale_trade_ordinal s < asof x \<or> settle < sale_trade_ordinal s
                  \<or> settle < acquisition_ordinal l))
       (malformed (''sale `'' @ ident @ ''` dates are out of order''))
    (and_then (money (sale_clean_price_per_100 s) ''clean price'') (\<lambda>price.
     and_then (money (sale_accrued_interest s) ''accrued interest'') (\<lambda>accrued.
     and_then (money (sale_fees s) ''fees'') (\<lambda>fee.
     and_then (money (sale_quantity s) ''sale quantity'') (\<lambda>quantity.
     require (\<not> (price \<le> 0 \<or> accrued < 0 \<or> fee < 0 \<or> quantity \<le> 0 \<or> lot_quantity l + nano < quantity))
       (malformed (''sale `'' @ ident
          @ ''` needs a positive price, nonnegative accrued/fees and a quantity within the lot''))
       (push (event (name (sale_instruction_id s) (''sale:'' @ ident @ '':'' @ int_text settle)) settle
          PHASE_DVP (sale_depends_on s) (sale_state s)
          (Sale s l (price / f64_of_int 100 * quantity) accrued)) q))))))))))"

section \<open>Funding\<close>

definition queue_financing :: "Execution \<Rightarrow> queue \<Rightarrow> FinancingAdvance \<Rightarrow> (Refusal, queue) result" where
  "queue_financing x q f = (let ident = advance_lot_id f; day = advance_ordinal f in
     and_then (exec_lot x ident ''financing'') (\<lambda>l.
     require (\<not> (lot_kind l \<noteq> Funding \<or> acquisition_ordinal l \<noteq> day \<or> day \<le> asof x))
       (unsupported [Txt (''financing `'' @ ident @ ''` must advance a new funding lot on its advance date; an opening contract is never advanced again'')])
    (and_then (exec_within x day ''financing'') (\<lambda>_.
     and_then (money (advance_principal f) ''principal'') (\<lambda>principal.
     require (\<not> (\<not> near principal (lot_quantity l) \<or> advance_principal f \<le> 0))
       (malformed (''financing `'' @ ident @ ''` principal must equal the funding lot quantity''))
    (and_then (exec_pledge x (advance_pledge_id f) (mapping (''financing `'' @ ident
        @ ''` names unknown pledge `'' @ advance_pledge_id f @ ''`''))) (\<lambda>pl.
     require (pledge_agreement_id pl = ident)
       (mapping (''pledge `'' @ advance_pledge_id f @ ''` does not secure funding lot `'' @ ident @ ''`''))
    (and_then (exec_lot x (pledge_lot_id pl) ''pledge'') (\<lambda>col.
     require (\<not> day < acquisition_ordinal col)
       (refusal_new INVENTORY_UNAVAILABLE [Txt (''pledge `'' @ advance_pledge_id f
          @ ''` delivers lot `'' @ pledge_lot_id pl @ ''` before it is owned'')])
    (let adv = name (advance_instruction_id f) (''advance:'' @ ident) in
     and_then (push (event adv day PHASE_ADVANCE (advance_depends_on f) (advance_state f)
        (Advance f l)) q)
       (push (event (''pledge:'' @ pledge_id pl) day PHASE_PLEDGE [adv] InstructionPending
          (PledgeDelivery pl)))))))))))))"

definition queue_release :: "Execution \<Rightarrow> FundingRepayment \<Rightarrow> string \<Rightarrow> queue \<Rightarrow> PledgeRelease
    \<Rightarrow> (Refusal, queue) result" where
  "queue_release x rp ident q rl =
     and_then (exec_pledge x (release_pledge_id rl)
       (mapping (''release names unknown pledge `'' @ release_pledge_id rl @ ''`''))) (\<lambda>p. let
       e = mapping (''pledge `'' @ release_pledge_id rl @ ''` is not held by funding lot `''
         @ repay_lot_id rp @ ''`'') in
     require (pledge_agreement_id p = repay_lot_id rp) e
    (and_then (money (release_quantity rl) ''release quantity'') (\<lambda>v.
     require (\<not> v \<le> 0) e
       (push (event (''release:'' @ pledge_id p @ '':'' @ int_text (repayment_ordinal rp))
          (repayment_ordinal rp) PHASE_RELEASE [ident] InstructionPending
          (Release p (release_quantity rl))) q))))"

definition queue_repayment :: "Execution \<Rightarrow> queue \<Rightarrow> FundingRepayment \<Rightarrow> (Refusal, queue) result" where
  "queue_repayment x q rp = (let lot = repay_lot_id rp; day = repayment_ordinal rp in
     and_then (exec_lot x lot ''repayment'') (\<lambda>l.
     require (\<not> (lot_kind l \<noteq> Funding \<or> day < acquisition_ordinal l))
       (unsupported [Txt (''repayment `'' @ lot @ ''` must repay an advanced funding lot'')])
    (and_then (exec_within x day ''repayment'') (\<lambda>_.
     and_then (money (repay_principal rp) ''repayment principal'') (\<lambda>principal. let
       e = malformed (''repayment `'' @ lot
         @ ''` needs principal within the lot and nonnegative accrued/break cost'') in
     require (\<not> (principal \<le> 0 \<or> lot_quantity l + nano < principal)) e
    (and_then (nonnegative (repay_accrued_interest rp) ''accrued interest'' e) (\<lambda>_.
     and_then (nonnegative (break_cost rp) ''break cost'' e) (\<lambda>_. let
       ident = name (repay_instruction_id rp) (''repay:'' @ lot @ '':'' @ int_text day) in
     and_then (push (event ident day PHASE_REPAYMENT (repay_depends_on rp) (repay_state rp)
        (Repayment rp l)) q) (\<lambda>q.
     fold_res (queue_release x rp ident) q (pledge_releases rp))))))))))"

section \<open>Derivatives\<close>

text \<open>The variation margin called for a clean value; zero is no call.\<close>

definition margin_call :: "VariationMarginTerms \<Rightarrow> f64 \<Rightarrow> f64" where
  "margin_call vm clean =
     (if receive_threshold vm < clean then clean - receive_threshold vm
      else if clean < - post_threshold vm then clean + post_threshold vm else 0)"

definition queue_margin :: "Execution \<Rightarrow> HedgeEntry \<Rightarrow> MarginAgreement \<Rightarrow> string \<Rightarrow> f64 \<Rightarrow> queue
    \<Rightarrow> (Refusal, queue) result" where
  "queue_margin x h a ident clean q = (let call = margin_call (variation_margin h) clean in
     if \<not> feq call 0 \<and> minimum_transfer (variation_margin h) \<le> fabs call then
       and_then (i32_add (entry_ordinal h) (i32_of_u32 (settlement_lag_days a))) (\<lambda>settle.
       require (\<not> horizon_end x < settle)
         (unsupported [Txt (''hedge entry `'' @ entry_lot_id h @ ''` variation margin settles beyond the horizon; the complete collateral tail is required'')])
         (push (event (''vm:'' @ entry_lot_id h) settle PHASE_VM [ident] InstructionPending
            (VmSettle a call)) q))
     else Ok q)"

definition offset_check :: "Execution \<Rightarrow> HedgeEntry \<Rightarrow> (Refusal, unit) result" where
  "offset_check x h = (case offsets_lot_id h of None \<Rightarrow> Ok () | Some off \<Rightarrow>
     and_then (exec_lot x off ''offset'') (\<lambda>l.
       guard (\<not> (lot_kind l \<noteq> Derivative \<or> off = entry_lot_id h))
         (unsupported [Txt (''offset `'' @ entry_lot_id h @ ''` must name another derivative lot'')])))"

definition queue_entry :: "Execution \<Rightarrow> queue \<Rightarrow> HedgeEntry \<Rightarrow> (Refusal, queue) result" where
  "queue_entry x q h = (let lot = entry_lot_id h; day = entry_ordinal h; vm = variation_margin h in
     and_then (exec_lot x lot ''hedge entry'') (\<lambda>l.
     require (\<not> (lot_kind l \<noteq> Derivative \<or> acquisition_ordinal l \<noteq> day))
       (unsupported [Txt (''hedge entry `'' @ lot
          @ ''` must enter a new derivative lot on its entry date'')])
    (and_then (exec_within x day ''hedge entry'') (\<lambda>_.
     and_then (exec_agreement x (entry_agreement_id h) ''hedge entry'') (\<lambda>a.
     require (lot \<in> set (agreement_lot_ids a))
       (mapping (''agreement `'' @ entry_agreement_id h @ ''` does not scope lot `'' @ lot @ ''`''))
    (and_then (offset_check x h) (\<lambda>_.
     and_then (resolved x lot day (''hedge entry `'' @ lot @ ''` has no native entry valuation'')) (\<lambda>v.
     and_then (money (clean_value v) ''entry clean value'') (\<lambda>clean.
     and_then (money (upfront_consideration h) ''upfront consideration'') (\<lambda>upfront.
     require (near upfront clean)
       (unsupported [Txt (''hedge entry `'' @ lot @ ''` clean value ''), Flt clean,
          Txt '' needs equal upfront consideration '', Flt (upfront_consideration h),
          Txt ''; no day-one gain or loss is created''])
    (let e = malformed ''variation margin terms must be nonnegative'' in
     and_then (nonnegative (receive_threshold vm) ''receive threshold'' e) (\<lambda>_.
     and_then (nonnegative (post_threshold vm) ''post threshold'' e) (\<lambda>_.
     and_then (nonnegative (minimum_transfer vm) ''minimum transfer'' e) (\<lambda>_. let
       ident = name (entry_instruction_id h) (''entry:'' @ lot) in
     and_then (push (event ident day PHASE_DERIVATIVE (entry_depends_on h) (entry_state h)
        (Entry h l clean)) q)
       (queue_margin x h a ident clean)))))))))))))))"

definition queue_vm_return :: "Execution \<Rightarrow> DerivativeTermination \<Rightarrow> MarginAgreement \<Rightarrow> string \<Rightarrow> queue
    \<Rightarrow> (Refusal, queue) result" where
  "queue_vm_return x t a settle_id q =
     (if vm_at_termination a = ReturnSeparately then
        and_then (i32_add (term_settlement_ordinal t) (i32_of_u32 (settlement_lag_days a))) (\<lambda>day.
        if day \<le> horizon_end x then
          push (event (''vm_return:'' @ term_lot_id t) day PHASE_VM [settle_id] InstructionPending
            (VmReturn a)) q
        else Ok q)
      else Ok q)"

definition queue_termination :: "Execution \<Rightarrow> queue \<Rightarrow> DerivativeTermination \<Rightarrow> (Refusal, queue) result" where
  "queue_termination x q t = (let lot = term_lot_id t; day = term_effective_ordinal t in
     and_then (exec_lot x lot ''termination'') (\<lambda>l.
     require (\<not> (lot_kind l \<noteq> Derivative \<or> day < acquisition_ordinal l))
       (unsupported [Txt (''termination `'' @ lot @ ''` must terminate a held derivative lot'')])
    (and_then (exec_within x day ''termination'') (\<lambda>_.
     require (\<not> (term_settlement_ordinal t < day \<or> horizon_end x < term_settlement_ordinal t))
       (malformed (''termination `'' @ lot @ ''` settles before its effective date or beyond the horizon''))
    (and_then (nonnegative (term_fees t) ''termination fees''
        (malformed ''termination fees must be nonnegative'')) (\<lambda>_.
     and_then (exec_agreement x (term_agreement_id t) ''termination'') (\<lambda>a.
     require (lot \<in> set (agreement_lot_ids a))
       (mapping (''agreement `'' @ term_agreement_id t @ ''` does not scope lot `'' @ lot @ ''`''))
    (and_then (resolved x lot day (''termination `'' @ lot
        @ ''` has no native valuation at its effective date'')) (\<lambda>v.
     and_then (case term_consideration t of
         ModelCleanValue \<Rightarrow> money (clean_value v) ''termination clean value''
       | ExecutionQuote amount _ \<Rightarrow> money amount ''execution quote'') (\<lambda>cons.
     and_then (money (due_cash v) ''contractual cash due'') (\<lambda>due. let
       ident = name (term_instruction_id t) (''terminate:'' @ lot);
       settle_id = ''terminate_settle:'' @ lot in
     and_then (push (event ident day PHASE_DERIVATIVE (term_depends_on t) (term_state t)
        (TerminationEffective t l cons due)) q) (\<lambda>q.
     and_then (push (event settle_id (term_settlement_ordinal t) PHASE_DERIVATIVE [ident]
        InstructionPending (TerminationSettle t a)) q)
       (queue_vm_return x t a settle_id)))))))))))))"

section \<open>Facilities\<close>

definition queue_draw :: "Execution \<Rightarrow> queue \<Rightarrow> FacilityDraw \<Rightarrow> (Refusal, queue) result" where
  "queue_draw x q d = (let ident = draw_facility_id d; day = draw_ordinal d in
     and_then (exec_facility x ident ''draw'') (\<lambda>f.
     and_then (exec_within x day ''facility draw'') (\<lambda>_.
     and_then (money (draw_amount d) ''draw amount'') (\<lambda>v.
     require (\<not> (v \<le> 0 \<or> expiry_ordinal f < day))
       (malformed (''draw on `'' @ ident @ ''` needs a positive amount before expiry''))
       (push (event (name (draw_instruction_id d) (''draw:'' @ ident @ '':'' @ int_text day)) day
          PHASE_ADVANCE (draw_depends_on d) (draw_state d) (Draw d f)) q)))))"

definition queue_frepay :: "Execution \<Rightarrow> queue \<Rightarrow> FacilityRepayment \<Rightarrow> (Refusal, queue) result" where
  "queue_frepay x q rp = (let ident = frepay_facility_id rp; day = frepay_ordinal rp in
     and_then (exec_facility x ident ''repayment'') (\<lambda>f.
     and_then (exec_within x day ''facility repayment'') (\<lambda>_.
     and_then (money (frepay_amount rp) ''repayment amount'') (\<lambda>v.
     require (\<not> v \<le> 0) (malformed ''facility repayment needs a positive amount'')
       (push (event (name (frepay_instruction_id rp) (''facility_repay:'' @ ident @ '':'' @ int_text day))
          day PHASE_FACILITY_REPAY (frepay_depends_on rp) (frepay_state rp) (FacilityRepay rp f)) q)))))"

section \<open>Initial margin\<close>

definition queue_im :: "Execution \<Rightarrow> queue \<Rightarrow> SuppliedInitialMargin \<Rightarrow> (Refusal, queue) result" where
  "queue_im x q im = (let ident = im_agreement_id im; day = im_ordinal im in
     and_then (exec_agreement x ident ''initial margin'') (\<lambda>a.
     require (initial_margin a = SuppliedRequirements)
       (unsupported [Txt (''agreement `'' @ ident @ ''` does not select supplied IM requirements'')])
    (let e = malformed ''initial margin requirements must be nonnegative'' in
     and_then (nonnegative (posted_requirement im) ''posted IM'' e) (\<lambda>_.
     and_then (nonnegative (received_requirement im) ''received IM'' e) (\<lambda>_.
     require (\<not> (segregation a \<noteq> Segregated \<and> 0 < received_requirement im))
       (unsupported [Txt ''received initial margin is custody memo only under a segregated agreement''])
    (require (\<not> (im_scenario_id im \<noteq> acq_scenario_id (exec_request x) \<or> day \<le> asof x \<or> horizon_end x < day))
       (refusal_new MARGIN_REFRESH_REQUIRED [Txt (''initial margin for `'' @ ident
          @ ''` is not bound to this scenario and horizon'')])
       (push (event (''im:'' @ ident @ '':'' @ int_text day) day PHASE_IM [] InstructionPending
          (Im im a)) q)))))))"

type_synonym margin_dates = "(string \<times> i32) set"

definition queue_dynamic :: "Execution \<Rightarrow> margin_dates \<times> queue \<Rightarrow> DynamicMargin
    \<Rightarrow> (Refusal, margin_dates \<times> queue) result" where
  "queue_dynamic x = (\<lambda>(dates, q) dm. let ident = dynamic_agreement_id dm; day = dynamic_ordinal dm in
     and_then (exec_agreement x ident ''dynamic margin'') (\<lambda>a.
     require (initial_margin a = ResearchSensitivity)
       (unsupported [Txt (''agreement `'' @ ident
          @ ''` does not select the research sensitivity IM method'')])
    (and_then (exec_within x day ''dynamic margin'') (\<lambda>_.
     require ((ident, day) \<notin> dates)
       (refusal_new DUPLICATE_IDENTITY [Txt (''agreement `'' @ ident @ ''` recomputes IM twice on ''), Itg day])
    (and_then (push (event (''dynamic_im:'' @ ident @ '':'' @ int_text day) day PHASE_IM []
        InstructionPending (DynamicIm a)) q) (\<lambda>q.
     Ok (insert (ident, day) dates, q)))))))"

section \<open>Population changes of the margin agreements\<close>

definition opening_lots :: "Execution \<Rightarrow> PositionLot list" where
  "opening_lots x = filter (\<lambda>l. lot_account_id l = exec_account x \<and> acquisition_ordinal l \<le> asof x)
     (lots (exec_plan x))"

definition population_changes :: "AcquisitionRequest \<Rightarrow> (string \<times> i32) list" where
  "population_changes q = sort (remdups
     (map (\<lambda>h. (entry_agreement_id h, entry_ordinal h)) (hedge_entries q)
      @ map (\<lambda>t. (term_agreement_id t, term_effective_ordinal t)) (terminations q)))"

text \<open>The lots of an agreement live at the end of a date, as the plan and the instructions say.\<close>

definition planned_live :: "Execution \<Rightarrow> MarginAgreement \<Rightarrow> string \<Rightarrow> i32 \<Rightarrow> string set" where
  "planned_live x a ident ordinal =
     (set (filter (\<lambda>l. l \<in> set (map lot_id (opening_lots x))) (agreement_lot_ids a))
      \<union> set (map entry_lot_id (filter (\<lambda>h. entry_agreement_id h = ident \<and> entry_ordinal h \<le> ordinal)
          (hedge_entries (exec_request x)))))
     - set (map term_lot_id (filter (\<lambda>t. term_agreement_id t = ident \<and> term_effective_ordinal t \<le> ordinal)
          (terminations (exec_request x))))"

definition requirement_bound :: "Execution \<Rightarrow> string \<Rightarrow> i32 \<Rightarrow> string set \<Rightarrow> bool" where
  "requirement_bound x ident ordinal live = list_ex (\<lambda>im. im_agreement_id im = ident
     \<and> im_ordinal im = ordinal \<and> set (portfolio_lot_ids im) = live) (supplied_margin (exec_request x))"

definition queue_im_return :: "Execution \<Rightarrow> MarginAgreement \<Rightarrow> string \<Rightarrow> i32 \<Rightarrow> queue
    \<Rightarrow> (Refusal, queue) result" where
  "queue_im_return x a ident ordinal q = (let
     ts = filter (\<lambda>t. term_agreement_id t = ident) (terminations (exec_request x));
     latest = (case map term_settlement_ordinal ts of [] \<Rightarrow> ordinal | d # ds \<Rightarrow> foldl max d ds) in
     and_then (i32_add latest (i32_of_u32 (settlement_lag_days a))) (\<lambda>day.
     if day \<le> horizon_end x then
       push (event (''im_return:'' @ ident @ '':'' @ int_text ordinal) day PHASE_IM
         (map (\<lambda>t. ''terminate_settle:'' @ term_lot_id t) ts) InstructionPending (ImReturn a)) q
     else Ok q))"

definition queue_change :: "Execution \<Rightarrow> margin_dates \<Rightarrow> queue \<Rightarrow> string \<times> i32 \<Rightarrow> (Refusal, queue) result" where
  "queue_change x dates q = (\<lambda>(ident, ordinal).
     and_then (unwrap (last_by agreement_id (margin_agreements (exec_plan x)) ident)) (\<lambda>a.
     if initial_margin a = ResearchSensitivity then
       require ((ident, ordinal) \<in> dates)
         (refusal_new MARGIN_REFRESH_REQUIRED [Txt (''agreement `'' @ ident @ ''` changes population on ''),
            Itg ordinal, Txt '': a research-method IM recomputation on that date is required''])
         (Ok q)
     else if initial_margin a \<noteq> SuppliedRequirements then Ok q
     else let live = planned_live x a ident ordinal in
       require (requirement_bound x ident ordinal live)
         (refusal_new MARGIN_REFRESH_REQUIRED [Txt (''agreement `'' @ ident @ ''` changes population on ''),
            Itg ordinal, Txt '': a supplied IM requirement bound to the exact live portfolio, scenario and date is required; proportional release is never assumed''])
         (if live = {} then queue_im_return x a ident ordinal q else Ok q)))"

section \<open>Settlement order\<close>

definition event_key :: "Event \<Rightarrow> i32 \<times> nat" where
  "event_key e = (event_ordinal e, event_phase e)"

definition settlement_index :: "Event list \<Rightarrow> string \<Rightarrow> nat option" where
  "settlement_index es ident = map_option fst (last_by (event_id \<circ> snd) (enumerate 0 es) ident)"

definition dependencies_precede :: "Event list \<Rightarrow> (Refusal, unit) result" where
  "dependencies_precede es = for_each (enumerate 0 es) (\<lambda>(i, e). checks [
     guard (\<not> MAX_DEPENDENCIES < length (event_depends_on e))
       (refusal_new BOUND_EXCEEDED [Txt (''`'' @ event_id e @ ''` has too many dependencies'')]),
     for_each (event_depends_on e) (\<lambda>d. case settlement_index es d of
         None \<Rightarrow> Err (mapping (''`'' @ event_id e @ ''` depends on unknown instruction `'' @ d @ ''`''))
       | Some j \<Rightarrow> guard (\<not> i \<le> j) (refusal_new SETTLEMENT_ORDER [Txt (''`'' @ event_id e
            @ ''` depends on `'' @ d @ ''`, which is not earlier in the settlement order'')]))])"

definition queued_events :: "Execution \<Rightarrow> (Refusal, queue) result" where
  "queued_events x = (let q = exec_request x in
     and_then (fold_res (queue_purchase x) ({}, []) (purchases q)) (\<lambda>s.
     and_then (fold_res (queue_sale x) s (sales q)) (\<lambda>s.
     and_then (fold_res (queue_financing x) s (financings q)) (\<lambda>s.
     and_then (fold_res (queue_repayment x) s (repayments q)) (\<lambda>s.
     and_then (fold_res (queue_entry x) s (hedge_entries q)) (\<lambda>s.
     and_then (fold_res (queue_termination x) s (terminations q)) (\<lambda>s.
     and_then (fold_res (queue_draw x) s (facility_draws q)) (\<lambda>s.
     and_then (fold_res (queue_frepay x) s (facility_repayments q)) (\<lambda>s.
     and_then (fold_res (queue_im x) s (supplied_margin q)) (\<lambda>s.
     and_then (fold_res (queue_dynamic x) ({}, s) (dynamic_margin q)) (\<lambda>(dates, s).
     fold_res (queue_change x dates) s (population_changes q))))))))))))"

text \<open>The account and the events in settlement order.\<close>

definition admit_execution :: "Execution \<Rightarrow> (Refusal, OpeningAccount \<times> Event list) result" where
  "admit_execution x =
     and_then (ok_or (find (\<lambda>a. account_id a = exec_account x) (accounts (exec_plan x)))
       (mapping (''unknown account `'' @ exec_account x @ ''`''))) (\<lambda>account.
     and_then (execution_bounds x) (\<lambda>_.
     and_then (formal_untouched x) (\<lambda>_.
     and_then (queued_events x) (\<lambda>(_, queued). let es = sort_key event_key queued in
     and_then (dependencies_precede es) (\<lambda>_. Ok (account, es))))))"

end
