(* ===== verification/Float_Sqrt.thy ===== *)
theory Float_Sqrt
  imports Float64
begin

text \<open>
  \<open>f64::sqrt\<close>: IEEE 754 requires the correctly rounded square root. The mantissa is scaled by
  \<open>2 ^ 108\<close>, its integer root \<open>r\<close> has at least 55 bits, and the rounding of \<open>2 * r\<close>, or of
  \<open>2 * r + 1\<close> when the root is not exact, is the rounding of the root.
\<close>

definition root_digit :: "int \<Rightarrow> int \<Rightarrow> int" where
  "root_digit n q = (if (2 * q + 1) * (2 * q + 1) \<le> n then 2 * q + 1 else 2 * q)"

function isqrt :: "int \<Rightarrow> int" where
  "isqrt n = (if n \<le> 0 then 0 else root_digit n (isqrt (n div 4)))"
  by pat_completeness auto
termination
  by (relation "measure nat") auto

declare isqrt.simps [simp del]

lemma isqrt_bounds: "0 \<le> n \<Longrightarrow> 0 \<le> isqrt n \<and> isqrt n * isqrt n \<le> n \<and> n < (isqrt n + 1) * (isqrt n + 1)"
proof (induction n rule: isqrt.induct)
  case (1 n)
  show ?case
  proof (cases "n = 0")
    case True
    then show ?thesis by (simp add: isqrt.simps)
  next
    case False
    with "1.prems" have n: "\<not> n \<le> 0" by simp
    let ?q = "isqrt (n div 4)"
    have IH: "0 \<le> ?q" "?q * ?q \<le> n div 4" "n div 4 < (?q + 1) * (?q + 1)"
      using "1.IH" n by auto
    have lo: "2 * ?q * (2 * ?q) \<le> n" using IH(2) by (simp add: algebra_simps)
    have "n div 4 + 1 \<le> (?q + 1) * (?q + 1)" using IH(3) by linarith
    then have "4 * (n div 4) + 4 \<le> 4 * ((?q + 1) * (?q + 1))" by linarith
    then have hi: "n < (2 * ?q + 2) * (2 * ?q + 2)" by (simp add: algebra_simps)
    show ?thesis
    proof (cases "(2 * ?q + 1) * (2 * ?q + 1) \<le> n")
      case True
      then have "isqrt n = 2 * ?q + 1" using n by (subst isqrt.simps) (simp add: root_digit_def)
      with True IH(1) hi show ?thesis by (simp add: algebra_simps)
    next
      case False
      then have "isqrt n = 2 * ?q" using n by (subst isqrt.simps) (simp add: root_digit_def)
      with False IH(1) lo show ?thesis by simp
    qed
  qed
qed

definition root_bits :: "int \<Rightarrow> int" where
  "root_bits n = (let r = isqrt n in if r * r = n then 2 * r else 2 * r + 1)"

fun fsqrt :: "f64 \<Rightarrow> f64" where
  "fsqrt (Fin s m e) =
     (if m = 0 then Fin s m e
      else if s then NaN
      else let (m, e) = (if even e then (m, e) else (2 * m, e - 1)) in
        round_z False (root_bits (m * 2 ^ 108)) (e div 2 - 55))"
| "fsqrt (Inf s) = (if s then NaN else Inf s)"
| "fsqrt NaN = NaN"

text \<open>The scaled root is within one unit of the real one.\<close>

lemma root_bits_bounds:
  assumes "0 \<le> n"
  shows "root_bits n - 1 \<le> 2 * sqrt (of_int n) \<and> 2 * sqrt (of_int n) \<le> root_bits n + 1"
proof -
  let ?r = "isqrt n"
  have b: "0 \<le> ?r" "?r * ?r \<le> n" "n < (?r + 1) * (?r + 1)" using isqrt_bounds [OF assms] by auto
  have "real_of_int (?r * ?r) \<le> of_int n" using b(2) by (simp only: of_int_le_iff)
  then have "of_int ?r \<le> sqrt (of_int n)" using b(1) by (intro real_le_rsqrt) (simp add: power2_eq_square)
  moreover have "real_of_int n \<le> of_int ((?r + 1) * (?r + 1))" using b(3) by (simp only: of_int_le_iff)
  then have "sqrt (of_int n) \<le> of_int ?r + 1"
    using b(1) by (intro real_le_lsqrt) (simp_all add: power2_eq_square)
  moreover have "?r * ?r = n \<Longrightarrow> sqrt (of_int n) = of_int ?r"
    using b(1) by (metis abs_of_nonneg of_int_0_le_iff of_int_mult real_sqrt_abs2)
  ultimately show ?thesis by (auto simp: root_bits_def Let_def)
qed

text \<open>A root is never negative, and a finite root of a nonnegative number is a double.\<close>

lemma fsqrt_zero [simp]: "fsqrt 0 = 0"
  by (simp add: zero_f64_def)

lemma fsqrt_ok: "f64_ok x \<Longrightarrow> f64_ok (fsqrt x)"
proof (cases x)
  case (Fin s m e)
  then show "f64_ok x \<Longrightarrow> ?thesis"
    using rounds_to_ok [OF round_z_rounds] by (auto simp: Let_def split: prod.splits)
qed simp_all

end
