(* ===== verification/Acquisition_Replay.thy ===== *)
theory Acquisition_Replay
  imports Acquisition_Events Float_Sqrt
begin

text \<open>
  The second half of \<open>replay_with_margin\<close>, \<open>lifecycle/acquisition.rs\<close>: the opening of the book,
  the day loop with the policy actions of its start and end, one definition per arm of the match
  on an event's body, and the conservation receipt. The local variables of the function are the
  record \<open>Run\<close>; the index \<open>cursor\<close> into the sorted events is the list of those not yet
  reached, and \<open>derivative_carrying\<close>, which is never iterated, an ordered map. \<open>sequence\<close>
  counts events and policy actions and stays far below \<open>2 ^ 32\<close>.
\<close>

section \<open>State\<close>

record Run =
  book :: Book
  sequence_no :: nat
  derivative_carrying :: "(string \<times> f64) list"
  fees_total :: f64
  realized_total :: f64
  vm_posted :: f64
  vm_received :: f64
  im_posted :: f64
  im_received :: f64
  facts :: "AccountingFact list"
  settled :: "string set"
  receipts :: "EventReceipt list"
  steps :: "LiquidityStep list"
  margin_calls :: "MarginCall list"
  closings :: "Closing list"
  pending :: "Event list"

definition run_post :: "Event \<Rightarrow> posting list \<Rightarrow> Run \<Rightarrow> (Refusal, Run) result" where
  "run_post e ps st =
     and_then (post (event_id e) (event_ordinal e) (event_phase e) (sequence_no st) ps (book st))
       (\<lambda>b. Ok (st \<lparr> book := b \<rparr>))"

text \<open>The second posting of an initial-margin event, under its own sequence number.\<close>

definition run_post_custody :: "Event \<Rightarrow> posting list \<Rightarrow> Run \<Rightarrow> (Refusal, Run) result" where
  "run_post_custody e ps st = (let st = st \<lparr> sequence_no := sequence_no st + 1 \<rparr> in
     and_then (post (event_id e @ '':custody'') (event_ordinal e) (event_phase e) (sequence_no st) ps (book st))
       (\<lambda>b. Ok (st \<lparr> book := b \<rparr>)))"

definition segregated :: "MarginAgreement \<Rightarrow> bool" where
  "segregated a \<longleftrightarrow> segregation a = Segregated"

definition restrict_cash :: "MarginAgreement \<Rightarrow> f64 \<Rightarrow> Run \<Rightarrow> Run" where
  "restrict_cash a x st = (if segregated a
     then st \<lparr> book := (book st) \<lparr> book_restricted := book_restricted (book st) + x \<rparr> \<rparr> else st)"

section \<open>Funding and facilities\<close>

definition exec_advance :: "Event \<Rightarrow> FinancingAdvance \<Rightarrow> PositionLot \<Rightarrow> Run \<Rightarrow> (Refusal, Run) result" where
  "exec_advance e f l = run_post e
     [(Cash, [], advance_principal f), (FundingPrincipal, lot_id l, - advance_principal f)]"

definition exec_draw :: "Event \<Rightarrow> FacilityDraw \<Rightarrow> Facility \<Rightarrow> Run \<Rightarrow> (Refusal, Run) result" where
  "exec_draw e d f st =
     and_then (facility (book st) (facility_id f)) (\<lambda>s. let used = fs_drawn s in
     require (\<not> commitment f - used + nano * fmax (commitment f) 1 < draw_amount d)
       (refusal_new INSUFFICIENT_SETTLEMENT_LIQUIDITY [Txt (''`'' @ event_id e @ ''` exceeds facility `''
          @ facility_id f @ ''` headroom ''), Flt (commitment f - used)])
    (and_then (facility_mut (facility_id f) (\<lambda>s. s \<lparr> fs_drawn := fs_drawn s + draw_amount d \<rparr>) (book st))
      (\<lambda>b. run_post e [(Cash, [], draw_amount d), (FundingPrincipal, facility_id f, - draw_amount d)]
         (st \<lparr> book := b \<rparr>))))"

definition exec_frepay :: "Event \<Rightarrow> FacilityRepayment \<Rightarrow> Facility \<Rightarrow> Run \<Rightarrow> (Refusal, Run) result" where
  "exec_frepay e rp f st =
     and_then (facility (book st) (facility_id f)) (\<lambda>s.
     require (\<not> fs_drawn s + nano < frepay_amount rp)
       (refusal_new OVERALLOCATION [Txt (''`'' @ event_id e @ ''` repays more than facility `''
          @ facility_id f @ ''` has drawn'')])
    (and_then (facility_mut (facility_id f) (\<lambda>s. s \<lparr> fs_drawn := fs_drawn s - frepay_amount rp \<rparr>) (book st))
      (\<lambda>b. run_post e [(FundingPrincipal, facility_id f, frepay_amount rp), (Cash, [], - frepay_amount rp)]
         (st \<lparr> book := b \<rparr>))))"

definition exec_repayment :: "Event \<Rightarrow> FundingRepayment \<Rightarrow> PositionLot \<Rightarrow> Run \<Rightarrow> (Refusal, Run) result" where
  "exec_repayment e rp l st = (let outstanding = - balance (book st) FundingPrincipal (lot_id l) in
     require (\<not> outstanding + nano < repay_principal rp)
       (refusal_new OVERALLOCATION [Txt (''`'' @ event_id e @ ''` repays more than funding lot `''
          @ lot_id l @ ''` has outstanding'')])
    (and_then (run_post e
        [(FundingPrincipal, lot_id l, repay_principal rp),
         (InterestExpense, lot_id l, repay_accrued_interest rp),
         (FeeExpense, lot_id l, break_cost rp),
         (Cash, [], - (repay_principal rp + repay_accrued_interest rp + break_cost rp))] st)
      (\<lambda>st. Ok (st \<lparr> fees_total := fees_total st + break_cost rp \<rparr>))))"

section \<open>Securities and pledges\<close>

definition exec_release :: "Event \<Rightarrow> Pledge \<Rightarrow> f64 \<Rightarrow> Run \<Rightarrow> (Refusal, Run) result" where
  "exec_release e p quantity st = (let b = book st in
     and_then (ok_or (map_of (book_pledge_left b) (pledge_id p))
       (mapping (''pledge `'' @ pledge_id p @ ''` was never delivered''))) (\<lambda>left.
     require (\<not> left + nano < quantity)
       (refusal_new INVENTORY_UNAVAILABLE [Txt (''`'' @ event_id e @ ''` releases more than pledge `''
          @ pledge_id p @ ''` holds'')])
       (Ok (st \<lparr> book := b \<lparr> book_pledge_left := om_put (pledge_id p) (left - quantity) (book_pledge_left b),
                             book_pledged := om_add (pledge_lot_id p) (- quantity) (book_pledged b) \<rparr> \<rparr>))))"

definition exec_purchase :: "Event \<Rightarrow> SecurityPurchase \<Rightarrow> PositionLot \<Rightarrow> f64 \<Rightarrow> f64 \<Rightarrow> Run
    \<Rightarrow> (Refusal, Run) result" where
  "exec_purchase e p l cost accrued st =
     and_then (run_post e
        [(AssetPrincipal, lot_id l, lot_quantity l),
         (BookAdjustment, lot_id l, cost - lot_quantity l),
         (InterestReceivable, lot_id l, accrued),
         (FeeExpense, lot_id l, purchase_fees p),
         (Cash, [], - (cost + accrued + purchase_fees p))] st) (\<lambda>st. let b = book st in
     Ok (st \<lparr> fees_total := fees_total st + purchase_fees p,
              book := b \<lparr> book_owned := om_add (lot_id l) (lot_quantity l) (book_owned b) \<rparr> \<rparr>))"

definition allocations_of :: "Execution \<Rightarrow> string \<Rightarrow> string list \<times> string list" where
  "allocations_of x lot = (let hs = filter (\<lambda>h. exposure_lot_id h = lot \<or> hedge_lot_id h = lot)
       (hedge_allocations (exec_plan x)) in
     (map hedge_allocation_id hs, List.map_filter formal_relationship_id hs))"

definition exec_sale :: "Execution \<Rightarrow> Event \<Rightarrow> SecuritySale \<Rightarrow> PositionLot \<Rightarrow> f64 \<Rightarrow> f64 \<Rightarrow> Run
    \<Rightarrow> (Refusal, Run) result" where
  "exec_sale x e s l cons accrued st = (let b = book st;
     own = om_or (book_owned b) (lot_id l); avail = book_available b l in
     require (\<not> avail + nano * fmax (lot_quantity l) 1 < sale_quantity s)
       (refusal_new INVENTORY_UNAVAILABLE [Txt (''`'' @ event_id e @ ''` delivers ''), Flt (sale_quantity s),
          Txt ('' of lot `'' @ lot_id l @ ''` but only ''), Flt avail,
          Txt '' is owned, released and unencumbered''])
    (let share = sale_quantity s / own;
       principal = balance b AssetPrincipal (lot_id l) * share;
       adjustment = balance b BookAdjustment (lot_id l) * share;
       receivable = balance b InterestReceivable (lot_id l) * share;
       removed = principal + adjustment;
       gain = cons - removed in
     and_then (run_post e
        [(Cash, [], cons + accrued - sale_fees s),
         (AssetPrincipal, lot_id l, - principal),
         (BookAdjustment, lot_id l, - adjustment),
         (InterestReceivable, lot_id l, - receivable),
         (InterestExpense, lot_id l, receivable - accrued),
         (FeeExpense, lot_id l, sale_fees s),
         (RealizedGainLoss, lot_id l, - gain)] st) (\<lambda>st. let b = book st; linked = allocations_of x (lot_id l) in
     Ok (st \<lparr> fees_total := fees_total st + sale_fees s, realized_total := realized_total st + gain,
              book := b \<lparr> book_owned := om_add (lot_id l) (- sale_quantity s) (book_owned b) \<rparr>,
              facts := facts st @ [\<lparr> fact_kind = (if near (sale_quantity s) own then ''sale'' else ''partial_sale''),
                fact_lot_id = lot_id l, fact_quantity = sale_quantity s,
                retained_quantity = own - sale_quantity s,
                fact_effective_ordinal = sale_trade_ordinal s,
                fact_settlement_ordinal = sale_settlement_ordinal s,
                consideration = cons, removed_carrying = removed, fact_realized = gain,
                economic_allocation_ids = fst linked, formal_relationship_ids = snd linked \<rparr>] \<rparr>))))"

definition exec_delivery :: "Execution \<Rightarrow> Event \<Rightarrow> Pledge \<Rightarrow> Run \<Rightarrow> (Refusal, Run) result" where
  "exec_delivery x e p st = (let b = book st in
     and_then (unwrap (last_by lot_id (lots (exec_plan x)) (pledge_lot_id p))) (\<lambda>l. let
       avail = book_available b l in
     require (\<not> avail + nano * fmax (lot_quantity l) 1 < pledge_quantity p)
       (refusal_new INVENTORY_UNAVAILABLE [Txt (''`'' @ event_id e @ ''` needs ''), Flt (pledge_quantity p),
          Txt ('' of lot `'' @ pledge_lot_id p @ ''` but only ''), Flt avail,
          Txt '' is unencumbered and owned''])
       (Ok (st \<lparr> book := b \<lparr> book_pledged := om_add (pledge_lot_id p) (pledge_quantity p) (book_pledged b),
          book_pledge_left := om_put (pledge_id p) (pledge_quantity p) (book_pledge_left b) \<rparr> \<rparr>))))"

section \<open>Derivatives and variation margin\<close>

definition exec_entry :: "Event \<Rightarrow> HedgeEntry \<Rightarrow> PositionLot \<Rightarrow> f64 \<Rightarrow> Run \<Rightarrow> (Refusal, Run) result" where
  "exec_entry e h l clean st =
     and_then (run_post e
        [(if 0 \<le> clean then DerivativeAsset else DerivativeLiability, lot_id l, clean),
         (Cash, [], - upfront_consideration h)] st) (\<lambda>st.
     Ok (st \<lparr> derivative_carrying := om_put (lot_id l) clean (derivative_carrying st) \<rparr>))"

definition exec_terminate :: "Execution \<Rightarrow> Event \<Rightarrow> DerivativeTermination \<Rightarrow> PositionLot \<Rightarrow> f64 \<Rightarrow> f64
    \<Rightarrow> Run \<Rightarrow> (Refusal, Run) result" where
  "exec_terminate x e t l cons due st =
     and_then (ok_or (map_of (derivative_carrying st) (lot_id l))
       (unsupported [Txt (''`'' @ event_id e @ ''`: lot `'' @ lot_id l @ ''` is not live'')])) (\<lambda>carrying. let
       st = st \<lparr> derivative_carrying := om_del (lot_id l) (derivative_carrying st) \<rparr>;
       claim = cons + due; gain = cons - carrying in
     and_then (run_post e
        [(if 0 \<le> carrying then DerivativeAsset else DerivativeLiability, lot_id l, - carrying),
         (if 0 \<le> claim then UnpaidReceivable else UnpaidPayable, lot_id l, claim),
         (InterestExpense, lot_id l, - due),
         (RealizedGainLoss, lot_id l, - gain)] st) (\<lambda>st. let linked = allocations_of x (lot_id l) in
     Ok (st \<lparr> realized_total := realized_total st + gain,
              facts := facts st @ [\<lparr> fact_kind = ''termination'', fact_lot_id = lot_id l,
                fact_quantity = lot_quantity l, retained_quantity = 0,
                fact_effective_ordinal = term_effective_ordinal t,
                fact_settlement_ordinal = term_settlement_ordinal t,
                consideration = cons, removed_carrying = carrying, fact_realized = gain,
                economic_allocation_ids = fst linked, formal_relationship_ids = snd linked \<rparr>] \<rparr>)))"

definition exec_settle :: "Event \<Rightarrow> DerivativeTermination \<Rightarrow> MarginAgreement \<Rightarrow> Run \<Rightarrow> (Refusal, Run) result" where
  "exec_settle e t a st = (let lot = term_lot_id t; b = book st;
     receivable = balance b UnpaidReceivable lot; payable = balance b UnpaidPayable lot;
     claim = receivable + payable;
     ps = [(if \<not> feq receivable 0 then UnpaidReceivable else UnpaidPayable, lot, - claim),
           (FeeExpense, lot, term_fees t)];
     cash = claim - term_fees t;
     (ps, cash, st) = (if vm_at_termination a = ApplyAgainstConsideration then
         let posted = balance b PostedVm (agreement_id a);
             received = - balance b ReceivedVm (agreement_id a) in
         (ps @ [(PostedVm, agreement_id a, - posted), (ReceivedVm, agreement_id a, received)],
          cash + (posted - received),
          restrict_cash a (- received)
            (st \<lparr> vm_posted := vm_posted st - posted, vm_received := vm_received st - received \<rparr>))
       else (ps, cash, st)) in
     and_then (run_post e (ps @ [(Cash, [], cash)]) st) (\<lambda>st.
     Ok (st \<lparr> fees_total := fees_total st + term_fees t \<rparr>)))"

definition exec_vm_settle :: "Event \<Rightarrow> MarginAgreement \<Rightarrow> f64 \<Rightarrow> Run \<Rightarrow> (Refusal, Run) result" where
  "exec_vm_settle e a call st =
     (if 0 < call then
        and_then (run_post e [(Cash, [], call), (ReceivedVm, agreement_id a, - call)] st) (\<lambda>st.
        Ok (restrict_cash a call (st \<lparr> vm_received := vm_received st + call \<rparr>)))
      else
        and_then (run_post e [(PostedVm, agreement_id a, - call), (Cash, [], call)] st) (\<lambda>st.
        Ok (st \<lparr> vm_posted := vm_posted st - call \<rparr>)))"

definition exec_vm_return :: "Event \<Rightarrow> MarginAgreement \<Rightarrow> Run \<Rightarrow> (Refusal, Run) result" where
  "exec_vm_return e a st = (let
     posted = balance (book st) PostedVm (agreement_id a);
     received = - balance (book st) ReceivedVm (agreement_id a) in
     and_then (run_post e [(Cash, [], posted - received), (PostedVm, agreement_id a, - posted),
        (ReceivedVm, agreement_id a, received)] st) (\<lambda>st.
     Ok (restrict_cash a (- received)
       (st \<lparr> vm_posted := vm_posted st - posted, vm_received := vm_received st - received \<rparr>))))"

section \<open>Initial margin\<close>

definition exec_im_return :: "Event \<Rightarrow> MarginAgreement \<Rightarrow> Run \<Rightarrow> (Refusal, Run) result" where
  "exec_im_return e a st = (let
     posted = balance (book st) PostedIm (agreement_id a);
     cust = balance (book st) CustodyAsset (agreement_id a) in
     and_then (run_post e [(Cash, [], posted), (PostedIm, agreement_id a, - posted)] st) (\<lambda>st. let
       st = st \<lparr> im_posted := im_posted st - posted \<rparr> in
     if feq cust 0 then Ok st
     else and_then (run_post_custody e [(CustodyAsset, agreement_id a, - cust),
            (CustodyObligation, agreement_id a, cust)] st) (\<lambda>st.
       Ok (st \<lparr> im_received := im_received st - cust \<rparr>))))"

text \<open>Posting \<open>v\<close> of initial margin, and taking \<open>v\<close> of it into custody.\<close>

definition margin_posted_by :: "Event \<Rightarrow> MarginAgreement \<Rightarrow> f64 \<Rightarrow> Run \<Rightarrow> (Refusal, Run) result" where
  "margin_posted_by e a v st =
     and_then (run_post e [(PostedIm, agreement_id a, v), (Cash, [], - v)] st) (\<lambda>st.
     Ok (st \<lparr> im_posted := im_posted st + v \<rparr>))"

definition margin_received_by :: "Event \<Rightarrow> MarginAgreement \<Rightarrow> f64 \<Rightarrow> Run \<Rightarrow> (Refusal, Run) result" where
  "margin_received_by e a v st =
     and_then (run_post_custody e [(CustodyAsset, agreement_id a, v), (CustodyObligation, agreement_id a, - v)] st)
       (\<lambda>st. Ok (st \<lparr> im_received := im_received st + v \<rparr>))"

definition exec_im :: "Event \<Rightarrow> SuppliedInitialMargin \<Rightarrow> MarginAgreement \<Rightarrow> Run \<Rightarrow> (Refusal, Run) result" where
  "exec_im e im a st = (let p = posted_requirement im; c = received_requirement im in
     and_then (if 0 < p then margin_posted_by e a p st else Ok st)
       (\<lambda>st. if 0 < c then margin_received_by e a c st else Ok st))"

definition add_sensitivity :: "Execution \<Rightarrow> Event \<Rightarrow> nat \<Rightarrow> f64 list \<Rightarrow> string \<Rightarrow> (Refusal, f64 list) result" where
  "add_sensitivity x e n s lot =
     (case find (\<lambda>v. sensitivity_lot_id v = lot \<and> sensitivity_ordinal v = event_ordinal e)
         (exec_sensitivities x) of
       Some v \<Rightarrow>
         if length (buckets v) = n then Ok (map2 (+) s (buckets v))
         else Err (refusal_new MARGIN_REFRESH_REQUIRED [Txt (''`'' @ event_id e @ ''`: live lot `'' @ lot
           @ ''` has no native sensitivity on ''), Itg (event_ordinal e)])
     | None \<Rightarrow> Err (refusal_new MARGIN_REFRESH_REQUIRED [Txt (''`'' @ event_id e @ ''`: live lot `'' @ lot
           @ ''` has no native sensitivity on ''), Itg (event_ordinal e)]))"

definition quadratic_term :: "MarginMethod \<Rightarrow> f64 list \<Rightarrow> f64 \<Rightarrow> nat \<times> nat \<Rightarrow> (Refusal, f64) result" where
  "quadratic_term m s q = (\<lambda>(b, c).
     and_then (nth_checked (risk_weights m) b) (\<lambda>wb. and_then (nth_checked s b) (\<lambda>sb.
     and_then (nth_checked (correlations m) b) (\<lambda>row. and_then (nth_checked row c) (\<lambda>r.
     and_then (nth_checked (risk_weights m) c) (\<lambda>wc. and_then (nth_checked s c) (\<lambda>sc.
     Ok (q + wb * sb * r * wc * sc))))))))"

definition margin_requirement :: "MarginMethod \<Rightarrow> f64 list \<Rightarrow> (Refusal, f64) result" where
  "margin_requirement m s = (let n = length (bucket_upper_days m) in
     and_then (fold_res (quadratic_term m s) 0 (List.product [0..<n] [0..<n]))
       (\<lambda>q. Ok (unsigned (fsqrt (fmax q 0)))))"

definition live_lots :: "MarginAgreement \<Rightarrow> Run \<Rightarrow> string list" where
  "live_lots a st = filter (\<lambda>l. map_of (derivative_carrying st) l \<noteq> None) (agreement_lot_ids a)"

definition exec_dynamic :: "Execution \<Rightarrow> Event \<Rightarrow> MarginAgreement \<Rightarrow> Run \<Rightarrow> (Refusal, Run) result" where
  "exec_dynamic x e a st =
     and_then (unwrap (margin_method a)) (\<lambda>m. let n = length (bucket_upper_days m); live = live_lots a st in
     and_then (fold_res (add_sensitivity x e n) (replicate n 0) live) (\<lambda>s.
     and_then (margin_requirement m s) (\<lambda>req. let target = (if two_way m then req else 0) in
     require (\<not> (0 < target \<and> \<not> segregated a))
       (unsupported [Txt (''`'' @ event_id e @ ''`: two-way IM is received only into segregated custody'')])
    (let pc = req - balance (book st) PostedIm (agreement_id a) in
     and_then (if \<not> feq pc 0 then margin_posted_by e a pc st else Ok st) (\<lambda>st. let
       rc = target - balance (book st) CustodyAsset (agreement_id a) in
     and_then (if \<not> feq rc 0 then margin_received_by e a rc st else Ok st) (\<lambda>st.
     Ok (st \<lparr> margin_calls := margin_calls st @ [\<lparr> call_event_id = event_id e,
        call_agreement_id = agreement_id a, call_ordinal = event_ordinal e, live_lot_ids = live,
        call_sensitivities = map unsigned s, requirement = req,
        posted_change = unsigned pc, received_change = unsigned rc \<rparr>] \<rparr>)))))))"

section \<open>One event\<close>

definition exec_body :: "Execution \<Rightarrow> Event \<Rightarrow> Run \<Rightarrow> (Refusal, Run) result" where
  "exec_body x e = (case event_body e of
     Advance f l \<Rightarrow> exec_advance e f l
   | Draw d f \<Rightarrow> exec_draw e d f
   | FacilityRepay rp f \<Rightarrow> exec_frepay e rp f
   | Repayment rp l \<Rightarrow> exec_repayment e rp l
   | Release p q \<Rightarrow> exec_release e p q
   | Purchase p l cost accrued \<Rightarrow> exec_purchase e p l cost accrued
   | Sale s l cons accrued \<Rightarrow> exec_sale x e s l cons accrued
   | PledgeDelivery p \<Rightarrow> exec_delivery x e p
   | Entry h l clean \<Rightarrow> exec_entry e h l clean
   | TerminationEffective t l cons due \<Rightarrow> exec_terminate x e t l cons due
   | TerminationSettle t a \<Rightarrow> exec_settle e t a
   | VmSettle a call \<Rightarrow> exec_vm_settle e a call
   | VmReturn a \<Rightarrow> exec_vm_return e a
   | ImReturn a \<Rightarrow> exec_im_return e a
   | DynamicIm a \<Rightarrow> exec_dynamic x e a
   | Im im a \<Rightarrow> exec_im e im a)"

text \<open>\<open>for (receipt, step) in book.policy_log.drain(..)\<close>.\<close>

definition drain_log :: "Run \<Rightarrow> Run" where
  "drain_log st = (let lg = policy_log (book st) in
     st \<lparr> receipts := receipts st @ map fst lg, steps := steps st @ map snd lg,
          book := (book st) \<lparr> policy_log := [] \<rparr> \<rparr>)"

definition draws_before :: "i32 \<Rightarrow> LiquidityStep list \<Rightarrow> f64" where
  "draws_before ordinal ss = fsum (map cash_movement
     (takeWhile (\<lambda>s. take 12 (step_event_id s) = ''policy_draw:'' \<and> step_ordinal s = ordinal) (rev ss)))"

definition settle_event :: "Execution \<Rightarrow> Event \<Rightarrow> Run \<Rightarrow> (Refusal, EventStatus \<times> Run) result" where
  "settle_event x e st =
     (if event_state e = InstructionFailed then Ok (EventFailed, st)
      else if \<not> list_all (\<lambda>d. d \<in> settled st) (event_depends_on e) then Ok (EventBlocked, st)
      else and_then (exec_body x e st) (\<lambda>st.
        Ok (EventSettled, st \<lparr> settled := insert (event_id e) (settled st) \<rparr>)))"

definition report_event :: "Event \<Rightarrow> f64 \<Rightarrow> EventStatus \<Rightarrow> Run \<Rightarrow> Run" where
  "report_event e cash_before status st = (let
     st = drain_log st;
     st = st \<lparr> receipts := receipts st @ [\<lparr> receipt_event_id = event_id e,
       receipt_ordinal = event_ordinal e, receipt_phase = event_phase e, receipt_status = status \<rparr>] \<rparr>;
     before = cash_before + draws_before (event_ordinal e) (steps st) in
     st \<lparr> steps := steps st @ [liquidity_step (book st) (event_id e) (event_ordinal e) (event_phase e)
        status (event_depends_on e) before] \<rparr>)"

definition take_inventory :: "Run \<Rightarrow> Run" where
  "take_inventory st = st \<lparr> book := (book st) \<lparr> pre := inventory_now (book st) \<rparr> \<rparr>"

definition run_event :: "Execution \<Rightarrow> Run \<Rightarrow> Event \<Rightarrow> (Refusal, Run) result" where
  "run_event x st e = (let
     cash_before = book_cash (book st);
     st = take_inventory st;
     st = st \<lparr> sequence_no := sequence_no st + 1 \<rparr> in
     and_then (settle_event x e st) (\<lambda>(status, st). Ok (report_event e cash_before status st)))"

section \<open>One day\<close>

text \<open>One facility at the start of a day: renewed, repaid or left alone.\<close>

definition start_facility :: "i32 \<Rightarrow> Run \<Rightarrow> string \<Rightarrow> (Refusal, Run) result" where
  "start_facility ordinal st ident =
     and_then (facility (book st) ident) (\<lambda>f.
     if fs_expiry f \<noteq> ordinal then Ok st
     else let st = st \<lparr> sequence_no := sequence_no st + 1 \<rparr>;
         renewable = (case run_renewal_of (book st) ident of None \<Rightarrow> False | Some r \<Rightarrow>
           fs_generation f < max_generations r
           \<and> list_ex (\<lambda>w. window_contains w ordinal) (renewal_windows r)) in
       if renewable then
         and_then (act_renewal ident (fs_drawn f) ''start_of_day'' ordinal 0 (sequence_no st) 0 (book st))
           (\<lambda>b. Ok (st \<lparr> book := b \<rparr>))
       else if pico < fs_drawn f then
         and_then (act_maturity ident (fs_drawn f) ''start_of_day'' ordinal 0 (sequence_no st) 0 (book st))
           (\<lambda>b. Ok (st \<lparr> book := b \<rparr>))
       else Ok st)"

definition start_of_day :: "i32 \<Rightarrow> Run \<Rightarrow> (Refusal, Run) result" where
  "start_of_day ordinal st = (let st = take_inventory st in
     case book_policy (book st) of None \<Rightarrow> Ok st
     | Some p \<Rightarrow> and_then (fold_res (start_facility ordinal) st (facility_order p)) (\<lambda>st. Ok (drain_log st)))"

text \<open>One facility at the end of a day, from the usable cash above the floor.\<close>

definition repay_facility :: "i32 \<Rightarrow> f64 \<Rightarrow> Run \<Rightarrow> string \<Rightarrow> (Refusal, Run) result" where
  "repay_facility ordinal flr st ident = (let
     surplus = book_cash (book st) - restricted_now (book st) - flr in
     and_then (facility (book st) ident) (\<lambda>f. let x = fmin surplus (fs_drawn f) in
     if nano * fmax (fabs flr) 1 < x then
       let st = st \<lparr> sequence_no := sequence_no st + 1 \<rparr> in
       and_then (act_surplus ident x ''end_of_day'' ordinal 10 (sequence_no st) 0 (book st))
         (\<lambda>b. Ok (st \<lparr> book := b \<rparr>))
     else Ok st))"

definition end_of_day :: "i32 \<Rightarrow> Run \<Rightarrow> (Refusal, Run) result" where
  "end_of_day ordinal st = (let st = take_inventory st in
     case book_policy (book st) of None \<Rightarrow> Ok st
     | Some p \<Rightarrow>
         if run_repay_surplus p then
           and_then (fold_res (repay_facility ordinal (cash_floor p)) st (rev (facility_order p)))
             (\<lambda>st. Ok (drain_log st))
         else Ok st)"

definition account_lots :: "Execution \<Rightarrow> PositionLot list" where
  "account_lots x = filter (\<lambda>l. lot_account_id l = exec_account x) (lots (exec_plan x))"

definition run_day :: "Execution \<Rightarrow> Run \<Rightarrow> i32 \<Rightarrow> (Refusal, Run) result" where
  "run_day x st ordinal =
     and_then (start_of_day ordinal st) (\<lambda>st. let
       today = takeWhile (\<lambda>e. event_ordinal e = ordinal) (pending st);
       later = dropWhile (\<lambda>e. event_ordinal e = ordinal) (pending st) in
     and_then (fold_res (run_event x) st today) (\<lambda>st.
     and_then (end_of_day ordinal (st \<lparr> pending := later \<rparr>)) (\<lambda>st.
     Ok (st \<lparr> closings := closings st @ [book_closing (book st) ordinal (account_lots x)] \<rparr>))))"

section \<open>The opening book\<close>

definition policy_run :: "FundingPolicy \<Rightarrow> PolicyRun" where
  "policy_run p = \<lparr> cash_floor = minimum_usable_cash p,
     facility_order = map policy_facility_id (policy_facilities p),
     run_access = om_of (map (\<lambda>f. (policy_facility_id f, access f)) (policy_facilities p)),
     run_renewal = om_of (List.map_filter (\<lambda>f. map_option (\<lambda>r. (policy_facility_id f, r)) (renewal f))
       (policy_facilities p)),
     run_repay_surplus = repay_surplus p, run_count = 0 \<rparr>"

definition empty_book :: "Execution \<Rightarrow> OpeningAccount \<Rightarrow> Book" where
  "empty_book x account = (let r = exec_plan x in
     \<lparr> book_financial = [], book_custody = [], book_cash = account_cash account,
       book_restricted = 0, book_settled = 0,
       book_owned = om_of (map (\<lambda>l. (lot_id l, lot_quantity l))
         (filter (\<lambda>l. lot_kind l = Security) (opening_lots x))),
       book_pledged = [], book_pledge_left = [], book_intents = [],
       book_facilities = map (\<lambda>f. \<lparr> fs_id = facility_id f, fs_commitment = commitment f,
         fs_drawn = drawn f, fs_expiry = expiry_ordinal f, fs_generation = 1 \<rparr>) (facilities r),
       security_lots = map lot_id (filter (\<lambda>l. lot_account_id l = exec_account x \<and> lot_kind l = Security) (lots r)),
       segregated_agreements = map agreement_id (filter segregated (margin_agreements r)),
       book_policy = None, policy_log = [], book_decisions = [], replacements = [], pre = (0, 0, 0) \<rparr>)"

definition arm_policy :: "Execution \<Rightarrow> Book \<Rightarrow> (Refusal, Book) result" where
  "arm_policy x b = (let q = exec_request x in case business_plan q of None \<Rightarrow> Ok b
     | Some bp \<Rightarrow>
         and_then (validate_policy bp (map facility_id (facilities (exec_plan x))) (instruction_count q)
           (set (map draw_facility_id (facility_draws q) @ map frepay_facility_id (facility_repayments q)))
           (asof x) (horizon_end x)) (\<lambda>_.
         Ok (case funding_policy bp of None \<Rightarrow> b | Some p \<Rightarrow> b \<lparr> book_policy := Some (policy_run p) \<rparr>)))"

record OpeningState =
  opening_postings :: "posting list"
  opening_carrying :: "(string \<times> f64) list"
  opening_assets :: f64
  opening_liabilities :: f64

definition open_lot :: "OpeningState \<Rightarrow> PositionLot \<Rightarrow> OpeningState" where
  "open_lot s l = (let ident = lot_id l; add = (\<lambda>ps. s \<lparr> opening_postings := opening_postings s @ ps \<rparr>) in
     case lot_kind l of
       Funding \<Rightarrow> (add [(FundingPrincipal, ident, - lot_quantity l)])
         \<lparr> opening_liabilities := opening_liabilities s + lot_quantity l \<rparr>
     | Derivative \<Rightarrow> (let carrying = original_cost l;
           s' = (add [(if 0 \<le> carrying then DerivativeAsset else DerivativeLiability, ident, carrying)])
             \<lparr> opening_carrying := om_put ident carrying (opening_carrying s) \<rparr> in
         if 0 \<le> carrying then s' \<lparr> opening_assets := opening_assets s + carrying \<rparr>
         else s' \<lparr> opening_liabilities := opening_liabilities s - carrying \<rparr>)
     | _ \<Rightarrow> (add [(AssetPrincipal, ident, lot_quantity l),
                  (BookAdjustment, ident, original_cost l - lot_quantity l)])
         \<lparr> opening_assets := opening_assets s + original_cost l \<rparr>)"

definition open_pledge :: "Execution \<Rightarrow> Book \<Rightarrow> Pledge \<Rightarrow> Book" where
  "open_pledge x b p = (if list_ex (\<lambda>l. lot_id l = pledge_lot_id p) (opening_lots x)
     then b \<lparr> book_pledged := om_add (pledge_lot_id p) (pledge_quantity p) (book_pledged b),
              book_pledge_left := om_put (pledge_id p) (pledge_quantity p) (book_pledge_left b) \<rparr>
     else b)"

definition open_custody :: "string \<Rightarrow> f64 \<Rightarrow> Book \<Rightarrow> Book" where
  "open_custody ident v b = (if 0 < v
     then b \<lparr> book_custody := om_add (CustodyObligation, ident) (- v)
                (om_add (CustodyAsset, ident) v (book_custody b)) \<rparr>
     else b)"

text \<open>The opening collateral of one agreement.\<close>

definition open_agreement :: "OpeningState \<times> Run \<Rightarrow> MarginAgreement \<Rightarrow> OpeningState \<times> Run" where
  "open_agreement = (\<lambda>(s, st) a. case opening_collateral a of None \<Rightarrow> (s, st) | Some c \<Rightarrow> (let
     ident = agreement_id a;
     s = s \<lparr> opening_postings := opening_postings s @
           [(PostedVm, ident, opening_posted_vm c), (ReceivedVm, ident, - opening_received_vm c),
            (PostedIm, ident, opening_posted_im c)],
         opening_assets := opening_assets s + (opening_posted_vm c + opening_posted_im c),
         opening_liabilities := opening_liabilities s + opening_received_vm c \<rparr>;
     st = restrict_cash a (opening_received_vm c)
       (st \<lparr> vm_posted := vm_posted st + opening_posted_vm c,
             vm_received := vm_received st + opening_received_vm c,
             im_posted := im_posted st + opening_posted_im c,
             im_received := im_received st + opening_received_im_custody c \<rparr>) in
     (s, st \<lparr> book := open_custody ident (opening_received_im_custody c) (book st) \<rparr>)))"

definition open_financial :: "Line list \<Rightarrow> accounts" where
  "open_financial ls = foldl (\<lambda>m l. om_add (line_kind l, instrument l) (debit l) m)
     (om_put (OpeningEquity, []) 0 (om_put (Cash, []) 0 [])) ls"

definition fresh_run :: "Book \<Rightarrow> (string \<times> f64) list \<Rightarrow> Event list \<Rightarrow> Run" where
  "fresh_run b carrying es = \<lparr> book = b, sequence_no = 0, derivative_carrying = carrying,
     fees_total = 0, realized_total = 0, vm_posted = 0, vm_received = 0, im_posted = 0, im_received = 0,
     facts = [], settled = {}, receipts = [], steps = [], margin_calls = [], closings = [], pending = es \<rparr>"

text \<open>The opening lines, the opening assets and liabilities, and the state before the first day.\<close>

definition open_book :: "Execution \<Rightarrow> OpeningAccount \<Rightarrow> Event list \<Rightarrow> Book \<Rightarrow> Line list \<times> f64 \<times> f64 \<times> Run" where
  "open_book x account es b = (let
     s = foldl open_lot \<lparr> opening_postings = [(Cash, [], account_cash account)], opening_carrying = [],
       opening_assets = 0, opening_liabilities = 0 \<rparr> (opening_lots x);
     b = foldl (open_pledge x) b (pledges (exec_plan x));
     (s, st) = foldl open_agreement (s, fresh_run b (opening_carrying s) es) (margin_agreements (exec_plan x));
     share = account_cash account + opening_assets s - opening_liabilities s;
     ls = book_lines (opening_postings s @ [(OpeningEquity, [], - share)]) in
     (ls, opening_assets s, opening_liabilities s,
      st \<lparr> book := (book st) \<lparr> book_financial := open_financial ls \<rparr> \<rparr>))"

section \<open>The conservation receipt\<close>

definition cash_bridge :: "OpeningAccount \<Rightarrow> Book \<Rightarrow> bool" where
  "cash_bridge account b \<longleftrightarrow> near (account_cash account + book_settled b) (book_cash b)
     \<and> near (kind_total (book_financial b) Cash) (book_cash b)"

definition inventory_sound :: "Closing list \<Rightarrow> bool" where
  "inventory_sound ds = (case rev ds of [] \<Rightarrow> False | d # _ \<Rightarrow>
     list_all (\<lambda>i. - nano \<le> available i
       \<and> near (owned i - inventory_pledged i - inventory_outside_encumbrance i) (available i)) (inventory d))"

definition collateral_sound :: "Run \<Rightarrow> bool" where
  "collateral_sound st = (let f = kind_total (book_financial (book st)); c = kind_total (book_custody (book st)) in
     near (f PostedVm) (vm_posted st) \<and> near (- f ReceivedVm) (vm_received st)
     \<and> near (f PostedIm) (im_posted st) \<and> near (c CustodyAsset) (im_received st)
     \<and> near (- c CustodyObligation) (im_received st))"

definition claims_open :: "Run \<Rightarrow> bool" where
  "claims_open st = (let f = kind_total (book_financial (book st)) in
     \<not> near (f UnpaidReceivable + f UnpaidPayable) 0
     \<or> (derivative_carrying st = []
        \<and> (\<not> near (vm_posted st + vm_received st) 0 \<or> \<not> near (im_posted st + im_received st) 0)))"

definition months_reconcile :: "MonthlyReport list \<Rightarrow> Book \<Rightarrow> bool" where
  "months_reconcile ms b \<longleftrightarrow> near (fsum (map net_cash ms)) (book_settled b)
     \<and> list_all (\<lambda>(m, m'). feq (month_opening_cash m') (month_closing_cash m)) (zip ms (tl ms))
     \<and> (case rev ms of [] \<Rightarrow> False | m # _ \<Rightarrow> near (month_closing_cash m) (book_cash b))"

definition monthly_of :: "Execution \<Rightarrow> OpeningAccount \<Rightarrow> LiquidityStep \<Rightarrow> Run
    \<Rightarrow> (Refusal, MonthlyReport list option) result" where
  "monthly_of x account op st = (case business_plan (exec_request x) of None \<Rightarrow> Ok None
     | Some _ \<Rightarrow>
         and_then (monthly (book_intents (book st)) (steps st)
           \<lparr> opening_cash = account_cash account, opening_usable_cash = usable_cash_after op,
             opening_facility_drawn = facility_drawn_after op,
             opening_posted_margin = posted_vm_after op + posted_im_after op,
             opening_pledged_quantity = pledged_quantity_after op,
             opening_security_quantity = security_quantity_after op \<rparr> (asof x) (horizon_end x)) (\<lambda>ms.
         require (months_reconcile ms (book st))
           (unsupported [Txt ''monthly reports do not reconcile to the dated cash movements''])
           (Ok (Some ms))))"

definition receipt_of :: "OpeningAccount \<Rightarrow> Execution \<Rightarrow> MonthlyReport list option \<Rightarrow> Run \<Rightarrow> Receipt" where
  "receipt_of account x ms st = (let b = book st; f = kind_total (book_financial b) in
     \<lparr> receipt_opening_cash = account_cash account, receipt_closing_cash = book_cash b,
       settled_cash_movements = book_settled b,
       gross_derivative_assets = f DerivativeAsset, gross_derivative_liabilities = - f DerivativeLiability,
       receipt_posted_vm = vm_posted st, receipt_received_vm = vm_received st,
       receipt_posted_im = im_posted st, receipt_received_im_custody = im_received st,
       fees_expensed = fees_total st, receipt_realized = realized_total st,
       cash_bridge_reconciled = cash_bridge account b, inventory_conserved = inventory_sound (closings st),
       collateral_conserved = collateral_sound st, open_claims = claims_open st,
       receipt_events = receipts st, receipt_steps = steps st,
       accounting_facts = facts st @ replacements b, formal_hedge_accounting = False,
       business_plan_mode = map_option mode (business_plan (exec_request x)),
       receipt_policy_decisions = book_decisions b, receipt_monthly = ms,
       receipt_margin_calls = margin_calls st \<rparr>)"

definition close_run :: "Execution \<Rightarrow> OpeningAccount \<Rightarrow> Line list \<times> f64 \<times> f64 \<Rightarrow> LiquidityStep \<Rightarrow> Run
    \<Rightarrow> (Refusal, AcquisitionJournal) result" where
  "close_run x account = (\<lambda>(ls, assets, liabilities) op st.
     and_then (monthly_of x account op st) (\<lambda>ms. let rc = receipt_of account x ms st in
     require (cash_bridge_reconciled rc \<and> inventory_conserved rc \<and> collateral_conserved rc)
       (unsupported [Txt ''execution replay failed its own conservation receipt''])
       (Ok \<lparr> journal_account_id = exec_account x, journal_scenario_id = acq_scenario_id (exec_request x),
             journal_as_of_ordinal = asof x, tail_ordinal = horizon_end x,
             journal_opening_cash = account_cash account, journal_opening_equity = equity account,
             opening_stocks = (assets, liabilities), opening_lines = ls,
             intents = book_intents (book st), daily = closings st, receipt = rc \<rparr>)))"

definition replay_with_margin :: "Execution \<Rightarrow> (Refusal, AcquisitionJournal) result" where
  "replay_with_margin x =
     and_then (admit_execution x) (\<lambda>(account, es).
     and_then (arm_policy x (empty_book x account)) (\<lambda>b. let
       (ls, assets, liabilities, st) = open_book x account es b;
       op = liquidity_step (book st) ''opening'' (asof x) 0 EventSettled [] (book_cash (book st)) in
     and_then (fold_res (run_day x) st [asof x..horizon_end x])
       (close_run x account (ls, assets, liabilities) op)))"

text \<open>\<open>fn replay\<close>: no research-method sensitivities.\<close>

definition replay :: "Execution \<Rightarrow> (Refusal, AcquisitionJournal) result" where
  "replay x = replay_with_margin (x \<lparr> exec_sensitivities := [] \<rparr>)"

end
