(* ===== verification/Acquisition_Evolution.thy ===== *)
theory Acquisition_Evolution
  imports Acquisition_Replay
begin

text \<open>
  What every operation of the execution engine may do to the book. The ledger part of a book
  changes only by entering whole journal intents, each acceptable and carrying the date and
  sequence number of its operation (\<open>entered\<close>); policy actions are logged and recorded together
  (\<open>acted\<close>); identities and policy terms stay (\<open>kept\<close>). \<open>evolves\<close> is the three together: it is
  reflexive and transitive, and every operation of \<open>Acquisition_Book\<close> and \<open>Acquisition_Replay\<close>
  is shown once to be such a step.
\<close>

section \<open>The ledger and its intents\<close>

record Ledger =
  led_financial :: accounts
  led_custody :: accounts
  led_cash :: f64
  led_settled :: f64

definition ledger_of :: "Book \<Rightarrow> Ledger" where
  "ledger_of b = \<lparr> led_financial = book_financial b, led_custody = book_custody b,
     led_cash = book_cash b, led_settled = book_settled b \<rparr>"

definition enter_line :: "bool \<Rightarrow> Ledger \<Rightarrow> Line \<Rightarrow> Ledger" where
  "enter_line m L l = (let key = (line_kind l, instrument l);
     L = (if m then L \<lparr> led_custody := om_add key (debit l) (led_custody L) \<rparr>
          else L \<lparr> led_financial := om_add key (debit l) (led_financial L) \<rparr>) in
     if line_kind l = Cash
     then L \<lparr> led_cash := led_cash L + debit l, led_settled := led_settled L + debit l \<rparr> else L)"

definition enter :: "Ledger \<Rightarrow> Intent \<Rightarrow> Ledger" where
  "enter L i = foldl (enter_line (intent_memo i)) L (intent_lines i)"

text \<open>
  An acceptable intent: the nonzero lines of a posting whose float total is near zero, never
  empty, all memo or all financial.
\<close>

definition balanced_lines :: "Line list \<Rightarrow> bool" where
  "balanced_lines ls \<longleftrightarrow> (\<exists>ps. ls = book_lines ps \<and> near (fsum (map (\<lambda>p. snd (snd p)) ps)) 0)"

definition intent_ok :: "Intent \<Rightarrow> bool" where
  "intent_ok i \<longleftrightarrow> intent_lines i \<noteq> [] \<and> balanced_lines (intent_lines i)
     \<and> (\<forall>l \<in> set (intent_lines i). (memo (line_kind l) \<longleftrightarrow> intent_memo i) \<and> \<not> feq (debit l) 0)"

lemma ledger_of_post_line: "ledger_of (post_line m b l) = enter_line m (ledger_of b) l"
  by (simp add: ledger_of_def post_line_def enter_line_def Let_def)

lemma ledger_of_post_lines: "ledger_of (foldl (post_line m) b ls) = foldl (enter_line m) (ledger_of b) ls"
  by (induction ls arbitrary: b) (simp_all add: ledger_of_post_line)

text \<open>Everything else is left alone by posting.\<close>

definition ledgerless :: "Book \<Rightarrow> Book" where
  "ledgerless b = b \<lparr> book_financial := [], book_custody := [], book_cash := 0, book_settled := 0 \<rparr>"

lemma post_line_ledgerless: "ledgerless (post_line m b l) = ledgerless b"
  by (simp add: ledgerless_def post_line_def Let_def)

lemma post_lines_ledgerless: "ledgerless (foldl (post_line m) b ls) = ledgerless b"
  by (induction ls arbitrary: b) (simp_all add: post_line_ledgerless)

lemma ledgerless_fields:
  assumes "ledgerless b' = ledgerless b"
  shows "book_intents b' = book_intents b" "book_facilities b' = book_facilities b"
    "book_policy b' = book_policy b" "policy_log b' = policy_log b" "book_decisions b' = book_decisions b"
    "security_lots b' = security_lots b" "segregated_agreements b' = segregated_agreements b"
    "book_owned b' = book_owned b" "book_pledged b' = book_pledged b"
    "book_pledge_left b' = book_pledge_left b" "replacements b' = replacements b" "pre b' = pre b"
    "book_restricted b' = book_restricted b"
  using assms by (cases b; cases b'; simp add: ledgerless_def)+

lemmas post_lines_fields [simp] = ledgerless_fields [OF post_lines_ledgerless]

lemma ledger_of_simps [simp]:
  "led_cash (ledger_of b) = book_cash b" "led_financial (ledger_of b) = book_financial b"
  "led_custody (ledger_of b) = book_custody b" "led_settled (ledger_of b) = book_settled b"
  "ledger_of (b \<lparr> book_intents := is \<rparr>) = ledger_of b" "ledger_of (b \<lparr> book_facilities := fs \<rparr>) = ledger_of b"
  "ledger_of (b \<lparr> book_policy := p \<rparr>) = ledger_of b" "ledger_of (b \<lparr> policy_log := lg \<rparr>) = ledger_of b"
  "ledger_of (b \<lparr> book_decisions := ds \<rparr>) = ledger_of b" "ledger_of (b \<lparr> book_owned := m \<rparr>) = ledger_of b"
  "ledger_of (b \<lparr> book_pledged := m \<rparr>) = ledger_of b" "ledger_of (b \<lparr> book_pledge_left := m \<rparr>) = ledger_of b"
  "ledger_of (b \<lparr> replacements := rs \<rparr>) = ledger_of b" "ledger_of (b \<lparr> pre := v \<rparr>) = ledger_of b"
  "ledger_of (b \<lparr> book_restricted := r \<rparr>) = ledger_of b"
  by (simp_all add: ledger_of_def)

section \<open>The three relations\<close>

definition entered :: "i32 \<Rightarrow> nat \<Rightarrow> nat \<Rightarrow> Book \<Rightarrow> Book \<Rightarrow> bool" where
  "entered d m n b b' \<longleftrightarrow> (\<exists>is. book_intents b' = book_intents b @ is
     \<and> ledger_of b' = foldl enter (ledger_of b) is
     \<and> (\<forall>i \<in> set is. intent_ok i \<and> intent_ordinal i = d \<and> m \<le> intent_sequence i \<and> intent_sequence i \<le> n)
     \<and> sorted (map intent_sequence is) \<and> (is = [] \<or> \<not> book_cash b' < - nano))"

definition action_entry :: "PolicyDecision \<Rightarrow> string \<times> i32 \<times> EventStatus" where
  "action_entry d = (decision_id d, decision_ordinal d, EventSettled)"

definition receipt_entry :: "EventReceipt \<Rightarrow> string \<times> i32 \<times> EventStatus" where
  "receipt_entry r = (receipt_event_id r, receipt_ordinal r, receipt_status r)"

definition step_entry :: "LiquidityStep \<Rightarrow> string \<times> i32 \<times> EventStatus" where
  "step_entry s = (step_event_id s, step_ordinal s, step_status s)"

definition acted :: "i32 \<Rightarrow> Book \<Rightarrow> Book \<Rightarrow> bool" where
  "acted d b b' \<longleftrightarrow> (\<exists>ds lg. book_decisions b' = book_decisions b @ ds \<and> policy_log b' = policy_log b @ lg
     \<and> map (receipt_entry \<circ> fst) lg = map action_entry ds \<and> map (step_entry \<circ> snd) lg = map action_entry ds
     \<and> (\<forall>x \<in> set ds. decision_ordinal x = d))"

definition policy_terms :: "Book \<Rightarrow> PolicyRun option" where
  "policy_terms b = map_option (\<lambda>p. p \<lparr> run_count := 0 \<rparr>) (book_policy b)"

definition kept :: "Book \<Rightarrow> Book \<Rightarrow> bool" where
  "kept b b' \<longleftrightarrow> map fs_id (book_facilities b') = map fs_id (book_facilities b)
     \<and> policy_terms b' = policy_terms b \<and> security_lots b' = security_lots b
     \<and> segregated_agreements b' = segregated_agreements b"

definition evolves :: "i32 \<Rightarrow> nat \<Rightarrow> nat \<Rightarrow> Book \<Rightarrow> Book \<Rightarrow> bool" where
  "evolves d m n b b' \<longleftrightarrow> m \<le> n \<and> entered d m n b b' \<and> acted d b b' \<and> kept b b'"

lemma evolves_refl:
  assumes "m \<le> n" "ledger_of b' = ledger_of b" "book_intents b' = book_intents b"
    "book_decisions b' = book_decisions b" "policy_log b' = policy_log b"
    "map fs_id (book_facilities b') = map fs_id (book_facilities b)" "policy_terms b' = policy_terms b"
    "security_lots b' = security_lots b" "segregated_agreements b' = segregated_agreements b"
  shows "evolves d m n b b'"
  using assms by (simp add: evolves_def entered_def acted_def kept_def)

lemma entered_trans:
  assumes "entered d m n b b'" "entered d n' k b' b''" "m \<le> n" "n \<le> n'" "n' \<le> k"
  shows "entered d m k b b''"
proof -
  from assms(1) obtain xs where x: "book_intents b' = book_intents b @ xs" "ledger_of b' = foldl enter (ledger_of b) xs"
    "\<forall>i \<in> set xs. intent_ok i \<and> intent_ordinal i = d \<and> m \<le> intent_sequence i \<and> intent_sequence i \<le> n"
    "sorted (map intent_sequence xs)" "xs = [] \<or> \<not> book_cash b' < - nano"
    unfolding entered_def by blast
  from assms(2) obtain ys where y: "book_intents b'' = book_intents b' @ ys" "ledger_of b'' = foldl enter (ledger_of b') ys"
    "\<forall>i \<in> set ys. intent_ok i \<and> intent_ordinal i = d \<and> n' \<le> intent_sequence i \<and> intent_sequence i \<le> k"
    "sorted (map intent_sequence ys)" "ys = [] \<or> \<not> book_cash b'' < - nano"
    unfolding entered_def by blast
  have "book_cash b'' = book_cash b'" if "ys = []"
    using y(2) that by (metis foldl_Nil ledger_of_simps(1))
  with x(5) y(5) have "xs @ ys = [] \<or> \<not> book_cash b'' < - nano" by auto
  moreover have "sorted (map intent_sequence (xs @ ys))"
    using x(3,4) y(3,4) assms(4) by (fastforce simp: sorted_append)
  moreover have "\<forall>i \<in> set (xs @ ys). intent_ok i \<and> intent_ordinal i = d \<and> m \<le> intent_sequence i \<and> intent_sequence i \<le> k"
    using x(3) y(3) assms(3-5) by fastforce
  ultimately show ?thesis
    unfolding entered_def using x(1,2) y(1,2) by (intro exI [of _ "xs @ ys"]) simp
qed

lemma acted_trans:
  assumes "acted d b b'" "acted d b' b''"
  shows "acted d b b''"
proof -
  from assms obtain ds lg ds' lg' where
    "book_decisions b' = book_decisions b @ ds" "policy_log b' = policy_log b @ lg"
    "map (receipt_entry \<circ> fst) lg = map action_entry ds" "map (step_entry \<circ> snd) lg = map action_entry ds"
    "\<forall>x \<in> set ds. decision_ordinal x = d"
    "book_decisions b'' = book_decisions b' @ ds'" "policy_log b'' = policy_log b' @ lg'"
    "map (receipt_entry \<circ> fst) lg' = map action_entry ds'" "map (step_entry \<circ> snd) lg' = map action_entry ds'"
    "\<forall>x \<in> set ds'. decision_ordinal x = d"
    unfolding acted_def by blast
  then show ?thesis
    unfolding acted_def by (intro exI [of _ "ds @ ds'"] exI [of _ "lg @ lg'"]) auto
qed

lemma evolves_trans [trans]:
  "evolves d m n b b' \<Longrightarrow> evolves d n k b' b'' \<Longrightarrow> evolves d m k b b''"
  unfolding evolves_def kept_def by (auto intro: entered_trans acted_trans)

lemma evolves_widen: "evolves d m n b b' \<Longrightarrow> m' \<le> m \<Longrightarrow> n \<le> n' \<Longrightarrow> evolves d m' n' b b'"
proof -
  assume e: "evolves d m n b b'" and le: "m' \<le> m" "n \<le> n'"
  then have "entered d m' n' b b'" unfolding evolves_def entered_def
    by (fastforce intro: le_trans)
  with e le show ?thesis by (auto simp: evolves_def)
qed

section \<open>Posting\<close>

lemma book_lines_memo:
  "list_all (\<lambda>p. memo (fst p)) ps = m \<Longrightarrow> m \<or> \<not> list_ex (\<lambda>p. memo (fst p)) ps
   \<Longrightarrow> l \<in> set (book_lines ps) \<Longrightarrow> (memo (line_kind l) \<longleftrightarrow> m) \<and> \<not> feq (debit l) 0"
  by (auto simp: book_lines_def list_all_iff list_ex_iff)

lemma apply_cases:
  assumes "book_apply ident d ph sq ps b = Ok b'"
  obtains "book_lines ps = []" "b' = b"
  | i where "intent_ok i" "intent_ordinal i = d" "intent_sequence i = sq" "intent_lines i = book_lines ps"
      "intent_event_id i = ident" "intent_phase i = ph"
      "book_intents b' = book_intents b @ [i]" "ledger_of b' = enter (ledger_of b) i"
      "\<not> book_cash b' < - nano"
      "ledgerless (b' \<lparr> book_intents := [] \<rparr>) = ledgerless (b \<lparr> book_intents := [] \<rparr>)"
proof (cases "book_lines ps = []")
  case True
  then show ?thesis using assms that(1) by (simp add: book_apply_def Let_def)
next
  case False
  define m where "m = list_all (\<lambda>p. memo (fst p)) ps"
  define i where "i = \<lparr> intent_event_id = ident, intent_ordinal = d, intent_phase = ph,
    intent_sequence = sq, intent_memo = m, intent_lines = book_lines ps \<rparr>"
  let ?c = "foldl (post_line m) b (book_lines ps)"
  from assms False have h: "\<not> (\<not> m \<and> list_ex (\<lambda>p. memo (fst p)) ps)" "near (fsum (map (\<lambda>p. snd (snd p)) ps)) 0"
    "\<not> book_cash ?c < - nano" "b' = ?c \<lparr> book_intents := book_intents b @ [i] \<rparr>"
    by (simp_all add: book_apply_def Let_def m_def i_def)
  show ?thesis
  proof (rule that(2) [of i])
    show "intent_ok i" unfolding intent_ok_def balanced_lines_def i_def
      using False h(1,2) book_lines_memo [of ps m] m_def by auto
    show "ledger_of b' = enter (ledger_of b) i"
      unfolding h(4) by (simp add: ledger_of_post_lines enter_def i_def)
    show "ledgerless (b' \<lparr> book_intents := [] \<rparr>) = ledgerless (b \<lparr> book_intents := [] \<rparr>)"
      using post_lines_ledgerless [of m b "book_lines ps"] unfolding h(4) by (simp add: ledgerless_def)
  qed (use h(3,4) in \<open>simp_all add: i_def\<close>)
qed

lemma apply_evolves:
  assumes "book_apply ident d ph sq ps b = Ok b'"
  shows "evolves d sq sq b b'"
  using assms
proof (cases rule: apply_cases)
  case 1
  then show ?thesis by (simp add: evolves_refl)
next
  case (2 i)
  have "entered d sq sq b b'" unfolding entered_def
    using 2 by (intro exI [of _ "[i]"]) simp
  with ledgerless_fields [OF 2(10)] show ?thesis
    by (simp add: evolves_def acted_def kept_def policy_terms_def)
qed

section \<open>Policy actions and funding\<close>

lemma map_update_first: "(\<And>x. h (g x) = h x) \<Longrightarrow> map h (update_first P g xs) = map h xs"
  by (induction xs) auto

lemma facility_mut_evolves:
  assumes "facility_mut ident g b = Ok b'" "\<And>f. fs_id (g f) = fs_id f" "m \<le> n"
  shows "evolves d m n b b'"
  using assms by (auto simp: facility_mut_def policy_terms_def map_update_first intro!: evolves_refl)

lemma act_record_evolves:
  assumes "m \<le> n"
  shows "evolves d m n b (act_record kind fid amount trig d ph nd ident cb ub gen b)"
proof -
  let ?b = "act_record kind fid amount trig d ph nd ident cb ub gen b"
  have "ledger_of ?b = ledger_of b" "book_intents ?b = book_intents b" "kept b ?b"
    by (simp_all add: act_record_def Let_def kept_def policy_terms_def)
  moreover have "acted d b ?b"
    by (simp add: acted_def act_record_def Let_def action_entry_def receipt_entry_def step_entry_def
        liquidity_step_def)
  ultimately show ?thesis using assms by (simp add: evolves_def entered_def)
qed

lemma act_frame_evolves:
  assumes act: "act_frame kind eff fid amount trig d ph nd b = Ok b'"
    and eff: "\<And>i c g b b'. eff i c g b = Ok b' \<Longrightarrow> evolves d m n b b'"
  shows "evolves d m n b b'"
proof -
  from act obtain p b2 i c g gen cb ub where p: "book_policy b = Some p"
    and b2: "eff i c g (b \<lparr> book_policy := Some (p \<lparr> run_count := run_count p + 1 \<rparr>) \<rparr>) = Ok b2"
    and b': "b' = act_record kind fid amount trig d ph nd i cb ub gen b2"
    by (auto simp: act_frame_def Let_def)
  let ?b1 = "b \<lparr> book_policy := Some (p \<lparr> run_count := run_count p + 1 \<rparr>) \<rparr>"
  have e: "evolves d m n ?b1 b2" using eff [OF b2] .
  then have mn: "m \<le> n" by (simp add: evolves_def)
  have "evolves d m m b ?b1" using p by (auto simp: policy_terms_def intro: evolves_refl)
  also note e
  also have "evolves d n n b2 b'" unfolding b' by (rule act_record_evolves) simp
  finally show ?thesis .
qed

lemma mut_then_evolves:
  assumes "and_then (facility_mut ident g b) k = Ok b'" "\<And>f. fs_id (g f) = fs_id f"
    and "\<And>c. k c = Ok b' \<Longrightarrow> evolves d m n c b'" and "m \<le> n"
  shows "evolves d m n b b'"
proof -
  from assms(1) obtain c where c: "facility_mut ident g b = Ok c" "k c = Ok b'" by auto
  have "evolves d m m b c" by (rule facility_mut_evolves [OF c(1) assms(2)]) simp
  also have "evolves d m n c b'" by (rule assms(3) [OF c(2)])
  finally show ?thesis .
qed

lemma act_draw_evolves: "act_draw fid amount trig d ph sq nd b = Ok b' \<Longrightarrow> evolves d sq sq b b'"
  unfolding act_draw_def
  by (erule act_frame_evolves, unfold draw_effect_def, erule mut_then_evolves) (auto intro: apply_evolves)

lemma act_surplus_evolves: "act_surplus fid amount trig d ph sq nd b = Ok b' \<Longrightarrow> evolves d sq sq b b'"
  unfolding act_surplus_def
  by (erule act_frame_evolves, unfold surplus_effect_def, erule mut_then_evolves) (auto intro: apply_evolves)

lemma fund_step_evolves:
  assumes "fund_step trig d ph sq nd (r, b) ident = Ok (r', b')"
  shows "evolves d sq sq b b'"
  using assms
  by (auto simp: fund_step_def Let_def intro: act_draw_evolves evolves_refl split: if_splits)

lemma fund_evolves:
  assumes "fund trig d ph sq delta b = Ok b'"
  shows "evolves d sq sq b b'"
proof (cases "book_policy b")
  case None
  then show ?thesis using assms by (simp add: fund_def evolves_refl)
next
  case (Some p)
  have "evolves d sq sq b c"
    if "fold_res (fund_step trig d ph sq nd) (nd, b) (facility_order p) = Ok (r, c)" for nd r c
  proof -
    have "evolves d sq sq b (snd (r, c))"
    proof (rule fold_res_inv [OF that, where I = "\<lambda>s. evolves d sq sq b (snd s)"])
      show "evolves d sq sq b (snd (nd, b))" by (simp add: evolves_refl)
      fix s x s' assume "evolves d sq sq b (snd s)" "fund_step trig d ph sq nd s x = Ok s'"
      then show "evolves d sq sq b (snd s')"
        by (cases s; cases s') (auto dest: fund_step_evolves intro: evolves_trans)
    qed
    then show ?thesis by simp
  qed
  then show ?thesis using assms Some
    by (auto simp: fund_def Let_def intro: evolves_refl split: if_splits)
qed

lemma post_evolves:
  assumes "post ident d ph sq ps b = Ok b'"
  shows "evolves d sq sq b b'"
proof -
  from assms obtain c where c: "(if cash_delta ps < 0 \<and> book_policy b \<noteq> None
      then fund ident d ph sq (cash_delta ps) b else Ok b) = Ok c" "book_apply ident d ph sq ps c = Ok b'"
    by (auto simp: post_def)
  have "evolves d sq sq b c" using c(1) by (auto intro: fund_evolves evolves_refl split: if_splits)
  also have "evolves d sq sq c b'" by (rule apply_evolves [OF c(2)])
  finally show ?thesis .
qed

lemma act_maturity_evolves: "act_maturity fid amount trig d ph sq nd b = Ok b' \<Longrightarrow> evolves d sq sq b b'"
  unfolding act_maturity_def
  by (erule act_frame_evolves, unfold maturity_effect_def, erule mut_then_evolves) (auto intro: post_evolves)

lemma renewal_effect_evolves:
  assumes "renewal_effect fid amount d ph sq ident current gen b = Ok b'"
  shows "evolves d sq sq b b'"
proof -
  from assms obtain f expiry c1 c2 where
    c1: "facility_mut fid (\<lambda>f. f \<lparr> fs_generation := fs_generation f + 1, fs_expiry := expiry \<rparr>) b = Ok c1"
    and c2: "book_apply ident d ph sq [(FundingPrincipal, current, amount),
       (FundingPrincipal, generation_instrument fid (gen + 1), - amount)] c1 = Ok c2"
    and b': "b' = c2 \<lparr> replacements := replacements c2 @
       [replacement_fact (generation_instrument fid (gen + 1)) amount d] \<rparr>"
    by (auto simp: renewal_effect_def Let_def)
  have "evolves d sq sq b c1" by (rule facility_mut_evolves [OF c1]) simp_all
  also have "evolves d sq sq c1 c2" by (rule apply_evolves [OF c2])
  also have "evolves d sq sq c2 b'" unfolding b' by (rule evolves_refl) (simp_all add: policy_terms_def)
  finally show ?thesis .
qed

lemma act_renewal_evolves: "act_renewal fid amount trig d ph sq nd b = Ok b' \<Longrightarrow> evolves d sq sq b b'"
  unfolding act_renewal_def by (erule act_frame_evolves, erule renewal_effect_evolves)

section \<open>Events\<close>

lemma evolves_fields [simp]:
  "evolves d m n b (c \<lparr> book_owned := v1 \<rparr>) = evolves d m n b c"
  "evolves d m n b (c \<lparr> book_pledged := v1 \<rparr>) = evolves d m n b c"
  "evolves d m n b (c \<lparr> book_pledge_left := v1 \<rparr>) = evolves d m n b c"
  "evolves d m n b (c \<lparr> book_restricted := v2 \<rparr>) = evolves d m n b c"
  "evolves d m n b (c \<lparr> pre := v3 \<rparr>) = evolves d m n b c"
  by (simp_all add: evolves_def entered_def acted_def kept_def policy_terms_def)

text \<open>A run whose book evolves and whose reports, closings and queue stay.\<close>

definition moves :: "i32 \<Rightarrow> Run \<Rightarrow> Run \<Rightarrow> bool" where
  "moves d st st' \<longleftrightarrow> evolves d (sequence_no st) (sequence_no st') (book st) (book st')
     \<and> receipts st' = receipts st \<and> steps st' = steps st \<and> closings st' = closings st
     \<and> pending st' = pending st \<and> settled st' = settled st"

lemma moves_trans [trans]: "moves d st st' \<Longrightarrow> moves d st' st'' \<Longrightarrow> moves d st st''"
  by (auto simp: moves_def intro: evolves_trans)

lemma moves_refl [simp]: "moves d st st"
  by (simp add: moves_def evolves_refl)

lemma moves_fields [simp]:
  "moves d st (t \<lparr> derivative_carrying := v1 \<rparr>) = moves d st t" "moves d st (t \<lparr> fees_total := v2 \<rparr>) = moves d st t"
  "moves d st (t \<lparr> realized_total := v2 \<rparr>) = moves d st t" "moves d st (t \<lparr> vm_posted := v2 \<rparr>) = moves d st t"
  "moves d st (t \<lparr> vm_received := v2 \<rparr>) = moves d st t" "moves d st (t \<lparr> im_posted := v2 \<rparr>) = moves d st t"
  "moves d st (t \<lparr> im_received := v2 \<rparr>) = moves d st t" "moves d st (t \<lparr> facts := v3 \<rparr>) = moves d st t"
  "moves d st (t \<lparr> margin_calls := v4 \<rparr>) = moves d st t"
  by (simp_all add: moves_def)

lemma moves_books [simp]:
  "moves d st (t \<lparr> book := (book t) \<lparr> book_owned := v1 \<rparr> \<rparr>) = moves d st t"
  "moves d st (t \<lparr> book := (book t) \<lparr> book_pledged := v1, book_pledge_left := v1' \<rparr> \<rparr>) = moves d st t"
  "moves d st (t \<lparr> book := (book t) \<lparr> book_pledge_left := v1', book_pledged := v1 \<rparr> \<rparr>) = moves d st t"
  "moves d st (t \<lparr> book := (book t) \<lparr> book_restricted := v2 \<rparr> \<rparr>) = moves d st t"
  by (simp_all add: moves_def)

lemma restrict_cash_moves [simp]: "moves d st (restrict_cash a v t) = moves d st t"
  by (simp add: restrict_cash_def)

lemma run_post_moves: "run_post e ps st = Ok st' \<Longrightarrow> moves (event_ordinal e) st st'"
  by (auto simp: run_post_def moves_def dest: post_evolves)

lemma run_post_custody_moves: "run_post_custody e ps st = Ok st' \<Longrightarrow> moves (event_ordinal e) st st'"
  by (auto simp: run_post_custody_def Let_def moves_def dest!: post_evolves intro: evolves_widen)

lemma moves_book: "evolves d (sequence_no st) (sequence_no st) (book st) c
   \<Longrightarrow> moves d (st \<lparr> book := c \<rparr>) st' \<Longrightarrow> moves d st st'"
  by (auto simp: moves_def intro: evolves_trans)

lemma mut_moves:
  assumes "facility_mut ident g (book st) = Ok c" "\<And>f. fs_id (g f) = fs_id f"
    and "run_post e ps (st \<lparr> book := c \<rparr>) = Ok st'"
  shows "moves (event_ordinal e) st st'"
  by (rule moves_book [OF facility_mut_evolves [OF assms(1,2)] run_post_moves [OF assms(3)]]) simp_all

text \<open>Updates before a posting do not matter either.\<close>

lemma moves_before:
  "moves d (t \<lparr> derivative_carrying := v1 \<rparr>) st = moves d t st"
  "moves d (t \<lparr> vm_posted := v2 \<rparr>) st = moves d t st" "moves d (t \<lparr> vm_received := v2 \<rparr>) st = moves d t st"
  "moves d (t \<lparr> im_posted := v2 \<rparr>) st = moves d t st" "moves d (restrict_cash a v2 t) st = moves d t st"
  by (simp_all add: moves_def restrict_cash_def evolves_def entered_def acted_def kept_def policy_terms_def)

lemma margin_moves:
  "margin_posted_by e a v st = Ok st' \<Longrightarrow> moves (event_ordinal e) st st'"
  "margin_received_by e a v st = Ok st' \<Longrightarrow> moves (event_ordinal e) st st'"
  by (auto simp: margin_posted_by_def margin_received_by_def dest!: run_post_moves run_post_custody_moves)

lemma exec_dynamic_moves:
  assumes "exec_dynamic x e a st = Ok st'"
  shows "moves (event_ordinal e) st st'"
proof -
  from assms obtain pc rc t u mc where
    t: "(if \<not> feq pc 0 then margin_posted_by e a pc st else Ok st) = Ok t"
    and u: "(if \<not> feq rc 0 then margin_received_by e a rc t else Ok t) = Ok u"
    and st': "st' = u \<lparr> margin_calls := mc \<rparr>"
    by (simp add: exec_dynamic_def Let_def) blast
  have "moves (event_ordinal e) st t" using t by (cases "feq pc 0") (auto dest: margin_moves)
  also have "moves (event_ordinal e) t u" using u by (cases "feq rc 0") (auto dest: margin_moves)
  finally show ?thesis by (simp add: st')
qed

lemma exec_body_moves:
  assumes "exec_body x e st = Ok st'"
  shows "moves (event_ordinal e) st st'"
proof (cases "event_body e")
  case (Advance f l)
  with assms show ?thesis by (auto simp: exec_body_def exec_advance_def intro: run_post_moves)
next
  case (Draw d f)
  with assms show ?thesis by (auto simp: exec_body_def exec_draw_def Let_def intro: mut_moves)
next
  case (FacilityRepay rp f)
  with assms show ?thesis by (auto simp: exec_body_def exec_frepay_def intro: mut_moves)
next
  case (Repayment rp l)
  with assms show ?thesis by (auto simp: exec_body_def exec_repayment_def Let_def dest: run_post_moves)
next
  case (Release p q)
  with assms show ?thesis by (auto simp: exec_body_def exec_release_def Let_def)
next
  case (Purchase p l cost accrued)
  with assms show ?thesis by (auto simp: exec_body_def exec_purchase_def Let_def moves_def dest!: run_post_moves)
next
  case (Sale s l cons accrued)
  with assms show ?thesis
    by (auto simp: exec_body_def exec_sale_def Let_def moves_def dest!: run_post_moves)
next
  case (PledgeDelivery p)
  with assms show ?thesis by (auto simp: exec_body_def exec_delivery_def Let_def)
next
  case (Entry h l clean)
  with assms show ?thesis by (auto simp: exec_body_def exec_entry_def dest!: run_post_moves)
next
  case (TerminationEffective t l cons due)
  with assms show ?thesis
    by (auto simp: exec_body_def exec_terminate_def Let_def moves_before dest!: run_post_moves)
next
  case (TerminationSettle t a)
  with assms show ?thesis
    by (auto simp: exec_body_def exec_settle_def Let_def moves_before dest!: run_post_moves
        intro: moves_trans split: if_splits)
next
  case (VmSettle a call)
  with assms show ?thesis
    by (auto simp: exec_body_def exec_vm_settle_def dest!: run_post_moves split: if_splits)
next
  case (VmReturn a)
  with assms show ?thesis by (auto simp: exec_body_def exec_vm_return_def Let_def dest!: run_post_moves)
next
  case (ImReturn a)
  let ?c = "balance (book st) CustodyAsset (agreement_id a)"
  from assms ImReturn obtain y v where y: "moves (event_ordinal e) st y"
    "(if feq ?c 0 then Ok (y \<lparr> im_posted := v \<rparr>)
      else and_then (run_post_custody e [(CustodyAsset, agreement_id a, - ?c),
        (CustodyObligation, agreement_id a, ?c)] (y \<lparr> im_posted := v \<rparr>))
        (\<lambda>st. Ok (st \<lparr> im_received := im_received st - ?c \<rparr>))) = Ok st'"
    by (auto simp: exec_body_def exec_im_return_def Let_def dest: run_post_moves)
  show ?thesis
  proof (cases "feq ?c 0")
    case True
    with y show ?thesis by (metis moves_fields(6) result.inject(1))
  next
    case False
    with y show ?thesis by (auto simp: moves_before dest!: run_post_custody_moves intro: moves_trans)
  qed
next
  case (DynamicIm a)
  with assms show ?thesis by (auto simp: exec_body_def intro: exec_dynamic_moves)
next
  case (Im im a)
  with assms show ?thesis
    by (auto simp: exec_body_def exec_im_def Let_def dest!: margin_moves intro: moves_trans split: if_splits)
qed

end
