(* ===== verification/Acquisition_Order.thy ===== *)
theory Acquisition_Order
  imports Acquisition_Replay
begin

text \<open>
  What the admission of an execution establishes about its events: distinct identities, dates
  inside the horizon, dependencies strictly earlier in the settlement order, and bodies that
  name records of the plan. The queue of events satisfies \<open>queue_inv\<close> from the first loop of
  \<open>replay_with_margin\<close> to the last.
\<close>

section \<open>The queue\<close>

definition body_ok :: "Execution \<Rightarrow> Body \<Rightarrow> bool" where
  "body_ok x y = (case y of
     Draw d f \<Rightarrow> f \<in> set (facilities (exec_plan x))
   | FacilityRepay rp f \<Rightarrow> f \<in> set (facilities (exec_plan x))
   | PledgeDelivery p \<Rightarrow> last_by lot_id (lots (exec_plan x)) (pledge_lot_id p) \<noteq> None
   | DynamicIm a \<Rightarrow> a \<in> set (margin_agreements (exec_plan x)) \<and> initial_margin a = ResearchSensitivity
   | _ \<Rightarrow> True)"

text \<open>
  An event without dependencies is dated after the as-of date; one with dependencies is ordered
  after them by the check at the end, so it needs no lower bound of its own.
\<close>

definition event_good :: "Execution \<Rightarrow> Event \<Rightarrow> bool" where
  "event_good x e \<longleftrightarrow> event_ordinal e \<le> horizon_end x
     \<and> (event_depends_on e = [] \<longrightarrow> asof x < event_ordinal e) \<and> body_ok x (event_body e)"

definition queue_inv :: "Execution \<Rightarrow> queue \<Rightarrow> bool" where
  "queue_inv x = (\<lambda>(ids, es). ids = event_id ` set es \<and> distinct (map event_id es)
     \<and> (\<forall>e \<in> set es. event_good x e))"

lemma queue_inv_empty [simp]: "queue_inv x ({}, [])"
  by (simp add: queue_inv_def)

lemma event_fields [simp]:
  "event_id (event i d ph ds s y) = i" "event_ordinal (event i d ph ds s y) = d"
  "event_phase (event i d ph ds s y) = ph" "event_depends_on (event i d ph ds s y) = ds"
  "event_state (event i d ph ds s y) = s" "event_body (event i d ph ds s y) = y"
  by (simp_all add: event_def)

lemma push_inv: "push e q = Ok q' \<Longrightarrow> queue_inv x q \<Longrightarrow> event_good x e \<Longrightarrow> queue_inv x q'"
  by (cases q) (auto simp: push_def queue_inv_def)

lemma exec_within_iff [simp]: "exec_within x d w = Ok u \<longleftrightarrow> asof x < d \<and> d \<le> horizon_end x"
  by (auto simp: exec_within_def)

lemma exec_lot_known: "exec_lot x k w = Ok l \<Longrightarrow> last_by lot_id (lots (exec_plan x)) k \<noteq> None"
  by (auto simp: exec_lot_def)

lemma exec_known:
  "exec_facility x k w = Ok f \<Longrightarrow> f \<in> set (facilities (exec_plan x))"
  "exec_agreement x k w = Ok a \<Longrightarrow> a \<in> set (margin_agreements (exec_plan x))"
  by (auto simp: exec_facility_def exec_agreement_def dest: last_by_Some)

lemmas queue_intros = push_inv exec_known exec_lot_known

lemma queue_purchase_inv:
  "queue_purchase x q p = Ok q' \<Longrightarrow> queue_inv x q \<Longrightarrow> queue_inv x q'"
  by (auto simp: queue_purchase_def Let_def event_good_def body_ok_def elim!: push_inv)

lemma queue_sale_inv: "queue_sale x q s = Ok q' \<Longrightarrow> queue_inv x q \<Longrightarrow> queue_inv x q'"
  by (auto simp: queue_sale_def Let_def event_good_def body_ok_def elim!: push_inv)

lemma queue_financing_inv:
  assumes "queue_financing x q f = Ok q'" "queue_inv x q"
  shows "queue_inv x q'"
proof -
  from assms(1) obtain l pl c q1 adv where w: "asof x < advance_ordinal f" "advance_ordinal f \<le> horizon_end x"
    and c: "exec_lot x (pledge_lot_id pl) ''pledge'' = Ok c"
    and q1: "push (event adv (advance_ordinal f) PHASE_ADVANCE (advance_depends_on f) (advance_state f)
        (Advance f l)) q = Ok q1"
    and q': "push (event (''pledge:'' @ pledge_id pl) (advance_ordinal f) PHASE_PLEDGE [adv]
        InstructionPending (PledgeDelivery pl)) q1 = Ok q'"
    by (auto simp: queue_financing_def Let_def)
  have "queue_inv x q1" by (rule push_inv [OF q1 assms(2)]) (simp add: event_good_def body_ok_def w)
  then show ?thesis
    by (rule push_inv [OF q']) (use w exec_lot_known [OF c] in \<open>simp add: event_good_def body_ok_def\<close>)
qed

lemma queue_repayment_inv:
  assumes "queue_repayment x q rp = Ok q'" "queue_inv x q"
  shows "queue_inv x q'"
proof -
  from assms(1) obtain l ident q1 where w: "asof x < repayment_ordinal rp" "repayment_ordinal rp \<le> horizon_end x"
    and q1: "push (event ident (repayment_ordinal rp) PHASE_REPAYMENT (repay_depends_on rp) (repay_state rp)
        (Repayment rp l)) q = Ok q1"
    and q': "fold_res (queue_release x rp ident) q1 (pledge_releases rp) = Ok q'"
    by (auto simp: queue_repayment_def Let_def)
  have "queue_inv x q1" by (rule push_inv [OF q1 assms(2)]) (simp add: event_good_def body_ok_def w)
  then show ?thesis
  proof (rule fold_res_inv [OF q'])
    fix s r s' assume "queue_inv x s" "queue_release x rp ident s r = Ok s'"
    then show "queue_inv x s'" using w
      by (auto simp: queue_release_def Let_def event_good_def body_ok_def elim!: push_inv)
  qed
qed

lemma queue_margin_inv: "queue_margin x h a ident clean q = Ok q' \<Longrightarrow> queue_inv x q \<Longrightarrow> queue_inv x q'"
  by (auto simp: queue_margin_def Let_def event_good_def body_ok_def elim!: push_inv split: if_splits)

lemma queue_entry_inv:
  assumes "queue_entry x q h = Ok q'" "queue_inv x q"
  shows "queue_inv x q'"
proof -
  from assms(1) obtain l a ident clean q1 where w: "asof x < entry_ordinal h" "entry_ordinal h \<le> horizon_end x"
    and q1: "push (event ident (entry_ordinal h) PHASE_DERIVATIVE (entry_depends_on h) (entry_state h)
        (Entry h l clean)) q = Ok q1"
    and q': "queue_margin x h a ident clean q1 = Ok q'"
    by (auto simp: queue_entry_def Let_def)
  have "queue_inv x q1" by (rule push_inv [OF q1 assms(2)]) (simp add: event_good_def body_ok_def w)
  with q' show ?thesis by (rule queue_margin_inv)
qed

lemma queue_vm_return_inv: "queue_vm_return x t a sid q = Ok q' \<Longrightarrow> queue_inv x q \<Longrightarrow> queue_inv x q'"
  by (auto simp: queue_vm_return_def event_good_def body_ok_def elim!: push_inv split: if_splits)

lemma queue_termination_inv:
  assumes "queue_termination x q t = Ok q'" "queue_inv x q"
  shows "queue_inv x q'"
proof -
  from assms(1) obtain l a ident cons due q1 q2 where
    w: "asof x < term_effective_ordinal t" "term_effective_ordinal t \<le> horizon_end x"
      "term_settlement_ordinal t \<le> horizon_end x"
    and q1: "push (event ident (term_effective_ordinal t) PHASE_DERIVATIVE (term_depends_on t) (term_state t)
        (TerminationEffective t l cons due)) q = Ok q1"
    and q2: "push (event (''terminate_settle:'' @ term_lot_id t) (term_settlement_ordinal t)
        PHASE_DERIVATIVE [ident] InstructionPending (TerminationSettle t a)) q1 = Ok q2"
    and q': "queue_vm_return x t a (''terminate_settle:'' @ term_lot_id t) q2 = Ok q'"
    by (auto simp: queue_termination_def Let_def)
  have "queue_inv x q1" by (rule push_inv [OF q1 assms(2)]) (simp add: event_good_def body_ok_def w)
  then have "queue_inv x q2" by (rule push_inv [OF q2]) (simp add: event_good_def body_ok_def w)
  with q' show ?thesis by (rule queue_vm_return_inv)
qed

lemma queue_draw_inv: "queue_draw x q d = Ok q' \<Longrightarrow> queue_inv x q \<Longrightarrow> queue_inv x q'"
  by (auto simp: queue_draw_def Let_def event_good_def body_ok_def dest!: exec_known(1) elim!: push_inv)

lemma queue_frepay_inv: "queue_frepay x q d = Ok q' \<Longrightarrow> queue_inv x q \<Longrightarrow> queue_inv x q'"
  by (auto simp: queue_frepay_def Let_def event_good_def body_ok_def dest!: exec_known(1) elim!: push_inv)

lemma queue_im_inv: "queue_im x q im = Ok q' \<Longrightarrow> queue_inv x q \<Longrightarrow> queue_inv x q'"
  by (auto simp: queue_im_def Let_def event_good_def body_ok_def elim!: push_inv)

lemma queue_dynamic_inv:
  "queue_dynamic x (ds, q) dm = Ok (ds', q') \<Longrightarrow> queue_inv x q \<Longrightarrow> queue_inv x q'"
  by (auto simp: queue_dynamic_def Let_def event_good_def body_ok_def dest!: exec_known(2) elim!: push_inv)

text \<open>
  The return of initial margin depends on at least one termination: a legal scope that changed
  and is empty has lost a lot to one.
\<close>

lemma queue_change_inv:
  assumes "queue_change x dates q c = Ok q'" "queue_inv x q" "c \<in> set (population_changes (exec_request x))"
  shows "queue_inv x q'"
proof -
  obtain ident d where c: "c = (ident, d)" by (cases c)
  from assms(1) consider "q' = q" | a where "planned_live x a ident d = {}" "queue_im_return x a ident d q = Ok q'"
    by (auto simp: queue_change_def c Let_def split: if_splits)
  then show ?thesis
  proof cases
    case (2 a)
    let ?ts = "filter (\<lambda>t. term_agreement_id t = ident) (terminations (exec_request x))"
    have "?ts \<noteq> []"
    proof
      assume no: "?ts = []"
      then have "\<not> (\<exists>t \<in> set (terminations (exec_request x)). term_agreement_id t = ident)"
        by (auto simp: filter_empty_conv)
      then obtain h where "h \<in> set (hedge_entries (exec_request x))" "entry_agreement_id h = ident" "entry_ordinal h = d"
        using assms(3) by (auto simp: population_changes_def c)
      then have "entry_lot_id h \<in> planned_live x a ident d"
        using no by (auto simp: planned_live_def filter_empty_conv)
      with 2(1) show False by simp
    qed
    then show ?thesis using 2(2) assms(2)
      by (auto simp: queue_im_return_def Let_def event_good_def body_ok_def elim!: push_inv split: if_splits)
  qed (use assms(2) in simp)
qed

lemma queued_events_inv:
  assumes "queued_events x = Ok q"
  shows "queue_inv x q"
proof -
  let ?r = "exec_request x"
  from assms obtain s1 s2 s3 s4 s5 s6 s7 s8 s9 ds s10 where
    s: "fold_res (queue_purchase x) ({}, []) (purchases ?r) = Ok s1"
       "fold_res (queue_sale x) s1 (sales ?r) = Ok s2"
       "fold_res (queue_financing x) s2 (financings ?r) = Ok s3"
       "fold_res (queue_repayment x) s3 (repayments ?r) = Ok s4"
       "fold_res (queue_entry x) s4 (hedge_entries ?r) = Ok s5"
       "fold_res (queue_termination x) s5 (terminations ?r) = Ok s6"
       "fold_res (queue_draw x) s6 (facility_draws ?r) = Ok s7"
       "fold_res (queue_frepay x) s7 (facility_repayments ?r) = Ok s8"
       "fold_res (queue_im x) s8 (supplied_margin ?r) = Ok s9"
       "fold_res (queue_dynamic x) ({}, s9) (dynamic_margin ?r) = Ok (ds, s10)"
       "fold_res (queue_change x ds) s10 (population_changes ?r) = Ok q"
    by (auto simp: queued_events_def Let_def)
  have "queue_inv x s1" 
    by (rule fold_res_inv [OF s(1), where I = "queue_inv x"]) (simp, rule queue_purchase_inv)
  then have "queue_inv x s2" by (rule fold_res_inv [OF s(2)]) (rule queue_sale_inv)
  then have "queue_inv x s3" by (rule fold_res_inv [OF s(3)]) (rule queue_financing_inv)
  then have "queue_inv x s4" by (rule fold_res_inv [OF s(4)]) (rule queue_repayment_inv)
  then have "queue_inv x s5" by (rule fold_res_inv [OF s(5)]) (rule queue_entry_inv)
  then have "queue_inv x s6" by (rule fold_res_inv [OF s(6)]) (rule queue_termination_inv)
  then have "queue_inv x s7" by (rule fold_res_inv [OF s(7)]) (rule queue_draw_inv)
  then have "queue_inv x s8" by (rule fold_res_inv [OF s(8)]) (rule queue_frepay_inv)
  then have "queue_inv x s9" by (rule fold_res_inv [OF s(9)]) (rule queue_im_inv)
  then have "queue_inv x (snd ({} :: margin_dates, s9))" by simp
  then have "queue_inv x (snd (ds, s10))"
    by (rule fold_res_inv [OF s(10), where I = "\<lambda>s. queue_inv x (snd s)"])
       (metis queue_dynamic_inv prod.collapse)
  then have "queue_inv x s10" by simp
  then show ?thesis by (rule fold_res_inv [OF s(11)]) (rule queue_change_inv)
qed

section \<open>The settlement order\<close>

lemma settlement_index_Some:
  assumes "distinct (map event_id es)" "settlement_index es k = Some j"
  shows "j < length es \<and> event_id (es ! j) = k"
  using assms(2) by (auto simp: settlement_index_def dest!: last_by_Some simp: in_set_enumerate_eq)

lemma dependencies_precede_Ok:
  assumes "dependencies_precede es = Ok ()" "distinct (map event_id es)" "i < length es"
    and "d \<in> set (event_depends_on (es ! i))"
  shows "\<exists>j < i. event_id (es ! j) = d"
proof -
  have "(i, es ! i) \<in> set (enumerate 0 es)" using assms(3) by (simp add: in_set_enumerate_eq)
  with assms(1) have "for_each (event_depends_on (es ! i)) (\<lambda>d. case settlement_index es d of
         None \<Rightarrow> Err (mapping (''`'' @ event_id (es ! i) @ ''` depends on unknown instruction `'' @ d @ ''`''))
       | Some j \<Rightarrow> guard (\<not> i \<le> j) (refusal_new SETTLEMENT_ORDER [Txt (''`'' @ event_id (es ! i)
            @ ''` depends on `'' @ d @ ''`, which is not earlier in the settlement order'')])) = Ok ()"
    by (auto simp: dependencies_precede_def for_each_Ok_iff)
  with assms(4) obtain j where "settlement_index es d = Some j" "j < i"
    by (force simp: for_each_Ok_iff split: option.splits)
  then show ?thesis using settlement_index_Some [OF assms(2)] by blast
qed

text \<open>What \<open>admit_execution\<close> returns.\<close>

definition events_ok :: "Execution \<Rightarrow> Event list \<Rightarrow> bool" where
  "events_ok x es \<longleftrightarrow> distinct (map event_id es) \<and> sorted (map event_ordinal es)
     \<and> (\<forall>e \<in> set es. asof x < event_ordinal e \<and> event_ordinal e \<le> horizon_end x \<and> body_ok x (event_body e))
     \<and> (\<forall>i < length es. \<forall>d \<in> set (event_depends_on (es ! i)). \<exists>j < i. event_id (es ! j) = d)"

lemma admit_execution_Ok:
  assumes "admit_execution x = Ok (account, es)"
  shows "events_ok x es" "account \<in> set (accounts (exec_plan x))" "account_id account = exec_account x"
    "asof x \<le> horizon_end x" "horizon_end x - asof x \<le> MAX_EXECUTION_DAYS"
proof -
  from assms obtain ids queued where q: "queued_events x = Ok (ids, queued)"
    and es: "es = sort_key event_key queued" and dp: "dependencies_precede es = Ok ()"
    and acc: "find (\<lambda>a. account_id a = exec_account x) (accounts (exec_plan x)) = Some account"
    and b: "execution_bounds x = Ok ()"
    by (auto simp: admit_execution_def Let_def)
  from queued_events_inv [OF q] have inv: "distinct (map event_id queued)" "\<forall>e \<in> set queued. event_good x e"
    by (simp_all add: queue_inv_def)
  have dist: "distinct (map event_id es)" using inv(1) by (simp add: es distinct_map)
  have good: "\<forall>e \<in> set es. event_good x e" using inv(2) by (simp add: es)
  have keys: "sorted (map event_key es)" unfolding es by (rule sorted_sort_key)
  then have "sorted_wrt (\<lambda>a b. event_key a \<le> event_key b) es" by (simp add: sorted_map)
  then have "sorted_wrt (\<lambda>a b. event_ordinal a \<le> event_ordinal b) es"
    by (rule sorted_wrt_mono_rel [rotated]) (auto simp: event_key_def less_eq_prod_def)
  then have ord: "sorted (map event_ordinal es)" by (simp add: sorted_map)
  have dep: "\<exists>j < i. event_id (es ! j) = d" if "i < length es" "d \<in> set (event_depends_on (es ! i))" for i d
    using dependencies_precede_Ok [OF dp dist that] .
  have "asof x < event_ordinal e" if e: "e \<in> set es" for e
  proof -
    have ne: "es \<noteq> []" using e by auto
    then have "event_depends_on (es ! 0) = []" using dep [of 0] by (metis length_greater_0_conv list.set_intros(1) neq_Nil_conv not_less0)
    then have "asof x < event_ordinal (es ! 0)" using good ne by (auto simp: event_good_def)
    moreover have "event_ordinal (es ! 0) \<le> event_ordinal e"
    proof -
      obtain i where "i < length es" "es ! i = e" using e by (auto simp: in_set_conv_nth)
      then show ?thesis using ord sorted_nth_mono [of "map event_ordinal es" 0 i] ne by (auto simp: nth_map)
    qed
    ultimately show ?thesis by simp
  qed
  with dist ord good dep show "events_ok x es" by (auto simp: events_ok_def event_good_def)
  from find_SomeD [OF acc] show "account \<in> set (accounts (exec_plan x))" "account_id account = exec_account x"
    by auto
  from b show "asof x \<le> horizon_end x" "horizon_end x - asof x \<le> MAX_EXECUTION_DAYS"
    by (auto simp: execution_bounds_def split: if_splits)
qed

end
