(* ===== verification/Acquisition_Journal.thy ===== *)
theory Acquisition_Journal
  imports Acquisition_Evolution Acquisition_Order
begin

text \<open>
  What the journal of an execution says, \<open>replay_with_margin\<close> of \<open>lifecycle/acquisition.rs\<close> as a
  whole: the daily closings are the opening lines and the dated intents replayed in float
  arithmetic, every intent is balanced and pure, every admitted event is reported exactly once
  with the status its dependencies give it, and cash is never overdrawn.
\<close>

section \<open>Interleavings\<close>

lemma shuffles_Cons1: "zs \<in> shuffles xs ys \<Longrightarrow> x # zs \<in> shuffles (x # xs) ys"
  and shuffles_Cons2: "zs \<in> shuffles xs ys \<Longrightarrow> y # zs \<in> shuffles xs (y # ys)"
  by (simp_all add: Cons_in_shuffles_iff)

lemma shuffles_append:
  "zs \<in> shuffles xs ys \<Longrightarrow> zs' \<in> shuffles xs' ys' \<Longrightarrow> zs @ zs' \<in> shuffles (xs @ xs') (ys @ ys')"
proof (induction zs arbitrary: xs ys)
  case Nil
  then show ?case by simp
next
  case (Cons z zs)
  from Cons.prems(1) consider xs0 where "xs = z # xs0" "zs \<in> shuffles xs0 ys"
    | ys0 where "ys = z # ys0" "zs \<in> shuffles xs ys0"
    by (cases xs; cases ys) (auto simp: Cons_in_shuffles_iff)
  then show ?case
  proof cases
    case 1
    then show ?thesis using Cons.IH [OF 1(2) Cons.prems(2)] by (simp add: shuffles_Cons1)
  next
    case 2
    then show ?thesis using Cons.IH [OF 2(2) Cons.prems(2)] by (simp add: shuffles_Cons2)
  qed
qed

section \<open>The statuses the dependencies give\<close>

type_synonym entry = "string \<times> i32 \<times> EventStatus"

definition event_status :: "string set \<Rightarrow> Event \<Rightarrow> EventStatus" where
  "event_status done e = (if event_state e = InstructionFailed then EventFailed
     else if set (event_depends_on e) \<subseteq> done then EventSettled else EventBlocked)"

definition settles_after :: "string set \<Rightarrow> Event \<Rightarrow> string set" where
  "settles_after done e = (if event_status done e = EventSettled then insert (event_id e) done else done)"

definition event_entry :: "string set \<Rightarrow> Event \<Rightarrow> entry" where
  "event_entry done e = (event_id e, event_ordinal e, event_status done e)"

fun event_entries :: "string set \<Rightarrow> Event list \<Rightarrow> entry list" where
  "event_entries done [] = []"
| "event_entries done (e # es) = event_entry done e # event_entries (settles_after done e) es"

lemma event_entries_append [simp]:
  "event_entries done (xs @ ys) = event_entries done xs @ event_entries (foldl settles_after done xs) ys"
  by (induction xs arbitrary: "done") simp_all

lemma settles_after_ids: "foldl settles_after done es \<subseteq> done \<union> event_id ` set es"
  by (induction es arbitrary: "done") (auto simp: settles_after_def split: if_splits)

lemma settles_after_mono: "done \<subseteq> foldl settles_after done es"
proof (induction es arbitrary: "done")
  case (Cons e es)
  have "done \<subseteq> settles_after done e" by (auto simp: settles_after_def)
  with Cons.IH [of "settles_after done e"] show ?case by simp
qed simp

lemma distinct_split: "distinct (map f (xs @ ys)) \<Longrightarrow> f ` set xs \<inter> f ` set ys = {}"
  by simp

lemma subset_squeeze: "D \<subseteq> A \<Longrightarrow> A \<inter> B = {} \<Longrightarrow> T \<subseteq> S \<Longrightarrow> S \<subseteq> T \<union> B \<Longrightarrow> D \<subseteq> T \<longleftrightarrow> D \<subseteq> S"
  by blast

text \<open>
  Because dependencies come earlier and identities are distinct, the running statuses are the
  fixed point: an event settles exactly when it did not fail and all it depends on settles.
\<close>

lemma event_entries_fixpoint:
  assumes "distinct (map event_id es)"
    and "\<forall>i < length es. \<forall>d \<in> set (event_depends_on (es ! i)). \<exists>j < i. event_id (es ! j) = d"
  shows "event_entries {} es = map (event_entry (foldl settles_after {} es)) es"
proof -
  define S where "S = foldl settles_after {} es"
  have "event_entries {} pre = map (event_entry S) pre" if "es = pre @ post" for pre post
    using that
  proof (induction pre arbitrary: post rule: rev_induct)
    case (snoc e pre)
    let ?T = "foldl settles_after {} pre" and ?rest = "e # post"
    have es: "es = pre @ ?rest" using snoc.prems by simp
    have nth: "length pre < length es" "es ! length pre = e" unfolding es by simp_all
    have deps: "set (event_depends_on e) \<subseteq> event_id ` set pre"
    proof
      fix d assume "d \<in> set (event_depends_on e)"
      with assms(2) nth obtain j where j: "j < length pre" "event_id (es ! j) = d" by blast
      then have "es ! j = pre ! j" unfolding es by (simp add: nth_append)
      with j show "d \<in> event_id ` set pre" by auto
    qed
    have disj: "event_id ` set pre \<inter> event_id ` set ?rest = {}"
      using assms(1) unfolding es by (rule distinct_split)
    have S: "S = foldl settles_after ?T ?rest" unfolding S_def es by (rule foldl_append)
    have "?T \<subseteq> S" "S \<subseteq> ?T \<union> event_id ` set ?rest"
      unfolding S by (rule settles_after_mono, rule settles_after_ids)
    note subset_squeeze [OF deps disj this]
    then have "event_entry ?T e = event_entry S e" by (simp add: event_entry_def event_status_def)
    with snoc.IH [OF es] show ?case by simp
  qed simp
  from this [of es "[]"] show ?thesis by (simp add: S_def)
qed

section \<open>Progress of a run\<close>

definition progress :: "i32 \<Rightarrow> entry list \<Rightarrow> Run \<Rightarrow> Run \<Rightarrow> bool" where
  "progress d es st st' \<longleftrightarrow> sequence_no st \<le> sequence_no st'
     \<and> entered d (sequence_no st) (sequence_no st') (book st) (book st') \<and> kept (book st) (book st')
     \<and> policy_log (book st') = [] \<and> closings st' = closings st
     \<and> (\<exists>ds rs ss. book_decisions (book st') = book_decisions (book st) @ ds
          \<and> receipts st' = receipts st @ rs \<and> steps st' = steps st @ ss
          \<and> map receipt_entry rs = map step_entry ss \<and> map receipt_entry rs \<in> shuffles es (map action_entry ds)
          \<and> (\<forall>x \<in> set ds. decision_ordinal x = d))"

lemma kept_trans: "kept a b \<Longrightarrow> kept b c \<Longrightarrow> kept a c"
  by (simp add: kept_def)

lemma progress_trans:
  assumes "progress d es st st'" "progress d es' st' st''"
  shows "progress d (es @ es') st st''"
proof -
  from assms obtain ds rs ss ds' rs' ss' where
    "book_decisions (book st') = book_decisions (book st) @ ds" "receipts st' = receipts st @ rs"
    "steps st' = steps st @ ss" "map receipt_entry rs = map step_entry ss"
    "map receipt_entry rs \<in> shuffles es (map action_entry ds)" "\<forall>x \<in> set ds. decision_ordinal x = d"
    "book_decisions (book st'') = book_decisions (book st') @ ds'" "receipts st'' = receipts st' @ rs'"
    "steps st'' = steps st' @ ss'" "map receipt_entry rs' = map step_entry ss'"
    "map receipt_entry rs' \<in> shuffles es' (map action_entry ds')" "\<forall>x \<in> set ds'. decision_ordinal x = d"
    unfolding progress_def by blast
  then have "\<exists>ds rs ss. book_decisions (book st'') = book_decisions (book st) @ ds
          \<and> receipts st'' = receipts st @ rs \<and> steps st'' = steps st @ ss
          \<and> map receipt_entry rs = map step_entry ss \<and> map receipt_entry rs \<in> shuffles (es @ es') (map action_entry ds)
          \<and> (\<forall>x \<in> set ds. decision_ordinal x = d)"
    by (intro exI [of _ "ds @ ds'"] exI [of _ "rs @ rs'"] exI [of _ "ss @ ss'"]) (auto intro: shuffles_append)
  with assms show ?thesis
    by (auto simp: progress_def intro: entered_trans kept_trans)
qed

lemma kept_refl [simp]: "kept b b"
  by (simp add: kept_def)

lemma progress_refl: "policy_log (book st) = [] \<Longrightarrow> progress d [] st st"
  by (simp add: progress_def entered_def)

lemma evolves_entered: "evolves d m n b b' \<Longrightarrow> entered d m n b (b' \<lparr> policy_log := lg \<rparr>)"
  "evolves d m n b b' \<Longrightarrow> kept b (b' \<lparr> policy_log := lg \<rparr>)"
  by (simp_all add: evolves_def entered_def kept_def policy_terms_def)

lemma shuffles_snoc: "xs @ [z] \<in> shuffles [z] xs"
  using shuffles_append [of xs "[]" xs "[z]" "[z]" "[]"] by simp

lemma drain_progress:
  assumes "moves d st st1" "policy_log (book st) = []"
  shows "progress d [] st (drain_log st1)"
    "settled (drain_log st1) = settled st" "pending (drain_log st1) = pending st"
proof -
  from assms obtain ds lg where lg: "book_decisions (book st1) = book_decisions (book st) @ ds"
    "policy_log (book st1) = lg" "map (receipt_entry \<circ> fst) lg = map action_entry ds"
    "map (step_entry \<circ> snd) lg = map action_entry ds" "\<forall>x \<in> set ds. decision_ordinal x = d"
    by (auto simp: moves_def evolves_def acted_def)
  have ev: "evolves d (sequence_no st) (sequence_no st1) (book st) (book st1)"
    using assms(1) by (simp add: moves_def)
  then have "sequence_no st \<le> sequence_no st1" by (simp add: evolves_def)
  with assms(1) lg show "progress d [] st (drain_log st1)"
    unfolding progress_def
    by (auto simp: drain_log_def Let_def moves_def evolves_entered [OF ev]
        intro!: exI [of _ ds] exI [of _ "map fst lg"] exI [of _ "map snd lg"])
qed (use assms(1) in \<open>simp_all add: drain_log_def Let_def moves_def\<close>)

lemma settle_event_Ok:
  assumes "settle_event x e st = Ok (status, st')"
  shows "status = event_status (settled st) e" "settled st' = settles_after (settled st) e"
    "moves (event_ordinal e) st (st' \<lparr> settled := settled st \<rparr>)"
proof -
  have m: "moves (event_ordinal e) st (t \<lparr> settled := settled st \<rparr>)" "settled t = settled st"
    if "exec_body x e st = Ok t" for t
    using exec_body_moves [OF that] by (simp_all add: moves_def)
  have iff: "list_all (\<lambda>d. d \<in> settled st) (event_depends_on e) \<longleftrightarrow> set (event_depends_on e) \<subseteq> settled st"
    by (auto simp: list_all_iff)
  note h = assms [unfolded settle_event_def iff]
  show "status = event_status (settled st) e"
    using h by (auto simp: event_status_def split: if_splits)
  show "settled st' = settles_after (settled st) e"
    using h by (auto simp: settles_after_def event_status_def dest: m(2) split: if_splits)
  show "moves (event_ordinal e) st (st' \<lparr> settled := settled st \<rparr>)"
    using h by (auto dest: m(1) split: if_splits)
qed

lemma step_entry_liquidity [simp]: "step_entry (liquidity_step b i d ph s ds c) = (i, d, s)"
  by (simp add: step_entry_def liquidity_step_def)

lemma run_event_progress:
  assumes run: "run_event x st e = Ok st'" and empty: "policy_log (book st) = []"
  shows "progress (event_ordinal e) [event_entry (settled st) e] st st'"
    "settled st' = settles_after (settled st) e" "pending st' = pending st"
proof -
  let ?d = "event_ordinal e"
  define st1 where "st1 = (take_inventory st) \<lparr> sequence_no := sequence_no st + 1 \<rparr>"
  from run obtain status st2 where s: "settle_event x e st1 = Ok (status, st2)"
    and st': "st' = report_event e (book_cash (book st)) status st2"
    by (auto simp: run_event_def Let_def st1_def take_inventory_def)
  have st1: "settled st1 = settled st" "pending st1 = pending st" "receipts st1 = receipts st"
    "steps st1 = steps st" "closings st1 = closings st" "sequence_no st1 = sequence_no st + 1"
    by (simp_all add: st1_def take_inventory_def)
  let ?t = "st2 \<lparr> settled := settled st \<rparr>"
  note so = settle_event_Ok [OF s, unfolded st1]
  have "moves ?d st ?t"
  proof -
    have "evolves ?d (sequence_no st) (sequence_no st1) (book st) (book st1)"
      by (rule evolves_refl) (simp_all add: st1_def take_inventory_def policy_terms_def)
    also have "evolves ?d (sequence_no st1) (sequence_no ?t) (book st1) (book ?t)"
      using so(3) by (simp add: moves_def st1)
    finally show ?thesis using so(3) by (simp add: moves_def st1)
  qed
  note p = drain_progress [OF this empty]
  have rep: "book st' = book (drain_log ?t)" "sequence_no st' = sequence_no (drain_log ?t)"
    "closings st' = closings (drain_log ?t)" "pending st' = pending (drain_log ?t)" "settled st' = settled st2"
    by (simp_all add: st' report_event_def drain_log_def Let_def)
  obtain r v where r: "receipts st' = receipts (drain_log ?t) @ [r]" "receipt_entry r = event_entry (settled st) e"
    and v: "steps st' = steps (drain_log ?t) @ [v]" "step_entry v = event_entry (settled st) e"
    by (simp add: st' report_event_def drain_log_def Let_def receipt_entry_def event_entry_def so(1))
  from p(1) obtain ds rs ss where q: "book_decisions (book st') = book_decisions (book st) @ ds"
    "receipts (drain_log ?t) = receipts st @ rs" "steps (drain_log ?t) = steps st @ ss"
    "map receipt_entry rs = map step_entry ss" "map receipt_entry rs \<in> shuffles [] (map action_entry ds)"
    "\<forall>x \<in> set ds. decision_ordinal x = ?d"
    unfolding progress_def rep by blast
  from q(5) have "map receipt_entry (rs @ [r]) \<in> shuffles [event_entry (settled st) e] (map action_entry ds)"
    using r(2) shuffles_snoc by simp
  with q r v have "\<exists>ds rs ss. book_decisions (book st') = book_decisions (book st) @ ds
      \<and> receipts st' = receipts st @ rs \<and> steps st' = steps st @ ss
      \<and> map receipt_entry rs = map step_entry ss
      \<and> map receipt_entry rs \<in> shuffles [event_entry (settled st) e] (map action_entry ds)
      \<and> (\<forall>x \<in> set ds. decision_ordinal x = ?d)"
    by (intro exI [of _ ds] exI [of _ "rs @ [r]"] exI [of _ "ss @ [v]"]) simp
  with p(1) show "progress ?d [event_entry (settled st) e] st st'"
    unfolding progress_def rep by blast
  show "settled st' = settles_after (settled st) e" using so(2) rep by simp
  show "pending st' = pending st" using p(3) rep by simp
qed

lemma run_events_progress:
  assumes "fold_res (run_event x) st es = Ok st'" "policy_log (book st) = []" "\<forall>e \<in> set es. event_ordinal e = d"
  shows "progress d (event_entries (settled st) es) st st'
    \<and> settled st' = foldl settles_after (settled st) es \<and> pending st' = pending st"
  using assms
proof (induction es arbitrary: st)
  case (Cons e es)
  from Cons.prems(1) obtain t where t: "run_event x st e = Ok t" "fold_res (run_event x) t es = Ok st'" by auto
  note e = run_event_progress [OF t(1) Cons.prems(2)]
  have d: "event_ordinal e = d" using Cons.prems(3) by simp
  from e(1) have "policy_log (book t) = []" by (simp add: progress_def)
  with t(2) Cons.prems(3) have IH: "progress d (event_entries (settled t) es) t st'
      \<and> settled st' = foldl settles_after (settled t) es \<and> pending st' = pending t"
    by (intro Cons.IH) auto
  have "progress d ([event_entry (settled st) e] @ event_entries (settled t) es) st st'"
    by (rule progress_trans) (use e(1) d IH in auto)
  with IH e show ?case by simp
qed (simp add: progress_refl)

section \<open>One day\<close>

lemma moves_sequence:
  assumes "evolves d (Suc (sequence_no st)) (Suc (sequence_no st)) (book st) b"
  shows "moves d st (st \<lparr> sequence_no := Suc (sequence_no st), book := b \<rparr>)"
  using evolves_widen [OF assms, of "sequence_no st" "Suc (sequence_no st)"] by (simp add: moves_def)

lemma start_facility_moves:
  assumes "start_facility d st ident = Ok st'"
  shows "moves d st st'"
proof -
  have q: "moves d st (st \<lparr> sequence_no := Suc (sequence_no st) \<rparr>)"
    using moves_sequence [of d st "book st"] by (simp add: evolves_refl)
  show ?thesis using assms q
    by (auto simp: start_facility_def Let_def dest!: act_renewal_evolves act_maturity_evolves
        intro: moves_sequence split: if_splits)
qed

lemma repay_facility_moves:
  assumes "repay_facility d flr st ident = Ok st'"
  shows "moves d st st'"
  using assms
  by (auto simp: repay_facility_def Let_def dest!: act_surplus_evolves intro: moves_sequence split: if_splits)

lemma take_inventory_moves: "moves d st (take_inventory st)"
  by (simp add: moves_def take_inventory_def evolves_refl policy_terms_def)

lemma fold_moves:
  assumes "fold_res f st xs = Ok st'" "\<And>s x s'. f s x = Ok s' \<Longrightarrow> moves d s s'"
  shows "moves d st st'"
  by (rule fold_res_inv [OF assms(1), where I = "moves d st"]) (auto intro: moves_trans assms(2))

lemma progress_take_inventory:
  "policy_log (book st) = [] \<Longrightarrow> progress d [] st (take_inventory st)"
  by (auto simp: progress_def take_inventory_def entered_def kept_def policy_terms_def)

lemma start_of_day_progress:
  assumes "start_of_day d st = Ok st'" "policy_log (book st) = []"
  shows "progress d [] st st' \<and> settled st' = settled st \<and> pending st' = pending st"
proof (cases "book_policy (book (take_inventory st))")
  case None
  then show ?thesis using assms progress_take_inventory
    by (auto simp: start_of_day_def Let_def) (auto simp: take_inventory_def)
next
  case (Some p)
  with assms(1) obtain t where t: "fold_res (start_facility d) (take_inventory st) (facility_order p) = Ok t"
    "st' = drain_log t" by (auto simp: start_of_day_def Let_def)
  have "moves d st t"
    using take_inventory_moves fold_moves [OF t(1) start_facility_moves] by (rule moves_trans)
  from drain_progress [OF this assms(2)] show ?thesis by (simp add: t(2))
qed

lemma end_of_day_progress:
  assumes "end_of_day d st = Ok st'" "policy_log (book st) = []"
  shows "progress d [] st st' \<and> settled st' = settled st \<and> pending st' = pending st"
proof (cases "\<exists>p. book_policy (book (take_inventory st)) = Some p \<and> run_repay_surplus p")
  case False
  then have "st' = take_inventory st" using assms(1)
    by (auto simp: end_of_day_def Let_def split: option.splits if_splits)
  then show ?thesis using progress_take_inventory [OF assms(2)] by (simp add: take_inventory_def)
next
  case True
  then obtain p where "book_policy (book (take_inventory st)) = Some p" "run_repay_surplus p" by blast
  with assms(1) have "\<exists>t. fold_res (repay_facility d (cash_floor p)) (take_inventory st)
      (rev (facility_order p)) = Ok t \<and> st' = drain_log t"
    by (auto simp: end_of_day_def Let_def)
  then obtain t where t: "fold_res (repay_facility d (cash_floor p)) (take_inventory st)
      (rev (facility_order p)) = Ok t" "st' = drain_log t" by blast
  have "moves d st t"
    using take_inventory_moves fold_moves [OF t(1) repay_facility_moves] by (rule moves_trans)
  from drain_progress [OF this assms(2)] show ?thesis by (simp add: t(2))
qed

definition today :: "i32 \<Rightarrow> Event list \<Rightarrow> Event list" where
  "today d es = takeWhile (\<lambda>e. event_ordinal e = d) es"

definition later :: "i32 \<Rightarrow> Event list \<Rightarrow> Event list" where
  "later d es = dropWhile (\<lambda>e. event_ordinal e = d) es"

text \<open>One day: the entries of its events, and a closing of the book it ends with.\<close>

lemma run_day_progress:
  assumes "run_day x st d = Ok st'" "policy_log (book st) = []"
  shows "\<exists>t. progress d (event_entries (settled st) (today d (pending st))) st t
      \<and> st' = t \<lparr> closings := closings st @ [book_closing (book t) d (account_lots x)] \<rparr>
      \<and> settled t = foldl settles_after (settled st) (today d (pending st))
      \<and> pending t = later d (pending st)"
proof -
  from assms(1) obtain s1 s2 t where s1: "start_of_day d st = Ok s1"
    and s2: "fold_res (run_event x) s1 (today d (pending s1)) = Ok s2"
    and t: "end_of_day d (s2 \<lparr> pending := later d (pending s1) \<rparr>) = Ok t"
    and st': "st' = t \<lparr> closings := closings t @ [book_closing (book t) d (account_lots x)] \<rparr>"
    by (auto simp: run_day_def Let_def today_def later_def)
  note p1 = start_of_day_progress [OF s1 assms(2)]
  then have l1: "policy_log (book s1) = []" by (simp add: progress_def)
  have all: "\<forall>e \<in> set (today d (pending s1)). event_ordinal e = d"
    by (auto simp: today_def dest: set_takeWhileD)
  note p2 = run_events_progress [OF s2 l1 all]
  let ?u = "s2 \<lparr> pending := later d (pending s1) \<rparr>"
  have p2': "progress d (event_entries (settled s1) (today d (pending s1))) s1 ?u"
    using p2 by (simp add: progress_def)
  then have "policy_log (book ?u) = []" by (simp add: progress_def)
  note p3 = end_of_day_progress [OF t this]
  have "progress d ([] @ event_entries (settled s1) (today d (pending s1)) @ []) st t"
    using p1 p2' p3 by (blast intro: progress_trans)
  then have p: "progress d (event_entries (settled st) (today d (pending st))) st t" using p1 by simp
  then have "closings t = closings st" by (simp add: progress_def)
  with p p1 p2 p3 st' show ?thesis by (intro exI [of _ t]) auto
qed

section \<open>The whole horizon\<close>

definition before :: "i32 \<Rightarrow> Event list \<Rightarrow> Event list" where
  "before d es = takeWhile (\<lambda>e. event_ordinal e < d) es"

definition not_before :: "i32 \<Rightarrow> Event list \<Rightarrow> Event list" where
  "not_before d es = dropWhile (\<lambda>e. event_ordinal e < d) es"

lemma before_all: "\<forall>e \<in> set es. event_ordinal e < d \<Longrightarrow> before d es = es"
  by (simp add: before_def)

lemma before_none: "\<forall>e \<in> set es. d \<le> event_ordinal e \<Longrightarrow> before d es = [] \<and> not_before d es = es"
  by (cases es) (auto simp: before_def not_before_def)

lemma next_day:
  assumes "sorted (map event_ordinal es)"
  shows "before (d + 1) es = before d es @ today d (not_before d es)"
    "not_before (d + 1) es = later d (not_before d es)"
proof -
  have "before (d + 1) es = before d es @ today d (not_before d es)
      \<and> not_before (d + 1) es = later d (not_before d es)"
    using assms
  proof (induction es)
    case Nil
    then show ?case by (simp add: before_def not_before_def today_def later_def)
  next
    case (Cons e es)
    show ?case
    proof (cases "event_ordinal e < d")
      case True
      then show ?thesis using Cons by (simp add: before_def not_before_def)
    next
      case False
      then have "\<forall>y \<in> set (e # es). d \<le> event_ordinal y" using Cons.prems by auto
      then have eq: "\<forall>y \<in> set (e # es). (event_ordinal y < d + 1) = (event_ordinal y = d)" by force
      have "takeWhile (\<lambda>y. event_ordinal y < d + 1) (e # es) = takeWhile (\<lambda>y. event_ordinal y = d) (e # es)"
        "dropWhile (\<lambda>y. event_ordinal y < d + 1) (e # es) = dropWhile (\<lambda>y. event_ordinal y = d) (e # es)"
        by (rule takeWhile_cong [OF refl]; use eq in blast) (rule dropWhile_cong [OF refl]; use eq in blast)
      then show ?thesis using False
        by (simp only: before_def not_before_def today_def later_def) simp
    qed
  qed
  then show "before (d + 1) es = before d es @ today d (not_before d es)"
    "not_before (d + 1) es = later d (not_before d es)" by auto
qed

text \<open>A closing reports the ledger that the intents dated up to it leave.\<close>

definition ledger_at :: "Ledger \<Rightarrow> Intent list \<Rightarrow> i32 \<Rightarrow> Ledger" where
  "ledger_at L is d = foldl enter L (filter (\<lambda>i. intent_ordinal i \<le> d) is)"

definition closes_on :: "Ledger \<Rightarrow> Closing \<Rightarrow> bool" where
  "closes_on L c \<longleftrightarrow> financial c = kind_sums (led_financial L) \<and> custody c = kind_sums (led_custody L)
     \<and> closing_total_cash c = led_cash L"

definition intents_inv :: "i32 \<Rightarrow> i32 \<Rightarrow> nat \<Rightarrow> Intent list \<Rightarrow> bool" where
  "intents_inv a d n is \<longleftrightarrow> sorted (map intent_ordinal is) \<and> sorted (map intent_sequence is)
     \<and> (\<forall>i \<in> set is. intent_ok i \<and> a \<le> intent_ordinal i \<and> intent_ordinal i < d \<and> intent_sequence i \<le> n)"

definition reports_inv :: "Event list \<Rightarrow> Run \<Rightarrow> bool" where
  "reports_inv es st \<longleftrightarrow> map receipt_entry (receipts st) = map step_entry (steps st)
     \<and> map receipt_entry (receipts st)
         \<in> shuffles (event_entries {} es) (map action_entry (book_decisions (book st)))"

definition closings_inv :: "i32 \<Rightarrow> i32 \<Rightarrow> Ledger \<Rightarrow> Intent list \<Rightarrow> Closing list \<Rightarrow> bool" where
  "closings_inv a d L is cs \<longleftrightarrow> map closing_ordinal cs = [a..d - 1]
     \<and> (\<forall>c \<in> set cs. closes_on (ledger_at L is (closing_ordinal c)) c
          \<and> (\<not> led_cash L < - nano \<longrightarrow> \<not> closing_total_cash c < - nano))"

definition run_inv :: "i32 \<Rightarrow> Book \<Rightarrow> Event list \<Rightarrow> i32 \<Rightarrow> Run \<Rightarrow> bool" where
  "run_inv a b es d st \<longleftrightarrow> policy_log (book st) = [] \<and> kept b (book st)
     \<and> pending st = not_before d es \<and> settled st = foldl settles_after {} (before d es)
     \<and> reports_inv (before d es) st
     \<and> ledger_of (book st) = foldl enter (ledger_of b) (book_intents (book st))
     \<and> (\<not> book_cash b < - nano \<longrightarrow> \<not> book_cash (book st) < - nano)
     \<and> intents_inv a d (sequence_no st) (book_intents (book st))
     \<and> closings_inv a d (ledger_of b) (book_intents (book st)) (closings st)"

lemma reports_inv_closings: "reports_inv es (st \<lparr> closings := cs \<rparr>) = reports_inv es st"
  by (simp add: reports_inv_def)

lemma intents_inv_extend:
  assumes "intents_inv a d m is" "a \<le> d" "m \<le> n"
    and "\<forall>i \<in> set js. intent_ok i \<and> intent_ordinal i = d \<and> m \<le> intent_sequence i \<and> intent_sequence i \<le> n"
    and "sorted (map intent_sequence js)"
  shows "intents_inv a (d + 1) n (is @ js)"
proof -
  have "map intent_ordinal js = replicate (length js) d"
    using assms(4) by (simp add: map_replicate_const [symmetric] cong: map_cong) 
  then have "sorted (map intent_ordinal js)" by simp
  with assms show ?thesis unfolding intents_inv_def by (auto simp: sorted_append) fastforce+
qed

lemma ledger_at_extend:
  assumes "\<forall>i \<in> set js. intent_ordinal i = d" "k < d"
  shows "ledger_at L (is @ js) k = ledger_at L is k"
proof -
  have "filter (\<lambda>i. intent_ordinal i \<le> k) js = []" using assms by (auto simp: filter_empty_conv)
  then show ?thesis by (simp add: ledger_at_def)
qed

lemma book_closing_simps [simp]:
  "closing_ordinal (book_closing b d ls) = d" "financial (book_closing b d ls) = kind_sums (book_financial b)"
  "custody (book_closing b d ls) = kind_sums (book_custody b)"
  "closing_total_cash (book_closing b d ls) = book_cash b"
  by (simp_all add: book_closing_def)

lemma closings_inv_extend:
  assumes inv: "closings_inv a d L is cs" and "a \<le> d" "\<forall>i \<in> set is. intent_ordinal i < d"
    and js: "\<forall>i \<in> set js. intent_ordinal i = d" and led: "ledger_of b = foldl enter L (is @ js)"
    and cash: "\<not> led_cash L < - nano \<longrightarrow> \<not> book_cash b < - nano"
  shows "closings_inv a (d + 1) L (is @ js) (cs @ [book_closing b d ls])"
proof -
  have days: "map closing_ordinal cs = [a..d - 1]" using inv by (simp add: closings_inv_def)
  have old: "closing_ordinal c < d" if "c \<in> set cs" for c
  proof -
    have "closing_ordinal c \<in> set (map closing_ordinal cs)" using that by simp
    then show ?thesis unfolding days by simp
  qed
  have "filter (\<lambda>i. intent_ordinal i \<le> d) (is @ js) = is @ js"
    using assms(3) js by (intro filter_True) auto
  then have "ledger_at L (is @ js) d = ledger_of b" by (simp only: ledger_at_def led)
  then have "closes_on (ledger_at L (is @ js) d) (book_closing b d ls)" by (simp add: closes_on_def)
  moreover have "[a..d] = [a..d - 1] @ [d]" using \<open>a \<le> d\<close> by (rule upto_rec2)
  ultimately show ?thesis
    using inv cash old days by (auto simp: closings_inv_def ledger_at_extend [OF js])
qed

lemma run_inv_step:
  assumes inv: "run_inv a b es d st" and es: "sorted (map event_ordinal es)" and "a \<le> d"
    and run: "run_day x st d = Ok st'"
  shows "run_inv a b es (d + 1) st'"
proof -
  have log: "policy_log (book st) = []" and pend: "pending st = not_before d es"
    and sett: "settled st = foldl settles_after {} (before d es)"
    and led: "ledger_of (book st) = foldl enter (ledger_of b) (book_intents (book st))"
    and ii: "intents_inv a d (sequence_no st) (book_intents (book st))"
    using inv by (simp_all add: run_inv_def)
  from run_day_progress [OF run log] obtain t where
    p: "progress d (event_entries (settled st) (today d (pending st))) st t"
    and st': "st' = t \<lparr> closings := closings st @ [book_closing (book t) d (account_lots x)] \<rparr>"
    and t: "settled t = foldl settles_after (settled st) (today d (pending st))" "pending t = later d (pending st)"
    by blast
  from p obtain js where js: "book_intents (book t) = book_intents (book st) @ js"
    "ledger_of (book t) = foldl enter (ledger_of (book st)) js"
    "\<forall>i \<in> set js. intent_ok i \<and> intent_ordinal i = d \<and> sequence_no st \<le> intent_sequence i \<and> intent_sequence i \<le> sequence_no t"
    "sorted (map intent_sequence js)" "js = [] \<or> \<not> book_cash (book t) < - nano" "sequence_no st \<le> sequence_no t"
    unfolding progress_def entered_def by blast
  have led': "ledger_of (book t) = foldl enter (ledger_of b) (book_intents (book st) @ js)"
    using js(2) led by simp
  have cash: "\<not> book_cash b < - nano \<longrightarrow> \<not> book_cash (book t) < - nano"
  proof (cases "js = []")
    case True
    then have "book_cash (book t) = book_cash (book st)"
      using js(2) by (metis foldl_Nil ledger_of_simps(1))
    then show ?thesis using inv by (simp add: run_inv_def)
  qed (use js(5) in simp)
  have "reports_inv (before (d + 1) es) t"
  proof -
    from p obtain ds rs ss where "book_decisions (book t) = book_decisions (book st) @ ds"
      "receipts t = receipts st @ rs" "steps t = steps st @ ss" "map receipt_entry rs = map step_entry ss"
      "map receipt_entry rs \<in> shuffles (event_entries (settled st) (today d (pending st))) (map action_entry ds)"
      unfolding progress_def by blast
    moreover have "reports_inv (before d es) st" using inv by (simp add: run_inv_def)
    ultimately show ?thesis
      by (auto simp: reports_inv_def next_day(1) [OF es] sett pend intro: shuffles_append)
  qed
  moreover have "intents_inv a (d + 1) (sequence_no t) (book_intents (book t))"
    unfolding js(1) by (rule intents_inv_extend [OF ii \<open>a \<le> d\<close> js(6,3,4)])
  moreover have "closings_inv a (d + 1) (ledger_of b) (book_intents (book t)) (closings st')"
  proof -
    have c: "closings_inv a d (ledger_of b) (book_intents (book st)) (closings st)"
      using inv by (simp add: run_inv_def)
    have "\<forall>i \<in> set (book_intents (book st)). intent_ordinal i < d" using ii by (simp add: intents_inv_def)
    from closings_inv_extend [OF c \<open>a \<le> d\<close> this _ led'] js(3) cash
    show ?thesis by (simp add: st' js(1))
  qed
  moreover have "kept b (book t)" using inv p by (auto simp: run_inv_def progress_def intro: kept_trans)
  moreover have "policy_log (book t) = []" using p by (simp add: progress_def)
  ultimately show ?thesis
    using t led' cash by (simp add: run_inv_def st' js(1) next_day [OF es] sett pend reports_inv_closings)
qed

section \<open>The opening\<close>

definition custody_of :: "accounts \<Rightarrow> MarginAgreement \<Rightarrow> accounts" where
  "custody_of m a = (case opening_collateral a of None \<Rightarrow> m | Some c \<Rightarrow>
     (let v = opening_received_im_custody c in
      if 0 < v then om_add (CustodyObligation, agreement_id a) (- v) (om_add (CustodyAsset, agreement_id a) v m)
      else m))"

definition opening_custody :: "Execution \<Rightarrow> accounts" where
  "opening_custody x = foldl custody_of [] (margin_agreements (exec_plan x))"

definition opening_ledger :: "Execution \<Rightarrow> AcquisitionJournal \<Rightarrow> Ledger" where
  "opening_ledger x j = \<lparr> led_financial = open_financial (opening_lines j), led_custody = opening_custody x,
     led_cash = journal_opening_cash j, led_settled = 0 \<rparr>"

text \<open>What the opening of collateral and pledges leaves alone.\<close>

definition unopened :: "Run \<Rightarrow> Run" where
  "unopened st = st \<lparr> vm_posted := 0, vm_received := 0, im_posted := 0, im_received := 0,
     book := (book st) \<lparr> book_custody := [], book_restricted := 0 \<rparr> \<rparr>"

lemma open_agreement_frame:
  "unopened (snd (open_agreement (s, st) a)) = unopened st"
  "book_custody (book (snd (open_agreement (s, st) a))) = custody_of (book_custody (book st)) a"
  by (auto simp: open_agreement_def unopened_def custody_of_def open_custody_def restrict_cash_def Let_def
      split: option.splits)

lemma open_agreements_frame:
  "unopened (snd (foldl open_agreement (s, st) as)) = unopened st
   \<and> book_custody (book (snd (foldl open_agreement (s, st) as))) = foldl custody_of (book_custody (book st)) as"
proof (induction as arbitrary: s st)
  case (Cons a as)
  obtain s' st' where o: "open_agreement (s, st) a = (s', st')" by (cases "open_agreement (s, st) a")
  show ?case using Cons.IH [of s' st'] open_agreement_frame [of s st a] by (simp add: o)
qed simp

lemma unopened_fields:
  assumes "unopened st' = unopened st"
  shows "sequence_no st' = sequence_no st" "derivative_carrying st' = derivative_carrying st"
    "settled st' = settled st" "receipts st' = receipts st" "steps st' = steps st"
    "closings st' = closings st" "pending st' = pending st"
    "book_intents (book st') = book_intents (book st)" "book_decisions (book st') = book_decisions (book st)"
    "policy_log (book st') = policy_log (book st)" "book_cash (book st') = book_cash (book st)"
    "book_settled (book st') = book_settled (book st)" "book_facilities (book st') = book_facilities (book st)"
    "book_policy (book st') = book_policy (book st)" "book_pledge_left (book st') = book_pledge_left (book st)"
  using assms by (cases st; cases st'; cases "book st"; cases "book st'"; simp add: unopened_def)+

lemma open_pledges_frame:
  defines "u \<equiv> \<lambda>b. b \<lparr> book_pledged := [], book_pledge_left := [] \<rparr>"
  shows "u (foldl (open_pledge x) b ps) = u b"
  by (induction ps arbitrary: b) (simp_all add: u_def open_pledge_def)

lemma pledge_fields:
  assumes "b' \<lparr> book_pledged := [], book_pledge_left := [] \<rparr> = b \<lparr> book_pledged := [], book_pledge_left := [] \<rparr>"
  shows "book_custody b' = book_custody b" "book_intents b' = book_intents b"
    "book_decisions b' = book_decisions b" "policy_log b' = policy_log b" "book_cash b' = book_cash b"
    "book_settled b' = book_settled b" "book_facilities b' = book_facilities b" "book_policy b' = book_policy b"
  using assms by (cases b; cases b'; simp)+

lemma open_book_start:
  assumes "open_book x account es b = (ls, assets, liabilities, st)"
    and b: "book_custody b = []" "book_intents b = []" "book_decisions b = []" "policy_log b = []"
  shows "sequence_no st = 0" "settled st = {}" "receipts st = []" "steps st = []" "closings st = []"
    "pending st = es" "book_intents (book st) = []" "book_decisions (book st) = []" "policy_log (book st) = []"
    "book_cash (book st) = book_cash b" "book_settled (book st) = book_settled b"
    "book_custody (book st) = opening_custody x" "book_financial (book st) = open_financial ls"
    "book_facilities (book st) = book_facilities b" "book_policy (book st) = book_policy b"
proof -
  define b1 where "b1 = foldl (open_pledge x) b (pledges (exec_plan x))"
  note pf = pledge_fields [OF open_pledges_frame [of x b "pledges (exec_plan x)"], folded b1_def]
  from assms(1) obtain s0 c0 s1 st1 where
    fo: "foldl open_agreement (s0, fresh_run b1 c0 es) (margin_agreements (exec_plan x)) = (s1, st1)"
    and st: "st = st1 \<lparr> book := (book st1) \<lparr> book_financial := open_financial ls \<rparr> \<rparr>"
    by (auto simp: open_book_def Let_def b1_def split: prod.splits)
  have fr: "unopened st1 = unopened (fresh_run b1 c0 es)"
    "book_custody (book st1) = foldl custody_of (book_custody b1) (margin_agreements (exec_plan x))"
    using open_agreements_frame [of s0 "fresh_run b1 c0 es" "margin_agreements (exec_plan x)"]
    by (simp_all add: fo, simp add: fresh_run_def)
  note uf = unopened_fields [OF fr(1)]
  show "sequence_no st = 0" "settled st = {}" "receipts st = []" "steps st = []" "closings st = []"
    "pending st = es" "book_intents (book st) = []" "book_decisions (book st) = []" "policy_log (book st) = []"
    "book_cash (book st) = book_cash b" "book_settled (book st) = book_settled b"
    "book_custody (book st) = opening_custody x" "book_financial (book st) = open_financial ls"
    "book_facilities (book st) = book_facilities b" "book_policy (book st) = book_policy b"
    using uf pf b fr(2) by (simp_all add: st fresh_run_def opening_custody_def)
qed

lemma arm_policy_fields:
  assumes "arm_policy x b = Ok b'"
  shows "book_custody b' = book_custody b" "book_intents b' = book_intents b"
    "book_decisions b' = book_decisions b" "policy_log b' = policy_log b" "book_cash b' = book_cash b"
    "book_settled b' = book_settled b" "book_facilities b' = book_facilities b"
  using assms by (auto simp: arm_policy_def Let_def split: option.splits)

text \<open>The run behind an accepted journal.\<close>

lemma replay_Ok:
  assumes "replay_with_margin x = Ok j"
  obtains account es st b where "admit_execution x = Ok (account, es)" "events_ok x es"
    "run_inv (asof x) b es (horizon_end x + 1) st" "reports_inv es st"
    "ledger_of b = opening_ledger x j" "intents j = book_intents (book st)" "daily j = closings st"
    "receipt_events (receipt j) = receipts st" "receipt_steps (receipt j) = steps st"
    "receipt_policy_decisions (receipt j) = book_decisions (book st)"
    "receipt_closing_cash (receipt j) = book_cash (book st)"
    "settled_cash_movements (receipt j) = book_settled (book st)"
    "journal_as_of_ordinal j = asof x" "tail_ordinal j = horizon_end x"
proof -
  from assms obtain a where a: "admit_execution x = Ok a" by (auto simp: replay_with_margin_def)
  obtain account es where "a = (account, es)" by (cases a)
  with a have adm: "admit_execution x = Ok (account, es)" by simp
  from assms adm obtain b0 where arm: "arm_policy x (empty_book x account) = Ok b0"
    by (auto simp: replay_with_margin_def)
  obtain ls assets liabilities st0 where opn: "open_book x account es b0 = (ls, assets, liabilities, st0)"
    by (cases "open_book x account es b0")
  from assms obtain op st where run: "fold_res (run_day x) st0 [asof x..horizon_end x] = Ok st"
    and cl: "close_run x account (ls, assets, liabilities) op st = Ok j"
    by (auto simp: replay_with_margin_def Let_def adm arm opn)
  note ok = admit_execution_Ok [OF adm]
  have srt: "sorted (map event_ordinal es)" and rng: "\<forall>e \<in> set es. asof x < event_ordinal e \<and> event_ordinal e \<le> horizon_end x"
    using ok(1) by (auto simp: events_ok_def)
  note af = arm_policy_fields [OF arm]
  note o = open_book_start [OF opn]
  have e: "book_custody b0 = []" "book_intents b0 = []" "book_decisions b0 = []" "policy_log b0 = []"
    using af by (simp_all add: empty_book_def Let_def)
  have none: "before (asof x) es = [] \<and> not_before (asof x) es = es"
    using rng by (intro before_none) auto
  have start: "run_inv (asof x) (book st0) es (asof x) st0"
    using o [OF e] none
    by (simp add: run_inv_def reports_inv_def intents_inv_def closings_inv_def)
  have fin: "run_inv (asof x) (book st0) es (horizon_end x + 1) st"
  proof (rule fold_upto_inv [OF run, where I = "run_inv (asof x) (book st0) es"])
    show "asof x \<le> horizon_end x + 1" using ok(4) by simp
    fix d s s' assume "asof x \<le> d" "run_inv (asof x) (book st0) es d s" "run_day x s d = Ok s'"
    then show "run_inv (asof x) (book st0) es (d + 1) s'" using run_inv_step srt by blast
  qed (rule start)
  have all: "before (horizon_end x + 1) es = es" using rng by (intro before_all) auto
  from cl obtain ms where j: "j = \<lparr> journal_account_id = exec_account x,
      journal_scenario_id = acq_scenario_id (exec_request x),
      journal_as_of_ordinal = asof x, tail_ordinal = horizon_end x,
      journal_opening_cash = account_cash account, journal_opening_equity = equity account,
      opening_stocks = (assets, liabilities), opening_lines = ls,
      intents = book_intents (book st), daily = closings st, receipt = receipt_of account x ms st \<rparr>"
    by (auto simp: close_run_def Let_def)
  have led: "ledger_of (book st0) = opening_ledger x j"
    using o [OF e] af by (simp add: ledger_of_def opening_ledger_def j empty_book_def Let_def)
  show ?thesis
  proof (rule that [OF adm ok(1) fin _ led])
    show "reports_inv es st" using fin all by (simp add: run_inv_def)
  qed (simp_all add: j receipt_of_def Let_def)
qed

section \<open>Theorems\<close>

text \<open>
  C7. The journal reproduces the books: there is one closing per day of the horizon, and the
  financial and custody balances and the cash it reports are, bit for bit, what the opening
  ledger and the intents dated up to that day give when they are posted again in order; the
  receipt's closing cash and settled movements are what all intents give.
\<close>

theorem closings_replay_journal:
  assumes "replay_with_margin x = Ok j"
  shows "map closing_ordinal (daily j) = [asof x..horizon_end x]
    \<and> (\<forall>c \<in> set (daily j). closes_on (ledger_at (opening_ledger x j) (intents j) (closing_ordinal c)) c)
    \<and> receipt_closing_cash (receipt j) = led_cash (foldl enter (opening_ledger x j) (intents j))
    \<and> settled_cash_movements (receipt j) = led_settled (foldl enter (opening_ledger x j) (intents j))"
proof -
  from assms obtain account es st b where r: "run_inv (asof x) b es (horizon_end x + 1) st"
    "ledger_of b = opening_ledger x j" "intents j = book_intents (book st)" "daily j = closings st"
    "receipt_closing_cash (receipt j) = book_cash (book st)"
    "settled_cash_movements (receipt j) = book_settled (book st)"
    by (rule replay_Ok)
  from r(1) have "closings_inv (asof x) (horizon_end x + 1) (ledger_of b) (intents j) (daily j)"
    "ledger_of (book st) = foldl enter (ledger_of b) (intents j)"
    using r(3,4) by (simp_all add: run_inv_def)
  then show ?thesis
    using r(2,5,6) ledger_of_simps(1,4) [of "book st"] by (simp add: closings_inv_def)
qed

text \<open>
  C9. Every intent of the journal is sound: nonempty, without zero lines, a posting whose float
  total is near zero, all custody memo or all financial, dated inside the horizon; the dates and
  the sequence numbers never go back.
\<close>

theorem journal_intents_sound:
  assumes "replay_with_margin x = Ok j"
  shows "(\<forall>i \<in> set (intents j). intent_ok i \<and> asof x \<le> intent_ordinal i \<and> intent_ordinal i \<le> horizon_end x)
    \<and> sorted (map intent_ordinal (intents j)) \<and> sorted (map intent_sequence (intents j))"
proof -
  from assms obtain account es st b where r: "run_inv (asof x) b es (horizon_end x + 1) st"
    "intents j = book_intents (book st)"
    by (rule replay_Ok)
  then have "intents_inv (asof x) (horizon_end x + 1) (sequence_no st) (intents j)"
    by (simp add: run_inv_def)
  then show ?thesis by (auto simp: intents_inv_def)
qed

lemma settled_ids:
  "foldl settles_after D es = D \<union> {i. \<exists>d. (i, d, EventSettled) \<in> set (event_entries D es)}"
proof (induction es arbitrary: D)
  case (Cons e es)
  show ?case
    by (auto simp: Cons.IH [of "settles_after D e"]) (auto simp: settles_after_def event_entry_def)
qed simp

text \<open>
  C8. Every admitted event is reported exactly once, in settlement order, interleaved with the
  recorded policy actions and nothing else, and the liquidity steps report the same. The status
  of an event is the one its dependencies give it: failed when its instruction failed, settled
  when everything it depends on settled, blocked otherwise.
\<close>

theorem journal_reports_events:
  assumes "replay_with_margin x = Ok j"
  shows "\<exists>account es S. admit_execution x = Ok (account, es)
    \<and> S = event_id ` {e \<in> set es. event_status S e = EventSettled}
    \<and> map receipt_entry (receipt_events (receipt j))
        \<in> shuffles (map (event_entry S) es) (map action_entry (receipt_policy_decisions (receipt j)))
    \<and> map step_entry (receipt_steps (receipt j)) = map receipt_entry (receipt_events (receipt j))"
proof -
  from assms obtain account es st b where adm: "admit_execution x = Ok (account, es)" and ok: "events_ok x es"
    and rep: "reports_inv es st" and r: "receipt_events (receipt j) = receipts st"
      "receipt_steps (receipt j) = steps st" "receipt_policy_decisions (receipt j) = book_decisions (book st)"
    by (rule replay_Ok)
  let ?S = "foldl settles_after {} es"
  have fp: "event_entries {} es = map (event_entry ?S) es"
    by (rule event_entries_fixpoint) (use ok in \<open>simp_all add: events_ok_def\<close>)
  have S: "?S = event_id ` {e \<in> set es. event_status ?S e = EventSettled}"
    by (subst settled_ids) (auto simp: fp event_entry_def image_iff, metis)
  from rep have rep: "map receipt_entry (receipts st) \<in> shuffles (map (event_entry ?S) es)
      (map action_entry (book_decisions (book st)))" "map step_entry (steps st) = map receipt_entry (receipts st)"
    unfolding reports_inv_def fp by auto
  show ?thesis unfolding r using adm S rep by blast
qed

text \<open>
  C10. Cash is never overdrawn: an account that does not open more than a billionth below zero
  closes no day there, whatever settles, fails or is blocked.
\<close>

theorem cash_never_overdrawn:
  assumes "replay_with_margin x = Ok j" "\<not> journal_opening_cash j < - nano" "c \<in> set (daily j)"
  shows "\<not> closing_total_cash c < - nano"
proof -
  from assms(1) obtain account es st b where r: "run_inv (asof x) b es (horizon_end x + 1) st"
    "ledger_of b = opening_ledger x j" "intents j = book_intents (book st)" "daily j = closings st"
    by (rule replay_Ok)
  then have "closings_inv (asof x) (horizon_end x + 1) (opening_ledger x j) (intents j) (daily j)"
    by (simp add: run_inv_def)
  with assms(2,3) show ?thesis by (auto simp: closings_inv_def opening_ledger_def)
qed

end
