(* ===== verification/Whole_Amounts.thy ===== *)
theory Whole_Amounts
  imports Acquisition_Book Lifecycle_Limits
begin

text \<open>
  Amounts in whole currency units: float arithmetic on them is exact below 2 to the 53, so the
  tolerance of \<open>near\<close> leaves no room and totals of balances are totals of what was posted.
\<close>

section \<open>Whole numbers\<close>

definition units :: "f64 \<Rightarrow> int \<Rightarrow> bool" where
  "units x k \<longleftrightarrow> is_finite x \<and> val x = of_int k"

lemma units_of_int: "\<bar>k\<bar> \<le> 2 ^ 53 \<Longrightarrow> units (f64_of_int k) k"
  using int_val [of k] by (simp add: units_def)

lemma units_zero [simp]: "units 0 0" "units (- 0) 0"
  by (simp_all add: units_def)

lemma units_neg: "units x k \<Longrightarrow> units (- x) (- k)"
  by (simp add: units_def)

lemma units_add: "units x a \<Longrightarrow> units y b \<Longrightarrow> \<bar>a + b\<bar> \<le> 2 ^ 53 \<Longrightarrow> units (x + y) (a + b)"
  using exact_add [of x y a b] by (simp add: units_def)

lemma units_sub: "units x a \<Longrightarrow> units y b \<Longrightarrow> \<bar>a - b\<bar> \<le> 2 ^ 53 \<Longrightarrow> units (x - y) (a - b)"
  using units_add [OF _ units_neg, of x a y b] by (simp add: minus_is_add)

lemma nano_facts: "is_finite nano" "0 \<le> val nano" "val nano < 1"
proof -
  have n: "nano = f64_lit 1 1000000000" by (simp add: nano_def)
  have "p2 (- 29) < (1 :: real)" by (simp add: p2_small)
  with lit_nano show "is_finite nano" "0 \<le> val nano" "val nano < 1" unfolding n by auto
qed

lemma nano_not_nan: "nano \<noteq> NaN"
  using nano_facts(1) by auto

lemma near_nano: "fabs (a - b) \<le> nano \<Longrightarrow> near a b"
  unfolding near_def nano_def [symmetric] by (rule f64_le_trans [OF _ fmax_ge(1) [OF nano_not_nan]])

lemma fabs_zero: "is_finite x \<Longrightarrow> val x = 0 \<Longrightarrow> val (fabs x) = 0"
  by (cases x) (auto split: if_splits)

lemma near_units: "units a k \<Longrightarrow> units b k \<Longrightarrow> near a b"
proof -
  assume "units a k" "units b k"
  then have "units (a - b) 0" using units_sub [of a k b k] by simp
  then have "is_finite (a - b)" "val (a - b) = 0" by (simp_all add: units_def)
  then have "is_finite (fabs (a - b))" "val (fabs (a - b)) = 0" using fabs_zero by simp_all
  then show ?thesis using nano_facts(1,2) by (intro near_nano) simp
qed

lemma units_not_low: "units x k \<Longrightarrow> 0 \<le> k \<Longrightarrow> \<not> x < - nano"
  using nano_facts by (simp add: units_def)

lemma units_not_zero: "units x k \<Longrightarrow> k \<noteq> 0 \<Longrightarrow> \<not> feq x 0"
  by (simp add: units_def)

section \<open>Sums of amounts\<close>

definition whole_amt :: "f64 \<Rightarrow> bool" where
  "whole_amt x \<longleftrightarrow> is_finite x \<and> val x \<in> \<int>"

definition gross :: "f64 list \<Rightarrow> real" where
  "gross xs = (\<Sum>x\<leftarrow>xs. \<bar>val x\<bar>)"

definition net :: "f64 list \<Rightarrow> real" where
  "net xs = (\<Sum>x\<leftarrow>xs. val x)"

lemma gross_simps [simp]: "gross [] = 0" "gross (x # xs) = \<bar>val x\<bar> + gross xs" "gross (xs @ ys) = gross xs + gross ys"
  by (simp_all add: gross_def)

lemma net_simps [simp]: "net [] = 0" "net (x # xs) = val x + net xs" "net (xs @ ys) = net xs + net ys"
  by (simp_all add: net_def)

lemma gross_nonneg [simp]: "0 \<le> gross xs"
  by (induction xs) simp_all

lemma net_le_gross: "\<bar>net xs\<bar> \<le> gross xs"
  by (induction xs) simp_all

lemma gross_mem: "x \<in> set xs \<Longrightarrow> \<bar>val x\<bar> \<le> gross xs"
proof (induction xs)
  case (Cons y xs)
  then show ?case using gross_nonneg [of xs] by auto
qed simp

lemma whole_zero [simp]: "whole_amt 0" "whole_amt (- 0)"
  by (simp_all add: whole_amt_def)

lemma whole_neg [simp]: "whole_amt (- x) = whole_amt x"
  by (simp add: whole_amt_def)

lemma whole_units: "whole_amt x \<Longrightarrow> \<exists>k. units x k \<and> val x = of_int k"
  by (auto simp: whole_amt_def units_def elim: Ints_cases)

lemma whole_of_int [simp]: "\<bar>k\<bar> \<le> 2 ^ 53 \<Longrightarrow> whole_amt (f64_of_int k)"
  using int_val [of k] by (simp add: whole_amt_def)

lemma whole_amt_add:
  assumes "whole_amt x" "whole_amt y" "\<bar>val x + val y\<bar> \<le> 2 ^ 53"
  shows "whole_amt (x + y)" "val (x + y) = val x + val y" "f64_ok (x + y)"
proof -
  obtain a b where u: "units x a" "units y b" "val x = of_int a" "val y = of_int b"
    using assms(1,2) whole_units by blast
  have "\<bar>real_of_int (a + b)\<bar> \<le> 2 ^ 53" using assms(3) u by simp
  then have "\<bar>a + b\<bar> \<le> 2 ^ 53" by (metis of_int_abs of_int_le_iff of_int_numeral of_int_power)
  from units_add [OF u(1,2) this] show "whole_amt (x + y)" "val (x + y) = val x + val y"
    using u by (simp_all add: whole_amt_def units_def)
  show "f64_ok (x + y)" using u by (intro rounds_to_ok [OF add_rounds]) (simp_all add: units_def)
qed

lemma whole_amt_sub:
  assumes "whole_amt x" "whole_amt y" "\<bar>val x - val y\<bar> \<le> 2 ^ 53"
  shows "whole_amt (x - y)" "val (x - y) = val x - val y" "f64_ok (x - y)"
  using whole_amt_add [of x "- y"] assms by (simp_all add: minus_is_add)

lemma whole_foldl:
  assumes "whole_amt x" "\<forall>y \<in> set ys. whole_amt y" "\<bar>val x\<bar> + gross ys \<le> 2 ^ 53"
  shows "whole_amt (foldl (+) x ys) \<and> val (foldl (+) x ys) = val x + net ys
    \<and> (f64_ok x \<longrightarrow> f64_ok (foldl (+) x ys))"
  using assms
proof (induction ys arbitrary: x)
  case (Cons y ys)
  have "\<bar>val x + val y\<bar> \<le> 2 ^ 53" using Cons.prems(3) [unfolded gross_simps] gross_nonneg [of ys] by linarith
  note a = whole_amt_add [OF Cons.prems(1) _ this]
  have y: "whole_amt y" "\<forall>y \<in> set ys. whole_amt y" using Cons.prems(2) by simp_all
  have "\<bar>val (x + y)\<bar> + gross ys \<le> 2 ^ 53"
    using a(2) [OF y(1)] Cons.prems(3) [unfolded gross_simps] by linarith
  from Cons.IH [OF a(1) [OF y(1)] y(2) this] show ?case using a(2,3) [OF y(1)] by simp
qed simp

lemma whole_fsum:
  "\<forall>y \<in> set ys. whole_amt y \<Longrightarrow> gross ys \<le> 2 ^ 53 \<Longrightarrow> whole_amt (fsum ys) \<and> val (fsum ys) = net ys \<and> f64_ok (fsum ys)"
  using whole_foldl [of "- 0" ys] by (simp add: fsum_def)

section \<open>Near is equal\<close>

lemma lit_pico: "is_finite (f64_lit 1 (10 ^ 12))" "0 \<le> val (f64_lit 1 (10 ^ 12))"
  "val (f64_lit 1 (10 ^ 12)) \<le> p2 (- 39)"
proof -
  have r: "rounds_to (f64_lit 1 (10 ^ 12)) (1 / 10 ^ 12)"
    using lit_rounds [of "10 ^ 12" 1] by simp
  have "p2 (- 39) = 1 / (549755813888 :: real)" by (simp add: power_int_def power_divide)
  then have b: "\<bar>1 / 10 ^ 12 :: real\<bar> \<le> p2 (- 39)" "p2 (- 39) < huge"
    by (simp) (simp only: huge_def p2_less_iff)
  note f = rounds_to_bound [OF r b(1) dbl_p2 b(2)]
  show "is_finite (f64_lit 1 (10 ^ 12))" using f by simp
  show "0 \<le> val (f64_lit 1 (10 ^ 12))" using f(2) rne.rd_nonneg [of "1 / 10 ^ 12"] by simp
  show "val (f64_lit 1 (10 ^ 12)) \<le> p2 (- 39)" using f(4) by simp
qed

lemma near_zero:
  assumes t: "whole_amt t" "f64_ok t" "\<bar>val t\<bar> \<le> 2 ^ 53" and n: "near t 0"
  shows "val t = 0"
proof (rule ccontr)
  assume nz: "val t \<noteq> 0"
  let ?l = "f64_lit 1 (10 ^ 12)" and ?m = "fmax (fabs t) (fabs 0)" and ?a = "\<bar>val t\<bar>"
  have ok: "is_finite t" "f64_ok t" using t(1,2) by (simp_all add: whole_amt_def)
  have a1: "1 \<le> ?a" using whole_units [OF t(1)] nz by auto
  have m: "is_finite ?m" "val ?m = ?a" "f64_ok ?m"
    using ok fmax_val [of "fabs t" "fabs 0"] by simp_all
  have p: "0 \<le> val ?l * ?a" "val ?l * ?a \<le> p2 (- 39) * ?a"
    using lit_pico(2) mult_right_mono [OF lit_pico(3), of ?a] by simp_all
  have "p2 (- 39) * ?a \<le> p2 (- 39) * p2 53" using t(3) by (intro mult_left_mono) (simp_all add: power_int_def)
  then have "p2 (- 39) * ?a \<le> p2 14" by (simp flip: p2_add)
  with p have "\<bar>val ?l * ?a\<bar> \<le> p2 14" by simp
  moreover have "p2 14 < huge" by (simp add: huge_def)
  ultimately have r: "is_finite (?l * ?m)" "val (?l * ?m) = rnd (val ?l * ?a)"
    using rounds_to_bound [OF mul_rounds [OF lit_pico(1) m(1) _ m(3)] _ dbl_p2, of 14] m(2) by simp_all
  have "\<bar>rnd (val ?l * ?a) - val ?l * ?a\<bar> \<le> val ?l * ?a" using rnd_nearest [of 0 "val ?l * ?a"] p(1) by simp
  then have "val (?l * ?m) \<le> 2 * (p2 (- 39) * ?a)" using r(2) p(2) by linarith
  also have "\<dots> = p2 (- 38) * ?a" using p2_add [of 1 "- 39"] by simp
  also have "\<dots> < p2 0 * ?a" using a1 by (intro mult_strict_right_mono) (simp_all only: p2_less_iff)
  also have "\<dots> = ?a" by simp
  finally have small: "val (?l * ?m) < ?a" .
  have d: "t - 0 = t + - 0" by (simp add: minus_is_add)
  have dv: "is_finite (fabs (t - 0))" "val (fabs (t - 0)) = ?a"
    using whole_amt_sub [OF t(1), of 0] t(3) by (simp_all add: whole_amt_def)
  have nn: "is_finite (f64_lit 1 (10 ^ 9))" "val (f64_lit 1 (10 ^ 9)) < 1"
    using nano_facts by (simp_all add: nano_def)
  have "val (fabs (t - 0)) \<le> max (val (f64_lit 1 (10 ^ 9))) (val (?l * ?m))"
    using n dv(1) nn(1) r(1) fmax_val [OF nn(1) r(1)] by (simp add: near_def)
  with dv(2) small nn(2) a1 show False by simp
qed

section \<open>Sorted maps of amounts\<close>

abbreviation amounts :: "('k \<times> f64) list \<Rightarrow> f64 list" where
  "amounts m \<equiv> map snd m"

definition acc_sum :: "(f64 \<Rightarrow> real) \<Rightarrow> ('k \<times> f64) list \<Rightarrow> real" where
  "acc_sum f m = (\<Sum>e\<leftarrow>m. f (snd e))"

lemma acc_sums: "acc_sum val m = net (amounts m)" "acc_sum (\<lambda>x. \<bar>val x\<bar>) m = gross (amounts m)"
  by (induction m) (simp_all add: acc_sum_def)

lemma om_or_absent: "k \<notin> fst ` set m \<Longrightarrow> om_or m k = 0"
  by (simp add: om_or_def map_of_eq_None_iff [THEN iffD2])

lemma om_put_sum:
  "om_sorted m \<Longrightarrow> f 0 = 0 \<Longrightarrow> acc_sum f (om_put k v m) = acc_sum f m - f (om_or m k) + f v"
proof (induction m)
  case (Cons e m)
  obtain k' v' where e: "e = (k', v')" by (cases e)
  have "k < k' \<Longrightarrow> om_or m k = 0" using Cons.prems(1) by (intro om_or_absent) (auto simp: e)
  moreover have "om_or ((k', v') # m) k = (if k = k' then v' else om_or m k)" by (simp add: om_or_def)
  ultimately show ?case using Cons by (auto simp: e acc_sum_def)
qed (simp add: acc_sum_def om_or_def)

lemma om_or_gross: "\<bar>val (om_or m k)\<bar> \<le> gross (amounts m)"
proof (cases "map_of m k")
  case (Some v)
  then have "v \<in> set (amounts m)" by (force dest: map_of_SomeD)
  with gross_mem show ?thesis using Some by (auto simp: om_or_def)
qed (simp add: om_or_def)

definition sound_map :: "('k :: linorder \<times> f64) list \<Rightarrow> bool" where
  "sound_map m \<longleftrightarrow> om_sorted m \<and> (\<forall>x \<in> set (amounts m). whole_amt x)"

lemma sound_or: "sound_map m \<Longrightarrow> whole_amt (om_or m k)"
  by (fastforce simp: sound_map_def om_or_def split: option.splits dest: map_of_SomeD)

lemma om_put_values: "set (amounts (om_put k v m)) \<subseteq> insert v (set (amounts m))"
proof (induction m)
  case (Cons e m)
  obtain k' v' where e: "e = (k', v')" by (cases e)
  show ?case using Cons by (simp add: e) blast
qed simp

lemma om_add_sound:
  assumes m: "sound_map m" and d: "whole_amt d" and g: "gross (amounts m) + \<bar>val d\<bar> \<le> 2 ^ 53"
  shows "sound_map (om_add k d m)" "net (amounts (om_add k d m)) = net (amounts m) + val d"
    "gross (amounts (om_add k d m)) \<le> gross (amounts m) + \<bar>val d\<bar>"
proof -
  have "\<bar>val (om_or m k) + val d\<bar> \<le> 2 ^ 53" using om_or_gross [of m k] g by linarith
  note w = whole_amt_add [OF sound_or [OF m] d this]
  show "sound_map (om_add k d m)"
    using m w(1) om_put_values [of k "om_or m k + d" m] by (fastforce simp: sound_map_def om_add_def)
  have s: "om_sorted m" using m by (simp add: sound_map_def)
  show "net (amounts (om_add k d m)) = net (amounts m) + val d"
    using om_put_sum [OF s, of val k "om_or m k + d"] w(2) by (simp add: om_add_def flip: acc_sums)
  show "gross (amounts (om_add k d m)) \<le> gross (amounts m) + \<bar>val d\<bar>"
    using om_put_sum [OF s, of "\<lambda>x. \<bar>val x\<bar>" k "om_or m k + d"] w(2)
    by (simp add: om_add_def flip: acc_sums)
qed

lemma post_all_sound:
  assumes "sound_map m" "\<forall>x \<in> set (amounts es). whole_amt x" "gross (amounts m) + gross (amounts es) \<le> 2 ^ 53"
  shows "sound_map (om.post_all es m)
    \<and> net (amounts (om.post_all es m)) = net (amounts m) + net (amounts es)
    \<and> gross (amounts (om.post_all es m)) \<le> gross (amounts m) + gross (amounts es)"
  using assms
proof (induction es arbitrary: m)
  case (Cons e es)
  obtain k d where e: "e = (k, d)" by (cases e)
  have "gross (amounts m) + \<bar>val d\<bar> \<le> 2 ^ 53" using Cons.prems(3) [unfolded e list.map snd_conv gross_simps]
      gross_nonneg [of "amounts es"] by linarith
  note a = om_add_sound [OF Cons.prems(1) _ this, of k]
  have d: "whole_amt d" "\<forall>x \<in> set (amounts es). whole_amt x" using Cons.prems(2) by (simp_all add: e)
  have "gross (amounts (om_add k d m)) + gross (amounts es) \<le> 2 ^ 53"
    using a(3) [OF d(1)] Cons.prems(3) [unfolded e list.map snd_conv gross_simps] by linarith
  from Cons.IH [OF a(1) [OF d(1)] d(2) this] show ?case using a(2,3) [OF d(1)] by (simp add: e)
qed simp

text \<open>The totals by kind carry the same total.\<close>

lemma kind_sums_post: "kind_sums m = om.post_all (map (\<lambda>e. (fst (fst e), snd e)) m) []"
proof -
  have "foldl (\<lambda>out ((k, _), v). om_add k v out) a m = om.post_all (map (\<lambda>e. (fst (fst e), snd e)) m) a" for a
    by (induction m arbitrary: a) auto
  then show ?thesis by (simp add: kind_sums_def)
qed

lemma kind_sums_net:
  assumes "sound_map m" "gross (amounts m) \<le> 2 ^ 53"
  shows "net (amounts (kind_sums m)) = net (amounts m)"
  using post_all_sound [of "[]" "map (\<lambda>e. (fst (fst e), snd e)) m"] assms
  by (simp add: kind_sums_post sound_map_def comp_def)

end
