(* ===== verification/Acquisition_Sample.thy ===== *)
theory Acquisition_Sample
  imports Acquisition_Journal Lifecycle_Admitted Whole_Amounts
begin

text \<open>
  A small execution that runs to the end: one account with 10 units of cash draws 5 from a
  facility on the second day. The theorems about the execution engine are applied to it.
\<close>

section \<open>The execution\<close>

definition sample_facility :: Facility where
  "sample_facility = \<lparr> facility_id = ''f'', provider = ''p'', commitment = f64_of_int 100,
     drawn = 0, access_policy = sample_revision, expiry_ordinal = 9 \<rparr>"

definition draw_plan :: LifecycleRequest where
  "draw_plan = sample_plan \<lparr> lots := [], hedge_allocations := [], actions := [], obligations := [],
     facilities := [sample_facility] \<rparr>"

definition sample_draw :: FacilityDraw where
  "sample_draw = \<lparr> draw_facility_id = ''f'', draw_ordinal = 2, draw_amount = f64_of_int 5,
     draw_instruction_id = None, draw_depends_on = [], draw_state = InstructionPending \<rparr>"

definition sample_execution :: Execution where
  "sample_execution = \<lparr> exec_plan = draw_plan,
     exec_request = \<lparr> acq_scenario_id = ''base'', horizon_end_ordinal = 2, purchases = [], sales = [],
       financings = [], repayments = [], hedge_entries = [], terminations = [],
       facility_draws = [sample_draw], facility_repayments = [], supplied_margin = [],
       business_plan = None, dynamic_margin = [] \<rparr>,
     exec_hedges = [], exec_sensitivities = [], exec_account = ''a'' \<rparr>"

definition sample_account :: OpeningAccount where
  "sample_account = \<lparr> account_id = ''a'', account_cash = f64_of_int 10, equity = f64_of_int 10 \<rparr>"

definition sample_event :: Event where
  "sample_event = event (''draw:f:'' @ int_text 2) 2 PHASE_ADVANCE [] InstructionPending
     (Draw sample_draw sample_facility)"

lemma sample_fields [simp]:
  "exec_plan sample_execution = draw_plan" "exec_account sample_execution = ''a''"
  "asof sample_execution = 1" "horizon_end sample_execution = 2"
  "facility_draws (exec_request sample_execution) = [sample_draw]"
  "business_plan (exec_request sample_execution) = None"
  "facilities draw_plan = [sample_facility]" "lots draw_plan = []" "margin_agreements draw_plan = []"
  "pledges draw_plan = []" "actions draw_plan = []" "accounts draw_plan = accounts sample_plan"
  by (simp_all add: sample_execution_def draw_plan_def sample_plan_def asof_def horizon_end_def)

lemma sample_draw_fields [simp]:
  "draw_facility_id sample_draw = ''f''" "draw_ordinal sample_draw = 2"
  "draw_amount sample_draw = f64_of_int 5" "draw_instruction_id sample_draw = None"
  "draw_depends_on sample_draw = []" "draw_state sample_draw = InstructionPending"
  "facility_id sample_facility = ''f''" "expiry_ordinal sample_facility = 9"
  "commitment sample_facility = f64_of_int 100" "drawn sample_facility = 0"
  by (simp_all add: sample_draw_def sample_facility_def)

lemma sample_event_fields [simp]:
  "event_ordinal sample_event = 2" "event_depends_on sample_event = []"
  "event_state sample_event = InstructionPending" "event_body sample_event = Draw sample_draw sample_facility"
  by (simp_all add: sample_event_def)

lemma sample_limit_five: "money (f64_of_int 5) w = Ok (f64_of_int 5)"
  by (simp add: money_def)

lemma sample_execution_admitted:
  "admit_execution sample_execution = Ok (sample_account, [sample_event])"
proof -
  have "queue_draw sample_execution ({}, []) sample_draw = Ok ({event_id sample_event}, [sample_event])"
    by (simp add: queue_draw_def exec_facility_def exec_within_def sample_limit_five last_by_def ok_or_def
        guard_def require_def push_def name_def sample_event_def Let_def)
  then have "queued_events sample_execution = Ok ({event_id sample_event}, [sample_event])"
    by (simp add: queued_events_def population_changes_def Let_def) (simp add: sample_execution_def)
  moreover have "execution_bounds sample_execution = Ok ()"
    by (simp add: execution_bounds_def i32_sub_def in_i32_def MAX_EXECUTION_DAYS_def guard_def
        MAX_INSTRUCTIONS_def instruction_count_def) (simp add: sample_execution_def)
  moreover have "formal_untouched sample_execution = Ok ()" by (simp add: formal_untouched_def)
  moreover have "find (\<lambda>a. account_id a = exec_account sample_execution)
      (accounts (exec_plan sample_execution)) = Some sample_account"
    by (simp add: sample_plan_def sample_account_def)
  moreover have "dependencies_precede [sample_event] = Ok ()"
    by (simp add: dependencies_precede_def MAX_DEPENDENCIES_def guard_def)
  ultimately show ?thesis by (simp add: admit_execution_def Let_def ok_or_def)
qed

section \<open>Its run\<close>

definition opened :: "Line list \<times> f64 \<times> f64 \<times> Run" where
  "opened = open_book sample_execution sample_account [sample_event] (empty_book sample_execution sample_account)"

definition opened_run :: Run where
  "opened_run = snd (snd (snd opened))"

definition posted_draw :: "posting list" where
  "posted_draw = [(Cash, [], f64_of_int 5), (FundingPrincipal, ''f'', - f64_of_int 5)]"

lemma opened_lines:
  "fst opened = book_lines [(Cash, [], f64_of_int 10), (OpeningEquity, [], - (f64_of_int 10 + 0 - 0))]"
  by (simp add: opened_def open_book_def opening_lots_def Let_def sample_account_def)

lemma opening_share: "units (- (f64_of_int 10 + 0 - 0)) (- 10)"
proof -
  have "units (f64_of_int 10 + 0) (10 + 0)" by (rule units_add) (simp_all add: units_of_int)
  then have "units (f64_of_int 10 + 0 - 0) (10 + 0 - 0)" by (rule units_sub) simp_all
  from units_neg [OF this] show ?thesis by simp
qed

lemma opened_lines': "fst opened = [\<lparr> line_kind = Cash, instrument = [], debit = f64_of_int 10 \<rparr>,
    \<lparr> line_kind = OpeningEquity, instrument = [], debit = - (f64_of_int 10 + 0 - 0) \<rparr>]"
  using units_not_zero [OF units_of_int [of 10]] units_not_zero [OF opening_share]
  by (simp add: opened_lines book_lines_def)

lemma draw_lines: "book_lines posted_draw =
   [\<lparr> line_kind = Cash, instrument = [], debit = f64_of_int 5 \<rparr>,
    \<lparr> line_kind = FundingPrincipal, instrument = ''f'', debit = - f64_of_int 5 \<rparr>]"
  using units_not_zero [OF units_of_int [of 5]] units_not_zero [OF units_neg [OF units_of_int [of 5]]]
  by (simp add: posted_draw_def book_lines_def)

lemma draw_balanced: "near (fsum (map (\<lambda>p. snd (snd p)) posted_draw)) 0"
proof -
  have "units (- 0 + f64_of_int 5) (0 + 5)" by (rule units_add) (simp_all add: units_of_int)
  then have "units (- 0 + f64_of_int 5 + - f64_of_int 5) (0 + 5 + - 5)"
    by (rule units_add) (simp_all add: units_of_int units_neg)
  then show ?thesis by (intro near_units [of _ 0]) (simp_all add: posted_draw_def fsum_def)
qed

definition sample_state :: FacilityState where
  "sample_state = \<lparr> fs_id = ''f'', fs_commitment = f64_of_int 100, fs_drawn = 0, fs_expiry = 9, fs_generation = 1 \<rparr>"

text \<open>The state before the draw.\<close>

definition untouched :: "Run \<Rightarrow> bool" where
  "untouched st \<longleftrightarrow> book_policy (book st) = None \<and> book_cash (book st) = f64_of_int 10
     \<and> book_settled (book st) = 0 \<and> book_financial (book st) = open_financial (fst opened)
     \<and> book_custody (book st) = [] \<and> book_facilities (book st) = [sample_state]
     \<and> pending st = [sample_event] \<and> vm_posted st = 0 \<and> vm_received st = 0
     \<and> im_posted st = 0 \<and> im_received st = 0 \<and> book_intents (book st) = []"

lemma opened_untouched: "untouched opened_run"
proof -
  obtain ls a l st where o: "opened = (ls, a, l, st)" by (cases opened)
  note f = open_book_start [OF o [unfolded opened_def]]
  have v: "vm_posted st = 0 \<and> vm_received st = 0 \<and> im_posted st = 0 \<and> im_received st = 0"
    using o by (auto simp: opened_def open_book_def opening_lots_def fresh_run_def Let_def)
  show ?thesis using f v
    by (simp add: untouched_def opened_run_def o empty_book_def Let_def opening_custody_def
        sample_account_def sample_state_def)
qed

lemma first_day: "\<exists>st. run_day sample_execution opened_run 1 = Ok st \<and> untouched st"
  using opened_untouched
  by (simp add: run_day_def start_of_day_def end_of_day_def take_inventory_def untouched_def Let_def)

lemma run_post_unfunded:
  assumes "book_policy (book st) = None" "near (fsum (map (\<lambda>p. snd (snd p)) ps)) 0"
    and "list_all (\<lambda>p. \<not> memo (fst p)) ps" "book_lines ps \<noteq> []"
    and "b = foldl (post_line False) (book st) (book_lines ps)" "\<not> book_cash b < - nano"
  shows "\<exists>st'. run_post e ps st = Ok st' \<and> ledger_of (book st') = ledger_of b
    \<and> book_facilities (book st') = book_facilities (book st) \<and> settled st' = settled st
    \<and> vm_posted st' = vm_posted st \<and> vm_received st' = vm_received st
    \<and> im_posted st' = im_posted st \<and> im_received st' = im_received st \<and> book_policy (book st') = None
    \<and> map intent_lines (book_intents (book st')) = map intent_lines (book_intents (book st)) @ [book_lines ps]"
proof -
  obtain p qs where ps: "ps = p # qs" using assms(4) by (cases ps) (auto simp: book_lines_def)
  have m: "\<not> list_all (\<lambda>p. memo (fst p)) ps" using assms(3) by (simp add: ps)
  have m': "\<not> list_ex (\<lambda>p. memo (fst p)) ps" using assms(3) by (auto simp: list_all_iff list_ex_iff)
  show ?thesis using assms m m'
    by (simp add: run_post_def post_def book_apply_def require_def Let_def)
qed

definition drawn_ledger :: Ledger where
  "drawn_ledger = \<lparr> led_financial = om_add (FundingPrincipal, ''f'') (- f64_of_int 5)
     (om_add (Cash, []) (f64_of_int 5) (open_financial (fst opened))), led_custody = [],
     led_cash = f64_of_int 10 + f64_of_int 5, led_settled = 0 + f64_of_int 5 \<rparr>"

definition touched_by_draw :: "Run \<Rightarrow> bool" where
  "touched_by_draw st \<longleftrightarrow> ledger_of (book st) = drawn_ledger \<and> vm_posted st = 0 \<and> vm_received st = 0
     \<and> im_posted st = 0 \<and> im_received st = 0 \<and> book_policy (book st) = None
     \<and> map intent_lines (book_intents (book st)) = [book_lines posted_draw]"

lemma drawn_units: "units (f64_of_int 10 + f64_of_int 5) 15" "units (0 + f64_of_int 5) 5"
  using units_add [of "f64_of_int 10" 10 "f64_of_int 5" 5] units_add [of 0 0 "f64_of_int 5" 5]
  by (simp_all add: units_of_int)

lemma headroom: "\<not> f64_of_int 100 - 0 + nano * fmax (f64_of_int 100) 1 < f64_of_int 5"
proof -
  have h: "units (f64_of_int 100 - 0) (100 - 0)" by (rule units_sub) (simp_all add: units_of_int)
  have "slack (f64_of_int 100) = nano * fmax (fabs (f64_of_int 100)) 1" by (simp add: slack_def nano_def)
  moreover have "fabs (f64_of_int 100) = f64_of_int 100" by (simp add: f64_eval)
  ultimately have sl: "slack (f64_of_int 100) = nano * fmax (f64_of_int 100) 1" by simp
  have "\<bar>val (f64_of_int 100)\<bar> \<le> 10 ^ 15" using units_of_int [of 100] by (simp add: units_def)
  note b = slack_bounds [OF _ of_int_ok this, unfolded sl]
  have fin: "is_finite (f64_of_int 100)" using units_of_int [of 100] by (simp add: units_def)
  let ?s = "nano * fmax (f64_of_int 100) 1"
  have "max \<bar>val (f64_of_int 100)\<bar> 1 * p2 (- 28) \<le> 1"
    using units_of_int [of 100] by (simp add: units_def p2_small)
  then have s: "0 \<le> val ?s" "val ?s \<le> 1" using b(3,4) [OF fin] by simp_all
  have r: "rounds_to (f64_of_int 100 - 0 + ?s) (100 + val ?s)"
    using add_rounds [of "f64_of_int 100 - 0" ?s] h b(1) [OF fin] by (simp add: units_def)
  have "\<bar>100 + val ?s\<bar> \<le> 2 ^ 50" using s by simp
  moreover have "(2 :: real) ^ 50 \<in> dbl" "(2 :: real) ^ 50 < huge"
    using dbl_p2 [of 50] by (simp_all add: power_int_def huge_def)
  ultimately have v: "is_finite (f64_of_int 100 - 0 + ?s)" "val (f64_of_int 100 - 0 + ?s) = rnd (100 + val ?s)"
    using rounds_to_bound [OF r] by auto
  have "5 \<le> rnd (100 + val ?s)"
    using rne.rd_mono [of 5 "100 + val ?s"] dbl_int [of 5] s by (simp add: rne.rd_exact)
  then show ?thesis using v units_of_int [of 5] by (simp add: units_def)
qed


lemma sample_draw_runs:
  assumes "untouched st"
  shows "\<exists>st'. exec_draw sample_event sample_draw sample_facility st = Ok st' \<and> touched_by_draw st'"
proof -
  have b: "book_policy (book st) = None" "book_cash (book st) = f64_of_int 10" "book_settled (book st) = 0"
    "book_financial (book st) = open_financial (fst opened)" "book_custody (book st) = []"
    "book_facilities (book st) = [sample_state]"
    "vm_posted st = 0" "vm_received st = 0" "im_posted st = 0" "im_received st = 0"
    "book_intents (book st) = []"
    using assms by (simp_all add: untouched_def)
  define s where "s = sample_state \<lparr> fs_drawn := 0 + f64_of_int 5 \<rparr>"
  define b' where "b' = (book st) \<lparr> book_facilities := [s] \<rparr>"
  have mut: "facility_mut ''f'' (\<lambda>s. s \<lparr> fs_drawn := fs_drawn s + f64_of_int 5 \<rparr>) (book st) = Ok b'"
    by (simp add: facility_mut_def facility_def unwrap_def b b'_def s_def sample_state_def)
  have fac: "facility (book st) ''f'' = Ok sample_state"
    by (simp add: facility_def unwrap_def b sample_state_def)
  define c where "c = foldl (post_line False) b' (book_lines posted_draw)"
  have led: "ledger_of c = drawn_ledger"
    by (simp add: c_def draw_lines post_line_def ledger_of_def drawn_ledger_def Let_def b'_def b)
  have pol: "book_policy b' = None" by (simp add: b'_def b)
  have cash: "book_cash c = f64_of_int 10 + f64_of_int 5" using arg_cong [OF led, of led_cash]
    by (simp add: ledger_of_def drawn_ledger_def)
  have memo: "list_all (\<lambda>p. \<not> memo (fst p)) posted_draw" by (simp add: posted_draw_def memo_def)
  have pol': "book_policy (book (st \<lparr> book := b' \<rparr>)) = None" using pol by simp
  have ne: "book_lines posted_draw \<noteq> []" by (simp add: draw_lines)
  have c: "c = foldl (post_line False) (book (st \<lparr> book := b' \<rparr>)) (book_lines posted_draw)" by (simp add: c_def)
  have nl: "\<not> book_cash c < - nano" using units_not_low [OF drawn_units(1)] by (simp add: cash)
  obtain st' where p: "run_post sample_event posted_draw (st \<lparr> book := b' \<rparr>) = Ok st'"
    "ledger_of (book st') = ledger_of c" "vm_posted st' = 0" "vm_received st' = 0" "im_posted st' = 0"
    "im_received st' = 0" "book_policy (book st') = None"
    "map intent_lines (book_intents (book st')) = [book_lines posted_draw]"
    using run_post_unfunded [OF pol' draw_balanced memo ne c nl, of sample_event] b
    by (auto simp: b'_def)
  have "exec_draw sample_event sample_draw sample_facility st = Ok st'"
    using headroom p(1) by (simp add: exec_draw_def fac mut sample_state_def require_def Let_def posted_draw_def)
  then show ?thesis using p(2-) led by (simp add: touched_by_draw_def)
qed

lemma second_day:
  assumes "untouched st"
  shows "\<exists>st'. run_day sample_execution st 2 = Ok st' \<and> touched_by_draw st'
    \<and> (\<exists>ds. closings st' = ds @ [book_closing (book st') 2 []])"
proof -
  let ?st = "(take_inventory (take_inventory st)) \<lparr> sequence_no := sequence_no (take_inventory st) + 1 \<rparr>"
  have "untouched ?st" using assms by (simp add: untouched_def take_inventory_def)
  then obtain st' where d: "exec_draw sample_event sample_draw sample_facility ?st = Ok st'" "touched_by_draw st'"
    using sample_draw_runs by blast
  have p: "pending st = [sample_event]" "book_policy (book st) = None" using assms by (simp_all add: untouched_def)
  have q: "book_policy (book st') = None" using d by (simp add: touched_by_draw_def)
  have "settle_event sample_execution sample_event ?st
      = Ok (EventSettled, st' \<lparr> settled := insert (event_id sample_event) (settled st') \<rparr>)"
    using d(1) by (simp add: settle_event_def exec_body_def)
  then show ?thesis using d(2) p q
    by (simp add: run_day_def start_of_day_def run_event_def take_inventory_def Let_def end_of_day_def
        report_event_def drain_log_def touched_by_draw_def account_lots_def ledger_of_def)
qed

section \<open>Its receipt\<close>

lemma drawn_accounts: "led_financial drawn_ledger =
   [((Cash, []), 0 + f64_of_int 10 + f64_of_int 5), ((OpeningEquity, []), 0 + - (f64_of_int 10 + 0 - 0)),
    ((FundingPrincipal, ''f''), 0 + - f64_of_int 5)]"
  by (simp add: drawn_ledger_def open_financial_def opened_lines' om_add_def om_or_def less_Kind_def)

lemma final_cash: "units (0 + f64_of_int 10 + f64_of_int 5) 15"
proof -
  have "units (0 + f64_of_int 10) (0 + 10)" by (rule units_add) (simp_all add: units_of_int)
  then have "units (0 + f64_of_int 10 + f64_of_int 5) (0 + 10 + 5)" by (rule units_add) (simp_all add: units_of_int)
  then show ?thesis by simp
qed

lemma drawn_bridge:
  assumes "ledger_of b = drawn_ledger"
  shows "cash_bridge sample_account b"
proof -
  have f: "book_financial b = led_financial drawn_ledger" "book_cash b = f64_of_int 10 + f64_of_int 5"
    "book_settled b = 0 + f64_of_int 5"
    using arg_cong [OF assms, of led_financial] arg_cong [OF assms, of led_cash] arg_cong [OF assms, of led_settled]
    by (simp_all add: ledger_of_def) (simp_all add: drawn_ledger_def)
  have "units (f64_of_int 10 + (0 + f64_of_int 5)) (10 + 5)"
    by (rule units_add) (simp_all add: units_of_int drawn_units)
  then have "near (f64_of_int 10 + (0 + f64_of_int 5)) (f64_of_int 10 + f64_of_int 5)"
    using near_units drawn_units(1) by simp
  moreover have "units (- 0 + (0 + f64_of_int 10 + f64_of_int 5)) (0 + 15)"
    by (rule units_add) (simp_all add: final_cash)
  then have "near (- 0 + (0 + f64_of_int 10 + f64_of_int 5)) (f64_of_int 10 + f64_of_int 5)"
    using near_units drawn_units(1) by simp
  ultimately show ?thesis
    by (simp add: cash_bridge_def f kind_total_def drawn_accounts sample_account_def fsum_def)
qed

lemma drawn_collateral:
  assumes "touched_by_draw st"
  shows "collateral_sound st"
proof -
  have f: "book_financial (book st) = led_financial drawn_ledger" "book_custody (book st) = []"
    and v: "vm_posted st = 0" "vm_received st = 0" "im_posted st = 0" "im_received st = 0"
    using assms by (auto simp: touched_by_draw_def ledger_of_def drawn_ledger_def)
  have "near (- 0) 0" "near 0 0" "near (- (- 0)) 0"
    using near_units [of "- 0" 0 0] near_units [of 0 0 0] near_units [of "- (- 0)" 0 0]
      units_neg [OF units_zero(2)] by simp_all
  then show ?thesis
    by (simp add: collateral_sound_def f v kind_total_def drawn_accounts fsum_def Let_def)
qed

lemma sample_replay: "\<exists>j. replay_with_margin sample_execution = Ok j
    \<and> journal_opening_cash j = f64_of_int 10 \<and> daily j \<noteq> []
    \<and> map intent_lines (intents j) = [book_lines posted_draw]"
proof -
  obtain ls as lb where o: "opened = (ls, as, lb, opened_run)"
    by (metis opened_run_def prod.collapse)
  obtain s1 where d1: "run_day sample_execution opened_run 1 = Ok s1" "untouched s1" using first_day by blast
  obtain s2 ds where d2: "run_day sample_execution s1 2 = Ok s2" "touched_by_draw s2"
    "closings s2 = ds @ [book_closing (book s2) 2 []]" using second_day [OF d1(2)] by blast
  have days: "[1..2] = [1, 2 :: int]" by (simp add: upto.simps)
  have run: "fold_res (run_day sample_execution) opened_run [1..2] = Ok s2" by (simp add: days d1(1) d2(1))
  have b: "cash_bridge sample_account (book s2)" using d2(2) by (intro drawn_bridge) (simp add: touched_by_draw_def)
  have i: "inventory_sound (closings s2)"
    by (simp add: inventory_sound_def d2(3) book_closing_def lot_inventory_def Let_def)
  have "map intent_lines (book_intents (book s2)) = [book_lines posted_draw]"
    using d2(2) by (simp add: touched_by_draw_def)
  then show ?thesis
    using b i drawn_collateral [OF d2(2)] o run
    by (simp add: replay_with_margin_def sample_execution_admitted arm_policy_def Let_def opened_def
        close_run_def monthly_of_def receipt_of_def require_def sample_account_def d2(3))
qed

section \<open>The theorems at this execution\<close>

theorem closings_replay_journal_witness: "\<exists>j. replay_with_margin sample_execution = Ok j
    \<and> map closing_ordinal (daily j) = [1, 2]
    \<and> (\<forall>c \<in> set (daily j).
        closes_on (ledger_at (opening_ledger sample_execution j) (intents j) (closing_ordinal c)) c)"
proof -
  obtain j where j: "replay_with_margin sample_execution = Ok j" using sample_replay by blast
  have days: "[1..2] = [1, 2 :: int]" by (simp add: upto.simps)
  show ?thesis using j closings_replay_journal [OF j] by (auto simp: days)
qed

theorem journal_intents_sound_witness: "\<exists>j. replay_with_margin sample_execution = Ok j
    \<and> sorted (map intent_sequence (intents j)) \<and> (\<forall>i \<in> set (intents j). intent_ok i \<and> 1 \<le> intent_ordinal i)"
proof -
  obtain j where j: "replay_with_margin sample_execution = Ok j" using sample_replay by blast
  show ?thesis using j journal_intents_sound [OF j] by auto
qed

theorem journal_reports_events_witness: "\<exists>j S. replay_with_margin sample_execution = Ok j
    \<and> map receipt_entry (receipt_events (receipt j))
        \<in> shuffles [event_entry S sample_event] (map action_entry (receipt_policy_decisions (receipt j)))"
proof -
  obtain j where j: "replay_with_margin sample_execution = Ok j" using sample_replay by blast
  show ?thesis using j journal_reports_events [OF j] by (auto simp: sample_execution_admitted)
qed

theorem cash_never_overdrawn_witness: "\<exists>j c. replay_with_margin sample_execution = Ok j
    \<and> c \<in> set (daily j) \<and> \<not> closing_total_cash c < - nano"
proof -
  obtain j where j: "replay_with_margin sample_execution = Ok j" "journal_opening_cash j = f64_of_int 10"
    "daily j \<noteq> []" using sample_replay by blast
  have o: "\<not> journal_opening_cash j < - nano" using units_not_low [OF units_of_int [of 10]] j(2) by simp
  obtain c where c: "c \<in> set (daily j)" using j(3) by (cases "daily j") auto
  show ?thesis using j(1) c cash_never_overdrawn [OF j(1) o c] by blast
qed

end
