(* ===== verification/Acquisition_Balance.thy ===== *)
theory Acquisition_Balance
  imports Acquisition_Sample
begin

text \<open>
  The balance sheet of an execution in whole currency units: the opening balances sum to zero,
  every posting does, so the trial balance of every closing is zero, and so is that of the
  custody memo accounts.
\<close>

section \<open>Entries\<close>

definition entry :: "Line \<Rightarrow> (Kind \<times> string) \<times> f64" where
  "entry l = ((line_kind l, instrument l), debit l)"

abbreviation debits :: "Line list \<Rightarrow> f64 list" where
  "debits ls \<equiv> map debit ls"

lemma entry_amounts [simp]: "amounts (map entry ls) = debits ls"
  by (simp add: entry_def)

lemma enter_accounts:
  "led_financial (enter L i) = (if intent_memo i then led_financial L
     else om.post_all (map entry (intent_lines i)) (led_financial L))"
  "led_custody (enter L i) = (if intent_memo i
     then om.post_all (map entry (intent_lines i)) (led_custody L) else led_custody L)"
proof -
  have "led_financial (foldl (enter_line m) L ls) = (if m then led_financial L
      else om.post_all (map entry ls) (led_financial L))" for m ls
    by (induction ls arbitrary: L) (simp_all add: enter_line_def entry_def Let_def)
  moreover have "led_custody (foldl (enter_line m) L ls) = (if m
      then om.post_all (map entry ls) (led_custody L) else led_custody L)" for m ls
    by (induction ls arbitrary: L) (simp_all add: enter_line_def entry_def Let_def)
  ultimately show "led_financial (enter L i) = (if intent_memo i then led_financial L
     else om.post_all (map entry (intent_lines i)) (led_financial L))"
    "led_custody (enter L i) = (if intent_memo i
     then om.post_all (map entry (intent_lines i)) (led_custody L) else led_custody L)"
    by (simp_all add: enter_def)
qed

lemma open_financial_post: "open_financial ls =
    om.post_all (map entry ls) (om_put (OpeningEquity, []) 0 (om_put (Cash, []) 0 []))"
proof -
  have "foldl (\<lambda>m l. om_add (line_kind l, instrument l) (debit l) m) a ls = om.post_all (map entry ls) a" for a
    by (induction ls arbitrary: a) (simp_all add: entry_def)
  then show ?thesis by (simp add: open_financial_def)
qed

text \<open>The lines of a posting carry its total.\<close>

lemma feq_zero: "feq d 0 \<Longrightarrow> is_finite d \<and> val d = 0"
proof -
  assume f: "feq d 0"
  then have "is_finite d" by (cases d) (auto simp: feq_def less_eq_f64_def zero_f64_def split: if_splits)
  with f show ?thesis by simp
qed

lemma book_lines_sums:
  assumes "\<forall>d \<in> set (debits (book_lines ps)). whole_amt d"
  shows "(\<forall>d \<in> set (map (\<lambda>p. snd (snd p)) ps). whole_amt d)
    \<and> gross (map (\<lambda>p. snd (snd p)) ps) = gross (debits (book_lines ps))
    \<and> net (map (\<lambda>p. snd (snd p)) ps) = net (debits (book_lines ps))"
  using assms
proof (induction ps)
  case (Cons p ps)
  obtain k i d where p: "p = (k, i, d)" by (cases p)
  show ?case
  proof (cases "feq d 0")
    case True
    with Cons feq_zero [OF True] show ?thesis by (simp add: p book_lines_def whole_amt_def)
  next
    case False
    with Cons show ?thesis by (simp add: p book_lines_def)
  qed
qed (simp add: book_lines_def)

lemma balanced_net:
  assumes "balanced_lines ls" "\<forall>d \<in> set (debits ls). whole_amt d" "gross (debits ls) \<le> 2 ^ 53"
  shows "net (debits ls) = 0"
proof -
  from assms(1) obtain ps where ps: "ls = book_lines ps" "near (fsum (map (\<lambda>p. snd (snd p)) ps)) 0"
    by (auto simp: balanced_lines_def)
  let ?ds = "map (\<lambda>p. snd (snd p)) ps"
  note b = book_lines_sums [of ps, folded ps(1), OF assms(2)]
  have f: "whole_amt (fsum ?ds)" "val (fsum ?ds) = net ?ds" "f64_ok (fsum ?ds)"
    using whole_fsum [of ?ds] b assms(3) by simp_all
  have "\<bar>val (fsum ?ds)\<bar> \<le> 2 ^ 53" using net_le_gross [of ?ds] f(2) b assms(3) by simp
  from near_zero [OF f(1,3) this ps(2)] show ?thesis using f(2) b by simp
qed

section \<open>A balanced ledger stays balanced\<close>

definition balanced :: "Ledger \<Rightarrow> real \<Rightarrow> bool" where
  "balanced L g \<longleftrightarrow> (\<forall>m \<in> {led_financial L, led_custody L}. sound_map m \<and> net (amounts m) = 0
     \<and> gross (amounts m) \<le> g)"

definition all_debits :: "Intent list \<Rightarrow> f64 list" where
  "all_debits is = concat (map (\<lambda>i. debits (intent_lines i)) is)"

lemma all_debits_simps [simp]: "all_debits [] = []"
  "all_debits (i # is) = debits (intent_lines i) @ all_debits is"
  by (simp_all add: all_debits_def)

lemma all_debits_filter: "gross (all_debits (filter P is)) \<le> gross (all_debits is)"
proof (induction "is")
  case (Cons i "is")
  show ?case using Cons gross_nonneg [of "debits (intent_lines i)"] by (simp del: gross_nonneg)
qed simp

lemma post_balanced:
  assumes "sound_map m" "net (amounts m) = 0" "gross (amounts m) \<le> g"
    and i: "intent_ok i" "\<forall>d \<in> set (debits (intent_lines i)). whole_amt d"
    and g: "g + gross (debits (intent_lines i)) \<le> 2 ^ 53"
  shows "sound_map (om.post_all (map entry (intent_lines i)) m)
    \<and> net (amounts (om.post_all (map entry (intent_lines i)) m)) = 0
    \<and> gross (amounts (om.post_all (map entry (intent_lines i)) m)) \<le> g + gross (debits (intent_lines i))"
proof -
  have "gross (debits (intent_lines i)) \<le> 2 ^ 53" using g assms(3) gross_nonneg [of "amounts m"] by linarith
  moreover have "balanced_lines (intent_lines i)" using i(1) by (simp add: intent_ok_def)
  ultimately have "net (debits (intent_lines i)) = 0" using balanced_net i(2) by blast
  moreover have "gross (amounts m) + gross (debits (intent_lines i)) \<le> 2 ^ 53" using assms(3) g by linarith
  ultimately show ?thesis
    using post_all_sound [of m "map entry (intent_lines i)"] assms(1-3) i(2)
    unfolding entry_amounts by linarith
qed

lemma enter_balanced:
  assumes "balanced L g" "intent_ok i" "\<forall>d \<in> set (debits (intent_lines i)). whole_amt d"
    and "g + gross (debits (intent_lines i)) \<le> 2 ^ 53"
  shows "balanced (enter L i) (g + gross (debits (intent_lines i)))"
proof -
  have "gross (amounts m) \<le> g \<Longrightarrow> gross (amounts m) \<le> g + gross (debits (intent_lines i))" for m :: accounts
    using gross_nonneg [of "debits (intent_lines i)"] by linarith
  then show ?thesis
    using assms(1) post_balanced [OF _ _ _ assms(2-4)] by (auto simp: balanced_def enter_accounts)
qed

lemma enters_balanced:
  "balanced L g \<Longrightarrow> \<forall>i \<in> set is. intent_ok i \<Longrightarrow> \<forall>d \<in> set (all_debits is). whole_amt d
   \<Longrightarrow> g + gross (all_debits is) \<le> 2 ^ 53 \<Longrightarrow> balanced (foldl enter L is) (g + gross (all_debits is))"
proof (induction "is" arbitrary: L g)
  case (Cons i "is")
  have g: "g + gross (debits (intent_lines i)) \<le> 2 ^ 53"
    using Cons.prems(4) gross_nonneg [of "all_debits is"] by (simp del: gross_nonneg)
  have "balanced (enter L i) (g + gross (debits (intent_lines i)))"
    using enter_balanced [OF Cons.prems(1) _ _ g] Cons.prems(2,3) by auto
  from Cons.IH [OF this] Cons.prems(2-4) show ?case by (simp add: add.assoc)
qed simp

lemma closing_balanced:
  assumes "balanced L g" "g \<le> 2 ^ 53" "closes_on L c"
  shows "net (amounts (financial c)) = 0 \<and> net (amounts (custody c)) = 0"
proof -
  have "net (amounts (kind_sums m)) = 0" if "m \<in> {led_financial L, led_custody L}" for m
    using assms(1,2) that kind_sums_net [of m] by (auto simp: balanced_def)
  with assms(3) show ?thesis by (simp add: closes_on_def)
qed

section \<open>The opening\<close>

definition open_posted :: "OpeningState \<Rightarrow> MarginAgreement \<Rightarrow> OpeningState" where
  "open_posted s a = fst (open_agreement (s, undefined) a)"

lemma open_agreement_posted: "fst (open_agreement (s, st) a) = open_posted s a"
  by (simp add: open_posted_def open_agreement_def Let_def split: option.split)

lemma open_agreements_posted: "fst (foldl open_agreement (s, st) as) = foldl open_posted s as"
proof (induction as arbitrary: s st)
  case (Cons a as)
  obtain s' st' where o: "open_agreement (s, st) a = (s', st')" by (cases "open_agreement (s, st) a")
  show ?case using open_agreement_posted [of s st a] by (simp add: o Cons.IH)
qed simp

definition opening_state :: "Execution \<Rightarrow> f64 \<Rightarrow> OpeningState" where
  "opening_state x cash = foldl open_posted (foldl open_lot
     \<lparr> opening_postings = [(Cash, [], cash)], opening_carrying = [], opening_assets = 0, opening_liabilities = 0 \<rparr>
     (opening_lots x)) (margin_agreements (exec_plan x))"

definition equity_share :: "OpeningState \<Rightarrow> f64 \<Rightarrow> f64" where
  "equity_share s cash = cash + opening_assets s - opening_liabilities s"

lemma open_book_lines:
  "fst (open_book x account es b) = (let s = opening_state x (account_cash account) in
     book_lines (opening_postings s @ [(OpeningEquity, [], - equity_share s (account_cash account))]))"
  using open_agreements_posted
  by (simp add: open_book_def opening_state_def equity_share_def Let_def split: prod.split)
    (metis fst_conv)

lemma replay_opening:
  assumes "replay_with_margin x = Ok j"
  shows "opening_lines j = (let s = opening_state x (journal_opening_cash j) in
     book_lines (opening_postings s @ [(OpeningEquity, [], - equity_share s (journal_opening_cash j))]))"
proof -
  from assms obtain a where a: "admit_execution x = Ok a" by (auto simp: replay_with_margin_def)
  obtain account es where "a = (account, es)" by (cases a)
  with a have adm: "admit_execution x = Ok (account, es)" by simp
  from assms adm obtain b0 where arm: "arm_policy x (empty_book x account) = Ok b0"
    by (auto simp: replay_with_margin_def)
  obtain ls assets liabilities st0 where opn: "open_book x account es b0 = (ls, assets, liabilities, st0)"
    by (cases "open_book x account es b0")
  from assms obtain op st where cl: "close_run x account (ls, assets, liabilities) op st = Ok j"
    by (auto simp: replay_with_margin_def Let_def adm arm opn)
  then have "opening_lines j = ls" "journal_opening_cash j = account_cash account"
    by (auto simp: close_run_def Let_def)
  then show ?thesis using open_book_lines [of x account es b0] by (simp add: opn)
qed

text \<open>What the opening has posted: \<open>g\<close> bounds the amounts.\<close>

definition opening_inv :: "f64 \<Rightarrow> real \<Rightarrow> OpeningState \<Rightarrow> bool" where
  "opening_inv cash g s \<longleftrightarrow> (let ds = map (\<lambda>p. snd (snd p)) (opening_postings s) in
     (\<forall>d \<in> set ds. whole_amt d) \<and> whole_amt (opening_assets s) \<and> whole_amt (opening_liabilities s)
     \<and> net ds = val cash + val (opening_assets s) - val (opening_liabilities s)
     \<and> gross ds \<le> g \<and> \<bar>val (opening_assets s)\<bar> \<le> g \<and> \<bar>val (opening_liabilities s)\<bar> \<le> g)"

definition lot_weight :: "PositionLot \<Rightarrow> real" where
  "lot_weight l = 2 * (\<bar>val (lot_quantity l)\<bar> + \<bar>val (original_cost l)\<bar>)"

definition agreement_weight :: "MarginAgreement \<Rightarrow> real" where
  "agreement_weight a = (case opening_collateral a of None \<Rightarrow> 0
     | Some c \<Rightarrow> 2 * (\<bar>val (opening_posted_vm c)\<bar> + \<bar>val (opening_received_vm c)\<bar>
         + \<bar>val (opening_posted_im c)\<bar> + \<bar>val (opening_received_im_custody c)\<bar>))"

definition whole_collateral :: "MarginAgreement \<Rightarrow> bool" where
  "whole_collateral a \<longleftrightarrow> (\<forall>c. opening_collateral a = Some c \<longrightarrow>
     whole_amt (opening_posted_vm c) \<and> whole_amt (opening_received_vm c)
     \<and> whole_amt (opening_posted_im c) \<and> whole_amt (opening_received_im_custody c))"

lemma open_lot_inv:
  assumes s: "opening_inv cash g s" and l: "whole_amt (lot_quantity l)" "whole_amt (original_cost l)"
    and g: "g + lot_weight l \<le> 2 ^ 53"
  shows "opening_inv cash (g + lot_weight l) (open_lot s l)"
proof -
  let ?q = "lot_quantity l" and ?c = "original_cost l"
  have w: "0 \<le> lot_weight l" "\<bar>val ?q\<bar> + \<bar>val ?c\<bar> + \<bar>val ?q\<bar> \<le> lot_weight l"
    by (simp_all add: lot_weight_def)
  have a: "\<bar>val (opening_assets s)\<bar> \<le> g" "\<bar>val (opening_liabilities s)\<bar> \<le> g" "0 \<le> g"
    using s by (auto simp: opening_inv_def Let_def)
  have "\<bar>val ?c - val ?q\<bar> \<le> 2 ^ 53" using w a g by linarith
  note cq = whole_amt_sub [OF l(2,1) this]
  have aw: "whole_amt (opening_assets s)" "whole_amt (opening_liabilities s)"
    using s by (simp_all add: opening_inv_def Let_def)
  have "\<bar>val (opening_assets s) + val ?c\<bar> \<le> 2 ^ 53" using w a g by linarith
  note ac = whole_amt_add [OF aw(1) l(2) this]
  have "\<bar>val (opening_liabilities s) + val ?q\<bar> \<le> 2 ^ 53" using w a g by linarith
  note lq = whole_amt_add [OF aw(2) l(1) this]
  have "\<bar>val (opening_liabilities s) - val ?c\<bar> \<le> 2 ^ 53" using w a g by linarith
  note lc = whole_amt_sub [OF aw(2) l(2) this]
  show ?thesis using s l w cq ac lq lc
    by (cases "lot_kind l") (auto simp: opening_inv_def open_lot_def Let_def)
qed

lemma open_posted_inv:
  assumes s: "opening_inv cash g s" and c: "whole_collateral a" and g: "g + agreement_weight a \<le> 2 ^ 53"
  shows "opening_inv cash (g + agreement_weight a) (open_posted s a)"
proof (cases "opening_collateral a")
  case None
  then show ?thesis using s by (simp add: open_posted_def open_agreement_def agreement_weight_def)
next
  case (Some col)
  let ?p = "opening_posted_vm col" and ?r = "opening_received_vm col" and ?i = "opening_posted_im col"
  have l: "whole_amt ?p" "whole_amt ?r" "whole_amt ?i" using c Some by (simp_all add: whole_collateral_def)
  have w: "0 \<le> agreement_weight a" "\<bar>val ?p\<bar> + \<bar>val ?r\<bar> + \<bar>val ?i\<bar> \<le> agreement_weight a"
    by (simp_all add: agreement_weight_def Some)
  have a: "\<bar>val (opening_assets s)\<bar> \<le> g" "\<bar>val (opening_liabilities s)\<bar> \<le> g" "0 \<le> g"
    using s by (auto simp: opening_inv_def Let_def)
  have aw: "whole_amt (opening_assets s)" "whole_amt (opening_liabilities s)"
    using s by (simp_all add: opening_inv_def Let_def)
  have "\<bar>val ?p + val ?i\<bar> \<le> 2 ^ 53" using w a g by linarith
  note pi = whole_amt_add [OF l(1,3) this]
  have "\<bar>val (opening_assets s) + val (?p + ?i)\<bar> \<le> 2 ^ 53" using w a g pi(2) by linarith
  note ac = whole_amt_add [OF aw(1) pi(1) this]
  have "\<bar>val (opening_liabilities s) + val ?r\<bar> \<le> 2 ^ 53" using w a g by linarith
  note lr = whole_amt_add [OF aw(2) l(2) this]
  show ?thesis using s l w pi ac lr
    by (auto simp: opening_inv_def open_posted_def open_agreement_def Some Let_def)
qed

lemma fold_weight:
  assumes "\<And>s e g. I g s \<Longrightarrow> e \<in> set es \<Longrightarrow> g + w e \<le> (2 :: real) ^ 53 \<Longrightarrow> I (g + w e) (f s e)"
    and "\<And>e. e \<in> set es \<Longrightarrow> 0 \<le> w e"
  shows "I g s \<Longrightarrow> g + (\<Sum>e\<leftarrow>es. w e) \<le> 2 ^ 53 \<Longrightarrow> I (g + (\<Sum>e\<leftarrow>es. w e)) (foldl f s es)"
  using assms
proof (induction es arbitrary: s g)
  case (Cons e es)
  have "0 \<le> (\<Sum>e\<leftarrow>es. w e)" using Cons.prems(4) by (intro sum_list_nonneg) auto
  then have "g + w e \<le> 2 ^ 53" using Cons.prems(2) by simp
  then have "I (g + w e) (f s e)" using Cons.prems(1,3) by simp
  from Cons.IH [OF this] Cons.prems show ?case by (simp add: add.assoc)
qed simp

definition opening_weight :: "Execution \<Rightarrow> f64 \<Rightarrow> real" where
  "opening_weight x cash = \<bar>val cash\<bar> + (\<Sum>l\<leftarrow>opening_lots x. lot_weight l)
     + (\<Sum>a\<leftarrow>margin_agreements (exec_plan x). agreement_weight a)"

definition whole_opening :: "Execution \<Rightarrow> f64 \<Rightarrow> bool" where
  "whole_opening x cash \<longleftrightarrow> whole_amt cash
     \<and> (\<forall>l \<in> set (opening_lots x). whole_amt (lot_quantity l) \<and> whole_amt (original_cost l))
     \<and> (\<forall>a \<in> set (margin_agreements (exec_plan x)). whole_collateral a)"

lemma weights_nonneg [simp]: "0 \<le> lot_weight l" "0 \<le> agreement_weight a"
  "0 \<le> (\<Sum>a\<leftarrow>as. agreement_weight a)" "0 \<le> (\<Sum>l\<leftarrow>ls. lot_weight l)"
proof -
  show w: "0 \<le> lot_weight l" "0 \<le> agreement_weight a" for l a
    by (simp_all add: lot_weight_def agreement_weight_def split: option.split)
  show "0 \<le> (\<Sum>a\<leftarrow>as. agreement_weight a)" "0 \<le> (\<Sum>l\<leftarrow>ls. lot_weight l)"
    using w by (auto intro!: sum_list_nonneg)
qed

lemma opening_state_inv:
  assumes "whole_opening x cash" "opening_weight x cash \<le> 2 ^ 53"
  shows "opening_inv cash (opening_weight x cash) (opening_state x cash)"
proof -
  let ?s = "\<lparr> opening_postings = [(Cash, [], cash)], opening_carrying = [], opening_assets = 0, opening_liabilities = 0 \<rparr>"
  let ?ls = "\<Sum>l\<leftarrow>opening_lots x. lot_weight l" and ?as = "\<Sum>a\<leftarrow>margin_agreements (exec_plan x). agreement_weight a"
  have start: "opening_inv cash \<bar>val cash\<bar> ?s" using assms(1) by (simp add: opening_inv_def whole_opening_def)
  have "opening_inv cash (\<bar>val cash\<bar> + ?ls) (foldl open_lot ?s (opening_lots x))"
  proof (rule fold_weight [where I = "opening_inv cash", OF _ _ start])
    show "\<bar>val cash\<bar> + ?ls \<le> 2 ^ 53"
      using assms(2) weights_nonneg(3) [of "margin_agreements (exec_plan x)"] unfolding opening_weight_def by linarith
  qed (use assms(1) in \<open>auto simp: whole_opening_def intro: open_lot_inv\<close>)
  then have "opening_inv cash (\<bar>val cash\<bar> + ?ls + ?as) (opening_state x cash)"
    unfolding opening_state_def
  proof (rule fold_weight [where I = "opening_inv cash", rotated 2])
    show "\<bar>val cash\<bar> + ?ls + ?as \<le> 2 ^ 53" using assms(2) by (simp add: opening_weight_def)
  qed (use assms(1) in \<open>auto simp: whole_opening_def intro: open_posted_inv\<close>)
  then show ?thesis by (simp add: opening_weight_def)
qed

lemma custody_inv:
  assumes m: "sound_map m" "net (amounts m) = 0" "gross (amounts m) \<le> g" and c: "whole_collateral a"
    and g: "g + agreement_weight a \<le> 2 ^ 53"
  shows "sound_map (custody_of m a) \<and> net (amounts (custody_of m a)) = 0
    \<and> gross (amounts (custody_of m a)) \<le> g + agreement_weight a"
proof (cases "opening_collateral a")
  case None
  then show ?thesis using m by (simp add: custody_of_def agreement_weight_def)
next
  case (Some col)
  let ?v = "opening_received_im_custody col"
  let ?es = "[((CustodyAsset, agreement_id a), ?v), ((CustodyObligation, agreement_id a), - ?v)]"
  have w: "2 * \<bar>val ?v\<bar> \<le> agreement_weight a" by (simp add: agreement_weight_def Some)
  have v: "whole_amt ?v" using c Some by (simp add: whole_collateral_def)
  have "gross (amounts m) + gross (amounts ?es) \<le> 2 ^ 53" using w m(3) g by simp
  from post_all_sound [OF m(1) _ this] v have "sound_map (om.post_all ?es m)
    \<and> net (amounts (om.post_all ?es m)) = 0 \<and> gross (amounts (om.post_all ?es m)) \<le> g + agreement_weight a"
    using m(2,3) w by simp
  moreover have "gross (amounts m) \<le> g + agreement_weight a" using m(3) weights_nonneg(2) [of a] by linarith
  ultimately show ?thesis using m by (simp add: custody_of_def Some Let_def)
qed

lemma opening_balanced:
  assumes r: "replay_with_margin x = Ok j" and w: "whole_opening x (journal_opening_cash j)"
    and g: "4 * opening_weight x (journal_opening_cash j) \<le> 2 ^ 53"
  shows "balanced (opening_ledger x j) (4 * opening_weight x (journal_opening_cash j))"
proof -
  let ?cash = "journal_opening_cash j"
  define s where "s = opening_state x ?cash"
  define k where "k = opening_weight x ?cash"
  have k: "\<bar>val ?cash\<bar> \<le> k" "0 \<le> k" by (simp_all add: k_def opening_weight_def)
  have "k \<le> 2 ^ 53" using g k(2) by (simp add: k_def)
  then have i: "opening_inv ?cash k s" using opening_state_inv [OF w] by (simp add: s_def k_def)
  then have aw: "whole_amt (opening_assets s)" "whole_amt (opening_liabilities s)"
    "\<bar>val (opening_assets s)\<bar> \<le> k" "\<bar>val (opening_liabilities s)\<bar> \<le> k"
    by (simp_all add: opening_inv_def Let_def)
  have cw: "whole_amt ?cash" using w by (simp add: whole_opening_def)
  have "\<bar>val ?cash + val (opening_assets s)\<bar> \<le> 2 ^ 53" using aw k g unfolding k_def [symmetric] by linarith
  note ca = whole_amt_add [OF cw aw(1) this]
  have "\<bar>val (?cash + opening_assets s) - val (opening_liabilities s)\<bar> \<le> 2 ^ 53"
    using aw k g ca(2) unfolding k_def [symmetric] by linarith
  note sh = whole_amt_sub [OF ca(1) aw(2) this, folded equity_share_def]
  let ?ps = "opening_postings s @ [(OpeningEquity, [], - equity_share s ?cash)]"
  let ?ds = "map (\<lambda>p. snd (snd p)) ?ps"
  have ds: "\<forall>d \<in> set ?ds. whole_amt d" "net ?ds = 0" "gross ?ds \<le> 4 * k"
    using i sh ca aw k by (auto simp: opening_inv_def Let_def)
  have ls: "opening_lines j = book_lines ?ps" using replay_opening [OF r] by (simp add: s_def Let_def)
  have lw: "\<forall>d \<in> set (debits (opening_lines j)). whole_amt d"
    using ds(1) by (auto simp: ls book_lines_def)
  note b = book_lines_sums [of ?ps, folded ls, OF lw]
  let ?m0 = "om_put (OpeningEquity, []) 0 (om_put (Cash, []) 0 []) :: accounts"
  have m0: "sound_map ?m0" "net (amounts ?m0) = 0" "gross (amounts ?m0) = 0"
    by (simp_all add: sound_map_def less_Kind_def)
  have gl: "gross (debits (opening_lines j)) \<le> 4 * k" "net (debits (opening_lines j)) = 0" using b ds by simp_all
  then have "gross (amounts ?m0) + gross (amounts (map entry (opening_lines j))) \<le> 2 ^ 53"
    using g m0(3) unfolding entry_amounts k_def by linarith
  from post_all_sound [OF m0(1) _ this, unfolded entry_amounts, OF lw]
  have fin: "sound_map (open_financial (opening_lines j))" "net (amounts (open_financial (opening_lines j))) = 0"
      "gross (amounts (open_financial (opening_lines j))) \<le> 4 * k"
    using m0(2,3) gl unfolding open_financial_post by linarith+
  let ?as = "\<Sum>a\<leftarrow>margin_agreements (exec_plan x). agreement_weight a"
  have as: "?as \<le> k" "0 \<le> ?as" using weights_nonneg(4) [of "opening_lots x"] by (simp_all add: k_def opening_weight_def)
  have cust: "sound_map (opening_custody x) \<and> net (amounts (opening_custody x)) = 0
      \<and> gross (amounts (opening_custody x)) \<le> 0 + ?as"
    unfolding opening_custody_def
  proof (rule fold_weight [where I = "\<lambda>g (m :: accounts). sound_map m \<and> net (amounts m) = 0 \<and> gross (amounts m) \<le> g"])
    show "0 + ?as \<le> 2 ^ 53" using g k as unfolding k_def [symmetric] by linarith
    fix m :: accounts and a g' assume "sound_map m \<and> net (amounts m) = 0 \<and> gross (amounts m) \<le> g'"
      "a \<in> set (margin_agreements (exec_plan x))" "g' + agreement_weight a \<le> 2 ^ 53"
    then show "sound_map (custody_of m a) \<and> net (amounts (custody_of m a)) = 0
        \<and> gross (amounts (custody_of m a)) \<le> g' + agreement_weight a"
      using custody_inv w by (auto simp: whole_opening_def)
  qed (simp_all add: sound_map_def)
  then have "gross (amounts (opening_custody x)) \<le> 4 * k" using as k(2) by linarith
  with cust fin show ?thesis unfolding balanced_def opening_ledger_def k_def [symmetric] by simp
qed

section \<open>The balance sheet balances\<close>

text \<open>
  C6. In whole currency units the balance sheet balances exactly: the financial balances of every
  closing sum to zero, and so do the custody memo balances, so that no money is created or lost by a
  trade, a margin call, a funding action or the opening itself. Supposed is that doubles represent
  every partial sum: cash, quantities, costs and collateral of the opening and every posted debit are
  whole numbers, and four times \<open>opening_weight\<close> (the absolute value of the cash and twice those of
  the quantities and costs of lots and of the collateral) plus the absolute values of all posted debits
  come to at most 2 to the 53.
  Beyond that range, which admission allows for single amounts, the sums are rounded.
\<close>

theorem trial_balance:
  assumes "replay_with_margin x = Ok j" "whole_opening x (journal_opening_cash j)"
    and "\<forall>d \<in> set (all_debits (intents j)). whole_amt d"
    and "4 * opening_weight x (journal_opening_cash j) + gross (all_debits (intents j)) \<le> 2 ^ 53"
    and "c \<in> set (daily j)"
  shows "net (amounts (financial c)) = 0 \<and> net (amounts (custody c)) = 0"
proof -
  let ?k = "4 * opening_weight x (journal_opening_cash j)"
  let ?is = "filter (\<lambda>i. intent_ordinal i \<le> closing_ordinal c) (intents j)"
  from assms(1) obtain account es st b where inv: "run_inv (asof x) b es (horizon_end x + 1) st"
    "ledger_of b = opening_ledger x j" "intents j = book_intents (book st)" "daily j = closings st"
    by (rule replay_Ok)
  then have c: "closes_on (ledger_at (opening_ledger x j) (intents j) (closing_ordinal c)) c"
    and ok: "\<forall>i \<in> set ?is. intent_ok i"
    using assms(5) by (auto simp: run_inv_def closings_inv_def intents_inv_def)
  have le: "gross (all_debits ?is) \<le> gross (all_debits (intents j))" by (rule all_debits_filter)
  have "?k \<le> 2 ^ 53" using assms(4) gross_nonneg [of "all_debits (intents j)"] by linarith
  note o = opening_balanced [OF assms(1,2) this]
  have "?k + gross (all_debits ?is) \<le> 2 ^ 53" using assms(4) le by linarith
  moreover have "\<forall>d \<in> set (all_debits ?is). whole_amt d" using assms(3) by (auto simp: all_debits_def)
  ultimately have "balanced (ledger_at (opening_ledger x j) (intents j) (closing_ordinal c)) (?k + gross (all_debits ?is))"
    unfolding ledger_at_def by (intro enters_balanced o ok)
  from closing_balanced [OF this _ c] show ?thesis using assms(4) le by linarith
qed

theorem trial_balance_witness: "\<exists>j. replay_with_margin sample_execution = Ok j \<and> daily j \<noteq> []
    \<and> (\<forall>c \<in> set (daily j). net (amounts (financial c)) = 0)"
proof -
  obtain j where j: "replay_with_margin sample_execution = Ok j" "journal_opening_cash j = f64_of_int 10"
    "daily j \<noteq> []" "map intent_lines (intents j) = [book_lines posted_draw]"
    using sample_replay by (elim exE conjE) (rule that)
  have v: "val (f64_of_int 10) = 10" "val (f64_of_int 5) = 5" using units_of_int [of 10] units_of_int [of 5]
    by (simp_all add: units_def)
  have "all_debits (intents j) = concat (map debits (map intent_lines (intents j)))"
    by (simp add: all_debits_def comp_def)
  then have d: "all_debits (intents j) = [f64_of_int 5, - f64_of_int 5]" by (simp add: j(4) draw_lines)
  have o: "opening_lots sample_execution = []" by (simp add: opening_lots_def)
  have "whole_opening sample_execution (journal_opening_cash j)"
    by (simp add: whole_opening_def o j(2))
  moreover have "\<forall>d \<in> set (all_debits (intents j)). whole_amt d" by (simp add: d)
  moreover have "4 * opening_weight sample_execution (journal_opening_cash j) + gross (all_debits (intents j)) \<le> 2 ^ 53"
    by (simp add: opening_weight_def o j(2) v d)
  ultimately show ?thesis using j(1,3) trial_balance [OF j(1)] by blast
qed

end
