(* ===== verification/Acquisition_Total.thy ===== *)
theory Acquisition_Total
  imports Acquisition_Sample Lifecycle_Admitted
begin

text \<open>
  Totality of the execution engine: on an admitted plan whose dates stay far from the ends of
  \<open>i32\<close>, no index, \<open>expect\<close> or checked addition of \<open>replay_with_margin\<close> can panic; every execution
  ends in a journal or in a refusal.
\<close>

section \<open>Admission of the execution\<close>

definition dates_bounded :: "Execution \<Rightarrow> bool" where
  "dates_bounded x \<longleftrightarrow> 0 \<le> asof x \<and> horizon_end x \<le> 2 ^ 30
     \<and> (\<forall>a \<in> set (margin_agreements (exec_plan x)). settlement_lag_days a < 2 ^ 30)"

lemma lookups_no_Panic [no_panic]:
  "exec_lot x i w \<noteq> Panic" "exec_agreement x i w \<noteq> Panic" "exec_facility x i w \<noteq> Panic"
  "exec_pledge x i e \<noteq> Panic" "exec_within x d w \<noteq> Panic" "resolved x i d w \<noteq> Panic"
  "nonnegative v w e \<noteq> Panic" "push ev q \<noteq> Panic" "offset_check x h \<noteq> Panic"
  by (auto simp: exec_lot_def exec_agreement_def exec_facility_def exec_pledge_def exec_within_def
      resolved_def nonnegative_def push_def offset_check_def split: option.splits prod.splits)

lemma lag_bounds:
  assumes "dates_bounded x" "a \<in> set (margin_agreements (exec_plan x))" "0 \<le> d" "d \<le> horizon_end x"
  shows "in_i32 (d + i32_of_u32 (settlement_lag_days a))"
proof -
  have "settlement_lag_days a < 2 ^ 30" "d \<le> 2 ^ 30" using assms by (auto simp: dates_bounded_def)
  then show ?thesis using assms(3) by (simp add: i32_of_u32_def in_i32_def)
qed

lemma queue_no_Panic [no_panic]:
  "queue_purchase x q p \<noteq> Panic" "queue_sale x q s \<noteq> Panic" "queue_financing x q f \<noteq> Panic"
  "queue_draw x q d \<noteq> Panic" "queue_frepay x q fr \<noteq> Panic" "queue_im x q im \<noteq> Panic"
  "queue_dynamic x dq dm \<noteq> Panic" "queue_release x rp i q rl \<noteq> Panic"
  by (auto simp: queue_purchase_def queue_sale_def queue_financing_def queue_draw_def queue_frepay_def
      queue_im_def queue_dynamic_def queue_release_def Let_def no_panic split: prod.splits)

lemma fold_calm: "(\<And>s x. x \<in> set xs \<Longrightarrow> f s x \<noteq> Panic) \<Longrightarrow> fold_res f s xs \<noteq> Panic"
  by (rule fold_res_no_Panic [where I = "\<lambda>_. True"]) auto

lemma queue_repayment_no_Panic [no_panic]: "queue_repayment x q rp \<noteq> Panic"
  by (auto simp: queue_repayment_def Let_def no_panic fold_calm)

lemma queue_entry_no_Panic: "dates_bounded x \<Longrightarrow> queue_entry x q h \<noteq> Panic"
proof
  assume b: "dates_bounded x" and "queue_entry x q h = Panic"
  then obtain a i c q1 where a: "exec_agreement x (entry_agreement_id h) ''hedge entry'' = Ok a"
    and w: "asof x < entry_ordinal h" "entry_ordinal h \<le> horizon_end x"
    and p: "queue_margin x h a i c q1 = Panic"
    by (auto simp: queue_entry_def Let_def no_panic)
  have "0 \<le> entry_ordinal h" using b w(1) by (simp add: dates_bounded_def)
  with p lag_bounds [OF b exec_known(2) [OF a] _ w(2)] show False
    by (auto simp: queue_margin_def Let_def no_panic split: if_splits)
qed

lemma queue_vm_return_no_Panic:
  assumes "dates_bounded x" "a \<in> set (margin_agreements (exec_plan x))"
    "\<not> term_effective_ordinal t \<le> asof x" "term_effective_ordinal t \<le> term_settlement_ordinal t"
    "term_settlement_ordinal t \<le> horizon_end x"
  shows "queue_vm_return x t a sid q \<noteq> Panic"
proof -
  have "0 \<le> term_settlement_ordinal t" using assms(1,3,4) by (simp add: dates_bounded_def)
  with lag_bounds [OF assms(1,2) _ assms(5)] show ?thesis
    by (auto simp: queue_vm_return_def no_panic)
qed

lemma queue_termination_no_Panic: "dates_bounded x \<Longrightarrow> queue_termination x q t \<noteq> Panic"
  by (cases "term_consideration t")
    (auto simp: queue_termination_def Let_def no_panic not_less queue_vm_return_no_Panic dest!: exec_known(2))

text \<open>What a finished loop over the instructions has checked of each.\<close>

lemma fold_res_each:
  "fold_res f s xs = Ok s' \<Longrightarrow> y \<in> set xs \<Longrightarrow> \<exists>s1 s2. f s1 y = Ok s2"
  by (induction xs arbitrary: s) auto

lemma queue_entry_checks:
  assumes "queue_entry x q h = Ok q'"
  shows "\<exists>a. last_by agreement_id (margin_agreements (exec_plan x)) (entry_agreement_id h) = Some a"
    "asof x < entry_ordinal h" "entry_ordinal h \<le> horizon_end x"
  using assms by (auto simp: queue_entry_def Let_def exec_agreement_def)

lemma queue_termination_checks:
  assumes "queue_termination x q t = Ok q'"
  shows "\<exists>a. last_by agreement_id (margin_agreements (exec_plan x)) (term_agreement_id t) = Some a"
    "asof x < term_effective_ordinal t" "term_effective_ordinal t \<le> horizon_end x"
    "term_effective_ordinal t \<le> term_settlement_ordinal t" "term_settlement_ordinal t \<le> horizon_end x"
  using assms by (auto simp: queue_termination_def Let_def exec_agreement_def not_less)

definition instructions_checked :: "Execution \<Rightarrow> bool" where
  "instructions_checked x \<longleftrightarrow>
     (\<forall>h \<in> set (hedge_entries (exec_request x)). \<exists>q q'. queue_entry x q h = Ok q')
     \<and> (\<forall>t \<in> set (terminations (exec_request x)). \<exists>q q'. queue_termination x q t = Ok q')"

lemma foldl_max_bounds:
  "(\<And>d. d \<in> set ds \<Longrightarrow> d \<le> b) \<Longrightarrow> m \<le> b \<Longrightarrow> m \<le> foldl max m ds \<and> foldl max m ds \<le> (b :: int)"
proof (induction ds arbitrary: m)
  case (Cons d ds)
  have "max m d \<le> b" using Cons.prems by simp
  from Cons.IH [OF _ this] Cons.prems show ?case by auto
qed simp

lemma queue_im_return_no_Panic:
  assumes b: "dates_bounded x" and c: "instructions_checked x" and a: "a \<in> set (margin_agreements (exec_plan x))"
    and d: "asof x < d" "d \<le> horizon_end x"
  shows "queue_im_return x a i d q \<noteq> Panic"
proof -
  let ?ts = "map term_settlement_ordinal (filter (\<lambda>t. term_agreement_id t = i) (terminations (exec_request x)))"
  define latest where "latest = (case ?ts of [] \<Rightarrow> d | s # ss \<Rightarrow> foldl max s ss)"
  have t: "asof x < s \<and> s \<le> horizon_end x" if "s \<in> set ?ts" for s
    using that c queue_termination_checks(2,4,5) by (fastforce simp: instructions_checked_def)
  have "0 \<le> latest \<and> latest \<le> horizon_end x"
  proof (cases ?ts)
    case Nil
    then show ?thesis using b d by (simp add: latest_def dates_bounded_def)
  next
    case (Cons s ss)
    have "s \<le> foldl max s ss \<and> foldl max s ss \<le> horizon_end x"
      using t Cons by (intro foldl_max_bounds) auto
    moreover have "asof x < s" using t Cons by simp
    ultimately show ?thesis using b Cons by (auto simp: latest_def dates_bounded_def)
  qed
  from lag_bounds [OF b a] this show ?thesis
    by (auto simp: queue_im_return_def Let_def latest_def [symmetric] no_panic)
qed

lemma queue_change_no_Panic:
  assumes "dates_bounded x" "instructions_checked x" "c \<in> set (population_changes (exec_request x))"
  shows "queue_change x dates q c \<noteq> Panic"
proof -
  obtain i d where c: "c = (i, d)" by (cases c)
  have k: "(\<exists>a. last_by agreement_id (margin_agreements (exec_plan x)) i = Some a) \<and> asof x < d \<and> d \<le> horizon_end x"
    using assms(2,3) queue_entry_checks queue_termination_checks(1-3)
    by (fastforce simp: population_changes_def c instructions_checked_def)
  then obtain a where a: "last_by agreement_id (margin_agreements (exec_plan x)) i = Some a" by blast
  have "a \<in> set (margin_agreements (exec_plan x))" using a by (auto dest: last_by_Some)
  then show ?thesis using queue_im_return_no_Panic [OF assms(1,2)] k a
    by (auto simp: queue_change_def c Let_def)
qed

lemma queued_events_no_Panic:
  assumes "dates_bounded x"
  shows "queued_events x \<noteq> Panic"
proof -
  let ?r = "exec_request x"
  have f: "fold_res (queue_purchase x) s (purchases ?r) \<noteq> Panic" "fold_res (queue_sale x) s (sales ?r) \<noteq> Panic"
    "fold_res (queue_financing x) s (financings ?r) \<noteq> Panic" "fold_res (queue_repayment x) s (repayments ?r) \<noteq> Panic"
    "fold_res (queue_entry x) s (hedge_entries ?r) \<noteq> Panic" "fold_res (queue_termination x) s (terminations ?r) \<noteq> Panic"
    "fold_res (queue_draw x) s (facility_draws ?r) \<noteq> Panic" "fold_res (queue_frepay x) s (facility_repayments ?r) \<noteq> Panic"
    "fold_res (queue_im x) s (supplied_margin ?r) \<noteq> Panic" "fold_res (queue_dynamic x) ds (dynamic_margin ?r) \<noteq> Panic" for s ds
    by (rule fold_calm; simp add: no_panic queue_entry_no_Panic queue_termination_no_Panic assms)+
  have "fold_res (queue_change x dates) s (population_changes ?r) \<noteq> Panic"
    if "fold_res (queue_entry x) s4 (hedge_entries ?r) = Ok s5" "fold_res (queue_termination x) s5 (terminations ?r) = Ok s6"
    for s4 s5 s6 dates s
  proof -
    have "instructions_checked x"
      using fold_res_each [OF that(1)] fold_res_each [OF that(2)] by (auto simp: instructions_checked_def)
    then show ?thesis using queue_change_no_Panic [OF assms] by (intro fold_calm) auto
  qed
  with f show ?thesis by (auto simp: queued_events_def Let_def)
qed

lemma admit_execution_no_Panic: "dates_bounded x \<Longrightarrow> admit_execution x \<noteq> Panic"
proof -
  assume b: "dates_bounded x"
  have "execution_bounds x \<noteq> Panic"
    using b by (auto simp: execution_bounds_def dates_bounded_def in_i32_def)
  moreover have "formal_untouched x \<noteq> Panic" unfolding formal_untouched_def by (rule for_each_no_Panic) simp
  moreover have "dependencies_precede es \<noteq> Panic" for es
    unfolding dependencies_precede_def
    by (rule for_each_no_Panic) (auto split: option.splits dest!: for_each_PanicD)
  ultimately show ?thesis using queued_events_no_Panic [OF b] by (auto simp: admit_execution_def Let_def)
qed

section \<open>The book\<close>

text \<open>
  The facilities of the book are those of the plan, and an armed policy manages some of them with
  admitted tenors. Everything the engine does keeps this.
\<close>

definition known :: "Execution \<Rightarrow> string set" where
  "known x = facility_id ` set (facilities (exec_plan x))"

definition policy_sane :: "Execution \<Rightarrow> PolicyRun \<Rightarrow> bool" where
  "policy_sane x p \<longleftrightarrow> set (facility_order p) \<subseteq> known x
     \<and> (\<forall>i r. map_of (run_renewal p) i = Some r \<longrightarrow> 0 \<le> tenor_days r \<and> tenor_days r \<le> MAX_RENEWAL_TENOR_DAYS)"

definition manageable :: "Execution \<Rightarrow> Book \<Rightarrow> bool" where
  "manageable x b \<longleftrightarrow> fs_id ` set (book_facilities b) = known x
     \<and> (\<forall>p. book_policy b = Some p \<longrightarrow> policy_sane x p)"

lemma policy_terms_parts:
  assumes "policy_terms b = policy_terms b'"
  shows "(book_policy b = None) = (book_policy b' = None)"
    "book_policy b' = Some p' \<Longrightarrow> \<exists>p. book_policy b = Some p \<and> facility_order p = facility_order p'
      \<and> run_renewal p = run_renewal p'"
proof -
  show "(book_policy b = None) = (book_policy b' = None)"
    using arg_cong [OF assms, of "\<lambda>q. q = None"] by (simp add: policy_terms_def)
  assume b': "book_policy b' = Some p'"
  with assms obtain p where p: "book_policy b = Some p" "p \<lparr> run_count := 0 \<rparr> = p' \<lparr> run_count := 0 \<rparr>"
    by (auto simp: policy_terms_def)
  from arg_cong [OF p(2), of facility_order] arg_cong [OF p(2), of run_renewal] p(1)
  show "\<exists>p. book_policy b = Some p \<and> facility_order p = facility_order p' \<and> run_renewal p = run_renewal p'"
    by simp
qed

lemma kept_manageable: "kept b b' \<Longrightarrow> manageable x b \<Longrightarrow> manageable x b'"
proof -
  assume k: "kept b b'" and m: "manageable x b"
  have "fs_id ` set (book_facilities b') = fs_id ` set (book_facilities b)"
    using arg_cong [of _ _ set, OF conjunct1 [OF k [unfolded kept_def]]] by simp
  moreover have t: "policy_terms b = policy_terms b'" using k by (simp add: kept_def)
  moreover have "policy_sane x p" if p: "book_policy b' = Some p" for p
  proof -
    from policy_terms_parts(2) [OF t p] obtain q where q: "book_policy b = Some q"
      "facility_order q = facility_order p" "run_renewal q = run_renewal p" by (elim exE conjE)
    from m q(1) have "policy_sane x q" by (simp add: manageable_def)
    then show ?thesis by (simp add: policy_sane_def q(2,3))
  qed
  ultimately show ?thesis using m by (simp add: manageable_def)
qed

lemma kept_policy: "kept b b' \<Longrightarrow> (book_policy b' = None) = (book_policy b = None)"
proof -
  assume "kept b b'"
  then have t: "policy_terms b = policy_terms b'" by (simp add: kept_def)
  show ?thesis by (rule policy_terms_parts(1) [OF t, symmetric])
qed

lemma manageable_fields [simp]:
  "manageable x (b \<lparr> book_owned := v \<rparr>) = manageable x b" "manageable x (b \<lparr> book_pledged := v \<rparr>) = manageable x b"
  "manageable x (b \<lparr> book_pledge_left := v \<rparr>) = manageable x b" "manageable x (b \<lparr> book_restricted := w \<rparr>) = manageable x b"
  "manageable x (b \<lparr> pre := u \<rparr>) = manageable x b" "manageable x (b \<lparr> policy_log := lg \<rparr>) = manageable x b"
  by (simp_all add: manageable_def)

lemma manageable_count: "manageable x b \<Longrightarrow> book_policy b = Some p
   \<Longrightarrow> manageable x (b \<lparr> book_policy := Some (p \<lparr> run_count := n \<rparr>) \<rparr>)"
  by (simp add: manageable_def policy_sane_def)

lemma facility_policy [simp]: "facility (b \<lparr> book_policy := q \<rparr>) i = facility b i"
  by (simp add: facility_def)

lemma facility_calm: "manageable x b \<Longrightarrow> i \<in> known x \<Longrightarrow> facility b i \<noteq> Panic"
proof -
  assume "manageable x b" "i \<in> known x"
  then have "i \<in> fs_id ` set (book_facilities b)" by (simp add: manageable_def)
  then show ?thesis by (auto simp: facility_def find_None_iff)
qed

lemma facility_mut_calm: "manageable x b \<Longrightarrow> i \<in> known x \<Longrightarrow> facility_mut i g b \<noteq> Panic"
  using facility_calm by (auto simp: facility_mut_def)

lemma facility_mut_kept: "facility_mut i g b = Ok b' \<Longrightarrow> (\<And>f. fs_id (g f) = fs_id f) \<Longrightarrow> kept b b'"
  using facility_mut_evolves [of i g b b' 0 0] by (auto simp: evolves_def)

lemma apply_calm [simp]: "book_apply i d ph sq ps b \<noteq> Panic"
  by (simp add: book_apply_def Let_def)

lemma act_frame_calm:
  assumes m: "manageable x b" "book_policy b \<noteq> None" "fid \<in> known x"
    and e: "\<And>p i c g. book_policy b = Some p \<Longrightarrow>
      eff i c g (b \<lparr> book_policy := Some (p \<lparr> run_count := Suc (run_count p) \<rparr>) \<rparr>) \<noteq> Panic"
    and k: "\<And>i c g b b'. eff i c g b = Ok b' \<Longrightarrow> kept b b'"
  shows "act_frame kind eff fid amount trig d ph nd b \<noteq> Panic"
proof -
  obtain p where p: "book_policy b = Some p" using m(2) by auto
  let ?b = "b \<lparr> book_policy := Some (p \<lparr> run_count := Suc (run_count p) \<rparr>) \<rparr>"
  have mb: "manageable x ?b" using manageable_count [OF m(1) p] .
  have "facility b' fid \<noteq> Panic" if "eff i c g ?b = Ok b'" for i c g b'
    using facility_calm [OF kept_manageable [OF k [OF that] mb] m(3)] .
  then show ?thesis using e [OF p] facility_calm [OF mb m(3)] p
    by (auto simp: act_frame_def Let_def)
qed

lemma mut_post_kept:
  assumes "and_then (facility_mut i g b) k = Ok b'" "\<And>f. fs_id (g f) = fs_id f"
    and "\<And>c. k c = Ok b' \<Longrightarrow> kept c b'"
  shows "kept b b'"
proof -
  from assms(1) obtain c where c: "facility_mut i g b = Ok c" "k c = Ok b'" by auto
  show ?thesis by (rule kept_trans [OF facility_mut_kept [OF c(1) assms(2)] assms(3) [OF c(2)]])
qed

lemma apply_kept: "book_apply i d ph sq ps b = Ok b' \<Longrightarrow> kept b b'"
  by (drule apply_evolves) (simp add: evolves_def)

lemma post_kept: "post i d ph sq ps b = Ok b' \<Longrightarrow> kept b b'"
  by (drule post_evolves) (simp add: evolves_def)

lemma draw_calm:
  assumes "manageable x b" "book_policy b \<noteq> None" "fid \<in> known x"
  shows "act_draw fid amount trig d ph sq nd b \<noteq> Panic"
  unfolding act_draw_def
proof (rule act_frame_calm [OF assms])
  fix p i c g assume "book_policy b = Some p"
  from facility_mut_calm [OF manageable_count [OF assms(1) this] assms(3)]
  show "draw_effect fid amount d ph sq i c g (b \<lparr> book_policy := Some (p \<lparr> run_count := Suc (run_count p) \<rparr>) \<rparr>) \<noteq> Panic"
    by (simp add: draw_effect_def)
next
  fix i c g b b' assume "draw_effect fid amount d ph sq i c g b = Ok b'"
  then show "kept b b'" unfolding draw_effect_def by (rule mut_post_kept) (auto intro: apply_kept)
qed

lemma surplus_calm:
  assumes "manageable x b" "book_policy b \<noteq> None" "fid \<in> known x"
  shows "act_surplus fid amount trig d ph sq nd b \<noteq> Panic"
  unfolding act_surplus_def
proof (rule act_frame_calm [OF assms])
  fix p i c g assume "book_policy b = Some p"
  from facility_mut_calm [OF manageable_count [OF assms(1) this] assms(3)]
  show "surplus_effect fid amount d ph sq i c g (b \<lparr> book_policy := Some (p \<lparr> run_count := Suc (run_count p) \<rparr>) \<rparr>) \<noteq> Panic"
    by (simp add: surplus_effect_def)
next
  fix i c g b b' assume "surplus_effect fid amount d ph sq i c g b = Ok b'"
  then show "kept b b'" unfolding surplus_effect_def by (rule mut_post_kept) (auto intro: apply_kept)
qed

lemma fund_step_kept: "fund_step trig d ph sq nd (r, b) i = Ok (r', b') \<Longrightarrow> kept b b'"
  by (drule fund_step_evolves) (simp add: evolves_def)

lemma fund_calm:
  assumes m: "manageable x b"
  shows "fund trig d ph sq delta b \<noteq> Panic"
proof (cases "book_policy b")
  case (Some p)
  have order: "set (facility_order p) \<subseteq> known x" using m Some by (simp add: manageable_def policy_sane_def)
  have "fold_res (fund_step trig d ph sq nd) (nd, b) (facility_order p) \<noteq> Panic" for nd
  proof (rule fold_res_no_Panic [where I = "\<lambda>s :: f64 \<times> Book. manageable x (snd s) \<and> book_policy (snd s) \<noteq> None"])
    show "manageable x (snd (nd, b)) \<and> book_policy (snd (nd, b)) \<noteq> None" using m Some by simp
    fix s :: "f64 \<times> Book" and i assume i: "i \<in> set (facility_order p)" and I: "manageable x (snd s) \<and> book_policy (snd s) \<noteq> None"
    obtain r c where s: "s = (r, c)" by (cases s)
    have "i \<in> known x" using i order by auto
    then show "fund_step trig d ph sq nd s i \<noteq> Panic"
      using I facility_calm [of x c i] draw_calm [of x c i] by (auto simp: s fund_step_def Let_def)
    fix s' assume "fund_step trig d ph sq nd s i = Ok s'"
    then have "kept c (snd s')" by (cases s') (auto simp: s dest: fund_step_kept)
    then show "manageable x (snd s') \<and> book_policy (snd s') \<noteq> None"
      using I kept_manageable kept_policy by (auto simp: s)
  qed
  then show ?thesis by (auto simp: fund_def Some Let_def)
qed (simp add: fund_def)

lemma post_calm: "manageable x b \<Longrightarrow> post i d ph sq ps b \<noteq> Panic"
  using fund_calm by (auto simp: post_def)

lemma maturity_calm:
  assumes "manageable x b" "book_policy b \<noteq> None" "fid \<in> known x"
  shows "act_maturity fid amount trig d ph sq nd b \<noteq> Panic"
  unfolding act_maturity_def
proof (rule act_frame_calm [OF assms])
  fix p i c g assume p: "book_policy b = Some p"
  let ?b = "b \<lparr> book_policy := Some (p \<lparr> run_count := Suc (run_count p) \<rparr>) \<rparr>"
  have m: "manageable x ?b" using manageable_count [OF assms(1) p] .
  have "manageable x b1" if "facility_mut fid (\<lambda>f. f \<lparr> fs_drawn := fs_drawn f - amount \<rparr>) ?b = Ok b1" for b1
    using kept_manageable [OF facility_mut_kept [OF that] m] by simp
  then show "maturity_effect fid amount d ph sq i c g ?b \<noteq> Panic"
    using facility_mut_calm [OF m assms(3)] post_calm by (auto simp: maturity_effect_def)
next
  fix i c g b b' assume "maturity_effect fid amount d ph sq i c g b = Ok b'"
  then show "kept b b'" unfolding maturity_effect_def by (rule mut_post_kept) (auto intro: post_kept)
qed

lemma renewal_calm:
  assumes "manageable x b" "book_policy b \<noteq> None" "fid \<in> known x"
    and f: "facility b fid = Ok f" "0 \<le> fs_expiry f" "fs_expiry f \<le> 2 ^ 30"
  shows "act_renewal fid amount trig d ph sq nd b \<noteq> Panic"
  unfolding act_renewal_def
proof (rule act_frame_calm [OF assms(1-3)])
  fix p i c g assume p: "book_policy b = Some p"
  let ?b = "b \<lparr> book_policy := Some (p \<lparr> run_count := Suc (run_count p) \<rparr>) \<rparr>"
  have m: "manageable x ?b" using manageable_count [OF assms(1) p] .
  let ?t = "case run_renewal_of ?b fid of None \<Rightarrow> 0 | Some r \<Rightarrow> tenor_days r"
  have t: "0 \<le> ?t \<and> ?t \<le> MAX_RENEWAL_TENOR_DAYS"
    using m by (auto simp: manageable_def policy_sane_def run_renewal_of_def MAX_RENEWAL_TENOR_DAYS_def split: option.split)
  have "in_i32 (fs_expiry f + ?t)" using f(2,3) t by (auto simp: in_i32_def MAX_RENEWAL_TENOR_DAYS_def)
  then show "renewal_effect fid amount d ph sq i c g ?b \<noteq> Panic"
    using facility_mut_calm [OF m assms(3)] by (auto simp: renewal_effect_def Let_def f(1))
next
  fix i c g b b' assume "renewal_effect fid amount d ph sq i c g b = Ok b'"
  then show "kept b b'" by (auto dest!: renewal_effect_evolves simp: evolves_def)
qed

section \<open>Events\<close>

lemma run_post_calm: "manageable x (book st) \<Longrightarrow> run_post e ps st \<noteq> Panic"
  using post_calm by (auto simp: run_post_def)

lemma run_post_custody_calm: "manageable x (book st) \<Longrightarrow> run_post_custody e ps st \<noteq> Panic"
  using post_calm by (auto simp: run_post_custody_def Let_def)

lemma restrict_manageable [simp]: "manageable x (book (restrict_cash a v st)) = manageable x (book st)"
  by (simp add: restrict_cash_def)

lemma moves_manageable: "moves d st st' \<Longrightarrow> manageable x (book st) \<Longrightarrow> manageable x (book st')"
  by (auto simp: moves_def evolves_def intro: kept_manageable)

lemma mut_run_post_calm:
  assumes "manageable x (book st)" "i \<in> known x" "\<And>f. fs_id (g f) = fs_id f"
  shows "and_then (facility_mut i g (book st)) (\<lambda>b. run_post e ps (st \<lparr> book := b \<rparr>)) \<noteq> Panic"
proof -
  have "manageable x b" if "facility_mut i g (book st) = Ok b" for b
    using kept_manageable [OF facility_mut_kept [OF that assms(3)] assms(1)] .
  then show ?thesis using facility_mut_calm [OF assms(1,2)] run_post_calm by auto
qed

lemma margin_calm:
  "manageable x (book st) \<Longrightarrow> margin_posted_by e a v st \<noteq> Panic"
  "manageable x (book st) \<Longrightarrow> margin_received_by e a v st \<noteq> Panic"
  using run_post_calm run_post_custody_calm by (auto simp: margin_posted_by_def margin_received_by_def)

lemma margin_requirement_calm:
  assumes "length (risk_weights m) = n" "length s = n" "symmetric_unit n (correlations m)"
    "length (bucket_upper_days m) = n"
  shows "margin_requirement m s \<noteq> Panic"
proof -
  have c: "length (correlations m) = n" "\<And>i. i < n \<Longrightarrow> length (correlations m ! i) = n"
    using assms(3) by (auto simp: symmetric_unit_def list_ex_iff)
  have "fold_res (quadratic_term m s) q (List.product [0..<n] [0..<n]) \<noteq> Panic" for q
    by (rule fold_calm) (auto simp: quadratic_term_def nth_checked_in assms(1,2) c)
  then show ?thesis by (simp add: margin_requirement_def Let_def assms(4))
qed

lemma add_sensitivity_length: "add_sensitivity x e n s l = Ok s' \<Longrightarrow> length s = n \<Longrightarrow> length s' = n"
  by (auto simp: add_sensitivity_def split: option.splits if_splits)

lemma exec_dynamic_calm:
  assumes m: "manageable x (book st)" and a: "agreement_ok r a" "initial_margin a = ResearchSensitivity"
  shows "exec_dynamic x e a st \<noteq> Panic"
proof -
  from a obtain mm where mm: "margin_method a = Some mm"
    "length (risk_weights mm) = length (bucket_upper_days mm)"
    "symmetric_unit (length (bucket_upper_days mm)) (correlations mm)"
    by (auto simp: agreement_ok_def)
  let ?n = "length (bucket_upper_days mm)"
  have "fold_res (add_sensitivity x e ?n) (replicate ?n 0) (live_lots a st) \<noteq> Panic"
    by (rule fold_calm) (simp add: add_sensitivity_def split: option.split)
  moreover have "margin_requirement mm s \<noteq> Panic"
    if "fold_res (add_sensitivity x e ?n) (replicate ?n 0) (live_lots a st) = Ok s" for s
  proof -
    have "length s = ?n"
      by (rule fold_res_inv [OF that, where I = "\<lambda>s. length s = ?n"]) (auto dest: add_sensitivity_length)
    then show ?thesis using mm by (intro margin_requirement_calm) auto
  qed
  moreover have "(if \<not> feq v 0 then margin_posted_by e a v st else Ok st) \<noteq> Panic" for v
    using margin_calm(1) [OF m] by simp
  moreover have "(if \<not> feq w 0 then margin_received_by e a w t else Ok t) \<noteq> Panic"
    if "(if \<not> feq v 0 then margin_posted_by e a v st else Ok st) = Ok t" for v w t
  proof -
    have "moves (event_ordinal e) st t" using that by (cases "feq v 0") (auto dest: margin_moves)
    from margin_calm(2) [OF moves_manageable [OF this m]] show ?thesis by simp
  qed
  ultimately show ?thesis by (auto simp: exec_dynamic_def Let_def mm(1))
qed

lemma exec_body_calm:
  assumes m: "manageable x (book st)" and b: "body_ok x (event_body e)"
    and g: "\<forall>a \<in> set (margin_agreements (exec_plan x)). agreement_ok r a"
  shows "exec_body x e st \<noteq> Panic"
proof (cases "event_body e")
  case (Advance f l)
  then show ?thesis using run_post_calm [OF m] by (simp add: exec_body_def exec_advance_def)
next
  case (Draw d f)
  then have i: "facility_id f \<in> known x" using b by (simp add: body_ok_def known_def)
  show ?thesis
    using facility_calm [OF m i] mut_run_post_calm [OF m i, of "\<lambda>s. s \<lparr> fs_drawn := fs_drawn s + draw_amount d \<rparr>" e]
    by (auto simp: exec_body_def Draw exec_draw_def Let_def)
next
  case (FacilityRepay rp f)
  then have i: "facility_id f \<in> known x" using b by (simp add: body_ok_def known_def)
  show ?thesis
    using facility_calm [OF m i] mut_run_post_calm [OF m i, of "\<lambda>s. s \<lparr> fs_drawn := fs_drawn s - frepay_amount rp \<rparr>" e]
    by (auto simp: exec_body_def FacilityRepay exec_frepay_def)
next
  case (Repayment rp l)
  then show ?thesis using run_post_calm [OF m] by (simp add: exec_body_def exec_repayment_def Let_def)
next
  case (Release p q)
  then show ?thesis by (simp add: exec_body_def exec_release_def Let_def)
next
  case (Purchase p l cost accrued)
  then show ?thesis using run_post_calm [OF m] by (simp add: exec_body_def exec_purchase_def Let_def)
next
  case (Sale s l cons accrued)
  then show ?thesis using run_post_calm [OF m] by (simp add: exec_body_def exec_sale_def Let_def)
next
  case (PledgeDelivery p)
  then show ?thesis using b by (simp add: exec_body_def exec_delivery_def body_ok_def Let_def)
next
  case (Entry h l clean)
  then show ?thesis using run_post_calm [OF m] by (simp add: exec_body_def exec_entry_def)
next
  case (TerminationEffective t l cons due)
  have "manageable x (book (st \<lparr> derivative_carrying := v \<rparr>))" for v using m by simp
  note run_post_calm [OF this]
  with TerminationEffective show ?thesis by (simp add: exec_body_def exec_terminate_def Let_def)
next
  case (TerminationSettle t a)
  have "manageable x (book (restrict_cash a v (st \<lparr> vm_posted := u, vm_received := w \<rparr>)))" for v u w using m by simp
  note run_post_calm [OF this] run_post_calm [OF m]
  with TerminationSettle show ?thesis by (simp add: exec_body_def exec_settle_def Let_def)
next
  case (VmSettle a call)
  then show ?thesis using run_post_calm [OF m] by (simp add: exec_body_def exec_vm_settle_def)
next
  case (VmReturn a)
  then show ?thesis using run_post_calm [OF m] by (simp add: exec_body_def exec_vm_return_def Let_def)
next
  case (ImReturn a)
  have "run_post_custody e ps (t \<lparr> im_posted := v \<rparr>) \<noteq> Panic" if "run_post e qs st = Ok t" for ps qs t v
    using moves_manageable [OF run_post_moves [OF that] m] by (intro run_post_custody_calm) simp
  then show ?thesis using run_post_calm [OF m] ImReturn
    by (auto simp: exec_body_def exec_im_return_def Let_def)
next
  case (DynamicIm a)
  then show ?thesis using b g exec_dynamic_calm [OF m] by (auto simp: exec_body_def body_ok_def)
next
  case (Im im a)
  have "margin_received_by e a w t \<noteq> Panic" if "margin_posted_by e a v st = Ok t" for v w t
    using margin_calm(2) [OF moves_manageable [OF margin_moves(1) [OF that] m]] .
  then show ?thesis using margin_calm [OF m] Im by (auto simp: exec_body_def exec_im_def Let_def)
qed

section \<open>Days\<close>

text \<open>Between events and days: the book is manageable, nothing is logged, what is pending is admitted.\<close>

definition ready :: "Execution \<Rightarrow> Run \<Rightarrow> bool" where
  "ready x st \<longleftrightarrow> manageable x (book st) \<and> policy_log (book st) = []
     \<and> (\<forall>e \<in> set (pending st). body_ok x (event_body e))"

lemma progress_ready:
  "progress d es st st' \<Longrightarrow> set (pending st') \<subseteq> set (pending st) \<Longrightarrow> ready x st \<Longrightarrow> ready x st'"
  by (auto simp: ready_def progress_def intro: kept_manageable)

lemma take_inventory_manageable [simp]: "manageable x (book (take_inventory st)) = manageable x (book st)"
  by (simp add: take_inventory_def)

lemma run_event_calm:
  assumes "ready x st" "body_ok x (event_body e)" "\<forall>a \<in> set (margin_agreements (exec_plan x)). agreement_ok r a"
  shows "run_event x st e \<noteq> Panic"
proof -
  have "manageable x (book (take_inventory st \<lparr> sequence_no := v \<rparr>))" for v
    using assms(1) by (simp add: ready_def)
  from exec_body_calm [OF this assms(2,3)] show ?thesis
    by (auto simp: run_event_def settle_event_def Let_def)
qed

lemma start_facility_calm:
  assumes "manageable x (book st)" "book_policy (book st) \<noteq> None" "i \<in> known x" "0 \<le> d" "d \<le> 2 ^ 30"
  shows "start_facility d st i \<noteq> Panic"
  using facility_calm [OF assms(1,3)] renewal_calm [OF assms(1-3)] maturity_calm [OF assms(1-3)] assms(4,5)
  by (auto simp: start_facility_def Let_def)

lemma repay_facility_calm:
  assumes "manageable x (book st)" "book_policy (book st) \<noteq> None" "i \<in> known x"
  shows "repay_facility d flr st i \<noteq> Panic"
  using facility_calm [OF assms(1,3)] surplus_calm [OF assms] by (auto simp: repay_facility_def Let_def)

lemma fold_facilities_calm:
  assumes "manageable x (book st)" "book_policy (book st) \<noteq> None" "set is \<subseteq> known x"
    and "\<And>s i. manageable x (book s) \<Longrightarrow> book_policy (book s) \<noteq> None \<Longrightarrow> i \<in> known x \<Longrightarrow> f s i \<noteq> Panic"
    and "\<And>s i s'. f s i = Ok s' \<Longrightarrow> moves d s s'"
  shows "fold_res f st is \<noteq> Panic"
proof (rule fold_res_no_Panic [where I = "\<lambda>s. manageable x (book s) \<and> book_policy (book s) \<noteq> None"])
  fix s i s' assume I: "manageable x (book s) \<and> book_policy (book s) \<noteq> None" and f: "f s i = Ok s'"
  have "kept (book s) (book s')" using assms(5) [OF f] by (simp add: moves_def evolves_def)
  then show "manageable x (book s') \<and> book_policy (book s') \<noteq> None"
    using I kept_manageable kept_policy by auto
qed (use assms in auto)

lemma start_of_day_calm:
  assumes "manageable x (book st)" "0 \<le> d" "d \<le> 2 ^ 30"
  shows "start_of_day d st \<noteq> Panic"
proof (cases "book_policy (book (take_inventory st))")
  case (Some p)
  have m: "manageable x (book (take_inventory st))" using assms(1) by simp
  then have "set (facility_order p) \<subseteq> known x" using Some by (simp add: manageable_def policy_sane_def)
  then have "fold_res (start_facility d) (take_inventory st) (facility_order p) \<noteq> Panic"
    using Some assms(2,3)
    by (intro fold_facilities_calm [OF m _ _ start_facility_calm start_facility_moves]) auto
  then show ?thesis by (simp add: start_of_day_def Let_def Some)
qed (simp add: start_of_day_def Let_def)

lemma end_of_day_calm:
  assumes "manageable x (book st)"
  shows "end_of_day d st \<noteq> Panic"
proof (cases "book_policy (book (take_inventory st))")
  case (Some p)
  have m: "manageable x (book (take_inventory st))" using assms by simp
  then have "set (rev (facility_order p)) \<subseteq> known x" using Some by (simp add: manageable_def policy_sane_def)
  then have "fold_res (repay_facility d flr) (take_inventory st) (rev (facility_order p)) \<noteq> Panic" for flr
    using Some by (intro fold_facilities_calm [OF m _ _ repay_facility_calm repay_facility_moves]) auto
  then show ?thesis by (simp add: end_of_day_def Let_def Some)
qed (simp add: end_of_day_def Let_def)

lemma run_events_calm:
  assumes "ready x st" "\<forall>e \<in> set es. body_ok x (event_body e)"
    and g: "\<forall>a \<in> set (margin_agreements (exec_plan x)). agreement_ok r a"
  shows "fold_res (run_event x) st es \<noteq> Panic"
proof (rule fold_res_no_Panic [where I = "ready x"])
  fix s e s' assume e: "e \<in> set es" and s: "ready x s"
  show "run_event x s e \<noteq> Panic" using run_event_calm [OF s _ g] e assms(2) by blast
  assume run: "run_event x s e = Ok s'"
  have "policy_log (book s) = []" using s by (simp add: ready_def)
  note p = run_event_progress [OF run this]
  show "ready x s'" by (rule progress_ready [OF p(1) _ s]) (simp add: p(3))
qed (use assms(1) in simp)

lemma run_day_calm:
  assumes s: "ready x st" and d: "0 \<le> d" "d \<le> 2 ^ 30"
    and g: "\<forall>a \<in> set (margin_agreements (exec_plan x)). agreement_ok r a"
  shows "run_day x st d \<noteq> Panic"
proof -
  have m: "manageable x (book st)" and l: "policy_log (book st) = []" using s by (simp_all add: ready_def)
  have ev: "fold_res (run_event x) s1 (takeWhile (\<lambda>e. event_ordinal e = d) (pending s1)) \<noteq> Panic"
    if "start_of_day d st = Ok s1" for s1
  proof -
    note p = start_of_day_progress [OF that l]
    have "ready x s1" by (rule progress_ready [of d "[]" st]) (use p s in auto)
    then show ?thesis using g by (intro run_events_calm) (auto simp: ready_def dest: set_takeWhileD)
  qed
  have en: "end_of_day d (s2 \<lparr> pending := ps \<rparr>) \<noteq> Panic"
    if "start_of_day d st = Ok s1" "fold_res (run_event x) s1 (takeWhile (\<lambda>e. event_ordinal e = d) (pending s1)) = Ok s2"
    for s1 s2 ps
  proof -
    note p1 = start_of_day_progress [OF that(1) l]
    have k1: "kept (book st) (book s1)" and l1: "policy_log (book s1) = []" using p1 by (simp_all add: progress_def)
    have "\<forall>e \<in> set (takeWhile (\<lambda>e. event_ordinal e = d) (pending s1)). event_ordinal e = d"
      by (auto dest: set_takeWhileD)
    from run_events_progress [OF that(2) l1 this] have "kept (book s1) (book s2)" by (simp add: progress_def)
    then have "manageable x (book s2)" using kept_manageable [OF _ kept_manageable [OF k1 m]] by blast
    then show ?thesis by (intro end_of_day_calm [of x]) simp
  qed
  show ?thesis using start_of_day_calm [OF m d] ev en by (simp add: run_day_def Let_def)
qed

lemma run_days_calm:
  assumes s: "ready x st" and d: "0 \<le> a" "b \<le> 2 ^ 30"
    and g: "\<forall>a \<in> set (margin_agreements (exec_plan x)). agreement_ok r a"
  shows "fold_res (run_day x) st [a..b] \<noteq> Panic"
proof (rule fold_res_no_Panic [where I = "ready x"])
  fix u e u' assume e: "e \<in> set [a..b]" and u: "ready x u"
  show "run_day x u e \<noteq> Panic" using run_day_calm [OF u _ _ g] e d by simp
  assume run: "run_day x u e = Ok u'"
  have "policy_log (book u) = []" using u by (simp add: ready_def)
  from run_day_progress [OF run this] obtain t es cs where p: "progress e es u t"
    and u': "u' = t \<lparr> closings := cs \<rparr>" and q: "pending t = later e (pending u)" by blast
  have "set (pending t) \<subseteq> set (pending u)" using q by (auto simp: later_def dest: set_dropWhileD)
  from progress_ready [OF p this u] show "ready x u'" by (simp add: ready_def u')
qed (use s in simp)

section \<open>The whole execution\<close>

lemma arm_policy_manageable:
  assumes "arm_policy x (empty_book x account) = Ok b"
  shows "manageable x b"
proof -
  have ids: "fs_id ` set (book_facilities (empty_book x account)) = known x"
    and no: "book_policy (empty_book x account) = None"
    by (auto simp: empty_book_def known_def Let_def image_image)
  show ?thesis
  proof (cases "business_plan (exec_request x)")
    case None
    then have "b = empty_book x account" using assms by (simp add: arm_policy_def)
    then show ?thesis using ids no by (simp add: manageable_def)
  next
    case (Some bp)
    show ?thesis
    proof (cases "funding_policy bp")
      case None
      then have "b = empty_book x account" using assms Some by (auto simp: arm_policy_def Let_def)
      then show ?thesis using ids no by (simp add: manageable_def)
    next
      case (Some p)
      obtain n sch where v: "validate_policy bp (map facility_id (facilities (exec_plan x))) n sch (asof x) (horizon_end x) = Ok ()"
        and b: "b = empty_book x account \<lparr> book_policy := Some (policy_run p) \<rparr>"
        using assms \<open>business_plan _ = Some bp\<close> Some by (auto simp: arm_policy_def Let_def)
      have f: "policy_facility_id f \<in> known x
          \<and> (\<forall>r. renewal f = Some r \<longrightarrow> 0 \<le> tenor_days r \<and> tenor_days r \<le> MAX_RENEWAL_TENOR_DAYS)"
        if "f \<in> set (policy_facilities p)" for f
        using policy_facilities_admissible [OF v Some that] by (auto simp: facility_admissible_def known_def)
      have "policy_sane x (policy_run p)"
        using f by (fastforce simp: policy_sane_def policy_run_def om_of_get List.map_filter_def
            dest!: last_by_Some split: if_splits option.splits)
      then show ?thesis using ids by (simp add: manageable_def b)
    qed
  qed
qed

lemma monthly_calm: "monthly ins ss op a b \<noteq> Panic"
proof -
  have "month_key d \<noteq> Panic" for d using greg.dec_no_Panic by (auto simp: month_key_def)
  then have "fold_res extend_months ms ds \<noteq> Panic" for ms ds
    by (intro fold_calm) (simp add: extend_months_def)
  then show ?thesis by (simp add: monthly_def month_spans_def)
qed

lemma close_run_calm: "close_run x account ls op st \<noteq> Panic"
  using monthly_calm by (cases ls) (auto simp: close_run_def monthly_of_def Let_def split: option.splits)

text \<open>
  C5. The engine is total: on an admitted plan, with dates and settlement lags below 2 to the 30,
  every execution request is answered by a journal or by a refusal. No lookup, index or date
  addition on the way can panic, with or without a funding policy.
\<close>

theorem replay_never_panics:
  assumes "validate_plan hash (exec_plan x) = Ok ()" "dates_bounded x"
  shows "replay_with_margin x \<noteq> Panic"
proof
  assume panic: "replay_with_margin x = Panic"
  have adm_calm: "admit_execution x \<noteq> Panic" by (rule admit_execution_no_Panic [OF assms(2)])
  have arm_calm: "arm_policy x b \<noteq> Panic" for b
    using policy_no_Panic by (auto simp: arm_policy_def Let_def split: option.splits)
  obtain account es where adm: "admit_execution x = Ok (account, es)"
    using panic adm_calm by (cases "admit_execution x") (auto simp: replay_with_margin_def)
  obtain b where arm: "arm_policy x (empty_book x account) = Ok b"
    using panic arm_calm by (cases "arm_policy x (empty_book x account)") (auto simp: replay_with_margin_def adm)
  obtain ls assets liabilities st where opn: "open_book x account es b = (ls, assets, liabilities, st)"
    by (cases "open_book x account es b")
  have run: "fold_res (run_day x) st [asof x..horizon_end x] = Panic"
    using panic by (simp add: replay_with_margin_def adm arm opn Let_def close_run_calm)
  have "validate_agreements (exec_plan x) = Ok ()" using assms(1) by (rule validate_plan_parts)
  then obtain sc where "fold_res (validate_agreement (exec_plan x)) {} (margin_agreements (exec_plan x)) = Ok sc"
    by (auto simp: validate_agreements_def ignore_def unit_result split: result.splits)
  from agreements_fold [OF this] have g: "\<forall>a \<in> set (margin_agreements (exec_plan x)). agreement_ok (exec_plan x) a"
    by blast
  note af = arm_policy_fields [OF arm]
  have e: "book_custody b = []" "book_intents b = []" "book_decisions b = []" "policy_log b = []"
    using af by (simp_all add: empty_book_def Let_def)
  note o = open_book_start [OF opn e]
  have "\<forall>e \<in> set es. body_ok x (event_body e)" using admit_execution_Ok(1) [OF adm] by (simp add: events_ok_def)
  then have "ready x st" using o arm_policy_manageable [OF arm] by (simp add: ready_def manageable_def)
  from run_days_calm [OF this _ _ g] show False
    using run assms(2) by (auto simp: dates_bounded_def)
qed

theorem replay_never_panics_witness:
  "replay_with_margin (sample_execution \<lparr> exec_plan := sample_plan \<rparr>) \<noteq> Panic"
proof (rule replay_never_panics)
  show "validate_plan (\<lambda>_ _. 0) (exec_plan (sample_execution \<lparr> exec_plan := sample_plan \<rparr>)) = Ok ()"
    by (simp add: sample_admitted)
  show "dates_bounded (sample_execution \<lparr> exec_plan := sample_plan \<rparr>)"
    by (simp add: dates_bounded_def asof_def horizon_end_def sample_execution_def sample_plan_def)
qed

end
