(* ===== verification/Deposit_State.thy ===== *)
theory Deposit_State
  imports Dated_Cashflow
begin

text \<open>
  Deposits, \<open>portfolio-model-core/src/products/deposits/state.rs\<close> and \<open>principal.rs\<close>: daily balances
  under supplied policies of repricing, withdrawal, closure and migration. The local variables of
  \<open>simulate_inner\<close> are the record \<open>Deposits\<close>, one day is \<open>dep_day\<close>. \<open>f64::exp\<close> and \<open>f64::exp_m1\<close>,
  whose results the language leaves to the platform, are the parameters \<open>exp\<close> and \<open>exp_m1\<close> of \<open>Maths\<close>. The
  callback \<open>check\<close> is a sequence of answers, \<open>Some e\<close> an error; the state counts the calls. A
  vector of the request is read by \<open>nth_checked\<close>, which panics out of range; the vectors of the loop have one
  entry per segment. The error text of \<open>range\<close>, which prints its bounds, is \<open>Outside\<close> with the bounds.
\<close>

section \<open>Requests and results\<close>

definition DEPOSIT_SCHEMA :: string where
  "DEPOSIT_SCHEMA = ''deposit-state-1''"

definition MAX_SEGMENTS :: usize where
  "MAX_SEGMENTS = 16"

definition MAX_DEPOSIT_WORK :: usize where
  "MAX_DEPOSIT_WORK = 250000"

definition MAX_DEPOSIT_DAYS :: nat where
  "MAX_DEPOSIT_DAYS = 36600"

definition MAX_ROW_INTENSITY :: f64 where
  "MAX_ROW_INTENSITY = f64_of_int 100"

datatype DepositError = Text string | Outside string f64 f64

record DepositIdentity =
  entity_id :: string
  dep_cohort_id :: string
  dep_currency :: string
  dep_source_revision :: string
  dep_model_version :: string
  dep_assumption_id :: string
  assumption_rationale :: string
  dep_run_id :: string
  dep_measure :: CashflowMeasure

datatype TargetRule =
    Linear f64 f64 f64
  | LogisticBeta f64 f64 f64 f64 f64 f64

record ObservedRange =
  history_revision :: string
  minimum_reference_rate :: f64
  maximum_reference_rate :: f64
  logistic_plateau_identified :: bool

record RepricingPolicy =
  target_rule :: TargetRule
  observation_lag_days :: nat
  rising_half_life_days :: f64
  falling_half_life_days :: f64
  rate_floor :: f64
  rate_ceiling :: f64
  supported_range :: "ObservedRange option"

record SegmentCharacteristics =
  uninsured_fraction :: f64
  concentration :: f64
  digital_fraction :: f64
  relationship_fraction :: f64
  operational_fraction :: f64

record RetentionPolicy =
  withdrawal_per_year :: f64
  closure_per_year :: f64
  opportunity_gap_sensitivity :: f64
  velocity_sensitivity :: f64
  uninsured_stress_sensitivity :: f64
  concentration_stress_sensitivity :: f64
  digital_stress_sensitivity :: f64
  relationship_protection :: f64
  operational_protection :: f64
  closure_stress_sensitivity :: f64

record DepositSegment =
  segment_id :: string
  opening_balance :: f64
  opening_accrued :: f64
  opening_paid_rate :: f64
  characteristics :: SegmentCharacteristics
  repricing :: RepricingPolicy
  retention :: RetentionPolicy
  maturity_ordinal :: "i32 option"
  interest_payments :: "i32 list"

record MigrationPolicy =
  from_segment :: string
  to_segment :: string
  base_per_year :: f64
  rate_gap_sensitivity :: f64

record DepositDriver =
  driver_ordinal :: i32
  reference_rate :: f64
  competitor_rates :: "f64 list"
  offered_spread_stress :: "f64 list"
  confidence_stress :: "f64 list"
  external_inflows :: "f64 list"

datatype TerminalPolicy =
    RetainResidual
  | AssumedLiquidation string
  | FranchiseValueOnly f64 string

record DepositStateRequest =
  dep_schema :: string
  dep_identity :: DepositIdentity
  dep_as_of :: i32
  dep_horizon_days :: nat
  dep_day_count :: ActualDayCount
  segments :: "DepositSegment list"
  migrations :: "MigrationPolicy list"
  drivers :: "DepositDriver list"
  terminal_policy :: TerminalPolicy

record DepositCashEvent =
  dep_event_id :: string
  dep_cash_ordinal :: i32
  dep_cash_segment :: string
  dep_cash_kind :: string
  dep_cash_principal :: f64
  dep_cash_interest :: f64

record DepositMigration =
  move_ordinal :: i32
  move_from :: string
  move_to :: string
  move_principal :: f64
  move_accrued :: f64

record DepositPoint =
  dep_point_ordinal :: i32
  point_balances :: "f64 list"
  point_accrued :: "f64 list"
  point_rates :: "f64 list"
  outside_regime :: "bool list"
  regime_assessed :: "bool list"

record DepositInterest =
  interest_start :: i32
  interest_end :: i32
  interest_segment :: string
  interest_amount :: f64

record DepositStateResult =
  dep_result_schema :: string
  dep_result_identity :: DepositIdentity
  parameter_status :: string
  segment_ids :: "string list"
  dep_points :: "DepositPoint list"
  dep_cashflows :: "DepositCashEvent list"
  dep_migrations :: "DepositMigration list"
  dep_interest :: "DepositInterest list"
  total_external_inflows :: f64
  total_withdrawals :: f64
  total_closures :: f64
  total_maturities :: f64
  total_terminal_payout :: f64
  dep_closing_balance :: f64
  dep_closing_accrued :: f64
  total_interest_expense :: f64
  total_cash_interest :: f64
  franchise_value :: "f64 option"

section \<open>Checks\<close>

type_synonym checker = "nat \<Rightarrow> string option"

definition run_check :: "checker \<Rightarrow> nat \<Rightarrow> (DepositError, nat) result" where
  "run_check chk k = (case chk k of None \<Rightarrow> Ok (k + 1) | Some e \<Rightarrow> Err (Text e))"

definition dep_ordinal :: "i32 \<Rightarrow> (DepositError, unit) result" where
  "dep_ordinal d = map_err Text (validate_ordinal d)"

definition finite_money :: "f64 \<Rightarrow> string \<Rightarrow> (DepositError, unit) result" where
  "finite_money v name = require (\<not> (\<not> is_finite v \<or> MAX_MONETARY_AMOUNT < fabs v))
     (Text (name @ '' exceeds finite monetary admission'')) (Ok ())"

definition dep_nonnegative :: "f64 \<Rightarrow> string \<Rightarrow> (DepositError, unit) result" where
  "dep_nonnegative v name = and_then (finite_money v name) (\<lambda>_.
     require (\<not> v < 0) (Text (name @ '' must be nonnegative'')) (Ok ()))"

definition in_range :: "f64 \<Rightarrow> f64 \<Rightarrow> f64 \<Rightarrow> string \<Rightarrow> (DepositError, unit) result" where
  "in_range v lo hi name = require (\<not> (\<not> is_finite v \<or> v < lo \<or> hi < v)) (Outside name lo hi) (Ok ())"

definition dep_label :: "string \<Rightarrow> nat \<Rightarrow> (DepositError, unit) result" where
  "dep_label v mx = require (\<not> (all_white v \<or> mx < length v \<or> has_control v))
     (Text ''deposit identity/rationale must be bounded nonblank text'') (Ok ())"

definition validate_vectors :: "f64 list \<Rightarrow> f64 list \<Rightarrow> (DepositError, unit) result" where
  "validate_vectors b a =
     and_then (for_each b (\<lambda>v. dep_nonnegative v ''deposit balance'')) (\<lambda>_.
     and_then (for_each a (\<lambda>v. finite_money v ''deposit accrued interest'')) (\<lambda>_.
     and_then (dep_nonnegative (fsum b) ''total deposit balance'') (\<lambda>_.
     finite_money (fsum (map fabs a)) ''gross accrued rights'')))"

text \<open>The literals \<open>-0.2\<close>, \<open>2.\<close>, \<open>10000.\<close>.\<close>

definition low_rate :: f64 where
  "low_rate = - f64_lit 1 5"

definition two :: f64 where
  "two = f64_of_int 2"

definition ten_thousand :: f64 where
  "ten_thousand = f64_of_int 10000"

section \<open>Admission\<close>

definition admit_identity :: "DepositStateRequest \<Rightarrow> (DepositError, unit) result" where
  "admit_identity r = (let i = dep_identity r in
     require (\<not> (dep_schema r \<noteq> DEPOSIT_SCHEMA \<or> dep_model_version i \<noteq> DEPOSIT_SCHEMA))
       (Text ''deposit schema/model version mismatch'')
    (require (dep_measure i = Physical \<or> dep_measure i = Pricing)
       (Text ''deposit state requires an explicit supplied physical or pricing measure'')
    (and_then (for_each [entity_id i, dep_cohort_id i, dep_currency i, dep_source_revision i,
        dep_model_version i, dep_assumption_id i, dep_run_id i] (\<lambda>v. dep_label v 256)) (\<lambda>_.
     dep_label (assumption_rationale i) 1024))))"

definition admit_horizon :: "DepositStateRequest \<Rightarrow> (DepositError, i32) result" where
  "admit_horizon r =
     and_then (dep_ordinal (dep_as_of r)) (\<lambda>_.
     require (\<not> MAX_DEPOSIT_DAYS < dep_horizon_days r) (Text ''deposit horizon exceeds 36600 days'')
    (and_then (ok_or (i32_checked_add (dep_as_of r) (i32_of_u32 (dep_horizon_days r)))
        (Text ''deposit horizon overflow'')) (\<lambda>fin.
     and_then (dep_ordinal fin) (\<lambda>_. Ok fin))))"

definition admit_dimensions :: "DepositStateRequest \<Rightarrow> (DepositError, unit) result" where
  "admit_dimensions r = (let n = length (segments r) in
     require (dep_day_count r = Act360 \<or> dep_day_count r = Act365Fixed)
       (Text ''deposit interest requires explicit ACT360 or ACT365F'')
    (require (\<not> (n = 0 \<or> MAX_SEGMENTS < n \<or> n * (n - 1) < length (migrations r)))
       (Text ''deposit segment/migration admission exceeded'')
    (require (case usize_checked_mul (dep_horizon_days r + 1) (n * n + 6 * n) of
         None \<Rightarrow> False | Some v \<Rightarrow> \<not> MAX_DEPOSIT_WORK < v)
       (Text ''deposit daily work admission exceeded'') (Ok ()))))"

definition admit_target :: "TargetRule \<Rightarrow> (DepositError, unit) result" where
  "admit_target t =
     and_then (case t of
         Linear intercept beta weight \<Rightarrow>
           and_then (in_range beta 0 two ''beta'') (\<lambda>_. Ok (intercept, weight))
       | LogisticBeta intercept beta_min beta_max midpoint steepness weight \<Rightarrow>
           and_then (in_range beta_min 0 two ''minimum beta'') (\<lambda>_.
           and_then (in_range beta_max beta_min two ''maximum beta'') (\<lambda>_.
           and_then (in_range midpoint low_rate two ''beta midpoint'') (\<lambda>_.
           and_then (in_range steepness 0 ten_thousand ''beta steepness'') (\<lambda>_.
           Ok (intercept, weight))))))
     (\<lambda>(intercept, weight).
       and_then (in_range intercept (- two) two ''rate intercept'') (\<lambda>_.
       in_range weight 0 two ''competitor weight''))"

definition admit_repricing :: "RepricingPolicy \<Rightarrow> f64 \<Rightarrow> (DepositError, unit) result" where
  "admit_repricing p paid_rate =
     and_then (in_range (rate_floor p) low_rate two ''paid floor'') (\<lambda>_.
     and_then (in_range (rate_ceiling p) (rate_floor p) two ''paid ceiling'') (\<lambda>_.
     and_then (in_range paid_rate (rate_floor p) (rate_ceiling p) ''opening paid rate'') (\<lambda>_.
     and_then (for_each [rising_half_life_days p, falling_half_life_days p]
        (\<lambda>v. in_range v 0 (f64_of_int 36600) ''adjustment half life'')) (\<lambda>_.
     require (\<not> 366 < observation_lag_days p) (Text ''deposit observation lag exceeds 366 days'')
    (and_then (admit_target (target_rule p)) (\<lambda>_.
     case supported_range p of
       None \<Rightarrow> Ok ()
     | Some v \<Rightarrow>
         and_then (dep_label (history_revision v) 256) (\<lambda>_.
         and_then (in_range (minimum_reference_rate v) low_rate two ''observed minimum rate'') (\<lambda>_.
         in_range (maximum_reference_rate v) (minimum_reference_rate v) two ''observed maximum rate''))))))))"

definition characteristic_list :: "SegmentCharacteristics \<Rightarrow> f64 list" where
  "characteristic_list c = [uninsured_fraction c, concentration c, digital_fraction c,
     relationship_fraction c, operational_fraction c]"

definition retention_list :: "RetentionPolicy \<Rightarrow> f64 list" where
  "retention_list h = [withdrawal_per_year h, closure_per_year h, opportunity_gap_sensitivity h,
     velocity_sensitivity h, uninsured_stress_sensitivity h, concentration_stress_sensitivity h,
     digital_stress_sensitivity h, relationship_protection h, operational_protection h,
     closure_stress_sensitivity h]"

definition admit_payment_date :: "i32 \<Rightarrow> i32 \<Rightarrow> i32 \<Rightarrow> (DepositError, i32) result" where
  "admit_payment_date fin previous d = and_then (dep_ordinal d) (\<lambda>_.
     require (\<not> (d \<le> previous \<or> fin < d))
       (Text ''interest settlement dates must be strict and within horizon'') (Ok d))"

definition admit_segment :: "DepositStateRequest \<Rightarrow> i32 \<Rightarrow> string set \<times> nat \<Rightarrow> DepositSegment
    \<Rightarrow> (DepositError, string set \<times> nat) result" where
  "admit_segment r fin st s = (case st of (names, max_lag) \<Rightarrow>
     and_then (dep_label (segment_id s) 64) (\<lambda>_.
     require (segment_id s \<notin> names) (Text ''duplicate deposit segment identity'')
    (and_then (dep_nonnegative (opening_balance s) ''opening deposit balance'') (\<lambda>_.
     and_then (finite_money (opening_accrued s) ''opening accrued interest'') (\<lambda>_.
     and_then (admit_repricing (repricing s) (opening_paid_rate s)) (\<lambda>_.
     and_then (for_each (characteristic_list (characteristics s)) (\<lambda>v. in_range v 0 1 ''deposit characteristic'')) (\<lambda>_.
     and_then (for_each (retention_list (retention s)) (\<lambda>v. in_range v 0 ten_thousand ''retention coefficient'')) (\<lambda>_.
     and_then (case maturity_ordinal s of
         None \<Rightarrow> Ok ()
       | Some m \<Rightarrow> and_then (dep_ordinal m) (\<lambda>_.
           require (\<not> (m < dep_as_of r \<or> fin < m)) (Text ''contractual maturity outside full deposit horizon'') (Ok ()))) (\<lambda>_.
     require (\<not> dep_horizon_days r < length (interest_payments s))
       (Text ''interest settlement date admission exceeded'')
    (and_then (fold_res (admit_payment_date fin) (dep_as_of r) (interest_payments s)) (\<lambda>_.
     Ok (insert (segment_id s) names, max max_lag (observation_lag_days (repricing s))))))))))))))"

definition admit_migration :: "string set \<Rightarrow> (string \<times> string) set \<Rightarrow> MigrationPolicy
    \<Rightarrow> (DepositError, (string \<times> string) set) result" where
  "admit_migration names pairs m =
     require (\<not> (from_segment m = to_segment m \<or> from_segment m \<notin> names \<or> to_segment m \<notin> names
                \<or> (from_segment m, to_segment m) \<in> pairs))
       (Text ''migration must name distinct declared segments once'')
    (and_then (in_range (base_per_year m) 0 (f64_of_int 100) ''migration intensity'') (\<lambda>_.
     and_then (in_range (rate_gap_sensitivity m) 0 ten_thousand ''migration sensitivity'') (\<lambda>_.
     Ok (insert (from_segment m, to_segment m) pairs))))"

definition admit_driver :: "checker \<Rightarrow> DepositStateRequest \<Rightarrow> i32 \<Rightarrow> nat \<Rightarrow> nat \<times> DepositDriver
    \<Rightarrow> (DepositError, nat) result" where
  "admit_driver chk r first k jd = (case jd of (j, d) \<Rightarrow>
     and_then (run_check chk k) (\<lambda>k.
     require (driver_ordinal d = first + int j) (Text ''deposit drivers require contiguous ordered exact dates'')
    (and_then (in_range (reference_rate d) low_rate two ''reference rate'') (\<lambda>_.
     require (\<forall>v \<in> set [length (competitor_rates d), length (offered_spread_stress d),
         length (confidence_stress d), length (external_inflows d)]. v = length (segments r))
       (Text ''deposit driver segment dimensions mismatch'')
    (and_then (for_each (competitor_rates d) (\<lambda>v. in_range v low_rate two ''competitor rate'')) (\<lambda>_.
     and_then (for_each (offered_spread_stress d) (\<lambda>v. in_range v (- two) two ''offered spread stress'')) (\<lambda>_.
     and_then (for_each (confidence_stress d) (\<lambda>v. in_range v 0 (f64_of_int 100) ''confidence stress'')) (\<lambda>_.
     and_then (for_each (external_inflows d) (\<lambda>v. and_then (dep_nonnegative v ''external deposit inflow'') (\<lambda>_.
         require (\<not> (driver_ordinal d < dep_as_of r \<and> \<not> feq v 0))
           (Text ''history observations cannot invent past inflow replay'') (Ok ())))) (\<lambda>_.
     Ok k)))))))))"

definition admit_terminal :: "TerminalPolicy \<Rightarrow> (DepositError, unit) result" where
  "admit_terminal t = (case t of
     RetainResidual \<Rightarrow> Ok ()
   | AssumedLiquidation rationale \<Rightarrow> dep_label rationale 1024
   | FranchiseValueOnly v rationale \<Rightarrow>
       and_then (finite_money v ''supplied franchise value'') (\<lambda>_. dep_label rationale 1024))"

text \<open>The result: the end of the horizon, the first observation, the number of checks made.\<close>

definition validate_with_check :: "checker \<Rightarrow> nat \<Rightarrow> DepositStateRequest \<Rightarrow> (DepositError, i32 \<times> i32 \<times> nat) result" where
  "validate_with_check chk k r =
     and_then (run_check chk k) (\<lambda>k.
     and_then (admit_identity r) (\<lambda>_.
     and_then (admit_horizon r) (\<lambda>fin.
     and_then (admit_dimensions r) (\<lambda>_.
     and_then (fold_res (admit_segment r fin) ({}, 0) (segments r)) (\<lambda>(names, max_lag).
     and_then (validate_vectors (map opening_balance (segments r)) (map opening_accrued (segments r))) (\<lambda>_.
     and_then (fold_res (admit_migration names) {} (migrations r)) (\<lambda>_.
     let first = dep_as_of r - (int max_lag + 1) in
     require (in_i32 first) (Text ''deposit observation history underflow'')
    (and_then (dep_ordinal first) (\<lambda>_.
     and_then (i32_sub fin first) (\<lambda>count.
     require (length (drivers r) = nat count) (Text ''missing complete deposit driver/lag history coverage'')
    (and_then (fold_res (admit_driver chk r first) k (enumerate 0 (drivers r))) (\<lambda>k.
     and_then (admit_terminal (terminal_policy r)) (\<lambda>_. Ok (fin, first, k))))))))))))))"

section \<open>The loop\<close>

record Maths =
  exp_of :: "f64 \<Rightarrow> f64"
  exp_m1_of :: "f64 \<Rightarrow> f64"

record PrincipalAtom =
  allocation_index :: nat
  atom_ordinal :: i32
  atom_segment :: string
  atom_kind :: string
  principal_before :: f64
  principal_after :: f64
  atom_exited :: "f64 option"
  withdrawal_intensity :: "f64 option"
  closure_intensity :: "f64 option"
  cash_event_ids :: "string list"

record Deposits =
  balances :: "f64 list"
  accruals :: "f64 list"
  paid_rates :: "f64 list"
  cash_list :: "DepositCashEvent list"
  movements :: "DepositMigration list"
  interest_rows :: "DepositInterest list"
  points_so_far :: "DepositPoint list"
  inflows :: f64
  withdrawals :: f64
  closures :: f64
  maturities :: f64
  terminal_payout :: f64
  sink :: "PrincipalAtom list option"
  checks :: nat

text \<open>\<open>f64::clamp\<close>.\<close>

definition dep_clamp :: "f64 \<Rightarrow> f64 \<Rightarrow> f64 \<Rightarrow> (DepositError, f64) result" where
  "dep_clamp x lo hi = (if lo \<le> hi then Ok (if x < lo then lo else if hi < x then hi else x) else Panic)"

definition sigmoid :: "Maths \<Rightarrow> f64 \<Rightarrow> f64" where
  "sigmoid m x = (if 0 \<le> x then 1 / (1 + exp_of m (- x)) else exp_of m x / (1 + exp_of m x))"

definition target :: "Maths \<Rightarrow> TargetRule \<Rightarrow> f64 \<Rightarrow> f64 \<Rightarrow> f64" where
  "target m rule reference competitor = (case rule of
     Linear intercept beta weight \<Rightarrow> intercept + beta * reference + weight * (competitor - reference)
   | LogisticBeta intercept beta_min beta_max midpoint steepness weight \<Rightarrow>
       intercept + (beta_min + (beta_max - beta_min) * sigmoid m (steepness * (reference - midpoint))) * reference
         + weight * (competitor - reference))"

definition dep_point :: "i32 \<Rightarrow> Deposits \<Rightarrow> bool list \<Rightarrow> bool list \<Rightarrow> DepositPoint" where
  "dep_point day st outside assessed = \<lparr> dep_point_ordinal = day, point_balances = balances st,
     point_accrued = accruals st, point_rates = paid_rates st, outside_regime = outside,
     regime_assessed = assessed \<rparr>"

definition cash_event :: "i32 \<Rightarrow> string \<Rightarrow> string \<Rightarrow> f64 \<Rightarrow> f64 \<Rightarrow> DepositCashEvent" where
  "cash_event day segment kind pr i = \<lparr>
     dep_event_id = segment @ ''-'' @ kind @ ''-'' @ digits (nat day), dep_cash_ordinal = day,
     dep_cash_segment = segment, dep_cash_kind = kind, dep_cash_principal = pr, dep_cash_interest = i \<rparr>"

definition dep_cash :: "i32 \<Rightarrow> string \<Rightarrow> string \<Rightarrow> f64 \<Rightarrow> f64 \<Rightarrow> Deposits \<Rightarrow> (DepositError, Deposits) result" where
  "dep_cash day segment kind pr i st =
     and_then (finite_money pr ''deposit cash principal'') (\<lambda>_.
     and_then (finite_money i ''deposit cash interest'') (\<lambda>_.
     and_then (finite_money (pr + i) ''deposit cash total'') (\<lambda>_.
     Ok (if \<not> feq pr 0 \<or> \<not> feq i 0
         then st \<lparr> cash_list := cash_list st @ [cash_event day segment kind pr i] \<rparr> else st))))"

definition emit :: "i32 \<Rightarrow> DepositSegment \<Rightarrow> string \<Rightarrow> f64 \<Rightarrow> f64 \<Rightarrow> f64 option \<Rightarrow> f64 option \<Rightarrow> f64 option
    \<Rightarrow> DepositCashEvent list \<Rightarrow> Deposits \<Rightarrow> Deposits" where
  "emit day s kind before after exited w c cash st = (case sink st of
     None \<Rightarrow> st
   | Some out \<Rightarrow> st \<lparr> sink := Some (out @ [\<lparr> allocation_index = length out, atom_ordinal = day,
       atom_segment = segment_id s, atom_kind = kind, principal_before = before, principal_after = after,
       atom_exited = exited, withdrawal_intensity = w, closure_intensity = c,
       cash_event_ids = map dep_event_id cash \<rparr>]) \<rparr>)"

definition driver_at :: "DepositStateRequest \<Rightarrow> i32 \<Rightarrow> i32 \<Rightarrow> (DepositError, DepositDriver) result" where
  "driver_at r first day = and_then (i32_sub day first) (\<lambda>k.
     if k < 0 then Panic else nth_checked (drivers r) (nat k))"

definition is_active :: "i32 \<Rightarrow> DepositSegment \<Rightarrow> bool" where
  "is_active day s = (case maturity_ordinal s of None \<Rightarrow> True | Some d \<Rightarrow> day < d)"

text \<open>The contractual maturity of the segment \<open>i\<close>.\<close>

definition mature :: "i32 \<Rightarrow> nat \<Rightarrow> DepositSegment \<Rightarrow> Deposits \<Rightarrow> (DepositError, Deposits) result" where
  "mature day i s st =
     (if maturity_ordinal s = Some day then
        let before = balances st ! i; start = length (cash_list st);
            st = st \<lparr> maturities := maturities st + before \<rparr>
        in and_then (dep_cash day (segment_id s) ''contractual_maturity'' (- before) (- (accruals st ! i)) st) (\<lambda>st.
           Ok (emit day s ''contractual_maturity'' before 0 None None None (drop start (cash_list st))
             (st \<lparr> balances := (balances st)[i := 0], accruals := (accruals st)[i := 0] \<rparr>)))
      else Ok st)"

text \<open>\<open>LN_2\<close>.\<close>

definition LN_2 :: f64 where
  "LN_2 = Fin False 6243314768165359 (- 53)"

definition adjustment :: "Maths \<Rightarrow> RepricingPolicy \<Rightarrow> f64 \<Rightarrow> f64 \<Rightarrow> f64" where
  "adjustment m p desired paid = (let half_life = (if paid \<le> desired then rising_half_life_days p else falling_half_life_days p) in
     if feq half_life 0 then 1 else - exp_m1_of m (- LN_2 / half_life))"

definition reprice :: "Maths \<Rightarrow> RepricingPolicy \<Rightarrow> DepositDriver \<Rightarrow> nat \<Rightarrow> f64 \<Rightarrow> (DepositError, f64) result" where
  "reprice m p observed i paid =
     and_then (nth_checked (competitor_rates observed) i) (\<lambda>competitor.
     and_then (nth_checked (offered_spread_stress observed) i) (\<lambda>stress.
     and_then (dep_clamp (target m (target_rule p) (reference_rate observed) competitor + stress)
        (rate_floor p) (rate_ceiling p)) (\<lambda>desired.
     dep_clamp (paid + adjustment m p desired paid * (desired - paid)) (rate_floor p) (rate_ceiling p))))"

definition outside_range :: "RepricingPolicy \<Rightarrow> DepositDriver \<Rightarrow> bool" where
  "outside_range p observed = (case supported_range p of
     None \<Rightarrow> False
   | Some v \<Rightarrow> reference_rate observed < minimum_reference_rate v \<or> maximum_reference_rate v < reference_rate observed)"

definition start_segment :: "Maths \<Rightarrow> DepositStateRequest \<Rightarrow> i32 \<Rightarrow> i32 \<Rightarrow> DepositDriver
    \<Rightarrow> Deposits \<times> bool list \<times> bool list \<Rightarrow> nat \<Rightarrow> (DepositError, Deposits \<times> bool list \<times> bool list) result" where
  "start_segment m r first day driver x i = (case x of (st, outside, assessed) \<Rightarrow> let s = segments r ! i; p = repricing s in
     and_then (mature day i s st) (\<lambda>st.
     and_then (i32_sub day (i32_of_u32 (observation_lag_days p))) (\<lambda>o_day.
     and_then (driver_at r first o_day) (\<lambda>observed.
     and_then (reprice m p observed i (paid_rates st ! i)) (\<lambda>paid.
     let st = st \<lparr> paid_rates := (paid_rates st)[i := paid] \<rparr>;
         outside = (if supported_range p \<noteq> None then outside[i := outside_range p observed] else outside);
         assessed = (if supported_range p \<noteq> None then assessed[i := True] else assessed)
     in if is_active day s then Ok (st, outside, assessed)
        else and_then (nth_checked (external_inflows driver) i) (\<lambda>v.
          require (\<not> \<not> feq v 0) (Text ''external inflow after contractual deposit maturity'')
            (Ok (st, outside, assessed))))))))"

section \<open>The competing exits\<close>

definition position :: "string list \<Rightarrow> string \<Rightarrow> nat option" where
  "position ids v = find (\<lambda>i. ids ! i = v) [0..<length ids]"

type_synonym route = "nat \<times> nat \<times> MigrationPolicy"

definition route_of :: "string list \<Rightarrow> MigrationPolicy \<Rightarrow> (DepositError, route) result" where
  "route_of ids m = and_then (unwrap (position ids (from_segment m))) (\<lambda>a.
     and_then (unwrap (position ids (to_segment m))) (\<lambda>b. Ok (a, b, m)))"

definition migration_routes :: "DepositStateRequest \<Rightarrow> (DepositError, route list) result" where
  "migration_routes r = fold_res (\<lambda>rs m. and_then (route_of (map segment_id (segments r)) m) (\<lambda>x. Ok (rs @ [x])))
     [] (migrations r)"

definition hazards :: "i32 \<Rightarrow> DepositStateRequest \<Rightarrow> route list \<Rightarrow> f64 list \<Rightarrow> nat \<Rightarrow> f64 list" where
  "hazards day r routes rates i = foldl (\<lambda>to (a, b, m).
       if a = i \<and> is_active day (segments r ! b)
       then to[b := base_per_year m + rate_gap_sensitivity m * fmax (rates ! b - rates ! i) 0] else to)
     (replicate (length (segments r)) 0) routes"

definition stress_exposure :: "RetentionPolicy \<Rightarrow> SegmentCharacteristics \<Rightarrow> f64" where
  "stress_exposure p c = uninsured_stress_sensitivity p * uninsured_fraction c
     + concentration_stress_sensitivity p * concentration c
     + digital_stress_sensitivity p * digital_fraction c
     - relationship_protection p * relationship_fraction c
     - operational_protection p * operational_fraction c"

record Intensity =
  withdraw_at :: f64
  close_at :: f64
  move_at :: "f64 list"

definition total_intensity :: "Intensity \<Rightarrow> f64" where
  "total_intensity x = withdraw_at x + close_at x + fsum (move_at x)"

definition intensity :: "DepositStateRequest \<Rightarrow> i32 \<Rightarrow> i32 \<Rightarrow> DepositDriver \<Rightarrow> route list \<Rightarrow> f64 list \<Rightarrow> nat
    \<Rightarrow> (DepositError, Intensity) result" where
  "intensity r first day driver routes rates i = (let s = segments r ! i; p = retention s in
     and_then (nth_checked (competitor_rates driver) i) (\<lambda>competitor.
     and_then (i32_sub day 1) (\<lambda>yesterday.
     and_then (driver_at r first yesterday) (\<lambda>before.
     and_then (nth_checked (confidence_stress driver) i) (\<lambda>confidence.
     let gap = fmax (competitor - rates ! i) 0;
         velocity = fabs (reference_rate driver - reference_rate before);
         x = \<lparr> withdraw_at = fmax (withdrawal_per_year p + opportunity_gap_sensitivity p * gap
                 + velocity_sensitivity p * velocity + confidence * stress_exposure p (characteristics s)) 0,
               close_at = closure_per_year p + closure_stress_sensitivity p * confidence,
               move_at = hazards day r routes rates i \<rparr>
     in require (\<not> (\<not> is_finite (total_intensity x) \<or> MAX_ROW_INTENSITY < total_intensity x))
          (Text ''combined deposit intensity exceeds daily policy admission'') (Ok x))))))"

definition exit_share :: "Maths \<Rightarrow> f64 \<Rightarrow> f64 \<times> f64" where
  "exit_share m hz = (let exited = (if feq hz 0 then 0 else - exp_m1_of m (- hz / f64_of_int 365)) in
     (exited, if feq hz 0 then 0 else exited / hz))"

definition move_to_segment :: "DepositStateRequest \<Rightarrow> i32 \<Rightarrow> nat \<Rightarrow> f64 \<Rightarrow> f64 list
    \<Rightarrow> Deposits \<times> f64 list \<times> f64 list \<Rightarrow> nat \<Rightarrow> Deposits \<times> f64 list \<times> f64 list" where
  "move_to_segment r day i share to x j = (case x of (st, nb, na) \<Rightarrow>
     if feq (to ! j) 0 then (st, nb, na)
     else let moved = balances st ! i * (to ! j) * share;
              moved_interest = accruals st ! i * (to ! j) * share;
              nb = nb[j := nb ! j + moved]; na = na[j := na ! j + moved_interest]
          in (if \<not> feq moved 0 \<or> \<not> feq moved_interest 0
              then st \<lparr> movements := movements st @ [\<lparr> move_ordinal = day,
                     move_from = segment_id (segments r ! i), move_to = segment_id (segments r ! j),
                     move_principal = moved, move_accrued = moved_interest \<rparr>] \<rparr>
              else st, nb, na))"

text \<open>The row of an active segment: what leaves it, what stays, what moves.\<close>

definition row_allocate :: "Maths \<Rightarrow> DepositStateRequest \<Rightarrow> i32 \<Rightarrow> i32 \<Rightarrow> DepositDriver \<Rightarrow> route list
    \<Rightarrow> Deposits \<times> f64 list \<times> f64 list \<Rightarrow> nat \<Rightarrow> (DepositError, Deposits \<times> f64 list \<times> f64 list) result" where
  "row_allocate m r first day driver routes x i = (case x of (st, nb, na) \<Rightarrow> let s = segments r ! i in
     if \<not> is_active day s then Ok (st, nb, na)
     else and_then (intensity r first day driver routes (paid_rates st) i) (\<lambda>h.
       case exit_share m (total_intensity h) of (exited, share) \<Rightarrow> let
         b = balances st ! i; a = accruals st ! i;
         wd = b * withdraw_at h * share; cl = b * close_at h * share;
         wi = a * withdraw_at h * share; ci = a * close_at h * share;
         start = length (cash_list st);
         st = st \<lparr> withdrawals := withdrawals st + wd, closures := closures st + cl \<rparr>
       in and_then (dep_cash day (segment_id s) ''withdrawal'' (- wd) (- wi) st) (\<lambda>st.
          and_then (dep_cash day (segment_id s) ''closure'' (- cl) (- ci) st) (\<lambda>st.
          let nb = nb[i := nb ! i + b * (1 - exited)]; na = na[i := na ! i + a * (1 - exited)];
              st = emit day s ''competing_withdrawal_closure'' b (nb ! i) (Some exited) (Some (withdraw_at h))
                     (Some (close_at h)) (drop start (cash_list st)) st
          in Ok (foldl (move_to_segment r day i share (move_at h)) (st, nb, na) [0..<length (move_at h)])))))"

text \<open>
  Inflow, interest and interest payment of a segment. The payment dates are strictly increasing, so
  that \<open>binary_search\<close> is membership.
\<close>

definition credit_segment :: "DepositStateRequest \<Rightarrow> i32 \<Rightarrow> DepositDriver
    \<Rightarrow> Deposits \<times> f64 list \<times> f64 list \<Rightarrow> nat \<Rightarrow> (DepositError, Deposits \<times> f64 list \<times> f64 list) result" where
  "credit_segment r day driver x i = (case x of (st, nb, na) \<Rightarrow> let s = segments r ! i in
     and_then (nth_checked (external_inflows driver) i) (\<lambda>added.
     let nb = nb[i := nb ! i + added]; st = st \<lparr> inflows := inflows st + added \<rparr> in
     and_then (dep_cash day (segment_id s) ''external_inflow'' added 0 st) (\<lambda>st.
     and_then (i32_add day 1) (\<lambda>tomorrow.
     and_then (map_err Text (actual_year_fraction day tomorrow (dep_day_count r))) (\<lambda>tau.
     let earned = nb ! i * (paid_rates st ! i) * tau in
     and_then (finite_money earned ''daily deposit interest'') (\<lambda>_.
     let na = na[i := na ! i + earned];
         st = (if \<not> feq earned 0
               then st \<lparr> interest_rows := interest_rows st @ [\<lparr> interest_start = day, interest_end = tomorrow,
                      interest_segment = segment_id s, interest_amount = earned \<rparr>] \<rparr>
               else st)
     in if tomorrow \<in> set (interest_payments s)
        then and_then (dep_cash tomorrow (segment_id s) ''interest_payment'' 0 (- (na ! i)) st) (\<lambda>st.
          Ok (st, nb, na[i := 0]))
        else Ok (st, nb, na)))))))"

section \<open>The replay\<close>

definition opening_total :: "DepositStateRequest \<Rightarrow> f64" where
  "opening_total r = fsum (map opening_balance (segments r))"

definition dep_conservation :: "DepositStateRequest \<Rightarrow> Deposits \<Rightarrow> (DepositError, unit) result" where
  "dep_conservation r st = (let
     residual = opening_total r + inflows st - withdrawals st - closures st - maturities st - terminal_payout st
       - fsum (balances st)
     in require (\<not> fmax (f64_lit 1 (10 ^ 8)) ((opening_total r + inflows st) * f64_lit 1 (10 ^ 12)) < fabs residual)
       (Text ''deposit principal conservation failed'') (Ok ()))"

definition opening_deposits :: "DepositStateRequest \<Rightarrow> PrincipalAtom list option \<Rightarrow> nat \<Rightarrow> Deposits" where
  "opening_deposits r out k = (let
     st = \<lparr> balances = map opening_balance (segments r), accruals = map opening_accrued (segments r),
       paid_rates = map opening_paid_rate (segments r), cash_list = [], movements = [], interest_rows = [],
       points_so_far = [], inflows = 0, withdrawals = 0, closures = 0, maturities = 0, terminal_payout = 0,
       sink = out, checks = k \<rparr>;
     none = replicate (length (segments r)) False
     in st \<lparr> points_so_far := [dep_point (dep_as_of r) st none none] \<rparr>)"

definition close_deposit_day :: "DepositStateRequest \<Rightarrow> i32 \<Rightarrow> bool list \<Rightarrow> bool list
    \<Rightarrow> Deposits \<times> f64 list \<times> f64 list \<Rightarrow> (DepositError, Deposits) result" where
  "close_deposit_day r day outside assessed x = (case x of (st, nb, na) \<Rightarrow> let
     st = st \<lparr> balances := nb, accruals := na \<rparr> in
     and_then (validate_vectors nb na) (\<lambda>_.
     and_then (for_each [inflows st, withdrawals st, closures st, maturities st]
       (\<lambda>v. dep_nonnegative v ''cumulative deposit movement'')) (\<lambda>_.
     and_then (dep_conservation r st) (\<lambda>_.
     and_then (i32_add day 1) (\<lambda>tomorrow.
     Ok (st \<lparr> points_so_far := points_so_far st @ [dep_point tomorrow st outside assessed] \<rparr>))))))"

definition dep_day :: "checker \<Rightarrow> Maths \<Rightarrow> DepositStateRequest \<Rightarrow> i32 \<Rightarrow> route list \<Rightarrow> Deposits \<Rightarrow> i32
    \<Rightarrow> (DepositError, Deposits) result" where
  "dep_day chk m r first routes st day = (let n = length (segments r); none = replicate n False; zero = replicate n 0 in
     and_then (run_check chk (checks st)) (\<lambda>k.
     and_then (driver_at r first day) (\<lambda>driver.
     and_then (fold_res (start_segment m r first day driver) (st \<lparr> checks := k \<rparr>, none, none) [0..<n]) (\<lambda>(st, outside, assessed).
     and_then (fold_res (row_allocate m r first day driver routes) (st, zero, zero) [0..<n]) (\<lambda>x.
     and_then (fold_res (credit_segment r day driver) x [0..<n]) (close_deposit_day r day outside assessed))))))"

definition liquidate :: "DepositStateRequest \<Rightarrow> i32 \<Rightarrow> Deposits \<Rightarrow> nat \<Rightarrow> (DepositError, Deposits) result" where
  "liquidate r fin st i = (let s = segments r ! i; st = st \<lparr> terminal_payout := terminal_payout st + balances st ! i \<rparr> in
     and_then (dep_cash fin (segment_id s) ''assumed_terminal_payout'' (- (balances st ! i)) (- (accruals st ! i)) st) (\<lambda>st.
     Ok (st \<lparr> balances := (balances st)[i := 0], accruals := (accruals st)[i := 0] \<rparr>)))"

definition is_liquidation :: "TerminalPolicy \<Rightarrow> bool" where
  "is_liquidation t = (case t of AssumedLiquidation _ \<Rightarrow> True | _ \<Rightarrow> False)"

definition terminate :: "DepositStateRequest \<Rightarrow> i32 \<Rightarrow> Deposits \<Rightarrow> (DepositError, Deposits) result" where
  "terminate r fin st = (let n = length (segments r) in
     and_then (fold_res (\<lambda>st i. mature fin i (segments r ! i) st) st [0..<n]) (\<lambda>st.
     and_then (if is_liquidation (terminal_policy r) then fold_res (liquidate r fin) st [0..<n] else Ok st) (\<lambda>st.
     Ok (if points_so_far st = [] then st
         else st \<lparr> points_so_far := butlast (points_so_far st) @
                [(last (points_so_far st)) \<lparr> point_balances := balances st, point_accrued := accruals st \<rparr>] \<rparr>))))"

definition interest_conserved :: "DepositStateRequest \<Rightarrow> Deposits \<Rightarrow> (DepositError, unit) result" where
  "interest_conserved r st = (let
     expense = fsum (map interest_amount (interest_rows st));
     cash = fsum (map dep_cash_interest (cash_list st));
     gross_expense = fsum (map (\<lambda>v. fabs (interest_amount v)) (interest_rows st));
     gross_cash = fsum (map (\<lambda>v. fabs (dep_cash_interest v)) (cash_list st));
     opening = fsum (map opening_accrued (segments r));
     scale = fsum (map (\<lambda>s. fabs (opening_accrued s)) (segments r)) + gross_expense + gross_cash
     in and_then (finite_money gross_expense ''gross interest expense'') (\<lambda>_.
        and_then (finite_money gross_cash ''gross cash interest'') (\<lambda>_.
        require (\<not> fmax (f64_lit 1 (10 ^ 8)) (scale * f64_lit 1 (10 ^ 12))
                   < fabs (opening + expense + cash - fsum (accruals st)))
          (Text ''deposit interest-right conservation failed'') (Ok ()))))"

definition dep_report :: "DepositStateRequest \<Rightarrow> Deposits \<Rightarrow> DepositStateResult" where
  "dep_report r st = \<lparr> dep_result_schema = DEPOSIT_SCHEMA, dep_result_identity = dep_identity r,
     parameter_status = ''supplied_assumption'', segment_ids = map segment_id (segments r),
     dep_points = points_so_far st, dep_cashflows = sort_key dep_cash_ordinal (cash_list st),
     dep_migrations = movements st, dep_interest = interest_rows st,
     total_external_inflows = inflows st, total_withdrawals = withdrawals st, total_closures = closures st,
     total_maturities = maturities st, total_terminal_payout = terminal_payout st,
     dep_closing_balance = fsum (balances st), dep_closing_accrued = fsum (accruals st),
     total_interest_expense = fsum (map interest_amount (interest_rows st)),
     total_cash_interest = fsum (map dep_cash_interest (cash_list st)),
     franchise_value = (case terminal_policy r of FranchiseValueOnly v _ \<Rightarrow> Some v | _ \<Rightarrow> None) \<rparr>"

definition simulate_inner :: "checker \<Rightarrow> Maths \<Rightarrow> nat \<Rightarrow> PrincipalAtom list option \<Rightarrow> DepositStateRequest
    \<Rightarrow> (DepositError, DepositStateResult \<times> PrincipalAtom list option) result" where
  "simulate_inner chk m k out r =
     and_then (validate_with_check chk k r) (\<lambda>(fin, first, k).
     and_then (migration_routes r) (\<lambda>routes.
     and_then (fold_res (dep_day chk m r first routes) (opening_deposits r out k) [dep_as_of r..fin - 1]) (\<lambda>st.
     and_then (terminate r fin st) (\<lambda>st.
     and_then (dep_conservation r st) (\<lambda>_.
     and_then (interest_conserved r st) (\<lambda>_.
     and_then (run_check chk (checks st)) (\<lambda>_.
     Ok (dep_report r st, sink st))))))))"

definition simulate_declared_measure :: "Maths \<Rightarrow> DepositStateRequest \<Rightarrow> (DepositError, DepositStateResult) result" where
  "simulate_declared_measure m r = and_then (simulate_inner (\<lambda>_. None) m 0 None r) (\<lambda>(res, _). Ok res)"

definition dep_simulate :: "Maths \<Rightarrow> DepositStateRequest \<Rightarrow> (DepositError, DepositStateResult) result" where
  "dep_simulate m r =
     require (\<not> dep_measure (dep_identity r) \<noteq> Physical)
       (Text ''deposit state is an explicitly physical policy, not a pricing-measure transformation'')
       (simulate_declared_measure m r)"

section \<open>Principal capture\<close>

definition retains_residual :: "TerminalPolicy \<Rightarrow> bool" where
  "retains_residual t \<longleftrightarrow> t = RetainResidual"

definition single_channel :: "DepositDriver \<Rightarrow> bool" where
  "single_channel d \<longleftrightarrow> length (external_inflows d) = 1 \<and> length (competitor_rates d) = 1
     \<and> length (offered_spread_stress d) = 1 \<and> length (confidence_stress d) = 1
     \<and> feq (external_inflows d ! 0) 0"

definition check_channel :: "checker \<Rightarrow> string \<Rightarrow> nat \<Rightarrow> DepositDriver \<Rightarrow> (DepositError, nat) result" where
  "check_channel chk e k d = and_then (run_check chk k) (\<lambda>k. require (single_channel d) (Text e) (Ok k))"

text \<open>
  Whether the allocator grants the reservation of the receipts is the parameter \<open>reserve\<close>, given the
  number of slots.
\<close>

definition capture_run :: "checker \<Rightarrow> Maths \<Rightarrow> (nat \<Rightarrow> bool) \<Rightarrow> string \<Rightarrow> string \<Rightarrow> nat \<Rightarrow> DepositStateRequest
    \<Rightarrow> (DepositError, DepositStateResult \<times> PrincipalAtom list) result" where
  "capture_run chk m reserve refused full k r =
     and_then (ok_or (usize_checked_add (dep_horizon_days r) 2) (Text ''atom slots overflow'')) (\<lambda>slots.
     require (reserve slots) (Text refused)
    (and_then (simulate_inner chk m k (Some []) r) (\<lambda>(res, atoms).
     require (\<not> slots < length (the atoms)) (Text full) (Ok (res, the atoms)))))"

definition capture_principal :: "checker \<Rightarrow> Maths \<Rightarrow> (nat \<Rightarrow> bool) \<Rightarrow> DepositStateRequest
    \<Rightarrow> (DepositError, DepositStateResult \<times> PrincipalAtom list) result" where
  "capture_principal chk m reserve r =
     require (\<not> dep_measure (dep_identity r) \<noteq> Physical) (Text ''capture requires physical'')
    (and_then (run_check chk 0) (\<lambda>k.
     require (\<not> (64 < dep_horizon_days r \<or> length (segments r) \<noteq> 1 \<or> migrations r \<noteq> []
               \<or> \<not> retains_residual (terminal_policy r)
               \<or> 366 < observation_lag_days (repricing (segments r ! 0))
               \<or> 64 + 366 + 1 < length (drivers r)))
       (Text ''principal capture requires <=64day single-segment no-inflow/migration retained tail'')
    (and_then (fold_res (check_channel chk ''principal capture requires one declared channel and no-inflow'') k (drivers r)) (\<lambda>k.
     capture_run chk m reserve ''principal atom reservation failed'' ''principal atom capacity exceeded'' k r))))"

definition capture_principal_counted :: "checker \<Rightarrow> Maths \<Rightarrow> (nat \<Rightarrow> bool) \<Rightarrow> nat \<Rightarrow> DepositStateRequest
    \<Rightarrow> (DepositError, DepositStateResult \<times> PrincipalAtom list) result" where
  "capture_principal_counted chk m reserve maximum_days r =
     and_then (run_check chk 0) (\<lambda>k.
     require (\<not> (365 < maximum_days \<or> dep_horizon_days r = 0 \<or> maximum_days < dep_horizon_days r
               \<or> dep_measure (dep_identity r) \<noteq> Physical \<or> length (segments r) \<noteq> 1 \<or> migrations r \<noteq> []
               \<or> \<not> retains_residual (terminal_policy r)
               \<or> 64 < observation_lag_days (repricing (segments r ! 0))
               \<or> maximum_days + 64 + 1 < length (drivers r)))
       (Text ''counted principal tier requires <=365day physical one-segment retained-tail, lag<=64'')
    (and_then (fold_res (check_channel chk ''counted principal tier rejects inflow/migration/ambiguous channels'') k (drivers r)) (\<lambda>k.
     capture_run chk m reserve ''counted atom reserve failed'' ''counted atom capacity exceeded'' k r)))"

end
