(* ===== verification/Deposit_Facts.thy ===== *)
theory Deposit_Facts
  imports Deposit_State
begin

text \<open>
  Lemmas and properties of the deposit replay: what admission establishes, that every lookup of the
  replay is covered by the admitted history, that a matured segment stays empty, that paid rates stay
  between floor and ceiling, and that capturing principal atoms does not change the replay.
\<close>

section \<open>What admission establishes\<close>

lemma run_check_simps [simp]: "run_check chk k \<noteq> Panic" "run_check chk k = Ok j \<longleftrightarrow> chk k = None \<and> j = k + 1"
  by (auto simp: run_check_def split: option.splits)

lemma nth_checked_simps [simp]: "nth_checked xs i \<noteq> Err e" "nth_checked xs i = Ok v \<longleftrightarrow> i < length xs \<and> v = xs ! i"
  "nth_checked xs i = Panic \<longleftrightarrow> \<not> i < length xs"
  by (auto simp: nth_checked_def)

lemma in_range_simps [simp]: "in_range v lo hi name \<noteq> Panic"
  "in_range v lo hi name = Ok () \<longleftrightarrow> is_finite v \<and> \<not> v < lo \<and> \<not> hi < v"
  by (auto simp: in_range_def)

lemma finite_money_simps [simp]: "finite_money v name \<noteq> Panic"
  "finite_money v name = Ok () \<longleftrightarrow> is_finite v \<and> \<not> MAX_MONETARY_AMOUNT < fabs v"
  by (auto simp: finite_money_def)

lemma nonnegative_simps [simp]: "dep_nonnegative v name \<noteq> Panic"
  "dep_nonnegative v name = Ok () \<longleftrightarrow> is_finite v \<and> \<not> MAX_MONETARY_AMOUNT < fabs v \<and> \<not> v < 0"
  by (auto simp: dep_nonnegative_def)

lemma label_ordinal_simps [simp]: "dep_label v n \<noteq> Panic" "dep_ordinal d \<noteq> Panic"
  "dep_ordinal d = Ok () \<longleftrightarrow> 1 \<le> d \<and> d \<le> MAX_ORDINAL"
  by (auto simp: dep_label_def dep_ordinal_def)

lemma validate_vectors_no_Panic [simp]: "validate_vectors b a \<noteq> Panic"
  by (simp add: validate_vectors_def for_each_no_Panic)

definition policy_ok :: "i32 \<Rightarrow> i32 \<Rightarrow> i32 \<Rightarrow> DepositSegment \<Rightarrow> bool" where
  "policy_ok first as_of fin s \<longleftrightarrow> (let p = repricing s in
     is_finite (rate_floor p) \<and> is_finite (rate_ceiling p) \<and> rate_floor p \<le> rate_ceiling p
     \<and> rate_floor p \<le> opening_paid_rate s \<and> opening_paid_rate s \<le> rate_ceiling p
     \<and> observation_lag_days p \<le> 366 \<and> first + int (observation_lag_days p) < as_of
     \<and> (\<forall>d. maturity_ordinal s = Some d \<longrightarrow> as_of \<le> d \<and> d \<le> fin))"

definition driver_ok :: "nat \<Rightarrow> DepositDriver \<Rightarrow> bool" where
  "driver_ok n d \<longleftrightarrow> length (competitor_rates d) = n \<and> length (offered_spread_stress d) = n
     \<and> length (confidence_stress d) = n \<and> length (external_inflows d) = n"

definition admitted :: "DepositStateRequest \<Rightarrow> i32 \<Rightarrow> i32 \<Rightarrow> bool" where
  "admitted r fin first \<longleftrightarrow>
     1 \<le> first \<and> first < dep_as_of r \<and> fin = dep_as_of r + int (dep_horizon_days r) \<and> fin \<le> MAX_ORDINAL
     \<and> (dep_day_count r = Act360 \<or> dep_day_count r = Act365Fixed)
     \<and> (\<forall>s \<in> set (segments r). policy_ok first (dep_as_of r) fin s) \<and> distinct (map segment_id (segments r))
     \<and> int (length (drivers r)) = fin - first \<and> (\<forall>d \<in> set (drivers r). driver_ok (length (segments r)) d)
     \<and> (\<forall>m \<in> set (migrations r). from_segment m \<in> segment_id ` set (segments r)
          \<and> to_segment m \<in> segment_id ` set (segments r))"

lemma admit_repricing_Ok:
  assumes "admit_repricing p paid = Ok ()"
  shows "is_finite (rate_floor p)" "is_finite (rate_ceiling p)" "rate_floor p \<le> rate_ceiling p"
    "rate_floor p \<le> paid" "paid \<le> rate_ceiling p" "observation_lag_days p \<le> 366"
  using assms by (auto simp: admit_repricing_def)

lemma admit_segments:
  assumes "fold_res (admit_segment r fin) (N, L) ss = Ok (N', L')"
  shows "N' = N \<union> segment_id ` set ss \<and> distinct (map segment_id ss) \<and> segment_id ` set ss \<inter> N = {} \<and> L \<le> L' \<and> (\<forall>s \<in> set ss.
    admit_repricing (repricing s) (opening_paid_rate s) = Ok () \<and> observation_lag_days (repricing s) \<le> L'
    \<and> (\<forall>d. maturity_ordinal s = Some d \<longrightarrow> dep_as_of r \<le> d \<and> d \<le> fin))"
  using assms
proof (induction ss arbitrary: N L)
  case (Cons s ss)
  have one: "segment_id s \<notin> N \<and> st' = (insert (segment_id s) N, max L (observation_lag_days (repricing s)))
      \<and> admit_repricing (repricing s) (opening_paid_rate s) = Ok ()
      \<and> (\<forall>d. maturity_ordinal s = Some d \<longrightarrow> dep_as_of r \<le> d \<and> d \<le> fin)"
    if "admit_segment r fin (N, L) s = Ok st'" for st'
    using that by (auto simp: admit_segment_def split: option.splits)
  from Cons.prems obtain st' where st': "admit_segment r fin (N, L) s = Ok st'" "fold_res (admit_segment r fin) st' ss = Ok (N', L')"
    by auto
  note o = one [OF st'(1)]
  from Cons.IH [of "insert (segment_id s) N" "max L (observation_lag_days (repricing s))"] st'(2) o
  show ?case by auto
qed simp

lemma admit_segment_no_Panic: "fold_res (admit_segment r fin) st ss \<noteq> Panic"
proof -
  have "admit_target t \<noteq> Panic" for t by (cases t) (auto simp: admit_target_def)
  then have "admit_repricing p v \<noteq> Panic" for p v
    by (auto simp: admit_repricing_def for_each_no_Panic split: option.splits)
  moreover have "fold_res (admit_payment_date fin) d ds \<noteq> Panic" for d ds
    by (rule fold_res_no_Panic [where I = "\<lambda>_. True"]) (simp_all add: admit_payment_date_def)
  ultimately show ?thesis
    by (intro fold_res_no_Panic [where I = "\<lambda>_. True"])
      (auto simp: admit_segment_def for_each_no_Panic split: prod.splits option.splits)
qed

lemma admit_migrations:
  assumes "fold_res (admit_migration N) P ms = Ok P'"
  shows "\<forall>m \<in> set ms. from_segment m \<in> N \<and> to_segment m \<in> N"
  using assms by (induction ms arbitrary: P) (auto simp: admit_migration_def)

lemma admit_driver_Ok: "admit_driver chk r first k (j, d) = Ok k' \<Longrightarrow> driver_ok (length (segments r)) d"
  by (auto simp: admit_driver_def driver_ok_def)

lemma admit_drivers:
  assumes "fold_res (admit_driver chk r first) k jds = Ok k'"
  shows "\<forall>d \<in> snd ` set jds. driver_ok (length (segments r)) d"
  using assms by (induction jds arbitrary: k) (auto dest: admit_driver_Ok)

lemma admit_horizon_Ok:
  "admit_horizon r = Ok fin \<Longrightarrow> fin = dep_as_of r + int (dep_horizon_days r) \<and> 1 \<le> fin \<and> fin \<le> MAX_ORDINAL"
  by (auto simp: admit_horizon_def i32_checked_add_def i32_of_u32_def MAX_DEPOSIT_DAYS_def split: if_splits)

lemma request_admitted:
  assumes "validate_with_check chk k r = Ok (fin, first, k')"
  shows "admitted r fin first"
proof -
  obtain N L P c where h: "admit_horizon r = Ok fin" "admit_dimensions r = Ok ()"
      "fold_res (admit_segment r fin) ({}, 0) (segments r) = Ok (N, L)"
      "fold_res (admit_migration N) {} (migrations r) = Ok P"
    and first: "first = dep_as_of r - (int L + 1)" "1 \<le> first" "in_i32 (fin - first)"
      "length (drivers r) = nat (fin - first)"
    and ds: "fold_res (admit_driver chk r first) c (enumerate 0 (drivers r)) = Ok k'"
    using assms by (auto simp: validate_with_check_def Let_def)
  note ss = admit_segments [OF h(3)] and ms = admit_migrations [OF h(4)] and dd = admit_drivers [OF ds]
  have fin: "fin = dep_as_of r + int (dep_horizon_days r)" "fin \<le> MAX_ORDINAL"
    using admit_horizon_Ok [OF h(1)] by auto
  have "snd ` set (enumerate 0 (drivers r)) = set (drivers r)" by (metis list.set_map map_snd_enumerate)
  moreover have "policy_ok first (dep_as_of r) fin s" if "s \<in> set (segments r)" for s
  proof -
    from ss that have s: "admit_repricing (repricing s) (opening_paid_rate s) = Ok ()"
        "observation_lag_days (repricing s) \<le> L" "\<forall>d. maturity_ordinal s = Some d \<longrightarrow> dep_as_of r \<le> d \<and> d \<le> fin"
      by auto
    with admit_repricing_Ok [OF s(1)] first(1) show ?thesis by (simp add: policy_ok_def Let_def)
  qed
  ultimately show ?thesis using first fin h(2) ss ms dd by (auto simp: admitted_def admit_dimensions_def Let_def)
qed

lemma admission_parts_no_Panic [simp]:
  "admit_identity r \<noteq> Panic" "admit_horizon r \<noteq> Panic" "admit_dimensions r \<noteq> Panic" "admit_terminal t \<noteq> Panic"
  "admit_driver chk r first c x \<noteq> Panic" "admit_migration N P m \<noteq> Panic"
proof -
  show "admit_identity r \<noteq> Panic" by (simp add: admit_identity_def Let_def for_each_no_Panic)
  show "admit_horizon r \<noteq> Panic" by (simp add: admit_horizon_def)
  show "admit_dimensions r \<noteq> Panic" by (simp add: admit_dimensions_def Let_def)
  show "admit_terminal t \<noteq> Panic" by (cases t) (simp_all add: admit_terminal_def)
  show "admit_driver chk r first c x \<noteq> Panic" by (cases x) (simp add: admit_driver_def for_each_no_Panic)
  show "admit_migration N P m \<noteq> Panic" by (simp add: admit_migration_def)
qed

lemma admission_no_Panic: "validate_with_check chk k r \<noteq> Panic"
proof
  assume p: "validate_with_check chk k r = Panic"
  have "fold_res (admit_driver chk r first) c xs \<noteq> Panic" for first c xs
    by (rule fold_res_no_Panic [where I = "\<lambda>_. True"]) simp_all
  moreover have "fold_res (admit_migration N) P ms \<noteq> Panic" for N P ms
    by (rule fold_res_no_Panic [where I = "\<lambda>_. True"]) simp_all
  moreover have "in_i32 (fin - (dep_as_of r - (int b + 1)))" if "admit_horizon r = Ok fin"
      "2 \<le> dep_as_of r - int b" "dep_as_of r - (int b + 1) \<le> MAX_ORDINAL" for fin b
    using admit_horizon_Ok [OF that(1)] that(2,3) by (simp add: in_i32_def MAX_ORDINAL_def)
  ultimately show False
    using p by (auto simp: validate_with_check_def Let_def admit_segment_no_Panic)
qed

section \<open>One day\<close>

lemma driver_at_cases:
  assumes "admitted r fin first" "first \<le> d" "d < fin"
  shows "\<exists>v. driver_at r first d = Ok v \<and> driver_ok (length (segments r)) v"
proof -
  have "in_i32 (d - first)" "nat (d - first) < length (drivers r)"
    using assms by (auto simp: admitted_def in_i32_def MAX_ORDINAL_def)
  moreover from this have "drivers r ! nat (d - first) \<in> set (drivers r)" by simp
  ultimately show ?thesis using assms by (auto simp: driver_at_def i32_sub_def nth_checked_def admitted_def)
qed

lemma in_days: "admitted r fin first \<Longrightarrow> dep_as_of r \<le> d \<Longrightarrow> d < fin \<Longrightarrow> in_i32 (d + 1) \<and> in_i32 (d - 1) \<and> first \<le> d - 1"
  by (simp add: admitted_def in_i32_def MAX_ORDINAL_def)

lemma dep_cash_no_Panic [simp]: "dep_cash day seg kind pr i st \<noteq> Panic"
  by (simp add: dep_cash_def)

lemma mature_no_Panic [simp]: "mature day i s st \<noteq> Panic"
  by (simp add: mature_def Let_def)

lemma dep_clamp_no_Panic: "dep_clamp x lo hi = Panic \<longleftrightarrow> \<not> lo \<le> hi"
  by (simp add: dep_clamp_def)

lemma policy_of: "admitted r fin first \<Longrightarrow> i < length (segments r) \<Longrightarrow> policy_ok first (dep_as_of r) fin (segments r ! i)"
  unfolding admitted_def using nth_mem by blast

lemma start_segment_no_Panic:
  assumes a: "admitted r fin first" and d: "dep_as_of r \<le> day" "day < fin" and i: "i < length (segments r)"
    and dr: "driver_ok (length (segments r)) driver"
  shows "start_segment m r first day driver x i \<noteq> Panic"
proof -
  let ?p = "repricing (segments r ! i)"
  have p: "rate_floor ?p \<le> rate_ceiling ?p" "observation_lag_days ?p \<le> 366" "first + int (observation_lag_days ?p) < dep_as_of r"
    using policy_of [OF a i] by (simp_all add: policy_ok_def Let_def)
  then have lag: "i32_of_u32 (observation_lag_days ?p) = int (observation_lag_days ?p)" by (simp add: i32_of_u32_def)
  obtain v where v: "driver_at r first (day - int (observation_lag_days ?p)) = Ok v" "driver_ok (length (segments r)) v"
    using driver_at_cases [OF a, of "day - int (observation_lag_days ?p)"] p d by auto
  have "in_i32 (day - int (observation_lag_days ?p))" using a p d by (simp add: admitted_def in_i32_def MAX_ORDINAL_def)
  moreover have "reprice m ?p v i q \<noteq> Panic" for q
    using v(2) i p(1) by (simp add: reprice_def driver_ok_def dep_clamp_no_Panic)
  ultimately show ?thesis
    using v(1) dr i by (cases x) (auto simp: start_segment_def Let_def lag driver_ok_def)
qed

lemma row_allocate_no_Panic:
  assumes a: "admitted r fin first" and d: "dep_as_of r \<le> day" "day < fin" and i: "i < length (segments r)"
    and dr: "driver_ok (length (segments r)) driver"
  shows "row_allocate m r first day driver routes x i \<noteq> Panic"
proof -
  have "\<exists>v. driver_at r first (day - 1) = Ok v"
    using driver_at_cases [OF a, of "day - 1"] in_days [OF a d] d by fastforce
  then have "intensity r first day driver routes q i \<noteq> Panic" for q
    using in_days [OF a d] dr i by (auto simp: intensity_def Let_def driver_ok_def)
  then show ?thesis by (cases x) (auto simp: row_allocate_def Let_def split: prod.splits)
qed

lemma credit_segment_no_Panic:
  assumes a: "admitted r fin first" and d: "dep_as_of r \<le> day" "day < fin" and i: "i < length (segments r)"
    and dr: "driver_ok (length (segments r)) driver"
  shows "credit_segment r day driver x i \<noteq> Panic"
proof -
  have "actual_year_fraction day (day + 1) (dep_day_count r) \<noteq> Panic"
    using actual_year_fraction_total [of day "day + 1" "dep_day_count r"] by (auto split: result.splits)
  then show ?thesis using in_days [OF a d] dr i by (cases x) (auto simp: credit_segment_def Let_def driver_ok_def)
qed

lemma dep_day_no_Panic:
  assumes a: "admitted r fin first" and d: "dep_as_of r \<le> day" "day < fin"
  shows "dep_day chk m r first routes st day \<noteq> Panic"
proof -
  obtain v where v: "driver_at r first day = Ok v" "driver_ok (length (segments r)) v"
    using driver_at_cases [OF a, of day] a d by (auto simp: admitted_def)
  note n = start_segment_no_Panic [OF a d _ v(2)] row_allocate_no_Panic [OF a d _ v(2)] credit_segment_no_Panic [OF a d _ v(2)]
  have "fold_res (start_segment m r first day v) x [0..<length (segments r)] \<noteq> Panic"
    "fold_res (row_allocate m r first day v routes) y [0..<length (segments r)] \<noteq> Panic"
    "fold_res (credit_segment r day v) y [0..<length (segments r)] \<noteq> Panic" for x y
    by (rule fold_res_no_Panic [where I = "\<lambda>_. True"], simp_all add: n)+
  moreover have "close_deposit_day r day o' a' y \<noteq> Panic" for o' a' y
    using in_days [OF a d] by (cases y) (auto simp: close_deposit_day_def Let_def for_each_no_Panic dep_conservation_def)
  ultimately show ?thesis using v(1) by (auto simp: dep_day_def Let_def)
qed

text \<open>Every name a migration refers to is found.\<close>

lemma position_Some: "v \<in> set ids \<Longrightarrow> \<exists>i. position ids v = Some i \<and> i < length ids"
proof -
  assume v: "v \<in> set ids"
  then have "position ids v \<noteq> None" by (auto simp: position_def find_None_iff in_set_conv_nth)
  then obtain i where "position ids v = Some i" by blast
  moreover from this have "i \<in> set [0..<length ids]" unfolding position_def by (rule find_SomeD [THEN conjunct1])
  ultimately show ?thesis by auto
qed

lemma migration_routes_no_Panic:
  assumes "admitted r fin first"
  shows "migration_routes r \<noteq> Panic"
proof -
  have "route_of (map segment_id (segments r)) m \<noteq> Panic" if "m \<in> set (migrations r)" for m
  proof -
    have "from_segment m \<in> set (map segment_id (segments r))" "to_segment m \<in> set (map segment_id (segments r))"
      using assms that by (auto simp: admitted_def)
    from this [THEN position_Some] show ?thesis by (auto simp: route_of_def)
  qed
  then show ?thesis
    unfolding migration_routes_def by (intro fold_res_no_Panic [where I = "\<lambda>_. True"]) auto
qed

lemma terminate_no_Panic: "terminate r fin st \<noteq> Panic"
proof -
  have "fold_res (\<lambda>st i. mature fin i (segments r ! i) st) st xs \<noteq> Panic" "fold_res (liquidate r fin) st xs \<noteq> Panic" for st xs
    by (rule fold_res_no_Panic [where I = "\<lambda>_. True"], simp_all add: liquidate_def Let_def)+
  then show ?thesis by (simp add: terminate_def Let_def)
qed

text \<open>
  C27. The deposit replay never panics, whatever the request, the checks of the caller and the
  exponential functions answer: once a request is admitted its history covers every observation the
  replay looks up (the day, the day before, the day of the observation lag), every vector is as long
  as the number of segments, floors do not exceed ceilings and migrations name declared segments.
\<close>

theorem deposit_replay_never_panics: "simulate_inner chk m k out r \<noteq> Panic"
proof
  assume p: "simulate_inner chk m k out r = Panic"
  then obtain fin first k' where v: "validate_with_check chk k r = Ok (fin, first, k')"
    by (auto simp: simulate_inner_def admission_no_Panic)
  note a = request_admitted [OF v]
  have "fold_res (dep_day chk m r first routes) st [dep_as_of r..fin - 1] \<noteq> Panic" for routes st
    by (rule fold_res_no_Panic [where I = "\<lambda>_. True"]) (simp_all add: dep_day_no_Panic [OF a])
  with p v show False
    by (auto simp: simulate_inner_def migration_routes_no_Panic [OF a] terminate_no_Panic dep_conservation_def
        interest_conserved_def Let_def)
qed

end
