(* ===== verification/Deposit_Maturity.thy ===== *)
theory Deposit_Maturity
  imports Deposit_Facts
begin

text \<open>
  The state of the deposit replay from day to day: a segment that has reached its contractual maturity
  stays empty and settles nothing more, and the rate paid on a segment stays between its floor and its
  ceiling.
\<close>

lemma and_then_OkE: "and_then r k = Ok y \<Longrightarrow> (\<And>x. r = Ok x \<Longrightarrow> k x = Ok y \<Longrightarrow> thesis) \<Longrightarrow> thesis"
  by (cases r) auto

section \<open>Zero amounts\<close>

definition nil :: "f64 \<Rightarrow> bool" where
  "nil x \<longleftrightarrow> is_finite x \<and> val x = 0"

lemma feq_nil: "feq x 0 \<longleftrightarrow> nil x"
proof (cases "is_finite x")
  case True
  then show ?thesis by (simp add: nil_def)
next
  case False
  then show ?thesis using nonfinite_cases [OF False]
    by (auto simp: nil_def feq_def less_eq_f64_def zero_f64_def)
qed

lemma nil_zero [simp]: "nil 0"
  by (simp add: nil_def)

lemma nil_neg [simp]: "nil (- x) = nil x"
  by (simp add: nil_def)

lemma nil_add: "nil x \<Longrightarrow> nil y \<Longrightarrow> nil (x + y)"
  using rounds_to_bound [OF add_rounds [of x y], of 0] dbl_int [of 0] by (simp add: nil_def)

lemma nil_update: "nil (xs ! j) \<Longrightarrow> nil v \<Longrightarrow> nil (xs[i := v] ! j)"
  by (cases "i < length xs"; cases "i = j") (simp_all add: list_update_beyond)

lemma nil_mul: "nil x \<Longrightarrow> is_finite y \<Longrightarrow> nil (x * y)"
  by (cases x; cases y)
    (auto simp: nil_def times_f64_def round_q_def shl_def split: if_splits)

section \<open>The invariant\<close>

definition within_band :: "RepricingPolicy \<Rightarrow> f64 \<Rightarrow> bool" where
  "within_band p v \<longleftrightarrow> rate_floor p \<le> v \<and> v \<le> rate_ceiling p"

definition due :: "DepositStateRequest \<Rightarrow> nat \<Rightarrow> i32 \<Rightarrow> bool" where
  "due r i day \<longleftrightarrow> (\<exists>d. maturity_ordinal (segments r ! i) = Some d \<and> d < day)"

definition cash_ok :: "DepositStateRequest \<Rightarrow> DepositCashEvent list \<Rightarrow> bool" where
  "cash_ok r es \<longleftrightarrow> (\<forall>e \<in> set es. \<forall>i < length (segments r).
     segment_id (segments r ! i) = dep_cash_segment e \<longrightarrow> \<not> due r i (dep_cash_ordinal e))"

definition point_ok :: "DepositStateRequest \<Rightarrow> DepositPoint \<Rightarrow> bool" where
  "point_ok r p \<longleftrightarrow> length (point_balances p) = length (segments r) \<and> length (point_accrued p) = length (segments r)
     \<and> length (point_rates p) = length (segments r)
     \<and> (\<forall>i < length (segments r). within_band (repricing (segments r ! i)) (point_rates p ! i)
          \<and> (due r i (dep_point_ordinal p) \<longrightarrow> nil (point_balances p ! i) \<and> nil (point_accrued p ! i)))"

definition sized :: "DepositStateRequest \<Rightarrow> Deposits \<Rightarrow> bool" where
  "sized r st \<longleftrightarrow> length (balances st) = length (segments r) \<and> length (accruals st) = length (segments r)
     \<and> length (paid_rates st) = length (segments r) \<and> cash_ok r (cash_list st)
     \<and> (\<forall>p \<in> set (points_so_far st). point_ok r p)"

definition emptied :: "Deposits \<Rightarrow> nat \<Rightarrow> bool" where
  "emptied st i \<longleftrightarrow> nil (balances st ! i) \<and> nil (accruals st ! i)"

definition tracked :: "DepositStateRequest \<Rightarrow> i32 \<Rightarrow> Deposits \<Rightarrow> bool" where
  "tracked r day st \<longleftrightarrow> sized r st \<and> (\<forall>i < length (segments r).
     within_band (repricing (segments r ! i)) (paid_rates st ! i) \<and> (due r i day \<longrightarrow> emptied st i))"

lemma due_active: "\<not> is_active day (segments r ! i) \<longleftrightarrow> due r i (day + 1)"
  by (auto simp: is_active_def due_def split: option.splits)

lemma due_mono: "due r i a \<Longrightarrow> a \<le> b \<Longrightarrow> due r i b"
  by (fastforce simp: due_def)

text \<open>A cash event of a segment that is not yet due, or none.\<close>

lemma dep_cash_frame:
  assumes "dep_cash day seg kind p i st = Ok st'"
  shows "balances st' = balances st" "accruals st' = accruals st" "paid_rates st' = paid_rates st"
    "points_so_far st' = points_so_far st" "sink st' = sink st"
    and "cash_list st' = cash_list st @ (if nil p \<and> nil i then [] else [cash_event day seg kind p i])"
  using assms by (auto simp: dep_cash_def feq_nil)

lemma same_segment:
  assumes "admitted r fin first" "i < length (segments r)" "j < length (segments r)"
    and "segment_id (segments r ! i) = segment_id (segments r ! j)"
  shows "i = j"
  using assms nth_eq_iff_index_eq [of "map segment_id (segments r)" i j] by (auto simp: admitted_def)

lemma dep_cash_sized:
  assumes a: "admitted r fin first" and c: "dep_cash day (segment_id (segments r ! i)) kind p q st = Ok st'"
    and s: "sized r st" and i: "i < length (segments r)" and d: "due r i day \<Longrightarrow> nil p \<and> nil q"
  shows "sized r st'"
proof -
  have "cash_ok r (if nil p \<and> nil q then [] else [cash_event day (segment_id (segments r ! i)) kind p q])"
    using d same_segment [OF a _ i] by (auto simp: cash_ok_def cash_event_def)
  then have "cash_ok r (cash_list st')"
    using s unfolding dep_cash_frame(6) [OF c] sized_def cash_ok_def by (auto split: if_splits)
  then show ?thesis using s dep_cash_frame(1-4) [OF c] by (simp add: sized_def)
qed

lemma emit_frame [simp]:
  "balances (emit day s kind b a e w c cs st) = balances st" "accruals (emit day s kind b a e w c cs st) = accruals st"
  "paid_rates (emit day s kind b a e w c cs st) = paid_rates st" "cash_list (emit day s kind b a e w c cs st) = cash_list st"
  "points_so_far (emit day s kind b a e w c cs st) = points_so_far st" "sized r (emit day s kind b a e w c cs st) = sized r st"
  by (auto simp: emit_def sized_def split: option.splits)

lemma sized_update [simp]:
  "sized r (st\<lparr>maturities := x\<rparr>) = sized r st" "sized r (st\<lparr>inflows := x\<rparr>) = sized r st"
  "sized r (st\<lparr>terminal_payout := x\<rparr>) = sized r st" "sized r (st\<lparr>withdrawals := x, closures := y\<rparr>) = sized r st"
  "sized r (st\<lparr>checks := c\<rparr>) = sized r st" "sized r (st\<lparr>interest_rows := rs\<rparr>) = sized r st"
  "sized r (st\<lparr>movements := ms\<rparr>) = sized r st"
  by (auto simp: sized_def)

section \<open>Maturity and repricing\<close>

lemma mature_tracked:
  assumes a: "admitted r fin first" and m: "mature day i (segments r ! i) st = Ok st'"
    and s: "sized r st" and i: "i < length (segments r)"
  shows "sized r st'" "paid_rates st' = paid_rates st" "points_so_far st' = points_so_far st"
    and "j \<noteq> i \<Longrightarrow> emptied st' j = emptied st j"
    and "emptied st i \<Longrightarrow> emptied st' i" "maturity_ordinal (segments r ! i) = Some day \<Longrightarrow> emptied st' i"
proof -
  have l: "i < length (balances st)" "i < length (accruals st)" using s i by (simp_all add: sized_def)
  have "sized r st' \<and> paid_rates st' = paid_rates st \<and> points_so_far st' = points_so_far st
    \<and> (j \<noteq> i \<longrightarrow> emptied st' j = emptied st j) \<and> (emptied st i \<longrightarrow> emptied st' i)
    \<and> (maturity_ordinal (segments r ! i) = Some day \<longrightarrow> emptied st' i)"
  proof (cases "maturity_ordinal (segments r ! i) = Some day")
    case True
    then obtain u where u: "dep_cash day (segment_id (segments r ! i)) ''contractual_maturity'' (- (balances st ! i))
        (- (accruals st ! i)) (st\<lparr>maturities := maturities st + balances st ! i\<rparr>) = Ok u"
      and st': "\<exists>cs. st' = emit day (segments r ! i) ''contractual_maturity'' (balances st ! i) 0 None None None cs
         (u\<lparr>balances := (balances u)[i := 0], accruals := (accruals u)[i := 0]\<rparr>)"
      using m by (auto simp: mature_def Let_def)
    note f = dep_cash_frame [OF u]
    have "\<not> due r i day" using True by (simp add: due_def)
    with dep_cash_sized [OF a u _ i] s have "sized r u" by simp
    then have "sized r (u\<lparr>balances := (balances u)[i := 0], accruals := (accruals u)[i := 0]\<rparr>)" by (simp add: sized_def)
    then show ?thesis using st' f l by (auto simp: emptied_def)
  next
    case False
    then have "st' = st" using m by (simp add: mature_def)
    with False s show ?thesis by simp
  qed
  then show "sized r st'" "paid_rates st' = paid_rates st" "points_so_far st' = points_so_far st"
    "j \<noteq> i \<Longrightarrow> emptied st' j = emptied st j"
    "emptied st i \<Longrightarrow> emptied st' i" "maturity_ordinal (segments r ! i) = Some day \<Longrightarrow> emptied st' i" by blast+
qed

lemma dep_clamp_band:
  assumes "dep_clamp x lo hi = Ok y" "is_finite lo" "is_finite hi" "is_finite y"
  shows "lo \<le> y \<and> y \<le> hi"
  using assms by (auto simp: dep_clamp_def split: if_splits)

text \<open>
  After the first loop every rate is in its band unless it is not finite, and a segment that is due
  receives no inflow.
\<close>

definition started :: "DepositStateRequest \<Rightarrow> i32 \<Rightarrow> DepositDriver \<Rightarrow> nat \<Rightarrow> Deposits \<Rightarrow> bool" where
  "started r day driver k st \<longleftrightarrow> sized r st \<and> (\<forall>i < length (segments r).
     (is_finite (paid_rates st ! i) \<longrightarrow> within_band (repricing (segments r ! i)) (paid_rates st ! i))
     \<and> (due r i day \<longrightarrow> emptied st i)
     \<and> (i < k \<and> due r i (day + 1) \<longrightarrow> emptied st i \<and> nil (external_inflows driver ! i)))"

lemma reprice_band:
  assumes "reprice m p v i q = Ok q'" "is_finite (rate_floor p)" "is_finite (rate_ceiling p)" "is_finite q'"
  shows "within_band p q'"
  using assms dep_clamp_band by (fastforce simp: reprice_def within_band_def)

lemma start_segment_started:
  assumes a: "admitted r fin first" and f: "start_segment m r first day driver (st, out, ass) k = Ok (st', out', ass')"
    and k: "k < length (segments r)" and st: "started r day driver k st"
  shows "started r day driver (Suc k) st' \<and> points_so_far st' = points_so_far st"
proof -
  let ?s = "segments r ! k"
  obtain u q v where u: "mature day k ?s st = Ok u" and q: "reprice m (repricing ?s) v k (paid_rates u ! k) = Ok q"
    and st': "st' = u\<lparr>paid_rates := (paid_rates u)[k := q]\<rparr>"
    and inflow: "is_active day ?s \<or> nil (external_inflows driver ! k)"
    using f by (auto simp: start_segment_def Let_def feq_nil split: if_splits)
  have sz: "sized r st" using st by (simp add: started_def)
  note mt = mature_tracked [OF a u sz k]
  have band: "is_finite q \<Longrightarrow> within_band (repricing ?s) q"
    using reprice_band [OF q] policy_of [OF a k] by (simp add: policy_ok_def Let_def)
  have e: "emptied st' j = emptied u j" for j using st' by (simp add: emptied_def)
  have "sized r st'" using mt(1) st' by (simp add: sized_def)
  moreover have "is_finite (paid_rates st' ! j) \<longrightarrow> within_band (repricing (segments r ! j)) (paid_rates st' ! j)"
    if "j < length (segments r)" for j
    using that st' band mt(1,2) st by (cases "j = k") (auto simp: started_def sized_def)
  moreover have "due r j day \<longrightarrow> emptied st' j" if "j < length (segments r)" for j
    using that e mt(4,5) st by (cases "j = k") (auto simp: started_def)
  moreover have "emptied st' j \<and> nil (external_inflows driver ! j)" if "j < Suc k" "due r j (day + 1)" for j
  proof (cases "j = k")
    case True
    have "due r k day \<or> maturity_ordinal ?s = Some day" using that True by (auto simp: due_def)
    then have "emptied u k" using mt(5,6) st k by (auto simp: started_def)
    moreover have "\<not> is_active day ?s" using that True due_active by blast
    ultimately show ?thesis using True e inflow by simp
  next
    case False
    then show ?thesis using that k st e mt(4) by (auto simp: started_def)
  qed
  ultimately show ?thesis using mt(3) st' by (auto simp: started_def)
qed

lemma start_segments:
  assumes a: "admitted r fin first" and f: "fold_res (start_segment m r first day driver) (st, out, ass) [0..<length (segments r)] = Ok (st', out', ass')"
    and st: "tracked r day st"
  shows "started r day driver (length (segments r)) st' \<and> points_so_far st' = points_so_far st"
proof -
  have "started r day driver 0 st" using st by (auto simp: started_def tracked_def)
  then have "case (st', out', ass') of (x, _) \<Rightarrow> started r day driver (length (segments r)) x \<and> points_so_far x = points_so_far st"
    by (intro fold_upt_inv [OF f, where I = "\<lambda>k (x, _). started r day driver k x \<and> points_so_far x = points_so_far st"])
      (auto dest!: start_segment_started [OF a])
  then show ?thesis by simp
qed

section \<open>The competing exits\<close>

lemma hazards_length [simp]: "length (hazards day r routes q i) = length (segments r)"
proof -
  have "length (foldl (\<lambda>to (a, b, m). if a = i \<and> is_active day (segments r ! b)
      then to[b := base_per_year m + rate_gap_sensitivity m * fmax (q ! b - q ! i) 0] else to) xs routes) = length xs" for xs
    by (induction routes arbitrary: xs) (auto split: prod.splits)
  then show ?thesis by (simp add: hazards_def)
qed

lemma hazards_inactive:
  assumes "j < length (segments r)" "\<not> is_active day (segments r ! j)"
  shows "hazards day r routes q i ! j = 0"
proof -
  have "foldl (\<lambda>to (a, b, m). if a = i \<and> is_active day (segments r ! b)
      then to[b := base_per_year m + rate_gap_sensitivity m * fmax (q ! b - q ! i) 0] else to) xs routes ! j = xs ! j" for xs
  proof (induction routes arbitrary: xs)
    case (Cons x routes)
    obtain a b m where x: "x = (a, b, m)" by (cases x)
    have "is_active day (segments r ! b) \<Longrightarrow> b \<noteq> j" using assms(2) by auto
    then show ?case by (auto simp: x Cons.IH)
  qed simp
  then show ?thesis using assms(1) by (simp add: hazards_def)
qed

text \<open>The vectors of the next day while rows are being allocated.\<close>

definition allocated :: "DepositStateRequest \<Rightarrow> i32 \<Rightarrow> Deposits \<Rightarrow> Deposits \<times> f64 list \<times> f64 list \<Rightarrow> bool" where
  "allocated r day st0 x \<longleftrightarrow> (case x of (st, nb, na) \<Rightarrow>
     sized r st \<and> paid_rates st = paid_rates st0 \<and> points_so_far st = points_so_far st0
     \<and> length nb = length (segments r) \<and> length na = length (segments r)
     \<and> (\<forall>j < length (segments r). due r j (day + 1) \<longrightarrow> nil (nb ! j) \<and> nil (na ! j)))"

lemma move_allocated:
  assumes "allocated r day st0 x" "j < length (segments r)" "due r j (day + 1) \<Longrightarrow> to ! j = 0"
  shows "allocated r day st0 (move_to_segment r day i share to x j)"
proof (cases "feq (to ! j) 0")
  case True
  then show ?thesis using assms(1) by (cases x) (simp add: move_to_segment_def)
next
  case False
  then have "\<not> due r j (day + 1)" using assms(3) by (auto simp: feq_nil)
  with False assms(1,2) show ?thesis
    by (cases x) (auto simp: move_to_segment_def allocated_def Let_def nth_list_update)
qed

lemma moves_allocated:
  assumes "allocated r day st0 x" "set js \<subseteq> {..<length (segments r)}"
    and "\<And>j. j < length (segments r) \<Longrightarrow> due r j (day + 1) \<Longrightarrow> to ! j = 0"
  shows "allocated r day st0 (foldl (move_to_segment r day i share to) x js)"
  using assms(1,2)
proof (induction js arbitrary: x)
  case (Cons j js)
  then have "allocated r day st0 (move_to_segment r day i share to x j)"
    by (intro move_allocated) (use assms(3) in auto)
  with Cons show ?case by simp
qed simp

lemma row_allocate_allocated:
  assumes a: "admitted r fin first" and f: "row_allocate m r first day driver routes (st, nb, na) i = Ok x'"
    and i: "i < length (segments r)" and x: "allocated r day st0 (st, nb, na)"
  shows "allocated r day st0 x'"
proof (cases "is_active day (segments r ! i)")
  case False
  then show ?thesis using f x by (simp add: row_allocate_def)
next
  case True
  let ?s = "segments r ! i"
  have "\<not> due r i (day + 1)" using True due_active [of day r i] by simp
  then have nd: "\<not> due r i day" "\<not> due r i (day + 1)" using due_mono [of r i day "day + 1"] by auto
  obtain h where h: "intensity r first day driver routes (paid_rates st) i = Ok h"
    using f True by (cases "intensity r first day driver routes (paid_rates st) i") (simp_all add: row_allocate_def Let_def)
  then have mv: "move_at h = hazards day r routes (paid_rates st) i" by (auto simp: intensity_def Let_def)
  obtain exited share where es: "exit_share m (total_intensity h) = (exited, share)" by fastforce
  let ?b = "balances st ! i" and ?a = "accruals st ! i"
  let ?nb = "nb[i := nb ! i + ?b * (1 - exited)]" and ?na = "na[i := na ! i + ?a * (1 - exited)]"
  let ?st = "st\<lparr>withdrawals := withdrawals st + ?b * withdraw_at h * share, closures := closures st + ?b * close_at h * share\<rparr>"
  from f have g: "and_then (dep_cash day (segment_id ?s) ''withdrawal'' (- (?b * withdraw_at h * share)) (- (?a * withdraw_at h * share)) ?st)
      (\<lambda>u. and_then (dep_cash day (segment_id ?s) ''closure'' (- (?b * close_at h * share)) (- (?a * close_at h * share)) u)
      (\<lambda>w. Ok (foldl (move_to_segment r day i share (move_at h))
       (emit day ?s ''competing_withdrawal_closure'' ?b (?nb ! i) (Some exited) (Some (withdraw_at h)) (Some (close_at h))
         (drop (length (cash_list st)) (cash_list w)) w, ?nb, ?na) [0..<length (move_at h)]))) = Ok x'"
    unfolding row_allocate_def Let_def
    by (simp only: True not_True_eq_False if_False Deposits.simps h and_then.simps es prod.case)
  from g obtain u where
    u: "dep_cash day (segment_id ?s) ''withdrawal'' (- (?b * withdraw_at h * share)) (- (?a * withdraw_at h * share)) ?st = Ok u"
    and g': "and_then (dep_cash day (segment_id ?s) ''closure'' (- (?b * close_at h * share)) (- (?a * close_at h * share)) u)
      (\<lambda>w. Ok (foldl (move_to_segment r day i share (move_at h))
       (emit day ?s ''competing_withdrawal_closure'' ?b (?nb ! i) (Some exited) (Some (withdraw_at h)) (Some (close_at h))
         (drop (length (cash_list st)) (cash_list w)) w, ?nb, ?na) [0..<length (move_at h)])) = Ok x'"
    by (rule and_then_OkE) (rule that, assumption+)
  from g' obtain w where
    w: "dep_cash day (segment_id ?s) ''closure'' (- (?b * close_at h * share)) (- (?a * close_at h * share)) u = Ok w"
    and x': "foldl (move_to_segment r day i share (move_at h))
       (emit day ?s ''competing_withdrawal_closure'' ?b (?nb ! i) (Some exited) (Some (withdraw_at h)) (Some (close_at h))
         (drop (length (cash_list st)) (cash_list w)) w, ?nb, ?na) [0..<length (move_at h)] = x'"
    by (rule and_then_OkE) (rule that, assumption, erule result.inject(1) [THEN iffD1])
  have ne: "xs[i := v] ! j = xs ! j" if "due r j (day + 1)" for j xs and v :: f64
    using nd(2) that by (cases "i = j") auto
  have "sized r w" using x nd dep_cash_sized [OF a w _ i] dep_cash_sized [OF a u _ i] by (simp add: allocated_def)
  then have "allocated r day st0 (emit day ?s k b c e y z cs w, ?nb, ?na)" for k b c e y z cs
    using x dep_cash_frame(3,4) [OF u] dep_cash_frame(3,4) [OF w]
    by (auto simp: allocated_def ne)
  then show ?thesis unfolding x' [symmetric] mv
    by (rule moves_allocated) (use hazards_inactive due_active in auto)
qed

lemma rows_allocated:
  assumes a: "admitted r fin first"
    and f: "fold_res (row_allocate m r first day driver routes) (st, replicate (length (segments r)) 0, replicate (length (segments r)) 0)
       [0..<length (segments r)] = Ok x"
    and st: "sized r st"
  shows "allocated r day st x"
proof (rule fold_res_inv [OF f, where I = "allocated r day st"])
  show "allocated r day st (st, replicate (length (segments r)) 0, replicate (length (segments r)) 0)"
    using st by (simp add: allocated_def)
next
  fix y i y' assume "i \<in> set [0..<length (segments r)]" "allocated r day st y" "row_allocate m r first day driver routes y i = Ok y'"
  then show "allocated r day st y'" using row_allocate_allocated [OF a] by (cases y) auto
qed

section \<open>Inflow, interest and payment\<close>

lemma credit_segment_allocated:
  assumes a: "admitted r fin first" and f: "credit_segment r day driver (st, nb, na) i = Ok x'"
    and i: "i < length (segments r)" and x: "allocated r day st0 (st, nb, na)"
    and zero: "due r i (day + 1) \<Longrightarrow> nil (external_inflows driver ! i)"
  shows "allocated r day st0 x' \<and> is_finite (paid_rates st0 ! i)"
proof -
  let ?s = "segments r ! i" and ?v = "external_inflows driver ! i"
  let ?nb = "nb[i := nb ! i + ?v]"
  obtain u tau where u: "dep_cash day (segment_id ?s) ''external_inflow'' ?v 0 (st\<lparr>inflows := inflows st + ?v\<rparr>) = Ok u"
    and e: "is_finite (?nb ! i * (paid_rates u ! i) * tau)"
    and rest: "let na = na[i := na ! i + ?nb ! i * (paid_rates u ! i) * tau];
         w = (if \<not> feq (?nb ! i * (paid_rates u ! i) * tau) 0
               then u \<lparr> interest_rows := interest_rows u @ [\<lparr> interest_start = day, interest_end = day + 1,
                      interest_segment = segment_id ?s, interest_amount = ?nb ! i * (paid_rates u ! i) * tau \<rparr>] \<rparr>
               else u)
     in (if day + 1 \<in> set (interest_payments ?s)
        then and_then (dep_cash (day + 1) (segment_id ?s) ''interest_payment'' 0 (- (na ! i)) w) (\<lambda>st.
          Ok (st, ?nb, na[i := 0]))
        else Ok (w, ?nb, na)) = Ok x'"
    using f unfolding credit_segment_def Let_def prod.case by (auto simp: Let_def)
  define earned where "earned = ?nb ! i * (paid_rates u ! i) * tau"
  define w where "w = (if \<not> feq earned 0 then u \<lparr> interest_rows := interest_rows u @ [\<lparr> interest_start = day, interest_end = day + 1,
      interest_segment = segment_id ?s, interest_amount = earned \<rparr>] \<rparr> else u)"
  define na' where "na' = na[i := na ! i + earned]"
  note fu = dep_cash_frame [OF u]
  have sw: "sized r w" using x zero dep_cash_sized [OF a u _ i] due_mono [of r i day "day + 1"] by (simp add: w_def allocated_def)
  have l: "i < length nb" "i < length na" using x i by (simp_all add: allocated_def)
  have fin: "is_finite (?nb ! i)" "is_finite (paid_rates u ! i)" "is_finite tau"
    using e mul_finiteD by blast+
  have nb: "nil (?nb ! i)" if "due r i (day + 1)"
    using that x i zero l nil_add by (simp add: allocated_def)
  have na: "nil (na' ! i)" if "due r i (day + 1)"
    using that x i l nil_add nil_mul [OF nil_mul [OF nb]] fin by (simp add: allocated_def na'_def earned_def)
  have aw: "allocated r day st0 (w, ?nb, na')"
    using sw x fu(3,4) nb na i l by (auto simp: allocated_def w_def na'_def nth_list_update split: if_splits)
  have "allocated r day st0 x'"
  proof (cases "day + 1 \<in> set (interest_payments ?s)")
    case True
    then obtain z where z: "dep_cash (day + 1) (segment_id ?s) ''interest_payment'' 0 (- (na' ! i)) w = Ok z"
      and x': "x' = (z, ?nb, na'[i := 0])"
      using rest unfolding Let_def earned_def [symmetric] w_def [symmetric] na'_def [symmetric] by auto
    have "sized r z" using dep_cash_sized [OF a z sw i] na by simp
    then show ?thesis using aw dep_cash_frame(3,4) [OF z] by (auto simp: x' allocated_def intro!: nil_update)
  next
    case False
    then show ?thesis using rest aw unfolding Let_def earned_def [symmetric] w_def [symmetric] na'_def [symmetric] by simp
  qed
  then show ?thesis using fin(2) fu(3) x by (simp add: allocated_def)
qed

lemma credits_allocated:
  assumes a: "admitted r fin first" and f: "fold_res (credit_segment r day driver) x [0..<length (segments r)] = Ok y"
    and x: "allocated r day st0 x"
    and zero: "\<And>i. i < length (segments r) \<Longrightarrow> due r i (day + 1) \<Longrightarrow> nil (external_inflows driver ! i)"
  shows "allocated r day st0 y \<and> (\<forall>i < length (segments r). is_finite (paid_rates st0 ! i))"
proof (rule fold_upt_inv [OF f, where I = "\<lambda>k y. allocated r day st0 y \<and> (\<forall>i < k. is_finite (paid_rates st0 ! i))"])
  fix k y y' assume "k < length (segments r)" "allocated r day st0 y \<and> (\<forall>i < k. is_finite (paid_rates st0 ! i))"
    "credit_segment r day driver y k = Ok y'"
  moreover obtain st nb na where "y = (st, nb, na)" by (cases y) auto
  ultimately show "allocated r day st0 y' \<and> (\<forall>i < Suc k. is_finite (paid_rates st0 ! i))"
    using credit_segment_allocated [OF a _ _ _ zero] by (auto simp: less_Suc_eq)
qed (use x in simp_all)

section \<open>The day and the replay\<close>

lemma dep_day_tracked:
  assumes a: "admitted r fin first" and f: "dep_day chk m r first routes st day = Ok st'" and st: "tracked r day st"
  shows "tracked r (day + 1) st'"
    and "\<exists>p. points_so_far st' = points_so_far st @ [p] \<and> dep_point_ordinal p = day + 1"
proof -
  let ?n = "length (segments r)"
  let ?z = "replicate ?n (0 :: f64)" and ?f = "replicate ?n False"
  obtain driver s1 out ass x y where
    p1: "fold_res (start_segment m r first day driver) (st\<lparr>checks := checks st + 1\<rparr>, ?f, ?f) [0..<?n] = Ok (s1, out, ass)"
    and p2: "fold_res (row_allocate m r first day driver routes) (s1, ?z, ?z) [0..<?n] = Ok x"
    and p3: "fold_res (credit_segment r day driver) x [0..<?n] = Ok y"
    and p4: "close_deposit_day r day out ass y = Ok st'"
    using f by (auto simp: dep_day_def Let_def)
  have "tracked r day (st\<lparr>checks := checks st + 1\<rparr>)" using st by (simp add: tracked_def emptied_def)
  from start_segments [OF a p1 this] have s1: "started r day driver ?n s1" "points_so_far s1 = points_so_far st" by auto
  from rows_allocated [OF a p2] s1(1) have "allocated r day s1 x" by (simp add: started_def)
  from credits_allocated [OF a p3 this] s1(1) have y: "allocated r day s1 y" "\<forall>i < ?n. is_finite (paid_rates s1 ! i)"
    by (auto simp: started_def)
  obtain u nb na where yy: "y = (u, nb, na)" by (cases y) auto
  have st': "st' = u\<lparr>balances := nb, accruals := na, points_so_far := points_so_far u @
      [dep_point (day + 1) (u\<lparr>balances := nb, accruals := na\<rparr>) out ass]\<rparr>"
    using p4 by (simp add: close_deposit_day_def yy Let_def)
  have "\<forall>i < ?n. within_band (repricing (segments r ! i)) (paid_rates u ! i)"
    using y s1(1) by (auto simp: yy allocated_def started_def)
  moreover have "sized r u" "length nb = ?n" "length na = ?n" "\<forall>j < ?n. due r j (day + 1) \<longrightarrow> nil (nb ! j) \<and> nil (na ! j)"
    using y(1) by (simp_all add: yy allocated_def)
  ultimately show "tracked r (day + 1) st'"
    by (auto simp: st' tracked_def sized_def emptied_def point_ok_def dep_point_def)
  show "\<exists>p. points_so_far st' = points_so_far st @ [p] \<and> dep_point_ordinal p = day + 1"
    using y(1) s1(2) by (simp add: st' yy allocated_def dep_point_def)
qed

definition dated_until :: "i32 \<Rightarrow> Deposits \<Rightarrow> bool" where
  "dated_until day st \<longleftrightarrow> (\<forall>p \<in> set (points_so_far st). dep_point_ordinal p \<le> day)"

lemma opening_tracked:
  assumes "admitted r fin first"
  shows "tracked r (dep_as_of r) (opening_deposits r out k)" "dated_until (dep_as_of r) (opening_deposits r out k)"
proof -
  have "within_band (repricing (segments r ! i)) (opening_paid_rate (segments r ! i))"
    and "\<not> due r i (dep_as_of r)" if "i < length (segments r)" for i
    using policy_of [OF assms that] by (auto simp: policy_ok_def within_band_def due_def Let_def)
  then show "tracked r (dep_as_of r) (opening_deposits r out k)" "dated_until (dep_as_of r) (opening_deposits r out k)"
    by (auto simp: tracked_def sized_def opening_deposits_def Let_def point_ok_def dep_point_def cash_ok_def dated_until_def)
qed

lemma days_tracked:
  assumes a: "admitted r fin first"
    and f: "fold_res (dep_day chk m r first routes) (opening_deposits r out k) [dep_as_of r..fin - 1] = Ok st"
  shows "tracked r fin st \<and> dated_until fin st"
proof -
  have le: "dep_as_of r \<le> fin - 1 + 1" using a by (simp add: admitted_def)
  have "tracked r (fin - 1 + 1) st \<and> dated_until (fin - 1 + 1) st"
  proof (rule fold_upto_inv [OF f, where I = "\<lambda>d st. tracked r d st \<and> dated_until d st", OF _ le])
    show "tracked r (dep_as_of r) (opening_deposits r out k) \<and> dated_until (dep_as_of r) (opening_deposits r out k)"
      using opening_tracked [OF a] by simp
  next
    fix d s s' assume s: "tracked r d s \<and> dated_until d s" and d: "dep_day chk m r first routes s d = Ok s'"
    from dep_day_tracked [OF a d] s show "tracked r (d + 1) s' \<and> dated_until (d + 1) s'"
      by (fastforce simp: dated_until_def)
  qed
  then show ?thesis by simp
qed

text \<open>At the end of the horizon: what is due matures, then the policy may liquidate the rest.\<close>

definition closing :: "DepositStateRequest \<Rightarrow> i32 \<Rightarrow> Deposits \<Rightarrow> Deposits \<Rightarrow> bool" where
  "closing r fin st0 st \<longleftrightarrow> sized r st \<and> points_so_far st = points_so_far st0 \<and> paid_rates st = paid_rates st0
     \<and> (\<forall>i < length (segments r). due r i fin \<longrightarrow> emptied st i)"

lemma liquidate_closing:
  assumes a: "admitted r fin first" and f: "liquidate r fin st i = Ok st'" and i: "i < length (segments r)" and st: "closing r fin st0 st"
  shows "closing r fin st0 st'"
proof -
  obtain u where u: "dep_cash fin (segment_id (segments r ! i)) ''assumed_terminal_payout'' (- (balances st ! i)) (- (accruals st ! i))
      (st\<lparr>terminal_payout := terminal_payout st + balances st ! i\<rparr>) = Ok u"
    and st': "st' = u\<lparr>balances := (balances u)[i := 0], accruals := (accruals u)[i := 0]\<rparr>"
    using f by (auto simp: liquidate_def Let_def)
  have "sized r u" using dep_cash_sized [OF a u _ i] st i by (auto simp: closing_def emptied_def)
  then show ?thesis using st dep_cash_frame(1-4) [OF u]
    by (auto simp: st' closing_def emptied_def sized_def intro!: nil_update)
qed

lemma terminate_points:
  assumes a: "admitted r fin first" and f: "terminate r fin st = Ok st'" and st: "tracked r fin st" "dated_until fin st"
  shows "(\<forall>p \<in> set (points_so_far st'). point_ok r p) \<and> cash_ok r (cash_list st')"
proof -
  let ?n = "length (segments r)"
  obtain u v where u: "fold_res (\<lambda>st i. mature fin i (segments r ! i) st) st [0..<?n] = Ok u"
    and v: "(if is_liquidation (terminal_policy r) then fold_res (liquidate r fin) u [0..<?n] else Ok u) = Ok v"
    and st': "st' = (if points_so_far v = [] then v else v\<lparr>points_so_far := butlast (points_so_far v) @
        [(last (points_so_far v))\<lparr>point_balances := balances v, point_accrued := accruals v\<rparr>]\<rparr>)"
    using f by (auto simp: terminate_def Let_def)
  have "closing r fin st u"
  proof (rule fold_res_inv [OF u, where I = "closing r fin st"])
    fix s i s' assume i: "i \<in> set [0..<?n]" and s: "closing r fin st s" and m: "mature fin i (segments r ! i) s = Ok s'"
    have i': "i < ?n" "sized r s" using i s by (simp_all add: closing_def)
    note t = mature_tracked [OF a m i'(2,1)]
    have "emptied s' j" if "j < ?n" "due r j fin" for j
      using that s t(4,5) by (cases "j = i") (auto simp: closing_def)
    with s t(1-3) show "closing r fin st s'" by (simp add: closing_def)
  qed (use st in \<open>simp add: closing_def tracked_def\<close>)
  then have c: "closing r fin st v"
    using v fold_res_inv [of "liquidate r fin" u "[0..<?n]" v "closing r fin st"] liquidate_closing [OF a]
    by (auto split: if_splits)
  have "point_ok r (p\<lparr>point_balances := balances v, point_accrued := accruals v\<rparr>)" if "p \<in> set (points_so_far st)" for p
  proof -
    have "due r i (dep_point_ordinal p) \<Longrightarrow> due r i fin" for i
      using due_mono st(2) that by (auto simp: dated_until_def)
    moreover have "point_ok r p" using st(1) that by (simp add: tracked_def sized_def)
    ultimately show ?thesis using c by (auto simp: point_ok_def closing_def sized_def emptied_def)
  qed
  then show ?thesis using c st(1) by (auto simp: st' closing_def tracked_def sized_def dest: in_set_butlastD)
qed

lemma replay_points:
  assumes "simulate_inner chk m k out r = Ok (res, atoms)"
  shows "(\<forall>p \<in> set (dep_points res). point_ok r p) \<and> cash_ok r (dep_cashflows res)"
proof -
  obtain fin first k' routes st st' where v: "validate_with_check chk k r = Ok (fin, first, k')"
    and d: "fold_res (dep_day chk m r first routes) (opening_deposits r out k') [dep_as_of r..fin - 1] = Ok st"
    and t: "terminate r fin st = Ok st'" and res: "res = dep_report r st'"
    using assms unfolding simulate_inner_def by auto
  note a = request_admitted [OF v]
  from terminate_points [OF a t] days_tracked [OF a d] show ?thesis
    by (simp add: res dep_report_def cash_ok_def)
qed

end
