(* ===== verification/Deposit_Run.thy ===== *)
theory Deposit_Run
  imports Deposit_Maturity Consumer_Amounts
begin

text \<open>
  A run of the deposit replay: a term deposit of a thousand that matures on the first day of a
  horizon of one day, repriced on that day from its floor to its ceiling.
\<close>

section \<open>The request\<close>

definition run_segment :: DepositSegment where
  "run_segment = \<lparr> segment_id = ''term'', opening_balance = f64_of_int 1000, opening_accrued = 0, opening_paid_rate = 0,
     characteristics = \<lparr> uninsured_fraction = 0, concentration = 0, digital_fraction = 0, relationship_fraction = 0,
       operational_fraction = 0 \<rparr>,
     repricing = \<lparr> target_rule = Linear 0 0 0, observation_lag_days = 0, rising_half_life_days = 0,
       falling_half_life_days = 0, rate_floor = 0, rate_ceiling = 1, supported_range = None \<rparr>,
     retention = \<lparr> withdrawal_per_year = 0, closure_per_year = 0, opportunity_gap_sensitivity = 0,
       velocity_sensitivity = 0, uninsured_stress_sensitivity = 0, concentration_stress_sensitivity = 0,
       digital_stress_sensitivity = 0, relationship_protection = 0, operational_protection = 0,
       closure_stress_sensitivity = 0 \<rparr>,
     maturity_ordinal = Some 2, interest_payments = [] \<rparr>"

definition run_driver :: "i32 \<Rightarrow> DepositDriver" where
  "run_driver d = \<lparr> driver_ordinal = d, reference_rate = 0, competitor_rates = [0], offered_spread_stress = [1],
     confidence_stress = [0], external_inflows = [0] \<rparr>"

definition run_request :: DepositStateRequest where
  "run_request = \<lparr> dep_schema = DEPOSIT_SCHEMA,
     dep_identity = \<lparr> entity_id = ''bank'', dep_cohort_id = ''book'', dep_currency = ''EUR'', dep_source_revision = ''r1'',
       dep_model_version = DEPOSIT_SCHEMA, dep_assumption_id = ''a1'', assumption_rationale = ''example'',
       dep_run_id = ''run'', dep_measure = Physical \<rparr>,
     dep_as_of = 2, dep_horizon_days = 1, dep_day_count = Act360, segments = [run_segment], migrations = [],
     drivers = [run_driver 1, run_driver 2], terminal_policy = RetainResidual \<rparr>"

lemma run_fields [simp]:
  "dep_as_of run_request = 2" "dep_horizon_days run_request = 1" "segments run_request = [run_segment]"
  "migrations run_request = []" "drivers run_request = [run_driver 1, run_driver 2]" "terminal_policy run_request = RetainResidual"
  "dep_day_count run_request = Act360"
  by (simp_all add: run_request_def)

lemma run_consts [simp]: "is_finite low_rate" "\<not> 0 < val low_rate" "is_finite two" "val two = 2" "is_finite ten_thousand"
  "val ten_thousand = 10000" "is_finite (f64_of_int 100)" "val (f64_of_int 100) = 100"
  "is_finite (f64_of_int 36600)" "val (f64_of_int 36600) = 36600"
  using int_val [of 2] int_val [of 100] int_val [of 36600] int_val [of 10000]
  by (simp_all add: low_rate_def two_def ten_thousand_def f64_lit_def round_q_def qexp_def rne_div_def pack_def shl_def Let_def)

lemma thousand [simp]: "whole (f64_of_int 1000) 1000"
  by (rule whole_of_integer) simp_all

lemma thousand_val [simp]: "is_finite (f64_of_int 1000)" "val (f64_of_int 1000) = 1000"
  using thousand by (simp_all only: whole_def of_int_numeral)

lemma nil_abs [simp]: "nil (fabs x) = nil x"
  by (cases x) (auto simp: nil_def)

lemma nil_fold: "nil a \<Longrightarrow> \<forall>x \<in> set xs. nil x \<Longrightarrow> nil (foldl (+) a xs)"
  by (induction xs arbitrary: a) (simp_all add: nil_add)

lemma nil_sum: "\<forall>x \<in> set xs. nil x \<Longrightarrow> nil (fsum xs)"
  unfolding fsum_def by (rule nil_fold) simp_all

lemma whole_sum: "whole x k \<Longrightarrow> whole (fsum [x]) k"
  using whole_add [of "- 0" 0 x k] by (simp add: fsum_def whole_def)

lemma nil_money: "nil x \<Longrightarrow> dep_nonnegative x name = Ok ()" "nil x \<Longrightarrow> finite_money x name = Ok ()"
  using nil_abs [of x] cap_val by (simp_all add: nil_def)

lemma whole_money: "whole x k \<Longrightarrow> f64_ok x \<Longrightarrow> dep_nonnegative x name = Ok ()"
  "whole x k \<Longrightarrow> f64_ok x \<Longrightarrow> finite_money x name = Ok ()" "whole x k \<Longrightarrow> f64_ok x \<Longrightarrow> finite_money (- x) name = Ok ()"
  using cap_val of_int_le_iff [of k "10 ^ 15", where ?'a = real] by (simp_all add: whole_def)

lemma run_parts:
  "admit_identity run_request = Ok ()" "admit_horizon run_request = Ok 3" "admit_dimensions run_request = Ok ()"
  "admit_repricing (repricing run_segment) 0 = Ok ()"
proof -
  show "admit_identity run_request = Ok ()"
    by (simp add: admit_identity_def run_request_def dep_label_def require_def DEPOSIT_SCHEMA_def)
  show "admit_horizon run_request = Ok 3"
    by (simp add: admit_horizon_def MAX_DEPOSIT_DAYS_def i32_checked_add_def in_i32_def i32_of_u32_def MAX_ORDINAL_def)
  show "admit_dimensions run_request = Ok ()"
    by (simp add: admit_dimensions_def MAX_SEGMENTS_def usize_checked_mul_def usize_max_def MAX_DEPOSIT_WORK_def)
  show "admit_repricing (repricing run_segment) 0 = Ok ()"
    by (simp add: admit_repricing_def run_segment_def admit_target_def)
qed

lemma thousand_ok [simp]: "\<not> MAX_MONETARY_AMOUNT < fabs (f64_of_int 1000)" "\<not> MAX_MONETARY_AMOUNT < fabs 0"
  using cap_val by simp_all

lemma run_segments: "fold_res (admit_segment run_request 3) ({}, 0) [run_segment] = Ok ({''term''}, 0)"
  using run_parts(4)
  by (simp add: admit_segment_def run_segment_def dep_label_def require_def characteristic_list_def retention_list_def MAX_ORDINAL_def)

lemma run_vectors: "validate_vectors (map opening_balance [run_segment]) (map opening_accrued [run_segment]) = Ok ()"
proof -
  have "f64_ok (fsum [f64_of_int 1000])" by (simp add: fsum_def)
  from whole_money(1) [OF whole_sum [OF thousand] this]
  have s: "dep_nonnegative (fsum [f64_of_int 1000]) n = Ok ()" for n .
  have "nil (fsum [fabs 0])" by (rule nil_sum) simp
  from nil_money(2) [OF this] have a: "finite_money (fsum [fabs 0]) n = Ok ()" for n .
  have "dep_nonnegative (f64_of_int 1000) n = Ok ()" "finite_money 0 n = Ok ()" for n by simp_all
  with s a show ?thesis by (simp add: validate_vectors_def run_segment_def del: nonnegative_simps finite_money_simps)
qed

lemma run_drivers:
  "admit_driver (\<lambda>_. None) run_request 1 k (0, run_driver 1) = Ok (k + 1)"
  "admit_driver (\<lambda>_. None) run_request 1 k (1, run_driver 2) = Ok (k + 1)"
  using nil_money(1) [of 0]
  by (simp_all add: admit_driver_def run_driver_def feq_nil del: nonnegative_simps)

lemma run_admitted: "validate_with_check (\<lambda>_. None) 0 run_request = Ok (3, 1, 3)"
  using run_parts run_segments run_vectors run_drivers
  by (simp add: validate_with_check_def Let_def in_i32_def MAX_ORDINAL_def i32_sub_def admit_terminal_def)

section \<open>The day\<close>

lemma zero_sums: "0 + 0 = (0 :: f64)" "0 * 0 = (0 :: f64)" "0 - 0 = (0 :: f64)"
  by (simp_all add: zero_f64_def plus_f64_def minus_f64_def times_f64_def algn_def round_z_def round_q_def shl_def)

lemma one_sums: "0 + 1 = (1 :: f64)" "1 - 0 = (1 :: f64)" "1 * 1 = (1 :: f64)"
proof -
  note e = round_q_def qexp_def rne_div_def pack_def shl_def
  have one: "(1 :: f64) = Fin False 4503599627370496 (- 52)" by (simp add: one_f64_def)
  show "0 + 1 = (1 :: f64)" unfolding one zero_f64_def plus_f64_def fadd.simps algn_def Let_def
    by (simp add: round_z_def shl_def) (simp add: e)
  show "1 - 0 = (1 :: f64)" unfolding one zero_f64_def minus_f64_def fneg.simps fadd.simps algn_def Let_def
    by (simp add: round_z_def shl_def) (simp add: e)
  show "1 * 1 = (1 :: f64)" unfolding one times_f64_def by (simp add: e)
qed

lemmas unit_sums = zero_sums one_sums

lemma run_reprice: "reprice m (repricing run_segment) (run_driver 2) 0 0 = Ok 1"
proof -
  have c: "dep_clamp 1 0 1 = Ok (1 :: f64)" by (simp add: dep_clamp_def)
  have "adjustment m (repricing run_segment) 1 0 = 1" by (simp add: adjustment_def run_segment_def)
  then show ?thesis
    by (simp add: reprice_def run_driver_def run_segment_def nth_checked_def target_def unit_sums c)
qed

text \<open>The state after the first loop: the deposit has been paid out.\<close>

definition paid_out :: "PrincipalAtom list option \<Rightarrow> Deposits \<Rightarrow> bool" where
  "paid_out out st \<longleftrightarrow> balances st = [0] \<and> accruals st = [0] \<and> paid_rates st = [1] \<and> length (cash_list st) = 1
     \<and> nil (dep_cash_interest (cash_list st ! 0)) \<and> f64_ok (dep_cash_interest (cash_list st ! 0)) \<and> interest_rows st = [] \<and> length (points_so_far st) = 1
     \<and> inflows st = 0 \<and> withdrawals st = 0 \<and> closures st = 0 \<and> maturities st = 0 + f64_of_int 1000 \<and> terminal_payout st = 0
     \<and> map_option length (sink st) = map_option (\<lambda>a. length a + 1) out \<and> checks st = 4"

lemma run_payout:
  "\<exists>st. dep_cash 2 ''term'' kind (- f64_of_int 1000) (- 0) s = Ok st \<and> st = s\<lparr>cash_list := cash_list s @
     [cash_event 2 ''term'' kind (- f64_of_int 1000) (- 0)]\<rparr>"
proof -
  have "is_finite (- f64_of_int 1000 + - 0)" "val (- f64_of_int 1000 + - 0) = - 1000"
    using exact_add [of "- f64_of_int 1000" "- 0" "- 1000" 0] by simp_all
  moreover have "f64_ok (- f64_of_int 1000 + - 0)" by simp
  ultimately show ?thesis using cap_val by (simp add: dep_cash_def)
qed

lemma run_start:
  "\<exists>st. start_segment m run_request 1 2 (run_driver 2) (opening_deposits run_request out 3\<lparr>checks := 4\<rparr>, [False], [False]) 0
     = Ok (st, [False], [False]) \<and> paid_out out st"
proof -
  let ?s = "opening_deposits run_request out 3\<lparr>checks := 4\<rparr>"
  have o: "balances ?s = [f64_of_int 1000]" "accruals ?s = [0]" "paid_rates ?s = [0]" "sink ?s = out" "cash_list ?s = []"
    "interest_rows ?s = []" "length (points_so_far ?s) = 1" "inflows ?s = 0" "withdrawals ?s = 0" "closures ?s = 0"
    "maturities ?s = 0" "terminal_payout ?s = 0" "checks ?s = 4"
    by (simp_all add: opening_deposits_def run_segment_def Let_def)
  let ?k = "''contractual_maturity''" and ?s1 = "?s\<lparr>maturities := 0 + f64_of_int 1000\<rparr>"
  let ?u = "?s1\<lparr>cash_list := [cash_event 2 ''term'' ?k (- f64_of_int 1000) (- 0)]\<rparr>"
  have u: "dep_cash 2 ''term'' ?k (- f64_of_int 1000) (- 0) ?s1 = Ok ?u"
    using run_payout [of ?k ?s1] o(5) by simp
  obtain v where v: "mature 2 0 run_segment ?s = Ok v" "paid_rates v = [0]" "paid_out out (v\<lparr>paid_rates := [1]\<rparr>)"
  proof
    let ?v = "emit 2 run_segment ?k (f64_of_int 1000) 0 None None None (cash_list ?u) (?u\<lparr>balances := [0], accruals := [0]\<rparr>)"
    show "mature 2 0 run_segment ?s = Ok ?v"
      using u o by (simp add: mature_def Let_def run_segment_def)
    show "paid_rates ?v = [0]" using o by simp
    show "paid_out out (?v\<lparr>paid_rates := [1]\<rparr>)"
      using o by (cases out) (simp_all add: paid_out_def emit_def cash_event_def)
  qed
  have d: "driver_at run_request 1 2 = Ok (run_driver 2)"
    by (simp add: driver_at_def i32_sub_def in_i32_def nth_checked_def)
  have f: "observation_lag_days (repricing run_segment) = 0" "supported_range (repricing run_segment) = None"
    "\<not> is_active 2 run_segment" "external_inflows (run_driver 2) = [0]"
    by (simp_all add: run_segment_def is_active_def run_driver_def)
  show ?thesis
    using v d f run_reprice [of m]
    by (simp add: start_segment_def Let_def i32_of_u32_def i32_sub_def in_i32_def nth_checked_def require_def)
qed

lemma run_credit:
  assumes "paid_out out st"
  shows "\<exists>st' e. credit_segment run_request 2 (run_driver 2) (st, [0], [0]) 0 = Ok (st', [0], [e]) \<and> nil e \<and> paid_out out st'"
proof -
  obtain tau where t: "actual_year_fraction 2 3 Act360 = Ok tau" "is_finite tau"
    using actual_year_fraction_total [of 2 3 Act360] by (auto simp: MAX_ORDINAL_def split: result.splits)
  have e: "nil (0 * 1 * tau)" by (intro nil_mul) (simp_all add: t)
  have c: "dep_cash 2 ''term'' ''external_inflow'' 0 0 s = Ok s" for s
    by (simp add: dep_cash_def unit_sums)
  have f: "segment_id run_segment = ''term''" "interest_payments run_segment = []" "external_inflows (run_driver 2) = [0]"
    by (simp_all add: run_segment_def run_driver_def)
  have st: "st\<lparr>inflows := 0\<rparr> = st" "paid_rates st = [1]" "inflows st = 0" using assms by (simp_all add: paid_out_def)
  have "credit_segment run_request 2 (run_driver 2) (st, [0], [0]) 0 = Ok (st, [0], [0 + 0 * 1 * tau])"
    using t e c f st nil_money(2) [OF e]
    by (simp add: credit_segment_def Let_def nth_checked_def unit_sums i32_add_def in_i32_def feq_nil del: finite_money_simps)
  then show ?thesis using e assms nil_add [OF nil_zero e] by blast
qed

section \<open>The replay\<close>

text \<open>A tolerance is never below a residual of zero.\<close>

lemma zero_tolerance: "nil x \<Longrightarrow> \<not> fmax (f64_lit 1 (10 ^ 8)) b < fabs x"
proof
  assume x: "nil x" and l: "fmax (f64_lit 1 (10 ^ 8)) b < fabs x"
  have "rounds_to (f64_lit 1 (10 ^ 8)) (1 / 10 ^ 8)" using lit_rounds [of "10 ^ 8" 1] by simp
  moreover have "\<bar>(1 :: real) / 10 ^ 8\<bar> \<le> 2 ^ 53" by simp
  ultimately have t: "is_finite (f64_lit 1 (10 ^ 8))" "0 \<le> val (f64_lit 1 (10 ^ 8))"
    using rounds_to_bound [OF _ _ small_bound] rne.rd_nonneg [of "1 / 10 ^ 8"] by fastforce+
  have g: "f64_lit 1 (10 ^ 8) \<le> fmax (f64_lit 1 (10 ^ 8)) b" using t(1) by (intro fmax_ge(1)) auto
  have fx: "is_finite (fabs x)" "val (fabs x) = 0" using x nil_abs [of x] unfolding nil_def by auto
  show False
  proof (cases "is_finite (fmax (f64_lit 1 (10 ^ 8)) b)")
    case True
    then show False using g l t fx by simp
  next
    case False
    from nonfinite_cases [OF this] obtain sg where i: "fmax (f64_lit 1 (10 ^ 8)) b = Inf sg"
      using less_not_nan [OF l] by auto
    obtain a m e where "f64_lit 1 (10 ^ 8) = Fin a m e" using t(1) by (cases "f64_lit 1 (10 ^ 8)") auto
    moreover obtain a m e where "fabs x = Fin a m e" using fx(1) by (cases "fabs x") auto
    ultimately show False using g l i by (cases sg) (auto simp: less_eq_f64_def less_f64_def)
  qed
qed

lemma run_conserves:
  assumes "paid_out out st"
  shows "dep_conservation run_request st = Ok ()"
proof -
  have o: "whole (opening_total run_request) 1000"
    using whole_sum [OF thousand] by (simp add: opening_total_def run_segment_def)
  have z: "whole 0 0" by (simp add: whole_def)
  have b: "whole (fsum [0]) 0" by (rule whole_sum [OF z])
  have "whole (0 + f64_of_int 1000) (0 + 1000)" by (rule whole_add [OF z thousand]) simp
  then have m: "whole (0 + f64_of_int 1000) 1000" by simp
  have "whole (opening_total run_request + 0) (1000 + 0)" by (rule whole_add [OF o z]) simp
  then have "whole (opening_total run_request + 0 - 0 - 0 - (0 + f64_of_int 1000) - 0 - fsum [0]) (1000 + 0 - 0 - 0 - 1000 - 0 - 0)"
    by (intro whole_sub z m b) simp_all
  then have "nil (opening_total run_request + 0 - 0 - 0 - (0 + f64_of_int 1000) - 0 - fsum [0])" by (simp add: whole_def nil_def)
  from zero_tolerance [OF this] assms show ?thesis by (simp add: dep_conservation_def paid_out_def)
qed

lemma run_close:
  assumes "paid_out out st" "nil e"
  shows "\<exists>st'. close_deposit_day run_request 2 o' a' (st, [0], [e]) = Ok st' \<and> balances st' = [0] \<and> accruals st' = [e]
    \<and> length (points_so_far st') = 2 \<and> paid_out out (st'\<lparr>accruals := [0], points_so_far := [undefined]\<rparr>)"
proof -
  have s: "nil (fsum [0])" "nil (fsum [fabs e])" using assms(2) by (intro nil_sum; simp)+
  have v: "validate_vectors [0] [e] = Ok ()"
    using nil_money [OF s(1)] nil_money [OF s(2)] nil_money [OF nil_zero] nil_money [OF assms(2)]
    by (simp add: validate_vectors_def del: nonnegative_simps finite_money_simps)
  have "whole (0 + f64_of_int 1000) (0 + 1000)" by (rule whole_add) (simp_all add: whole_def)
  then have m: "dep_nonnegative (0 + f64_of_int 1000) n = Ok ()" for n by (intro whole_money(1)) simp_all
  have c: "dep_conservation run_request (st\<lparr>balances := [0], accruals := [e]\<rparr>) = Ok ()"
    using run_conserves [of out st] assms(1) by (simp add: dep_conservation_def paid_out_def)
  show ?thesis
    using assms(1) v c m nil_money(1) [OF nil_zero]
    by (simp add: close_deposit_day_def Let_def i32_add_def in_i32_def paid_out_def del: nonnegative_simps)
qed

lemma run_interest:
  assumes "paid_out out (st\<lparr>accruals := [0], points_so_far := ps\<rparr>)" "accruals st = [e]" "nil e"
  shows "interest_conserved run_request st = Ok ()"
proof -
  obtain c where c: "cash_list st = [c]" "nil (dep_cash_interest c)" "interest_rows st = []"
    using assms(1) by (cases "cash_list st") (auto simp: paid_out_def)
  have n: "nil (fsum [])" "nil (fsum [dep_cash_interest c])" "nil (fsum [fabs (dep_cash_interest c)])" "nil (fsum [0])" "nil (fsum [e])"
    using c(2) assms(3) by (intro nil_sum; simp)+
  then have "nil (fsum [0] + fsum [] + fsum [dep_cash_interest c] - fsum [e])"
    unfolding minus_is_add by (intro nil_add) simp_all
  from zero_tolerance [OF this] n show ?thesis
    using c assms(2) nil_money(2) [OF n(1)] nil_money(2) [OF n(3)]
    by (simp add: interest_conserved_def Let_def run_segment_def del: finite_money_simps)
qed

lemma run_replays:
  "\<exists>res atoms. simulate_inner (\<lambda>_. None) m 0 out run_request = Ok (res, atoms) \<and> length (dep_points res) = 2
     \<and> length (dep_cashflows res) = 1 \<and> map_option length atoms = map_option (\<lambda>a. length a + 1) out
     \<and> dep_interest res = [] \<and> nil (dep_cash_interest (dep_cashflows res ! 0)) \<and> f64_ok (dep_cash_interest (dep_cashflows res ! 0))"
proof -
  let ?chk = "\<lambda>_ :: nat. None :: string option"
  obtain s1 where s1: "start_segment m run_request 1 2 (run_driver 2) (opening_deposits run_request out 3\<lparr>checks := 4\<rparr>, [False], [False]) 0
     = Ok (s1, [False], [False])" "paid_out out s1" using run_start by blast
  obtain s2 e where s2: "credit_segment run_request 2 (run_driver 2) (s1, [0], [0]) 0 = Ok (s2, [0], [e])" "nil e" "paid_out out s2"
    using run_credit [OF s1(2)] by blast
  obtain s3 where s3: "close_deposit_day run_request 2 [False] [False] (s2, [0], [e]) = Ok s3" "balances s3 = [0]" "accruals s3 = [e]"
    "length (points_so_far s3) = 2" "paid_out out (s3\<lparr>accruals := [0], points_so_far := [undefined]\<rparr>)"
    using run_close [OF s2(3,2)] by blast
  have r: "row_allocate m run_request 1 2 (run_driver 2) [] (s1, [0], [0]) 0 = Ok (s1, [0], [0])"
    by (simp add: row_allocate_def run_segment_def is_active_def)
  have d: "driver_at run_request 1 2 = Ok (run_driver 2)"
    by (simp add: driver_at_def i32_sub_def in_i32_def nth_checked_def)
  have k: "checks (opening_deposits run_request out 3) = 3" by (simp add: opening_deposits_def Let_def)
  have "dep_day ?chk m run_request 1 [] (opening_deposits run_request out 3) 2 = Ok s3"
    using s1(1) s2(1) s3(1) r d k by (simp add: dep_day_def Let_def run_check_def)
  then have f: "fold_res (dep_day ?chk m run_request 1 []) (opening_deposits run_request out 3) [2..2] = Ok s3" by simp
  define s4 where "s4 = s3\<lparr>points_so_far := butlast (points_so_far s3) @
      [(last (points_so_far s3))\<lparr>point_balances := balances s3, point_accrued := accruals s3\<rparr>]\<rparr>"
  have t: "terminate run_request 3 s3 = Ok s4"
    using s3(4) by (auto simp: terminate_def Let_def mature_def run_segment_def is_liquidation_def s4_def)
  have p4: "paid_out out (s4\<lparr>accruals := [0], points_so_far := [undefined]\<rparr>)" "accruals s4 = [e]" "length (points_so_far s4) = 2"
    using s3 by (simp_all add: s4_def)
  have c: "dep_conservation run_request s4 = Ok ()"
    using run_conserves [OF p4(1)] by (simp add: dep_conservation_def)
  have "simulate_inner ?chk m 0 out run_request = Ok (dep_report run_request s4, sink s4)"
    using run_admitted f t c run_interest [OF p4(1,2) s2(2)]
    by (simp add: simulate_inner_def migration_routes_def run_check_def)
  moreover obtain c where "cash_list s4 = [c]" using p4(1) by (auto simp: paid_out_def length_Suc_conv)
  then have "dep_interest (dep_report run_request s4) = []" "nil (dep_cash_interest (dep_cashflows (dep_report run_request s4) ! 0))"
    "f64_ok (dep_cash_interest (dep_cashflows (dep_report run_request s4) ! 0))"
    using p4 by (simp_all add: dep_report_def paid_out_def)
  moreover have "length (dep_cashflows (dep_report run_request s4)) = 1" "length (dep_points (dep_report run_request s4)) = 2"
    "map_option length (sink s4) = map_option (\<lambda>a. length a + 1) out"
    using p4 by (simp_all add: dep_report_def paid_out_def)
  ultimately show ?thesis by blast
qed

text \<open>The only cash of the run is its principal.\<close>

lemma run_pays_no_interest:
  "\<exists>res atoms. simulate_inner (\<lambda>_. None) m 0 None run_request = Ok (res, atoms) \<and> length (dep_cashflows res) = 1
     \<and> dep_interest res = [] \<and> (\<forall>c \<in> set (dep_cashflows res). is_finite (- dep_cash_interest c) \<and> f64_ok (- dep_cash_interest c)
     \<and> 0 \<le> val (- dep_cash_interest c))"
proof -
  obtain res atoms where r: "simulate_inner (\<lambda>_. None) m 0 None run_request = Ok (res, atoms)" "length (dep_cashflows res) = 1"
    "dep_interest res = []" "nil (dep_cash_interest (dep_cashflows res ! 0))" "f64_ok (dep_cash_interest (dep_cashflows res ! 0))"
    using run_replays by blast
  moreover have "\<forall>c \<in> set (dep_cashflows res). c = dep_cashflows res ! 0" using r(2) by (auto simp: length_Suc_conv)
  ultimately show ?thesis by (intro exI [of _ res] exI [of _ atoms]) (auto simp: nil_def)
qed

section \<open>Properties of every replay\<close>

text \<open>
  C28. A segment that has reached its contractual maturity stays empty: at every point of the replay
  after the maturity date its balance and accrued interest are zero, and no cash flow of the segment,
  not even an interest payment or the payout of a liquidation policy, is dated after that day.
\<close>

theorem matured_segments_stay_empty:
  assumes "simulate_inner chk m k out r = Ok (res, atoms)"
    and "i < length (segments r)" and "maturity_ordinal (segments r ! i) = Some d"
  shows "(\<forall>p \<in> set (dep_points res). d < dep_point_ordinal p \<longrightarrow>
        feq (point_balances p ! i) 0 \<and> feq (point_accrued p ! i) 0)
    \<and> (\<forall>e \<in> set (dep_cashflows res). dep_cash_segment e = segment_id (segments r ! i) \<longrightarrow> dep_cash_ordinal e \<le> d)"
  using replay_points [OF assms(1)] assms(2,3)
  by (fastforce simp: point_ok_def cash_ok_def due_def feq_nil not_less)

theorem matured_segments_stay_empty_witness:
  "\<exists>res. simulate_declared_measure \<lparr> exp_of = \<lambda>_. 1, exp_m1_of = \<lambda>_. 0 \<rparr> run_request = Ok res \<and> length (dep_cashflows res) = 1
     \<and> (\<forall>p \<in> set (dep_points res). 2 < dep_point_ordinal p \<longrightarrow> feq (point_balances p ! 0) 0)"
proof -
  obtain res atoms where r: "simulate_inner (\<lambda>_. None) \<lparr> exp_of = \<lambda>_. 1, exp_m1_of = \<lambda>_. 0 \<rparr> 0 None run_request = Ok (res, atoms)"
    "length (dep_cashflows res) = 1" using run_replays by blast
  have "maturity_ordinal (segments run_request ! 0) = Some 2" "0 < length (segments run_request)" by (simp_all add: run_segment_def)
  from matured_segments_stay_empty [OF r(1) this(2,1)] r show ?thesis by (auto simp: simulate_declared_measure_def)
qed

text \<open>
  C29. The rate paid on a segment is never outside the floor and ceiling of its policy, at the opening
  or on any day, whatever the exponential functions return: a rate that is not a number, which the
  clamp would let through, fails the interest of the day and with it the replay.
\<close>

theorem paid_rates_within_band:
  assumes "simulate_inner chk m k out r = Ok (res, atoms)" and "p \<in> set (dep_points res)" and "i < length (segments r)"
  shows "rate_floor (repricing (segments r ! i)) \<le> point_rates p ! i
    \<and> point_rates p ! i \<le> rate_ceiling (repricing (segments r ! i))"
  using replay_points [OF assms(1)] assms(2,3) by (auto simp: point_ok_def within_band_def)

theorem paid_rates_within_band_witness:
  "\<exists>res. simulate_declared_measure \<lparr> exp_of = \<lambda>_. 1, exp_m1_of = \<lambda>_. 0 \<rparr> run_request = Ok res \<and> length (dep_points res) = 2
     \<and> (\<forall>p \<in> set (dep_points res). 0 \<le> point_rates p ! 0 \<and> point_rates p ! 0 \<le> 1)"
proof -
  obtain res atoms where r: "simulate_inner (\<lambda>_. None) \<lparr> exp_of = \<lambda>_. 1, exp_m1_of = \<lambda>_. 0 \<rparr> 0 None run_request = Ok (res, atoms)"
    "length (dep_points res) = 2" using run_replays by blast
  have "0 < length (segments run_request)" by simp
  from paid_rates_within_band [OF r(1) _ this] r(1)
  show ?thesis using r(2) by (auto simp: simulate_declared_measure_def run_segment_def)
qed

end
