(* ===== verification/Deposit_Capture.thy ===== *)
theory Deposit_Capture
  imports Deposit_Run
begin

text \<open>
  Capturing principal atoms beside the replay: the sink is an observer, and what it records of a single
  segment is one atom a day at most.
\<close>

section \<open>The replay without its sink\<close>

definition forget :: "Deposits \<Rightarrow> Deposits" where
  "forget st = st\<lparr>sink := None\<rparr>"

definition res_map :: "('a \<Rightarrow> 'b) \<Rightarrow> ('e, 'a) result \<Rightarrow> ('e, 'b) result" where
  "res_map g x = and_then x (\<lambda>y. Ok (g y))"

lemma res_map_values [simp]: "res_map g (Ok x) = Ok (g x)" "res_map g (Err e) = Err e" "res_map g Panic = Panic"
  by (simp_all add: res_map_def)

lemma res_map_and_then [simp]: "res_map g (and_then a k) = and_then a (\<lambda>x. res_map g (k x))"
  by (cases a) simp_all

lemma and_then_res_map [simp]: "and_then (res_map g a) k = and_then a (\<lambda>x. k (g x))"
  by (cases a) simp_all

lemma res_map_require [simp]: "res_map g (require c e a) = require c e (res_map g a)"
  by (simp add: require_def)

lemma res_map_comp [simp]: "res_map h (res_map g a) = res_map (\<lambda>x. h (g x)) a"
  by (cases a) simp_all

lemma res_map_if: "res_map g (if c then a else b) = (if c then res_map g a else res_map g b)"
  by simp

lemma fold_res_map:
  assumes "\<And>s x. x \<in> set xs \<Longrightarrow> f (g s) x = res_map g (f s x)"
  shows "fold_res f (g s) xs = res_map g (fold_res f s xs)"
  using assms by (induction xs arbitrary: s) (simp_all cong: and_then_cong)

lemma forget_fields [simp]:
  "balances (forget st) = balances st" "accruals (forget st) = accruals st" "paid_rates (forget st) = paid_rates st"
  "cash_list (forget st) = cash_list st" "movements (forget st) = movements st" "interest_rows (forget st) = interest_rows st"
  "points_so_far (forget st) = points_so_far st" "inflows (forget st) = inflows st" "withdrawals (forget st) = withdrawals st"
  "closures (forget st) = closures st" "maturities (forget st) = maturities st" "terminal_payout (forget st) = terminal_payout st"
  "checks (forget st) = checks st" "sink (forget st) = None"
  by (simp_all add: forget_def)

lemma forget_updates [simp]:
  "(forget st)\<lparr>maturities := a\<rparr> = forget (st\<lparr>maturities := a\<rparr>)"
  "(forget st)\<lparr>withdrawals := a, closures := b\<rparr> = forget (st\<lparr>withdrawals := a, closures := b\<rparr>)"
  "(forget st)\<lparr>inflows := a\<rparr> = forget (st\<lparr>inflows := a\<rparr>)"
  "(forget st)\<lparr>terminal_payout := a\<rparr> = forget (st\<lparr>terminal_payout := a\<rparr>)"
  "(forget st)\<lparr>balances := bs, accruals := cs\<rparr> = forget (st\<lparr>balances := bs, accruals := cs\<rparr>)"
  "(forget st)\<lparr>paid_rates := bs\<rparr> = forget (st\<lparr>paid_rates := bs\<rparr>)"
  "(forget st)\<lparr>cash_list := es\<rparr> = forget (st\<lparr>cash_list := es\<rparr>)"
  "(forget st)\<lparr>movements := ms\<rparr> = forget (st\<lparr>movements := ms\<rparr>)"
  "(forget st)\<lparr>interest_rows := is\<rparr> = forget (st\<lparr>interest_rows := is\<rparr>)"
  "(forget st)\<lparr>points_so_far := ps\<rparr> = forget (st\<lparr>points_so_far := ps\<rparr>)"
  "(forget st)\<lparr>checks := c\<rparr> = forget (st\<lparr>checks := c\<rparr>)"
  by (simp_all add: forget_def)

lemma emit_forget [simp]: "emit day s kind b a e w c cs (forget st) = forget st"
  "forget (emit day s kind b a e w c cs st) = forget st"
  by (auto simp: emit_def forget_def split: option.splits)

lemma forget_emitted [simp]: "forget ((emit day s kind b a e w c cs st)\<lparr>paid_rates := q\<rparr>) = forget (st\<lparr>paid_rates := q\<rparr>)"
  by (auto simp: emit_def forget_def split: option.splits)

lemma if_forget: "(if c then forget a else forget b) = forget (if c then a else b)"
  by simp

lemma dep_cash_forget [simp]: "dep_cash day seg kind p i (forget st) = res_map forget (dep_cash day seg kind p i st)"
  by (simp add: dep_cash_def if_distrib [of forget])

lemma mature_forget [simp]: "mature day i s (forget st) = res_map forget (mature day i s st)"
  by (simp add: mature_def Let_def)

abbreviation forget1 :: "Deposits \<times> 'a \<Rightarrow> Deposits \<times> 'a" where
  "forget1 \<equiv> map_prod forget id"

lemma start_segment_forget: "start_segment m r first day driver (forget1 x) i = res_map forget1 (start_segment m r first day driver x i)"
  by (cases x) (simp add: start_segment_def Let_def res_map_if cong: if_cong)

lemma move_forget: "move_to_segment r day i share to (forget1 x) j = forget1 (move_to_segment r day i share to x j)"
  by (cases x) (simp add: move_to_segment_def Let_def if_forget cong: if_cong)

lemma moves_forget: "foldl (move_to_segment r day i share to) (forget1 x) js = forget1 (foldl (move_to_segment r day i share to) x js)"
  by (induction js arbitrary: x) (simp_all add: move_forget)

lemma row_allocate_forget: "row_allocate m r first day driver routes (forget1 x) i = res_map forget1 (row_allocate m r first day driver routes x i)"
proof -
  obtain st nb na where x: "x = (st, nb, na)" by (cases x)
  show ?thesis
    by (simp add: x row_allocate_def Let_def split_beta moves_forget [of _ _ _ _ _ "(_, _, _)", simplified, symmetric])
qed

lemma credit_segment_forget: "credit_segment r day driver (forget1 x) i = res_map forget1 (credit_segment r day driver x i)"
  by (cases x) (simp add: credit_segment_def Let_def res_map_if if_forget cong: if_cong)

lemma close_forget: "close_deposit_day r day o' a' (forget1 x) = res_map forget (close_deposit_day r day o' a' x)"
  by (cases x) (simp add: close_deposit_day_def Let_def dep_conservation_def dep_point_def)

lemma liquidate_forget: "liquidate r fin (forget st) i = res_map forget (liquidate r fin st i)"
  by (simp add: liquidate_def Let_def)

lemma dep_day_forget: "dep_day chk m r first routes (forget st) day = res_map forget (dep_day chk m r first routes st day)"
proof -
  let ?n = "length (segments r)"
  have "fold_res (start_segment m r first day d) (forget1 y) [0..<?n] = res_map forget1 (fold_res (start_segment m r first day d) y [0..<?n])"
    for d y by (rule fold_res_map) (rule start_segment_forget)
  from this [of _ "(_, _)"] have a: "fold_res (start_segment m r first day d) (forget s, x) [0..<?n]
      = res_map forget1 (fold_res (start_segment m r first day d) (s, x) [0..<?n])" for d s x by simp
  have "fold_res (row_allocate m r first day d routes) (forget1 y) [0..<?n] = res_map forget1 (fold_res (row_allocate m r first day d routes) y [0..<?n])"
    for d y by (rule fold_res_map) (rule row_allocate_forget)
  from this [of _ "(_, _)"] have b: "fold_res (row_allocate m r first day d routes) (forget s, x) [0..<?n]
      = res_map forget1 (fold_res (row_allocate m r first day d routes) (s, x) [0..<?n])" for d s x by simp
  have c: "fold_res (credit_segment r day d) (forget1 x) [0..<?n] = res_map forget1 (fold_res (credit_segment r day d) x [0..<?n])"
    for d x by (rule fold_res_map) (rule credit_segment_forget)
  show ?thesis by (simp add: dep_day_def Let_def a b c close_forget split_beta)
qed

lemma terminate_forget: "terminate r fin (forget st) = res_map forget (terminate r fin st)"
proof -
  have a: "fold_res (\<lambda>st i. mature fin i (segments r ! i) st) (forget st) xs = res_map forget (fold_res (\<lambda>st i. mature fin i (segments r ! i) st) st xs)" for st xs
    by (rule fold_res_map) simp
  have b: "fold_res (liquidate r fin) (forget st) xs = res_map forget (fold_res (liquidate r fin) st xs)" for st xs
    by (rule fold_res_map) (rule liquidate_forget)
  show ?thesis
    by (cases "is_liquidation (terminal_policy r)") (simp_all add: terminate_def Let_def a b if_forget cong: if_cong)
qed

text \<open>
  C30. Capturing principal atoms does not change the replay: whatever the sink holds, the replay
  returns the same result, the same error or the same panic as the replay without a sink.
\<close>

theorem capture_is_transparent:
  "simulate_inner chk m k None r = and_then (simulate_inner chk m k (Some atoms) r) (\<lambda>(res, _). Ok (res, None))"
proof -
  have o: "opening_deposits r None c = forget (opening_deposits r (Some atoms) c)" for c
    by (simp add: opening_deposits_def Let_def forget_def dep_point_def)
  have d: "fold_res (dep_day chk m r first routes) (forget st) xs = res_map forget (fold_res (dep_day chk m r first routes) st xs)"
    for first routes st xs by (rule fold_res_map) (rule dep_day_forget)
  have c: "dep_conservation r (forget st) = dep_conservation r st" "interest_conserved r (forget st) = interest_conserved r st"
    "dep_report r (forget st) = dep_report r st" for st
    by (simp_all add: dep_conservation_def interest_conserved_def dep_report_def)
  have e: "and_then (and_then a f) g = and_then a (\<lambda>x. and_then (f x) g)" for a :: "('e, 'a) result" and f :: "'a \<Rightarrow> ('e, 'b) result" and g :: "'b \<Rightarrow> ('e, 'c) result"
    by (cases a) simp_all
  show ?thesis
  proof (cases "validate_with_check chk k r")
    case (Ok x)
    then show ?thesis unfolding simulate_inner_def o by (cases x) (simp add: d terminate_forget c e)
  qed (simp_all add: simulate_inner_def)
qed

section \<open>One atom a day\<close>

definition atoms_ok :: "i32 \<Rightarrow> i32 \<Rightarrow> PrincipalAtom list \<Rightarrow> bool" where
  "atoms_ok lo hi as \<longleftrightarrow> sorted_wrt (<) (map atom_ordinal as) \<and> (\<forall>a \<in> set as. lo \<le> atom_ordinal a \<and> atom_ordinal a < hi)
     \<and> map allocation_index as = [0..<length as]"

lemma atoms_ok_more: "atoms_ok lo hi as \<Longrightarrow> lo \<le> hi \<Longrightarrow> atom_ordinal a = hi \<Longrightarrow> allocation_index a = length as
    \<Longrightarrow> atoms_ok lo (hi + 1) (as @ [a])"
  by (fastforce simp: atoms_ok_def sorted_wrt_append)

lemma atoms_ok_later: "atoms_ok lo hi as \<Longrightarrow> hi \<le> hi' \<Longrightarrow> atoms_ok lo hi' as"
  by (fastforce simp: atoms_ok_def)

lemma atoms_count: "atoms_ok lo hi as \<Longrightarrow> lo \<le> hi \<Longrightarrow> int (length as) \<le> hi - lo"
proof -
  assume a: "atoms_ok lo hi as" and "lo \<le> hi"
  then have "distinct (map atom_ordinal as)" by (simp add: atoms_ok_def strict_sorted_iff)
  then have "length as = card (set (map atom_ordinal as))" by (metis distinct_card length_map)
  also have "\<dots> \<le> card {lo..<hi}" using a by (intro card_mono) (auto simp: atoms_ok_def)
  finally show ?thesis using \<open>lo \<le> hi\<close> by simp
qed

text \<open>What a step appends to the sink: nothing, or one atom of the day.\<close>

definition sunk :: "i32 \<Rightarrow> bool \<Rightarrow> Deposits \<Rightarrow> Deposits \<Rightarrow> bool" where
  "sunk day c st st' \<longleftrightarrow> (if c then \<forall>as. sink st = Some as \<longrightarrow> (\<exists>a. sink st' = Some (as @ [a]) \<and> atom_ordinal a = day
     \<and> allocation_index a = length as) else sink st' = sink st)"

lemma emit_sunk: "sunk day True st (emit day s kind b a e w c cs st)"
  by (auto simp: sunk_def emit_def)

lemma mature_sunk:
  assumes "mature day i s st = Ok st'"
  shows "sunk day (maturity_ordinal s = Some day) st st'"
proof (cases "maturity_ordinal s = Some day")
  case True
  with assms obtain u cs b q where "dep_cash day (segment_id s) ''contractual_maturity'' (- b) q (st\<lparr>maturities := maturities st + b\<rparr>) = Ok u"
    and "st' = emit day s ''contractual_maturity'' b 0 None None None cs
      (u\<lparr>balances := (balances u)[i := 0], accruals := (accruals u)[i := 0]\<rparr>)"
    by (auto simp: mature_def Let_def)
  with dep_cash_frame(5) [OF this(1)] True show ?thesis by (auto simp: sunk_def emit_def)
qed (use assms in \<open>simp add: mature_def sunk_def\<close>)

lemma moves_sink: "sink (fst (foldl (move_to_segment r day i share to) x js)) = sink (fst x)"
  by (induction js arbitrary: x) (auto simp: move_to_segment_def Let_def split: prod.splits)

lemma row_sunk:
  assumes "row_allocate m r first day driver routes (st, nb, na) i = Ok x"
  shows "sunk day (is_active day (segments r ! i)) st (fst x)"
proof (cases "is_active day (segments r ! i)")
  case True
  let ?s = "segments r ! i"
  obtain h where h: "intensity r first day driver routes (paid_rates st) i = Ok h"
    using assms True by (cases "intensity r first day driver routes (paid_rates st) i") (simp_all add: row_allocate_def Let_def)
  obtain exited share where es: "exit_share m (total_intensity h) = (exited, share)" by fastforce
  have "\<exists>u w wd wi cl ci v1 v2 b2 b3 c e z cs nb' na'. dep_cash day (segment_id ?s) ''withdrawal'' wd wi (st\<lparr>withdrawals := v1, closures := v2\<rparr>) = Ok u
    \<and> dep_cash day (segment_id ?s) ''closure'' cl ci u = Ok w
    \<and> x = foldl (move_to_segment r day i share (move_at h))
        (emit day ?s ''competing_withdrawal_closure'' b2 b3 c e z cs w, nb', na') [0..<length (move_at h)]"
    using assms True h es unfolding row_allocate_def Let_def by simp metis
  then obtain u w wd wi cl ci v1 v2 b2 b3 c e z cs nb' na' where
    u: "dep_cash day (segment_id ?s) ''withdrawal'' wd wi (st\<lparr>withdrawals := v1, closures := v2\<rparr>) = Ok u"
    and w: "dep_cash day (segment_id ?s) ''closure'' cl ci u = Ok w"
    and x: "x = foldl (move_to_segment r day i share (move_at h))
        (emit day ?s ''competing_withdrawal_closure'' b2 b3 c e z cs w, nb', na') [0..<length (move_at h)]"
    by (elim exE conjE)
  have "sink w = sink st" using dep_cash_frame(5) [OF u] dep_cash_frame(5) [OF w] by simp
  then have "sunk day True st (emit day ?s ''competing_withdrawal_closure'' b2 b3 c e z cs w)"
    by (auto simp: sunk_def emit_def)
  then show ?thesis using True by (simp add: sunk_def x moves_sink)
qed (use assms in \<open>auto simp: row_allocate_def sunk_def\<close>)

lemma start_sunk:
  assumes "start_segment m r first day driver (st, o', a') i = Ok x"
  shows "sunk day (maturity_ordinal (segments r ! i) = Some day) st (fst x)"
proof -
  obtain u q where "mature day i (segments r ! i) st = Ok u" "fst x = u\<lparr>paid_rates := q\<rparr>"
    using assms by (auto simp: start_segment_def Let_def split: if_splits)
  with mature_sunk [OF this(1)] show ?thesis by (simp add: sunk_def)
qed

lemma credit_sink: "credit_segment r day driver x i = Ok y \<Longrightarrow> sink (fst y) = sink (fst x)"
  by (cases x) (auto simp: credit_segment_def Let_def split: if_splits dest!: dep_cash_frame(5))

lemma close_sink: "close_deposit_day r day o' a' x = Ok y \<Longrightarrow> sink y = sink (fst x)"
  by (cases x) (auto simp: close_deposit_day_def Let_def)

definition recorded :: "i32 \<Rightarrow> i32 \<Rightarrow> Deposits \<Rightarrow> bool" where
  "recorded lo hi st \<longleftrightarrow> (\<exists>as. sink st = Some as \<and> atoms_ok lo hi as)"

lemma sunk_recorded: "sunk day c st st' \<Longrightarrow> recorded lo day st \<Longrightarrow> lo \<le> day \<Longrightarrow> recorded lo (if c then day + 1 else day) st'"
  by (cases c) (auto simp: sunk_def recorded_def intro!: atoms_ok_more)

lemma single_segment: "length (segments r) = 1 \<Longrightarrow> fold_res g x [0..<length (segments r)] = g x 0"
  by (cases "g x 0") simp_all

lemma day_recorded:
  assumes f: "dep_day chk m r first routes st day = Ok st'" and n: "length (segments r) = 1"
    and st: "recorded lo day st" "lo \<le> day"
  shows "recorded lo (day + 1) st'"
proof -
  let ?s = "segments r ! 0"
  note one = single_segment [OF n]
  obtain k driver z zz out ass s1 y x where
    a: "start_segment m r first day driver (st\<lparr>checks := k\<rparr>, z) 0 = Ok (s1, out, ass)"
    and b: "row_allocate m r first day driver routes (s1, zz) 0 = Ok x"
    and c: "credit_segment r day driver x 0 = Ok y" and d: "close_deposit_day r day out ass y = Ok st'"
    using f by (auto simp: dep_day_def Let_def one)
  obtain z1 z2 zz1 zz2 where "z = (z1, z2)" "zz = (zz1, zz2)" by (cases z; cases zz)
  with start_sunk [of m r first day driver "st\<lparr>checks := k\<rparr>" z1 z2 0] a row_sunk [of m r first day driver routes s1 zz1 zz2 0] b
  have s: "sunk day (maturity_ordinal ?s = Some day) (st\<lparr>checks := k\<rparr>) s1" "sunk day (is_active day ?s) s1 (fst x)" by auto
  have "recorded lo day (st\<lparr>checks := k\<rparr>)" using st by (simp add: recorded_def)
  note r1 = sunk_recorded [OF s(1) this st(2)]
  have "recorded lo (day + 1) (fst x)"
  proof (cases "maturity_ordinal ?s = Some day")
    case True
    then have "\<not> is_active day ?s" by (simp add: is_active_def)
    with s(2) r1 True show ?thesis by (simp add: sunk_def recorded_def)
  next
    case False
    with r1 have "recorded lo day s1" by simp
    from sunk_recorded [OF s(2) this st(2)] show ?thesis
      using atoms_ok_later [of lo day _ "day + 1"] by (auto simp: recorded_def split: if_splits)
  qed
  then show ?thesis using credit_sink [OF c] close_sink [OF d] by (simp add: recorded_def)
qed

lemma terminate_recorded:
  assumes f: "terminate r fin st = Ok st'" and n: "length (segments r) = 1" and st: "recorded lo fin st" "lo \<le> fin"
  shows "recorded lo (fin + 1) st'"
proof -
  note one = single_segment [OF n]
  obtain u v where u: "mature fin 0 (segments r ! 0) st = Ok u"
    and v: "(if is_liquidation (terminal_policy r) then liquidate r fin u 0 else Ok u) = Ok v"
    and w: "st' = (if points_so_far v = [] then v else v\<lparr>points_so_far := butlast (points_so_far v) @
        [(last (points_so_far v))\<lparr>point_balances := balances v, point_accrued := accruals v\<rparr>]\<rparr>)"
    using f by (auto simp: terminate_def Let_def one cong: if_cong)
  have st': "sink st' = sink v" by (simp add: w)
  have "sink v = sink u" using v by (auto simp: liquidate_def Let_def split: if_splits dest!: dep_cash_frame(5))
  then show ?thesis using sunk_recorded [OF mature_sunk [OF u] st] st' atoms_ok_later [of lo fin _ "fin + 1"]
    by (auto simp: recorded_def split: if_splits)
qed

lemma replay_recorded:
  assumes "simulate_inner chk m k (Some []) r = Ok (res, Some atoms)" and n: "length (segments r) = 1"
  shows "atoms_ok (dep_as_of r) (dep_as_of r + int (dep_horizon_days r) + 1) atoms"
proof -
  obtain fin first c routes st st' where v: "validate_with_check chk k r = Ok (fin, first, c)"
    and f: "fold_res (dep_day chk m r first routes) (opening_deposits r (Some []) c) [dep_as_of r..fin - 1] = Ok st"
    and t: "terminate r fin st = Ok st'" and a: "sink st' = Some atoms"
    using assms(1) by (auto simp: simulate_inner_def)
  have fin: "fin = dep_as_of r + int (dep_horizon_days r)" using request_admitted [OF v] by (simp add: admitted_def)
  let ?I = "\<lambda>d st. recorded (dep_as_of r) d st \<and> dep_as_of r \<le> d"
  have "?I (fin - 1 + 1) st"
  proof (rule fold_upto_inv [OF f, where I = ?I])
    show "?I (dep_as_of r) (opening_deposits r (Some []) c)"
      by (simp add: recorded_def opening_deposits_def Let_def atoms_ok_def)
  qed (use fin day_recorded [OF _ n] in auto)
  then have "recorded (dep_as_of r) fin st" by simp
  from terminate_recorded [OF t n this] fin show ?thesis by (simp add: recorded_def a)
qed

text \<open>
  C31. A replay of one segment with an empty sink records at most one atom a day: their dates are
  strictly increasing and lie in the horizon, their indices count from zero, and there are at most one
  more than the days of the horizon, so that the capacity of two more, which \<open>capture_principal\<close>
  checks at the end, is never exceeded.
\<close>

theorem one_atom_a_day:
  assumes "simulate_inner chk m k (Some []) r = Ok (res, Some atoms)" and "length (segments r) = 1"
  shows "sorted_wrt (<) (map atom_ordinal atoms)
    \<and> (\<forall>a \<in> set atoms. dep_as_of r \<le> atom_ordinal a \<and> atom_ordinal a \<le> dep_as_of r + int (dep_horizon_days r))
    \<and> map allocation_index atoms = [0..<length atoms] \<and> length atoms \<le> dep_horizon_days r + 1"
  using replay_recorded [OF assms] atoms_count [OF replay_recorded [OF assms]] by (auto simp: atoms_ok_def)

theorem one_atom_a_day_witness:
  "\<exists>res a. simulate_inner (\<lambda>_. None) \<lparr> exp_of = \<lambda>_. 1, exp_m1_of = \<lambda>_. 0 \<rparr> 0 (Some []) run_request = Ok (res, Some [a])
     \<and> 2 \<le> atom_ordinal a \<and> atom_ordinal a \<le> 3 \<and> allocation_index a = 0"
proof -
  obtain res atoms where r: "simulate_inner (\<lambda>_. None) \<lparr> exp_of = \<lambda>_. 1, exp_m1_of = \<lambda>_. 0 \<rparr> 0 (Some []) run_request = Ok (res, atoms)"
    "map_option length atoms = Some 1" using run_replays [of _ "Some []"] by fastforce
  then obtain a where a: "atoms = Some [a]" by (auto simp: length_Suc_conv)
  have "length (segments run_request) = 1" by simp
  from one_atom_a_day [OF _ this] r(1) a show ?thesis by fastforce
qed

end
