(* ===== verification/Deposit_Rights.thy ===== *)
theory Deposit_Rights
  imports Deposit_State
begin

text \<open>
  Earned interest rights of a deposit and the cash that retires them,
  \<open>portfolio-model-core/src/products/deposits/continuation.rs\<close> (\<open>rights\<close>, \<open>complete_rights\<close>) and
  \<open>fifo_capacity.rs\<close>, the arena that computes the same rights with a cursor and preflighted capacity.
  What the platform decides is the record \<open>Host\<close>: the sizes of the structures (\<open>size_of\<close>), whether the
  allocator grants a reservation, the capacity a vector or a cloned text then has, and the chunks
  \<open>serde_json\<close> writes of a result. The callback \<open>check\<close> is a sequence of answers, as in \<open>Deposit_State\<close>.
\<close>

section \<open>Rights\<close>

record Origin =
  native_interest_index :: nat
  origin_start :: i32
  origin_end :: i32
  origin_earned :: f64
  origin_allocated :: f64
  origin_remaining :: f64

record Allocation =
  allocated_interest_index :: nat
  allocated_amount :: f64

record Settlement =
  native_cash_index :: nat
  native_event_id :: string
  settled_ordinal :: i32
  full_retirement :: bool
  actual_interest :: f64
  settled_allocations :: "Allocation list"
  roundoff_right :: f64

record Rights =
  rights_origins :: "Origin list"
  rights_settlements :: "Settlement list"
  remaining_rights :: f64
  retained_roundoff :: f64
  total_right :: f64

definition rights_near :: "f64 \<Rightarrow> f64 \<Rightarrow> bool" where
  "rights_near a b \<longleftrightarrow> fabs (a - b) \<le> fmax (f64_lit 1 (10 ^ 9)) (f64_lit 1 (10 ^ 12) * fmax (fabs a) (fabs b))"

definition check_at :: "checker \<Rightarrow> nat \<Rightarrow> (string, nat) result" where
  "check_at chk k = (case chk k of None \<Rightarrow> Ok (k + 1) | Some e \<Rightarrow> Err e)"

definition origin_of :: "nat \<times> DepositInterest \<Rightarrow> Origin" where
  "origin_of x = (case x of (index, o') \<Rightarrow> \<lparr> native_interest_index = index, origin_start = interest_start o',
     origin_end = interest_end o', origin_earned = interest_amount o', origin_allocated = 0,
     origin_remaining = interest_amount o' \<rparr>)"

definition earned_until :: "i32 \<Rightarrow> DepositStateResult \<Rightarrow> (nat \<times> DepositInterest) list" where
  "earned_until through s = filter (\<lambda>(_, o'). interest_end o' \<le> through) (enumerate 0 (dep_interest s))"

definition cash_until :: "i32 \<Rightarrow> DepositStateResult \<Rightarrow> (nat \<times> DepositCashEvent) list" where
  "cash_until through s = filter (\<lambda>(_, c). dep_cash_ordinal c \<le> through \<and> \<not> feq (dep_cash_interest c) 0)
     (enumerate 0 (dep_cashflows s))"

definition is_full :: "DepositCashEvent \<Rightarrow> bool" where
  "is_full c \<longleftrightarrow> dep_cash_kind c \<in> {''interest_payment'', ''contractual_maturity''}"

text \<open>What a cash flow takes from an origin, and the origin after it.\<close>

definition take_amount :: "bool \<Rightarrow> f64 \<Rightarrow> Origin \<Rightarrow> f64" where
  "take_amount full needed o' = (if full then origin_remaining o' else fmax (fmin needed (origin_remaining o')) 0)"

definition take_from :: "f64 \<Rightarrow> Origin \<Rightarrow> Origin" where
  "take_from amount o' = (if 0 < amount then o' \<lparr> origin_remaining := origin_remaining o' - amount,
     origin_allocated := origin_allocated o' + amount \<rparr> else o')"

definition taken :: "f64 \<Rightarrow> Origin \<Rightarrow> Allocation list" where
  "taken amount o' = (if 0 < amount
     then [\<lparr> allocated_interest_index = native_interest_index o', allocated_amount = amount \<rparr>] else [])"

definition still_needed :: "f64 \<Rightarrow> f64 \<Rightarrow> f64" where
  "still_needed needed amount = (if 0 < amount then needed - amount else needed)"

text \<open>The inner loop of \<open>rights\<close>, over all origins.\<close>

fun retire :: "checker \<Rightarrow> i32 \<Rightarrow> bool \<Rightarrow> nat \<Rightarrow> f64 \<Rightarrow> Origin list \<Rightarrow> (string, nat \<times> Origin list \<times> Allocation list) result" where
  "retire chk day full k needed [] = Ok (k, [], [])"
| "retire chk day full k needed (o' # os) = and_then (check_at chk k) (\<lambda>k.
     if day < origin_end o' then Ok (k, o' # os, [])
     else let amount = take_amount full needed o'; needed = still_needed needed amount in
       if \<not> full \<and> needed \<le> 0 then Ok (k, take_from amount o' # os, taken amount o')
       else and_then (retire chk day full k needed os) (\<lambda>(k, os, as).
         Ok (k, take_from amount o' # os, taken amount o' @ as)))"

definition settle_cash_right :: "checker \<Rightarrow> nat \<times> Origin list \<times> Settlement list \<Rightarrow> nat \<times> DepositCashEvent
    \<Rightarrow> (string, nat \<times> Origin list \<times> Settlement list) result" where
  "settle_cash_right chk x ic = (case (x, ic) of ((k, os, ss), (index, c)) \<Rightarrow>
     and_then (check_at chk k) (\<lambda>k. let actual = - dep_cash_interest c in
     and_then (retire chk (dep_cash_ordinal c) (is_full c) k actual os) (\<lambda>(k, os, as).
       let assigned = fsum (map allocated_amount as) in
       require (rights_near assigned actual) ''cash cannot retire current eligible earned origins''
         (Ok (k, os, ss @ [\<lparr> native_cash_index = index, native_event_id = dep_event_id c,
            settled_ordinal = dep_cash_ordinal c, full_retirement = is_full c, actual_interest = dep_cash_interest c,
            settled_allocations = as, roundoff_right = assigned - actual \<rparr>])))))"

definition rights_of :: "Origin list \<Rightarrow> Settlement list \<Rightarrow> Rights" where
  "rights_of os ss = (let remaining = fsum (map origin_remaining os); retained = fsum (map roundoff_right ss) in
     \<lparr> rights_origins = os, rights_settlements = ss, remaining_rights = remaining, retained_roundoff = retained,
       total_right = remaining + retained \<rparr>)"

definition rights :: "checker \<Rightarrow> nat \<Rightarrow> DepositStateResult \<Rightarrow> i32 \<Rightarrow> (string, Rights) result" where
  "rights chk k s through =
     and_then (fold_res (settle_cash_right chk) (k, map origin_of (earned_until through s), []) (cash_until through s))
       (\<lambda>(k, os, ss). Ok (rights_of os ss))"

definition complete_rights :: "Rights \<Rightarrow> (string, unit) result" where
  "complete_rights x = require (\<not> ((\<exists>o' \<in> set (rights_origins x). \<not> rights_near (origin_remaining o') 0)
       \<or> (\<exists>s \<in> set (rights_settlements x). \<not> rights_near (roundoff_right s) 0) \<or> \<not> rights_near (total_right x) 0))
     ''individual unweighted gross origin tail incomplete'' (Ok ())"

section \<open>The arena\<close>

definition FIFO_MAX_WORK :: usize where
  "FIFO_MAX_WORK = 8000000"

definition FIFO_MAX_BYTES :: usize where
  "FIFO_MAX_BYTES = 32 * 1024 * 1024"

record FifoPlan =
  plan_origins :: usize
  plan_settlements :: usize
  allocation_bound :: usize
  visit_bound :: usize
  work_reserved :: usize
  retained_reserved :: usize
  serialized_reserved :: usize
  joined_reserved :: usize

record CashRange =
  range_cash_index :: nat
  range_event_id :: string
  range_ordinal :: i32
  range_full :: bool
  range_interest :: f64
  allocation_start :: nat
  allocation_end :: nat
  range_roundoff :: f64

record CompactRights =
  compact_origins :: "Origin list"
  compact_settlements :: "CashRange list"
  compact_allocations :: "Allocation list"
  compact_remaining :: f64
  compact_roundoff :: f64
  compact_total :: f64
  compact_plan :: FifoPlan
  compact_visits :: usize
  work_used :: usize
  retained_used :: usize
  serialized_used :: usize

datatype Vector = Origins | Ranges | Allocations

record Host =
  size_of_rights :: usize
  size_of_origin :: usize
  size_of_range :: usize
  size_of_allocation :: usize
  grants :: "Vector \<Rightarrow> usize \<Rightarrow> bool"
  capacity :: "Vector \<Rightarrow> usize \<Rightarrow> usize"
  text_capacity :: "string \<Rightarrow> usize"
  chunks :: "CompactRights \<Rightarrow> nat list"

definition fifo_add :: "usize \<Rightarrow> usize \<Rightarrow> (string, usize) result" where
  "fifo_add a b = ok_or (usize_checked_add a b) ''FIFO count overflow''"

definition fifo_mul :: "usize \<Rightarrow> usize \<Rightarrow> (string, usize) result" where
  "fifo_mul a b = ok_or (usize_checked_mul a b) ''FIFO count overflow''"

definition cardinality_plan :: "Host \<Rightarrow> usize \<Rightarrow> usize \<Rightarrow> usize \<Rightarrow> (string, FifoPlan) result" where
  "cardinality_plan h i c identity_bytes =
     and_then (fifo_add i c) (\<lambda>bound.
     and_then (fifo_mul bound 1024) (\<lambda>a. and_then (fifo_mul identity_bytes 6) (\<lambda>b. and_then (fifo_add a b) (\<lambda>ab.
     and_then (fifo_add 2048 ab) (\<lambda>serialized.
     and_then (fifo_mul bound 32) (\<lambda>a. and_then (fifo_add a identity_bytes) (\<lambda>a. and_then (fifo_mul serialized 4) (\<lambda>b.
     and_then (fifo_add a b) (\<lambda>work.
     and_then (fifo_mul i (size_of_origin h)) (\<lambda>a. and_then (fifo_mul c (size_of_range h)) (\<lambda>b. and_then (fifo_add a b) (\<lambda>ab.
     and_then (fifo_mul bound (size_of_allocation h)) (\<lambda>a. and_then (fifo_add a identity_bytes) (\<lambda>b. and_then (fifo_add ab b) (\<lambda>ab.
     and_then (fifo_add (size_of_rights h) ab) (\<lambda>retained.
     and_then (fifo_add retained serialized) (\<lambda>joined.
     require (\<not> (FIFO_MAX_WORK < work \<or> FIFO_MAX_BYTES < joined))
       ''FIFO arena pre-generation work/bytes exceeded''
       (Ok \<lparr> plan_origins = i, plan_settlements = c, allocation_bound = bound, visit_bound = bound,
          work_reserved = work, retained_reserved = retained, serialized_reserved = serialized,
          joined_reserved = joined \<rparr>))))))))))))))))))"

text \<open>The two counting loops: the checks made, the count, the date before.\<close>

definition count_origin :: "checker \<Rightarrow> nat \<times> usize \<times> i32 option \<Rightarrow> DepositInterest
    \<Rightarrow> (string, nat \<times> usize \<times> i32 option) result" where
  "count_origin chk x o' = (case x of (k, i, prior) \<Rightarrow>
     and_then (check_at chk k) (\<lambda>k.
     require (\<not> (\<not> is_finite (interest_amount o') \<or> interest_amount o' < 0 \<or> interest_end o' \<le> interest_start o'
                \<or> (case prior of None \<Rightarrow> False | Some p \<Rightarrow> interest_end o' < p)))
       ''FIFO requires chronological nonnegative earned origins''
    (and_then (fifo_add i 1) (\<lambda>i. Ok (k, i, Some (interest_end o'))))))"

definition count_cash :: "checker \<Rightarrow> nat \<times> usize \<times> usize \<times> i32 option \<Rightarrow> DepositCashEvent
    \<Rightarrow> (string, nat \<times> usize \<times> usize \<times> i32 option) result" where
  "count_cash chk x c = (case x of (k, n, identity_bytes, prior) \<Rightarrow>
     and_then (check_at chk k) (\<lambda>k.
     require (\<not> (\<not> is_finite (dep_cash_interest c) \<or> 0 < dep_cash_interest c
                \<or> (case prior of None \<Rightarrow> False | Some p \<Rightarrow> dep_cash_ordinal c < p)))
       ''FIFO requires chronological bank-payment cash''
    (and_then (fifo_add n 1) (\<lambda>n. and_then (fifo_add identity_bytes (length (dep_event_id c))) (\<lambda>b.
     Ok (k, n, b, Some (dep_cash_ordinal c)))))))"

definition fifo_reserve :: "Host \<Rightarrow> Vector \<Rightarrow> usize \<Rightarrow> (string, unit) result" where
  "fifo_reserve h v slots = require (grants h v slots) ''FIFO allocation failed'' (Ok ())"

record Fifo =
  fifo_origins :: "Origin list"
  cursor :: nat
  visits :: usize
  fifo_ranges :: "CashRange list"
  fifo_allocations :: "Allocation list"
  fifo_checks :: nat

lemma fifo_add_Ok [simp]: "fifo_add a b = Ok v \<longleftrightarrow> v = a + b \<and> a + b \<le> usize_max"
  by (auto simp: fifo_add_def usize_checked_add_def)

text \<open>The \<open>while\<close> loop. Every iteration counts a visit, and the plan bounds the visits.\<close>

function fifo_scan :: "checker \<Rightarrow> FifoPlan \<Rightarrow> i32 \<Rightarrow> bool \<Rightarrow> f64 \<Rightarrow> Fifo \<Rightarrow> (string, Fifo) result" where
  "fifo_scan chk plan day full needed st =
     (if length (fifo_origins st) \<le> cursor st then Ok st
      else and_then (check_at chk (fifo_checks st)) (\<lambda>k.
        and_then (fifo_add (visits st) 1) (\<lambda>v.
        if visit_bound plan < v then Err ''FIFO actual work exceeded reservation''
        else let st = st \<lparr> fifo_checks := k, visits := v \<rparr>; o' = fifo_origins st ! cursor st in
          if day < origin_end o' then Ok st
          else let amount = take_amount full needed o'; needed = still_needed needed amount in
            if 0 < amount \<and> length (fifo_allocations st) = allocation_bound plan
            then Err ''FIFO actual allocations exceeded reservation''
            else let st = st \<lparr> fifo_origins := (fifo_origins st)[cursor st := take_from amount o'],
                       fifo_allocations := fifo_allocations st @ taken amount o' \<rparr>;
                     st = (if feq (origin_remaining (take_from amount o')) 0 then st \<lparr> cursor := cursor st + 1 \<rparr> else st)
                 in if \<not> full \<and> needed \<le> 0 then Ok st else fifo_scan chk plan day full needed st)))"
  by pat_completeness auto

termination
  by (relation "Wellfounded.measure (\<lambda>(chk, plan, day, full, needed, st). visit_bound plan + 1 - visits st)")
    (auto simp: Let_def split: if_splits)

declare fifo_scan.simps [simp del]

definition fifo_cash :: "checker \<Rightarrow> FifoPlan \<Rightarrow> Fifo \<Rightarrow> nat \<times> DepositCashEvent \<Rightarrow> (string, Fifo) result" where
  "fifo_cash chk plan st ic = (case ic of (index, c) \<Rightarrow>
     and_then (check_at chk (fifo_checks st)) (\<lambda>k. let actual = - dep_cash_interest c; start = length (fifo_allocations st) in
     and_then (fifo_scan chk plan (dep_cash_ordinal c) (is_full c) actual (st \<lparr> fifo_checks := k \<rparr>)) (\<lambda>st.
       let assigned = fsum (map allocated_amount (drop start (fifo_allocations st))) in
       require (rights_near assigned actual) ''cash cannot retire current eligible earned origins''
         (Ok (st \<lparr> fifo_ranges := fifo_ranges st @ [\<lparr> range_cash_index = index, range_event_id = dep_event_id c,
            range_ordinal = dep_cash_ordinal c, range_full = is_full c, range_interest = dep_cash_interest c,
            allocation_start = start, allocation_end = length (fifo_allocations st),
            range_roundoff = assigned - actual \<rparr>] \<rparr>)))))"

definition push_origin :: "checker \<Rightarrow> nat \<times> Origin list \<Rightarrow> nat \<times> DepositInterest \<Rightarrow> (string, nat \<times> Origin list) result" where
  "push_origin chk x io = (case x of (k, os) \<Rightarrow> and_then (check_at chk k) (\<lambda>k. Ok (k, os @ [origin_of io])))"

definition count_retained :: "Host \<Rightarrow> usize \<Rightarrow> usize \<Rightarrow> FifoPlan \<Rightarrow> CashRange list \<Rightarrow> (string, usize) result" where
  "count_retained h i c plan ranges =
     and_then (fifo_mul (capacity h Origins i) (size_of_origin h)) (\<lambda>a.
     and_then (fifo_mul (capacity h Ranges c) (size_of_range h)) (\<lambda>b. and_then (fifo_add a b) (\<lambda>ab.
     and_then (fifo_mul (capacity h Allocations (allocation_bound plan)) (size_of_allocation h)) (\<lambda>a.
     and_then (fold_res (\<lambda>n s. fifo_add n (text_capacity h (range_event_id s))) 0 ranges) (\<lambda>b.
     and_then (fifo_add a b) (\<lambda>b. and_then (fifo_add ab b) (\<lambda>ab. fifo_add (size_of_rights h) ab)))))))"

text \<open>One chunk written to the counting writer: the bytes and the checks so far.\<close>

definition count_write :: "checker \<Rightarrow> usize \<Rightarrow> nat \<times> usize \<Rightarrow> nat \<Rightarrow> (string, nat \<times> usize) result" where
  "count_write chk cap x len = (case x of (k, bytes) \<Rightarrow>
     and_then (check_at chk k) (\<lambda>k.
     and_then (ok_or (usize_checked_add bytes len) ''FIFO output overflow'') (\<lambda>bytes.
     require (\<not> cap < bytes) ''FIFO serialized output exceeded cap'' (Ok (k, bytes)))))"

fun count_output :: "checker \<Rightarrow> Host \<Rightarrow> nat \<Rightarrow> nat \<Rightarrow> CompactRights \<Rightarrow> (string, CompactRights) result" where
  "count_output chk h 0 k x = Err ''FIFO counted output size failed to stabilize''"
| "count_output chk h (Suc n) k x =
     and_then (fold_res (count_write chk (serialized_reserved (compact_plan x))) (k, 0) (chunks h x)) (\<lambda>(k, bytes).
     and_then (fifo_add (work_used x) bytes) (\<lambda>w. let x = x \<lparr> work_used := w \<rparr> in
     require (\<not> work_reserved (compact_plan x) < w) ''FIFO serialization work exceeded preflight''
       (if bytes = serialized_used x then Ok x else count_output chk h n k (x \<lparr> serialized_used := bytes \<rparr>))))"

definition fifo_plan :: "Host \<Rightarrow> bool \<Rightarrow> usize \<Rightarrow> usize \<Rightarrow> usize \<Rightarrow> (string, FifoPlan) result" where
  "fifo_plan h counted i c identity_bytes =
     and_then (cardinality_plan h i c identity_bytes) (\<lambda>plan.
     if counted then Ok plan
     else and_then (fifo_add i c) (\<lambda>n. and_then (fifo_mul n 32) (\<lambda>n. and_then (fifo_add n identity_bytes) (\<lambda>w.
       Ok (plan \<lparr> work_reserved := w, joined_reserved := retained_reserved plan, serialized_reserved := 0 \<rparr>)))))"

definition compact :: "FifoPlan \<Rightarrow> usize \<Rightarrow> usize \<Rightarrow> Fifo \<Rightarrow> CompactRights" where
  "compact plan retained work st = (let
     remaining = fsum (map origin_remaining (fifo_origins st)); retained_right = fsum (map range_roundoff (fifo_ranges st))
     in \<lparr> compact_origins = fifo_origins st, compact_settlements = fifo_ranges st, compact_allocations = fifo_allocations st,
       compact_remaining = remaining, compact_roundoff = retained_right, compact_total = remaining + retained_right,
       compact_plan = plan, compact_visits = visits st, work_used = work, retained_used = retained, serialized_used = 0 \<rparr>)"

definition allocate_mode :: "checker \<Rightarrow> Host \<Rightarrow> nat \<Rightarrow> bool \<Rightarrow> DepositStateResult \<Rightarrow> i32
    \<Rightarrow> (string, CompactRights) result" where
  "allocate_mode chk h k counted s through =
     and_then (check_at chk k) (\<lambda>k.
     and_then (fold_res (count_origin chk) (k, 0, None) (dep_interest s)) (\<lambda>(k, i, _).
     and_then (fold_res (count_cash chk) (k, 0, 0, None) (dep_cashflows s)) (\<lambda>(k, c, identity_bytes, _).
     and_then (fifo_plan h counted i c identity_bytes) (\<lambda>plan.
     and_then (fifo_reserve h Origins i) (\<lambda>_.
     and_then (fifo_reserve h Ranges c) (\<lambda>_.
     and_then (fifo_reserve h Allocations (allocation_bound plan)) (\<lambda>_.
     and_then (fold_res (push_origin chk) (k, []) (earned_until through s)) (\<lambda>(k, os).
     and_then (fold_res (fifo_cash chk plan) \<lparr> fifo_origins = os, cursor = 0, visits = 0, fifo_ranges = [],
         fifo_allocations = [], fifo_checks = k \<rparr> (cash_until through s)) (\<lambda>st.
     and_then (count_retained h i c plan (fifo_ranges st)) (\<lambda>retained.
     and_then (fifo_add i c) (\<lambda>n. and_then (fifo_mul n 16) (\<lambda>n.
     and_then (fifo_add (visits st) (length (fifo_allocations st))) (\<lambda>v. and_then (fifo_add n v) (\<lambda>work.
     require (\<not> (retained_reserved plan < retained \<or> work_reserved plan < work))
       ''FIFO actual capacity/work exceeded preflight''
       (let x = compact plan retained work st in
        if counted then count_output chk h 4 (fifo_checks st) x else Ok x)))))))))))))))"

definition fifo_allocate :: "checker \<Rightarrow> Host \<Rightarrow> nat \<Rightarrow> DepositStateResult \<Rightarrow> i32 \<Rightarrow> (string, CompactRights) result" where
  "fifo_allocate chk h k s through = allocate_mode chk h k True s through"

definition allocate_without_output_count :: "checker \<Rightarrow> Host \<Rightarrow> nat \<Rightarrow> DepositStateResult \<Rightarrow> i32
    \<Rightarrow> (string, CompactRights) result" where
  "allocate_without_output_count chk h k s through = allocate_mode chk h k False s through"

text \<open>\<open>allocations[start..end]\<close> panics unless \<open>start \<le> end \<le> len\<close>.\<close>

definition slice_of :: "'a list \<Rightarrow> nat \<Rightarrow> nat \<Rightarrow> ('e, 'a list) result" where
  "slice_of xs a b = (if a \<le> b \<and> b \<le> length xs then Ok (take (b - a) (drop a xs)) else Panic)"

definition expand_range :: "Allocation list \<Rightarrow> CashRange \<Rightarrow> (string, Settlement) result" where
  "expand_range as s = and_then (slice_of as (allocation_start s) (allocation_end s)) (\<lambda>slice.
     Ok \<lparr> native_cash_index = range_cash_index s, native_event_id = range_event_id s, settled_ordinal = range_ordinal s,
       full_retirement = range_full s, actual_interest = range_interest s, settled_allocations = slice,
       roundoff_right = range_roundoff s \<rparr>)"

definition expand :: "CompactRights \<Rightarrow> (string, Rights) result" where
  "expand x = and_then (fold_res (\<lambda>ss s. and_then (expand_range (compact_allocations x) s) (\<lambda>s. Ok (ss @ [s]))) []
       (compact_settlements x)) (\<lambda>ss.
     Ok \<lparr> rights_origins = compact_origins x, rights_settlements = ss, remaining_rights = compact_remaining x,
       retained_roundoff = compact_roundoff x, total_right = compact_total x \<rparr>)"

end
