(* ===== verification/Deposit_Fifo.thy ===== *)
theory Deposit_Fifo
  imports Deposit_Rights Deposit_Run
begin

text \<open>
  The arena of earned rights computes what the list of rights computes: on a chronological source its
  cursor skips exhausted origins only, and its visits, allocations and bytes never reach the limits it
  reserved. On any source without negative earned amounts rights are retired in its order.
\<close>

section \<open>One origin\<close>

text \<open>The checks of a caller that never interrupts.\<close>

abbreviation free :: checker where
  "free \<equiv> \<lambda>_. None"

lemma check_free [simp]: "check_at free k = Ok (k + 1)"
  by (simp add: check_at_def)

definition good :: "f64 \<Rightarrow> bool" where
  "good x \<longleftrightarrow> is_finite x \<and> f64_ok x \<and> 0 \<le> val x"

definition live_origin :: "Origin \<Rightarrow> bool" where
  "live_origin o' \<longleftrightarrow> good (origin_remaining o')"

definition spent :: "i32 \<Rightarrow> Origin \<Rightarrow> bool" where
  "spent day o' \<longleftrightarrow> nil (origin_remaining o') \<and> origin_end o' \<le> day"

text \<open>A payment that still needs rights: a full retirement, or a positive rest.\<close>

definition needy :: "bool \<Rightarrow> f64 \<Rightarrow> bool" where
  "needy full needed \<longleftrightarrow> full \<or> (good needed \<and> 0 < val needed)"

lemma good_sub:
  assumes "good x" "good y" "val y \<le> val x"
  shows "good (x - y)" "val x = val y \<Longrightarrow> nil (x - y)"
proof -
  have b: "\<bar>val x - val y\<bar> \<le> val x" "val x \<in> dbl" "val x < huge"
    using assms val_dbl [of x] ok_lt_huge [of x] by (auto simp: good_def)
  note r = rounds_to_bound [OF sub_rounds b]
  have f: "is_finite (x - y)" "val (x - y) = rnd (val x - val y)" using r(1,2) assms by (simp_all add: good_def)
  have "0 \<le> rnd (val x - val y)" using assms(3) by (intro rne.rd_nonneg) simp
  with f assms show "good (x - y)" by (simp add: good_def)
  show "val x = val y \<Longrightarrow> nil (x - y)" using f by (simp add: nil_def)
qed

lemma good_min: "good x \<Longrightarrow> good y \<Longrightarrow> good (fmax (fmin x y) 0) \<and> val (fmax (fmin x y) 0) = min (val x) (val y)"
  using fmin_val [of x y] fmax_val [of "fmin x y" 0] by (auto simp: good_def)

lemma take_good:
  assumes "live_origin o'" "needy full needed"
  shows "good (take_amount full needed o')" "val (take_amount full needed o') \<le> val (origin_remaining o')"
  using assms good_min [of needed "origin_remaining o'"] by (auto simp: take_amount_def live_origin_def needy_def)

lemma take_live:
  assumes "live_origin o'" "needy full needed"
  shows "live_origin (take_from (take_amount full needed o') o')"
  using assms take_good [OF assms] good_sub(1) by (auto simp: take_from_def live_origin_def)

lemma take_goes_on:
  assumes o': "live_origin o'" "needy full needed" and a: "a = take_amount full needed o'"
    and go: "\<not> (\<not> full \<and> still_needed needed a \<le> 0)"
  shows "nil (origin_remaining (take_from a o'))" "needy full (still_needed needed a)"
proof -
  note g = take_good [OF o']
  have "nil (origin_remaining (take_from a o')) \<and> needy full (still_needed needed a)"
  proof (cases "0 < a")
    case False
    then have "val a = 0" using g by (auto simp: a good_def)
    then have "full \<or> val (origin_remaining o') = 0"
      using o' good_min [of needed "origin_remaining o'"] by (auto simp: a take_amount_def live_origin_def needy_def min_def split: if_splits)
    moreover have "full \<Longrightarrow> val (origin_remaining o') = 0" using \<open>val a = 0\<close> by (simp add: a take_amount_def)
    ultimately have "nil (origin_remaining o')" using o'(1) by (auto simp: nil_def live_origin_def good_def)
    moreover have "take_from a o' = o'" "still_needed needed a = needed" using False by (simp_all add: take_from_def still_needed_def)
    ultimately show ?thesis using o'(2) by simp
  next
    case True
    show ?thesis
    proof (cases full)
      case True
      then show ?thesis using \<open>0 < a\<close> o'(1) good_sub(2) [of a a] by (auto simp: a take_amount_def take_from_def live_origin_def needy_def)
    next
      case False
      have n: "good needed" "0 < val needed" using o'(2) False by (auto simp: needy_def)
      have v: "val a = min (val needed) (val (origin_remaining o'))"
        using n o'(1) False good_min [of needed "origin_remaining o'"] by (simp add: a take_amount_def live_origin_def)
      have s: "good (needed - a)" using good_sub(1) [of needed a] n g v by (simp add: a)
      have "\<not> needed - a \<le> 0" using go False True by (simp add: still_needed_def)
      then have p: "0 < val (needed - a)" using s by (simp add: good_def)
      then have "val needed \<noteq> val a" using good_sub(2) [of needed a] n g v by (auto simp: a nil_def)
      then have e: "val (origin_remaining o') = val a" using v by linarith
      have "good (origin_remaining o')" "good a" using o'(1) g(1) unfolding a live_origin_def by blast+
      from good_sub(2) [OF this] e have "nil (origin_remaining o' - a)" by (metis order_refl)
      moreover have "origin_remaining (take_from a o') = origin_remaining o' - a" "still_needed needed a = needed - a"
        using True by (simp_all add: take_from_def still_needed_def)
      moreover have "needy full (needed - a)" using s p unfolding needy_def by blast
      ultimately show ?thesis by metis
    qed
  qed
  then show "nil (origin_remaining (take_from a o'))" "needy full (still_needed needed a)" by auto
qed

lemma take_spent:
  assumes "nil (origin_remaining o')" "needy full needed"
  shows "take_from (take_amount full needed o') o' = o'" "taken (take_amount full needed o') o' = []"
    "still_needed needed (take_amount full needed o') = needed" "\<not> (\<not> full \<and> needed \<le> 0)"
proof -
  have "nil (take_amount full needed o')"
    using assms fmin_val [of needed "origin_remaining o'"] fmax_val [of "fmin needed (origin_remaining o')" 0]
    by (auto simp: take_amount_def nil_def needy_def good_def)
  then have "\<not> 0 < take_amount full needed o'" by (simp add: nil_def)
  then show "take_from (take_amount full needed o') o' = o'" "taken (take_amount full needed o') o' = []"
    "still_needed needed (take_amount full needed o') = needed" by (simp_all add: take_from_def taken_def still_needed_def)
  show "\<not> (\<not> full \<and> needed \<le> 0)" using assms(2) by (auto simp: needy_def good_def)
qed

section \<open>One payment\<close>

text \<open>The loop of \<open>rights\<close> without its checks.\<close>

fun retired :: "i32 \<Rightarrow> bool \<Rightarrow> f64 \<Rightarrow> Origin list \<Rightarrow> Origin list \<times> Allocation list" where
  "retired day full needed [] = ([], [])"
| "retired day full needed (o' # os) =
     (if day < origin_end o' then (o' # os, [])
      else let a = take_amount full needed o'; n = still_needed needed a in
        if \<not> full \<and> n \<le> 0 then (take_from a o' # os, taken a o')
        else case retired day full n os of (os, as) \<Rightarrow> (take_from a o' # os, taken a o' @ as))"

lemma retire_free: "\<exists>k'. retire free day full k needed os = Ok (k', retired day full needed os)"
proof (induction os arbitrary: k needed)
  case (Cons o' os)
  let ?n = "still_needed needed (take_amount full needed o')"
  obtain k' where "retire free day full (k + 1) ?n os = Ok (k', retired day full ?n os)" using Cons by blast
  then show ?case by (cases "retired day full ?n os") (auto simp: Let_def)
qed simp

lemma retired_length [simp]: "length (fst (retired day full needed os)) = length os"
  by (induction day full needed os rule: retired.induct) (auto simp: Let_def split: prod.splits)

lemma retired_prefix:
  assumes "\<forall>o' \<in> set pre. spent day o'" "needy full needed"
  shows "retired day full needed (pre @ os) = (pre @ fst (retired day full needed os), snd (retired day full needed os))"
  using assms(1)
proof (induction pre)
  case (Cons o' pre)
  then have s: "nil (origin_remaining o')" "\<not> day < origin_end o'" by (auto simp: spent_def)
  note t = take_spent [OF s(1) assms(2)]
  from Cons s t(1-3) show ?case using t(4) by (cases full) (simp_all add: Let_def split: prod.splits)
qed simp

text \<open>The cursor loop on the origins from the cursor on, when the visits it may need are reserved.\<close>

definition scanned :: "i32 \<Rightarrow> Fifo \<Rightarrow> Fifo \<Rightarrow> bool" where
  "scanned day st st' \<longleftrightarrow> cursor st \<le> cursor st' \<and> cursor st' \<le> length (fifo_origins st)
     \<and> length (fifo_origins st') = length (fifo_origins st) \<and> fifo_ranges st' = fifo_ranges st
     \<and> (\<forall>j < length (fifo_origins st). (cursor st \<le> j \<and> j < cursor st' \<longrightarrow> spent day (fifo_origins st' ! j))
          \<and> (j < cursor st \<or> cursor st' < j \<longrightarrow> fifo_origins st' ! j = fifo_origins st ! j)
          \<and> (live_origin (fifo_origins st ! j) \<longrightarrow> live_origin (fifo_origins st' ! j)))
     \<and> visits st' \<le> visits st + (cursor st' - cursor st) + 1
     \<and> length (fifo_allocations st') \<le> length (fifo_allocations st) + (visits st' - visits st) \<and> visits st \<le> visits st'"

definition scans_to :: "i32 \<Rightarrow> bool \<Rightarrow> f64 \<Rightarrow> Fifo \<Rightarrow> Fifo \<Rightarrow> bool" where
  "scans_to day full needed st st' \<longleftrightarrow> scanned day st st'
     \<and> fifo_origins st' = take (cursor st) (fifo_origins st) @ fst (retired day full needed (drop (cursor st) (fifo_origins st)))
     \<and> fifo_allocations st' = fifo_allocations st @ snd (retired day full needed (drop (cursor st) (fifo_origins st)))"

lemma taken_length: "length (taken a o') \<le> 1"
  by (simp add: taken_def)

text \<open>One visit that takes from the origin under the cursor.\<close>

definition visited :: "f64 \<Rightarrow> nat \<Rightarrow> Fifo \<Rightarrow> Fifo" where
  "visited a k st = (let o' = fifo_origins st ! cursor st;
     st = st \<lparr> fifo_checks := k, visits := visits st + 1, fifo_origins := (fifo_origins st)[cursor st := take_from a o'],
            fifo_allocations := fifo_allocations st @ taken a o' \<rparr>
     in if feq (origin_remaining (take_from a o')) 0 then st \<lparr> cursor := cursor st + 1 \<rparr> else st)"

lemma visited_fields:
  assumes "o' = fifo_origins st ! cursor st"
  shows "fifo_origins (visited a k st) = (fifo_origins st)[cursor st := take_from a o']"
    "fifo_allocations (visited a k st) = fifo_allocations st @ taken a o'" "visits (visited a k st) = visits st + 1"
    "cursor (visited a k st) = (if nil (origin_remaining (take_from a o')) then cursor st + 1 else cursor st)"
    "fifo_ranges (visited a k st) = fifo_ranges st"
  using assms by (simp_all add: visited_def Let_def feq_nil)

lemma fifo_scan_visit:
  assumes "cursor st < length (fifo_origins st)" "o' = fifo_origins st ! cursor st" "\<not> day < origin_end o'"
    and "visits st + 1 \<le> visit_bound plan" "visit_bound plan \<le> usize_max" "length (fifo_allocations st) < allocation_bound plan"
    and "a = take_amount full needed o'"
  shows "fifo_scan free plan day full needed st =
    (if \<not> full \<and> still_needed needed a \<le> 0 then Ok (visited a (fifo_checks st + 1) st)
     else fifo_scan free plan day full (still_needed needed a) (visited a (fifo_checks st + 1) st))"
proof -
  have n: "\<not> length (fifo_origins st) \<le> cursor st" "\<not> visit_bound plan < visits st + 1"
    "\<not> (0 < a \<and> length (fifo_allocations st) = allocation_bound plan)" using assms by auto
  have v: "fifo_add (visits st) 1 = Ok (visits st + 1)" using assms(4,5) by simp
  have r: "fifo_origins (st\<lparr>fifo_checks := k, visits := w\<rparr>) = fifo_origins st" "cursor (st\<lparr>fifo_checks := k, visits := w\<rparr>) = cursor st"
    "fifo_allocations (st\<lparr>fifo_checks := k, visits := w\<rparr>) = fifo_allocations st"
    "cursor (st\<lparr>fifo_checks := k, visits := w, fifo_origins := os, fifo_allocations := as\<rparr>) = cursor st" for k w os as by simp_all
  let ?st = "st\<lparr>fifo_checks := fifo_checks st + 1, visits := visits st + 1, fifo_origins := (fifo_origins st)[cursor st := take_from a o'],
    fifo_allocations := fifo_allocations st @ taken a o'\<rparr>"
  let ?u = "if feq (origin_remaining (take_from a o')) 0 then ?st\<lparr>cursor := cursor st + 1\<rparr> else ?st"
  have "fifo_scan free plan day full needed st = (if \<not> full \<and> still_needed needed a \<le> 0 then Ok ?u
      else fifo_scan free plan day full (still_needed needed a) ?u)"
    by (subst fifo_scan.simps)
      (simp only: n v check_free and_then.simps if_False Let_def assms(2) [symmetric] assms(3) assms(7) [symmetric] r)
  moreover have "visited a (fifo_checks st + 1) st = ?u" unfolding visited_def Let_def assms(2) by simp
  ultimately show ?thesis by simp
qed

lemma visited_scanned:
  assumes c: "cursor st < length (fifo_origins st)" and o': "o' = fifo_origins st ! cursor st"
    and e: "\<not> day < origin_end o'" and l: "live_origin o' \<Longrightarrow> live_origin (take_from a o')"
  shows "scanned day st (visited a k st)"
proof -
  have "origin_end (take_from a o') = origin_end o'" by (simp add: take_from_def)
  then show ?thesis
    using c e l taken_length [of a o'] unfolding scanned_def visited_fields [OF o']
    by (auto simp: nth_list_update spent_def o' not_less less_Suc_eq)
qed

lemma scanned_trans:
  assumes "scanned day st st1" "scanned day st1 st2" "visits st1 = visits st + (cursor st1 - cursor st)"
  shows "scanned day st st2"
proof -
  have "spent day (fifo_origins st2 ! j)" if "j < length (fifo_origins st)" "cursor st \<le> j" "j < cursor st2" for j
    using assms(1,2) that unfolding scanned_def by (cases "j < cursor st1") (metis, metis not_less)
  moreover have "fifo_origins st2 ! j = fifo_origins st ! j" if "j < length (fifo_origins st)" "j < cursor st \<or> cursor st2 < j" for j
    using assms(1,2) that unfolding scanned_def by (metis le_less_trans less_le_trans)
  ultimately show ?thesis using assms unfolding scanned_def by auto
qed

lemma fifo_scan_ok:
  assumes "cursor st \<le> length (fifo_origins st)" "\<forall>j < length (fifo_origins st). live_origin (fifo_origins st ! j)" "needy full needed"
    and "visits st + (length (fifo_origins st) - cursor st) \<le> visit_bound plan" "visit_bound plan \<le> usize_max"
    and "allocation_bound plan = visit_bound plan" "length (fifo_allocations st) \<le> visits st"
  shows "\<exists>st'. fifo_scan free plan day full needed st = Ok st' \<and> scans_to day full needed st st'"
  using assms
proof (induction "length (fifo_origins st) - cursor st" arbitrary: st needed)
  case 0
  then have "cursor st = length (fifo_origins st)" by simp
  then show ?case by (subst fifo_scan.simps) (simp add: scans_to_def scanned_def)
next
  case (Suc n)
  define o' where "o' = fifo_origins st ! cursor st"
  have c: "cursor st < length (fifo_origins st)" using Suc.hyps(2) by linarith
  then have dr: "drop (cursor st) (fifo_origins st) = o' # drop (Suc (cursor st)) (fifo_origins st)"
    by (simp add: o'_def Cons_nth_drop_Suc)
  have v: "visits st + 1 \<le> visit_bound plan" "length (fifo_allocations st) < allocation_bound plan" using c Suc.prems by auto
  have lv: "live_origin o'" using Suc.prems(2) c by (simp add: o'_def)
  show ?case
  proof (cases "day < origin_end o'")
    case True
    have "fifo_scan free plan day full needed st = Ok (st\<lparr>fifo_checks := fifo_checks st + 1, visits := visits st + 1\<rparr>)"
      using True c v Suc.prems(5) by (subst fifo_scan.simps) (simp add: Let_def o'_def)
    moreover have "scans_to day full needed st (st\<lparr>fifo_checks := fifo_checks st + 1, visits := visits st + 1\<rparr>)"
      using c True by (auto simp: scans_to_def scanned_def dr) (simp add: o'_def id_take_nth_drop [symmetric])
    ultimately show ?thesis by blast
  next
    case False
    define a where "a = take_amount full needed o'"
    define k where "k = fifo_checks st + 1"
    let ?n = "still_needed needed a" and ?u = "visited a k st"
    note step = fifo_scan_visit [OF c o'_def False v(1) Suc.prems(5) v(2) a_def, folded k_def]
    note f = visited_fields [OF o'_def, of a k]
    have sc: "scanned day st ?u" using take_live [OF lv Suc.prems(3)] by (intro visited_scanned [OF c o'_def False]) (simp add: a_def)
    have tk: "take (cursor st) ((fifo_origins st)[cursor st := take_from a o']) = take (cursor st) (fifo_origins st)" by simp
    show ?thesis
    proof (cases "\<not> full \<and> ?n \<le> 0")
      case True
      have r: "retired day full needed (o' # drop (Suc (cursor st)) (fifo_origins st))
          = (take_from a o' # drop (Suc (cursor st)) (fifo_origins st), taken a o')"
        by (simp only: retired.simps Let_def a_def [symmetric] if_not_P [OF False] if_P [OF True])
      have "scans_to day full needed st ?u"
        using sc c unfolding scans_to_def dr r f by (simp add: upd_conv_take_nth_drop)
      then show ?thesis unfolding step if_P [OF True] by blast
    next
      case go: False
      note g = take_goes_on [OF lv Suc.prems(3) a_def go]
      have cu: "cursor ?u = cursor st + 1" using f(4) g(1) by simp
      have "\<exists>st'. fifo_scan free plan day full ?n ?u = Ok st' \<and> scans_to day full ?n ?u st'"
      proof (rule Suc.hyps(1))
        show "n = length (fifo_origins ?u) - cursor ?u" using Suc.hyps(2) cu f(1) by simp
        show "cursor ?u \<le> length (fifo_origins ?u)" using c cu f(1) by simp
        show "\<forall>j < length (fifo_origins ?u). live_origin (fifo_origins ?u ! j)"
          using sc Suc.prems(2) by (simp add: scanned_def)
        show "needy full ?n" by (rule g(2))
        show "visits ?u + (length (fifo_origins ?u) - cursor ?u) \<le> visit_bound plan" using Suc.prems(4) c cu f(1,3) by simp
        show "length (fifo_allocations ?u) \<le> visits ?u" using Suc.prems(7) taken_length [of a o'] f(2,3) by simp
      qed (rule Suc.prems)+
      then obtain st' where st': "fifo_scan free plan day full ?n ?u = Ok st'" "scans_to day full ?n ?u st'" by blast
      have dd: "drop (cursor ?u) (fifo_origins ?u) = drop (Suc (cursor st)) (fifo_origins st)" using cu f(1) by simp
      have tt: "take (cursor ?u) (fifo_origins ?u) = take (cursor st) (fifo_origins st) @ [take_from a o']"
        using cu f(1) c by (simp add: take_Suc_conv_app_nth)
      obtain os as where r: "retired day full ?n (drop (Suc (cursor st)) (fifo_origins st)) = (os, as)" by fastforce
      have "retired day full needed (o' # drop (Suc (cursor st)) (fifo_origins st)) = (take_from a o' # os, taken a o' @ as)"
        by (simp only: retired.simps Let_def a_def [symmetric] if_not_P [OF False] if_not_P [OF go] r prod.case)
      moreover have "scanned day st st'" using sc st'(2) f(3) cu by (auto simp: scans_to_def intro: scanned_trans)
      ultimately have "scans_to day full needed st st'"
        using st'(2) unfolding scans_to_def dd tt r dr by (simp add: f(2))
      then show ?thesis unfolding step if_not_P [OF go] st'(1) by blast
    qed
  qed
qed

section \<open>The payments in order\<close>

text \<open>
  The arena and the list of rights after the same payments, the last of them dated \<open>day\<close>; the origins
  after the cursor are those of the start.
\<close>

definition paired :: "Origin list \<Rightarrow> i32 \<Rightarrow> nat \<Rightarrow> Fifo \<Rightarrow> Origin list \<Rightarrow> Settlement list \<Rightarrow> bool" where
  "paired os0 day q st os ss \<longleftrightarrow> fifo_origins st = os \<and> length os = length os0 \<and> cursor st \<le> length os
     \<and> (\<forall>j < length os. live_origin (os ! j) \<and> (j < cursor st \<longrightarrow> spent day (os ! j)) \<and> (cursor st < j \<longrightarrow> os ! j = os0 ! j))
     \<and> visits st \<le> cursor st + q \<and> length (fifo_allocations st) \<le> visits st \<and> length (fifo_ranges st) = length ss
     \<and> (\<forall>j < length ss. expand_range (fifo_allocations st) (fifo_ranges st ! j) = Ok (ss ! j))"

lemma expand_range_more: "expand_range as x = Ok y \<Longrightarrow> expand_range (as @ bs) x = Ok y"
  by (auto simp: expand_range_def slice_of_def split: if_splits)

definition payment_good :: "DepositCashEvent \<Rightarrow> bool" where
  "payment_good c \<longleftrightarrow> good (- dep_cash_interest c) \<and> \<not> nil (dep_cash_interest c)"

lemma payment_needy: "payment_good c \<Longrightarrow> needy (is_full c) (- dep_cash_interest c)"
  by (auto simp: payment_good_def needy_def good_def nil_def)

definition room :: "FifoPlan \<Rightarrow> nat \<Rightarrow> bool" where
  "room plan n \<longleftrightarrow> n \<le> visit_bound plan \<and> allocation_bound plan = visit_bound plan \<and> visit_bound plan \<le> usize_max"

lemma payment_paired:
  assumes p: "paired os0 day q st os ss" and c: "payment_good c" "day \<le> dep_cash_ordinal c" and r: "room plan (length os0 + q)"
  shows "(\<exists>e. fifo_cash free plan st (i, c) = Err e \<and> settle_cash_right free (k, os, ss) (i, c) = Err e)
    \<or> (\<exists>st' k' os' ss'. fifo_cash free plan st (i, c) = Ok st' \<and> settle_cash_right free (k, os, ss) (i, c) = Ok (k', os', ss')
         \<and> paired os0 (dep_cash_ordinal c) (Suc q) st' os' ss'
         \<and> map range_event_id (fifo_ranges st') = map range_event_id (fifo_ranges st) @ [dep_event_id c])"
proof -
  let ?a = "- dep_cash_interest c" and ?d = "dep_cash_ordinal c" and ?st = "st\<lparr>fifo_checks := fifo_checks st + 1\<rparr>"
  note n = payment_needy [OF c(1)]
  have os: "fifo_origins st = os" "cursor st \<le> length os" "length os = length os0" using p by (simp_all add: paired_def)
  have "\<exists>u. fifo_scan free plan ?d (is_full c) ?a ?st = Ok u \<and> scans_to ?d (is_full c) ?a ?st u"
    by (rule fifo_scan_ok) (use p n r in \<open>auto simp: paired_def room_def\<close>)
  then obtain u where u: "fifo_scan free plan ?d (is_full c) ?a ?st = Ok u" "scans_to ?d (is_full c) ?a ?st u" by blast
  have sp: "spent ?d (os ! j)" if "j < cursor st" for j
  proof -
    have "j < length os" using that os(2) by simp
    then have "spent day (os ! j)" using p that unfolding paired_def by blast
    then show ?thesis using c(2) by (auto simp: spent_def)
  qed
  have pre: "\<forall>o' \<in> set (take (cursor st) os). spent ?d o'" using sp by (auto simp: in_set_conv_nth)
  let ?r = "retired ?d (is_full c) ?a os"
  have rt: "?r = (take (cursor st) os @ fst (retired ?d (is_full c) ?a (drop (cursor st) os)), snd (retired ?d (is_full c) ?a (drop (cursor st) os)))"
    using retired_prefix [OF pre n, of "drop (cursor st) os"] by simp
  have uo: "fifo_origins u = fst ?r" "fifo_allocations u = fifo_allocations st @ snd ?r"
    using u(2) unfolding rt by (simp_all add: scans_to_def os)
  obtain k' where k': "retire free ?d (is_full c) (k + 1) ?a os = Ok (k', ?r)" using retire_free by blast
  let ?as = "fsum (map allocated_amount (snd ?r))"
  let ?range = "\<lparr>range_cash_index = i, range_event_id = dep_event_id c, range_ordinal = ?d, range_full = is_full c,
    range_interest = dep_cash_interest c, allocation_start = length (fifo_allocations st),
    allocation_end = length (fifo_allocations u), range_roundoff = ?as - ?a\<rparr>"
  let ?sett = "\<lparr>native_cash_index = i, native_event_id = dep_event_id c, settled_ordinal = ?d, full_retirement = is_full c,
    actual_interest = dep_cash_interest c, settled_allocations = snd ?r, roundoff_right = ?as - ?a\<rparr>"
  have F: "fifo_cash free plan st (i, c) = require (rights_near ?as ?a) ''cash cannot retire current eligible earned origins''
      (Ok (u\<lparr>fifo_ranges := fifo_ranges u @ [?range]\<rparr>))"
    using u(1) uo(2) by (simp add: fifo_cash_def Let_def)
  have S: "settle_cash_right free (k, os, ss) (i, c) = require (rights_near ?as ?a) ''cash cannot retire current eligible earned origins''
      (Ok (k', fst ?r, ss @ [?sett]))"
    using k' by (cases ?r) (simp add: settle_cash_right_def Let_def)
  show ?thesis
  proof (cases "rights_near ?as ?a")
    case False
    then show ?thesis unfolding F S by (simp add: require_def)
  next
    case True
    have sc: "scanned ?d ?st u" using u(2) by (simp add: scans_to_def)
    then have rg: "fifo_ranges u = fifo_ranges st" by (simp add: scanned_def)
    have "expand_range (fifo_allocations u) ?range = Ok ?sett"
      by (simp add: expand_range_def slice_of_def uo(2))
    moreover have "expand_range (fifo_allocations u) (fifo_ranges st ! j) = Ok (ss ! j)" if "j < length ss" for j
      using p that expand_range_more unfolding uo(2) by (auto simp: paired_def)
    ultimately have "\<forall>j < length (ss @ [?sett]). expand_range (fifo_allocations u) ((fifo_ranges u @ [?range]) ! j) = Ok ((ss @ [?sett]) ! j)"
      using p by (auto simp: rg paired_def nth_append less_Suc_eq)
    moreover have "spent ?d (fst ?r ! j)" if "j < length os" "j < cursor u" for j
    proof (cases "j < cursor st")
      case True
      then have "fst ?r ! j = os ! j" using rt os(2) by (simp add: nth_append)
      then show ?thesis using sp [OF True] by simp
    next
      case False
      then show ?thesis using sc that os uo(1) by (simp add: scanned_def)
    qed
    moreover have "live_origin (fst ?r ! j)" if "j < length os" for j using sc p that os uo(1) by (simp add: scanned_def paired_def)
    moreover have "fst ?r ! j = os0 ! j" if "j < length os" "cursor u < j" for j
    proof -
      have "cursor st \<le> cursor u" using sc by (simp add: scanned_def)
      then show ?thesis using sc p that os uo(1) by (simp add: scanned_def paired_def)
    qed
    moreover have "visits u \<le> cursor u + Suc q" "length (fifo_allocations u) \<le> visits u" "cursor u \<le> length os"
      using sc p os by (auto simp: scanned_def paired_def)
    ultimately have "paired os0 ?d (Suc q) (u\<lparr>fifo_ranges := fifo_ranges u @ [?range]\<rparr>) (fst ?r) (ss @ [?sett])"
      using p os uo(1) rg by (simp add: paired_def)
    then show ?thesis using True rg unfolding F S by (auto simp: require_def)
  qed
qed

lemma payments_paired:
  assumes "paired os0 day q st os ss" "\<forall>x \<in> set cs. payment_good (snd x)" "sorted (map (\<lambda>y. dep_cash_ordinal (snd y)) cs)"
    and "\<forall>x \<in> set cs. day \<le> dep_cash_ordinal (snd x)" "room plan (length os0 + q + length cs)"
  shows "(\<exists>e. fold_res (fifo_cash free plan) st cs = Err e \<and> fold_res (settle_cash_right free) (k, os, ss) cs = Err e)
    \<or> (\<exists>st' k' os' ss' day'. fold_res (fifo_cash free plan) st cs = Ok st' \<and> fold_res (settle_cash_right free) (k, os, ss) cs = Ok (k', os', ss')
         \<and> paired os0 day' (q + length cs) st' os' ss'
         \<and> map range_event_id (fifo_ranges st') = map range_event_id (fifo_ranges st) @ map (\<lambda>y. dep_event_id (snd y)) cs)"
  using assms
proof (induction cs arbitrary: day q st os ss k)
  case Nil
  then show ?case by auto
next
  case (Cons x cs)
  obtain i c where x: "x = (i, c)" by (cases x)
  have c: "payment_good c" "day \<le> dep_cash_ordinal c" using Cons.prems(2,4) by (auto simp: x)
  have "room plan (length os0 + q)" using Cons.prems(5) by (simp add: room_def)
  from payment_paired [OF Cons.prems(1) c this, of i k]
  consider (bad) e where "fifo_cash free plan st x = Err e" "settle_cash_right free (k, os, ss) x = Err e"
    | (good) st' k' os' ss' where "fifo_cash free plan st x = Ok st'" "settle_cash_right free (k, os, ss) x = Ok (k', os', ss')"
        "paired os0 (dep_cash_ordinal c) (Suc q) st' os' ss'"
        "map range_event_id (fifo_ranges st') = map range_event_id (fifo_ranges st) @ [dep_event_id c]"
    unfolding x by blast
  then show ?case
  proof cases
    case bad
    then show ?thesis by simp
  next
    case good
    have "\<forall>y \<in> set cs. dep_cash_ordinal c \<le> dep_cash_ordinal (snd y)" "sorted (map (\<lambda>y. dep_cash_ordinal (snd y)) cs)"
      using Cons.prems(3) by (auto simp: x)
    moreover have "room plan (length os0 + Suc q + length cs)" using Cons.prems(5) by (simp add: room_def)
    moreover have "\<forall>y \<in> set cs. payment_good (snd y)" using Cons.prems(2) by simp
    ultimately have "(\<exists>e. fold_res (fifo_cash free plan) st' cs = Err e \<and> fold_res (settle_cash_right free) (k', os', ss') cs = Err e)
      \<or> (\<exists>st'' k'' os'' ss'' day'. fold_res (fifo_cash free plan) st' cs = Ok st'' \<and> fold_res (settle_cash_right free) (k', os', ss') cs = Ok (k'', os'', ss'')
         \<and> paired os0 day' (Suc q + length cs) st'' os'' ss''
         \<and> map range_event_id (fifo_ranges st'') = map range_event_id (fifo_ranges st') @ map (\<lambda>y. dep_event_id (snd y)) cs)"
      using Cons.IH [OF good(3)] by blast
    then show ?thesis using good(1,2,4) by (auto simp: x)
  qed
qed

section \<open>The reservations\<close>

lemma fifo_mul_Ok [simp]: "fifo_mul a b = Ok v \<longleftrightarrow> v = a * b \<and> a * b \<le> usize_max"
  by (auto simp: fifo_mul_def usize_checked_mul_def)

text \<open>
  A source the arena admits: what is earned is nonnegative, its periods nonempty and in order, what is
  paid is paid by the bank and in order. Every \<open>f64\<close> of the program is canonical (\<open>f64_ok\<close>).
\<close>

definition arena_source :: "DepositStateResult \<Rightarrow> bool" where
  "arena_source s \<longleftrightarrow> (\<forall>o' \<in> set (dep_interest s). good (interest_amount o') \<and> interest_start o' < interest_end o')
     \<and> sorted (map interest_end (dep_interest s))
     \<and> (\<forall>c \<in> set (dep_cashflows s). is_finite (dep_cash_interest c) \<and> f64_ok (dep_cash_interest c) \<and> val (dep_cash_interest c) \<le> 0)
     \<and> sorted (map dep_cash_ordinal (dep_cashflows s))"

text \<open>A platform that grants every reservation and reserves exactly what is asked for.\<close>

definition exact_host :: "Host \<Rightarrow> bool" where
  "exact_host h \<longleftrightarrow> (\<forall>v n. grants h v n \<and> capacity h v n = n) \<and> (\<forall>t. text_capacity h t = length t)"

definition identity_total :: "DepositStateResult \<Rightarrow> nat" where
  "identity_total s = (\<Sum>c \<leftarrow> dep_cashflows s. length (dep_event_id c))"

definition arena_plan :: "Host \<Rightarrow> DepositStateResult \<Rightarrow> (string, FifoPlan) result" where
  "arena_plan h s = fifo_plan h False (length (dep_interest s)) (length (dep_cashflows s)) (identity_total s)"

lemma plan_facts:
  assumes "fifo_plan h False i c b = Ok plan"
  shows "allocation_bound plan = i + c" "visit_bound plan = i + c" "work_reserved plan = (i + c) * 32 + b"
    "retained_reserved plan = size_of_rights h + ((i * size_of_origin h + c * size_of_range h) + ((i + c) * size_of_allocation h + b))"
    "retained_reserved plan \<le> usize_max" "(i + c) * 32 + b \<le> usize_max"
  using assms by (auto simp: fifo_plan_def cardinality_plan_def)

lemma count_origins:
  assumes "\<forall>o' \<in> set os. good (interest_amount o') \<and> interest_start o' < interest_end o'" "sorted (map interest_end os)"
    and "\<forall>p. prior = Some p \<longrightarrow> (\<forall>o' \<in> set os. p \<le> interest_end o')" "i + length os \<le> usize_max"
  shows "\<exists>k' prior'. fold_res (count_origin free) (k, i, prior) os = Ok (k', i + length os, prior')"
  using assms
proof (induction os arbitrary: k i prior)
  case (Cons o' os)
  have "count_origin free (k, i, prior) o' = Ok (k + 1, i + 1, Some (interest_end o'))"
    using Cons.prems by (cases prior) (auto simp: count_origin_def require_def good_def fifo_add_def usize_checked_add_def ok_or_def)
  moreover have "\<exists>k' prior'. fold_res (count_origin free) (k + 1, i + 1, Some (interest_end o')) os = Ok (k', i + 1 + length os, prior')"
    by (rule Cons.IH) (use Cons.prems in auto)
  ultimately show ?case by simp
qed simp

lemma count_cashes:
  assumes "\<forall>c \<in> set cs. is_finite (dep_cash_interest c) \<and> val (dep_cash_interest c) \<le> 0" "sorted (map dep_cash_ordinal cs)"
    and "\<forall>p. prior = Some p \<longrightarrow> (\<forall>c \<in> set cs. p \<le> dep_cash_ordinal c)" "n + length cs \<le> usize_max"
    and "b + (\<Sum>c \<leftarrow> cs. length (dep_event_id c)) \<le> usize_max"
  shows "\<exists>k' prior'. fold_res (count_cash free) (k, n, b, prior) cs = Ok (k', n + length cs, b + (\<Sum>c \<leftarrow> cs. length (dep_event_id c)), prior')"
  using assms
proof (induction cs arbitrary: k n b prior)
  case (Cons c cs)
  let ?b = "b + length (dep_event_id c)"
  have "count_cash free (k, n, b, prior) c = Ok (k + 1, n + 1, ?b, Some (dep_cash_ordinal c))"
    using Cons.prems by (cases prior) (auto simp: count_cash_def require_def fifo_add_def usize_checked_add_def ok_or_def)
  moreover have "\<exists>k' prior'. fold_res (count_cash free) (k + 1, n + 1, ?b, Some (dep_cash_ordinal c)) cs
      = Ok (k', n + 1 + length cs, ?b + (\<Sum>c \<leftarrow> cs. length (dep_event_id c)), prior')"
    by (rule Cons.IH) (use Cons.prems in auto)
  ultimately show ?case by (simp add: add.assoc)
qed simp

lemma push_origins: "fold_res (push_origin free) (k, os) xs = Ok (k + length xs, os @ map origin_of xs)"
  by (induction xs arbitrary: k os) (simp_all add: push_origin_def)

lemma count_texts:
  assumes "exact_host h" "n + (\<Sum>s \<leftarrow> rs. length (range_event_id s)) \<le> usize_max"
  shows "fold_res (\<lambda>n s. fifo_add n (text_capacity h (range_event_id s))) n rs = Ok (n + (\<Sum>s \<leftarrow> rs. length (range_event_id s)))"
  using assms(2)
proof (induction rs arbitrary: n)
  case (Cons r rs)
  then have "fifo_add n (text_capacity h (range_event_id r)) = Ok (n + length (range_event_id r))"
    using assms(1) by (simp add: exact_host_def)
  with Cons show ?case by (simp add: add.assoc)
qed simp

lemma cash_until_event: "x \<in> set (cash_until through s) \<Longrightarrow> snd x \<in> set (dep_cashflows s) \<and> \<not> nil (dep_cash_interest (snd x))"
  by (auto simp: cash_until_def feq_nil enumerate_eq_zip dest: set_zip_rightD)

lemma cash_until_events: "map snd (cash_until through s)
    = filter (\<lambda>c. dep_cash_ordinal c \<le> through \<and> \<not> feq (dep_cash_interest c) 0) (dep_cashflows s)"
proof -
  have "map snd (filter (\<lambda>(_, c). P c) xs) = filter P (map snd xs)" for P and xs :: "(nat \<times> DepositCashEvent) list"
    by (induction xs) auto
  then show ?thesis by (simp add: cash_until_def)
qed

lemma cash_until_texts: "(\<Sum>x \<leftarrow> cash_until through s. length (dep_event_id (snd x))) \<le> identity_total s"
proof -
  have "(\<Sum>x \<leftarrow> cash_until through s. length (dep_event_id (snd x))) = (\<Sum>c \<leftarrow> map snd (cash_until through s). length (dep_event_id c))"
    by (simp add: comp_def)
  then show ?thesis unfolding cash_until_events identity_total_def
    by (simp only: sum_list_filter_le_nat)
qed

lemma cash_until_sorted:
  assumes "sorted (map dep_cash_ordinal (dep_cashflows s))"
  shows "sorted (map (\<lambda>y. dep_cash_ordinal (snd y)) (cash_until through s))"
proof -
  have "map (\<lambda>y. dep_cash_ordinal (snd y)) (cash_until through s) = map dep_cash_ordinal (map snd (cash_until through s))" by simp
  then show ?thesis unfolding cash_until_events using assms by (simp only: sorted_filter)
qed

lemma cash_until_length: "length (cash_until through s) \<le> length (dep_cashflows s)"
  using length_filter_le [of _ "enumerate 0 (dep_cashflows s)"] by (simp add: cash_until_def)

lemma earned_until_length: "length (earned_until through s) \<le> length (dep_interest s)"
  using length_filter_le [of _ "enumerate 0 (dep_interest s)"] by (simp add: earned_until_def)

lemma retained_within:
  assumes h: "exact_host h" and p: "fifo_plan h False i c b = Ok plan" and t: "(\<Sum>s \<leftarrow> rs. length (range_event_id s)) \<le> b"
  shows "\<exists>n. count_retained h i c plan rs = Ok n \<and> n \<le> retained_reserved plan"
proof -
  note f = plan_facts [OF p]
  let ?t = "\<Sum>s \<leftarrow> rs. length (range_event_id s)"
  let ?n = "size_of_rights h + ((i * size_of_origin h + c * size_of_range h) + ((i + c) * size_of_allocation h + ?t))"
  have le: "?n \<le> retained_reserved plan" unfolding f(4) using t by simp
  then have m: "?n \<le> usize_max" using f(5) by linarith
  have e: "capacity h v n = n" for v n using h by (simp add: exact_host_def)
  have "fold_res (\<lambda>n s. fifo_add n (text_capacity h (range_event_id s))) 0 rs = Ok ?t"
    using count_texts [OF h, of 0 rs] m by simp
  then have "count_retained h i c plan rs = Ok ?n"
    using m unfolding count_retained_def e f(1) by (simp del: mult_Suc_right add_mult_distrib) 
  with le show ?thesis by blast
qed

section \<open>The arena computes the rights\<close>

lemma expand_ranges:
  assumes "list_all2 (\<lambda>r s. expand_range as r = Ok s) rs ss"
  shows "fold_res (\<lambda>ss s. and_then (expand_range as s) (\<lambda>s. Ok (ss @ [s]))) acc rs = Ok (acc @ ss)"
    "map range_roundoff rs = map roundoff_right ss"
  using assms by (induction rs ss arbitrary: acc rule: list_all2_induct) (auto simp: expand_range_def)

lemma expand_compact:
  assumes "paired os0 day q st os ss"
  shows "expand (compact plan retained work st) = Ok (rights_of os ss)"
proof -
  have "list_all2 (\<lambda>r s. expand_range (fifo_allocations st) r = Ok s) (fifo_ranges st) ss"
    using assms by (simp add: list_all2_conv_all_nth paired_def)
  note e = expand_ranges [OF this]
  have "fifo_origins st = os" using assms by (simp add: paired_def)
  then show ?thesis using e(1) [of "[]"] e(2) by (simp add: expand_def compact_def rights_of_def Let_def)
qed

definition opened_arena :: "nat \<Rightarrow> Origin list \<Rightarrow> Fifo" where
  "opened_arena k os = \<lparr> fifo_origins = os, cursor = 0, visits = 0, fifo_ranges = [], fifo_allocations = [], fifo_checks = k \<rparr>"

lemma arena_payments:
  fixes through :: i32
  assumes s: "arena_source s" and p: "arena_plan h s = Ok plan"
  defines "os0 \<equiv> map origin_of (earned_until through s)"
  shows "(\<exists>e. fold_res (fifo_cash free plan) (opened_arena k os0) (cash_until through s) = Err e
        \<and> fold_res (settle_cash_right free) (k', os0, []) (cash_until through s) = Err e)
    \<or> (\<exists>st os ss j day. fold_res (fifo_cash free plan) (opened_arena k os0) (cash_until through s) = Ok st
        \<and> fold_res (settle_cash_right free) (k', os0, []) (cash_until through s) = Ok (j, os, ss)
        \<and> paired os0 day (length (cash_until through s)) st os ss
        \<and> map range_event_id (fifo_ranges st) = map (\<lambda>y. dep_event_id (snd y)) (cash_until through s))"
proof -
  let ?cs = "cash_until through s"
  note f = plan_facts [OF p [unfolded arena_plan_def]]
  define day where "day = (case ?cs of [] \<Rightarrow> 0 | c # _ \<Rightarrow> dep_cash_ordinal (snd c))"
  have srt: "sorted (map (\<lambda>y. dep_cash_ordinal (snd y)) ?cs)" using s by (intro cash_until_sorted) (simp add: arena_source_def)
  then have d: "\<forall>x \<in> set ?cs. day \<le> dep_cash_ordinal (snd x)" by (cases ?cs) (auto simp: day_def)
  have l: "live_origin o'" if "o' \<in> set os0" for o'
  proof -
    from that obtain i x where x: "(i, x) \<in> set (enumerate 0 (dep_interest s))" "o' = origin_of (i, x)"
      by (auto simp: os0_def earned_until_def)
    then have "x \<in> set (dep_interest s)" by (auto simp: enumerate_eq_zip dest: set_zip_rightD)
    with s x(2) show ?thesis by (simp add: arena_source_def live_origin_def origin_of_def)
  qed
  have "paired os0 day 0 (opened_arena k os0) os0 []" using l by (simp add: paired_def opened_arena_def)
  moreover have "\<forall>x \<in> set ?cs. payment_good (snd x)"
    using s cash_until_event [of _ through s] by (auto simp: arena_source_def payment_good_def good_def)
  moreover have "room plan (length os0 + 0 + length ?cs)"
    using f earned_until_length [of through s] cash_until_length [of through s] by (simp add: room_def os0_def)
  ultimately show ?thesis using payments_paired [OF _ _ srt d, of os0 0 "opened_arena k os0" os0 "[]" plan k']
    by (auto simp: opened_arena_def)
qed

text \<open>What remains of the arena once the source is counted: it fails exactly when a payment fails.\<close>

lemma arena_runs:
  assumes s: "arena_source s" and h: "exact_host h" and p: "arena_plan h s = Ok plan"
  shows "(\<exists>e. allocate_without_output_count free h k s through = Err e \<and> rights free k' s through = Err e)
    \<or> (\<exists>st os ss retained work day q. allocate_without_output_count free h k s through = Ok (compact plan retained work st)
        \<and> rights free k' s through = Ok (rights_of os ss)
        \<and> paired (map origin_of (earned_until through s)) day q st os ss)"
proof -
  let ?i = "length (dep_interest s)" and ?c = "length (dep_cashflows s)" and ?cs = "cash_until through s"
  let ?os = "map origin_of (earned_until through s)"
  note p' = p [unfolded arena_plan_def]
  note f = plan_facts [OF p']
  have m: "?i \<le> usize_max" "?c \<le> usize_max" "identity_total s \<le> usize_max" "?i + ?c \<le> usize_max" using f(6) by simp_all
  obtain k1 r1 where c1: "fold_res (count_origin free) (k + 1, 0, None) (dep_interest s) = Ok (k1, ?i, r1)"
    using count_origins [of "dep_interest s" None 0 "k + 1"] s m by (auto simp: arena_source_def)
  obtain k2 r2 where c2: "fold_res (count_cash free) (k1, 0, 0, None) (dep_cashflows s) = Ok (k2, ?c, identity_total s, r2)"
    using count_cashes [of "dep_cashflows s" None 0 0 k1] s m by (auto simp: arena_source_def identity_total_def)
  define k3 where "k3 = k2 + length (earned_until through s)"
  have g: "fifo_reserve h v n = Ok ()" for v n using h by (simp add: fifo_reserve_def exact_host_def)
  have run: "allocate_without_output_count free h k s through =
      and_then (fold_res (fifo_cash free plan) (opened_arena k3 ?os) ?cs) (\<lambda>st.
      and_then (count_retained h ?i ?c plan (fifo_ranges st)) (\<lambda>retained.
      and_then (fifo_add ?i ?c) (\<lambda>n. and_then (fifo_mul n 16) (\<lambda>n.
      and_then (fifo_add (visits st) (length (fifo_allocations st))) (\<lambda>v. and_then (fifo_add n v) (\<lambda>work.
      require (\<not> (retained_reserved plan < retained \<or> work_reserved plan < work))
        ''FIFO actual capacity/work exceeded preflight'' (Ok (compact plan retained work st))))))))"
    using c1 c2 p' by (simp add: allocate_without_output_count_def allocate_mode_def g push_origins opened_arena_def k3_def Let_def)
  have rt: "rights free k' s through = and_then (fold_res (settle_cash_right free) (k', ?os, []) ?cs) (\<lambda>(k, os, ss). Ok (rights_of os ss))"
    by (simp add: rights_def)
  from arena_payments [OF s p, of k3 through k']
  consider (bad) e where "fold_res (fifo_cash free plan) (opened_arena k3 ?os) ?cs = Err e" "fold_res (settle_cash_right free) (k', ?os, []) ?cs = Err e"
    | (good) st os ss j day where "fold_res (fifo_cash free plan) (opened_arena k3 ?os) ?cs = Ok st"
      "fold_res (settle_cash_right free) (k', ?os, []) ?cs = Ok (j, os, ss)" "paired ?os day (length ?cs) st os ss"
      "map range_event_id (fifo_ranges st) = map (\<lambda>y. dep_event_id (snd y)) ?cs" by blast
  then show ?thesis
  proof cases
    case bad
    then show ?thesis unfolding run rt by simp
  next
    case good
    have "(\<Sum>r \<leftarrow> fifo_ranges st. length (range_event_id r)) = (\<Sum>e \<leftarrow> map range_event_id (fifo_ranges st). length e)" by (simp add: comp_def)
    also have "\<dots> \<le> identity_total s" unfolding good(4) using cash_until_texts [of through s] by (simp add: comp_def)
    finally obtain n where n: "count_retained h ?i ?c plan (fifo_ranges st) = Ok n" "n \<le> retained_reserved plan"
      using retained_within [OF h p'] by blast
    have "visits st \<le> ?i + ?c" "length (fifo_allocations st) \<le> ?i + ?c"
      using good(3) earned_until_length [of through s] cash_until_length [of through s] by (auto simp: paired_def)
    then have w: "(?i + ?c) * 16 + (visits st + length (fifo_allocations st)) \<le> work_reserved plan" unfolding f(3) by simp
    then have "(?i + ?c) * 16 + (visits st + length (fifo_allocations st)) \<le> usize_max" using f(3,6) by linarith
    then have "allocate_without_output_count free h k s through
        = Ok (compact plan n ((?i + ?c) * 16 + (visits st + length (fifo_allocations st))) st)"
      using good(1) n w m(4) unfolding run by (simp add: require_def del: add_mult_distrib)
    moreover have "rights free k' s through = Ok (rights_of os ss)" unfolding rt using good(2) by simp
    ultimately show ?thesis using good(3) by blast
  qed
qed

section \<open>The rights of any source\<close>

text \<open>
  The quadratic scan by itself, whatever the order of the source, the payments and the answers of the
  caller: only the signs of what is earned matter.
\<close>

lemma take_all:
  assumes "live_origin o'" "good a" "val a = val (origin_remaining o')"
  shows "live_origin (take_from a o') \<and> nil (origin_remaining (take_from a o'))"
proof (cases "0 < a")
  case True
  have g: "good (origin_remaining o')" "val a \<le> val (origin_remaining o')" using assms(1,3) by (simp_all add: live_origin_def)
  have "good (origin_remaining o' - a)" by (rule good_sub(1) [OF g(1) assms(2) g(2)])
  moreover have "nil (origin_remaining o' - a)" by (rule good_sub(2) [OF g(1) assms(2) g(2) assms(3) [symmetric]])
  moreover have "origin_remaining (take_from a o') = origin_remaining o' - a" using True by (simp add: take_from_def)
  ultimately show ?thesis by (simp only: live_origin_def)
next
  case False
  then have "val a = 0" using assms(2) by (auto simp: good_def)
  then show ?thesis using False assms by (auto simp: take_from_def nil_def live_origin_def good_def)
qed

lemma take_none: "take_amount full needed o' = a \<Longrightarrow> \<not> 0 < a \<Longrightarrow> take_from a o' = o' \<and> still_needed needed a = needed"
  by (simp add: take_from_def still_needed_def)

lemma good_zero_max: "good y \<Longrightarrow> good (fmax y 0) \<and> val (fmax y 0) = val y"
  using fmax_val [of y 0] by (auto simp: good_def)

text \<open>A needed amount that is not finite takes everything, or nothing and stops.\<close>

lemma take_any:
  assumes o': "live_origin o'" and n: "f64_ok needed" and a: "a = take_amount full needed o'"
  shows "live_origin (take_from a o')"
    "\<not> (\<not> full \<and> still_needed needed a \<le> 0) \<Longrightarrow> nil (origin_remaining (take_from a o'))"
proof -
  have g: "good (origin_remaining o')" using o' by (simp add: live_origin_def)
  let ?P = "live_origin (take_from a o') \<and> (\<not> (\<not> full \<and> still_needed needed a \<le> 0) \<longrightarrow> nil (origin_remaining (take_from a o')))"
  consider (needy) "needy full needed" | (low) "\<not> full" "is_finite needed" "val needed \<le> 0" | (nonfin) "\<not> full" "\<not> is_finite needed"
    using n by (cases full; cases "is_finite needed"; cases "0 < val needed") (simp_all add: needy_def good_def)
  then have ?P
  proof cases
    case needy
    then show ?thesis using take_live [OF o' needy] take_goes_on [OF o' needy a] by (auto simp: a)
  next
    case low
    have "is_finite a" "val a = 0"
      using low g fmin_val [of needed "origin_remaining o'"] fmax_val [of "fmin needed (origin_remaining o')" 0]
      by (auto simp: a take_amount_def good_def)
    then have "\<not> 0 < a" by simp
    from take_none [OF a [symmetric] this] show ?thesis using low o' by simp
  next
    case nonfin
    then consider "needed = NaN \<or> needed = Inf False" | "needed = Inf True" using nonfinite_cases by (metis (full_types))
    then show ?thesis
    proof cases
      case 1
      obtain t m e where r: "origin_remaining o' = Fin t m e" using g by (cases "origin_remaining o'") (auto simp: good_def)
      have "fmin needed (origin_remaining o') = origin_remaining o'" using 1 by (auto simp: fmin_def r less_f64_def)
      then have "good a \<and> val a = val (origin_remaining o')" using nonfin(1) good_zero_max [OF g] by (simp add: a take_amount_def)
      with take_all [OF o'] show ?thesis by blast
    next
      case 2
      obtain t m e where r: "origin_remaining o' = Fin t m e" using g by (cases "origin_remaining o'") (auto simp: good_def)
      have "a = 0" using nonfin(1) 2 by (simp add: a take_amount_def fmin_def fmax_def r less_f64_def zero_f64_def)
      then have "\<not> 0 < a" by simp
      moreover have "needed \<le> 0" using 2 by (simp add: less_eq_f64_def zero_f64_def)
      ultimately show ?thesis using take_none [OF a [symmetric]] nonfin(1) o' by simp
    qed
  qed
  then show "live_origin (take_from a o')"
    "\<not> (\<not> full \<and> still_needed needed a \<le> 0) \<Longrightarrow> nil (origin_remaining (take_from a o'))" by auto
qed

text \<open>The first \<open>c\<close> rights are exhausted, those after the next one are as they were.\<close>

definition front :: "Origin list \<Rightarrow> nat \<Rightarrow> Origin list \<Rightarrow> bool" where
  "front os0 c os \<longleftrightarrow> length os = length os0 \<and> c \<le> length os \<and> (\<forall>o' \<in> set os. live_origin o')
     \<and> (\<forall>o' \<in> set (take c os). nil (origin_remaining o')) \<and> drop (Suc c) os = drop (Suc c) os0"

lemma front_Cons:
  "front (x # xs) 0 (y # ys) \<longleftrightarrow> live_origin y \<and> ys = xs \<and> (\<forall>o' \<in> set ys. live_origin o')"
  "front (x # xs) (Suc c) (y # ys) \<longleftrightarrow> live_origin y \<and> nil (origin_remaining y) \<and> front xs c ys"
  by (auto simp: front_def)

lemma front_0: "\<forall>o' \<in> set xs. live_origin o' \<Longrightarrow> front xs 0 xs"
  by (simp add: front_def)

lemma nil_not_taken:
  assumes "nil (origin_remaining o')"
  shows "\<not> 0 < take_amount full needed o'"
proof (cases "full \<or> is_finite needed")
  case True
  then show ?thesis
    using assms fmin_val [of needed "origin_remaining o'"] fmax_val [of "fmin needed (origin_remaining o')" 0]
    by (auto simp: take_amount_def nil_def)
next
  case False
  obtain t m e where r: "origin_remaining o' = Fin t m e" using assms by (cases "origin_remaining o'") (auto simp: nil_def)
  have z: "\<not> 0 < fmax (origin_remaining o') 0" using assms fmax_val [of "origin_remaining o'" 0] by (simp add: nil_def)
  consider "needed = NaN \<or> needed = Inf False" | "needed = Inf True" using False nonfinite_cases by (metis (full_types))
  then show ?thesis
  proof cases
    case 1
    then have "fmin needed (origin_remaining o') = origin_remaining o'" by (auto simp: fmin_def r less_f64_def)
    then show ?thesis using z False by (simp add: take_amount_def)
  next
    case 2
    then have "take_amount full needed o' = 0" using False by (simp add: take_amount_def fmin_def fmax_def r less_f64_def zero_f64_def)
    then show ?thesis by simp
  qed
qed

lemma retire_front:
  assumes "retire chk day full k needed os = Ok (k', os', as)" "f64_ok needed" "front os0 c os"
  shows "\<exists>c'. front os0 c' os'"
  using assms
proof (induction os arbitrary: k needed os0 c k' os' as)
  case Nil
  then show ?case by auto
next
  case (Cons o' os)
  obtain x xs where os0: "os0 = x # xs" using Cons.prems(3) by (cases os0) (auto simp: front_def)
  define a where "a = take_amount full needed o'"
  let ?n = "still_needed needed a"
  have lv: "live_origin o'" using Cons.prems(3) by (simp add: front_def)
  note t = take_any [OF lv Cons.prems(2) a_def]
  from Cons.prems(1) obtain k1 where k1: "check_at chk k = Ok k1" by auto
  show ?case
  proof (cases "day < origin_end o'")
    case True
    then have "os' = o' # os" using Cons.prems(1) k1 by simp
    then show ?thesis using Cons.prems(3) by blast
  next
    case False
    show ?thesis
    proof (cases "\<not> full \<and> ?n \<le> 0")
      case True
      have r: "retire chk day full k needed (o' # os) = Ok (k1, take_from a o' # os, taken a o')"
        by (simp only: retire.simps k1 and_then.simps Let_def a_def [symmetric] if_not_P [OF False] if_P [OF True])
      have "os' = take_from a o' # os" using Cons.prems(1) unfolding r by simp
      moreover have "front os0 c (take_from a o' # os)"
      proof (cases c)
        case 0
        then show ?thesis using Cons.prems(3) t(1) by (simp add: os0 front_Cons)
      next
        case (Suc d)
        then have "nil (origin_remaining o')" using Cons.prems(3) by (simp add: os0 front_Cons)
        then have "take_from a o' = o'" using nil_not_taken by (simp add: take_from_def a_def)
        then show ?thesis using Cons.prems(3) by simp
      qed
      ultimately show ?thesis by blast
    next
      case go: False
      have e: "retire chk day full k needed (o' # os) = and_then (retire chk day full k1 ?n os) (\<lambda>(k, os, as).
          Ok (k, take_from a o' # os, taken a o' @ as))"
        by (simp only: retire.simps k1 and_then.simps Let_def a_def [symmetric] if_not_P [OF False] if_not_P [OF go])
      obtain k2 os2 as2 where r: "retire chk day full k1 ?n os = Ok (k2, os2, as2)" and os': "os' = take_from a o' # os2"
        using Cons.prems(1) unfolding e by auto
      have "f64_ok a" using lv Cons.prems(2) by (simp add: a_def take_amount_def live_origin_def good_def)
      then have "f64_ok ?n" using Cons.prems(2) by (simp add: still_needed_def)
      moreover have "\<exists>d. front xs d os"
      proof (cases c)
        case 0
        then show ?thesis using Cons.prems(3) by (auto simp: os0 front_Cons intro: front_0)
      next
        case (Suc d)
        then show ?thesis using Cons.prems(3) by (auto simp: os0 front_Cons)
      qed
      ultimately obtain d' where "front xs d' os2" using Cons.IH [OF r] by blast
      then have "front os0 (Suc d') os'" using t go by (simp add: os0 os' front_Cons)
      then show ?thesis by blast
    qed
  qed
qed

lemma rights_front:
  assumes r: "rights chk k s through = Ok x" and e: "\<forall>o' \<in> set (dep_interest s). good (interest_amount o')"
    and c: "\<forall>c \<in> set (dep_cashflows s). f64_ok (dep_cash_interest c)"
  shows "\<exists>c. front (map origin_of (earned_until through s)) c (rights_origins x)"
proof -
  let ?os = "map origin_of (earned_until through s)"
  obtain k' os ss where f: "fold_res (settle_cash_right chk) (k, ?os, []) (cash_until through s) = Ok (k', os, ss)"
    and x: "x = rights_of os ss" using r by (auto simp: rights_def)
  have "live_origin o'" if "o' \<in> set ?os" for o'
  proof -
    from that obtain i v where "(i, v) \<in> set (enumerate 0 (dep_interest s))" "o' = origin_of (i, v)"
      by (auto simp: earned_until_def)
    moreover from this have "v \<in> set (dep_interest s)" by (auto simp: enumerate_eq_zip dest: set_zip_rightD)
    ultimately show ?thesis using e by (simp add: live_origin_def origin_of_def)
  qed
  then have "front ?os 0 ?os" by (intro front_0) blast
  then have "\<exists>c. front ?os c (fst (snd (k, ?os, [] :: Settlement list)))" by auto
  then have "\<exists>c. front ?os c (fst (snd (k', os, ss)))"
  proof (rule fold_res_inv [OF f, where I = "\<lambda>y. \<exists>c. front ?os c (fst (snd y))"])
    fix y ic z
    assume i: "ic \<in> set (cash_until through s)" and y: "\<exists>c. front ?os c (fst (snd y))" and z: "settle_cash_right chk y ic = Ok z"
    obtain j us vs n p where yy: "y = (j, us, vs)" "ic = (n, p)" by (cases y, cases ic)
    from z obtain j1 j2 us' as where u: "retire chk (dep_cash_ordinal p) (is_full p) j1 (- dep_cash_interest p) us = Ok (j2, us', as)"
      and "fst (snd z) = us'" by (auto simp: yy settle_cash_right_def Let_def)
    moreover have "f64_ok (- dep_cash_interest p)" using c cash_until_event [OF i] by (simp add: yy)
    ultimately show "\<exists>c. front ?os c (fst (snd z))" using retire_front y by (auto simp: yy)
  qed
  then show ?thesis by (simp add: x rights_of_def Let_def)
qed

section \<open>A source with two rights and one payment\<close>

definition due_ten :: f64 where
  "due_ten = f64_of_int 10"

definition sample_rights_source :: DepositStateResult where
  "sample_rights_source = \<lparr> dep_result_schema = DEPOSIT_SCHEMA, dep_result_identity = dep_identity run_request,
     parameter_status = ''supplied_assumption'', segment_ids = [''term''], dep_points = [],
     dep_cashflows = [\<lparr> dep_event_id = ''w'', dep_cash_ordinal = 3, dep_cash_segment = ''term'', dep_cash_kind = ''withdrawal'',
       dep_cash_principal = 0, dep_cash_interest = - due_ten \<rparr>],
     dep_migrations = [],
     dep_interest = [\<lparr> interest_start = 1, interest_end = 2, interest_segment = ''term'', interest_amount = due_ten \<rparr>,
       \<lparr> interest_start = 2, interest_end = 3, interest_segment = ''term'', interest_amount = due_ten \<rparr>],
     total_external_inflows = 0, total_withdrawals = 0, total_closures = 0, total_maturities = 0, total_terminal_payout = 0,
     dep_closing_balance = 0, dep_closing_accrued = 0, total_interest_expense = 0, total_cash_interest = 0, franchise_value = None \<rparr>"

definition sample_host :: Host where
  "sample_host = \<lparr> size_of_rights = 200, size_of_origin = 40, size_of_range = 80, size_of_allocation = 16,
     grants = \<lambda>_ _. True, capacity = \<lambda>_ n. n, text_capacity = length, chunks = \<lambda>_. [] \<rparr>"

lemma due_ten_whole: "whole due_ten 10"
  unfolding due_ten_def by (rule whole_of_integer) simp_all

lemma neg_neg: "- (- x) = x" for x :: f64
  by (cases x) (simp_all add: uminus_f64_def)

lemma due_ten_val: "is_finite due_ten" "val due_ten = 10" "f64_ok due_ten" "- (- due_ten) = due_ten"
  using due_ten_whole by (simp_all add: whole_def neg_neg) (simp add: due_ten_def)

lemma sample_rights_fields [simp]:
  "dep_cashflows sample_rights_source = [\<lparr> dep_event_id = ''w'', dep_cash_ordinal = 3, dep_cash_segment = ''term'',
     dep_cash_kind = ''withdrawal'', dep_cash_principal = 0, dep_cash_interest = - due_ten \<rparr>]"
  "dep_interest sample_rights_source = [\<lparr> interest_start = 1, interest_end = 2, interest_segment = ''term'', interest_amount = due_ten \<rparr>,
     \<lparr> interest_start = 2, interest_end = 3, interest_segment = ''term'', interest_amount = due_ten \<rparr>]"
  by (simp_all add: sample_rights_source_def)

lemma sample_rights_admitted: "arena_source sample_rights_source" "exact_host sample_host"
  "\<exists>plan. arena_plan sample_host sample_rights_source = Ok plan"
proof -
  show "arena_source sample_rights_source" by (simp add: arena_source_def good_def due_ten_val)
  show "exact_host sample_host" by (simp add: exact_host_def sample_host_def)
  show "\<exists>plan. arena_plan sample_host sample_rights_source = Ok plan"
    by (simp add: arena_plan_def fifo_plan_def cardinality_plan_def sample_host_def identity_total_def
        usize_max_def FIFO_MAX_WORK_def FIFO_MAX_BYTES_def)
qed

lemma sample_rights: "\<exists>x. rights free 0 sample_rights_source 3 = Ok x \<and> length (rights_origins x) = 2"
proof -
  have e: "earned_until 3 sample_rights_source = enumerate 0 (dep_interest sample_rights_source)" by (simp add: earned_until_def)
  have nt: "\<not> nil (- due_ten)" by (simp add: nil_def due_ten_val)
  then have c: "cash_until 3 sample_rights_source = enumerate 0 (dep_cashflows sample_rights_source)"
    by (simp add: cash_until_def feq_nil)
  have a: "take_amount False due_ten o' = due_ten" if "origin_remaining o' = due_ten" for o'
    using that due_ten_val by (simp add: take_amount_def fmin_def fmax_def) auto
  have z: "nil (due_ten - due_ten)" using good_sub(2) [of due_ten due_ten] due_ten_val by (simp add: good_def)
  then have n: "still_needed due_ten due_ten \<le> 0" using due_ten_val by (simp add: still_needed_def nil_def)
  have w: "whole (fsum [due_ten]) 10" by (rule whole_sum [OF due_ten_whole])
  have "whole (fsum [due_ten] - due_ten) (10 - 10)" by (rule whole_sub [OF w due_ten_whole]) simp
  then have "nil (fsum [due_ten] - due_ten)" by (simp add: whole_def nil_def)
  then have d: "is_finite (fabs (fsum [due_ten] - due_ten))" "val (fabs (fsum [due_ten] - due_ten)) = 0" using nil_abs unfolding nil_def by auto
  have nr: "rights_near (fsum [due_ten]) due_ten"
  proof -
    have "rounds_to (f64_lit 1 (10 ^ 9)) (1 / 10 ^ 9)" using lit_rounds [of "10 ^ 9" 1] by simp
    moreover have "\<bar>(1 :: real) / 10 ^ 9\<bar> \<le> 2 ^ 53" by simp
    ultimately have t: "is_finite (f64_lit 1 (10 ^ 9))" "0 \<le> val (f64_lit 1 (10 ^ 9))"
      using rounds_to_bound [OF _ _ small_bound] rne.rd_nonneg [of "1 / 10 ^ 9"] by fastforce+
    then have "fabs (fsum [due_ten] - due_ten) \<le> f64_lit 1 (10 ^ 9)" using d by simp
    moreover have "f64_lit 1 (10 ^ 9) \<le> fmax (f64_lit 1 (10 ^ 9)) y" for y using t by (intro fmax_ge(1)) auto
    ultimately show ?thesis unfolding rights_near_def by (rule f64_le_trans)
  qed
  show ?thesis
    using a n nr due_ten_val
    by (simp add: rights_def e c settle_cash_right_def is_full_def origin_of_def Let_def taken_def
        require_def rights_of_def)
qed

section \<open>Properties\<close>

text \<open>
  C32. The counted arena and the plain list of rights agree: on a source the arena admits and counts, with
  an allocator that grants what is asked for, expanding the arena's compact result gives exactly the
  rights the quadratic scan computes, bit for bit, and where one refuses a payment the other refuses it
  with the same error. No reservation of visits, allocations, bytes or work is ever exceeded.
\<close>

theorem arena_computes_rights:
  assumes "arena_source s" and "exact_host h" and "arena_plan h s = Ok plan"
  shows "and_then (allocate_without_output_count free h k s through) expand = rights free k' s through"
  using arena_runs [OF assms, of k through k'] expand_compact by fastforce

theorem arena_computes_rights_witness:
  "\<exists>x. rights free 0 sample_rights_source 3 = Ok x \<and> length (rights_origins x) = 2
     \<and> and_then (allocate_without_output_count free sample_host 0 sample_rights_source 3) expand = Ok x"
proof -
  obtain plan where "arena_plan sample_host sample_rights_source = Ok plan" using sample_rights_admitted(3) by blast
  from arena_computes_rights [OF sample_rights_admitted(1,2) this, of 0 3 0] sample_rights show ?thesis by auto
qed

text \<open>
  C33. When no amount earned is negative, rights are retired in the order in which the source lists what
  was earned: there is a position before which every right is exhausted and after which every right is
  untouched, so that at most one right is partly retired, and no right is ever overdrawn. The
  source may list payments of any sign, finite or not, in any order; every \<open>f64\<close> of it is canonical. A
  negative earned amount would be passed over while later rights are retired.
\<close>

theorem oldest_rights_first:
  assumes "rights chk k s through = Ok x"
    and "\<forall>o' \<in> set (dep_interest s). is_finite (interest_amount o') \<and> f64_ok (interest_amount o') \<and> 0 \<le> interest_amount o'"
    and "\<forall>c \<in> set (dep_cashflows s). f64_ok (dep_cash_interest c)"
  shows "(\<forall>o' \<in> set (rights_origins x). 0 \<le> origin_remaining o')
    \<and> (\<exists>c \<le> length (rights_origins x).
      (\<forall>j < c. feq (origin_remaining (rights_origins x ! j)) 0)
      \<and> (\<forall>j < length (rights_origins x). c < j \<longrightarrow> rights_origins x ! j = origin_of (earned_until through s ! j)))"
proof -
  let ?os = "rights_origins x" and ?start = "map origin_of (earned_until through s)"
  have "\<forall>o' \<in> set (dep_interest s). good (interest_amount o')" using assms(2) by (auto simp: good_def)
  from rights_front [OF assms(1) this assms(3)] obtain c where f: "front ?start c ?os" by blast
  have "feq (origin_remaining (?os ! j)) 0" if "j < c" for j
  proof -
    have "?os ! j \<in> set (take c ?os)" using f that by (auto simp: front_def in_set_conv_nth intro!: exI [of _ j])
    then show ?thesis using f by (simp add: front_def feq_nil)
  qed
  moreover have "?os ! j = origin_of (earned_until through s ! j)" if "j < length ?os" "c < j" for j
  proof -
    have "drop (Suc c) ?os ! (j - Suc c) = drop (Suc c) ?start ! (j - Suc c)" using f by (simp add: front_def)
    then show ?thesis using f that by (simp add: front_def)
  qed
  moreover have "\<forall>o' \<in> set ?os. 0 \<le> origin_remaining o'" using f by (auto simp: front_def live_origin_def good_def)
  moreover have "c \<le> length ?os" using f by (simp add: front_def)
  ultimately show ?thesis by blast
qed

theorem oldest_rights_first_witness:
  "\<exists>x c. rights free 0 sample_rights_source 3 = Ok x \<and> c \<le> length (rights_origins x) \<and> length (rights_origins x) = 2
     \<and> (\<forall>o' \<in> set (rights_origins x). 0 \<le> origin_remaining o')
     \<and> (\<forall>j < c. feq (origin_remaining (rights_origins x ! j)) 0)"
proof -
  obtain x where x: "rights free 0 sample_rights_source 3 = Ok x" "length (rights_origins x) = 2" using sample_rights by blast
  have "\<forall>o' \<in> set (dep_interest sample_rights_source). is_finite (interest_amount o') \<and> f64_ok (interest_amount o') \<and> 0 \<le> interest_amount o'"
    "\<forall>c \<in> set (dep_cashflows sample_rights_source). f64_ok (dep_cash_interest c)"
    using due_ten_val by auto
  from oldest_rights_first [OF x(1) this] x show ?thesis by blast
qed

end
