(* ===== verification/Deposit_Feed.thy ===== *)
theory Deposit_Feed
  imports Deposit_Fifo
begin

text \<open>
  From the deposit replay to the arena of its rights: a replay earns interest day by day in order and
  reports its cash in order, so that the arena admits it whenever its amounts have the right sign.
\<close>

section \<open>What a replay earns\<close>

definition rows_until :: "i32 \<Rightarrow> Deposits \<Rightarrow> bool" where
  "rows_until day st \<longleftrightarrow> sorted (map interest_end (interest_rows st))
     \<and> (\<forall>x \<in> set (interest_rows st). interest_start x < interest_end x \<and> interest_end x \<le> day)"

lemma rows_later: "rows_until day st \<Longrightarrow> day \<le> day' \<Longrightarrow> rows_until day' st"
  by (fastforce simp: rows_until_def)

lemma rows_cong: "interest_rows st' = interest_rows st \<Longrightarrow> rows_until day st' = rows_until day st"
  by (simp add: rows_until_def)

lemma dep_cash_rows: "dep_cash day seg kind p i st = Ok st' \<Longrightarrow> interest_rows st' = interest_rows st"
  by (auto simp: dep_cash_def split: if_splits)

lemma emit_rows [simp]: "interest_rows (emit day s kind b a e w c cs st) = interest_rows st"
  by (simp add: emit_def split: option.splits)

lemma mature_rows: "mature day i s st = Ok st' \<Longrightarrow> interest_rows st' = interest_rows st"
  by (auto simp: mature_def Let_def split: if_splits dest!: dep_cash_rows)

lemma start_rows: "start_segment m r first day driver x i = Ok y \<Longrightarrow> interest_rows (fst y) = interest_rows (fst x)"
  by (cases x) (auto simp: start_segment_def Let_def split: if_splits dest!: mature_rows)

lemma moves_rows: "interest_rows (fst (foldl (move_to_segment r day i share to) x js)) = interest_rows (fst x)"
  by (induction js arbitrary: x) (auto simp: move_to_segment_def Let_def split: prod.splits)

lemma row_allocate_rows:
  assumes "row_allocate m r first day driver routes x i = Ok y"
  shows "interest_rows (fst y) = interest_rows (fst x)"
proof -
  obtain st nb na where x: "x = (st, nb, na)" by (cases x)
  show ?thesis
  proof (cases "is_active day (segments r ! i)")
    case True
    let ?s = "segments r ! i"
    obtain h where h: "intensity r first day driver routes (paid_rates st) i = Ok h"
      using assms True by (cases "intensity r first day driver routes (paid_rates st) i") (simp_all add: x row_allocate_def Let_def)
    obtain exited share where es: "exit_share m (total_intensity h) = (exited, share)" by fastforce
    have "\<exists>u w wd wi cl ci v1 v2 b2 b3 c e z cs nb' na'. dep_cash day (segment_id ?s) ''withdrawal'' wd wi (st\<lparr>withdrawals := v1, closures := v2\<rparr>) = Ok u
      \<and> dep_cash day (segment_id ?s) ''closure'' cl ci u = Ok w
      \<and> y = foldl (move_to_segment r day i share (move_at h))
          (emit day ?s ''competing_withdrawal_closure'' b2 b3 c e z cs w, nb', na') [0..<length (move_at h)]"
      using assms True h es unfolding x row_allocate_def Let_def by simp metis
    then obtain u w wd wi cl ci v1 v2 b2 b3 c e z cs nb' na' where
      u: "dep_cash day (segment_id ?s) ''withdrawal'' wd wi (st\<lparr>withdrawals := v1, closures := v2\<rparr>) = Ok u"
      and w: "dep_cash day (segment_id ?s) ''closure'' cl ci u = Ok w"
      and y: "y = foldl (move_to_segment r day i share (move_at h))
          (emit day ?s ''competing_withdrawal_closure'' b2 b3 c e z cs w, nb', na') [0..<length (move_at h)]"
      by (elim exE conjE)
    show ?thesis using dep_cash_rows [OF u] dep_cash_rows [OF w] by (simp add: y x moves_rows)
  qed (use assms x in \<open>auto simp: row_allocate_def\<close>)
qed

lemma credit_rows:
  assumes "credit_segment r day driver x i = Ok y" "rows_until (day + 1) (fst x)"
  shows "rows_until (day + 1) (fst y)"
proof -
  obtain st nb na where x: "x = (st, nb, na)" by (cases x)
  have "interest_rows (fst y) = interest_rows st \<or> (\<exists>a. interest_rows (fst y) = interest_rows st
        @ [\<lparr> interest_start = day, interest_end = day + 1, interest_segment = segment_id (segments r ! i), interest_amount = a \<rparr>])"
    using assms(1) unfolding x credit_segment_def Let_def
    by (auto split: if_splits dest!: dep_cash_rows)
  then show ?thesis using assms(2) by (auto simp: x rows_until_def sorted_append)
qed

lemma day_rows:
  assumes f: "dep_day chk m r first routes st day = Ok st'" and st: "rows_until day st"
  shows "rows_until (day + 1) st'"
proof -
  let ?n = "length (segments r)"
  let ?z = "replicate ?n (0 :: f64)" and ?f = "replicate ?n False"
  obtain driver s1 out ass x y k where
    p1: "fold_res (start_segment m r first day driver) (st\<lparr>checks := k\<rparr>, ?f, ?f) [0..<?n] = Ok (s1, out, ass)"
    and p2: "fold_res (row_allocate m r first day driver routes) (s1, ?z, ?z) [0..<?n] = Ok x"
    and p3: "fold_res (credit_segment r day driver) x [0..<?n] = Ok y"
    and p4: "close_deposit_day r day out ass y = Ok st'"
    using f by (auto simp: dep_day_def Let_def)
  have "interest_rows (fst (s1, out, ass)) = interest_rows st"
    by (rule fold_res_inv [OF p1, where I = "\<lambda>z. interest_rows (fst z) = interest_rows st"]) (simp_all add: start_rows)
  moreover have "interest_rows (fst x) = interest_rows s1"
    by (rule fold_res_inv [OF p2, where I = "\<lambda>z. interest_rows (fst z) = interest_rows s1"]) (simp_all add: row_allocate_rows)
  ultimately have "rows_until (day + 1) (fst x)" using rows_later [OF st, of "day + 1"] by (simp add: rows_until_def)
  then have "rows_until (day + 1) (fst y)"
    by (rule fold_res_inv [OF p3, where I = "\<lambda>z. rows_until (day + 1) (fst z)"]) (rule credit_rows)
  moreover have "interest_rows st' = interest_rows (fst y)" using p4 by (cases y) (auto simp: close_deposit_day_def Let_def)
  ultimately show ?thesis by (simp add: rows_until_def)
qed

lemma terminate_rows:
  assumes "terminate r fin st = Ok st'"
  shows "interest_rows st' = interest_rows st"
proof -
  let ?n = "length (segments r)"
  obtain u where u: "fold_res (\<lambda>st i. mature fin i (segments r ! i) st) st [0..<?n] = Ok u"
    using assms by (cases "fold_res (\<lambda>st i. mature fin i (segments r ! i) st) st [0..<?n]") (simp_all add: terminate_def Let_def)
  obtain v where v: "(if is_liquidation (terminal_policy r) then fold_res (liquidate r fin) u [0..<?n] else Ok u) = Ok v"
    using assms u by (cases "if is_liquidation (terminal_policy r) then fold_res (liquidate r fin) u [0..<?n] else Ok u")
      (simp_all add: terminate_def Let_def)
  have w: "interest_rows st' = interest_rows v" using assms u v by (auto simp: terminate_def Let_def)
  have l: "liquidate r fin s i = Ok s' \<Longrightarrow> interest_rows s' = interest_rows s" for s i s'
    by (auto simp: liquidate_def Let_def dest!: dep_cash_rows)
  have "interest_rows u = interest_rows st"
    by (rule fold_res_inv [OF u, where I = "\<lambda>z. interest_rows z = interest_rows st"]) (simp_all add: mature_rows)
  moreover have "interest_rows v = interest_rows u"
  proof (cases "is_liquidation (terminal_policy r)")
    case True
    then have "fold_res (liquidate r fin) u [0..<?n] = Ok v" using v by simp
    then show ?thesis by (rule fold_res_inv [where I = "\<lambda>z. interest_rows z = interest_rows u"]) (simp_all add: l)
  qed (use v in simp)
  ultimately show ?thesis using w by simp
qed

text \<open>
  C34. Every deposit replay feeds the arena: its interest is earned over nonempty periods in order of
  their ends and its cash is in order of dates, so that when nothing is earned or received by the bank
  with the opposite sign the arena admits the replay.
\<close>

theorem replay_feeds_arena:
  assumes "simulate_inner chk m k out r = Ok (res, atoms)"
    and "\<forall>x \<in> set (dep_interest res). good (interest_amount x)"
    and "\<forall>c \<in> set (dep_cashflows res). good (- dep_cash_interest c)"
  shows "arena_source res"
proof -
  obtain fin first c routes st st' where v: "validate_with_check chk k r = Ok (fin, first, c)"
    and f: "fold_res (dep_day chk m r first routes) (opening_deposits r out c) [dep_as_of r..fin - 1] = Ok st"
    and t: "terminate r fin st = Ok st'" and res: "res = dep_report r st'"
    using assms(1) unfolding simulate_inner_def by auto
  have le: "dep_as_of r \<le> fin - 1 + 1" using request_admitted [OF v] by (simp add: admitted_def)
  have "rows_until (fin - 1 + 1) st"
  proof (rule fold_upto_inv [OF f _ le, where I = rows_until])
    show "rows_until (dep_as_of r) (opening_deposits r out c)" by (simp add: rows_until_def opening_deposits_def Let_def)
  qed (rule day_rows)
  then have "rows_until fin st'" using terminate_rows [OF t] by (simp add: rows_until_def)
  then have "sorted (map interest_end (dep_interest res))" "\<forall>x \<in> set (dep_interest res). interest_start x < interest_end x"
    by (simp_all add: rows_until_def res dep_report_def)
  moreover have "sorted (map dep_cash_ordinal (dep_cashflows res))" by (simp add: res dep_report_def)
  ultimately show ?thesis using assms(2,3) by (auto simp: arena_source_def good_def)
qed

theorem replay_feeds_arena_witness:
  "\<exists>res atoms. simulate_inner (\<lambda>_. None) \<lparr> exp_of = \<lambda>_. 1, exp_m1_of = \<lambda>_. 0 \<rparr> 0 None run_request = Ok (res, atoms)
     \<and> length (dep_cashflows res) = 1 \<and> arena_source res"
proof -
  obtain res atoms where r: "simulate_inner (\<lambda>_. None) \<lparr> exp_of = \<lambda>_. 1, exp_m1_of = \<lambda>_. 0 \<rparr> 0 None run_request = Ok (res, atoms)"
    "length (dep_cashflows res) = 1" "dep_interest res = []" "\<forall>c \<in> set (dep_cashflows res). good (- dep_cash_interest c)"
    using run_pays_no_interest unfolding good_def by blast
  have "\<forall>x \<in> set (dep_interest res). good (interest_amount x)" using r(3) by simp
  from replay_feeds_arena [OF r(1) this r(4)] r show ?thesis by blast
qed

end
