(* ===== verification/Spec2Isabelle.thy ===== *)
theory Spec2Isabelle
  imports Journal_Reduction Gregorian Accrual Dated_Cashflow Calendars Floating_Rate
    Dependency_Graph Lifecycle_Types Lifecycle_Admission Lifecycle_Limits Lifecycle_Admitted
    Lifecycle_Settlement Lifecycle_Policy Compute_Control Graph_Cache
    Consumer_Contracts Installment_State Revolving_Amounts Acquisition_Balance Acquisition_Total
    Deposit_Capture Deposit_Feed
begin

text \<open>
  Verification development of the native portfolio engine.

  \<^bold>\<open>The program.\<close> The repository simulates a bank's balance sheet. Its Rust packages under
  \<^verbatim>\<open>src/packages\<close> hold the core: \<^verbatim>\<open>portfolio-model-core\<close> (dated cashflows, conventions, product and
  lifecycle contracts), \<^verbatim>\<open>portfolio-ledger-native\<close> (the journal and its replay),
  \<^verbatim>\<open>portfolio-risk-native\<close> (calendars, curves, pricing and the dependency graph that caches pricing
  nodes), \<^verbatim>\<open>portfolio-compute-control\<close> (deadlines and cancellation of requests),
  \<^verbatim>\<open>portfolio-decision-native\<close> and \<^verbatim>\<open>portfolio-verification-native\<close>. A request is decoded,
  admitted, computed under a \<^verbatim>\<open>Control\<close>, and answered from the cache where it can be; its journal
  is reduced onto the ledger.

  \<^bold>\<open>Foundations.\<close>
  \<^item> \<^verbatim>\<open>Prelude\<close>: results (\<open>Ok\<close>, \<open>Err\<close>, \<open>Panic\<close>) and the \<open>?\<close> operator, checked integer arithmetic,
    slices, loops that stop at the first error, the collections of hints. A panic (index, overflow,
    \<open>unwrap\<close>, \<open>expect\<close>) is a value, so that its absence is a theorem.
  \<^item> \<^verbatim>\<open>Rounding\<close>: rounding to nearest even on the reals as the locale \<open>rounding\<close>, interpreted on the
    actual grid of binary64 (\<open>rne\<close>). \<^verbatim>\<open>Float64\<close>: \<open>f64\<close> as a datatype with sign, mantissa and
    exponent, executable, including signed zeros, infinities and NaN; sums of whole numbers below
    2 to the 53 are exact.

  \<^bold>\<open>Components, in the order of the source packages.\<close>
  \<^item> \<^verbatim>\<open>Gregorian\<close>, \<^verbatim>\<open>Accrual\<close>, \<^verbatim>\<open>Dated_Cashflow\<close>: \<^verbatim>\<open>portfolio-model-core/src/cashflows/dated.rs\<close>. Days
    are ordinals; the locale \<open>day_codec\<close> states what the rest of the file relies on (encoding and
    decoding are inverse on the admitted range), interpreted as \<open>greg\<close>. Then day-count fractions,
    overnight compounding, events, schedules, scenario resolution, the proportional overlay.
  \<^item> \<^verbatim>\<open>Floating_Rate\<close>: \<^verbatim>\<open>conventions/floating_rate.rs\<close>, the whole of \<open>evaluate\<close>. \<open>ln_1p\<close> and
    \<open>exp_m1\<close> are parameters: the language leaves their last digits to the platform.
  \<^item> \<^verbatim>\<open>Lifecycle_Types\<close>: \<^verbatim>\<open>lifecycle/types.rs\<close> and \<^verbatim>\<open>lifecycle/journal.rs\<close>. \<^verbatim>\<open>Lifecycle_Admission\<close>:
    \<open>validate\<close> of \<^verbatim>\<open>lifecycle/admission.rs\<close>, one definition per section of the function and per record it
    admits. The iteration order of a \<open>HashMap\<close> is a parameter \<open>hash\<close>, a rank of its keys; admission is
    proved not to depend on it. \<^verbatim>\<open>Dependency_Graph\<close>: \<open>acyclic\<close> of the same file, the depth-first
    search with its explicit stack; the locale \<open>successor_graph\<close> (what a search that has closed
    a set of nodes may conclude) is interpreted on the code's edge list. \<^verbatim>\<open>Lifecycle_Limits\<close> gives the
    tolerances and the peak computation their meaning in real numbers; \<^verbatim>\<open>Lifecycle_Admitted\<close> says what
    an accepted plan satisfies.
  \<^item> \<^verbatim>\<open>Lifecycle_Settlement\<close>: \<open>walk\<close> of \<^verbatim>\<open>lifecycle/settlement.rs\<close>, against \<open>settles\<close>, the inductive
    specification of which obligations can settle. \<^verbatim>\<open>Lifecycle_Policy\<close>: admission of the funding policy
    and the monthly reports of \<^verbatim>\<open>lifecycle/policy.rs\<close>.
  \<^item> The acquisition engine, \<open>replay_with_margin\<close> of \<^verbatim>\<open>lifecycle/acquisition.rs\<close>, in five theories.
    \<^verbatim>\<open>Acquisition_Types\<close>: instructions, events, receipts and the journal. \<^verbatim>\<open>Acquisition_Book\<close>: the \<open>Book\<close>
    and its methods (\<open>post\<close>, \<open>fund\<close>, \<open>act\<close>, \<open>apply\<close>, \<open>closing\<close>), its \<open>BTreeMap\<close>s being the sorted lists of
    \<^verbatim>\<open>Ordered_Map\<close>. \<^verbatim>\<open>Acquisition_Events\<close>: the admission of the instructions, one definition per kind,
    the events they queue, the settlement order. \<^verbatim>\<open>Acquisition_Replay\<close>: the local variables as the
    record \<open>Run\<close>, one definition per arm of the match on an event's body, the day loop with the funding
    policy of its start and end, the opening book, the conservation receipt and the journal.
    \<^verbatim>\<open>Float_Sqrt\<close>: the correctly rounded square root of the margin method. Then the proofs:
    \<^verbatim>\<open>Acquisition_Evolution\<close> (what a step may do to the book: append entries that the abstract
    \<open>Ledger\<close> replays, record policy actions, nothing else), \<^verbatim>\<open>Acquisition_Order\<close> (what the admitted
    events satisfy), \<^verbatim>\<open>Acquisition_Journal\<close> (the invariant of the run and the theorems on an accepted
    journal), \<^verbatim>\<open>Acquisition_Sample\<close> (an execution that is accepted, where the theorems are applied),
    \<^verbatim>\<open>Whole_Amounts\<close> and \<^verbatim>\<open>Acquisition_Balance\<close> (the balance sheet balances exactly in
    whole units while the opening and all postings stay in the exact range of doubles),
    \<^verbatim>\<open>Acquisition_Total\<close> (nothing panics).
    The locale \<open>ledger\<close> of \<^verbatim>\<open>Ordered_Map\<close> states what posting to a map of balances does.
  \<^item> \<^verbatim>\<open>Consumer_Contracts\<close>, \<^verbatim>\<open>Installment_State\<close>: \<^verbatim>\<open>products/consumer/contracts.rs\<close> and
    \<^verbatim>\<open>products/installment/state.rs\<close>. The local variables of \<open>project\<close> are the record \<open>Loan\<close>; the body of
    its loop is \<open>day_step\<close>, made of \<open>accrue\<close>, \<open>act\<close>, \<open>scheduled\<close>, \<open>pay\<close> and \<open>close_day\<close>. \<open>powf\<close> is a parameter.
  \<^item> \<^verbatim>\<open>Consumer_Amounts\<close>: facts on amounts and identities the two consumer products share.
    \<^verbatim>\<open>Revolving_State\<close>: \<^verbatim>\<open>products/revolving/state.rs\<close>, credit cards. The local variables of \<open>simulate\<close> are the
    record \<open>Card\<close>, a draw or fee is a \<open>Lot\<close>; the body of its loop is \<open>card_day\<close>, made of \<open>card_accrue\<close>, the
    actions (\<open>card_draw\<close>, \<open>card_fee\<close>, \<open>card_pay\<close>, \<open>card_default\<close>), \<open>card_due\<close>, \<open>card_statement\<close> and
    \<open>close_card_day\<close>. \<^verbatim>\<open>Revolving_Facts\<close> holds the invariant of the days, \<^verbatim>\<open>Revolving_Payments\<close> the order and
    the conservation of payments, \<^verbatim>\<open>Revolving_Amounts\<close> the bounds of every reported amount.
  \<^item> \<^verbatim>\<open>Deposit_State\<close>: \<^verbatim>\<open>products/deposits/state.rs\<close> and \<^verbatim>\<open>products/deposits/principal.rs\<close>. The local
    variables of \<open>simulate_inner\<close> are the record \<open>Deposits\<close>; a day (\<open>dep_day\<close>) matures and reprices every
    segment (\<open>start_segment\<close>), lets withdrawal, closure and migration compete for what is left
    (\<open>row_allocate\<close>), credits inflow and interest (\<open>credit_segment\<close>) and checks conservation. \<open>exp\<close> and
    \<open>exp_m1\<close> are the parameters \<open>Maths\<close>, the caller's checks a sequence of answers. \<^verbatim>\<open>Deposit_Facts\<close> says what
    an admitted request covers and that nothing panics, \<^verbatim>\<open>Deposit_Maturity\<close> holds the invariant of the days,
    \<^verbatim>\<open>Deposit_Run\<close> a run with the theorems on matured segments and paid rates, \<^verbatim>\<open>Deposit_Capture\<close> what the
    sink of principal atoms observes.
  \<^item> \<^verbatim>\<open>Deposit_Rights\<close>: \<open>rights\<close> and \<open>complete_rights\<close> of \<^verbatim>\<open>products/deposits/continuation.rs\<close> and
    the whole of \<^verbatim>\<open>products/deposits/fifo_capacity.rs\<close>, the arena that computes the same rights with a
    cursor in reserved memory. Its loop state is the record \<open>Fifo\<close>, its \<open>while\<close> loop \<open>fifo_scan\<close>; sizes,
    allocator and JSON chunks are the record \<open>Host\<close>. \<^verbatim>\<open>Deposit_Fifo\<close> proves that the arena refines \<open>rights\<close>
    within its reservations and that rights that are not negative are retired in the order
    of the source, \<^verbatim>\<open>Deposit_Feed\<close> that a replay is in
    the order the arena requires.
  \<^item> \<^verbatim>\<open>Journal_Reduction\<close>: \<^verbatim>\<open>portfolio-ledger-native/src/journal/reduction.rs\<close>, compensated
    summation and the atomic posting of a journal.
  \<^item> \<^verbatim>\<open>Calendars\<close>: \<^verbatim>\<open>portfolio-risk-native/src/conventions/mod.rs\<close>, holidays, business-day adjustment
    with its memo table (the locale \<open>memo_query\<close>, interpreted as \<open>cal\<close>), coupon schedules.
  \<^item> \<^verbatim>\<open>Compute_Control\<close>: \<^verbatim>\<open>portfolio-compute-control/src/lib.rs\<close>. Shared flags live in a store, the
    thread's active control is part of the state, the clock is a parameter.
  \<^item> \<^verbatim>\<open>Graph_Cache\<close>: \<^verbatim>\<open>portfolio-risk-native/src/graph/cache.rs\<close>. Keys with shared parents, their
    reference counts, two recency queues, byte and entry limits, batches.

  \<^bold>\<open>How they interact.\<close> \<open>evaluate\<close> and the calendars use the day codec; the policy reports use it for
  their months. The admission calls the dependency check twice, for actions and for obligations;
  the walk runs on admitted plans and its theorems assume exactly that the admission accepted. The
  acquisition engine runs on an admitted plan and one request; it validates the business plan and
  builds the monthly reports with \<^verbatim>\<open>Lifecycle_Policy\<close>, from the liquidity steps and intents it emits. The
  cache is used by the pricing graph under the active control.

  \<^bold>\<open>What the theorems show.\<close> For each component: that it is total (no panic, loops terminate, errors
  only where the code states them), what a result is on every branch, and the invariant that its
  operations keep. Of the admission: an accepted plan has unique identities, typed references,
  acyclic and ordered dependencies and no inventory used twice. Of the walk: it implements the
  least-fixpoint specification, conserves cash and, without failures and cross-account
  dependencies, settles everything. Of the acquisition engine: its closings
  are what its opening and its intents give when posted again, every intent balances, every event
  is reported once with the status its dependencies give it, cash is never overdrawn, the balance
  sheet balances in whole units inside the exact range of doubles, and on an admitted plan nothing panics. Of the
  journal reduction: each line is posted once, a refused journal
  changes nothing, the compensated sum is exact. Of the cache: it is transparent to its callers
  and its bookkeeping never drifts. Each statement that has a hypothesis is followed by its use on a
  concrete input.

  \<^bold>\<open>Bounds and termination.\<close> No fuel is used; the counter of \<open>count_output\<close> is the
  code's own limit of four rounds. Searches and walks are functions with a termination
  proof: the calendar walk by the distance to the ends of the supported years, the
  arena's cursor loop by its visits, which the plan bounds, the
  depth-first search by the number of unvisited nodes and the work left on its stack, the eviction
  loop by the length of its queues. Widths: day ordinals are \<open>int\<close> with explicit range checks,
  \<open>usize\<close> and \<open>u64\<close> counters are \<open>nat\<close> with the checks the code has. Additions and subtractions of
  \<open>i32\<close> ordinals that the code does not check are \<open>Panic\<close> outside the range, as in a build with
  overflow checks. The event and action counters of the acquisition engine are \<open>u32\<close> in the code and
  \<open>nat\<close> here: at most three are taken per event or facility and day, far below 2 to the 32.

  \<^bold>\<open>Not modelled.\<close> JSON decoding and encoding (\<open>admit\<close> before it calls \<open>validate\<close>, \<open>serde\<close>
  derives, \<open>Cache::info\<close>), hashing itself, threads other than as changes of shared flags. The
  replay engines of the ledger, the other product contracts (mortgages, the source and revised income
  of deposits beyond the rights), the pricing models, the decision engine and the independent verification package are not modelled
  yet; the HTTP service, Python services and the web client are input and output.
\<close>

end
